(* ===== verification/Prelude.thy ===== *)
theory Prelude
  imports Main "HOL-Library.Multiset" "HOL-Library.Word" "HOL-Library.Sublist"
begin

text \<open>
  What the components share: the hint collections of the development, the result type of code that
  can fail, unsigned 64-bit addition and subtraction written on naturals, and lemmas on sorted
  lists, integer intervals and list updates that several component theories use.
\<close>

named_theorems planner_simps "unfolding rules of the memory planner model"
named_theorems tracker_simps "unfolding rules of the L1 tracker model"
named_theorems verify_simps "unfolding rules of the operation verifiers"

section \<open>Results\<close>

text \<open>A function that can report an error returns \<open>Inl e\<close>; a verifier that
  succeeds returns \<open>Inr ()\<close>.\<close>

type_synonym ('e, 'a) result = "'e + 'a"
type_synonym 'e verdict = "'e + unit"

abbreviation success :: "'e verdict" where
  "success \<equiv> Inr ()"

text \<open>Running one check after another: the first error is the result.\<close>

fun and_then :: "'e verdict \<Rightarrow> 'e verdict \<Rightarrow> 'e verdict" where
  "and_then (Inl e) k = Inl e"
| "and_then (Inr u) k = k"

lemma and_then_success [simp]: "and_then a b = success \<longleftrightarrow> a = success \<and> b = success"
  by (cases a) auto

text \<open>A check made for every element, in order.\<close>

fun check_all :: "('a \<Rightarrow> 'e verdict) \<Rightarrow> 'a list \<Rightarrow> 'e verdict" where
  "check_all f [] = success"
| "check_all f (x # xs) = and_then (f x) (check_all f xs)"

lemma check_all_success [simp]: "check_all f xs = success \<longleftrightarrow> (\<forall>x\<in>set xs. f x = success)"
  by (induction xs) auto

section \<open>Unsigned 64-bit arithmetic on naturals\<close>

definition add64 :: "nat \<Rightarrow> nat \<Rightarrow> nat" where
  "add64 a b = (a + b) mod 2 ^ 64"

definition sub64 :: "nat \<Rightarrow> nat \<Rightarrow> nat" where
  "sub64 a b = (a + 2 ^ 64 - b) mod 2 ^ 64"

lemma add64_exact [simp]: "a + b < 2 ^ 64 \<Longrightarrow> add64 a b = a + b"
  by (simp add: add64_def)

lemma sub64_exact [simp]: "b \<le> a \<Longrightarrow> a < 2 ^ 64 \<Longrightarrow> sub64 a b = a - b"
proof -
  assume "b \<le> a" "a < 2 ^ 64"
  then have "a + 2 ^ 64 - b = (a - b) + 2 ^ 64" and "a - b < 2 ^ 64" by linarith+
  then show ?thesis unfolding sub64_def by (simp only: mod_add_self2 mod_less)
qed

lemma add64_less: "add64 a b < 2 ^ 64"
  by (simp add: add64_def)

text \<open>A step of an \<open>unsigned\<close> 32-bit counter.\<close>

definition inc32 :: "nat \<Rightarrow> nat" where
  "inc32 c = (c + 1) mod 2 ^ 32"

definition dec32 :: "nat \<Rightarrow> nat" where
  "dec32 c = (c + 2 ^ 32 - 1) mod 2 ^ 32"

lemma inc32_exact: "c + 1 < 2 ^ 32 \<Longrightarrow> inc32 c = c + 1"
  by (simp add: inc32_def)

lemma dec32_exact:
  assumes "0 < c" "c < 2 ^ 32"
  shows "dec32 c = c - 1"
proof -
  have "dec32 c = ((c - 1) + 2 ^ 32) mod 2 ^ 32" using assms(1) by (simp add: dec32_def)
  then show ?thesis using assms(2) by simp
qed

section \<open>Sorted lists\<close>

text \<open>Insertion before the first element that must come later.\<close>

fun insert_by :: "('a \<Rightarrow> 'a \<Rightarrow> bool) \<Rightarrow> 'a \<Rightarrow> 'a list \<Rightarrow> 'a list" where
  "insert_by lt x [] = [x]"
| "insert_by lt x (y # ys) = (if lt x y then x # y # ys else y # insert_by lt x ys)"

lemma mset_insert_by [simp]: "mset (insert_by lt x ys) = add_mset x (mset ys)"
  by (induction ys) auto

lemma set_insert_by [simp]: "set (insert_by lt x ys) = insert x (set ys)"
  by (induction ys) auto

lemma length_insert_by [simp]: "length (insert_by lt x ys) = Suc (length ys)"
  by (induction ys) auto

lemma sorted_insert_by:
  assumes tr: "\<And>a b c. \<not> lt b a \<Longrightarrow> \<not> lt c b \<Longrightarrow> \<not> lt c a"
    and as: "\<And>a b. lt a b \<Longrightarrow> \<not> lt b a"
    and "sorted_wrt (\<lambda>a b. \<not> lt b a) ys"
  shows "sorted_wrt (\<lambda>a b. \<not> lt b a) (insert_by lt x ys)"
  using assms(3)
proof (induction ys)
  case Nil
  then show ?case by simp
next
  case (Cons y ys)
  show ?case
  proof (cases "lt x y")
    case True
    then have "\<not> lt y x" by (rule as)
    moreover have "\<not> lt z x" if "z \<in> set ys" for z
      using Cons.prems that \<open>\<not> lt y x\<close> by (intro tr [where a = x and b = y and c = z]) auto
    ultimately show ?thesis using True Cons.prems by simp
  next
    case False
    with Cons show ?thesis by auto
  qed
qed

section \<open>Half-open integer intervals\<close>

text \<open>Two half-open ranges of addresses that share no address.\<close>

definition ranges_disjoint :: "int \<Rightarrow> int \<Rightarrow> int \<Rightarrow> int \<Rightarrow> bool" where
  "ranges_disjoint a la b lb \<longleftrightarrow> a + la \<le> b \<or> b + lb \<le> a"

lemma ranges_disjoint_commute: "ranges_disjoint a la b lb \<longleftrightarrow> ranges_disjoint b lb a la"
  by (auto simp: ranges_disjoint_def)

lemma ranges_disjoint_sets:
  "ranges_disjoint a la b lb \<Longrightarrow> {a..<a + la} \<inter> {b..<b + lb} = {}"
  by (auto simp: ranges_disjoint_def)

text \<open>Pairwise disjoint ranges inside \<open>[0, M)\<close> have total length at most
  \<open>M\<close>.\<close>

lemma sum_disjoint_ranges_le:
  fixes off len :: "'i \<Rightarrow> int"
  assumes fin: "finite I"
    and inside: "\<And>i. i \<in> I \<Longrightarrow> 0 \<le> off i \<and> 0 \<le> len i \<and> off i + len i \<le> M"
    and disj: "\<And>i j. i \<in> I \<Longrightarrow> j \<in> I \<Longrightarrow> i \<noteq> j \<Longrightarrow> ranges_disjoint (off i) (len i) (off j) (len j)"
    and "0 \<le> M"
  shows "(\<Sum>i\<in>I. len i) \<le> M"
proof -
  let ?R = "\<lambda>i. {off i..<off i + len i}"
  have apart: "\<forall>i\<in>I. \<forall>j\<in>I. i \<noteq> j \<longrightarrow> ?R i \<inter> ?R j = {}"
    using disj ranges_disjoint_sets by blast
  have "card (\<Union>i\<in>I. ?R i) = (\<Sum>i\<in>I. card (?R i))"
    using fin apart by (intro card_UN_disjoint) auto
  moreover have "card (\<Union>i\<in>I. ?R i) \<le> card {0..<M}"
    using inside by (intro card_mono) fastforce+
  ultimately have "(\<Sum>i\<in>I. card (?R i)) \<le> nat M"
    by simp
  then have "int (\<Sum>i\<in>I. card (?R i)) \<le> M"
    using \<open>0 \<le> M\<close> by linarith
  moreover have "int (\<Sum>i\<in>I. card (?R i)) = (\<Sum>i\<in>I. len i)"
    using inside by (simp only: of_nat_sum) (auto intro!: sum.cong)
  ultimately show ?thesis by simp
qed

section \<open>Lists\<close>

lemma sorted_wrt_nth_leD:
  "sorted_wrt P xs \<Longrightarrow> i < j \<Longrightarrow> j < length xs \<Longrightarrow> P (xs ! i) (xs ! j)"
  by (auto simp: sorted_wrt_iff_nth_less)

lemma sum_list_filter_eq_sum:
  "distinct xs \<Longrightarrow> (\<Sum>x\<leftarrow>filter P xs. f x) = sum f {x \<in> set xs. P x}"
  by (simp add: sum_list_distinct_conv_sum_set)

lemma sum_list_mset_cong: "mset xs = mset ys \<Longrightarrow> (\<Sum>x\<leftarrow>xs. f x :: int) = (\<Sum>x\<leftarrow>ys. f x)"
  by (metis mset_map sum_mset_sum_list)

lemma sum_list_member:
  assumes "distinct xs" "i \<in> set xs"
  shows "(\<Sum>k\<leftarrow>xs. f k :: int) = f i + (\<Sum>k\<leftarrow>filter (\<lambda>k. k \<noteq> i) xs. f k)"
proof -
  have "{x \<in> set xs. x \<noteq> i} = set xs - {i}" by auto
  with assms sum.remove [of "set xs" i f] show ?thesis
    by (simp add: sum_list_filter_eq_sum sum_list_distinct_conv_sum_set)
qed

section \<open>Running maxima\<close>

definition max_over :: "('a \<Rightarrow> int) \<Rightarrow> 'a list \<Rightarrow> int \<Rightarrow> int" where
  "max_over f xs m = fold (\<lambda>x m. max m (f x)) xs m"

lemma max_over_Nil [simp]: "max_over f [] m = m"
  by (simp add: max_over_def)

lemma max_over_Cons [simp]: "max_over f (x # xs) m = max_over f xs (max m (f x))"
  by (simp add: max_over_def)

lemma max_over_cong: "(\<And>x. x \<in> set xs \<Longrightarrow> f x = g x) \<Longrightarrow> max_over f xs m = max_over g xs m"
  unfolding max_over_def by (rule fold_cong) auto

lemma max_over_le_iff: "max_over f xs m \<le> b \<longleftrightarrow> m \<le> b \<and> (\<forall>x\<in>set xs. f x \<le> b)"
  by (induction xs arbitrary: m) auto

lemma max_over_ge: "m \<le> max_over f xs m" "x \<in> set xs \<Longrightarrow> f x \<le> max_over f xs m"
  using max_over_le_iff [of f xs m "max_over f xs m"] by auto

lemma max_over_attained: "max_over f xs m = m \<or> (\<exists>x\<in>set xs. max_over f xs m = f x)"
proof (induction xs arbitrary: m)
  case Nil
  show ?case by simp
next
  case (Cons x xs)
  then show ?case by (cases "m \<le> f x") (auto simp: max_def split: if_splits)
qed

section \<open>Division\<close>

lemma div_less_of_mult:
  assumes "(a::int) < b * r" "0 < r"
  shows "a div r < b"
proof -
  have "(a div r) * r \<le> a" using pos_mod_sign [OF assms(2), of a] by (simp add: minus_mod_eq_div_mult [symmetric])
  then have "(a div r) * r < b * r" using assms(1) by simp
  then show ?thesis using assms(2) by simp
qed

end
