(* ===== verification/Queues.thy ===== *)
theory Queues
  imports Prelude
begin

text \<open>
  The two library containers the memory planner relies on, as interfaces.

  \<open>std::priority_queue\<close> (Planner.cpp, \<open>allocateImpl\<close>) is filled once and then
  drained, so what the planner sees of it is the sequence of popped elements. The C++ standard
  leaves the order of equivalent elements open; \<open>legal_pops\<close> says only what it promises.
  \<open>llvm::IntervalTree\<close> (Planner.cpp, \<open>analyze\<close> and \<open>verify\<close>) is asked for
  the entries whose closed interval contains a point; \<open>legal_stab\<close> says that it returns
  exactly those. The planner's definitions take both containers as arguments.
\<close>

section \<open>Draining a priority queue\<close>

definition strict_weak :: "('a \<Rightarrow> 'a \<Rightarrow> bool) \<Rightarrow> bool" where
  "strict_weak lt \<longleftrightarrow> (\<forall>a b. lt a b \<longrightarrow> \<not> lt b a) \<and>
     (\<forall>a b c. \<not> lt a b \<longrightarrow> \<not> lt b c \<longrightarrow> \<not> lt a c)"

text \<open>Every pushed element is popped once, and no element is popped before a greater
  one.\<close>

definition legal_pops :: "(('a \<Rightarrow> 'a \<Rightarrow> bool) \<Rightarrow> 'a list \<Rightarrow> 'a list) \<Rightarrow> bool" where
  "legal_pops pops \<longleftrightarrow> (\<forall>lt xs. mset (pops lt xs) = mset xs \<and>
     (strict_weak lt \<longrightarrow> sorted_wrt (\<lambda>a b. \<not> lt a b) (pops lt xs)))"

locale pop_queue =
  fixes pops :: "('a \<Rightarrow> 'a \<Rightarrow> bool) \<Rightarrow> 'a list \<Rightarrow> 'a list"
  assumes legal: "legal_pops pops"
begin

lemma mset_pops [simp]: "mset (pops lt xs) = mset xs"
  using legal by (simp add: legal_pops_def)

lemma set_pops [simp]: "set (pops lt xs) = set xs"
  by (metis mset_pops set_mset_mset)

lemma distinct_pops [simp]: "distinct (pops lt xs) = distinct xs"
  by (metis mset_pops mset_eq_imp_distinct_iff)

lemma sorted_pops: "strict_weak lt \<Longrightarrow> sorted_wrt (\<lambda>a b. \<not> lt a b) (pops lt xs)"
  using legal by (simp add: legal_pops_def)

end

text \<open>An instance that the kernel can evaluate: the queue kept as a list in pop order.\<close>

definition pq_pops :: "('a \<Rightarrow> 'a \<Rightarrow> bool) \<Rightarrow> 'a list \<Rightarrow> 'a list" where
  "pq_pops lt xs = foldr (insert_by (\<lambda>a b. lt b a)) xs []"

lemma mset_pq_pops: "mset (pq_pops lt xs) = mset xs"
  unfolding pq_pops_def by (induction xs) auto

lemma sorted_pq_pops:
  assumes "strict_weak lt"
  shows "sorted_wrt (\<lambda>a b. \<not> lt a b) (pq_pops lt xs)"
proof (induction xs)
  case Nil
  show ?case by (simp add: pq_pops_def)
next
  case (Cons x xs)
  have tr: "\<not> lt a c" if "\<not> lt a b" "\<not> lt b c" for a b c
    using assms that unfolding strict_weak_def by blast
  have as: "\<not> lt b a" if "lt a b" for a b
    using assms that unfolding strict_weak_def by blast
  have "sorted_wrt (\<lambda>a b. \<not> lt a b) (insert_by (\<lambda>a b. lt b a) x (pq_pops lt xs))"
    by (rule sorted_insert_by [OF _ _ Cons.IH]) (fact tr as)+
  then show ?case by (simp add: pq_pops_def)
qed

lemma legal_pq_pops: "legal_pops pq_pops"
  by (simp add: legal_pops_def mset_pq_pops sorted_pq_pops)

interpretation pq: pop_queue pq_pops
  by unfold_locales (rule legal_pq_pops)

section \<open>Stabbing queries on closed intervals\<close>

text \<open>An entry is \<open>(first, last, value)\<close>; a query returns the values of the entries
  that contain the point, one for each entry inserted.\<close>

type_synonym interval_entry = "int \<times> int \<times> int"

definition contains_point :: "int \<Rightarrow> interval_entry \<Rightarrow> bool" where
  "contains_point x e \<longleftrightarrow> (case e of (l, h, v) \<Rightarrow> l \<le> x \<and> x \<le> h)"

definition entry_value :: "interval_entry \<Rightarrow> int" where
  "entry_value e = snd (snd e)"

definition legal_stab :: "(interval_entry list \<Rightarrow> int \<Rightarrow> int list) \<Rightarrow> bool" where
  "legal_stab stab \<longleftrightarrow> (\<forall>es x. (\<forall>(l, h, v)\<in>set es. l \<le> h) \<longrightarrow>
     mset (stab es x) = mset (map entry_value (filter (contains_point x) es)))"

locale interval_index =
  fixes stab :: "interval_entry list \<Rightarrow> int \<Rightarrow> int list"
  assumes legal: "legal_stab stab"
begin

lemma mset_stab:
  "(\<And>l h v. (l, h, v) \<in> set es \<Longrightarrow> l \<le> h) \<Longrightarrow>
     mset (stab es x) = mset (map entry_value (filter (contains_point x) es))"
  using legal unfolding legal_stab_def by fast

lemma set_stab:
  assumes "\<And>l h v. (l, h, v) \<in> set es \<Longrightarrow> l \<le> h"
  shows "set (stab es x) = entry_value ` {e \<in> set es. contains_point x e}"
proof -
  have "set (stab es x) = set (map entry_value (filter (contains_point x) es))"
    using mset_stab [OF assms] by (rule mset_eq_setD)
  then show ?thesis by simp
qed

end

definition scan_stab :: "interval_entry list \<Rightarrow> int \<Rightarrow> int list" where
  "scan_stab es x = map entry_value (filter (contains_point x) es)"

lemma legal_scan_stab: "legal_stab scan_stab"
  by (simp add: legal_stab_def scan_stab_def)

interpretation scan: interval_index scan_stab
  by unfold_locales (rule legal_scan_stab)

end
