(* ===== verification/PlannerModel.thy ===== *)
theory PlannerModel
  imports Queues
begin

text \<open>
  The data of the memory planner (include/ttmlir/Dialect/D2M/Analysis/Allocation/PlannerImpl.h):
  requests, variables and problems, the builder that adds a variable to a problem, \<open>reset\<close>
  and \<open>valid\<close>. \<open>AllocSizeT\<close>, \<open>SequenceT\<close> and \<open>IndexT\<close> are signed
  (-1 stands for "not set"), so they are \<open>int\<close>; the arithmetic on them is additions of
  sizes whose overflow is undefined behaviour in C++ and is not modelled. The index sets of a
  variable's domain are duplicate-free lists in iteration order.
\<close>

section \<open>Types\<close>

type_synonym index = int

datatype algorithm = Simple | Greedy

datatype space = Scratch | Spill | NA

fun space_ordinal :: "space \<Rightarrow> int" where
  "space_ordinal Scratch = 0"
| "space_ordinal Spill = 1"
| "space_ordinal NA = 2"

definition space_less :: "space \<Rightarrow> space \<Rightarrow> bool" where
  "space_less a b \<longleftrightarrow> space_ordinal a < space_ordinal b"

text \<open>The spaces a loop from \<open>Space::begin\<close> to \<open>Space::end\<close> visits.\<close>

definition spaces :: "space list" where
  "spaces = [Scratch, Spill]"

record request =
  r_first :: int
  r_last :: int
  r_size :: int
  r_offset :: int
  r_var :: index

definition live_range_valid :: "request \<Rightarrow> bool" where
  "live_range_valid r \<longleftrightarrow> 0 \<le> r_first r \<and> r_first r \<le> r_last r"

record variable =
  domain :: "space \<Rightarrow> index list"
  placement :: space

record problem =
  requests :: "request list"
  variables :: "variable list"
  bound :: "index set"

definition request_at :: "problem \<Rightarrow> index \<Rightarrow> request" where
  "request_at P i = requests P ! nat i"

definition variable_at :: "problem \<Rightarrow> index \<Rightarrow> variable" where
  "variable_at P i = variables P ! nat i"

record alloc_stats =
  maxSize :: int
  memUsage :: int
  maxLoad :: int

record spill_stats = alloc_stats +
  stepsTaken :: int
  spillCount :: int

section \<open>Problem::valid\<close>

definition request_ok :: "int \<Rightarrow> request \<Rightarrow> bool" where
  "request_ok varCount req \<longleftrightarrow>
     (if r_size req < 0 then False
      else if r_var req < 0 \<or> r_var req \<ge> varCount then False else True)"

definition variable_ok :: "index set \<Rightarrow> int \<Rightarrow> int \<Rightarrow> variable \<Rightarrow> bool" where
  "variable_ok bnd reqCount varIndex var \<longleftrightarrow>
     (if varIndex \<in> bnd \<and> \<not> space_less (placement var) NA then False
      else list_all (\<lambda>s. list_all (\<lambda>i. \<not> (i < 0 \<or> i \<ge> reqCount)) (domain var s)) spaces)"

definition valid :: "problem \<Rightarrow> bool" where
  "valid P \<longleftrightarrow>
     (let varCount = int (length (variables P)); reqCount = int (length (requests P))
      in list_all (request_ok varCount) (requests P) \<and>
         list_all (\<lambda>v. variable_ok (bound P) reqCount (int v) (variables P ! v))
           [0..<length (variables P)])"

section \<open>Problem::reset\<close>

definition clear_offset :: "index \<Rightarrow> request list \<Rightarrow> request list" where
  "clear_offset i reqs = reqs[nat i := (reqs ! nat i)\<lparr>r_offset := -1\<rparr>]"

definition clear_variable :: "variable \<Rightarrow> request list \<Rightarrow> request list" where
  "clear_variable var reqs = fold (\<lambda>s. fold clear_offset (domain var s)) spaces reqs"

definition reset :: "space \<Rightarrow> problem \<Rightarrow> problem" where
  "reset pl P =
     P\<lparr>variables := map (\<lambda>v. if int v \<in> bound P then variables P ! v
                          else (variables P ! v)\<lparr>placement := pl\<rparr>) [0..<length (variables P)],
       requests := fold clear_variable (variables P) (requests P)\<rparr>"

section \<open>VariableBuilder and Problem::def\<close>

record builder =
  b_requests :: "request list"
  b_spaces :: "space list"
  b_placement :: space

definition new_builder :: builder where
  "new_builder = \<lparr>b_requests = [], b_spaces = [], b_placement = NA\<rparr>"

text \<open>The calls a client can make on the builder.\<close>

datatype builder_call =
    Request space int int int
  | Place space
  | Bind space

text \<open>\<open>request\<close> returns the index the request will have; \<open>bind\<close> marks the
  variable under construction as bound in the parent problem.\<close>

definition builder_request :: "space \<Rightarrow> int \<Rightarrow> int \<Rightarrow> int \<Rightarrow> problem \<times> builder \<Rightarrow> index \<times> problem \<times> builder"
  where
  "builder_request sp sz f l pb = (case pb of (P, b) \<Rightarrow>
     (int (length (requests P) + length (b_requests b)), P,
      b\<lparr>b_requests := b_requests b @
           [\<lparr>r_first = f, r_last = l, r_size = sz, r_offset = -1, r_var = -1\<rparr>],
        b_spaces := b_spaces b @ [sp]\<rparr>))"

definition builder_place :: "space \<Rightarrow> problem \<times> builder \<Rightarrow> problem \<times> builder" where
  "builder_place sp pb = (case pb of (P, b) \<Rightarrow> (P, b\<lparr>b_placement := sp\<rparr>))"

definition builder_bind :: "space \<Rightarrow> problem \<times> builder \<Rightarrow> problem \<times> builder" where
  "builder_bind sp pb = (case pb of (P, b) \<Rightarrow>
     builder_place sp (P\<lparr>bound := insert (int (length (variables P))) (bound P)\<rparr>, b))"

fun builder_step :: "problem \<times> builder \<Rightarrow> builder_call \<Rightarrow> problem \<times> builder" where
  "builder_step pb (Request sp sz f l) = snd (builder_request sp sz f l pb)"
| "builder_step pb (Place sp) = builder_place sp pb"
| "builder_step pb (Bind sp) = builder_bind sp pb"

text \<open>\<open>add\<close>: the new requests are appended in order, each entered in the domain of its
  space.\<close>

fun add_requests :: "(request \<times> space) list \<Rightarrow> index \<Rightarrow> request list \<Rightarrow> variable \<Rightarrow>
    request list \<times> variable" where
  "add_requests [] varIndex reqs var = (reqs, var)"
| "add_requests ((r, s) # rs) varIndex reqs var =
     add_requests rs varIndex (reqs @ [r\<lparr>r_var := varIndex\<rparr>])
       (var\<lparr>domain := (domain var)(s := domain var s @ [int (length reqs)])\<rparr>)"

definition builder_add :: "problem \<times> builder \<Rightarrow> index \<times> problem" where
  "builder_add pb = (case pb of (P, b) \<Rightarrow>
     (let varIndex = int (length (variables P));
          (reqs, var) = add_requests (zip (b_requests b) (b_spaces b)) varIndex (requests P)
            \<lparr>domain = (\<lambda>_. []), placement = b_placement b\<rparr>
      in (varIndex, P\<lparr>requests := reqs, variables := variables P @ [var]\<rparr>)))"

definition problem_def :: "builder_call list \<Rightarrow> problem \<Rightarrow> index \<times> problem" where
  "problem_def calls P = builder_add (foldl builder_step (P, new_builder) calls)"

definition empty_problem :: problem where
  "empty_problem = \<lparr>requests = [], variables = [], bound = {}\<rparr>"

section \<open>Requests of the enabled variables\<close>

text \<open>The loop over \<open>problem.variables\<close> that \<open>allocateImpl\<close>,
  \<open>analyze\<close> and \<open>verify\<close> share: variables with placement \<open>NA\<close> are
  skipped, the others contribute the requests of their current placement.\<close>

definition variable_requests :: "variable \<Rightarrow> index list" where
  "variable_requests var = (if placement var = NA then [] else domain var (placement var))"

definition enabled_requests :: "problem \<Rightarrow> index list" where
  "enabled_requests P = concat (map variable_requests (variables P))"

section \<open>Lemmas on validity and reset\<close>

lemma valid_sizes: "valid P \<Longrightarrow> r \<in> set (requests P) \<Longrightarrow> 0 \<le> r_size r"
  by (auto simp: valid_def Let_def list_all_iff request_ok_def split: if_splits)

lemma valid_domain:
  assumes "valid P" "v \<in> set (variables P)" "i \<in> set (domain v s)" "s \<noteq> NA"
  shows "0 \<le> i \<and> i < int (length (requests P))"
proof -
  from assms(2) obtain k where k: "k < length (variables P)" "v = variables P ! k"
    by (auto simp: in_set_conv_nth)
  with assms(1) have "variable_ok (bound P) (int (length (requests P))) (int k) v"
    by (auto simp: valid_def Let_def list_all_iff)
  with assms(3,4) show ?thesis
    by (cases s) (auto simp: variable_ok_def spaces_def list_all_iff split: if_splits)
qed

lemma valid_enabled:
  assumes "valid P" "i \<in> set (enabled_requests P)"
  shows "0 \<le> i" "nat i < length (requests P)"
proof -
  from assms(2) obtain v where "v \<in> set (variables P)" "i \<in> set (domain v (placement v))" "placement v \<noteq> NA"
    by (auto simp: enabled_requests_def variable_requests_def split: if_splits)
  from valid_domain [OF assms(1) this] show "0 \<le> i" "nat i < length (requests P)"
    by auto
qed

text \<open>Two request lists that differ in offsets only.\<close>

definition same_shape :: "request list \<Rightarrow> request list \<Rightarrow> bool" where
  "same_shape rs ss \<longleftrightarrow> map (\<lambda>r. r\<lparr>r_offset := 0\<rparr>) rs = map (\<lambda>r. r\<lparr>r_offset := 0\<rparr>) ss"

lemma same_shape_refl [simp]: "same_shape rs rs"
  by (simp add: same_shape_def)

lemma same_shape_trans: "same_shape a b \<Longrightarrow> same_shape b c \<Longrightarrow> same_shape a c"
  by (simp add: same_shape_def)

lemma same_shape_sym: "same_shape a b \<Longrightarrow> same_shape b a"
  by (simp add: same_shape_def)

lemma same_shape_length: "same_shape rs ss \<Longrightarrow> length rs = length ss"
  unfolding same_shape_def by (metis length_map)

lemma same_shape_nth:
  assumes "same_shape rs ss" "k < length rs"
  shows "r_first (rs ! k) = r_first (ss ! k)" "r_last (rs ! k) = r_last (ss ! k)"
    "r_size (rs ! k) = r_size (ss ! k)" "r_var (rs ! k) = r_var (ss ! k)"
proof -
  have "(rs ! k)\<lparr>r_offset := 0\<rparr> = (ss ! k)\<lparr>r_offset := 0\<rparr>"
    using assms same_shape_length [OF assms(1)] unfolding same_shape_def
    by (metis (no_types, lifting) nth_map)
  then show "r_first (rs ! k) = r_first (ss ! k)" "r_last (rs ! k) = r_last (ss ! k)"
    "r_size (rs ! k) = r_size (ss ! k)" "r_var (rs ! k) = r_var (ss ! k)"
    by (metis request.select_convs request.surjective request.update_convs(4))+
qed

lemma same_shape_update [simp]:
  "same_shape (rs[k := (rs ! k)\<lparr>r_offset := x\<rparr>]) rs"
  by (cases "k < length rs")
    (auto simp: same_shape_def map_update list_update_same_conv list_update_beyond)

end
