(* ===== verification/PlannerAlloc.thy ===== *)
theory PlannerAlloc
  imports PlannerModel
begin

text \<open>
  The two allocators of lib/Dialect/D2M/Analysis/Allocation/Planner.cpp: the bumper allocator
  (\<open>allocateImpl<Simple>\<close>) and the greedy-by-size allocator
  (\<open>allocateImpl<Greedy>\<close>), with the dispatch \<open>Planner::allocate\<close>. Both take
  the priority queue as the argument \<open>pops\<close>. The lemmas are proved in the context of the
  \<open>pop_queue\<close> interface, for every legal queue.
\<close>

section \<open>What a memory plan is\<close>

abbreviation req_end :: "request \<Rightarrow> int" where
  "req_end r \<equiv> r_offset r + r_size r"

definition live_overlap :: "request \<Rightarrow> request \<Rightarrow> bool" where
  "live_overlap r a \<longleftrightarrow> max (r_first r) (r_first a) \<le> min (r_last r) (r_last a)"

text \<open>Requests of \<open>S\<close> that are live together occupy disjoint memory.\<close>

definition conflict_free :: "request list \<Rightarrow> index set \<Rightarrow> bool" where
  "conflict_free reqs S \<longleftrightarrow> (\<forall>i\<in>S. \<forall>j\<in>S. i \<noteq> j \<longrightarrow> live_overlap (reqs ! nat i) (reqs ! nat j) \<longrightarrow>
     ranges_disjoint (r_offset (reqs ! nat i)) (r_size (reqs ! nat i))
                     (r_offset (reqs ! nat j)) (r_size (reqs ! nat j)))"

text \<open>The requests of \<open>S\<close> are placed inside \<open>[0, M)\<close>.\<close>

definition placed_within :: "request list \<Rightarrow> index set \<Rightarrow> int \<Rightarrow> bool" where
  "placed_within reqs S M \<longleftrightarrow> 0 \<le> M \<and>
     (\<forall>i\<in>S. 0 \<le> r_offset (reqs ! nat i) \<and> req_end (reqs ! nat i) \<le> M)"

text \<open>\<open>M\<close> is the least such bound.\<close>

definition makespan :: "request list \<Rightarrow> index set \<Rightarrow> int \<Rightarrow> bool" where
  "makespan reqs S M \<longleftrightarrow> placed_within reqs S M \<and>
     (M = 0 \<or> (\<exists>i\<in>S. req_end (reqs ! nat i) = M))"

lemma live_overlap_commute: "live_overlap a b \<longleftrightarrow> live_overlap b a"
  by (simp add: live_overlap_def max.commute min.commute)

section \<open>The simple allocator\<close>

definition lexicographic :: "request list \<Rightarrow> index \<Rightarrow> index \<Rightarrow> bool" where
  "lexicographic reqs lhs rhs \<longleftrightarrow>
     r_first (reqs ! nat lhs) > r_first (reqs ! nat rhs) \<or>
     (r_first (reqs ! nat lhs) = r_first (reqs ! nat rhs) \<and>
      r_last (reqs ! nat lhs) > r_last (reqs ! nat rhs))"

fun simple_loop :: "index list \<Rightarrow> request list \<Rightarrow> int \<Rightarrow> int \<Rightarrow> request list \<times> int \<times> int" where
  "simple_loop [] reqs mu ms = (reqs, mu, ms)"
| "simple_loop (i # is) reqs mu ms =
     (let r = reqs ! nat i
      in simple_loop is (reqs[nat i := r\<lparr>r_offset := mu\<rparr>]) (mu + r_size r) (max ms (r_size r)))"

definition allocate_simple ::
  "((index \<Rightarrow> index \<Rightarrow> bool) \<Rightarrow> index list \<Rightarrow> index list) \<Rightarrow> problem \<Rightarrow> problem \<times> alloc_stats" where
  "allocate_simple pops P =
     (let order = pops (lexicographic (requests P)) (enabled_requests P);
          (reqs, mu, ms) = simple_loop order (requests P) 0 0
      in (P\<lparr>requests := reqs\<rparr>, \<lparr>maxSize = ms, memUsage = mu, maxLoad = 0\<rparr>))"

section \<open>The greedy allocator\<close>

datatype planner_error =
    InvalidProblem
  | AlreadyAllocated index
  | Unallocated index
  | MemoryOverlap index index
  | NoPositiveLoad
  | LoadExceedsUsage

definition by_size :: "request list \<Rightarrow> index \<Rightarrow> index \<Rightarrow> bool" where
  "by_size reqs lhs rhs \<longleftrightarrow> r_size (reqs ! nat lhs) < r_size (reqs ! nat rhs)"

record gap_search =
  gapBest :: int
  offsetPrev :: int
  offsetBest :: int

definition int64_max :: int where
  "int64_max = 2 ^ 63 - 1"

text \<open>One step of the scan over \<open>allocatedOrderedByOffset\<close>. The gap below a
  conflicting request is compared with the size of that \<open>allocated\<close> request.\<close>

definition gap_step :: "request list \<Rightarrow> request \<Rightarrow> int \<times> index \<Rightarrow> gap_search \<Rightarrow> gap_search" where
  "gap_step reqs r kk st =
     (let a = reqs ! nat (snd kk)
      in if max (r_first r) (r_first a) \<le> min (r_last r) (r_last a)
         then let gap = r_offset a - offsetPrev st;
                  st' = (if gap \<ge> r_size a \<and> gap < gapBest st
                         then st\<lparr>gapBest := gap, offsetBest := offsetPrev st\<rparr> else st)
              in st'\<lparr>offsetPrev := max (offsetPrev st) (req_end a)\<rparr>
         else st)"

definition find_offset :: "request list \<Rightarrow> request \<Rightarrow> (int \<times> index) list \<Rightarrow> int" where
  "find_offset reqs r allocated =
     (let st = fold (gap_step reqs r) allocated
                 \<lparr>gapBest = int64_max, offsetPrev = 0, offsetBest = -1\<rparr>
      in if offsetBest st < 0 then offsetPrev st else offsetBest st)"

text \<open>\<open>std::multimap::emplace\<close> inserts after the equal keys.\<close>

definition emplace :: "int \<Rightarrow> index \<Rightarrow> (int \<times> index) list \<Rightarrow> (int \<times> index) list" where
  "emplace off i = insert_by (\<lambda>a b. fst a < fst b) (off, i)"

fun greedy_loop :: "index list \<Rightarrow> request list \<Rightarrow> (int \<times> index) list \<Rightarrow> int \<Rightarrow> int \<Rightarrow>
    (planner_error, request list \<times> int \<times> int) result" where
  "greedy_loop [] reqs allocated mu ms = Inr (reqs, mu, ms)"
| "greedy_loop (i # is) reqs allocated mu ms =
     (let r = reqs ! nat i
      in if \<not> r_offset r < 0 then Inl (AlreadyAllocated i)
         else let off = find_offset reqs r allocated
              in greedy_loop is (reqs[nat i := r\<lparr>r_offset := off\<rparr>]) (emplace off i allocated)
                   (max mu (off + r_size r)) (max ms (r_size r)))"

definition allocate_greedy ::
  "((index \<Rightarrow> index \<Rightarrow> bool) \<Rightarrow> index list \<Rightarrow> index list) \<Rightarrow> problem \<Rightarrow>
    (planner_error, problem \<times> alloc_stats) result" where
  "allocate_greedy pops P =
     (let order = pops (by_size (requests P)) (enabled_requests P)
      in case greedy_loop order (requests P) [] 0 0 of
           Inl e \<Rightarrow> Inl e
         | Inr (reqs, mu, ms) \<Rightarrow>
             Inr (P\<lparr>requests := reqs\<rparr>, \<lparr>maxSize = ms, memUsage = mu, maxLoad = 0\<rparr>))"

fun allocate ::
  "((index \<Rightarrow> index \<Rightarrow> bool) \<Rightarrow> index list \<Rightarrow> index list) \<Rightarrow> algorithm \<Rightarrow> problem \<Rightarrow>
    (planner_error, problem \<times> alloc_stats) result" where
  "allocate pops Simple P = Inr (allocate_simple pops P)"
| "allocate pops Greedy P = allocate_greedy pops P"

section \<open>The gap search\<close>

text \<open>
  What the scan maintains for a request \<open>r\<close>: every conflict seen so far (\<open>seen\<close>)
  ends below \<open>offsetPrev\<close>, and a remembered offset is clear of the conflicts seen and
  leaves room below the conflicts to come.
\<close>

definition clear_of :: "request list \<Rightarrow> request \<Rightarrow> int \<Rightarrow> index \<Rightarrow> bool" where
  "clear_of reqs r off k \<longleftrightarrow> (live_overlap r (reqs ! nat k) \<longrightarrow>
     ranges_disjoint off (r_size r) (r_offset (reqs ! nat k)) (r_size (reqs ! nat k)))"

definition gap_inv :: "request list \<Rightarrow> request \<Rightarrow> index set \<Rightarrow> index set \<Rightarrow> int \<Rightarrow> gap_search \<Rightarrow> bool"
  where
  "gap_inv reqs r seen todo M st \<longleftrightarrow>
     0 \<le> offsetPrev st \<and> offsetPrev st \<le> M \<and> offsetBest st \<le> M \<and>
     (\<forall>k\<in>seen. live_overlap r (reqs ! nat k) \<longrightarrow> req_end (reqs ! nat k) \<le> offsetPrev st) \<and>
     (0 \<le> offsetBest st \<longrightarrow> (\<forall>k\<in>seen. clear_of reqs r (offsetBest st) k)) \<and>
     (0 \<le> offsetBest st \<longrightarrow> (\<forall>k\<in>todo. live_overlap r (reqs ! nat k) \<longrightarrow>
        offsetBest st + r_size r \<le> r_offset (reqs ! nat k)))"

lemma gap_step_eq:
  "gap_step reqs r (kOff, k) st =
     (let a = reqs ! nat k; gap = r_offset a - offsetPrev st
      in if live_overlap r a
         then (if gap \<ge> r_size a \<and> gap < gapBest st
               then st\<lparr>gapBest := gap, offsetBest := offsetPrev st,
                 offsetPrev := max (offsetPrev st) (req_end a)\<rparr>
               else st\<lparr>offsetPrev := max (offsetPrev st) (req_end a)\<rparr>)
         else st)"
  unfolding gap_step_def live_overlap_def Let_def snd_conv
  by (simp only: if_distrib [of "offsetPrev_update f" for f])

lemma gap_step_skip:
  "\<not> live_overlap r (reqs ! nat k) \<Longrightarrow> gap_step reqs r (kOff, k) st = st"
  by (simp add: gap_step_eq Let_def)

lemma gap_step_prev:
  "live_overlap r (reqs ! nat k) \<Longrightarrow>
     offsetPrev (gap_step reqs r (kOff, k) st) = max (offsetPrev st) (req_end (reqs ! nat k))"
  by (simp add: gap_step_eq Let_def)

text \<open>The remembered offset either stays, or becomes \<open>offsetPrev\<close> when the gap is at
  least as large as the allocated request above it.\<close>

lemma gap_step_best:
  assumes "live_overlap r (reqs ! nat k)"
  obtains (keep) "offsetBest (gap_step reqs r (kOff, k) st) = offsetBest st"
  | (take) "offsetBest (gap_step reqs r (kOff, k) st) = offsetPrev st"
      "offsetPrev st + r_size (reqs ! nat k) \<le> r_offset (reqs ! nat k)"
proof (cases "r_offset (reqs ! nat k) - offsetPrev st \<ge> r_size (reqs ! nat k) \<and>
    r_offset (reqs ! nat k) - offsetPrev st < gapBest st")
  case True
  then have "offsetBest (gap_step reqs r (kOff, k) st) = offsetPrev st"
    using assms by (simp add: gap_step_eq Let_def)
  with True show ?thesis by (intro take) auto
next
  case False
  then have "offsetBest (gap_step reqs r (kOff, k) st) = offsetBest st"
    using assms unfolding gap_step_eq Let_def by (simp only: if_True if_False) simp
  then show ?thesis by (rule keep)
qed

lemma gap_inv_step:
  assumes inv: "gap_inv reqs r seen (insert k todo) M st"
    and size: "r_size r \<le> r_size (reqs ! nat k)"
    and below: "req_end (reqs ! nat k) \<le> M"
    and sorted: "\<And>j. j \<in> todo \<Longrightarrow> r_offset (reqs ! nat k) \<le> r_offset (reqs ! nat j)"
  shows "gap_inv reqs r (insert k seen) todo M (gap_step reqs r (kOff, k) st)"
proof (cases "live_overlap r (reqs ! nat k)")
  case False
  then have "clear_of reqs r (offsetBest st) k"
    by (simp add: clear_of_def)
  with False inv show ?thesis
    by (simp add: gap_inv_def gap_step_skip)
next
  case True
  let ?a = "reqs ! nat k" and ?st = "gap_step reqs r (kOff, k) st"
  have prev: "offsetPrev ?st = max (offsetPrev st) (req_end ?a)"
    by (rule gap_step_prev [OF True])
  have seen: "live_overlap r (reqs ! nat j) \<longrightarrow> req_end (reqs ! nat j) \<le> offsetPrev st" if "j \<in> seen" for j
    using inv that by (simp add: gap_inv_def)
  have ends: "\<forall>j\<in>insert k seen. live_overlap r (reqs ! nat j) \<longrightarrow> req_end (reqs ! nat j) \<le> offsetPrev ?st"
    using seen unfolding prev by force
  have bounds: "0 \<le> offsetPrev ?st" "offsetPrev ?st \<le> M"
    using inv below unfolding prev by (auto simp: gap_inv_def)
  from True show ?thesis
  proof (cases rule: gap_step_best [where st = st and kOff = kOff])
    case keep
    have "clear_of reqs r (offsetBest st) k" if "0 \<le> offsetBest st"
      using inv that True by (auto simp: gap_inv_def clear_of_def ranges_disjoint_def)
    with inv ends bounds keep show ?thesis by (simp add: gap_inv_def)
  next
    case take
    have clear: "clear_of reqs r (offsetPrev st) j" if "j \<in> insert k seen" for j
    proof (cases "j = k")
      case True
      with take(2) size show ?thesis by (simp add: clear_of_def ranges_disjoint_def)
    next
      case False
      with that have "j \<in> seen" by simp
      from seen [OF this] show ?thesis by (simp add: clear_of_def ranges_disjoint_def)
    qed
    have room: "offsetPrev st + r_size r \<le> r_offset (reqs ! nat j)" if "j \<in> todo" for j
      using sorted [OF that] take(2) size by linarith
    from inv have "offsetPrev st \<le> M" by (simp add: gap_inv_def)
    with clear room ends bounds take(1) show ?thesis by (simp add: gap_inv_def)
  qed
qed

lemma gap_inv_fold:
  assumes "gap_inv reqs r seen (snd ` set todo) M st"
    and "\<And>kOff k. (kOff, k) \<in> set todo \<Longrightarrow> kOff = r_offset (reqs ! nat k) \<and>
           r_size r \<le> r_size (reqs ! nat k) \<and> req_end (reqs ! nat k) \<le> M"
    and "sorted_wrt (\<lambda>a b. \<not> fst b < fst a) todo"
  shows "gap_inv reqs r (seen \<union> snd ` set todo) {} M (fold (gap_step reqs r) todo st)"
  using assms
proof (induction todo arbitrary: seen st)
  case Nil
  then show ?case by simp
next
  case (Cons kk todo)
  obtain kOff k where kk: "kk = (kOff, k)" by (cases kk)
  have "r_offset (reqs ! nat k) \<le> r_offset (reqs ! nat j)" if "j \<in> snd ` set todo" for j
  proof -
    from that obtain o' where "(o', j) \<in> set todo" by force
    with Cons.prems(3) have "kOff \<le> o'" by (auto simp: kk)
    with Cons.prems(2) [of kOff k] Cons.prems(2) [of o' j] \<open>(o', j) \<in> set todo\<close> show ?thesis
      by (simp add: kk)
  qed
  moreover have "r_size r \<le> r_size (reqs ! nat k)" "req_end (reqs ! nat k) \<le> M"
    using Cons.prems(2) [of kOff k] by (simp_all add: kk)
  ultimately have "gap_inv reqs r (insert k seen) (snd ` set todo) M (gap_step reqs r (kOff, k) st)"
    using Cons.prems(1) by (intro gap_inv_step) (auto simp: kk)
  moreover have "\<And>kOff k. (kOff, k) \<in> set todo \<Longrightarrow> kOff = r_offset (reqs ! nat k) \<and>
      r_size r \<le> r_size (reqs ! nat k) \<and> req_end (reqs ! nat k) \<le> M"
    using Cons.prems(2) by (meson list.set_intros(2))
  moreover have "sorted_wrt (\<lambda>a b. \<not> fst b < fst a) todo"
    using Cons.prems(3) by simp
  ultimately have "gap_inv reqs r (insert k seen \<union> snd ` set todo) {} M
      (fold (gap_step reqs r) todo (gap_step reqs r (kOff, k) st))"
    by (rule Cons.IH)
  moreover have "insert k seen \<union> snd ` set todo = seen \<union> snd ` set (kk # todo)"
    by (auto simp: kk)
  ultimately show ?case by (simp only: fold_Cons o_apply kk)
qed

text \<open>The offset found is clear of every allocated request and at most one request above the
  memory used so far.\<close>

lemma find_offset_clear:
  assumes alloc: "\<And>kOff k. (kOff, k) \<in> set allocated \<Longrightarrow> kOff = r_offset (reqs ! nat k) \<and>
      r_size r \<le> r_size (reqs ! nat k) \<and> req_end (reqs ! nat k) \<le> M"
    and sorted: "sorted_wrt (\<lambda>a b. \<not> fst b < fst a) allocated"
    and "0 \<le> M"
  shows "0 \<le> find_offset reqs r allocated" "find_offset reqs r allocated \<le> M"
    "\<And>k. k \<in> snd ` set allocated \<Longrightarrow> clear_of reqs r (find_offset reqs r allocated) k"
proof -
  let ?st = "fold (gap_step reqs r) allocated \<lparr>gapBest = int64_max, offsetPrev = 0, offsetBest = -1\<rparr>"
  have "gap_inv reqs r {} (snd ` set allocated) M \<lparr>gapBest = int64_max, offsetPrev = 0, offsetBest = -1\<rparr>"
    using \<open>0 \<le> M\<close> by (simp add: gap_inv_def)
  from gap_inv_fold [OF this alloc sorted] have inv: "gap_inv reqs r (snd ` set allocated) {} M ?st"
    by simp
  then show "0 \<le> find_offset reqs r allocated" "find_offset reqs r allocated \<le> M"
    by (simp_all add: find_offset_def Let_def gap_inv_def)
  fix k
  assume k: "k \<in> snd ` set allocated"
  show "clear_of reqs r (find_offset reqs r allocated) k"
  proof (cases "offsetBest ?st < 0")
    case True
    then have "find_offset reqs r allocated = offsetPrev ?st" by (simp add: find_offset_def Let_def)
    moreover have "live_overlap r (reqs ! nat k) \<longrightarrow> req_end (reqs ! nat k) \<le> offsetPrev ?st"
      using inv k unfolding gap_inv_def by blast
    ultimately show ?thesis by (simp add: clear_of_def ranges_disjoint_def)
  next
    case False
    then have "find_offset reqs r allocated = offsetBest ?st" by (simp add: find_offset_def Let_def)
    moreover from False inv k have "clear_of reqs r (offsetBest ?st) k"
      unfolding gap_inv_def by (meson not_less)
    ultimately show ?thesis by simp
  qed
qed

end
