(* ===== verification/PlannerPlans.thy ===== *)
theory PlannerPlans
  imports PlannerAlloc
begin

text \<open>
  What the two allocators of Planner.cpp compute, for every legal priority queue: the loop
  invariants of \<open>simple_loop\<close> and \<open>greedy_loop\<close> and the plans they end in.
\<close>

section \<open>Well-formed problems\<close>

text \<open>A request index belongs to one domain of one variable: \<open>VariableBuilder::add\<close>
  numbers the requests it appends.\<close>

definition all_requests :: "problem \<Rightarrow> index list" where
  "all_requests P = concat (map (\<lambda>v. domain v Scratch @ domain v Spill) (variables P))"

definition well_formed :: "problem \<Rightarrow> bool" where
  "well_formed P \<longleftrightarrow> valid P \<and> distinct (all_requests P)"

definition unallocated :: "problem \<Rightarrow> bool" where
  "unallocated P \<longleftrightarrow> (\<forall>i\<in>set (enabled_requests P). r_offset (requests P ! nat i) < 0)"

lemma distinct_concat_subset:
  assumes "distinct (concat (map f xs))"
    and "\<And>x. x \<in> set xs \<Longrightarrow> distinct (g x) \<and> set (g x) \<subseteq> set (f x)"
  shows "distinct (concat (map g xs)) \<and> set (concat (map g xs)) \<subseteq> set (concat (map f xs))"
  using assms
proof (induction xs)
  case Nil
  show ?case by simp
next
  case (Cons x xs)
  then have "distinct (concat (map g xs)) \<and> set (concat (map g xs)) \<subseteq> set (concat (map f xs))"
    by simp
  moreover have "distinct (g x)" "set (g x) \<subseteq> set (f x)" using Cons.prems(2) [of x] by simp_all
  moreover have "set (f x) \<inter> set (concat (map f xs)) = {}" using Cons.prems(1) by simp
  ultimately show ?case by simp blast
qed

lemma distinct_concat_member: "distinct (concat (map f xs)) \<Longrightarrow> x \<in> set xs \<Longrightarrow> distinct (f x)"
  by (induction xs) auto

lemma enabled_distinct:
  assumes "well_formed P"
  shows "distinct (enabled_requests P)"
proof -
  have "distinct (variable_requests v) \<and> set (variable_requests v) \<subseteq> set (domain v Scratch @ domain v Spill)"
    if "v \<in> set (variables P)" for v
  proof -
    have "distinct (domain v Scratch @ domain v Spill)"
      using assms that distinct_concat_member [where f = "\<lambda>v. domain v Scratch @ domain v Spill"]
      unfolding well_formed_def all_requests_def by blast
    then show ?thesis by (cases "placement v") (auto simp: variable_requests_def)
  qed
  then have "distinct (concat (map variable_requests (variables P))) \<and>
      set (concat (map variable_requests (variables P)))
        \<subseteq> set (concat (map (\<lambda>v. domain v Scratch @ domain v Spill) (variables P)))"
    using assms by (intro distinct_concat_subset) (simp_all add: well_formed_def all_requests_def)
  then show ?thesis by (simp add: enabled_requests_def)
qed

section \<open>Updating one offset\<close>

lemma nth_offset_update:
  assumes "0 \<le> i" "0 \<le> k" "nat i < length reqs"
  shows "reqs[nat i := (reqs ! nat i)\<lparr>r_offset := x\<rparr>] ! nat k =
    (if k = i then (reqs ! nat k)\<lparr>r_offset := x\<rparr> else reqs ! nat k)"
  using assms by (auto simp: nth_list_update eq_nat_nat_iff)

lemma live_overlap_offset [simp]:
  "live_overlap (r\<lparr>r_offset := x\<rparr>) a = live_overlap r a"
  "live_overlap a (r\<lparr>r_offset := x\<rparr>) = live_overlap a r"
  by (simp_all add: live_overlap_def)

text \<open>A plan for \<open>S\<close> extended by a request that is placed clear of it.\<close>

lemma conflict_free_insert:
  assumes cf: "conflict_free reqs S"
    and dom: "0 \<le> i" "nat i < length reqs" "i \<notin> S" "\<And>k. k \<in> S \<Longrightarrow> 0 \<le> k"
    and clear: "\<And>k. k \<in> S \<Longrightarrow> clear_of reqs (reqs ! nat i) off k"
  shows "conflict_free (reqs[nat i := (reqs ! nat i)\<lparr>r_offset := off\<rparr>]) (insert i S)"
proof -
  let ?rs = "reqs[nat i := (reqs ! nat i)\<lparr>r_offset := off\<rparr>]"
  have at_i: "?rs ! nat i = (reqs ! nat i)\<lparr>r_offset := off\<rparr>"
    using dom by simp
  have at: "?rs ! nat k = reqs ! nat k" if "k \<in> S" for k
    using dom that by (metis nth_offset_update)
  have new: "live_overlap (reqs ! nat i) (reqs ! nat k) \<longrightarrow>
      ranges_disjoint off (r_size (reqs ! nat i)) (r_offset (reqs ! nat k)) (r_size (reqs ! nat k))"
    if "k \<in> S" for k
    using clear [OF that] by (simp add: clear_of_def)
  show ?thesis
    unfolding conflict_free_def
  proof (intro ballI impI)
    fix a b
    assume ab: "a \<in> insert i S" "b \<in> insert i S" "a \<noteq> b" "live_overlap (?rs ! nat a) (?rs ! nat b)"
    consider "a = i" "b \<in> S" | "b = i" "a \<in> S" | "a \<in> S" "b \<in> S" using ab(1-3) by blast
    then show "ranges_disjoint (r_offset (?rs ! nat a)) (r_size (?rs ! nat a))
        (r_offset (?rs ! nat b)) (r_size (?rs ! nat b))"
    proof cases
      case 1
      with ab(4) new show ?thesis by (simp add: at at_i)
    next
      case 2
      with ab(4) new [of a] show ?thesis
        by (simp add: at at_i live_overlap_commute ranges_disjoint_commute)
    next
      case 3
      with ab(3,4) cf show ?thesis by (simp add: at conflict_free_def)
    qed
  qed
qed

lemma makespan_insert:
  assumes ms: "makespan reqs S M"
    and dom: "0 \<le> i" "nat i < length reqs" "i \<notin> S" "\<And>k. k \<in> S \<Longrightarrow> 0 \<le> k"
    and off: "0 \<le> off" "0 \<le> r_size (reqs ! nat i)"
  shows "makespan (reqs[nat i := (reqs ! nat i)\<lparr>r_offset := off\<rparr>]) (insert i S)
    (max M (off + r_size (reqs ! nat i)))"
proof -
  let ?rs = "reqs[nat i := (reqs ! nat i)\<lparr>r_offset := off\<rparr>]"
  have at_i: "?rs ! nat i = (reqs ! nat i)\<lparr>r_offset := off\<rparr>"
    using dom by simp
  have at: "?rs ! nat k = reqs ! nat k" if "k \<in> S" for k
    using dom that by (metis nth_offset_update)
  have "placed_within ?rs (insert i S) (max M (off + r_size (reqs ! nat i)))"
    using ms off unfolding makespan_def placed_within_def
    by (auto simp: at at_i intro: max.coboundedI1)
  moreover have "max M (off + r_size (reqs ! nat i)) = 0 \<or>
      (\<exists>k\<in>insert i S. req_end (?rs ! nat k) = max M (off + r_size (reqs ! nat i)))"
  proof (cases "off + r_size (reqs ! nat i) \<le> M")
    case True
    then have "max M (off + r_size (reqs ! nat i)) = M" by (rule max_absorb1)
    with ms at show ?thesis unfolding makespan_def by auto
  next
    case False
    then have "max M (off + r_size (reqs ! nat i)) = off + r_size (reqs ! nat i)" by simp
    then show ?thesis by (simp add: at_i)
  qed
  ultimately show ?thesis by (simp add: makespan_def)
qed

section \<open>The greedy loop\<close>

text \<open>
  The invariant between two pops: \<open>S\<close> are the requests placed so far, \<open>todo\<close>
  those still in the queue, all no larger than any placed one.
\<close>

definition greedy_inv :: "request list \<Rightarrow> (int \<times> index) list \<Rightarrow> int \<Rightarrow> index list \<Rightarrow> bool" where
  "greedy_inv reqs allocated mu todo \<longleftrightarrow>
     conflict_free reqs (snd ` set allocated) \<and> makespan reqs (snd ` set allocated) mu \<and>
     sorted_wrt (\<lambda>a b. \<not> fst b < fst a) allocated \<and>
     (\<forall>(kOff, k)\<in>set allocated. 0 \<le> k \<and> kOff = r_offset (reqs ! nat k) \<and>
        (\<forall>i\<in>set todo. r_size (reqs ! nat i) \<le> r_size (reqs ! nat k))) \<and>
     (\<forall>i\<in>set todo. 0 \<le> i \<and> nat i < length reqs \<and> 0 \<le> r_size (reqs ! nat i) \<and>
        r_offset (reqs ! nat i) < 0) \<and>
     distinct todo \<and> set todo \<inter> snd ` set allocated = {} \<and>
     sorted_wrt (\<lambda>i j. r_size (reqs ! nat j) \<le> r_size (reqs ! nat i)) todo"

lemma greedy_inv_entry:
  assumes "greedy_inv reqs allocated mu todo" "(kOff, k) \<in> set allocated"
  shows "0 \<le> k" "kOff = r_offset (reqs ! nat k)"
    "j \<in> set todo \<Longrightarrow> r_size (reqs ! nat j) \<le> r_size (reqs ! nat k)"
proof -
  have "\<forall>(kOff, k)\<in>set allocated. 0 \<le> k \<and> kOff = r_offset (reqs ! nat k) \<and>
      (\<forall>i\<in>set todo. r_size (reqs ! nat i) \<le> r_size (reqs ! nat k))"
    using assms(1) unfolding greedy_inv_def by (elim conjE)
  from bspec [OF this assms(2)] show "0 \<le> k" "kOff = r_offset (reqs ! nat k)"
    "j \<in> set todo \<Longrightarrow> r_size (reqs ! nat j) \<le> r_size (reqs ! nat k)"
    by simp_all
qed

lemma sorted_emplace:
  "sorted_wrt (\<lambda>a b. \<not> fst b < fst a) allocated \<Longrightarrow>
     sorted_wrt (\<lambda>a b. \<not> fst b < (fst a :: int)) (emplace off i allocated)"
  unfolding emplace_def by (rule sorted_insert_by) auto

lemma set_emplace [simp]: "set (emplace off i allocated) = insert (off, i) (set allocated)"
  by (simp add: emplace_def)

lemma greedy_find:
  assumes inv: "greedy_inv reqs allocated mu (i # is)"
  shows "0 \<le> find_offset reqs (reqs ! nat i) allocated"
    "find_offset reqs (reqs ! nat i) allocated \<le> mu"
    "\<And>k. k \<in> snd ` set allocated \<Longrightarrow>
       clear_of reqs (reqs ! nat i) (find_offset reqs (reqs ! nat i) allocated) k"
proof -
  have alloc: "kOff = r_offset (reqs ! nat k) \<and> r_size (reqs ! nat i) \<le> r_size (reqs ! nat k) \<and>
      req_end (reqs ! nat k) \<le> mu" if "(kOff, k) \<in> set allocated" for kOff k
  proof -
    have "k \<in> snd ` set allocated" using that by force
    then have "req_end (reqs ! nat k) \<le> mu"
      using inv unfolding greedy_inv_def makespan_def placed_within_def by blast
    moreover have "kOff = r_offset (reqs ! nat k) \<and> r_size (reqs ! nat i) \<le> r_size (reqs ! nat k)"
      using greedy_inv_entry(2,3) [OF inv that] by simp
    ultimately show ?thesis by blast
  qed
  have "sorted_wrt (\<lambda>a b. \<not> fst b < fst a) allocated" "0 \<le> mu"
    using inv by (simp_all add: greedy_inv_def makespan_def placed_within_def)
  note clear = find_offset_clear [OF alloc this]
  show "0 \<le> find_offset reqs (reqs ! nat i) allocated"
    "find_offset reqs (reqs ! nat i) allocated \<le> mu" by (rule clear, assumption)+
  show "clear_of reqs (reqs ! nat i) (find_offset reqs (reqs ! nat i) allocated) k"
    if "k \<in> snd ` set allocated" for k using clear(3) that by blast
qed

lemma greedy_inv_step:
  assumes inv: "greedy_inv reqs allocated mu (i # is)"
    and off: "off = find_offset reqs (reqs ! nat i) allocated"
  shows "greedy_inv (reqs[nat i := (reqs ! nat i)\<lparr>r_offset := off\<rparr>]) (emplace off i allocated)
    (max mu (off + r_size (reqs ! nat i))) is"
proof -
  let ?rs = "reqs[nat i := (reqs ! nat i)\<lparr>r_offset := off\<rparr>]" and ?S = "snd ` set allocated"
  have dom: "0 \<le> i" "nat i < length reqs" "i \<notin> ?S" "0 \<le> r_size (reqs ! nat i)"
    using inv by (simp_all add: greedy_inv_def)
  have nonneg: "0 \<le> k" if "k \<in> ?S" for k
    using greedy_inv_entry(1) [OF inv] that by force
  have S: "snd ` set (emplace off i allocated) = insert i ?S" by simp
  have at: "?rs ! nat k = reqs ! nat k" if "k \<in> ?S \<or> k \<in> set is" for k
  proof -
    have "0 \<le> k" "k \<noteq> i" using that inv dom nonneg by (auto simp: greedy_inv_def)
    with dom show ?thesis by (metis nth_offset_update)
  qed
  have size: "r_size (?rs ! nat k) = r_size (reqs ! nat k)" if "0 \<le> k" for k
    using dom that by (metis nth_offset_update request.select_convs(3) request.surjective request.update_convs(4))
  have "conflict_free ?rs (insert i ?S)"
    by (rule conflict_free_insert) (use inv dom nonneg off greedy_find [OF inv] in \<open>auto simp: greedy_inv_def\<close>)
  moreover have "makespan ?rs (insert i ?S) (max mu (off + r_size (reqs ! nat i)))"
    by (rule makespan_insert) (use inv dom nonneg off greedy_find [OF inv] in \<open>auto simp: greedy_inv_def\<close>)
  moreover have "sorted_wrt (\<lambda>a b. \<not> fst b < fst a) (emplace off i allocated)"
    using inv by (intro sorted_emplace) (simp add: greedy_inv_def)
  moreover have "\<forall>(kOff, k)\<in>set (emplace off i allocated). 0 \<le> k \<and> kOff = r_offset (?rs ! nat k) \<and>
      (\<forall>j\<in>set is. r_size (?rs ! nat j) \<le> r_size (?rs ! nat k))"
  proof (clarify)
    fix kOff k
    assume k: "(kOff, k) \<in> set (emplace off i allocated)"
    consider "kOff = off" "k = i" | "(kOff, k) \<in> set allocated" "k \<in> ?S" using k by force
    then show "0 \<le> k \<and> kOff = r_offset (?rs ! nat k) \<and>
        (\<forall>j\<in>set is. r_size (?rs ! nat j) \<le> r_size (?rs ! nat k))"
    proof cases
      case 1
      with dom inv show ?thesis by (simp add: at greedy_inv_def)
    next
      case 2
      with greedy_inv_entry [OF inv 2(1)] show ?thesis by (simp add: at)
    qed
  qed
  moreover have "\<forall>j\<in>set is. 0 \<le> j \<and> nat j < length ?rs \<and> 0 \<le> r_size (?rs ! nat j) \<and>
      r_offset (?rs ! nat j) < 0"
    using inv by (simp add: at greedy_inv_def)
  moreover have "distinct is" "set is \<inter> insert i ?S = {}"
    using inv by (auto simp: greedy_inv_def)
  moreover have "sorted_wrt (\<lambda>i j. r_size (?rs ! nat j) \<le> r_size (?rs ! nat i)) is"
  proof -
    have "sorted_wrt (\<lambda>i j. r_size (reqs ! nat j) \<le> r_size (reqs ! nat i)) is"
      using inv by (simp add: greedy_inv_def)
    then show ?thesis
      by (rule sorted_wrt_mono_rel [rotated]) (simp add: at)
  qed
  ultimately show ?thesis unfolding greedy_inv_def S by (intro conjI)
qed

text \<open>What a loop leaves untouched.\<close>

definition untouched :: "index set \<Rightarrow> request list \<Rightarrow> request list \<Rightarrow> bool" where
  "untouched S rs ss \<longleftrightarrow> (\<forall>k\<ge>0. k \<notin> S \<longrightarrow> rs ! nat k = ss ! nat k)"

text \<open>\<open>maxSize\<close> is the running maximum of the sizes.\<close>

definition sizes_max :: "request list \<Rightarrow> index list \<Rightarrow> int \<Rightarrow> int" where
  "sizes_max reqs is ms = fold (\<lambda>i m. max m (r_size (reqs ! nat i))) is ms"

lemma sizes_max_cong:
  "(\<And>i. i \<in> set is \<Longrightarrow> r_size (rs ! nat i) = r_size (ss ! nat i)) \<Longrightarrow> sizes_max rs is ms = sizes_max ss is ms"
  unfolding sizes_max_def by (rule fold_cong) auto

lemma greedy_loop_correct:
  assumes "greedy_inv reqs allocated mu is"
  shows "\<exists>reqs' mu'. greedy_loop is reqs allocated mu ms = Inr (reqs', mu', sizes_max reqs is ms) \<and>
     same_shape reqs' reqs \<and> untouched (set is) reqs' reqs \<and>
     conflict_free reqs' (set is \<union> snd ` set allocated) \<and>
     makespan reqs' (set is \<union> snd ` set allocated) mu' \<and>
     mu' \<le> mu + (\<Sum>i\<leftarrow>is. r_size (reqs ! nat i))"
  using assms
proof (induction "is" arbitrary: reqs allocated mu ms)
  case Nil
  then show ?case by (simp add: greedy_inv_def untouched_def sizes_max_def)
next
  case (Cons i "is")
  let ?off = "find_offset reqs (reqs ! nat i) allocated"
  let ?rs = "reqs[nat i := (reqs ! nat i)\<lparr>r_offset := ?off\<rparr>]"
  have i: "0 \<le> i" "nat i < length reqs" "r_offset (reqs ! nat i) < 0" "0 \<le> r_size (reqs ! nat i)"
    using Cons.prems by (simp_all add: greedy_inv_def)
  have inv: "greedy_inv ?rs (emplace ?off i allocated) (max mu (?off + r_size (reqs ! nat i))) is"
    by (rule greedy_inv_step [OF Cons.prems refl])
  have step: "greedy_loop (i # is) reqs allocated mu ms =
      greedy_loop is ?rs (emplace ?off i allocated) (max mu (?off + r_size (reqs ! nat i)))
        (max ms (r_size (reqs ! nat i)))"
    using i by (simp add: Let_def)
  obtain reqs' mu' where res:
    "greedy_loop (i # is) reqs allocated mu ms = Inr (reqs', mu', sizes_max ?rs is (max ms (r_size (reqs ! nat i))))"
    "same_shape reqs' ?rs" "untouched (set is) reqs' ?rs"
    "conflict_free reqs' (set is \<union> insert i (snd ` set allocated))"
    "makespan reqs' (set is \<union> insert i (snd ` set allocated)) mu'"
    "mu' \<le> max mu (?off + r_size (reqs ! nat i)) + (\<Sum>j\<leftarrow>is. r_size (?rs ! nat j))"
    using Cons.IH [OF inv, where ms = "max ms (r_size (reqs ! nat i))"] unfolding step by auto
  have at: "?rs ! nat j = reqs ! nat j" if "j \<in> set is" for j
  proof -
    have "i \<noteq> j" "0 \<le> j" using Cons.prems that by (auto simp: greedy_inv_def)
    with i show ?thesis by (simp add: nth_offset_update)
  qed
  have sizes: "sizes_max ?rs is (max ms (r_size (reqs ! nat i))) = sizes_max reqs (i # is) ms"
    using at sizes_max_cong [of "is" ?rs reqs "max ms (r_size (reqs ! nat i))"] by (simp add: sizes_max_def)
  have "(\<Sum>j\<leftarrow>is. r_size (?rs ! nat j)) = (\<Sum>j\<leftarrow>is. r_size (reqs ! nat j))"
    using at by (intro arg_cong [where f = sum_list] map_cong) auto
  moreover have "max mu (?off + r_size (reqs ! nat i)) \<le> mu + r_size (reqs ! nat i)"
    using greedy_find(2) [OF Cons.prems] i(4) by (intro max.boundedI) simp_all
  ultimately have "mu' \<le> mu + r_size (reqs ! nat i) + (\<Sum>j\<leftarrow>is. r_size (reqs ! nat j))"
    using res(6) by linarith
  then have total: "mu' \<le> mu + (\<Sum>j\<leftarrow>i # is. r_size (reqs ! nat j))"
    by (simp only: list.map sum_list.Cons add.assoc)
  have "same_shape reqs' reqs"
    using res(2) same_shape_update by (rule same_shape_trans)
  moreover have "untouched (set (i # is)) reqs' reqs"
    using res(3) i by (auto simp: untouched_def nth_offset_update)
  moreover have "set is \<union> insert i (snd ` set allocated) = set (i # is) \<union> snd ` set allocated"
    by auto
  ultimately show ?case using res(1,4,5) total unfolding sizes by metis
qed

lemma strict_weak_by_size: "strict_weak (by_size reqs)"
  by (auto simp: strict_weak_def by_size_def)

section \<open>The allocators, for every legal queue\<close>

text \<open>Two memory plans for the same problem: only offsets of enabled requests differ.\<close>

definition plan_of :: "problem \<Rightarrow> problem \<Rightarrow> bool" where
  "plan_of P' P \<longleftrightarrow> variables P' = variables P \<and> bound P' = bound P \<and>
     same_shape (requests P') (requests P) \<and>
     untouched (set (enabled_requests P)) (requests P') (requests P)"

lemma enabled_same_variables [simp]: "enabled_requests (P\<lparr>requests := rs\<rparr>) = enabled_requests P"
  by (simp add: enabled_requests_def)

lemma plan_of_enabled: "plan_of P' P \<Longrightarrow> enabled_requests P' = enabled_requests P"
  by (simp add: plan_of_def enabled_requests_def)

text \<open>All requests of \<open>S\<close> are disjoint, whether or not they are live together.\<close>

definition stacked :: "request list \<Rightarrow> index set \<Rightarrow> bool" where
  "stacked reqs S \<longleftrightarrow> (\<forall>i\<in>S. \<forall>j\<in>S. i \<noteq> j \<longrightarrow>
     ranges_disjoint (r_offset (reqs ! nat i)) (r_size (reqs ! nat i))
                     (r_offset (reqs ! nat j)) (r_size (reqs ! nat j)))"

lemma stacked_conflict_free: "stacked reqs S \<Longrightarrow> conflict_free reqs S"
  by (simp add: stacked_def conflict_free_def)

lemma simple_loop_correct:
  assumes "distinct is" "0 \<le> mu"
    and "\<And>i. i \<in> set is \<Longrightarrow> 0 \<le> i \<and> nat i < length reqs \<and> 0 \<le> r_size (reqs ! nat i)"
  shows "\<exists>reqs'. simple_loop is reqs mu ms =
        (reqs', mu + (\<Sum>i\<leftarrow>is. r_size (reqs ! nat i)), sizes_max reqs is ms) \<and>
     same_shape reqs' reqs \<and> untouched (set is) reqs' reqs \<and> stacked reqs' (set is) \<and>
     (\<forall>i\<in>set is. mu \<le> r_offset (reqs' ! nat i) \<and>
        req_end (reqs' ! nat i) \<le> mu + (\<Sum>i\<leftarrow>is. r_size (reqs ! nat i)))"
  using assms
proof (induction "is" arbitrary: reqs mu ms)
  case Nil
  then show ?case by (simp add: untouched_def stacked_def sizes_max_def)
next
  case (Cons i "is")
  let ?sz = "r_size (reqs ! nat i)"
  let ?rs = "reqs[nat i := (reqs ! nat i)\<lparr>r_offset := mu\<rparr>]"
  have i: "0 \<le> i" "nat i < length reqs" "0 \<le> ?sz" "i \<notin> set is" using Cons.prems by auto
  have at: "?rs ! nat j = reqs ! nat j" if "j \<in> set is" for j
    using i Cons.prems(3) [of j] that by (auto simp: nth_offset_update)
  have sums: "(\<Sum>j\<leftarrow>is. r_size (?rs ! nat j)) = (\<Sum>j\<leftarrow>is. r_size (reqs ! nat j))"
    using at by (intro arg_cong [where f = sum_list] map_cong) auto
  have maxes: "sizes_max ?rs is (max ms ?sz) = sizes_max reqs (i # is) ms"
    using at sizes_max_cong [of "is" ?rs reqs "max ms ?sz"] by (simp add: sizes_max_def)
  have pre: "distinct is" "0 \<le> mu + ?sz"
    "\<And>j. j \<in> set is \<Longrightarrow> 0 \<le> j \<and> nat j < length ?rs \<and> 0 \<le> r_size (?rs ! nat j)"
    using Cons.prems i at by auto
  obtain reqs' where res:
    "simple_loop is ?rs (mu + ?sz) (max ms ?sz) =
       (reqs', mu + ?sz + (\<Sum>j\<leftarrow>is. r_size (reqs ! nat j)), sizes_max reqs (i # is) ms)"
    "same_shape reqs' ?rs" "untouched (set is) reqs' ?rs" "stacked reqs' (set is)"
    "\<forall>j\<in>set is. mu + ?sz \<le> r_offset (reqs' ! nat j) \<and>
        req_end (reqs' ! nat j) \<le> mu + ?sz + (\<Sum>j\<leftarrow>is. r_size (reqs ! nat j))"
    using Cons.IH [OF pre, where ms = "max ms ?sz"] unfolding sums maxes by blast
  have at_i: "reqs' ! nat i = (reqs ! nat i)\<lparr>r_offset := mu\<rparr>"
    using res(3) i by (simp add: untouched_def)
  have total: "0 \<le> (\<Sum>j\<leftarrow>is. r_size (reqs ! nat j))"
    by (rule sum_list_nonneg) (use Cons.prems(3) in auto)
  have "same_shape reqs' reqs"
    using res(2) same_shape_update by (rule same_shape_trans)
  moreover have "untouched (set (i # is)) reqs' reqs"
    using res(3) i by (auto simp: untouched_def nth_offset_update)
  moreover have "stacked reqs' (set (i # is))"
    using res(4,5) unfolding stacked_def ranges_disjoint_def by (auto simp: at_i)
  moreover have "\<forall>j\<in>set (i # is). mu \<le> r_offset (reqs' ! nat j) \<and>
      req_end (reqs' ! nat j) \<le> mu + (\<Sum>j\<leftarrow>i # is. r_size (reqs ! nat j))"
    using res(5) total i(3) by (auto simp: at_i)
  ultimately show ?case using res(1) by (simp add: Let_def add.assoc)
qed

locale planner_queue = pop_queue pops
  for pops :: "(index \<Rightarrow> index \<Rightarrow> bool) \<Rightarrow> index list \<Rightarrow> index list"
begin

lemma enabled_pops:
  assumes "well_formed P"
  shows "distinct (pops lt (enabled_requests P))"
    "i \<in> set (pops lt (enabled_requests P)) \<Longrightarrow>
       0 \<le> i \<and> nat i < length (requests P) \<and> 0 \<le> r_size (requests P ! nat i)"
  using enabled_distinct [OF assms] valid_enabled [of P i] assms
    valid_sizes [of P "requests P ! nat i"] by (simp_all add: well_formed_def)

lemma sum_pops: "(\<Sum>i\<leftarrow>pops lt xs. f i) = (\<Sum>i\<leftarrow>xs. f i :: int)"
  by (metis mset_map mset_pops sum_mset_sum_list)

lemma greedy_inv_start:
  assumes wf: "well_formed P" and un: "unallocated P"
  shows "greedy_inv (requests P) [] 0 (pops (by_size (requests P)) (enabled_requests P))"
proof -
  have "sorted_wrt (\<lambda>i j. r_size (requests P ! nat j) \<le> r_size (requests P ! nat i))
      (pops (by_size (requests P)) (enabled_requests P))"
    using sorted_pops [OF strict_weak_by_size] by (simp add: by_size_def not_less)
  with enabled_pops [OF wf] un show ?thesis
    by (simp add: greedy_inv_def conflict_free_def makespan_def placed_within_def unallocated_def)
qed

lemma greedy_plan:
  assumes wf: "well_formed P" and un: "unallocated P"
  obtains P' stats where "allocate_greedy pops P = Inr (P', stats)" "plan_of P' P"
    "conflict_free (requests P') (set (enabled_requests P))"
    "makespan (requests P') (set (enabled_requests P)) (memUsage stats)"
    "memUsage stats \<le> (\<Sum>i\<leftarrow>enabled_requests P. r_size (requests P ! nat i))" "maxLoad stats = 0"
proof -
  let ?order = "pops (by_size (requests P)) (enabled_requests P)"
  from greedy_loop_correct [OF greedy_inv_start [OF wf un], where ms = 0]
  obtain reqs' mu' where res: "greedy_loop ?order (requests P) [] 0 0 =
      Inr (reqs', mu', sizes_max (requests P) ?order 0)"
    "same_shape reqs' (requests P)" "untouched (set (enabled_requests P)) reqs' (requests P)"
    "conflict_free reqs' (set (enabled_requests P))" "makespan reqs' (set (enabled_requests P)) mu'"
    "mu' \<le> (\<Sum>i\<leftarrow>?order. r_size (requests P ! nat i))"
    by auto
  have total: "(\<Sum>i\<leftarrow>?order. r_size (requests P ! nat i)) = (\<Sum>i\<leftarrow>enabled_requests P. r_size (requests P ! nat i))"
    by (rule sum_pops)
  show thesis
    by (rule that [of "P\<lparr>requests := reqs'\<rparr>"
          "\<lparr>maxSize = sizes_max (requests P) ?order 0, memUsage = mu', maxLoad = 0\<rparr>"])
      (use res total in \<open>simp_all add: allocate_greedy_def plan_of_def Let_def\<close>)
qed

lemma simple_plan:
  assumes wf: "well_formed P"
  obtains P' stats where "allocate_simple pops P = (P', stats)" "plan_of P' P"
    "stacked (requests P') (set (enabled_requests P))"
    "placed_within (requests P') (set (enabled_requests P)) (memUsage stats)"
    "memUsage stats = (\<Sum>i\<leftarrow>enabled_requests P. r_size (requests P ! nat i))" "maxLoad stats = 0"
proof -
  let ?order = "pops (lexicographic (requests P)) (enabled_requests P)"
  from simple_loop_correct [OF enabled_pops(1) [OF wf] order_refl enabled_pops(2) [OF wf], where ms = 0]
  obtain reqs' where res: "simple_loop ?order (requests P) 0 0 =
      (reqs', \<Sum>i\<leftarrow>?order. r_size (requests P ! nat i), sizes_max (requests P) ?order 0)"
    "same_shape reqs' (requests P)" "untouched (set (enabled_requests P)) reqs' (requests P)"
    "stacked reqs' (set (enabled_requests P))"
    "\<forall>i\<in>set (enabled_requests P). 0 \<le> r_offset (reqs' ! nat i) \<and>
        req_end (reqs' ! nat i) \<le> (\<Sum>i\<leftarrow>?order. r_size (requests P ! nat i))"
    by auto
  have total: "(\<Sum>i\<leftarrow>?order. r_size (requests P ! nat i)) = (\<Sum>i\<leftarrow>enabled_requests P. r_size (requests P ! nat i))"
    by (rule sum_pops)
  have "0 \<le> (\<Sum>i\<leftarrow>enabled_requests P. r_size (requests P ! nat i))"
    using enabled_pops(2) [OF wf] by (intro sum_list_nonneg) auto
  show thesis
    by (rule that [of "P\<lparr>requests := reqs'\<rparr>"
          "\<lparr>maxSize = sizes_max (requests P) ?order 0,
            memUsage = \<Sum>i\<leftarrow>enabled_requests P. r_size (requests P ! nat i), maxLoad = 0\<rparr>"])
      (use res total \<open>0 \<le> _\<close> in \<open>simp_all add: allocate_simple_def plan_of_def placed_within_def\<close>)
qed

end

interpretation pq_planner: planner_queue pq_pops
  by unfold_locales

end
