(* ===== verification/PlannerVerify.thy ===== *)
theory PlannerVerify
  imports PlannerPlans
begin

text \<open>
  \<open>PlannerImpl::analyze\<close> and \<open>Planner::verify\<close> of
  lib/Dialect/D2M/Analysis/Allocation/Planner.cpp. Both fill an interval tree with the live
  ranges of the enabled requests and query it at the start of each of them; the tree is the
  argument \<open>stab\<close>. An assertion that fails (\<open>TT_assertv\<close>) is an error value.
\<close>

section \<open>The interval tree of a solution\<close>

definition interval_of :: "problem \<Rightarrow> index \<Rightarrow> interval_entry" where
  "interval_of P i = (r_first (request_at P i), r_last (request_at P i), i)"

definition solution_intervals :: "problem \<Rightarrow> interval_entry list" where
  "solution_intervals P = map (interval_of P) (enabled_requests P)"

section \<open>analyze\<close>

record request_metrics =
  maxConflictSize :: int
  inContentionGroup :: bool

definition no_metrics :: request_metrics where
  "no_metrics = \<lparr>maxConflictSize = 0, inContentionGroup = False\<rparr>"

fun analyze_loop :: "(int \<Rightarrow> int list) \<Rightarrow> problem \<Rightarrow> int \<Rightarrow> index list \<Rightarrow> request_metrics list \<Rightarrow>
    (planner_error, request_metrics list) result" where
  "analyze_loop stabbed P watermark [] ms = Inr ms"
| "analyze_loop stabbed P watermark (i # is) ms =
     (if \<not> r_offset (request_at P i) \<ge> 0 then Inl (Unallocated i)
      else let conflicts = stabbed (r_first (request_at P i));
               usage = fold (\<lambda>k u. max u (req_end (request_at P k))) conflicts 0;
               m = ms ! nat i;
               m' = \<lparr>maxConflictSize = max (maxConflictSize m) (int (length conflicts)),
                     inContentionGroup = (inContentionGroup m \<or> usage > watermark)\<rparr>
           in analyze_loop stabbed P watermark is (ms[nat i := m']))"

definition analyze :: "(interval_entry list \<Rightarrow> int \<Rightarrow> int list) \<Rightarrow> problem \<Rightarrow> int \<Rightarrow>
    (planner_error, request_metrics list) result" where
  "analyze stab P watermark =
     (if \<not> valid P then Inl InvalidProblem
      else analyze_loop (stab (solution_intervals P)) P watermark (enabled_requests P)
             (replicate (length (requests P)) no_metrics))"

section \<open>verify\<close>

text \<open>The load at the start of request \<open>i\<close>: its size and the sizes of the other
  requests live there. The first conflict that shares memory with \<open>i\<close> is an error.\<close>

fun conflict_load :: "problem \<Rightarrow> index \<Rightarrow> int list \<Rightarrow> int \<Rightarrow> (planner_error, int) result" where
  "conflict_load P i [] load = Inr load"
| "conflict_load P i (k # ks) load =
     (if k \<noteq> i
      then let req = request_at P i; conflict = request_at P k;
               memOverlap = (max (r_offset req) (r_offset conflict) < min (req_end req) (req_end conflict))
           in if memOverlap then Inl (MemoryOverlap i k)
              else conflict_load P i ks (load + r_size conflict)
      else conflict_load P i ks load)"

fun verify_loop :: "(int \<Rightarrow> int list) \<Rightarrow> problem \<Rightarrow> index list \<Rightarrow> alloc_stats \<Rightarrow>
    (planner_error, alloc_stats) result" where
  "verify_loop stabbed P [] st = Inr st"
| "verify_loop stabbed P (i # is) st =
     (let req = request_at P i
      in if \<not> r_offset req \<ge> 0 then Inl (Unallocated i)
         else case conflict_load P i (stabbed (r_first req)) (r_size req) of
                Inl e \<Rightarrow> Inl e
              | Inr load \<Rightarrow>
                  verify_loop stabbed P is
                    \<lparr>maxSize = max (maxSize st) (r_size req),
                     memUsage = max (memUsage st) (req_end req),
                     maxLoad = max (maxLoad st) load\<rparr>)"

definition verify :: "(interval_entry list \<Rightarrow> int \<Rightarrow> int list) \<Rightarrow> problem \<Rightarrow>
    (planner_error, alloc_stats) result" where
  "verify stab P =
     (let is = enabled_requests P
      in if is = [] then Inr \<lparr>maxSize = 0, memUsage = 0, maxLoad = 0\<rparr>
         else case verify_loop (stab (solution_intervals P)) P is
                     \<lparr>maxSize = 0, memUsage = 0, maxLoad = 0\<rparr> of
                Inl e \<Rightarrow> Inl e
              | Inr st \<Rightarrow>
                  if \<not> maxLoad st > 0 then Inl NoPositiveLoad
                  else if \<not> maxLoad st \<le> memUsage st then Inl LoadExceedsUsage
                  else Inr st)"

section \<open>What verify decides\<close>

text \<open>The ranges of two requests share an address.\<close>

definition mem_overlap :: "request \<Rightarrow> request \<Rightarrow> bool" where
  "mem_overlap r a \<longleftrightarrow> max (r_offset r) (r_offset a) < min (req_end r) (req_end a)"

lemma mem_overlap_disjoint:
  "ranges_disjoint (r_offset r) (r_size r) (r_offset a) (r_size a) \<Longrightarrow> \<not> mem_overlap r a"
  by (auto simp: mem_overlap_def ranges_disjoint_def)

lemma disjoint_not_mem_overlap:
  "\<not> mem_overlap r a \<Longrightarrow> 0 < r_size r \<Longrightarrow> 0 < r_size a \<Longrightarrow>
     ranges_disjoint (r_offset r) (r_size r) (r_offset a) (r_size a)"
  by (auto simp: mem_overlap_def ranges_disjoint_def)

lemma mem_overlap_commute: "mem_overlap r a \<longleftrightarrow> mem_overlap a r"
  by (simp add: mem_overlap_def max.commute min.commute)

lemma conflict_load_eq:
  "conflict_load P i ks load =
     (case filter (\<lambda>k. k \<noteq> i \<and> mem_overlap (request_at P i) (request_at P k)) ks of
        k # _ \<Rightarrow> Inl (MemoryOverlap i k)
      | [] \<Rightarrow> Inr (load + (\<Sum>k\<leftarrow>filter (\<lambda>k. k \<noteq> i) ks. r_size (request_at P k))))"
proof (induction ks arbitrary: load)
  case Nil
  show ?case by simp
next
  case (Cons k ks)
  show ?case
    unfolding conflict_load.simps Let_def mem_overlap_def [symmetric] Cons.IH
    by (simp split: list.split)
qed

text \<open>Two live ranges that overlap: the start of one of them lies in the other.\<close>

lemma live_overlap_stab:
  assumes "live_overlap r a" "live_range_valid r" "live_range_valid a"
  shows "(r_first a \<le> r_first r \<and> r_first r \<le> r_last a) \<or> (r_first r \<le> r_first a \<and> r_first a \<le> r_last r)"
  using assms by (auto simp: live_overlap_def live_range_valid_def)

definition live_at :: "problem \<Rightarrow> int \<Rightarrow> index \<Rightarrow> bool" where
  "live_at P x i \<longleftrightarrow> r_first (request_at P i) \<le> x \<and> x \<le> r_last (request_at P i)"

text \<open>The memory that the requests live at time \<open>x\<close> need.\<close>

definition load_at :: "problem \<Rightarrow> int \<Rightarrow> int" where
  "load_at P x = (\<Sum>i\<leftarrow>filter (live_at P x) (enabled_requests P). r_size (request_at P i))"

definition live_ranges_ok :: "problem \<Rightarrow> bool" where
  "live_ranges_ok P \<longleftrightarrow> (\<forall>i\<in>set (enabled_requests P). live_range_valid (request_at P i))"

definition allocated_at :: "(int \<Rightarrow> int list) \<Rightarrow> problem \<Rightarrow> index \<Rightarrow> bool" where
  "allocated_at stabbed P i \<longleftrightarrow> 0 \<le> r_offset (request_at P i) \<and>
     (\<forall>k\<in>set (stabbed (r_first (request_at P i))). k \<noteq> i \<longrightarrow>
        \<not> mem_overlap (request_at P i) (request_at P k))"

definition load_of :: "(int \<Rightarrow> int list) \<Rightarrow> problem \<Rightarrow> index \<Rightarrow> int" where
  "load_of stabbed P i = r_size (request_at P i) +
     (\<Sum>k\<leftarrow>filter (\<lambda>k. k \<noteq> i) (stabbed (r_first (request_at P i))). r_size (request_at P k))"

lemma conflict_load_Inr:
  "conflict_load P i (stabbed (r_first (request_at P i))) (r_size (request_at P i)) = Inr l \<longleftrightarrow>
     (\<forall>k\<in>set (stabbed (r_first (request_at P i))). k \<noteq> i \<longrightarrow>
        \<not> mem_overlap (request_at P i) (request_at P k)) \<and> l = load_of stabbed P i"
  unfolding conflict_load_eq load_of_def
  by (auto split: list.splits simp: filter_eq_Cons_iff filter_empty_conv)

lemma verify_loop_Inr:
  "verify_loop stabbed P is st = Inr st' \<longleftrightarrow> (\<forall>i\<in>set is. allocated_at stabbed P i) \<and>
     st' = \<lparr>maxSize = max_over (\<lambda>i. r_size (request_at P i)) is (maxSize st),
            memUsage = max_over (\<lambda>i. req_end (request_at P i)) is (memUsage st),
            maxLoad = max_over (load_of stabbed P) is (maxLoad st)\<rparr>"
proof (induction "is" arbitrary: st)
  case Nil
  show ?case by auto
next
  case (Cons i "is")
  show ?case
  proof (cases "allocated_at stabbed P i")
    case True
    then have "conflict_load P i (stabbed (r_first (request_at P i))) (r_size (request_at P i)) =
        Inr (load_of stabbed P i)" "0 \<le> r_offset (request_at P i)"
      by (simp_all add: conflict_load_Inr allocated_at_def)
    with True show ?thesis by (simp add: Let_def Cons.IH)
  next
    case False
    then have "0 \<le> r_offset (request_at P i) \<Longrightarrow>
        conflict_load P i (stabbed (r_first (request_at P i))) (r_size (request_at P i)) \<noteq> Inr l" for l
      unfolding conflict_load_Inr allocated_at_def by blast
    with False show ?thesis by (auto simp: Let_def split: sum.splits)
  qed
qed

text \<open>An acceptable plan: every enabled request has an offset, and no two that are live
  together share an address. Its figures: the largest request, the end of the highest request,
  and the largest load.\<close>

definition sound_plan :: "problem \<Rightarrow> bool" where
  "sound_plan P \<longleftrightarrow> (\<forall>i\<in>set (enabled_requests P). 0 \<le> r_offset (request_at P i)) \<and>
     (\<forall>i\<in>set (enabled_requests P). \<forall>j\<in>set (enabled_requests P). i \<noteq> j \<longrightarrow>
        live_overlap (request_at P i) (request_at P j) \<longrightarrow>
        \<not> mem_overlap (request_at P i) (request_at P j))"

definition largest_request :: "problem \<Rightarrow> int" where
  "largest_request P = max_over (\<lambda>i. r_size (request_at P i)) (enabled_requests P) 0"

definition memory_used :: "problem \<Rightarrow> int" where
  "memory_used P = max_over (\<lambda>i. req_end (request_at P i)) (enabled_requests P) 0"

definition peak_load :: "problem \<Rightarrow> int" where
  "peak_load P = max_over (\<lambda>i. load_at P (r_first (request_at P i))) (enabled_requests P) 0"

lemma memory_used_nonneg: "0 \<le> memory_used P"
  by (simp add: memory_used_def max_over_ge)

definition sizes_ok :: "problem \<Rightarrow> bool" where
  "sizes_ok P \<longleftrightarrow> (\<forall>i\<in>set (enabled_requests P). 0 \<le> r_size (request_at P i))"

lemma load_as_sum:
  assumes "distinct (enabled_requests P)"
    and "sizes_ok P"
  shows "load_at P x =
    (\<Sum>i\<in>{i \<in> set (enabled_requests P). live_at P x i \<and> 0 < r_size (request_at P i)}. r_size (request_at P i))"
proof -
  have "load_at P x = (\<Sum>i\<in>{i \<in> set (enabled_requests P). live_at P x i}. r_size (request_at P i))"
    using assms(1) by (simp add: load_at_def sum_list_filter_eq_sum)
  also have "\<dots> = (\<Sum>i\<in>{i \<in> set (enabled_requests P). live_at P x i \<and> 0 < r_size (request_at P i)}. r_size (request_at P i))"
    using assms(2) by (intro sum.mono_neutral_right) (auto simp: sizes_ok_def intro: antisym)
  finally show ?thesis .
qed

text \<open>No plan can use less memory than the load at any time.\<close>

lemma sound_plan_load:
  assumes sound: "sound_plan P" and dist: "distinct (enabled_requests P)"
    and size: "sizes_ok P"
  shows "load_at P x \<le> memory_used P"
  unfolding load_as_sum [OF dist size]
proof (rule sum_disjoint_ranges_le [where off = "\<lambda>i. r_offset (request_at P i)"])
  fix i
  assume "i \<in> {i \<in> set (enabled_requests P). live_at P x i \<and> 0 < r_size (request_at P i)}"
  then show "0 \<le> r_offset (request_at P i) \<and> 0 \<le> r_size (request_at P i) \<and>
      r_offset (request_at P i) + r_size (request_at P i) \<le> memory_used P"
    using sound by (auto simp: sound_plan_def memory_used_def intro: max_over_ge(2))
next
  fix i j
  assume ij: "i \<in> {i \<in> set (enabled_requests P). live_at P x i \<and> 0 < r_size (request_at P i)}"
    "j \<in> {i \<in> set (enabled_requests P). live_at P x i \<and> 0 < r_size (request_at P i)}" "i \<noteq> j"
  then have "live_overlap (request_at P i) (request_at P j)"
    by (auto simp: live_overlap_def live_at_def)
  with ij sound have "\<not> mem_overlap (request_at P i) (request_at P j)"
    by (simp add: sound_plan_def)
  with ij show "ranges_disjoint (r_offset (request_at P i)) (r_size (request_at P i))
      (r_offset (request_at P j)) (r_size (request_at P j))"
    by (simp add: disjoint_not_mem_overlap)
qed (simp_all add: memory_used_nonneg)

text \<open>The load peaks at the start of some request, so the sweep over starts misses
  nothing.\<close>

lemma peak_load_max:
  assumes dist: "distinct (enabled_requests P)"
    and size: "sizes_ok P"
  shows "load_at P x \<le> peak_load P"
proof (cases "{i \<in> set (enabled_requests P). live_at P x i} = {}")
  case True
  then have "load_at P x = 0" unfolding load_as_sum [OF dist size] by (intro sum.neutral) blast
  then show ?thesis by (simp add: peak_load_def max_over_ge)
next
  case False
  let ?L = "{i \<in> set (enabled_requests P). live_at P x i}"
  define s where "s = Max ((\<lambda>i. r_first (request_at P i)) ` ?L)"
  have "s \<in> (\<lambda>i. r_first (request_at P i)) ` ?L"
    unfolding s_def using False by (intro Max_in) auto
  then obtain m where m: "m \<in> ?L" "s = r_first (request_at P m)" by blast
  have top: "r_first (request_at P i) \<le> s" if "i \<in> ?L" for i
    unfolding s_def using that by (intro Max_ge) auto
  have "live_at P s i" if "i \<in> ?L" for i
    using that top [OF that] m by (auto simp: live_at_def)
  then have "load_at P x \<le> load_at P s"
    unfolding load_as_sum [OF dist size] using size by (intro sum_mono2) (auto simp: sizes_ok_def)
  also have "\<dots> \<le> peak_load P"
    unfolding peak_load_def m(2) using m(1) by (intro max_over_ge(2)) simp
  finally show ?thesis .
qed

context interval_index
begin

lemma mset_stab_live:
  assumes "live_ranges_ok P"
  shows "mset (stab (solution_intervals P) x) = mset (filter (live_at P x) (enabled_requests P))"
proof -
  have "mset (stab (solution_intervals P) x) =
      mset (map entry_value (filter (contains_point x) (solution_intervals P)))"
    using assms
    by (intro mset_stab)
      (auto simp: live_ranges_ok_def live_range_valid_def solution_intervals_def interval_of_def)
  also have "map entry_value (filter (contains_point x) (solution_intervals P)) =
      filter (live_at P x) (enabled_requests P)"
    by (simp add: solution_intervals_def filter_map o_def interval_of_def contains_point_def
        entry_value_def live_at_def [abs_def])
  finally show ?thesis .
qed

lemma set_stab_live:
  "live_ranges_ok P \<Longrightarrow>
     set (stab (solution_intervals P) x) = {i \<in> set (enabled_requests P). live_at P x i}"
  using mset_stab_live [THEN mset_eq_setD] by simp

lemma load_of_eq:
  assumes ok: "live_ranges_ok P" and dist: "distinct (enabled_requests P)"
    and i: "i \<in> set (enabled_requests P)"
  shows "load_of (stab (solution_intervals P)) P i = load_at P (r_first (request_at P i))"
proof -
  let ?x = "r_first (request_at P i)" and ?S = "stab (solution_intervals P)"
  have "mset (?S ?x) = mset (filter (live_at P ?x) (enabled_requests P))"
    by (rule mset_stab_live [OF ok])
  moreover have "i \<in> set (?S ?x)"
    using ok i by (auto simp: set_stab_live live_at_def live_ranges_ok_def live_range_valid_def)
  moreover have "distinct (?S ?x)"
    using calculation(1) dist by (metis distinct_filter mset_eq_imp_distinct_iff)
  ultimately have "load_of ?S P i = (\<Sum>k\<leftarrow>?S ?x. r_size (request_at P k))"
    by (simp only: load_of_def sum_list_member)
  also have "\<dots> = load_at P ?x"
    unfolding load_at_def by (rule sum_list_mset_cong) (rule mset_stab_live [OF ok])
  finally show ?thesis .
qed


text \<open>An acceptable plan: every enabled request has an offset, and no two that are live
  together share an address.\<close>

lemma allocated_all_iff:
  assumes ok: "live_ranges_ok P"
  shows "(\<forall>i\<in>set (enabled_requests P). allocated_at (stab (solution_intervals P)) P i) \<longleftrightarrow> sound_plan P"
proof
  assume all: "\<forall>i\<in>set (enabled_requests P). allocated_at (stab (solution_intervals P)) P i"
  have "\<not> mem_overlap (request_at P i) (request_at P j)"
    if ij: "i \<in> set (enabled_requests P)" "j \<in> set (enabled_requests P)" "i \<noteq> j"
      "live_overlap (request_at P i) (request_at P j)" for i j
  proof -
    from ij ok have "live_at P (r_first (request_at P i)) j \<or> live_at P (r_first (request_at P j)) i"
      unfolding live_at_def live_ranges_ok_def by (blast dest: live_overlap_stab)
    then show ?thesis
      using all ij unfolding allocated_at_def set_stab_live [OF ok]
      by (auto simp: mem_overlap_commute)
  qed
  with all show "sound_plan P" by (simp add: sound_plan_def allocated_at_def)
next
  assume sound: "sound_plan P"
  have "live_overlap (request_at P i) (request_at P k)"
    if "live_range_valid (request_at P i)" "live_at P (r_first (request_at P i)) k" for i k
    using that by (simp add: live_overlap_def live_at_def live_range_valid_def)
  then show "\<forall>i\<in>set (enabled_requests P). allocated_at (stab (solution_intervals P)) P i"
    using sound ok unfolding allocated_at_def set_stab_live [OF ok] sound_plan_def live_ranges_ok_def
    by simp
qed

lemma verify_result:
  assumes ok: "live_ranges_ok P" and dist: "distinct (enabled_requests P)"
    and ne: "enabled_requests P \<noteq> []"
    and size: "sizes_ok P"
  shows "verify stab P = Inr st \<longleftrightarrow>
    sound_plan P \<and> 0 < peak_load P \<and> st = \<lparr>maxSize = largest_request P, memUsage = memory_used P, maxLoad = peak_load P\<rparr>"
proof -
  let ?S = "stab (solution_intervals P)"
  have peak: "max_over (load_of ?S P) (enabled_requests P) 0 = peak_load P"
    unfolding peak_load_def using load_of_eq [OF ok dist] by (intro max_over_cong) simp
  have "peak_load P \<le> memory_used P" if "sound_plan P"
    using sound_plan_load [OF that dist size] by (simp add: peak_load_def max_over_le_iff memory_used_nonneg)
  then have bound: "sound_plan P \<Longrightarrow> peak_load P \<le> memory_used P" .
  have loop: "verify_loop ?S P (enabled_requests P) \<lparr>maxSize = 0, memUsage = 0, maxLoad = 0\<rparr> = Inr s \<longleftrightarrow>
      sound_plan P \<and> s = \<lparr>maxSize = largest_request P, memUsage = memory_used P, maxLoad = peak_load P\<rparr>" for s
    by (simp add: verify_loop_Inr allocated_all_iff [OF ok] peak largest_request_def memory_used_def)
  show ?thesis
  proof (cases "verify_loop ?S P (enabled_requests P) \<lparr>maxSize = 0, memUsage = 0, maxLoad = 0\<rparr>")
    case (Inl e)
    with loop have "\<not> sound_plan P" by (metis Inl_Inr_False)
    with Inl ne show ?thesis by (simp add: verify_def)
  next
    case (Inr s)
    with loop have "sound_plan P" "s = \<lparr>maxSize = largest_request P, memUsage = memory_used P, maxLoad = peak_load P\<rparr>"
      by auto
    with Inr ne bound show ?thesis by (auto simp: verify_def)
  qed
qed

end

end
