(* ===== verification/PlannerSpill.thy ===== *)
theory PlannerSpill
  imports PlannerVerify
begin

text \<open>
  \<open>Planner::spillAllocate\<close> (lib/Dialect/D2M/Analysis/Allocation/Planner.cpp): rank the
  free variables by their memory pressure, then bisect for the shortest prefix of the ranking whose
  spilling makes the rest fit. The priority queue, the interval tree and \<open>std::sort\<close> are
  the arguments \<open>pops\<close>, \<open>stab\<close> and \<open>srt\<close>.
\<close>

section \<open>Ranking the free variables\<close>

record spill_priority =
  worstSize :: int
  worstMaxConflictSize :: int
  p_contended :: bool
  p_var :: index

definition by_priority :: "spill_priority \<Rightarrow> spill_priority \<Rightarrow> bool" where
  "by_priority a b \<longleftrightarrow>
     (if p_contended a \<noteq> p_contended b then p_contended a
      else if worstSize a \<noteq> worstSize b then worstSize a > worstSize b
      else worstMaxConflictSize a > worstMaxConflictSize b)"

definition rank_request :: "problem \<Rightarrow> request_metrics list \<Rightarrow> index \<Rightarrow> spill_priority \<Rightarrow> spill_priority"
  where
  "rank_request P metrics i p =
     (let m = metrics ! nat i
      in p\<lparr>worstSize := max (worstSize p) (r_size (request_at P i)),
           worstMaxConflictSize := max (worstMaxConflictSize p) (maxConflictSize m),
           p_contended := (p_contended p \<or> inContentionGroup m)\<rparr>)"

definition variable_priority :: "problem \<Rightarrow> request_metrics list \<Rightarrow> index \<Rightarrow> spill_priority" where
  "variable_priority P metrics v =
     fold (rank_request P metrics) (domain (variable_at P v) (placement (variable_at P v)))
       \<lparr>worstSize = 0, worstMaxConflictSize = 0, p_contended = False, p_var = v\<rparr>"

definition spill_priorities :: "problem \<Rightarrow> request_metrics list \<Rightarrow> spill_priority list" where
  "spill_priorities P metrics =
     map (\<lambda>v. variable_priority P metrics (int v))
       (filter (\<lambda>v. int v \<notin> bound P) [0..<length (variables P)])"

section \<open>The bisection\<close>

definition spill_variable :: "spill_priority \<Rightarrow> problem \<Rightarrow> problem" where
  "spill_variable p P =
     P\<lparr>variables := (variables P)[nat (p_var p) := (variable_at P (p_var p))\<lparr>placement := Spill\<rparr>]\<rparr>"

text \<open>All free variables in scratch, except the first \<open>n\<close> of the ranking.\<close>

definition spill_prefix :: "spill_priority list \<Rightarrow> nat \<Rightarrow> problem \<Rightarrow> problem" where
  "spill_prefix prio n P = fold spill_variable (take n prio) (reset Scratch P)"

record spill_state =
  s_problem :: problem
  s_work :: problem
  s_stats :: alloc_stats
  s_best :: int
  s_spilled :: int
  s_steps :: int

function spill_bisect ::
  "(problem \<Rightarrow> (planner_error, problem \<times> alloc_stats) result) \<Rightarrow> spill_priority list \<Rightarrow> int \<Rightarrow>
    int \<Rightarrow> int \<Rightarrow> spill_state \<Rightarrow> (planner_error, spill_state) result" where
  "spill_bisect alloc prio limit lo hi s =
     (if lo \<le> hi
      then let mid = lo + (hi - lo) div 2
           in case alloc (spill_prefix prio (nat (mid + 1)) (s_work s)) of
                Inl e \<Rightarrow> Inl e
              | Inr (work, midStats) \<Rightarrow>
                  let s' = s\<lparr>s_work := work, s_best := min (s_best s) (memUsage midStats),
                             s_steps := s_steps s + 1\<rparr>
                  in if memUsage midStats \<le> limit
                     then spill_bisect alloc prio limit lo (mid - 1)
                            (s'\<lparr>s_problem := work, s_stats := midStats, s_spilled := mid + 1\<rparr>)
                     else spill_bisect alloc prio limit (mid + 1) hi s'
      else Inr s)"
  by pat_completeness auto

termination
  by (relation "measure (\<lambda>(alloc, prio, limit, lo, hi, s). nat (hi - lo + 1))") auto

definition spill_stats_of :: "int \<Rightarrow> int \<Rightarrow> alloc_stats \<Rightarrow> spill_stats" where
  "spill_stats_of steps spilled st =
     \<lparr>maxSize = maxSize st, memUsage = memUsage st, maxLoad = maxLoad st,
      stepsTaken = steps, spillCount = spilled\<rparr>"

definition free_count :: "problem \<Rightarrow> int" where
  "free_count P = int (length (variables P)) - int (card (bound P))"

definition spill_allocate ::
  "((index \<Rightarrow> index \<Rightarrow> bool) \<Rightarrow> index list \<Rightarrow> index list) \<Rightarrow>
   ((spill_priority \<Rightarrow> spill_priority \<Rightarrow> bool) \<Rightarrow> spill_priority list \<Rightarrow> spill_priority list) \<Rightarrow>
   (interval_entry list \<Rightarrow> int \<Rightarrow> int list) \<Rightarrow> algorithm \<Rightarrow> problem \<Rightarrow> int \<Rightarrow>
   (planner_error, problem \<times> spill_stats) result" where
  "spill_allocate pops srt stab alg P limit =
     (if \<not> valid P then Inl InvalidProblem
      else case allocate pops alg (reset Scratch P) of
        Inl e \<Rightarrow> Inl e
      | Inr (P1, stats) \<Rightarrow>
          if memUsage stats \<le> limit then Inr (P1, spill_stats_of 0 0 stats)
          else if free_count P1 = 0 then Inr (P1, spill_stats_of 0 0 stats)
          else case analyze stab P1 limit of
            Inl e \<Rightarrow> Inl e
          | Inr metrics \<Rightarrow>
              let prio = srt by_priority (spill_priorities P1 metrics)
              in case spill_bisect (allocate pops alg) prio limit 0 (int (length prio) - 1)
                        \<lparr>s_problem = P1, s_work = P1, s_stats = stats, s_best = memUsage stats,
                         s_spilled = -1, s_steps = 1\<rparr> of
                   Inl e \<Rightarrow> Inl e
                 | Inr s \<Rightarrow>
                     if s_spilled s < 0
                     then Inr (s_problem s, spill_stats_of (s_steps s) (-1)
                                 ((s_stats s)\<lparr>memUsage := s_best s\<rparr>))
                     else Inr (s_problem s, spill_stats_of (s_steps s) (s_spilled s) (s_stats s)))"

declare spill_bisect.simps [simp del]

section \<open>Reset forgets a plan\<close>

lemma length_fold_clear [simp]: "length (fold clear_offset is reqs) = length reqs"
  by (induction "is" arbitrary: reqs) (simp_all add: clear_offset_def)

lemma clear_offset_nth:
  assumes "0 \<le> i" "k < length reqs"
  shows "clear_offset i reqs ! k = (if int k = i then (reqs ! k)\<lparr>r_offset := -1\<rparr> else reqs ! k)"
  using assms by (auto simp: clear_offset_def nth_list_update)

lemma fold_clear_nth:
  assumes "\<And>i. i \<in> set is \<Longrightarrow> 0 \<le> i" "k < length reqs"
  shows "fold clear_offset is reqs ! k =
    (if int k \<in> set is then (reqs ! k)\<lparr>r_offset := -1\<rparr> else reqs ! k)"
  using assms
proof (induction "is" arbitrary: reqs)
  case Nil
  then show ?case by simp
next
  case (Cons i "is")
  have "fold clear_offset (i # is) reqs ! k = fold clear_offset is (clear_offset i reqs) ! k" by simp
  also have "\<dots> = (if int k \<in> set is then (clear_offset i reqs ! k)\<lparr>r_offset := -1\<rparr> else clear_offset i reqs ! k)"
    using Cons.prems by (intro Cons.IH) (simp_all add: clear_offset_def)
  also have "\<dots> = (if int k \<in> set (i # is) then (reqs ! k)\<lparr>r_offset := -1\<rparr> else reqs ! k)"
    using Cons.prems by (auto simp: clear_offset_nth)
  finally show ?case .
qed

lemma reset_requests: "requests (reset s P) = fold clear_offset (all_requests P) (requests P)"
proof -
  have "fold clear_variable vs reqs =
      fold clear_offset (concat (map (\<lambda>v. domain v Scratch @ domain v Spill) vs)) reqs" for vs reqs
    by (induction vs arbitrary: reqs) (simp_all add: clear_variable_def spaces_def)
  then show ?thesis by (simp add: reset_def all_requests_def)
qed

lemma reset_variables:
  "variables (reset s P) = map (\<lambda>v. if int v \<in> bound P then variables P ! v
      else (variables P ! v)\<lparr>placement := s\<rparr>) [0..<length (variables P)]"
  by (simp add: reset_def)

lemma reset_bound [simp]: "bound (reset s P) = bound P"
  by (simp add: reset_def)

text \<open>The domains of two problems agree.\<close>

definition same_domains :: "problem \<Rightarrow> problem \<Rightarrow> bool" where
  "same_domains P Q \<longleftrightarrow> map domain (variables P) = map domain (variables Q)"

lemma all_requests_domains: "all_requests P = concat (map (\<lambda>d. d Scratch @ d Spill) (map domain (variables P)))"
  by (simp add: all_requests_def o_def)

lemma same_domains_all_requests: "same_domains P Q \<Longrightarrow> all_requests P = all_requests Q"
  by (simp add: all_requests_domains same_domains_def)

lemma reset_domains [simp]: "same_domains (reset s P) P"
  by (auto simp: same_domains_def reset_variables intro!: nth_equalityI)

lemma valid_all_requests: "valid P \<Longrightarrow> i \<in> set (all_requests P) \<Longrightarrow> 0 \<le> i \<and> nat i < length (requests P)"
  unfolding all_requests_def using valid_domain [of P] by fastforce

lemma enabled_subset_all: "set (enabled_requests P) \<subseteq> set (all_requests P)"
proof
  fix i
  assume "i \<in> set (enabled_requests P)"
  then obtain v where v: "v \<in> set (variables P)" "i \<in> set (domain v (placement v))" "placement v \<noteq> NA"
    by (auto simp: enabled_requests_def variable_requests_def split: if_splits)
  then show "i \<in> set (all_requests P)"
    by (cases "placement v") (auto simp: all_requests_def)
qed

text \<open>The same problem under another decision and another plan: what \<open>reset\<close>,
  spilling a free variable and allocating may change.\<close>

definition variant :: "problem \<Rightarrow> problem \<Rightarrow> bool" where
  "variant P Q \<longleftrightarrow> same_domains P Q \<and> bound P = bound Q \<and> same_shape (requests P) (requests Q) \<and>
     (\<forall>v<length (variables P). int v \<in> bound P \<longrightarrow>
        placement (variables P ! v) = placement (variables Q ! v)) \<and>
     (\<forall>k<length (requests P). int k \<notin> set (all_requests P) \<longrightarrow> requests P ! k = requests Q ! k)"

lemma same_domains_length: "same_domains P Q \<Longrightarrow> length (variables P) = length (variables Q)"
  unfolding same_domains_def by (metis length_map)

lemma same_domains_nth:
  "same_domains P Q \<Longrightarrow> v < length (variables P) \<Longrightarrow> domain (variables P ! v) = domain (variables Q ! v)"
  using same_domains_length unfolding same_domains_def by (metis nth_map)

lemma variant_refl [simp]: "variant P P"
  by (simp add: variant_def same_domains_def)

lemma variant_trans: "variant P Q \<Longrightarrow> variant Q R \<Longrightarrow> variant P R"
  unfolding variant_def
  by (auto intro: same_shape_trans simp: same_domains_length same_shape_length same_domains_all_requests)
    (simp add: same_domains_def)

lemma variant_valid: "variant P Q \<Longrightarrow> valid Q \<Longrightarrow> valid P"
proof -
  assume var: "variant P Q" and valid: "valid Q"
  have len: "length (variables P) = length (variables Q)" "length (requests P) = length (requests Q)"
    using var by (simp_all add: variant_def same_domains_length same_shape_length)
  have "request_ok (int (length (variables P))) (requests P ! k)" if "k < length (requests P)" for k
  proof -
    have "request_ok (int (length (variables Q))) (requests Q ! k)"
      using valid that len by (simp add: valid_def Let_def list_all_length)
    moreover have "r_size (requests P ! k) = r_size (requests Q ! k)" "r_var (requests P ! k) = r_var (requests Q ! k)"
      using var that same_shape_nth(3,4) unfolding variant_def by blast+
    ultimately show ?thesis by (auto simp: request_ok_def len split: if_splits)
  qed
  moreover have "variable_ok (bound P) (int (length (requests P))) (int v) (variables P ! v)"
    if "v < length (variables P)" for v
  proof -
    have "variable_ok (bound Q) (int (length (requests Q))) (int v) (variables Q ! v)"
      using valid that len by (simp add: valid_def Let_def list_all_length)
    moreover have "domain (variables P ! v) = domain (variables Q ! v)" "bound P = bound Q"
      "int v \<in> bound P \<Longrightarrow> placement (variables P ! v) = placement (variables Q ! v)"
      using var that by (simp_all add: variant_def same_domains_nth)
    ultimately show ?thesis by (auto simp: variable_ok_def len split: if_splits)
  qed
  ultimately show "valid P" by (simp add: valid_def Let_def list_all_length)
qed

lemma variant_well_formed: "variant P Q \<Longrightarrow> well_formed Q \<Longrightarrow> well_formed P"
  unfolding well_formed_def using variant_valid [of P Q] same_domains_all_requests [of P Q]
  by (metis variant_def)

lemma variant_reset:
  assumes valid: "valid P"
  shows "variant (reset s P) P"
proof -
  have nonneg: "\<And>i. i \<in> set (all_requests P) \<Longrightarrow> 0 \<le> i" using valid by (simp add: valid_all_requests)
  have all: "all_requests (reset s P) = all_requests P"
    by (rule same_domains_all_requests) simp
  have "same_shape (requests (reset s P)) (requests P)"
    unfolding same_shape_def reset_requests
    by (rule nth_equalityI) (simp_all add: fold_clear_nth [OF nonneg])
  moreover have "requests (reset s P) ! k = requests P ! k"
    if "k < length (requests (reset s P))" "int k \<notin> set (all_requests (reset s P))" for k
    using that by (simp add: reset_requests all fold_clear_nth [OF nonneg])
  ultimately show ?thesis
    by (simp add: variant_def reset_variables)
qed

lemma same_reset:
  assumes var: "variant P Q" and valid: "valid Q"
  shows "reset s P = reset s Q"
proof -
  have nonneg: "\<And>i. i \<in> set (all_requests Q) \<Longrightarrow> 0 \<le> i" using valid by (simp add: valid_all_requests)
  have all: "all_requests P = all_requests Q"
    using var by (simp add: variant_def same_domains_all_requests)
  have len: "length (variables P) = length (variables Q)" "length (requests P) = length (requests Q)"
    using var by (simp_all add: variant_def same_domains_length same_shape_length)
  have shape: "(requests P ! k)\<lparr>r_offset := x\<rparr> = (requests Q ! k)\<lparr>r_offset := x\<rparr>"
    if "k < length (requests P)" for k x
    using var that same_shape_nth [of "requests P" "requests Q" k] by (simp add: variant_def)
  have other: "requests P ! k = requests Q ! k"
    if "k < length (requests P)" "int k \<notin> set (all_requests Q)" for k
    using var that by (simp add: variant_def all)
  have "requests (reset s P) = requests (reset s Q)"
    unfolding reset_requests all
    by (rule nth_equalityI) (auto simp: fold_clear_nth [OF nonneg] len shape other)
  moreover have "variables (reset s P) = variables (reset s Q)"
  proof (rule nth_equalityI)
    fix v
    assume "v < length (variables (reset s P))"
    then have v: "v < length (variables P)" by (simp add: reset_variables)
    have "domain (variables P ! v) = domain (variables Q ! v)" "bound P = bound Q"
      "int v \<in> bound P \<Longrightarrow> placement (variables P ! v) = placement (variables Q ! v)"
      using var v by (simp_all add: variant_def same_domains_nth)
    then show "variables (reset s P) ! v = variables (reset s Q) ! v"
      using v len by (simp add: reset_variables)
  qed (simp add: reset_variables len)
  moreover have "bound (reset s P) = bound (reset s Q)"
    using var by (simp add: variant_def)
  ultimately show ?thesis by simp
qed

lemma variant_plan:
  assumes "plan_of P' P" "valid P"
  shows "variant P' P"
proof -
  have "requests P' ! k = requests P ! k" if "int k \<notin> set (all_requests P)" for k
  proof -
    have "int k \<notin> set (enabled_requests P)" using that enabled_subset_all by blast
    then show ?thesis using assms(1) unfolding plan_of_def untouched_def
      by (metis nat_int of_nat_0_le_iff)
  qed
  moreover have "all_requests P' = all_requests P"
    using assms(1) by (simp add: plan_of_def all_requests_def)
  ultimately show ?thesis using assms(1) by (simp add: plan_of_def variant_def same_domains_def)
qed

lemma variant_spill:
  assumes "p_var p \<notin> bound P" "0 \<le> p_var p"
  shows "variant (spill_variable p P) P"
proof -
  have "map domain ((variables P)[nat (p_var p) := (variable_at P (p_var p))\<lparr>placement := Spill\<rparr>]) =
      map domain (variables P)"
    by (cases "nat (p_var p) < length (variables P)")
      (simp_all add: map_update variable_at_def list_update_same_conv list_update_beyond)
  moreover have "placement ((variables P)[nat (p_var p) := w] ! v) = placement (variables P ! v)"
    if "int v \<in> bound P" for v w
    using assms that by (metis int_nat_eq nth_list_update_neq)
  ultimately show ?thesis
    by (simp add: variant_def spill_variable_def same_domains_def)
qed

section \<open>One trial of the bisection\<close>

definition prio_ok :: "problem \<Rightarrow> spill_priority list \<Rightarrow> bool" where
  "prio_ok P prio \<longleftrightarrow> (\<forall>p\<in>set prio. 0 \<le> p_var p \<and> p_var p \<notin> bound P)"

lemma spill_variable_bound [simp]: "bound (spill_variable p P) = bound P"
  "requests (spill_variable p P) = requests P"
  by (simp_all add: spill_variable_def)

lemma fold_spill_bound [simp]:
  "bound (fold spill_variable ps P) = bound P" "requests (fold spill_variable ps P) = requests P"
  by (induction ps arbitrary: P) simp_all

lemma variant_fold_spill:
  "prio_ok P ps \<Longrightarrow> variant (fold spill_variable ps P) P"
proof (induction ps arbitrary: P)
  case Nil
  then show ?case by simp
next
  case (Cons p ps)
  then have "variant (fold spill_variable ps (spill_variable p P)) (spill_variable p P)"
    by (intro Cons.IH) (simp add: prio_ok_def)
  moreover have "variant (spill_variable p P) P"
    using Cons.prems by (intro variant_spill) (simp_all add: prio_ok_def)
  ultimately show ?case by (simp add: variant_trans)
qed

lemma prio_ok_take: "prio_ok P prio \<Longrightarrow> prio_ok P (take n prio)"
  by (auto simp: prio_ok_def dest: in_set_takeD)

lemma variant_spill_prefix:
  assumes "prio_ok P prio" "valid P"
  shows "variant (spill_prefix prio n P) P"
proof -
  have "variant (spill_prefix prio n P) (reset Scratch P)"
    unfolding spill_prefix_def using assms(1)
    by (intro variant_fold_spill prio_ok_take) (simp add: prio_ok_def)
  then show ?thesis using variant_reset [OF assms(2)] by (rule variant_trans)
qed

lemma spill_prefix_variant:
  "variant W P \<Longrightarrow> valid P \<Longrightarrow> spill_prefix prio n W = spill_prefix prio n P"
  by (simp add: spill_prefix_def same_reset)

lemma unallocated_reset:
  assumes valid: "valid P" and same: "requests Q = requests (reset s P)" "same_domains Q P"
  shows "unallocated Q"
  unfolding unallocated_def
proof
  fix i
  assume "i \<in> set (enabled_requests Q)"
  then have i: "i \<in> set (all_requests P)"
    using enabled_subset_all [of Q] same_domains_all_requests [OF same(2)] by auto
  have nonneg: "\<And>i. i \<in> set (all_requests P) \<Longrightarrow> 0 \<le> i" using valid by (simp add: valid_all_requests)
  show "r_offset (requests Q ! nat i) < 0"
    using valid_all_requests [OF valid i] i unfolding same(1) reset_requests
    by (subst fold_clear_nth [OF nonneg]) auto
qed

lemma unallocated_spill_prefix:
  assumes "prio_ok P prio" "valid P"
  shows "unallocated (spill_prefix prio n P)"
proof (rule unallocated_reset [OF assms(2)])
  show "requests (spill_prefix prio n P) = requests (reset Scratch P)"
    by (simp add: spill_prefix_def)
  show "same_domains (spill_prefix prio n P) P"
    using variant_spill_prefix [OF assms] by (simp add: variant_def)
qed

text \<open>A plan that fits: no two requests live together share memory, and all end within the
  reported usage.\<close>

definition feasible_plan :: "problem \<Rightarrow> int \<Rightarrow> bool" where
  "feasible_plan P M \<longleftrightarrow> conflict_free (requests P) (set (enabled_requests P)) \<and>
     placed_within (requests P) (set (enabled_requests P)) M"

context planner_queue
begin

lemma allocate_plan:
  assumes "well_formed P" "unallocated P"
  obtains P' stats where "allocate pops alg P = Inr (P', stats)" "plan_of P' P"
    "feasible_plan P' (memUsage stats)"
proof (cases alg)
  case Simple
  from simple_plan [OF assms(1)] obtain P' stats where res: "allocate_simple pops P = (P', stats)" "plan_of P' P"
    "stacked (requests P') (set (enabled_requests P))"
    "placed_within (requests P') (set (enabled_requests P)) (memUsage stats)" by metis
  then show thesis
    using Simple by (intro that [of P' stats])
      (simp_all add: feasible_plan_def plan_of_enabled stacked_conflict_free)
next
  case Greedy
  from greedy_plan [OF assms] obtain P' stats where res: "allocate_greedy pops P = Inr (P', stats)" "plan_of P' P"
    "conflict_free (requests P') (set (enabled_requests P))"
    "makespan (requests P') (set (enabled_requests P)) (memUsage stats)" by metis
  then show thesis
    using Greedy by (intro that [of P' stats])
      (simp_all add: feasible_plan_def plan_of_enabled makespan_def)
qed


text \<open>Every trial succeeds, with a plan for the variant it was given.\<close>

lemma trial:
  assumes wf: "well_formed P" and prio: "prio_ok P prio"
  obtains W stats where "allocate pops alg (spill_prefix prio n P) = Inr (W, stats)" "variant W P"
    "feasible_plan W (memUsage stats)"
proof -
  have valid: "valid P" using wf by (simp add: well_formed_def)
  have var: "variant (spill_prefix prio n P) P"
    by (rule variant_spill_prefix [OF prio valid])
  then have "well_formed (spill_prefix prio n P)"
    using wf by (rule variant_well_formed)
  moreover have "unallocated (spill_prefix prio n P)"
    by (rule unallocated_spill_prefix [OF prio valid])
  ultimately obtain W stats where W: "allocate pops alg (spill_prefix prio n P) = Inr (W, stats)"
    "plan_of W (spill_prefix prio n P)" "feasible_plan W (memUsage stats)"
    by (rule allocate_plan)
  have "variant W (spill_prefix prio n P)"
    using W(2) variant_valid [OF var valid] by (rule variant_plan)
  then have "variant W P" using var by (rule variant_trans)
  with W that show thesis by blast
qed

end

text \<open>The memory that a trial with the first \<open>n\<close> variables spilled needs.\<close>

definition trial_usage ::
  "(problem \<Rightarrow> (planner_error, problem \<times> alloc_stats) result) \<Rightarrow> spill_priority list \<Rightarrow> problem \<Rightarrow> nat \<Rightarrow> int"
  where
  "trial_usage alloc prio P n =
     (case alloc (spill_prefix prio n P) of Inl e \<Rightarrow> 0 | Inr (W, stats) \<Rightarrow> memUsage stats)"

text \<open>
  Between two steps: spilling \<open>lo\<close> variables is known not to fit; either no trial has fitted
  yet, or the best one spilled \<open>hi + 2\<close> variables.
\<close>

definition bisect_inv ::
  "(problem \<Rightarrow> (planner_error, problem \<times> alloc_stats) result) \<Rightarrow> problem \<Rightarrow> spill_priority list \<Rightarrow> int \<Rightarrow>
     int \<Rightarrow> int \<Rightarrow> spill_state \<Rightarrow> bool" where
  "bisect_inv alloc P prio limit lo hi s \<longleftrightarrow> 0 \<le> lo \<and> lo \<le> hi + 1 \<and> hi < int (length prio) \<and>
     variant (s_work s) P \<and> variant (s_problem s) P \<and> limit < trial_usage alloc prio P (nat lo) \<and>
     (if s_spilled s < 0
      then hi = int (length prio) - 1 \<and> limit < s_best s
      else s_spilled s = hi + 2 \<and> memUsage (s_stats s) \<le> limit \<and>
           feasible_plan (s_problem s) (memUsage (s_stats s)) \<and>
           alloc (spill_prefix prio (nat (s_spilled s)) P) = Inr (s_problem s, s_stats s))"

lemma halving:
  fixes k :: nat and n m :: int
  assumes "m \<le> n div 2" "k = 0 \<or> 2 ^ k \<le> 2 * m" "1 \<le> n"
  shows "2 ^ Suc k \<le> 2 * n"
  using assms by auto

context planner_queue
begin

lemma bisect_correct:
  assumes wf: "well_formed P" and prio: "prio_ok P prio"
    and "bisect_inv (allocate pops alg) P prio limit lo hi s"
  shows "\<exists>s' k. spill_bisect (allocate pops alg) prio limit lo hi s = Inr s' \<and>
    s_steps s' = s_steps s + int k \<and> (k = 0 \<or> 2 ^ k \<le> 2 * (hi - lo + 1)) \<and>
    (\<exists>m. bisect_inv (allocate pops alg) P prio limit m (m - 1) s')"
  using assms(3)
proof (induction "nat (hi - lo + 1)" arbitrary: lo hi s rule: less_induct)
  case less
  let ?A = "allocate pops alg"
  have inv: "bisect_inv ?A P prio limit lo hi s" by (rule less.prems)
  have valid: "valid P" using wf by (simp add: well_formed_def)
  show ?case
  proof (cases "lo \<le> hi")
    case False
    with inv have "lo = hi + 1" by (simp add: bisect_inv_def)
    with inv have "bisect_inv ?A P prio limit lo (lo - 1) s" by simp
    moreover have "spill_bisect ?A prio limit lo hi s = Inr s"
      using False by (subst spill_bisect.simps) simp
    ultimately show ?thesis by (intro exI [of _ s] exI [of _ 0]) auto
  next
    case True
    define mid where "mid = lo + (hi - lo) div 2"
    have mid: "lo \<le> mid" "mid \<le> hi" "0 \<le> mid" using True inv by (auto simp: mid_def bisect_inv_def)
    have prefix: "spill_prefix prio (nat (mid + 1)) (s_work s) = spill_prefix prio (nat (mid + 1)) P"
      using inv valid by (intro spill_prefix_variant) (simp_all add: bisect_inv_def)
    obtain W stats where W: "?A (spill_prefix prio (nat (mid + 1)) P) = Inr (W, stats)"
      "variant W P" "feasible_plan W (memUsage stats)"
      by (rule trial [OF wf prio])
    define s1 where "s1 = s\<lparr>s_work := W, s_best := min (s_best s) (memUsage stats), s_steps := s_steps s + 1\<rparr>"
    have step: "spill_bisect ?A prio limit lo hi s =
        (if memUsage stats \<le> limit
         then spill_bisect ?A prio limit lo (mid - 1)
                (s1\<lparr>s_problem := W, s_stats := stats, s_spilled := mid + 1\<rparr>)
         else spill_bisect ?A prio limit (mid + 1) hi s1)"
      using True W(1) prefix
      by (subst spill_bisect.simps) (simp add: Let_def mid_def [symmetric] s1_def)
    show ?thesis
    proof (cases "memUsage stats \<le> limit")
      case fits: True
      let ?s = "s1\<lparr>s_problem := W, s_stats := stats, s_spilled := mid + 1\<rparr>"
      have "bisect_inv ?A P prio limit lo (mid - 1) ?s"
        using inv W mid fits by (simp add: bisect_inv_def s1_def)
      from less.hyps [OF _ this] mid True obtain s' k where s':
        "spill_bisect ?A prio limit lo (mid - 1) ?s = Inr s'" "s_steps s' = s_steps ?s + int k"
        "k = 0 \<or> 2 ^ k \<le> 2 * (mid - 1 - lo + 1)" "\<exists>m. bisect_inv ?A P prio limit m (m - 1) s'"
        by auto
      have "2 ^ Suc k \<le> 2 * (hi - lo + 1)"
        by (rule halving [OF _ s'(3)]) (use True in \<open>auto simp: mid_def\<close>)
      with s' fits step show ?thesis
        by (intro exI [of _ s'] exI [of _ "Suc k"]) (simp add: s1_def)
    next
      case over: False
      have "bisect_inv ?A P prio limit (mid + 1) hi s1"
        using inv W mid over by (auto simp: bisect_inv_def s1_def trial_usage_def)
      from less.hyps [OF _ this] mid True obtain s' k where s':
        "spill_bisect ?A prio limit (mid + 1) hi s1 = Inr s'" "s_steps s' = s_steps s1 + int k"
        "k = 0 \<or> 2 ^ k \<le> 2 * (hi - (mid + 1) + 1)" "\<exists>m. bisect_inv ?A P prio limit m (m - 1) s'"
        by auto
      have "2 ^ Suc k \<le> 2 * (hi - lo + 1)"
        by (rule halving [OF _ s'(3)]) (use True in \<open>auto simp: mid_def\<close>)
      with s' over step show ?thesis
        by (intro exI [of _ s'] exI [of _ "Suc k"]) (simp add: s1_def)
    qed
  qed
qed

end

section \<open>Sorting the ranking\<close>

definition legal_sort :: "(('a \<Rightarrow> 'a \<Rightarrow> bool) \<Rightarrow> 'a list \<Rightarrow> 'a list) \<Rightarrow> bool" where
  "legal_sort srt \<longleftrightarrow> (\<forall>lt xs. mset (srt lt xs) = mset xs \<and>
     (strict_weak lt \<longrightarrow> sorted_wrt (\<lambda>a b. \<not> lt b a) (srt lt xs)))"

definition insertion_sort :: "('a \<Rightarrow> 'a \<Rightarrow> bool) \<Rightarrow> 'a list \<Rightarrow> 'a list" where
  "insertion_sort lt xs = pq_pops (\<lambda>a b. lt b a) xs"

lemma strict_weak_flip: "strict_weak lt \<Longrightarrow> strict_weak (\<lambda>a b. lt b a)"
  unfolding strict_weak_def by blast

lemma legal_insertion_sort: "legal_sort insertion_sort"
  by (simp add: legal_sort_def insertion_sort_def mset_pq_pops sorted_pq_pops strict_weak_flip)

lemma strict_weak_by_priority: "strict_weak by_priority"
  unfolding strict_weak_def by_priority_def by (intro conjI allI) (auto split: if_splits)

definition free_variables :: "problem \<Rightarrow> index list" where
  "free_variables P = map int (filter (\<lambda>v. int v \<notin> bound P) [0..<length (variables P)])"

lemma variable_priority_var: "p_var (variable_priority P metrics v) = v"
proof -
  have "p_var (fold (rank_request P metrics) is p) = p_var p" for "is" p
    by (induction "is" arbitrary: p) (simp_all add: rank_request_def Let_def)
  then show ?thesis by (simp add: variable_priority_def)
qed

lemma spill_priorities_vars: "map p_var (spill_priorities P metrics) = free_variables P"
  by (simp add: spill_priorities_def free_variables_def variable_priority_var o_def)

text \<open>A ranking: every free variable once, highest priority first.\<close>

definition ranking :: "problem \<Rightarrow> spill_priority list \<Rightarrow> bool" where
  "ranking P prio \<longleftrightarrow> mset (map p_var prio) = mset (free_variables P) \<and>
     sorted_wrt (\<lambda>a b. \<not> by_priority b a) prio"

lemma ranking_ok: "ranking P prio \<Longrightarrow> prio_ok P prio"
proof -
  assume "ranking P prio"
  then have "p_var ` set prio = set (free_variables P)"
    unfolding ranking_def by (metis list.set_map set_mset_mset)
  then show ?thesis
    by (auto simp: prio_ok_def free_variables_def dest!: equalityD1 subsetD [of "p_var ` set prio"])
qed

locale std_sort =
  fixes srt :: "('a \<Rightarrow> 'a \<Rightarrow> bool) \<Rightarrow> 'a list \<Rightarrow> 'a list"
  assumes legal: "legal_sort srt"

locale rank_sort = std_sort srt for srt :: "(spill_priority \<Rightarrow> spill_priority \<Rightarrow> bool) \<Rightarrow> spill_priority list \<Rightarrow> spill_priority list"
begin

lemma ranking_sorted: "ranking P (srt by_priority (spill_priorities P metrics))"
proof -
  have "mset (srt by_priority (spill_priorities P metrics)) = mset (spill_priorities P metrics)"
    "sorted_wrt (\<lambda>a b. \<not> by_priority b a) (srt by_priority (spill_priorities P metrics))"
    using legal strict_weak_by_priority unfolding legal_sort_def by blast+
  then show ?thesis unfolding ranking_def by (metis mset_map spill_priorities_vars)
qed

end

interpretation isort: rank_sort insertion_sort
  by unfold_locales (rule legal_insertion_sort)

lemma analyze_loop_total:
  "(\<And>i. i \<in> set is \<Longrightarrow> 0 \<le> r_offset (request_at P i)) \<Longrightarrow> \<exists>ms'. analyze_loop S P wm is ms = Inr ms'"
  by (induction "is" arbitrary: ms) (simp_all add: Let_def)

lemma analyze_total:
  "valid P \<Longrightarrow> feasible_plan P M \<Longrightarrow> \<exists>ms. analyze stab P wm = Inr ms"
  unfolding analyze_def
  by (simp add: analyze_loop_total feasible_plan_def placed_within_def request_at_def)

end
