(* ===== verification/PlannerProps.thy ===== *)
theory PlannerProps
  imports PlannerSpill
begin

text \<open>
  The properties of the memory planner (lib/Dialect/D2M/Analysis/Allocation/Planner.cpp), for every
  legal queue, interval tree and sort, each with a witness on a concrete problem.
\<close>

section \<open>The pressure of a variable\<close>

text \<open>
  What the ranking measures, stated without the planner's loops, of the plan in which every free variable is
  in scratch: whether one of its requests is live together with a request that ends above the limit when
  it starts, the size of its largest request, and the most requests live at the start of one of them.
\<close>

definition live_with :: "problem \<Rightarrow> index \<Rightarrow> index list" where
  "live_with P i = filter (live_at P (r_first (request_at P i))) (enabled_requests P)"

definition crowded :: "problem \<Rightarrow> int \<Rightarrow> index \<Rightarrow> bool" where
  "crowded P limit i \<longleftrightarrow> (\<exists>k\<in>set (live_with P i). limit < req_end (request_at P k))"

definition scratch_requests :: "problem \<Rightarrow> index \<Rightarrow> index list" where
  "scratch_requests P v = domain (variable_at P v) Scratch"

definition contended :: "problem \<Rightarrow> int \<Rightarrow> index \<Rightarrow> bool" where
  "contended P limit v \<longleftrightarrow> (\<exists>i\<in>set (scratch_requests P v). crowded P limit i)"

definition largest_size :: "problem \<Rightarrow> index \<Rightarrow> int" where
  "largest_size P v = Max (insert 0 ((\<lambda>i. r_size (request_at P i)) ` set (scratch_requests P v)))"

definition most_conflicts :: "problem \<Rightarrow> index \<Rightarrow> int" where
  "most_conflicts P v = Max (insert 0 ((\<lambda>i. int (length (live_with P i))) ` set (scratch_requests P v)))"

definition more_pressing :: "problem \<Rightarrow> int \<Rightarrow> index \<Rightarrow> index \<Rightarrow> bool" where
  "more_pressing P limit v w \<longleftrightarrow>
     (if contended P limit v \<noteq> contended P limit w then contended P limit v
      else if largest_size P v \<noteq> largest_size P w then largest_size P w < largest_size P v
      else most_conflicts P w < most_conflicts P v)"

text \<open>A ranking by pressure: every free variable once, none behind a less pressing one.\<close>

definition pressure_ranking :: "problem \<Rightarrow> int \<Rightarrow> spill_priority list \<Rightarrow> bool" where
  "pressure_ranking P limit prio \<longleftrightarrow> mset (map p_var prio) = mset (free_variables P) \<and>
     sorted_wrt (\<lambda>a b. \<not> more_pressing P limit (p_var b) (p_var a)) prio"

definition metrics_at :: "problem \<Rightarrow> int \<Rightarrow> index \<Rightarrow> request_metrics" where
  "metrics_at P limit i = \<lparr>maxConflictSize = int (length (live_with P i)), inContentionGroup = crowded P limit i\<rparr>"

definition joined :: "request_metrics \<Rightarrow> request_metrics \<Rightarrow> request_metrics" where
  "joined m n = \<lparr>maxConflictSize = max (maxConflictSize m) (maxConflictSize n),
     inContentionGroup = (inContentionGroup m \<or> inContentionGroup n)\<rparr>"

lemma joined_again [simp]: "joined (joined m n) n = joined m n"
  by (simp add: joined_def)

lemma usage_above:
  "w < fold (\<lambda>k u. max u (f k)) ks (u :: int) \<longleftrightarrow> w < u \<or> (\<exists>k\<in>set ks. w < f k)"
  by (induction ks arbitrary: u) auto

lemma analyze_loop_metrics:
  assumes "analyze_loop stabbed P limit is ms = Inr ms'"
    "\<And>i. i \<in> set is \<Longrightarrow> 0 \<le> i \<and> nat i < length ms"
    "\<And>i. i \<in> set is \<Longrightarrow> mset (stabbed (r_first (request_at P i))) = mset (live_with P i)" "0 \<le> limit"
    "0 \<le> j" "nat j < length ms"
  shows "ms' ! nat j = (if j \<in> set is then joined (ms ! nat j) (metrics_at P limit j) else ms ! nat j)"
  using assms
proof (induction "is" arbitrary: ms)
  case Nil
  then show ?case by simp
next
  case (Cons i "is")
  let ?c = "stabbed (r_first (request_at P i))"
  let ?m = "\<lparr>maxConflictSize = max (maxConflictSize (ms ! nat i)) (int (length ?c)),
    inContentionGroup = (inContentionGroup (ms ! nat i) \<or> fold (\<lambda>k u. max u (req_end (request_at P k))) ?c 0 > limit)\<rparr>"
  have c: "length ?c = length (live_with P i)" "set ?c = set (live_with P i)"
    using Cons.prems(3) [of i] by (auto dest: mset_eq_length mset_eq_setD)
  have m: "?m = joined (ms ! nat i) (metrics_at P limit i)"
    using Cons.prems(4) by (auto simp: joined_def metrics_at_def c usage_above crowded_def)
  have loop: "analyze_loop stabbed P limit is (ms[nat i := joined (ms ! nat i) (metrics_at P limit i)]) = Inr ms'"
    using Cons.prems(1) m by (auto simp: Let_def split: if_split_asm)
  have i: "0 \<le> i" "nat i < length ms" using Cons.prems(2) [of i] by simp_all
  have "ms' ! nat j = (if j \<in> set is then joined (ms[nat i := joined (ms ! nat i) (metrics_at P limit i)] ! nat j) (metrics_at P limit j)
      else ms[nat i := joined (ms ! nat i) (metrics_at P limit i)] ! nat j)"
    using Cons.prems by (intro Cons.IH [OF loop]) auto
  then show ?case using i Cons.prems(5,6) by (cases "j = i") (auto simp: nth_list_update nat_eq_iff)
qed

lemma rank_fold:
  assumes "\<And>i. i \<in> set is \<Longrightarrow> metrics ! nat i = metrics_at P limit i"
  shows "fold (rank_request P metrics) is p =
    \<lparr>worstSize = fold (\<lambda>i s. max s (r_size (request_at P i))) is (worstSize p),
     worstMaxConflictSize = fold (\<lambda>i s. max s (int (length (live_with P i)))) is (worstMaxConflictSize p),
     p_contended = (p_contended p \<or> (\<exists>i\<in>set is. crowded P limit i)), p_var = p_var p\<rparr>"
  using assms by (induction "is" arbitrary: p) (auto simp: rank_request_def Let_def metrics_at_def)

lemma fold_max_set: "fold (\<lambda>i s. max s (f i :: int)) is s = Max (insert s (f ` set is))"
proof (induction "is" arbitrary: s)
  case (Cons i "is")
  have "Max (insert (max s (f i)) (f ` set is)) = Max (insert s (insert (f i) (f ` set is)))"
  proof (cases "set is = {}")
    case False
    then show ?thesis by (simp add: max.assoc)
  qed simp
  then show ?case using Cons by simp
qed simp

lemma free_placement:
  assumes "variables P1 = variables (reset Scratch P)" "v \<in> set (free_variables P)"
  shows "placement (variable_at P1 v) = Scratch" "0 \<le> v" "nat v < length (variables P1)"
  using assms by (auto simp: variable_at_def reset_variables free_variables_def)

lemma variable_priority_pressure:
  assumes P1: "variables P1 = variables (reset Scratch P)" and v: "v \<in> set (free_variables P)"
    and ok: "valid P1" "live_ranges_ok P1" and stab: "legal_stab stab" and an: "analyze stab P1 limit = Inr metrics" "0 \<le> limit"
  shows "variable_priority P1 metrics v =
    \<lparr>worstSize = largest_size P1 v, worstMaxConflictSize = most_conflicts P1 v, p_contended = contended P1 limit v, p_var = v\<rparr>"
proof -
  note pl = free_placement [OF P1 v]
  have mem: "variable_at P1 v \<in> set (variables P1)" using pl by (simp add: variable_at_def)
  have idx: "0 \<le> i \<and> nat i < length (requests P1)" if "i \<in> set (enabled_requests P1)" for i
    using valid_all_requests [OF ok(1)] enabled_subset_all that by blast
  have live: "mset (stab (solution_intervals P1) (r_first (request_at P1 i))) = mset (live_with P1 i)" for i
    unfolding live_with_def by (rule interval_index.mset_stab_live [OF interval_index.intro [OF stab] ok(2)])
  have loop: "analyze_loop (stab (solution_intervals P1)) P1 limit (enabled_requests P1) (replicate (length (requests P1)) no_metrics) = Inr metrics"
    using an ok(1) by (simp add: analyze_def)
  have m: "metrics ! nat i = metrics_at P1 limit i" if "i \<in> set (scratch_requests P1 v)" for i
  proof -
    have "i \<in> set (variable_requests (variable_at P1 v))" using that pl(1) by (simp add: scratch_requests_def variable_requests_def)
    then have "i \<in> set (enabled_requests P1)" using mem by (auto simp: enabled_requests_def)
    then show ?thesis
      using idx analyze_loop_metrics [OF loop _ live an(2), of i] by (simp add: joined_def no_metrics_def metrics_at_def)
  qed
  show ?thesis
    unfolding variable_priority_def pl(1) scratch_requests_def [symmetric]
    by (subst rank_fold [OF m]) (simp_all add: fold_max_set largest_size_def most_conflicts_def contended_def)
qed

section \<open>The spilling planner\<close>

locale spill_planner = planner_queue pops + rank_sort srt
  for pops :: "(index \<Rightarrow> index \<Rightarrow> bool) \<Rightarrow> index list \<Rightarrow> index list"
    and srt :: "(spill_priority \<Rightarrow> spill_priority \<Rightarrow> bool) \<Rightarrow> spill_priority list \<Rightarrow> spill_priority list"
begin

text \<open>The two ways \<open>spillAllocate\<close> returns: without a search, or with the state of a
  finished bisection.\<close>

lemma spill_result:
  assumes wf: "well_formed P"
  obtains (direct) P1 stats where
      "allocate pops alg (reset Scratch P) = Inr (P1, stats)"
      "spill_allocate pops srt stab alg P limit = Inr (P1, spill_stats_of 0 0 stats)"
      "memUsage stats \<le> limit \<or> free_count P = 0" "variant P1 P" "feasible_plan P1 (memUsage stats)"
  | (search) prio s k m P1 stats metrics where
      "ranking P prio" "bisect_inv (allocate pops alg) P prio limit m (m - 1) s"
      "s_steps s = 1 + int k" "k = 0 \<or> 2 ^ k \<le> 2 * int (length prio)"
      "limit < trial_usage (allocate pops alg) prio P 0"
      "spill_allocate pops srt stab alg P limit = Inr (s_problem s,
         if s_spilled s < 0 then spill_stats_of (s_steps s) (-1) ((s_stats s)\<lparr>memUsage := s_best s\<rparr>)
         else spill_stats_of (s_steps s) (s_spilled s) (s_stats s))"
      "allocate pops alg (reset Scratch P) = Inr (P1, stats)" "variant P1 P" "variables P1 = variables (reset Scratch P)"
      "analyze stab P1 limit = Inr metrics" "prio = srt by_priority (spill_priorities P1 metrics)"
proof -
  let ?A = "allocate pops alg"
  have valid: "valid P" using wf by (simp add: well_formed_def)
  have "prio_ok P []" by (simp add: prio_ok_def)
  from trial [OF wf this, where n = 0 and alg = alg] obtain P1 stats where P1:
    "?A (reset Scratch P) = Inr (P1, stats)" "variant P1 P" "feasible_plan P1 (memUsage stats)"
    by (auto simp: spill_prefix_def)
  have vars: "variables P1 = variables (reset Scratch P)"
  proof -
    have wf0: "well_formed (spill_prefix [] 0 P)"
      by (rule variant_well_formed [OF variant_spill_prefix [OF \<open>prio_ok P []\<close> valid] wf])
    obtain P2 st2 where "?A (spill_prefix [] 0 P) = Inr (P2, st2)" "plan_of P2 (spill_prefix [] 0 P)"
      by (rule allocate_plan [OF wf0 unallocated_spill_prefix [OF \<open>prio_ok P []\<close> valid]])
    then show ?thesis using P1(1) by (simp add: spill_prefix_def plan_of_def)
  qed
  have same: "free_count P1 = free_count P" "free_variables P1 = free_variables P"
    using P1(2) same_domains_length [of P1 P] by (simp_all add: variant_def free_count_def free_variables_def)
  show thesis
  proof (cases "memUsage stats \<le> limit \<or> free_count P = 0")
    case True
    with P1 valid same show thesis by (intro direct [of P1 stats]) (auto simp: spill_allocate_def)
  next
    case False
    from analyze_total [OF variant_valid [OF P1(2) valid] P1(3)] obtain metrics
      where metrics: "analyze stab P1 limit = Inr metrics" by blast
    define prio where "prio = srt by_priority (spill_priorities P1 metrics)"
    define s0 where "s0 = \<lparr>s_problem = P1, s_work = P1, s_stats = stats, s_best = memUsage stats,
      s_spilled = -1, s_steps = 1\<rparr>"
    have rank: "ranking P prio"
      using ranking_sorted [of P1 metrics] by (simp add: prio_def ranking_def same)
    have zero: "limit < trial_usage ?A prio P 0"
      using P1(1) False by (simp add: trial_usage_def spill_prefix_def)
    have "bisect_inv ?A P prio limit 0 (int (length prio) - 1) s0"
      using P1(2) zero False by (simp add: bisect_inv_def s0_def)
    from bisect_correct [OF wf ranking_ok [OF rank] this] obtain s k m where s:
      "spill_bisect ?A prio limit 0 (int (length prio) - 1) s0 = Inr s" "s_steps s = 1 + int k"
      "k = 0 \<or> 2 ^ k \<le> 2 * int (length prio)" "bisect_inv ?A P prio limit m (m - 1) s"
      by (auto simp: s0_def)
    show thesis
      using False valid P1(1) metrics same s(1)
      by (intro search [OF rank s(4) s(2) s(3) zero _ P1(1,2) vars metrics prio_def])
        (simp add: spill_allocate_def Let_def prio_def [symmetric] s0_def [symmetric])
  qed
qed

end

interpretation std_spill: spill_planner pq_pops insertion_sort
  by unfold_locales

section \<open>Building a problem\<close>

text \<open>The calls of a client: sizes are not negative and placements are real spaces.\<close>

fun call_ok :: "builder_call \<Rightarrow> bool" where
  "call_ok (Request sp sz f l) \<longleftrightarrow> 0 \<le> sz \<and> sp \<noteq> NA"
| "call_ok (Place sp) \<longleftrightarrow> sp \<noteq> NA"
| "call_ok (Bind sp) \<longleftrightarrow> sp \<noteq> NA"

definition bound_known :: "problem \<Rightarrow> bool" where
  "bound_known P \<longleftrightarrow> (\<forall>i\<in>bound P. 0 \<le> i \<and> i < int (length (variables P)))"

text \<open>While the client runs, only \<open>bound\<close> of the parent changes.\<close>

definition building :: "problem \<Rightarrow> problem \<times> builder \<Rightarrow> bool" where
  "building P pb \<longleftrightarrow> (case pb of (Q, b) \<Rightarrow>
     requests Q = requests P \<and> variables Q = variables P \<and>
     bound P \<subseteq> bound Q \<and> bound Q \<subseteq> insert (int (length (variables P))) (bound P) \<and>
     (int (length (variables P)) \<in> bound Q \<longrightarrow> b_placement b \<noteq> NA) \<and>
     length (b_spaces b) = length (b_requests b) \<and>
     (\<forall>r\<in>set (b_requests b). 0 \<le> r_size r) \<and> NA \<notin> set (b_spaces b))"

lemma building_step: "building P pb \<Longrightarrow> call_ok c \<Longrightarrow> building P (builder_step pb c)"
  by (cases c) (auto simp: building_def builder_request_def builder_place_def builder_bind_def split: prod.splits)

lemma building_foldl:
  "building P pb \<Longrightarrow> list_all call_ok calls \<Longrightarrow> building P (foldl builder_step pb calls)"
  by (induction calls arbitrary: pb) (simp_all add: building_step)

text \<open>The domains that \<open>add\<close> fills hold the indices of the appended requests, each
  once.\<close>

lemma add_requests_result:
  assumes "add_requests rs v reqs var = (reqs', var')"
    and "distinct (domain var Scratch @ domain var Spill)"
    and "set (domain var Scratch @ domain var Spill) \<subseteq> {n..<int (length reqs)}" "n \<le> int (length reqs)"
  shows "reqs' = reqs @ map (\<lambda>(r, s). r\<lparr>r_var := v\<rparr>) rs \<and> placement var' = placement var \<and>
    distinct (domain var' Scratch @ domain var' Spill) \<and>
    set (domain var' Scratch @ domain var' Spill) \<subseteq> {n..<int (length reqs')}"
  using assms
proof (induction rs arbitrary: reqs var)
  case Nil
  then show ?case by simp
next
  case (Cons rs1 rs)
  obtain r s where rs1: "rs1 = (r, s)" by (cases rs1)
  let ?var = "var\<lparr>domain := (domain var)(s := domain var s @ [int (length reqs)])\<rparr>"
  have new: "int (length reqs) \<notin> set (domain var Scratch) \<union> set (domain var Spill)"
    using Cons.prems(3) by auto
  have "distinct (domain ?var Scratch @ domain ?var Spill)"
    using Cons.prems(2) new by (cases s) auto
  moreover have "set (domain ?var Scratch @ domain ?var Spill) \<subseteq> {n..<int (length (reqs @ [r\<lparr>r_var := v\<rparr>]))}"
    using Cons.prems(3,4) by (cases s) auto
  moreover have "add_requests rs v (reqs @ [r\<lparr>r_var := v\<rparr>]) ?var = (reqs', var')"
    "n \<le> int (length (reqs @ [r\<lparr>r_var := v\<rparr>]))"
    using Cons.prems(1,4) by (simp_all add: rs1)
  ultimately have "reqs' = (reqs @ [r\<lparr>r_var := v\<rparr>]) @ map (\<lambda>(r, s). r\<lparr>r_var := v\<rparr>) rs \<and>
      placement var' = placement ?var \<and> distinct (domain var' Scratch @ domain var' Spill) \<and>
      set (domain var' Scratch @ domain var' Spill) \<subseteq> {n..<int (length reqs')}"
    by (intro Cons.IH)
  then show ?case by (elim conjE) (simp add: rs1)
qed

lemma valid_extend:
  assumes valid: "valid P" and known: "bound_known P"
    and bound: "B \<subseteq> insert (int (length (variables P))) (bound P)"
    and reqs: "\<And>r. r \<in> set rs \<Longrightarrow> 0 \<le> r_size r \<and> r_var r = int (length (variables P))"
    and var: "set (domain v Scratch @ domain v Spill) \<subseteq> {0..<int (length (requests P @ rs))}"
    and place: "int (length (variables P)) \<in> B \<Longrightarrow> placement v \<noteq> NA"
  shows "valid \<lparr>requests = requests P @ rs, variables = variables P @ [v], bound = B\<rparr>"
proof -
  let ?n = "length (variables P)"
  have "request_ok (int (Suc ?n)) r" if "r \<in> set (requests P @ rs)" for r
  proof -
    have "r \<in> set (requests P) \<Longrightarrow> request_ok (int ?n) r"
      using valid by (simp add: valid_def Let_def list_all_iff)
    then show ?thesis using that reqs [of r] by (auto simp: request_ok_def split: if_splits)
  qed
  moreover have "variable_ok B (int (length (requests P @ rs))) (int k) ((variables P @ [v]) ! k)"
    if "k < Suc ?n" for k
  proof (cases "k < ?n")
    case True
    then have "variable_ok (bound P) (int (length (requests P))) (int k) (variables P ! k)"
      using valid by (simp add: valid_def Let_def list_all_iff)
    moreover have "int k \<in> B \<Longrightarrow> int k \<in> bound P" using bound True by auto
    ultimately show ?thesis
      using True by (fastforce simp: variable_ok_def nth_append list_all_iff split: if_splits)
  next
    case False
    then have k: "k = ?n" using that by simp
    have "space_less (placement v) NA" if "int ?n \<in> B"
      using place [OF that] by (cases "placement v") (simp_all add: space_less_def)
    with var show ?thesis
      by (auto simp: k variable_ok_def nth_append list_all_iff spaces_def)
  qed
  ultimately show ?thesis by (simp add: valid_def Let_def list_all_iff del: upt_Suc)
qed

lemma problem_def_extends:
  assumes wf: "well_formed P" and known: "bound_known P" and calls: "list_all call_ok calls"
  shows "\<exists>rs v B. problem_def calls P = (int (length (variables P)),
      \<lparr>requests = requests P @ rs, variables = variables P @ [v], bound = B\<rparr>) \<and>
    well_formed (snd (problem_def calls P)) \<and> bound_known (snd (problem_def calls P)) \<and>
    bound P \<subseteq> B \<and> B \<subseteq> insert (int (length (variables P))) (bound P)"
proof -
  obtain Q b where Qb: "foldl builder_step (P, new_builder) calls = (Q, b)" by fastforce
  have "building P (P, new_builder)"
    by (auto simp: building_def new_builder_def bound_known_def dest!: bspec intro: known [unfolded bound_known_def, THEN bspec])
      (use known in \<open>auto simp: bound_known_def\<close>)
  then have b: "building P (Q, b)" using building_foldl [OF _ calls] by (metis Qb)
  let ?n = "int (length (variables P))"
  obtain reqs' v where add: "add_requests (zip (b_requests b) (b_spaces b)) ?n (requests P)
      \<lparr>domain = (\<lambda>_. []), placement = b_placement b\<rparr> = (reqs', v)" by fastforce
  let ?rs = "map (\<lambda>(r, s). r\<lparr>r_var := ?n\<rparr>) (zip (b_requests b) (b_spaces b))"
  have "reqs' = requests P @ ?rs \<and> placement v = placement \<lparr>domain = (\<lambda>_. []), placement = b_placement b\<rparr> \<and>
      distinct (domain v Scratch @ domain v Spill) \<and>
      set (domain v Scratch @ domain v Spill) \<subseteq> {int (length (requests P))..<int (length reqs')}"
    by (rule add_requests_result [OF add]) simp_all
  then have res: "reqs' = requests P @ ?rs" "placement v = b_placement b"
    "distinct (domain v Scratch @ domain v Spill)"
    "set (domain v Scratch @ domain v Spill) \<subseteq> {int (length (requests P))..<int (length reqs')}"
    by (elim conjE, simp only: variable.select_convs)+
  have eq: "problem_def calls P =
      (?n, \<lparr>requests = requests P @ ?rs, variables = variables P @ [v], bound = bound Q\<rparr>)"
    using b add res(1) by (cases Q) (simp add: problem_def_def builder_add_def Qb building_def Let_def)
  have "0 \<le> r_size r \<and> r_var r = ?n" if "r \<in> set ?rs" for r
    using that b by (auto simp: building_def dest: set_zip_leftD)
  then have "valid \<lparr>requests = requests P @ ?rs, variables = variables P @ [v], bound = bound Q\<rparr>"
    using wf known b res by (intro valid_extend) (auto simp: well_formed_def building_def)
  moreover have "distinct (all_requests P @ domain v Scratch @ domain v Spill)"
    using wf res(3,4) valid_all_requests [of P] by (fastforce simp: well_formed_def)
  ultimately have "well_formed (snd (problem_def calls P))"
    by (simp add: eq well_formed_def all_requests_def)
  moreover have "bound_known (snd (problem_def calls P))"
  proof -
    have "0 \<le> i \<and> i < ?n + 1" if "i \<in> bound Q" for i
    proof -
      have "i = ?n \<or> i \<in> bound P" using b that by (auto simp: building_def)
      then show ?thesis using known by (auto simp: bound_known_def)
    qed
    then show ?thesis by (fastforce simp: eq bound_known_def)
  qed
  ultimately show ?thesis
    using eq b by (intro exI [of _ ?rs] exI [of _ v] exI [of _ "bound Q"]) (simp add: building_def)
qed

section \<open>The properties\<close>

text \<open>The concrete problem of the witnesses: three variables built through the builder, the
  last one bound.\<close>

definition sample_problem :: problem where
  "sample_problem =
     snd (problem_def [Request Scratch 9 1 2, Bind Scratch]
       (snd (problem_def [Request Scratch 4 2 2, Request Spill 1 2 2, Place Scratch]
         (snd (problem_def [Request Scratch 10 0 1, Request Spill 2 0 1, Place Scratch]
            empty_problem)))))"

lemma sample_problem_eq:
  "sample_problem =
     \<lparr>requests = [\<lparr>r_first = 0, r_last = 1, r_size = 10, r_offset = -1, r_var = 0\<rparr>,
        \<lparr>r_first = 0, r_last = 1, r_size = 2, r_offset = -1, r_var = 0\<rparr>,
        \<lparr>r_first = 2, r_last = 2, r_size = 4, r_offset = -1, r_var = 1\<rparr>,
        \<lparr>r_first = 2, r_last = 2, r_size = 1, r_offset = -1, r_var = 1\<rparr>,
        \<lparr>r_first = 1, r_last = 2, r_size = 9, r_offset = -1, r_var = 2\<rparr>],
      variables = [\<lparr>domain = (\<lambda>_. [])(Scratch := [0], Spill := [1]), placement = Scratch\<rparr>,
        \<lparr>domain = (\<lambda>_. [])(Scratch := [2], Spill := [3]), placement = Scratch\<rparr>,
        \<lparr>domain = (\<lambda>_. [])(Scratch := [4]), placement = Scratch\<rparr>],
      bound = {2}\<rparr>"
  by (simp add: sample_problem_def problem_def_def new_builder_def builder_request_def
      builder_place_def builder_bind_def builder_add_def empty_problem_def Let_def)

lemma sample_valid: "valid sample_problem"
  by (simp add: sample_problem_eq valid_def request_ok_def variable_ok_def space_less_def spaces_def
      Let_def upt_rec)

lemma sample_well_formed: "well_formed sample_problem"
  unfolding well_formed_def using sample_valid by (simp add: sample_problem_eq all_requests_def)

lemma sample_unallocated: "unallocated sample_problem"
  by (simp add: sample_problem_eq unallocated_def enabled_requests_def variable_requests_def)

text \<open>C1: the greedy allocator gives every enabled request of a fresh problem an offset, requests
  live at a common time get disjoint memory, the reported \<open>memUsage\<close> is the least bound of the
  plan, it is at most what stacking all requests would need, and nothing but those offsets
  changes.\<close>

theorem greedy_allocate_correct:
  assumes "legal_pops pops" "well_formed P" "unallocated P"
  shows "\<exists>P' st. allocate pops Greedy P = Inr (P', st) \<and> plan_of P' P \<and>
    conflict_free (requests P') (set (enabled_requests P)) \<and>
    makespan (requests P') (set (enabled_requests P)) (memUsage st) \<and>
    memUsage st \<le> (\<Sum>i\<leftarrow>enabled_requests P. r_size (requests P ! nat i))"
  using planner_queue.greedy_plan [OF planner_queue.intro [OF pop_queue.intro [OF assms(1)]] assms(2,3)]
  by (metis allocate.simps(2))

definition sample_plan :: problem where
  "sample_plan = sample_problem\<lparr>requests :=
     [\<lparr>r_first = 0, r_last = 1, r_size = 10, r_offset = 0, r_var = 0\<rparr>,
      \<lparr>r_first = 0, r_last = 1, r_size = 2, r_offset = -1, r_var = 0\<rparr>,
      \<lparr>r_first = 2, r_last = 2, r_size = 4, r_offset = 0, r_var = 1\<rparr>,
      \<lparr>r_first = 2, r_last = 2, r_size = 1, r_offset = -1, r_var = 1\<rparr>,
      \<lparr>r_first = 1, r_last = 2, r_size = 9, r_offset = 10, r_var = 2\<rparr>]\<rparr>"

lemma sample_greedy:
  "allocate pq_pops Greedy sample_problem = Inr (sample_plan, \<lparr>maxSize = 10, memUsage = 19, maxLoad = 0\<rparr>)"
  by (simp add: sample_problem_eq sample_plan_def allocate_greedy_def enabled_requests_def
      variable_requests_def pq_pops_def by_size_def find_offset_def gap_step_def emplace_def
      int64_max_def Let_def)

theorem greedy_allocate_correct_witness:
  "\<exists>P' st. allocate pq_pops Greedy sample_problem = Inr (P', st) \<and> memUsage st \<le> 23"
proof -
  have "(\<Sum>i\<leftarrow>enabled_requests sample_problem. r_size (requests sample_problem ! nat i)) = 23"
    by (simp add: sample_problem_eq enabled_requests_def variable_requests_def)
  then show ?thesis
    using greedy_allocate_correct [OF legal_pq_pops sample_well_formed sample_unallocated] by metis
qed

text \<open>the simple allocator stacks the enabled requests: all of them are disjoint, all lie
  inside \<open>memUsage\<close>, which is the sum of their sizes, and nothing but their offsets
  changes.\<close>

theorem simple_allocate_correct:
  assumes "legal_pops pops" "well_formed P"
  shows "\<exists>P' st. allocate pops Simple P = Inr (P', st) \<and> plan_of P' P \<and>
    stacked (requests P') (set (enabled_requests P)) \<and>
    placed_within (requests P') (set (enabled_requests P)) (memUsage st) \<and>
    memUsage st = (\<Sum>i\<leftarrow>enabled_requests P. r_size (requests P ! nat i))"
  using planner_queue.simple_plan [OF planner_queue.intro [OF pop_queue.intro [OF assms(1)]] assms(2)]
  by (metis allocate.simps(1))

theorem simple_allocate_correct_witness:
  "\<exists>P' st. allocate pq_pops Simple sample_problem = Inr (P', st) \<and> memUsage st = 23"
proof -
  have "(\<Sum>i\<leftarrow>enabled_requests sample_problem. r_size (requests sample_problem ! nat i)) = 23"
    by (simp add: sample_problem_eq enabled_requests_def variable_requests_def)
  then show ?thesis
    using simple_allocate_correct [OF legal_pq_pops sample_well_formed] by metis
qed

text \<open>C3: \<open>verify\<close>, which only queries the interval tree at the starts of the requests,
  accepts exactly the plans with a positive load in which every enabled request has an offset and
  no two requests live at a common time share memory; it then reports the largest size, the memory
  used and the peak load.\<close>

theorem verify_decides:
  assumes "legal_stab stab" "live_ranges_ok P" "distinct (enabled_requests P)"
    "enabled_requests P \<noteq> []" "sizes_ok P"
  shows "verify stab P = Inr st \<longleftrightarrow> sound_plan P \<and> 0 < peak_load P \<and>
    st = \<lparr>maxSize = largest_request P, memUsage = memory_used P, maxLoad = peak_load P\<rparr>"
  by (rule interval_index.verify_result [OF interval_index.intro [OF assms(1)] assms(2-5)])

lemma sample_plan_facts:
  "live_ranges_ok sample_plan" "enabled_requests sample_plan = [0, 2, 4]" "sizes_ok sample_plan"
  by (simp_all add: sample_plan_def sample_problem_eq live_ranges_ok_def live_range_valid_def
      enabled_requests_def variable_requests_def sizes_ok_def request_at_def)

theorem verify_decides_witness:
  "verify scan_stab sample_plan = Inr \<lparr>maxSize = 10, memUsage = 19, maxLoad = 19\<rparr>"
proof -
  have "sound_plan sample_plan" "largest_request sample_plan = 10" "memory_used sample_plan = 19"
    "peak_load sample_plan = 19"
    unfolding sound_plan_def largest_request_def memory_used_def peak_load_def load_at_def
      live_at_def sample_plan_facts(2)
    by (simp_all add: request_at_def sample_plan_def live_overlap_def mem_overlap_def)
  then show ?thesis
    by (subst verify_decides [OF legal_scan_stab sample_plan_facts(1) _ _ sample_plan_facts(3)])
      (simp_all add: sample_plan_facts(2))
qed

text \<open>A greedy plan, seen by \<open>verify\<close>.\<close>

lemma plan_nth:
  assumes "plan_of P' P" "valid P" "i \<in> set (enabled_requests P)"
  shows "r_first (request_at P' i) = r_first (request_at P i)" "r_last (request_at P' i) = r_last (request_at P i)"
    "r_size (request_at P' i) = r_size (request_at P i)"
proof -
  have "same_shape (requests P') (requests P)" using assms(1) by (simp add: plan_of_def)
  moreover have "nat i < length (requests P')"
    using valid_enabled(2) [OF assms(2,3)] same_shape_length [OF calculation] by simp
  ultimately show "r_first (request_at P' i) = r_first (request_at P i)"
    "r_last (request_at P' i) = r_last (request_at P i)" "r_size (request_at P' i) = r_size (request_at P i)"
    by (simp_all add: request_at_def same_shape_nth)
qed

lemma plan_load:
  assumes "plan_of P' P" "valid P"
  shows "load_at P' x = load_at P x" "peak_load P' = peak_load P"
proof -
  note eq = plan_nth [OF assms] plan_of_enabled [OF assms(1)]
  have load: "load_at P' x = load_at P x" for x
    unfolding load_at_def eq(4)
    by (intro arg_cong [where f = sum_list] map_cong filter_cong) (auto simp: live_at_def eq(1-3))
  then show "load_at P' x = load_at P x" .
  show "peak_load P' = peak_load P"
    unfolding peak_load_def eq(4) by (intro max_over_cong) (simp add: load eq(1))
qed

lemma feasible_sound:
  assumes "conflict_free (requests P) (set (enabled_requests P))"
    "makespan (requests P) (set (enabled_requests P)) M"
  shows "sound_plan P \<and> memory_used P = M"
proof
  show "sound_plan P"
    using assms unfolding sound_plan_def conflict_free_def makespan_def placed_within_def request_at_def
    by (metis mem_overlap_disjoint)
  have "memory_used P \<le> M"
    using assms(2) by (simp add: memory_used_def max_over_le_iff makespan_def placed_within_def request_at_def)
  moreover have "M \<le> memory_used P"
    using assms(2) max_over_ge(2) [of _ "enabled_requests P" "\<lambda>i. req_end (request_at P i)" 0]
    by (auto simp: makespan_def request_at_def memory_used_def max_over_ge(1))
  ultimately show "memory_used P = M" by simp
qed

lemma valid_sizes_ok: "valid P \<Longrightarrow> sizes_ok P"
  using valid_enabled(2) [of P] valid_sizes [of P]
  by (auto simp: sizes_ok_def request_at_def)

text \<open>\<open>verify\<close> accepts every plan that the greedy allocator produces for a fresh
  problem with live ranges and a positive load. Both agree on \<open>memUsage\<close>; the reported
  \<open>maxLoad\<close> is at least the load at every time, so the gap between the two bounds the
  distance from an optimal plan.\<close>

theorem greedy_verified:
  assumes "legal_pops pops" "legal_stab stab" "well_formed P" "unallocated P" "live_ranges_ok P"
    "0 < peak_load P"
  shows "\<exists>P' st vst. allocate pops Greedy P = Inr (P', st) \<and> verify stab P' = Inr vst \<and>
    memUsage vst = memUsage st \<and> maxLoad vst \<le> memUsage vst \<and> (\<forall>x. load_at P x \<le> maxLoad vst)"
proof -
  from planner_queue.greedy_plan [OF planner_queue.intro [OF pop_queue.intro [OF assms(1)]] assms(3,4)]
  obtain P' st where P': "allocate_greedy pops P = Inr (P', st)" "plan_of P' P"
    "conflict_free (requests P') (set (enabled_requests P))"
    "makespan (requests P') (set (enabled_requests P)) (memUsage st)" by metis
  have valid: "valid P" using assms(3) by (simp add: well_formed_def)
  note en = plan_of_enabled [OF P'(2)]
  have sizes: "sizes_ok P'" "sizes_ok P"
    using valid_sizes_ok [OF valid] by (simp_all add: sizes_ok_def en plan_nth [OF P'(2) valid])
  have dist: "distinct (enabled_requests P')" "distinct (enabled_requests P)"
    using enabled_distinct [OF assms(3)] by (simp_all add: en)
  have ranges: "live_ranges_ok P'"
    using assms(5) by (simp add: live_ranges_ok_def live_range_valid_def en plan_nth [OF P'(2) valid])
  have ne: "enabled_requests P' \<noteq> []"
    using assms(6) by (auto simp: peak_load_def en)
  have sound: "sound_plan P' \<and> memory_used P' = memUsage st"
    using feasible_sound P'(3,4) by (simp add: en)
  let ?v = "\<lparr>maxSize = largest_request P', memUsage = memory_used P', maxLoad = peak_load P'\<rparr>"
  have "verify stab P' = Inr ?v"
    using interval_index.verify_result [OF interval_index.intro [OF assms(2)] ranges dist(1) ne sizes(1)]
      sound assms(6) by (simp add: plan_load [OF P'(2) valid])
  moreover have "peak_load P' \<le> memory_used P'"
    using sound_plan_load [OF _ dist(1) sizes(1)] sound
    unfolding peak_load_def max_over_le_iff using memory_used_nonneg [of P'] by blast
  moreover have "load_at P x \<le> peak_load P'" for x
    using peak_load_max [OF dist(2) sizes(2)] by (simp add: plan_load [OF P'(2) valid])
  ultimately show ?thesis using P'(1) sound by (intro exI [of _ P'] exI [of _ st] exI [of _ ?v]) simp
qed

lemma sample_peak: "live_ranges_ok sample_problem" "peak_load sample_problem = 19"
  by (simp_all add: sample_problem_eq live_ranges_ok_def live_range_valid_def enabled_requests_def
      variable_requests_def request_at_def peak_load_def load_at_def live_at_def)

theorem greedy_verified_witness:
  "\<exists>P' st vst. allocate pq_pops Greedy sample_problem = Inr (P', st) \<and> verify scan_stab P' = Inr vst \<and>
    memUsage vst = memUsage st"
  using greedy_verified [OF legal_pq_pops legal_scan_stab sample_well_formed sample_unallocated
      sample_peak(1)] sample_peak(2) by auto

text \<open>adding a variable through the builder keeps a problem well formed: the request sizes
  and variable indices are in range, no request index is entered twice, a bound variable has a
  placement; earlier requests and variables are untouched and the new variable's index is
  returned.\<close>

theorem problem_def_well_formed:
  assumes "well_formed P" "bound_known P" "list_all call_ok calls"
  shows "\<exists>rs v B. problem_def calls P = (int (length (variables P)),
      \<lparr>requests = requests P @ rs, variables = variables P @ [v], bound = B\<rparr>) \<and>
    well_formed (snd (problem_def calls P)) \<and> bound_known (snd (problem_def calls P)) \<and>
    bound P \<subseteq> B \<and> B \<subseteq> insert (int (length (variables P))) (bound P)"
  by (rule problem_def_extends [OF assms])

theorem problem_def_well_formed_witness:
  "well_formed (snd (problem_def [Request Scratch 3 0 2, Request Spill 1 0 2, Bind Spill] sample_problem))"
proof -
  have "bound_known sample_problem" by (simp add: sample_problem_eq bound_known_def)
  then show ?thesis
    using problem_def_well_formed [OF sample_well_formed,
        where calls = "[Request Scratch 3 0 2, Request Spill 1 0 2, Bind Spill]"] by auto
qed

text \<open>C4: on a well-formed problem \<open>spillAllocate\<close> always returns. What it returns
  differs from the input in offsets and in the placements of free variables only; when the reported
  usage is within the limit the plan is conflict free and within that usage, and when it reports
  failure (\<open>spillCount = -1\<close>) the usage is above the limit.\<close>

theorem spill_allocate_feasible:
  assumes "legal_pops pops" "legal_sort srt" "well_formed P"
  shows "\<exists>P' st. spill_allocate pops srt stab alg P limit = Inr (P', st) \<and> variant P' P \<and>
    (memUsage st \<le> limit \<longrightarrow> feasible_plan P' (memUsage st)) \<and>
    (spillCount st = -1 \<longrightarrow> limit < memUsage st) \<and>
    (0 < spillCount st \<longrightarrow> memUsage st \<le> limit)"
proof (cases rule: spill_planner.spill_result [OF spill_planner.intro [OF planner_queue.intro [OF pop_queue.intro [OF assms(1)]]
      rank_sort.intro [OF std_sort.intro [OF assms(2)]]] assms(3),
      where alg = alg and stab = stab and limit = limit])
  case (1 P1 stats)
  then show ?thesis by (auto simp: spill_stats_of_def)
next
  case (2 prio s k m)
  then show ?thesis
    by (cases "s_spilled s < 0") (auto simp: bisect_inv_def spill_stats_of_def)
qed

theorem spill_allocate_feasible_witness:
  "\<exists>P' st. spill_allocate pq_pops insertion_sort scan_stab Greedy sample_problem 13 = Inr (P', st) \<and>
    variant P' sample_problem"
  using spill_allocate_feasible [OF legal_pq_pops legal_insertion_sort sample_well_formed] by blast

text \<open>On the sample problem, whose initial plan needs 19, a limit of 13 spills both free
  variables in two steps.\<close>

lemma sample_spill:
  obtains P' where "spill_allocate pq_pops insertion_sort scan_stab Greedy sample_problem 13 =
    Inr (P', \<lparr>maxSize = 9, memUsage = 11, maxLoad = 0, stepsTaken = 3, spillCount = 2\<rparr>)"
proof -
  have "map_sum id snd (spill_allocate pq_pops insertion_sort scan_stab Greedy sample_problem 13) =
      Inr \<lparr>maxSize = 9, memUsage = 11, maxLoad = 0, stepsTaken = 3, spillCount = 2\<rparr>"
    by code_simp
  with that show thesis
    by (cases "spill_allocate pq_pops insertion_sort scan_stab Greedy sample_problem 13") auto
qed

lemma pressure_of_ranking:
  assumes rank: "ranking P prio" and P1: "variant P1 P" "variables P1 = variables (reset Scratch P)" "analyze stab P1 limit = Inr metrics"
    "prio = srt by_priority (spill_priorities P1 metrics)" and srt: "legal_sort srt" and stab: "legal_stab stab" and wf: "well_formed P"
    and live: "list_all live_range_valid (requests P)" and limit: "0 \<le> limit"
  shows "pressure_ranking P1 limit prio"
proof -
  have valid: "valid P1" using variant_valid [OF P1(1)] wf by (simp add: well_formed_def)
  have len: "length (requests P1) = length (requests P)" "\<And>k. k < length (requests P) \<Longrightarrow> live_range_valid (requests P1 ! k)"
  proof -
    have sh: "map (\<lambda>r. r\<lparr>r_offset := 0\<rparr>) (requests P1) = map (\<lambda>r. r\<lparr>r_offset := 0\<rparr>) (requests P)"
      using P1(1) by (simp add: variant_def same_shape_def)
    then show len: "length (requests P1) = length (requests P)" by (metis length_map)
    fix k assume k: "k < length (requests P)"
    have "(requests P1 ! k)\<lparr>r_offset := 0\<rparr> = (requests P ! k)\<lparr>r_offset := 0\<rparr>" using sh k len by (metis nth_map)
    then have "r_first (requests P1 ! k) = r_first (requests P ! k)" "r_last (requests P1 ! k) = r_last (requests P ! k)"
      by (metis request.select_convs(1) request.select_convs(2) request.surjective request.update_convs(4))+
    then show "live_range_valid (requests P1 ! k)" using live k by (simp add: live_range_valid_def list_all_length)
  qed
  have ok: "live_ranges_ok P1"
    unfolding live_ranges_ok_def request_at_def
  proof
    fix i assume "i \<in> set (enabled_requests P1)"
    then have "0 \<le> i \<and> nat i < length (requests P1)" using valid_all_requests [OF valid] enabled_subset_all by blast
    then show "live_range_valid (requests P1 ! nat i)" using len by simp
  qed
  have free: "free_variables P1 = free_variables P"
    using P1(1) same_domains_length [of P1 P] by (simp add: variant_def free_variables_def)
  have pr: "worstSize p = largest_size P1 (p_var p) \<and> worstMaxConflictSize p = most_conflicts P1 (p_var p) \<and>
      p_contended p = contended P1 limit (p_var p)" if "p \<in> set prio" for p
  proof -
    have "p \<in> set (spill_priorities P1 metrics)"
      using that P1(4) srt by (metis legal_sort_def mset_eq_setD)
    then obtain v where v: "v \<in> set (free_variables P1)" "p = variable_priority P1 metrics v"
      by (auto simp: spill_priorities_def free_variables_def)
    then show ?thesis using variable_priority_pressure [OF P1(2) _ valid ok stab P1(3) limit, of v] free by simp
  qed
  have same: "by_priority a b = more_pressing P1 limit (p_var a) (p_var b)" if "a \<in> set prio" "b \<in> set prio" for a b
    unfolding by_priority_def more_pressing_def pr [OF that(1), THEN conjunct1] pr [OF that(2), THEN conjunct1]
      pr [OF that(1), THEN conjunct2, THEN conjunct1] pr [OF that(2), THEN conjunct2, THEN conjunct1]
      pr [OF that(1), THEN conjunct2, THEN conjunct2] pr [OF that(2), THEN conjunct2, THEN conjunct2] by (rule refl)
  have "sorted_wrt (\<lambda>a b. \<not> by_priority b a) prio" using rank by (simp only: ranking_def)
  then have "sorted_wrt (\<lambda>a b. \<not> more_pressing P1 limit (p_var b) (p_var a)) prio"
    by (rule sorted_wrt_mono_rel [rotated]) (simp only: same not_False_eq_True)
  then show ?thesis using rank free unfolding pressure_ranking_def ranking_def by (simp only: simp_thms)
qed

text \<open>C2: a solution that spills \<open>n > 0\<close> variables comes from a ranking of all free variables by their
  pressure on the plan in which all of them are in scratch (\<open>more_pressing\<close>: first the variables with a
  request that is live when the limit is exceeded, then by their largest request, then by the most requests
  live with one of theirs): it is the allocation with exactly the first \<open>n\<close> of them spilled, and with one
  variable fewer spilled the allocator needs more than the limit. A reported failure means that spilling
  every free variable does not fit.\<close>

theorem spill_allocate_minimal:
  assumes "legal_pops pops" "legal_sort srt" "legal_stab stab" "well_formed P" "list_all live_range_valid (requests P)" "0 \<le> limit"
    "spill_allocate pops srt stab alg P limit = Inr (P', st)" "spillCount st \<noteq> 0"
  shows "\<exists>P1 st1 prio. allocate pops alg (reset Scratch P) = Inr (P1, st1) \<and> limit < memUsage st1 \<and> pressure_ranking P1 limit prio \<and>
    (if 0 < spillCount st
     then (\<exists>st'. allocate pops alg (spill_prefix prio (nat (spillCount st)) P) = Inr (P', st') \<and>
            memUsage st' = memUsage st \<and> memUsage st \<le> limit) \<and>
          limit < trial_usage (allocate pops alg) prio P (nat (spillCount st) - 1)
     else limit < trial_usage (allocate pops alg) prio P (length prio))"
proof (cases rule: spill_planner.spill_result [OF spill_planner.intro [OF planner_queue.intro [OF pop_queue.intro [OF assms(1)]]
      rank_sort.intro [OF std_sort.intro [OF assms(2)]]] assms(4),
      where alg = alg and stab = stab and limit = limit])
  case (1 P1 stats)
  with assms(7,8) show ?thesis by (auto simp: spill_stats_of_def)
next
  case (2 prio s k m P1 stats metrics)
  note inv = 2(2) [unfolded bisect_inv_def]
  have rank: "pressure_ranking P1 limit prio"
    by (rule pressure_of_ranking [OF 2(1,8,9,10,11) assms(2,3,4,5,6)])
  have over: "limit < memUsage stats" using 2(5,7) by (simp add: trial_usage_def spill_prefix_def)
  show ?thesis
  proof (cases "s_spilled s < 0")
    case True
    with inv have "nat m = length prio" by simp
    with True 2(1,6,7) inv assms(7) rank over show ?thesis
      by (intro exI [of _ P1] exI [of _ stats] exI [of _ prio]) (auto simp: spill_stats_of_def)
  next
    case False
    with inv have n: "s_spilled s = m + 1" "nat (s_spilled s) - 1 = nat m" by auto
    with False 2(1,6,7) inv assms(7) rank over show ?thesis
      by (intro exI [of _ P1] exI [of _ stats] exI [of _ prio]) (auto simp: spill_stats_of_def add.commute [of m 1])
  qed
qed

theorem spill_allocate_minimal_witness:
  "\<exists>P1 st1 prio. allocate pq_pops Greedy (reset Scratch sample_problem) = Inr (P1, st1) \<and> pressure_ranking P1 13 prio \<and>
     13 < trial_usage (allocate pq_pops Greedy) prio sample_problem 1"
proof -
  obtain P' where sp: "spill_allocate pq_pops insertion_sort scan_stab Greedy sample_problem 13 =
    Inr (P', \<lparr>maxSize = 9, memUsage = 11, maxLoad = 0, stepsTaken = 3, spillCount = 2\<rparr>)"
    by (rule sample_spill)
  have "list_all live_range_valid (requests sample_problem)" "(0::int) \<le> 13"
    by (simp_all add: sample_problem_eq live_range_valid_def)
  from spill_allocate_minimal [OF legal_pq_pops legal_insertion_sort legal_scan_stab sample_well_formed this sp]
  show ?thesis by auto
qed

text \<open>the search is logarithmic: \<open>stepsTaken\<close> counts one more than the bisection
  steps, and \<open>k\<close> steps need at least \<open>2 ^ (k - 1)\<close> free variables.\<close>

theorem spill_allocate_steps:
  assumes "legal_pops pops" "legal_sort srt" "well_formed P"
    "spill_allocate pops srt stab alg P limit = Inr (P', st)"
  shows "stepsTaken st = 0 \<or> stepsTaken st = 1 \<or>
    (2 \<le> stepsTaken st \<and> 2 ^ nat (stepsTaken st - 2) \<le> length (free_variables P))"
proof (cases rule: spill_planner.spill_result [OF spill_planner.intro [OF planner_queue.intro [OF pop_queue.intro [OF assms(1)]]
      rank_sort.intro [OF std_sort.intro [OF assms(2)]]] assms(3),
      where alg = alg and stab = stab and limit = limit])
  case (1 P1 stats)
  with assms(4) show ?thesis by (auto simp: spill_stats_of_def)
next
  case (2 prio s k m)
  have len: "length prio = length (free_variables P)"
    using 2(1) unfolding ranking_def by (metis length_map mset_eq_length)
  have st: "stepsTaken st = 1 + int k"
    using 2(3,6) assms(4) by (auto simp: spill_stats_of_def split: if_splits)
  show ?thesis
  proof (cases k)
    case 0
    with st show ?thesis by simp
  next
    case (Suc j)
    with 2(4) have "(2::int) ^ j \<le> int (length prio)" by simp
    then have "2 ^ j \<le> length prio" by (metis of_nat_le_iff of_nat_numeral of_nat_power)
    with Suc st len show ?thesis by simp
  qed
qed

theorem spill_allocate_steps_witness: "length (free_variables sample_problem) \<ge> 2"
proof -
  obtain P' where "spill_allocate pq_pops insertion_sort scan_stab Greedy sample_problem 13 =
    Inr (P', \<lparr>maxSize = 9, memUsage = 11, maxLoad = 0, stepsTaken = 3, spillCount = 2\<rparr>)"
    by (rule sample_spill)
  from spill_allocate_steps [OF legal_pq_pops legal_insertion_sort sample_well_formed this]
  show ?thesis by simp
qed

section \<open>Where the code departs from its comments\<close>

text \<open>The greedy allocator compares a gap with the size of the request that is already placed
  above it, not with the size of the request to place. Here the last request (size 3) has the
  free gap \<open>[4, 10)\<close> below its conflicts and is still placed above all of them.\<close>

definition gap_problem :: problem where
  "gap_problem =
     \<lparr>requests = [\<lparr>r_first = 0, r_last = 1, r_size = 10, r_offset = -1, r_var = 0\<rparr>,
        \<lparr>r_first = 1, r_last = 2, r_size = 9, r_offset = -1, r_var = 0\<rparr>,
        \<lparr>r_first = 2, r_last = 2, r_size = 4, r_offset = -1, r_var = 0\<rparr>,
        \<lparr>r_first = 2, r_last = 2, r_size = 3, r_offset = -1, r_var = 0\<rparr>],
      variables = [\<lparr>domain = (\<lambda>_. [])(Scratch := [0, 1, 2, 3]), placement = Scratch\<rparr>],
      bound = {}\<rparr>"

lemma greedy_misses_gap:
  "map_sum id (\<lambda>(P', st). (map r_offset (requests P'), memUsage st)) (allocate pq_pops Greedy gap_problem) =
     Inr ([0, 10, 0, 19], 22)"
  by code_simp

text \<open>Placing it in the gap gives a plan that needs 19.\<close>

lemma gap_usable:
  "let P' = gap_problem\<lparr>requests := map2 (\<lambda>r off. r\<lparr>r_offset := off\<rparr>) (requests gap_problem) [0, 10, 0, 4]\<rparr>
   in verify scan_stab P' = Inr \<lparr>maxSize = 10, memUsage = 19, maxLoad = 19\<rparr>"
  by code_simp

text \<open>\<open>Problem::reset\<close> clears the offsets of bound variables too.\<close>

lemma reset_clears_bound:
  "2 \<in> bound sample_plan \<and> r_offset (request_at sample_plan 4) = 10 \<and>
   r_offset (request_at (reset Scratch sample_plan) 4) = -1"
  by code_simp

end
