(* ===== verification/TrackerModel.thy ===== *)
theory TrackerModel
  imports Prelude "HOL-Library.AList"
begin

text \<open>
  \<open>SumL1MemoryTracker\<close> of lib/Dialect/TTNN/Analysis/L1SpillManagement.cpp: the address
  simulation that the L1 spill pass runs at compile time. SSA values are numbers; the
  \<open>DenseMap\<close>s are association lists without duplicate keys; byte counts are
  \<open>uint64_t\<close>, naturals with the wrap-around of \<open>add64\<close> and \<open>sub64\<close>. A
  failed assertion (or \<open>llvm_unreachable\<close>) is the result \<open>None\<close>.
\<close>

unbundle bit_operations_syntax

section \<open>State\<close>

type_synonym tensor = nat

record free_block =
  fb_start :: nat
  fb_end :: nat

definition fb_size :: "free_block \<Rightarrow> nat" where
  "fb_size b = sub64 (fb_end b) (fb_start b)"

record alias_group =
  ag_count :: nat
  ag_raw :: nat

record tracker =
  tr_budget :: nat
  tr_occupied :: nat
  tr_sizes :: "(tensor \<times> nat) list"
  tr_free :: "free_block list"
  tr_addr :: "(tensor \<times> nat \<times> nat) list"
  tr_groups :: "(nat \<times> alias_group) list"

record snapshot =
  sn_free :: "free_block list"
  sn_addr :: "(tensor \<times> nat \<times> nat) list"
  sn_groups :: "(nat \<times> alias_group) list"
  sn_occupied :: nat

text \<open>\<open>(n + 31) & ~31\<close>.\<close>

definition align_l1 :: "nat \<Rightarrow> nat" where
  "align_l1 n = unat ((word_of_nat n + 32 - 1 :: 64 word) AND NOT (32 - 1))"

section \<open>Operations\<close>

definition tracker_init :: "nat \<Rightarrow> tracker \<Rightarrow> tracker" where
  "tracker_init budget t =
     \<lparr>tr_budget = budget, tr_occupied = 0, tr_sizes = [], tr_free = [\<lparr>fb_start = 0, fb_end = budget\<rparr>],
      tr_addr = [], tr_groups = []\<rparr>"

definition takeSnapshot :: "tracker \<Rightarrow> snapshot" where
  "takeSnapshot t = \<lparr>sn_free = tr_free t, sn_addr = tr_addr t, sn_groups = tr_groups t,
     sn_occupied = tr_occupied t\<rparr>"

definition restoreSnapshot :: "snapshot \<Rightarrow> tracker \<Rightarrow> tracker" where
  "restoreSnapshot s t = t\<lparr>tr_free := sn_free s, tr_addr := sn_addr s, tr_groups := sn_groups s,
     tr_occupied := sn_occupied s\<rparr>"

text \<open>The walk over the first \<open>n\<close> free blocks from the highest address down.\<close>

fun find_fit :: "nat \<Rightarrow> free_block list \<Rightarrow> nat \<Rightarrow> nat option" where
  "find_fit 0 fl sz = None"
| "find_fit (Suc i) fl sz = (if fb_size (fl ! i) \<ge> sz then Some i else find_fit i fl sz)"

definition erase_at :: "nat \<Rightarrow> 'a list \<Rightarrow> 'a list" where
  "erase_at i xs = take i xs @ drop (Suc i) xs"

definition insert_at :: "nat \<Rightarrow> 'a \<Rightarrow> 'a list \<Rightarrow> 'a list" where
  "insert_at i x xs = take i xs @ x # drop i xs"

definition allocateAddress :: "tensor \<Rightarrow> nat \<Rightarrow> tracker \<Rightarrow> tracker option" where
  "allocateAddress v sz t =
     (if sz = 0 \<or> tr_budget t = 0 then Some t
      else let aligned = align_l1 sz; fl = tr_free t
           in case find_fit (length fl) fl aligned of
                None \<Rightarrow> None
              | Some i \<Rightarrow>
                  let start = sub64 (fb_end (fl ! i)) aligned
                  in Some (t\<lparr>tr_addr := AList.update v (start, aligned) (tr_addr t),
                       tr_groups := AList.update start \<lparr>ag_count = 1, ag_raw = sz\<rparr> (tr_groups t),
                       tr_occupied := add64 (tr_occupied t) sz,
                       tr_free := (if fb_size (fl ! i) = aligned then erase_at i fl
                                   else fl[i := (fl ! i)\<lparr>fb_end := start\<rparr>])\<rparr>))"

definition addTensor :: "tensor \<Rightarrow> nat \<Rightarrow> tracker \<Rightarrow> tracker option" where
  "addTensor v sz t = allocateAddress v sz (t\<lparr>tr_sizes := AList.update v sz (tr_sizes t)\<rparr>)"

definition allocateAddressAt :: "tensor \<Rightarrow> tensor \<Rightarrow> tracker \<Rightarrow> tracker option" where
  "allocateAddressAt v src t =
     (case map_of (tr_addr t) src of
        None \<Rightarrow> None
      | Some slot \<Rightarrow>
          (case map_of (tr_groups t) (fst slot) of
             None \<Rightarrow> None
           | Some g \<Rightarrow> Some (t\<lparr>tr_addr := AList.update v slot (tr_addr t),
               tr_groups := AList.update (fst slot) (g\<lparr>ag_count := inc32 (ag_count g)\<rparr>) (tr_groups t)\<rparr>)))"

definition addTensorAtAddress :: "tensor \<Rightarrow> nat \<Rightarrow> tensor \<Rightarrow> tracker \<Rightarrow> tracker option" where
  "addTensorAtAddress v sz src t =
     (case allocateAddressAt v src t of
        None \<Rightarrow> None
      | Some t' \<Rightarrow> Some (t'\<lparr>tr_sizes := AList.update v sz (tr_sizes t')\<rparr>))"

text \<open>Returning \<open>[s, e)\<close> to the sorted free list, with the merges.\<close>

fun insert_index :: "free_block list \<Rightarrow> nat \<Rightarrow> nat" where
  "insert_index [] s = 0"
| "insert_index (b # bs) s = (if fb_start b < s then Suc (insert_index bs s) else 0)"

definition insert_free :: "nat \<Rightarrow> nat \<Rightarrow> free_block list \<Rightarrow> free_block list" where
  "insert_free s e fl =
     (let k = insert_index fl s;
          mergePrev = (0 < k \<and> fb_end (fl ! (k - 1)) = s);
          mergeNext = (k < length fl \<and> fb_start (fl ! k) = e)
      in if mergePrev \<and> mergeNext
         then erase_at k (fl[k - 1 := (fl ! (k - 1))\<lparr>fb_end := fb_end (fl ! k)\<rparr>])
         else if mergePrev then fl[k - 1 := (fl ! (k - 1))\<lparr>fb_end := e\<rparr>]
         else if mergeNext then fl[k := (fl ! k)\<lparr>fb_start := s\<rparr>]
         else insert_at k \<lparr>fb_start = s, fb_end = e\<rparr> fl)"

definition freeAddress :: "tensor \<Rightarrow> tracker \<Rightarrow> tracker option" where
  "freeAddress v t =
     (case map_of (tr_addr t) v of
        None \<Rightarrow> Some t
      | Some (start, sz) \<Rightarrow>
          let t1 = t\<lparr>tr_addr := AList.delete v (tr_addr t)\<rparr>
          in case map_of (tr_groups t) start of
               None \<Rightarrow> None
             | Some g \<Rightarrow>
                 let c = dec32 (ag_count g)
                 in if c > 0
                    then Some (t1\<lparr>tr_groups := AList.update start (g\<lparr>ag_count := c\<rparr>) (tr_groups t)\<rparr>)
                    else Some (t1\<lparr>tr_occupied := sub64 (tr_occupied t) (ag_raw g),
                           tr_groups := AList.delete start (tr_groups t),
                           tr_free := insert_free start (add64 start sz) (tr_free t)\<rparr>))"

definition removeTensorFromSizes :: "tensor \<Rightarrow> tracker \<Rightarrow> tracker" where
  "removeTensorFromSizes v t = t\<lparr>tr_sizes := AList.delete v (tr_sizes t)\<rparr>"

definition removeTensor :: "tensor \<Rightarrow> tracker \<Rightarrow> tracker option" where
  "removeTensor v t = freeAddress v (removeTensorFromSizes v t)"

definition hasTensor :: "tensor \<Rightarrow> tracker \<Rightarrow> bool" where
  "hasTensor v t \<longleftrightarrow> map_of (tr_sizes t) v \<noteq> None"

definition hasTensorAddress :: "tensor \<Rightarrow> tracker \<Rightarrow> bool" where
  "hasTensorAddress v t \<longleftrightarrow> map_of (tr_addr t) v \<noteq> None"

definition getTensorSize :: "tensor \<Rightarrow> tracker \<Rightarrow> nat" where
  "getTensorSize v t = (case map_of (tr_sizes t) v of Some n \<Rightarrow> n | None \<Rightarrow> 0)"

definition getLowestOccupiedAddress :: "tracker \<Rightarrow> nat" where
  "getLowestOccupiedAddress t =
     (if tr_addr t = [] then tr_budget t
      else fold (\<lambda>(v, s, n) lo. min lo s) (tr_addr t) (tr_budget t))"

definition wouldAllocateAt :: "nat \<Rightarrow> tracker \<Rightarrow> nat option" where
  "wouldAllocateAt sz t =
     (if sz = 0 \<or> tr_budget t = 0 then Some (tr_budget t)
      else let aligned = align_l1 sz; fl = tr_free t
           in case find_fit (length fl) fl aligned of
                None \<Rightarrow> None
              | Some i \<Rightarrow> Some (sub64 (fb_end (fl ! i)) aligned))"

text \<open>What \<open>validate\<close> passes to the backend as the L1 already in use: the operands
  that are tracked are not counted twice.\<close>

fun input_overlap :: "tensor list \<Rightarrow> tensor set \<Rightarrow> tracker \<Rightarrow> nat" where
  "input_overlap [] seen t = 0"
| "input_overlap (v # vs) seen t =
     (if v \<in> seen then input_overlap vs seen t
      else add64 (getTensorSize v t) (input_overlap vs (insert v seen) t))"

definition additional_l1 :: "tensor list \<Rightarrow> tracker \<Rightarrow> nat" where
  "additional_l1 operands t =
     (let overlap = input_overlap operands {} t
      in if tr_occupied t > overlap then tr_occupied t - overlap else 0)"

end
