(* ===== verification/TrackerInv.thy ===== *)
theory TrackerInv
  imports TrackerModel
begin

text \<open>
  The invariant of the L1 tracker (\<open>SumL1MemoryTracker\<close>): the free list is sorted and
  coalesced, the slots of the tracked tensors and the free blocks partition \<open>[0, budget)\<close>,
  every slot's reference count is the number of tensors at it, and \<open>currentOccupied\<close> is the
  sum of the raw sizes. Each operation preserves it.
\<close>

section \<open>Free lists as sets of addresses\<close>

definition canonical :: "free_block list \<Rightarrow> bool" where
  "canonical fl \<longleftrightarrow> sorted_wrt (\<lambda>a b. fb_end a < fb_start b) fl \<and>
     (\<forall>b\<in>set fl. fb_start b < fb_end b \<and> fb_end b < 2 ^ 64)"

definition block_bytes :: "free_block \<Rightarrow> nat set" where
  "block_bytes b = {fb_start b..<fb_end b}"

definition free_bytes :: "free_block list \<Rightarrow> nat set" where
  "free_bytes fl = (\<Union>b\<in>set fl. block_bytes b)"

lemma canonical_Nil [simp]: "canonical []"
  by (simp add: canonical_def)

lemma canonical_Cons [simp]: "canonical (b # fl) \<longleftrightarrow> fb_start b < fb_end b \<and> fb_end b < 2 ^ 64 \<and>
    (\<forall>c\<in>set fl. fb_end b < fb_start c) \<and> canonical fl"
  by (auto simp: canonical_def)

lemma canonical_append [simp]: "canonical (xs @ ys) \<longleftrightarrow> canonical xs \<and> canonical ys \<and>
    (\<forall>a\<in>set xs. \<forall>b\<in>set ys. fb_end a < fb_start b)"
  by (auto simp: canonical_def sorted_wrt_append)

lemma free_bytes_simps [simp]:
  "free_bytes [] = {}" "free_bytes (b # fl) = block_bytes b \<union> free_bytes fl"
  "free_bytes (xs @ ys) = free_bytes xs \<union> free_bytes ys"
  by (simp_all add: free_bytes_def)

lemma fb_size_canonical [simp]:
  "canonical fl \<Longrightarrow> b \<in> set fl \<Longrightarrow> fb_size b = fb_end b - fb_start b"
  by (auto simp: fb_size_def canonical_def intro: sub64_exact less_imp_le)

text \<open>A canonical list is determined by its addresses.\<close>

lemma canonical_start: "canonical (b # fl) \<Longrightarrow> a \<in> free_bytes (b # fl) \<Longrightarrow> fb_start b \<le> a"
  by (auto simp: free_bytes_def block_bytes_def)

lemma canonical_unique:
  "canonical xs \<Longrightarrow> canonical ys \<Longrightarrow> free_bytes xs = free_bytes ys \<Longrightarrow> xs = ys"
proof (induction xs arbitrary: ys)
  case Nil
  then show ?case by (cases ys) (auto simp: block_bytes_def)
next
  case (Cons x xs)
  have x: "fb_start x \<in> free_bytes (x # xs)" using Cons.prems(1) by (simp add: block_bytes_def)
  then obtain y ys' where ys: "ys = y # ys'" using Cons.prems(3) by (cases ys) auto
  have y: "fb_start y \<in> free_bytes (y # ys')" using Cons.prems(2) by (simp add: ys block_bytes_def)
  have start: "fb_start x = fb_start y"
    using canonical_start [OF Cons.prems(1)] canonical_start [OF Cons.prems(2) [unfolded ys]]
      x y Cons.prems(3) unfolding ys by (metis le_antisym)
  have gap: "fb_end b \<notin> free_bytes (b # bs)" if "canonical (b # bs)" for b bs
    using that by (auto simp: free_bytes_def block_bytes_def)
  have reach: "fb_end c \<in> free_bytes (b # bs)"
    if "canonical (b # bs)" "canonical (c # cs)" "fb_start b = fb_start c" "fb_end c < fb_end b" for b c bs cs
    using that by (auto simp: block_bytes_def)
  have "fb_end x = fb_end y"
    using gap reach Cons.prems start unfolding ys by (metis nat_neq_iff)
  with start have "x = y" by simp
  moreover have "free_bytes xs = free_bytes ys'"
  proof -
    have "block_bytes x \<inter> free_bytes xs = {}" "block_bytes x \<inter> free_bytes ys' = {}"
      using Cons.prems(1,2) unfolding ys \<open>x = y\<close> by (force simp: free_bytes_def block_bytes_def)+
    then show ?thesis using Cons.prems(3) unfolding ys \<open>x = y\<close> by auto
  qed
  ultimately show ?case using Cons unfolding ys by simp
qed

section \<open>The walk for a fitting block\<close>

lemma find_fit_Some:
  "find_fit n fl sz = Some i \<Longrightarrow> i < n \<and> sz \<le> fb_size (fl ! i) \<and>
     (\<forall>j. i < j \<longrightarrow> j < n \<longrightarrow> fb_size (fl ! j) < sz)"
proof (induction n)
  case 0
  then show ?case by simp
next
  case (Suc n)
  then show ?case by (auto split: if_splits simp: less_Suc_eq not_le)
qed

lemma find_fit_None: "find_fit n fl sz = None \<longleftrightarrow> (\<forall>j<n. fb_size (fl ! j) < sz)"
  by (induction n) (auto simp: less_Suc_eq not_le)

section \<open>Carving and returning ranges\<close>

lemma carve:
  assumes fl: "canonical (pre @ b # post)" and sz: "0 < sz" "sz \<le> fb_end b - fb_start b"
  shows "canonical (pre @ (if fb_end b - fb_start b = sz then [] else [b\<lparr>fb_end := fb_end b - sz\<rparr>]) @ post)"
    "free_bytes (pre @ (if fb_end b - fb_start b = sz then [] else [b\<lparr>fb_end := fb_end b - sz\<rparr>]) @ post) =
       free_bytes (pre @ b # post) - {fb_end b - sz..<fb_end b}"
proof -
  have apart: "block_bytes c \<inter> {fb_end b - sz..<fb_end b} = {}" if "c \<in> set pre \<union> set post" for c
    using fl sz that by (fastforce simp: block_bytes_def)
  then have other: "free_bytes pre \<inter> {fb_end b - sz..<fb_end b} = {}" "free_bytes post \<inter> {fb_end b - sz..<fb_end b} = {}"
    by (auto simp: free_bytes_def)
  show "canonical (pre @ (if fb_end b - fb_start b = sz then [] else [b\<lparr>fb_end := fb_end b - sz\<rparr>]) @ post)"
    using fl sz by auto
  have "block_bytes b - {fb_end b - sz..<fb_end b} =
      free_bytes (if fb_end b - fb_start b = sz then [] else [b\<lparr>fb_end := fb_end b - sz\<rparr>])"
    using sz by (auto simp: block_bytes_def)
  then show "free_bytes (pre @ (if fb_end b - fb_start b = sz then [] else [b\<lparr>fb_end := fb_end b - sz\<rparr>]) @ post) =
       free_bytes (pre @ b # post) - {fb_end b - sz..<fb_end b}"
    using other by (simp only: free_bytes_simps Un_Diff) auto
qed

text \<open>The insertion point splits the list at the freed range.\<close>

lemma insert_index_split:
  assumes "canonical fl"
  obtains pre post where "fl = pre @ post" "insert_index fl s = length pre"
    "\<forall>b\<in>set pre. fb_start b < s" "\<forall>b\<in>set post. s \<le> fb_start b"
proof -
  have "\<exists>pre post. fl = pre @ post \<and> insert_index fl s = length pre \<and>
      (\<forall>b\<in>set pre. fb_start b < s) \<and> (\<forall>b\<in>set post. s \<le> fb_start b)"
    using assms
  proof (induction fl)
    case Nil
    show ?case by simp
  next
    case (Cons b fl)
    show ?case
    proof (cases "fb_start b < s")
      case True
      from Cons obtain pre post where "fl = pre @ post" "insert_index fl s = length pre"
        "\<forall>b\<in>set pre. fb_start b < s" "\<forall>b\<in>set post. s \<le> fb_start b" by auto
      with True show ?thesis by (intro exI [of _ "b # pre"] exI [of _ post]) simp
    next
      case False
      with Cons.prems show ?thesis by (intro exI [of _ "[]"] exI [of _ "b # fl"]) auto
    qed
  qed
  with that show thesis by blast
qed

text \<open>The four cases of the merge, on the split list.\<close>

definition merged :: "free_block list \<Rightarrow> nat \<Rightarrow> nat \<Rightarrow> free_block list \<Rightarrow> free_block list" where
  "merged pre s e post =
     (let prev = (pre \<noteq> [] \<and> fb_end (last pre) = s); nxt = (post \<noteq> [] \<and> fb_start (hd post) = e)
      in (if prev then butlast pre else pre) @
         [\<lparr>fb_start = (if prev then fb_start (last pre) else s), fb_end = (if nxt then fb_end (hd post) else e)\<rparr>] @
         (if nxt then tl post else post))"

lemma insert_free_merged:
  assumes "insert_index (pre @ post) s = length pre"
  shows "insert_free s e (pre @ post) = merged pre s e post"
proof (cases pre rule: rev_cases)
  case Nil
  with assms show ?thesis
    by (cases post) (simp_all add: insert_free_def merged_def insert_at_def Let_def)
next
  case (snoc ps p)
  then have k: "insert_index (ps @ p # post) s = Suc (length ps)" using assms by simp
  show ?thesis
  proof (cases post)
    case Nil
    then show ?thesis unfolding snoc
      using k by (simp add: insert_free_def merged_def insert_at_def nth_append list_update_append Let_def)
  next
    case (Cons q qs)
    then show ?thesis unfolding snoc
      using k by (simp add: insert_free_def merged_def insert_at_def erase_at_def nth_append list_update_append Let_def)
  qed
qed

text \<open>Freeing a range that no block contains adds exactly its addresses.\<close>

lemma insert_free_bytes:
  assumes fl: "canonical fl" and r: "s < e" "e < 2 ^ 64"
    and disj: "free_bytes fl \<inter> {s..<e} = {}"
  shows "canonical (insert_free s e fl)" "free_bytes (insert_free s e fl) = free_bytes fl \<union> {s..<e}"
proof -
  obtain pre post where split: "fl = pre @ post" "insert_index fl s = length pre"
    "\<forall>b\<in>set pre. fb_start b < s" "\<forall>b\<in>set post. s \<le> fb_start b"
    using fl by (rule insert_index_split)
  have eq: "insert_free s e fl = merged pre s e post"
    using split(1,2) insert_free_merged by simp
  have below: "fb_end b \<le> s" if "b \<in> set pre" for b
  proof (rule ccontr)
    assume "\<not> fb_end b \<le> s"
    with split(3) that have "s \<in> block_bytes b" by (auto simp: block_bytes_def intro: less_imp_le)
    with that r disj show False unfolding split(1) by (auto simp: free_bytes_def)
  qed
  have above: "e \<le> fb_start b" if "b \<in> set post" for b
  proof (rule ccontr)
    assume "\<not> e \<le> fb_start b"
    moreover have "fb_start b < fb_end b" using fl that by (simp add: split(1) canonical_def)
    ultimately have "fb_start b \<in> block_bytes b \<inter> {s..<e}" using split(4) that by (simp add: block_bytes_def)
    with that disj show False unfolding split(1) by (auto simp: free_bytes_def)
  qed
  have "canonical (merged pre s e post) \<and> free_bytes (merged pre s e post) = free_bytes fl \<union> {s..<e}"
  proof (cases pre rule: rev_cases)
    case pre: Nil
    show ?thesis
    proof (cases post)
      case Nil
      with pre fl r show ?thesis by (auto simp: split(1) merged_def block_bytes_def Let_def)
    next
      case (Cons q qs)
      have q: "e \<le> fb_start q" using above by (simp add: Cons)
      have "e < fb_start c" if "c \<in> set qs" for c
        using fl q that by (force simp: pre Cons split(1))
      with fl r q show ?thesis
        by (auto simp: pre Cons split(1) merged_def block_bytes_def le_less Let_def)
    qed
  next
    case (snoc ps p)
    have p: "fb_end p \<le> s" "fb_start p < fb_end p" using below fl by (simp_all add: snoc split(1))
    have ps: "fb_end b < s" if "b \<in> set ps" for b
      using fl p that by (auto simp: snoc split(1))
    show ?thesis
    proof (cases post)
      case Nil
      with fl r p ps show ?thesis
        by (auto simp: snoc split(1) merged_def block_bytes_def le_less Let_def)
    next
      case (Cons q qs)
      have q: "e \<le> fb_start q" using above by (simp add: Cons)
      from fl r p q ps show ?thesis
        by (auto simp: snoc Cons split(1) merged_def block_bytes_def le_less Let_def)
    qed
  qed
  then show "canonical (insert_free s e fl)" "free_bytes (insert_free s e fl) = free_bytes fl \<union> {s..<e}"
    by (simp_all add: eq)
qed

section \<open>Alignment\<close>

lemma unat_and_not_31: "unat (w AND NOT (32 - 1) :: 64 word) = unat w div 32 * 32"
proof -
  have "w AND NOT (32 - 1) = w AND NOT (mask 5)" by (simp add: mask_eq_exp_minus_1)
  also have "\<dots> = push_bit 5 (drop_bit 5 w)"
    by (rule bit_word_eqI) (auto simp: bit_simps)
  also have "\<dots> = drop_bit 5 w * 32"
    by (simp add: push_bit_eq_mult)
  also have "unat \<dots> = (unat w div 32 * 32) mod 2 ^ 64"
    by (simp add: unat_word_ariths unat_drop_bit_eq drop_bit_eq_div mod_mult_left_eq)
  also have "\<dots> = unat w div 32 * 32"
  proof (rule mod_less)
    have "unat w < 2 ^ 64" using unsigned_less [of w] by simp
    then show "unat w div 32 * 32 < 2 ^ 64"
      using div_times_less_eq_dividend [of "unat w" 32] by linarith
  qed
  finally show ?thesis .
qed

lemma align_l1_eq: "n + 31 < 2 ^ 64 \<Longrightarrow> align_l1 n = (n + 31) div 32 * 32"
proof -
  assume n: "n + 31 < 2 ^ 64"
  have "word_of_nat n + 32 - 1 = (word_of_nat (n + 31) :: 64 word)" by simp
  moreover have "unat (word_of_nat (n + 31) :: 64 word) = n + 31"
    using n by (subst unat_of_nat) simp
  ultimately show ?thesis by (simp only: align_l1_def unat_and_not_31)
qed

lemma align_l1_bounds: "n + 31 < 2 ^ 64 \<Longrightarrow> n \<le> align_l1 n" "n + 31 < 2 ^ 64 \<Longrightarrow> align_l1 n < 2 ^ 64"
proof -
  assume n: "n + 31 < 2 ^ 64"
  show "n \<le> align_l1 n" unfolding align_l1_eq [OF n] by presburger
  have "(n + 31) div 32 * 32 \<le> n + 31" by simp
  with n show "align_l1 n < 2 ^ 64" unfolding align_l1_eq [OF n] by linarith
qed

section \<open>The slots of the tracker\<close>

definition slot_bytes :: "nat \<Rightarrow> alias_group \<Rightarrow> nat set" where
  "slot_bytes s g = {s..<s + align_l1 (ag_raw g)}"

definition occupied_bytes :: "(nat \<rightharpoonup> alias_group) \<Rightarrow> nat set" where
  "occupied_bytes G = {a. \<exists>s g. G s = Some g \<and> a \<in> slot_bytes s g}"

lemma occupied_open: "G s = None \<Longrightarrow> occupied_bytes (G(s \<mapsto> g)) = slot_bytes s g \<union> occupied_bytes G"
  unfolding occupied_bytes_def by (auto split: if_splits) (metis option.distinct(1))

lemma occupied_close:
  assumes "G s = Some g" "\<And>s' g'. G s' = Some g' \<Longrightarrow> s' \<noteq> s \<Longrightarrow> slot_bytes s g \<inter> slot_bytes s' g' = {}"
  shows "occupied_bytes (G(s := None)) = occupied_bytes G - slot_bytes s g"
  using assms unfolding occupied_bytes_def by (auto split: if_splits) (metis option.inject)

definition tensors_at :: "(tensor \<rightharpoonup> nat \<times> nat) \<Rightarrow> nat \<Rightarrow> tensor set" where
  "tensors_at A s = {v. \<exists>n. A v = Some (s, n)}"

text \<open>
  The address map \<open>A\<close>, the alias groups \<open>G\<close>, the budget \<open>B\<close>, the free addresses
  \<open>F\<close> and the occupancy of a consistent tracker.
\<close>

definition slots_inv ::
  "(tensor \<rightharpoonup> nat \<times> nat) \<Rightarrow> (nat \<rightharpoonup> alias_group) \<Rightarrow> nat \<Rightarrow> nat set \<Rightarrow> nat \<Rightarrow> bool" where
  "slots_inv A G B F occ \<longleftrightarrow> finite (dom A) \<and> finite (dom G) \<and>
     (\<forall>v s n. A v = Some (s, n) \<longrightarrow> (\<exists>g. G s = Some g \<and> n = align_l1 (ag_raw g))) \<and>
     (\<forall>s g. G s = Some g \<longrightarrow> 0 < ag_raw g \<and> ag_raw g + 31 < 2 ^ 64 \<and>
        0 < ag_count g \<and> ag_count g = card (tensors_at A s)) \<and>
     (\<forall>s g s' g'. G s = Some g \<longrightarrow> G s' = Some g' \<longrightarrow> s \<noteq> s' \<longrightarrow> slot_bytes s g \<inter> slot_bytes s' g' = {}) \<and>
     F \<inter> occupied_bytes G = {} \<and> F \<union> occupied_bytes G = {0..<B} \<and>
     occ = (\<Sum>s\<in>dom G. ag_raw (the (G s)))"

lemma slots_invI:
  assumes "finite (dom A)" "finite (dom G)"
    "\<And>v s n. A v = Some (s, n) \<Longrightarrow> \<exists>g. G s = Some g \<and> n = align_l1 (ag_raw g)"
    "\<And>s g. G s = Some g \<Longrightarrow> 0 < ag_raw g \<and> ag_raw g + 31 < 2 ^ 64 \<and>
        0 < ag_count g \<and> ag_count g = card (tensors_at A s)"
    "\<And>s g s' g'. G s = Some g \<Longrightarrow> G s' = Some g' \<Longrightarrow> s \<noteq> s' \<Longrightarrow> slot_bytes s g \<inter> slot_bytes s' g' = {}"
    "F \<inter> occupied_bytes G = {}" "F \<union> occupied_bytes G = {0..<B}"
    "occ = (\<Sum>s\<in>dom G. ag_raw (the (G s)))"
  shows "slots_inv A G B F occ"
  unfolding slots_inv_def using assms by blast

lemma slots_entry: "slots_inv A G B F occ \<Longrightarrow> A v = Some (s, n) \<Longrightarrow> \<exists>g. G s = Some g \<and> n = align_l1 (ag_raw g)"
  by (simp add: slots_inv_def)

lemma slots_group:
  assumes "slots_inv A G B F occ" "G s = Some g"
  shows "0 < ag_raw g" "ag_raw g + 31 < 2 ^ 64" "0 < ag_count g" "ag_count g = card (tensors_at A s)"
  using assms unfolding slots_inv_def by blast+

lemma slots_bytes:
  assumes inv: "slots_inv A G B F occ" and g: "G s = Some g"
  shows "slot_bytes s g \<subseteq> {0..<B}" "F \<inter> slot_bytes s g = {}" "0 < align_l1 (ag_raw g)" "s + align_l1 (ag_raw g) \<le> B"
proof -
  have s: "slot_bytes s g \<subseteq> occupied_bytes G" using g by (auto simp: occupied_bytes_def)
  have part: "F \<inter> occupied_bytes G = {}" "F \<union> occupied_bytes G = {0..<B}"
    using inv by (simp_all add: slots_inv_def)
  show sub: "slot_bytes s g \<subseteq> {0..<B}" using s unfolding part(2) [symmetric] by (rule le_supI2)
  show "F \<inter> slot_bytes s g = {}" using s part(1) by auto
  have "ag_raw g \<le> align_l1 (ag_raw g)" using align_l1_bounds(1) slots_group(2) [OF inv g] .
  then show pos: "0 < align_l1 (ag_raw g)" using slots_group(1) [OF inv g] by simp
  have "s + align_l1 (ag_raw g) - 1 \<in> slot_bytes s g" using pos by (simp add: slot_bytes_def)
  with sub have "s + align_l1 (ag_raw g) - 1 < B" by auto
  with pos show "s + align_l1 (ag_raw g) \<le> B" by linarith
qed

lemma slots_disjoint:
  "slots_inv A G B F occ \<Longrightarrow> G s = Some g \<Longrightarrow> G s' = Some g' \<Longrightarrow> s \<noteq> s' \<Longrightarrow> slot_bytes s g \<inter> slot_bytes s' g' = {}"
  unfolding slots_inv_def by blast

lemma finite_tensors_at: "finite (dom A) \<Longrightarrow> finite (tensors_at A s)"
  by (rule finite_subset [of _ "dom A"]) (auto simp: tensors_at_def)

text \<open>Opening a slot in free space.\<close>

lemma slots_alloc:
  assumes inv: "slots_inv A G B F occ" and v: "A v = None"
    and raw: "0 < raw" "raw + 31 < 2 ^ 64" and sub: "{s..<s + align_l1 raw} \<subseteq> F"
  shows "slots_inv (A(v \<mapsto> (s, align_l1 raw))) (G(s \<mapsto> \<lparr>ag_count = 1, ag_raw = raw\<rparr>)) B
    (F - {s..<s + align_l1 raw}) (occ + raw)"
proof -
  let ?g = "\<lparr>ag_count = 1, ag_raw = raw\<rparr>"
  have "s \<in> F"
    using sub raw(1) align_l1_bounds(1) [OF raw(2)] by (simp add: subset_iff)
  then have G: "G s = None"
    using slots_bytes(2,3) [OF inv, of s] by (cases "G s") (auto simp: slot_bytes_def)
  have none: "A w \<noteq> Some (s, n)" for w n
    using slots_entry [OF inv, of w s n] G by auto
  then have at_s: "tensors_at (A(v \<mapsto> (s, align_l1 raw))) s = {v}"
    by (auto simp: tensors_at_def)
  have at: "tensors_at (A(v \<mapsto> (s, align_l1 raw))) s' = tensors_at A s'" if "s' \<noteq> s" for s'
    using that v by (auto simp: tensors_at_def)
  have g: "slot_bytes s ?g = {s..<s + align_l1 raw}" by (simp add: slot_bytes_def)
  have part: "F \<inter> occupied_bytes G = {}" "F \<union> occupied_bytes G = {0..<B}"
    using inv by (simp_all add: slots_inv_def)
  have total: "(\<Sum>s'\<in>dom (G(s \<mapsto> ?g)). ag_raw (the ((G(s \<mapsto> ?g)) s'))) = raw + (\<Sum>s'\<in>dom G. ag_raw (the (G s')))"
  proof -
    have "(\<Sum>s'\<in>dom G. ag_raw (the ((G(s \<mapsto> ?g)) s'))) = (\<Sum>s'\<in>dom G. ag_raw (the (G s')))"
      using G by (intro sum.cong) auto
    moreover have "finite (dom G)" using inv by (simp add: slots_inv_def)
    ultimately show ?thesis using G by (simp add: domIff)
  qed
  have apart: "slot_bytes s1 g1 \<inter> slot_bytes s2 g2 = {}"
    if "(G(s \<mapsto> ?g)) s1 = Some g1" "(G(s \<mapsto> ?g)) s2 = Some g2" "s1 \<noteq> s2" for s1 g1 s2 g2
  proof -
    have new: "slot_bytes s ?g \<inter> slot_bytes s' g' = {}" if "G s' = Some g'" for s' g'
      using slots_bytes(2) [OF inv that] sub unfolding g by auto
    consider "s1 = s" | "s2 = s" | "s1 \<noteq> s" "s2 \<noteq> s" by blast
    then show ?thesis
      using that new slots_disjoint [OF inv] by cases (auto simp: Int_commute)
  qed
  have cover: "(F - slot_bytes s ?g) \<inter> occupied_bytes (G(s \<mapsto> ?g)) = {}"
    "(F - slot_bytes s ?g) \<union> occupied_bytes (G(s \<mapsto> ?g)) = {0..<B}"
    using part sub unfolding occupied_open [where G = G, OF G] g by auto
  have old: "occ = (\<Sum>s\<in>dom G. ag_raw (the (G s)))" "finite (dom A)" "finite (dom G)"
    using inv by (simp_all add: slots_inv_def)
  have entry: "\<exists>g. (G(s \<mapsto> ?g)) s1 = Some g \<and> n = align_l1 (ag_raw g)"
    if "(A(v \<mapsto> (s, align_l1 raw))) w = Some (s1, n)" for w s1 n
    using that slots_entry [OF inv, of w s1 n] none by (auto split: if_splits)
  have grp: "0 < ag_raw g1 \<and> ag_raw g1 + 31 < 2 ^ 64 \<and> 0 < ag_count g1 \<and>
      ag_count g1 = card (tensors_at (A(v \<mapsto> (s, align_l1 raw))) s1)"
    if "(G(s \<mapsto> ?g)) s1 = Some g1" for s1 g1
  proof (cases "s1 = s")
    case True
    with that raw at_s show ?thesis by auto
  next
    case False
    with that have "G s1 = Some g1" by simp
    from slots_group [OF inv this] at [OF False] show ?thesis by simp
  qed
  have sum: "occ + raw = (\<Sum>s'\<in>dom (G(s \<mapsto> ?g)). ag_raw (the ((G(s \<mapsto> ?g)) s')))"
    using total old(1) by (simp only: add.commute)
  have fin: "finite (dom (A(v \<mapsto> (s, align_l1 raw))))" "finite (dom (G(s \<mapsto> ?g)))"
    using old(2,3) by (simp_all add: dom_fun_upd)
  show ?thesis
    by (rule slots_invI [OF fin entry grp apart cover [unfolded g] sum])
qed

text \<open>Changing only the tensors at a slot and its count: an alias joins, or leaves while others
  stay.\<close>

lemma slots_recount:
  assumes inv: "slots_inv A G B F occ" and g: "G s = Some g"
    and A': "finite (dom A')" "\<And>w s' n. A' w = Some (s', n) \<Longrightarrow> s' \<noteq> s \<Longrightarrow> A w = Some (s', n)"
      "\<And>w s' n. A w = Some (s', n) \<Longrightarrow> s' \<noteq> s \<Longrightarrow> A' w = Some (s', n)"
      "\<And>w n. A' w = Some (s, n) \<Longrightarrow> n = align_l1 (ag_raw g)"
    and c: "0 < c" "c = card (tensors_at A' s)"
  shows "slots_inv A' (G(s \<mapsto> g\<lparr>ag_count := c\<rparr>)) B F occ"
proof -
  let ?G = "G(s \<mapsto> g\<lparr>ag_count := c\<rparr>)"
  have same: "slot_bytes s (g\<lparr>ag_count := c\<rparr>) = slot_bytes s g" by (simp add: slot_bytes_def)
  have at: "tensors_at A' s' = tensors_at A s'" if "s' \<noteq> s" for s'
    using A'(2,3) that unfolding tensors_at_def by blast
  have occ: "occupied_bytes ?G = occupied_bytes G"
  proof (rule set_eqI)
    fix a
    show "a \<in> occupied_bytes ?G \<longleftrightarrow> a \<in> occupied_bytes G"
      using g same unfolding occupied_bytes_def by (auto split: if_splits) (metis option.inject)
  qed
  have dom: "dom ?G = dom G" using g by auto
  have sum: "occ = (\<Sum>s\<in>dom ?G. ag_raw (the (?G s)))"
  proof -
    have "(\<Sum>s\<in>dom G. ag_raw (the (?G s))) = (\<Sum>s\<in>dom G. ag_raw (the (G s)))"
      using g by (intro sum.cong) auto
    then show ?thesis using inv unfolding dom by (simp add: slots_inv_def)
  qed
  have old: "F \<inter> occupied_bytes ?G = {}" "F \<union> occupied_bytes ?G = {0..<B}" "finite (dom ?G)"
    using inv unfolding occ dom by (simp_all add: slots_inv_def)
  show ?thesis
  proof (rule slots_invI [OF A'(1) old(3) _ _ _ old(1,2) sum])
    show "\<exists>g. ?G s' = Some g \<and> n = align_l1 (ag_raw g)" if "A' w = Some (s', n)" for w s' n
    proof (cases "s' = s")
      case True
      with that A'(4) show ?thesis by auto
    next
      case False
      from slots_entry [OF inv A'(2) [OF that False]] False show ?thesis by simp
    qed
    show "0 < ag_raw g' \<and> ag_raw g' + 31 < 2 ^ 64 \<and> 0 < ag_count g' \<and> ag_count g' = card (tensors_at A' s')"
      if g': "?G s' = Some g'" for s' g'
    proof (cases "s' = s")
      case True
      then have "g' = g\<lparr>ag_count := c\<rparr>" using g' by simp
      with True slots_group [OF inv g] c show ?thesis by simp
    next
      case False
      then have "G s' = Some g'" using g' by simp
      from slots_group [OF inv this] at [OF False] show ?thesis by simp
    qed
    show "slot_bytes s1 g1 \<inter> slot_bytes s2 g2 = {}"
      if "?G s1 = Some g1" "?G s2 = Some g2" "s1 \<noteq> s2" for s1 g1 s2 g2
      using that g slots_disjoint [OF inv] same by (auto split: if_splits)
  qed
qed

text \<open>Closing a slot whose last tensor leaves.\<close>

lemma slots_close:
  assumes inv: "slots_inv A G B F occ" and v: "A v = Some (s, n)" and g: "G s = Some g"
    and last: "ag_count g = 1"
  shows "slots_inv (A(v := None)) (G(s := None)) B (F \<union> slot_bytes s g) (occ - ag_raw g)"
    "ag_raw g \<le> occ"
proof -
  have "card (tensors_at A s) = 1" using slots_group(4) [OF inv g] last by simp
  moreover have "v \<in> tensors_at A s" using v by (simp add: tensors_at_def)
  ultimately have only: "tensors_at A s = {v}" by (metis card_1_singletonE singletonD)
  have close: "occupied_bytes (G(s := None)) = occupied_bytes G - slot_bytes s g"
    by (rule occupied_close [where G = G, OF g]) (metis g inv slots_disjoint)
  have sub: "slot_bytes s g \<subseteq> occupied_bytes G" using g by (auto simp: occupied_bytes_def)
  have fin: "finite (dom A)" "finite (dom G)" using inv by (simp_all add: slots_inv_def)
  have "(\<Sum>s\<in>dom G. ag_raw (the (G s))) = ag_raw (the (G s)) + (\<Sum>k\<in>dom G - {s}. ag_raw (the (G k)))"
    using fin g by (intro sum.remove) auto
  moreover have "(\<Sum>k\<in>dom G - {s}. ag_raw (the (G k))) = (\<Sum>k\<in>dom (G(s := None)). ag_raw (the ((G(s := None)) k)))"
    by (intro sum.cong) auto
  moreover have "occ = (\<Sum>s\<in>dom G. ag_raw (the (G s)))" using inv by (simp add: slots_inv_def)
  ultimately have sum: "occ = ag_raw g + (\<Sum>k\<in>dom (G(s := None)). ag_raw (the ((G(s := None)) k)))"
    using g by (simp only: option.sel)
  then show "ag_raw g \<le> occ" by linarith
  have at: "tensors_at (A(v := None)) s' = tensors_at A s'" if "s' \<noteq> s" for s'
    using that v by (auto simp: tensors_at_def)
  have part: "F \<inter> occupied_bytes G = {}" "F \<union> occupied_bytes G = {0..<B}"
    using inv by (simp_all add: slots_inv_def)
  show "slots_inv (A(v := None)) (G(s := None)) B (F \<union> slot_bytes s g) (occ - ag_raw g)"
  proof (rule slots_invI)
    show "finite (dom (A(v := None)))" "finite (dom (G(s := None)))" using fin by simp_all
    show "(F \<union> slot_bytes s g) \<inter> occupied_bytes (G(s := None)) = {}"
      "(F \<union> slot_bytes s g) \<union> occupied_bytes (G(s := None)) = {0..<B}"
      using part sub unfolding close by auto
    show "occ - ag_raw g = (\<Sum>k\<in>dom (G(s := None)). ag_raw (the ((G(s := None)) k)))"
      using sum by linarith
    show "\<exists>g. (G(s := None)) s' = Some g \<and> n' = align_l1 (ag_raw g)" if w: "(A(v := None)) w = Some (s', n')" for w s' n'
    proof -
      have "s' \<noteq> s"
      proof
        assume "s' = s"
        with w have "w \<in> tensors_at A s" "w \<noteq> v" by (auto simp: tensors_at_def split: if_splits)
        with only show False by simp
      qed
      with w slots_entry [OF inv, of w s' n'] show ?thesis by (auto split: if_splits)
    qed
    show "0 < ag_raw g' \<and> ag_raw g' + 31 < 2 ^ 64 \<and> 0 < ag_count g' \<and> ag_count g' = card (tensors_at (A(v := None)) s')"
      if "(G(s := None)) s' = Some g'" for s' g'
    proof -
      from that have "s' \<noteq> s" "G s' = Some g'" by (auto split: if_splits)
      with slots_group [OF inv this(2)] at show ?thesis by simp
    qed
    show "slot_bytes s1 g1 \<inter> slot_bytes s2 g2 = {}"
      if "(G(s := None)) s1 = Some g1" "(G(s := None)) s2 = Some g2" "s1 \<noteq> s2" for s1 g1 s2 g2
      using that slots_disjoint [OF inv] by (auto split: if_splits)
  qed
qed

text \<open>The sum of the raw sizes never exceeds the budget.\<close>

lemma slots_occupied_le:
  assumes inv: "slots_inv A G B F occ"
  shows "occ \<le> B"
proof -
  have fin: "finite (dom G)" and occ: "occ = (\<Sum>s\<in>dom G. ag_raw (the (G s)))"
    and part: "F \<union> occupied_bytes G = {0..<B}" using inv by (simp_all add: slots_inv_def)
  have "occ \<le> (\<Sum>s\<in>dom G. card (slot_bytes s (the (G s))))"
    unfolding occ
  proof (rule sum_mono)
    fix s
    assume "s \<in> dom G"
    then obtain g where "G s = Some g" by blast
    with slots_group(2) [OF inv this] show "ag_raw (the (G s)) \<le> card (slot_bytes s (the (G s)))"
      by (simp add: slot_bytes_def align_l1_bounds)
  qed
  also have "\<dots> = card (\<Union>s\<in>dom G. slot_bytes s (the (G s)))"
  proof (rule card_UN_disjoint [symmetric, OF fin])
    show "\<forall>s\<in>dom G. finite (slot_bytes s (the (G s)))" by (simp add: slot_bytes_def)
    show "\<forall>s\<in>dom G. \<forall>s'\<in>dom G. s \<noteq> s' \<longrightarrow> slot_bytes s (the (G s)) \<inter> slot_bytes s' (the (G s')) = {}"
      using slots_disjoint [OF inv] by (metis domD option.sel)
  qed
  also have "\<dots> \<le> card {0..<B}"
  proof (rule card_mono)
    show "(\<Union>s\<in>dom G. slot_bytes s (the (G s))) \<subseteq> {0..<B}"
    proof (rule UN_least)
      fix s
      assume "s \<in> dom G"
      then obtain g where g: "G s = Some g" by blast
      from slots_bytes(1) [OF inv g] g show "slot_bytes s (the (G s)) \<subseteq> {0..<B}" by simp
    qed
  qed simp
  finally show ?thesis by simp
qed

section \<open>The tracker invariant\<close>

definition tracker_inv :: "tracker \<Rightarrow> bool" where
  "tracker_inv t \<longleftrightarrow> 0 < tr_budget t \<and> tr_budget t < 2 ^ 64 \<and> canonical (tr_free t) \<and>
     distinct (map fst (tr_addr t)) \<and>
     slots_inv (map_of (tr_addr t)) (map_of (tr_groups t)) (tr_budget t) (free_bytes (tr_free t)) (tr_occupied t)"

lemma inv_init: "0 < budget \<Longrightarrow> budget < 2 ^ 64 \<Longrightarrow> tracker_inv (tracker_init budget t)"
  by (simp add: tracker_inv_def tracker_init_def slots_inv_def occupied_bytes_def block_bytes_def)

lemma inv_sizes [simp]: "tracker_inv (t\<lparr>tr_sizes := x\<rparr>) = tracker_inv t"
  by (simp add: tracker_inv_def)

lemma fit_split:
  assumes "canonical fl" "find_fit (length fl) fl n = Some i"
  defines "b \<equiv> fl ! i"
  shows "fl = take i fl @ b # drop (Suc i) fl" "n \<le> fb_end b - fb_start b" "fb_start b < fb_end b"
    "fb_end b < 2 ^ 64" "fb_size b = fb_end b - fb_start b" "sub64 (fb_end b) n = fb_end b - n"
proof -
  have i: "i < length fl" "n \<le> fb_size b" using find_fit_Some [OF assms(2)] by (simp_all add: b_def)
  then show "fl = take i fl @ b # drop (Suc i) fl" by (simp add: b_def id_take_nth_drop)
  have b: "b \<in> set fl" using i by (simp add: b_def)
  then show size: "fb_size b = fb_end b - fb_start b" using assms(1) by simp
  show "fb_start b < fb_end b" "fb_end b < 2 ^ 64" using assms(1) b by (auto simp: canonical_def)
  with i(2) size show "n \<le> fb_end b - fb_start b" "sub64 (fb_end b) n = fb_end b - n" by auto
qed

text \<open>\<open>allocateAddress\<close> places the tensor where \<open>wouldAllocateAt\<close> says.\<close>

lemma allocate_result:
  assumes inv: "tracker_inv t" and v: "map_of (tr_addr t) v = None"
    and sz: "0 < sz" "sz + 31 < 2 ^ 64" and fit: "wouldAllocateAt sz t = Some a"
  obtains t' where "allocateAddress v sz t = Some t'" "tracker_inv t'"
    "map_of (tr_addr t') = (map_of (tr_addr t))(v \<mapsto> (a, align_l1 sz))"
    "map_of (tr_groups t') = (map_of (tr_groups t))(a \<mapsto> \<lparr>ag_count = 1, ag_raw = sz\<rparr>)"
    "free_bytes (tr_free t') = free_bytes (tr_free t) - {a..<a + align_l1 sz}"
    "{a..<a + align_l1 sz} \<subseteq> free_bytes (tr_free t)"
    "tr_occupied t' = tr_occupied t + sz" "tr_sizes t' = tr_sizes t" "tr_budget t' = tr_budget t"
proof -
  let ?fl = "tr_free t" and ?n = "align_l1 sz"
  have can: "canonical ?fl" and slots: "slots_inv (map_of (tr_addr t)) (map_of (tr_groups t)) (tr_budget t) (free_bytes ?fl) (tr_occupied t)"
    and B: "0 < tr_budget t" "tr_budget t < 2 ^ 64" and dist: "distinct (map fst (tr_addr t))"
    using inv by (simp_all add: tracker_inv_def)
  from fit sz B obtain i where i: "find_fit (length ?fl) ?fl ?n = Some i" "a = sub64 (fb_end (?fl ! i)) ?n"
    by (auto simp: wouldAllocateAt_def Let_def split: option.splits if_splits)
  define b where "b = ?fl ! i"
  note fs = fit_split [OF can i(1), folded b_def]
  have a: "a = fb_end b - ?n" using i(2) fs(6) by (simp add: b_def)
  have n: "0 < ?n" using align_l1_bounds(1) [OF sz(2)] sz(1) by simp
  let ?fl' = "take i ?fl @ (if fb_end b - fb_start b = ?n then [] else [b\<lparr>fb_end := fb_end b - ?n\<rparr>]) @ drop (Suc i) ?fl"
  have fl': "(if fb_size b = ?n then erase_at i ?fl else ?fl[i := b\<lparr>fb_end := a\<rparr>]) = ?fl'"
    using find_fit_Some [OF i(1)] by (simp add: fs(5) a erase_at_def upd_conv_take_nth_drop)
  have can': "canonical ?fl'" and bytes': "free_bytes ?fl' = free_bytes ?fl - {a..<a + ?n}"
    using carve [of "take i ?fl" b "drop (Suc i) ?fl" ?n] can n fs(1-3) by (simp_all add: a fs(1) [symmetric])
  have "b \<in> set ?fl" using find_fit_Some [OF i(1)] by (simp add: b_def)
  then have sub: "{a..<a + ?n} \<subseteq> free_bytes ?fl"
    using fs(2,3) by (force simp: free_bytes_def block_bytes_def a)
  define t' where "t' = t\<lparr>tr_addr := AList.update v (a, ?n) (tr_addr t),
      tr_groups := AList.update a \<lparr>ag_count = 1, ag_raw = sz\<rparr> (tr_groups t),
      tr_occupied := add64 (tr_occupied t) sz, tr_free := ?fl'\<rparr>"
  have "allocateAddress v sz t = Some (t\<lparr>tr_addr := AList.update v (a, ?n) (tr_addr t),
      tr_groups := AList.update a \<lparr>ag_count = 1, ag_raw = sz\<rparr> (tr_groups t),
      tr_occupied := add64 (tr_occupied t) sz,
      tr_free := (if fb_size b = ?n then erase_at i ?fl else ?fl[i := b\<lparr>fb_end := a\<rparr>])\<rparr>)"
    unfolding allocateAddress_def Let_def i(1) option.case i(2) b_def using sz B by simp
  then have alloc: "allocateAddress v sz t = Some t'" by (simp only: fl' t'_def)
  have slots': "slots_inv ((map_of (tr_addr t))(v \<mapsto> (a, ?n))) ((map_of (tr_groups t))(a \<mapsto> \<lparr>ag_count = 1, ag_raw = sz\<rparr>))
      (tr_budget t) (free_bytes ?fl') (tr_occupied t + sz)"
    unfolding bytes' by (rule slots_alloc [OF slots v sz sub])
  have occ: "add64 (tr_occupied t) sz = tr_occupied t + sz"
    using slots_occupied_le [OF slots'] B by (intro add64_exact) linarith
  have "tracker_inv t'"
    using can' slots' B dist by (simp add: tracker_inv_def t'_def occ update_conv' distinct_update)
  with alloc bytes' sub occ show thesis
    by (intro that [of t']) (simp_all add: t'_def update_conv')
qed

lemma inv_slots:
  "tracker_inv t \<Longrightarrow> slots_inv (map_of (tr_addr t)) (map_of (tr_groups t)) (tr_budget t)
     (free_bytes (tr_free t)) (tr_occupied t)"
  by (simp add: tracker_inv_def)

lemma allocateAddressAt_result:
  assumes inv: "tracker_inv t" and v: "map_of (tr_addr t) v = None"
    and src: "map_of (tr_addr t) src = Some (s, n)" and few: "length (tr_addr t) + 1 < 2 ^ 32"
  obtains t' where "allocateAddressAt v src t = Some t'" "tracker_inv t'"
    "map_of (tr_addr t') = (map_of (tr_addr t))(v \<mapsto> (s, n))" "tr_free t' = tr_free t"
    "tr_occupied t' = tr_occupied t" "tr_sizes t' = tr_sizes t" "tr_budget t' = tr_budget t"
proof -
  let ?A = "map_of (tr_addr t)" and ?G = "map_of (tr_groups t)"
  note slots = inv_slots [OF inv]
  from slots_entry [OF slots src] obtain g where g: "?G s = Some g" "n = align_l1 (ag_raw g)" by blast
  have fin: "finite (tensors_at ?A s)" by (intro finite_tensors_at finite_dom_map_of)
  have "tensors_at ?A s \<subseteq> fst ` set (tr_addr t)"
    by (auto simp: tensors_at_def dest!: map_of_SomeD intro: rev_image_eqI)
  then have "card (tensors_at ?A s) \<le> length (tr_addr t)"
    by (metis List.finite_set card_length card_mono finite_imageI le_trans list.set_map length_map)
  then have count: "inc32 (ag_count g) = ag_count g + 1"
    using slots_group(4) [OF slots g(1)] few by (simp add: inc32_def)
  have "v \<notin> tensors_at ?A s" using v by (simp add: tensors_at_def)
  moreover have "tensors_at (?A(v \<mapsto> (s, n))) s = insert v (tensors_at ?A s)"
    by (auto simp: tensors_at_def)
  ultimately have card: "ag_count g + 1 = card (tensors_at (?A(v \<mapsto> (s, n))) s)"
    using fin slots_group(4) [OF slots g(1)] by simp
  have other: "(?A(v \<mapsto> (s, n))) w = Some (s', m) \<longleftrightarrow> ?A w = Some (s', m)" if "s' \<noteq> s" for w s' m
    using that v by auto
  have size: "m = align_l1 (ag_raw g)" if "(?A(v \<mapsto> (s, n))) w = Some (s, m)" for w m
    using that g slots_entry [OF slots, of w s m] by (auto split: if_splits)
  have slots': "slots_inv (?A(v \<mapsto> (s, n))) (?G(s \<mapsto> g\<lparr>ag_count := ag_count g + 1\<rparr>)) (tr_budget t)
      (free_bytes (tr_free t)) (tr_occupied t)"
    by (rule slots_recount [OF slots g(1) _ _ _ size _ card])
      (use other in \<open>simp_all add: finite_dom_map_of\<close>)
  define t' where "t' = t\<lparr>tr_addr := AList.update v (s, n) (tr_addr t),
      tr_groups := AList.update s (g\<lparr>ag_count := ag_count g + 1\<rparr>) (tr_groups t)\<rparr>"
  have "allocateAddressAt v src t = Some t'"
    using src g by (simp add: allocateAddressAt_def t'_def count)
  moreover have "tracker_inv t'"
    using inv slots' by (simp add: tracker_inv_def t'_def update_conv' distinct_update)
  ultimately show thesis by (intro that [of t']) (simp_all add: t'_def update_conv')
qed

lemma freeAddress_result:
  assumes inv: "tracker_inv t" and few: "length (tr_addr t) + 1 < 2 ^ 32"
  obtains t' where "freeAddress v t = Some t'" "tracker_inv t'"
    "map_of (tr_addr t') = (map_of (tr_addr t))(v := None)"
    "tr_sizes t' = tr_sizes t" "tr_budget t' = tr_budget t"
proof (cases "map_of (tr_addr t) v")
  case None
  then have "freeAddress v t = Some t" by (simp add: freeAddress_def)
  moreover have "(map_of (tr_addr t))(v := None) = map_of (tr_addr t)" using None by (rule fun_upd_idem)
  ultimately show thesis using inv by (intro that [of t]) simp_all
next
  case (Some slot)
  let ?A = "map_of (tr_addr t)" and ?G = "map_of (tr_groups t)"
  obtain s n where v: "?A v = Some (s, n)" using Some by (cases slot) auto
  note slots = inv_slots [OF inv]
  from slots_entry [OF slots v] obtain g where g: "?G s = Some g" "n = align_l1 (ag_raw g)" by blast
  note grp = slots_group [OF slots g(1)]
  have fin: "finite (tensors_at ?A s)" by (intro finite_tensors_at finite_dom_map_of)
  have "tensors_at ?A s \<subseteq> fst ` set (tr_addr t)"
    by (auto simp: tensors_at_def dest!: map_of_SomeD intro: rev_image_eqI)
  then have "card (tensors_at ?A s) \<le> length (tr_addr t)"
    by (metis List.finite_set card_length card_mono finite_imageI le_trans list.set_map length_map)
  then have small: "ag_count g < 2 ^ 32" using few grp(4) by linarith
  have "dec32 (ag_count g) = ((ag_count g - 1) + 2 ^ 32) mod 2 ^ 32"
    using grp(3) by (simp add: dec32_def)
  then have count: "dec32 (ag_count g) = ag_count g - 1" using small by simp
  show thesis
  proof (cases "ag_count g = 1")
    case True
    have bytes: "slot_bytes s g = {s..<s + n}" by (simp add: slot_bytes_def g)
    note close = slots_close [OF slots v g(1) True]
    have lim: "0 < n" "s + n < 2 ^ 64"
      using slots_bytes(3,4) [OF slots g(1)] inv by (simp_all add: g tracker_inv_def)
    have disj: "free_bytes (tr_free t) \<inter> {s..<s + n} = {}"
      using slots_bytes(2) [OF slots g(1)] by (simp add: bytes)
    have can: "canonical (tr_free t)" using inv by (simp add: tracker_inv_def)
    have ins: "canonical (insert_free s (s + n) (tr_free t))"
      "free_bytes (insert_free s (s + n) (tr_free t)) = free_bytes (tr_free t) \<union> {s..<s + n}"
      by (rule insert_free_bytes [OF can _ lim(2) disj]; use lim in simp)+
    have occ: "sub64 (tr_occupied t) (ag_raw g) = tr_occupied t - ag_raw g"
      using close(2) slots_occupied_le [OF slots] inv by (intro sub64_exact) (auto simp: tracker_inv_def)
    define t' where "t' = t\<lparr>tr_addr := AList.delete v (tr_addr t),
        tr_occupied := tr_occupied t - ag_raw g, tr_groups := AList.delete s (tr_groups t),
        tr_free := insert_free s (s + n) (tr_free t)\<rparr>"
    have "dec32 (ag_count g) = 0" using count True by simp
    then have "freeAddress v t = Some t'"
      using v g(1) lim(2) by (simp add: freeAddress_def Let_def occ t'_def)
    moreover have "tracker_inv t'"
      using inv ins close(1) by (simp add: tracker_inv_def t'_def delete_conv' distinct_delete bytes)
    ultimately show thesis by (intro that [of t']) (simp_all add: t'_def delete_conv')
  next
    case False
    have "tensors_at (?A(v := None)) s = tensors_at ?A s - {v}"
      by (auto simp: tensors_at_def)
    moreover have "v \<in> tensors_at ?A s" using v by (simp add: tensors_at_def)
    ultimately have card: "ag_count g - 1 = card (tensors_at (?A(v := None)) s)"
      using fin grp(4) by simp
    have other: "(?A(v := None)) w = Some (s', m) \<longleftrightarrow> ?A w = Some (s', m)" if "s' \<noteq> s" for w s' m
      using that v by auto
    have size: "m = align_l1 (ag_raw g)" if "(?A(v := None)) w = Some (s, m)" for w m
      using that g slots_entry [OF slots, of w s m] by (auto split: if_splits)
    have pos: "0 < ag_count g - 1" using False grp(3) by simp
    have slots': "slots_inv (?A(v := None)) (?G(s \<mapsto> g\<lparr>ag_count := ag_count g - 1\<rparr>)) (tr_budget t)
        (free_bytes (tr_free t)) (tr_occupied t)"
      by (rule slots_recount [OF slots g(1) _ _ _ size pos card])
        (use other in \<open>simp_all add: finite_dom_map_of\<close>)
    define t' where "t' = t\<lparr>tr_addr := AList.delete v (tr_addr t),
        tr_groups := AList.update s (g\<lparr>ag_count := ag_count g - 1\<rparr>) (tr_groups t)\<rparr>"
    have "freeAddress v t = Some t'"
      using v g(1) pos by (simp add: freeAddress_def Let_def count t'_def)
    moreover have "tracker_inv t'"
      using inv slots' by (simp add: tracker_inv_def t'_def delete_conv' update_conv' distinct_delete)
    ultimately show thesis by (intro that [of t']) (simp_all add: t'_def delete_conv')
  qed
qed

end
