(* ===== verification/TrackerProps.thy ===== *)
theory TrackerProps
  imports TrackerInv
begin

text \<open>
  The L1 tracker as a state machine: the calls the spill pass makes, under the contracts the header
  documents, and what holds of every tracker they reach.
\<close>

section \<open>Reachable trackers\<close>

text \<open>
  A step is one call. A fresh tensor is added where \<open>wouldAllocateAt\<close> finds room (the
  documented hard contract), an alias is added for a tracked source, and any tensor may be removed.
  The number of tracked tensors stays below the range of the reference counts.
\<close>

inductive tracker_step :: "tracker \<Rightarrow> tracker \<Rightarrow> bool" where
  add: "map_of (tr_addr t) v = None \<Longrightarrow> 0 < sz \<Longrightarrow> sz + 31 < 2 ^ 64 \<Longrightarrow> wouldAllocateAt sz t = Some a \<Longrightarrow>
     addTensor v sz t = Some t' \<Longrightarrow> tracker_step t t'"
| add_alias: "map_of (tr_addr t) v = None \<Longrightarrow> map_of (tr_addr t) src \<noteq> None \<Longrightarrow>
     length (tr_addr t) + 1 < 2 ^ 32 \<Longrightarrow> addTensorAtAddress v sz src t = Some t' \<Longrightarrow> tracker_step t t'"
| remove: "length (tr_addr t) + 1 < 2 ^ 32 \<Longrightarrow> removeTensor v t = Some t' \<Longrightarrow> tracker_step t t'"
| remove_sizes: "removeTensorFromSizes v t = t' \<Longrightarrow> tracker_step t t'"

inductive reachable_tracker :: "nat \<Rightarrow> tracker \<Rightarrow> bool" for budget where
  start: "reachable_tracker budget (tracker_init budget t)"
| step: "reachable_tracker budget t \<Longrightarrow> tracker_step t t' \<Longrightarrow> reachable_tracker budget t'"
| rewind: "reachable_tracker budget t \<Longrightarrow> reachable_tracker budget u \<Longrightarrow>
     reachable_tracker budget (restoreSnapshot (takeSnapshot u) t)"

inductive_cases tracker_stepE: "tracker_step t t'"

lemma wouldAllocateAt_sizes [simp]: "wouldAllocateAt sz (t\<lparr>tr_sizes := x\<rparr>) = wouldAllocateAt sz t"
  by (simp add: wouldAllocateAt_def Let_def)

lemma step_inv: "tracker_step t t' \<Longrightarrow> tracker_inv t \<Longrightarrow> tracker_inv t' \<and> tr_budget t' = tr_budget t"
proof (induction rule: tracker_step.induct)
  case (add t v sz a t')
  let ?t = "t\<lparr>tr_sizes := AList.update v sz (tr_sizes t)\<rparr>"
  have t: "tracker_inv ?t" "map_of (tr_addr ?t) v = None" "wouldAllocateAt sz ?t = Some a"
    using add by simp_all
  from allocate_result [OF t(1,2) add(2,3) t(3)] obtain t1 where
    "allocateAddress v sz ?t = Some t1" "tracker_inv t1" "tr_budget t1 = tr_budget ?t" by metis
  with add show ?case by (simp add: addTensor_def)
next
  case (add_alias t v src sz t')
  then obtain s n where "map_of (tr_addr t) src = Some (s, n)" by auto
  with add_alias obtain t1 where "allocateAddressAt v src t = Some t1" "tracker_inv t1" "tr_budget t1 = tr_budget t"
    using allocateAddressAt_result [of t v src s n] by metis
  with add_alias show ?case by (auto simp: addTensorAtAddress_def)
next
  case (remove t v t')
  let ?t = "removeTensorFromSizes v t"
  have t: "tracker_inv ?t" "length (tr_addr ?t) + 1 < 2 ^ 32" "tr_budget ?t = tr_budget t"
    using remove by (simp_all add: removeTensorFromSizes_def)
  from freeAddress_result [OF t(1,2), of v] obtain t1 where
    "freeAddress v ?t = Some t1" "tracker_inv t1" "tr_budget t1 = tr_budget t" using t(3) by metis
  with remove show ?case by (simp add: removeTensor_def)
next
  case (remove_sizes v t t')
  then show ?case by (auto simp: removeTensorFromSizes_def)
qed

lemma reachable_inv:
  assumes "reachable_tracker budget t" "0 < budget" "budget < 2 ^ 64"
  shows "tracker_inv t \<and> tr_budget t = budget"
  using assms(1)
proof (induction rule: reachable_tracker.induct)
  case (start t)
  show ?case using inv_init [OF assms(2,3)] by (simp add: tracker_init_def)
next
  case (step t t')
  then show ?case using step_inv by metis
next
  case (rewind t u)
  then have "tr_budget u = tr_budget t" "tr_budget t = budget" by simp_all
  with rewind show ?case
    by (simp add: tracker_inv_def restoreSnapshot_def takeSnapshot_def)
qed

section \<open>A concrete run\<close>

text \<open>A budget of 1024: tensor 1 of 100 bytes takes \<open>[896, 1024)\<close>, tensor 2 is a view
  of it, tensor 3 of 64 bytes takes \<open>[832, 896)\<close>, and tensor 1 is removed.\<close>

definition run0 :: tracker where
  "run0 = \<lparr>tr_budget = 1024, tr_occupied = 0, tr_sizes = [], tr_free = [\<lparr>fb_start = 0, fb_end = 1024\<rparr>],
     tr_addr = [], tr_groups = []\<rparr>"

definition run1 :: tracker where
  "run1 = \<lparr>tr_budget = 1024, tr_occupied = 100, tr_sizes = [(1, 100)],
     tr_free = [\<lparr>fb_start = 0, fb_end = 896\<rparr>], tr_addr = [(1, 896, 128)],
     tr_groups = [(896, \<lparr>ag_count = 1, ag_raw = 100\<rparr>)]\<rparr>"

definition run4 :: tracker where
  "run4 = \<lparr>tr_budget = 1024, tr_occupied = 164, tr_sizes = [(2, 100), (3, 64)],
     tr_free = [\<lparr>fb_start = 0, fb_end = 832\<rparr>], tr_addr = [(2, 896, 128), (3, 832, 64)],
     tr_groups = [(896, \<lparr>ag_count = 1, ag_raw = 100\<rparr>), (832, \<lparr>ag_count = 1, ag_raw = 64\<rparr>)]\<rparr>"

lemmas run_simps = run0_def run1_def run4_def tracker_init_def addTensor_def addTensorAtAddress_def
  allocateAddress_def allocateAddressAt_def removeTensor_def removeTensorFromSizes_def
  freeAddress_def wouldAllocateAt_def align_l1_eq fb_size_def erase_at_def insert_free_def
  insert_at_def inc32_def dec32_def Let_def

lemma reach_run1: "reachable_tracker 1024 run1"
proof -
  have "tracker_step (tracker_init 1024 run0) run1"
    by (rule tracker_step.add [of _ 1 100 896]) (simp_all add: run_simps)
  then show ?thesis using reachable_tracker.start reachable_tracker.step by blast
qed

lemma reach_run4: "reachable_tracker 1024 run4"
proof -
  let ?run2 = "the (addTensorAtAddress 2 100 1 run1)"
  let ?run3 = "the (addTensor 3 64 ?run2)"
  have "tracker_step run1 ?run2"
    by (rule tracker_step.add_alias [of _ 2 1 100]) (simp_all add: run_simps)
  moreover have "tracker_step ?run2 ?run3"
    by (rule tracker_step.add [of _ 3 64 832]) (simp_all add: run_simps)
  moreover have "tracker_step ?run3 run4"
    by (rule tracker_step.remove [of _ 1]) (simp_all add: run_simps)
  ultimately show ?thesis using reach_run1 reachable_tracker.step by blast
qed

section \<open>Properties\<close>

text \<open>C5: in every reachable tracker the free blocks are sorted, non-empty and never adjacent,
  and every address below the budget is either free or in the slot of a tracked tensor, not both;
  \<open>currentOccupied\<close> counts every slot once and never exceeds the budget.\<close>

theorem tracker_partition:
  assumes "reachable_tracker budget t" "0 < budget" "budget < 2 ^ 64"
  shows "canonical (tr_free t) \<and>
    free_bytes (tr_free t) \<inter> occupied_bytes (map_of (tr_groups t)) = {} \<and>
    free_bytes (tr_free t) \<union> occupied_bytes (map_of (tr_groups t)) = {0..<budget} \<and>
    tr_occupied t = (\<Sum>s\<in>dom (map_of (tr_groups t)). ag_raw (the (map_of (tr_groups t) s))) \<and>
    tr_occupied t \<le> budget"
proof -
  have inv: "tracker_inv t" "tr_budget t = budget" using reachable_inv [OF assms] by simp_all
  note slots = inv_slots [OF inv(1)]
  then show ?thesis
    using inv slots_occupied_le [OF slots] by (simp add: tracker_inv_def slots_inv_def)
qed

theorem tracker_partition_witness:
  "free_bytes (tr_free run4) \<union> occupied_bytes (map_of (tr_groups run4)) = {0..<1024} \<and> tr_occupied run4 = 164"
  using tracker_partition [OF reach_run4] by (simp add: run4_def)

text \<open>C6: two tracked tensors of a reachable tracker either share one slot exactly, or occupy
  disjoint addresses; every slot lies below the budget.\<close>

theorem tracker_no_overlap:
  assumes "reachable_tracker budget t" "0 < budget" "budget < 2 ^ 64"
    "map_of (tr_addr t) v = Some (s, n)" "map_of (tr_addr t) w = Some (s', n')"
  shows "s + n \<le> budget \<and> ((s, n) = (s', n') \<or> {s..<s + n} \<inter> {s'..<s' + n'} = {})"
proof -
  have inv: "tracker_inv t" "tr_budget t = budget" using reachable_inv [OF assms(1-3)] by simp_all
  note slots = inv_slots [OF inv(1)]
  from slots_entry [OF slots assms(4)] obtain g where g: "map_of (tr_groups t) s = Some g" "n = align_l1 (ag_raw g)" by blast
  from slots_entry [OF slots assms(5)] obtain g' where g': "map_of (tr_groups t) s' = Some g'" "n' = align_l1 (ag_raw g')" by blast
  have "s + n \<le> budget" using slots_bytes(4) [OF slots g(1)] inv(2) g(2) by simp
  moreover have "s = s' \<Longrightarrow> n = n'" using g g' by simp
  moreover have "s \<noteq> s' \<Longrightarrow> {s..<s + n} \<inter> {s'..<s' + n'} = {}"
    using slots_disjoint [OF slots g(1) g'(1)] g(2) g'(2) by (simp add: slot_bytes_def)
  ultimately show ?thesis by blast
qed

theorem tracker_no_overlap_witness: "{896..<896 + 128} \<inter> {832..<832 + (64::nat)} = {}"
  using tracker_no_overlap [OF reach_run4, of 2 896 128 3 832 64] by (simp add: run4_def)

text \<open>\<open>wouldAllocateAt\<close> predicts the allocator: a fresh tensor it finds room for is
  placed at the reported address, in a range that was free, at the highest block that fits; where
  it finds none, \<open>addTensor\<close> hits its unreachable branch and no free block fits.\<close>

theorem wouldAllocateAt_predicts:
  assumes "reachable_tracker budget t" "0 < budget" "budget < 2 ^ 64"
    "map_of (tr_addr t) v = None" "0 < sz" "sz + 31 < 2 ^ 64"
  shows "case wouldAllocateAt sz t of
      None \<Rightarrow> addTensor v sz t = None \<and> (\<forall>b\<in>set (tr_free t). fb_end b - fb_start b < align_l1 sz)
    | Some a \<Rightarrow> (\<exists>t'. addTensor v sz t = Some t' \<and> map_of (tr_addr t') v = Some (a, align_l1 sz) \<and>
        {a..<a + align_l1 sz} \<subseteq> free_bytes (tr_free t) \<and>
        free_bytes (tr_free t') = free_bytes (tr_free t) - {a..<a + align_l1 sz} \<and>
        tr_occupied t' = tr_occupied t + sz)"
proof (cases "wouldAllocateAt sz t")
  case None
  have inv: "tracker_inv t" "tr_budget t = budget" using reachable_inv [OF assms(1-3)] by simp_all
  from None have fit: "find_fit (length (tr_free t)) (tr_free t) (align_l1 sz) = None"
    using assms(2,5) inv(2) by (auto simp: wouldAllocateAt_def Let_def split: option.splits)
  have "fb_end b - fb_start b < align_l1 sz" if b: "b \<in> set (tr_free t)" for b
  proof -
    from b obtain j where "j < length (tr_free t)" "b = tr_free t ! j" by (auto simp: in_set_conv_nth)
    with fit have "fb_size b < align_l1 sz" by (simp add: find_fit_None)
    moreover have "canonical (tr_free t)" using inv(1) by (simp add: tracker_inv_def)
    ultimately show ?thesis using b by simp
  qed
  with None fit assms(2,5) inv(2) show ?thesis
    by (simp add: addTensor_def allocateAddress_def Let_def)
next
  case (Some a)
  have inv: "tracker_inv t" using reachable_inv [OF assms(1-3)] by simp
  let ?t = "t\<lparr>tr_sizes := AList.update v sz (tr_sizes t)\<rparr>"
  have t: "tracker_inv ?t" "map_of (tr_addr ?t) v = None" "wouldAllocateAt sz ?t = Some a"
    using inv assms(4) Some by simp_all
  from allocate_result [OF t(1,2) assms(5,6) t(3)] obtain t' where t':
    "allocateAddress v sz ?t = Some t'" "map_of (tr_addr t') = (map_of (tr_addr ?t))(v \<mapsto> (a, align_l1 sz))"
    "free_bytes (tr_free t') = free_bytes (tr_free ?t) - {a..<a + align_l1 sz}"
    "{a..<a + align_l1 sz} \<subseteq> free_bytes (tr_free ?t)" "tr_occupied t' = tr_occupied ?t + sz" by metis
  then show ?thesis using Some by (simp add: addTensor_def)
qed

theorem wouldAllocateAt_predicts_witness:
  "wouldAllocateAt 64 run1 = Some 832 \<and>
   (\<exists>t'. addTensor 3 64 run1 = Some t' \<and> map_of (tr_addr t') 3 = Some (832, align_l1 64))"
proof -
  have "wouldAllocateAt 64 run1 = Some 832" "map_of (tr_addr run1) 3 = None" by (simp_all add: run_simps)
  then show ?thesis using wouldAllocateAt_predicts [OF reach_run1, of 3 64] by auto
qed

text \<open>when the last tracked tensor is gone the tracker is as \<open>init\<close> left it: one free
  block of the whole budget and no occupancy. No freed byte is lost, however the allocations, aliases
  and removals were interleaved.\<close>

theorem tracker_drained:
  assumes "reachable_tracker budget t" "0 < budget" "budget < 2 ^ 64" "tr_addr t = []"
  shows "tr_free t = [\<lparr>fb_start = 0, fb_end = budget\<rparr>] \<and> tr_occupied t = 0 \<and> tr_groups t = []"
proof -
  have inv: "tracker_inv t" "tr_budget t = budget" using reachable_inv [OF assms(1-3)] by simp_all
  note slots = inv_slots [OF inv(1)]
  have none: "map_of (tr_groups t) s = None" for s
    using slots_group(3,4) [OF slots, of s] assms(4) by (cases "map_of (tr_groups t) s") (auto simp: tensors_at_def)
  have "map_of (tr_groups t) = Map.empty" by (rule ext) (rule none)
  then have empty: "tr_groups t = []" by simp
  have "free_bytes (tr_free t) = {0..<budget}" "tr_occupied t = 0"
    using slots inv(2) by (simp_all add: slots_inv_def occupied_bytes_def empty)
  moreover have "canonical [\<lparr>fb_start = 0, fb_end = budget\<rparr>]" using assms(2,3) by simp
  moreover have "free_bytes [\<lparr>fb_start = 0, fb_end = budget\<rparr>] = {0..<budget}" by (simp add: block_bytes_def)
  ultimately show ?thesis
    using canonical_unique [of "tr_free t"] inv(1) empty by (simp add: tracker_inv_def)
qed

text \<open>adding a fresh tensor and removing it again gives back the same free list, address map
  and occupancy.\<close>

theorem add_remove_roundtrip:
  assumes "reachable_tracker budget t" "0 < budget" "budget < 2 ^ 64" "length (tr_addr t) + 2 < 2 ^ 32"
    "map_of (tr_addr t) v = None" "0 < sz" "sz + 31 < 2 ^ 64" "wouldAllocateAt sz t = Some a"
  shows "\<exists>t1 t2. addTensor v sz t = Some t1 \<and> removeTensor v t1 = Some t2 \<and> tr_free t2 = tr_free t \<and>
    map_of (tr_addr t2) = map_of (tr_addr t) \<and> tr_occupied t2 = tr_occupied t"
proof -
  have inv: "tracker_inv t" using reachable_inv [OF assms(1-3)] by simp
  let ?t = "t\<lparr>tr_sizes := AList.update v sz (tr_sizes t)\<rparr>"
  have t: "tracker_inv ?t" "map_of (tr_addr ?t) v = None" "wouldAllocateAt sz ?t = Some a"
    using inv assms by simp_all
  from allocate_result [OF t(1,2) assms(6,7) t(3)] obtain t1 where t1:
    "allocateAddress v sz ?t = Some t1" "tracker_inv t1"
    "map_of (tr_addr t1) = (map_of (tr_addr ?t))(v \<mapsto> (a, align_l1 sz))"
    "map_of (tr_groups t1) = (map_of (tr_groups ?t))(a \<mapsto> \<lparr>ag_count = 1, ag_raw = sz\<rparr>)"
    "free_bytes (tr_free t1) = free_bytes (tr_free ?t) - {a..<a + align_l1 sz}"
    "{a..<a + align_l1 sz} \<subseteq> free_bytes (tr_free ?t)"
    "tr_occupied t1 = tr_occupied ?t + sz" "tr_budget t1 = tr_budget ?t" by metis
  have slots: "slots_inv (map_of (tr_addr t1)) (map_of (tr_groups t1)) (tr_budget t1) (free_bytes (tr_free t1)) (tr_occupied t1)"
    by (rule inv_slots [OF t1(2)])
  have g: "map_of (tr_groups t1) a = Some \<lparr>ag_count = 1, ag_raw = sz\<rparr>" using t1(4) by simp
  have n: "0 < align_l1 sz" "a + align_l1 sz < 2 ^ 64"
    using slots_bytes(3,4) [OF slots g] t1(2) by (simp_all add: tracker_inv_def)
  have can: "canonical (tr_free t1)" "canonical (tr_free t)" using t1(2) inv by (simp_all add: tracker_inv_def)
  have "free_bytes (tr_free t1) \<inter> {a..<a + align_l1 sz} = {}" using t1(5) by blast
  note ins = insert_free_bytes [OF can(1) _ n(2) this]
  have "free_bytes (insert_free a (a + align_l1 sz) (tr_free t1)) = free_bytes (tr_free t)"
    using ins(2) t1(5,6) n(1) by auto
  then have free: "insert_free a (a + align_l1 sz) (tr_free t1) = tr_free t"
    using canonical_unique ins(1) can(2) n(1) by simp
  have occ: "sub64 (tr_occupied t1) sz = tr_occupied t"
    using slots_occupied_le [OF slots] t1(2,7) by (subst sub64_exact) (simp_all add: tracker_inv_def)
  define t2 where "t2 = t1\<lparr>tr_sizes := AList.delete v (tr_sizes t1), tr_addr := AList.delete v (tr_addr t1),
      tr_occupied := tr_occupied t, tr_groups := AList.delete a (tr_groups t1), tr_free := tr_free t\<rparr>"
  have "removeTensor v t1 = Some t2"
    using t1(3) g n(2) occ free
    by (simp add: removeTensor_def removeTensorFromSizes_def freeAddress_def Let_def dec32_def t2_def)
  moreover have "map_of (tr_addr t2) = map_of (tr_addr t)"
    using t1(3) assms(5) by (auto simp: t2_def delete_conv')
  ultimately show ?thesis
    using t1(1) by (intro exI [of _ t1] exI [of _ t2]) (simp add: addTensor_def t2_def)
qed

theorem add_remove_roundtrip_witness:
  "\<exists>t1 t2. addTensor 5 10 run4 = Some t1 \<and> removeTensor 5 t1 = Some t2 \<and> tr_free t2 = tr_free run4"
proof -
  have "wouldAllocateAt 10 run4 = Some 800" "map_of (tr_addr run4) 5 = None" "length (tr_addr run4) = 2"
    by (simp_all add: run_simps)
  then show ?thesis using add_remove_roundtrip [OF reach_run4, of 5 10 800] by auto
qed

theorem tracker_drained_witness:
  "\<exists>t. reachable_tracker 1024 t \<and> tr_sizes t = [] \<and> tr_free t = [\<lparr>fb_start = 0, fb_end = 1024\<rparr>] \<and> tr_occupied t = 0"
proof -
  let ?t = "\<lparr>tr_budget = 1024, tr_occupied = 0, tr_sizes = [], tr_free = [\<lparr>fb_start = 0, fb_end = 1024\<rparr>],
     tr_addr = [], tr_groups = []\<rparr>"
  have "tracker_step run1 ?t"
    by (rule tracker_step.remove [of _ 1]) (simp_all add: run_simps)
  with reach_run1 have "reachable_tracker 1024 ?t" by (rule reachable_tracker.step)
  from tracker_drained [OF this] this show ?thesis by (intro exI [of _ ?t]) simp
qed

end
