(* ===== verification/MockTracker.thy ===== *)
theory MockTracker
  imports Prelude
begin

text \<open>
  \<open>MockAllocatorL1Tracker\<close> of lib/Dialect/TTNN/Analysis/L1SpillManagement.cpp: the tracker
  behind the stateful spill strategy, which keeps one allocation record per buffer and counts the
  live values that share it. The IR facts it reads (defining operation, result number, result types)
  are the record \<open>op_env\<close>; \<open>DenseMap\<close>s are finite maps, and the sum over
  \<open>liveRecords\<close> runs over the list of tracked values.
\<close>

type_synonym tensor = nat
type_synonym operation = nat

record alloc_record =
  bufferType_L1 :: bool
  address :: nat
  sizePerBank :: nat

record op_env =
  defining_op :: "tensor \<Rightarrow> operation option"
  result_number :: "tensor \<Rightarrow> nat"
  num_results :: "operation \<Rightarrow> nat"
  is_tensor_result :: "operation \<Rightarrow> nat \<Rightarrow> bool"

record mock =
  mk_budget :: nat
  liveRecords :: "tensor \<rightharpoonup> alloc_record list"
  pendingRecords :: "operation \<rightharpoonup> alloc_record list"
  aliasOf :: "tensor \<rightharpoonup> tensor"
  aliasRefcount :: "tensor \<rightharpoonup> nat"

record mock_snapshot =
  ms_live :: "tensor \<rightharpoonup> alloc_record list"
  ms_aliasOf :: "tensor \<rightharpoonup> tensor"
  ms_refcount :: "tensor \<rightharpoonup> nat"

section \<open>Operations\<close>

definition mock_init :: "nat \<Rightarrow> mock" where
  "mock_init budget = \<lparr>mk_budget = budget, liveRecords = Map.empty, pendingRecords = Map.empty,
     aliasOf = Map.empty, aliasRefcount = Map.empty\<rparr>"

text \<open>\<open>isLastTensorResult\<close>: no tensor result after \<open>idx\<close>.\<close>

definition last_tensor_result :: "op_env \<Rightarrow> operation \<Rightarrow> nat \<Rightarrow> bool" where
  "last_tensor_result env op idx \<longleftrightarrow>
     list_all (\<lambda>i. \<not> is_tensor_result env op i) [idx + 1..<num_results env op]"

definition mock_addTensor :: "op_env \<Rightarrow> tensor \<Rightarrow> mock \<Rightarrow> mock" where
  "mock_addTensor env v m =
     (case defining_op env v of
        None \<Rightarrow> m
      | Some op \<Rightarrow>
          (case pendingRecords m op of
             None \<Rightarrow> m
           | Some recs \<Rightarrow>
               let idx = result_number env v;
                   m1 = (if idx < length recs
                         then m\<lparr>liveRecords := (liveRecords m)(v \<mapsto> [recs ! idx]),
                                aliasOf := (aliasOf m)(v \<mapsto> v),
                                aliasRefcount := (aliasRefcount m)(v \<mapsto> 1)\<rparr>
                         else m)
               in if last_tensor_result env op idx
                  then m1\<lparr>pendingRecords := (pendingRecords m1)(op := None)\<rparr> else m1))"

definition mock_addTensorAlias :: "tensor \<Rightarrow> tensor \<Rightarrow> mock \<Rightarrow> mock" where
  "mock_addTensorAlias out src m =
     (let owner = (case aliasOf m src of Some w \<Rightarrow> w | None \<Rightarrow> src);
          c = (case aliasRefcount m owner of Some n \<Rightarrow> n | None \<Rightarrow> 0)
      in m\<lparr>aliasOf := (aliasOf m)(out \<mapsto> owner),
           aliasRefcount := (aliasRefcount m)(owner \<mapsto> inc32 c)\<rparr>)"

definition mock_removeTensor :: "tensor \<Rightarrow> mock \<Rightarrow> mock" where
  "mock_removeTensor v m =
     (case aliasOf m v of
        None \<Rightarrow> m\<lparr>liveRecords := (liveRecords m)(v := None)\<rparr>
      | Some owner \<Rightarrow>
          let m1 = m\<lparr>aliasOf := (aliasOf m)(v := None)\<rparr>
          in case aliasRefcount m owner of
               None \<Rightarrow> m1
             | Some n \<Rightarrow>
                 if dec32 n = 0
                 then m1\<lparr>aliasRefcount := (aliasRefcount m)(owner := None),
                         liveRecords := (liveRecords m)(owner := None)\<rparr>
                 else m1\<lparr>aliasRefcount := (aliasRefcount m)(owner \<mapsto> dec32 n)\<rparr>)"

definition mock_hasTensor :: "tensor \<Rightarrow> mock \<Rightarrow> bool" where
  "mock_hasTensor v m \<longleftrightarrow> aliasOf m v \<noteq> None"

definition l1_bytes :: "alloc_record list \<Rightarrow> nat" where
  "l1_bytes recs = (\<Sum>r\<leftarrow>recs. if bufferType_L1 r then sizePerBank r else 0)"

definition mock_getTensorSize :: "tensor \<Rightarrow> mock \<Rightarrow> nat" where
  "mock_getTensorSize v m =
     (let owner = (case aliasOf m v of Some w \<Rightarrow> w | None \<Rightarrow> v)
      in case liveRecords m owner of None \<Rightarrow> 0 | Some recs \<Rightarrow> l1_bytes recs)"

definition mock_takeSnapshot :: "mock \<Rightarrow> mock_snapshot" where
  "mock_takeSnapshot m = \<lparr>ms_live = liveRecords m, ms_aliasOf = aliasOf m, ms_refcount = aliasRefcount m\<rparr>"

definition mock_restoreSnapshot :: "mock_snapshot \<Rightarrow> mock \<Rightarrow> mock" where
  "mock_restoreSnapshot s m = m\<lparr>liveRecords := ms_live s, aliasOf := ms_aliasOf s, aliasRefcount := ms_refcount s\<rparr>"

section \<open>The invariant\<close>

definition sharing :: "mock \<Rightarrow> tensor \<Rightarrow> tensor set" where
  "sharing m owner = {v. aliasOf m v = Some owner}"

text \<open>The reference counts count the live values of each buffer, and every record belongs to a
  counted buffer.\<close>

definition mock_inv :: "mock \<Rightarrow> bool" where
  "mock_inv m \<longleftrightarrow> finite (dom (aliasOf m)) \<and>
     (\<forall>owner n. aliasRefcount m owner = Some n \<longrightarrow> 0 < n \<and> n = card (sharing m owner)) \<and>
     (\<forall>v owner. aliasOf m v = Some owner \<longrightarrow> aliasRefcount m owner \<noteq> None) \<and>
     (\<forall>owner. liveRecords m owner \<noteq> None \<longrightarrow> aliasRefcount m owner \<noteq> None)"

lemma finite_sharing: "finite (dom (aliasOf m)) \<Longrightarrow> finite (sharing m owner)"
  by (rule finite_subset [of _ "dom (aliasOf m)"]) (auto simp: sharing_def)

lemma mock_inv_init: "mock_inv (mock_init budget)"
  by (simp add: mock_inv_def mock_init_def)

lemma sharing_empty: "mock_inv m \<Longrightarrow> aliasRefcount m owner = None \<Longrightarrow> sharing m owner = {}"
  unfolding mock_inv_def sharing_def by blast

text \<open>A tensor may be added when no value shares its buffer.\<close>

lemma mock_inv_addTensor:
  assumes inv: "mock_inv m" and fresh: "aliasOf m v = None" "aliasRefcount m v = None"
  shows "mock_inv (mock_addTensor env v m)"
proof -
  let ?A = "(aliasOf m)(v \<mapsto> v)"
  have empty: "sharing m v = {}" by (rule sharing_empty [OF inv fresh(2)])
  have fin: "finite (dom ?A)" using inv by (simp add: mock_inv_def)
  have self: "{w. ?A w = Some v} = {v}" using empty by (auto simp: sharing_def)
  have other: "{w. ?A w = Some owner} = sharing m owner" if "owner \<noteq> v" for owner
    using that fresh by (auto simp: sharing_def)
  have "mock_inv (m\<lparr>liveRecords := L, pendingRecords := p, aliasOf := ?A, aliasRefcount := (aliasRefcount m)(v \<mapsto> 1)\<rparr>)"
    if L: "\<And>w. w \<noteq> v \<Longrightarrow> L w = liveRecords m w" for L p
    using inv L self other fresh fin unfolding mock_inv_def sharing_def by auto
  then show ?thesis
    using inv unfolding mock_addTensor_def
    by (auto simp: Let_def mock_inv_def sharing_def split: option.split)
qed

lemma sharing_small:
  "mock_inv m \<Longrightarrow> card (dom (aliasOf m)) + 1 < 2 ^ 32 \<Longrightarrow> card (sharing m owner) + 1 < 2 ^ 32"
  using card_mono [of "dom (aliasOf m)" "sharing m owner"]
  by (force simp: mock_inv_def sharing_def)

lemma mock_inv_addTensorAlias:
  assumes inv: "mock_inv m" and fresh: "aliasOf m out = None" and few: "card (dom (aliasOf m)) + 1 < 2 ^ 32"
  shows "mock_inv (mock_addTensorAlias out src m)"
proof -
  define owner where "owner = (case aliasOf m src of Some w \<Rightarrow> w | None \<Rightarrow> src)"
  define c where "c = (case aliasRefcount m owner of Some n \<Rightarrow> n | None \<Rightarrow> 0)"
  have fin: "finite (dom (aliasOf m))" using inv by (simp add: mock_inv_def)
  have c: "c = card (sharing m owner)"
    using inv sharing_empty [OF inv, of owner] by (auto simp: c_def mock_inv_def split: option.split)
  have "inc32 c = c + 1" using sharing_small [OF inv few] c by (simp add: inc32_exact)
  then have eq: "mock_addTensorAlias out src m = m\<lparr>aliasOf := (aliasOf m)(out \<mapsto> owner),
      aliasRefcount := (aliasRefcount m)(owner \<mapsto> c + 1)\<rparr>"
    by (simp add: mock_addTensorAlias_def Let_def owner_def [symmetric] c_def [symmetric])
  have "{w. ((aliasOf m)(out \<mapsto> owner)) w = Some owner} = insert out (sharing m owner)"
    "out \<notin> sharing m owner" using fresh by (auto simp: sharing_def)
  then have own: "card {w. ((aliasOf m)(out \<mapsto> owner)) w = Some owner} = c + 1"
    using finite_sharing [OF fin] c by simp
  have other: "{w. ((aliasOf m)(out \<mapsto> owner)) w = Some w'} = sharing m w'" if "w' \<noteq> owner" for w'
    using that fresh by (auto simp: sharing_def)
  show ?thesis
    unfolding eq using inv own other fin unfolding mock_inv_def sharing_def by auto
qed

lemma mock_inv_removeTensor:
  assumes inv: "mock_inv m" and tracked: "aliasOf m v = Some owner" and few: "card (dom (aliasOf m)) + 1 < 2 ^ 32"
  shows "mock_inv (mock_removeTensor v m)"
    "liveRecords (mock_removeTensor v m) = (if sharing m owner = {v} then (liveRecords m)(owner := None) else liveRecords m)"
proof -
  obtain n where n: "aliasRefcount m owner = Some n" "0 < n" "n = card (sharing m owner)"
    using inv tracked unfolding mock_inv_def by blast
  have dec: "dec32 n = n - 1" using sharing_small [OF inv few, of owner] n by (intro dec32_exact) simp_all
  have fin: "finite (dom (aliasOf m))" using inv by (simp add: mock_inv_def)
  have mem: "v \<in> sharing m owner" using tracked by (simp add: sharing_def)
  have left: "{w. ((aliasOf m)(v := None)) w = Some owner} = sharing m owner - {v}"
    by (auto simp: sharing_def)
  have card: "card (sharing m owner - {v}) = n - 1"
    using finite_sharing [OF fin] mem n(3) by simp
  have other: "{w. ((aliasOf m)(v := None)) w = Some w'} = sharing m w'" if "w' \<noteq> owner" for w'
    using that tracked by (auto simp: sharing_def)
  have last: "n - 1 = 0 \<longleftrightarrow> sharing m owner = {v}"
    using n(2,3) mem by (metis One_nat_def card_1_singleton_iff diff_is_0_eq le_antisym less_eq_Suc_le singletonD)
  have gone: "aliasOf m w \<noteq> Some owner" if "n - 1 = 0" "w \<noteq> v" for w
    using that last by (auto simp: sharing_def)
  show "liveRecords (mock_removeTensor v m) = (if sharing m owner = {v} then (liveRecords m)(owner := None) else liveRecords m)"
    using tracked n(1) last by (simp add: mock_removeTensor_def Let_def dec)
  show "mock_inv (mock_removeTensor v m)"
  proof (cases "n - 1 = 0")
    case True
    have eq: "mock_removeTensor v m = m\<lparr>aliasOf := (aliasOf m)(v := None),
        aliasRefcount := (aliasRefcount m)(owner := None), liveRecords := (liveRecords m)(owner := None)\<rparr>"
      using tracked n(1) True by (simp add: mock_removeTensor_def Let_def dec)
    show ?thesis
      unfolding eq using inv other gone [OF True] fin unfolding mock_inv_def sharing_def by auto
  next
    case False
    have eq: "mock_removeTensor v m = m\<lparr>aliasOf := (aliasOf m)(v := None),
        aliasRefcount := (aliasRefcount m)(owner \<mapsto> n - 1)\<rparr>"
      using tracked n(1) False by (simp add: mock_removeTensor_def Let_def dec)
    show ?thesis
      unfolding eq using inv other left card False fin unfolding mock_inv_def sharing_def by auto
  qed
qed

section \<open>The tracker as a state machine\<close>

text \<open>\<open>validate\<close> stashes the records of an operation; a tensor is added when no live value
  shares its buffer, an alias when it is new, and only tracked values are removed.\<close>

inductive mock_step :: "op_env \<Rightarrow> mock \<Rightarrow> mock \<Rightarrow> bool" for env where
  stash: "mock_step env m (m\<lparr>pendingRecords := (pendingRecords m)(op \<mapsto> recs)\<rparr>)"
| add: "aliasOf m v = None \<Longrightarrow> aliasRefcount m v = None \<Longrightarrow> mock_step env m (mock_addTensor env v m)"
| add_alias: "aliasOf m out = None \<Longrightarrow> card (dom (aliasOf m)) + 1 < 2 ^ 32 \<Longrightarrow>
     mock_step env m (mock_addTensorAlias out src m)"
| remove: "mock_hasTensor v m \<Longrightarrow> card (dom (aliasOf m)) + 1 < 2 ^ 32 \<Longrightarrow> mock_step env m (mock_removeTensor v m)"

inductive reachable_mock :: "op_env \<Rightarrow> nat \<Rightarrow> mock \<Rightarrow> bool" for env budget where
  start: "reachable_mock env budget (mock_init budget)"
| step: "reachable_mock env budget m \<Longrightarrow> mock_step env m m' \<Longrightarrow> reachable_mock env budget m'"
| rewind: "reachable_mock env budget m \<Longrightarrow> reachable_mock env budget u \<Longrightarrow>
     reachable_mock env budget (mock_restoreSnapshot (mock_takeSnapshot u) m)"

lemma mock_step_inv: "mock_step env m m' \<Longrightarrow> mock_inv m \<Longrightarrow> mock_inv m'"
  by (induction rule: mock_step.induct)
    (auto simp: mock_inv_addTensor mock_inv_addTensorAlias mock_inv_removeTensor mock_hasTensor_def,
      simp add: mock_inv_def sharing_def)

lemma reachable_mock_inv: "reachable_mock env budget m \<Longrightarrow> mock_inv m"
  by (induction rule: reachable_mock.induct)
    (simp_all add: mock_inv_init mock_step_inv,
      simp add: mock_inv_def mock_restoreSnapshot_def mock_takeSnapshot_def sharing_def)

section \<open>A concrete run\<close>

definition demo_env :: op_env where
  "demo_env = \<lparr>defining_op = (\<lambda>v. Some v), result_number = (\<lambda>v. 0), num_results = (\<lambda>op. 1),
     is_tensor_result = (\<lambda>op i. True)\<rparr>"

definition demo_stash :: "tensor \<Rightarrow> mock \<Rightarrow> mock" where
  "demo_stash v m = m\<lparr>pendingRecords := (pendingRecords m)(v \<mapsto> [\<lparr>bufferType_L1 = True, address = 960, sizePerBank = 64\<rparr>])\<rparr>"

text \<open>Tensor 1 is added and tensor 2 becomes a view of it.\<close>

definition demo_mock :: mock where
  "demo_mock = mock_addTensorAlias 2 1 (mock_addTensor demo_env 1 (demo_stash 1 (mock_init 1024)))"

lemmas mock_simps = mock_init_def mock_addTensor_def mock_addTensorAlias_def mock_removeTensor_def
  last_tensor_result_def demo_env_def demo_stash_def inc32_def dec32_def Let_def

lemma demo_mock_fields:
  "aliasOf demo_mock = [1 \<mapsto> 1, 2 \<mapsto> 1]" "aliasRefcount demo_mock = [1 \<mapsto> 2]"
  "liveRecords demo_mock = [1 \<mapsto> [\<lparr>bufferType_L1 = True, address = 960, sizePerBank = 64\<rparr>]]"
  by (simp_all add: demo_mock_def mock_simps del: One_nat_def)

lemma reach_demo: "reachable_mock demo_env 1024 demo_mock"
proof -
  have "reachable_mock demo_env 1024 (demo_stash 1 (mock_init 1024))"
    unfolding demo_stash_def by (rule reachable_mock.step [OF reachable_mock.start mock_step.stash])
  then have "reachable_mock demo_env 1024 (mock_addTensor demo_env 1 (demo_stash 1 (mock_init 1024)))"
    by (rule reachable_mock.step) (rule mock_step.add; simp add: mock_simps)
  then show ?thesis
    unfolding demo_mock_def by (rule reachable_mock.step) (rule mock_step.add_alias; simp add: mock_simps)
qed

section \<open>Properties\<close>

text \<open>in every reachable state a buffer's reference count is the number of live values that
  share it, every tracked value belongs to a counted buffer, and every allocation record that the
  stateful query sees belongs to a buffer with a live value.\<close>

theorem mock_refcounts:
  assumes "reachable_mock env budget m"
  shows "(\<forall>owner n. aliasRefcount m owner = Some n \<longrightarrow> 0 < n \<and> n = card (sharing m owner)) \<and>
    (\<forall>v owner. aliasOf m v = Some owner \<longrightarrow> aliasRefcount m owner \<noteq> None) \<and>
    (\<forall>owner recs. liveRecords m owner = Some recs \<longrightarrow> sharing m owner \<noteq> {})"
proof -
  have inv: "mock_inv m" by (rule reachable_mock_inv [OF assms])
  have "sharing m owner \<noteq> {}" if "liveRecords m owner = Some recs" for owner recs
  proof -
    have "aliasRefcount m owner \<noteq> None" using inv that by (simp add: mock_inv_def)
    then obtain n where "aliasRefcount m owner = Some n" by blast
    with inv have "0 < n" "n = card (sharing m owner)" by (simp_all add: mock_inv_def)
    then show ?thesis by (metis card.empty less_irrefl)
  qed
  with inv show ?thesis by (simp add: mock_inv_def)
qed

theorem mock_refcounts_witness: "card (sharing demo_mock 1) = 2"
  using mock_refcounts [OF reach_demo] by (simp add: demo_mock_fields)

text \<open>removing a live value drops the record of its buffer exactly when it is the last value
  sharing it; no other record changes, so a view keeps its source's buffer in the query.\<close>

theorem mock_remove_last:
  assumes "reachable_mock env budget m" "aliasOf m v = Some owner" "card (dom (aliasOf m)) + 1 < 2 ^ 32"
  shows "liveRecords (mock_removeTensor v m) =
    (if sharing m owner = {v} then (liveRecords m)(owner := None) else liveRecords m)"
  by (rule mock_inv_removeTensor(2) [OF reachable_mock_inv [OF assms(1)] assms(2,3)])

theorem mock_remove_last_witness: "liveRecords (mock_removeTensor 1 demo_mock) 1 \<noteq> None"
proof -
  have two: "2 \<in> sharing demo_mock 1" by (simp add: sharing_def demo_mock_fields)
  have more: "sharing demo_mock 1 \<noteq> {1}"
  proof
    assume "sharing demo_mock 1 = {1}"
    with two have "2 \<in> {1::nat}" by (simp only:)
    then show False by simp
  qed
  have "liveRecords (mock_removeTensor 1 demo_mock) =
      (if sharing demo_mock 1 = {1} then (liveRecords demo_mock)(1 := None) else liveRecords demo_mock)"
  proof (rule mock_remove_last [OF reach_demo])
    show "aliasOf demo_mock 1 = Some 1" by (simp add: demo_mock_fields)
    have "card (dom (aliasOf demo_mock)) = 2" by (simp add: demo_mock_fields)
    then show "card (dom (aliasOf demo_mock)) + 1 < 2 ^ 32" by simp
  qed
  with more show ?thesis by (simp add: demo_mock_fields)
qed

text \<open>Outside that contract: removing an owner that still has a view and adding it again (the
  refresh of a result's size) restarts the count at 1, and removing it then drops the record while
  the view is live.\<close>

lemma readd_loses_alias:
  "let m = mock_removeTensor 1 (mock_addTensor demo_env 1 (demo_stash 1 (mock_removeTensor 1 demo_mock)))
   in aliasOf m 2 = Some 1 \<and> liveRecords m 1 = None \<and> aliasRefcount m 1 = None"
  by (simp add: demo_mock_def mock_simps del: One_nat_def)

end
