(* ===== verification/SpillLog.thy ===== *)
theory SpillLog
  imports TrackerInv
begin

text \<open>
  The event log of the L1 spill pass (lib/Dialect/TTNN/Analysis/L1SpillManagement.cpp): every
  allocation and deallocation of the sweep is recorded, and an eviction rebuilds the address state by
  restoring a snapshot and replaying the rest of the log without the evicted tensors. What the pass
  reads of the IR (whether a value is produced by an aliasing view, and from which operand) is the
  record \<open>view_env\<close>, an argument of every
  step: evictions rewire the operands of views, so that it changes in the course of a sweep.
\<close>

section \<open>State\<close>

datatype event_kind = Alloc | Dealloc

record l1_event =
  ev_kind :: event_kind
  ev_tensor :: tensor
  ev_size :: nat
  ev_skipped :: bool

record view_env =
  is_view :: "tensor \<Rightarrow> bool"
  view_source :: "tensor \<Rightarrow> tensor"

record spill_log =
  lg_tracker :: tracker
  lg_events :: "l1_event list"
  lg_snaps :: "nat \<rightharpoonup> snapshot"
  lg_index :: "tensor \<rightharpoonup> nat"
  lg_live :: "tensor set"
  lg_heap :: "(int \<times> tensor) list"
  lg_reshards :: "tensor set"

definition size_max :: nat where
  "size_max = 2 ^ 64 - 1"

section \<open>The forward sweep\<close>

definition aliases_source :: "view_env \<Rightarrow> tensor \<Rightarrow> tracker \<Rightarrow> bool" where
  "aliases_source env v t \<longleftrightarrow> is_view env v \<and> hasTensorAddress (view_source env v) t"

text \<open>\<open>liveSet\<close> is kept in an order in which \<open>std::priority_queue\<close> may pop it: later last
  uses first.\<close>

definition later_use :: "int \<times> tensor \<Rightarrow> int \<times> tensor \<Rightarrow> bool" where
  "later_use a b \<longleftrightarrow> fst a > fst b"

definition commitAllocation ::
  "view_env \<Rightarrow> (tensor \<rightharpoonup> int) \<Rightarrow> tensor \<Rightarrow> nat \<Rightarrow> spill_log \<Rightarrow> spill_log option" where
  "commitAllocation env lastUse v sz L =
     (case lastUse v of
        None \<Rightarrow> None
      | Some lu \<Rightarrow>
          let n = length (lg_events L); t = lg_tracker L
          in case (if aliases_source env v t then addTensorAtAddress v sz (view_source env v) t
                   else addTensor v sz t) of
               None \<Rightarrow> None
             | Some t' \<Rightarrow> Some (L\<lparr>lg_index := (lg_index L)(v \<mapsto> n),
                 lg_snaps := (lg_snaps L)(n \<mapsto> takeSnapshot t),
                 lg_events := lg_events L @ [\<lparr>ev_kind = Alloc, ev_tensor = v, ev_size = sz, ev_skipped = False\<rparr>],
                 lg_tracker := t', lg_live := insert v (lg_live L),
                 lg_heap := insert_by later_use (lu, v) (lg_heap L)\<rparr>))"

fun processDead :: "tensor list \<Rightarrow> spill_log \<Rightarrow> spill_log option" where
  "processDead [] L = Some L"
| "processDead (v # vs) L =
     (if v \<in> lg_live L
      then case removeTensor v (lg_tracker L) of
             None \<Rightarrow> None
           | Some t' \<Rightarrow> processDead vs (L\<lparr>lg_live := lg_live L - {v}, lg_tracker := t',
               lg_events := lg_events L @ [\<lparr>ev_kind = Dealloc, ev_tensor = v, ev_size = 0, ev_skipped = False\<rparr>]\<rparr>)
      else processDead vs L)"

definition processDeadTensors :: "(int \<rightharpoonup> tensor list) \<Rightarrow> int \<Rightarrow> spill_log \<Rightarrow> spill_log option" where
  "processDeadTensors deathSchedule pos L =
     (case deathSchedule (pos - 1) of None \<Rightarrow> Some L | Some vs \<Rightarrow> processDead vs L)"

section \<open>Choosing and evicting a victim\<close>

fun pop_victim :: "tensor set \<Rightarrow> tensor set \<Rightarrow> (int \<times> tensor) list \<Rightarrow> tensor option \<times> (int \<times> tensor) list" where
  "pop_victim live reshards [] = (None, [])"
| "pop_victim live reshards ((lu, v) # heap) =
     (if v \<notin> live then pop_victim live reshards heap
      else if v \<in> reshards then pop_victim live reshards heap
      else (Some v, heap))"

definition evictFarthestUse :: "spill_log \<Rightarrow> tensor option \<times> spill_log" where
  "evictFarthestUse L =
     (case pop_victim (lg_live L) (lg_reshards L) (lg_heap L) of
        (None, h) \<Rightarrow> (None, L\<lparr>lg_heap := h\<rparr>)
      | (Some v, h) \<Rightarrow> (Some v, L\<lparr>lg_heap := h, lg_live := lg_live L - {v}\<rparr>))"

definition shift_index :: "nat \<Rightarrow> nat \<Rightarrow> nat" where
  "shift_index pos i = (if i \<ge> pos then i + 1 else i)"

definition insertEventIntoLog :: "nat \<Rightarrow> l1_event \<Rightarrow> spill_log \<Rightarrow> spill_log" where
  "insertEventIntoLog pos ev L =
     L\<lparr>lg_events := insert_at pos ev (lg_events L),
       lg_index := map_option (shift_index pos) \<circ> lg_index L,
       lg_snaps := (\<lambda>k. if k = pos then None else if k > pos then lg_snaps L (k - 1) else lg_snaps L k)\<rparr>"

text \<open>The replay loop: the flag is False at the first tensor without a contiguous fit.\<close>

fun replay_loop :: "view_env \<Rightarrow> nat \<Rightarrow> l1_event list \<Rightarrow> (nat \<rightharpoonup> snapshot) \<Rightarrow> tracker \<Rightarrow>
    (bool \<times> (nat \<rightharpoonup> snapshot) \<times> tracker) option" where
  "replay_loop env i [] sn t = Some (True, sn, t)"
| "replay_loop env i (e # es) sn t =
     (if ev_skipped e then replay_loop env (Suc i) es sn t
      else if ev_kind e = Dealloc
      then (case freeAddress (ev_tensor e) t of
              None \<Rightarrow> None
            | Some t' \<Rightarrow> replay_loop env (Suc i) es sn t')
      else let sn' = sn(i \<mapsto> takeSnapshot t)
           in if aliases_source env (ev_tensor e) t
              then (case allocateAddressAt (ev_tensor e) (view_source env (ev_tensor e)) t of
                      None \<Rightarrow> None
                    | Some t' \<Rightarrow> replay_loop env (Suc i) es sn' t')
              else if wouldAllocateAt (ev_size e) t = None then Some (False, sn', t)
              else (case allocateAddress (ev_tensor e) (ev_size e) t of
                      None \<Rightarrow> None
                    | Some t' \<Rightarrow> replay_loop env (Suc i) es sn' t'))"

definition replayFrom :: "view_env \<Rightarrow> nat \<Rightarrow> spill_log \<Rightarrow> (bool \<times> spill_log) option" where
  "replayFrom env start L =
     (case lg_snaps L start of
        None \<Rightarrow> None
      | Some s \<Rightarrow>
          (case replay_loop env start (drop start (lg_events L)) (lg_snaps L) (restoreSnapshot s (lg_tracker L)) of
             None \<Rightarrow> None
           | Some (ok, sn, t) \<Rightarrow> Some (ok, L\<lparr>lg_snaps := sn, lg_tracker := t\<rparr>)))"

text \<open>The first \<open>Dealloc\<close> of the tensor is marked.\<close>

fun skip_dealloc :: "tensor \<Rightarrow> l1_event list \<Rightarrow> l1_event list" where
  "skip_dealloc v [] = []"
| "skip_dealloc v (e # es) =
     (if ev_tensor e = v \<and> ev_kind e = Dealloc then e\<lparr>ev_skipped := True\<rparr> # es
      else e # skip_dealloc v es)"

definition mark_evicted :: "tensor \<Rightarrow> nat \<Rightarrow> l1_event list \<Rightarrow> l1_event list" where
  "mark_evicted v i es =
     take i es @ (es ! i)\<lparr>ev_skipped := True\<rparr> # skip_dealloc v (drop (Suc i) es)"

definition markEvictedAndRebuild :: "view_env \<Rightarrow> tensor \<Rightarrow> nat \<Rightarrow> spill_log \<Rightarrow> (bool \<times> nat \<times> spill_log) option" where
  "markEvictedAndRebuild env victim campaignMin L =
     (case lg_index L victim of
        None \<Rightarrow> None
      | Some i \<Rightarrow>
          let m = min campaignMin i
          in (case replayFrom env m (L\<lparr>lg_events := mark_evicted victim i (lg_events L)\<rparr>) of
                None \<Rightarrow> None
              | Some (ok, L') \<Rightarrow> Some (ok, m, L')))"

section \<open>The log as a program\<close>

text \<open>What the log means: its events run from an empty tracker, without the skipped ones.\<close>

definition run_event :: "view_env \<Rightarrow> l1_event \<Rightarrow> tracker \<Rightarrow> tracker option" where
  "run_event env e t =
     (if ev_skipped e then Some t
      else if ev_kind e = Dealloc then freeAddress (ev_tensor e) t
      else if aliases_source env (ev_tensor e) t
      then allocateAddressAt (ev_tensor e) (view_source env (ev_tensor e)) t
      else if wouldAllocateAt (ev_size e) t = None then None
      else allocateAddress (ev_tensor e) (ev_size e) t)"

fun run_events :: "view_env \<Rightarrow> l1_event list \<Rightarrow> tracker \<Rightarrow> tracker option" where
  "run_events env [] t = Some t"
| "run_events env (e # es) t = (case run_event env e t of None \<Rightarrow> None | Some t' \<Rightarrow> run_events env es t')"

lemma run_events_append:
  "run_events env (xs @ ys) t = (case run_events env xs t of None \<Rightarrow> None | Some t' \<Rightarrow> run_events env ys t')"
  by (induction xs arbitrary: t) (simp_all split: option.split)

definition addressed_alloc :: "l1_event \<Rightarrow> bool" where
  "addressed_alloc e \<longleftrightarrow> \<not> ev_skipped e \<and> ev_kind e = Alloc"

text \<open>The loop computes the run, and leaves before every replayed allocation the snapshot of the
  run so far.\<close>

lemma replay_loop_run:
  "replay_loop env i es sn t = Some (ok, sn', t') \<Longrightarrow>
     (ok \<longrightarrow> run_events env es t = Some t') \<and> (\<not> ok \<longrightarrow> run_events env es t = None) \<and>
     (\<forall>k. (k < i \<or> (i \<le> k \<and> k < i + length es \<and> \<not> addressed_alloc (es ! (k - i)))) \<longrightarrow> sn' k = sn k) \<and>
     (ok \<longrightarrow> (\<forall>j<length es. addressed_alloc (es ! j) \<longrightarrow>
        (\<exists>u. run_events env (take j es) t = Some u \<and> sn' (i + j) = Some (takeSnapshot u))))"
proof (induction es arbitrary: i sn t)
  case Nil
  then show ?case by simp
next
  case (Cons e es)
  have split_first: "(\<forall>j<length (e # es). P j) \<longleftrightarrow> P 0 \<and> (\<forall>j<length es. P (Suc j))" for P
    by (auto simp: less_Suc_eq_0_disj)
  have step: ?case
    if ev: "run_event env e t = Some u"
      and loop: "replay_loop env (Suc i) es sn1 u = Some (ok, sn', t')"
      and sn1: "\<And>k. k \<noteq> i \<Longrightarrow> sn1 k = sn k" "addressed_alloc e \<Longrightarrow> sn1 i = Some (takeSnapshot t)"
        "\<not> addressed_alloc e \<Longrightarrow> sn1 i = sn i" for u sn1
  proof -
    note IH = Cons.IH [OF loop]
    have at_i: "sn' i = sn1 i" using IH by simp
    have "sn' k = sn k" if "k < i \<or> (i \<le> k \<and> k < i + length (e # es) \<and> \<not> addressed_alloc ((e # es) ! (k - i)))" for k
    proof (cases "k = i")
      case True
      with that sn1(3) at_i show ?thesis by simp
    next
      case False
      with that have "k < Suc i \<or> (Suc i \<le> k \<and> k < Suc i + length es \<and> \<not> addressed_alloc (es ! (k - Suc i)))"
        by (cases "k < i") (auto simp: nth_Cons' Suc_diff_Suc)
      with IH have "sn' k = sn1 k" by blast
      with sn1(1) [OF False] show ?thesis by simp
    qed
    with IH ev at_i sn1(2) show ?thesis unfolding split_first by auto
  qed
  show ?case
  proof (cases "ev_skipped e")
    case True
    with Cons.prems show ?thesis
      by (intro step [of t sn]) (simp_all add: run_event_def addressed_alloc_def)
  next
    case live: False
    show ?thesis
    proof (cases "ev_kind e = Dealloc")
      case True
      with live Cons.prems obtain u where "freeAddress (ev_tensor e) t = Some u"
        "replay_loop env (Suc i) es sn u = Some (ok, sn', t')" by (auto split: option.splits)
      with True live show ?thesis
        by (intro step [of u sn]) (simp_all add: run_event_def addressed_alloc_def)
    next
      case False
      then have alloc: "ev_kind e = Alloc" by (cases "ev_kind e") simp_all
      let ?sn = "sn(i \<mapsto> takeSnapshot t)"
      show ?thesis
      proof (cases "\<not> aliases_source env (ev_tensor e) t \<and> wouldAllocateAt (ev_size e) t = None")
        case True
        with live alloc Cons.prems have res: "ok = False" "sn' = ?sn" by (auto simp: Let_def)
        have none: "run_event env e t = None" using True live alloc by (simp add: run_event_def)
        have "sn' k = sn k" if "k < i \<or> (i \<le> k \<and> k < i + length (e # es) \<and> \<not> addressed_alloc ((e # es) ! (k - i)))" for k
          using that live alloc by (auto simp: res addressed_alloc_def)
        with none res show ?thesis by simp
      next
        case False
        with live alloc Cons.prems obtain u where "run_event env e t = Some u"
          "replay_loop env (Suc i) es ?sn u = Some (ok, sn', t')"
          by (auto simp: Let_def run_event_def split: option.splits if_splits)
        then show ?thesis
          using live alloc by (intro step [of u ?sn]) (simp_all add: addressed_alloc_def)
      qed
    qed
  qed
qed

section \<open>Trackers that differ in sizes only\<close>

abbreviation with_sizes :: "(tensor \<times> nat) list \<Rightarrow> tracker \<Rightarrow> tracker" where
  "with_sizes x t \<equiv> t\<lparr>tr_sizes := x\<rparr>"

lemma run_event_sizes: "run_event env e (with_sizes x t) = map_option (with_sizes x) (run_event env e t)"
  by (simp add: run_event_def freeAddress_def allocateAddressAt_def allocateAddress_def wouldAllocateAt_def
      aliases_source_def hasTensorAddress_def Let_def split: option.split)

lemma run_events_sizes: "run_events env es (with_sizes x t) = map_option (with_sizes x) (run_events env es t)"
  by (induction es arbitrary: t) (simp_all add: run_event_sizes split: option.split)

lemma run_event_budget: "run_event env e t = Some t' \<Longrightarrow> tr_budget t' = tr_budget t"
  by (auto simp: run_event_def freeAddress_def allocateAddressAt_def allocateAddress_def Let_def
      split: option.splits if_splits prod.splits)

lemma run_events_budget: "run_events env es t = Some t' \<Longrightarrow> tr_budget t' = tr_budget t"
  by (induction es arbitrary: t) (auto dest: run_event_budget split: option.splits)

lemma restore_take:
  "tr_budget t = tr_budget u \<Longrightarrow> restoreSnapshot (takeSnapshot u) t = with_sizes (tr_sizes t) u"
  by (simp add: restoreSnapshot_def takeSnapshot_def)

lemma takeSnapshot_sizes [simp]: "takeSnapshot (with_sizes x t) = takeSnapshot t"
  by (simp add: takeSnapshot_def)

lemma same_snapshot:
  "takeSnapshot t = takeSnapshot u \<Longrightarrow> tr_budget t = tr_budget u \<Longrightarrow> t = with_sizes (tr_sizes t) u"
  by (cases t; cases u) (simp add: takeSnapshot_def)

section \<open>Consistent logs\<close>

definition empty_tracker :: "nat \<Rightarrow> tracker" where
  "empty_tracker B = \<lparr>tr_budget = B, tr_occupied = 0, tr_sizes = [],
     tr_free = [\<lparr>fb_start = 0, fb_end = B\<rparr>], tr_addr = [], tr_groups = []\<rparr>"

text \<open>The snapshot at \<open>i\<close> is the state before event \<open>i\<close>.\<close>

definition snap_ok :: "view_env \<Rightarrow> nat \<Rightarrow> spill_log \<Rightarrow> nat \<Rightarrow> bool" where
  "snap_ok env B L i \<longleftrightarrow> (\<exists>u. run_events env (take i (lg_events L)) (empty_tracker B) = Some u \<and>
     lg_snaps L i = Some (takeSnapshot u))"

definition index_ok :: "spill_log \<Rightarrow> bool" where
  "index_ok L \<longleftrightarrow> (\<forall>v i. lg_index L v = Some i \<longrightarrow> i < length (lg_events L) \<and>
     ev_kind (lg_events L ! i) = Alloc \<and> ev_tensor (lg_events L ! i) = v)"

text \<open>The tracker is what running the whole log from an empty tracker gives, and every live
  allocation has its snapshot.\<close>

definition log_consistent :: "view_env \<Rightarrow> nat \<Rightarrow> spill_log \<Rightarrow> bool" where
  "log_consistent env B L \<longleftrightarrow> tr_budget (lg_tracker L) = B \<and> index_ok L \<and>
     (\<exists>u. run_events env (lg_events L) (empty_tracker B) = Some u \<and> takeSnapshot (lg_tracker L) = takeSnapshot u) \<and>
     (\<forall>i<length (lg_events L). addressed_alloc (lg_events L ! i) \<longrightarrow> snap_ok env B L i)"

text \<open>What holds during an eviction campaign, also after a replay that failed: the snapshots up
  to \<open>k\<close> are right.\<close>

definition prefix_ok :: "view_env \<Rightarrow> nat \<Rightarrow> spill_log \<Rightarrow> nat \<Rightarrow> bool" where
  "prefix_ok env B L k \<longleftrightarrow> tr_budget (lg_tracker L) = B \<and> index_ok L \<and>
     (\<forall>i<length (lg_events L). i \<le> k \<longrightarrow> ev_kind (lg_events L ! i) = Alloc \<longrightarrow>
        \<not> ev_skipped (lg_events L ! i) \<or> i = k \<longrightarrow> snap_ok env B L i)"

lemma snap_ok_cong:
  "take i (lg_events L') = take i (lg_events L) \<Longrightarrow> lg_snaps L' i = lg_snaps L i \<Longrightarrow>
     snap_ok env B L' i = snap_ok env B L i"
  by (simp add: snap_ok_def)

section \<open>Inserting an event\<close>

lemma nth_insert_at:
  assumes "pos \<le> length xs" "i < Suc (length xs)"
  shows "insert_at pos x xs ! i = (if i < pos then xs ! i else if i = pos then x else xs ! (i - 1))"
  using assms by (auto simp: insert_at_def nth_append min_def nth_Cons' Suc_diff_Suc)

lemma length_insert_at [simp]: "pos \<le> length xs \<Longrightarrow> length (insert_at pos x xs) = Suc (length xs)"
  by (simp add: insert_at_def)

lemma take_insert_at: "k \<le> pos \<Longrightarrow> pos \<le> length xs \<Longrightarrow> take k (insert_at pos x xs) = take k xs"
  by (simp add: insert_at_def min_def)

lemma insert_index_ok:
  "index_ok L \<Longrightarrow> pos \<le> length (lg_events L) \<Longrightarrow> index_ok (insertEventIntoLog pos e L)"
  unfolding index_ok_def insertEventIntoLog_def shift_index_def
  by (auto simp: nth_insert_at)

lemma insert_prefix_ok:
  assumes "prefix_ok env B L k" "k < pos" "pos \<le> length (lg_events L)"
  shows "prefix_ok env B (insertEventIntoLog pos e L) k"
proof -
  let ?L = "insertEventIntoLog pos e L"
  have "snap_ok env B ?L i" if "i < length (lg_events ?L)" "i \<le> k" "ev_kind (lg_events ?L ! i) = Alloc"
      "\<not> ev_skipped (lg_events ?L ! i) \<or> i = k" for i
  proof -
    have "i < pos" using that(2) assms(2) by simp
    then have "lg_events ?L ! i = lg_events L ! i" "i < length (lg_events L)"
      using that(1) assms(3) by (simp_all add: insertEventIntoLog_def nth_insert_at)
    with assms(1) that have "snap_ok env B L i" by (simp add: prefix_ok_def)
    with \<open>i < pos\<close> assms(3) show ?thesis
      by (subst snap_ok_cong [where L = L]) (simp_all add: insertEventIntoLog_def take_insert_at)
  qed
  moreover have "index_ok ?L" using assms by (simp add: prefix_ok_def insert_index_ok)
  ultimately show ?thesis using assms(1) by (simp add: prefix_ok_def insertEventIntoLog_def)
qed

section \<open>Evicting\<close>

lemma length_skip_dealloc [simp]: "length (skip_dealloc v es) = length es"
  by (induction es) simp_all

lemma skip_dealloc_nth:
  "j < length es \<Longrightarrow> ev_kind (skip_dealloc v es ! j) = ev_kind (es ! j) \<and>
     ev_tensor (skip_dealloc v es ! j) = ev_tensor (es ! j) \<and>
     (ev_kind (es ! j) = Alloc \<longrightarrow> skip_dealloc v es ! j = es ! j)"
  by (induction es arbitrary: j) (auto simp: nth_Cons')

lemma mark_evicted_nth:
  assumes "i < length es" "j < length es"
  shows "ev_kind (mark_evicted v i es ! j) = ev_kind (es ! j)"
    "ev_tensor (mark_evicted v i es ! j) = ev_tensor (es ! j)"
    "j < i \<Longrightarrow> mark_evicted v i es ! j = es ! j"
    "ev_kind (es ! j) = Alloc \<Longrightarrow> j \<noteq> i \<Longrightarrow> mark_evicted v i es ! j = es ! j"
    "ev_skipped (mark_evicted v i es ! i)"
  using assms skip_dealloc_nth [of "j - Suc i" "drop (Suc i) es" v]
  by (auto simp: mark_evicted_def nth_append nth_Cons' min_def Suc_diff_Suc not_less)

lemma length_mark_evicted [simp]: "i < length es \<Longrightarrow> length (mark_evicted v i es) = length es"
  by (simp add: mark_evicted_def)

lemma take_mark_evicted: "k \<le> i \<Longrightarrow> i < length es \<Longrightarrow> take k (mark_evicted v i es) = take k es"
  by (simp add: mark_evicted_def min_def)

text \<open>Replaying from a position whose snapshot is right rebuilds the whole log's state.\<close>

lemma replayFrom_run:
  assumes snap: "snap_ok env B L k" and budget: "tr_budget (lg_tracker L) = B"
    and start: "k < length (lg_events L)" "\<not> addressed_alloc (lg_events L ! k)"
    and res: "replayFrom env k L = Some (ok, L')"
  shows "lg_events L' = lg_events L" "lg_index L' = lg_index L" "tr_budget (lg_tracker L') = B"
    "\<And>i. i \<le> k \<Longrightarrow> lg_snaps L' i = lg_snaps L i"
    "\<not> ok \<Longrightarrow> run_events env (lg_events L) (empty_tracker B) = None"
    "ok \<Longrightarrow> \<exists>u. run_events env (lg_events L) (empty_tracker B) = Some u \<and> takeSnapshot (lg_tracker L') = takeSnapshot u"
    "\<And>i. ok \<Longrightarrow> k \<le> i \<Longrightarrow> i < length (lg_events L) \<Longrightarrow> addressed_alloc (lg_events L ! i) \<Longrightarrow> snap_ok env B L' i"
proof -
  let ?es = "lg_events L"
  obtain u where u: "run_events env (take k ?es) (empty_tracker B) = Some u" "lg_snaps L k = Some (takeSnapshot u)"
    using snap by (auto simp: snap_ok_def)
  have "tr_budget u = B" using run_events_budget [OF u(1)] by (simp add: empty_tracker_def)
  then have restore: "restoreSnapshot (takeSnapshot u) (lg_tracker L) = with_sizes (tr_sizes (lg_tracker L)) u"
    using budget by (intro restore_take) simp
  let ?x = "tr_sizes (lg_tracker L)"
  obtain sn t where loop: "replay_loop env k (drop k ?es) (lg_snaps L) (with_sizes ?x u) = Some (ok, sn, t)"
    and L': "L' = L\<lparr>lg_snaps := sn, lg_tracker := t\<rparr>"
    using res u(2) restore by (auto simp: replayFrom_def split: option.splits)
  note run = replay_loop_run [OF loop]
  show "lg_events L' = ?es" "lg_index L' = lg_index L" by (simp_all add: L')
  show "lg_snaps L' i = lg_snaps L i" if "i \<le> k" for i
  proof (cases "i < k")
    case True
    with run show ?thesis by (simp add: L')
  next
    case False
    with that have "i = k" by simp
    with run start show ?thesis by (simp add: L')
  qed
  have whole: "run_events env ?es (empty_tracker B) = run_events env (drop k ?es) u"
    using u(1) run_events_append [of env "take k ?es" "drop k ?es" "empty_tracker B"] by simp
  have sized: "run_events env (drop k ?es) (with_sizes ?x u) = map_option (with_sizes ?x) (run_events env (drop k ?es) u)"
    by (rule run_events_sizes)
  show "run_events env ?es (empty_tracker B) = None" if "\<not> ok"
    using run that sized whole by simp
  show "\<exists>u. run_events env ?es (empty_tracker B) = Some u \<and> takeSnapshot (lg_tracker L') = takeSnapshot u" if ok
  proof -
    from run that sized obtain w where "run_events env (drop k ?es) u = Some w" "t = with_sizes ?x w" by auto
    with whole show ?thesis by (simp add: L')
  qed
  show "tr_budget (lg_tracker L') = B"
  proof -
    have "tr_budget t' = tr_budget v" if "replay_loop env i es sn0 v = Some (b, sn', t')" for i es sn0 v b sn' t'
      using that
    proof (induction es arbitrary: i sn0 v)
      case Nil
      then show ?case by simp
    next
      case (Cons e es)
      then show ?case
        by (auto simp: Let_def freeAddress_def allocateAddressAt_def allocateAddress_def
            split: if_splits option.splits prod.splits)
    qed
    from this [OF loop] \<open>tr_budget u = B\<close> show ?thesis by (simp add: L')
  qed
  show "snap_ok env B L' i" if "ok" "k \<le> i" "i < length ?es" "addressed_alloc (?es ! i)" for i
  proof -
    have "i - k < length (drop k ?es)" "addressed_alloc (drop k ?es ! (i - k))" using that by simp_all
    with run that(1) obtain w where w: "run_events env (take (i - k) (drop k ?es)) (with_sizes ?x u) = Some w"
      "sn (k + (i - k)) = Some (takeSnapshot w)" by blast
    then obtain w' where w': "run_events env (take (i - k) (drop k ?es)) u = Some w'" "w = with_sizes ?x w'"
      by (auto simp: run_events_sizes)
    have "take i ?es = take k ?es @ take (i - k) (drop k ?es)" using that(2) by (metis le_add_diff_inverse take_add)
    then have "run_events env (take i ?es) (empty_tracker B) = Some w'"
      using u(1) w'(1) by (simp add: run_events_append)
    with w(2) w'(2) that(2) show ?thesis by (simp add: snap_ok_def L')
  qed
qed

text \<open>One eviction of a live victim.\<close>

lemma evict_step:
  assumes pre: "prefix_ok env B L (min m i)" and idx: "lg_index L victim = Some i"
    and skipped: "m < i \<Longrightarrow> ev_kind (lg_events L ! m) = Alloc \<and> ev_skipped (lg_events L ! m)"
    and res: "markEvictedAndRebuild env victim m L = Some (ok, m', L')"
  shows "m' = min m i" "prefix_ok env B L' m'" "ok \<Longrightarrow> log_consistent env B L'"
    "\<not> ok \<Longrightarrow> run_events env (lg_events L') (empty_tracker B) = None"
    "ev_skipped (lg_events L' ! m')" "ev_kind (lg_events L' ! m') = Alloc"
    "lg_events L' = mark_evicted victim i (lg_events L)"
proof -
  let ?k = "min m i" and ?L = "L\<lparr>lg_events := mark_evicted victim i (lg_events L)\<rparr>"
  have io: "index_ok L" and budget: "tr_budget (lg_tracker L) = B" using pre by (simp_all add: prefix_ok_def)
  have i: "i < length (lg_events L)" "ev_kind (lg_events L ! i) = Alloc" using io idx by (auto simp: index_ok_def)
  have replay: "replayFrom env ?k ?L = Some (ok, L')" and m': "m' = ?k"
    using res idx by (auto simp: markEvictedAndRebuild_def Let_def split: option.splits)
  then show "m' = ?k" by simp
  have k: "?k < length (lg_events L)" "?k \<le> i" using i by auto
  have kind: "ev_kind (lg_events L ! ?k) = Alloc"
    using i skipped by (cases "m < i") (auto simp: min_def)
  have mark: "ev_skipped (mark_evicted victim i (lg_events L) ! ?k)"
  proof (cases "m < i")
    case True
    with skipped mark_evicted_nth(3) [OF i(1) k(1)] show ?thesis by (simp add: min_def)
  next
    case False
    with mark_evicted_nth(5) [OF i(1) i(1)] show ?thesis by (simp add: min_def)
  qed
  have "snap_ok env B L ?k" using pre k kind by (simp add: prefix_ok_def)
  then have snap: "snap_ok env B ?L ?k"
    using take_mark_evicted [OF k(2) i(1)] by (subst snap_ok_cong [where L = L]) simp_all
  have start: "?k < length (lg_events ?L)" "\<not> addressed_alloc (lg_events ?L ! ?k)"
    using k i mark by (simp_all add: addressed_alloc_def)
  have "tr_budget (lg_tracker ?L) = B" using budget by simp
  note run = replayFrom_run [OF snap this start replay]
  show ev: "lg_events L' = mark_evicted victim i (lg_events L)" using run(1) by simp
  show "ev_skipped (lg_events L' ! m')" using mark by (simp add: ev m')
  show "ev_kind (lg_events L' ! m') = Alloc" using mark_evicted_nth(1) [OF i(1) k(1)] kind by (simp add: ev m')
  show "\<not> ok \<Longrightarrow> run_events env (lg_events L') (empty_tracker B) = None" using run(5) by (simp add: ev)
  have io': "index_ok L'"
    using io mark_evicted_nth [OF i(1)] i(1) by (simp add: index_ok_def ev run(2))
  have low: "snap_ok env B L' j" if "j < length (lg_events L)" "j \<le> ?k" "ev_kind (lg_events L ! j) = Alloc"
      "\<not> ev_skipped (lg_events L ! j) \<or> j = ?k" for j
  proof -
    have "snap_ok env B L j" using pre that by (simp add: prefix_ok_def)
    moreover have "take j (lg_events L') = take j (lg_events L)"
      unfolding ev using that(2) k(2) i(1) by (intro take_mark_evicted) simp_all
    ultimately show ?thesis using run(4) [OF that(2)] by (subst snap_ok_cong [where L = L]) simp_all
  qed
  have unmarked: "\<not> ev_skipped (lg_events L ! j) \<or> j = ?k"
    if "j < length (lg_events L)" "j \<le> ?k" "\<not> ev_skipped (lg_events L' ! j) \<or> j = ?k" for j
  proof (cases "j = ?k")
    case False
    with that(2) k(2) have "j < i" by linarith
    with mark_evicted_nth(3) [OF i(1) that(1)] that(3) False show ?thesis by (simp add: ev)
  qed simp
  have "snap_ok env B L' j" if "j < length (lg_events L')" "j \<le> m'" "ev_kind (lg_events L' ! j) = Alloc"
      "\<not> ev_skipped (lg_events L' ! j) \<or> j = m'" for j
  proof -
    have j: "j < length (lg_events L)" "j \<le> ?k" using that(1,2) i(1) by (simp_all add: ev m')
    have "ev_kind (lg_events L ! j) = Alloc" using that(3) mark_evicted_nth(1) [OF i(1) j(1)] by (simp add: ev)
    moreover have "\<not> ev_skipped (lg_events L ! j) \<or> j = ?k" using that(4) by (intro unmarked j) (simp add: m')
    ultimately show ?thesis by (intro low j)
  qed
  with io' run(3) show "prefix_ok env B L' m'" unfolding prefix_ok_def by blast
  show "log_consistent env B L'" if ok
  proof -
    have "snap_ok env B L' j" if j: "j < length (lg_events L)" "addressed_alloc (lg_events L' ! j)" for j
    proof (cases "?k \<le> j")
      case True
      with run(7) [OF \<open>ok\<close> True] j i(1) show ?thesis by (simp add: ev)
    next
      case False
      then have below: "j \<le> ?k" by linarith
      have "ev_kind (lg_events L ! j) = Alloc" "\<not> ev_skipped (lg_events L' ! j)"
        using j(2) mark_evicted_nth(1) [OF i(1) j(1)] by (simp_all add: ev addressed_alloc_def)
      then show ?thesis using unmarked [OF j(1) below] by (intro low j(1) below) simp_all
    qed
    then show ?thesis
      using io' run(3) run(6) [OF that] i(1) by (simp add: log_consistent_def ev)
  qed
qed

section \<open>The sweep keeps the log consistent\<close>

lemma run_event_of_snapshot:
  assumes "takeSnapshot t = takeSnapshot u" "tr_budget t = tr_budget u" "run_event env e t = Some t'"
  shows "\<exists>u'. run_event env e u = Some u' \<and> takeSnapshot t' = takeSnapshot u'"
proof -
  have t: "t = with_sizes (tr_sizes t) u" by (rule same_snapshot [OF assms(1,2)])
  have "run_event env e (with_sizes (tr_sizes t) u) = Some t'" using assms(3) t by simp
  then show ?thesis by (auto simp: run_event_sizes)
qed

lemma log_append:
  assumes con: "log_consistent env B L" and ev: "run_event env e (lg_tracker L) = Some t"
    and L': "lg_events L' = lg_events L @ [e]" "takeSnapshot (lg_tracker L') = takeSnapshot t" "tr_budget (lg_tracker L') = B"
      "index_ok L'" "\<And>i. i < length (lg_events L) \<Longrightarrow> lg_snaps L' i = lg_snaps L i"
      "addressed_alloc e \<Longrightarrow> lg_snaps L' (length (lg_events L)) = Some (takeSnapshot (lg_tracker L))"
  shows "log_consistent env B L'"
proof -
  obtain u where u: "run_events env (lg_events L) (empty_tracker B) = Some u" "takeSnapshot (lg_tracker L) = takeSnapshot u"
    using con by (auto simp: log_consistent_def)
  have "tr_budget (lg_tracker L) = tr_budget u"
    using con run_events_budget [OF u(1)] by (simp add: log_consistent_def empty_tracker_def)
  from run_event_of_snapshot [OF u(2) this ev] obtain u' where u': "run_event env e u = Some u'" "takeSnapshot t = takeSnapshot u'"
    by blast
  have "run_events env (lg_events L') (empty_tracker B) = Some u'"
    using u(1) u'(1) by (simp add: L'(1) run_events_append)
  moreover have "snap_ok env B L' i" if "i < length (lg_events L')" "addressed_alloc (lg_events L' ! i)" for i
  proof (cases "i < length (lg_events L)")
    case True
    with that con have "snap_ok env B L i" by (simp add: log_consistent_def L'(1) nth_append)
    with True L'(1,5) show ?thesis by (subst snap_ok_cong [where L = L]) simp_all
  next
    case False
    with that(1) have i: "i = length (lg_events L)" by (simp add: L'(1))
    with that(2) L'(1,6) u show ?thesis by (simp add: snap_ok_def)
  qed
  ultimately show ?thesis using L'(2-4) u'(2) by (simp add: log_consistent_def)
qed

lemma allocate_would: "allocateAddress v sz t = Some t' \<Longrightarrow> wouldAllocateAt sz t \<noteq> None"
  by (auto simp: allocateAddress_def wouldAllocateAt_def Let_def split: option.splits if_splits)

lemma commit_event:
  assumes "(if aliases_source env v t then addTensorAtAddress v sz (view_source env v) t else addTensor v sz t) = Some t'"
  shows "\<exists>t''. run_event env \<lparr>ev_kind = Alloc, ev_tensor = v, ev_size = sz, ev_skipped = False\<rparr> t = Some t'' \<and>
    takeSnapshot t' = takeSnapshot t''"
proof (cases "aliases_source env v t")
  case True
  with assms show ?thesis
    by (auto simp: run_event_def addTensorAtAddress_def split: option.splits)
next
  case False
  let ?t = "with_sizes (AList.update v sz (tr_sizes t)) t"
  let ?e = "\<lparr>ev_kind = Alloc, ev_tensor = v, ev_size = sz, ev_skipped = False\<rparr>"
  have alloc: "allocateAddress v sz ?t = Some t'" using assms False by (simp add: addTensor_def)
  have "aliases_source env v ?t = aliases_source env v t" by (simp add: aliases_source_def hasTensorAddress_def)
  then have "run_event env ?e ?t = Some t'"
    using alloc allocate_would [OF alloc] False by (simp add: run_event_def)
  then show ?thesis by (auto simp: run_event_sizes)
qed

lemma index_ok_append:
  assumes "index_ok L" "lg_events L' = lg_events L @ [e]"
    "\<And>w i. lg_index L' w = Some i \<Longrightarrow> lg_index L w = Some i \<or>
       (i = length (lg_events L) \<and> ev_kind e = Alloc \<and> ev_tensor e = w)"
  shows "index_ok L'"
  unfolding index_ok_def
proof (intro allI impI)
  fix w i
  assume "lg_index L' w = Some i"
  from assms(3) [OF this] show "i < length (lg_events L') \<and> ev_kind (lg_events L' ! i) = Alloc \<and> ev_tensor (lg_events L' ! i) = w"
    using assms(1) unfolding index_ok_def assms(2)
    by (metis length_append_singleton less_Suc_eq nth_append nth_append_length)
qed

lemma commit_consistent:
  assumes con: "log_consistent env B L" and res: "commitAllocation env lastUse v sz L = Some L'"
  shows "log_consistent env B L'"
proof -
  let ?n = "length (lg_events L)" and ?e = "\<lparr>ev_kind = Alloc, ev_tensor = v, ev_size = sz, ev_skipped = False\<rparr>"
  from res obtain lu t' where t': "(if aliases_source env v (lg_tracker L)
      then addTensorAtAddress v sz (view_source env v) (lg_tracker L) else addTensor v sz (lg_tracker L)) = Some t'"
    and L': "L' = L\<lparr>lg_index := (lg_index L)(v \<mapsto> ?n), lg_snaps := (lg_snaps L)(?n \<mapsto> takeSnapshot (lg_tracker L)),
      lg_events := lg_events L @ [?e], lg_tracker := t', lg_live := insert v (lg_live L),
      lg_heap := insert_by later_use (lu, v) (lg_heap L)\<rparr>"
    unfolding commitAllocation_def by (auto simp: Let_def split: option.splits)
  from commit_event [OF t'] obtain t'' where ev: "run_event env ?e (lg_tracker L) = Some t''" "takeSnapshot t' = takeSnapshot t''"
    by blast
  have "tr_budget t' = B"
    using t' con by (auto simp: log_consistent_def addTensorAtAddress_def addTensor_def allocateAddressAt_def
        allocateAddress_def Let_def split: if_splits option.splits)
  moreover have "index_ok L'"
    by (rule index_ok_append [where L = L and e = ?e])
      (use con in \<open>auto simp: log_consistent_def L' split: if_splits\<close>)
  ultimately show ?thesis
    using ev by (intro log_append [OF con ev(1)]) (simp_all add: L')
qed

lemma processDead_consistent:
  assumes "log_consistent env B L" "processDead vs L = Some L'"
  shows "log_consistent env B L'"
  using assms
proof (induction vs arbitrary: L)
  case Nil
  then show ?case by simp
next
  case (Cons v vs)
  show ?case
  proof (cases "v \<in> lg_live L")
    case False
    with Cons show ?thesis by simp
  next
    case True
    let ?e = "\<lparr>ev_kind = Dealloc, ev_tensor = v, ev_size = 0, ev_skipped = False\<rparr>"
    from True Cons.prems(2) obtain t' where t': "removeTensor v (lg_tracker L) = Some t'"
      and rest: "processDead vs (L\<lparr>lg_live := lg_live L - {v}, lg_tracker := t', lg_events := lg_events L @ [?e]\<rparr>) = Some L'"
      by (auto split: option.splits)
    have "run_event env ?e (with_sizes (AList.delete v (tr_sizes (lg_tracker L))) (lg_tracker L)) = Some t'"
      using t' by (simp add: run_event_def removeTensor_def removeTensorFromSizes_def)
    then obtain t'' where ev: "run_event env ?e (lg_tracker L) = Some t''" "takeSnapshot t' = takeSnapshot t''" "tr_budget t' = tr_budget t''"
      by (auto simp: run_event_sizes)
    have "tr_budget t' = B"
      using ev run_event_budget [OF ev(1)] Cons.prems(1) by (simp add: log_consistent_def)
    moreover have "index_ok (L\<lparr>lg_live := lg_live L - {v}, lg_tracker := t', lg_events := lg_events L @ [?e]\<rparr>)"
      by (rule index_ok_append [where L = L and e = ?e]) (use Cons.prems(1) in \<open>simp_all add: log_consistent_def\<close>)
    ultimately have "log_consistent env B (L\<lparr>lg_live := lg_live L - {v}, lg_tracker := t', lg_events := lg_events L @ [?e]\<rparr>)"
      using ev by (intro log_append [OF Cons.prems(1) ev(1)]) (simp_all add: addressed_alloc_def)
    then show ?thesis using rest by (rule Cons.IH)
  qed
qed

end
