(* ===== verification/SpillProps.thy ===== *)
theory SpillProps
  imports SpillLog
begin

text \<open>
  Eviction campaigns over the event log (\<open>evictUntil\<close>, \<open>evictValue\<close> in
  lib/Dialect/TTNN/Analysis/L1SpillManagement.cpp) and the properties of the spill log.
\<close>

section \<open>Campaigns\<close>

text \<open>
  One campaign evicts a list of victims. Evicting a victim rewires its consumers: a view of it reads the
  spilled value or a reshard afterwards, so each victim comes with the views of the IR after its rewiring.
  Before a victim is marked, events of the reshards of its past consumers are inserted behind its
  allocation. The smallest evicted index is carried along, and a replay that fails is followed by the
  next eviction.
\<close>

type_synonym eviction = "(nat \<times> l1_event) list \<times> view_env \<times> tensor"

definition insert_events :: "(nat \<times> l1_event) list \<Rightarrow> spill_log \<Rightarrow> spill_log" where
  "insert_events ins L = fold (\<lambda>(pos, e). insertEventIntoLog pos e) ins L"

fun run_campaign :: "eviction list \<Rightarrow> nat \<Rightarrow> spill_log \<Rightarrow> (bool \<times> nat \<times> spill_log) option" where
  "run_campaign [] m L = Some (True, m, L)"
| "run_campaign [(ins, env, v)] m L = markEvictedAndRebuild env v m (insert_events ins L)"
| "run_campaign ((ins, env, v) # w # vs) m L =
     (case markEvictedAndRebuild env v m (insert_events ins L) of
        None \<Rightarrow> None
      | Some (ok, m', L') \<Rightarrow> run_campaign (w # vs) m' L')"

text \<open>The views after a campaign.\<close>

definition campaign_views :: "view_env \<Rightarrow> eviction list \<Rightarrow> view_env" where
  "campaign_views env vs = (if vs = [] then env else fst (snd (last vs)))"

definition same_views :: "view_env \<Rightarrow> view_env \<Rightarrow> l1_event list \<Rightarrow> bool" where
  "same_views env env' es \<longleftrightarrow>
     list_all (\<lambda>e. is_view env (ev_tensor e) = is_view env' (ev_tensor e) \<and>
       view_source env (ev_tensor e) = view_source env' (ev_tensor e)) es"

text \<open>The victims are live, the inserted events come behind their allocations, and so do the consumers
  that are rewired.\<close>

definition victim_ok :: "view_env \<Rightarrow> eviction \<Rightarrow> spill_log \<Rightarrow> bool" where
  "victim_ok env iv L \<longleftrightarrow> (case lg_index L (snd (snd iv)) of
     None \<Rightarrow> False
   | Some i \<Rightarrow> \<not> ev_skipped (lg_events L ! i) \<and> same_views env (fst (snd iv)) (take i (lg_events L)) \<and>
       list_all (\<lambda>(pos, e). i < pos \<and> pos \<le> length (lg_events L)) (fst iv))"

fun campaign_ok :: "view_env \<Rightarrow> eviction list \<Rightarrow> nat \<Rightarrow> spill_log \<Rightarrow> bool" where
  "campaign_ok env [] m L \<longleftrightarrow> True"
| "campaign_ok env ((ins, env', v) # vs) m L \<longleftrightarrow> victim_ok env (ins, env', v) L \<and>
     (case markEvictedAndRebuild env' v m (insert_events ins L) of
        None \<Rightarrow> True
      | Some (ok, m', L') \<Rightarrow> campaign_ok env' vs m' L')"

section \<open>Flushing L1\<close>

text \<open>Before an operation that the backend cannot validate every live value is spilled, in the order in
  which the set of live values is iterated.\<close>

fun removeTensors :: "tensor list \<Rightarrow> tracker \<Rightarrow> tracker option" where
  "removeTensors [] t = Some t"
| "removeTensors (v # vs) t = (case removeTensor v t of None \<Rightarrow> None | Some t' \<Rightarrow> removeTensors vs t')"

definition evictAllFromL1 :: "tensor list \<Rightarrow> nat \<Rightarrow> spill_log \<Rightarrow> spill_log option" where
  "evictAllFromL1 live budget L =
     (case removeTensors live (lg_tracker L) of
        None \<Rightarrow> None
      | Some t \<Rightarrow> Some (L\<lparr>lg_live := {}, lg_events := map (\<lambda>e. e\<lparr>ev_skipped := True\<rparr>) (lg_events L),
          lg_tracker := tracker_init budget t\<rparr>))"

section \<open>Views that change\<close>

lemma same_views_run: "same_views env env' es \<Longrightarrow> run_events env es t = run_events env' es t"
proof (induction es arbitrary: t)
  case (Cons e es)
  then have "run_event env e t = run_event env' e t" for t
    by (simp add: same_views_def run_event_def aliases_source_def)
  then show ?case using Cons by (simp add: same_views_def split: option.split)
qed simp

lemma same_views_take: "same_views env env' (take k es) \<Longrightarrow> i \<le> k \<Longrightarrow> same_views env env' (take i es)"
  by (auto simp: same_views_def list_all_length)

lemma prefix_ok_views:
  assumes "prefix_ok env B L k" "same_views env env' (take k (lg_events L))"
  shows "prefix_ok env' B L k"
proof -
  have "snap_ok env B L i = snap_ok env' B L i" if "i \<le> k" for i
    using same_views_run [OF same_views_take [OF assms(2) that]] by (simp add: snap_ok_def)
  then show ?thesis using assms(1) by (auto simp: prefix_ok_def)
qed

lemma consistent_views:
  assumes "log_consistent env B L" "same_views env env' (lg_events L)"
  shows "log_consistent env' B L"
proof -
  have v: "same_views env env' (take i (lg_events L))" for i
    using same_views_take [of env env' "length (lg_events L)" "lg_events L" i] assms(2) by (cases "i \<le> length (lg_events L)") simp_all
  have "snap_ok env B L i = snap_ok env' B L i" for i using same_views_run [OF v] by (simp add: snap_ok_def)
  then show ?thesis using assms same_views_run [OF assms(2)] by (simp add: log_consistent_def)
qed

lemma flush_consistent:
  assumes "log_consistent env B L" "evictAllFromL1 live B L = Some L'"
  shows "log_consistent env' B L'"
proof -
  obtain t where L': "L' = L\<lparr>lg_live := {}, lg_events := map (\<lambda>e. e\<lparr>ev_skipped := True\<rparr>) (lg_events L), lg_tracker := tracker_init B t\<rparr>"
    using assms(2) by (auto simp: evictAllFromL1_def split: option.splits)
  have "run_events env' (map (\<lambda>e. e\<lparr>ev_skipped := True\<rparr>) es) t = Some t" for es t
    by (induction es) (simp_all add: run_event_def)
  then show ?thesis
    using assms(1) by (auto simp: log_consistent_def L' index_ok_def addressed_alloc_def tracker_init_def empty_tracker_def)
qed

text \<open>What holds between two evictions of a campaign.\<close>

definition campaign_inv :: "view_env \<Rightarrow> nat \<Rightarrow> nat \<Rightarrow> spill_log \<Rightarrow> bool" where
  "campaign_inv env B m L \<longleftrightarrow> index_ok L \<and>
     (m < length (lg_events L) \<longrightarrow> ev_kind (lg_events L ! m) = Alloc \<and> ev_skipped (lg_events L ! m)) \<and>
     (\<forall>i<length (lg_events L). addressed_alloc (lg_events L ! i) \<longrightarrow> prefix_ok env B L (min m i))"

lemma campaign_inv_start:
  "log_consistent env B L \<Longrightarrow> length (lg_events L) \<le> m \<Longrightarrow> campaign_inv env B m L"
  by (auto simp: campaign_inv_def log_consistent_def prefix_ok_def addressed_alloc_def min_def)

lemma campaign_inv_next:
  assumes "prefix_ok env B L m" "ev_skipped (lg_events L ! m)" "ev_kind (lg_events L ! m) = Alloc"
  shows "campaign_inv env B m L"
  using assms by (auto simp: campaign_inv_def prefix_ok_def addressed_alloc_def min_def)

lemma insert_events_prefix:
  assumes "prefix_ok env B L k" "list_all (\<lambda>(pos, e). k < pos \<and> pos \<le> length (lg_events L)) ins"
  shows "prefix_ok env B (insert_events ins L) k"
  using assms
proof (induction ins arbitrary: L)
  case Nil
  then show ?case by (simp add: insert_events_def)
next
  case (Cons pe ins)
  obtain pos e where pe: "pe = (pos, e)" by (cases pe)
  have "prefix_ok env B (insertEventIntoLog pos e L) k"
    using Cons.prems by (intro insert_prefix_ok) (simp_all add: pe)
  moreover have "list_all (\<lambda>(p, ev). k < p \<and> p \<le> length (lg_events (insertEventIntoLog pos e L))) ins"
    using Cons.prems(2) by (auto simp: list_all_iff insertEventIntoLog_def insert_at_def)
  ultimately have "prefix_ok env B (insert_events ins (insertEventIntoLog pos e L)) k"
    by (rule Cons.IH) 
  then show ?case by (simp add: insert_events_def pe)
qed

lemma insert_nth_below:
  assumes "pos \<le> length (lg_events L)" "j < pos"
  shows "lg_events (insertEventIntoLog pos e L) ! j = lg_events L ! j"
proof -
  have "j < Suc (length (lg_events L))" using assms by linarith
  with assms show ?thesis by (simp add: insertEventIntoLog_def nth_insert_at)
qed

lemma positions_grow:
  "list_all (\<lambda>(pos, e). i < pos \<and> pos \<le> length (lg_events L)) ins \<Longrightarrow>
     list_all (\<lambda>(pos, e). i < pos \<and> pos \<le> length (lg_events (insertEventIntoLog p ev L))) ins"
  by (auto simp: list_all_iff insertEventIntoLog_def insert_at_def)

lemma insert_events_below:
  assumes "list_all (\<lambda>(pos, e). i < pos \<and> pos \<le> length (lg_events L)) ins" "j \<le> i"
  shows "lg_events (insert_events ins L) ! j = lg_events L ! j"
  using assms
proof (induction ins arbitrary: L)
  case Nil
  then show ?case by (simp add: insert_events_def)
next
  case (Cons pe ins)
  obtain pos e where pe: "pe = (pos, e)" by (cases pe)
  have "lg_events (insert_events ins (insertEventIntoLog pos e L)) ! j = lg_events (insertEventIntoLog pos e L) ! j"
    using Cons.prems by (intro Cons.IH positions_grow) simp_all
  moreover have "lg_events (insertEventIntoLog pos e L) ! j = lg_events L ! j"
    using Cons.prems by (intro insert_nth_below) (simp_all add: pe)
  ultimately show ?case by (simp add: insert_events_def pe)
qed

lemma insert_events_index:
  assumes "list_all (\<lambda>(pos, e). i < pos \<and> pos \<le> length (lg_events L)) ins" "lg_index L v = Some i"
  shows "lg_index (insert_events ins L) v = Some i"
  using assms
proof (induction ins arbitrary: L)
  case Nil
  then show ?case by (simp add: insert_events_def)
next
  case (Cons pe ins)
  obtain pos e where pe: "pe = (pos, e)" by (cases pe)
  have "lg_index (insertEventIntoLog pos e L) v = Some i"
    using Cons.prems by (simp add: pe insertEventIntoLog_def shift_index_def)
  then have "lg_index (insert_events ins (insertEventIntoLog pos e L)) v = Some i"
    using Cons.prems by (intro Cons.IH positions_grow) simp_all
  then show ?case by (simp add: insert_events_def pe)
qed

lemma campaign_evict:
  assumes inv: "campaign_inv env B m L" and ok: "victim_ok env (ins, env', v) L"
    and res: "markEvictedAndRebuild env' v m (insert_events ins L) = Some (b, m', L')"
  shows "campaign_inv env' B m' L'" "b \<Longrightarrow> log_consistent env' B L'"
    "\<not> b \<Longrightarrow> run_events env' (lg_events L') (empty_tracker B) = None"
proof -
  obtain i where i: "lg_index L v = Some i" "\<not> ev_skipped (lg_events L ! i)"
    "list_all (\<lambda>(pos, e). i < pos \<and> pos \<le> length (lg_events L)) ins" "same_views env env' (take i (lg_events L))"
    using ok by (auto simp: victim_ok_def split: option.splits)
  have len: "i < length (lg_events L)" "ev_kind (lg_events L ! i) = Alloc"
    using inv i(1) by (auto simp: campaign_inv_def index_ok_def)
  then have "prefix_ok env B L (min m i)"
    using inv i(2) by (simp add: campaign_inv_def addressed_alloc_def)
  then have "prefix_ok env' B L (min m i)"
    by (rule prefix_ok_views) (rule same_views_take [OF i(4)], simp)
  moreover have "list_all (\<lambda>(pos, e). min m i < pos \<and> pos \<le> length (lg_events L)) ins"
    using i(3) by (auto simp: list_all_iff)
  ultimately have pre: "prefix_ok env' B (insert_events ins L) (min m i)" by (rule insert_events_prefix)
  have idx: "lg_index (insert_events ins L) v = Some i"
    by (rule insert_events_index [OF i(3,1)])
  have skipped: "ev_kind (lg_events (insert_events ins L) ! m) = Alloc \<and> ev_skipped (lg_events (insert_events ins L) ! m)"
    if "m < i"
    using inv len(1) that insert_events_below [OF i(3), of m] by (simp add: campaign_inv_def)
  note step = evict_step [OF pre idx skipped res]
  show "campaign_inv env' B m' L'" by (rule campaign_inv_next [OF step(2,5,6)])
  show "b \<Longrightarrow> log_consistent env' B L'" by (rule step(3))
  show "\<not> b \<Longrightarrow> run_events env' (lg_events L') (empty_tracker B) = None" by (rule step(4))
qed

lemma campaign_result:
  assumes "campaign_inv env B m L" "campaign_ok env vs m L" "run_campaign vs m L = Some (b, m', L')" "vs \<noteq> []"
  shows "(b \<longrightarrow> log_consistent (campaign_views env vs) B L') \<and>
    (\<not> b \<longrightarrow> run_events (campaign_views env vs) (lg_events L') (empty_tracker B) = None)"
  using assms
proof (induction vs m L arbitrary: env rule: run_campaign.induct)
  case (1 m L)
  then show ?case by simp
next
  case (2 ins env' v m L)
  have "victim_ok env (ins, env', v) L" "markEvictedAndRebuild env' v m (insert_events ins L) = Some (b, m', L')"
    using 2 by simp_all
  from campaign_evict [OF 2(1) this] show ?case by (simp add: campaign_views_def)
next
  case (3 ins env' v w vs m L)
  then obtain ok m1 L1 where one: "markEvictedAndRebuild env' v m (insert_events ins L) = Some (ok, m1, L1)"
    and rest: "run_campaign (w # vs) m1 L1 = Some (b, m', L')" by (auto split: option.splits)
  have ok: "victim_ok env (ins, env', v) L" "campaign_ok env' (w # vs) m1 L1" using "3.prems"(2) one by simp_all
  have "campaign_views env ((ins, env', v) # w # vs) = campaign_views env' (w # vs)" by (simp add: campaign_views_def)
  then show ?case using "3.IH" [OF one refl refl campaign_evict(1) [OF "3.prems"(1) ok(1) one] ok(2) rest] by simp
qed

section \<open>Runs of the pass\<close>

text \<open>The steps of a sweep that has not failed: allocations, deaths, choices of a victim, eviction
  campaigns whose last rebuild places every tensor (otherwise the pass fails), flushes, and changes of the IR
  outside the operations whose results are in the log. A reshard for an operation to come is marked as not
  evictable.\<close>

definition empty_log :: "nat \<Rightarrow> spill_log" where
  "empty_log B = \<lparr>lg_tracker = empty_tracker B, lg_events = [], lg_snaps = Map.empty, lg_index = Map.empty,
     lg_live = {}, lg_heap = [], lg_reshards = {}\<rparr>"

inductive spill_run :: "nat \<Rightarrow> view_env \<Rightarrow> spill_log \<Rightarrow> bool" for B where
  start: "spill_run B env (empty_log B)"
| commit: "spill_run B env L \<Longrightarrow> commitAllocation env lastUse v sz L = Some L' \<Longrightarrow> spill_run B env L'"
| dead: "spill_run B env L \<Longrightarrow> processDeadTensors deathSchedule pos L = Some L' \<Longrightarrow> spill_run B env L'"
| choose: "spill_run B env L \<Longrightarrow> evictFarthestUse L = (victim, L') \<Longrightarrow> spill_run B env L'"
| campaign: "spill_run B env L \<Longrightarrow> length (lg_events L) \<le> size_max \<Longrightarrow> campaign_ok env vs size_max L \<Longrightarrow>
     run_campaign vs size_max L = Some (True, m, L') \<Longrightarrow> spill_run B (campaign_views env vs) L'"
| flush: "spill_run B env L \<Longrightarrow> set live = lg_live L \<Longrightarrow> distinct live \<Longrightarrow> evictAllFromL1 live B L = Some L' \<Longrightarrow>
     spill_run B env' L'"
| rewire: "spill_run B env L \<Longrightarrow> same_views env env' (lg_events L) \<Longrightarrow> spill_run B env' L"
| reshard: "spill_run B env L \<Longrightarrow> spill_run B env (L\<lparr>lg_reshards := insert r (lg_reshards L)\<rparr>)"

lemma choose_consistent:
  "log_consistent env B L \<Longrightarrow> evictFarthestUse L = (victim, L') \<Longrightarrow> log_consistent env B L'"
  by (auto simp: evictFarthestUse_def log_consistent_def index_ok_def snap_ok_def split: prod.splits option.splits)

lemma spill_run_consistent: "spill_run B env L \<Longrightarrow> log_consistent env B L"
proof (induction rule: spill_run.induct)
  case (start env)
  show ?case by (simp add: log_consistent_def empty_log_def index_ok_def empty_tracker_def)
next
  case (commit env L lastUse v sz L')
  then show ?case by (blast intro: commit_consistent)
next
  case (dead env L deathSchedule pos L')
  then show ?case
    by (auto simp: processDeadTensors_def intro: processDead_consistent split: option.splits)
next
  case (choose env L victim L')
  then show ?case by (blast intro: choose_consistent)
next
  case (campaign env L vs m L')
  show ?case
  proof (cases vs)
    case Nil
    with campaign show ?thesis by (simp add: campaign_views_def)
  next
    case (Cons v vs')
    with campaign campaign_result [OF campaign_inv_start] show ?thesis by blast
  qed
next
  case (flush env L live L' env')
  then show ?case by (blast intro: flush_consistent)
next
  case (rewire env L env')
  then show ?case by (blast intro: consistent_views)
next
  case (reshard env L r)
  then show ?case by (simp add: log_consistent_def index_ok_def snap_ok_def)
qed

section \<open>A concrete run\<close>

text \<open>A budget of 1024 and no views: tensors 1 (100 bytes) and 2 (64 bytes) are allocated, then
  tensor 1 is evicted and tensor 2 is replayed into the top of the memory.\<close>

definition demo_views :: view_env where
  "demo_views = \<lparr>is_view = (\<lambda>v. False), view_source = (\<lambda>v. v)\<rparr>"

definition demo_last :: "tensor \<rightharpoonup> int" where
  "demo_last v = Some 9"

definition demo_log :: spill_log where
  "demo_log = the (commitAllocation demo_views demo_last 2 64
     (the (commitAllocation demo_views demo_last 1 100 (empty_log 1024))))"

lemmas log_simps = commitAllocation_def demo_views_def demo_last_def empty_log_def empty_tracker_def
  aliases_source_def addTensor_def allocateAddress_def fb_size_def erase_at_def align_l1_eq
  takeSnapshot_def Let_def

lemma demo_commits:
  "\<exists>L1. commitAllocation demo_views demo_last 1 100 (empty_log 1024) = Some L1 \<and>
     commitAllocation demo_views demo_last 2 64 L1 = Some demo_log"
  by (simp add: demo_log_def log_simps)

lemma demo_run: "spill_run 1024 demo_views demo_log"
  using demo_commits spill_run.start spill_run.commit by blast

lemma demo_fields:
  "lg_events demo_log = [\<lparr>ev_kind = Alloc, ev_tensor = 1, ev_size = 100, ev_skipped = False\<rparr>,
     \<lparr>ev_kind = Alloc, ev_tensor = 2, ev_size = 64, ev_skipped = False\<rparr>]"
  "lg_index demo_log = [1 \<mapsto> 0, 2 \<mapsto> 1]"
  "lg_snaps demo_log 0 = Some \<lparr>sn_free = [\<lparr>fb_start = 0, fb_end = 1024\<rparr>], sn_addr = [], sn_groups = [], sn_occupied = 0\<rparr>"
  "lg_tracker demo_log = \<lparr>tr_budget = 1024, tr_occupied = 164, tr_sizes = [(1, 100), (2, 64)],
     tr_free = [\<lparr>fb_start = 0, fb_end = 832\<rparr>], tr_addr = [(1, 896, 128), (2, 832, 64)],
     tr_groups = [(896, \<lparr>ag_count = 1, ag_raw = 100\<rparr>), (832, \<lparr>ag_count = 1, ag_raw = 64\<rparr>)]\<rparr>"
  by (simp_all add: demo_log_def log_simps)

lemma demo_campaign:
  "campaign_ok demo_views [([], demo_views, 1)] size_max demo_log"
  "\<exists>L'. run_campaign [([], demo_views, 1)] size_max demo_log = Some (True, 0, L') \<and>
     tr_addr (lg_tracker L') = [(2, 960, 64)]"
  by (simp_all add: victim_ok_def same_views_def demo_fields markEvictedAndRebuild_def insert_events_def replayFrom_def
      mark_evicted_def restoreSnapshot_def wouldAllocateAt_def log_simps split: option.split)

lemma demo_live: "lg_live demo_log = {1, 2}"
  by (auto simp: demo_log_def log_simps)

lemma demo_flush: "\<exists>L'. evictAllFromL1 [1, 2] 1024 demo_log = Some L'"
  by (simp add: evictAllFromL1_def removeTensor_def removeTensorFromSizes_def freeAddress_def demo_fields Let_def)

section \<open>Properties\<close>

text \<open>C7: at every point of a sweep that has not failed, after any mix of allocations, deaths, successful
  eviction campaigns that rewire views, and flushes of the whole memory, the tracker holds exactly what
  running the remaining events of the log from an empty tracker would hold under the views of the IR at that
  point, every live allocation has its snapshot, and \<open>allocEventIndex\<close> points to its tensor's allocation.\<close>

theorem spill_log_consistent:
  assumes "spill_run B env L"
  shows "log_consistent env B L"
  by (rule spill_run_consistent [OF assms])

theorem spill_log_consistent_witness:
  "\<exists>L'. lg_events L' = map (\<lambda>e. e\<lparr>ev_skipped := True\<rparr>) (lg_events demo_log) \<and> log_consistent demo_views 1024 L'"
proof -
  have "\<exists>L'. evictAllFromL1 [1, 2] 1024 demo_log = Some L'" by (rule demo_flush)
  then obtain L' where L': "evictAllFromL1 [1, 2] 1024 demo_log = Some L'" ..
  have "spill_run 1024 demo_views L'" by (rule spill_run.flush [OF demo_run _ _ L']) (simp_all add: demo_live)
  from spill_log_consistent [OF this] L' show ?thesis
    by (intro exI [of _ L']) (auto simp: evictAllFromL1_def split: option.splits)
qed

text \<open>C8: an eviction campaign, with reshard events inserted behind the victims, views rewired behind them and
  failed rebuilds on the way, ends in the state of a full replay: if the last rebuild reports success the log is
  consistent again, and if it reports failure the remaining events really do not fit when run from an
  empty tracker.\<close>

theorem campaign_rebuilds:
  assumes "log_consistent env B L" "length (lg_events L) \<le> size_max" "vs \<noteq> []"
    "campaign_ok env vs size_max L" "run_campaign vs size_max L = Some (b, m, L')"
  shows "(b \<longrightarrow> log_consistent (campaign_views env vs) B L') \<and>
    (\<not> b \<longrightarrow> run_events (campaign_views env vs) (lg_events L') (empty_tracker B) = None)"
  using campaign_result [OF campaign_inv_start [OF assms(1,2)] assms(4,5,3)] .

theorem campaign_rebuilds_witness:
  "\<exists>L'. run_campaign [([], demo_views, 1)] size_max demo_log = Some (True, 0, L') \<and> log_consistent demo_views 1024 L'"
proof -
  obtain L' where L': "run_campaign [([], demo_views, 1)] size_max demo_log = Some (True, 0, L')"
    using demo_campaign(2) by blast
  have "length (lg_events demo_log) \<le> size_max" by (simp add: demo_fields size_max_def)
  from campaign_rebuilds [OF spill_run_consistent [OF demo_run] this _ demo_campaign(1) L'] L'
  show ?thesis by (simp add: campaign_views_def)
qed

text \<open>inserting an event keeps both index structures aligned: every indexed tensor's entry
  still points to that tensor's allocation, every snapshot moves with its event, and the inserted
  position has none.\<close>

theorem insertEventIntoLog_aligned:
  assumes "index_ok L" "pos \<le> length (lg_events L)"
  shows "index_ok (insertEventIntoLog pos e L) \<and> lg_snaps (insertEventIntoLog pos e L) pos = None \<and>
    lg_events (insertEventIntoLog pos e L) ! pos = e \<and>
    (\<forall>i<length (lg_events L).
       lg_events (insertEventIntoLog pos e L) ! shift_index pos i = lg_events L ! i \<and>
       lg_snaps (insertEventIntoLog pos e L) (shift_index pos i) = lg_snaps L i)"
proof (intro conjI allI impI)
  show "index_ok (insertEventIntoLog pos e L)" by (rule insert_index_ok [OF assms])
  show "lg_snaps (insertEventIntoLog pos e L) pos = None" by (simp add: insertEventIntoLog_def)
  show "lg_events (insertEventIntoLog pos e L) ! pos = e"
    using assms(2) by (simp add: insertEventIntoLog_def nth_insert_at)
  fix i
  assume i: "i < length (lg_events L)"
  then show "lg_events (insertEventIntoLog pos e L) ! shift_index pos i = lg_events L ! i"
    using assms(2) by (simp add: insertEventIntoLog_def nth_insert_at shift_index_def)
  show "lg_snaps (insertEventIntoLog pos e L) (shift_index pos i) = lg_snaps L i"
    by (simp add: insertEventIntoLog_def shift_index_def)
qed

theorem insertEventIntoLog_aligned_witness:
  "index_ok (insertEventIntoLog 1 \<lparr>ev_kind = Alloc, ev_tensor = 7, ev_size = 32, ev_skipped = False\<rparr> demo_log)"
proof -
  have "index_ok demo_log" "1 \<le> length (lg_events demo_log)"
    using spill_run_consistent [OF demo_run] by (simp_all add: log_consistent_def demo_fields)
  from insertEventIntoLog_aligned [OF this] show ?thesis by blast
qed

end
