(* ===== verification/Tensors.thy ===== *)
theory Tensors
  imports Prelude "HOL-Library.Signed_Division"
begin

text \<open>
  Shapes, coordinates and row-major indices, as \<open>include/ttmlir/Utils.h\<close> computes them:
  \<open>calculateStrides\<close>, \<open>sample\<close>, \<open>linearIdToCoord\<close>, \<open>volume\<close>, \<open>getFactors\<close>,
  \<open>computeCartesianProduct\<close>, permutations and broadcast dimensions. Shapes are lists of int64 values
  written as \<open>int\<close>; the products of a shape are assumed not to overflow, as MLIR itself
  assumes for the number of elements of a type. \<open>mlir::computeStrides\<close> and
  \<open>mlir::linearize\<close> are not code of the repository: the locale \<open>row_major\<close> states what is
  documented of them, and is interpreted on the repository's own \<open>calculateStrides\<close>.
\<close>

type_synonym shape = "int list"
type_synonym coord = "int list"

definition static_shape :: "shape \<Rightarrow> bool" where
  "static_shape sh \<longleftrightarrow> list_all (\<lambda>d. 0 \<le> d) sh"

definition in_shape :: "coord \<Rightarrow> shape \<Rightarrow> bool" where
  "in_shape c sh \<longleftrightarrow> list_all2 (\<lambda>i d. 0 \<le> i \<and> i < d) c sh"

lemma sdiv_nonneg: "0 \<le> a \<Longrightarrow> 0 < b \<Longrightarrow> a sdiv b = a div b" for a b :: int
  by (cases "a = 0") (simp_all add: signed_divide_int_def)

section \<open>Volumes, strides and linear indices\<close>

definition volume :: "shape \<Rightarrow> int \<Rightarrow> int" where
  "volume sh stride = foldl (*) stride sh"

text \<open>\<open>calculateStrides\<close> walks the shape from its last dimension, so the tail is done first; the
  second component is the running stride.\<close>

fun stride_loop :: "shape \<Rightarrow> int \<Rightarrow> int list \<times> int" where
  "stride_loop [] stride = ([], stride)"
| "stride_loop (d # ds) stride = (let (ss, s) = stride_loop ds stride in (s # ss, s * d))"

definition calculateStrides :: "shape \<Rightarrow> int \<Rightarrow> int list" where
  "calculateStrides sh elementSize = fst (stride_loop sh elementSize)"

text \<open>The indices \<open>sample\<close> calls its function with, in order.\<close>

definition sample_index :: "shape \<Rightarrow> int list \<Rightarrow> int \<Rightarrow> coord" where
  "sample_index sh strides i = map2 (\<lambda>s d. (i div s) mod d) strides sh"

definition sample :: "shape \<Rightarrow> coord list" where
  "sample sh =
     (if sh = [] then []
      else let strides = calculateStrides sh 1
           in map (sample_index sh strides) [0..hd sh * hd strides - 1])"

text \<open>\<open>linearIdToCoord\<close> takes remainders from the last dimension on.\<close>

fun coord_loop :: "shape \<Rightarrow> int \<Rightarrow> coord \<times> int" where
  "coord_loop [] i = ([], i)"
| "coord_loop (d # ds) i = (let (cs, r) = coord_loop ds i in ((r mod d) # cs, r div d))"

definition linearIdToCoord :: "int \<Rightarrow> shape \<Rightarrow> coord" where
  "linearIdToCoord i sh = fst (coord_loop sh i)"

text \<open>The row-major index of a coordinate: the reference all of these are compared with.\<close>

fun row_index :: "shape \<Rightarrow> coord \<Rightarrow> int" where
  "row_index (d # ds) (c # cs) = c * prod_list ds + row_index ds cs"
| "row_index _ _ = 0"

lemma volume_prod: "volume sh s = s * prod_list sh"
  unfolding volume_def by (induction sh arbitrary: s) auto

lemma prod_list_nonneg: "static_shape sh \<Longrightarrow> (0::int) \<le> prod_list sh"
  unfolding static_shape_def by (induction sh) auto

lemma in_shape_simps [simp]:
  "in_shape [] [] \<longleftrightarrow> True"
  "in_shape (c # cs) (d # ds) \<longleftrightarrow> 0 \<le> c \<and> c < d \<and> in_shape cs ds"
  "in_shape [] (d # ds) \<longleftrightarrow> False"
  "in_shape (c # cs) [] \<longleftrightarrow> False"
  by (auto simp: in_shape_def)

lemma in_shape_length: "in_shape c sh \<Longrightarrow> length c = length sh"
  by (simp add: in_shape_def list_all2_lengthD)

lemma in_shape_nth: "in_shape c sh \<Longrightarrow> i < length sh \<Longrightarrow> 0 \<le> c ! i \<and> c ! i < sh ! i"
  by (auto simp: in_shape_def list_all2_conv_all_nth)

lemma in_shapeI:
  assumes "length c = length sh" "\<And>i. i < length sh \<Longrightarrow> 0 \<le> c ! i \<and> c ! i < sh ! i"
  shows "in_shape c sh"
  using assms by (auto simp: in_shape_def list_all2_conv_all_nth)

lemma in_shape_static: "in_shape c sh \<Longrightarrow> static_shape sh"
  by (fastforce simp: in_shape_def static_shape_def list_all_length list_all2_conv_all_nth)

lemma in_shape_prod_pos: "in_shape c sh \<Longrightarrow> 0 < prod_list sh"
proof (induction sh arbitrary: c)
  case Nil
  then show ?case by simp
next
  case (Cons d ds)
  then show ?case by (cases c) auto
qed

lemma row_index_bounds: "in_shape c sh \<Longrightarrow> 0 \<le> row_index sh c \<and> row_index sh c < prod_list sh"
proof (induction sh arbitrary: c)
  case Nil
  then show ?case by (cases c) auto
next
  case (Cons d ds)
  then obtain i cs where c: "c = i # cs" by (cases c) auto
  with Cons have ih: "0 \<le> row_index ds cs" "row_index ds cs < prod_list ds" and i: "0 \<le> i" "i < d"
    by auto
  have "i * prod_list ds + row_index ds cs < (i + 1) * prod_list ds" using ih by (simp add: distrib_right)
  also have "\<dots> \<le> d * prod_list ds" using i ih by (intro mult_right_mono) auto
  finally show ?case using ih i c by simp
qed

lemma coord_loop_row_index:
  assumes "in_shape c sh" "0 \<le> r"
  shows "coord_loop sh (r * prod_list sh + row_index sh c) = (c, r)"
  using assms
proof (induction sh arbitrary: c r)
  case Nil
  then show ?case by (cases c) auto
next
  case (Cons d ds)
  then obtain i cs where c: "c = i # cs" "0 \<le> i" "i < d" "in_shape cs ds" by (cases c) auto
  have "coord_loop ds ((r * d + i) * prod_list ds + row_index ds cs) = (cs, r * d + i)"
    using Cons.prems(2) c by (intro Cons.IH) auto
  moreover have "r * prod_list (d # ds) + row_index (d # ds) (i # cs) = (r * d + i) * prod_list ds + row_index ds cs"
    by (simp add: algebra_simps)
  ultimately have "coord_loop (d # ds) (r * prod_list (d # ds) + row_index (d # ds) c)
    = (((r * d + i) mod d) # cs, (r * d + i) div d)" unfolding c(1) by (simp only: coord_loop.simps) simp
  then show ?case using c by simp
qed

lemma linearIdToCoord_row_index: "in_shape c sh \<Longrightarrow> linearIdToCoord (row_index sh c) sh = c"
  using coord_loop_row_index [of c sh 0] by (simp add: linearIdToCoord_def)

lemma coord_loop_inverse:
  assumes "list_all (\<lambda>d. 0 < d) sh" "0 \<le> i"
  shows "in_shape (fst (coord_loop sh i)) sh \<and> 0 \<le> snd (coord_loop sh i) \<and>
    snd (coord_loop sh i) * prod_list sh + row_index sh (fst (coord_loop sh i)) = i"
  using assms
proof (induction sh)
  case Nil
  then show ?case by simp
next
  case (Cons d ds)
  obtain cs r where r: "coord_loop ds i = (cs, r)" by (cases "coord_loop ds i") auto
  with Cons have ih: "in_shape cs ds" "0 \<le> r" "r * prod_list ds + row_index ds cs = i" and d: "0 < d"
    by auto
  have "(r div d) * (d * prod_list ds) + (r mod d * prod_list ds + row_index ds cs)
    = (r div d * d + r mod d) * prod_list ds + row_index ds cs" by (simp only: distrib_right mult.assoc add.assoc)
  also have "\<dots> = i" using ih(3) by simp
  finally show ?case using r ih d by (simp add: pos_imp_zdiv_nonneg_iff)
qed

lemma linearIdToCoord_inverse:
  assumes "static_shape sh" "0 \<le> i" "i < prod_list sh"
  shows "in_shape (linearIdToCoord i sh) sh" "row_index sh (linearIdToCoord i sh) = i"
proof -
  have "prod_list sh \<noteq> 0" using assms by auto
  then have "0 \<notin> set sh" by (simp add: prod_list_zero_iff)
  then have pos: "list_all (\<lambda>d. 0 < d) sh"
    using assms(1) unfolding static_shape_def list_all_iff by (metis order_le_less)
  let ?c = "fst (coord_loop sh i)" and ?r = "snd (coord_loop sh i)"
  have c: "in_shape ?c sh" "0 \<le> ?r" "?r * prod_list sh + row_index sh ?c = i"
    using coord_loop_inverse [OF pos assms(2)] by auto
  have "?r = 0"
  proof (rule ccontr)
    assume "?r \<noteq> 0"
    then have "1 * prod_list sh \<le> ?r * prod_list sh"
      using c(2) assms(2,3) by (intro mult_right_mono) auto
    then show False using c(3) row_index_bounds [OF c(1)] assms(3) by linarith
  qed
  then show "in_shape (linearIdToCoord i sh) sh" "row_index sh (linearIdToCoord i sh) = i"
    using c by (auto simp: linearIdToCoord_def)
qed

lemma row_index_inj: "in_shape c sh \<Longrightarrow> in_shape c' sh \<Longrightarrow> row_index sh c = row_index sh c' \<Longrightarrow> c = c'"
  by (metis linearIdToCoord_row_index)

lemma snd_stride_loop: "snd (stride_loop sh e) = e * prod_list sh"
  by (induction sh) (auto simp: case_prod_unfold Let_def)

lemma length_strides [simp]: "length (calculateStrides sh e) = length sh"
  by (induction sh) (auto simp: calculateStrides_def case_prod_unfold Let_def)

lemma calculateStrides_simps [simp]:
  "calculateStrides [] e = []"
  "calculateStrides (d # ds) e = e * prod_list ds # calculateStrides ds e"
  by (simp_all add: calculateStrides_def case_prod_unfold Let_def snd_stride_loop)

definition dot :: "int list \<Rightarrow> int list \<Rightarrow> int" where
  "dot xs ys = sum_list (map2 (*) xs ys)"

lemma dot_strides: "length c = length sh \<Longrightarrow> dot c (calculateStrides sh 1) = row_index sh c"
  by (induction c sh rule: list_induct2) (auto simp: dot_def)

lemma row_index_prefix_div:
  assumes "in_shape c sh" "i < length sh"
  shows "(row_index sh c div calculateStrides sh 1 ! i) mod sh ! i = c ! i"
  using assms
proof (induction sh arbitrary: c i)
  case Nil
  then show ?case by simp
next
  case (Cons d ds)
  then obtain a cs where c: "c = a # cs" "0 \<le> a" "a < d" "in_shape cs ds" by (cases c) auto
  have b: "0 \<le> row_index ds cs" "row_index ds cs < prod_list ds" using row_index_bounds [OF c(4)] by auto
  show ?case
  proof (cases i)
    case 0
    have "(a * prod_list ds + row_index ds cs) div prod_list ds = a" using b by simp
    then show ?thesis using 0 c by simp
  next
    case (Suc j)
    have j: "j < length ds" using Cons.prems(2) Suc by simp
    let ?s = "calculateStrides ds 1 ! j"
    have drop: "calculateStrides ds 1 ! j * prod_list (take 1 (drop j ds)) dvd prod_list ds" if "j < length ds" for ds :: shape and j
      using that
    proof (induction ds arbitrary: j)
      case (Cons e es)
      then show ?case by (cases j) (auto simp: mult.commute)
    qed simp
    have dv: "?s * (ds ! j) dvd prod_list ds"
      using drop [OF j] j by (simp add: take_Suc_conv_app_nth Cons_nth_drop_Suc [symmetric])
    then obtain k where k: "prod_list ds = ?s * (ds ! j) * k" by (auto elim: dvdE)
    have s0: "?s \<noteq> 0" using k b by auto
    have "(a * prod_list ds + row_index ds cs) div ?s = (row_index ds cs + (a * (ds ! j) * k) * ?s) div ?s"
      by (simp add: k algebra_simps)
    also have "\<dots> = (a * (ds ! j) * k) + row_index ds cs div ?s"
      using s0 by (rule div_mult_self1)
    finally have "((a * prod_list ds + row_index ds cs) div ?s) mod ds ! j
      = (row_index ds cs div ?s + (a * k) * (ds ! j)) mod ds ! j" by (simp add: algebra_simps)
    also have "\<dots> = (row_index ds cs div ?s) mod ds ! j" by simp
    also have "\<dots> = cs ! j" by (rule Cons.IH [OF c(4) j])
    finally show ?thesis using Suc c by simp
  qed
qed

section \<open>Permutations\<close>

text \<open>Indices are \<open>int64_t\<close> in the code; a valid one is read as a natural number.\<close>

definition applyPermutation :: "'a list \<Rightarrow> int list \<Rightarrow> 'a list" where
  "applyPermutation input permutation = map (\<lambda>i. input ! nat i) permutation"

definition inversePermutation :: "int list \<Rightarrow> int list" where
  "inversePermutation permutation =
     foldl (\<lambda>inv i. inv[nat (permutation ! i) := int i]) (replicate (length permutation) 0) [0..<length permutation]"

text \<open>\<open>std::is_permutation\<close> against \<open>0 .. n - 1\<close>.\<close>

definition is_permutation_of :: "nat \<Rightarrow> int list \<Rightarrow> bool" where
  "is_permutation_of n p \<longleftrightarrow> mset p = mset (map int [0..<n])"

definition getBroadcastDimensions :: "shape \<Rightarrow> shape \<Rightarrow> int list" where
  "getBroadcastDimensions inputShape outputShape = map2 (\<lambda>y x. y sdiv x) outputShape inputShape"

lemma is_permutation_length: "is_permutation_of n p \<Longrightarrow> length p = n"
  by (metis is_permutation_of_def length_map length_upt minus_nat.diff_0 size_mset)

lemma is_permutation_set: "is_permutation_of n p \<Longrightarrow> set p = int ` {0..<n}"
  by (metis is_permutation_of_def mset_eq_setD set_map set_upt)

lemma is_permutation_distinct: "is_permutation_of n p \<Longrightarrow> distinct p"
  unfolding is_permutation_of_def by (metis distinct_map distinct_upt inj_on_of_nat mset_eq_imp_distinct_iff)

lemma is_permutation_nth:
  assumes "is_permutation_of n p" "i < n"
  shows "0 \<le> p ! i \<and> p ! i < int n" "nat (p ! i) < n"
proof -
  have "p ! i \<in> int ` {0..<n}"
    using assms is_permutation_set [OF assms(1)] is_permutation_length [OF assms(1)] by (metis nth_mem)
  then show "0 \<le> p ! i \<and> p ! i < int n" "nat (p ! i) < n" by auto
qed

lemma is_permutationI:
  assumes "length p = n" "set p = int ` {0..<n}"
  shows "is_permutation_of n p"
proof -
  have "card (set p) = length p" using assms by (simp add: card_image)
  then have "distinct p" by (rule card_distinct)
  moreover have "distinct (map int [0..<n])" by (simp add: distinct_map)
  moreover have "set p = set (map int [0..<n])" using assms(2) by simp
  ultimately show ?thesis unfolding is_permutation_of_def using set_eq_iff_mset_eq_distinct by blast
qed

lemma length_applyPermutation [simp]: "length (applyPermutation xs p) = length p"
  by (simp add: applyPermutation_def)

lemma applyPermutation_nth [simp]: "i < length p \<Longrightarrow> applyPermutation xs p ! i = xs ! nat (p ! i)"
  by (simp add: applyPermutation_def)

lemma length_foldl_update [simp]: "length (foldl (\<lambda>inv i. inv[f i := g i]) inv0 is) = length inv0"
  by (induction "is" arbitrary: inv0) auto

lemma foldl_update_nth:
  assumes "i \<in> set is" "inj_on f (set is)" "distinct is" "f i < length inv0"
  shows "foldl (\<lambda>inv i. inv[f i := g i]) inv0 is ! f i = g i"
  using assms
proof (induction "is" rule: rev_induct)
  case (snoc j js)
  show ?case
  proof (cases "i = j")
    case True
    then show ?thesis using snoc.prems by simp
  next
    case False
    then have "f i \<noteq> f j" using snoc.prems by (auto simp: inj_on_def)
    then show ?thesis using snoc False by (auto simp: inj_on_def)
  qed
qed simp

lemma inversePermutation_nth:
  assumes "is_permutation_of n p" "i < n"
  shows "inversePermutation p ! nat (p ! i) = int i"
proof -
  have len: "length p = n" by (rule is_permutation_length [OF assms(1)])
  have "inj_on (\<lambda>i. nat (p ! i)) (set [0..<length p])"
  proof (rule inj_onI)
    fix x y assume xy: "x \<in> set [0..<length p]" "y \<in> set [0..<length p]" "nat (p ! x) = nat (p ! y)"
    then have "p ! x = p ! y"
      using is_permutation_nth(1) [OF assms(1), of x] is_permutation_nth(1) [OF assms(1), of y] len by (simp add: eq_nat_nat_iff)
    then show "x = y" using xy is_permutation_distinct [OF assms(1)] by (simp add: nth_eq_iff_index_eq)
  qed
  then show ?thesis
    unfolding inversePermutation_def using assms(2) len is_permutation_nth(2) [OF assms]
    by (intro foldl_update_nth) auto
qed

lemma length_inversePermutation [simp]: "length (inversePermutation p) = length p"
  by (simp add: inversePermutation_def)

text \<open>What a permuted coordinate list reads: position \<open>p[i]\<close> of the input holds entry \<open>i\<close>.\<close>

lemma apply_inverse_nth:
  assumes "is_permutation_of n p" "length c = n" "i < n"
  shows "applyPermutation c (inversePermutation p) ! nat (p ! i) = c ! i"
  using assms is_permutation_nth(2) [OF assms(1,3)] inversePermutation_nth [OF assms(1,3)] is_permutation_length [OF assms(1)]
  by simp

lemma permutation_surj:
  assumes "is_permutation_of n p" "j < n"
  obtains i where "i < n" "nat (p ! i) = j"
proof -
  have "int j \<in> set p" using is_permutation_set [OF assms(1)] assms(2) by auto
  then obtain i where "i < n" "p ! i = int j" using is_permutation_length [OF assms(1)] by (auto simp: in_set_conv_nth)
  then show thesis by (intro that) auto
qed

lemma permuted_eqI:
  assumes "is_permutation_of n p" "length xs = n" "length ys = n" "\<And>i. i < n \<Longrightarrow> xs ! nat (p ! i) = ys ! nat (p ! i)"
  shows "xs = ys"
proof (rule nth_equalityI)
  show "length xs = length ys" using assms by simp
  show "xs ! j = ys ! j" if "j < length xs" for j
    using permutation_surj [OF assms(1), of j] assms(2,4) that by metis
qed

lemma applyPermutation_comp:
  assumes "is_permutation_of n p" "is_permutation_of n q"
  shows "is_permutation_of n (applyPermutation p q)"
proof (rule is_permutationI)
  have lp: "length p = n" "length q = n" using assms by (simp_all add: is_permutation_length)
  then show "length (applyPermutation p q) = n" by simp
  have "set (applyPermutation p q) = (\<lambda>i. p ! nat i) ` int ` {0..<n}"
    using is_permutation_set [OF assms(2)] by (simp add: applyPermutation_def)
  also have "\<dots> = set p" using lp by (force simp: in_set_conv_nth image_iff)
  finally show "set (applyPermutation p q) = int ` {0..<n}" using is_permutation_set [OF assms(1)] by simp
qed

text \<open>Permuting twice is permuting once with the composed permutation.\<close>

lemma apply_inverse_comp:
  assumes "is_permutation_of n p" "is_permutation_of n q" "length c = n"
  shows "applyPermutation (applyPermutation c (inversePermutation q)) (inversePermutation p)
    = applyPermutation c (inversePermutation (applyPermutation p q))"
proof -
  note pq = applyPermutation_comp [OF assms(1,2)]
  have lens: "length p = n" "length q = n" using assms by (simp_all add: is_permutation_length)
  show ?thesis
  proof (rule permuted_eqI [OF pq])
    fix i assume i: "i < n"
    note qi = is_permutation_nth(2) [OF assms(2) i]
    have "applyPermutation c (inversePermutation (applyPermutation p q)) ! nat (applyPermutation p q ! i) = c ! i"
      by (rule apply_inverse_nth [OF pq assms(3) i])
    moreover have "applyPermutation (applyPermutation c (inversePermutation q)) (inversePermutation p) ! nat (p ! nat (q ! i))
      = applyPermutation c (inversePermutation q) ! nat (q ! i)"
      using lens by (intro apply_inverse_nth [OF assms(1) _ qi]) simp
    moreover have "applyPermutation c (inversePermutation q) ! nat (q ! i) = c ! i"
      by (rule apply_inverse_nth [OF assms(2,3) i])
    ultimately show "applyPermutation (applyPermutation c (inversePermutation q)) (inversePermutation p) ! nat (applyPermutation p q ! i)
      = applyPermutation c (inversePermutation (applyPermutation p q)) ! nat (applyPermutation p q ! i)"
      using i lens by simp
  qed (use lens in simp_all)
qed

lemma in_shape_permuted:
  assumes "is_permutation_of (length sh) p" "in_shape c (applyPermutation sh p)"
  shows "in_shape (applyPermutation c (inversePermutation p)) sh"
proof (rule in_shapeI)
  have lens: "length p = length sh" "length c = length sh"
    using assms is_permutation_length in_shape_length by fastforce+
  then show "length (applyPermutation c (inversePermutation p)) = length sh" by simp
  fix j assume "j < length sh"
  then obtain i where i: "i < length sh" "nat (p ! i) = j" using permutation_surj [OF assms(1)] by metis
  then have "applyPermutation c (inversePermutation p) ! j = c ! i"
    using apply_inverse_nth [OF assms(1) lens(2) i(1)] by simp
  moreover have "0 \<le> c ! i \<and> c ! i < sh ! j"
    using in_shape_nth [OF assms(2), of i] i lens by simp
  ultimately show "0 \<le> applyPermutation c (inversePermutation p) ! j \<and> applyPermutation c (inversePermutation p) ! j < sh ! j"
    by simp
qed

text \<open>\<open>llvm::is_sorted\<close> on a permutation means the identity.\<close>

lemma sorted_permutation_id:
  assumes "is_permutation_of n p" "sorted p"
  shows "p = map int [0..<n]"
proof -
  have "sorted (map int [0..<n])" by (simp add: sorted_map sorted_wrt_iff_nth_less)
  then show ?thesis
    using assms unfolding is_permutation_of_def by (metis properties_for_sort)
qed

section \<open>The interface to MLIR's index functions\<close>

locale row_major =
  fixes compute_strides :: "shape \<Rightarrow> int list"
    and linearize :: "coord \<Rightarrow> int list \<Rightarrow> int"
  assumes linearize_strides: "length c = length sh \<Longrightarrow> linearize c (compute_strides sh) = row_index sh c"
begin

lemma linearize_less: "in_shape c sh \<Longrightarrow> 0 \<le> linearize c (compute_strides sh) \<and> linearize c (compute_strides sh) < prod_list sh"
  using row_index_bounds by (simp add: linearize_strides in_shape_length)

lemma linearize_inj:
  "in_shape c sh \<Longrightarrow> in_shape c' sh \<Longrightarrow> linearize c (compute_strides sh) = linearize c' (compute_strides sh) \<Longrightarrow> c = c'"
  by (simp add: linearize_strides in_shape_length row_index_inj)

lemma linearize_coord:
  "static_shape sh \<Longrightarrow> 0 \<le> i \<Longrightarrow> i < prod_list sh \<Longrightarrow> linearize (linearIdToCoord i sh) (compute_strides sh) = i"
  using linearIdToCoord_inverse [of sh i] by (simp add: linearize_strides in_shape_length)

end

interpretation rm_calc: row_major "\<lambda>sh. calculateStrides sh 1" dot
  by unfold_locales (simp add: dot_strides)

end
