(* ===== verification/TirModel.thy ===== *)
theory TirModel
  imports Tensors
begin

text \<open>
  Tensor-manipulation operations of the TTIR dialect and their verifiers
  (\<open>lib/Dialect/TTIR/IR/TTIROps.cpp\<close>): concat, pad, reshape, broadcast, slice_static, squeeze,
  transpose, unsqueeze, repeat, repeat_interleave, reverse, permute, matmul and the common verifier of
  the reductions. A value is the tree of the operations that define it, with its result type; an
  \<open>Arg\<close> is a value defined elsewhere. Diagnostics are the constructors of \<open>tir_error\<close>; a
  dimension attribute is an \<open>si32\<close> and a rank is far below \<open>2 ^ 31\<close>, so normalising one
  cannot wrap. The arithmetic on slice bounds is kept at 32 bits. MLIR's
  \<open>OpTrait::util::getBroadcastedShape\<close> is a parameter, with its documented behaviour as
  \<open>legal_broadcast\<close>.
\<close>

section \<open>Types and values\<close>

record 'e tensor_type =
  ty_shape :: shape
  ty_elem :: 'e

abbreviation rank :: "'e tensor_type \<Rightarrow> int" where
  "rank t \<equiv> int (length (ty_shape t))"

abbreviation getDimSize :: "'e tensor_type \<Rightarrow> int \<Rightarrow> int" where
  "getDimSize t i \<equiv> ty_shape t ! nat i"

definition getNumElements :: "'e tensor_type \<Rightarrow> int" where
  "getNumElements t = prod_list (ty_shape t)"

datatype 'e val =
    Arg nat "'e tensor_type"
  | ConcatOp "'e val list" int "'e tensor_type"
  | SliceStaticOp "'e val" "int list" "int list" "int list" "'e tensor_type"
  | PermuteOp "'e val" "int list" bool "'e tensor_type"
  | ReshapeOp "'e val" "int list" "'e tensor_type"
  | BroadcastOp "'e val" "int list" "'e tensor_type"
  | RepeatOp "'e val" "int list" "'e tensor_type"
  | RepeatInterleaveOp "'e val" int int "'e tensor_type"
  | ReverseOp "'e val" "int list" "'e tensor_type"
  | TransposeOp "'e val" int int "'e tensor_type"
  | SqueezeOp "'e val" int "'e tensor_type"
  | UnsqueezeOp "'e val" int "'e tensor_type"

primrec getType :: "'e val \<Rightarrow> 'e tensor_type" where
  "getType (Arg n t) = t"
| "getType (ConcatOp xs dim t) = t"
| "getType (SliceStaticOp x begins ends step t) = t"
| "getType (PermuteOp x permutation decomposed t) = t"
| "getType (ReshapeOp x sh t) = t"
| "getType (BroadcastOp x dims t) = t"
| "getType (RepeatOp x dims t) = t"
| "getType (RepeatInterleaveOp x repeats dim t) = t"
| "getType (ReverseOp x dims t) = t"
| "getType (TransposeOp x dim0 dim1 t) = t"
| "getType (SqueezeOp x dim t) = t"
| "getType (UnsqueezeOp x dim t) = t"

abbreviation shape_of :: "'e val \<Rightarrow> shape" where
  "shape_of v \<equiv> ty_shape (getType v)"

datatype tir_error =
    InvalidDim | InvalidRank | RankMismatch | DimsMismatch | OutputMismatch | ArityMismatch
  | ElementCount | TwoNegative | NegativeDim | ElementType | NotBroadcastable
  | BadBegin nat | BadEnd nat | ZeroStep nat | PositiveStep nat | NegativeStep nat | BadSize nat
  | NotOne | ScalarOutput | NotPositive nat | NotUnique | NotPermutation | InnerMismatch

type_synonym check = "tir_error verdict"

definition normalize_dim :: "int \<Rightarrow> int \<Rightarrow> int" where
  "normalize_dim dim r = (if dim < 0 then dim + r else dim)"

text \<open>Conversion to \<open>int32_t\<close>.\<close>

definition to_i32 :: "int \<Rightarrow> int" where
  "to_i32 x = signed_take_bit 31 x"

lemma to_i32_exact [simp]: "- (2 ^ 31) \<le> x \<Longrightarrow> x < 2 ^ 31 \<Longrightarrow> to_i32 x = x"
  unfolding to_i32_def by (rule signed_take_bit_int_eq_self) simp_all

section \<open>ConcatOp, PadOp, ReshapeOp\<close>

text \<open>The loop over the inputs after the first; \<open>dimSizeSum\<close> is its accumulator, an
  \<open>Inl\<close> its early returns.\<close>

fun concat_loop :: "int \<Rightarrow> 'e tensor_type \<Rightarrow> 'e tensor_type list \<Rightarrow> int \<Rightarrow> (tir_error, int) result" where
  "concat_loop dim firstTensor [] dimSizeSum = Inr dimSizeSum"
| "concat_loop dim firstTensor (inputType # inputs) dimSizeSum =
     (if rank inputType \<noteq> rank firstTensor then Inl RankMismatch
      else if list_ex (\<lambda>i. int i \<noteq> dim \<and> ty_shape inputType ! i \<noteq> ty_shape firstTensor ! i) [0..<length (ty_shape firstTensor)]
      then Inl DimsMismatch
      else concat_loop dim firstTensor inputs (dimSizeSum + getDimSize inputType dim))"

definition verifyConcat :: "'e tensor_type list \<Rightarrow> int \<Rightarrow> 'e tensor_type \<Rightarrow> check" where
  "verifyConcat inputs d outputType =
     (let firstTensor = hd inputs; dim = normalize_dim d (rank firstTensor)
      in if dim < 0 \<or> dim \<ge> rank firstTensor then Inl InvalidDim
         else case concat_loop dim firstTensor (tl inputs) (getDimSize firstTensor dim) of
             Inl e \<Rightarrow> Inl e
           | Inr dimSizeSum \<Rightarrow> if getDimSize outputType dim \<noteq> dimSizeSum then Inl OutputMismatch else success)"

definition pad_shape :: "shape \<Rightarrow> int list \<Rightarrow> shape" where
  "pad_shape sh padding = map (\<lambda>i. sh ! i + padding ! (2 * i) + padding ! (2 * i + 1)) [0..<length sh]"

definition verifyPad :: "'e tensor_type \<Rightarrow> int list \<Rightarrow> 'e tensor_type \<Rightarrow> check" where
  "verifyPad inputType padding resultType =
     (if int (length padding) \<noteq> 2 * rank inputType then Inl ArityMismatch
      else if ty_shape resultType \<noteq> pad_shape (ty_shape inputType) padding then Inl OutputMismatch
      else success)"

fun reshape_loop :: "nat \<Rightarrow> int list \<Rightarrow> shape \<Rightarrow> bool \<Rightarrow> check" where
  "reshape_loop i (dimValue # dims) outputShape hasNegative =
     (if dimValue = -1
      then (if hasNegative then Inl TwoNegative else reshape_loop (Suc i) dims outputShape True)
      else if dimValue < 0 then Inl NegativeDim
      else if dimValue \<noteq> outputShape ! i then Inl (BadSize i)
      else reshape_loop (Suc i) dims outputShape hasNegative)"
| "reshape_loop i [] outputShape hasNegative = success"

definition verifyReshape :: "'e tensor_type \<Rightarrow> int list \<Rightarrow> 'e tensor_type \<Rightarrow> check" where
  "verifyReshape inputType sh outputType =
     (if int (length sh) \<noteq> rank outputType then Inl RankMismatch
      else if getNumElements inputType \<noteq> getNumElements outputType then Inl ElementCount
      else reshape_loop 0 sh (ty_shape outputType) False)"

section \<open>BroadcastOp\<close>

text \<open>What is documented of \<open>getBroadcastedShape\<close> on static shapes: shapes are aligned at
  their last dimension, sizes agree or one of them is 1, and the result takes the other one; missing
  leading dimensions take the other shape's.\<close>

fun broadcast_rev :: "shape \<Rightarrow> shape \<Rightarrow> shape option" where
  "broadcast_rev [] bs = Some bs"
| "broadcast_rev as [] = Some as"
| "broadcast_rev (a # as) (b # bs) =
     (if a = b \<or> a = 1 \<or> b = 1
      then map_option ((#) (if a = 1 then b else a)) (broadcast_rev as bs) else None)"

definition numpy_broadcast :: "shape \<Rightarrow> shape \<Rightarrow> shape option" where
  "numpy_broadcast a b = map_option rev (broadcast_rev (rev a) (rev b))"

definition legal_broadcast :: "(shape \<Rightarrow> shape \<Rightarrow> shape option) \<Rightarrow> bool" where
  "legal_broadcast gbs \<longleftrightarrow>
     (\<forall>a b. static_shape a \<longrightarrow> static_shape b \<longrightarrow> gbs a b = numpy_broadcast a b)"

definition verifyBroadcast ::
  "(shape \<Rightarrow> shape \<Rightarrow> shape option) \<Rightarrow> 'e tensor_type \<Rightarrow> int list \<Rightarrow> 'e tensor_type \<Rightarrow> check" where
  "verifyBroadcast getBroadcastedShape inputType broadcastDimensions outputType =
     (let inputShape = ty_shape inputType; outputShape = ty_shape outputType
      in if rank inputType \<noteq> rank outputType then Inl RankMismatch
         else if getBroadcastedShape inputShape outputShape = None then Inl NotBroadcastable
         else if int (length broadcastDimensions) \<noteq> rank inputType then Inl ArityMismatch
         else check_all (\<lambda>i. if inputShape ! i * broadcastDimensions ! i \<noteq> outputShape ! i
                             then Inl (BadSize i) else success)
                [0..<length broadcastDimensions])"

section \<open>SliceStaticOp\<close>

definition slice_bound :: "int \<Rightarrow> int \<Rightarrow> int" where
  "slice_bound dimSize b = to_i32 (if b < 0 then b + dimSize else b)"

definition slice_size :: "int \<Rightarrow> int \<Rightarrow> int \<Rightarrow> int" where
  "slice_size adjustedBegin adjustedEnd step =
     to_i32 (to_i32 (to_i32 \<bar>to_i32 (adjustedEnd - adjustedBegin)\<bar> + to_i32 \<bar>step\<bar>) - 1) sdiv to_i32 \<bar>step\<bar>"

definition slice_dim :: "nat \<Rightarrow> int \<Rightarrow> int \<Rightarrow> int \<Rightarrow> int \<Rightarrow> int \<Rightarrow> check" where
  "slice_dim i dimSize b e step outDim =
     (let adjustedBegin = slice_bound dimSize b; adjustedEnd = slice_bound dimSize e;
          isEmptySliceOp = (adjustedEnd = adjustedBegin)
      in if \<not> isEmptySliceOp \<and> (adjustedBegin < 0 \<or> adjustedBegin \<ge> dimSize) then Inl (BadBegin i)
         else if \<not> isEmptySliceOp \<and> (adjustedEnd < 0 \<or> adjustedEnd > dimSize) then Inl (BadEnd i)
         else if step = 0 then Inl (ZeroStep i)
         else if step > 0 \<and> adjustedBegin > adjustedEnd then Inl (PositiveStep i)
         else if step < 0 \<and> adjustedBegin < adjustedEnd then Inl (NegativeStep i)
         else if outDim \<noteq> slice_size adjustedBegin adjustedEnd step then Inl (BadSize i)
         else success)"

definition verifySliceStatic ::
  "'e tensor_type \<Rightarrow> int list \<Rightarrow> int list \<Rightarrow> int list \<Rightarrow> 'e tensor_type \<Rightarrow> check" where
  "verifySliceStatic inputType begins ends step outputType =
     (let input_rank = length (ty_shape inputType)
      in if rank inputType < 1 then Inl InvalidRank
         else if input_rank \<noteq> length begins \<or> input_rank \<noteq> length ends \<or> input_rank \<noteq> length step then Inl ArityMismatch
         else if ty_elem inputType \<noteq> ty_elem outputType then Inl ElementType
         else if rank inputType \<noteq> rank outputType then Inl RankMismatch
         else check_all (\<lambda>i. slice_dim i (ty_shape inputType ! i) (begins ! i) (ends ! i) (step ! i) (ty_shape outputType ! i))
                [0..<input_rank])"

section \<open>SqueezeOp, UnsqueezeOp, TransposeOp\<close>

text \<open>The loop that walks both shapes: \<open>i\<close> over the longer one, skipping \<open>dim\<close>,
  \<open>j\<close> over the shorter one.\<close>

fun skip_loop :: "tir_error \<Rightarrow> int \<Rightarrow> shape \<Rightarrow> shape \<Rightarrow> nat \<Rightarrow> nat list \<Rightarrow> check" where
  "skip_loop err dim long short j [] = success"
| "skip_loop err dim long short j (i # is) =
     (if int i = dim then skip_loop err dim long short j is
      else if long ! i \<noteq> short ! j then Inl err
      else skip_loop err dim long short (Suc j) is)"

definition verifySqueeze :: "'e tensor_type \<Rightarrow> int \<Rightarrow> 'e tensor_type \<Rightarrow> check" where
  "verifySqueeze inputType d outputType =
     (let dim = normalize_dim d (rank inputType)
      in if dim < 0 \<or> dim \<ge> rank inputType then Inl InvalidDim
         else if getDimSize inputType dim \<noteq> 1 then Inl NotOne
         else if rank outputType = 0 then Inl ScalarOutput
         else if rank outputType \<noteq> rank inputType - 1 then Inl RankMismatch
         else skip_loop DimsMismatch dim (ty_shape inputType) (ty_shape outputType) 0 [0..<length (ty_shape inputType)])"

definition verifyUnsqueeze :: "'e tensor_type \<Rightarrow> int \<Rightarrow> 'e tensor_type \<Rightarrow> check" where
  "verifyUnsqueeze inputType d outputType =
     (let dim = normalize_dim d (rank inputType + 1)
      in if dim > rank inputType \<or> dim < 0 then Inl InvalidDim
         else if rank outputType \<noteq> rank inputType + 1 then Inl RankMismatch
         else if getDimSize outputType dim \<noteq> 1 then Inl NotOne
         else skip_loop DimsMismatch dim (ty_shape outputType) (ty_shape inputType) 0 [0..<length (ty_shape outputType)])"

definition verifyTranspose :: "'e tensor_type \<Rightarrow> int \<Rightarrow> int \<Rightarrow> 'e tensor_type \<Rightarrow> check" where
  "verifyTranspose inputType d0 d1 outputType =
     (if rank inputType < 2 then Inl InvalidRank
      else if rank inputType \<noteq> rank outputType then Inl RankMismatch
      else if d0 \<ge> rank inputType \<or> d0 < - rank inputType then Inl InvalidDim
      else if d1 \<ge> rank inputType \<or> d1 < - rank inputType then Inl InvalidDim
      else let dim0 = normalize_dim d0 (rank inputType); dim1 = normalize_dim d1 (rank inputType)
           in if getDimSize outputType dim0 \<noteq> getDimSize inputType dim1 \<or>
                 getDimSize outputType dim1 \<noteq> getDimSize inputType dim0
              then Inl DimsMismatch else success)"

section \<open>RepeatOp, RepeatInterleaveOp, ReverseOp, PermuteOp\<close>

definition verifyRepeat :: "'e tensor_type \<Rightarrow> int list \<Rightarrow> 'e tensor_type \<Rightarrow> check" where
  "verifyRepeat inputType repeatDimensions outputType =
     (let inputShape = ty_shape inputType
      in if rank inputType \<noteq> int (length repeatDimensions) then Inl ArityMismatch
         else if rank inputType \<noteq> rank outputType then Inl RankMismatch
         else check_all (\<lambda>i. if repeatDimensions ! i \<le> 0 then Inl (NotPositive i)
                             else if inputShape ! i * repeatDimensions ! i \<noteq> ty_shape outputType ! i then Inl (BadSize i)
                             else success)
                [0..<length inputShape])"

definition verifyRepeatInterleave :: "'e tensor_type \<Rightarrow> int \<Rightarrow> int \<Rightarrow> 'e tensor_type \<Rightarrow> check" where
  "verifyRepeatInterleave inputType repeats d outputType =
     (if rank inputType < 1 then Inl InvalidRank
      else if repeats = 0 then Inl (NotPositive 0)
      else if d \<ge> rank inputType \<or> d < - rank inputType then Inl InvalidDim
      else let dim = nat (normalize_dim d (rank inputType));
               expectedOutputShape = (ty_shape inputType)[dim := ty_shape inputType ! dim * repeats]
           in if ty_shape outputType \<noteq> expectedOutputShape then Inl OutputMismatch else success)"

definition verifyReverse :: "'e tensor_type \<Rightarrow> int list \<Rightarrow> check" where
  "verifyReverse operandTy dimensions =
     (if length (remdups dimensions) \<noteq> length dimensions then Inl NotUnique
      else check_all (\<lambda>dim. if dim < 0 then Inl NegativeDim
                             else if dim \<ge> rank operandTy then Inl InvalidDim else success) dimensions)"

definition verifyPermute :: "'e tensor_type \<Rightarrow> int list \<Rightarrow> 'e tensor_type \<Rightarrow> check" where
  "verifyPermute inputType permutation resultType =
     (let inputRank = length (ty_shape inputType)
      in if inputRank \<noteq> length permutation \<or> \<not> is_permutation_of inputRank permutation then Inl NotPermutation
         else if applyPermutation (ty_shape inputType) permutation \<noteq> ty_shape resultType then Inl OutputMismatch
         else success)"

section \<open>MatmulOp and the reductions\<close>

definition swap_last :: "shape \<Rightarrow> shape" where
  "swap_last sh = (let n = length sh in sh[n - 1 := sh ! (n - 2), n - 2 := sh ! (n - 1)])"

definition matmul_shape_a :: "shape \<Rightarrow> bool \<Rightarrow> shape" where
  "matmul_shape_a sh transposeA = (if length sh = 1 then 1 # sh else if transposeA then swap_last sh else sh)"

definition matmul_shape_b :: "shape \<Rightarrow> bool \<Rightarrow> shape" where
  "matmul_shape_b sh transposeB = (if length sh = 1 then sh @ [1] else if transposeB then swap_last sh else sh)"

definition batch_dims :: "shape \<Rightarrow> shape" where
  "batch_dims sh = take (length sh - 2) sh"

definition matmul_batch :: "(shape \<Rightarrow> shape \<Rightarrow> shape option) \<Rightarrow> shape \<Rightarrow> shape \<Rightarrow> (tir_error, shape) result" where
  "matmul_batch getBroadcastedShape inputAShape inputBShape =
     (if length inputAShape > 2 \<or> length inputBShape > 2
      then (case getBroadcastedShape (batch_dims inputAShape) (batch_dims inputBShape) of
              None \<Rightarrow> Inl NotBroadcastable
            | Some broadcastedShape \<Rightarrow> Inr broadcastedShape)
      else Inr [])"

definition verifyMatmul ::
  "(shape \<Rightarrow> shape \<Rightarrow> shape option) \<Rightarrow> shape \<Rightarrow> shape \<Rightarrow> bool \<Rightarrow> bool \<Rightarrow> shape \<Rightarrow> check" where
  "verifyMatmul getBroadcastedShape a b transposeA transposeB outputShape =
     (if length a < 1 \<or> length b < 1 then Inl InvalidRank
      else
        let inputAShape = matmul_shape_a a transposeA; inputBShape = matmul_shape_b b transposeB;
            na = length inputAShape; nb = length inputBShape
        in if inputAShape ! (na - 1) \<noteq> inputBShape ! (nb - 2) then Inl InnerMismatch
           else case matmul_batch getBroadcastedShape inputAShape inputBShape of
               Inl e \<Rightarrow> Inl e
             | Inr batch \<Rightarrow>
                 let expectedOutputShape = batch @ (if length a > 1 then [inputAShape ! (na - 2)] else [])
                       @ (if length b > 1 then [inputBShape ! (nb - 1)] else [])
                 in if length expectedOutputShape = 0
                    then (if length outputShape < 1 then Inl ScalarOutput
                          else if length outputShape > 1 \<or> outputShape ! 0 \<noteq> 1 then Inl ScalarOutput
                          else success)
                    else if length outputShape \<noteq> length expectedOutputShape then Inl RankMismatch
                    else check_all (\<lambda>i. if outputShape ! i \<noteq> expectedOutputShape ! i then Inl (BadSize i) else success)
                           [0..<length outputShape])"

text \<open>The loop over \<open>reduceDims\<close>: the set of the dimensions as they are written, and the dimsMask
  of the normalised ones.\<close>

fun reduce_loop :: "int \<Rightarrow> int list \<Rightarrow> int list \<Rightarrow> bool list \<Rightarrow> (tir_error, int list \<times> bool list) result" where
  "reduce_loop r [] uniqueReduceDims dimsMask = Inr (uniqueReduceDims, dimsMask)"
| "reduce_loop r (d # ds) uniqueReduceDims dimsMask =
     (if d < - r \<or> d \<ge> r then Inl InvalidDim
      else reduce_loop r ds (List.insert d uniqueReduceDims) (dimsMask[nat ((d + r) mod r) := True]))"

definition reduced_shape :: "shape \<Rightarrow> bool list \<Rightarrow> bool \<Rightarrow> shape" where
  "reduced_shape sh dimsMask keepDim =
     concat (map (\<lambda>i. if \<not> dimsMask ! i then [sh ! i] else if keepDim then [1] else []) [0..<length sh])"

definition verifyReduceOp :: "shape \<Rightarrow> int list option \<Rightarrow> bool \<Rightarrow> shape \<Rightarrow> check" where
  "verifyReduceOp inputShape reduceDims keepDim specifiedOutputShape =
     (let r = length inputShape;
          outcome = (case reduceDims of
              None \<Rightarrow> Inr (replicate r True)
            | Some dims \<Rightarrow>
                (case reduce_loop (int r) dims [] (replicate r False) of
                   Inl e \<Rightarrow> Inl e
                 | Inr (uniqueReduceDims, dimsMask) \<Rightarrow>
                     if length uniqueReduceDims \<noteq> length dims then Inl NotUnique else Inr dimsMask))
      in case outcome of
           Inl e \<Rightarrow> Inl e
         | Inr dimsMask \<Rightarrow> if specifiedOutputShape \<noteq> reduced_shape inputShape dimsMask keepDim then Inl OutputMismatch else success)"

section \<open>The verifier of a value and of everything it is computed from\<close>

primrec verify_op :: "(shape \<Rightarrow> shape \<Rightarrow> shape option) \<Rightarrow> 'e val \<Rightarrow> check" where
  "verify_op gbs (Arg n t) = success"
| "verify_op gbs (ConcatOp xs dim t) = verifyConcat (map getType xs) dim t"
| "verify_op gbs (SliceStaticOp x begins ends step t) = verifySliceStatic (getType x) begins ends step t"
| "verify_op gbs (PermuteOp x permutation decomposed t) = verifyPermute (getType x) permutation t"
| "verify_op gbs (ReshapeOp x sh t) = verifyReshape (getType x) sh t"
| "verify_op gbs (BroadcastOp x dims t) = verifyBroadcast gbs (getType x) dims t"
| "verify_op gbs (RepeatOp x dims t) = verifyRepeat (getType x) dims t"
| "verify_op gbs (RepeatInterleaveOp x repeats dim t) = verifyRepeatInterleave (getType x) repeats dim t"
| "verify_op gbs (ReverseOp x dims t) = verifyReverse (getType x) dims"
| "verify_op gbs (TransposeOp x dim0 dim1 t) = verifyTranspose (getType x) dim0 dim1 t"
| "verify_op gbs (SqueezeOp x dim t) = verifySqueeze (getType x) dim t"
| "verify_op gbs (UnsqueezeOp x dim t) = verifyUnsqueeze (getType x) dim t"

primrec operands :: "'e val \<Rightarrow> 'e val list" where
  "operands (Arg n t) = []"
| "operands (ConcatOp xs dim t) = xs"
| "operands (SliceStaticOp x begins ends step t) = [x]"
| "operands (PermuteOp x permutation decomposed t) = [x]"
| "operands (ReshapeOp x sh t) = [x]"
| "operands (BroadcastOp x dims t) = [x]"
| "operands (RepeatOp x dims t) = [x]"
| "operands (RepeatInterleaveOp x repeats dim t) = [x]"
| "operands (ReverseOp x dims t) = [x]"
| "operands (TransposeOp x dim0 dim1 t) = [x]"
| "operands (SqueezeOp x dim t) = [x]"
| "operands (UnsqueezeOp x dim t) = [x]"

end
