(* ===== verification/TirSem.thy ===== *)
theory TirSem
  imports TirModel
begin

text \<open>
  What the tensor-manipulation operations mean: each of them moves elements, so a value is described
  by the element of an argument that ends up at each coordinate (\<open>trace\<close>), as the operation
  descriptions in \<open>TTIROps.td\<close> say. The functions below are the specification the folders and
  canonicalization patterns are measured against. The main fact is that the verifiers accept only
  operations that read inside their operands (\<open>trace_in_bounds\<close>).
\<close>

section \<open>The element at a coordinate\<close>

definition slice_source :: "shape \<Rightarrow> int list \<Rightarrow> int list \<Rightarrow> coord \<Rightarrow> coord" where
  "slice_source sh begins step c =
     map (\<lambda>i. (if begins ! i < 0 then begins ! i + sh ! i else begins ! i) + step ! i * c ! i) [0..<length c]"

definition permute_source :: "int list \<Rightarrow> coord \<Rightarrow> coord" where
  "permute_source permutation c = applyPermutation c (inversePermutation permutation)"

definition reshape_source :: "shape \<Rightarrow> shape \<Rightarrow> coord \<Rightarrow> coord" where
  "reshape_source input output c = linearIdToCoord (row_index output c) input"

definition broadcast_source :: "shape \<Rightarrow> coord \<Rightarrow> coord" where
  "broadcast_source sh c = map2 (\<lambda>d i. if d = 1 then 0 else i) sh c"

definition repeat_source :: "shape \<Rightarrow> coord \<Rightarrow> coord" where
  "repeat_source sh c = map2 (\<lambda>d i. i mod d) sh c"

definition interleave_source :: "shape \<Rightarrow> int \<Rightarrow> int \<Rightarrow> coord \<Rightarrow> coord" where
  "interleave_source sh repeats dim c =
     (let d = nat (normalize_dim dim (int (length sh))) in c[d := c ! d div repeats])"

definition reverse_source :: "shape \<Rightarrow> int list \<Rightarrow> coord \<Rightarrow> coord" where
  "reverse_source sh dims c = map (\<lambda>i. if int i \<in> set dims then sh ! i - 1 - c ! i else c ! i) [0..<length c]"

definition swap_at :: "nat \<Rightarrow> nat \<Rightarrow> 'a list \<Rightarrow> 'a list" where
  "swap_at i j xs = xs[i := xs ! j, j := xs ! i]"

definition transpose_source :: "shape \<Rightarrow> int \<Rightarrow> int \<Rightarrow> coord \<Rightarrow> coord" where
  "transpose_source sh dim0 dim1 c =
     swap_at (nat (normalize_dim dim0 (int (length sh)))) (nat (normalize_dim dim1 (int (length sh)))) c"

definition squeeze_source :: "shape \<Rightarrow> int \<Rightarrow> coord \<Rightarrow> coord" where
  "squeeze_source sh dim c = (let d = nat (normalize_dim dim (int (length sh))) in take d c @ 0 # drop d c)"

definition unsqueeze_source :: "shape \<Rightarrow> int \<Rightarrow> coord \<Rightarrow> coord" where
  "unsqueeze_source sh dim c = (let d = nat (normalize_dim dim (int (length sh) + 1)) in take d c @ drop (Suc d) c)"

text \<open>A concatenation: the number of the input and the coordinate in it.\<close>

fun concat_source :: "nat \<Rightarrow> shape list \<Rightarrow> coord \<Rightarrow> nat \<times> coord" where
  "concat_source d [] c = (0, c)"
| "concat_source d (sh # shs) c =
     (if c ! d < sh ! d then (0, c)
      else let (k, c') = concat_source d shs (c[d := c ! d - sh ! d]) in (Suc k, c'))"

abbreviation concat_dim :: "'e val list \<Rightarrow> int \<Rightarrow> nat" where
  "concat_dim xs dim \<equiv> nat (normalize_dim dim (int (length (shape_of (hd xs)))))"

primrec trace :: "'e val \<Rightarrow> coord \<Rightarrow> nat \<times> coord" where
  "trace (Arg n t) = (\<lambda>c. (n, c))"
| "trace (ConcatOp xs dim t) =
     (\<lambda>c. let (k, c') = concat_source (concat_dim xs dim) (map shape_of xs) c in (map trace xs ! k) c')"
| "trace (SliceStaticOp x begins ends step t) = (\<lambda>c. trace x (slice_source (shape_of x) begins step c))"
| "trace (PermuteOp x permutation decomposed t) = (\<lambda>c. trace x (permute_source permutation c))"
| "trace (ReshapeOp x sh t) = (\<lambda>c. trace x (reshape_source (shape_of x) (ty_shape t) c))"
| "trace (BroadcastOp x dims t) = (\<lambda>c. trace x (broadcast_source (shape_of x) c))"
| "trace (RepeatOp x dims t) = (\<lambda>c. trace x (repeat_source (shape_of x) c))"
| "trace (RepeatInterleaveOp x repeats dim t) = (\<lambda>c. trace x (interleave_source (shape_of x) repeats dim c))"
| "trace (ReverseOp x dims t) = (\<lambda>c. trace x (reverse_source (shape_of x) dims c))"
| "trace (TransposeOp x dim0 dim1 t) = (\<lambda>c. trace x (transpose_source (shape_of x) dim0 dim1 c))"
| "trace (SqueezeOp x dim t) = (\<lambda>c. trace x (squeeze_source (shape_of x) dim c))"
| "trace (UnsqueezeOp x dim t) = (\<lambda>c. trace x (unsqueeze_source (shape_of x) dim c))"

section \<open>Well-formed values\<close>

text \<open>What a well-formed operation has beyond its verifier: a static shape whose sizes are
  \<open>int32_t\<close>, slice steps that do not overflow the size computation, the
  \<open>AllShapesMatch\<close> trait of \<open>ReverseOp\<close>, a positive \<open>uint32_t\<close> repeat count, at
  least one input of a concatenation, and the parts of the result shape of concat and transpose that
  the documentation fixes and the verifiers do not look at.\<close>

definition small_shape :: "shape \<Rightarrow> bool" where
  "small_shape sh \<longleftrightarrow> list_all (\<lambda>d. 0 \<le> d \<and> d < 2 ^ 31) sh"

primrec documented :: "'e val \<Rightarrow> bool" where
  "documented (Arg n t) = True"
| "documented (ConcatOp xs dim t) =
     (xs \<noteq> [] \<and> (let sh = shape_of (hd xs); d = concat_dim xs dim in ty_shape t = sh[d := ty_shape t ! d]))"
| "documented (SliceStaticOp x begins ends step t) =
     (list_all2 (\<lambda>s d. \<bar>s\<bar> + d < 2 ^ 31) step (shape_of x) \<and>
      list_all (\<lambda>b. - (2 ^ 31) \<le> b \<and> b < 2 ^ 31) begins \<and> list_all (\<lambda>b. - (2 ^ 31) \<le> b \<and> b < 2 ^ 31) ends)"
| "documented (PermuteOp x permutation decomposed t) = True"
| "documented (ReshapeOp x sh t) = True"
| "documented (BroadcastOp x dims t) = True"
| "documented (RepeatOp x dims t) = True"
| "documented (RepeatInterleaveOp x repeats dim t) = (0 \<le> repeats)"
| "documented (ReverseOp x dims t) = (ty_shape t = shape_of x)"
| "documented (TransposeOp x dim0 dim1 t) =
     (ty_shape t = transpose_source (shape_of x) dim0 dim1 (shape_of x))"
| "documented (SqueezeOp x dim t) = True"
| "documented (UnsqueezeOp x dim t) = True"

lemma operands_size [termination_simp]: "x \<in> set (operands v) \<Longrightarrow> size x < size v"
  by (cases v) (auto simp: less_Suc_eq_le intro: size_list_estimation')

fun well_formed :: "(shape \<Rightarrow> shape \<Rightarrow> shape option) \<Rightarrow> 'e val \<Rightarrow> bool" where
  "well_formed gbs v \<longleftrightarrow> verify_op gbs v = success \<and> small_shape (shape_of v) \<and> documented v \<and>
     (\<forall>x\<in>set (operands v). well_formed gbs x)"

declare well_formed.simps [simp del]

primrec args :: "'e val \<Rightarrow> (nat \<times> shape) list" where
  "args (Arg n t) = [(n, ty_shape t)]"
| "args (ConcatOp xs dim t) = concat (map args xs)"
| "args (SliceStaticOp x begins ends step t) = args x"
| "args (PermuteOp x permutation decomposed t) = args x"
| "args (ReshapeOp x sh t) = args x"
| "args (BroadcastOp x dims t) = args x"
| "args (RepeatOp x dims t) = args x"
| "args (RepeatInterleaveOp x repeats dim t) = args x"
| "args (ReverseOp x dims t) = args x"
| "args (TransposeOp x dim0 dim1 t) = args x"
| "args (SqueezeOp x dim t) = args x"
| "args (UnsqueezeOp x dim t) = args x"

lemma well_formedD:
  assumes "well_formed gbs v"
  shows "verify_op gbs v = success" "small_shape (shape_of v)" "documented v"
    "x \<in> set (operands v) \<Longrightarrow> well_formed gbs x"
  using assms by (simp_all add: well_formed.simps [of gbs v])

lemma small_static: "small_shape sh \<Longrightarrow> static_shape sh"
  by (auto simp: small_shape_def static_shape_def list_all_iff)

lemma small_nth: "small_shape sh \<Longrightarrow> i < length sh \<Longrightarrow> 0 \<le> sh ! i \<and> sh ! i < 2 ^ 31"
  by (auto simp: small_shape_def list_all_length)

section \<open>What the verifiers accept\<close>

lemma if_error [simp]:
  "(if b then Inl e else k) = success \<longleftrightarrow> \<not> b \<and> k = success"
  by simp

lemma normalize_dim_bounds:
  "- r \<le> d \<Longrightarrow> d < r \<Longrightarrow> 0 \<le> normalize_dim d r \<and> normalize_dim d r < r"
  by (auto simp: normalize_dim_def)

text \<open>A slice dimension: in exact arithmetic the coordinates read are
  \<open>begin, begin + step, ...\<close>, all inside the dimension.\<close>

lemma slice_bound_exact:
  assumes "- (2 ^ 31) \<le> b" "b < 2 ^ 31" "0 \<le> d" "d < 2 ^ 31"
  shows "slice_bound d b = (if b < 0 then b + d else b)"
  using assms by (simp add: slice_bound_def)

lemma slice_size_exact:
  assumes "\<bar>e - b\<bar> + \<bar>s\<bar> < 2 ^ 31"
  shows "slice_size b e s = (\<bar>e - b\<bar> + \<bar>s\<bar> - 1) sdiv \<bar>s\<bar>"
proof -
  have 1: "to_i32 (e - b) = e - b" "to_i32 \<bar>e - b\<bar> = \<bar>e - b\<bar>" "to_i32 \<bar>s\<bar> = \<bar>s\<bar>"
    using assms by (auto intro!: to_i32_exact)
  have 2: "to_i32 (\<bar>e - b\<bar> + \<bar>s\<bar>) = \<bar>e - b\<bar> + \<bar>s\<bar>" "to_i32 (\<bar>e - b\<bar> + \<bar>s\<bar> - 1) = \<bar>e - b\<bar> + \<bar>s\<bar> - 1"
    using assms by (auto intro!: to_i32_exact)
  show ?thesis unfolding slice_size_def by (simp add: 1 2)
qed

lemma ceil_less:
  assumes "(0::int) \<le> w" "0 < s" "j < (w + s - 1) div s" "0 \<le> j"
  shows "j * s < w"
proof -
  have "(j + 1) * s \<le> ((w + s - 1) div s) * s" using assms by (intro mult_right_mono) auto
  also have "\<dots> \<le> w + s - 1" using pos_mod_sign [OF assms(2), of "w + s - 1"] by (simp add: minus_mod_eq_div_mult [symmetric])
  finally show ?thesis by (simp add: algebra_simps)
qed

lemma slice_dim_success:
  assumes "slice_dim i d b e s n = success" "0 \<le> d" "\<bar>s\<bar> + d < 2 ^ 31"
    "- (2 ^ 31) \<le> b" "b < 2 ^ 31" "- (2 ^ 31) \<le> e" "e < 2 ^ 31"
  defines "b' \<equiv> if b < 0 then b + d else b" and "e' \<equiv> if e < 0 then e + d else e"
  shows "s \<noteq> 0" "n = (\<bar>e' - b'\<bar> + \<bar>s\<bar> - 1) div \<bar>s\<bar>"
    "e' = b' \<or> (0 \<le> b' \<and> b' < d \<and> 0 \<le> e' \<and> e' \<le> d \<and> (0 < s \<longrightarrow> b' \<le> e') \<and> (s < 0 \<longrightarrow> e' \<le> b'))"
proof -
  have d: "d < 2 ^ 31" using assms(3) by simp
  note sd = assms(1) [unfolded slice_dim_def Let_def slice_bound_exact [OF assms(4,5,2) d] slice_bound_exact [OF assms(6,7,2) d],
      folded b'_def e'_def]
  show s: "s \<noteq> 0" using sd by (auto split: if_splits)
  show r: "e' = b' \<or> (0 \<le> b' \<and> b' < d \<and> 0 \<le> e' \<and> e' \<le> d \<and> (0 < s \<longrightarrow> b' \<le> e') \<and> (s < 0 \<longrightarrow> e' \<le> b'))"
    using sd by (auto split: if_splits)
  then have w: "\<bar>e' - b'\<bar> \<le> d" using assms(2) by auto
  have "n = slice_size b' e' s" using sd by (auto split: if_splits)
  also have "\<dots> = (\<bar>e' - b'\<bar> + \<bar>s\<bar> - 1) sdiv \<bar>s\<bar>" using w assms(3) by (intro slice_size_exact) simp
  also have "\<dots> = (\<bar>e' - b'\<bar> + \<bar>s\<bar> - 1) div \<bar>s\<bar>" using s by (simp add: signed_divide_int_def sgn_if)
  finally show "n = (\<bar>e' - b'\<bar> + \<bar>s\<bar> - 1) div \<bar>s\<bar>" .
qed

lemma slice_coord_in_bounds:
  assumes "slice_dim i d b e s n = success" "0 \<le> d" "\<bar>s\<bar> + d < 2 ^ 31"
    "- (2 ^ 31) \<le> b" "b < 2 ^ 31" "- (2 ^ 31) \<le> e" "e < 2 ^ 31" "0 \<le> c" "c < n"
  shows "0 \<le> (if b < 0 then b + d else b) + s * c \<and> (if b < 0 then b + d else b) + s * c < d"
proof -
  let ?b = "if b < 0 then b + d else b" and ?e = "if e < 0 then e + d else e"
  note ok = slice_dim_success [OF assms(1-7)]
  have cs: "c * \<bar>s\<bar> < \<bar>?e - ?b\<bar>"
    using ok(1,2) assms(8,9) by (intro ceil_less) auto
  have "0 \<le> c * \<bar>s\<bar>" using assms(8) by simp
  then have ne: "?e \<noteq> ?b" using cs by auto
  show ?thesis
  proof (cases "0 < s")
    case True
    then have "0 \<le> ?b" "?b \<le> ?e" "?e \<le> d" using ok(3) ne by auto
    moreover have "s * c < ?e - ?b" "0 \<le> s * c" using cs True \<open>?b \<le> ?e\<close> assms(8) by (auto simp: mult.commute)
    ultimately show ?thesis by linarith
  next
    case False
    then have s: "s < 0" using ok(1) by simp
    then have "?b < d" "?e \<le> ?b" "0 \<le> ?e" using ok(3) ne by auto
    moreover have "- (s * c) < ?b - ?e" "s * c \<le> 0"
      using cs s \<open>?e \<le> ?b\<close> assms(8) by (auto simp: mult.commute mult_nonneg_nonpos)
    ultimately show ?thesis by linarith
  qed
qed

lemma slice_in_shape:
  assumes "verifySliceStatic tx begins ends step t = success" "small_shape (ty_shape tx)"
    "list_all2 (\<lambda>s d. \<bar>s\<bar> + d < 2 ^ 31) step (ty_shape tx)"
    "list_all (\<lambda>b. - (2 ^ 31) \<le> b \<and> b < 2 ^ 31) begins" "list_all (\<lambda>b. - (2 ^ 31) \<le> b \<and> b < 2 ^ 31) ends"
    "in_shape c (ty_shape t)"
  shows "in_shape (slice_source (ty_shape tx) begins step c) (ty_shape tx)"
proof (rule in_shapeI)
  let ?n = "length (ty_shape tx)"
  have lens: "length begins = ?n" "length ends = ?n" "length step = ?n" "length (ty_shape t) = ?n"
    and dims: "\<And>i. i < ?n \<Longrightarrow> slice_dim i (ty_shape tx ! i) (begins ! i) (ends ! i) (step ! i) (ty_shape t ! i) = success"
    using assms(1) by (auto simp: verifySliceStatic_def Let_def)
  have lc: "length c = ?n" using in_shape_length [OF assms(6)] lens by simp
  then show "length (slice_source (ty_shape tx) begins step c) = ?n" by (simp add: slice_source_def)
  fix i assume i: "i < ?n"
  have "\<bar>step ! i\<bar> + ty_shape tx ! i < 2 ^ 31" using assms(3) i lens by (auto simp: list_all2_conv_all_nth)
  moreover have "- (2 ^ 31) \<le> begins ! i" "begins ! i < 2 ^ 31" "- (2 ^ 31) \<le> ends ! i" "ends ! i < 2 ^ 31"
    using assms(4,5) i lens by (auto simp: list_all_length)
  moreover have "0 \<le> c ! i" "c ! i < ty_shape t ! i" using in_shape_nth [OF assms(6), of i] i lens by auto
  ultimately show "0 \<le> slice_source (ty_shape tx) begins step c ! i \<and> slice_source (ty_shape tx) begins step c ! i < ty_shape tx ! i"
    using slice_coord_in_bounds [OF dims [OF i] _ \<open>\<bar>step ! i\<bar> + ty_shape tx ! i < 2 ^ 31\<close>] small_nth [OF assms(2) i] i lc
    by (simp only: slice_source_def nth_map length_map length_upt diff_zero nth_upt add_0)
qed

lemma permute_in_shape:
  assumes "verifyPermute tx p t = success" "in_shape c (ty_shape t)"
  shows "in_shape (permute_source p c) (ty_shape tx)"
  using assms by (auto simp: verifyPermute_def Let_def permute_source_def intro: in_shape_permuted)

lemma reshape_in_shape:
  assumes "verifyReshape tx sh t = success" "static_shape (ty_shape tx)" "in_shape c (ty_shape t)"
  shows "in_shape (reshape_source (ty_shape tx) (ty_shape t) c) (ty_shape tx)"
proof -
  have "prod_list (ty_shape tx) = prod_list (ty_shape t)"
    using assms(1) by (auto simp: verifyReshape_def getNumElements_def)
  then show ?thesis
    using row_index_bounds [OF assms(3)] linearIdToCoord_inverse [OF assms(2)] by (simp add: reshape_source_def)
qed

lemma broadcast_rev_nth:
  assumes "broadcast_rev a b = Some r" "length a = length b" "i < length a"
  shows "a ! i = b ! i \<or> a ! i = 1 \<or> b ! i = 1"
  using assms by (induction a b arbitrary: i r rule: broadcast_rev.induct) (auto simp: nth_Cons split: nat.splits if_splits)

lemma numpy_broadcast_nth:
  assumes "numpy_broadcast a b \<noteq> None" "length a = length b" "i < length a"
  shows "a ! i = b ! i \<or> a ! i = 1 \<or> b ! i = 1"
proof -
  obtain r where "broadcast_rev (rev a) (rev b) = Some r" using assms(1) by (auto simp: numpy_broadcast_def)
  then have "rev a ! (length a - Suc i) = rev b ! (length a - Suc i) \<or> rev a ! (length a - Suc i) = 1 \<or> rev b ! (length a - Suc i) = 1"
    using assms(2,3) by (intro broadcast_rev_nth) auto
  then show ?thesis using assms(2,3) by (simp add: rev_nth Suc_diff_Suc)
qed

lemma broadcast_in_shape:
  assumes "verifyBroadcast gbs tx dims t = success" "legal_broadcast gbs" "static_shape (ty_shape tx)"
    "static_shape (ty_shape t)" "in_shape c (ty_shape t)"
  shows "in_shape (broadcast_source (ty_shape tx) c) (ty_shape tx)"
proof (rule in_shapeI)
  let ?sx = "ty_shape tx" and ?st = "ty_shape t"
  have lens: "length ?sx = length ?st" "length dims = length ?sx" "numpy_broadcast ?sx ?st \<noteq> None"
    and eqs: "\<And>i. i < length dims \<Longrightarrow> ?sx ! i * dims ! i = ?st ! i"
    using assms(1-4) by (auto simp: verifyBroadcast_def Let_def legal_broadcast_def)
  have lc: "length c = length ?sx" using in_shape_length [OF assms(5)] lens by simp
  then show "length (broadcast_source ?sx c) = length ?sx" by (simp add: broadcast_source_def)
  fix i assume i: "i < length ?sx"
  have "?sx ! i = ?st ! i \<or> ?sx ! i = 1 \<or> ?st ! i = 1" using numpy_broadcast_nth [OF lens(3,1) i] .
  moreover have "?sx ! i * dims ! i = ?st ! i" using eqs i lens by simp
  moreover have "0 \<le> c ! i" "c ! i < ?st ! i" using in_shape_nth [OF assms(5), of i] i lens by auto
  moreover have "0 \<le> ?sx ! i" using assms(3) i by (auto simp: static_shape_def list_all_length)
  ultimately show "0 \<le> broadcast_source ?sx c ! i \<and> broadcast_source ?sx c ! i < ?sx ! i"
    using i lc by (auto simp: broadcast_source_def zmult_eq_1_iff)
qed

lemma repeat_in_shape:
  assumes "verifyRepeat tx dims t = success" "static_shape (ty_shape tx)" "in_shape c (ty_shape t)"
  shows "in_shape (repeat_source (ty_shape tx) c) (ty_shape tx)"
proof (rule in_shapeI)
  let ?sx = "ty_shape tx" and ?st = "ty_shape t"
  have lens: "length ?st = length ?sx" "length dims = length ?sx"
    and eqs: "\<And>i. i < length ?sx \<Longrightarrow> 0 < dims ! i \<and> ?sx ! i * dims ! i = ?st ! i"
    using assms(1) by (auto simp: verifyRepeat_def Let_def not_le)
  have lc: "length c = length ?sx" using in_shape_length [OF assms(3)] lens by simp
  then show "length (repeat_source ?sx c) = length ?sx" by (simp add: repeat_source_def)
  fix i assume i: "i < length ?sx"
  have "0 \<le> c ! i" "c ! i < ?st ! i" using in_shape_nth [OF assms(3), of i] i lens by auto
  moreover have "0 \<le> ?sx ! i" using assms(2) i by (auto simp: static_shape_def list_all_length)
  ultimately have "0 < ?sx ! i" using eqs [OF i] by (cases "?sx ! i = 0") auto
  then show "0 \<le> repeat_source ?sx c ! i \<and> repeat_source ?sx c ! i < ?sx ! i"
    using i lc by (simp add: repeat_source_def)
qed

lemma interleave_in_shape:
  assumes "verifyRepeatInterleave tx repeats dim t = success" "0 \<le> repeats" "in_shape c (ty_shape t)"
  shows "in_shape (interleave_source (ty_shape tx) repeats dim c) (ty_shape tx)"
proof (rule in_shapeI)
  let ?sx = "ty_shape tx" and ?d = "nat (normalize_dim dim (int (length (ty_shape tx))))"
  have st: "ty_shape t = ?sx[?d := ?sx ! ?d * repeats]" "0 < repeats" "dim < rank tx" "- rank tx \<le> dim"
    using assms(1,2) by (auto simp: verifyRepeatInterleave_def Let_def)
  then have d: "?d < length ?sx" using normalize_dim_bounds [of "rank tx" dim] by (simp add: zless_nat_conj nat_less_iff)
  have lc: "length c = length ?sx" using in_shape_length [OF assms(3)] st by simp
  then show "length (interleave_source ?sx repeats dim c) = length ?sx" by (simp add: interleave_source_def Let_def)
  fix i assume i: "i < length ?sx"
  have c: "0 \<le> c ! i" "c ! i < ty_shape t ! i" using in_shape_nth [OF assms(3), of i] i st by auto
  show "0 \<le> interleave_source ?sx repeats dim c ! i \<and> interleave_source ?sx repeats dim c ! i < ?sx ! i"
  proof (cases "i = ?d")
    case True
    then have "c ! i < ?sx ! i * repeats" using c(2) i st(1) by simp
    then have "c ! i div repeats < ?sx ! i" using st(2) by (rule div_less_of_mult)
    then show ?thesis using True c(1) i lc st(2) by (simp add: interleave_source_def Let_def pos_imp_zdiv_nonneg_iff)
  next
    case False
    then show ?thesis using c i st(1) by (simp add: interleave_source_def Let_def)
  qed
qed

lemma reverse_in_shape: "in_shape c sh \<Longrightarrow> in_shape (reverse_source sh dims c) sh"
  by (auto simp: reverse_source_def in_shape_def list_all2_conv_all_nth)

lemma length_swap_at [simp]: "length (swap_at i j xs) = length xs"
  by (simp add: swap_at_def)

lemma swap_at_nth:
  "i < length xs \<Longrightarrow> j < length xs \<Longrightarrow> k < length xs \<Longrightarrow>
    swap_at i j xs ! k = xs ! (if k = j then i else if k = i then j else k)"
  by (auto simp: swap_at_def nth_list_update)

lemma verifyTranspose_dims:
  assumes "verifyTranspose tx dim0 dim1 t = success"
  shows "nat (normalize_dim dim0 (rank tx)) < length (ty_shape tx)" "nat (normalize_dim dim1 (rank tx)) < length (ty_shape tx)"
  using assms normalize_dim_bounds [of "rank tx" dim0] normalize_dim_bounds [of "rank tx" dim1]
  by (auto simp: verifyTranspose_def Let_def nat_less_iff)

lemma transpose_in_shape:
  assumes "verifyTranspose tx dim0 dim1 t = success"
    "ty_shape t = transpose_source (ty_shape tx) dim0 dim1 (ty_shape tx)" "in_shape c (ty_shape t)"
  shows "in_shape (transpose_source (ty_shape tx) dim0 dim1 c) (ty_shape tx)"
proof (rule in_shapeI)
  note d = verifyTranspose_dims [OF assms(1)]
  have lc: "length c = length (ty_shape tx)" using in_shape_length [OF assms(3)] assms(2) by (simp add: transpose_source_def)
  then show "length (transpose_source (ty_shape tx) dim0 dim1 c) = length (ty_shape tx)" by (simp add: transpose_source_def)
  fix i assume i: "i < length (ty_shape tx)"
  let ?i = "if i = nat (normalize_dim dim1 (rank tx)) then nat (normalize_dim dim0 (rank tx))
    else if i = nat (normalize_dim dim0 (rank tx)) then nat (normalize_dim dim1 (rank tx)) else i"
  have i': "?i < length (ty_shape tx)" using i d by simp
  have "transpose_source (ty_shape tx) dim0 dim1 c ! i = c ! ?i"
    unfolding transpose_source_def using d lc i by (intro swap_at_nth) auto
  moreover have "ty_shape t ! ?i = ty_shape tx ! i"
    unfolding assms(2) transpose_source_def by (subst swap_at_nth) (use d i in auto)
  moreover have "0 \<le> c ! ?i \<and> c ! ?i < ty_shape t ! ?i"
    using in_shape_nth [OF assms(3), of ?i] i' assms(2) by (simp add: transpose_source_def)
  ultimately show "0 \<le> transpose_source (ty_shape tx) dim0 dim1 c ! i \<and> transpose_source (ty_shape tx) dim0 dim1 c ! i < ty_shape tx ! i"
    by simp
qed

text \<open>The skipping loop decides that the shorter shape is the longer one without \<open>dim\<close>.\<close>

lemma skip_loop_tail:
  assumes "dim < int i0"
  shows "skip_loop err dim long short j [i0..<i0 + m] = success \<longleftrightarrow> (\<forall>k<m. long ! (i0 + k) = short ! (j + k))"
  using assms
proof (induction m arbitrary: i0 j)
  case (Suc m)
  have "skip_loop err dim long short (Suc j) [Suc i0..<Suc i0 + m] = success \<longleftrightarrow> (\<forall>k<m. long ! (Suc i0 + k) = short ! (Suc j + k))"
    using Suc.prems by (intro Suc.IH) auto
  moreover have "[i0..<i0 + Suc m] = i0 # [Suc i0..<Suc i0 + m]" by (simp add: upt_conv_Cons)
  ultimately show ?case using Suc.prems by (auto simp: less_Suc_eq_0_disj)
qed simp

lemma skip_loop_head:
  assumes "i0 + m \<le> nat dim" "0 \<le> dim"
  shows "skip_loop err dim long short j ([i0..<i0 + m] @ is) = success \<longleftrightarrow>
    (\<forall>k<m. long ! (i0 + k) = short ! (j + k)) \<and> skip_loop err dim long short (j + m) is = success"
  using assms
proof (induction m arbitrary: i0 j)
  case (Suc m)
  have "skip_loop err dim long short (Suc j) ([Suc i0..<Suc i0 + m] @ is) = success \<longleftrightarrow>
    (\<forall>k<m. long ! (Suc i0 + k) = short ! (Suc j + k)) \<and> skip_loop err dim long short (Suc j + m) is = success"
    using Suc.prems by (intro Suc.IH) auto
  moreover have "[i0..<i0 + Suc m] = i0 # [Suc i0..<Suc i0 + m]" by (simp add: upt_conv_Cons)
  ultimately show ?case using Suc.prems by (auto simp: less_Suc_eq_0_disj)
qed simp

lemma skip_loop_all:
  assumes "d < length long"
  shows "skip_loop err (int d) long short 0 [0..<length long] = success \<longleftrightarrow>
    (\<forall>k<length long - 1. short ! k = long ! (if k < d then k else Suc k))"
proof -
  let ?n = "length long"
  have "[0..<?n] = [0..<d] @ [d..<?n]" using assms upt_add_eq_append [of 0 d "?n - d"] by simp
  also have "[d..<?n] = d # [Suc d..<?n]" using assms by (rule upt_conv_Cons)
  finally have "[0..<?n] = [0..<d] @ d # [Suc d..<?n]" .
  moreover have "Suc d + (?n - Suc d) = ?n" using assms by simp
  ultimately have split: "[0..<?n] = [0..<0 + d] @ d # [Suc d..<Suc d + (?n - Suc d)]" by (simp only: add_0)
  have "skip_loop err (int d) long short 0 [0..<?n] = success \<longleftrightarrow>
    (\<forall>k<d. long ! k = short ! k) \<and> (\<forall>k<?n - Suc d. long ! (Suc d + k) = short ! (d + k))"
    unfolding split using skip_loop_head [of 0 d "int d" err long short 0]
      skip_loop_tail [of "int d" "Suc d" err long short d] by simp
  also have "\<dots> \<longleftrightarrow> (\<forall>k<?n - 1. short ! k = long ! (if k < d then k else Suc k))" (is "?l \<longleftrightarrow> ?r")
  proof
    assume l: ?l
    show ?r
    proof (intro allI impI)
      fix k assume k: "k < ?n - 1"
      show "short ! k = long ! (if k < d then k else Suc k)"
      proof (cases "k < d")
        case False
        then have "k - d < ?n - Suc d" using k by simp
        with l have "long ! (Suc d + (k - d)) = short ! (d + (k - d))" by blast
        then show ?thesis using False by simp
      qed (use l in simp)
    qed
  next
    assume r: ?r
    have "long ! (Suc d + k) = short ! (d + k)" if "k < ?n - Suc d" for k
      using r [rule_format, of "d + k"] that by simp
    moreover have "long ! k = short ! k" if "k < d" for k
      using r [rule_format, of k] that assms by simp
    ultimately show ?l by simp
  qed
  finally show ?thesis .
qed

lemma skip_loop_shape:
  assumes "d < length long" "length short = length long - 1"
  shows "skip_loop err (int d) long short 0 [0..<length long] = success \<longleftrightarrow> short = take d long @ drop (Suc d) long"
  unfolding skip_loop_all [OF assms(1)] using assms
  by (auto simp: list_eq_iff_nth_eq nth_append min_def)

lemma verifySqueeze_shape:
  assumes "verifySqueeze tx dim t = success"
  defines "d \<equiv> nat (normalize_dim dim (rank tx))"
  shows "d < length (ty_shape tx)" "ty_shape tx ! d = 1" "ty_shape t = take d (ty_shape tx) @ drop (Suc d) (ty_shape tx)"
proof -
  let ?n = "normalize_dim dim (rank tx)"
  have v: "0 \<le> ?n" "?n < rank tx" "getDimSize tx ?n = 1" "rank t = rank tx - 1"
    "skip_loop DimsMismatch ?n (ty_shape tx) (ty_shape t) 0 [0..<length (ty_shape tx)] = success"
    using assms(1) by (auto simp: verifySqueeze_def Let_def)
  then have n: "?n = int d" and d: "d < length (ty_shape tx)" by (simp_all add: d_def nat_less_iff)
  show "d < length (ty_shape tx)" by (rule d)
  show "ty_shape tx ! d = 1" using v(3) by (simp add: d_def)
  have "length (ty_shape t) = length (ty_shape tx) - 1" using v(4) d by linarith
  from skip_loop_shape [OF d this] v(5) show "ty_shape t = take d (ty_shape tx) @ drop (Suc d) (ty_shape tx)"
    unfolding n by blast
qed

lemma verifyUnsqueeze_shape:
  assumes "verifyUnsqueeze tx dim t = success"
  defines "d \<equiv> nat (normalize_dim dim (rank tx + 1))"
  shows "d < length (ty_shape t)" "ty_shape t ! d = 1" "ty_shape tx = take d (ty_shape t) @ drop (Suc d) (ty_shape t)"
proof -
  let ?n = "normalize_dim dim (rank tx + 1)"
  have v: "0 \<le> ?n" "?n \<le> rank tx" "getDimSize t ?n = 1" "rank t = rank tx + 1"
    "skip_loop DimsMismatch ?n (ty_shape t) (ty_shape tx) 0 [0..<length (ty_shape t)] = success"
    using assms(1) by (auto simp: verifyUnsqueeze_def Let_def)
  then have n: "?n = int d" and d: "d < length (ty_shape t)" by (simp_all add: d_def nat_less_iff)
  show "d < length (ty_shape t)" by (rule d)
  show "ty_shape t ! d = 1" using v(3) by (simp add: d_def)
  have "length (ty_shape tx) = length (ty_shape t) - 1" using v(4) d by linarith
  from skip_loop_shape [OF d this] v(5) show "ty_shape tx = take d (ty_shape t) @ drop (Suc d) (ty_shape t)"
    unfolding n by blast
qed

lemma in_shape_append: "length c = length sh \<Longrightarrow> in_shape (c @ c') (sh @ sh') \<longleftrightarrow> in_shape c sh \<and> in_shape c' sh'"
  by (simp add: in_shape_def list_all2_append)

lemma in_shape_take: "in_shape c sh \<Longrightarrow> in_shape (take d c) (take d sh)"
  by (simp add: in_shape_def)

lemma in_shape_drop: "in_shape c sh \<Longrightarrow> in_shape (drop d c) (drop d sh)"
  by (simp add: in_shape_def)

text \<open>Inserting a unit dimension, and dropping one.\<close>

lemma in_shape_insert:
  assumes "in_shape c (take d sh @ drop (Suc d) sh)" "d < length sh" "sh ! d = 1"
  shows "in_shape (take d c @ 0 # drop d c) sh"
proof -
  have lc: "length c = length sh - 1" using in_shape_length [OF assms(1)] assms(2) by simp
  have "in_shape (take d c @ drop d c) (take d sh @ drop (Suc d) sh)" using assms(1) by simp
  then have "in_shape (take d c) (take d sh)" "in_shape (drop d c) (drop (Suc d) sh)"
    using lc assms(2) by (subst (asm) in_shape_append; simp)+
  then have "in_shape (take d c @ 0 # drop d c) (take d sh @ sh ! d # drop (Suc d) sh)"
    using lc assms(2,3) by (subst in_shape_append) auto
  then show ?thesis using id_take_nth_drop [OF assms(2)] by simp
qed

lemma in_shape_remove:
  assumes "in_shape c sh" "d < length sh"
  shows "in_shape (take d c @ drop (Suc d) c) (take d sh @ drop (Suc d) sh)"
  using in_shape_length [OF assms(1)] in_shape_take [OF assms(1), of d] in_shape_drop [OF assms(1), of "Suc d"]
  by (subst in_shape_append) simp_all

lemma squeeze_in_shape:
  assumes "verifySqueeze tx dim t = success" "in_shape c (ty_shape t)"
  shows "in_shape (squeeze_source (ty_shape tx) dim c) (ty_shape tx)"
  unfolding squeeze_source_def Let_def
  using verifySqueeze_shape [OF assms(1)] assms(2) by (intro in_shape_insert) simp_all

lemma unsqueeze_in_shape:
  assumes "verifyUnsqueeze tx dim t = success" "in_shape c (ty_shape t)"
  shows "in_shape (unsqueeze_source (ty_shape tx) dim c) (ty_shape tx)"
proof -
  note u = verifyUnsqueeze_shape [OF assms(1)]
  show ?thesis unfolding unsqueeze_source_def Let_def
    using in_shape_remove [OF assms(2) u(1)] u(3) by simp
qed

section \<open>Concatenation\<close>

lemma concat_loop_success:
  "concat_loop dim first inputs acc = Inr tot \<Longrightarrow>
    tot = acc + (\<Sum>x\<leftarrow>inputs. getDimSize x dim) \<and>
    (\<forall>x\<in>set inputs. length (ty_shape x) = length (ty_shape first) \<and>
      (\<forall>i<length (ty_shape first). int i \<noteq> dim \<longrightarrow> ty_shape x ! i = ty_shape first ! i))"
proof (induction dim first inputs acc rule: concat_loop.induct)
  case (2 dim first x inputs acc)
  let ?bad = "list_ex (\<lambda>i. int i \<noteq> dim \<and> ty_shape x ! i \<noteq> ty_shape first ! i) [0..<length (ty_shape first)]"
  have r: "rank x = rank first" and b: "\<not> ?bad"
    using "2.prems" by (simp_all only: concat_loop.simps split: if_splits) simp_all
  then have next_eq: "concat_loop dim first inputs (acc + getDimSize x dim) = Inr tot"
    using "2.prems" by (simp only: concat_loop.simps if_False not_True_eq_False refl simp_thms)
  note ih = "2.IH" [OF _ b next_eq]
  have "tot = acc + getDimSize x dim + (\<Sum>x\<leftarrow>inputs. getDimSize x dim)" using ih r by blast
  moreover have "\<forall>i<length (ty_shape first). int i \<noteq> dim \<longrightarrow> ty_shape x ! i = ty_shape first ! i"
    using b unfolding list_ex_iff by auto
  moreover have "\<forall>y\<in>set inputs. length (ty_shape y) = length (ty_shape first) \<and>
      (\<forall>i<length (ty_shape first). int i \<noteq> dim \<longrightarrow> ty_shape y ! i = ty_shape first ! i)" using ih r by blast
  ultimately show ?case using r by (simp only: list.map sum_list.Cons list.set(2) ball_simps of_nat_eq_iff add.assoc simp_thms)
qed simp

lemma verifyConcat_shape:
  assumes "verifyConcat tys dim t = success" "tys \<noteq> []"
  defines "d \<equiv> nat (normalize_dim dim (rank (hd tys)))"
  shows "d < length (ty_shape (hd tys))" "ty_shape t ! d = (\<Sum>x\<leftarrow>tys. ty_shape x ! d)"
    "x \<in> set tys \<Longrightarrow> ty_shape x = (ty_shape (hd tys))[d := ty_shape x ! d]"
proof -
  let ?n = "normalize_dim dim (rank (hd tys))"
  obtain tot where v: "0 \<le> ?n" "?n < rank (hd tys)" "getDimSize t ?n = tot"
    "concat_loop ?n (hd tys) (tl tys) (getDimSize (hd tys) ?n) = Inr tot"
    using assms(1) by (auto simp: verifyConcat_def Let_def split: sum.splits if_splits)
  then show d: "d < length (ty_shape (hd tys))" by (simp add: d_def nat_less_iff)
  note cl = concat_loop_success [OF v(4)]
  have n: "?n = int d" using v(1) by (simp add: d_def)
  have "tys = hd tys # tl tys" using assms(2) by simp
  then have "(\<Sum>x\<leftarrow>tys. ty_shape x ! d) = ty_shape (hd tys) ! d + (\<Sum>x\<leftarrow>tl tys. ty_shape x ! d)"
    by (metis list.simps(9) sum_list.Cons)
  then show "ty_shape t ! d = (\<Sum>x\<leftarrow>tys. ty_shape x ! d)" using cl v(3) by (simp add: d_def)
  assume x: "x \<in> set tys"
  show "ty_shape x = (ty_shape (hd tys))[d := ty_shape x ! d]"
  proof (cases "x = hd tys")
    case False
    then have "x \<in> set (tl tys)" using x assms(2) by (cases tys) auto
    then show ?thesis using cl d n by (auto simp: list_eq_iff_nth_eq nth_list_update)
  qed simp
qed

lemma concat_source_in_shape:
  assumes "\<forall>sh\<in>set shs. \<exists>n. sh = base[d := n] \<and> 0 \<le> n" "d < length base" "shs \<noteq> []"
    "in_shape c (base[d := (\<Sum>sh\<leftarrow>shs. sh ! d)])" "concat_source d shs c = (k, c')"
  shows "k < length shs \<and> in_shape c' (shs ! k)"
  using assms
proof (induction d shs c arbitrary: k c' rule: concat_source.induct)
  case (2 d sh shs c)
  obtain n where n: "sh = base[d := n]" using "2.prems"(1) by auto
  have lc: "length c = length base" using in_shape_length [OF "2.prems"(4)] by simp
  have c: "i < length base \<Longrightarrow> 0 \<le> c ! i \<and> c ! i < base[d := (\<Sum>sh\<leftarrow>sh # shs. sh ! d)] ! i" for i
    using in_shape_nth [OF "2.prems"(4), of i] by simp
  show ?case
  proof (cases "c ! d < sh ! d")
    case True
    have "in_shape c sh"
    proof (rule in_shapeI)
      fix i assume "i < length sh"
      then show "0 \<le> c ! i \<and> c ! i < sh ! i" using c [of i] True n by (cases "i = d") auto
    qed (use lc n in simp)
    then show ?thesis using True "2.prems"(5) by simp
  next
    case False
    obtain k1 c1 where kc: "concat_source d shs (c[d := c ! d - sh ! d]) = (k1, c1)" by fastforce
    have "shs \<noteq> []" using False c [of d] "2.prems"(2) n by auto
    moreover have "in_shape (c[d := c ! d - sh ! d]) (base[d := (\<Sum>sh\<leftarrow>shs. sh ! d)])"
    proof (rule in_shapeI)
      fix i assume "i < length (base[d := (\<Sum>sh\<leftarrow>shs. sh ! d)])"
      then show "0 \<le> c[d := c ! d - sh ! d] ! i \<and> c[d := c ! d - sh ! d] ! i < base[d := (\<Sum>sh\<leftarrow>shs. sh ! d)] ! i"
        using c [of i] False lc by (cases "i = d") auto
    qed (use lc in simp)
    ultimately have "k1 < length shs \<and> in_shape c1 (shs ! k1)"
      using "2.IH" [OF False _ _ _ _ kc] "2.prems"(1,2) by simp
    then show ?thesis using False kc "2.prems"(5) by auto
  qed
qed simp

lemma concat_wf:
  assumes "well_formed gbs (ConcatOp xs dim t)"
  defines "d \<equiv> concat_dim xs dim" and "base \<equiv> shape_of (hd xs)"
  shows "xs \<noteq> []" "d < length base" "ty_shape t = base[d := (\<Sum>sh\<leftarrow>map shape_of xs. sh ! d)]"
    "\<forall>sh\<in>set (map shape_of xs). \<exists>n. sh = base[d := n] \<and> 0 \<le> n"
proof -
  note w = well_formedD [OF assms(1)]
  show ne: "xs \<noteq> []" using w(3) by simp
  then have hd: "hd (map getType xs) = getType (hd xs)" by (cases xs) auto
  have ver: "verifyConcat (map getType xs) dim t = success" using w(1) by simp
  note cs = verifyConcat_shape [OF ver, unfolded hd, folded base_def d_def]
  have ne': "map getType xs \<noteq> []" using ne by simp
  show d: "d < length base" using cs(1) [OF ne'] by (simp add: base_def d_def)
  have "ty_shape t = base[d := ty_shape t ! d]" using w(3) by (simp add: base_def d_def Let_def)
  moreover have "ty_shape t ! d = (\<Sum>sh\<leftarrow>map shape_of xs. sh ! d)" using cs(2) [OF ne'] by (simp add: comp_def d_def base_def)
  ultimately show "ty_shape t = base[d := (\<Sum>sh\<leftarrow>map shape_of xs. sh ! d)]" by simp
  show "\<forall>sh\<in>set (map shape_of xs). \<exists>n. sh = base[d := n] \<and> 0 \<le> n"
  proof
    fix sh assume "sh \<in> set (map shape_of xs)"
    then obtain x where x: "x \<in> set xs" "sh = shape_of x" by auto
    have eq: "sh = base[d := sh ! d]"
      using cs(3) [OF ne', of "getType x"] x by (simp add: base_def d_def)
    have "well_formed gbs x" using w(4) x(1) by simp
    then have "small_shape sh" using x(2) well_formedD(2) by blast
    moreover have "length sh = length base" using arg_cong [OF eq, of length] by simp
    ultimately have "0 \<le> sh ! d" using d small_nth by simp
    then show "\<exists>n. sh = base[d := n] \<and> 0 \<le> n" using eq by blast
  qed
qed

text \<open>One step down: the coordinate an operation reads lies in the operand it reads.\<close>

lemma concat_step:
  assumes "well_formed gbs (ConcatOp xs dim t)" "in_shape c (ty_shape t)"
    "concat_source (concat_dim xs dim) (map shape_of xs) c = (k, c')"
  shows "k < length xs \<and> in_shape c' (shape_of (xs ! k))"
proof -
  note w = concat_wf [OF assms(1)]
  have ne: "map shape_of xs \<noteq> []" using w(1) by simp
  have ins: "in_shape c ((shape_of (hd xs))[concat_dim xs dim := (\<Sum>sh\<leftarrow>map shape_of xs. sh ! concat_dim xs dim)])"
    using assms(2) unfolding w(3) .
  have "k < length (map shape_of xs) \<and> in_shape c' (map shape_of xs ! k)"
    by (rule concat_source_in_shape [OF w(4) w(2) ne ins assms(3)])
  then show ?thesis by (cases "k < length xs") simp_all
qed

lemma unary_wf:
  assumes "well_formed gbs v" "operands v = [x]"
  shows "well_formed gbs x" "small_shape (shape_of x)" "static_shape (shape_of x)"
  using well_formedD(2,4) [OF assms(1)] well_formedD(2) [of gbs x] assms small_static by auto

lemma trace_reads:
  assumes "well_formed gbs v" "legal_broadcast gbs" "in_shape c (shape_of v)"
  shows "\<exists>sh. (fst (trace v c), sh) \<in> set (args v) \<and> in_shape (snd (trace v c)) sh"
  using assms(1,3)
proof (induction v arbitrary: c)
  case (ConcatOp xs dim t)
  obtain k c' where kc: "concat_source (concat_dim xs dim) (map shape_of xs) c = (k, c')" by fastforce
  have k: "k < length xs" "in_shape c' (shape_of (xs ! k))"
    using concat_step [OF ConcatOp.prems(1) _ kc] ConcatOp.prems(2) by auto
  have "well_formed gbs (xs ! k)" using well_formedD(4) [OF ConcatOp.prems(1)] k(1) by simp
  then obtain sh where "(fst (trace (xs ! k) c'), sh) \<in> set (args (xs ! k)) \<and> in_shape (snd (trace (xs ! k) c')) sh"
    using ConcatOp.IH [OF _ _ k(2)] k(1) by auto
  then show ?case using kc k(1) by (auto intro!: exI [of _ sh])
next
  case (SliceStaticOp x begins ends step t)
  note w = well_formedD(1,3) [OF SliceStaticOp.prems(1)] and u = unary_wf [OF SliceStaticOp.prems(1), simplified]
  show ?case using SliceStaticOp.IH [OF u(1) slice_in_shape] w u(2) SliceStaticOp.prems(2) by simp
next
  case (PermuteOp x p dec t)
  note w = well_formedD(1) [OF PermuteOp.prems(1)] and u = unary_wf [OF PermuteOp.prems(1), simplified]
  show ?case using PermuteOp.IH [OF u(1) permute_in_shape] w PermuteOp.prems(2) by simp
next
  case (ReshapeOp x sh t)
  note w = well_formedD(1) [OF ReshapeOp.prems(1)] and u = unary_wf [OF ReshapeOp.prems(1), simplified]
  show ?case using ReshapeOp.IH [OF u(1) reshape_in_shape] w u(3) ReshapeOp.prems(2) by simp
next
  case (BroadcastOp x dims t)
  note w = well_formedD(1,2) [OF BroadcastOp.prems(1)] and u = unary_wf [OF BroadcastOp.prems(1), simplified]
  have "static_shape (ty_shape t)" using w(2) small_static by simp
  then show ?case using BroadcastOp.IH [OF u(1) broadcast_in_shape [OF _ assms(2)]] w u(3) BroadcastOp.prems(2) by simp
next
  case (RepeatOp x dims t)
  note w = well_formedD(1) [OF RepeatOp.prems(1)] and u = unary_wf [OF RepeatOp.prems(1), simplified]
  show ?case using RepeatOp.IH [OF u(1) repeat_in_shape] w u(3) RepeatOp.prems(2) by simp
next
  case (RepeatInterleaveOp x repeats dim t)
  note w = well_formedD(1,3) [OF RepeatInterleaveOp.prems(1)] and u = unary_wf [OF RepeatInterleaveOp.prems(1), simplified]
  show ?case using RepeatInterleaveOp.IH [OF u(1) interleave_in_shape] w RepeatInterleaveOp.prems(2) by simp
next
  case (ReverseOp x dims t)
  note w = well_formedD(3) [OF ReverseOp.prems(1)] and u = unary_wf [OF ReverseOp.prems(1), simplified]
  show ?case using ReverseOp.IH [OF u(1) reverse_in_shape] w ReverseOp.prems(2) by simp
next
  case (TransposeOp x dim0 dim1 t)
  note w = well_formedD(1,3) [OF TransposeOp.prems(1)] and u = unary_wf [OF TransposeOp.prems(1), simplified]
  show ?case using TransposeOp.IH [OF u(1) transpose_in_shape] w TransposeOp.prems(2) by simp
next
  case (SqueezeOp x dim t)
  note w = well_formedD(1) [OF SqueezeOp.prems(1)] and u = unary_wf [OF SqueezeOp.prems(1), simplified]
  show ?case using SqueezeOp.IH [OF u(1) squeeze_in_shape] w SqueezeOp.prems(2) by simp
next
  case (UnsqueezeOp x dim t)
  note w = well_formedD(1) [OF UnsqueezeOp.prems(1)] and u = unary_wf [OF UnsqueezeOp.prems(1), simplified]
  show ?case using UnsqueezeOp.IH [OF u(1) unsqueeze_in_shape] w UnsqueezeOp.prems(2) by simp
qed simp

end
