(* ===== verification/RowWalk.thy ===== *)
theory RowWalk
  imports Tensors
begin

text \<open>
  The row-major walk over a shape as the code writes it in several places: a coordinate is incremented
  from its last dimension on, with a carry, and visits every coordinate once and in order.
\<close>

text \<open>The row-major increment: the loop runs over \<open>dim = n - 1, ..., 0\<close>.\<close>

fun advance_loop :: "shape \<Rightarrow> nat \<Rightarrow> coord \<Rightarrow> coord" where
  "advance_loop outputShape 0 outputCoord = outputCoord"
| "advance_loop outputShape (Suc dim) outputCoord =
     (let c = outputCoord[dim := outputCoord ! dim + 1]
      in if c ! dim < outputShape ! dim then c else advance_loop outputShape dim (c[dim := 0]))"

section \<open>The row-major walk\<close>

lemma row_index_update:
  assumes "length c = length sh" "i < length sh"
  shows "row_index sh (c[i := x]) = row_index sh c + (x - c ! i) * prod_list (drop (Suc i) sh)"
  using assms
proof (induction sh c arbitrary: i rule: row_index.induct)
  case (1 d ds a cs)
  show ?case
  proof (cases i)
    case 0
    then show ?thesis by (simp add: algebra_simps)
  next
    case (Suc j)
    then have "row_index ds (cs[j := x]) = row_index ds cs + (x - cs ! j) * prod_list (drop (Suc j) ds)"
      using 1 by simp
    then show ?thesis using Suc by simp
  qed
qed simp_all

lemma drop_prod: "i < length sh \<Longrightarrow> prod_list (drop i sh) = sh ! i * prod_list (drop (Suc i) sh :: int list)"
  by (simp add: Cons_nth_drop_Suc [symmetric])

lemma in_shape_update:
  "in_shape c sh \<Longrightarrow> 0 \<le> x \<Longrightarrow> i < length sh \<Longrightarrow> x < sh ! i \<Longrightarrow> in_shape (c[i := x]) sh"
  by (auto simp: in_shape_def list_all2_conv_all_nth nth_list_update)

lemma advance_loop_step:
  assumes "in_shape c sh" "n \<le> length sh" "\<exists>i<n. c ! i + 1 < sh ! i"
  shows "in_shape (advance_loop sh n c) sh \<and>
    row_index sh (advance_loop sh n c) = row_index sh c + prod_list (drop n sh)"
  using assms
proof (induction n arbitrary: c)
  case (Suc n)
  have n: "n < length sh" and lc: "length c = length sh" using Suc.prems in_shape_length by auto
  have cn: "0 \<le> c ! n" "c ! n < sh ! n" using in_shape_nth [OF Suc.prems(1) n] by auto
  show ?case
  proof (cases "c ! n + 1 < sh ! n")
    case True
    then have "advance_loop sh (Suc n) c = c[n := c ! n + 1]" using n lc by (simp add: Let_def)
    moreover have "in_shape (c[n := c ! n + 1]) sh" using Suc.prems(1) cn n True by (intro in_shape_update) auto
    moreover have "row_index sh (c[n := c ! n + 1]) = row_index sh c + prod_list (drop (Suc n) sh)"
      using row_index_update [OF lc n] by simp
    ultimately show ?thesis by simp
  next
    case False
    then have eq: "advance_loop sh (Suc n) c = advance_loop sh n (c[n := 0])" using n lc by (simp add: Let_def)
    have z: "in_shape (c[n := 0]) sh" using Suc.prems(1) cn n by (intro in_shape_update) auto
    have "\<exists>i<n. c[n := 0] ! i + 1 < sh ! i"
    proof -
      from Suc.prems(3) obtain i where i: "i < Suc n" "c ! i + 1 < sh ! i" by blast
      then have "i < n" using False less_Suc_eq by auto
      then show ?thesis using i by (intro exI [of _ i]) auto
    qed
    then have ih: "in_shape (advance_loop sh n (c[n := 0])) sh"
      "row_index sh (advance_loop sh n (c[n := 0])) = row_index sh (c[n := 0]) + prod_list (drop n sh)"
      using Suc.IH [OF z] n by auto
    have sn: "sh ! n = c ! n + 1" using False cn by simp
    have "row_index sh (c[n := 0]) + prod_list (drop n sh) = row_index sh c + prod_list (drop (Suc n) sh)"
      using row_index_update [OF lc n, of 0] drop_prod [OF n] unfolding sn by (simp add: algebra_simps)
    then show ?thesis unfolding eq using ih by simp
  qed
qed simp

lemma row_index_last:
  assumes "in_shape c sh" "\<not> (\<exists>i<length sh. c ! i + 1 < sh ! i)"
  shows "row_index sh c + 1 = prod_list sh"
  using assms
proof (induction sh arbitrary: c)
  case Nil
  then show ?case by (cases c) auto
next
  case (Cons d ds)
  then obtain a cs where c: "c = a # cs" "0 \<le> a" "a < d" "in_shape cs ds" by (cases c) auto
  have "\<not> (\<exists>i<length ds. cs ! i + 1 < ds ! i)" using Cons.prems(2) c(1) by fastforce
  then have "row_index ds cs + 1 = prod_list ds" by (rule Cons.IH [OF c(4)])
  moreover have "d = a + 1" using Cons.prems(2) c(1,3) by force
  ultimately show ?case using c(1) by (simp add: distrib_right)
qed

lemma advance_next:
  assumes "in_shape c sh" "row_index sh c + 1 < prod_list sh"
  shows "advance_loop sh (length sh) c = linearIdToCoord (row_index sh c + 1) sh"
proof -
  have "\<exists>i<length sh. c ! i + 1 < sh ! i" using row_index_last [OF assms(1)] assms(2) by (metis less_irrefl)
  then have "in_shape (advance_loop sh (length sh) c) sh"
    "row_index sh (advance_loop sh (length sh) c) = row_index sh c + 1"
    using advance_loop_step [OF assms(1), of "length sh"] by auto
  then show ?thesis using linearIdToCoord_row_index by fastforce
qed

lemma linearIdToCoord_zero: "static_shape sh \<Longrightarrow> 0 < prod_list sh \<Longrightarrow> linearIdToCoord 0 sh = replicate (length sh) 0"
proof -
  assume a: "static_shape sh" "0 < prod_list sh"
  have r: "row_index sh (replicate (length sh) 0) = 0" by (induction sh) auto
  have "0 \<notin> set sh" using a(2) by (metis less_irrefl prod_list_zero_iff)
  then have "in_shape (replicate (length sh) 0) sh"
    using a(1) by (auto simp: in_shape_def static_shape_def list_all2_conv_all_nth list_all_length)
      (metis nth_mem order_le_less)
  from linearIdToCoord_row_index [OF this] r show ?thesis by simp
qed

text \<open>\<open>sample\<close> visits every coordinate of a shape with at least one dimension.\<close>

lemma sample_index_coord:
  assumes "static_shape sh" "0 \<le> i" "i < prod_list sh"
  shows "sample_index sh (calculateStrides sh 1) i = linearIdToCoord i sh"
proof -
  note c = linearIdToCoord_inverse [OF assms]
  have "(i div calculateStrides sh 1 ! k) mod sh ! k = linearIdToCoord i sh ! k" if "k < length sh" for k
    using row_index_prefix_div [OF c(1) that] c(2) by simp
  then show ?thesis using in_shape_length [OF c(1)] by (intro nth_equalityI) (auto simp: sample_index_def)
qed

lemma sample_coords:
  assumes "static_shape sh" "sh \<noteq> []"
  shows "sample sh = map (\<lambda>i. linearIdToCoord i sh) [0..prod_list sh - 1]"
proof -
  have "hd sh * hd (calculateStrides sh 1) = prod_list sh" using assms(2) by (cases sh) auto
  then show ?thesis using assms by (auto simp: sample_def Let_def sample_index_coord)
qed

lemma set_sample:
  assumes "static_shape sh" "sh \<noteq> []"
  shows "set (sample sh) = {c. in_shape c sh}"
proof
  show "set (sample sh) \<subseteq> {c. in_shape c sh}"
    using linearIdToCoord_inverse [OF assms(1)] by (auto simp: sample_coords [OF assms])
  show "{c. in_shape c sh} \<subseteq> set (sample sh)"
  proof
    fix c
    assume "c \<in> {c. in_shape c sh}"
    then have "in_shape c sh" by simp
    then have "c = linearIdToCoord (row_index sh c) sh" "row_index sh c \<in> {0..prod_list sh - 1}"
      using row_index_bounds [of c sh] by (simp_all add: linearIdToCoord_row_index)
    then show "c \<in> set (sample sh)" by (auto simp: sample_coords [OF assms])
  qed
qed

lemma in_shape_append_iff:
  "length a = length sa \<Longrightarrow> in_shape (a @ b) (sa @ sb) \<longleftrightarrow> in_shape a sa \<and> in_shape b sb"
  by (simp add: in_shape_def list_all2_append)

end
