(* ===== verification/TirFold.thy ===== *)
theory TirFold
  imports TirSem RowWalk
begin

text \<open>
  The folders of the tensor-manipulation operations (\<open>lib/Dialect/TTIR/IR/TTIROps.cpp\<close>):
  identities, pairs of consecutive operations, a slice of a concatenation, and constant folding by
  an index map. \<open>one_use\<close> is \<open>hasOneUse\<close> of the producer. MLIR's index and permutation
  functions are gathered in a record, with what is documented of them as \<open>legal_mlir\<close>.
\<close>

section \<open>Constants and the library\<close>

datatype 'a dense = Splat 'a | Elems "'a list"

datatype elem_kind = FloatKind | IntegerKind | OtherKind

datatype ('e, 'a) fold_result = FoldValue "'e val" | FoldAttr "'a dense"

record mlir =
  computeStrides :: "shape \<Rightarrow> int list"
  linearize :: "coord \<Rightarrow> int list \<Rightarrow> int"
  invertPermutationVector :: "int list \<Rightarrow> int list"
  applyPermutationToVector :: "int list \<Rightarrow> int list \<Rightarrow> int list"

definition legal_mlir :: "mlir \<Rightarrow> bool" where
  "legal_mlir ml \<longleftrightarrow> row_major (computeStrides ml) (linearize ml) \<and>
     (\<forall>n p. is_permutation_of n p \<longrightarrow> invertPermutationVector ml p = inversePermutation p) \<and>
     (\<forall>xs p. length xs = length p \<longrightarrow> applyPermutationToVector ml xs p = applyPermutation xs p)"

definition orelse :: "'b option \<Rightarrow> 'b option \<Rightarrow> 'b option" where
  "orelse a b = (case a of Some r \<Rightarrow> Some r | None \<Rightarrow> b)"

section \<open>Constant folding with an index map\<close>

definition reshapeIfSplat :: "'a dense \<Rightarrow> 'a dense option" where
  "reshapeIfSplat attr = (case attr of Splat a \<Rightarrow> Some (Splat a) | Elems xs \<Rightarrow> None)"

definition shouldFold :: "shape \<Rightarrow> bool" where
  "shouldFold resultShape \<longleftrightarrow> volume resultShape 1 \<le> 1000000"

fun fold_elements :: "mlir \<Rightarrow> 'a list \<Rightarrow> int list \<Rightarrow> shape \<Rightarrow> (coord \<Rightarrow> coord) \<Rightarrow> nat \<Rightarrow> coord \<Rightarrow> 'a list" where
  "fold_elements ml inputValues inputStrides outputShape indexMap 0 outputCoord = []"
| "fold_elements ml inputValues inputStrides outputShape indexMap (Suc n) outputCoord =
     inputValues ! nat (linearize ml (indexMap outputCoord) inputStrides) #
     fold_elements ml inputValues inputStrides outputShape indexMap n
       (advance_loop outputShape (length outputShape) outputCoord)"

definition foldNonSplatTM :: "mlir \<Rightarrow> shape \<Rightarrow> shape \<Rightarrow> 'a list \<Rightarrow> (coord \<Rightarrow> coord) \<Rightarrow> 'a list" where
  "foldNonSplatTM ml inputShape outputShape inputValues indexMap =
     fold_elements ml inputValues (computeStrides ml inputShape) outputShape indexMap
       (nat (prod_list outputShape)) (replicate (length outputShape) 0)"

definition constantFoldTM ::
  "mlir \<Rightarrow> ('e \<Rightarrow> elem_kind) \<Rightarrow> shape \<Rightarrow> 'e tensor_type \<Rightarrow> 'a dense option \<Rightarrow> (coord \<Rightarrow> coord) \<Rightarrow> ('e, 'a) fold_result option" where
  "constantFoldTM ml kind inputShape resultType inputAttr indexMap =
     (case inputAttr of
        None \<Rightarrow> None
      | Some attr \<Rightarrow>
          (case reshapeIfSplat attr of
             Some d \<Rightarrow> Some (FoldAttr d)
           | None \<Rightarrow>
               if \<not> shouldFold (ty_shape resultType) then None
               else if kind (ty_elem resultType) = OtherKind then None
               else (case attr of
                       Elems xs \<Rightarrow> Some (FoldAttr (Elems (foldNonSplatTM ml inputShape (ty_shape resultType) xs indexMap)))
                     | Splat a \<Rightarrow> None)))"

section \<open>The folders\<close>

definition foldUnitConcatOp :: "'e val list \<Rightarrow> ('e, 'a) fold_result option" where
  "foldUnitConcatOp inputs = (if length inputs = 1 then Some (FoldValue (hd inputs)) else None)"

definition foldEmptyTensorsConcatOp :: "'e val list \<Rightarrow> int \<Rightarrow> 'e tensor_type \<Rightarrow> ('e, 'a) fold_result option" where
  "foldEmptyTensorsConcatOp inputs dim outputType =
     (let adjustedDim = nat (normalize_dim dim (rank outputType));
          nonEmptyInputs = filter (\<lambda>x. shape_of x ! adjustedDim \<noteq> 0) inputs
      in if length inputs = length nonEmptyInputs then None
         else if nonEmptyInputs = [] then Some (FoldValue (hd inputs))
         else Some (FoldValue (ConcatOp nonEmptyInputs dim outputType)))"

definition foldIdentityReshape :: "'e val \<Rightarrow> 'e tensor_type \<Rightarrow> ('e, 'a) fold_result option" where
  "foldIdentityReshape x t = (if t = getType x then Some (FoldValue x) else None)"

definition foldConsecutiveReshape :: "'e val \<Rightarrow> int list \<Rightarrow> 'e tensor_type \<Rightarrow> ('e, 'a) fold_result option" where
  "foldConsecutiveReshape x sh t =
     (case x of ReshapeOp y sh1 t1 \<Rightarrow> Some (FoldValue (ReshapeOp y sh t)) | _ \<Rightarrow> None)"

definition constFoldReshape :: "'a dense option \<Rightarrow> ('e, 'a) fold_result option" where
  "constFoldReshape constInput = map_option FoldAttr constInput"

definition broadcastIdentityFold :: "'e val \<Rightarrow> int list \<Rightarrow> ('e, 'a) fold_result option" where
  "broadcastIdentityFold x dims = (if list_all (\<lambda>d. d = 1) dims then Some (FoldValue x) else None)"

definition constFoldBroadcast :: "'a dense option \<Rightarrow> ('e, 'a) fold_result option" where
  "constFoldBroadcast constInput =
     (case constInput of None \<Rightarrow> None | Some attr \<Rightarrow> map_option FoldAttr (reshapeIfSplat attr))"

text \<open>Two slices become one: the arithmetic is on \<open>int32_t\<close>, and on the attributes as they are
  written.\<close>

definition merged_begins :: "nat \<Rightarrow> int list \<Rightarrow> int list \<Rightarrow> int list \<Rightarrow> int list" where
  "merged_begins r begins1 step1 begins2 = map (\<lambda>i. to_i32 (begins1 ! i + step1 ! i * begins2 ! i)) [0..<r]"

definition merged_ends :: "nat \<Rightarrow> int list \<Rightarrow> int list \<Rightarrow> int list \<Rightarrow> int list" where
  "merged_ends r begins1 step1 ends2 = map (\<lambda>i. to_i32 (begins1 ! i + step1 ! i * (ends2 ! i - 1) + 1)) [0..<r]"

definition merged_step :: "nat \<Rightarrow> int list \<Rightarrow> int list \<Rightarrow> int list" where
  "merged_step r step1 step2 = map (\<lambda>i. to_i32 (step1 ! i * step2 ! i)) [0..<r]"

definition foldConsecutiveSliceStatic ::
  "('e val \<Rightarrow> bool) \<Rightarrow> 'e val \<Rightarrow> int list \<Rightarrow> int list \<Rightarrow> int list \<Rightarrow> 'e tensor_type \<Rightarrow> ('e, 'a) fold_result option" where
  "foldConsecutiveSliceStatic one_use x begins2 ends2 step2 t =
     (case x of
        SliceStaticOp y begins1 ends1 step1 t1 \<Rightarrow>
          if \<not> one_use x then None
          else let r = length (shape_of x)
               in Some (FoldValue (SliceStaticOp y (merged_begins r begins1 step1 begins2)
                    (merged_ends r begins1 step1 ends2) (merged_step r step1 step2) t))
      | _ \<Rightarrow> None)"

text \<open>Static shapes only, so the branch for a dynamic size does not arise.\<close>

definition covers_input :: "nat \<Rightarrow> int \<Rightarrow> int list \<Rightarrow> int list \<Rightarrow> int list \<Rightarrow> shape \<Rightarrow> bool" where
  "covers_input concatDim offset begins ends step inputShape \<longleftrightarrow>
     list_all (\<lambda>i. begins ! i = to_i32 (if i = concatDim then offset else 0) \<and>
                    ends ! i = to_i32 (if i = concatDim then offset + inputShape ! concatDim else inputShape ! i) \<and>
                    step ! i = 1) [0..<length begins]"

fun slice_of_concat_loop :: "int \<Rightarrow> int \<Rightarrow> int list \<Rightarrow> int list \<Rightarrow> int list \<Rightarrow> 'e val list \<Rightarrow> 'e val option" where
  "slice_of_concat_loop concatDim offset begins ends step [] = None"
| "slice_of_concat_loop concatDim offset begins ends step (x # xs) =
     (if length (shape_of x) \<noteq> length begins \<or> concatDim \<ge> int (length (shape_of x))
      then slice_of_concat_loop concatDim offset begins ends step xs
      else if covers_input (nat concatDim) offset begins ends step (shape_of x) then Some x
      else slice_of_concat_loop concatDim (offset + shape_of x ! nat concatDim) begins ends step xs)"

definition foldSliceOfConcat :: "'e val \<Rightarrow> int list \<Rightarrow> int list \<Rightarrow> int list \<Rightarrow> ('e, 'a) fold_result option" where
  "foldSliceOfConcat x begins ends step =
     (case x of
        ConcatOp xs dim t \<Rightarrow>
          if length begins \<noteq> length ends \<or> length begins \<noteq> length step then None
          else map_option FoldValue
            (slice_of_concat_loop (normalize_dim dim (int (length begins))) 0 begins ends step xs)
      | _ \<Rightarrow> None)"

definition slice_index_map :: "shape \<Rightarrow> int list \<Rightarrow> int list \<Rightarrow> coord \<Rightarrow> coord" where
  "slice_index_map inputShape begins step outputCoord =
     (let begins' = map (\<lambda>i. if begins ! i < 0 then begins ! i + inputShape ! i else begins ! i) [0..<length inputShape]
      in map (\<lambda>i. begins' ! i + step ! i * outputCoord ! i) [0..<length outputCoord])"

definition constantFoldSliceStatic ::
  "mlir \<Rightarrow> ('e \<Rightarrow> elem_kind) \<Rightarrow> 'e val \<Rightarrow> int list \<Rightarrow> int list \<Rightarrow> 'e tensor_type \<Rightarrow> 'a dense option \<Rightarrow> ('e, 'a) fold_result option" where
  "constantFoldSliceStatic ml kind x begins step t constInput =
     constantFoldTM ml kind (shape_of x) t constInput (slice_index_map (shape_of x) begins step)"

definition foldConsecutiveRepeat :: "('e val \<Rightarrow> bool) \<Rightarrow> 'e val \<Rightarrow> int list \<Rightarrow> 'e tensor_type \<Rightarrow> ('e, 'a) fold_result option" where
  "foldConsecutiveRepeat one_use x consumerDims t =
     (case x of
        RepeatOp y producerDims t1 \<Rightarrow>
          if \<not> one_use x then None
          else Some (FoldValue (RepeatOp y (map (\<lambda>i. producerDims ! i * consumerDims ! i) [0..<length (shape_of y)]) t))
      | _ \<Rightarrow> None)"

definition foldIdentityRepeat :: "'e val \<Rightarrow> int list \<Rightarrow> ('e, 'a) fold_result option" where
  "foldIdentityRepeat x dims = (if list_all (\<lambda>d. d = 1) dims then Some (FoldValue x) else None)"

definition repeat_index_map :: "shape \<Rightarrow> coord \<Rightarrow> coord" where
  "repeat_index_map inputShape outputCoords = map2 (\<lambda>i d. i smod d) outputCoords inputShape"

definition constantFoldRepeat ::
  "mlir \<Rightarrow> ('e \<Rightarrow> elem_kind) \<Rightarrow> 'e val \<Rightarrow> 'e tensor_type \<Rightarrow> 'a dense option \<Rightarrow> ('e, 'a) fold_result option" where
  "constantFoldRepeat ml kind x t input = constantFoldTM ml kind (shape_of x) t input (repeat_index_map (shape_of x))"

definition foldIdentityRepeatInterleave :: "'e val \<Rightarrow> int \<Rightarrow> ('e, 'a) fold_result option" where
  "foldIdentityRepeatInterleave x repeats = (if repeats = 1 then Some (FoldValue x) else None)"

text \<open>The index \<open>i\<close> is compared with \<open>static_cast<size_t>(dim)\<close>: a negative \<open>dim\<close> is
  never met.\<close>

definition interleave_index_map :: "int \<Rightarrow> int \<Rightarrow> coord \<Rightarrow> coord" where
  "interleave_index_map dim repeats outputCoords =
     map (\<lambda>i. if int i = dim mod 2 ^ 64 then outputCoords ! i sdiv repeats else outputCoords ! i) [0..<length outputCoords]"

definition constantFoldRepeatInterleave ::
  "mlir \<Rightarrow> ('e \<Rightarrow> elem_kind) \<Rightarrow> 'e val \<Rightarrow> int \<Rightarrow> int \<Rightarrow> 'e tensor_type \<Rightarrow> 'a dense option \<Rightarrow> ('e, 'a) fold_result option" where
  "constantFoldRepeatInterleave ml kind x repeats dim t input =
     constantFoldTM ml kind (shape_of x) t input (interleave_index_map dim repeats)"

definition foldIdentityPermute :: "'e val \<Rightarrow> int list \<Rightarrow> ('e, 'a) fold_result option" where
  "foldIdentityPermute x permutation =
     (if sorted permutation then Some (FoldValue x)
      else let inputShape = shape_of x
           in if list_ex (\<lambda>i. permutation ! i \<noteq> int i \<and> (inputShape ! i \<noteq> 1 \<or> inputShape ! nat (permutation ! i) \<noteq> 1))
                [0..<length permutation]
              then None else Some (FoldValue x))"

definition foldConsecutivePermute :: "'e val \<Rightarrow> int list \<Rightarrow> bool \<Rightarrow> 'e tensor_type \<Rightarrow> ('e, 'a) fold_result option" where
  "foldConsecutivePermute x permutation decomposed t =
     (if decomposed then None
      else case x of
          PermuteOp y producerPermutation d t1 \<Rightarrow>
            Some (FoldValue (PermuteOp y (applyPermutation producerPermutation permutation) decomposed t))
        | _ \<Rightarrow> None)"

definition constantFoldPermute ::
  "mlir \<Rightarrow> ('e \<Rightarrow> elem_kind) \<Rightarrow> 'e val \<Rightarrow> int list \<Rightarrow> 'e tensor_type \<Rightarrow> 'a dense option \<Rightarrow> ('e, 'a) fold_result option" where
  "constantFoldPermute ml kind x permutation t input =
     (let invPerm = invertPermutationVector ml permutation
      in constantFoldTM ml kind (shape_of x) t input (\<lambda>coord. applyPermutationToVector ml coord invPerm))"

text \<open>Each operation's \<open>fold\<close>; the operations without one return null.\<close>

fun fold_op ::
  "mlir \<Rightarrow> ('e \<Rightarrow> elem_kind) \<Rightarrow> ('e val \<Rightarrow> bool) \<Rightarrow> 'a dense option \<Rightarrow> 'e val \<Rightarrow> ('e, 'a) fold_result option" where
  "fold_op ml kind one_use input (ConcatOp xs dim t) =
     orelse (foldUnitConcatOp xs) (foldEmptyTensorsConcatOp xs dim t)"
| "fold_op ml kind one_use input (ReshapeOp x sh t) =
     orelse (foldIdentityReshape x t) (orelse (foldConsecutiveReshape x sh t) (constFoldReshape input))"
| "fold_op ml kind one_use input (BroadcastOp x dims t) =
     orelse (broadcastIdentityFold x dims) (constFoldBroadcast input)"
| "fold_op ml kind one_use input (SliceStaticOp x begins ends step t) =
     orelse (foldConsecutiveSliceStatic one_use x begins ends step t)
       (orelse (foldSliceOfConcat x begins ends step) (constantFoldSliceStatic ml kind x begins step t input))"
| "fold_op ml kind one_use input (RepeatOp x dims t) =
     orelse (foldIdentityRepeat x dims)
       (orelse (foldConsecutiveRepeat one_use x dims t) (constantFoldRepeat ml kind x t input))"
| "fold_op ml kind one_use input (RepeatInterleaveOp x repeats dim t) =
     orelse (foldIdentityRepeatInterleave x repeats) (constantFoldRepeatInterleave ml kind x repeats dim t input)"
| "fold_op ml kind one_use input (PermuteOp x permutation decomposed t) =
     orelse (foldIdentityPermute x permutation)
       (orelse (foldConsecutivePermute x permutation decomposed t) (constantFoldPermute ml kind x permutation t input))"
| "fold_op ml kind one_use input v = None"

end
