(* ===== verification/TirConst.thy ===== *)
theory TirConst
  imports TirFold
begin

text \<open>
  The constant folders: the row-major walk over the output visits every coordinate once and in order,
  so the folded constant holds at each coordinate the element that the operation reads there.
\<close>

text \<open>The folded elements, one for every linear index.\<close>

lemma fold_elements_map:
  assumes "static_shape sh" "0 \<le> i" "i + int n \<le> prod_list sh"
  shows "fold_elements ml xs strides sh f n (linearIdToCoord i sh) =
    map (\<lambda>k. xs ! nat (linearize ml (f (linearIdToCoord (i + int k) sh)) strides)) [0..<n]"
  using assms(2,3)
proof (induction n arbitrary: i)
  case (Suc n)
  have i: "in_shape (linearIdToCoord i sh) sh" "row_index sh (linearIdToCoord i sh) = i"
    using linearIdToCoord_inverse [OF assms(1)] Suc.prems by auto
  have up: "[0..<Suc n] = 0 # map Suc [0..<n]" by (simp add: map_Suc_upt upt_conv_Cons)
  show ?case
  proof (cases n)
    case 0
    then show ?thesis by simp
  next
    case (Suc m)
    then have "advance_loop sh (length sh) (linearIdToCoord i sh) = linearIdToCoord (i + 1) sh"
      using advance_next [OF i(1)] i(2) Suc.prems by simp
    moreover have "fold_elements ml xs strides sh f n (linearIdToCoord (i + 1) sh) =
      map (\<lambda>k. xs ! nat (linearize ml (f (linearIdToCoord (i + 1 + int k) sh)) strides)) [0..<n]"
      using Suc.prems by (intro Suc.IH) auto
    ultimately show ?thesis unfolding up by (simp add: comp_def algebra_simps)
  qed
qed simp

definition dense_at :: "'a dense \<Rightarrow> shape \<Rightarrow> coord \<Rightarrow> 'a" where
  "dense_at d sh c = (case d of Splat a \<Rightarrow> a | Elems xs \<Rightarrow> xs ! nat (row_index sh c))"

lemma dense_at_simps [simp]:
  "dense_at (Splat a) sh c = a" "dense_at (Elems xs) sh c = xs ! nat (row_index sh c)"
  by (simp_all add: dense_at_def)

lemma foldNonSplatTM_at:
  assumes "row_major (computeStrides ml) (linearize ml)" "static_shape sh" "in_shape c sh"
    "length (f c) = length insh"
  shows "foldNonSplatTM ml insh sh xs f ! nat (row_index sh c) = xs ! nat (row_index insh (f c))"
proof -
  have b: "0 \<le> row_index sh c" "row_index sh c < prod_list sh" using row_index_bounds [OF assms(3)] by auto
  let ?n = "nat (prod_list sh)"
  have z: "replicate (length sh) 0 = linearIdToCoord 0 sh"
    using linearIdToCoord_zero [OF assms(2) in_shape_prod_pos [OF assms(3)]] by simp
  have "foldNonSplatTM ml insh sh xs f =
    map (\<lambda>k. xs ! nat (linearize ml (f (linearIdToCoord (0 + int k) sh)) (computeStrides ml insh))) [0..<?n]"
    unfolding foldNonSplatTM_def z using b by (intro fold_elements_map [OF assms(2)]) auto
  then have "foldNonSplatTM ml insh sh xs f ! nat (row_index sh c) =
    xs ! nat (linearize ml (f (linearIdToCoord (row_index sh c) sh)) (computeStrides ml insh))"
    using b by (simp add: nat_less_iff)
  then show ?thesis
    using row_major.linearize_strides [OF assms(1,4)] linearIdToCoord_row_index [OF assms(3)] by simp
qed

lemma constantFoldTM_at:
  assumes "constantFoldTM ml kind insh t (Some d) f = Some (FoldAttr d')" "row_major (computeStrides ml) (linearize ml)"
    "static_shape (ty_shape t)" "in_shape c (ty_shape t)" "length (f c) = length insh"
  shows "dense_at d' (ty_shape t) c = dense_at d insh (f c)"
proof (cases d)
  case (Splat a)
  then have "d' = Splat a" using assms(1) by (simp add: constantFoldTM_def reshapeIfSplat_def)
  then show ?thesis using Splat by simp
next
  case (Elems xs)
  then have "d' = Elems (foldNonSplatTM ml insh (ty_shape t) xs f)"
    using assms(1) by (auto simp: constantFoldTM_def reshapeIfSplat_def split: if_splits)
  then show ?thesis using foldNonSplatTM_at [where f = f and sh = "ty_shape t", OF assms(2-5)] Elems by simp
qed

section \<open>The index maps of the folders\<close>

lemma slice_index_map_source:
  "length c = length sh \<Longrightarrow> slice_index_map sh begins step c = slice_source sh begins step c"
  by (simp add: slice_index_map_def slice_source_def Let_def)

lemma repeat_index_map_source:
  assumes "in_shape c out" "length out = length sh" "static_shape sh"
  shows "repeat_index_map sh c = repeat_source sh c"
proof (rule nth_equalityI)
  have lc: "length c = length sh" using in_shape_length [OF assms(1)] assms(2) by simp
  then show "length (repeat_index_map sh c) = length (repeat_source sh c)" by (simp add: repeat_index_map_def repeat_source_def)
  fix i assume "i < length (repeat_index_map sh c)"
  then have i: "i < length sh" using lc by (simp add: repeat_index_map_def)
  have "0 \<le> c ! i" "0 \<le> sh ! i"
    using in_shape_nth [OF assms(1), of i] i assms(2,3) by (auto simp: static_shape_def list_all_length)
  then have "c ! i smod sh ! i = c ! i mod sh ! i"
    by (simp add: signed_modulo_int_def signed_divide_int_def sgn_if minus_div_mult_eq_mod [symmetric] minus_mult_div_eq_mod)
  then show "repeat_index_map sh c ! i = repeat_source sh c ! i"
    using i lc by (simp add: repeat_index_map_def repeat_source_def)
qed

lemma interleave_index_map_source:
  assumes "in_shape c out" "length out = length sh" "0 \<le> dim" "dim < int (length sh)" "int (length sh) < 2 ^ 64" "0 \<le> repeats"
  shows "interleave_index_map dim repeats c = interleave_source sh repeats dim c"
proof (rule nth_equalityI)
  have lc: "length c = length sh" using in_shape_length [OF assms(1)] assms(2) by simp
  show "length (interleave_index_map dim repeats c) = length (interleave_source sh repeats dim c)"
    by (simp add: interleave_index_map_def interleave_source_def Let_def)
  fix i assume "i < length (interleave_index_map dim repeats c)"
  then have i: "i < length c" by (simp add: interleave_index_map_def)
  have "dim mod 2 ^ 64 = dim" using assms(3-5) by simp
  moreover have "0 \<le> c ! i" using in_shape_nth [OF assms(1), of i] i lc assms(2) by auto
  then have "c ! i sdiv repeats = c ! i div repeats" using assms(6) by (auto simp: signed_divide_int_def sgn_if)
  ultimately show "interleave_index_map dim repeats c ! i = interleave_source sh repeats dim c ! i"
    using i lc assms(3,4) by (auto simp: interleave_index_map_def interleave_source_def Let_def normalize_dim_def nth_list_update)
qed

end
