(* ===== verification/TirFoldSound.thy ===== *)
theory TirFoldSound
  imports TirConst
begin

text \<open>
  One soundness lemma for each folder that replaces a value: the replacement is well formed, has the
  same shape, and holds the same element at every coordinate.
\<close>

section \<open>One lemma for each folder\<close>

text \<open>\<open>same v w\<close>: \<open>w\<close> may replace \<open>v\<close>.\<close>

definition same :: "(shape \<Rightarrow> shape \<Rightarrow> shape option) \<Rightarrow> 'e val \<Rightarrow> 'e val \<Rightarrow> bool" where
  "same gbs v w \<longleftrightarrow> well_formed gbs w \<and> shape_of w = shape_of v \<and> (\<forall>c. in_shape c (shape_of v) \<longrightarrow> trace w c = trace v c)"

lemma sameI:
  assumes "well_formed gbs w" "shape_of w = shape_of v" "\<And>c. in_shape c (shape_of v) \<Longrightarrow> trace w c = trace v c"
  shows "same gbs v w"
  using assms by (simp add: same_def)

lemma well_formedI:
  assumes "verify_op gbs v = success" "small_shape (shape_of v)" "documented v" "\<And>x. x \<in> set (operands v) \<Longrightarrow> well_formed gbs x"
  shows "well_formed gbs v"
  using assms by (simp add: well_formed.simps [of gbs v])

lemma same_reshape_identity:
  assumes "well_formed gbs (ReshapeOp x sh t)" "t = getType x"
  shows "same gbs (ReshapeOp x sh t) x"
  using unary_wf [OF assms(1), simplified, OF refl] assms(2)
  by (intro sameI) (simp_all add: reshape_source_def linearIdToCoord_row_index)

lemma same_reshape_consecutive:
  assumes "well_formed gbs (ReshapeOp (ReshapeOp y sh1 t1) sh t)"
  shows "same gbs (ReshapeOp (ReshapeOp y sh1 t1) sh t) (ReshapeOp y sh t)"
proof (rule sameI)
  let ?x = "ReshapeOp y sh1 t1"
  note w = well_formedD [OF assms] and u = unary_wf [OF assms, simplified, OF refl]
  note w1 = well_formedD [OF u(1)] and u1 = unary_wf [OF u(1), simplified, OF refl]
  have n: "prod_list (shape_of y) = prod_list (ty_shape t1)" "prod_list (ty_shape t1) = prod_list (ty_shape t)"
    using w(1) w1(1) by (simp_all add: verifyReshape_def getNumElements_def)
  show "well_formed gbs (ReshapeOp y sh t)"
  proof (rule well_formedI)
    show "verify_op gbs (ReshapeOp y sh t) = success"
      using w(1) n by (simp add: verifyReshape_def getNumElements_def)
  qed (use w(2) u1(1) in simp_all)
  fix c assume c: "in_shape c (shape_of (ReshapeOp ?x sh t))"
  have "row_index (ty_shape t1) (linearIdToCoord (row_index (ty_shape t) c) (ty_shape t1)) = row_index (ty_shape t) c"
    using row_index_bounds [of c "ty_shape t"] c n u(3) by (intro linearIdToCoord_inverse(2)) auto
  then show "trace (ReshapeOp y sh t) c = trace (ReshapeOp ?x sh t) c" by (simp add: reshape_source_def)
qed simp

lemma all_ones_nth: "list_all (\<lambda>d. d = 1) dims \<Longrightarrow> i < length dims \<Longrightarrow> dims ! i = 1"
  by (simp add: list_all_length)

lemma same_broadcast_identity:
  assumes "well_formed gbs (BroadcastOp x dims t)" "list_all (\<lambda>d. d = 1) dims"
  shows "same gbs (BroadcastOp x dims t) x"
proof (rule sameI)
  note w = well_formedD [OF assms(1)] and u = unary_wf [OF assms(1), simplified, OF refl]
  have lens: "length (shape_of x) = length (ty_shape t)" "length dims = length (shape_of x)"
    and eqs: "\<forall>i<length dims. shape_of x ! i * dims ! i = ty_shape t ! i"
    using w(1) by (auto simp: verifyBroadcast_def Let_def)
  have sh: "shape_of x = ty_shape t"
    using lens eqs all_ones_nth [OF assms(2)] by (intro nth_equalityI) auto
  then show "shape_of x = shape_of (BroadcastOp x dims t)" by simp
  fix c assume c: "in_shape c (shape_of (BroadcastOp x dims t))"
  have "broadcast_source (ty_shape t) c = c"
  proof (rule nth_equalityI)
    have lc: "length c = length (ty_shape t)" using in_shape_length [OF c] by simp
    then show "length (broadcast_source (ty_shape t) c) = length c" by (simp add: broadcast_source_def)
    fix i assume "i < length (broadcast_source (ty_shape t) c)"
    then have i: "i < length (ty_shape t)" by (simp add: broadcast_source_def)
    then show "broadcast_source (ty_shape t) c ! i = c ! i"
      using in_shape_nth [OF c, of i] lc by (auto simp: broadcast_source_def)
  qed
  then show "trace x c = trace (BroadcastOp x dims t) c" using sh by simp
qed (rule unary_wf(1) [OF assms(1), simplified, OF refl])

lemma same_repeat_identity:
  assumes "well_formed gbs (RepeatOp x dims t)" "list_all (\<lambda>d. d = 1) dims"
  shows "same gbs (RepeatOp x dims t) x"
proof (rule sameI)
  note w = well_formedD [OF assms(1)] and u = unary_wf [OF assms(1), simplified, OF refl]
  have lens: "length (shape_of x) = length (ty_shape t)" "length dims = length (shape_of x)"
    and eqs: "\<forall>i<length (shape_of x). shape_of x ! i * dims ! i = ty_shape t ! i"
    using w(1) by (auto simp: verifyRepeat_def Let_def)
  have sh: "shape_of x = ty_shape t"
    using lens eqs all_ones_nth [OF assms(2)] by (intro nth_equalityI) auto
  then show "shape_of x = shape_of (RepeatOp x dims t)" by simp
  fix c assume c: "in_shape c (shape_of (RepeatOp x dims t))"
  have "repeat_source (ty_shape t) c = c"
  proof (rule nth_equalityI)
    have lc: "length c = length (ty_shape t)" using in_shape_length [OF c] by simp
    then show "length (repeat_source (ty_shape t) c) = length c" by (simp add: repeat_source_def)
    fix i assume "i < length (repeat_source (ty_shape t) c)"
    then have i: "i < length (ty_shape t)" by (simp add: repeat_source_def)
    then show "repeat_source (ty_shape t) c ! i = c ! i"
      using in_shape_nth [OF c, of i] lc by (simp add: repeat_source_def)
  qed
  then show "trace x c = trace (RepeatOp x dims t) c" using sh by simp
qed (rule unary_wf(1) [OF assms(1), simplified, OF refl])

lemma same_repeat_consecutive:
  assumes "well_formed gbs (RepeatOp (RepeatOp y dims1 t1) dims2 t)"
  shows "same gbs (RepeatOp (RepeatOp y dims1 t1) dims2 t)
    (RepeatOp y (map (\<lambda>i. dims1 ! i * dims2 ! i) [0..<length (shape_of y)]) t)" (is "same gbs ?v ?w")
proof (rule sameI)
  note w = well_formedD [OF assms] and u = unary_wf [OF assms, simplified, OF refl]
  note w1 = well_formedD [OF u(1)] and u1 = unary_wf [OF u(1), simplified, OF refl]
  have lens: "length (ty_shape t1) = length (shape_of y)" "length (ty_shape t) = length (ty_shape t1)"
    using w(1) w1(1) by (auto simp: verifyRepeat_def Let_def)
  have e1: "0 < dims1 ! i" "shape_of y ! i * dims1 ! i = ty_shape t1 ! i"
    and e2: "0 < dims2 ! i" "ty_shape t1 ! i * dims2 ! i = ty_shape t ! i" if "i < length (shape_of y)" for i
    using w(1) w1(1) that lens by (auto simp: verifyRepeat_def Let_def not_le)
  show "well_formed gbs ?w"
  proof (rule well_formedI)
    show "verify_op gbs ?w = success"
      using lens e1 e2 by (simp add: verifyRepeat_def Let_def not_le mult.assoc [symmetric])
  qed (use w(2) u1(1) in simp_all)
  fix c assume c: "in_shape c (shape_of ?v)"
  have "repeat_source (shape_of y) (repeat_source (ty_shape t1) c) = repeat_source (shape_of y) c"
  proof (rule nth_equalityI)
    have lc: "length c = length (shape_of y)" using in_shape_length [OF c] lens by simp
    show "length (repeat_source (shape_of y) (repeat_source (ty_shape t1) c)) = length (repeat_source (shape_of y) c)"
      using lc lens by (simp add: repeat_source_def)
    fix i assume "i < length (repeat_source (shape_of y) (repeat_source (ty_shape t1) c))"
    then have i: "i < length (shape_of y)" using lc lens by (simp add: repeat_source_def)
    have "shape_of y ! i dvd ty_shape t1 ! i" using e1(2) [OF i] by (metis dvd_triv_left)
    then show "repeat_source (shape_of y) (repeat_source (ty_shape t1) c) ! i = repeat_source (shape_of y) c ! i"
      using i lc lens by (simp add: repeat_source_def mod_mod_cancel)
  qed
  then show "trace ?w c = trace ?v c" by simp
qed simp

lemma same_interleave_identity:
  assumes "well_formed gbs (RepeatInterleaveOp x 1 dim t)"
  shows "same gbs (RepeatInterleaveOp x 1 dim t) x"
proof (rule sameI)
  note w = well_formedD [OF assms]
  show "shape_of x = shape_of (RepeatInterleaveOp x 1 dim t)"
    using w(1) by (auto simp: verifyRepeatInterleave_def Let_def)
  show "trace x c = trace (RepeatInterleaveOp x 1 dim t) c" for c by (simp add: interleave_source_def Let_def)
qed (rule unary_wf(1) [OF assms, simplified, OF refl])

lemma permute_wf:
  assumes "small_shape (shape_of (PermuteOp x' p' d' t))" "well_formed gbs y" "is_permutation_of (length (shape_of y)) p"
    "length p = length (shape_of y)" "applyPermutation (shape_of y) p = ty_shape t"
  shows "well_formed gbs (PermuteOp y p d t)"
proof (rule well_formedI)
  show "verify_op gbs (PermuteOp y p d t) = success" using assms(3-5) by (simp add: verifyPermute_def Let_def)
qed (use assms(1,2) in simp_all)

lemma same_permute_consecutive:
  assumes "well_formed gbs (PermuteOp (PermuteOp y p d1 t1) q d t)"
  shows "same gbs (PermuteOp (PermuteOp y p d1 t1) q d t) (PermuteOp y (applyPermutation p q) d t)" (is "same gbs ?v ?w")
proof (rule sameI)
  note w = well_formedD [OF assms] and u = unary_wf [OF assms, simplified, OF refl]
  note w1 = well_formedD [OF u(1)] and u1 = unary_wf [OF u(1), simplified, OF refl]
  let ?n = "length (shape_of y)"
  have p: "is_permutation_of ?n p" "length p = ?n" "applyPermutation (shape_of y) p = ty_shape t1"
    using w1(1) by (auto simp: verifyPermute_def Let_def)
  then have l1: "length (ty_shape t1) = ?n" by (metis length_applyPermutation)
  have q: "is_permutation_of ?n q" "length q = ?n" "applyPermutation (ty_shape t1) q = ty_shape t"
    using w(1) l1 by (auto simp: verifyPermute_def Let_def)
  have "applyPermutation (shape_of y) (applyPermutation p q) = applyPermutation (ty_shape t1) q"
    unfolding p(3) [symmetric] using is_permutation_nth(2) [OF q(1)] p(2) q(2)
    by (intro nth_equalityI) auto
  then show "well_formed gbs ?w"
    using applyPermutation_comp [OF p(1) q(1)] q(2,3) by (intro permute_wf [OF w(2) u1(1)]) simp_all
  fix c assume "in_shape c (shape_of ?v)"
  then have lc: "length c = ?n" using in_shape_length [of c "ty_shape t"] q(2,3) by (metis getType.simps(4) length_applyPermutation)
  show "trace ?w c = trace ?v c"
    by (simp only: trace.simps permute_source_def apply_inverse_comp [OF p(1) q(1) lc])
qed simp

text \<open>A permutation that moves unit dimensions only moves nothing.\<close>

lemma permute_fixes_coord:
  assumes "is_permutation_of (length sh) p" "in_shape c (applyPermutation sh p)"
    "\<And>i. i < length sh \<Longrightarrow> p ! i = int i \<or> (sh ! i = 1 \<and> sh ! nat (p ! i) = 1)"
  shows "applyPermutation sh p = sh" "applyPermutation c (inversePermutation p) = c"
proof -
  have lens: "length p = length sh" "length c = length sh"
    using is_permutation_length [OF assms(1)] in_shape_length [OF assms(2)] by simp_all
  show sh: "applyPermutation sh p = sh"
    using lens(1) assms(3) by (intro nth_equalityI) force+
  show "applyPermutation c (inversePermutation p) = c"
  proof (rule permuted_eqI [OF assms(1)])
    fix i assume i: "i < length sh"
    have "c ! nat (p ! i) = c ! i"
    proof (cases "p ! i = int i")
      case False
      then have "sh ! i = 1" "sh ! nat (p ! i) = 1" using assms(3) i by blast+
      then show ?thesis
        using in_shape_nth [OF assms(2) , of i] in_shape_nth [OF assms(2), of "nat (p ! i)"]
          is_permutation_nth(2) [OF assms(1) i] i sh lens by simp
    qed simp
    then show "applyPermutation c (inversePermutation p) ! nat (p ! i) = c ! nat (p ! i)"
      using apply_inverse_nth [OF assms(1) lens(2) i] by simp
  qed (use lens in simp_all)
qed

lemma same_permute_identity:
  assumes "well_formed gbs (PermuteOp x p d t)" "foldIdentityPermute x p = Some r"
  shows "r = FoldValue x" "same gbs (PermuteOp x p d t) x"
proof -
  note w = well_formedD [OF assms(1)] and u = unary_wf [OF assms(1), simplified, OF refl]
  let ?n = "length (shape_of x)"
  have p: "is_permutation_of ?n p" "length p = ?n" "applyPermutation (shape_of x) p = ty_shape t"
    using w(1) by (auto simp: verifyPermute_def Let_def)
  show "r = FoldValue x" using assms(2) by (auto simp: foldIdentityPermute_def Let_def split: if_splits)
  have cases: "p ! i = int i \<or> (shape_of x ! i = 1 \<and> shape_of x ! nat (p ! i) = 1)" if i: "i < ?n" for i
  proof (cases "sorted p")
    case True
    then show ?thesis using sorted_permutation_id [OF p(1)] i by simp
  next
    case False
    then have "\<not> list_ex (\<lambda>i. p ! i \<noteq> int i \<and> (shape_of x ! i \<noteq> 1 \<or> shape_of x ! nat (p ! i) \<noteq> 1)) [0..<length p]"
      using assms(2) by (auto simp: foldIdentityPermute_def Let_def split: if_splits)
    then show ?thesis using i p(2) by (auto simp: list_ex_iff)
  qed
  show "same gbs (PermuteOp x p d t) x"
  proof (rule sameI [OF u(1)])
    have "applyPermutation (shape_of x) p = shape_of x"
      using cases p(2) by (intro nth_equalityI) force+
    then show "shape_of x = shape_of (PermuteOp x p d t)" using p(3) by simp
    fix c assume "in_shape c (shape_of (PermuteOp x p d t))"
    then have c: "in_shape c (applyPermutation (shape_of x) p)" using p(3) by simp
    show "trace x c = trace (PermuteOp x p d t) c"
      using permute_fixes_coord(2) [OF p(1) c cases] by (simp add: permute_source_def)
  qed
qed

section \<open>Slices\<close>

text \<open>The producer and consumer attributes for which merging two slices is right: non-negative
  bounds, positive steps, no empty dimension, no overflow of the merged step.\<close>

definition mergeable :: "nat \<Rightarrow> int list \<Rightarrow> int list \<Rightarrow> int list \<Rightarrow> int list \<Rightarrow> int list \<Rightarrow> bool" where
  "mergeable r begins1 step1 begins2 ends2 step2 \<longleftrightarrow>
     (\<forall>i<r. 0 \<le> begins1 ! i \<and> 0 < step1 ! i \<and> 0 \<le> begins2 ! i \<and> begins2 ! i < ends2 ! i \<and> 0 < step2 ! i \<and>
        step1 ! i * step2 ! i < 2 ^ 30)"

definition slices_mergeable :: "'e val \<Rightarrow> bool" where
  "slices_mergeable v = (case v of
      SliceStaticOp x begins2 ends2 step2 t \<Rightarrow>
        (case x of SliceStaticOp y begins1 ends1 step1 t1 \<Rightarrow>
             small_shape (shape_of y) \<and> list_all (\<lambda>d. d < 2 ^ 30) (shape_of y) \<and>
             mergeable (length (shape_of y)) begins1 step1 begins2 ends2 step2
         | _ \<Rightarrow> True)
    | _ \<Rightarrow> True)"

lemma verifySliceStaticI:
  assumes "0 < length (ty_shape tx)" "length b = length (ty_shape tx)" "length e = length (ty_shape tx)"
    "length s = length (ty_shape tx)" "ty_elem tx = ty_elem t" "length (ty_shape t) = length (ty_shape tx)"
    "\<And>i. i < length (ty_shape tx) \<Longrightarrow> slice_dim i (ty_shape tx ! i) (b ! i) (e ! i) (s ! i) (ty_shape t ! i) = success"
  shows "verifySliceStatic tx b e s t = success"
  using assms by (simp add: verifySliceStatic_def Let_def)

lemma slice_dimI:
  "slice_bound d b = b \<Longrightarrow> slice_bound d e = e \<Longrightarrow> 0 \<le> b \<Longrightarrow> b < e \<Longrightarrow> e \<le> d \<Longrightarrow> 0 < s \<Longrightarrow>
    n = slice_size b e s \<Longrightarrow> slice_dim i d b e s n = success"
  by (simp add: slice_dim_def Let_def)

text \<open>One dimension of the merge.\<close>

lemma merge_dim:
  assumes d1: "slice_dim i d b1 e1 s1 n1 = success" and d2: "slice_dim i n1 b2 e2 s2 n2 = success"
    and rng: "0 \<le> d" "d < 2 ^ 30" "\<bar>s1\<bar> + d < 2 ^ 31" "- (2 ^ 31) \<le> e1" "e1 < 2 ^ 31"
      "0 \<le> n1" "\<bar>s2\<bar> + n1 < 2 ^ 31" "- (2 ^ 31) \<le> e2" "e2 < 2 ^ 31" "b1 < 2 ^ 31" "b2 < 2 ^ 31"
    and m: "0 \<le> b1" "0 < s1" "0 \<le> b2" "b2 < e2" "0 < s2" "s1 * s2 < 2 ^ 30"
  shows "to_i32 (b1 + s1 * b2) = b1 + s1 * b2" "to_i32 (s1 * s2) = s1 * s2"
    "to_i32 (b1 + s1 * (e2 - 1) + 1) = b1 + s1 * (e2 - 1) + 1" "b1 + s1 * (e2 - 1) + 1 \<le> d"
    "slice_dim i d (b1 + s1 * b2) (b1 + s1 * (e2 - 1) + 1) (s1 * s2) n2 = success"
proof -
  define e1' where "e1' = (if e1 < 0 then e1 + d else e1)"
  have b1r: "- (2 ^ 31) \<le> b1" and b2r: "- (2 ^ 31) \<le> b2" using m by auto
  note k1 = slice_dim_success [OF d1 rng(1,3) b1r rng(10,4,5), folded e1'_def]
  note k2 = slice_dim_success [OF d2 rng(6,7) b2r rng(11,8,9)]
  have e2: "b2 < e2" "e2 \<le> n1" "n2 = (e2 - b2 + s2 - 1) div s2" using k2 m by auto
  have n1: "n1 = (\<bar>e1' - b1\<bar> + s1 - 1) div s1" using k1(2) m by simp
  have ne: "e1' \<noteq> b1"
  proof
    assume "e1' = b1"
    then have "n1 = 0" using n1 m by simp
    then show False using e2 m by simp
  qed
  then have in1: "b1 < d" "b1 \<le> e1'" "e1' \<le> d" using k1(3) m by auto
  have "(e2 - 1) * s1 < e1' - b1"
    using n1 e2 in1 m by (intro ceil_less) auto
  then have last: "b1 + s1 * (e2 - 1) + 1 \<le> d" using in1 by (simp add: mult.commute)
  have "s1 * b2 \<le> s1 * (e2 - 1)" using m by (intro mult_left_mono) auto
  then have first: "b1 + s1 * b2 < b1 + s1 * (e2 - 1) + 1" by simp
  have nn: "0 \<le> b1 + s1 * b2" using m by simp
  show t1: "to_i32 (b1 + s1 * b2) = b1 + s1 * b2" using nn first last rng by (intro to_i32_exact) auto
  have pos: "0 < s1 * s2" using m by simp
  have "to_i32 k = k" if "0 < k" "k < 2 ^ 30" for k using that by (intro to_i32_exact) simp_all
  then show t2: "to_i32 (s1 * s2) = s1 * s2" using pos m(6) .
  show t3: "to_i32 (b1 + s1 * (e2 - 1) + 1) = b1 + s1 * (e2 - 1) + 1" using nn first last rng by (intro to_i32_exact) auto
  show "b1 + s1 * (e2 - 1) + 1 \<le> d" by (rule last)
  have w: "b1 + s1 * (e2 - 1) + 1 - (b1 + s1 * b2) = s1 * (e2 - b2 - 1) + 1" by (simp add: algebra_simps)
  have "n2 = (s1 * (e2 - b2 - 1) + 1 + s1 * s2 - 1) div (s1 * s2)"
  proof -
    have "s1 * (e2 - b2 - 1) + 1 + s1 * s2 - 1 = s1 * (e2 - b2 + s2 - 1)" by (simp add: algebra_simps)
    then have "(s1 * (e2 - b2 - 1) + 1 + s1 * s2 - 1) div (s1 * s2) = (s1 * (e2 - b2 + s2 - 1)) div (s1 * s2)" by simp
    also have "\<dots> = (e2 - b2 + s2 - 1) div s2" using m by simp
    finally show ?thesis using e2(3) by simp
  qed
  moreover have "slice_size (b1 + s1 * b2) (b1 + s1 * (e2 - 1) + 1) (s1 * s2)
    = (s1 * (e2 - b2 - 1) + 1 + s1 * s2 - 1) div (s1 * s2)"
  proof -
    have nn': "0 \<le> s1 * (e2 - b2 - 1)" using m by simp
    have "\<bar>b1 + s1 * (e2 - 1) + 1 - (b1 + s1 * b2)\<bar> + \<bar>s1 * s2\<bar> < 2 ^ 31"
      using first nn last rng(2) pos m(6) by simp
    from slice_size_exact [OF this] show ?thesis
      using w nn' pos by (simp add: signed_divide_int_def sgn_if)
  qed
  moreover have "slice_bound d (b1 + s1 * b2) = b1 + s1 * b2" "slice_bound d (b1 + s1 * (e2 - 1) + 1) = b1 + s1 * (e2 - 1) + 1"
    using nn first t1 t3 by (simp_all add: slice_bound_def)
  ultimately show "slice_dim i d (b1 + s1 * b2) (b1 + s1 * (e2 - 1) + 1) (s1 * s2) n2 = success"
    using nn first last pos by (intro slice_dimI) simp_all
qed

lemma same_slice_consecutive:
  assumes "well_formed gbs (SliceStaticOp (SliceStaticOp y b1 e1 s1 t1) b2 e2 s2 t)"
    "slices_mergeable (SliceStaticOp (SliceStaticOp y b1 e1 s1 t1) b2 e2 s2 t)"
  defines "n \<equiv> length (ty_shape t1)"
  shows "same gbs (SliceStaticOp (SliceStaticOp y b1 e1 s1 t1) b2 e2 s2 t)
    (SliceStaticOp y (merged_begins n b1 s1 b2) (merged_ends n b1 s1 e2) (merged_step n s1 s2) t)" (is "same gbs ?v ?w")
proof (rule sameI)
  note w = well_formedD [OF assms(1)] and u = unary_wf [OF assms(1), simplified, OF refl]
  note w1 = well_formedD [OF u(1)] and u1 = unary_wf [OF u(1), simplified, OF refl]
  have ver1: "verifySliceStatic (getType y) b1 e1 s1 t1 = success" and ver2: "verifySliceStatic t1 b2 e2 s2 t = success"
    using w1(1) w(1) by simp_all
  have l1: "length (shape_of y) = n" "0 < n" "length b1 = n" "length e1 = n" "length s1 = n" "ty_elem (getType y) = ty_elem t1"
    and d1: "i < n \<Longrightarrow> slice_dim i (shape_of y ! i) (b1 ! i) (e1 ! i) (s1 ! i) (ty_shape t1 ! i) = success" for i
    using ver1 by (auto simp: verifySliceStatic_def Let_def n_def)
  have l2: "length b2 = n" "length e2 = n" "length s2 = n" "length (ty_shape t) = n" "ty_elem t1 = ty_elem t"
    and d2: "i < n \<Longrightarrow> slice_dim i (ty_shape t1 ! i) (b2 ! i) (e2 ! i) (s2 ! i) (ty_shape t ! i) = success" for i
    using ver2 by (auto simp: verifySliceStatic_def Let_def n_def)
  have doc: "\<bar>s1 ! i\<bar> + shape_of y ! i < 2 ^ 31" "- (2 ^ 31) \<le> e1 ! i" "e1 ! i < 2 ^ 31" "b1 ! i < 2 ^ 31"
    "\<bar>s2 ! i\<bar> + ty_shape t1 ! i < 2 ^ 31" "- (2 ^ 31) \<le> e2 ! i" "e2 ! i < 2 ^ 31" "b2 ! i < 2 ^ 31" if "i < n" for i
    using w1(3) w(3) that l1 l2 by (auto simp: list_all2_conv_all_nth list_all_length)
  have mg: "mergeable (length (shape_of y)) b1 s1 b2 e2 s2" "list_all (\<lambda>d. d < 2 ^ 30) (shape_of y)"
    using assms(2) by (simp_all add: slices_mergeable_def)
  have m: "0 \<le> b1 ! i" "0 < s1 ! i" "0 \<le> b2 ! i" "b2 ! i < e2 ! i" "0 < s2 ! i" "s1 ! i * s2 ! i < 2 ^ 30"
    "0 \<le> shape_of y ! i" "shape_of y ! i < 2 ^ 30" if "i < n" for i
    using mg [unfolded mergeable_def list_all_length l1(1)] that small_nth [OF u1(2), of i] l1(1) by blast+
  have n1: "0 \<le> ty_shape t1 ! i" if "i < n" for i using small_nth [OF u(2), of i] that by (simp add: n_def)
  note md = merge_dim [OF d1 d2 m(7,8) doc(1-3) n1 doc(5-7) doc(4) doc(8) m(1-6)]
  have mb: "merged_begins n b1 s1 b2 ! i = b1 ! i + s1 ! i * b2 ! i" and ms: "merged_step n s1 s2 ! i = s1 ! i * s2 ! i"
    and me: "merged_ends n b1 s1 e2 ! i = b1 ! i + s1 ! i * (e2 ! i - 1) + 1" if i: "i < n" for i
    using md(1,2,3) [OF i i i i i i i i i i i i i i i i i i i] i
    by (simp_all add: merged_begins_def merged_step_def merged_ends_def)
  have lens: "length (merged_begins n b1 s1 b2) = n" "length (merged_ends n b1 s1 e2) = n" "length (merged_step n s1 s2) = n"
    by (simp_all add: merged_begins_def merged_step_def merged_ends_def)
  show "well_formed gbs ?w"
  proof (rule well_formedI)
    show "verify_op gbs ?w = success" unfolding verify_op.simps
    proof (rule verifySliceStaticI)
      fix i assume "i < length (shape_of y)"
      then have i: "i < n" using l1(1) by simp
      show "slice_dim i (shape_of y ! i) (merged_begins n b1 s1 b2 ! i) (merged_ends n b1 s1 e2 ! i)
        (merged_step n s1 s2 ! i) (ty_shape t ! i) = success"
        unfolding mb [OF i] ms [OF i] me [OF i] using md(5) [OF i i i i i i i i i i i i i i i i i i i] .
    qed (use lens l1(1,2,6) l2(4,5) in simp_all)
    have "list_all2 (\<lambda>s d. \<bar>s\<bar> + d < 2 ^ 31) (merged_step n s1 s2) (shape_of y)"
    proof (rule list_all2_all_nthI)
      fix i assume "i < length (merged_step n s1 s2)"
      then have i: "i < n" using lens by simp
      have "0 < s1 ! i * s2 ! i" using m(2,5) [OF i] by simp
      then show "\<bar>merged_step n s1 s2 ! i\<bar> + shape_of y ! i < 2 ^ 31" using ms [OF i] m(6,8) [OF i] by simp
    qed (use l1 lens in simp)
    moreover have "list_all (\<lambda>b. - (2 ^ 31) \<le> b \<and> b < 2 ^ 31) (merged_begins n b1 s1 b2)"
    proof (subst list_all_length, intro allI impI)
      fix i assume "i < length (merged_begins n b1 s1 b2)"
      then have i: "i < n" using lens by simp
      have "0 \<le> s1 ! i * b2 ! i" "s1 ! i * b2 ! i \<le> s1 ! i * (e2 ! i - 1)"
        using m(2,3,4) [OF i] by (auto intro: mult_left_mono)
      then show "- (2 ^ 31) \<le> merged_begins n b1 s1 b2 ! i \<and> merged_begins n b1 s1 b2 ! i < 2 ^ 31"
        using mb [OF i] md(4) [OF i i i i i i i i i i i i i i i i i i i] m(1,8) [OF i] by simp
    qed
    moreover have "list_all (\<lambda>b. - (2 ^ 31) \<le> b \<and> b < 2 ^ 31) (merged_ends n b1 s1 e2)"
    proof (subst list_all_length, intro allI impI)
      fix i assume "i < length (merged_ends n b1 s1 e2)"
      then have i: "i < n" using lens by simp
      have "0 \<le> s1 ! i * (e2 ! i - 1)" using m(2,3,4) [OF i] by simp
      then show "- (2 ^ 31) \<le> merged_ends n b1 s1 e2 ! i \<and> merged_ends n b1 s1 e2 ! i < 2 ^ 31"
        using me [OF i] md(4) [OF i i i i i i i i i i i i i i i i i i i] m(1,8) [OF i] by simp
    qed
    ultimately show "documented ?w" by simp
  qed (use w(2) u1(1) in simp_all)
  fix c assume c: "in_shape c (shape_of ?v)"
  have lc: "length c = n" using in_shape_length [OF c] l2(4) by simp
  have "slice_source (shape_of y) (merged_begins n b1 s1 b2) (merged_step n s1 s2) c
    = slice_source (shape_of y) b1 s1 (slice_source (ty_shape t1) b2 s2 c)"
  proof (rule nth_equalityI)
    fix i assume "i < length (slice_source (shape_of y) (merged_begins n b1 s1 b2) (merged_step n s1 s2) c)"
    then have i: "i < n" using lc by (simp add: slice_source_def)
    have "0 \<le> s1 ! i * b2 ! i" using m(2,3) [OF i] by simp
    then show "slice_source (shape_of y) (merged_begins n b1 s1 b2) (merged_step n s1 s2) c ! i
      = slice_source (shape_of y) b1 s1 (slice_source (ty_shape t1) b2 s2 c) ! i"
      using i lc m(1,3) [OF i] by (simp add: slice_source_def mb [OF i] ms [OF i] algebra_simps)
  qed (simp add: slice_source_def)
  then show "trace ?w c = trace ?v c" by simp
qed simp

end
