(* ===== verification/TirConcatSound.thy ===== *)
theory TirConcatSound
  imports TirFoldSound
begin

text \<open>
  Soundness of the folders around concatenation: a concatenation of one input, the removal of empty
  inputs, and a slice that is exactly one of the inputs.
\<close>

section \<open>Where a concatenation reads\<close>

lemma concat_source_offset:
  assumes "k < length shs" "in_shape c (shs ! k)" "\<forall>sh\<in>set shs. d < length sh \<and> 0 \<le> sh ! d"
  shows "concat_source d shs (c[d := c ! d + (\<Sum>sh\<leftarrow>take k shs. sh ! d)]) = (k, c)"
  using assms
proof (induction shs arbitrary: k)
  case (Cons sh shs)
  have d: "d < length c" using Cons.prems in_shape_length [OF Cons.prems(2)] nth_mem [OF Cons.prems(1)] by metis
  show ?case
  proof (cases k)
    case 0
    then have "c ! d < sh ! d" using Cons.prems(2,3) in_shape_nth [of c sh d] by simp
    then show ?thesis using 0 by simp
  next
    case (Suc j)
    let ?sum = "\<Sum>sh\<leftarrow>take j shs. sh ! d"
    have c0: "0 \<le> c ! d"
      using in_shape_nth [OF Cons.prems(2), of d] Cons.prems(3) nth_mem [OF Cons.prems(1)] by blast
    have "0 \<le> ?sum" using Cons.prems(3) by (intro sum_list_nonneg) (auto dest: in_set_takeD)
    then have "\<not> c ! d + (sh ! d + ?sum) < sh ! d" using c0 by simp
    moreover have "concat_source d shs (c[d := c ! d + ?sum]) = (j, c)"
      using Cons.prems Suc by (intro Cons.IH) auto
    ultimately show ?thesis using Suc d by (simp add: algebra_simps)
  qed
qed simp

lemma slice_of_concat_loop_some:
  assumes "slice_of_concat_loop d off b e s xs = Some x" "\<forall>y\<in>set xs. length (shape_of y) = length b" "d < int (length b)"
  shows "\<exists>k<length xs. x = xs ! k \<and> covers_input (nat d) (off + (\<Sum>y\<leftarrow>take k xs. shape_of y ! nat d)) b e s (shape_of x)"
  using assms
proof (induction xs arbitrary: off)
  case (Cons y ys)
  show ?case
  proof (cases "covers_input (nat d) off b e s (shape_of y)")
    case True
    then have "x = y" using Cons.prems by simp
    then show ?thesis using True by (intro exI [of _ 0]) simp
  next
    case False
    then have "slice_of_concat_loop d (off + shape_of y ! nat d) b e s ys = Some x" using Cons.prems by simp
    from Cons.IH [OF this] Cons.prems(2,3) obtain k where k: "k < length ys" "x = ys ! k"
      "covers_input (nat d) (off + shape_of y ! nat d + (\<Sum>y\<leftarrow>take k ys. shape_of y ! nat d)) b e s (shape_of x)" by auto
    then show ?thesis by (intro exI [of _ "Suc k"]) (simp add: add.assoc)
  qed
qed simp

lemma concat_wf_inputs:
  assumes "well_formed gbs (ConcatOp xs dim t)" "y \<in> set xs"
  defines "d \<equiv> concat_dim xs dim"
  shows "length (shape_of y) = length (ty_shape t)" "0 \<le> shape_of y ! d" "d < length (ty_shape t)"
    "i \<noteq> d \<Longrightarrow> shape_of y ! i = ty_shape t ! i" "well_formed gbs y"
proof -
  note cw = concat_wf [OF assms(1), folded d_def]
  obtain n where n: "shape_of y = (shape_of (hd xs))[d := n]" "0 \<le> n" using cw(4) assms(2) by auto
  show "length (shape_of y) = length (ty_shape t)" "0 \<le> shape_of y ! d" "d < length (ty_shape t)"
    "i \<noteq> d \<Longrightarrow> shape_of y ! i = ty_shape t ! i" using n cw(2,3) by simp_all
  show "well_formed gbs y" using well_formedD(4) [OF assms(1)] assms(2) by simp
qed

lemma concat_part_le:
  assumes "well_formed gbs (ConcatOp xs dim t)" "k < length xs"
  defines "d \<equiv> concat_dim xs dim"
  shows "0 \<le> (\<Sum>y\<leftarrow>take k xs. shape_of y ! d)"
    "(\<Sum>y\<leftarrow>take k xs. shape_of y ! d) + shape_of (xs ! k) ! d \<le> ty_shape t ! d"
proof -
  have nn: "0 \<le> shape_of y ! d" if "y \<in> set xs" for y using concat_wf_inputs(2) [OF assms(1) that] by (simp add: d_def)
  show "0 \<le> (\<Sum>y\<leftarrow>take k xs. shape_of y ! d)" using nn by (intro sum_list_nonneg) (auto dest: in_set_takeD)
  have "ty_shape t ! d = (\<Sum>y\<leftarrow>xs. shape_of y ! d)"
    using concat_wf(2,3) [OF assms(1), folded d_def] by (simp add: comp_def)
  also have "xs = take k xs @ xs ! k # drop (Suc k) xs" by (rule id_take_nth_drop [OF assms(2)])
  also have "(\<Sum>y\<leftarrow>\<dots>. shape_of y ! d) = (\<Sum>y\<leftarrow>take k xs. shape_of y ! d) + shape_of (xs ! k) ! d + (\<Sum>y\<leftarrow>drop (Suc k) xs. shape_of y ! d)"
    by simp
  finally have "ty_shape t ! d = (\<Sum>y\<leftarrow>take k xs. shape_of y ! d) + shape_of (xs ! k) ! d + (\<Sum>y\<leftarrow>drop (Suc k) xs. shape_of y ! d)" .
  moreover have "0 \<le> (\<Sum>y\<leftarrow>drop (Suc k) xs. shape_of y ! d)" using nn by (intro sum_list_nonneg) (auto dest: in_set_dropD)
  ultimately show "(\<Sum>y\<leftarrow>take k xs. shape_of y ! d) + shape_of (xs ! k) ! d \<le> ty_shape t ! d" by simp
qed

lemma slice_size_unit:
  assumes "0 \<le> n" "n < 2 ^ 31 - 1"
  shows "slice_size b (b + n) 1 = n"
  using assms slice_size_exact [of "b + n" b 1] by (simp add: signed_divide_int_def sgn_if)

lemma same_slice_of_concat:
  assumes "well_formed gbs (SliceStaticOp (ConcatOp xs dim tc) b e s t)"
    "slice_of_concat_loop (normalize_dim dim (int (length b))) 0 b e s xs = Some x"
  shows "same gbs (SliceStaticOp (ConcatOp xs dim tc) b e s t) x"
proof -
  let ?v = "SliceStaticOp (ConcatOp xs dim tc) b e s t"
  note w = well_formedD [OF assms(1)] and u = unary_wf [OF assms(1), simplified, OF refl]
  have ver: "verifySliceStatic tc b e s t = success" using w(1) by simp
  let ?n = "length (ty_shape tc)"
  have l: "length b = ?n" "length e = ?n" "length s = ?n" "length (ty_shape t) = ?n"
    and dims: "i < ?n \<Longrightarrow> slice_dim i (ty_shape tc ! i) (b ! i) (e ! i) (s ! i) (ty_shape t ! i) = success" for i
    using ver by (auto simp: verifySliceStatic_def Let_def)
  define d where "d = concat_dim xs dim"
  note ci = concat_wf_inputs [OF u(1), folded d_def]
  have ne: "xs \<noteq> []" using concat_wf(1) [OF u(1)] .
  have hd: "length (shape_of (hd xs)) = ?n" "d < ?n" using ci(1,3) [of "hd xs"] ne by auto
  have nd: "0 \<le> normalize_dim dim (int ?n)" "normalize_dim dim (int ?n) < int ?n"
  proof -
    have "verifyConcat (map getType xs) dim tc = success" using well_formedD(1) [OF u(1)] by simp
    then show "0 \<le> normalize_dim dim (int ?n)" "normalize_dim dim (int ?n) < int ?n"
      using hd(1) ne by (auto simp: verifyConcat_def Let_def hd_map)
  qed
  have dn: "nat (normalize_dim dim (int (length b))) = d" using hd(1) l(1) by (simp add: d_def)
  obtain k where k: "k < length xs" "x = xs ! k"
    and cov: "covers_input d (\<Sum>y\<leftarrow>take k xs. shape_of y ! d) b e s (shape_of x)"
    using slice_of_concat_loop_some [OF assms(2)] ci(1) nd(2) l(1) unfolding dn by auto
  have x: "x \<in> set xs" using k by simp
  let ?off = "\<Sum>y\<leftarrow>take k xs. shape_of y ! d"
  note part = concat_part_le [OF u(1) k(1), folded d_def]
  have tcd: "ty_shape tc ! i < 2 ^ 31 - 1" "0 \<le> ty_shape tc ! i" if "i < ?n" for i
  proof -
    have "\<bar>s ! i\<bar> + ty_shape tc ! i < 2 ^ 31" using w(3) that l by (auto simp: list_all2_conv_all_nth)
    moreover have "s ! i \<noteq> 0" using dims [OF that] by (auto simp: slice_dim_def Let_def split: if_splits)
    ultimately show "ty_shape tc ! i < 2 ^ 31 - 1" by simp
    show "0 \<le> ty_shape tc ! i" using small_nth [OF u(2)] that by simp
  qed
  have xle: "shape_of x ! i \<le> ty_shape tc ! i" "0 \<le> shape_of x ! i" if "i < ?n" for i
    using part ci(2,4) [OF x] that k(2) tcd(2) [OF that] by (cases "i = d"; simp)+
  have bes: "b ! i = (if i = d then ?off else 0)" "e ! i = b ! i + shape_of x ! i" "s ! i = 1" if i: "i < ?n" for i
  proof -
    have c: "b ! i = to_i32 (if i = d then ?off else 0)"
      "e ! i = to_i32 (if i = d then ?off + shape_of x ! d else shape_of x ! i)" "s ! i = 1"
      using cov i l(1) by (auto simp: covers_input_def list_all_length)
    have r: "0 \<le> ?off" "?off + shape_of x ! d < 2 ^ 31" "0 \<le> shape_of x ! d" "shape_of x ! i < 2 ^ 31"
      using part k(2) tcd [OF hd(2)] tcd [OF i] xle [OF i] xle(2) [OF hd(2)] by auto
    show "b ! i = (if i = d then ?off else 0)" using c(1) r by (cases "i = d") simp_all
    show "e ! i = b ! i + shape_of x ! i" using c(1,2) r xle(2) [OF i] by (cases "i = d") simp_all
    show "s ! i = 1" by (rule c(3))
  qed
  have b0: "0 \<le> b ! i" "0 \<le> e ! i" "b ! i < 2 ^ 31" "e ! i < 2 ^ 31" if i: "i < ?n" for i
    using bes [OF i] part xle [OF i] k(2) tcd [OF i] tcd [OF hd(2)] by (cases "i = d"; simp)+
  have ti: "ty_shape t ! i = shape_of x ! i" if i: "i < ?n" for i
  proof -
    have bb: "slice_bound (ty_shape tc ! i) (b ! i) = b ! i" "slice_bound (ty_shape tc ! i) (e ! i) = e ! i"
      using b0 [OF i] by (simp_all add: slice_bound_def)
    have "ty_shape t ! i = slice_size (b ! i) (e ! i) (s ! i)"
      using dims [OF i] unfolding slice_dim_def Let_def bb by (auto split: if_splits)
    also have "\<dots> = shape_of x ! i"
      unfolding bes(2,3) [OF i] using xle [OF i] tcd [OF i] by (intro slice_size_unit) auto
    finally show ?thesis .
  qed
  have sh: "shape_of x = ty_shape t" using ti ci(1) [OF x] l(4) by (intro nth_equalityI) auto
  show ?thesis
  proof (rule sameI)
    show "shape_of x = shape_of ?v" using sh by simp
    fix c assume c: "in_shape c (shape_of ?v)"
    have cx: "in_shape c (shape_of x)" using c sh by simp
    have lc: "length c = ?n" using in_shape_length [OF c] l(4) by simp
    have "slice_source (ty_shape tc) b s c = c[d := c ! d + ?off]"
    proof (rule nth_equalityI)
      fix i assume "i < length (slice_source (ty_shape tc) b s c)"
      then have i: "i < ?n" using lc by (simp add: slice_source_def)
      show "slice_source (ty_shape tc) b s c ! i = c[d := c ! d + ?off] ! i"
        using i lc b0(1) [OF i] bes [OF i] by (cases "i = d") (simp_all add: slice_source_def)
    qed (simp add: slice_source_def lc)
    moreover have "concat_source d (map shape_of xs) (c[d := c ! d + ?off]) = (k, c)"
      using concat_source_offset [of k "map shape_of xs" c d] k cx ci(1,2,3) by (simp add: take_map comp_def)
    ultimately show "trace x c = trace ?v c" using k by (simp add: d_def)
  qed (rule ci(5) [OF x])
qed

section \<open>One input, and empty inputs\<close>

lemma same_concat_unit:
  assumes "well_formed gbs (ConcatOp [x] dim t)"
  shows "same gbs (ConcatOp [x] dim t) x"
proof (rule sameI)
  let ?d = "concat_dim [x] dim"
  note cw = concat_wf [OF assms]
  show sh: "shape_of x = shape_of (ConcatOp [x] dim t)" using cw(3) by simp
  fix c assume "in_shape c (shape_of (ConcatOp [x] dim t))"
  then have "c ! ?d < shape_of x ! ?d" using sh cw(2) in_shape_nth [of c "shape_of x" ?d] by simp
  then show "trace x c = trace (ConcatOp [x] dim t) c" by simp
qed (use concat_wf_inputs(5) [OF assms] in simp)

lemma concat_loop_ok:
  assumes "\<forall>x\<in>set xs. length (ty_shape x) = length (ty_shape first) \<and>
    (\<forall>i<length (ty_shape first). int i \<noteq> dim \<longrightarrow> ty_shape x ! i = ty_shape first ! i)"
  shows "concat_loop dim first xs acc = Inr (acc + (\<Sum>x\<leftarrow>xs. getDimSize x dim))"
  using assms by (induction xs arbitrary: acc) (auto simp: list_ex_iff)

lemma verifyConcatI:
  assumes "ys \<noteq> []" "\<forall>y\<in>set ys. length (ty_shape y) = n \<and> (\<forall>i<n. i \<noteq> d \<longrightarrow> ty_shape y ! i = sh ! i)"
    "normalize_dim dim (int n) = int d" "d < n" "ty_shape t ! d = (\<Sum>y\<leftarrow>ys. ty_shape y ! d)"
  shows "verifyConcat ys dim t = success"
proof -
  have h: "hd ys \<in> set ys" using assms(1) by simp
  then have r: "rank (hd ys) = int n" using assms(2) by simp
  have tl: "y \<in> set ys" if "y \<in> set (tl ys)" for y using that by (cases ys) auto
  have "concat_loop (int d) (hd ys) (tl ys) (ty_shape (hd ys) ! d) = Inr (ty_shape (hd ys) ! d + (\<Sum>y\<leftarrow>tl ys. ty_shape y ! d))"
    using concat_loop_ok [of "tl ys" "hd ys" "int d"] assms(2) h tl by simp
  moreover have "(\<Sum>y\<leftarrow>ys. ty_shape y ! d) = ty_shape (hd ys) ! d + (\<Sum>y\<leftarrow>tl ys. ty_shape y ! d)"
    using assms(1) by (cases ys) auto
  ultimately show ?thesis using assms(3-5) r by (simp add: verifyConcat_def Let_def)
qed

lemma concat_source_filter:
  assumes "concat_source d (map shape_of xs) c = (k, c')" "k < length xs" "0 \<le> c ! d" "d < length c"
  shows "\<exists>k'<length (filter (\<lambda>x. shape_of x ! d \<noteq> 0) xs).
    concat_source d (map shape_of (filter (\<lambda>x. shape_of x ! d \<noteq> 0) xs)) c = (k', c') \<and>
    filter (\<lambda>x. shape_of x ! d \<noteq> 0) xs ! k' = xs ! k"
  using assms
proof (induction xs arbitrary: c k)
  case (Cons x xs)
  let ?P = "\<lambda>x. shape_of x ! d \<noteq> 0"
  show ?case
  proof (cases "c ! d < shape_of x ! d")
    case True
    then show ?thesis using Cons.prems by (intro exI [of _ 0]) auto
  next
    case False
    let ?c = "c[d := c ! d - shape_of x ! d]"
    obtain j where j: "concat_source d (map shape_of xs) ?c = (j, c')" "k = Suc j"
      using Cons.prems(1) False by (auto split: prod.splits)
    have "0 \<le> ?c ! d" "d < length ?c" using False Cons.prems(4) by simp_all
    then obtain k' where k': "k' < length (filter ?P xs)" "concat_source d (map shape_of (filter ?P xs)) ?c = (k', c')"
      "filter ?P xs ! k' = xs ! j"
      using Cons.IH [OF j(1)] Cons.prems(2) j(2) by auto
    show ?thesis
    proof (cases "?P x")
      case True
      then show ?thesis using k' False j(2) by (intro exI [of _ "Suc k'"]) simp
    next
      case zero: False
      then have "?c = c" by simp
      then show ?thesis using k' zero j(2) by (intro exI [of _ k']) simp
    qed
  qed
qed simp

lemma same_concat_empties:
  assumes "well_formed gbs (ConcatOp xs dim t)" "foldEmptyTensorsConcatOp xs dim t = Some r"
  shows "\<exists>w. r = FoldValue w \<and> same gbs (ConcatOp xs dim t) w"
proof -
  let ?v = "ConcatOp xs dim t"
  define d where "d = concat_dim xs dim"
  note w = well_formedD [OF assms(1)] and cw = concat_wf [OF assms(1), folded d_def] and ci = concat_wf_inputs [OF assms(1), folded d_def]
  let ?n = "length (ty_shape t)"
  have hx: "hd xs \<in> set xs" using cw(1) by simp
  note hd = hx ci(1) [OF hx] ci(3) [OF hx]
  have nd: "normalize_dim dim (int ?n) = int d"
  proof -
    have "verifyConcat (map getType xs) dim t = success" using w(1) by simp
    then have "0 \<le> normalize_dim dim (int ?n)" using hd cw(1) by (auto simp: verifyConcat_def Let_def hd_map)
    then show ?thesis using hd by (simp add: d_def)
  qed
  define ys where "ys = filter (\<lambda>x. shape_of x ! d \<noteq> 0) xs"
  have fold: "foldEmptyTensorsConcatOp xs dim t =
    (if length xs = length ys then None else if ys = [] then Some (FoldValue (hd xs)) else Some (FoldValue (ConcatOp ys dim t)))"
    unfolding foldEmptyTensorsConcatOp_def Let_def nd ys_def by simp
  have td: "ty_shape t ! d = (\<Sum>x\<leftarrow>xs. shape_of x ! d)" using cw(2,3) by (simp add: comp_def)
  have sum_ys: "(\<Sum>x\<leftarrow>xs. shape_of x ! d) = (\<Sum>x\<leftarrow>ys. shape_of x ! d)"
    unfolding ys_def by (induction xs) auto
  show ?thesis
  proof (cases "ys = []")
    case True
    have z: "ty_shape t ! d = 0" using td sum_ys True by simp
    have hz: "shape_of (hd xs) ! d = 0" using True hd(1) by (auto simp: ys_def filter_empty_conv)
    have "same gbs ?v (hd xs)"
    proof (rule sameI)
      show "shape_of (hd xs) = shape_of ?v"
      proof (rule nth_equalityI)
        show "shape_of (hd xs) ! i = shape_of ?v ! i" for i using ci(4) [OF hd(1), of i] z hz by (cases "i = d") simp_all
      qed (use hd in simp)
      fix c assume "in_shape c (shape_of ?v)"
      then have False using in_shape_nth [of c "ty_shape t" d] z hd(3) by auto
      then show "trace (hd xs) c = trace ?v c" ..
    qed (rule ci(5) [OF hd(1)])
    then show ?thesis using assms(2) True by (auto simp: fold split: if_splits)
  next
    case False
    let ?w = "ConcatOp ys dim t"
    have sub: "y \<in> set xs" if "y \<in> set ys" for y using that by (simp add: ys_def)
    have hy: "hd ys \<in> set xs" using sub False by simp
    have same: "same gbs ?v ?w"
    proof (rule sameI)
      show "well_formed gbs ?w"
      proof (rule well_formedI)
        show "verify_op gbs ?w = success"
          unfolding verify_op.simps
        proof (rule verifyConcatI [where n = ?n and d = d and sh = "ty_shape t"])
          show "\<forall>y\<in>set (map getType ys). length (ty_shape y) = ?n \<and> (\<forall>i<?n. i \<noteq> d \<longrightarrow> ty_shape y ! i = ty_shape t ! i)"
            using ci(1,4) sub by auto
          show "ty_shape t ! d = (\<Sum>y\<leftarrow>map getType ys. ty_shape y ! d)" using td sum_ys by (simp add: comp_def)
        qed (use False nd hd(3) in simp_all)
        have ld: "concat_dim ys dim = d" using ci(1) [OF hy] nd by simp
        have "ty_shape t = (shape_of (hd ys))[d := ty_shape t ! d]"
        proof (rule nth_equalityI)
          show "ty_shape t ! i = (shape_of (hd ys))[d := ty_shape t ! d] ! i" if "i < length (ty_shape t)" for i
            using that ci(1) [OF hy] ci(4) [OF hy, of i] by (cases "i = d") simp_all
        qed (use ci(1) [OF hy] in simp)
        then show "documented ?w" using False by (simp add: ld Let_def)
      qed (use w(2) ci(5) sub in simp_all)
      fix c assume c: "in_shape c (shape_of ?v)"
      obtain k c' where kc: "concat_source d (map shape_of xs) c = (k, c')" by fastforce
      have k: "k < length xs" using concat_step [OF assms(1), of c k c'] c kc by (simp add: d_def)
      have cd: "0 \<le> c ! d" "d < length c" using in_shape_nth [OF c, of d] in_shape_length [OF c] hd(3) by simp_all
      obtain k' where k': "k' < length ys" "concat_source d (map shape_of ys) c = (k', c')" "ys ! k' = xs ! k"
        using concat_source_filter [OF kc k cd] unfolding ys_def by blast
      have ld: "concat_dim ys dim = d" using ci(1) [OF hy] nd by simp
      have "trace ?w c = trace (ys ! k') c'" unfolding trace.simps ld using k' by simp
      moreover have "trace ?v c = trace (xs ! k) c'" unfolding trace.simps d_def [symmetric] using kc k by simp
      ultimately show "trace ?w c = trace ?v c" using k'(3) by simp
    qed simp
    then show ?thesis using assms(2) False by (auto simp: fold split: if_splits)
  qed
qed

end
