(* ===== verification/TirCanon.thy ===== *)
theory TirCanon
  imports TirFoldSound
begin

text \<open>
  Canonicalization patterns of tensor-manipulation operations: two reversals become one over
  the symmetric difference of their dimensions, an empty reversal disappears, a transposition becomes
  a permutation, squeeze and unsqueeze become reshapes, and a permutation between two reshapes that
  only add and remove leading unit dimensions drops them.
\<close>

section \<open>The patterns\<close>

definition flip_bits :: "nat list \<Rightarrow> bool list \<Rightarrow> bool list" where
  "flip_bits dims bits = foldl (\<lambda>b d. b[d := \<not> b ! d]) bits dims"

definition reverse_reverse :: "'e val \<Rightarrow> 'e val option" where
  "reverse_reverse v = (case v of
      ReverseOp x dims t \<Rightarrow>
        (case x of
           ReverseOp y dims1 t1 \<Rightarrow>
             let reverseDimensions = flip_bits (map nat dims1)
                   (flip_bits (map nat dims) (replicate (length (shape_of x)) False));
                 setIndices = filter (\<lambda>i. reverseDimensions ! nat i) (map int [0..<length reverseDimensions])
             in Some (ReverseOp y setIndices t)
         | _ \<Rightarrow> None)
    | _ \<Rightarrow> None)"

definition reverse_empty :: "'e val \<Rightarrow> 'e val option" where
  "reverse_empty v = (case v of ReverseOp x dims t \<Rightarrow> if dims = [] then Some x else None | _ \<Rightarrow> None)"

definition transpose_permutation :: "nat \<Rightarrow> int \<Rightarrow> int \<Rightarrow> int list" where
  "transpose_permutation r dim0 dim1 =
     swap_at (nat (normalize_dim dim0 (int r))) (nat (normalize_dim dim1 (int r))) (map int [0..<r])"

definition transpose_to_permute :: "'e val \<Rightarrow> 'e val option" where
  "transpose_to_permute v = (case v of
      TransposeOp x dim0 dim1 t \<Rightarrow> Some (PermuteOp x (transpose_permutation (length (shape_of x)) dim0 dim1) False t)
    | _ \<Rightarrow> None)"

definition normalizeToReshape :: "'e val \<Rightarrow> 'e val option" where
  "normalizeToReshape v = (case v of
      SqueezeOp x dim t \<Rightarrow> Some (ReshapeOp x (map to_i32 (ty_shape t)) t)
    | UnsqueezeOp x dim t \<Rightarrow> Some (ReshapeOp x (map to_i32 (ty_shape t)) t)
    | _ \<Rightarrow> None)"

text \<open>The trailing reshape of \<open>Reshape(Permute(Reshape(x)))\<close>; \<open>n\<close> is the number of leading
  unit dimensions it removes.\<close>

definition sandwich_ok :: "shape \<Rightarrow> shape \<Rightarrow> int list \<Rightarrow> nat \<Rightarrow> bool" where
  "sandwich_ok permuteOutShape outShape perm n \<longleftrightarrow>
     length outShape < length permuteOutShape \<and>
     list_all (\<lambda>d. d = 1) (take n permuteOutShape) \<and>
     drop n permuteOutShape = outShape \<and>
     list_all (\<lambda>i. perm ! i < int n) [0..<n]"

definition reshape_sandwich :: "('e val \<Rightarrow> bool) \<Rightarrow> 'e val \<Rightarrow> 'e val option" where
  "reshape_sandwich one_use v = (case v of
      ReshapeOp p sh t \<Rightarrow>
        (case p of
           PermuteOp l perm decomposed tp \<Rightarrow>
             (case l of
                ReshapeOp x sh1 tm \<Rightarrow>
                  let n = length (ty_shape tp) - length (ty_shape t)
                  in if \<not> one_use p \<or> \<not> sandwich_ok (ty_shape tp) (ty_shape t) perm n then None
                     else let newPerm = map (\<lambda>i. perm ! i - int n) [n..<length perm];
                              newMidShape = drop n (ty_shape tm);
                              newOutShape = map (\<lambda>i. newMidShape ! nat i) newPerm
                          in Some (PermuteOp
                               (ReshapeOp x (map to_i32 newMidShape) \<lparr>ty_shape = newMidShape, ty_elem = ty_elem tm\<rparr>)
                               newPerm False \<lparr>ty_shape = newOutShape, ty_elem = ty_elem t\<rparr>)
              | _ \<Rightarrow> None)
         | _ \<Rightarrow> None)
    | _ \<Rightarrow> None)"

text \<open>The patterns that are modelled; the driver may try them in any order.\<close>

definition canonicalization_patterns :: "('e val \<Rightarrow> bool) \<Rightarrow> ('e val \<Rightarrow> 'e val option) list" where
  "canonicalization_patterns one_use =
     [reverse_reverse, reverse_empty, transpose_to_permute, normalizeToReshape, reshape_sandwich one_use]"

section \<open>Reversals\<close>

lemma flip_bits_nth:
  assumes "distinct dims" "i < length bits"
  shows "flip_bits dims bits ! i = (bits ! i \<noteq> (i \<in> set dims))"
  using assms
proof (induction dims arbitrary: bits)
  case (Cons d ds)
  have "flip_bits (d # ds) bits ! i = flip_bits ds (bits[d := \<not> bits ! d]) ! i" by (simp add: flip_bits_def)
  also have "\<dots> = (bits[d := \<not> bits ! d] ! i \<noteq> (i \<in> set ds))" using Cons by simp
  also have "\<dots> = (bits ! i \<noteq> (i \<in> set (d # ds)))" using Cons.prems by (cases "i = d") auto
  finally show ?case .
qed (simp add: flip_bits_def)

lemma length_flip_bits [simp]: "length (flip_bits dims bits) = length bits"
  unfolding flip_bits_def by (induction dims arbitrary: bits) auto

lemma verifyReverse_dims:
  assumes "verifyReverse tx dims = success"
  shows "distinct dims" "\<forall>d\<in>set dims. 0 \<le> d \<and> d < rank tx" "distinct (map nat dims)"
proof -
  show d: "distinct dims" using assms by (auto simp: verifyReverse_def length_remdups_card_conv card_distinct split: if_splits)
  show b: "\<forall>d\<in>set dims. 0 \<le> d \<and> d < rank tx" using assms by (auto simp: verifyReverse_def not_le not_less split: if_splits)
  show "distinct (map nat dims)" using d b by (simp add: distinct_map inj_on_def) (metis int_nat_eq)
qed

lemma nat_mem_dims: "\<forall>d\<in>set dims. (0::int) \<le> d \<Longrightarrow> i \<in> set (map nat dims) \<longleftrightarrow> int i \<in> set dims"
  by (force simp: image_iff)

lemma same_reverse_reverse:
  assumes "well_formed gbs v" "reverse_reverse v = Some w"
  shows "same gbs v w"
proof -
  obtain y dims1 t1 dims t where v: "v = ReverseOp (ReverseOp y dims1 t1) dims t"
    using assms(2) by (auto simp: reverse_reverse_def split: val.splits)
  note wf = well_formedD [OF assms(1) [unfolded v]] and u = unary_wf [OF assms(1) [unfolded v], simplified, OF refl]
  note wf1 = well_formedD [OF u(1)] and u1 = unary_wf [OF u(1), simplified, OF refl]
  let ?n = "length (ty_shape t1)"
  have sh: "ty_shape t = ty_shape t1" "ty_shape t1 = shape_of y" using wf(3) wf1(3) by simp_all
  have ver: "verifyReverse t1 dims = success" "verifyReverse (getType y) dims1 = success" using wf(1) wf1(1) by simp_all
  note d = verifyReverse_dims [OF ver(1)] and d1 = verifyReverse_dims [OF ver(2)]
  define bits where "bits = flip_bits (map nat dims1) (flip_bits (map nat dims) (replicate ?n False))"
  define idx where "idx = filter (\<lambda>i. bits ! nat i) (map int [0..<?n])"
  have w: "w = ReverseOp y idx t"
    using assms(2) by (simp add: v reverse_reverse_def Let_def bits_def idx_def)
  have bits: "bits ! i = ((int i \<in> set dims) \<noteq> (int i \<in> set dims1))" if "i < ?n" for i
    using that d(2) d1(2) flip_bits_nth [OF d1(3), of i "flip_bits (map nat dims) (replicate ?n False)"]
      flip_bits_nth [OF d(3), of i "replicate ?n False"] nat_mem_dims [of dims i] nat_mem_dims [of dims1 i]
    by (auto simp: bits_def)
  have mem: "int i \<in> set idx \<longleftrightarrow> (int i \<in> set dims) \<noteq> (int i \<in> set dims1)" if "i < ?n" for i
    using bits [OF that] that by (auto simp: idx_def image_iff)
  show ?thesis unfolding v w
  proof (rule sameI)
    show "well_formed gbs (ReverseOp y idx t)"
    proof (rule well_formedI)
      have "distinct idx" by (simp add: idx_def distinct_map)
      then show "verify_op gbs (ReverseOp y idx t) = success"
        using sh by (auto simp: verifyReverse_def distinct_remdups_id idx_def)
    qed (use wf(2) sh u1(1) in simp_all)
    fix c assume c: "in_shape c (shape_of (ReverseOp (ReverseOp y dims1 t1) dims t))"
    have lc: "length c = ?n" using in_shape_length [OF c] sh by simp
    have "reverse_source (shape_of y) dims1 (reverse_source (ty_shape t1) dims c) = reverse_source (shape_of y) idx c"
      using lc mem sh by (intro nth_equalityI) (auto simp: reverse_source_def)
    then show "trace (ReverseOp y idx t) c = trace (ReverseOp (ReverseOp y dims1 t1) dims t) c" by simp
  qed simp
qed

lemma same_reverse_empty:
  assumes "well_formed gbs v" "reverse_empty v = Some w"
  shows "same gbs v w"
proof -
  obtain t where v: "v = ReverseOp w [] t" using assms(2) by (auto simp: reverse_empty_def split: val.splits if_splits)
  note wf = well_formedD [OF assms(1) [unfolded v]] and u = unary_wf [OF assms(1) [unfolded v], simplified, OF refl]
  show ?thesis unfolding v
  proof (rule sameI [OF u(1)])
    show "trace w c = trace (ReverseOp w [] t) c" for c by (simp add: reverse_source_def map_nth)
  qed (use wf(3) in simp)
qed

section \<open>Transpositions\<close>

lemma transpose_permutation_facts:
  assumes "a < r" "b < r"
  defines "p \<equiv> swap_at a b (map int [0..<r])"
  shows "is_permutation_of r p" "length xs = r \<Longrightarrow> applyPermutation xs p = swap_at a b xs"
    "length xs = r \<Longrightarrow> applyPermutation xs (inversePermutation p) = swap_at a b xs"
proof -
  have lp: "length p = r" by (simp add: p_def)
  have pn: "p ! i = int (if i = b then a else if i = a then b else i)" if "i < r" for i
    using that assms(1,2) by (simp add: p_def swap_at_nth)
  show perm: "is_permutation_of r p"
    unfolding is_permutation_of_def p_def swap_at_def using assms(1,2) by (intro mset_swap) simp_all
  show "applyPermutation xs p = swap_at a b xs" if "length xs = r"
    using that lp pn assms(1,2) by (intro nth_equalityI) (simp_all add: swap_at_nth)
  show "applyPermutation xs (inversePermutation p) = swap_at a b xs" if l: "length xs = r"
  proof (rule permuted_eqI [OF perm])
    fix i assume i: "i < r"
    have "swap_at a b xs ! nat (p ! i) = xs ! i"
      using i l pn [OF i] assms(1,2) by (auto simp: swap_at_nth)
    then show "applyPermutation xs (inversePermutation p) ! nat (p ! i) = swap_at a b xs ! nat (p ! i)"
      using apply_inverse_nth [OF perm l i] by simp
  qed (use l lp in simp_all)
qed

lemma same_transpose:
  assumes "well_formed gbs v" "transpose_to_permute v = Some w"
  shows "same gbs v w"
proof -
  obtain x dim0 dim1 t where v: "v = TransposeOp x dim0 dim1 t"
    and w: "w = PermuteOp x (transpose_permutation (length (shape_of x)) dim0 dim1) False t"
    using assms(2) by (auto simp: transpose_to_permute_def split: val.splits)
  note wf = well_formedD [OF assms(1) [unfolded v]] and u = unary_wf [OF assms(1) [unfolded v], simplified, OF refl]
  have ver: "verifyTranspose (getType x) dim0 dim1 t = success" using wf(1) by simp
  note tp = transpose_permutation_facts [OF verifyTranspose_dims [OF ver], folded transpose_permutation_def]
  have sh: "ty_shape t = transpose_source (shape_of x) dim0 dim1 (shape_of x)" using wf(3) by simp
  show ?thesis unfolding v w
  proof (rule sameI)
    show "well_formed gbs (PermuteOp x (transpose_permutation (length (shape_of x)) dim0 dim1) False t)"
      using wf(2) sh tp(1) tp(2) [OF refl] by (intro permute_wf [OF _ u(1)]) (simp_all add: transpose_source_def is_permutation_length)
    fix c assume "in_shape c (shape_of (TransposeOp x dim0 dim1 t))"
    then have lc: "length c = length (shape_of x)" using in_shape_length sh by (fastforce simp: transpose_source_def)
    show "trace (PermuteOp x (transpose_permutation (length (shape_of x)) dim0 dim1) False t) c = trace (TransposeOp x dim0 dim1 t) c"
      by (simp only: trace.simps permute_source_def transpose_source_def tp(3) [OF lc])
  qed simp
qed

section \<open>Squeeze and unsqueeze\<close>

lemma row_index_insert:
  assumes "length c = length sh - 1" "d < length sh" "sh ! d = 1"
  shows "row_index sh (take d c @ 0 # drop d c) = row_index (take d sh @ drop (Suc d) sh) c"
  using assms
proof (induction sh arbitrary: c d)
  case (Cons s ss)
  show ?case
  proof (cases d)
    case (Suc e)
    then have "c \<noteq> []" using Cons.prems by auto
    then obtain a cs where c: "c = a # cs" by (cases c) auto
    have e: "length cs = length ss - 1" "e < length ss" "ss ! e = 1" using Cons.prems Suc c by auto
    have "prod_list ss = prod_list (take e ss @ ss ! e # drop (Suc e) ss)" by (simp only: id_take_nth_drop [OF e(2), symmetric])
    then have "prod_list (take e ss @ drop (Suc e) ss) = prod_list ss" using e(3) by simp
    then show ?thesis using Cons.IH [OF e] Suc c by simp
  qed (use Cons.prems in simp)
qed simp

lemma prod_list_remove_unit:
  assumes "d < length sh" "sh ! d = (1::int)"
  shows "prod_list (take d sh @ drop (Suc d) sh) = prod_list sh"
proof -
  have "prod_list sh = prod_list (take d sh @ sh ! d # drop (Suc d) sh)" by (simp only: id_take_nth_drop [OF assms(1), symmetric])
  then show ?thesis using assms(2) by simp
qed

lemma reshape_loop_exact:
  assumes "\<forall>k<length dims. 0 \<le> dims ! k \<and> dims ! k = out ! (i + k)"
  shows "reshape_loop i dims out neg = success"
  using assms
proof (induction dims arbitrary: i)
  case (Cons d ds)
  have "0 \<le> d" "d = out ! i" using Cons.prems by auto
  moreover have "reshape_loop (Suc i) ds out neg = success" using Cons.prems by (intro Cons.IH) force
  ultimately show ?case by simp
qed simp

lemma to_i32_shape: "small_shape sh \<Longrightarrow> map to_i32 sh = sh"
  by (intro nth_equalityI) (auto simp: small_nth dest!: small_nth)

lemma verify_reshape_exact:
  assumes "small_shape (ty_shape t)" "prod_list (ty_shape tx) = prod_list (ty_shape t)"
  shows "verifyReshape tx (map to_i32 (ty_shape t)) t = success"
  using assms small_nth [OF assms(1)]
  by (simp add: verifyReshape_def getNumElements_def to_i32_shape reshape_loop_exact)

lemma same_normalize:
  assumes "well_formed gbs v" "normalizeToReshape v = Some w"
  shows "same gbs v w"
proof -
  note wfv = assms(1)
  consider (sq) x dim t where "v = SqueezeOp x dim t" | (un) x dim t where "v = UnsqueezeOp x dim t"
    using assms(2) by (auto simp: normalizeToReshape_def split: val.splits)
  then show ?thesis
  proof cases
    case sq
    have w: "w = ReshapeOp x (map to_i32 (ty_shape t)) t" using assms(2) sq by (simp add: normalizeToReshape_def)
    note wf = well_formedD [OF wfv [unfolded sq]] and u = unary_wf [OF wfv [unfolded sq], simplified, OF refl]
    have "verifySqueeze (getType x) dim t = success" using wf(1) by simp
    note s = verifySqueeze_shape [OF this] and ins = squeeze_in_shape [OF this]
    show ?thesis unfolding sq w
    proof (rule sameI)
      show "well_formed gbs (ReshapeOp x (map to_i32 (ty_shape t)) t)"
      proof (rule well_formedI)
        show "verify_op gbs (ReshapeOp x (map to_i32 (ty_shape t)) t) = success"
          unfolding verify_op.simps using wf(2) prod_list_remove_unit [OF s(1,2)] s(3) by (intro verify_reshape_exact) simp_all
      qed (use wf(2) u(1) in simp_all)
      fix c assume c: "in_shape c (shape_of (SqueezeOp x dim t))"
      have "length c = length (shape_of x) - 1" using in_shape_length [OF c] s(1,3) by simp
      then have "row_index (shape_of x) (squeeze_source (shape_of x) dim c) = row_index (ty_shape t) c"
        unfolding squeeze_source_def Let_def s(3) using s(1,2) by (intro row_index_insert) simp_all
      then have "linearIdToCoord (row_index (ty_shape t) c) (shape_of x) = squeeze_source (shape_of x) dim c"
        using linearIdToCoord_row_index [OF ins] c by (metis getType.simps(11))
      then show "trace (ReshapeOp x (map to_i32 (ty_shape t)) t) c = trace (SqueezeOp x dim t) c" by (simp add: reshape_source_def)
    qed simp
  next
    case un
    have w: "w = ReshapeOp x (map to_i32 (ty_shape t)) t" using assms(2) un by (simp add: normalizeToReshape_def)
    note wf = well_formedD [OF wfv [unfolded un]] and u = unary_wf [OF wfv [unfolded un], simplified, OF refl]
    have "verifyUnsqueeze (getType x) dim t = success" using wf(1) by simp
    note s = verifyUnsqueeze_shape [OF this] and ins = unsqueeze_in_shape [OF this]
    let ?d = "nat (normalize_dim dim (rank (getType x) + 1))"
    show ?thesis unfolding un w
    proof (rule sameI)
      show "well_formed gbs (ReshapeOp x (map to_i32 (ty_shape t)) t)"
      proof (rule well_formedI)
        show "verify_op gbs (ReshapeOp x (map to_i32 (ty_shape t)) t) = success"
          unfolding verify_op.simps using wf(2) prod_list_remove_unit [OF s(1,2)] s(3) by (intro verify_reshape_exact) simp_all
      qed (use wf(2) u(1) in simp_all)
      fix c assume c: "in_shape c (shape_of (UnsqueezeOp x dim t))"
      let ?c = "unsqueeze_source (shape_of x) dim c"
      have lc: "length c = length (ty_shape t)" using in_shape_length [OF c] by simp
      have "c ! ?d = 0" using in_shape_nth [OF c, of ?d] s(1,2) by simp
      then have "c = take ?d c @ 0 # drop (Suc ?d) c" using id_take_nth_drop [of ?d c] s(1) lc by simp
      then have restored: "take ?d ?c @ 0 # drop ?d ?c = c" using s(1) lc by (simp add: unsqueeze_source_def Let_def min_def)
      have "row_index (ty_shape t) (take ?d ?c @ 0 # drop ?d ?c) = row_index (take ?d (ty_shape t) @ drop (Suc ?d) (ty_shape t)) ?c"
        using s(1,2) lc by (intro row_index_insert) (simp_all add: unsqueeze_source_def Let_def)
      then have "row_index (shape_of x) ?c = row_index (ty_shape t) c"
        unfolding restored using arg_cong [where f = "\<lambda>sh. row_index sh ?c", OF s(3)] by simp
      then have "linearIdToCoord (row_index (ty_shape t) c) (shape_of x) = ?c"
        using linearIdToCoord_row_index [OF ins] c by (metis getType.simps(12))
      then show "trace (ReshapeOp x (map to_i32 (ty_shape t)) t) c = trace (UnsqueezeOp x dim t) c" by (simp add: reshape_source_def)
    qed simp
  qed
qed

section \<open>The permutation between two reshapes\<close>

lemma row_index_units:
  "row_index (replicate n 1 @ sh) (replicate n 0 @ c) = row_index sh c"
  by (induction n) auto

lemma in_shape_units: "in_shape (replicate n 0 @ c) (replicate n 1 @ sh) \<longleftrightarrow> in_shape c sh"
  by (induction n) auto

lemma prod_list_units: "prod_list (replicate n 1 @ sh) = prod_list sh"
  by (induction n) auto

text \<open>A permutation that keeps the first \<open>n\<close> positions among themselves is one of the rest, shifted
  by \<open>n\<close>.\<close>

lemma split_permutation:
  assumes "is_permutation_of r perm" "n \<le> r" "\<forall>i<n. perm ! i < int n"
  defines "q \<equiv> map (\<lambda>i. perm ! i - int n) [n..<r]"
  shows "set (take n perm) = int ` {0..<n}" "\<And>i. n \<le> i \<Longrightarrow> i < r \<Longrightarrow> int n \<le> perm ! i"
    "is_permutation_of (r - n) q" "\<And>j. j < r - n \<Longrightarrow> q ! j = perm ! (n + j) - int n"
proof -
  have lp: "length perm = r" and di: "distinct perm" and st: "set perm = int ` {0..<r}"
    using is_permutation_length [OF assms(1)] is_permutation_distinct [OF assms(1)] is_permutation_set [OF assms(1)] by simp_all
  have sub: "set (take n perm) \<subseteq> int ` {0..<n}"
  proof
    fix y assume "y \<in> set (take n perm)"
    then obtain i where i: "i < n" "y = perm ! i" using lp assms(2) by (auto simp: in_set_conv_nth)
    then have "0 \<le> y" "y < int n" using assms(3) is_permutation_nth(1) [OF assms(1), of i] assms(2) by auto
    then show "y \<in> int ` {0..<n}" by (intro image_eqI [of _ _ "nat y"]) auto
  qed
  have "card (set (take n perm)) = n" using di lp assms(2) by (simp add: distinct_card)
  then show first: "set (take n perm) = int ` {0..<n}"
    using sub by (intro card_subset_eq) (simp_all add: card_image)
  have "set perm = set (take n perm) \<union> set (drop n perm)" by (metis append_take_drop_id set_append)
  moreover have "set (take n perm) \<inter> set (drop n perm) = {}" using di by (metis append_take_drop_id distinct_append)
  ultimately have rest: "set (drop n perm) = int ` {0..<r} - int ` {0..<n}" using st first by blast
  show ge: "int n \<le> perm ! i" if "n \<le> i" "i < r" for i
  proof -
    have "perm ! i = drop n perm ! (i - n)" using that lp by simp
    then have "perm ! i \<in> set (drop n perm)" using that lp by (metis diff_less_mono length_drop nth_mem)
    then show ?thesis using rest by force
  qed
  show qn: "q ! j = perm ! (n + j) - int n" if "j < r - n" for j using that by (simp add: q_def)
  have q: "q = map (\<lambda>p. p - int n) (drop n perm)"
    using lp by (intro nth_equalityI) (simp_all add: q_def)
  show "is_permutation_of (r - n) q"
  proof (rule is_permutationI)
    have "set q = (\<lambda>p. p - int n) ` (int ` {0..<r} - int ` {0..<n})" unfolding q using rest by simp
    also have "int ` {0..<r} - int ` {0..<n} = int ` {n..<r}" by (auto simp: image_iff)
    also have "(\<lambda>p. p - int n) ` int ` {n..<r} = int ` {0..<r - n}"
    proof
      show "(\<lambda>p. p - int n) ` int ` {n..<r} \<subseteq> int ` {0..<r - n}"
      proof
        fix y assume "y \<in> (\<lambda>p. p - int n) ` int ` {n..<r}"
        then obtain i where "n \<le> i" "i < r" "y = int i - int n" by auto
        then have "y = int (i - n)" "i - n < r - n" by auto
        then show "y \<in> int ` {0..<r - n}" by auto
      qed
      show "int ` {0..<r - n} \<subseteq> (\<lambda>p. p - int n) ` int ` {n..<r}"
      proof
        fix y assume "y \<in> int ` {0..<r - n}"
        then obtain i where "i < r - n" "y = int i" by auto
        then have "y = int (i + n) - int n" "i + n \<in> {n..<r}" by auto
        then show "y \<in> (\<lambda>p. p - int n) ` int ` {n..<r}" by blast
      qed
    qed
    finally show "set q = int ` {0..<r - n}" .
  qed (simp add: q_def)
qed

lemma permute_units:
  assumes "is_permutation_of r perm" "n \<le> r" "\<forall>i<n. perm ! i < int n" "length c = r - n"
  defines "q \<equiv> map (\<lambda>i. perm ! i - int n) [n..<r]"
  shows "permute_source perm (replicate n 0 @ c) = replicate n 0 @ permute_source q c"
proof (rule permuted_eqI [OF assms(1)])
  note sp = split_permutation [OF assms(1-3), folded q_def]
  have lp: "length perm = r" using is_permutation_length [OF assms(1)] .
  have l: "length (replicate n 0 @ c) = r" using assms(2,4) by simp
  show "length (permute_source perm (replicate n 0 @ c)) = r" using lp by (simp add: permute_source_def)
  show "length (replicate n 0 @ permute_source q c) = r" using assms(2) by (simp add: permute_source_def q_def)
  fix i assume i: "i < r"
  have "permute_source perm (replicate n 0 @ c) ! nat (perm ! i) = (replicate n 0 @ c) ! i"
    unfolding permute_source_def by (rule apply_inverse_nth [OF assms(1) l i])
  also have "\<dots> = (replicate n 0 @ permute_source q c) ! nat (perm ! i)"
  proof (cases "i < n")
    case True
    then have "nat (perm ! i) < n" using assms(3) is_permutation_nth(1) [OF assms(1) i] by (simp add: nat_less_iff)
    then show ?thesis using True by (simp add: nth_append)
  next
    case False
    then have ge: "int n \<le> perm ! i" using sp(2) i by simp
    have j: "i - n < r - n" using False i by simp
    have "nat (perm ! i) - n = nat (q ! (i - n))" using sp(4) [OF j] False ge by (simp add: nat_diff_distrib)
    moreover have "permute_source q c ! nat (q ! (i - n)) = c ! (i - n)"
      unfolding permute_source_def by (rule apply_inverse_nth [OF sp(3) assms(4) j])
    moreover have "\<not> nat (perm ! i) < n" using ge by simp
    ultimately show ?thesis using False by (simp add: nth_append)
  qed
  finally show "permute_source perm (replicate n 0 @ c) ! nat (perm ! i) = (replicate n 0 @ permute_source q c) ! nat (perm ! i)" .
qed

lemma sandwich_shapes:
  assumes "is_permutation_of r perm" "length mid = r" "applyPermutation mid perm = replicate n 1 @ out" "n \<le> r"
    "\<forall>i<n. perm ! i < int n"
  defines "q \<equiv> map (\<lambda>i. perm ! i - int n) [n..<r]"
  shows "mid = replicate n 1 @ drop n mid" "applyPermutation (drop n mid) q = out"
proof -
  note sp = split_permutation [OF assms(1,4,5), folded q_def]
  have lp: "length perm = r" using is_permutation_length [OF assms(1)] .
  have nth: "mid ! nat (perm ! i) = (replicate n 1 @ out) ! i" if "i < r" for i
    using arg_cong [OF assms(3), of "\<lambda>xs. xs ! i"] that lp by simp
  have "mid ! j = 1" if j: "j < n" for j
  proof -
    have "int j \<in> set (take n perm)" using sp(1) j by simp
    then obtain i where i: "i < n" "perm ! i = int j" using lp assms(4) by (auto simp: in_set_conv_nth)
    then show ?thesis using nth [of i] assms(4) by (simp add: nth_append)
  qed
  then have "take n mid = replicate n 1" using assms(2,4) by (intro nth_equalityI) simp_all
  then show "mid = replicate n 1 @ drop n mid" by (metis append_take_drop_id)
  have lo: "length out = r - n" using arg_cong [OF assms(3), of length] lp by simp
  show "applyPermutation (drop n mid) q = out"
  proof (rule nth_equalityI)
    show "length (applyPermutation (drop n mid) q) = length out" using lo by (simp add: q_def)
    fix j assume "j < length (applyPermutation (drop n mid) q)"
    then have j: "j < r - n" by (simp add: q_def)
    have ge: "int n \<le> perm ! (n + j)" "nat (perm ! (n + j)) < r" using sp(2) [of "n + j"] is_permutation_nth(2) [OF assms(1), of "n + j"] j by auto
    have "applyPermutation (drop n mid) q ! j = mid ! (n + nat (q ! j))"
      using j sp(4) [OF j] ge assms(2,4) by (simp add: q_def)
    also have "n + nat (q ! j) = nat (perm ! (n + j))" using sp(4) [OF j] ge by (simp add: nat_diff_distrib nat_le_iff)
    also have "mid ! \<dots> = out ! j" using nth [of "n + j"] j by (simp add: nth_append)
    finally show "applyPermutation (drop n mid) q ! j = out ! j" .
  qed
qed

lemma same_sandwich:
  assumes "well_formed gbs v" "reshape_sandwich one_use v = Some w"
  shows "same gbs v w"
proof -
  obtain x sh1 tm perm dec tp sh t where v: "v = ReshapeOp (PermuteOp (ReshapeOp x sh1 tm) perm dec tp) sh t"
    using assms(2) by (auto simp: reshape_sandwich_def split: val.splits)
  define n where "n = length (ty_shape tp) - length (ty_shape t)"
  let ?q = "map (\<lambda>i. perm ! i - int n) [n..<length perm]" and ?mid = "drop n (ty_shape tm)"
  let ?r = "ReshapeOp x (map to_i32 ?mid) \<lparr>ty_shape = ?mid, ty_elem = ty_elem tm\<rparr>"
  let ?w = "PermuteOp ?r ?q False \<lparr>ty_shape = map (\<lambda>i. ?mid ! nat i) ?q, ty_elem = ty_elem t\<rparr>"
  have ok: "sandwich_ok (ty_shape tp) (ty_shape t) perm n" and w: "w = ?w"
    using assms(2) by (simp_all add: v reshape_sandwich_def Let_def n_def split: if_splits)
  note wf = well_formedD [OF assms(1) [unfolded v]] and u = unary_wf [OF assms(1) [unfolded v], simplified, OF refl]
  note wf1 = well_formedD [OF u(1)] and u1 = unary_wf [OF u(1), simplified, OF refl]
  note wf2 = well_formedD [OF u1(1)] and u2 = unary_wf [OF u1(1), simplified, OF refl]
  let ?k = "length (ty_shape tm)"
  have p: "is_permutation_of ?k perm" "length perm = ?k" "applyPermutation (ty_shape tm) perm = ty_shape tp"
    using wf1(1) by (auto simp: verifyPermute_def Let_def)
  have lk: "length (ty_shape tp) = ?k" using arg_cong [OF p(3), of length] p(2) by simp
  then have nk: "n \<le> ?k" and lt: "length (ty_shape t) = ?k - n"
    using ok by (auto simp: n_def sandwich_ok_def)
  have keep: "\<forall>i<n. perm ! i < int n" using ok by (simp add: sandwich_ok_def list_all_length)
  have "take n (ty_shape tp) = replicate n 1"
    using ok nk lk by (intro nth_equalityI) (simp_all add: sandwich_ok_def list_all_length)
  then have tp: "ty_shape tp = replicate n 1 @ ty_shape t"
    using ok append_take_drop_id [of n "ty_shape tp"] by (simp add: sandwich_ok_def)
  note ss = sandwich_shapes [OF p(1) refl p(3) [unfolded tp] nk keep, folded p(2)]
  note sp = split_permutation [OF p(1) nk keep, folded p(2)]
  have out: "map (\<lambda>i. ?mid ! nat i) ?q = ty_shape t" using ss(2) by (simp add: applyPermutation_def)
  have prod: "prod_list (shape_of x) = prod_list ?mid"
  proof -
    have "prod_list (shape_of x) = prod_list (ty_shape tm)" using wf2(1) by (simp add: verifyReshape_def getNumElements_def)
    also have "\<dots> = prod_list (replicate n 1 @ ?mid)" using arg_cong [OF ss(1), of prod_list] .
    finally show ?thesis by (simp only: prod_list_units)
  qed
  have small: "small_shape ?mid" using u1(2) by (auto simp: small_shape_def list_all_iff dest: in_set_dropD)
  show ?thesis unfolding v w
  proof (rule sameI)
    have r: "well_formed gbs ?r"
    proof (rule well_formedI)
      show "verify_op gbs ?r = success"
        unfolding verify_op.simps
        using verify_reshape_exact [of "\<lparr>ty_shape = ?mid, ty_elem = ty_elem tm\<rparr>" "getType x"] small prod by simp
    qed (use small u2(1) in simp_all)
    show "well_formed gbs ?w"
    proof (rule well_formedI)
      show "verify_op gbs ?w = success"
        using sp(3) p(2) by (simp add: verifyPermute_def Let_def applyPermutation_def)
    qed (use wf(2) r out in simp_all)
    show "shape_of ?w = shape_of (ReshapeOp (PermuteOp (ReshapeOp x sh1 tm) perm dec tp) sh t)" using out by simp
    fix c assume "in_shape c (shape_of (ReshapeOp (PermuteOp (ReshapeOp x sh1 tm) perm dec tp) sh t))"
    then have c: "in_shape c (ty_shape t)" by simp
    have lc: "length c = ?k - n" using in_shape_length [OF c] lt by simp
    have "in_shape (replicate n 0 @ c) (ty_shape tp)" using c by (simp add: tp in_shape_units)
    then have 1: "reshape_source (ty_shape tp) (ty_shape t) c = replicate n 0 @ c"
      using linearIdToCoord_row_index [of "replicate n 0 @ c" "ty_shape tp"] by (simp add: reshape_source_def tp row_index_units)
    have 2: "permute_source perm (replicate n 0 @ c) = replicate n 0 @ permute_source ?q c"
      using permute_units [OF p(1) nk keep lc] p(2) by simp
    have 3: "row_index (ty_shape tm) (replicate n 0 @ c') = row_index ?mid c'" for c'
      using arg_cong [OF ss(1), of "\<lambda>sh. row_index sh (replicate n 0 @ c')"] by (simp add: row_index_units)
    show "trace ?w c = trace (ReshapeOp (PermuteOp (ReshapeOp x sh1 tm) perm dec tp) sh t) c"
      by (simp only: trace.simps getType.simps 1 2) (simp only: reshape_source_def 3 tensor_type.select_convs)
  qed
qed

lemma canonicalization_sound:
  assumes "well_formed gbs v" "pattern \<in> set (canonicalization_patterns one_use)" "pattern v = Some w"
  shows "same gbs v w"
  using assms same_reverse_reverse same_reverse_empty same_transpose same_normalize same_sandwich
  unfolding canonicalization_patterns_def by fastforce

end
