(* ===== verification/TirProps.thy ===== *)
theory TirProps
  imports TirConcatSound TirCanon TirConst
begin

text \<open>
  The properties of the TTIR tensor-manipulation operations, their folders and their
  canonicalization patterns.
\<close>

section \<open>Folding\<close>

lemma orelse_Some: "orelse a b = Some r \<longleftrightarrow> a = Some r \<or> (a = None \<and> b = Some r)"
  by (cases a) (auto simp: orelse_def)

lemma constantFoldTM_attr: "constantFoldTM ml kind sh t input f \<noteq> Some (FoldValue w)"
  by (auto simp: constantFoldTM_def split: option.splits dense.splits)

lemmas fold_value_simps =
  orelse_Some constantFoldTM_attr constantFoldSliceStatic_def constantFoldRepeat_def constantFoldRepeatInterleave_def
  constantFoldPermute_def constFoldReshape_def constFoldBroadcast_def

lemma fold_value_same:
  fixes v :: "'e val" and input :: "'a dense option"
  assumes "well_formed gbs v" "slices_mergeable v" "fold_op ml kind one_use input v = Some (FoldValue w)"
  shows "same gbs v w"
proof (cases v)
  case (Arg n t)
  then show ?thesis using assms(3) by simp
next
  case (ConcatOp xs dim t)
  note wf = assms(1) [unfolded ConcatOp]
  from assms(3) consider "foldUnitConcatOp xs = Some (FoldValue w :: ('e, 'a) fold_result)"
    | "foldEmptyTensorsConcatOp xs dim t = Some (FoldValue w :: ('e, 'a) fold_result)"
    unfolding ConcatOp by (auto simp: orelse_Some)
  then show ?thesis
  proof cases
    case 1
    then have "xs = [w]" by (cases xs) (auto simp: foldUnitConcatOp_def split: if_splits)
    then show ?thesis using same_concat_unit wf ConcatOp by blast
  next
    case 2
    then show ?thesis using same_concat_empties [OF wf 2] ConcatOp by auto
  qed
next
  case (SliceStaticOp x b e s t)
  note wf = assms(1) [unfolded SliceStaticOp]
  from assms(3) consider "foldConsecutiveSliceStatic one_use x b e s t = Some (FoldValue w :: ('e, 'a) fold_result)"
    | "foldSliceOfConcat x b e s = Some (FoldValue w :: ('e, 'a) fold_result)"
    unfolding SliceStaticOp by (auto simp: fold_value_simps)
  then show ?thesis
  proof cases
    case 1
    then show ?thesis using same_slice_consecutive wf assms(2) SliceStaticOp
      by (auto simp: foldConsecutiveSliceStatic_def Let_def split: val.splits if_splits)
  next
    case 2
    then obtain xs dim tc where x: "x = ConcatOp xs dim tc" by (cases x) (simp_all add: foldSliceOfConcat_def)
    have "slice_of_concat_loop (normalize_dim dim (int (length b))) 0 b e s xs = Some w"
      using 2 unfolding x foldSliceOfConcat_def by (simp split: if_splits)
    from same_slice_of_concat [OF wf [unfolded x] this] show ?thesis using SliceStaticOp x by simp
  qed
next
  case (PermuteOp x p d t)
  note wf = assms(1) [unfolded PermuteOp]
  from assms(3) consider "foldIdentityPermute x p = Some (FoldValue w :: ('e, 'a) fold_result)"
    | "foldConsecutivePermute x p d t = Some (FoldValue w :: ('e, 'a) fold_result)"
    unfolding PermuteOp by (auto simp: fold_value_simps Let_def)
  then show ?thesis
  proof cases
    case 1
    then show ?thesis using same_permute_identity [OF wf 1] PermuteOp by simp
  next
    case 2
    then show ?thesis using same_permute_consecutive wf PermuteOp
      by (auto simp: foldConsecutivePermute_def split: val.splits if_splits)
  qed
next
  case (ReshapeOp x sh t)
  note wf = assms(1) [unfolded ReshapeOp]
  from assms(3) consider "foldIdentityReshape x t = Some (FoldValue w :: ('e, 'a) fold_result)"
    | "foldConsecutiveReshape x sh t = Some (FoldValue w :: ('e, 'a) fold_result)"
    unfolding ReshapeOp by (auto simp: fold_value_simps)
  then show ?thesis
  proof cases
    case 1
    then show ?thesis using same_reshape_identity [OF wf] ReshapeOp by (auto simp: foldIdentityReshape_def split: if_splits)
  next
    case 2
    then show ?thesis using same_reshape_consecutive wf ReshapeOp
      by (auto simp: foldConsecutiveReshape_def split: val.splits)
  qed
next
  case (BroadcastOp x dims t)
  then show ?thesis using same_broadcast_identity assms(1,3)
    by (auto simp: fold_value_simps broadcastIdentityFold_def split: if_splits option.splits)
next
  case (RepeatOp x dims t)
  note wf = assms(1) [unfolded RepeatOp]
  from assms(3) consider "foldIdentityRepeat x dims = Some (FoldValue w :: ('e, 'a) fold_result)"
    | "foldConsecutiveRepeat one_use x dims t = Some (FoldValue w :: ('e, 'a) fold_result)"
    unfolding RepeatOp by (auto simp: fold_value_simps)
  then show ?thesis
  proof cases
    case 1
    then show ?thesis using same_repeat_identity [OF wf] RepeatOp by (auto simp: foldIdentityRepeat_def split: if_splits)
  next
    case 2
    then show ?thesis using same_repeat_consecutive wf RepeatOp
      by (auto simp: foldConsecutiveRepeat_def split: val.splits if_splits)
  qed
next
  case (RepeatInterleaveOp x repeats dim t)
  then show ?thesis using same_interleave_identity assms(1,3)
    by (auto simp: fold_value_simps foldIdentityRepeatInterleave_def split: if_splits)
qed (use assms(3) in simp_all)

section \<open>Constant folding\<close>

text \<open>The negative dimension of a \<open>RepeatInterleaveOp\<close> is excluded: see
  \<open>interleave_fold_negative_dim\<close>.\<close>

definition const_foldable :: "'e val \<Rightarrow> bool" where
  "const_foldable v = (case v of RepeatInterleaveOp x repeats dim t \<Rightarrow> 0 \<le> dim \<and> rank (getType x) < 2 ^ 64 | _ \<Rightarrow> True)"

lemma legal_mlirD:
  assumes "legal_mlir ml"
  shows "row_major (computeStrides ml) (linearize ml)"
    "is_permutation_of n p \<Longrightarrow> length c = n \<Longrightarrow>
      applyPermutationToVector ml c (invertPermutationVector ml p) = permute_source p c"
  using assms by (auto simp: legal_mlir_def permute_source_def is_permutation_length)

lemma constant_fold_at:
  assumes "legal_mlir ml" "well_formed gbs v" "const_foldable v" "operands v = [x]"
    "fold_op ml kind one_use (Some d) v = Some (FoldAttr d')" "in_shape c (shape_of v)"
  obtains c' where "trace v c = trace x c'" "dense_at d' (shape_of v) c = dense_at d (shape_of x) c'"
proof -
  note u = unary_wf [OF assms(2,4)] and wf = well_formedD [OF assms(2)] and rm = legal_mlirD(1) [OF assms(1)]
  have st: "static_shape (shape_of v)" using wf(2) by (rule small_static)
  note at = constantFoldTM_at [OF _ rm st assms(6)]
  note lc = in_shape_length [OF assms(6)]
  show thesis
  proof (cases v)
    case (SliceStaticOp y b e s t)
    then have y: "y = x" using assms(4) by simp
    have "constantFoldTM ml kind (shape_of x) t (Some d) (slice_index_map (shape_of x) b s) = Some (FoldAttr d')"
      using assms(5) unfolding SliceStaticOp y
      by (auto simp: orelse_Some constantFoldSliceStatic_def foldConsecutiveSliceStatic_def foldSliceOfConcat_def Let_def
          split: val.splits if_splits)
    note f = this
    have lx: "length c = length (shape_of x)" using wf(1) lc SliceStaticOp y by (auto simp: verifySliceStatic_def Let_def)
    from constantFoldTM_at [OF f rm] st assms(6) slice_index_map_source [OF lx, of b s] lx
    show thesis using that [of "slice_source (shape_of x) b s c"] SliceStaticOp y by (simp add: slice_source_def)
  next
    case (PermuteOp y p dec t)
    then have y: "y = x" using assms(4) by simp
    have p: "is_permutation_of (length (shape_of x)) p" "applyPermutation (shape_of x) p = ty_shape t"
      using wf(1) PermuteOp y by (auto simp: verifyPermute_def Let_def)
    have lx: "length c = length (shape_of x)"
      using lc p is_permutation_length [OF p(1)] PermuteOp by (metis getType.simps(4) length_applyPermutation)
    have "constantFoldTM ml kind (shape_of x) t (Some d) (\<lambda>c. applyPermutationToVector ml c (invertPermutationVector ml p)) = Some (FoldAttr d')"
      using assms(5) unfolding PermuteOp y
      by (auto simp: orelse_Some constantFoldPermute_def foldConsecutivePermute_def foldIdentityPermute_def Let_def
          split: val.splits if_splits)
    from constantFoldTM_at [OF this rm] st assms(6) legal_mlirD(2) [OF assms(1) p(1) lx] lx is_permutation_length [OF p(1)]
    show thesis using that [of "permute_source p c"] PermuteOp y by (simp add: permute_source_def)
  next
    case (RepeatOp y dims t)
    then have y: "y = x" using assms(4) by simp
    have l: "length (ty_shape t) = length (shape_of x)" using wf(1) RepeatOp y by (auto simp: verifyRepeat_def Let_def)
    have "constantFoldTM ml kind (shape_of x) t (Some d) (repeat_index_map (shape_of x)) = Some (FoldAttr d')"
      using assms(5) unfolding RepeatOp y
      by (auto simp: orelse_Some constantFoldRepeat_def foldConsecutiveRepeat_def foldIdentityRepeat_def Let_def
          split: val.splits if_splits)
    from constantFoldTM_at [OF this rm] st assms(6) repeat_index_map_source [OF _ l u(3)] lc l
    show thesis using that [of "repeat_source (shape_of x) c"] RepeatOp y by (simp add: repeat_source_def)
  next
    case (RepeatInterleaveOp y repeats dim t)
    then have y: "y = x" using assms(4) by simp
    have f: "constantFoldTM ml kind (shape_of x) t (Some d) (interleave_index_map dim repeats) = Some (FoldAttr d')"
      using assms(5) unfolding RepeatInterleaveOp y
      by (auto simp: orelse_Some constantFoldRepeatInterleave_def foldIdentityRepeatInterleave_def split: if_splits)
    have l: "length (ty_shape t) = length (shape_of x)" and dim: "dim < int (length (shape_of x))" and r: "0 \<le> repeats"
      using wf(1,3) RepeatInterleaveOp y by (auto simp: verifyRepeatInterleave_def Let_def)
    have "interleave_index_map dim repeats c = interleave_source (shape_of x) repeats dim c"
      using interleave_index_map_source [of c "ty_shape t" "shape_of x" dim repeats] assms(3,6) l dim r RepeatInterleaveOp y
      by (simp add: const_foldable_def)
    with constantFoldTM_at [OF f rm] st assms(6) lc l
    show thesis using that [of "interleave_source (shape_of x) repeats dim c"] RepeatInterleaveOp y
      by (simp add: interleave_index_map_def interleave_source_def Let_def)
  next
    case (ReshapeOp y sh t)
    then have y: "y = x" using assms(4) by simp
    have "d' = d" using assms(5) unfolding ReshapeOp
      by (auto simp: orelse_Some foldIdentityReshape_def foldConsecutiveReshape_def constFoldReshape_def split: val.splits if_splits)
    moreover have "prod_list (shape_of x) = prod_list (ty_shape t)"
      using wf(1) ReshapeOp y by (simp add: verifyReshape_def getNumElements_def)
    then have "row_index (shape_of x) (reshape_source (shape_of x) (ty_shape t) c) = row_index (ty_shape t) c"
      using linearIdToCoord_inverse(2) [OF u(3)] row_index_bounds [OF assms(6)] ReshapeOp by (simp add: reshape_source_def)
    ultimately show thesis using that [of "reshape_source (shape_of x) (ty_shape t) c"] ReshapeOp y
      by (cases d) simp_all
  next
    case (BroadcastOp y dims t)
    then have y: "y = x" using assms(4) by simp
    obtain a where "d = Splat a" "d' = Splat a" using assms(5) unfolding BroadcastOp
      by (auto simp: orelse_Some broadcastIdentityFold_def constFoldBroadcast_def reshapeIfSplat_def split: dense.splits if_splits)
    then show thesis using that [of "broadcast_source (shape_of x) c"] BroadcastOp y by simp
  qed (use assms(4,5) in \<open>simp_all add: orelse_Some foldUnitConcatOp_def foldEmptyTensorsConcatOp_def Let_def split: if_splits\<close>)
qed

section \<open>The properties\<close>

text \<open>C26: tensor-manipulation operations that pass their verifiers and have what is documented beyond them
  (the result shapes of concat and transpose, which their verifiers do not check; the shape of a reverse; at least
  one input of a concat; no negative repeat count; 32-bit sizes and slice bounds, and slice steps that do not
  overflow) never read outside their operands: tracing any coordinate of such a value back through its
  operations ends at a coordinate inside the shape of one of the arguments.\<close>

theorem verified_reads_in_bounds:
  assumes "well_formed gbs v" "legal_broadcast gbs" "in_shape c (shape_of v)"
  shows "\<exists>sh. (fst (trace v c), sh) \<in> set (args v) \<and> in_shape (snd (trace v c)) sh"
  by (rule trace_reads [OF assms])

definition demo_slices :: "nat val" where
  "demo_slices = SliceStaticOp (SliceStaticOp (Arg 0 \<lparr>ty_shape = [10], ty_elem = 0\<rparr>) [1] [9] [2] \<lparr>ty_shape = [4], ty_elem = 0\<rparr>)
     [1] [4] [2] \<lparr>ty_shape = [2], ty_elem = 0\<rparr>"

lemma legal_numpy: "legal_broadcast numpy_broadcast"
  by (simp add: legal_broadcast_def)

lemma demo_slices_wf: "well_formed numpy_broadcast demo_slices"
  by code_simp

theorem verified_reads_in_bounds_witness:
  "\<exists>sh. (fst (trace demo_slices [1]), sh) \<in> set (args demo_slices) \<and> in_shape (snd (trace demo_slices [1])) sh"
  by (rule verified_reads_in_bounds [OF demo_slices_wf legal_numpy]) (simp add: demo_slices_def)

text \<open>C27: whenever the folder of a well-formed operation replaces it by a value, that value is well formed,
  has the same shape, and holds at every coordinate the element of the same argument; of two consecutive
  slices this is shown for non-negative bounds, positive steps, no empty dimension and sizes and merged steps
  below \<open>2 ^ 30\<close> (for negative bounds it is wrong, see \<open>slice_fold_negative_wrong\<close>).\<close>

theorem fold_value_sound:
  assumes "well_formed gbs v" "slices_mergeable v" "fold_op ml kind one_use input v = Some (FoldValue w)"
  shows "well_formed gbs w \<and> shape_of w = shape_of v \<and>
    (\<forall>c. in_shape c (shape_of v) \<longrightarrow> trace w c = trace v c)"
  using fold_value_same [OF assms] by (simp add: same_def)

definition ref_mlir :: mlir where
  "ref_mlir = \<lparr>computeStrides = \<lambda>sh. calculateStrides sh 1, linearize = dot,
     invertPermutationVector = inversePermutation, applyPermutationToVector = applyPermutation\<rparr>"

lemma legal_ref_mlir: "legal_mlir ref_mlir"
  using rm_calc.row_major_axioms by (simp add: legal_mlir_def ref_mlir_def)

definition merged_demo :: "nat val" where
  "merged_demo = SliceStaticOp (Arg 0 \<lparr>ty_shape = [10], ty_elem = 0\<rparr>) [3] [8] [4] \<lparr>ty_shape = [2], ty_elem = 0\<rparr>"

lemma demo_slices_fold:
  "fold_op ref_mlir (\<lambda>e. FloatKind) (\<lambda>v. True) (None :: bool dense option) demo_slices = Some (FoldValue merged_demo)"
  by (simp add: demo_slices_def merged_demo_def orelse_def foldConsecutiveSliceStatic_def merged_begins_def merged_ends_def
      merged_step_def to_i32_def)

theorem fold_value_sound_witness:
  "well_formed numpy_broadcast merged_demo \<and> shape_of merged_demo = shape_of demo_slices \<and>
    trace merged_demo [1] = trace demo_slices [1]"
proof -
  have m: "slices_mergeable demo_slices" by (simp add: demo_slices_def slices_mergeable_def mergeable_def small_shape_def)
  have "in_shape [1] (shape_of demo_slices)" by (simp add: demo_slices_def)
  then show ?thesis using fold_value_sound [OF demo_slices_wf m demo_slices_fold] by blast
qed

text \<open>C28: the folded constant of a well-formed operation holds, at every coordinate, the element of the
  operand's constant that the operation reads there: the row-major walk and the index map of each operation
  agree with what the operation means. A repeat-interleave along a negative dimension is excluded: its fold
  is wrong, see \<open>interleave_fold_negative_dim\<close>.\<close>

theorem constant_fold_sound:
  assumes "legal_mlir ml" "well_formed gbs v" "const_foldable v" "operands v = [Arg n t]"
    "fold_op ml kind one_use (Some d) v = Some (FoldAttr d')" "in_shape c (shape_of v)"
  shows "dense_at d' (shape_of v) c = dense_at d (ty_shape t) (snd (trace v c))"
  using constant_fold_at [OF assms] by (metis getType.simps(1) snd_conv trace.simps(1))

definition demo_permute :: "nat val" where
  "demo_permute = PermuteOp (Arg 0 \<lparr>ty_shape = [2, 3], ty_elem = 0\<rparr>) [1, 0] False \<lparr>ty_shape = [3, 2], ty_elem = 0\<rparr>"

lemma demo_permute_fold:
  "fold_op ref_mlir (\<lambda>e. FloatKind) (\<lambda>v. True) (Some (Elems [1::nat, 2, 3, 4, 5, 6])) demo_permute
    = Some (FoldAttr (Elems [1, 4, 2, 5, 3, 6]))"
  by code_simp

theorem constant_fold_sound_witness:
  "dense_at (Elems [1::nat, 4, 2, 5, 3, 6]) (shape_of demo_permute) [2, 1] =
    dense_at (Elems [1, 2, 3, 4, 5, 6]) [2, 3] (snd (trace demo_permute [2, 1]))"
proof -
  have wf: "well_formed numpy_broadcast demo_permute" by code_simp
  have ops: "operands demo_permute = [Arg 0 \<lparr>ty_shape = [2, 3], ty_elem = 0\<rparr>]" by (simp add: demo_permute_def)
  show ?thesis
    using constant_fold_sound [OF legal_ref_mlir wf _ ops demo_permute_fold, of "[2, 1]"]
    by (simp add: const_foldable_def demo_permute_def)
qed

text \<open>C29: each of the patterns that merge two reverses, drop a reverse of nothing, turn a transpose into a
  permute, turn a squeeze or unsqueeze into a reshape, and move a permute out of two reshapes
  (\<open>canonicalization_patterns\<close>) replaces a well-formed operation by a well-formed value of the same
  shape and the same elements, so that the driver may apply them in any order.\<close>

theorem canonicalization_patterns_sound:
  assumes "well_formed gbs v" "pattern \<in> set (canonicalization_patterns one_use)" "pattern v = Some w"
  shows "well_formed gbs w \<and> shape_of w = shape_of v \<and>
    (\<forall>c. in_shape c (shape_of v) \<longrightarrow> trace w c = trace v c)"
  using canonicalization_sound [OF assms] by (simp add: same_def)

definition demo_sandwich :: "nat val" where
  "demo_sandwich = ReshapeOp (PermuteOp (ReshapeOp (Arg 0 \<lparr>ty_shape = [4, 3], ty_elem = 0\<rparr>) [1, 1, 4, 3]
     \<lparr>ty_shape = [1, 1, 4, 3], ty_elem = 0\<rparr>) [0, 1, 3, 2] False \<lparr>ty_shape = [1, 1, 3, 4], ty_elem = 0\<rparr>)
     [1, 3, 4] \<lparr>ty_shape = [1, 3, 4], ty_elem = 0\<rparr>"

definition demo_sandwich_result :: "nat val" where
  "demo_sandwich_result = PermuteOp (ReshapeOp (Arg 0 \<lparr>ty_shape = [4, 3], ty_elem = 0\<rparr>) [1, 4, 3]
     \<lparr>ty_shape = [1, 4, 3], ty_elem = 0\<rparr>) [0, 2, 1] False \<lparr>ty_shape = [1, 3, 4], ty_elem = 0\<rparr>"

theorem canonicalization_patterns_sound_witness:
  "well_formed numpy_broadcast demo_sandwich_result \<and> shape_of demo_sandwich_result = shape_of demo_sandwich \<and>
    trace demo_sandwich_result [0, 2, 3] = trace demo_sandwich [0, 2, 3]"
proof -
  have w: "well_formed numpy_broadcast demo_sandwich" by code_simp
  have p: "reshape_sandwich (\<lambda>v. True) \<in> set (canonicalization_patterns (\<lambda>v. True))"
    by (simp add: canonicalization_patterns_def)
  have r: "reshape_sandwich (\<lambda>v. True) demo_sandwich = Some demo_sandwich_result" by code_simp
  have "in_shape [0, 2, 3] (shape_of demo_sandwich)" by (simp add: demo_sandwich_def)
  then show ?thesis using canonicalization_patterns_sound [OF w p r] by blast
qed

text \<open>merging two slices is wrong for attributes that count from the end: positions
  \<open>-3\<close> to \<open>-1\<close> of the first five elements of ten become those positions of the ten, and a producer slice that runs from
  \<open>-4\<close> to the end becomes an operation that its own verifier rejects.\<close>

definition negative_slices :: "nat val" where
  "negative_slices = SliceStaticOp (SliceStaticOp (Arg 0 \<lparr>ty_shape = [10], ty_elem = 0\<rparr>) [0] [5] [1] \<lparr>ty_shape = [5], ty_elem = 0\<rparr>)
     [-3] [-1] [1] \<lparr>ty_shape = [2], ty_elem = 0\<rparr>"

definition negative_slices_merged :: "nat val" where
  "negative_slices_merged = SliceStaticOp (Arg 0 \<lparr>ty_shape = [10], ty_elem = 0\<rparr>) [-3] [-1] [1] \<lparr>ty_shape = [2], ty_elem = 0\<rparr>"

definition tail_slices :: "nat val" where
  "tail_slices = SliceStaticOp (SliceStaticOp (Arg 0 \<lparr>ty_shape = [10], ty_elem = 0\<rparr>) [-4] [10] [1] \<lparr>ty_shape = [4], ty_elem = 0\<rparr>)
     [1] [4] [1] \<lparr>ty_shape = [3], ty_elem = 0\<rparr>"

definition tail_slices_merged :: "nat val" where
  "tail_slices_merged = SliceStaticOp (Arg 0 \<lparr>ty_shape = [10], ty_elem = 0\<rparr>) [-3] [0] [1] \<lparr>ty_shape = [3], ty_elem = 0\<rparr>"

theorem slice_fold_negative_wrong:
  "well_formed numpy_broadcast negative_slices \<and>
   fold_op ref_mlir (\<lambda>e. FloatKind) (\<lambda>v. True) (None :: bool dense option) negative_slices = Some (FoldValue negative_slices_merged) \<and>
   verify_op numpy_broadcast negative_slices_merged = success \<and>
   trace negative_slices [0] = (0, [2]) \<and> trace negative_slices_merged [0] = (0, [7]) \<and>
   well_formed numpy_broadcast tail_slices \<and>
   fold_op ref_mlir (\<lambda>e. FloatKind) (\<lambda>v. True) (None :: bool dense option) tail_slices = Some (FoldValue tail_slices_merged) \<and>
   verify_op numpy_broadcast tail_slices_merged = Inl (PositiveStep 0)"
  by (intro conjI; code_simp)

text \<open>a repeat_interleave whose dimension is written as a negative number passes the verifier,
  but its constant folder never divides the coordinate: repeating each of two elements twice gives
  elements 0, 1, 2, 3 of a constant that has two.\<close>

definition negative_interleave :: "nat val" where
  "negative_interleave = RepeatInterleaveOp (Arg 0 \<lparr>ty_shape = [1, 2], ty_elem = 0\<rparr>) 2 (-1) \<lparr>ty_shape = [1, 4], ty_elem = 0\<rparr>"

theorem interleave_fold_negative_dim:
  "well_formed numpy_broadcast negative_interleave \<and>
   fold_op ref_mlir (\<lambda>e. FloatKind) (\<lambda>v. True) (Some (Elems xs)) negative_interleave
     = Some (FoldAttr (Elems [xs ! 0, xs ! 1, xs ! 2, xs ! 3])) \<and>
   snd (trace negative_interleave [0, 1]) = [0, 0]"
proof -
  have "well_formed numpy_broadcast negative_interleave" by code_simp
  moreover have "interleave_index_map (-1) 2 c = c" if "length c = 2" for c
    using that by (simp add: interleave_index_map_def list_eq_iff_nth_eq)
  then have "foldNonSplatTM ref_mlir [1, 2] [1, 4] xs (interleave_index_map (-1) 2) = [xs ! 0, xs ! 1, xs ! 2, xs ! 3]"
    by (simp add: foldNonSplatTM_def ref_mlir_def numeral_eq_Suc dot_def Let_def)
  then have "fold_op ref_mlir (\<lambda>e. FloatKind) (\<lambda>v. True) (Some (Elems xs)) negative_interleave
     = Some (FoldAttr (Elems [xs ! 0, xs ! 1, xs ! 2, xs ! 3]))"
    by (simp add: negative_interleave_def orelse_def foldIdentityRepeatInterleave_def constantFoldRepeatInterleave_def
        constantFoldTM_def reshapeIfSplat_def shouldFold_def volume_def)
  moreover have "snd (trace negative_interleave [0, 1]) = [0, 0]" by code_simp
  ultimately show ?thesis by blast
qed

end
