(* ===== verification/TirVerify.thy ===== *)
theory TirVerify
  imports TirSem
begin

text \<open>
  What the verifiers of matmul and of the reductions accept.
\<close>

section \<open>Matmul\<close>

lemma static_batch: "static_shape sh \<Longrightarrow> static_shape (batch_dims sh)"
  by (auto simp: static_shape_def batch_dims_def list_all_iff dest: in_set_takeD)

lemma static_swap_last:
  assumes "static_shape sh" "2 \<le> length sh"
  shows "static_shape (swap_last sh)" "length (swap_last sh) = length sh"
  using assms by (auto simp: swap_last_def Let_def static_shape_def list_all_length nth_list_update)

lemma matmul_batch_numpy:
  assumes "legal_broadcast gbs" "static_shape a" "static_shape b" "2 \<le> length a" "2 \<le> length b"
  shows "matmul_batch gbs a b =
    (case numpy_broadcast (batch_dims a) (batch_dims b) of None \<Rightarrow> Inl NotBroadcastable | Some s \<Rightarrow> Inr s)"
proof (cases "length a > 2 \<or> length b > 2")
  case True
  then show ?thesis
    using assms static_batch [OF assms(2)] static_batch [OF assms(3)] by (auto simp: matmul_batch_def legal_broadcast_def)
next
  case False
  then have "batch_dims a = []" "batch_dims b = []" using assms by (simp_all add: batch_dims_def)
  then show ?thesis using False by (auto simp: matmul_batch_def numpy_broadcast_def)
qed

lemma check_dims:
  assumes "length xs = length ys"
  shows "check_all (\<lambda>i. if xs ! i \<noteq> ys ! i then Inl (BadSize i) else success) [0..<length xs] = success \<longleftrightarrow> xs = ys"
proof -
  have eq: "xs = ys \<longleftrightarrow> (\<forall>i<length xs. xs ! i = ys ! i)" using assms by (metis nth_equalityI)
  show ?thesis unfolding check_all_success eq by (simp add: Ball_def)
qed

lemma matmul_core:
  assumes "legal_broadcast gbs" "static_shape a" "static_shape b" "2 \<le> length a" "2 \<le> length b"
  shows "verifyMatmul gbs a b False False out = success \<longleftrightarrow>
    a ! (length a - 1) = b ! (length b - 2) \<and>
    (\<exists>batch. numpy_broadcast (batch_dims a) (batch_dims b) = Some batch \<and>
      out = batch @ [a ! (length a - 2), b ! (length b - 1)])"
proof -
  have g: "a \<noteq> []" "b \<noteq> []" "length a \<noteq> 1" "length b \<noteq> 1" "1 < length a" "1 < length b" "\<not> length a < 1" "\<not> length b < 1"
    using assms(4,5) by auto
  have unfold: "verifyMatmul gbs a b False False out =
    (if a ! (length a - 1) \<noteq> b ! (length b - 2) then Inl InnerMismatch
     else case matmul_batch gbs a b of Inl e \<Rightarrow> Inl e
        | Inr batch \<Rightarrow> if length out \<noteq> length (batch @ [a ! (length a - 2), b ! (length b - 1)]) then Inl RankMismatch
            else check_all (\<lambda>i. if out ! i \<noteq> (batch @ [a ! (length a - 2), b ! (length b - 1)]) ! i then Inl (BadSize i) else success)
              [0..<length out])"
    unfolding verifyMatmul_def matmul_shape_a_def matmul_shape_b_def Let_def using g by (simp split: sum.splits)
  show ?thesis
proof (cases "a ! (length a - 1) = b ! (length b - 2)")
  case inner: True
  show ?thesis
  proof (cases "numpy_broadcast (batch_dims a) (batch_dims b)")
    case None
    then show ?thesis unfolding unfold matmul_batch_numpy [OF assms] by simp
  next
    case (Some batch)
    let ?e = "batch @ [a ! (length a - 2), b ! (length b - 1)]"
    have "verifyMatmul gbs a b False False out =
      (if length out \<noteq> length ?e then Inl RankMismatch
       else check_all (\<lambda>i. if out ! i \<noteq> ?e ! i then Inl (BadSize i) else success) [0..<length out])"
      unfolding unfold matmul_batch_numpy [OF assms] using inner Some by simp
    also have "\<dots> = success \<longleftrightarrow> out = ?e" using check_dims [of out ?e] by auto
    finally show ?thesis using inner Some by auto
  qed
next
  case False
  then show ?thesis unfolding unfold by simp
qed
qed

lemma matmul_transposed:
  assumes "2 \<le> length a" "2 \<le> length b"
  shows "verifyMatmul gbs a b transposeA transposeB out =
    verifyMatmul gbs (if transposeA then swap_last a else a) (if transposeB then swap_last b else b) False False out"
proof -
  have l: "length (swap_last sh) = length sh" for sh by (simp add: swap_last_def Let_def)
  have "matmul_shape_a a transposeA = matmul_shape_a (if transposeA then swap_last a else a) False"
    "matmul_shape_b b transposeB = matmul_shape_b (if transposeB then swap_last b else b) False"
    using assms by (simp_all add: matmul_shape_a_def matmul_shape_b_def l)
  moreover have "length (if transposeA then swap_last a else a) = length a" "length (if transposeB then swap_last b else b) = length b"
    by (simp_all add: l)
  ultimately show ?thesis unfolding verifyMatmul_def by (simp only:)
qed

text \<open>on operands of rank two and more the matmul verifier accepts exactly the shapes of a batched
  matrix product: equal inner dimensions after the requested transpositions, batch dimensions that
  broadcast, and the result made of the broadcast batch and the two outer dimensions.\<close>

theorem matmul_verifier:
  assumes "legal_broadcast gbs" "static_shape a" "static_shape b" "2 \<le> length a" "2 \<le> length b"
    and "a' = (if transposeA then swap_last a else a)" "b' = (if transposeB then swap_last b else b)"
  shows "verifyMatmul gbs a b transposeA transposeB out = success \<longleftrightarrow>
    a' ! (length a - 1) = b' ! (length b - 2) \<and>
    (\<exists>batch. numpy_broadcast (batch_dims a') (batch_dims b') = Some batch \<and>
      out = batch @ [a' ! (length a - 2), b' ! (length b - 1)])"
proof -
  have s: "static_shape a'" "length a' = length a" "static_shape b'" "length b' = length b"
    using assms static_swap_last by (auto split: if_splits)
  have "verifyMatmul gbs a b transposeA transposeB out = verifyMatmul gbs a' b' False False out"
    unfolding assms(6,7) by (rule matmul_transposed [OF assms(4,5)])
  then show ?thesis using matmul_core [OF assms(1) s(1,3), of out] s(2,4) assms(4,5) by simp
qed

lemma legal_numpy_broadcast: "legal_broadcast numpy_broadcast"
  by (simp add: legal_broadcast_def)

theorem matmul_verifier_witness:
  "verifyMatmul numpy_broadcast [5, 1, 2, 3] [7, 4, 3] False True [5, 7, 2, 4] = success"
proof -
  have s: "static_shape [5, 1, 2, 3]" "static_shape [7, 4, 3]" by (simp_all add: static_shape_def)
  show ?thesis
    by (subst matmul_verifier [OF legal_numpy_broadcast s _ _ refl refl])
      (simp_all add: swap_last_def numpy_broadcast_def batch_dims_def Let_def)
qed

section \<open>Reductions\<close>

lemma reduce_loop_result:
  "reduce_loop r dims uniq m = Inr (uniq', m') \<longleftrightarrow>
    (\<forall>d\<in>set dims. - r \<le> d \<and> d < r) \<and> uniq' = foldl (\<lambda>u d. List.insert d u) uniq dims \<and>
    m' = foldl (\<lambda>m d. m[nat ((d + r) mod r) := True]) m dims"
  by (induction r dims uniq m rule: reduce_loop.induct) auto

lemma foldl_insert_length:
  "length (foldl (\<lambda>u d. List.insert d u) uniq dims) \<le> length uniq + length dims"
proof (induction dims arbitrary: uniq)
  case (Cons d ds)
  have "length (List.insert d uniq) \<le> Suc (length uniq)" by (simp add: List.insert_def)
  then show ?case using Cons [of "List.insert d uniq"] by simp
qed simp

lemma foldl_insert_distinct:
  "length (foldl (\<lambda>u d. List.insert d u) uniq dims) = length uniq + length dims \<longleftrightarrow>
    distinct dims \<and> set dims \<inter> set uniq = {}"
proof (induction dims arbitrary: uniq)
  case (Cons d ds)
  show ?case
  proof (cases "d \<in> set uniq")
    case True
    then have "length (foldl (\<lambda>u d. List.insert d u) uniq (d # ds)) \<le> length uniq + length ds"
      using foldl_insert_length [of uniq ds] by simp
    then show ?thesis using True by auto
  next
    case False
    then have "length (foldl (\<lambda>u d. List.insert d u) uniq (d # ds)) = length uniq + length (d # ds) \<longleftrightarrow>
      distinct ds \<and> set ds \<inter> set (List.insert d uniq) = {}"
      using Cons [of "List.insert d uniq"] by (simp add: List.insert_def)
    then show ?thesis using False by auto
  qed
qed simp

lemma foldl_mask_nth:
  assumes "i < length m"
  shows "foldl (\<lambda>m d. m[f d := True]) m dims ! i \<longleftrightarrow> m ! i \<or> i \<in> f ` set dims"
  using assms
proof (induction dims arbitrary: m)
  case (Cons d ds)
  then show ?case by (cases "i = f d") auto
qed simp

text \<open>the verifier of the reductions accepts exactly: dimensions in range, no two of them written
  the same, and a result that keeps the other dimensions in order, with the reduced ones removed or
  kept as ones. Two spellings of the same dimension are accepted.\<close>

theorem reduce_verifier:
  "verifyReduceOp sh (Some dims) keepDim out = success \<longleftrightarrow>
    (\<forall>d\<in>set dims. - int (length sh) \<le> d \<and> d < int (length sh)) \<and> distinct dims \<and>
    out = concat (map (\<lambda>i. if \<exists>d\<in>set dims. d = int i \<or> d = int i - int (length sh)
                            then (if keepDim then [1] else []) else [sh ! i]) [0..<length sh])"
proof -
  let ?r = "int (length sh)"
  let ?uniq = "foldl (\<lambda>u d. List.insert d u) [] dims"
  let ?m = "foldl (\<lambda>m d. m[nat ((d + ?r) mod ?r) := True]) (replicate (length sh) False) dims"
  show ?thesis
  proof (cases "\<forall>d\<in>set dims. - ?r \<le> d \<and> d < ?r")
    case range: True
    have loop: "reduce_loop ?r dims [] (replicate (length sh) False) = Inr (?uniq, ?m)"
      using range reduce_loop_result by blast
    have uniq: "length ?uniq = length dims \<longleftrightarrow> distinct dims" using foldl_insert_distinct [of "[]" dims] by simp
    have mask: "?m ! i \<longleftrightarrow> (\<exists>d\<in>set dims. d = int i \<or> d = int i - ?r)" if i: "i < length sh" for i
    proof -
      have e: "i = nat ((d + ?r) mod ?r) \<longleftrightarrow> d = int i \<or> d = int i - ?r" if "d \<in> set dims" for d
      proof (cases "d < 0")
        case True
        then have "(d + ?r) mod ?r = d + ?r" using range that by (intro mod_pos_pos_trivial) auto
        then show ?thesis using True range that i by auto
      next
        case False
        then have "d mod ?r = d" using range that by (intro mod_pos_pos_trivial) auto
        then have "(d + ?r) mod ?r = d" by simp
        then show ?thesis using False range that i by auto
      qed
      have "i \<in> (\<lambda>d. nat ((d + ?r) mod ?r)) ` set dims \<longleftrightarrow> (\<exists>d\<in>set dims. d = int i \<or> d = int i - ?r)"
        unfolding image_iff using e by blast
      then show ?thesis using foldl_mask_nth [of i "replicate (length sh) False" "\<lambda>d. nat ((d + ?r) mod ?r)" dims] i by simp
    qed
    have "reduced_shape sh ?m keepDim = concat (map (\<lambda>i. if \<exists>d\<in>set dims. d = int i \<or> d = int i - ?r
                            then (if keepDim then [1] else []) else [sh ! i]) [0..<length sh])"
      unfolding reduced_shape_def using mask by (intro arg_cong [where f = concat] map_cong) auto
    then show ?thesis using loop uniq range by (auto simp: verifyReduceOp_def Let_def)
  next
    case False
    then have "\<nexists>x. reduce_loop ?r dims [] (replicate (length sh) False) = Inr x"
      using reduce_loop_result by (metis surj_pair)
    then obtain e where "reduce_loop ?r dims [] (replicate (length sh) False) = Inl e" by (metis sum.exhaust)
    then show ?thesis using False by (auto simp: verifyReduceOp_def Let_def)
  qed
qed

theorem reduce_verifier_witness: "verifyReduceOp [2, 3] (Some [0, -2]) True [1, 3] = success"
  by (subst reduce_verifier) (simp add: numeral_eq_Suc)

section \<open>What the verifiers leave open\<close>

text \<open>The result dimensions that are not concatenated, or not transposed, are not compared with the
  input's.\<close>

lemma concat_verifier_gap:
  "verifyConcat [\<lparr>ty_shape = [2, 3], ty_elem = 0\<rparr>, \<lparr>ty_shape = [4, 3], ty_elem = 0\<rparr>] 0 \<lparr>ty_shape = [6, 7], ty_elem = (0::nat)\<rparr> = success"
  by code_simp

lemma transpose_verifier_gap:
  "verifyTranspose \<lparr>ty_shape = [2, 3, 4], ty_elem = 0\<rparr> 0 1 \<lparr>ty_shape = [3, 2, 9], ty_elem = (0::nat)\<rparr> = success"
  by code_simp

end
