(* ===== verification/ConvModel.thy ===== *)
theory ConvModel
  imports TirModel
begin

text \<open>
  Verification of convolutions and poolings: \<open>lib/Dialect/TTIR/Utils/VerificationUtils.cpp\<close>, its
  header, the attribute readers of \<open>include/ttmlir/Utils.h\<close>, and the verifiers of
  \<open>TTIROps.cpp\<close> that call them. Sizes are int64 values written as \<open>int\<close>; the
  \<open>uint32_t\<close> and \<open>int32_t\<close> conversions of the code are kept. A division by zero of the
  code (the number of groups) and the use of a null attribute are errors of their own.
  \<open>llvm::divideCeil\<close> and \<open>llvm::divideFloorSigned\<close> are parameters.
\<close>

section \<open>Attributes\<close>

datatype attr = IntegerAttr int | DenseArrayAttr "int list" | OtherAttr

datatype conv_error =
    BadTuple nat | UnexpectedAttr | NullAttr | DivisionByZero
  | InputRank | WeightRank | BiasRank | OutputRank | FlattenedInput
  | StrideNotPositive | DilationNotPositive | PaddingNegative | KernelNotPositive | OutputPaddingNegative | PaddingMode
  | InputGroups | OutputGroups | WeightChannels | BiasChannels | KernelTooLarge
  | BatchMismatch | ChannelMismatch | SpatialMismatch | FlattenedMismatch | OutputTooSmall

type_synonym 'a parsed = "(conv_error, 'a) result"

text \<open>\<open>integerAs<int32_t>\<close> reads a scalar; a dense array holds \<open>int32_t\<close> elements.
  \<open>getPairOfInteger\<close> asks the array for its size before it knows that there is one.\<close>

fun getPairOfInteger :: "attr \<Rightarrow> (int \<times> int) parsed" where
  "getPairOfInteger (IntegerAttr v) = Inr (to_i32 v, to_i32 v)"
| "getPairOfInteger (DenseArrayAttr [a, b]) = Inr (a, b)"
| "getPairOfInteger (DenseArrayAttr xs) = Inl (BadTuple (length xs))"
| "getPairOfInteger OtherAttr = Inl NullAttr"

fun getTripleOfInteger :: "attr \<Rightarrow> (int \<times> int \<times> int) parsed" where
  "getTripleOfInteger (IntegerAttr v) = Inr (to_i32 v, to_i32 v, to_i32 v)"
| "getTripleOfInteger OtherAttr = Inl UnexpectedAttr"
| "getTripleOfInteger (DenseArrayAttr [a, b, c]) = Inr (a, b, c)"
| "getTripleOfInteger (DenseArrayAttr xs) = Inl (BadTuple (length xs))"

fun getQuadrupleOfInteger :: "attr \<Rightarrow> (int \<times> int \<times> int \<times> int) parsed" where
  "getQuadrupleOfInteger (IntegerAttr v) = Inr (to_i32 v, to_i32 v, to_i32 v, to_i32 v)"
| "getQuadrupleOfInteger OtherAttr = Inl UnexpectedAttr"
| "getQuadrupleOfInteger (DenseArrayAttr [a, b]) = Inr (a, b, a, b)"
| "getQuadrupleOfInteger (DenseArrayAttr [a, b, c, d]) = Inr (a, b, c, d)"
| "getQuadrupleOfInteger (DenseArrayAttr xs) = Inl (BadTuple (length xs))"

definition to_u32 :: "int \<Rightarrow> int" where
  "to_u32 x = x mod 2 ^ 32"

lemma to_u32_exact [simp]: "0 \<le> x \<Longrightarrow> x < 2 ^ 32 \<Longrightarrow> to_u32 x = x"
  by (simp add: to_u32_def)

section \<open>Dimensions and parameters\<close>

record spatial2d =
  vertical :: int
  horizontal :: int

record spatial4d =
  pad_top :: int
  pad_left :: int
  pad_bottom :: int
  pad_right :: int

definition getVertical :: "spatial4d \<Rightarrow> int" where
  "getVertical p = pad_top p + pad_bottom p"

definition getHorizontal :: "spatial4d \<Rightarrow> int" where
  "getHorizontal p = pad_left p + pad_right p"

definition spatial2d_of :: "int \<times> int \<Rightarrow> spatial2d" where
  "spatial2d_of p = \<lparr>vertical = fst p, horizontal = snd p\<rparr>"

definition spatial4d_of :: "int \<times> int \<times> int \<times> int \<Rightarrow> spatial4d" where
  "spatial4d_of p = (case p of (a, b, c, d) \<Rightarrow> \<lparr>pad_top = a, pad_left = b, pad_bottom = c, pad_right = d\<rparr>)"

definition FLATTENED_DIM :: nat where
  "FLATTENED_DIM = 2"

record flat_info =
  fi_batch :: int
  fi_height :: int
  fi_width :: int

record input_dims =
  in_batch :: int
  in_height :: int
  in_width :: int
  in_channels :: int

text \<open>A flattened output has only its flattened size and its channels; the code leaves the other
  fields uninitialised and does not read them.\<close>

datatype output_dims =
    Flattened (flattenedDim: int) (flat_channels: int)
  | Separate (out_batch: int) (out_height: int) (out_width: int) (sep_channels: int)

definition outputChannels :: "output_dims \<Rightarrow> int" where
  "outputChannels d = (case d of Flattened f c \<Rightarrow> c | Separate b h w c \<Rightarrow> c)"

definition getPaddedInputSize :: "input_dims \<Rightarrow> int \<Rightarrow> int \<Rightarrow> int \<times> int" where
  "getPaddedInputSize d verticalPadding horizontalPadding =
     (to_u32 (in_height d + verticalPadding), to_u32 (in_width d + horizontalPadding))"

record weight_dims =
  w_outputChannels :: int
  w_inChannPerGroup :: int
  w_kernelHeight :: int
  w_kernelWidth :: int

definition getEffectiveKernelSize :: "weight_dims \<Rightarrow> int \<Rightarrow> int \<Rightarrow> int \<times> int" where
  "getEffectiveKernelSize w verticalDilation horizontalDilation =
     (to_u32 (verticalDilation * (w_kernelHeight w - 1) + 1), to_u32 (horizontalDilation * (w_kernelWidth w - 1) + 1))"

record conv2d_params =
  c_stride :: spatial2d
  c_padding :: spatial4d
  c_dilation :: spatial2d
  c_groups :: int

record conv2d_op =
  c2_input :: shape
  c2_weight :: shape
  c2_bias :: "shape option"
  c2_result :: shape
  c2_flat :: "flat_info option"
  c2_batchDim :: nat
  c2_heightDim :: nat
  c2_widthDim :: nat
  c2_channelDim :: nat
  c2_stride :: attr
  c2_padding :: attr
  c2_dilation :: attr
  c2_groups :: int

section \<open>Conv2dOp\<close>

definition verifyTensorRanks :: "shape \<Rightarrow> (shape \<times> shape option) option \<Rightarrow> shape \<Rightarrow> conv_error verdict" where
  "verifyTensorRanks input weightAndBias output =
     (if length input \<noteq> 4 then Inl InputRank
      else case weightAndBias of
          None \<Rightarrow> if length output \<noteq> 4 then Inl OutputRank else success
        | Some (weight, bias) \<Rightarrow>
            if length weight \<noteq> 4 then Inl WeightRank
            else if bias \<noteq> None \<and> length (the bias) \<noteq> 4 then Inl BiasRank
            else if length output \<noteq> 4 then Inl OutputRank else success)"

definition getConv2dInputDims :: "conv2d_op \<Rightarrow> input_dims \<times> weight_dims \<times> int option" where
  "getConv2dInputDims op =
     (let inputType = c2_input op; weightType = c2_weight op
      in ((case c2_flat op of
             Some flatInfo \<Rightarrow> \<lparr>in_batch = fi_batch flatInfo, in_height = fi_height flatInfo, in_width = fi_width flatInfo,
               in_channels = inputType ! c2_channelDim op\<rparr>
           | None \<Rightarrow> \<lparr>in_batch = inputType ! c2_batchDim op, in_height = inputType ! c2_heightDim op,
               in_width = inputType ! c2_widthDim op, in_channels = inputType ! c2_channelDim op\<rparr>),
          \<lparr>w_outputChannels = weightType ! 0, w_inChannPerGroup = weightType ! 1, w_kernelHeight = weightType ! 2,
            w_kernelWidth = weightType ! 3\<rparr>,
          map_option (\<lambda>b. b ! c2_channelDim op) (c2_bias op)))"

definition getConv2dOutputDims :: "conv2d_op \<Rightarrow> output_dims" where
  "getConv2dOutputDims op =
     (let outputType = c2_result op
      in case c2_flat op of
           Some flatInfo \<Rightarrow> Flattened (outputType ! FLATTENED_DIM) (outputType ! c2_channelDim op)
         | None \<Rightarrow> Separate (outputType ! c2_batchDim op) (outputType ! c2_heightDim op) (outputType ! c2_widthDim op)
             (outputType ! c2_channelDim op))"

definition getConv2dParams :: "conv2d_op \<Rightarrow> conv2d_params parsed" where
  "getConv2dParams op =
     (case getPairOfInteger (c2_stride op) of Inl e \<Rightarrow> Inl e | Inr stride \<Rightarrow>
      (case getQuadrupleOfInteger (c2_padding op) of Inl e \<Rightarrow> Inl e | Inr padding \<Rightarrow>
       (case getPairOfInteger (c2_dilation op) of Inl e \<Rightarrow> Inl e | Inr dilation \<Rightarrow>
        Inr \<lparr>c_stride = spatial2d_of stride, c_padding = spatial4d_of padding, c_dilation = spatial2d_of dilation,
          c_groups = c2_groups op\<rparr>)))"

definition positive2 :: "spatial2d \<Rightarrow> bool" where
  "positive2 p \<longleftrightarrow> vertical p > 0 \<and> horizontal p > 0"

definition nonNegative4 :: "spatial4d \<Rightarrow> bool" where
  "nonNegative4 p \<longleftrightarrow> pad_top p \<ge> 0 \<and> pad_left p \<ge> 0 \<and> pad_bottom p \<ge> 0 \<and> pad_right p \<ge> 0"

definition verifyConv2dParams :: "conv2d_params \<Rightarrow> conv_error verdict" where
  "verifyConv2dParams params =
     (if \<not> positive2 (c_stride params) then Inl StrideNotPositive
      else if \<not> positive2 (c_dilation params) then Inl DilationNotPositive
      else if \<not> nonNegative4 (c_padding params) then Inl PaddingNegative
      else success)"

definition verifyConv2dInputDims :: "input_dims \<Rightarrow> weight_dims \<Rightarrow> int option \<Rightarrow> conv2d_params \<Rightarrow> conv_error verdict" where
  "verifyConv2dInputDims inputDims weightDims biasDims params =
     (if c_groups params = 0 then Inl DivisionByZero
      else if in_channels inputDims smod c_groups params \<noteq> 0 then Inl InputGroups
      else if w_outputChannels weightDims smod c_groups params \<noteq> 0 then Inl OutputGroups
      else if in_channels inputDims sdiv c_groups params \<noteq> w_inChannPerGroup weightDims then Inl WeightChannels
      else if biasDims \<noteq> None \<and> the biasDims \<noteq> w_outputChannels weightDims then Inl BiasChannels
      else let padded = getPaddedInputSize inputDims (getVertical (c_padding params)) (getHorizontal (c_padding params));
               eff = getEffectiveKernelSize weightDims (vertical (c_dilation params)) (horizontal (c_dilation params))
           in if fst padded < fst eff \<or> snd padded < snd eff then Inl KernelTooLarge else success)"

text \<open>The difference of two \<open>uint32_t\<close> values is one; it is divided as an int64 value and the
  result stored in an \<open>int32_t\<close>.\<close>

definition conv_out :: "int \<Rightarrow> int \<Rightarrow> int \<Rightarrow> int" where
  "conv_out padded eff stride = to_i32 (to_u32 (padded - eff) sdiv stride + 1)"

definition verifyConv2dOutputDimensions ::
  "input_dims \<Rightarrow> weight_dims \<Rightarrow> output_dims \<Rightarrow> conv2d_params \<Rightarrow> conv_error verdict" where
  "verifyConv2dOutputDimensions inputDims weightDims outputDims params =
     (let padded = getPaddedInputSize inputDims (getVertical (c_padding params)) (getHorizontal (c_padding params));
          eff = getEffectiveKernelSize weightDims (vertical (c_dilation params)) (horizontal (c_dilation params));
          calculatedHOut = conv_out (fst padded) (fst eff) (vertical (c_stride params));
          calculatedWOut = conv_out (snd padded) (snd eff) (horizontal (c_stride params))
      in case outputDims of
           Separate batchSize outputHeight outputWidth channels \<Rightarrow>
             if in_batch inputDims \<noteq> batchSize then Inl BatchMismatch
             else if channels \<noteq> w_outputChannels weightDims then Inl ChannelMismatch
             else if calculatedHOut \<noteq> outputHeight \<or> calculatedWOut \<noteq> outputWidth then Inl SpatialMismatch
             else success
         | Flattened flattened channels \<Rightarrow>
             if to_i32 (calculatedHOut * calculatedWOut) * in_batch inputDims \<noteq> flattened then Inl FlattenedMismatch
             else if channels \<noteq> w_outputChannels weightDims then Inl ChannelMismatch
             else success)"

definition verifyConv2d :: "conv2d_op \<Rightarrow> conv_error verdict" where
  "verifyConv2d op =
     and_then (verifyTensorRanks (c2_input op) (Some (c2_weight op, c2_bias op)) (c2_result op))
       (if (case c2_flat op of None \<Rightarrow> False
            | Some f \<Rightarrow> fi_batch f * fi_height f * fi_width f \<noteq> c2_input op ! FLATTENED_DIM)
        then Inl FlattenedInput
        else case getConv2dInputDims op of (inputDims, weightDims, biasDims) \<Rightarrow>
          (case getConv2dParams op of
             Inl e \<Rightarrow> Inl e
           | Inr params \<Rightarrow>
               and_then (verifyConv2dParams params)
                 (and_then (verifyConv2dInputDims inputDims weightDims biasDims params)
                   (verifyConv2dOutputDimensions inputDims weightDims (getConv2dOutputDims op) params))))"

end
