(* ===== verification/LlvmMath.thy ===== *)
theory LlvmMath
  imports Prelude
begin

text \<open>
  The roundings of \<open>llvm/Support/MathExtras.h\<close>, which are parameters of the code that calls them:
  what the code relies on is their value for a non-negative dividend and a positive divisor.
\<close>

record llvm_math =
  divideCeil :: "int \<Rightarrow> int \<Rightarrow> int"
  divideFloorSigned :: "int \<Rightarrow> int \<Rightarrow> int"

definition legal_llvm_math :: "llvm_math \<Rightarrow> bool" where
  "legal_llvm_math lm \<longleftrightarrow>
     (\<forall>a b. 0 \<le> a \<longrightarrow> 0 < b \<longrightarrow> divideCeil lm a b = (a + b - 1) div b \<and> divideFloorSigned lm a b = a div b)"

lemma divideCeil_covers:
  assumes "legal_llvm_math lm" "0 \<le> a" "0 < b"
  shows "a \<le> divideCeil lm a b * b" and "0 < a \<Longrightarrow> (divideCeil lm a b - 1) * b < a"
    and "0 < a \<Longrightarrow> 0 < divideCeil lm a b" and "0 \<le> divideCeil lm a b"
proof -
  have c: "divideCeil lm a b = (a + b - 1) div b" using assms by (simp add: legal_llvm_math_def)
  have m: "(a + b - 1) div b * b = a + b - 1 - (a + b - 1) mod b"
    using mult_div_mod_eq [of b "a + b - 1"] mult.commute [of b "(a + b - 1) div b"] by linarith
  have r: "0 \<le> (a + b - 1) mod b" "(a + b - 1) mod b < b" using assms(3) by simp_all
  show "a \<le> divideCeil lm a b * b" unfolding c m using r by linarith
  have "(divideCeil lm a b - 1) * b = a - 1 - (a + b - 1) mod b"
    unfolding c using m by (simp add: left_diff_distrib)
  then show "(divideCeil lm a b - 1) * b < a" using r by linarith
  show "0 \<le> divideCeil lm a b" unfolding c using assms by (simp add: pos_imp_zdiv_nonneg_iff)
  show "0 < divideCeil lm a b" if "0 < a" unfolding c using assms that by (simp add: pos_imp_zdiv_pos_iff)
qed

text \<open>The exact roundings.\<close>

definition exact_math :: llvm_math where
  "exact_math = \<lparr>divideCeil = (\<lambda>a b. (a + b - 1) div b), divideFloorSigned = (\<lambda>a b. a div b)\<rparr>"

lemma exact_math_legal: "legal_llvm_math exact_math"
  by (simp add: legal_llvm_math_def exact_math_def)

end
