(* ===== verification/PoolModel.thy ===== *)
theory PoolModel
  imports ConvModel LlvmMath
begin

text \<open>
  The verifiers of conv3d and of the transposed convolution, and of the 2D poolings with their
  identity fold (\<open>VerificationUtils.h\<close>, \<open>VerificationUtils.cpp\<close>, \<open>TTIROps.cpp\<close>).
\<close>

section \<open>Conv3dOp\<close>

record spatial3d =
  p3_depth :: int
  p3_vertical :: int
  p3_horizontal :: int

definition spatial3d_of :: "int \<times> int \<times> int \<Rightarrow> spatial3d" where
  "spatial3d_of p = (case p of (a, b, c) \<Rightarrow> \<lparr>p3_depth = a, p3_vertical = b, p3_horizontal = c\<rparr>)"

record input_dims3d =
  in3_batch :: int
  in3_depth :: int
  in3_height :: int
  in3_width :: int
  in3_channels :: int

record weight_dims3d =
  w3_outputChannels :: int
  w3_inChannPerGroup :: int
  w3_depth :: int
  w3_height :: int
  w3_width :: int

record output_dims3d =
  out3_batch :: int
  out3_depth :: int
  out3_height :: int
  out3_width :: int
  out3_channels :: int

record conv3d_params =
  c3_stride :: spatial3d
  c3_padding :: spatial3d
  c3_dilation :: spatial3d
  c3_groups :: int
  c3_mode :: string

record conv3d_op =
  o3_input :: shape
  o3_weight :: shape
  o3_bias :: "shape option"
  o3_result :: shape
  o3_batchDim :: nat
  o3_depthDim :: nat
  o3_heightDim :: nat
  o3_widthDim :: nat
  o3_channelDim :: nat
  o3_stride :: attr
  o3_padding :: attr
  o3_dilation :: "int list"
  o3_groups :: int
  o3_mode :: string

definition getPaddedInputSize3d :: "input_dims3d \<Rightarrow> int \<Rightarrow> int \<Rightarrow> int \<Rightarrow> int \<times> int \<times> int" where
  "getPaddedInputSize3d d depthPadding verticalPadding horizontalPadding =
     (to_u32 (in3_depth d + depthPadding), to_u32 (in3_height d + verticalPadding), to_u32 (in3_width d + horizontalPadding))"

definition getEffectiveKernelSize3d :: "weight_dims3d \<Rightarrow> spatial3d \<Rightarrow> int \<times> int \<times> int" where
  "getEffectiveKernelSize3d w dilation =
     (to_u32 (p3_depth dilation * (w3_depth w - 1) + 1), to_u32 (p3_vertical dilation * (w3_height w - 1) + 1),
      to_u32 (p3_horizontal dilation * (w3_width w - 1) + 1))"

definition getConv3dInputDims :: "conv3d_op \<Rightarrow> input_dims3d \<times> weight_dims3d \<times> int option" where
  "getConv3dInputDims op =
     (let inputType = o3_input op; weightType = o3_weight op
      in (\<lparr>in3_batch = inputType ! o3_batchDim op, in3_depth = inputType ! o3_depthDim op, in3_height = inputType ! o3_heightDim op,
            in3_width = inputType ! o3_widthDim op, in3_channels = inputType ! o3_channelDim op\<rparr>,
          \<lparr>w3_outputChannels = weightType ! 0, w3_inChannPerGroup = weightType ! 1, w3_depth = weightType ! 2,
            w3_height = weightType ! 3, w3_width = weightType ! 4\<rparr>,
          map_option (\<lambda>b. b ! o3_channelDim op) (o3_bias op)))"

definition getConv3dOutputDims :: "conv3d_op \<Rightarrow> output_dims3d" where
  "getConv3dOutputDims op =
     (let outputType = o3_result op
      in \<lparr>out3_batch = outputType ! o3_batchDim op, out3_depth = outputType ! o3_depthDim op,
          out3_height = outputType ! o3_heightDim op, out3_width = outputType ! o3_widthDim op,
          out3_channels = outputType ! o3_channelDim op\<rparr>)"

definition getConv3dParams :: "conv3d_op \<Rightarrow> conv3d_params parsed" where
  "getConv3dParams op =
     (case getTripleOfInteger (o3_stride op) of Inl e \<Rightarrow> Inl e | Inr stride \<Rightarrow>
      (case getTripleOfInteger (o3_padding op) of Inl e \<Rightarrow> Inl e | Inr padding \<Rightarrow>
       (case o3_dilation op of
          [d, v, h] \<Rightarrow> Inr \<lparr>c3_stride = spatial3d_of stride, c3_padding = spatial3d_of padding,
            c3_dilation = spatial3d_of (d, v, h), c3_groups = o3_groups op, c3_mode = o3_mode op\<rparr>
        | xs \<Rightarrow> Inl (BadTuple (length xs)))))"

definition positive3 :: "spatial3d \<Rightarrow> bool" where
  "positive3 p \<longleftrightarrow> p3_depth p > 0 \<and> p3_vertical p > 0 \<and> p3_horizontal p > 0"

definition nonNegative3 :: "spatial3d \<Rightarrow> bool" where
  "nonNegative3 p \<longleftrightarrow> p3_depth p \<ge> 0 \<and> p3_vertical p \<ge> 0 \<and> p3_horizontal p \<ge> 0"

definition verifyConv3dParams :: "conv3d_params \<Rightarrow> conv_error verdict" where
  "verifyConv3dParams params =
     (if \<not> positive3 (c3_stride params) then Inl StrideNotPositive
      else if \<not> nonNegative3 (c3_padding params) then Inl PaddingNegative
      else if \<not> positive3 (c3_dilation params) then Inl DilationNotPositive
      else if c3_mode params \<noteq> ''zeros'' \<and> c3_mode params \<noteq> ''replicate'' then Inl PaddingMode
      else success)"

definition verifyConv3dInputDims :: "input_dims3d \<Rightarrow> weight_dims3d \<Rightarrow> int option \<Rightarrow> conv3d_params \<Rightarrow> conv_error verdict" where
  "verifyConv3dInputDims inputDims weightDims biasDims params =
     (if c3_groups params = 0 then Inl DivisionByZero
      else if in3_channels inputDims smod c3_groups params \<noteq> 0 then Inl InputGroups
      else if w3_outputChannels weightDims smod c3_groups params \<noteq> 0 then Inl OutputGroups
      else if in3_channels inputDims sdiv c3_groups params \<noteq> w3_inChannPerGroup weightDims then Inl WeightChannels
      else if biasDims \<noteq> None \<and> the biasDims \<noteq> w3_outputChannels weightDims then Inl BiasChannels
      else let p = c3_padding params;
               padded = getPaddedInputSize3d inputDims (2 * p3_depth p) (2 * p3_vertical p) (2 * p3_horizontal p);
               eff = getEffectiveKernelSize3d weightDims (c3_dilation params)
           in if fst padded < fst eff \<or> fst (snd padded) < fst (snd eff) \<or> snd (snd padded) < snd (snd eff)
              then Inl KernelTooLarge else success)"

definition conv3d_out :: "int \<Rightarrow> int \<Rightarrow> int \<Rightarrow> int \<Rightarrow> int" where
  "conv3d_out input pad eff stride = to_i32 ((input + 2 * pad - eff) sdiv stride + 1)"

definition verifyConv3dOutputDimensions ::
  "input_dims3d \<Rightarrow> weight_dims3d \<Rightarrow> output_dims3d \<Rightarrow> conv3d_params \<Rightarrow> conv_error verdict" where
  "verifyConv3dOutputDimensions inputDims weightDims outputDims params =
     (let eff = getEffectiveKernelSize3d weightDims (c3_dilation params); p = c3_padding params; s = c3_stride params;
          calculatedDOut = conv3d_out (in3_depth inputDims) (p3_depth p) (fst eff) (p3_depth s);
          calculatedHOut = conv3d_out (in3_height inputDims) (p3_vertical p) (fst (snd eff)) (p3_vertical s);
          calculatedWOut = conv3d_out (in3_width inputDims) (p3_horizontal p) (snd (snd eff)) (p3_horizontal s)
      in if in3_batch inputDims \<noteq> out3_batch outputDims then Inl BatchMismatch
         else if out3_channels outputDims \<noteq> w3_outputChannels weightDims then Inl ChannelMismatch
         else if calculatedDOut \<noteq> out3_depth outputDims \<or> calculatedHOut \<noteq> out3_height outputDims \<or>
                 calculatedWOut \<noteq> out3_width outputDims then Inl SpatialMismatch
         else success)"

definition verifyConv3d :: "conv3d_op \<Rightarrow> conv_error verdict" where
  "verifyConv3d op =
     (if length (o3_input op) \<noteq> 5 then Inl InputRank
      else if length (o3_weight op) \<noteq> 5 then Inl WeightRank
      else if o3_bias op \<noteq> None \<and> length (the (o3_bias op)) \<noteq> 5 then Inl BiasRank
      else if length (o3_result op) \<noteq> 5 then Inl OutputRank
      else case getConv3dInputDims op of (inputDims, weightDims, biasDims) \<Rightarrow>
        (case getConv3dParams op of
           Inl e \<Rightarrow> Inl e
         | Inr params \<Rightarrow>
             and_then (verifyConv3dParams params)
               (and_then (verifyConv3dInputDims inputDims weightDims biasDims params)
                 (verifyConv3dOutputDimensions inputDims weightDims (getConv3dOutputDims op) params))))"

section \<open>ConvTranspose2dOp\<close>

record transpose_op =
  ct_input :: shape
  ct_weight :: shape
  ct_bias :: "shape option"
  ct_result :: shape
  ct_flat :: "flat_info option"
  ct_heightDim :: nat
  ct_widthDim :: nat
  ct_channelDim :: nat
  ct_stride :: attr
  ct_padding :: attr
  ct_outputPadding :: attr
  ct_dilation :: attr
  ct_groups :: int

text \<open>The size computation, in \<open>int32_t\<close>.\<close>

definition transposed_out :: "int \<Rightarrow> int \<Rightarrow> int \<Rightarrow> int \<Rightarrow> int \<Rightarrow> int \<Rightarrow> int" where
  "transposed_out input stride padding dilation eff outputPadding =
     to_i32 ((input - 1) * stride - padding + dilation * (eff - 1) + outputPadding + 1)"

definition transpose_sizes ::
  "transpose_op \<Rightarrow> int \<times> int \<Rightarrow> int \<times> int \<times> int \<times> int \<Rightarrow> int \<times> int \<Rightarrow> int \<times> int \<Rightarrow> int \<times> int" where
  "transpose_sizes op stride padding outputPadding dilation =
     (let (paddingTop, paddingLeft, paddingBottom, paddingRight) = padding;
          verticalPadding = to_i32 (paddingTop + paddingBottom); horizontalPadding = to_i32 (paddingLeft + paddingRight);
          kernelHeight = to_i32 (ct_weight op ! 2); kernelWidth = to_i32 (ct_weight op ! 3);
          Hin = to_i32 (case ct_flat op of None \<Rightarrow> ct_input op ! ct_heightDim op | Some f \<Rightarrow> fi_height f);
          Win = to_i32 (case ct_flat op of None \<Rightarrow> ct_input op ! ct_widthDim op | Some f \<Rightarrow> fi_width f)
      in (transposed_out Hin (fst stride) verticalPadding (fst dilation) kernelHeight (fst outputPadding),
          transposed_out Win (snd stride) horizontalPadding (snd dilation) kernelWidth (snd outputPadding)))"

definition verify_transpose_channels :: "transpose_op \<Rightarrow> conv_error verdict" where
  "verify_transpose_channels op =
     (let inputChannels = to_i32 (ct_input op ! ct_channelDim op); outputChannels = to_i32 (ct_result op ! ct_channelDim op);
          groups = ct_groups op
      in if groups = 0 then Inl DivisionByZero
         else if to_u32 inputChannels mod groups \<noteq> 0 then Inl InputGroups
         else if to_u32 outputChannels mod groups \<noteq> 0 then Inl OutputGroups
         else if inputChannels \<noteq> ct_weight op ! 0 then Inl WeightChannels
         else if to_u32 outputChannels div groups \<noteq> ct_weight op ! 1 then Inl WeightChannels
         else if ct_bias op \<noteq> None \<and> the (ct_bias op) ! ct_channelDim op \<noteq> outputChannels then Inl BiasChannels
         else success)"

definition verify_transpose_output :: "transpose_op \<Rightarrow> int \<Rightarrow> int \<times> int \<Rightarrow> conv_error verdict" where
  "verify_transpose_output op inputBatchSize expected =
     (let HOut = to_i32 (ct_result op ! ct_heightDim op); WOut = to_i32 (ct_result op ! ct_widthDim op)
      in if fst expected < 0 \<or> snd expected < 0 then Inl OutputTooSmall
         else if ct_flat op = None \<and> (HOut \<noteq> fst expected \<or> WOut \<noteq> snd expected) then Inl SpatialMismatch
         else if ct_flat op \<noteq> None \<and> inputBatchSize * fst expected * snd expected \<noteq> ct_result op ! FLATTENED_DIM
         then Inl FlattenedMismatch else success)"

definition verifyConvTranspose2d :: "transpose_op \<Rightarrow> conv_error verdict" where
  "verifyConvTranspose2d op =
     (if (case ct_flat op of None \<Rightarrow> False
          | Some f \<Rightarrow> fi_batch f * fi_height f * fi_width f \<noteq> ct_input op ! FLATTENED_DIM) then Inl FlattenedInput
      else if length (ct_input op) \<noteq> 4 then Inl InputRank
      else if length (ct_result op) \<noteq> 4 then Inl OutputRank
      else if length (ct_weight op) \<noteq> 4 then Inl WeightRank
      else if ct_bias op \<noteq> None \<and> length (the (ct_bias op)) \<noteq> 4 then Inl BiasRank
      else let inputBatchSize = (case ct_flat op of None \<Rightarrow> ct_input op ! 0 | Some f \<Rightarrow> fi_batch f);
               outputBatchSize = (case ct_flat op of None \<Rightarrow> ct_result op ! 0 | Some f \<Rightarrow> fi_batch f)
           in if inputBatchSize \<noteq> outputBatchSize then Inl BatchMismatch
      else case getPairOfInteger (ct_stride op) of Inl e \<Rightarrow> Inl e | Inr stride \<Rightarrow>
           if fst stride < 1 \<or> snd stride < 1 then Inl StrideNotPositive
      else case getQuadrupleOfInteger (ct_padding op) of Inl e \<Rightarrow> Inl e | Inr padding \<Rightarrow>
           if \<not> nonNegative4 (spatial4d_of padding) then Inl PaddingNegative
      else case getPairOfInteger (ct_outputPadding op) of Inl e \<Rightarrow> Inl e | Inr outputPadding \<Rightarrow>
           if fst outputPadding < 0 \<or> snd outputPadding < 0 then Inl OutputPaddingNegative
      else case getPairOfInteger (ct_dilation op) of Inl e \<Rightarrow> Inl e | Inr dilation \<Rightarrow>
           if fst dilation < 1 \<or> snd dilation < 1 then Inl DilationNotPositive
      else and_then (verify_transpose_channels op)
             (verify_transpose_output op inputBatchSize (transpose_sizes op stride padding outputPadding dilation)))"

section \<open>Poolings\<close>

record pool2d_params =
  p_kernel :: spatial2d
  p_stride :: spatial2d
  p_dilation :: spatial2d
  p_padding :: spatial4d
  p_ceil :: bool

record pool2d_op =
  po_input :: shape
  po_result :: shape
  po_flat :: "flat_info option"
  po_kernel :: attr
  po_stride :: attr
  po_dilation :: attr
  po_padding :: attr
  po_ceil :: bool

definition pool_effective :: "pool2d_params \<Rightarrow> int \<times> int" where
  "pool_effective params =
     (to_u32 (vertical (p_dilation params) * (vertical (p_kernel params) - 1) + 1),
      to_u32 (horizontal (p_dilation params) * (horizontal (p_kernel params) - 1) + 1))"

definition verifyFlattenedCompatInfo :: "pool2d_op \<Rightarrow> conv_error verdict" where
  "verifyFlattenedCompatInfo op =
     (case po_flat op of
        None \<Rightarrow> success
      | Some f \<Rightarrow> if fi_batch f * fi_height f * fi_width f \<noteq> po_input op ! FLATTENED_DIM then Inl FlattenedInput else success)"

definition getPool2dInputDims :: "pool2d_op \<Rightarrow> input_dims" where
  "getPool2dInputDims op =
     (let inputType = po_input op
      in case po_flat op of
           Some f \<Rightarrow> \<lparr>in_batch = fi_batch f, in_height = fi_height f, in_width = fi_width f, in_channels = inputType ! 3\<rparr>
         | None \<Rightarrow> \<lparr>in_batch = inputType ! 0, in_height = inputType ! 1, in_width = inputType ! 2, in_channels = inputType ! 3\<rparr>)"

definition getPool2dOutputDims :: "pool2d_op \<Rightarrow> output_dims" where
  "getPool2dOutputDims op =
     (let outputType = po_result op
      in case po_flat op of
           Some f \<Rightarrow> Flattened (outputType ! FLATTENED_DIM) (outputType ! 3)
         | None \<Rightarrow> Separate (outputType ! 0) (outputType ! 1) (outputType ! 2) (outputType ! 3))"

definition getPool2dParams :: "pool2d_op \<Rightarrow> pool2d_params parsed" where
  "getPool2dParams op =
     (case getPairOfInteger (po_kernel op) of Inl e \<Rightarrow> Inl e | Inr k \<Rightarrow>
      (case getPairOfInteger (po_stride op) of Inl e \<Rightarrow> Inl e | Inr stride \<Rightarrow>
       (case getPairOfInteger (po_dilation op) of Inl e \<Rightarrow> Inl e | Inr dilation \<Rightarrow>
        (case getQuadrupleOfInteger (po_padding op) of Inl e \<Rightarrow> Inl e | Inr padding \<Rightarrow>
         Inr \<lparr>p_kernel = spatial2d_of k, p_stride = spatial2d_of stride, p_dilation = spatial2d_of dilation,
           p_padding = spatial4d_of padding, p_ceil = po_ceil op\<rparr>))))"

definition verifyPool2dParams :: "pool2d_params \<Rightarrow> conv_error verdict" where
  "verifyPool2dParams params =
     (if \<not> positive2 (p_kernel params) then Inl KernelNotPositive
      else if \<not> positive2 (p_stride params) then Inl StrideNotPositive
      else if \<not> positive2 (p_dilation params) then Inl DilationNotPositive
      else if \<not> nonNegative4 (p_padding params) then Inl PaddingNegative
      else success)"

definition verifyPool2dInputDims :: "input_dims \<Rightarrow> pool2d_params \<Rightarrow> conv_error verdict" where
  "verifyPool2dInputDims inputDims params =
     (let padded = getPaddedInputSize inputDims (getVertical (p_padding params)) (getHorizontal (p_padding params));
          eff = pool_effective params
      in if fst padded < fst eff \<or> snd padded < snd eff then Inl KernelTooLarge else success)"

text \<open>One spatial dimension: \<open>inputSize\<close> without padding, \<open>before\<close> the padding at the top
  or left, \<open>pad\<close> the whole padding.\<close>

definition pool_out :: "llvm_math \<Rightarrow> bool \<Rightarrow> int \<Rightarrow> int \<Rightarrow> int \<Rightarrow> int \<Rightarrow> int \<Rightarrow> int" where
  "pool_out lm ceilMode inputSize pad before eff stride =
     (let padded = to_i32 (inputSize + pad); eff = to_i32 eff
      in if ceilMode
         then let out = to_i32 (divideCeil lm (to_i32 (padded - eff)) stride + 1)
              in if (out - 1) * stride \<ge> inputSize + before then to_i32 (out - 1) else out
         else to_i32 (divideFloorSigned lm (to_i32 (padded - eff)) stride + 1))"

definition verifyPool2dOutputDims :: "llvm_math \<Rightarrow> input_dims \<Rightarrow> output_dims \<Rightarrow> pool2d_params \<Rightarrow> conv_error verdict" where
  "verifyPool2dOutputDims lm inputDims outputDims params =
     (let p = p_padding params; eff = pool_effective params;
          calculatedHOut = pool_out lm (p_ceil params) (in_height inputDims) (getVertical p) (pad_top p) (fst eff) (vertical (p_stride params));
          calculatedWOut = pool_out lm (p_ceil params) (in_width inputDims) (getHorizontal p) (pad_left p) (snd eff) (horizontal (p_stride params))
      in case outputDims of
           Separate batchSize outputHeight outputWidth channels \<Rightarrow>
             if in_batch inputDims \<noteq> batchSize then Inl BatchMismatch
             else if channels \<noteq> in_channels inputDims then Inl ChannelMismatch
             else if calculatedHOut \<noteq> outputHeight \<or> calculatedWOut \<noteq> outputWidth then Inl SpatialMismatch
             else success
         | Flattened flattened channels \<Rightarrow>
             if channels \<noteq> in_channels inputDims then Inl ChannelMismatch
             else if to_i32 (calculatedHOut * calculatedWOut) * in_batch inputDims \<noteq> flattened then Inl FlattenedMismatch
             else success)"

definition verifyPooling2dOp :: "llvm_math \<Rightarrow> pool2d_op \<Rightarrow> conv_error verdict" where
  "verifyPooling2dOp lm op =
     and_then (verifyTensorRanks (po_input op) None (po_result op))
       (and_then (verifyFlattenedCompatInfo op)
         (case getPool2dParams op of
            Inl e \<Rightarrow> Inl e
          | Inr params \<Rightarrow>
              and_then (verifyPool2dParams params)
                (and_then (verifyPool2dInputDims (getPool2dInputDims op) params)
                  (verifyPool2dOutputDims lm (getPool2dInputDims op) (getPool2dOutputDims op) params))))"

definition isIdentityPool2d :: "pool2d_op \<Rightarrow> bool" where
  "isIdentityPool2d op =
     (case (getPairOfInteger (po_kernel op), getPairOfInteger (po_stride op), getPairOfInteger (po_dilation op),
            getQuadrupleOfInteger (po_padding op)) of
        (Inr k, Inr stride, Inr dilation, Inr (a, b, c, d)) \<Rightarrow>
          k = (1, 1) \<and> stride = (1, 1) \<and> dilation = (1, 1) \<and> a = 0 \<and> b = 0 \<and> c = 0 \<and> d = 0
      | _ \<Rightarrow> False)"

text \<open>Folding returns the input.\<close>

definition fold_pool2d :: "pool2d_op \<Rightarrow> shape option" where
  "fold_pool2d op = (if isIdentityPool2d op then Some (po_input op) else None)"

end
