(* ===== verification/ConvProps.thy ===== *)
theory ConvProps
  imports PoolModel
begin

text \<open>
  What the convolution and pooling verifiers promise: the output sizes they accept are the numbers of
  windows that fit, computed in exact arithmetic although the code mixes 32-bit and 64-bit values.
\<close>

section \<open>Windows\<close>

text \<open>\<open>n\<close> is the number of positions \<open>0, s, 2 * s, ...\<close> at which a window of
  size \<open>eff\<close> fits into a row of length \<open>len\<close>.\<close>

definition windows_fit :: "int \<Rightarrow> int \<Rightarrow> int \<Rightarrow> int \<Rightarrow> bool" where
  "windows_fit len eff s n \<longleftrightarrow> 0 < n \<and> (\<forall>k\<ge>0. k < n \<longleftrightarrow> k * s + eff \<le> len)"

text \<open>In ceil mode a window starts inside the input or the padding before it, and only if the windows
  before it leave something of the padded row uncovered.\<close>

definition windows_ceil :: "int \<Rightarrow> int \<Rightarrow> int \<Rightarrow> int \<Rightarrow> int \<Rightarrow> bool" where
  "windows_ceil len eff s lim n \<longleftrightarrow>
     0 < n \<and> (\<forall>k\<ge>0. k < n \<longleftrightarrow> k * s < lim \<and> (k = 0 \<or> (k - 1) * s + eff < len))"

lemma less_div_iff:
  assumes "(0::int) < s"
  shows "k \<le> a div s \<longleftrightarrow> k * s \<le> a"
proof
  assume "k \<le> a div s"
  then have "k * s \<le> a div s * s" using assms by (intro mult_right_mono) auto
  also have "\<dots> \<le> a" using pos_mod_sign [OF assms, of a] by (simp add: minus_mod_eq_div_mult [symmetric])
  finally show "k * s \<le> a" .
next
  assume "k * s \<le> a"
  then have "k * s div s \<le> a div s" using assms by (intro zdiv_mono1) auto
  then show "k \<le> a div s" using assms by simp
qed

lemma windows_fitI:
  assumes "0 < s" "eff \<le> len"
  shows "windows_fit len eff s ((len - eff) div s + 1)"
proof -
  have "0 \<le> (len - eff) div s" using assms by (simp add: pos_imp_zdiv_nonneg_iff)
  moreover have "k < (len - eff) div s + 1 \<longleftrightarrow> k * s + eff \<le> len" for k
    using less_div_iff [OF assms(1), of k "len - eff"] by auto
  ultimately show ?thesis by (simp add: windows_fit_def)
qed

lemma div_below:
  assumes "(0::int) \<le> a" "0 < s"
  shows "a div s \<le> a"
proof -
  have "a div s \<le> a div 1" using assms by (intro zdiv_mono2) auto
  then show ?thesis by simp
qed

lemma sdiv_exact: "0 \<le> a \<Longrightarrow> 0 < s \<Longrightarrow> a sdiv s = a div (s::int)"
  by (auto simp: signed_divide_int_def sgn_if)

lemma conv_out_windows:
  assumes "0 < s" "0 \<le> eff" "eff \<le> len" "len < 2 ^ 31" "0 < eff"
  shows "windows_fit len eff s (conv_out len eff s)"
proof -
  have "(len - eff) div s \<le> len - eff" using assms by (intro div_below) auto
  moreover have "0 \<le> (len - eff) div s" using assms by (simp add: pos_imp_zdiv_nonneg_iff)
  ultimately have "conv_out len eff s = (len - eff) div s + 1" using assms by (simp add: conv_out_def sdiv_exact)
  then show ?thesis using assms windows_fitI by simp
qed

lemma conv3d_out_windows:
  assumes "0 < s" "0 < eff" "eff \<le> len + 2 * pad" "len + 2 * pad < 2 ^ 31"
  shows "windows_fit (len + 2 * pad) eff s (conv3d_out len pad eff s)"
proof -
  have "(len + 2 * pad - eff) div s \<le> len + 2 * pad - eff" using assms by (intro div_below) auto
  moreover have "0 \<le> (len + 2 * pad - eff) div s" using assms by (simp add: pos_imp_zdiv_nonneg_iff)
  ultimately have "conv3d_out len pad eff s = (len + 2 * pad - eff) div s + 1"
    using assms by (simp add: conv3d_out_def sdiv_exact)
  then show ?thesis using assms windows_fitI by simp
qed

text \<open>A size in range: a positive size whose padded length fits an \<open>int32_t\<close>, and a kernel
  whose dilated length does.\<close>

definition in_range :: "int \<Rightarrow> int \<Rightarrow> int \<Rightarrow> int \<Rightarrow> bool" where
  "in_range n pad kern dil \<longleftrightarrow> 0 < n \<and> 0 \<le> pad \<and> n + pad < 2 ^ 31 \<and> 0 < kern \<and> dil * (kern - 1) + 1 < 2 ^ 31"

lemma in_rangeD:
  assumes "in_range n pad kern dil" "0 < dil"
  shows "to_u32 (n + pad) = n + pad" "to_u32 (dil * (kern - 1) + 1) = dil * (kern - 1) + 1"
    "0 < dil * (kern - 1) + 1" "n + pad < 2 ^ 31" "to_i32 (dil * (kern - 1) + 1) = dil * (kern - 1) + 1"
    "to_i32 (n + pad) = n + pad"
proof -
  have "0 \<le> dil * (kern - 1)" using assms by (simp add: in_range_def)
  then show "to_u32 (n + pad) = n + pad" "to_u32 (dil * (kern - 1) + 1) = dil * (kern - 1) + 1"
    "0 < dil * (kern - 1) + 1" "n + pad < 2 ^ 31" "to_i32 (dil * (kern - 1) + 1) = dil * (kern - 1) + 1"
    "to_i32 (n + pad) = n + pad"
    using assms(1) by (simp_all add: in_range_def)
qed

lemma group_channels:
  assumes "(c::int) smod g = 0"
  shows "c = g * (c sdiv g)"
  using mult_sdiv_smod_eq [of g c] assms by simp

section \<open>Convolutions\<close>

definition conv2d_in_range :: "input_dims \<Rightarrow> weight_dims \<Rightarrow> conv2d_params \<Rightarrow> bool" where
  "conv2d_in_range i w p \<longleftrightarrow>
     in_range (in_height i) (getVertical (c_padding p)) (w_kernelHeight w) (vertical (c_dilation p)) \<and>
     in_range (in_width i) (getHorizontal (c_padding p)) (w_kernelWidth w) (horizontal (c_dilation p))"

lemma conv2d_verified:
  assumes "verifyConv2d op = success" "getConv2dInputDims op = (i, w, b)" "getConv2dParams op = Inr p"
  shows "verifyConv2dParams p = success" "verifyConv2dInputDims i w b p = success"
    "verifyConv2dOutputDimensions i w (getConv2dOutputDims op) p = success"
  using assms by (auto simp: verifyConv2d_def split: if_splits)

text \<open>C38: a verified conv2d whose sizes are in range has the shape of a convolution: each group has the
  weight's input channels, the output has the weight's output channels, and there are a height and a
  width, the numbers of dilated kernel windows that fit into the padded input at the strides, such that a
  4D output has the input's batch and these sizes, and a flattened output (its product within
  \<open>int32_t\<close>) is batch times height times width.\<close>

theorem conv2d_output_windows:
  assumes "verifyConv2d op = success" "getConv2dInputDims op = (i, w, b)" "getConv2dParams op = Inr p"
    "conv2d_in_range i w p"
  shows "c_groups p \<noteq> 0 \<and> in_channels i = c_groups p * w_inChannPerGroup w \<and>
    outputChannels (getConv2dOutputDims op) = w_outputChannels w \<and>
    (\<exists>h v. windows_fit (in_height i + getVertical (c_padding p)) (vertical (c_dilation p) * (w_kernelHeight w - 1) + 1)
             (vertical (c_stride p)) h \<and>
           windows_fit (in_width i + getHorizontal (c_padding p)) (horizontal (c_dilation p) * (w_kernelWidth w - 1) + 1)
             (horizontal (c_stride p)) v \<and>
           (case getConv2dOutputDims op of
              Separate n h' v' c \<Rightarrow> n = in_batch i \<and> h' = h \<and> v' = v
            | Flattened f c \<Rightarrow> h * v \<ge> 2 ^ 31 \<or> f = h * v * in_batch i))"
proof -
  note ver = conv2d_verified [OF assms(1-3)]
  have dil: "0 < vertical (c_dilation p)" "0 < horizontal (c_dilation p)"
    and st: "0 < vertical (c_stride p)" "0 < horizontal (c_stride p)"
    using ver(1) by (auto simp: verifyConv2dParams_def positive2_def split: if_splits)
  note rh = in_rangeD [OF _ dil(1), of "in_height i" "getVertical (c_padding p)" "w_kernelHeight w"]
  note rw = in_rangeD [OF _ dil(2), of "in_width i" "getHorizontal (c_padding p)" "w_kernelWidth w"]
  let ?H = "in_height i + getVertical (c_padding p)" and ?W = "in_width i + getHorizontal (c_padding p)"
  let ?kh = "vertical (c_dilation p) * (w_kernelHeight w - 1) + 1" and ?kw = "horizontal (c_dilation p) * (w_kernelWidth w - 1) + 1"
  let ?h = "conv_out ?H ?kh (vertical (c_stride p))" and ?v = "conv_out ?W ?kw (horizontal (c_stride p))"
  have r: "in_range (in_height i) (getVertical (c_padding p)) (w_kernelHeight w) (vertical (c_dilation p))"
    "in_range (in_width i) (getHorizontal (c_padding p)) (w_kernelWidth w) (horizontal (c_dilation p))"
    using assms(4) by (auto simp: conv2d_in_range_def)
  have fit: "?kh \<le> ?H" "?kw \<le> ?W" and gr: "c_groups p \<noteq> 0" "in_channels i smod c_groups p = 0"
    "in_channels i sdiv c_groups p = w_inChannPerGroup w"
    using ver(2) rh(1,2) [OF r(1)] rw(1,2) [OF r(2)]
    by (auto simp: verifyConv2dInputDims_def getPaddedInputSize_def getEffectiveKernelSize_def Let_def split: if_splits)
  have h: "windows_fit ?H ?kh (vertical (c_stride p)) ?h" and v: "windows_fit ?W ?kw (horizontal (c_stride p)) ?v"
    using st fit rh(3,4) [OF r(1)] rw(3,4) [OF r(2)] by (auto intro!: conv_out_windows)
  have nn: "0 < ?h" "0 < ?v" using h v by (auto simp: windows_fit_def)
  then have "0 \<le> ?h * ?v" by simp
  then have prod: "?h * ?v \<ge> 2 ^ 31 \<or> to_i32 (?h * ?v) = ?h * ?v" by (cases "?h * ?v \<ge> 2 ^ 31") simp_all
  have "outputChannels (getConv2dOutputDims op) = w_outputChannels w"
    using ver(3) by (auto simp: verifyConv2dOutputDimensions_def outputChannels_def Let_def split: output_dims.splits if_splits)
  moreover have "case getConv2dOutputDims op of
      Separate n h' v' c \<Rightarrow> n = in_batch i \<and> h' = ?h \<and> v' = ?v | Flattened f c \<Rightarrow> ?h * ?v \<ge> 2 ^ 31 \<or> f = ?h * ?v * in_batch i"
    using ver(3) rh(1,2) [OF r(1)] rw(1,2) [OF r(2)] prod
    by (auto simp: verifyConv2dOutputDimensions_def getPaddedInputSize_def getEffectiveKernelSize_def Let_def
        split: output_dims.splits if_splits)
  ultimately show ?thesis using gr h v group_channels [OF gr(2)] by metis
qed

definition ex_conv2d :: conv2d_op where
  "ex_conv2d = \<lparr>c2_input = [2, 7, 9, 4], c2_weight = [6, 2, 3, 2], c2_bias = Some [1, 1, 1, 6], c2_result = [2, 4, 8, 6],
     c2_flat = None, c2_batchDim = 0, c2_heightDim = 1, c2_widthDim = 2, c2_channelDim = 3, c2_stride = DenseArrayAttr [2, 1],
     c2_padding = DenseArrayAttr [1, 0, 2, 1], c2_dilation = DenseArrayAttr [1, 2], c2_groups = 2\<rparr>"

lemma conv2d_output_windows_witness:
  "windows_fit 10 3 2 4 \<and> windows_fit 10 3 1 8 \<and> verifyConv2d ex_conv2d = success"
proof -
  have v: "verifyConv2d ex_conv2d = success" by code_simp
  obtain i w b where i: "getConv2dInputDims ex_conv2d = (i, w, b)" by (metis prod_cases3)
  obtain p where p: "getConv2dParams ex_conv2d = Inr p" by (simp add: getConv2dParams_def ex_conv2d_def)
  have eqs: "in_height i = 7" "in_width i = 9" "w_kernelHeight w = 3" "w_kernelWidth w = 2"
    using i by (auto simp: getConv2dInputDims_def ex_conv2d_def Let_def)
  have eqp: "c_stride p = \<lparr>vertical = 2, horizontal = 1\<rparr>" "c_dilation p = \<lparr>vertical = 1, horizontal = 2\<rparr>"
    "getVertical (c_padding p) = 3" "getHorizontal (c_padding p) = 1"
    using p by (auto simp: getConv2dParams_def ex_conv2d_def spatial2d_of_def spatial4d_of_def getVertical_def getHorizontal_def)
  have outd: "getConv2dOutputDims ex_conv2d = Separate 2 4 8 6" by (simp add: getConv2dOutputDims_def ex_conv2d_def Let_def)
  have "conv2d_in_range i w p" by (simp add: conv2d_in_range_def in_range_def eqs eqp)
  from conv2d_output_windows [OF v i p this] show ?thesis using v by (simp add: eqs eqp outd)
qed

text \<open>Out of range the verifier goes wrong: a dilated kernel of \<open>2 ^ 32 + 1\<close> rows is taken for one row, and the
  convolution of 8 rows with 8 rows of output accepted.\<close>

definition wrapped_conv2d :: conv2d_op where
  "wrapped_conv2d = \<lparr>c2_input = [1, 8, 1, 1], c2_weight = [1, 1, 5, 1], c2_bias = None, c2_result = [1, 8, 1, 1],
     c2_flat = None, c2_batchDim = 0, c2_heightDim = 1, c2_widthDim = 2, c2_channelDim = 3, c2_stride = IntegerAttr 1,
     c2_padding = IntegerAttr 0, c2_dilation = DenseArrayAttr [2 ^ 30, 1], c2_groups = 1\<rparr>"

theorem dilated_kernel_wraps:
  "verifyConv2d wrapped_conv2d = success" "(8::int) < 2 ^ 30 * (5 - 1) + 1"
  by code_simp+

definition conv3d_in_range :: "input_dims3d \<Rightarrow> weight_dims3d \<Rightarrow> conv3d_params \<Rightarrow> bool" where
  "conv3d_in_range i w p \<longleftrightarrow>
     in_range (in3_depth i) (2 * p3_depth (c3_padding p)) (w3_depth w) (p3_depth (c3_dilation p)) \<and>
     in_range (in3_height i) (2 * p3_vertical (c3_padding p)) (w3_height w) (p3_vertical (c3_dilation p)) \<and>
     in_range (in3_width i) (2 * p3_horizontal (c3_padding p)) (w3_width w) (p3_horizontal (c3_dilation p))"

lemma conv3d_verified:
  assumes "verifyConv3d op = success" "getConv3dInputDims op = (i, w, b)" "getConv3dParams op = Inr p"
  shows "verifyConv3dParams p = success" "verifyConv3dInputDims i w b p = success"
    "verifyConv3dOutputDimensions i w (getConv3dOutputDims op) p = success"
  using assms by (auto simp: verifyConv3d_def split: if_splits)

text \<open>One dimension of a conv3d.\<close>

lemma conv3d_dim:
  assumes "in_range n (2 * pad) kern dil" "0 < dil" "0 < s" "to_u32 (dil * (kern - 1) + 1) \<le> to_u32 (n + 2 * pad)"
  shows "windows_fit (n + 2 * pad) (dil * (kern - 1) + 1) s (conv3d_out n pad (to_u32 (dil * (kern - 1) + 1)) s)"
  using assms(4) conv3d_out_windows [OF assms(3) in_rangeD(3) [OF assms(1,2)] _ in_rangeD(4) [OF assms(1,2)]]
  unfolding in_rangeD(1,2) [OF assms(1,2)] by blast

text \<open>a verified conv3d whose sizes are in range has the shape of a convolution: channels agree with
  the groups and the weight, the batch is the input's, and depth, height and width are the numbers of
  dilated kernel windows that fit into the input padded on both sides.\<close>

theorem conv3d_output_windows:
  assumes "verifyConv3d op = success" "getConv3dInputDims op = (i, w, b)" "getConv3dParams op = Inr p"
    "conv3d_in_range i w p"
  shows "in3_channels i = c3_groups p * w3_inChannPerGroup w \<and>
    out3_channels (getConv3dOutputDims op) = w3_outputChannels w \<and> out3_batch (getConv3dOutputDims op) = in3_batch i \<and>
    windows_fit (in3_depth i + 2 * p3_depth (c3_padding p)) (p3_depth (c3_dilation p) * (w3_depth w - 1) + 1)
      (p3_depth (c3_stride p)) (out3_depth (getConv3dOutputDims op)) \<and>
    windows_fit (in3_height i + 2 * p3_vertical (c3_padding p)) (p3_vertical (c3_dilation p) * (w3_height w - 1) + 1)
      (p3_vertical (c3_stride p)) (out3_height (getConv3dOutputDims op)) \<and>
    windows_fit (in3_width i + 2 * p3_horizontal (c3_padding p)) (p3_horizontal (c3_dilation p) * (w3_width w - 1) + 1)
      (p3_horizontal (c3_stride p)) (out3_width (getConv3dOutputDims op))"
proof -
  note ver = conv3d_verified [OF assms(1-3)]
  note params = ver(1) [unfolded verifyConv3dParams_def positive3_def]
  have pos: "0 < p3_depth (c3_stride p)" "0 < p3_vertical (c3_stride p)" "0 < p3_horizontal (c3_stride p)"
    "0 < p3_depth (c3_dilation p)" "0 < p3_vertical (c3_dilation p)" "0 < p3_horizontal (c3_dilation p)"
    using params by (simp_all split: if_splits)
  have fit: "to_u32 (p3_depth (c3_dilation p) * (w3_depth w - 1) + 1) \<le> to_u32 (in3_depth i + 2 * p3_depth (c3_padding p))"
    "to_u32 (p3_vertical (c3_dilation p) * (w3_height w - 1) + 1) \<le> to_u32 (in3_height i + 2 * p3_vertical (c3_padding p))"
    "to_u32 (p3_horizontal (c3_dilation p) * (w3_width w - 1) + 1) \<le> to_u32 (in3_width i + 2 * p3_horizontal (c3_padding p))"
    and gr: "in3_channels i smod c3_groups p = 0" "in3_channels i sdiv c3_groups p = w3_inChannPerGroup w"
    using ver(2) by (auto simp: verifyConv3dInputDims_def getPaddedInputSize3d_def getEffectiveKernelSize3d_def Let_def split: if_splits)
  note out = ver(3) [unfolded verifyConv3dOutputDimensions_def getEffectiveKernelSize3d_def Let_def fst_conv snd_conv]
  have outs: "out3_batch (getConv3dOutputDims op) = in3_batch i" "out3_channels (getConv3dOutputDims op) = w3_outputChannels w"
    "out3_depth (getConv3dOutputDims op) = conv3d_out (in3_depth i) (p3_depth (c3_padding p))
       (to_u32 (p3_depth (c3_dilation p) * (w3_depth w - 1) + 1)) (p3_depth (c3_stride p))"
    "out3_height (getConv3dOutputDims op) = conv3d_out (in3_height i) (p3_vertical (c3_padding p))
       (to_u32 (p3_vertical (c3_dilation p) * (w3_height w - 1) + 1)) (p3_vertical (c3_stride p))"
    "out3_width (getConv3dOutputDims op) = conv3d_out (in3_width i) (p3_horizontal (c3_padding p))
       (to_u32 (p3_horizontal (c3_dilation p) * (w3_width w - 1) + 1)) (p3_horizontal (c3_stride p))"
    using out by (simp_all split: if_splits)
  note r = assms(4) [unfolded conv3d_in_range_def]
  have "in3_channels i = c3_groups p * w3_inChannPerGroup w" using group_channels [OF gr(1)] gr(2) by simp
  then show ?thesis
    unfolding outs using conv3d_dim [OF _ pos(4,1) fit(1)] conv3d_dim [OF _ pos(5,2) fit(2)] conv3d_dim [OF _ pos(6,3) fit(3)] r
    by blast
qed

definition ex_conv3d :: conv3d_op where
  "ex_conv3d = \<lparr>o3_input = [1, 5, 6, 7, 4], o3_weight = [8, 2, 2, 3, 2], o3_bias = None, o3_result = [1, 6, 2, 5, 8],
     o3_batchDim = 0, o3_depthDim = 1, o3_heightDim = 2, o3_widthDim = 3, o3_channelDim = 4, o3_stride = DenseArrayAttr [1, 2, 1],
     o3_padding = DenseArrayAttr [1, 0, 0], o3_dilation = [1, 1, 2], o3_groups = 2, o3_mode = ''zeros''\<rparr>"

lemma conv3d_output_windows_witness:
  "windows_fit 7 2 1 6 \<and> windows_fit 6 3 2 2 \<and> windows_fit 7 3 1 5 \<and> verifyConv3d ex_conv3d = success"
proof -
  have v: "verifyConv3d ex_conv3d = success" by code_simp
  obtain i w b where i: "getConv3dInputDims ex_conv3d = (i, w, b)" by (metis prod_cases3)
  obtain p where p: "getConv3dParams ex_conv3d = Inr p" by (simp add: getConv3dParams_def ex_conv3d_def)
  have eqs: "in3_depth i = 5" "in3_height i = 6" "in3_width i = 7" "w3_depth w = 2" "w3_height w = 3" "w3_width w = 2"
    using i by (auto simp: getConv3dInputDims_def ex_conv3d_def Let_def)
  have eqp: "c3_stride p = \<lparr>p3_depth = 1, p3_vertical = 2, p3_horizontal = 1\<rparr>"
    "c3_dilation p = \<lparr>p3_depth = 1, p3_vertical = 1, p3_horizontal = 2\<rparr>"
    "c3_padding p = \<lparr>p3_depth = 1, p3_vertical = 0, p3_horizontal = 0\<rparr>"
    using p by (auto simp: getConv3dParams_def ex_conv3d_def spatial3d_of_def)
  have outd: "out3_depth (getConv3dOutputDims ex_conv3d) = 6" "out3_height (getConv3dOutputDims ex_conv3d) = 2"
    "out3_width (getConv3dOutputDims ex_conv3d) = 5" by (simp_all add: getConv3dOutputDims_def ex_conv3d_def Let_def)
  have "conv3d_in_range i w p" by (simp add: conv3d_in_range_def in_range_def eqs eqp)
  from conv3d_output_windows [OF v i p this] show ?thesis using v by (simp add: eqs eqp outd)
qed

end
