(* ===== verification/PoolProps.thy ===== *)
theory PoolProps
  imports ConvProps
begin

text \<open>
  Properties of the pooling verifier, of the identity fold of poolings and of the transposed
  convolution.
\<close>

section \<open>Pooling\<close>

lemma ceil_div_iff:
  assumes "(0::int) < s"
  shows "k < (a + s - 1) div s \<longleftrightarrow> k * s < a"
  using less_div_iff [OF assms, of "k + 1" "a + s - 1"] by (auto simp: algebra_simps)

lemma pool_out_floor:
  assumes "legal_llvm_math lm" "0 < s" "0 < eff" "eff < 2 ^ 31" "eff \<le> n + pad" "n + pad < 2 ^ 31"
  shows "windows_fit (n + pad) eff s (pool_out lm False n pad before eff s)"
proof -
  have d: "(n + pad - eff) div s \<le> n + pad - eff" "0 \<le> (n + pad - eff) div s"
    using assms by (auto intro: div_below simp: pos_imp_zdiv_nonneg_iff)
  have "to_i32 (n + pad) = n + pad" "to_i32 eff = eff" "to_i32 (n + pad - eff) = n + pad - eff" using assms by simp_all
  moreover have "divideFloorSigned lm (n + pad - eff) s = (n + pad - eff) div s"
    using assms by (simp add: legal_llvm_math_def)
  moreover have "to_i32 ((n + pad - eff) div s + 1) = (n + pad - eff) div s + 1" using d assms by simp
  ultimately have "pool_out lm False n pad before eff s = (n + pad - eff) div s + 1" by (simp add: pool_out_def Let_def)
  then show ?thesis using assms windows_fitI by simp
qed

lemma ceil_below:
  assumes "(0::int) \<le> a" "0 < s"
  shows "(a + s - 1) div s \<le> a" "0 \<le> (a + s - 1) div s"
proof -
  have "a * 1 \<le> a * s" using assms by (intro mult_left_mono) auto
  then have "\<not> a < (a + s - 1) div s" unfolding ceil_div_iff [OF assms(2)] by simp
  then show "(a + s - 1) div s \<le> a" by simp
  show "0 \<le> (a + s - 1) div s" using assms by (simp add: pos_imp_zdiv_nonneg_iff)
qed

lemma windows_ceilI:
  assumes "0 < s" "eff \<le> len" "0 < lim" "len - eff \<le> lim"
  shows "windows_ceil len eff s lim
    (let n = (len - eff + s - 1) div s + 1 in if (n - 1) * s \<ge> lim then n - 1 else n)"
proof -
  let ?c = "(len - eff + s - 1) div s"
  have c0: "0 \<le> ?c" using assms ceil_below(2) [of "len - eff" s] by simp
  have iff: "k < ?c \<longleftrightarrow> k * s < len - eff" for k using ceil_div_iff [OF assms(1)] .
  show ?thesis
  proof (cases "?c * s \<ge> lim")
    case True
    have "0 < ?c" using True assms(1,3) c0 by (cases "?c = 0") auto
    moreover have "k < ?c \<longleftrightarrow> k * s < lim \<and> (k = 0 \<or> (k - 1) * s + eff < len)" if "k \<ge> 0" for k
    proof
      assume k: "k < ?c"
      then have "k * s < len - eff" using iff by simp
      moreover have "(k - 1) * s < len - eff" using iff [of "k - 1"] k by simp
      ultimately show "k * s < lim \<and> (k = 0 \<or> (k - 1) * s + eff < len)" using assms(4) by auto
    next
      assume k: "k * s < lim \<and> (k = 0 \<or> (k - 1) * s + eff < len)"
      show "k < ?c"
      proof (rule ccontr)
        assume "\<not> k < ?c"
        then have "?c * s \<le> k * s" using assms(1) by simp
        then show False using True k by simp
      qed
    qed
    ultimately show ?thesis using True by (simp add: windows_ceil_def Let_def)
  next
    case False
    have "k < ?c + 1 \<longleftrightarrow> k * s < lim \<and> (k = 0 \<or> (k - 1) * s + eff < len)" if "k \<ge> 0" for k
    proof
      assume k: "k < ?c + 1"
      then have "k * s \<le> ?c * s" using assms(1) by simp
      then have "k * s < lim" using False by simp
      moreover have "k = 0 \<or> (k - 1) * s < len - eff" using iff [of "k - 1"] k by simp
      ultimately show "k * s < lim \<and> (k = 0 \<or> (k - 1) * s + eff < len)" by auto
    next
      assume "k * s < lim \<and> (k = 0 \<or> (k - 1) * s + eff < len)"
      then show "k < ?c + 1" using iff [of "k - 1"] c0 by auto
    qed
    then show ?thesis using False c0 by (simp add: windows_ceil_def Let_def)
  qed
qed

lemma pool_out_ceil:
  assumes "legal_llvm_math lm" "0 < s" "0 < eff" "eff < 2 ^ 31" "eff \<le> n + pad" "n + pad < 2 ^ 31" "0 < n + before"
    "n + pad - eff \<le> n + before"
  shows "windows_ceil (n + pad) eff s (n + before) (pool_out lm True n pad before eff s)"
proof -
  let ?c = "(n + pad - eff + s - 1) div s"
  have d: "?c \<le> n + pad - eff" "0 \<le> ?c" using ceil_below [of "n + pad - eff" s] assms by auto
  have "to_i32 (n + pad) = n + pad" "to_i32 eff = eff" "to_i32 (n + pad - eff) = n + pad - eff" using assms by simp_all
  moreover have "divideCeil lm (n + pad - eff) s = ?c" using assms by (simp add: legal_llvm_math_def)
  moreover have "to_i32 (?c + 1) = ?c + 1" "to_i32 ?c = ?c" using d assms by simp_all
  ultimately have "pool_out lm True n pad before eff s = (let m = ?c + 1 in if (m - 1) * s \<ge> n + before then m - 1 else m)"
    by (simp add: pool_out_def Let_def)
  then show ?thesis using assms windows_ceilI by simp
qed

text \<open>The rule of one dimension.\<close>

definition pool_windows :: "bool \<Rightarrow> int \<Rightarrow> int \<Rightarrow> int \<Rightarrow> int \<Rightarrow> int \<Rightarrow> int \<Rightarrow> bool" where
  "pool_windows ceilMode n pad before eff s result =
     (if ceilMode then windows_ceil (n + pad) eff s (n + before) result else windows_fit (n + pad) eff s result)"

definition pool2d_in_range :: "input_dims \<Rightarrow> pool2d_params \<Rightarrow> bool" where
  "pool2d_in_range i p \<longleftrightarrow>
     in_range (in_height i) (getVertical (p_padding p)) (vertical (p_kernel p)) (vertical (p_dilation p)) \<and>
     in_range (in_width i) (getHorizontal (p_padding p)) (horizontal (p_kernel p)) (horizontal (p_dilation p)) \<and>
     (p_ceil p \<longrightarrow> pad_bottom (p_padding p) \<le> vertical (p_dilation p) * (vertical (p_kernel p) - 1) + 1 \<and>
       pad_right (p_padding p) \<le> horizontal (p_dilation p) * (horizontal (p_kernel p) - 1) + 1)"

lemma pool_dim:
  assumes "legal_llvm_math lm" "in_range n (before + after) kern dil" "0 < dil" "0 < s" "0 \<le> before"
    "to_u32 (dil * (kern - 1) + 1) \<le> to_u32 (n + (before + after))" "cm \<longrightarrow> after \<le> dil * (kern - 1) + 1"
  shows "pool_windows cm n (before + after) before (dil * (kern - 1) + 1) s
    (pool_out lm cm n (before + after) before (to_u32 (dil * (kern - 1) + 1)) s)"
proof -
  note r = in_rangeD [OF assms(2,3)]
  have n: "0 < n" "dil * (kern - 1) + 1 < 2 ^ 31" using assms(2) by (auto simp: in_range_def)
  have fit: "dil * (kern - 1) + 1 \<le> n + (before + after)" using assms(6) r by simp
  show ?thesis
  proof (cases cm)
    case True
    then show ?thesis unfolding r(2) pool_windows_def
      using pool_out_ceil [OF assms(1,4) r(3) n(2) fit r(4), of before] n assms(5,7) by simp
  next
    case False
    then show ?thesis unfolding r(2) pool_windows_def using pool_out_floor [OF assms(1,4) r(3) n(2) fit r(4)] by simp
  qed
qed

lemma pool2d_verified:
  assumes "verifyPooling2dOp lm op = success" "getPool2dParams op = Inr p"
  shows "verifyPool2dParams p = success" "verifyPool2dInputDims (getPool2dInputDims op) p = success"
    "verifyPool2dOutputDims lm (getPool2dInputDims op) (getPool2dOutputDims op) p = success" "length (po_input op) = 4"
    "length (po_result op) = 4"
  using assms by (auto simp: verifyPooling2dOp_def verifyTensorRanks_def split: if_splits)

text \<open>C39: a verified pooling whose sizes are in range keeps batch and channels, and its height and width
  are: in floor mode, the numbers of windows that fit into the padded input; in ceil mode (the padding
  after the input being at most the window), the numbers of windows that start inside the input or the
  padding before it and before everything is covered. A flattened output is their product with the batch
  when the product fits an \<open>int32_t\<close>.\<close>

theorem pool2d_output_windows:
  assumes "verifyPooling2dOp lm op = success" "legal_llvm_math lm" "getPool2dParams op = Inr p"
    "getPool2dInputDims op = i" "pool2d_in_range i p"
  shows "outputChannels (getPool2dOutputDims op) = in_channels i \<and>
    (\<exists>h v. pool_windows (p_ceil p) (in_height i) (getVertical (p_padding p)) (pad_top (p_padding p))
             (vertical (p_dilation p) * (vertical (p_kernel p) - 1) + 1) (vertical (p_stride p)) h \<and>
           pool_windows (p_ceil p) (in_width i) (getHorizontal (p_padding p)) (pad_left (p_padding p))
             (horizontal (p_dilation p) * (horizontal (p_kernel p) - 1) + 1) (horizontal (p_stride p)) v \<and>
           (case getPool2dOutputDims op of
              Separate n h' v' c \<Rightarrow> n = in_batch i \<and> h' = h \<and> v' = v
            | Flattened f c \<Rightarrow> h * v \<ge> 2 ^ 31 \<or> f = h * v * in_batch i))"
proof -
  note ver = pool2d_verified [OF assms(1,3), unfolded assms(4)]
  have pos: "0 < vertical (p_dilation p)" "0 < horizontal (p_dilation p)" "0 < vertical (p_stride p)" "0 < horizontal (p_stride p)"
    "0 \<le> pad_top (p_padding p)" "0 \<le> pad_left (p_padding p)"
    using ver(1) by (auto simp: verifyPool2dParams_def positive2_def nonNegative4_def split: if_splits)
  have r: "in_range (in_height i) (getVertical (p_padding p)) (vertical (p_kernel p)) (vertical (p_dilation p))"
    "in_range (in_width i) (getHorizontal (p_padding p)) (horizontal (p_kernel p)) (horizontal (p_dilation p))"
    "p_ceil p \<longrightarrow> pad_bottom (p_padding p) \<le> vertical (p_dilation p) * (vertical (p_kernel p) - 1) + 1"
    "p_ceil p \<longrightarrow> pad_right (p_padding p) \<le> horizontal (p_dilation p) * (horizontal (p_kernel p) - 1) + 1"
    using assms(5) by (auto simp: pool2d_in_range_def)
  have fit: "to_u32 (vertical (p_dilation p) * (vertical (p_kernel p) - 1) + 1) \<le> to_u32 (in_height i + getVertical (p_padding p))"
    "to_u32 (horizontal (p_dilation p) * (horizontal (p_kernel p) - 1) + 1) \<le> to_u32 (in_width i + getHorizontal (p_padding p))"
    using ver(2) by (auto simp: verifyPool2dInputDims_def getPaddedInputSize_def pool_effective_def Let_def split: if_splits)
  let ?h = "pool_out lm (p_ceil p) (in_height i) (getVertical (p_padding p)) (pad_top (p_padding p))
    (fst (pool_effective p)) (vertical (p_stride p))"
  let ?v = "pool_out lm (p_ceil p) (in_width i) (getHorizontal (p_padding p)) (pad_left (p_padding p))
    (snd (pool_effective p)) (horizontal (p_stride p))"
  have h: "pool_windows (p_ceil p) (in_height i) (getVertical (p_padding p)) (pad_top (p_padding p))
      (vertical (p_dilation p) * (vertical (p_kernel p) - 1) + 1) (vertical (p_stride p)) ?h"
    using pool_dim [OF assms(2) _ pos(1,3,5), of "in_height i" "pad_bottom (p_padding p)" "vertical (p_kernel p)" "p_ceil p"]
      r(1,3) fit(1) by (simp add: getVertical_def pool_effective_def)
  have v: "pool_windows (p_ceil p) (in_width i) (getHorizontal (p_padding p)) (pad_left (p_padding p))
      (horizontal (p_dilation p) * (horizontal (p_kernel p) - 1) + 1) (horizontal (p_stride p)) ?v"
    using pool_dim [OF assms(2) _ pos(2,4,6), of "in_width i" "pad_right (p_padding p)" "horizontal (p_kernel p)" "p_ceil p"]
      r(2,4) fit(2) by (simp add: getHorizontal_def pool_effective_def)
  have "0 < ?h" "0 < ?v" using h v by (auto simp: pool_windows_def windows_fit_def windows_ceil_def split: if_splits)
  then have "0 \<le> ?h * ?v" by simp
  then have prod: "?h * ?v \<ge> 2 ^ 31 \<or> to_i32 (?h * ?v) = ?h * ?v" by (cases "?h * ?v \<ge> 2 ^ 31") simp_all
  note out = ver(3) [unfolded verifyPool2dOutputDims_def Let_def]
  have "outputChannels (getPool2dOutputDims op) = in_channels i"
    using out by (auto simp: outputChannels_def split: output_dims.splits if_splits)
  moreover have "case getPool2dOutputDims op of
      Separate n h' v' c \<Rightarrow> n = in_batch i \<and> h' = ?h \<and> v' = ?v | Flattened f c \<Rightarrow> ?h * ?v \<ge> 2 ^ 31 \<or> f = ?h * ?v * in_batch i"
    using out prod by (auto split: output_dims.splits if_splits)
  ultimately show ?thesis using h v by blast
qed

definition ex_llvm_math :: llvm_math where
  "ex_llvm_math = \<lparr>divideCeil = (\<lambda>a b. (a + b - 1) div b), divideFloorSigned = (\<lambda>a b. a div b)\<rparr>"

lemma ex_llvm_math_legal: "legal_llvm_math ex_llvm_math"
  by (simp add: legal_llvm_math_def ex_llvm_math_def)

definition ex_pool :: pool2d_op where
  "ex_pool = \<lparr>po_input = [2, 6, 5, 3], po_result = [2, 3, 2, 3], po_flat = None, po_kernel = DenseArrayAttr [3, 2],
     po_stride = DenseArrayAttr [2, 3], po_dilation = IntegerAttr 1, po_padding = DenseArrayAttr [0, 1], po_ceil = True\<rparr>"

lemma pool2d_output_windows_witness:
  "windows_ceil 6 3 2 6 3 \<and> windows_ceil 7 2 3 6 2 \<and> verifyPooling2dOp ex_llvm_math ex_pool = success"
proof -
  have v: "verifyPooling2dOp ex_llvm_math ex_pool = success" by code_simp
  obtain p where p: "getPool2dParams ex_pool = Inr p" by (simp add: getPool2dParams_def ex_pool_def)
  have eqp: "p_kernel p = \<lparr>vertical = 3, horizontal = 2\<rparr>" "p_stride p = \<lparr>vertical = 2, horizontal = 3\<rparr>"
    "p_dilation p = \<lparr>vertical = 1, horizontal = 1\<rparr>" "p_padding p = \<lparr>pad_top = 0, pad_left = 1, pad_bottom = 0, pad_right = 1\<rparr>" "p_ceil p"
    using p by (auto simp: getPool2dParams_def ex_pool_def spatial2d_of_def spatial4d_of_def)
  have inp: "in_height (getPool2dInputDims ex_pool) = 6" "in_width (getPool2dInputDims ex_pool) = 5"
    and outd: "getPool2dOutputDims ex_pool = Separate 2 3 2 3"
    by (simp_all add: getPool2dInputDims_def getPool2dOutputDims_def ex_pool_def Let_def)
  have "pool2d_in_range (getPool2dInputDims ex_pool) p"
    by (simp add: pool2d_in_range_def in_range_def eqp inp getVertical_def getHorizontal_def)
  from pool2d_output_windows [OF v ex_llvm_math_legal p refl this] show ?thesis
    using v by (simp add: eqp inp outd pool_windows_def getVertical_def getHorizontal_def)
qed

text \<open>One window is dropped only: with 10 rows of trailing padding behind 4 rows, 13 windows of one row are
  accepted, of which 9 start in the padding.\<close>

definition padded_pool :: pool2d_op where
  "padded_pool = \<lparr>po_input = [1, 4, 1, 1], po_result = [1, 13, 1, 1], po_flat = None, po_kernel = IntegerAttr 1,
     po_stride = IntegerAttr 1, po_dilation = IntegerAttr 1, po_padding = DenseArrayAttr [0, 0, 10, 0], po_ceil = True\<rparr>"

theorem padding_windows_accepted: "verifyPooling2dOp ex_llvm_math padded_pool = success"
  by code_simp

lemma identity_params:
  assumes "isIdentityPool2d op"
  shows "getPool2dParams op = Inr \<lparr>p_kernel = \<lparr>vertical = 1, horizontal = 1\<rparr>, p_stride = \<lparr>vertical = 1, horizontal = 1\<rparr>,
    p_dilation = \<lparr>vertical = 1, horizontal = 1\<rparr>, p_padding = \<lparr>pad_top = 0, pad_left = 0, pad_bottom = 0, pad_right = 0\<rparr>,
    p_ceil = po_ceil op\<rparr>"
  using assms by (auto simp: isIdentityPool2d_def getPool2dParams_def spatial2d_of_def spatial4d_of_def split: sum.splits prod.splits)

lemma unit_windows:
  assumes "pool_windows cm n 0 0 1 1 m"
  shows "m = n"
proof -
  have "0 < m" and iff: "\<And>k. 0 \<le> k \<Longrightarrow> k < m \<longleftrightarrow> k < n"
    using assms by (auto simp: pool_windows_def windows_ceil_def windows_fit_def split: if_splits)
  show ?thesis
  proof (rule linorder_cases [of m n])
    assume "m < n"
    then show "m = n" using iff [of m] \<open>0 < m\<close> by simp
  next
    assume "n < m"
    then have "0 \<le> n" using iff [of 0] \<open>0 < m\<close> by simp
    then show "m = n" using iff [of n] \<open>n < m\<close> by simp
  qed simp
qed

text \<open>the fold of an identity pooling (window, stride and dilation 1, no padding) replaces a verified
  4D operation by its input, whose shape is then exactly the result shape, in floor and in ceil mode.\<close>

theorem pool_identity_fold:
  assumes "fold_pool2d op = Some sh" "verifyPooling2dOp lm op = success" "legal_llvm_math lm" "po_flat op = None"
    "list_all (\<lambda>d. 0 < d \<and> d < 2 ^ 31) (po_input op)"
  shows "sh = po_result op"
proof -
  have idp: "isIdentityPool2d op" and sh: "sh = po_input op" using assms(1) by (simp_all add: fold_pool2d_def split: if_splits)
  define p where "p = \<lparr>p_kernel = \<lparr>vertical = 1, horizontal = 1\<rparr>, p_stride = \<lparr>vertical = 1, horizontal = 1\<rparr>,
    p_dilation = \<lparr>vertical = 1, horizontal = 1\<rparr>, p_padding = \<lparr>pad_top = 0, pad_left = 0, pad_bottom = 0, pad_right = 0\<rparr>,
    p_ceil = po_ceil op\<rparr>"
  have par: "getPool2dParams op = Inr p" using identity_params [OF idp] by (simp add: p_def)
  note ver = pool2d_verified [OF assms(2) par]
  obtain n h w c where inp: "po_input op = [n, h, w, c]" using ver(4) by (auto simp: length_Suc_conv eval_nat_numeral)
  obtain n' h' w' c' where res: "po_result op = [n', h', w', c']" using ver(5) by (auto simp: length_Suc_conv eval_nat_numeral)
  have i: "getPool2dInputDims op = \<lparr>in_batch = n, in_height = h, in_width = w, in_channels = c\<rparr>"
    and o': "getPool2dOutputDims op = Separate n' h' w' c'"
    using assms(4) inp res by (simp_all add: getPool2dInputDims_def getPool2dOutputDims_def Let_def)
  have hw: "in_range h 0 1 1" "in_range w 0 1 1" using assms(5) inp by (simp_all add: in_range_def)
  have one: "to_u32 (1 * (1 - 1) + 1) = 1" by simp
  have fit: "to_u32 1 \<le> to_u32 h" "to_u32 1 \<le> to_u32 w"
    using hw by (simp_all add: in_range_def)
  have dim: "pool_windows (po_ceil op) d 0 0 1 1 (pool_out lm (po_ceil op) d 0 0 1 1)" if "in_range d 0 1 1" "to_u32 1 \<le> to_u32 d" for d
    using pool_dim [OF assms(3), of d 0 0 1 1 1 "po_ceil op"] that by simp
  have "n = n' \<and> c' = c \<and> pool_out lm (po_ceil op) h 0 0 1 1 = h' \<and> pool_out lm (po_ceil op) w 0 0 1 1 = w'"
    using ver(3) by (simp add: i o' p_def verifyPool2dOutputDims_def Let_def pool_effective_def getVertical_def getHorizontal_def split: if_splits)
  then show ?thesis using unit_windows [OF dim [OF hw(1) fit(1)]] unit_windows [OF dim [OF hw(2) fit(2)]] sh inp res by simp
qed

definition ex_identity_pool :: pool2d_op where
  "ex_identity_pool = \<lparr>po_input = [2, 6, 5, 3], po_result = [2, 6, 5, 3], po_flat = None, po_kernel = IntegerAttr 1,
     po_stride = DenseArrayAttr [1, 1], po_dilation = IntegerAttr 1, po_padding = DenseArrayAttr [0, 0, 0, 0], po_ceil = True\<rparr>"

lemma pool_identity_fold_witness:
  "fold_pool2d ex_identity_pool = Some [2, 6, 5, 3] \<and> [2, 6, 5, 3] = po_result ex_identity_pool"
proof -
  have f: "fold_pool2d ex_identity_pool = Some [2, 6, 5, 3]" by code_simp
  have v: "verifyPooling2dOp ex_llvm_math ex_identity_pool = success" by code_simp
  show ?thesis using pool_identity_fold [OF f v ex_llvm_math_legal] f by (simp add: ex_identity_pool_def)
qed

section \<open>Transposed convolution\<close>

definition transpose_in_range :: "int \<Rightarrow> int \<Rightarrow> int \<Rightarrow> int \<Rightarrow> int \<Rightarrow> int \<Rightarrow> int \<Rightarrow> bool" where
  "transpose_in_range n s pad dil kern q m \<longleftrightarrow>
     0 < n \<and> n < 2 ^ 31 \<and> 0 < kern \<and> kern < 2 ^ 31 \<and> pad < 2 ^ 31 \<and> 0 \<le> m \<and> m < 2 ^ 31 \<and>
     (n - 1) * s + dil * (kern - 1) + q + 1 < 2 ^ 31"

lemma transposed_dim:
  assumes "transpose_in_range n s pad dil kern q m" "0 < s" "0 < dil" "0 \<le> pad" "0 \<le> q" "q < s"
    "m = transposed_out n s pad dil kern q"
  shows "windows_fit (m + pad) (dil * (kern - 1) + 1) s n"
proof -
  note r = assms(1) [unfolded transpose_in_range_def]
  have nn: "0 \<le> (n - 1) * s" "0 \<le> dil * (kern - 1)" using r assms(2,3) by simp_all
  have "m = (n - 1) * s - pad + dil * (kern - 1) + q + 1"
    unfolding assms(7) transposed_out_def using nn r assms(4,5) by (intro to_i32_exact) linarith+
  then have len: "k * s + (dil * (kern - 1) + 1) \<le> m + pad \<longleftrightarrow> k * s \<le> (n - 1) * s + q" for k by auto
  have "k < n \<longleftrightarrow> k * s \<le> (n - 1) * s + q" for k
  proof
    assume "k < n"
    then have "k * s \<le> (n - 1) * s" using assms(2) by (intro mult_right_mono) auto
    then show "k * s \<le> (n - 1) * s + q" using assms(5) by simp
  next
    assume k: "k * s \<le> (n - 1) * s + q"
    show "k < n"
    proof (rule ccontr)
      assume "\<not> k < n"
      then have "n * s \<le> k * s" using assms(2) by (intro mult_right_mono) auto
      then show False using k assms(6) by (simp add: algebra_simps)
    qed
  qed
  then show ?thesis using r by (simp add: windows_fit_def len)
qed

lemma transpose_verified:
  assumes "verifyConvTranspose2d op = success" "getPairOfInteger (ct_stride op) = Inr s"
    "getQuadrupleOfInteger (ct_padding op) = Inr p" "getPairOfInteger (ct_outputPadding op) = Inr q"
    "getPairOfInteger (ct_dilation op) = Inr d"
  shows "1 \<le> fst s" "1 \<le> snd s" "nonNegative4 (spatial4d_of p)" "0 \<le> fst q" "0 \<le> snd q" "1 \<le> fst d" "1 \<le> snd d"
    "\<exists>b. verify_transpose_output op b (transpose_sizes op s p q d) = success"
  using assms(1) unfolding verifyConvTranspose2d_def Let_def assms(2-5) sum.case by (auto split: if_splits)

text \<open>a verified transposed convolution on unflattened tensors undoes the sizes of a convolution: when
  the output padding is below the stride (and the sizes are in range), the forward convolution with the
  same kernel, stride, dilation and padding takes the result's height and width back to exactly the
  input's.\<close>

theorem conv_transpose_roundtrip:
  assumes "verifyConvTranspose2d op = success" "ct_flat op = None" "getPairOfInteger (ct_stride op) = Inr s"
    "getQuadrupleOfInteger (ct_padding op) = Inr (t, l, b, r)" "getPairOfInteger (ct_outputPadding op) = Inr q"
    "getPairOfInteger (ct_dilation op) = Inr d" "fst q < fst s" "snd q < snd s"
    "transpose_in_range (ct_input op ! ct_heightDim op) (fst s) (t + b) (fst d) (ct_weight op ! 2) (fst q) (ct_result op ! ct_heightDim op)"
    "transpose_in_range (ct_input op ! ct_widthDim op) (snd s) (l + r) (snd d) (ct_weight op ! 3) (snd q) (ct_result op ! ct_widthDim op)"
  shows "windows_fit (ct_result op ! ct_heightDim op + (t + b)) (fst d * (ct_weight op ! 2 - 1) + 1) (fst s) (ct_input op ! ct_heightDim op) \<and>
    windows_fit (ct_result op ! ct_widthDim op + (l + r)) (snd d * (ct_weight op ! 3 - 1) + 1) (snd s) (ct_input op ! ct_widthDim op)"
proof -
  note ver = transpose_verified [OF assms(1,3-6)]
  obtain n where out: "verify_transpose_output op n (transpose_sizes op s (t, l, b, r) q d) = success" using ver(8) by blast
  have pads: "0 \<le> t + b" "0 \<le> l + r" using ver(3) by (auto simp: nonNegative4_def spatial4d_of_def)
  have r1: "to_i32 (ct_input op ! ct_heightDim op) = ct_input op ! ct_heightDim op" "to_i32 (t + b) = t + b"
    "to_i32 (ct_weight op ! 2) = ct_weight op ! 2" "to_i32 (ct_result op ! ct_heightDim op) = ct_result op ! ct_heightDim op"
    using assms(9) pads by (simp_all add: transpose_in_range_def)
  have r2: "to_i32 (ct_input op ! ct_widthDim op) = ct_input op ! ct_widthDim op" "to_i32 (l + r) = l + r"
    "to_i32 (ct_weight op ! 3) = ct_weight op ! 3" "to_i32 (ct_result op ! ct_widthDim op) = ct_result op ! ct_widthDim op"
    using assms(10) pads by (simp_all add: transpose_in_range_def)
  have "ct_result op ! ct_heightDim op = transposed_out (ct_input op ! ct_heightDim op) (fst s) (t + b) (fst d) (ct_weight op ! 2) (fst q)"
    "ct_result op ! ct_widthDim op = transposed_out (ct_input op ! ct_widthDim op) (snd s) (l + r) (snd d) (ct_weight op ! 3) (snd q)"
    using out assms(2) by (simp_all add: verify_transpose_output_def transpose_sizes_def Let_def r1 r2 split: if_splits)
  then show ?thesis
    using transposed_dim [OF assms(9) _ _ pads(1) ver(4) assms(7)] transposed_dim [OF assms(10) _ _ pads(2) ver(5) assms(8)] ver(1,2,6,7)
    by simp
qed

definition ex_transpose :: transpose_op where
  "ex_transpose = \<lparr>ct_input = [1, 4, 5, 6], ct_weight = [6, 2, 3, 3], ct_bias = None, ct_result = [1, 8, 7, 4], ct_flat = None,
     ct_heightDim = 1, ct_widthDim = 2, ct_channelDim = 3, ct_stride = DenseArrayAttr [2, 1], ct_padding = DenseArrayAttr [1, 0],
     ct_outputPadding = DenseArrayAttr [1, 0], ct_dilation = IntegerAttr 1, ct_groups = 2\<rparr>"

lemma conv_transpose_roundtrip_witness:
  "windows_fit (8 + 2) 3 2 4 \<and> windows_fit 7 3 1 5 \<and> verifyConvTranspose2d ex_transpose = success"
proof -
  have v: "verifyConvTranspose2d ex_transpose = success" by code_simp
  have a: "getPairOfInteger (ct_stride ex_transpose) = Inr (2, 1)"
    "getQuadrupleOfInteger (ct_padding ex_transpose) = Inr (1, 0, 1, 0)"
    "getPairOfInteger (ct_outputPadding ex_transpose) = Inr (1, 0)"
    "getPairOfInteger (ct_dilation ex_transpose) = Inr (1, 1)" "ct_flat ex_transpose = None" by (simp_all add: ex_transpose_def)
  have d: "ct_input ex_transpose ! ct_heightDim ex_transpose = 4" "ct_input ex_transpose ! ct_widthDim ex_transpose = 5"
    "ct_result ex_transpose ! ct_heightDim ex_transpose = 8" "ct_result ex_transpose ! ct_widthDim ex_transpose = 7"
    "ct_weight ex_transpose ! 2 = 3" "ct_weight ex_transpose ! 3 = 3" by (simp_all add: ex_transpose_def)
  show ?thesis
    using conv_transpose_roundtrip [OF v a(5,1-4), unfolded d] v by (simp add: transpose_in_range_def)
qed

end
