(* ===== verification/SchedModel.thy ===== *)
theory SchedModel
  imports Prelude
begin

text \<open>
  The D2M operation scheduler, \<open>lib/Dialect/D2M/Transforms/OpScheduler.cpp\<close>: the operation tree
  of the innermost loop, the Sethi-Ullman weights and the reordering of the loop body. An operation is a
  number, its attributes are in a graph, a body is the list of its operations in order. A null tree
  pointer is \<open>Null\<close>; the \<open>parent\<close> pointers and the block argument nodes, which the
  code never reads or builds, are left out. A weight never exceeds the number of nodes of its tree
  (lemma \<open>weight_bound\<close>), so it is a \<open>nat\<close>.
\<close>

section \<open>Operations\<close>

datatype ssa = BlockArg | Result nat

record operation =
  is_load :: bool
  is_store :: bool
  op_block :: nat
  operands :: "ssa list"

type_synonym graph = "nat \<Rightarrow> operation"

datatype op_tree =
    Null
  | OpTreeNode (node_op: nat) (node_weight: nat) (left: op_tree) (middle: op_tree) (right: op_tree)

text \<open>The constructor \<open>OpTreeNode(op)\<close>.\<close>

definition new_node :: "nat \<Rightarrow> op_tree" where
  "new_node x = OpTreeNode x 0 Null Null Null"

section \<open>Building the tree\<close>

text \<open>With more than three children none is attached.\<close>

fun assign_children :: "nat \<Rightarrow> op_tree list \<Rightarrow> op_tree" where
  "assign_children x [a] = OpTreeNode x 0 a Null Null"
| "assign_children x [a, b] = OpTreeNode x 0 a Null b"
| "assign_children x [a, b, c] = OpTreeNode x 0 a b c"
| "assign_children x cs = new_node x"

text \<open>The recursion follows the operands; the fuel bounds its depth (theorem
  \<open>op_tree_built\<close>: the length of the block is enough).\<close>

fun buildOpTreeRecursive :: "nat \<Rightarrow> graph \<Rightarrow> nat \<Rightarrow> nat \<Rightarrow> (op_tree \<times> op_tree list) option"
and build_children :: "nat \<Rightarrow> graph \<Rightarrow> nat \<Rightarrow> ssa list \<Rightarrow> (op_tree list \<times> op_tree list) option" where
  "buildOpTreeRecursive 0 g affineBlock x = None"
| "buildOpTreeRecursive (Suc n) g affineBlock x =
     (case build_children n g affineBlock (operands (g x)) of
        None \<Rightarrow> None
      | Some (children, leafNodes) \<Rightarrow> Some (assign_children x children, leafNodes))"
| "build_children n g affineBlock [] = Some ([], [])"
| "build_children n g affineBlock (v # vs) =
     (case (case v of
              BlockArg \<Rightarrow> Some ([], [])
            | Result d \<Rightarrow>
                if is_load (g d) then Some ([new_node d], [new_node d])
                else if op_block (g d) = affineBlock
                then map_option (\<lambda>(t, leaves). ([t], leaves)) (buildOpTreeRecursive n g affineBlock d)
                else Some ([], [])) of
        None \<Rightarrow> None
      | Some (cs, ls) \<Rightarrow> map_option (\<lambda>(cs', ls'). (cs @ cs', ls @ ls')) (build_children n g affineBlock vs))"

section \<open>Weights\<close>

text \<open>The three weights in descending order.\<close>

definition sort3 :: "nat \<Rightarrow> nat \<Rightarrow> nat \<Rightarrow> nat list" where
  "sort3 a b c = rev (sort [a, b, c])"

fun markNodeWeights :: "op_tree \<Rightarrow> op_tree" where
  "markNodeWeights Null = Null"
| "markNodeWeights (OpTreeNode x w l m r) =
     (let l' = markNodeWeights l; m' = markNodeWeights m; r' = markNodeWeights r
      in OpTreeNode x
        (if l = Null \<and> m = Null \<and> r = Null then 1
         else if m = Null \<and> r = Null then node_weight l'
         else if m = Null then
           (if node_weight l' = node_weight r' then node_weight l' + 1 else max (node_weight l') (node_weight r'))
         else let ws = sort3 (node_weight l') (node_weight m') (node_weight r')
              in max (ws ! 0) (1 + max (ws ! 1) (1 + ws ! 2)))
        l' m' r')"

section \<open>Reordering\<close>

text \<open>The body with the insertion point between \<open>placed\<close> and \<open>pending\<close>.
  \<open>llvm::sort\<close> is a parameter: from the weights of the children it gives the order in which
  they are visited, as indices. It is not stable.\<close>

record sched_state =
  placed :: "nat list"
  pending :: "nat list"
  movedOps :: "nat set"

definition legal_order :: "(nat list \<Rightarrow> nat list) \<Rightarrow> bool" where
  "legal_order ord \<longleftrightarrow>
     (\<forall>ws. mset (ord ws) = mset [0..<length ws] \<and> sorted_wrt (\<lambda>i j. ws ! i \<ge> ws ! j) (ord ws))"

definition move_op :: "nat \<Rightarrow> sched_state \<Rightarrow> sched_state" where
  "move_op x s = s\<lparr>placed := filter (\<lambda>y. y \<noteq> x) (placed s) @ [x], pending := filter (\<lambda>y. y \<noteq> x) (pending s),
     movedOps := insert x (movedOps s)\<rparr>"

definition child_moved :: "op_tree \<Rightarrow> nat set \<Rightarrow> bool" where
  "child_moved t moved = (case t of Null \<Rightarrow> True | OpTreeNode x w l m r \<Rightarrow> x \<in> moved)"

primrec applySeethiUllmanOrdering ::
  "(nat list \<Rightarrow> nat list) \<Rightarrow> graph \<Rightarrow> op_tree \<Rightarrow> sched_state \<Rightarrow> sched_state" where
  "applySeethiUllmanOrdering ord g Null = (\<lambda>s. s)"
| "applySeethiUllmanOrdering ord g (OpTreeNode x w l m r) =
     (let children =
        (if l = Null then [] else [(node_weight l, applySeethiUllmanOrdering ord g l)]) @
        (if m = Null then [] else [(node_weight m, applySeethiUllmanOrdering ord g m)]) @
        (if r = Null then [] else [(node_weight r, applySeethiUllmanOrdering ord g r)])
      in (\<lambda>s. let s' = fold (\<lambda>i. snd (children ! i)) (ord (map fst children)) s;
                  allChildrenMoved = child_moved l (movedOps s') \<and> child_moved m (movedOps s') \<and> child_moved r (movedOps s')
              in if is_load (g x) \<or> allChildrenMoved then move_op x s' else s'))"

text \<open>The new order of the innermost body.\<close>

definition reorderOperationsSethiUllman :: "(nat list \<Rightarrow> nat list) \<Rightarrow> graph \<Rightarrow> op_tree \<Rightarrow> nat list \<Rightarrow> nat list" where
  "reorderOperationsSethiUllman ord g root body =
     (let s = applySeethiUllmanOrdering ord g root \<lparr>placed = [], pending = body, movedOps = {}\<rparr>
      in placed s @ pending s)"

section \<open>Loops\<close>

text \<open>A loop body as a tree: operations and nested loops, each with its block and the attributes
  \<open>d2m.linalg_root\<close> and \<open>d2m.scheduled\<close>. The operations of a block other than
  loops have no regions.\<close>

datatype item = Op nat | For (loop_block: nat) (linalg_root: bool) (scheduled: bool) (loop_body: "item list")

definition ops_of :: "item list \<Rightarrow> nat list" where
  "ops_of items = List.map_filter (\<lambda>it. case it of Op x \<Rightarrow> Some x | For b r s is \<Rightarrow> None) items"

text \<open>\<open>buildOpTree\<close> on the innermost loop: the first store of the body and the tree of its
  value, with fuel for the whole body.\<close>

definition buildOpTree :: "graph \<Rightarrow> nat \<Rightarrow> nat list \<Rightarrow> op_tree" where
  "buildOpTree g affineBlock body =
     (case find (\<lambda>x. is_store (g x)) body of
        None \<Rightarrow> Null
      | Some finalStore \<Rightarrow>
          (case operands (g finalStore) of
             Result rootOp # _ \<Rightarrow>
               (case buildOpTreeRecursive (length body) g affineBlock rootOp of None \<Rightarrow> Null | Some (t, leaves) \<Rightarrow> t)
           | _ \<Rightarrow> Null))"

text \<open>The innermost loop is the first loop of a post-order walk: the first nested loop, followed
  down. Its body is rebuilt; the flag says whether there was a tree.\<close>

definition schedule_body :: "(nat list \<Rightarrow> nat list) \<Rightarrow> graph \<Rightarrow> nat \<Rightarrow> item list \<Rightarrow> item list \<times> bool" where
  "schedule_body ord g affineBlock items =
     (let body = ops_of items; opTreeRoot = markNodeWeights (buildOpTree g affineBlock body)
      in if opTreeRoot = Null then (items, False)
         else (map Op (reorderOperationsSethiUllman ord g opTreeRoot body), True))"

definition has_loop :: "item list \<Rightarrow> bool" where
  "has_loop items = list_ex (\<lambda>it. case it of Op x \<Rightarrow> False | For b r s is \<Rightarrow> True) items"

fun schedule_loop :: "(nat list \<Rightarrow> nat list) \<Rightarrow> graph \<Rightarrow> item \<Rightarrow> item \<times> bool"
and schedule_first :: "(nat list \<Rightarrow> nat list) \<Rightarrow> graph \<Rightarrow> item list \<Rightarrow> item list \<times> bool" where
  "schedule_loop ord g (Op x) = (Op x, False)"
| "schedule_loop ord g (For b r s items) =
     (if has_loop items
      then let (items', modified) = schedule_first ord g items in (For b r s items', modified)
      else let (items', modified) = schedule_body ord g b items in (For b r s items', modified))"
| "schedule_first ord g [] = ([], False)"
| "schedule_first ord g (Op x # items) =
     (let (items', modified) = schedule_first ord g items in (Op x # items', modified))"
| "schedule_first ord g (For b r s body # items) =
     (let (it, modified) = schedule_loop ord g (For b r s body) in (it # items, modified))"

text \<open>The pre-order walk that collects the root loops and marks them; it does not stop at a root loop
  (the result of \<open>WalkResult::skip()\<close> is dropped). A loop is named by its path.\<close>

fun collect_loop :: "nat list \<Rightarrow> item \<Rightarrow> item \<times> nat list list"
and collect_loops :: "nat list \<Rightarrow> nat \<Rightarrow> item list \<Rightarrow> item list \<times> nat list list" where
  "collect_loop path (Op x) = (Op x, [])"
| "collect_loop path (For b root sched items) =
     (let (items', rootLoops) = collect_loops path 0 items
      in if root \<and> \<not> sched then (For b root True items', path # rootLoops) else (For b root sched items', rootLoops))"
| "collect_loops path i [] = ([], [])"
| "collect_loops path i (it # items) =
     (let (it', ps) = collect_loop (path @ [i]) it; (items', ps') = collect_loops path (Suc i) items
      in (it' # items', ps @ ps'))"

fun update_at :: "(item \<Rightarrow> item \<times> bool) \<Rightarrow> nat list \<Rightarrow> item list \<Rightarrow> item list \<times> bool" where
  "update_at f [] items = (items, False)"
| "update_at f [i] items =
     (if i < length items then let (it, modified) = f (items ! i) in (items[i := it], modified) else (items, False))"
| "update_at f (i # j # path) items =
     (if i < length items then
        (case items ! i of
           Op x \<Rightarrow> (items, False)
         | For b r s body \<Rightarrow>
             let (body', modified) = update_at f (j # path) body in (items[i := For b r s body'], modified))
      else (items, False))"

definition matchAndRewrite ::
  "(nat list \<Rightarrow> nat list) \<Rightarrow> graph \<Rightarrow> bool \<Rightarrow> item list \<Rightarrow> item list \<times> bool" where
  "matchAndRewrite ord g isNontriviallyEltwiseFused items =
     (if \<not> isNontriviallyEltwiseFused then (items, False)
      else let (items', rootLoops) = collect_loops [] 0 items
           in if rootLoops = [] then (items, False)
              else fold (\<lambda>loop (its, modified). let (its', m) = update_at (schedule_loop ord g) loop its
                                               in (its', modified \<or> m)) rootLoops (items', False))"

end
