(* ===== verification/SchedTree.thy ===== *)
theory SchedTree
  imports SchedModel
begin

text \<open>
  Operation trees: their nodes, the order in which the scheduler emits them, and the proof that the
  reordering of a body without shared operations puts that order in front of the rest.
\<close>

section \<open>Nodes and children\<close>

fun tree_nodes :: "op_tree \<Rightarrow> nat list" where
  "tree_nodes Null = []"
| "tree_nodes (OpTreeNode x w l m r) = tree_nodes l @ tree_nodes m @ tree_nodes r @ [x]"

fun kids :: "op_tree \<Rightarrow> op_tree list" where
  "kids Null = []"
| "kids (OpTreeNode x w l m r) = filter (\<lambda>t. t \<noteq> Null) [l, m, r]"

text \<open>The shapes the builder makes: no child, a left child, left and right, or all three.\<close>

fun well_shaped :: "op_tree \<Rightarrow> bool" where
  "well_shaped Null \<longleftrightarrow> True"
| "well_shaped (OpTreeNode x w l m r) \<longleftrightarrow>
     well_shaped l \<and> well_shaped m \<and> well_shaped r \<and> (r \<noteq> Null \<longrightarrow> l \<noteq> Null) \<and> (m \<noteq> Null \<longrightarrow> r \<noteq> Null)"

lemma tree_nodes_kids: "tree_nodes (OpTreeNode x w l m r) = concat (map tree_nodes (kids (OpTreeNode x w l m r))) @ [x]"
  by auto

lemma kids_sub: "c \<in> set (kids (OpTreeNode x w l m r)) \<Longrightarrow> c \<in> {l, m, r} \<and> c \<noteq> Null"
  by (auto split: if_splits)

lemma kids_three: "length (kids t) \<le> 3"
  by (cases t) auto

lemma mark_null [simp]: "markNodeWeights t = Null \<longleftrightarrow> t = Null"
  by (cases t) (auto simp: Let_def)

lemma mark_nodes [simp]: "tree_nodes (markNodeWeights t) = tree_nodes t"
  by (induction t) (auto simp: Let_def)

lemma mark_shape [simp]: "well_shaped (markNodeWeights t) = well_shaped t"
  by (induction t) (auto simp: Let_def)

lemma mark_kids: "kids (markNodeWeights t) = map markNodeWeights (kids t)"
  by (cases t) (auto simp: Let_def)

lemma mark_op [simp]: "t \<noteq> Null \<Longrightarrow> node_op (markNodeWeights t) = node_op t"
  by (cases t) (auto simp: Let_def)

lemma op_in_nodes: "t \<noteq> Null \<Longrightarrow> node_op t \<in> set (tree_nodes t)"
  by (cases t) auto

section \<open>The order of emission\<close>

primrec emit :: "(nat list \<Rightarrow> nat list) \<Rightarrow> op_tree \<Rightarrow> nat list" where
  "emit ord Null = []"
| "emit ord (OpTreeNode x w l m r) =
     (let parts = (if l = Null then [] else [(node_weight l, emit ord l)]) @
                  (if m = Null then [] else [(node_weight m, emit ord m)]) @
                  (if r = Null then [] else [(node_weight r, emit ord r)])
      in concat (map (\<lambda>i. snd (parts ! i)) (ord (map fst parts))) @ [x])"

definition visits :: "(nat list \<Rightarrow> nat list) \<Rightarrow> op_tree list \<Rightarrow> op_tree list" where
  "visits ord ts = map (\<lambda>i. ts ! i) (ord (map node_weight ts))"

lemma legal_order_set:
  assumes "legal_order ord"
  shows "set (ord ws) = {..<length ws}" "distinct (ord ws)"
proof -
  have m: "mset (ord ws) = mset [0..<length ws]" using assms by (simp add: legal_order_def)
  then show "set (ord ws) = {..<length ws}" by (metis atLeast0LessThan atLeastLessThan_upt set_mset_mset)
  show "distinct (ord ws)" using m by (metis distinct_upt mset_eq_imp_distinct_iff)
qed

lemma visits_mset:
  assumes "legal_order ord"
  shows "mset (visits ord ts) = mset ts"
proof -
  have "mset (visits ord ts) = image_mset (\<lambda>i. ts ! i) (mset [0..<length ts])"
    using assms by (simp add: visits_def legal_order_def)
  also have "\<dots> = mset (map (\<lambda>i. ts ! i) [0..<length ts])" by simp
  also have "\<dots> = mset ts" by (simp only: map_nth)
  finally show ?thesis .
qed

lemma visits_sorted:
  assumes "legal_order ord"
  shows "sorted_wrt (\<lambda>a b. node_weight a \<ge> node_weight b) (visits ord ts)"
proof -
  let ?ws = "map node_weight ts"
  have "sorted_wrt (\<lambda>i j. ?ws ! i \<ge> ?ws ! j) (ord ?ws)" using assms by (simp add: legal_order_def)
  then have "sorted_wrt (\<lambda>i j. node_weight (ts ! i) \<ge> node_weight (ts ! j)) (ord ?ws)"
    by (rule sorted_wrt_mono_rel [rotated]) (simp add: legal_order_set [OF assms])
  then show ?thesis unfolding visits_def sorted_wrt_map by simp
qed

lemma parts_kids:
  "(if l = Null then [] else [(node_weight l, f l)]) @ (if m = Null then [] else [(node_weight m, f m)]) @
   (if r = Null then [] else [(node_weight r, f r)]) =
   map (\<lambda>t. (node_weight t, f t)) (kids (OpTreeNode x w l m r))"
  by simp

lemma emit_kids:
  assumes "legal_order ord"
  shows "emit ord (OpTreeNode x w l m r) = concat (map (emit ord) (visits ord (kids (OpTreeNode x w l m r)))) @ [x]"
proof -
  let ?ks = "kids (OpTreeNode x w l m r)"
  have w: "map (fst \<circ> (\<lambda>t. (node_weight t, emit ord t))) ?ks = map node_weight ?ks" by (simp del: kids.simps)
  have "map (\<lambda>i. snd (map (\<lambda>t. (node_weight t, emit ord t)) ?ks ! i)) (ord (map node_weight ?ks)) =
      map (\<lambda>i. emit ord (?ks ! i)) (ord (map node_weight ?ks))"
    by (rule map_cong) (simp_all del: kids.simps add: legal_order_set [OF assms])
  note eq = arg_cong [where f = concat, OF this]
  show ?thesis
    unfolding emit.simps Let_def parts_kids [where f = "emit ord" and x = x and w = w] map_map w eq visits_def
    by (simp only: comp_def)
qed

lemma apply_kids:
  assumes "legal_order ord"
  shows "applySeethiUllmanOrdering ord g (OpTreeNode x w l m r) s =
    (let s' = fold (applySeethiUllmanOrdering ord g) (visits ord (kids (OpTreeNode x w l m r))) s
     in if is_load (g x) \<or> (child_moved l (movedOps s') \<and> child_moved m (movedOps s') \<and> child_moved r (movedOps s'))
        then move_op x s' else s')"
proof -
  let ?ks = "kids (OpTreeNode x w l m r)" and ?f = "applySeethiUllmanOrdering ord g"
  have w: "map (fst \<circ> (\<lambda>t. (node_weight t, ?f t))) ?ks = map node_weight ?ks" by (simp del: kids.simps)
  have "fold (\<lambda>i. snd (map (\<lambda>t. (node_weight t, ?f t)) ?ks ! i)) (ord (map node_weight ?ks)) s =
      fold (\<lambda>i. ?f (?ks ! i)) (ord (map node_weight ?ks)) s"
    by (rule fold_cong) (simp_all del: kids.simps add: legal_order_set [OF assms])
  also have "\<dots> = fold ?f (visits ord ?ks) s" by (simp del: kids.simps add: visits_def fold_map comp_def)
  finally show ?thesis
    unfolding applySeethiUllmanOrdering.simps Let_def parts_kids [where f = ?f and x = x and w = w] map_map w by simp
qed

lemma visits_set [simp]:
  assumes "legal_order ord"
  shows "set (visits ord ts) = set ts"
  using visits_mset [OF assms, of ts] by (metis set_mset_mset)

lemma mset_concat_map: "mset xs = mset ys \<Longrightarrow> mset (concat (map f xs)) = mset (concat (map f ys))"
proof -
  have "mset (concat (map f zs)) = sum_mset (image_mset (\<lambda>x. mset (f x)) (mset zs))" for zs by (induction zs) auto
  then show "mset xs = mset ys \<Longrightarrow> ?thesis" by simp
qed

lemma mset_concat_cong: "(\<And>c. c \<in> set cs \<Longrightarrow> mset (f c) = mset (h c)) \<Longrightarrow> mset (concat (map f cs)) = mset (concat (map h cs))"
  by (induction cs) auto

lemma emit_mset:
  assumes "legal_order ord"
  shows "mset (emit ord t) = mset (tree_nodes t)"
proof (induction t)
  case (OpTreeNode x w l m r)
  let ?ks = "kids (OpTreeNode x w l m r)"
  have "mset (concat (map (emit ord) (visits ord ?ks))) = mset (concat (map (emit ord) ?ks))"
    by (rule mset_concat_map [OF visits_mset [OF assms]])
  also have "\<dots> = mset (concat (map tree_nodes ?ks))" 
  proof (rule mset_concat_cong)
    fix c assume "c \<in> set ?ks"
    then have "c = l \<or> c = m \<or> c = r" using kids_sub [of c x w l m r] by simp
    then show "mset (emit ord c) = mset (tree_nodes c)" using OpTreeNode.IH by auto
  qed
  finally show ?case unfolding emit_kids [OF assms] tree_nodes_kids by simp
qed simp

lemma emit_set:
  assumes "legal_order ord"
  shows "set (emit ord t) = set (tree_nodes t)"
  using emit_mset [OF assms, of t] by (metis set_mset_mset)

section \<open>What the reordering does\<close>

definition emitted :: "(nat list \<Rightarrow> nat list) \<Rightarrow> op_tree list \<Rightarrow> sched_state \<Rightarrow> sched_state" where
  "emitted ord ts s = s\<lparr>placed := placed s @ concat (map (emit ord) ts),
     pending := filter (\<lambda>x. x \<notin> set (concat (map (emit ord) ts))) (pending s),
     movedOps := movedOps s \<union> set (concat (map (emit ord) ts))\<rparr>"

lemma fold_emitted:
  assumes "\<And>t s. t \<in> set ts \<Longrightarrow> set (tree_nodes t) \<inter> set (placed s) = {} \<Longrightarrow> f t s = emitted ord [t] s"
    "legal_order ord" "distinct (concat (map tree_nodes ts))" "set (concat (map tree_nodes ts)) \<inter> set (placed s) = {}"
  shows "fold f ts s = emitted ord ts s"
  using assms(1,3,4)
proof (induction ts arbitrary: s)
  case Nil
  then show ?case by (simp add: emitted_def)
next
  case (Cons t ts)
  have "f t s = emitted ord [t] s" using Cons.prems by auto
  moreover have "fold f ts (emitted ord [t] s) = emitted ord ts (emitted ord [t] s)"
    using Cons.prems by (intro Cons.IH) (auto simp: emitted_def emit_set [OF assms(2)])
  moreover have "emitted ord ts (emitted ord [t] s) = emitted ord (t # ts) s"
    by (simp add: emitted_def Un_assoc)
  ultimately show ?case by simp
qed

lemma apply_emitted:
  assumes "legal_order ord" "distinct (tree_nodes t)" "set (tree_nodes t) \<inter> set (placed s) = {}"
  shows "applySeethiUllmanOrdering ord g t s = emitted ord [t] s"
  using assms(2,3)
proof (induction t arbitrary: s)
  case Null
  then show ?case by (simp add: emitted_def)
next
  case (OpTreeNode x w l m r)
  let ?ks = "kids (OpTreeNode x w l m r)" let ?vs = "visits ord ?ks" and ?f = "applySeethiUllmanOrdering ord g"
  have perm: "mset (concat (map tree_nodes ?vs)) = mset (concat (map tree_nodes ?ks))"
    by (rule mset_concat_map [OF visits_mset [OF assms(1)]])
  have dk: "distinct (concat (map tree_nodes ?ks) @ [x])" using OpTreeNode.prems(1) unfolding tree_nodes_kids .
  then have dv: "distinct (concat (map tree_nodes ?vs))" using perm by (metis distinct_append mset_eq_imp_distinct_iff)
  have sv: "set (concat (map tree_nodes ?vs)) = set (concat (map tree_nodes ?ks))" using perm by (metis set_mset_mset)
  have xs: "x \<notin> set (concat (map tree_nodes ?vs))" using dk unfolding sv by auto
  have step: "?f t s = emitted ord [t] s" if "t \<in> set ?vs" "set (tree_nodes t) \<inter> set (placed s) = {}" for t s
  proof -
    have "t \<in> {l, m, r}" using that(1) kids_sub [of t x w l m r] visits_set [OF assms(1)] by auto
    moreover have "distinct (tree_nodes t)" using OpTreeNode.prems(1) calculation by auto
    ultimately show ?thesis using OpTreeNode.IH that(2) by blast
  qed
  let ?s = "emitted ord ?vs s"
  have "set (concat (map tree_nodes ?vs)) \<inter> set (placed s) = {}"
    unfolding sv using OpTreeNode.prems(2) unfolding tree_nodes_kids by auto
  then have fld: "fold ?f ?vs s = ?s" by (intro fold_emitted step assms(1) dv)
  have moved: "set (concat (map (emit ord) ?vs)) = set (concat (map tree_nodes ?vs))"
    by (auto simp: emit_set [OF assms(1)])
  have kid: "child_moved t (movedOps ?s)" if "t \<in> {l, m, r}" for t
  proof (cases t)
    case (OpTreeNode y u a b c)
    then have "t \<in> set ?ks" using that by auto
    moreover have "y \<in> set (tree_nodes t)" using OpTreeNode by simp
    ultimately have "y \<in> set (concat (map tree_nodes ?vs))" unfolding sv by auto
    then show ?thesis using OpTreeNode moved by (simp add: child_moved_def emitted_def del: kids.simps)
  qed (simp add: child_moved_def)
  have "x \<notin> set (placed s) \<union> set (concat (map (emit ord) ?vs))"
    unfolding moved using xs OpTreeNode.prems(2) by (simp del: kids.simps set_concat)
  then have "x \<notin> set (placed ?s)" unfolding emitted_def by (simp del: kids.simps set_concat)
  then have xp: "filter (\<lambda>y. y \<noteq> x) (placed ?s) = placed ?s" by (intro filter_True) metis
  have "?f (OpTreeNode x w l m r) s = move_op x ?s"
    unfolding apply_kids [OF assms(1)] fld Let_def using kid by simp
  also have "\<dots> = emitted ord [OpTreeNode x w l m r] s"
    unfolding move_op_def xp unfolding emitted_def by (simp add: emit_kids [OF assms(1)] conj_commute del: emit.simps kids.simps)
  finally show ?case .
qed

lemma reorder_emit:
  assumes "legal_order ord" "distinct (tree_nodes t)"
  shows "reorderOperationsSethiUllman ord g t body = emit ord t @ filter (\<lambda>x. x \<notin> set (tree_nodes t)) body"
  using apply_emitted [OF assms, of "\<lparr>placed = [], pending = body, movedOps = {}\<rparr>" g]
  by (simp add: reorderOperationsSethiUllman_def emitted_def emit_set [OF assms(1)])

end
