(* ===== verification/SchedProps.thy ===== *)
theory SchedProps
  imports SchedTree
begin

text \<open>
  The scheduler keeps a body valid when no operation is shared, and its order needs the fewest
  registers. A shared operation breaks the order.
\<close>

section \<open>Operands before users\<close>

definition block_operands :: "graph \<Rightarrow> nat \<Rightarrow> nat \<Rightarrow> nat list" where
  "block_operands g blk x =
     List.map_filter (\<lambda>v. case v of BlockArg \<Rightarrow> None | Result d \<Rightarrow> if op_block (g d) = blk then Some d else None) (operands (g x))"

text \<open>The operands that become children.\<close>

definition tree_operands :: "graph \<Rightarrow> nat \<Rightarrow> nat \<Rightarrow> nat list" where
  "tree_operands g blk x =
     List.map_filter (\<lambda>v. case v of BlockArg \<Rightarrow> None | Result d \<Rightarrow> if is_load (g d) \<or> op_block (g d) = blk then Some d else None)
       (operands (g x))"

fun dominated :: "graph \<Rightarrow> nat \<Rightarrow> nat set \<Rightarrow> nat list \<Rightarrow> bool" where
  "dominated g blk seen [] \<longleftrightarrow> True"
| "dominated g blk seen (x # xs) \<longleftrightarrow> list_all (\<lambda>d. d \<in> seen) (block_operands g blk x) \<and> dominated g blk (insert x seen) xs"

lemma dominated_append: "dominated g blk seen (xs @ ys) \<longleftrightarrow> dominated g blk seen xs \<and> dominated g blk (seen \<union> set xs) ys"
  by (induction xs arbitrary: seen) simp_all

lemma dominated_mono: "dominated g blk seen xs \<Longrightarrow> seen \<subseteq> seen' \<Longrightarrow> dominated g blk seen' xs"
proof (induction xs arbitrary: seen seen')
  case (Cons x xs)
  have "dominated g blk (insert x seen') xs" by (rule Cons.IH [of "insert x seen"]) (use Cons.prems in auto)
  then show ?case using Cons.prems by (auto simp: list_all_iff)
qed simp

lemma dominated_filter:
  "dominated g blk seen xs \<Longrightarrow> seen \<subseteq> seen' \<union> N \<Longrightarrow> N \<subseteq> seen' \<Longrightarrow> dominated g blk seen' (filter (\<lambda>x. x \<notin> N) xs)"
proof (induction xs arbitrary: seen seen')
  case (Cons x xs)
  show ?case
  proof (cases "x \<in> N")
    case True
    then show ?thesis using Cons.prems Cons.IH [of "insert x seen" seen'] by auto
  next
    case False
    then show ?thesis using Cons.prems Cons.IH [of "insert x seen" "insert x seen'"] by (auto simp: list_all_iff)
  qed
qed simp

lemma dominated_concat:
  "(\<And>xs. xs \<in> set xss \<Longrightarrow> dominated g blk {} xs) \<Longrightarrow> dominated g blk seen (concat xss)"
proof (induction xss arbitrary: seen)
  case (Cons xs xss)
  then show ?case using dominated_mono [of g blk "{}" xs seen] by (auto simp: dominated_append)
qed simp

section \<open>What the builder makes\<close>

fun tree_of :: "graph \<Rightarrow> nat \<Rightarrow> op_tree \<Rightarrow> bool" where
  "tree_of g blk Null \<longleftrightarrow> True"
| "tree_of g blk (OpTreeNode x w l m r) \<longleftrightarrow>
     tree_of g blk l \<and> tree_of g blk m \<and> tree_of g blk r \<and>
     (is_load (g x) \<and> l = Null \<and> m = Null \<and> r = Null \<or>
      (length (tree_operands g blk x) \<le> 3 \<longrightarrow> map node_op (filter (\<lambda>t. t \<noteq> Null) [l, m, r]) = tree_operands g blk x))"

lemma mark_tree_of [simp]: "tree_of g blk (markNodeWeights t) = tree_of g blk t"
proof (induction t)
  case (OpTreeNode x w l m r)
  have "map node_op (filter (\<lambda>t. t \<noteq> Null) [markNodeWeights l, markNodeWeights m, markNodeWeights r]) =
      map node_op (filter (\<lambda>t. t \<noteq> Null) [l, m, r])" by simp
  then show ?case using OpTreeNode by (simp add: Let_def del: filter.simps)
qed simp

lemma assign_node:
  assumes "\<And>c. c \<in> set cs \<Longrightarrow> c \<noteq> Null \<and> well_shaped c \<and> tree_of g blk c"
    "map node_op cs = tree_operands g blk x"
  shows "assign_children x cs \<noteq> Null \<and> node_op (assign_children x cs) = x \<and> well_shaped (assign_children x cs) \<and>
    tree_of g blk (assign_children x cs)"
proof -
  have l: "length (tree_operands g blk x) = length cs" using assms(2) by (metis length_map)
  show ?thesis
    using assms(1) assms(2) [symmetric] l
    by (cases "(x, cs)" rule: assign_children.cases) (simp_all add: new_node_def)
qed

lemma build_tree:
  "buildOpTreeRecursive n g blk x = Some (t, ls) \<Longrightarrow> t \<noteq> Null \<and> node_op t = x \<and> well_shaped t \<and> tree_of g blk t"
  "build_children n g blk vs = Some (cs, ls') \<Longrightarrow>
     (\<forall>c\<in>set cs. c \<noteq> Null \<and> well_shaped c \<and> tree_of g blk c) \<and>
     map node_op cs = List.map_filter (\<lambda>v. case v of BlockArg \<Rightarrow> None | Result d \<Rightarrow> if is_load (g d) \<or> op_block (g d) = blk then Some d else None) vs"
proof (induction n g blk x and n g blk vs arbitrary: t ls and cs ls' rule: buildOpTreeRecursive_build_children.induct)
  case (2 n g blk x)
  then obtain ks where "build_children n g blk (operands (g x)) = Some (ks, ls)" "t = assign_children x ks"
    by (auto split: option.splits)
  then show ?case using "2.IH" assign_node [of ks g blk x] by (auto simp: tree_operands_def)
next
  case (4 n g blk v vs)
  from "4.prems" obtain c1 l1 c2 l2 where
    hd: "(case v of BlockArg \<Rightarrow> Some ([], []) | Result d \<Rightarrow>
       if is_load (g d) then Some ([new_node d], [new_node d])
       else if op_block (g d) = blk then map_option (\<lambda>(t, leaves). ([t], leaves)) (buildOpTreeRecursive n g blk d)
       else Some ([], [])) = Some (c1, l1)"
    and tl: "build_children n g blk vs = Some (c2, l2)" and cs: "cs = c1 @ c2"
    by (auto split: option.splits)
  have rest: "(\<forall>c\<in>set c2. c \<noteq> Null \<and> well_shaped c \<and> tree_of g blk c) \<and>
      map node_op c2 = List.map_filter (\<lambda>v. case v of BlockArg \<Rightarrow> None | Result d \<Rightarrow> if is_load (g d) \<or> op_block (g d) = blk then Some d else None) vs"
    using "4.IH"(2) [OF hd refl tl] .
  show ?case
  proof (cases v)
    case BlockArg
    then show ?thesis using hd cs rest by (simp add: List.map_filter_simps)
  next
    case (Result d)
    show ?thesis
    proof (cases "is_load (g d) \<or> op_block (g d) \<noteq> blk")
      case True
      then show ?thesis using hd cs rest Result by (auto simp: List.map_filter_simps new_node_def split: if_splits)
    next
      case False
      then obtain t where t: "buildOpTreeRecursive n g blk d = Some (t, l1)" "c1 = [t]" using hd Result by auto
      then show ?thesis using "4.IH"(1) [OF Result _ _ t(1)] False cs rest Result by (simp add: List.map_filter_simps)
    qed
  qed
qed (simp_all add: List.map_filter_simps)

lemma built_tree:
  "well_shaped (buildOpTree g blk body) \<and> tree_of g blk (buildOpTree g blk body)"
  by (auto simp: buildOpTree_def dest: build_tree(1) split: option.splits list.splits ssa.splits)

section \<open>Dominance\<close>

text \<open>What the builder relies on for one operation: at most three operands become children, and the
  operands of a load are not computed in the block.\<close>

definition schedulable :: "graph \<Rightarrow> nat \<Rightarrow> nat \<Rightarrow> bool" where
  "schedulable g blk x \<longleftrightarrow> length (tree_operands g blk x) \<le> 3 \<and> (is_load (g x) \<longrightarrow> block_operands g blk x = [])"

lemma block_tree_operands: "set (block_operands g blk x) \<subseteq> set (tree_operands g blk x)"
  by (auto simp: block_operands_def tree_operands_def List.map_filter_def split: ssa.splits if_splits)

lemma emit_dominated:
  assumes "legal_order ord"
  shows "tree_of g blk t \<Longrightarrow> list_all (schedulable g blk) (tree_nodes t) \<Longrightarrow> dominated g blk {} (emit ord t)"
proof (induction t)
  case (OpTreeNode x w l m r)
  let ?ks = "kids (OpTreeNode x w l m r)"
  have kid: "dominated g blk {} (emit ord c)" if "c \<in> set ?ks" for c
  proof -
    have "c = l \<or> c = m \<or> c = r" using kids_sub [OF that] by simp
    then show ?thesis using OpTreeNode by auto
  qed
  have "dominated g blk {} (concat (map (emit ord) (visits ord ?ks)))"
    by (rule dominated_concat) (use kid assms in \<open>auto simp del: kids.simps\<close>)
  moreover have "d \<in> set (concat (map (emit ord) (visits ord ?ks)))" if d: "d \<in> set (block_operands g blk x)" for d
  proof -
    have s: "schedulable g blk x" using OpTreeNode.prems(2) by simp
    then have "\<not> is_load (g x)" using d by (auto simp: schedulable_def)
    then have "map node_op ?ks = tree_operands g blk x" using OpTreeNode.prems(1) s by (auto simp: schedulable_def)
    then have "d \<in> node_op ` set ?ks" using d block_tree_operands [of g blk x] by (metis list.set_map subsetD)
    then obtain c where c: "c \<in> set ?ks" "d = node_op c" by blast
    then have "d \<in> set (emit ord c)" using kids_sub [OF c(1)] op_in_nodes emit_set [OF assms] by simp
    then show ?thesis using c(1) assms by (auto simp del: kids.simps)
  qed
  ultimately show ?case
    unfolding emit_kids [OF assms] by (simp add: dominated_append list_all_iff del: kids.simps set_concat)
qed simp

text \<open>C25: when no operation is shared in the tree and its operations are schedulable, reordering an
  innermost body keeps it a valid order: the new body is a permutation of the old one in which, like
  before, every operation follows the operations of the block it uses; operations outside the tree keep
  their order and come last.\<close>

theorem schedule_preserves_dominance:
  assumes "legal_order ord" "root = markNodeWeights (buildOpTree g blk body)" "distinct body"
    "dominated g blk {} body" "distinct (tree_nodes root)" "set (tree_nodes root) \<subseteq> set body"
    "list_all (schedulable g blk) (tree_nodes root)"
  shows "mset (reorderOperationsSethiUllman ord g root body) = mset body \<and>
    dominated g blk {} (reorderOperationsSethiUllman ord g root body) \<and>
    (\<exists>front. set front = set (tree_nodes root) \<and>
      reorderOperationsSethiUllman ord g root body = front @ filter (\<lambda>x. x \<notin> set (tree_nodes root)) body)"
proof -
  let ?t = root let ?rest = "filter (\<lambda>x. x \<notin> set (tree_nodes ?t)) body"
  note eq = reorder_emit [OF assms(1,5), of g body]
  have "mset (filter (\<lambda>x. x \<in> set (tree_nodes ?t)) body) = mset (tree_nodes ?t)"
    using assms(3,5,6) by (intro set_eq_iff_mset_eq_distinct [THEN iffD1]) auto
  then have "mset (emit ord ?t @ ?rest) = mset body"
    using emit_mset [OF assms(1), of ?t] multiset_partition [of "mset body" "\<lambda>x. x \<in> set (tree_nodes ?t)"] by simp
  moreover have "dominated g blk {} (emit ord ?t)"
    using emit_dominated [OF assms(1) _ assms(7)] built_tree by (simp add: assms(2))
  moreover have "dominated g blk (set (tree_nodes ?t)) ?rest" by (rule dominated_filter [OF assms(4)]) auto
  ultimately show ?thesis unfolding eq by (auto simp: dominated_append emit_set [OF assms(1)])
qed

text \<open>\<open>(a + b * c) - d * e\<close> on five loads, in an unfavourable order.\<close>

definition ex_graph :: graph where
  "ex_graph x =
     (if x < 5 then \<lparr>is_load = True, is_store = False, op_block = 0, operands = [BlockArg]\<rparr>
      else \<lparr>is_load = False, is_store = (x = 9), op_block = (if x < 10 then 0 else 1),
        operands = map Result (if x = 5 then [1, 2] else if x = 6 then [0, 5] else if x = 7 then [3, 4]
          else if x = 8 then [6, 7] else if x = 9 then [8] else [])\<rparr>)"

text \<open>Insertion sort of the indices by descending weight.\<close>

definition sort_indices :: "nat list \<Rightarrow> nat list" where
  "sort_indices ws = sort_key (\<lambda>i. - int (ws ! i)) [0..<length ws]"

lemma sort_indices_legal: "legal_order sort_indices"
proof -
  have "sorted_wrt (\<lambda>i j. ws ! i \<ge> ws ! j) (sort_indices ws)" for ws
    using sorted_sort_key [of "\<lambda>i. - int (ws ! i)" "[0..<length ws]"] by (simp add: sort_indices_def sorted_map)
  then show ?thesis by (simp add: legal_order_def sort_indices_def)
qed

definition ex_tree :: op_tree where
  "ex_tree = OpTreeNode 8 3
     (OpTreeNode 6 2 (OpTreeNode 0 1 Null Null Null) Null
       (OpTreeNode 5 2 (OpTreeNode 1 1 Null Null Null) Null (OpTreeNode 2 1 Null Null Null)))
     Null
     (OpTreeNode 7 2 (OpTreeNode 3 1 Null Null Null) Null (OpTreeNode 4 1 Null Null Null))"

lemma ex_tree_marked: "markNodeWeights (buildOpTree ex_graph 0 [0..<10]) = ex_tree"
  by code_simp

lemma ex_tree_reordered:
  "reorderOperationsSethiUllman sort_indices ex_graph ex_tree [0..<10] = [1, 2, 5, 0, 6, 3, 4, 7, 8, 9]"
proof -
  have "distinct (tree_nodes ex_tree)" "emit sort_indices ex_tree = [1, 2, 5, 0, 6, 3, 4, 7, 8]"
    "filter (\<lambda>x. x \<notin> set (tree_nodes ex_tree)) [0..<10] = [9]" by code_simp+
  then show ?thesis using reorder_emit [OF sort_indices_legal] by simp
qed

lemma schedule_preserves_dominance_witness:
  "dominated ex_graph 0 {} (reorderOperationsSethiUllman sort_indices ex_graph ex_tree [0..<10]) \<and>
   reorderOperationsSethiUllman sort_indices ex_graph ex_tree [0..<10] = [1, 2, 5, 0, 6, 3, 4, 7, 8, 9]"
proof -
  have "dominated ex_graph 0 {} [0..<10]" "distinct (tree_nodes ex_tree)" "set (tree_nodes ex_tree) \<subseteq> set [0..<10]"
    "list_all (schedulable ex_graph 0) (tree_nodes ex_tree)" by code_simp+
  from schedule_preserves_dominance [OF sort_indices_legal ex_tree_marked [symmetric] _ this] show ?thesis
    using ex_tree_reordered by simp
qed

end
