(* ===== verification/SchedRegs.thy ===== *)
theory SchedRegs
  imports SchedProps
begin

text \<open>
  Registers. An evaluation order of a tree executes each operation after its operands; a value is live
  from its operation until its user is executed. The peak of an order is the largest number of live
  values after a step, a result taking the place of an operand.
\<close>

section \<open>Live values\<close>

text \<open>The values of a tree that are live when the operations in \<open>S\<close> have been executed.\<close>

fun live :: "op_tree \<Rightarrow> nat set \<Rightarrow> nat" where
  "live Null S = 0"
| "live (OpTreeNode x w l m r) S = (if x \<in> S then 1 else live l S + live m S + live r S)"

fun operands_done :: "op_tree \<Rightarrow> nat set \<Rightarrow> bool" where
  "operands_done Null S \<longleftrightarrow> True"
| "operands_done (OpTreeNode x w l m r) S \<longleftrightarrow>
     operands_done l S \<and> operands_done m S \<and> operands_done r S \<and>
     (x \<in> S \<longrightarrow> list_all (\<lambda>c. node_op c \<in> S) (filter (\<lambda>t. t \<noteq> Null) [l, m, r]))"

definition evaluation_order :: "op_tree \<Rightarrow> nat list \<Rightarrow> bool" where
  "evaluation_order t xs \<longleftrightarrow> distinct xs \<and> set xs = set (tree_nodes t) \<and>
     list_all (\<lambda>k. operands_done t (set (take k xs))) [0..<Suc (length xs)]"

definition peak :: "op_tree \<Rightarrow> nat list \<Rightarrow> nat" where
  "peak t xs = Max (set (map (\<lambda>k. live t (set (take k xs))) [0..<Suc (length xs)]))"

lemma peak_image: "peak t xs = Max ((\<lambda>k. live t (set (take k xs))) ` {..length xs})"
  unfolding peak_def set_map set_upt atLeast0LessThan lessThan_Suc_atMost ..

lemma peak_ge: "k \<le> length xs \<Longrightarrow> live t (set (take k xs)) \<le> peak t xs"
  unfolding peak_image by (rule Max_ge) auto

lemma peak_le: "(\<And>k. k \<le> length xs \<Longrightarrow> live t (set (take k xs)) \<le> b) \<Longrightarrow> peak t xs \<le> b"
  unfolding peak_image by (rule Max.boundedI) auto

lemma mark_live [simp]: "live (markNodeWeights t) S = live t S"
  by (induction t) (auto simp: Let_def)

lemma mark_done [simp]: "operands_done (markNodeWeights t) S = operands_done t S"
proof (induction t)
  case (OpTreeNode x w l m r)
  have "list_all (\<lambda>c. node_op c \<in> S) (filter (\<lambda>t. t \<noteq> Null) [markNodeWeights l, markNodeWeights m, markNodeWeights r]) =
      list_all (\<lambda>c. node_op c \<in> S) (filter (\<lambda>t. t \<noteq> Null) [l, m, r])" by simp
  then show ?case using OpTreeNode by (simp add: Let_def del: filter.simps)
qed simp

lemma mark_order [simp]: "evaluation_order (markNodeWeights t) xs = evaluation_order t xs"
  by (simp add: evaluation_order_def)

lemma mark_peak [simp]: "peak (markNodeWeights t) xs = peak t xs"
  by (simp add: peak_def)

lemma live_pos: "0 < live t S \<longleftrightarrow> (\<exists>x\<in>set (tree_nodes t). x \<in> S)"
  by (induction t) auto

lemma live_local: "S \<inter> set (tree_nodes t) = S' \<inter> set (tree_nodes t) \<Longrightarrow> live t S = live t S'"
proof (induction t)
  case (OpTreeNode x w l m r)
  have x: "x \<in> S \<longleftrightarrow> x \<in> S'" using OpTreeNode.prems by auto
  have "live l S = live l S'" "live m S = live m S'" "live r S = live r S'"
    by (rule OpTreeNode.IH, use OpTreeNode.prems in auto)+
  then show ?case using x by simp
qed simp

lemma live_mono: "0 < live t S \<Longrightarrow> S \<subseteq> S' \<Longrightarrow> 0 < live t S'"
  by (auto simp: live_pos)

section \<open>No order needs fewer registers\<close>

definition need :: "op_tree \<Rightarrow> nat" where
  "need t = node_weight (markNodeWeights t)"

lemma need_simps:
  "need (OpTreeNode x w Null Null Null) = 1"
  "l \<noteq> Null \<Longrightarrow> need (OpTreeNode x w l Null Null) = need l"
  "l \<noteq> Null \<Longrightarrow> r \<noteq> Null \<Longrightarrow> need (OpTreeNode x w l Null r) = (if need l = need r then need l + 1 else max (need l) (need r))"
  "l \<noteq> Null \<Longrightarrow> m \<noteq> Null \<Longrightarrow> r \<noteq> Null \<Longrightarrow> need (OpTreeNode x w l m r) =
    (let ws = sort3 (need l) (need m) (need r) in max (ws ! 0) (1 + max (ws ! 1) (1 + ws ! 2)))"
  by (simp_all add: need_def Let_def)

lemma shape_cases:
  assumes "well_shaped (OpTreeNode x w l m r)"
  obtains "l = Null" "m = Null" "r = Null" | "l \<noteq> Null" "m = Null" "r = Null"
  | "l \<noteq> Null" "m = Null" "r \<noteq> Null" | "l \<noteq> Null" "m \<noteq> Null" "r \<noteq> Null"
  using assms by fastforce

text \<open>The largest demand when the children are evaluated in a given order, each holding one
  register afterwards.\<close>

fun seq_need :: "nat list \<Rightarrow> nat" where
  "seq_need [] = 0"
| "seq_need (w # ws) = max w (1 + seq_need ws)"

lemma sort3_unfold:
  "sort3 a b c = (if a \<le> b then (if b \<le> c then [c, b, a] else if a \<le> c then [b, c, a] else [b, a, c])
     else (if a \<le> c then [c, a, b] else if b \<le> c then [a, c, b] else [a, b, c]))"
  by (auto simp: sort3_def)

lemma need_two: "1 \<le> a \<Longrightarrow> 1 \<le> b \<Longrightarrow> (if a = b then a + 1 else max a b) \<le> max 1 (seq_need [a, b])"
  by auto

lemma need_three:
  assumes "1 \<le> a" "1 \<le> b" "1 \<le> c" "[p, q, r] \<in> {[a, b, c], [a, c, b], [b, a, c], [b, c, a], [c, a, b], [c, b, a]}"
  shows "(let ws = sort3 a b c in max (ws ! 0) (1 + max (ws ! 1) (1 + ws ! 2))) \<le> seq_need [p, q, r]"
proof -
  have e: "(let ws = sort3 a b c in max (ws ! 0) (1 + max (ws ! 1) (1 + ws ! 2))) \<le> n" if
    "a \<le> n" "b \<le> n" "c \<le> n" "1 + min a b \<le> n" "1 + min a c \<le> n" "1 + min b c \<le> n" "2 + min a (min b c) \<le> n" for n
    using that by (auto simp: sort3_unfold Let_def max_def min_def split: if_splits)
  show ?thesis
    using assms by (intro e) auto
qed

lemma need_pos:
  assumes "well_shaped t" "t \<noteq> Null"
  shows "1 \<le> need t"
  using assms
proof (induction t)
  case (OpTreeNode x w l m r)
  from OpTreeNode.prems(1) show ?case
  proof (cases rule: shape_cases)
    case 4
    then show ?thesis using need_simps(4) [of l m r x w] by (simp add: Let_def)
  qed (use OpTreeNode in \<open>auto simp: need_simps max_def\<close>)
qed simp

text \<open>Before the root of a child is executed for the first time its subtree has reached its need.\<close>

definition reaches :: "op_tree \<Rightarrow> nat list \<Rightarrow> nat \<Rightarrow> bool" where
  "reaches t xs j \<longleftrightarrow> (\<exists>k\<le>j. need t \<le> live t (set (take k xs)))"

lemma live_later:
  assumes "1 \<le> need t" "need t \<le> live t (set (take k xs))" "k \<le> k'"
  shows "1 \<le> live t (set (take k' xs))"
proof -
  have "0 < live t (set (take k xs))" using assms(1,2) by simp
  then have "0 < live t (set (take k' xs))" by (rule live_mono) (rule set_take_subset_set_take [OF assms(3)])
  then show ?thesis by simp
qed

lemma reaches_two:
  assumes "reaches a xs j" "reaches b xs j" "1 \<le> need a" "1 \<le> need b"
  shows "\<exists>k\<le>j. (if need a = need b then need a + 1 else max (need a) (need b)) \<le> live a (set (take k xs)) + live b (set (take k xs))"
proof -
  obtain k k' where k: "k \<le> j" "need a \<le> live a (set (take k xs))" "k' \<le> j" "need b \<le> live b (set (take k' xs))"
    using assms(1,2) by (auto simp: reaches_def)
  show ?thesis
  proof (cases "k \<le> k'")
    case True
    then have "1 \<le> live a (set (take k' xs))" using live_later [OF assms(3) k(2)] by simp
    then show ?thesis using k by (cases "need a \<le> need b") (force intro: exI [of _ k'] exI [of _ k])+
  next
    case False
    then have "1 \<le> live b (set (take k xs))" using live_later [OF assms(4) k(4)] by simp
    then show ?thesis using k by (cases "need b \<le> need a") (force intro: exI [of _ k'] exI [of _ k])+
  qed
qed

lemma reaches_sorted:
  assumes "need a \<le> live a (set (take i xs))" "need b \<le> live b (set (take k xs))" "need c \<le> live c (set (take n xs))"
    "1 \<le> need a" "1 \<le> need b" "1 \<le> need c" "i \<le> k" "k \<le> n" "n \<le> j"
  shows "\<exists>h\<le>j. seq_need [need a, need b, need c] \<le> live a (set (take h xs)) + live b (set (take h xs)) + live c (set (take h xs))"
proof -
  have a: "1 \<le> live a (set (take k xs))" "1 \<le> live a (set (take n xs))"
    using live_later [OF assms(4,1)] assms(7,8) by simp_all
  have b: "1 \<le> live b (set (take n xs))" using live_later [OF assms(5,2,8)] .
  have "seq_need [need a, need b, need c] = need a \<or> seq_need [need a, need b, need c] = 1 + need b \<or>
      seq_need [need a, need b, need c] = 2 + need c" using assms(6) by (auto simp: max_def)
  then consider "seq_need [need a, need b, need c] = need a" | "seq_need [need a, need b, need c] = 1 + need b"
    | "seq_need [need a, need b, need c] = 2 + need c" by blast
  then show ?thesis
  proof cases
    case 1 then show ?thesis using assms(1,7-9) by (intro exI [of _ i]) simp
  next
    case 2 then show ?thesis using assms(2,8,9) a by (intro exI [of _ k]) simp
  next
    case 3 then show ?thesis using assms(3,9) a b by (intro exI [of _ n]) simp
  qed
qed

lemma reaches_three:
  assumes "reaches a xs j" "reaches b xs j" "reaches c xs j" "1 \<le> need a" "1 \<le> need b" "1 \<le> need c"
  shows "\<exists>h\<le>j. (let ws = sort3 (need a) (need b) (need c) in max (ws ! 0) (1 + max (ws ! 1) (1 + ws ! 2))) \<le>
    live a (set (take h xs)) + live b (set (take h xs)) + live c (set (take h xs))"
proof -
  obtain i k n where t: "need a \<le> live a (set (take i xs))" "need b \<le> live b (set (take k xs))" "need c \<le> live c (set (take n xs))"
    and j: "i \<le> j" "k \<le> j" "n \<le> j" using assms(1-3) by (auto simp: reaches_def)
  have fin: ?thesis if "\<exists>h\<le>j. seq_need [p, q, r] \<le> live a (set (take h xs)) + live b (set (take h xs)) + live c (set (take h xs))"
    "[p, q, r] \<in> {[need a, need b, need c], [need a, need c, need b], [need b, need a, need c], [need b, need c, need a],
       [need c, need a, need b], [need c, need b, need a]}" for p q r
    using that(1) need_three [OF assms(4-6) that(2)] le_trans by blast
  note s = reaches_sorted [where xs = xs and j = j]
  consider "i \<le> k" "k \<le> n" | "i \<le> n" "n \<le> k" | "k \<le> i" "i \<le> n" | "k \<le> n" "n \<le> i" | "n \<le> i" "i \<le> k" | "n \<le> k" "k \<le> i"
    by linarith
  then show ?thesis
  proof cases
    case 1 show ?thesis by (rule fin [of "need a" "need b" "need c"]) (use s [OF t(1,2,3) assms(4,5,6) 1 j(3)] in \<open>simp_all add: add_ac\<close>)
  next
    case 2 show ?thesis by (rule fin [of "need a" "need c" "need b"]) (use s [OF t(1,3,2) assms(4,6,5) 2 j(2)] in \<open>simp_all add: add_ac\<close>)
  next
    case 3 show ?thesis by (rule fin [of "need b" "need a" "need c"]) (use s [OF t(2,1,3) assms(5,4,6) 3 j(3)] in \<open>simp_all add: add_ac\<close>)
  next
    case 4 show ?thesis by (rule fin [of "need b" "need c" "need a"]) (use s [OF t(2,3,1) assms(5,6,4) 4 j(1)] in \<open>simp_all add: add_ac\<close>)
  next
    case 5 show ?thesis by (rule fin [of "need c" "need a" "need b"]) (use s [OF t(3,1,2) assms(6,4,5) 5 j(2)] in \<open>simp_all add: add_ac\<close>)
  next
    case 6 show ?thesis by (rule fin [of "need c" "need b" "need a"]) (use s [OF t(3,2,1) assms(6,5,4) 6 j(1)] in \<open>simp_all add: add_ac\<close>)
  qed
qed

lemma reaches_need:
  assumes "\<And>k. k \<le> length xs \<Longrightarrow> operands_done t (set (take k xs))" "distinct (tree_nodes t)" "well_shaped t" "t \<noteq> Null"
    "j \<le> length xs" "node_op t \<in> set (take j xs)"
  shows "reaches t xs j"
  using assms
proof (induction t arbitrary: j)
  case (OpTreeNode x w l m r)
  have ex: "\<exists>i. i < length xs \<and> i < j \<and> xs ! i = x" using OpTreeNode.prems(6) by (auto simp: in_set_conv_nth)
  define i where "i = (LEAST i. i < length xs \<and> i < j \<and> xs ! i = x)"
  have i: "i < length xs" "i < j" "xs ! i = x" using LeastI_ex [OF ex] by (auto simp: i_def)
  have before: "x \<notin> set (take k xs)" if "k \<le> i" for k
  proof
    assume "x \<in> set (take k xs)"
    then obtain h where h: "h < k" "h < length xs" "xs ! h = x" by (auto simp: in_set_conv_nth)
    then have "i \<le> h" unfolding i_def using i that by (intro Least_le) auto
    then show False using h that by simp
  qed
  have op: "operands_done (OpTreeNode x w l m r) (set (take (Suc i) xs))" using OpTreeNode.prems(1) i(1) by simp
  have inx: "x \<in> set (take (Suc i) xs)" using i by (auto simp: take_Suc_conv_app_nth)
  have kid: "reaches c xs i" if "c \<in> {l, m, r}" "c \<noteq> Null" for c
  proof -
    have "\<forall>c\<in>set (filter (\<lambda>t. t \<noteq> Null) [l, m, r]). node_op c \<in> set (take (Suc i) xs)"
      using op inx unfolding operands_done.simps list_all_iff by blast
    moreover have "c \<in> set (filter (\<lambda>t. t \<noteq> Null) [l, m, r])" unfolding set_filter using that by simp
    ultimately have "node_op c \<in> set (take (Suc i) xs)" by blast
    moreover have "node_op c \<noteq> x" using that op_in_nodes [OF that(2)] OpTreeNode.prems(2) by auto
    ultimately have "node_op c \<in> set (take i xs)" using i by (auto simp: take_Suc_conv_app_nth)
    moreover have "\<And>k. k \<le> length xs \<Longrightarrow> operands_done c (set (take k xs))" using OpTreeNode.prems(1) that(1) by fastforce
    moreover have "distinct (tree_nodes c)" "well_shaped c" using OpTreeNode.prems(2,3) that(1) by auto
    ultimately show ?thesis using OpTreeNode.IH that i(1) by (metis insertE less_imp_le singletonD)
  qed
  have sum: "live (OpTreeNode x w l m r) (set (take k xs)) = live l (set (take k xs)) + live m (set (take k xs)) + live r (set (take k xs))"
    if "k \<le> i" for k using before [OF that] by simp
  have pos: "1 \<le> need c" if "c \<in> {l, m, r}" "c \<noteq> Null" for c using need_pos [of c] OpTreeNode.prems(3) that by auto
  have up: "reaches (OpTreeNode x w l m r) xs j"
    if "\<exists>k\<le>i. need (OpTreeNode x w l m r) \<le> live l (set (take k xs)) + live m (set (take k xs)) + live r (set (take k xs))"
    using that sum i(2) unfolding reaches_def by (metis less_imp_le le_trans)
  from OpTreeNode.prems(3) show ?case
  proof (cases rule: shape_cases)
    case 1
    have "live (OpTreeNode x w l m r) (set (take (Suc i) xs)) = 1" using inx by simp
    then show ?thesis unfolding reaches_def using 1 i(2) by (intro exI [of _ "Suc i"]) (simp add: need_simps)
  next
    case 2
    then show ?thesis using kid [of l] by (intro up) (simp add: need_simps reaches_def)
  next
    case 3
    then show ?thesis using reaches_two [OF kid [of l] kid [of r] pos [of l] pos [of r]] by (intro up) (simp add: need_simps)
  next
    case 4
    then show ?thesis
      using reaches_three [OF kid [of l] kid [of m] kid [of r] pos [of l] pos [of m] pos [of r]] by (intro up) (simp add: need_simps)
  qed
qed simp

lemma peak_lower:
  assumes "evaluation_order t xs" "distinct (tree_nodes t)" "well_shaped t" "t \<noteq> Null"
  shows "need t \<le> peak t xs"
proof -
  have fin: "operands_done t (set (take k xs))" if "k \<le> length xs" for k
    using assms(1) that by (simp add: evaluation_order_def list_all_iff less_Suc_eq_le del: upt_Suc)
  have "node_op t \<in> set (take (length xs) xs)" using assms(1) op_in_nodes [OF assms(4)] by (simp add: evaluation_order_def)
  then have "reaches t xs (length xs)" using assms(2-4) fin by (intro reaches_need) simp_all
  then show ?thesis unfolding reaches_def using peak_ge le_trans by blast
qed

end
