(* ===== verification/SchedOptimal.thy ===== *)
theory SchedOptimal
  imports SchedRegs
begin

text \<open>
  The emitted order is an evaluation order and its peak is the weight of the root.
\<close>

section \<open>Evaluating children one after another\<close>

lemma done_local: "S \<inter> set (tree_nodes t) = S' \<inter> set (tree_nodes t) \<Longrightarrow> operands_done t S = operands_done t S'"
proof (induction t)
  case (OpTreeNode x w l m r)
  have in_iff: "y \<in> S \<longleftrightarrow> y \<in> S'" if "y \<in> set (tree_nodes (OpTreeNode x w l m r))" for y using OpTreeNode.prems that by blast
  have "operands_done l S = operands_done l S'" by (rule OpTreeNode.IH(1)) (use in_iff in auto)
  moreover have "operands_done m S = operands_done m S'" by (rule OpTreeNode.IH(2)) (use in_iff in auto)
  moreover have "operands_done r S = operands_done r S'" by (rule OpTreeNode.IH(3)) (use in_iff in auto)
  moreover have "node_op c \<in> S \<longleftrightarrow> node_op c \<in> S'" if "c \<in> {l, m, r}" "c \<noteq> Null" for c
    using in_iff [of "node_op c"] op_in_nodes [OF that(2)] that(1) by auto
  ultimately show ?case using in_iff [of x] by (auto simp: list_all_iff)
qed simp

lemma live_disjoint: "set (tree_nodes t) \<inter> S = {} \<Longrightarrow> live t S = 0"
  using live_pos [of t S] by auto

lemma live_root: "t \<noteq> Null \<Longrightarrow> node_op t \<in> S \<Longrightarrow> live t S = 1"
  by (cases t) auto

lemma take_concat_Cons:
  "take k (concat (xs # xss)) = (if k \<le> length xs then take k xs else xs @ take (k - length xs) (concat xss))"
  by simp

lemma seq_peak:
  assumes "legal_order ord"
  shows "distinct (concat (map tree_nodes vs)) \<Longrightarrow>
    (\<And>v k. v \<in> set vs \<Longrightarrow> v \<noteq> Null \<and> live v (set (take k (emit ord v))) \<le> node_weight v) \<Longrightarrow>
    sum_list (map (\<lambda>v. live v (set (take k (concat (map (emit ord) vs))))) vs) \<le> seq_need (map node_weight vs)"
proof (induction vs arbitrary: k)
  case (Cons v vs)
  let ?E = "concat (map (emit ord) vs)"
  have disj: "set (tree_nodes v) \<inter> set (tree_nodes u) = {}" if "u \<in> set vs" for u using Cons.prems(1) that by auto
  show ?case
  proof (cases "k \<le> length (emit ord v)")
    case True
    have tk: "take k (concat (map (emit ord) (v # vs))) = take k (emit ord v)" using True by simp
    have "live u (set (take k (emit ord v))) = 0" if "u \<in> set vs" for u
      using disj [OF that] set_take_subset [of k "emit ord v"] emit_set [OF assms, of v] by (intro live_disjoint) auto
    then have z: "sum_list (map (\<lambda>u. live u (set (take k (emit ord v)))) vs) = 0" by simp
    have "live v (set (take k (emit ord v))) \<le> node_weight v" using Cons.prems(2) by simp
    then show ?thesis unfolding tk by (simp add: z)
  next
    case False
    let ?S = "set (take (k - length (emit ord v)) ?E)"
    have tk: "take k (concat (map (emit ord) (v # vs))) = emit ord v @ take (k - length (emit ord v)) ?E" using False by simp
    have "node_op v \<in> set (emit ord v)" using Cons.prems(2) op_in_nodes [of v] emit_set [OF assms] by simp
    then have one: "live v (set (emit ord v) \<union> ?S) = 1" using Cons.prems(2) by (intro live_root) auto
    have "live u (set (emit ord v) \<union> ?S) = live u ?S" if "u \<in> set vs" for u
      using disj [OF that] emit_set [OF assms, of v] by (intro live_local) auto
    then have m: "map (\<lambda>u. live u (set (emit ord v) \<union> ?S)) vs = map (\<lambda>u. live u ?S) vs" by simp
    have "sum_list (map (\<lambda>u. live u ?S) vs) \<le> seq_need (map node_weight vs)"
      by (rule Cons.IH) (use Cons.prems in auto)
    then show ?thesis unfolding tk unfolding list.map sum_list.Cons set_append one m by simp
  qed
qed simp

lemma seq_done:
  assumes "legal_order ord"
  shows "distinct (concat (map tree_nodes vs)) \<Longrightarrow> (\<And>v k. v \<in> set vs \<Longrightarrow> operands_done v (set (take k (emit ord v)))) \<Longrightarrow>
    v \<in> set vs \<Longrightarrow> operands_done v (set (take k (concat (map (emit ord) vs))))"
proof (induction vs arbitrary: k)
  case (Cons u vs)
  let ?E = "concat (map (emit ord) vs)"
  have sub: "set (take n ?E) \<subseteq> \<Union> (set ` tree_nodes ` set vs)" for n
    using set_take_subset [of n ?E] emit_set [OF assms] by auto
  have disj: "set (tree_nodes u) \<inter> \<Union> (set ` tree_nodes ` set vs) = {}" using Cons.prems(1) by auto
  show ?case
  proof (cases "v = u")
    case True
    have "set (take k (concat (map (emit ord) (u # vs)))) \<inter> set (tree_nodes u) = set (take k (emit ord u)) \<inter> set (tree_nodes u)"
      using sub [of "k - length (emit ord u)"] disj by auto
    then show ?thesis using done_local [of _ u] Cons.prems(2) True by auto
  next
    case False
    then have v: "v \<in> set vs" using Cons.prems(3) by simp
    have "set (take k (emit ord u)) \<inter> set (tree_nodes v) = {}"
      using set_take_subset [of k "emit ord u"] emit_set [OF assms, of u] disj v by auto
    then have "set (take k (concat (map (emit ord) (u # vs)))) \<inter> set (tree_nodes v) =
        set (take (k - length (emit ord u)) ?E) \<inter> set (tree_nodes v)" by auto
    moreover have "operands_done v (set (take (k - length (emit ord u)) ?E))" by (rule Cons.IH) (use Cons.prems v in auto)
    ultimately show ?thesis using done_local by blast
  qed
qed simp

text \<open>The weights of the children in the order visited are the sorted weights.\<close>

lemma sorted_weights:
  assumes "legal_order ord"
  shows "map node_weight (visits ord ts) = rev (sort (map node_weight ts))"
proof -
  let ?ws = "map node_weight (visits ord ts)"
  have "mset (rev ?ws) = mset (map node_weight ts)" using visits_mset [OF assms, of ts] by simp
  moreover have "sorted_wrt (\<lambda>a b. a \<ge> b) ?ws" using visits_sorted [OF assms, of ts] by (simp add: sorted_wrt_map)
  then have "sorted (rev ?ws)" by (simp add: sorted_wrt_rev)
  ultimately have "sort (map node_weight ts) = rev ?ws" by (intro properties_for_sort) simp_all
  then show ?thesis by simp
qed

lemma seq_need_sorted:
  assumes "legal_order ord" "well_shaped (OpTreeNode x w l m r)"
  shows "seq_need (map node_weight (visits ord (kids (markNodeWeights (OpTreeNode x w l m r))))) \<le> need (OpTreeNode x w l m r)"
proof -
  have k: "map node_weight (kids (markNodeWeights (OpTreeNode x w l m r))) = map need (kids (OpTreeNode x w l m r))"
    unfolding mark_kids by (simp add: need_def comp_def del: kids.simps)
  have pos: "c \<noteq> Null \<Longrightarrow> well_shaped c \<Longrightarrow> 1 \<le> need c" for c using need_pos by blast
  note p = pos [of l] pos [of m] pos [of r]
  from assms(2) show ?thesis unfolding sorted_weights [OF assms(1)] k
  proof (cases rule: shape_cases)
    case 4
    then show "seq_need (rev (sort (map need (kids (OpTreeNode x w l m r))))) \<le> need (OpTreeNode x w l m r)"
      using p assms(2) by (auto simp: need_simps sort3_unfold Let_def max_def)
  qed (use p assms(2) in \<open>auto simp: need_simps max_def\<close>)
qed

section \<open>The emitted order\<close>

lemma mark_node: "\<exists>w' l' m' r'. markNodeWeights (OpTreeNode x w l m r) = OpTreeNode x w' l' m' r'"
  by (simp add: Let_def)

lemma emit_mark:
  assumes "legal_order ord"
  shows "emit ord (markNodeWeights (OpTreeNode x w l m r)) =
    concat (map (emit ord) (visits ord (kids (markNodeWeights (OpTreeNode x w l m r))))) @ [x]"
  using mark_node [of x w l m r] emit_kids [OF assms] by metis

lemma emit_evaluates:
  assumes "legal_order ord"
  shows "distinct (tree_nodes t) \<Longrightarrow> well_shaped t \<Longrightarrow>
    operands_done t (set (take k (emit ord (markNodeWeights t)))) \<and>
    (t \<noteq> Null \<longrightarrow> live t (set (take k (emit ord (markNodeWeights t)))) \<le> need t)"
proof (induction t arbitrary: k)
  case (OpTreeNode x w l m r)
  let ?t = "OpTreeNode x w l m r" let ?us = "kids (markNodeWeights ?t)" let ?vs = "visits ord ?us"
  let ?E = "concat (map (emit ord) ?vs)"
  have us: "?us = map markNodeWeights (kids ?t)" by (rule mark_kids)
  have vs_kid: "\<exists>c. v = markNodeWeights c \<and> c \<in> {l, m, r} \<and> c \<noteq> Null" if "v \<in> set ?vs" for v
    using that kids_sub [of _ x w l m r] unfolding visits_set [OF assms] us set_map by blast
  have "mset (concat (map tree_nodes ?vs)) = mset (concat (map tree_nodes ?us))"
    by (rule mset_concat_map [OF visits_mset [OF assms]])
  also have "concat (map tree_nodes ?us) = concat (map tree_nodes (kids ?t))" unfolding us by (simp add: comp_def del: kids.simps)
  finally have perm: "mset (concat (map tree_nodes ?vs)) = mset (concat (map tree_nodes (kids ?t)))" .
  have dk: "distinct (concat (map tree_nodes (kids ?t)) @ [x])" using OpTreeNode.prems(1) unfolding tree_nodes_kids .
  then have dv: "distinct (concat (map tree_nodes ?vs))" using perm by (metis distinct_append mset_eq_imp_distinct_iff)
  have sv: "set (concat (map tree_nodes ?vs)) = set (concat (map tree_nodes (kids ?t)))" using perm by (metis set_mset_mset)
  have sE: "set ?E = set (concat (map tree_nodes (kids ?t)))" unfolding sv [symmetric] by (auto simp: emit_set [OF assms])
  have IH: "operands_done c (set (take k (emit ord (markNodeWeights c)))) \<and> live c (set (take k (emit ord (markNodeWeights c)))) \<le> need c"
    if "c \<in> {l, m, r}" "c \<noteq> Null" for c k
  proof -
    have "distinct (tree_nodes c)" "well_shaped c" using OpTreeNode.prems that(1) by auto
    then show ?thesis using OpTreeNode.IH that by blast
  qed
  have vdone: "operands_done v (set (take k ?E))" if "v \<in> set ?vs" for v k
    by (rule seq_done [OF assms dv _ that]) (use IH vs_kid mark_done in metis)
  have vpeak: "sum_list (map (\<lambda>v. live v (set (take k ?E))) ?vs) \<le> seq_need (map node_weight ?vs)" for k
  proof (rule seq_peak [OF assms dv])
    fix v k assume "v \<in> set ?vs"
    then obtain c where c: "v = markNodeWeights c" "c \<in> {l, m, r}" "c \<noteq> Null" using vs_kid by blast
    then show "v \<noteq> Null \<and> live v (set (take k (emit ord v))) \<le> node_weight v" using IH [OF c(2,3)] by (simp add: need_def)
  qed
  have "sum_list (map (\<lambda>v. live v S) ?vs) = live l S + live m S + live r S" for S
  proof -
    have e: "sum_list (map (\<lambda>v. live v S) xs) = sum_mset (image_mset (\<lambda>v. live v S) (mset xs))" for xs
      by (induction xs) simp_all
    have "sum_list (map (\<lambda>v. live v S) ?vs) = sum_list (map (\<lambda>v. live v S) ?us)" unfolding e visits_mset [OF assms] ..
    also have "\<dots> = sum_list (map (\<lambda>c. live c S) (kids ?t))" unfolding us by (simp add: comp_def del: kids.simps)
    finally show ?thesis by simp
  qed
  note sums = this
  have emit: "emit ord (markNodeWeights ?t) = ?E @ [x]" by (rule emit_mark [OF assms])
  have kdone: "operands_done c (set (take k ?E))" if "c \<in> {l, m, r}" for c k
  proof (cases "c = Null")
    case False
    then have "c \<in> set (kids ?t)" unfolding kids.simps set_filter using that by simp
    then have "markNodeWeights c \<in> set ?vs" unfolding visits_set [OF assms] us by simp
    then show ?thesis using vdone by force
  qed simp
  have xE: "x \<notin> set ?E" using dk unfolding sE by simp
  show ?case
  proof (cases "k \<le> length ?E")
    case True
    have tk: "take k (?E @ [x]) = take k ?E" using True by simp
    have "x \<notin> set (take k ?E)" using xE by (meson in_set_takeD)
    then have "live ?t (set (take k ?E)) \<le> need ?t" "operands_done ?t (set (take k ?E))"
      using vpeak [of k] sums seq_need_sorted [OF assms OpTreeNode.prems(2)] kdone by auto
    then show ?thesis unfolding emit tk by simp
  next
    case False
    have tk: "take k (?E @ [x]) = ?E @ [x]" using False by simp
    have "operands_done c (insert x (set ?E))" if c: "c \<in> {l, m, r}" for c
    proof -
      have "x \<notin> set (tree_nodes c)" using OpTreeNode.prems(1) c by auto
      then show ?thesis using kdone [OF c, of "length ?E"] done_local [of "insert x (set ?E)" c "set ?E"] by simp
    qed
    moreover have "node_op c \<in> set ?E" if "c \<in> set (filter (\<lambda>t. t \<noteq> Null) [l, m, r])" for c
      using that op_in_nodes [of c] unfolding sE by (auto simp: set_filter simp del: filter.simps)
    ultimately have "operands_done ?t (insert x (set ?E))" unfolding operands_done.simps list_all_iff by blast
    moreover have "1 \<le> need ?t" using need_pos [OF OpTreeNode.prems(2)] by simp
    ultimately show ?thesis unfolding emit tk by simp
  qed
qed simp

lemma emitted_order:
  assumes "legal_order ord" "distinct (tree_nodes t)" "well_shaped t"
  shows "evaluation_order t (emit ord (markNodeWeights t))"
proof -
  let ?xs = "emit ord (markNodeWeights t)"
  have m: "mset ?xs = mset (tree_nodes t)" using emit_mset [OF assms(1), of "markNodeWeights t"] by simp
  have "distinct ?xs" using m assms(2) by (metis mset_eq_imp_distinct_iff)
  moreover have "set ?xs = set (tree_nodes t)" using m by (metis set_mset_mset)
  ultimately show ?thesis
    unfolding evaluation_order_def list_all_iff using emit_evaluates [OF assms] by blast
qed

text \<open>C24: the reordering is register-optimal: when no operation of the tree is shared, the tree's
  operations, in the order of the new body, form an evaluation order of the tree that never holds more
  values than the weight of its root, and no evaluation order of the tree, contiguous or not, gets along
  with fewer.\<close>

theorem schedule_registers_minimal:
  assumes "legal_order ord" "root = markNodeWeights (buildOpTree g blk body)" "root \<noteq> Null" "distinct (tree_nodes root)"
  shows "let xs = filter (\<lambda>x. x \<in> set (tree_nodes root)) (reorderOperationsSethiUllman ord g root body)
    in evaluation_order root xs \<and> peak root xs = node_weight root \<and>
       (\<forall>ys. evaluation_order root ys \<longrightarrow> node_weight root \<le> peak root ys)"
proof -
  let ?t = "buildOpTree g blk body"
  have t: "distinct (tree_nodes ?t)" "well_shaped ?t" "?t \<noteq> Null" using assms(2-4) built_tree by auto
  have xs: "filter (\<lambda>x. x \<in> set (tree_nodes root)) (reorderOperationsSethiUllman ord g root body) = emit ord root"
    unfolding reorder_emit [OF assms(1,4)] filter_append filter_filter
    using emit_set [OF assms(1), of root] by (simp add: filter_id_conv)
  have ord: "evaluation_order ?t (emit ord (markNodeWeights ?t))" by (rule emitted_order [OF assms(1) t(1,2)])
  have low: "need ?t \<le> peak ?t ys" if "evaluation_order ?t ys" for ys using peak_lower [OF that t] .
  have "peak ?t (emit ord (markNodeWeights ?t)) \<le> need ?t"
    by (rule peak_le) (use emit_evaluates [OF assms(1) t(1,2)] t(3) in blast)
  then have "peak ?t (emit ord (markNodeWeights ?t)) = need ?t" using low [OF ord] by simp
  then show ?thesis unfolding Let_def xs unfolding assms(2) using ord low by (simp add: need_def)
qed

lemma schedule_registers_minimal_witness:
  "peak ex_tree [1, 2, 5, 0, 6, 3, 4, 7, 8] = 3 \<and> evaluation_order ex_tree [0, 1, 2, 3, 4, 7, 5, 6, 8] \<and>
   3 \<le> peak ex_tree [0, 1, 2, 3, 4, 7, 5, 6, 8]"
proof -
  have n: "ex_tree \<noteq> Null" "distinct (tree_nodes ex_tree)" "node_weight ex_tree = 3" by code_simp+
  have f: "filter (\<lambda>x. x \<in> set (tree_nodes ex_tree)) [1, 2, 5, 0, 6, 3, 4, 7, 8, 9] = [1, 2, 5, 0, 6, 3, 4, 7, 8]" by code_simp
  have "evaluation_order ex_tree [0, 1, 2, 3, 4, 7, 5, 6, 8]" by code_simp
  then show ?thesis
    using schedule_registers_minimal [OF sort_indices_legal ex_tree_marked [symmetric] n(1,2)]
    unfolding ex_tree_reordered f Let_def n(3) by blast
qed

lemma nodes_pos: "t \<noteq> Null \<Longrightarrow> 1 \<le> length (tree_nodes t)"
  by (cases t) auto

lemma weight_bound: "well_shaped t \<Longrightarrow> t \<noteq> Null \<Longrightarrow> need t \<le> length (tree_nodes t)"
proof (induction t)
  case (OpTreeNode x w l m r)
  from OpTreeNode.prems(1) show ?case
  proof (cases rule: shape_cases)
    case 3
    then show ?thesis using OpTreeNode nodes_pos [of l] nodes_pos [of r] by (auto simp: need_simps max_def)
  next
    case 4
    then show ?thesis
      using OpTreeNode nodes_pos [of l] nodes_pos [of m] nodes_pos [of r]
      by (auto simp: need_simps Let_def sort3_unfold max_def)
  qed (use OpTreeNode in \<open>auto simp: need_simps\<close>)
qed simp

end
