(* ===== verification/SchedDriver.thy ===== *)
theory SchedDriver
  imports SchedOptimal
begin

text \<open>
  The builder and the rewriter return, and what goes wrong when an operation of the body is shared.
\<close>

section \<open>Shared operations\<close>

text \<open>The body \<open>a = load; b = a * a; c = b + a; store c\<close>.\<close>

definition shared_graph :: graph where
  "shared_graph x =
     (if x = 0 then \<lparr>is_load = True, is_store = False, op_block = 0, operands = [BlockArg]\<rparr>
      else if x = 1 then \<lparr>is_load = False, is_store = False, op_block = 0, operands = [Result 0, Result 0]\<rparr>
      else if x = 2 then \<lparr>is_load = False, is_store = False, op_block = 0, operands = [Result 1, Result 0]\<rparr>
      else if x = 3 then \<lparr>is_load = False, is_store = True, op_block = 0, operands = [Result 2, BlockArg]\<rparr>
      else \<lparr>is_load = False, is_store = False, op_block = 1, operands = []\<rparr>)"

abbreviation shared_leaf :: op_tree where
  "shared_leaf \<equiv> OpTreeNode 0 1 Null Null Null"

abbreviation shared_square :: op_tree where
  "shared_square \<equiv> OpTreeNode 1 2 shared_leaf Null shared_leaf"

lemma shared_tree:
  "markNodeWeights (buildOpTree shared_graph 0 [0, 1, 2, 3]) = OpTreeNode 2 2 shared_square Null shared_leaf"
  by code_simp

lemma visits_none: "legal_order ord \<Longrightarrow> visits ord [] = []"
  using visits_mset [of ord "[]"] by simp

lemma visits_two:
  assumes "legal_order ord"
  shows "\<exists>p q. visits ord [a, b] = [p, q]"
proof -
  have "length (visits ord [a, b]) = Suc (Suc 0)" using mset_eq_length [OF visits_mset [OF assms, of "[a, b]"]] by simp
  then show ?thesis by (auto simp: length_Suc_conv)
qed

lemma visits_same:
  assumes "legal_order ord"
  shows "visits ord [a, a] = [a, a]"
proof -
  obtain p q where v: "visits ord [a, a] = [p, q]"
    using visits_two [OF assms] by blast
  then show ?thesis using visits_set [OF assms, of "[a, a]"] by simp
qed

lemma visits_heavier:
  assumes "legal_order ord" "node_weight b < node_weight a"
  shows "visits ord [a, b] = [a, b]"
proof -
  obtain p q where v: "visits ord [a, b] = [p, q]"
    using visits_two [OF assms(1)] by blast
  have "node_weight p \<ge> node_weight q" using visits_sorted [OF assms(1), of "[a, b]"] v by simp
  moreover have "{p, q} = {a, b}" using visits_set [OF assms(1), of "[a, b]"] v by simp
  ultimately show ?thesis using v assms(2) by (auto simp: doubleton_eq_iff)
qed

lemma shared_result:
  assumes "legal_order ord"
  shows "reorderOperationsSethiUllman ord shared_graph (OpTreeNode 2 2 shared_square Null shared_leaf) [0, 1, 2, 3] = [1, 0, 2, 3]"
proof -
  let ?f = "applySeethiUllmanOrdering ord shared_graph"
  have leaf: "?f shared_leaf s = move_op 0 s" for s
    unfolding apply_kids [OF assms] by (simp add: visits_none [OF assms] child_moved_def del: applySeethiUllmanOrdering.simps One_nat_def)
  have square: "?f shared_square s = move_op 1 (move_op 0 (move_op 0 s))" for s
    unfolding apply_kids [OF assms] by (simp add: visits_same [OF assms] child_moved_def leaf move_op_def del: applySeethiUllmanOrdering.simps One_nat_def)
  have "visits ord [shared_square, shared_leaf] = [shared_square, shared_leaf]" by (rule visits_heavier [OF assms]) simp
  then have root: "?f (OpTreeNode 2 2 shared_square Null shared_leaf) s = move_op 2 (move_op 0 (move_op 1 (move_op 0 (move_op 0 s))))" for s
    unfolding apply_kids [OF assms] by (simp add: child_moved_def leaf square move_op_def del: applySeethiUllmanOrdering.simps One_nat_def)
  show ?thesis unfolding reorderOperationsSethiUllman_def root by (simp add: move_op_def)
qed

text \<open>the scheduler breaks a body in which a value has users in two subtrees: on the valid body
  above, every legal child order moves the load a second time, behind the multiplication that uses it, and
  the result is not a valid order.\<close>

theorem shared_operand_breaks_dominance:
  "dominated shared_graph 0 {} [0, 1, 2, 3] \<and>
   (\<forall>ord. legal_order ord \<longrightarrow>
      \<not> dominated shared_graph 0 {}
        (reorderOperationsSethiUllman ord shared_graph (markNodeWeights (buildOpTree shared_graph 0 [0, 1, 2, 3])) [0, 1, 2, 3]))"
proof -
  have "dominated shared_graph 0 {} [0, 1, 2, 3]" by code_simp
  moreover have "\<not> dominated shared_graph 0 {} [1, 0, 2, 3]" by code_simp
  ultimately show ?thesis unfolding shared_tree using shared_result by metis
qed

lemma shared_operand_breaks_dominance_witness:
  "reorderOperationsSethiUllman sort_indices shared_graph (markNodeWeights (buildOpTree shared_graph 0 [0, 1, 2, 3])) [0, 1, 2, 3] = [1, 0, 2, 3] \<and>
   \<not> dominated shared_graph 0 {} [1, 0, 2, 3]"
  using shared_operand_breaks_dominance sort_indices_legal shared_result [OF sort_indices_legal] unfolding shared_tree by metis

section \<open>The builder returns\<close>

lemma children_built:
  "(\<And>d. Result d \<in> set vs \<Longrightarrow> \<not> is_load (g d) \<Longrightarrow> op_block (g d) = blk \<Longrightarrow> buildOpTreeRecursive n g blk d \<noteq> None) \<Longrightarrow>
   build_children n g blk vs \<noteq> None"
proof (induction vs)
  case (Cons v vs)
  have "build_children n g blk vs \<noteq> None" using Cons by simp
  then obtain p where p: "build_children n g blk vs = Some p" by blast
  show ?case
  proof (cases v)
    case (Result d)
    then show ?thesis using Cons.prems [of d] p by (cases p; cases "is_load (g d)"; cases "op_block (g d) = blk") auto
  qed (use p in \<open>cases p; auto\<close>)
qed simp

lemma dominated_nth:
  "dominated g blk seen xs \<Longrightarrow> i < length xs \<Longrightarrow> d \<in> set (block_operands g blk (xs ! i)) \<Longrightarrow> d \<in> seen \<or> (\<exists>k<i. d = xs ! k)"
proof (induction xs arbitrary: seen i)
  case (Cons x xs)
  show ?case
  proof (cases i)
    case 0
    then show ?thesis using Cons.prems by (simp add: list_all_iff)
  next
    case (Suc j)
    then have "d \<in> insert x seen \<or> (\<exists>k<j. d = xs ! k)" using Cons.prems Cons.IH [of "insert x seen" j] by simp
    then show ?thesis
    proof (elim disjE exE conjE insertE)
      show "d = x \<Longrightarrow> ?thesis" using Suc by (intro disjI2 exI [of _ 0]) simp
      show "d \<in> seen \<Longrightarrow> ?thesis" by simp
      show "k < j \<Longrightarrow> d = xs ! k \<Longrightarrow> ?thesis" for k using Suc by (intro disjI2 exI [of _ "Suc k"]) simp
    qed
  qed
qed simp

lemma block_operandI: "Result d \<in> set (operands (g x)) \<Longrightarrow> op_block (g d) = blk \<Longrightarrow> d \<in> set (block_operands g blk x)"
  by (force simp: block_operands_def List.map_filter_def)

lemma built_at:
  assumes "dominated g blk {} body"
  shows "i < n \<Longrightarrow> i < length body \<Longrightarrow> buildOpTreeRecursive n g blk (body ! i) \<noteq> None"
proof (induction n arbitrary: i)
  case (Suc n)
  have "build_children n g blk (operands (g (body ! i))) \<noteq> None"
  proof (rule children_built)
    fix d assume "Result d \<in> set (operands (g (body ! i)))" "op_block (g d) = blk"
    then obtain k where "k < i" "d = body ! k"
      using dominated_nth [OF assms Suc.prems(2)] block_operandI [of d g "body ! i" blk] by blast
    then show "buildOpTreeRecursive n g blk d \<noteq> None" using Suc.IH [of k] Suc.prems by simp
  qed
  then show ?case by (auto split: option.splits)
qed simp

text \<open>building the operation tree terminates: on a body in which every operation follows the
  operations of the block that it uses, a recursion depth of the body's length is enough for the tree of
  any operation of the body, and the tree is the one its operands describe.\<close>

theorem op_tree_built:
  assumes "dominated g blk {} body" "x \<in> set body"
  shows "\<exists>t leaves. buildOpTreeRecursive (length body) g blk x = Some (t, leaves) \<and> node_op t = x \<and> well_shaped t \<and> tree_of g blk t"
proof -
  obtain i where "i < length body" "x = body ! i" using assms(2) by (auto simp: in_set_conv_nth)
  then obtain t leaves where "buildOpTreeRecursive (length body) g blk x = Some (t, leaves)"
    using built_at [OF assms(1), of i "length body"] by auto
  then show ?thesis using build_tree(1) by blast
qed

lemma op_tree_built_witness: "\<exists>t leaves. buildOpTreeRecursive 10 ex_graph 0 8 = Some (t, leaves) \<and> node_op t = 8"
proof -
  have "dominated ex_graph 0 {} [0..<10]" by code_simp
  from op_tree_built [OF this, of 8] show ?thesis by simp blast
qed

section \<open>The rewriter terminates\<close>

text \<open>The root loops that are not marked as scheduled.\<close>

fun unscheduled :: "item \<Rightarrow> nat" where
  "unscheduled (Op x) = 0"
| "unscheduled (For b root sched items) = (if root \<and> \<not> sched then 1 else 0) + sum_list (map unscheduled items)"

abbreviation "unscheduled_all items \<equiv> sum_list (map unscheduled items)"

lemma collect_marks:
  "unscheduled (fst (collect_loop path it)) = 0"
  "unscheduled_all (fst (collect_loops path i items)) = 0"
  by (induction path it and path i items rule: collect_loop_collect_loops.induct) (auto split: prod.splits)

lemma collect_none:
  "unscheduled it = 0 \<Longrightarrow> collect_loop path it = (it, [])"
  "unscheduled_all items = 0 \<Longrightarrow> collect_loops path i items = (items, [])"
  by (induction path it and path i items rule: collect_loop_collect_loops.induct) (auto split: if_splits)

lemma unscheduled_ops: "unscheduled_all (map Op xs) = 0"
  by (induction xs) auto

lemma body_keeps: "unscheduled_all items = 0 \<Longrightarrow> unscheduled_all (fst (schedule_body ord g blk items)) = 0"
  using unscheduled_ops by (simp add: schedule_body_def Let_def del: sum_list_eq_0_iff)

lemma schedule_keeps:
  "unscheduled it = 0 \<Longrightarrow> unscheduled (fst (schedule_loop ord g it)) = 0"
  "unscheduled_all items = 0 \<Longrightarrow> unscheduled_all (fst (schedule_first ord g items)) = 0"
proof (induction ord g it and ord g items rule: schedule_loop_schedule_first.induct)
  case (2 ord g b r s items)
  then have items: "unscheduled_all items = 0" and flag: "\<not> (r \<and> \<not> s)" by (auto split: if_splits)
  have "unscheduled_all (fst (schedule_body ord g b items)) = 0" using body_keeps [OF items] .
  moreover have "has_loop items \<Longrightarrow> unscheduled_all (fst (schedule_first ord g items)) = 0" using "2.IH" items by blast
  ultimately show ?case using flag by (auto simp: split_beta Let_def simp del: sum_list_eq_0_iff)
next
  case (5 ord g b r s body items)
  then show ?case by (auto simp: split_beta Let_def simp del: schedule_loop.simps)
qed (auto simp: split_beta Let_def)

lemma unscheduled_list: "unscheduled_all items = 0 \<longleftrightarrow> (\<forall>it\<in>set items. unscheduled it = 0)"
  by (induction items) auto

lemma update_keeps:
  assumes "\<And>it. unscheduled it = 0 \<Longrightarrow> unscheduled (fst (f it)) = 0"
  shows "unscheduled_all items = 0 \<Longrightarrow> unscheduled_all (fst (update_at f path items)) = 0"
  using assms
proof (induction f path items rule: update_at.induct)
  case (2 f i items)
  then show ?case using "2.prems"(2) [of "items ! i"] unfolding unscheduled_list
    by (auto simp: split_beta Let_def dest!: set_update_subset_insert [THEN subsetD])
next
  case (3 f i j path items)
  show ?case
  proof (cases "i < length items")
    case True
    then have it: "unscheduled (items ! i) = 0" using "3.prems" by (simp add: unscheduled_list)
    show ?thesis
    proof (cases "items ! i")
      case (For b r s body)
      then have "unscheduled_all body = 0" "\<not> (r \<and> \<not> s)" using it by (auto split: if_splits)
      then have "unscheduled_all (fst (update_at f (j # path) body)) = 0" using "3.IH" [OF True For] "3.prems"(2) by blast
      then have "unscheduled (For b r s (fst (update_at f (j # path) body))) = 0" using \<open>\<not> (r \<and> \<not> s)\<close> by auto
      then show ?thesis using "3.prems" For True unfolding unscheduled_list
        by (auto simp: split_beta Let_def simp del: unscheduled.simps dest!: set_update_subset_insert [THEN subsetD])
    qed (use "3.prems" True in simp)
  qed (use "3.prems" in simp)
qed simp

lemma loops_keep:
  "unscheduled_all items = 0 \<Longrightarrow>
   unscheduled_all (fst (fold (\<lambda>loop (its, modified). let (its', m) = update_at (schedule_loop ord g) loop its
     in (its', modified \<or> m)) loops (items, flag))) = 0"
proof (induction loops arbitrary: items flag)
  case (Cons p loops)
  have "unscheduled_all (fst (update_at (schedule_loop ord g) p items)) = 0"
    by (rule update_keeps [OF schedule_keeps(1) Cons.prems])
  from Cons.IH [OF this] show ?case by (simp add: split_beta Let_def del: sum_list_eq_0_iff)
qed simp

text \<open>the rewriter terminates under greedy application: after one application to a generic
  operation, whatever its loops, a second one changes nothing and reports failure, since every root loop
  is marked as scheduled.\<close>

theorem rewrite_reaches_fixpoint:
  "matchAndRewrite ord g fused (fst (matchAndRewrite ord g fused items)) = (fst (matchAndRewrite ord g fused items), False)"
proof (cases "fused \<and> snd (collect_loops [] 0 items) \<noteq> []")
  case True
  obtain items' loops where c: "collect_loops [] 0 items = (items', loops)" by (cases "collect_loops [] 0 items")
  define r where "r = fst (matchAndRewrite ord g fused items)"
  have "unscheduled_all items' = 0" using collect_marks(2) [of "[]" 0 items] c by simp
  then have "unscheduled_all r = 0" using loops_keep True c by (simp add: r_def matchAndRewrite_def del: sum_list_eq_0_iff)
  then have "collect_loops [] 0 r = (r, [])" by (rule collect_none)
  then have "matchAndRewrite ord g fused r = (r, False)" by (simp add: matchAndRewrite_def)
  then show ?thesis unfolding r_def .
next
  case False
  then show ?thesis by (auto simp: matchAndRewrite_def split_beta)
qed

text \<open>The rewriter reports failure although it has marked a loop.\<close>

lemma failure_after_change:
  "matchAndRewrite ord g True [For 0 True False []] = ([For 0 True True []], False)"
  by (simp add: matchAndRewrite_def schedule_body_def buildOpTree_def ops_of_def has_loop_def Let_def List.map_filter_simps)

end
