(* ===== verification/DataTypes.thy ===== *)
theory DataTypes
  imports Prelude
begin

text \<open>
  The data types of tensors: \<open>include/ttmlir/Dialect/TTCore/IR/TTCoreOpsTypes.h\<close>, the tile
  capacity of the destination register (\<open>TTCoreOpsTypes.cpp\<close>) and the folds of consecutive type
  casts (\<open>TTIROps.cpp\<close>, \<open>TTNNOps.cpp\<close>).
\<close>

section \<open>Data types and element types\<close>

datatype data_type =
    Float32 | Float16 | BFloat16 | BFP_Float8 | BFP_BFloat8 | BFP_Float4 | BFP_BFloat4 | BFP_Float2 | BFP_BFloat2
  | UInt32 | UInt16 | UInt8 | Int32 | Bool

datatype signedness = Signless | Signed | Unsigned

datatype elem_type =
    BFloat16Type | FloatType nat | IntegerType nat signedness | IndexType | TileType data_type
  | QuantizedType elem_type | OtherType

text \<open>A tile of another data type is an assertion failure or no data type.\<close>

fun elementTypeToDataTypeImpl :: "elem_type \<Rightarrow> data_type option" where
  "elementTypeToDataTypeImpl (QuantizedType storage) =
     (case storage of QuantizedType t \<Rightarrow> None | _ \<Rightarrow> elementTypeToDataTypeImpl storage)"
| "elementTypeToDataTypeImpl BFloat16Type = Some BFloat16"
| "elementTypeToDataTypeImpl (TileType d) =
     (if d \<in> {BFP_BFloat8, BFP_BFloat4, BFP_BFloat2, BFP_Float8, BFP_Float4, BFP_Float2, Float32, BFloat16, Int32}
      then Some d else None)"
| "elementTypeToDataTypeImpl (FloatType w) =
     (if w = 32 \<or> w = 64 then Some Float32 else if w = 16 then Some Float16 else None)"
| "elementTypeToDataTypeImpl (IntegerType w s) =
     (if w = 1 then Some Bool else if w = 8 then Some UInt8 else if w = 16 then Some UInt16
      else if w = 32 \<or> w = 64 then Some (if s = Signed \<or> s = Signless then Int32 else UInt32) else None)"
| "elementTypeToDataTypeImpl IndexType = Some UInt32"
| "elementTypeToDataTypeImpl OtherType = None"

definition dataTypeToElementType :: "data_type \<Rightarrow> elem_type" where
  "dataTypeToElementType d =
     (case d of
        Float32 \<Rightarrow> FloatType 32
      | Float16 \<Rightarrow> BFloat16Type
      | BFloat16 \<Rightarrow> BFloat16Type
      | BFP_Float8 \<Rightarrow> TileType BFP_Float8
      | BFP_BFloat8 \<Rightarrow> TileType BFP_BFloat8
      | BFP_Float4 \<Rightarrow> TileType BFP_Float4
      | BFP_BFloat4 \<Rightarrow> TileType BFP_BFloat4
      | BFP_Float2 \<Rightarrow> TileType BFP_Float2
      | BFP_BFloat2 \<Rightarrow> TileType BFP_BFloat2
      | UInt32 \<Rightarrow> IntegerType 32 Unsigned
      | UInt16 \<Rightarrow> IntegerType 16 Unsigned
      | UInt8 \<Rightarrow> IntegerType 8 Unsigned
      | Int32 \<Rightarrow> IntegerType 32 Signed
      | Bool \<Rightarrow> IntegerType 1 Signless)"

definition toTTMLIRSupportedDataType :: "elem_type \<Rightarrow> elem_type option" where
  "toTTMLIRSupportedDataType t =
     (case elementTypeToDataTypeImpl t of
        None \<Rightarrow> None
      | Some d \<Rightarrow> Some (if d = Bool then dataTypeToElementType BFloat16 else dataTypeToElementType d))"

text \<open>\<open>getDataType\<close> reads the data type of a tile directly.\<close>

definition getDataType :: "elem_type \<Rightarrow> data_type option" where
  "getDataType t = (case t of TileType d \<Rightarrow> Some d | _ \<Rightarrow> elementTypeToDataTypeImpl t)"

section \<open>Sizes\<close>

definition isSignedInteger :: "data_type \<Rightarrow> bool" where
  "isSignedInteger d \<longleftrightarrow> d = Int32"

definition isFloat :: "data_type \<Rightarrow> bool" where
  "isFloat d \<longleftrightarrow> d \<in> {Float32, Float16, BFloat16, BFP_Float8, BFP_BFloat8, BFP_Float4, BFP_BFloat4, BFP_Float2, BFP_BFloat2}"

definition getExponentSize :: "data_type \<Rightarrow> nat" where
  "getExponentSize d =
     (if d \<in> {Float16, BFP_Float8, BFP_Float4, BFP_Float2} then 5
      else if d \<in> {Float32, BFloat16, BFP_BFloat8, BFP_BFloat4, BFP_BFloat2} then 8 else 0)"

definition getMantissaSize :: "data_type \<Rightarrow> nat" where
  "getMantissaSize d =
     (case d of
        Float32 \<Rightarrow> 23 | Float16 \<Rightarrow> 10 | BFloat16 \<Rightarrow> 7
      | BFP_Float8 \<Rightarrow> 7 | BFP_BFloat8 \<Rightarrow> 7 | BFP_Float4 \<Rightarrow> 3 | BFP_BFloat4 \<Rightarrow> 3
      | BFP_Float2 \<Rightarrow> 1 | BFP_BFloat2 \<Rightarrow> 1 | _ \<Rightarrow> 0)"

definition getNumberOfBits :: "data_type \<Rightarrow> nat" where
  "getNumberOfBits d =
     (case d of
        Float32 \<Rightarrow> 32 | UInt32 \<Rightarrow> 32 | Int32 \<Rightarrow> 32
      | Float16 \<Rightarrow> 16 | BFloat16 \<Rightarrow> 16 | UInt16 \<Rightarrow> 16
      | BFP_Float8 \<Rightarrow> 8 | BFP_BFloat8 \<Rightarrow> 8 | UInt8 \<Rightarrow> 8
      | BFP_Float4 \<Rightarrow> 4 | BFP_BFloat4 \<Rightarrow> 4
      | BFP_Float2 \<Rightarrow> 2 | BFP_BFloat2 \<Rightarrow> 2
      | Bool \<Rightarrow> 1)"

definition isNarrowingConversion :: "data_type \<Rightarrow> data_type \<Rightarrow> bool" where
  "isNarrowingConversion src dst =
     (let srcIsFloat = isFloat src; dstIsFloat = isFloat dst; srcBits = getNumberOfBits src; dstBits = getNumberOfBits dst
      in if srcIsFloat \<and> \<not> dstIsFloat then True
         else if srcIsFloat \<and> dstIsFloat then
           getExponentSize src > getExponentSize dst \<or> getMantissaSize src > getMantissaSize dst
         else if \<not> srcIsFloat \<and> dstIsFloat then
           (if isSignedInteger src then srcBits - 1 > getMantissaSize dst else srcBits > getMantissaSize dst)
         else let srcIsSigned = isSignedInteger src; dstIsSigned = isSignedInteger dst
              in if srcIsSigned = dstIsSigned then srcBits > dstBits
                 else if \<not> srcIsSigned \<and> dstIsSigned then srcBits \<ge> dstBits
                 else True)"

text \<open>The destination register, in tiles: halved without full synchronisation, and again for 32-bit
  data.\<close>

definition getDstLogicalSizeTiles :: "nat \<Rightarrow> data_type \<Rightarrow> bool \<Rightarrow> nat \<Rightarrow> nat" where
  "getDstLogicalSizeTiles physicalSizeTiles dataType fullSyncEn overridePhysicalSize =
     (let n = (if overridePhysicalSize > 0 then overridePhysicalSize else physicalSizeTiles);
          n = (if \<not> fullSyncEn then n div 2 else n)
      in if getNumberOfBits dataType = 32 then n div 2 else n)"

section \<open>Folding type casts\<close>

text \<open>Two consecutive casts \<open>dtypeIn\<close>, \<open>dtypeMid\<close>, \<open>dtypeOut\<close>: the merged
  cast has the last type and is conservative if both were; None when they are not merged.\<close>

definition canonicalize_typecast :: "data_type \<Rightarrow> data_type \<Rightarrow> data_type \<Rightarrow> bool \<Rightarrow> bool \<Rightarrow> (data_type \<times> bool) option" where
  "canonicalize_typecast dtypeIn dtypeMid dtypeOut conservative producerConservative =
     (if (conservative \<or> producerConservative) \<and>
         (isFloat dtypeIn \<and> \<not> isFloat dtypeMid \<and> isFloat dtypeOut \<or>
          isNarrowingConversion dtypeIn dtypeMid \<and> \<not> isNarrowingConversion dtypeMid dtypeOut)
      then None else Some (dtypeOut, conservative \<and> producerConservative))"

text \<open>A cast read by a \<open>to_tensor_spec\<close> back to the type of its input is bypassed when it is not
  narrowing. A missing data type attribute is None.\<close>

definition foldTypecastIntoToTensorSpecOp :: "data_type option \<Rightarrow> data_type option \<Rightarrow> data_type option \<Rightarrow> bool" where
  "foldTypecastIntoToTensorSpecOp inDtype midDtype outDtype =
     (case (inDtype, midDtype, outDtype) of
        (Some i, Some m, Some out) \<Rightarrow> i = out \<and> \<not> isNarrowingConversion i m
      | _ \<Rightarrow> False)"

end
