(* ===== verification/NarrowProps.thy ===== *)
theory NarrowProps
  imports DataTypes Complex_Main
begin

text \<open>
  What a conversion that is not narrowing promises. A value is a real number; a floating point type with
  an exponent and a mantissa size holds the numbers \<open>k * 2 powr q\<close> whose significand has one bit more
  than the mantissa and whose exponent is in range (zero and the subnormal numbers included, infinities
  and NaNs not). In the block formats the elements of a block share an exponent, so that the two sizes do
  not describe their values; they are left out.
\<close>

section \<open>Values\<close>

definition float_value :: "nat \<Rightarrow> nat \<Rightarrow> real \<Rightarrow> bool" where
  "float_value e m v \<longleftrightarrow>
     (\<exists>k q :: int. v = of_int k * 2 powr of_int q \<and> \<bar>k\<bar> < 2 ^ (m + 1) \<and> 2 - 2 ^ (e - 1) - int m \<le> q \<and> \<bar>v\<bar> < 2 powr (2 ^ (e - 1)))"

definition int_value :: "bool \<Rightarrow> nat \<Rightarrow> real \<Rightarrow> bool" where
  "int_value sg bits v \<longleftrightarrow>
     (\<exists>k :: int. v = of_int k \<and> (if sg then - (2 ^ (bits - 1)) \<le> k \<and> k < 2 ^ (bits - 1) else 0 \<le> k \<and> k < 2 ^ bits))"

definition data_value :: "data_type \<Rightarrow> real \<Rightarrow> bool" where
  "data_value d v \<longleftrightarrow>
     (if isFloat d then float_value (getExponentSize d) (getMantissaSize d) v
      else int_value (isSignedInteger d) (getNumberOfBits d) v)"

definition block_format :: "data_type \<Rightarrow> bool" where
  "block_format d \<longleftrightarrow> d \<in> {BFP_Float8, BFP_BFloat8, BFP_Float4, BFP_BFloat4, BFP_Float2, BFP_BFloat2}"

lemma float_value_mono:
  assumes "float_value e m v" "e \<le> e'" "m \<le> m'"
  shows "float_value e' m' v"
proof -
  obtain k q :: int where v: "v = of_int k * 2 powr of_int q" "\<bar>k\<bar> < 2 ^ (m + 1)" "2 - 2 ^ (e - 1) - int m \<le> q"
    "\<bar>v\<bar> < 2 powr (2 ^ (e - 1))" using assms(1) by (auto simp: float_value_def)
  have p: "(2::int) ^ (e - 1) \<le> 2 ^ (e' - 1)" "(2::real) ^ (e - 1) \<le> 2 ^ (e' - 1)" "(2::int) ^ (m + 1) \<le> 2 ^ (m' + 1)"
    using assms(2,3) by (intro power_increasing; simp)+
  have "(2::real) powr (2 ^ (e - 1)) \<le> 2 powr (2 ^ (e' - 1))" by (rule powr_mono) (use p(2) in simp_all)
  then have "\<bar>v\<bar> < 2 powr (2 ^ (e' - 1))" by (rule less_le_trans [OF v(4)])
  moreover have "\<bar>k\<bar> < 2 ^ (m' + 1)" using v(2) p(3) by (rule less_le_trans)
  moreover have "2 - 2 ^ (e' - 1) - int m' \<le> q" using v(3) p(1) assms(3) by linarith
  ultimately show ?thesis unfolding float_value_def using v(1) by blast
qed

lemma int_value_float:
  assumes "int_value False bits v" "bits \<le> m" "m \<le> 2 ^ (e - 1)" "0 < m"
  shows "float_value e m v"
proof -
  obtain k :: int where k: "v = of_int k" "0 \<le> k" "k < 2 ^ bits" using assms(1) by (auto simp: int_value_def)
  have pm: "(2::int) ^ bits \<le> 2 ^ m" using assms(2) by (intro power_increasing) auto
  have lt: "k < 2 ^ m" using k(3) pm by (rule less_le_trans)
  then have "real_of_int k < real_of_int (2 ^ m)" by (simp only: of_int_less_iff)
  then have "real_of_int k < 2 powr real m" by (simp add: powr_realpow)
  also have "\<dots> \<le> 2 powr (2 ^ (e - 1))"
  proof (rule powr_mono)
    have "real m \<le> real (2 ^ (e - 1))" using assms(3) by (simp only: of_nat_le_iff)
    then show "real m \<le> 2 ^ (e - 1)" by simp
  qed simp
  finally have "\<bar>v\<bar> < 2 powr (2 ^ (e - 1))" using k by simp
  moreover have "\<bar>k\<bar> < 2 ^ (m + 1)" using lt k(2) by simp
  moreover have "(2::int) - 2 ^ (e - 1) - int m \<le> 0"
  proof -
    have "(1::int) \<le> 2 ^ (e - 1)" by simp
    then show ?thesis using assms(4) by linarith
  qed
  ultimately show ?thesis unfolding float_value_def using k(1) by (intro exI [of _ k] exI [of _ 0]) simp
qed

lemma int_value_mono:
  assumes "int_value s bits v" "bits \<le> bits'"
  shows "int_value s bits' v"
proof -
  obtain k :: int where k: "v = of_int k" "if s then - (2 ^ (bits - 1)) \<le> k \<and> k < 2 ^ (bits - 1) else 0 \<le> k \<and> k < 2 ^ bits"
    using assms(1) by (auto simp: int_value_def)
  have p: "(2::int) ^ bits \<le> 2 ^ bits'" "(2::int) ^ (bits - 1) \<le> 2 ^ (bits' - 1)" using assms(2) by (intro power_increasing; simp)+
  have "if s then - (2 ^ (bits' - 1)) \<le> k \<and> k < 2 ^ (bits' - 1) else 0 \<le> k \<and> k < 2 ^ bits'"
  proof (cases s)
    case True
    then have "- (2 ^ (bits - 1)) \<le> k" "k < 2 ^ (bits - 1)" using k(2) by simp_all
    then have "- (2 ^ (bits' - 1)) \<le> k \<and> k < 2 ^ (bits' - 1)" using p(2) by linarith
    then show ?thesis using True by simp
  next
    case False
    then have "0 \<le> k" "k < 2 ^ bits" using k(2) by simp_all
    then have "0 \<le> k \<and> k < 2 ^ bits'" using p(1) by linarith
    then show ?thesis using False by simp
  qed
  then show ?thesis unfolding int_value_def using k(1) by blast
qed

lemma int_value_signed:
  assumes "int_value False bits v" "bits < bits'"
  shows "int_value True bits' v"
proof -
  obtain k :: int where k: "v = of_int k" "0 \<le> k" "k < 2 ^ bits" using assms(1) by (auto simp: int_value_def)
  have "(2::int) ^ bits \<le> 2 ^ (bits' - 1)" using assms(2) by (intro power_increasing; simp)
  moreover have "- (2 ^ (bits' - 1)) \<le> (0::int)" by simp
  ultimately have "- (2 ^ (bits' - 1)) \<le> k \<and> k < 2 ^ (bits' - 1)" using k by linarith
  then show ?thesis unfolding int_value_def using k(1) by auto
qed

section \<open>Lossless conversions\<close>

lemma float_sizes: "isFloat d \<Longrightarrow> 0 < getMantissaSize d \<and> getMantissaSize d \<le> 2 ^ (getExponentSize d - 1)"
  by (cases d) (simp_all add: isFloat_def getMantissaSize_def getExponentSize_def)

text \<open>C40: a conversion between scalar types, those that are not one of the six block formats, that is not
  narrowing is lossless: every value of the source type, integer or floating point, is exactly a value of the
  destination type.\<close>

theorem not_narrowing_lossless:
  assumes "\<not> isNarrowingConversion src dst" "\<not> block_format src" "\<not> block_format dst" "data_value src v"
  shows "data_value dst v"
proof (cases "isFloat src")
  case True
  then have d: "isFloat dst" "getExponentSize src \<le> getExponentSize dst" "getMantissaSize src \<le> getMantissaSize dst"
    using assms(1) by (auto simp: isNarrowingConversion_def Let_def split: if_splits)
  then show ?thesis using assms(4) True float_value_mono by (auto simp: data_value_def)
next
  case False
  show ?thesis
  proof (cases "isFloat dst")
    case True
    have "\<not> isSignedInteger src"
    proof
      assume "isSignedInteger src"
      then have "31 \<le> getMantissaSize dst"
        using assms(1) False True by (simp add: isNarrowingConversion_def Let_def isSignedInteger_def getNumberOfBits_def)
      then show False by (cases dst) (simp_all add: getMantissaSize_def)
    qed
    moreover have "getNumberOfBits src \<le> getMantissaSize dst"
      using assms(1) False True calculation by (simp add: isNarrowingConversion_def Let_def)
    ultimately show ?thesis using assms(4) False True int_value_float float_sizes [OF True] by (simp add: data_value_def)
  next
    case dst: False
    have "isSignedInteger src = isSignedInteger dst \<and> getNumberOfBits src \<le> getNumberOfBits dst \<or>
        \<not> isSignedInteger src \<and> isSignedInteger dst \<and> getNumberOfBits src < getNumberOfBits dst"
      using assms(1) False dst by (auto simp: isNarrowingConversion_def Let_def split: if_splits)
    then show ?thesis
      using assms(4) False dst int_value_mono int_value_signed unfolding data_value_def by (elim disjE) auto
  qed
qed

lemma int_data_value:
  "\<not> isFloat d \<Longrightarrow> \<not> isSignedInteger d \<Longrightarrow> 0 \<le> k \<Longrightarrow> k < 2 ^ getNumberOfBits d \<Longrightarrow> data_value d (of_int k)"
  by (auto simp: data_value_def int_value_def)

lemma not_narrowing_lossless_witness:
  "\<not> isNarrowingConversion UInt8 Float16 \<and> data_value UInt8 255 \<and> data_value Float16 255 \<and>
   \<not> isNarrowingConversion UInt16 Int32 \<and> data_value UInt16 65535 \<and> data_value Int32 65535"
proof -
  have v: "data_value UInt8 255" "data_value UInt16 65535"
    using int_data_value [of UInt8 255] int_data_value [of UInt16 65535] by (simp_all add: isFloat_def isSignedInteger_def getNumberOfBits_def)
  have n: "\<not> isNarrowingConversion UInt8 Float16" "\<not> isNarrowingConversion UInt16 Int32" by code_simp+
  have b: "\<not> block_format UInt8" "\<not> block_format Float16" "\<not> block_format UInt16" "\<not> block_format Int32"
    by (simp_all add: block_format_def)
  show ?thesis using not_narrowing_lossless [OF n(1) b(1,2) v(1)] not_narrowing_lossless [OF n(2) b(3,4) v(2)] n v by blast
qed

text \<open>Eight bits per element cannot hold a BFloat16, yet the conversion is not narrowing.\<close>

lemma block_conversion_not_narrowing:
  "\<not> isNarrowingConversion BFloat16 BFP_BFloat8 \<and> getNumberOfBits BFP_BFloat8 < getNumberOfBits BFloat16"
  by code_simp

section \<open>Folding casts\<close>

text \<open>A cast rounds or converts in whatever way, but keeps a value that the target type has.\<close>

definition legal_cast :: "(data_type \<Rightarrow> real \<Rightarrow> real) \<Rightarrow> bool" where
  "legal_cast cast \<longleftrightarrow> (\<forall>d v. data_value d v \<longrightarrow> cast d v = v)"

text \<open>Folding casts keeps values. Merging two casts, of which the first is not narrowing, into one
  cast to the last type gives the same value; a cast that a \<open>to_tensor_spec\<close> bypasses was undone by
  it exactly. With conservative folding, a cast chain from float through integer to float is never merged,
  nor one that narrows and then widens.\<close>

lemma typecast_folds_keep_values:
  assumes "legal_cast cast" "data_value i x" "\<not> block_format i" "\<not> block_format m"
  shows "(canonicalize_typecast i m out c p = Some (d, c') \<longrightarrow> \<not> isNarrowingConversion i m \<longrightarrow> cast d x = cast out (cast m x)) \<and>
    (foldTypecastIntoToTensorSpecOp (Some i) (Some m) (Some out) \<longrightarrow> cast out (cast m x) = x) \<and>
    (canonicalize_typecast i m out c p \<noteq> None \<longrightarrow> c \<or> p \<longrightarrow>
      \<not> (isFloat i \<and> \<not> isFloat m \<and> isFloat out) \<and> \<not> (isNarrowingConversion i m \<and> \<not> isNarrowingConversion m out))"
proof -
  have mid: "cast m x = x" if "\<not> isNarrowingConversion i m"
    using not_narrowing_lossless [OF that assms(3,4,2)] assms(1) by (simp add: legal_cast_def)
  have "cast i x = x" using assms(1,2) by (simp add: legal_cast_def)
  then show ?thesis using mid by (auto simp: canonicalize_typecast_def foldTypecastIntoToTensorSpecOp_def split: if_splits)
qed

end
