(* ===== verification/Factors.thy ===== *)
theory Factors
  imports Tensors
begin

text \<open>
  \<open>ttmlir::utils::getFactors\<close> of \<open>include/ttmlir/Utils.h\<close>: the divisors of a number, used by
  the search for chunk sizes and for physical grids.
\<close>

primrec isqrt :: "nat \<Rightarrow> nat" where
  "isqrt 0 = 0"
| "isqrt (Suc n) = (let r = isqrt n in if (r + 1) * (r + 1) \<le> Suc n then r + 1 else r)"

definition getFactors :: "int \<Rightarrow> int list" where
  "getFactors v =
     (let value = \<bar>v\<bar>
      in if value = 1 then [1]
         else let limit = int (isqrt (nat value));
                  lowFactors = filter (\<lambda>i. value mod i = 0) (rev [1..limit]);
                  highFactors = map (\<lambda>i. value div i) lowFactors
              in rev lowFactors @ highFactors)"

lemma isqrt_bounds: "isqrt n * isqrt n \<le> n \<and> n < (isqrt n + 1) * (isqrt n + 1)"
proof (induction n)
  case (Suc n)
  then show ?case by (auto simp: Let_def)
qed simp

lemma low_factor:
  assumes "1 \<le> v" "1 \<le> i" "i dvd v" "\<not> i \<le> int (isqrt (nat v))"
  shows "1 \<le> v div i \<and> v div i \<le> int (isqrt (nat v)) \<and> v div i dvd v \<and> v div (v div i) = i"
proof -
  obtain k where k: "v = i * k" using assms(3) by auto
  then have "0 < i * k" using assms(1) by simp
  then have k1: "1 \<le> k" using assms(2) by (simp add: zero_less_mult_iff)
  let ?r = "isqrt (nat v)"
  have "k \<le> int ?r"
  proof (rule ccontr)
    assume "\<not> k \<le> int ?r"
    then have "(int ?r + 1) * (int ?r + 1) \<le> i * k" using assms(4) by (intro mult_mono) auto
    moreover have "v < (int ?r + 1) * (int ?r + 1)"
    proof -
      have "int (nat v) < int ((?r + 1) * (?r + 1))" using isqrt_bounds [of "nat v"] by (simp only: of_nat_less_iff)
      then show ?thesis using assms(1) by (simp add: algebra_simps)
    qed
    ultimately show False using k by simp
  qed
  then show ?thesis using k k1 assms(2) by auto
qed

lemma getFactors_set:
  assumes "1 \<le> v"
  shows "set (getFactors v) = {d. 1 \<le> d \<and> d dvd v}"
proof (cases "v = 1")
  case True
  then show ?thesis by (auto simp: getFactors_def)
next
  case False
  let ?lim = "int (isqrt (nat v))"
  let ?low = "{i. 1 \<le> i \<and> i \<le> ?lim \<and> i dvd v}"
  have s: "set (getFactors v) = ?low \<union> (\<lambda>i. v div i) ` ?low"
    using False assms by (auto simp: getFactors_def Let_def dvd_eq_mod_eq_0)
  have "d \<in> ?low \<union> (\<lambda>i. v div i) ` ?low" if "1 \<le> d" "d dvd v" for d
  proof (cases "d \<le> ?lim")
    case False
    from low_factor [OF assms that(1,2) False] have "v div d \<in> ?low" "d = v div (v div d)" by auto
    then show ?thesis by blast
  qed (use that in simp)
  moreover have "1 \<le> v div i \<and> v div i dvd v" if "i \<in> ?low" for i
  proof -
    from that have i: "1 \<le> i" "i dvd v" by auto
    then obtain k where k: "v = i * k" by auto
    then have "0 < i * k" using assms by simp
    then have "0 < k" using i(1) by (simp add: zero_less_mult_iff)
    then show ?thesis using i(1) k by auto
  qed
  ultimately show ?thesis unfolding s by blast
qed

text \<open>Every factor of a perfect square that is its root appears twice.\<close>

lemma getFactors_square: "getFactors 4 = [1, 2, 2, 4]"
  by code_simp

lemma getFactors_sorted:
  assumes "1 \<le> v"
  shows "sorted (getFactors v)"
proof (cases "v = 1")
  case False
  let ?lim = "int (isqrt (nat v))"
  let ?low = "filter (\<lambda>i. v mod i = 0) [1..?lim]"
  have f: "getFactors v = ?low @ rev (map (\<lambda>i. v div i) ?low)"
    using False assms by (simp add: getFactors_def Let_def rev_filter rev_map)
  have low: "sorted ?low" by (intro sorted_wrt_filter sorted_upto)
  have high: "sorted (rev (map (\<lambda>i. v div i) ?low))"
    unfolding sorted_wrt_rev sorted_wrt_map
    by (rule sorted_wrt_mono_rel [OF _ low]) (use assms in \<open>auto intro: zdiv_mono2\<close>)
  have "i \<le> v div j" if "i \<in> set ?low" "j \<in> set ?low" for i j
  proof -
    have "isqrt (nat v) * isqrt (nat v) \<le> nat v" using isqrt_bounds [of "nat v"] by blast
    then have "?lim * ?lim \<le> v" using assms by (metis int_nat_eq nat_le_iff of_nat_mult order_trans zero_le_one zle_int)
    moreover have "0 < j" "j \<le> ?lim" "i \<le> ?lim" "0 \<le> i" using that by auto
    moreover from this have "i * j \<le> ?lim * ?lim" by (intro mult_mono) auto
    ultimately have "i * j div j \<le> v div j" by (intro zdiv_mono1) auto
    then show ?thesis using \<open>0 < j\<close> by simp
  qed
  then show ?thesis unfolding f sorted_append using low high by auto
qed (simp add: getFactors_def)

end
