(* ===== verification/DstModel.thy ===== *)
theory DstModel
  imports DataTypes Factors
begin

text \<open>
  Packing of results into the destination register, \<open>lib/Dialect/D2M/Utils/DstRegisterAnalysis.cpp\<close>.
  A value is a number with a type; a linalg operation has its outputs and the compute operations of its
  region. \<open>Inl NoInfo\<close> is \<open>std::nullopt\<close>, \<open>Inl Asserted\<close> a failed
  \<open>TT_assertv\<close> or an unreachable point. Sizes are not negative, so the integer divisions are
  \<open>div\<close>.
\<close>

datatype dst_error = NoInfo | Asserted

type_synonym 'a packing = "(dst_error, 'a) result"

section \<open>Operations\<close>

datatype compute_op = FpuTileOp | BinaryTileOp elem_type elem_type | OtherTileOp

record shaped_type =
  st_shape :: shape
  st_static :: bool
  st_elem :: elem_type

type_synonym types = "nat \<Rightarrow> shaped_type option"

record linalg_op =
  outputs :: "nat list"
  compute_ops :: "compute_op list"

datatype exec_class = FPU | SFPU

definition classifyComputeOp :: "compute_op \<Rightarrow> exec_class" where
  "classifyComputeOp op =
     (case op of
        FpuTileOp \<Rightarrow> FPU
      | BinaryTileOp lhsType rhsType \<Rightarrow>
          if getDataType lhsType = Some Float32 \<or> getDataType rhsType = Some Float32 then SFPU
          else (case rhsType of TileType d \<Rightarrow> FPU | _ \<Rightarrow> SFPU)
      | OtherTileOp \<Rightarrow> SFPU)"

definition classifyLinalgExecutionClass :: "linalg_op \<Rightarrow> exec_class" where
  "classifyLinalgExecutionClass op =
     (if compute_ops op = [] then SFPU
      else if list_ex (\<lambda>c. classifyComputeOp c = SFPU) (compute_ops op) then SFPU else FPU)"

section \<open>Capacities\<close>

text \<open>The smallest logical size over the outputs, starting from the largest \<open>unsigned\<close>.\<close>

fun min_logical :: "nat \<Rightarrow> types \<Rightarrow> nat list \<Rightarrow> nat \<Rightarrow> nat packing" where
  "min_logical chip types [] acc = Inr acc"
| "min_logical chip types (out # outs) acc =
     (case types out of
        None \<Rightarrow> Inl NoInfo
      | Some sty \<Rightarrow>
          (case st_elem sty of
             TileType d \<Rightarrow>
               (case elementTypeToDataTypeImpl (dataTypeToElementType d) of
                  None \<Rightarrow> Inl Asserted
                | Some dataType \<Rightarrow> min_logical chip types outs (min acc (getDstLogicalSizeTiles chip dataType False 0)))
           | _ \<Rightarrow> Inl NoInfo))"

definition getMaxDstTilesForLinalgOp :: "nat \<Rightarrow> types \<Rightarrow> linalg_op \<Rightarrow> nat \<Rightarrow> int packing" where
  "getMaxDstTilesForLinalgOp chip types op maxDstPhysicalSizeTiles =
     (if outputs op = [] then Inl NoInfo
      else case min_logical chip types (outputs op) (2 ^ 32 - 1) of
             Inl e \<Rightarrow> Inl e
           | Inr logical \<Rightarrow>
               let dstLogicalSizeTiles = (if maxDstPhysicalSizeTiles > 0 then min logical maxDstPhysicalSizeTiles else logical);
                   coResidentTiles = int (length (outputs op));
                   tilesOnHW = (if classifyLinalgExecutionClass op = FPU then int dstLogicalSizeTiles
                                else int dstLogicalSizeTiles div 2)
               in if tilesOnHW < coResidentTiles then Inl NoInfo else Inr (tilesOnHW div coResidentTiles))"

fun chunk_loop :: "int \<Rightarrow> nat \<Rightarrow> int packing" where
  "chunk_loop shardSizeTiles 0 = Inl Asserted"
| "chunk_loop shardSizeTiles (Suc n) =
     (if shardSizeTiles mod int (Suc n) \<noteq> 0 then chunk_loop shardSizeTiles n else Inr (int (Suc n)))"

definition getLargestLegalChunkSize :: "int \<Rightarrow> int \<Rightarrow> int packing" where
  "getLargestLegalChunkSize shardSizeTiles maxDstTiles =
     (if \<not> maxDstTiles > 0 then Inl Asserted
      else if \<not> shardSizeTiles > 0 then Inl Asserted
      else if shardSizeTiles = 1 then Inr 1
      else chunk_loop shardSizeTiles (nat (min maxDstTiles (shardSizeTiles div 2))))"

definition getLargestCommonNumOuterLoopIters :: "int list \<Rightarrow> int packing" where
  "getLargestCommonNumOuterLoopIters numDstFlipsPerOp =
     (case numDstFlipsPerOp of
        [] \<Rightarrow> Inl NoInfo
      | front # rest \<Rightarrow>
          let maxCandidate = fold (\<lambda>f c. min c (f div 2)) rest (front div 2);
              gcdNumDstFlips = fold (\<lambda>f g. gcd g f) rest front
          in if \<not> maxCandidate \<ge> 1 then Inl Asserted
             else case find (\<lambda>factor. factor \<le> maxCandidate) (rev (getFactors gcdNumDstFlips)) of
                    None \<Rightarrow> Inl Asserted
                  | Some factor \<Rightarrow> Inr factor)"

section \<open>Results\<close>

record result_info =
  numDstFlips :: int
  numTilesPerFlip :: int
  numTilesPerResult :: int

record region_info =
  perResult :: "nat \<rightharpoonup> result_info"
  regionTilesPerResult :: int
  numOuterLoopIters :: int

record pending_result =
  outputValue :: nat
  p_shard :: int
  p_tilesPerFlip :: int
  p_flips :: int

definition try_emplace :: "nat \<Rightarrow> result_info \<Rightarrow> (nat \<rightharpoonup> result_info) \<Rightarrow> (nat \<rightharpoonup> result_info)" where
  "try_emplace v info m = (if v \<in> dom m then m else m(v \<mapsto> info))"

section \<open>Chunking along the shared rows\<close>

record op_info =
  i_output :: nat
  rowDim :: int
  colProduct :: int
  i_shard :: int
  i_maxDst :: int

fun shared_infos :: "nat \<Rightarrow> types \<Rightarrow> nat \<Rightarrow> int \<Rightarrow> linalg_op list \<Rightarrow> (int \<times> op_info list) packing" where
  "shared_infos chip types maxP commonRowDim [] = Inr (commonRowDim, [])"
| "shared_infos chip types maxP commonRowDim (op # ops) =
     (case outputs op of
        [] \<Rightarrow> Inl Asserted
      | out # _ \<Rightarrow>
         (case types out of
            None \<Rightarrow> Inl NoInfo
          | Some ty \<Rightarrow>
             if \<not> st_static ty \<or> length (st_shape ty) < 2 then Inl NoInfo
             else let row = hd (st_shape ty); col = foldl (*) 1 (tl (st_shape ty)); shard = row * col
                  in if shard \<le> 1 then Inl NoInfo
                     else case getMaxDstTilesForLinalgOp chip types op maxP of
                            Inl e \<Rightarrow> Inl e
                          | Inr maxDst \<Rightarrow>
                              let common = (if commonRowDim = -1 then row else commonRowDim)
                              in if row \<noteq> common then Inl NoInfo
                                 else (case shared_infos chip types maxP common ops of
                                         Inl e \<Rightarrow> Inl e
                                       | Inr (c, is) \<Rightarrow>
                                           Inr (c, \<lparr>i_output = out, rowDim = row, colProduct = col, i_shard = shard, i_maxDst = maxDst\<rparr> # is))))"

text \<open>One candidate \<open>R\<close>: None when it is not valid for every operation.\<close>

fun shared_results :: "int \<Rightarrow> op_info list \<Rightarrow> (nat \<rightharpoonup> result_info) \<Rightarrow> (nat \<rightharpoonup> result_info) option packing" where
  "shared_results numOuterIters [] m = Inr (Some m)"
| "shared_results numOuterIters (info # infos) m =
     (let perIterShard = i_shard info div numOuterIters
      in if perIterShard < 2 then Inr None
         else case getLargestLegalChunkSize perIterShard (i_maxDst info) of
                Inl e \<Rightarrow> Inl e
              | Inr maxFlip \<Rightarrow>
                  let tilesPerFlip = min maxFlip (colProduct info); flips = perIterShard div tilesPerFlip
                  in if flips < 2 then Inr None
                     else shared_results numOuterIters infos
                       (try_emplace (i_output info) \<lparr>numDstFlips = flips, numTilesPerFlip = tilesPerFlip, numTilesPerResult = perIterShard\<rparr> m))"

fun shared_candidates :: "int \<Rightarrow> op_info list \<Rightarrow> int list \<Rightarrow> region_info packing" where
  "shared_candidates commonRowDim infos [] = Inl NoInfo"
| "shared_candidates commonRowDim infos (R # Rs) =
     (if R \<ge> commonRowDim \<or> R < 2 then shared_candidates commonRowDim infos Rs
      else let numOuterIters = commonRowDim div R
           in case shared_results numOuterIters infos Map.empty of
                Inl e \<Rightarrow> Inl e
              | Inr None \<Rightarrow> shared_candidates commonRowDim infos Rs
              | Inr (Some m) \<Rightarrow> Inr \<lparr>perResult = m, regionTilesPerResult = i_shard (hd infos) div numOuterIters,
                  numOuterLoopIters = numOuterIters\<rparr>)"

definition trySharedParallelChunking :: "nat \<Rightarrow> types \<Rightarrow> linalg_op list \<Rightarrow> nat \<Rightarrow> region_info packing" where
  "trySharedParallelChunking chip types linalgOps maxP =
     (case shared_infos chip types maxP (-1) linalgOps of
        Inl e \<Rightarrow> Inl e
      | Inr (commonRowDim, infos) \<Rightarrow>
          if length infos < 2 \<or> commonRowDim < 2 then Inl NoInfo
          else shared_candidates commonRowDim infos (rev (getFactors commonRowDim)))"

section \<open>A region\<close>

text \<open>The outputs of one-tile shards, and the pending results.\<close>

fun collect_pending ::
  "nat \<Rightarrow> types \<Rightarrow> nat \<Rightarrow> (linalg_op \<times> nat) list \<Rightarrow> (nat list \<times> pending_result list) packing" where
  "collect_pending chip types maxP [] = Inr ([], [])"
| "collect_pending chip types maxP ((op, out) # rest) =
     (case types out of
        None \<Rightarrow> Inl NoInfo
      | Some ty \<Rightarrow>
          if \<not> st_static ty then Inl NoInfo
          else let shard = volume (st_shape ty) 1
               in if shard = 1
                  then (case collect_pending chip types maxP rest of Inl e \<Rightarrow> Inl e | Inr (singles, ps) \<Rightarrow> Inr (out # singles, ps))
                  else (case getMaxDstTilesForLinalgOp chip types op maxP of
                          Inl e \<Rightarrow> Inl e
                        | Inr maxDst \<Rightarrow>
                           (case getLargestLegalChunkSize shard maxDst of
                              Inl e \<Rightarrow> Inl e
                            | Inr perFlip \<Rightarrow>
                               if \<not> shard div perFlip \<ge> 2 then Inl Asserted
                               else (case collect_pending chip types maxP rest of
                                       Inl e \<Rightarrow> Inl e
                                     | Inr (singles, ps) \<Rightarrow>
                                         Inr (singles, \<lparr>outputValue = out, p_shard = shard, p_tilesPerFlip = perFlip,
                                           p_flips = shard div perFlip\<rparr> # ps)))))"

definition normalize_pending :: "pending_result list \<Rightarrow> pending_result list" where
  "normalize_pending ps =
     (case ps of
        [] \<Rightarrow> []
      | p # _ \<Rightarrow>
          let minNumTilesPerFlip = fold (\<lambda>q n. min n (p_tilesPerFlip q)) ps (p_tilesPerFlip p)
          in map (\<lambda>q. if p_tilesPerFlip q \<noteq> minNumTilesPerFlip \<and> p_shard q mod minNumTilesPerFlip = 0
                      then q\<lparr>p_tilesPerFlip := minNumTilesPerFlip, p_flips := p_shard q div minNumTilesPerFlip\<rparr> else q) ps)"

text \<open>The more restrictive entry is kept for a buffer that several operations write.\<close>

definition merge_result :: "int \<Rightarrow> pending_result \<Rightarrow> (nat \<rightharpoonup> result_info) \<Rightarrow> (nat \<rightharpoonup> result_info) packing" where
  "merge_result iters p m =
     (let flips = p_flips p div iters
      in if p_flips p mod iters \<noteq> 0 then Inl Asserted
         else if \<not> flips \<ge> 2 then Inl Asserted
         else let info = \<lparr>numDstFlips = flips, numTilesPerFlip = p_tilesPerFlip p, numTilesPerResult = flips * p_tilesPerFlip p\<rparr>
              in Inr (case m (outputValue p) of
                        None \<Rightarrow> m(outputValue p \<mapsto> info)
                      | Some old \<Rightarrow> if p_tilesPerFlip p < numTilesPerFlip old then m(outputValue p \<mapsto> info) else m))"

fun merge_results :: "int \<Rightarrow> pending_result list \<Rightarrow> (nat \<rightharpoonup> result_info) \<Rightarrow> (nat \<rightharpoonup> result_info) packing" where
  "merge_results iters [] m = Inr m"
| "merge_results iters (p # ps) m = (case merge_result iters p m of Inl e \<Rightarrow> Inl e | Inr m' \<Rightarrow> merge_results iters ps m')"

definition single_tile_info :: "nat list \<Rightarrow> region_info" where
  "single_tile_info singles =
     \<lparr>perResult = fold (\<lambda>v. try_emplace v \<lparr>numDstFlips = 1, numTilesPerFlip = 1, numTilesPerResult = 1\<rparr>) singles Map.empty,
       regionTilesPerResult = 1, numOuterLoopIters = 1\<rparr>"

definition heterogeneous :: "pending_result list \<Rightarrow> bool" where
  "heterogeneous ps = (let firstShard = p_flips (hd ps) * p_tilesPerFlip (hd ps)
                       in list_ex (\<lambda>p. p_flips p * p_tilesPerFlip p \<noteq> firstShard) ps)"

definition merged_region :: "int \<Rightarrow> pending_result list \<Rightarrow> region_info packing" where
  "merged_region iters ps =
     (case merge_results iters ps Map.empty of
        Inl e \<Rightarrow> Inl e
      | Inr m \<Rightarrow> Inr \<lparr>perResult = m, regionTilesPerResult = p_flips (hd ps) div iters * p_tilesPerFlip (hd ps),
                   numOuterLoopIters = iters\<rparr>)"

definition computeDSTPackingForRegion :: "nat \<Rightarrow> types \<Rightarrow> linalg_op list \<Rightarrow> nat \<Rightarrow> region_info packing" where
  "computeDSTPackingForRegion chip types linalgOps maxP =
     (case collect_pending chip types maxP [(op, out). op \<leftarrow> linalgOps, out \<leftarrow> outputs op] of
        Inl e \<Rightarrow> Inl e
      | Inr (singles, pending) \<Rightarrow>
          let ps = normalize_pending pending
          in if singles \<noteq> [] \<and> ps = [] then Inr (single_tile_info singles)
             else if singles \<noteq> [] then Inl NoInfo
             else if ps = [] then Inl NoInfo
             else case getLargestCommonNumOuterLoopIters (map p_flips ps) of
                    Inl e \<Rightarrow> Inl Asserted
                  | Inr iters \<Rightarrow>
                      if iters \<le> 1 \<and> length ps \<ge> 2 \<and> heterogeneous ps
                      then (case trySharedParallelChunking chip types linalgOps maxP of
                              Inr shared \<Rightarrow> Inr shared
                            | Inl Asserted \<Rightarrow> Inl Asserted
                            | Inl NoInfo \<Rightarrow> merged_region iters ps)
                      else merged_region iters ps)"

section \<open>A generic operation\<close>

text \<open>The linalg operations of a generic operation in walk order, each with its parent region. A region
  without a packing is skipped; a generic operation without any is not recorded.\<close>

definition linalgOpsByParentRegion :: "(nat \<times> linalg_op) list \<Rightarrow> nat \<Rightarrow> linalg_op list" where
  "linalgOpsByParentRegion walk region = map snd (filter (\<lambda>p. fst p = region) walk)"

definition analyze_generic :: "nat \<Rightarrow> types \<Rightarrow> nat \<Rightarrow> bool \<Rightarrow> (nat \<times> linalg_op) list \<Rightarrow> (nat \<rightharpoonup> region_info) option packing" where
  "analyze_generic chip types maxP isUnifiedForm walk =
     (if \<not> isUnifiedForm then Inr None
      else let regions = remdups (map fst walk);
               packing = (\<lambda>region. computeDSTPackingForRegion chip types (linalgOpsByParentRegion walk region) maxP)
           in if list_ex (\<lambda>region. packing region = Inl Asserted) regions then Inl Asserted
              else let entries = concat (map (\<lambda>region. case packing region of Inl e \<Rightarrow> [] | Inr r \<Rightarrow> [(region, r)]) regions)
                   in Inr (if entries = [] then None else Some (map_of entries)))"

end
