(* ===== verification/DstProps.thy ===== *)
theory DstProps
  imports DstModel
begin

text \<open>
  Facts about chunk sizes and pending results of the destination register packing.
\<close>

section \<open>Chunk sizes\<close>

lemma chunk_loop_ok:
  "chunk_loop s n = Inr k \<Longrightarrow> 1 \<le> k \<and> k \<le> int n \<and> k dvd s"
  by (induction s n rule: chunk_loop.induct) (auto simp: dvd_eq_mod_eq_0 split: if_splits)

lemma chunk_loop_total: "0 < n \<Longrightarrow> \<exists>k. chunk_loop s n = Inr k"
proof (induction n)
  case (Suc n)
  then show ?case by (cases "n = 0") auto
qed simp

lemma chunk_ok:
  assumes "getLargestLegalChunkSize s m = Inr k" "s \<noteq> 1"
  shows "1 \<le> k \<and> k \<le> m \<and> k dvd s \<and> 2 * k \<le> s"
proof -
  have c: "chunk_loop s (nat (min m (s div 2))) = Inr k" and p: "0 < m" "0 < s"
    using assms by (auto simp: getLargestLegalChunkSize_def split: if_splits)
  from chunk_loop_ok [OF c] p show ?thesis by auto
qed

lemma chunk_total:
  assumes "0 < m" "0 < s"
  shows "\<exists>k. getLargestLegalChunkSize s m = Inr k"
proof (cases "s = 1")
  case False
  then have "0 < nat (min m (s div 2))" using assms by auto
  from chunk_loop_total [OF this] show ?thesis using assms False by (auto simp: getLargestLegalChunkSize_def)
qed (use assms in \<open>simp add: getLargestLegalChunkSize_def\<close>)

text \<open>The chunk is the largest divisor that fits and is used at least twice.\<close>

lemma chunk_loop_largest: "chunk_loop s n = Inr k \<Longrightarrow> d dvd s \<Longrightarrow> 1 \<le> d \<Longrightarrow> d \<le> int n \<Longrightarrow> d \<le> k"
proof (induction s n rule: chunk_loop.induct)
  case (2 s n)
  show ?case
  proof (cases "s mod int (Suc n) = 0")
    case False
    then have "d \<noteq> int (Suc n)" using "2.prems"(2) by (auto simp: dvd_eq_mod_eq_0)
    then show ?thesis using "2.IH" [OF False] "2.prems" False by auto
  qed (use 2 in auto)
qed simp

section \<open>Capacities\<close>

lemma tile_type_data: "elementTypeToDataTypeImpl (dataTypeToElementType d) = Some (if d = Float16 then BFloat16 else d)"
  by (cases d) (simp_all add: dataTypeToElementType_def)

lemma min_logical_defined: "min_logical chip types outs acc \<noteq> Inl Asserted"
  by (induction chip types outs acc rule: min_logical.induct) (auto simp: tile_type_data split: option.splits elem_type.splits)

lemma capacity_defined: "getMaxDstTilesForLinalgOp chip types op maxP \<noteq> Inl Asserted"
  using min_logical_defined [of chip types "outputs op" "2 ^ 32 - 1"]
  by (auto simp: getMaxDstTilesForLinalgOp_def Let_def split: sum.splits)

lemma one_le_div: "0 < n \<Longrightarrow> n \<le> t \<Longrightarrow> 1 \<le> t div (n::int)"
  using zdiv_mono1 [of n t n] by simp

lemma capacity_pos:
  assumes "getMaxDstTilesForLinalgOp chip types op maxP = Inr d"
  shows "1 \<le> d"
proof -
  let ?n = "int (length (outputs op))"
  obtain logical where l: "min_logical chip types (outputs op) (2 ^ 32 - 1) = Inr logical"
    using assms by (auto simp: getMaxDstTilesForLinalgOp_def split: if_splits sum.splits)
  define t where "t = (if classifyLinalgExecutionClass op = FPU
    then int (if maxP > 0 then min logical maxP else logical) else int (if maxP > 0 then min logical maxP else logical) div 2)"
  have "d = t div ?n" "?n \<le> t" "0 < ?n"
    using assms l by (auto simp: getMaxDstTilesForLinalgOp_def t_def Let_def split: if_splits)
  then show ?thesis using one_le_div by simp
qed


text \<open>
  The packing of a region: every result covers its shard within the capacity of the destination
  register, and no assertion fails.
\<close>

section \<open>Pending results\<close>

definition shard :: "types \<Rightarrow> nat \<Rightarrow> int" where
  "shard types v = (case types v of None \<Rightarrow> 0 | Some ty \<Rightarrow> volume (st_shape ty) 1)"

text \<open>A pending result belongs to an output of an operation: its flips cover the shard and fit.\<close>

definition pending_ok :: "nat \<Rightarrow> types \<Rightarrow> nat \<Rightarrow> linalg_op \<Rightarrow> pending_result \<Rightarrow> bool" where
  "pending_ok chip types maxP op p \<longleftrightarrow>
     p_shard p = shard types (outputValue p) \<and> 2 \<le> p_flips p \<and> 1 \<le> p_tilesPerFlip p \<and>
     p_flips p * p_tilesPerFlip p = p_shard p \<and>
     (\<exists>d. getMaxDstTilesForLinalgOp chip types op maxP = Inr d \<and> p_tilesPerFlip p \<le> d)"

lemma flips_of_chunk:
  assumes "1 \<le> (k::int)" "k dvd s" "2 * k \<le> s"
  shows "2 \<le> s div k" "s div k * k = s"
proof -
  obtain n where n: "s = k * n" using assms(2) by auto
  then have "n * k = s" by simp
  moreover have "2 \<le> n"
  proof (rule ccontr)
    assume "\<not> 2 \<le> n"
    then have "k * n \<le> k * 1" using assms(1) by (intro mult_left_mono) auto
    then show False using assms(1,3) n by simp
  qed
  ultimately show "2 \<le> s div k" "s div k * k = s" using n assms(1) by simp_all
qed

lemma chunk_pending:
  assumes "getLargestLegalChunkSize s m = Inr k" "s \<noteq> 1"
  shows "1 \<le> k" "k \<le> m" "2 \<le> s div k" "s div k * k = s"
  using chunk_ok [OF assms] flips_of_chunk [of k s] by auto

text \<open>The collection keeps the operations in order, one pending result for each output of more than
  one tile.\<close>

lemma collect_ok:
  "collect_pending chip types maxP pairs = Inr (singles, ps) \<Longrightarrow>
   list_all2 (\<lambda>pr p. pending_ok chip types maxP (fst pr) p \<and> outputValue p = snd pr)
     (filter (\<lambda>pr. shard types (snd pr) \<noteq> 1) pairs) ps \<and>
   singles = map snd (filter (\<lambda>pr. shard types (snd pr) = 1) pairs)"
proof (induction chip types maxP pairs arbitrary: singles ps rule: collect_pending.induct)
  case (2 chip types maxP op out rest)
  obtain ty where ty: "types out = Some ty" and st: "st_static ty" using "2.prems" by (auto split: option.splits if_splits)
  have sh: "shard types out = volume (st_shape ty) 1" by (simp add: shard_def ty)
  show ?case
  proof (cases "volume (st_shape ty) 1 = 1")
    case True
    then obtain ss qs where "collect_pending chip types maxP rest = Inr (ss, qs)" "singles = out # ss" "ps = qs"
      using "2.prems" ty st by (auto simp: Let_def split: sum.splits)
    then show ?thesis using "2.IH"(1) [OF ty _ refl True] st True sh by simp
  next
    case False
    then obtain m k ss qs where m: "getMaxDstTilesForLinalgOp chip types op maxP = Inr m"
      and k: "getLargestLegalChunkSize (volume (st_shape ty) 1) m = Inr k"
      and r: "collect_pending chip types maxP rest = Inr (ss, qs)" and s: "singles = ss"
      and p: "ps = \<lparr>outputValue = out, p_shard = volume (st_shape ty) 1, p_tilesPerFlip = k, p_flips = volume (st_shape ty) 1 div k\<rparr> # qs"
      and f: "volume (st_shape ty) 1 div k \<ge> 2"
      using "2.prems" ty st by (auto simp: Let_def split: sum.splits if_splits)
    have "pending_ok chip types maxP op (hd ps)"
      using chunk_pending [OF k False] m unfolding p pending_ok_def by (auto simp: shard_def ty)
    then show ?thesis using "2.IH"(2) [OF ty _ refl False m k _ r] st False sh f p s by simp
  qed
qed simp

lemma collect_defined:
  assumes "\<And>v. v \<in> snd ` set pairs \<Longrightarrow> 0 < shard types v"
  shows "collect_pending chip types maxP pairs \<noteq> Inl Asserted"
  using assms
proof (induction chip types maxP pairs rule: collect_pending.induct)
  case (2 chip types maxP op out rest)
  show ?case
  proof (cases "types out")
    case (Some ty)
    have pos: "0 < volume (st_shape ty) 1" using "2.prems" [of out] Some by (simp add: shard_def)
    have cap: "getMaxDstTilesForLinalgOp chip types op maxP \<noteq> Inl Asserted" by (rule capacity_defined)
    have chunk: "\<exists>k. getLargestLegalChunkSize (volume (st_shape ty) 1) m = Inr k"
      if "getMaxDstTilesForLinalgOp chip types op maxP = Inr m" for m
      using chunk_total [OF _ pos] capacity_pos [OF that] by simp
    show ?thesis
    proof (cases "volume (st_shape ty) 1 = 1")
      case True
      have "collect_pending chip types maxP rest \<noteq> Inl Asserted" if "st_static ty"
        using "2.IH"(1) [OF Some _ refl True] that "2.prems" by auto
      then show ?thesis using Some True by (auto simp: Let_def split: sum.splits)
    next
      case False
      show ?thesis
      proof (cases "getMaxDstTilesForLinalgOp chip types op maxP")
        case (Inl e)
        then show ?thesis using cap Some False by (auto simp: Let_def)
      next
        case (Inr m)
        obtain k where k: "getLargestLegalChunkSize (volume (st_shape ty) 1) m = Inr k" using chunk [OF Inr] by blast
        have f: "2 \<le> volume (st_shape ty) 1 div k" using chunk_pending [OF k False] by simp
        have "collect_pending chip types maxP rest \<noteq> Inl Asserted" if "st_static ty"
          using "2.IH"(2) [OF Some _ refl False Inr k] that f "2.prems" by auto
        then show ?thesis using Some False Inr k f by (auto simp: Let_def split: sum.splits)
      qed
    qed
  qed simp
qed simp

section \<open>Normalisation\<close>

lemma fold_min_le: "fold (\<lambda>q n. min n (f q)) ps (c::int) \<le> c \<and> (\<forall>q\<in>set ps. fold (\<lambda>q n. min n (f q)) ps c \<le> f q)"
proof (induction ps arbitrary: c)
  case (Cons p ps)
  from Cons.IH [of "min c (f p)"] show ?case by auto
qed simp

lemma fold_min_mem: "fold (\<lambda>q n. min n (f q)) ps (c::int) \<in> insert c (f ` set ps)"
proof (induction ps arbitrary: c)
  case (Cons p ps)
  from Cons.IH [of "min c (f p)"] show ?case by (auto simp: min_def split: if_splits)
qed simp

lemma normalize_ok:
  assumes "list_all2 (\<lambda>pr p. pending_ok chip types maxP (fst pr) p \<and> outputValue p = snd pr) prs ps"
  shows "list_all2 (\<lambda>pr p. pending_ok chip types maxP (fst pr) p \<and> outputValue p = snd pr) prs (normalize_pending ps)"
proof (cases ps)
  case Nil
  then show ?thesis using assms by (simp add: normalize_pending_def)
next
  case (Cons p0 rest)
  define m where "m = fold (\<lambda>q n. min n (p_tilesPerFlip q)) ps (p_tilesPerFlip p0)"
  have le: "m \<le> p_tilesPerFlip q" if "q \<in> set ps" for q using fold_min_le [of p_tilesPerFlip ps "p_tilesPerFlip p0"] that by (simp add: m_def)
  have ok: "\<exists>op. pending_ok chip types maxP op q" if qs: "q \<in> set ps" for q
  proof -
    obtain i where "i < length ps" "q = ps ! i" using qs by (auto simp: in_set_conv_nth)
    then show ?thesis using list_all2_nthD2 [OF assms] by blast
  qed
  have "m \<in> p_tilesPerFlip ` set ps" using fold_min_mem [of p_tilesPerFlip ps "p_tilesPerFlip p0"] Cons by (auto simp: m_def)
  then have m1: "1 \<le> m" using ok by (auto simp: pending_ok_def)
  let ?f = "\<lambda>q. if p_tilesPerFlip q \<noteq> m \<and> p_shard q mod m = 0 then q\<lparr>p_tilesPerFlip := m, p_flips := p_shard q div m\<rparr> else q"
  have "normalize_pending ps = map ?f ps" unfolding normalize_pending_def m_def Cons by (simp add: Let_def)
  moreover have "pending_ok chip types maxP op (?f q) \<and> outputValue (?f q) = outputValue q"
    if q: "q \<in> set ps" "pending_ok chip types maxP op q" for q op
  proof (cases "p_tilesPerFlip q \<noteq> m \<and> p_shard q mod m = 0")
    case True
    have "2 * p_tilesPerFlip q \<le> p_flips q * p_tilesPerFlip q" using q(2) by (intro mult_right_mono) (auto simp: pending_ok_def)
    then have "2 * m \<le> p_shard q" using le [OF q(1)] q(2) by (simp add: pending_ok_def)
    then show ?thesis using True q(2) le [OF q(1)] m1 flips_of_chunk [OF m1, of "p_shard q"]
      by (auto simp: pending_ok_def dvd_eq_mod_eq_0)
  next
    case False
    then show ?thesis using q by (simp only: if_False)
  qed
  ultimately show ?thesis using assms by (auto simp: list_all2_conv_all_nth)
qed

section \<open>The common iteration count\<close>

lemma fold_gcd_dvd: "fold (\<lambda>f g. gcd g f) rest (front::int) dvd front \<and> (\<forall>f\<in>set rest. fold (\<lambda>f g. gcd g f) rest front dvd f)"
proof (induction rest arbitrary: front)
  case (Cons f rest)
  from Cons.IH [of "gcd front f"] show ?case by (auto dest: dvd_trans)
qed simp

lemma fold_gcd_greatest: "k dvd front \<Longrightarrow> (\<forall>f\<in>set rest. k dvd f) \<Longrightarrow> k dvd fold (\<lambda>f g. gcd g f) rest (front::int)"
  by (induction rest arbitrary: front) auto

lemma fold_gcd_pos: "1 \<le> front \<Longrightarrow> 1 \<le> fold (\<lambda>f g. gcd g f) rest (front::int)"
proof (induction rest arbitrary: front)
  case (Cons f rest)
  have "gcd front f \<noteq> 0" using Cons.prems by auto
  then have "1 \<le> gcd front f" using gcd_ge_0_int [of front f] by linarith
  then show ?case using Cons.IH by simp
qed simp

lemma find_some: "find P xs = Some x \<Longrightarrow> x \<in> set xs \<and> P x"
  by (induction xs) (auto split: if_splits)

lemma find_none: "find P xs = None \<Longrightarrow> x \<in> set xs \<Longrightarrow> \<not> P x"
  by (induction xs) (auto split: if_splits)

lemma iters_exist:
  assumes "fs \<noteq> []" "\<forall>f\<in>set fs. 2 \<le> f"
  shows "\<exists>k. getLargestCommonNumOuterLoopIters fs = Inr k"
proof -
  obtain front rest where fs: "fs = front # rest" using assms(1) by (cases fs) auto
  let ?c = "fold (\<lambda>f c. min c (f div 2)) rest (front div 2)" and ?g = "fold (\<lambda>f g. gcd g f) rest front"
  have "?c \<in> insert (front div 2) ((\<lambda>f. f div 2) ` set rest)" using fold_min_mem [of "\<lambda>f. f div 2" rest] .
  then have c: "1 \<le> ?c" using assms(2) fs by auto
  have "1 \<in> set (getFactors ?g)" using getFactors_set [OF fold_gcd_pos [of front rest]] assms(2) fs by simp
  then have "find (\<lambda>factor. factor \<le> ?c) (rev (getFactors ?g)) \<noteq> None" using c find_none by fastforce
  then show ?thesis using c fs by (auto simp: getLargestCommonNumOuterLoopIters_def Let_def)
qed

lemma iters_ok:
  assumes "getLargestCommonNumOuterLoopIters fs = Inr k" "\<forall>f\<in>set fs. 2 \<le> f"
  shows "1 \<le> k \<and> (\<forall>f\<in>set fs. k dvd f \<and> 2 \<le> f div k)"
proof -
  obtain front rest where fs: "fs = front # rest" using assms(1) by (cases fs) (auto simp: getLargestCommonNumOuterLoopIters_def)
  let ?c = "fold (\<lambda>f c. min c (f div 2)) rest (front div 2)" and ?g = "fold (\<lambda>f g. gcd g f) rest front"
  have "find (\<lambda>factor. factor \<le> ?c) (rev (getFactors ?g)) = Some k"
    using assms(1) fs by (auto simp: getLargestCommonNumOuterLoopIters_def Let_def split: if_splits option.splits)
  then have k: "k \<in> set (getFactors ?g)" "k \<le> ?c" using find_some by fastforce+
  then have kg: "1 \<le> k" "k dvd ?g" using getFactors_set [OF fold_gcd_pos [of front rest]] assms(2) fs by auto
  have "k dvd f \<and> 2 \<le> f div k" if "f \<in> set fs" for f
  proof -
    have d: "k dvd f" using kg(2) fold_gcd_dvd [of rest front] that fs by (auto intro: dvd_trans)
    have "?c \<le> f div 2" using fold_min_le [of "\<lambda>f. f div 2" rest "front div 2"] that fs by auto
    then have "2 * k \<le> f" using k(2) by linarith
    then show ?thesis using flips_of_chunk [OF kg(1) d] d by simp
  qed
  then show ?thesis using kg(1) by blast
qed

end
