(* ===== verification/DstPacking.thy ===== *)
theory DstPacking
  imports DstProps
begin

text \<open>
  The packing of a whole region: merging the pending results, the fallback along the shared rows, and
  the properties of what is returned.
\<close>

section \<open>Merging\<close>

definition info_of :: "int \<Rightarrow> pending_result \<Rightarrow> result_info" where
  "info_of iters p = \<lparr>numDstFlips = p_flips p div iters, numTilesPerFlip = p_tilesPerFlip p,
     numTilesPerResult = p_flips p div iters * p_tilesPerFlip p\<rparr>"

lemma merge_one:
  assumes "merge_result iters p m = Inr m'"
  shows "m' v = Some info \<Longrightarrow> m v = Some info \<or> outputValue p = v \<and> info = info_of iters p"
    "m v = Some info \<Longrightarrow> \<exists>info'. m' v = Some info' \<and> numTilesPerFlip info' \<le> numTilesPerFlip info"
    "\<exists>info'. m' (outputValue p) = Some info' \<and> numTilesPerFlip info' \<le> p_tilesPerFlip p"
  using assms by (auto simp: merge_result_def info_of_def Let_def split: if_splits option.splits)

lemma merge_ok:
  "merge_results iters ps m = Inr m' \<Longrightarrow>
   (\<forall>v info. m' v = Some info \<longrightarrow> m v = Some info \<or> (\<exists>p\<in>set ps. outputValue p = v \<and> info = info_of iters p)) \<and>
   (\<forall>v info. m v = Some info \<longrightarrow> (\<exists>info'. m' v = Some info' \<and> numTilesPerFlip info' \<le> numTilesPerFlip info)) \<and>
   (\<forall>p\<in>set ps. \<exists>info'. m' (outputValue p) = Some info' \<and> numTilesPerFlip info' \<le> p_tilesPerFlip p)"
proof (induction iters ps m rule: merge_results.induct)
  case (2 iters p ps m)
  then obtain m1 where m1: "merge_result iters p m = Inr m1" "merge_results iters ps m1 = Inr m'" by (auto split: sum.splits)
  note IH = "2.IH" [OF m1]
  have a: "m v = Some info \<or> (\<exists>q\<in>set (p # ps). outputValue q = v \<and> info = info_of iters q)" if "m' v = Some info" for v info
    using IH that merge_one(1) [OF m1(1), of v info] by fastforce
  have b: "\<exists>info'. m' v = Some info' \<and> numTilesPerFlip info' \<le> n" if "m1 v = Some info" "numTilesPerFlip info \<le> n" for v info n
    using IH that by (meson order_trans)
  have c: "\<exists>info'. m' v = Some info' \<and> numTilesPerFlip info' \<le> numTilesPerFlip info" if "m v = Some info" for v info
    using merge_one(2) [OF m1(1) that] b by blast
  have d: "\<exists>info'. m' (outputValue q) = Some info' \<and> numTilesPerFlip info' \<le> p_tilesPerFlip q" if "q \<in> set (p # ps)" for q
    using that IH merge_one(3) [OF m1(1)] b by auto
  show ?case using a c d by blast
qed simp

lemma merge_defined:
  "(\<forall>p\<in>set ps. iters dvd p_flips p \<and> 2 \<le> p_flips p div iters) \<Longrightarrow> \<exists>m'. merge_results iters ps m = Inr m'"
proof (induction iters ps m rule: merge_results.induct)
  case (2 iters p ps m)
  then obtain m1 where "merge_result iters p m = Inr m1" by (auto simp: merge_result_def Let_def dvd_eq_mod_eq_0)
  then show ?case using "2.IH" [of m1] "2.prems" by simp
qed simp

section \<open>The shared rows\<close>

definition static_types :: "types \<Rightarrow> bool" where
  "static_types types \<longleftrightarrow> (\<forall>v ty. types v = Some ty \<longrightarrow> list_all (\<lambda>d. 0 \<le> d) (st_shape ty))"

lemma foldl_times: "foldl (*) (a * b) xs = a * foldl (*) (b::int) xs"
  by (induction xs arbitrary: b) (simp_all add: mult.assoc)

lemma volume_rows: "sh \<noteq> [] \<Longrightarrow> volume sh 1 = hd sh * foldl (*) 1 (tl sh)"
  using foldl_times [of "hd sh" 1 "tl sh"] by (cases sh) (simp_all add: volume_def)

definition shared_ok :: "nat \<Rightarrow> types \<Rightarrow> linalg_op list \<Rightarrow> nat \<Rightarrow> int \<Rightarrow> op_info \<Rightarrow> bool" where
  "shared_ok chip types ops maxP c i \<longleftrightarrow>
     rowDim i = c \<and> i_shard i = c * colProduct i \<and> i_shard i = shard types (i_output i) \<and> 1 < i_shard i \<and> 0 \<le> c \<and> 1 \<le> i_maxDst i \<and>
     (\<exists>op\<in>set ops. i_output i \<in> set (outputs op) \<and> getMaxDstTilesForLinalgOp chip types op maxP = Inr (i_maxDst i))"

lemma shared_infos_ok:
  assumes "static_types types"
  shows "shared_infos chip types maxP c0 ops = Inr (c, infos) \<Longrightarrow>
    (\<forall>i\<in>set infos. shared_ok chip types ops maxP c i) \<and> (0 \<le> c0 \<longrightarrow> c = c0)"
proof (induction ops arbitrary: c0 c infos)
  case (Cons op ops)
  obtain out outs where o': "outputs op = out # outs" using Cons.prems by (cases "outputs op") auto
  obtain ty where ty: "types out = Some ty" "st_static ty" "2 \<le> length (st_shape ty)"
    using Cons.prems o' by (auto split: option.splits if_splits)
  let ?row = "hd (st_shape ty)" and ?col = "foldl (*) 1 (tl (st_shape ty))"
  let ?common = "if c0 = -1 then ?row else c0"
  obtain d where d: "1 < ?row * ?col" "getMaxDstTilesForLinalgOp chip types op maxP = Inr d" "?row = ?common"
    using Cons.prems o' ty by (auto simp: Let_def split: sum.splits if_splits)
  obtain infos' where rest: "shared_infos chip types maxP ?common ops = Inr (c, infos')"
    and inf: "infos = \<lparr>i_output = out, rowDim = ?row, colProduct = ?col, i_shard = ?row * ?col, i_maxDst = d\<rparr> # infos'"
    using Cons.prems o' ty d by (auto simp: Let_def split: sum.splits if_splits)
  have "list_all (\<lambda>d. 0 \<le> d) (st_shape ty)" using assms ty(1) unfolding static_types_def by blast
  then have nn: "0 \<le> ?row" using ty(3) by (cases "st_shape ty") auto
  then have common: "0 \<le> ?common" using d(3) by simp
  from Cons.IH [OF rest] have IH: "\<forall>i\<in>set infos'. shared_ok chip types ops maxP c i" "c = ?common" using common by auto
  have "volume (st_shape ty) 1 = ?row * ?col" using ty(3) by (intro volume_rows) auto
  then have "shard types out = ?row * ?col" by (simp add: shard_def ty)
  then have "shared_ok chip types (op # ops) maxP c (hd infos)"
    unfolding inf shared_ok_def using IH(2) d nn o' capacity_pos [OF d(2)] by auto
  moreover have "\<forall>i\<in>set infos'. shared_ok chip types (op # ops) maxP c i" using IH(1) by (auto simp: shared_ok_def)
  ultimately show ?case using inf IH(2) by auto
qed simp

definition packed_ok :: "nat \<Rightarrow> types \<Rightarrow> linalg_op list \<Rightarrow> nat \<Rightarrow> int \<Rightarrow> nat \<Rightarrow> result_info \<Rightarrow> bool" where
  "packed_ok chip types ops maxP iters v info \<longleftrightarrow>
     iters * numTilesPerResult info = shard types v \<and>
     numTilesPerResult info = numDstFlips info * numTilesPerFlip info \<and> 2 \<le> numDstFlips info \<and> 1 \<le> numTilesPerFlip info \<and>
     (\<exists>op\<in>set ops. v \<in> set (outputs op) \<and>
       (\<exists>d. getMaxDstTilesForLinalgOp chip types op maxP = Inr d \<and> numTilesPerFlip info \<le> d))"

lemma shared_one:
  assumes "shared_ok chip types ops maxP c i" "2 \<le> R" "R dvd c"
    "getLargestLegalChunkSize (i_shard i div (c div R)) (i_maxDst i) = Inr k"
  shows "packed_ok chip types ops maxP (c div R) (i_output i)
    \<lparr>numDstFlips = i_shard i div (c div R) div min k (colProduct i), numTilesPerFlip = min k (colProduct i),
      numTilesPerResult = i_shard i div (c div R)\<rparr>"
proof -
  obtain n where n: "c = R * n" using assms(3) by auto
  have s: "i_shard i = c * colProduct i" "1 < i_shard i" "0 \<le> c" using assms(1) by (auto simp: shared_ok_def)
  then have c0: "0 < c" by (cases "c = 0") auto
  then have n0: "0 < n" using n assms(2) by (simp add: zero_less_mult_iff)
  have col: "1 \<le> colProduct i"
  proof -
    have "0 < c * colProduct i" using s(1,2) by simp
    then show ?thesis using c0 by (simp add: zero_less_mult_iff)
  qed
  have cn: "c div R = n" using n assms(2) by simp
  have sn: "i_shard i = n * (R * colProduct i)" using s(1) n by (simp add: ac_simps)
  have per: "i_shard i div (c div R) = R * colProduct i" unfolding cn sn using n0 by simp
  have rc: "2 \<le> R * colProduct i" using mult_mono [of 2 R 1 "colProduct i"] assms(2) col by simp
  have "R * colProduct i \<noteq> 1" using rc by simp
  from chunk_ok [OF assms(4) [unfolded per] this]
  have k: "1 \<le> k" "k \<le> i_maxDst i" "k dvd R * colProduct i" "2 * k \<le> R * colProduct i" by auto
  let ?t = "min k (colProduct i)"
  have t: "1 \<le> ?t" "?t \<le> i_maxDst i" "?t dvd R * colProduct i" "2 * ?t \<le> R * colProduct i"
    using k col mult_right_mono [OF assms(2), of "colProduct i"] by (auto simp: min_def)
  note f = flips_of_chunk [OF t(1,3,4)]
  have vol: "n * (R * colProduct i) = shard types (i_output i)" using assms(1) sn by (simp add: shared_ok_def)
  obtain op where op: "op \<in> set ops" "i_output i \<in> set (outputs op)" "getMaxDstTilesForLinalgOp chip types op maxP = Inr (i_maxDst i)"
    using assms(1) by (auto simp: shared_ok_def)
  show ?thesis
    unfolding packed_ok_def per unfolding cn result_info.select_convs
    by (intro conjI bexI [OF _ op(1)] exI [of _ "i_maxDst i"]) (use f t(1,2) vol op in auto)
qed

lemma shared_results_ok:
  assumes "2 \<le> R" "R dvd c"
  shows "shared_results (c div R) infos m = Inr (Some m') \<Longrightarrow> (\<forall>i\<in>set infos. shared_ok chip types ops maxP c i) \<Longrightarrow>
    (\<And>v info. m v = Some info \<Longrightarrow> packed_ok chip types ops maxP (c div R) v info) \<Longrightarrow>
    m' v = Some info \<Longrightarrow> packed_ok chip types ops maxP (c div R) v info"
proof (induction "c div R" infos m arbitrary: v info rule: shared_results.induct)
  case (2 i infos m)
  let ?per = "i_shard i div (c div R)"
  obtain k where k: "getLargestLegalChunkSize ?per (i_maxDst i) = Inr k" and b: "\<not> ?per < 2"
    and f: "\<not> ?per div min k (colProduct i) < 2"
    using "2.prems"(1) by (auto simp: Let_def split: if_splits sum.splits)
  let ?info = "\<lparr>numDstFlips = ?per div min k (colProduct i), numTilesPerFlip = min k (colProduct i), numTilesPerResult = ?per\<rparr>"
  let ?m = "try_emplace (i_output i) ?info m"
  have rest: "shared_results (c div R) infos ?m = Inr (Some m')" using "2.prems"(1) k b f by (simp add: Let_def)
  have "packed_ok chip types ops maxP (c div R) (i_output i) ?info"
    using shared_one [OF _ assms k] "2.prems"(2) by simp
  then have "packed_ok chip types ops maxP (c div R) w inf" if "?m w = Some inf" for w inf
    using that "2.prems"(3) by (auto simp: try_emplace_def split: if_splits)
  then show ?case using "2.hyps" [OF refl b k refl refl f rest] "2.prems"(2,4) by (auto simp: Let_def)
qed simp

lemma shared_results_defined:
  "(\<forall>i\<in>set infos. 1 \<le> i_maxDst i) \<Longrightarrow> shared_results n infos m \<noteq> Inl e"
proof (induction n infos m rule: shared_results.induct)
  case (2 n i infos m)
  show ?case
  proof (cases "i_shard i div n < 2")
    case False
    then obtain k where k: "getLargestLegalChunkSize (i_shard i div n) (i_maxDst i) = Inr k"
      using chunk_total [of "i_maxDst i" "i_shard i div n"] "2.prems" by auto
    then show ?thesis using 2 False by (auto simp: Let_def)
  qed (simp add: Let_def)
qed simp

lemma shared_candidates_ok:
  "shared_candidates c infos Rs = Inr r \<Longrightarrow>
   \<exists>R\<in>set Rs. 2 \<le> R \<and> R < c \<and> numOuterLoopIters r = c div R \<and> shared_results (c div R) infos Map.empty = Inr (Some (perResult r))"
  by (induction c infos Rs rule: shared_candidates.induct) (auto simp: Let_def split: if_splits sum.splits option.splits)

lemma shared_candidates_defined:
  assumes "\<forall>i\<in>set infos. 1 \<le> i_maxDst i"
  shows "shared_candidates c infos Rs \<noteq> Inl Asserted"
  using assms by (induction c infos Rs rule: shared_candidates.induct)
    (use shared_results_defined in \<open>auto simp: Let_def split: sum.splits option.splits\<close>)

lemma shared_chunking_ok:
  assumes "static_types types" "trySharedParallelChunking chip types ops maxP = Inr r"
  shows "1 \<le> numOuterLoopIters r" "perResult r v = Some info \<Longrightarrow> packed_ok chip types ops maxP (numOuterLoopIters r) v info"
proof -
  obtain c infos where i: "shared_infos chip types maxP (-1) ops = Inr (c, infos)" "2 \<le> c"
    "shared_candidates c infos (rev (getFactors c)) = Inr r"
    using assms(2) by (auto simp: trySharedParallelChunking_def split: sum.splits if_splits)
  obtain R where R: "R \<in> set (getFactors c)" "2 \<le> R" "R < c" "numOuterLoopIters r = c div R"
    "shared_results (c div R) infos Map.empty = Inr (Some (perResult r))" using shared_candidates_ok [OF i(3)] by auto
  have dvd: "R dvd c" using getFactors_set [of c] i(2) R(1) by simp
  show "1 \<le> numOuterLoopIters r" unfolding R(4) using R(2,3) by (intro one_le_div) auto
  assume "perResult r v = Some info"
  then show "packed_ok chip types ops maxP (numOuterLoopIters r) v info"
    unfolding R(4) using shared_results_ok [OF R(2) dvd R(5)] shared_infos_ok [OF assms(1) i(1)] by auto
qed

lemma shared_infos_defined:
  "(\<forall>op\<in>set ops. outputs op \<noteq> []) \<Longrightarrow> shared_infos chip types maxP c0 ops \<noteq> Inl Asserted"
proof (induction ops arbitrary: c0)
  case (Cons op ops)
  then show ?case using capacity_defined [of chip types op maxP]
    by (auto simp: Let_def split: list.splits option.splits sum.splits)
qed simp

lemma shared_chunking_defined:
  assumes "static_types types" "\<forall>op\<in>set ops. outputs op \<noteq> []"
  shows "trySharedParallelChunking chip types ops maxP \<noteq> Inl Asserted"
proof (cases "shared_infos chip types maxP (-1) ops")
  case (Inl e)
  then show ?thesis using shared_infos_defined [OF assms(2)] by (auto simp: trySharedParallelChunking_def)
next
  case (Inr p)
  then obtain c infos where p: "shared_infos chip types maxP (-1) ops = Inr (c, infos)" by (cases p) auto
  have "\<forall>i\<in>set infos. 1 \<le> i_maxDst i" using shared_infos_ok [OF assms(1) p] by (auto simp: shared_ok_def)
  then show ?thesis using shared_candidates_defined p by (simp add: trySharedParallelChunking_def)
qed

section \<open>A region\<close>

abbreviation output_pairs :: "linalg_op list \<Rightarrow> (linalg_op \<times> nat) list" where
  "output_pairs ops \<equiv> [(op, out). op \<leftarrow> ops, out \<leftarrow> outputs op]"

lemma pairs_mem: "pr \<in> set (filter P (output_pairs ops)) \<Longrightarrow> fst pr \<in> set ops \<and> snd pr \<in> set (outputs (fst pr))"
  by auto

text \<open>What is known once the pending results are collected and normalised.\<close>

lemma region_pending:
  assumes "collect_pending chip types maxP (output_pairs ops) = Inr (singles, pending)"
  shows "(\<forall>p\<in>set (normalize_pending pending). \<exists>op\<in>set ops. outputValue p \<in> set (outputs op) \<and> pending_ok chip types maxP op p) \<and>
    (\<forall>op\<in>set ops. \<forall>v\<in>set (outputs op). shard types v \<noteq> 1 \<longrightarrow>
      (\<exists>p\<in>set (normalize_pending pending). outputValue p = v \<and> pending_ok chip types maxP op p)) \<and>
    (\<forall>v\<in>set singles. shard types v = 1)"
proof -
  let ?prs = "filter (\<lambda>pr. shard types (snd pr) \<noteq> 1) (output_pairs ops)" and ?ps = "normalize_pending pending"
  note c = collect_ok [OF assms]
  have all: "list_all2 (\<lambda>pr p. pending_ok chip types maxP (fst pr) p \<and> outputValue p = snd pr) ?prs ?ps"
    by (rule normalize_ok) (use c in blast)
  have "\<exists>op\<in>set ops. outputValue p \<in> set (outputs op) \<and> pending_ok chip types maxP op p" if p: "p \<in> set ?ps" for p
  proof -
    obtain i where i: "i < length ?ps" "p = ?ps ! i" using p unfolding in_set_conv_nth by blast
    then have "?prs ! i \<in> set ?prs" using list_all2_lengthD [OF all] by (intro nth_mem) simp
    from pairs_mem [OF this] show ?thesis using list_all2_nthD2 [OF all i(1)] i(2) by auto
  qed
  moreover have "\<exists>p\<in>set ?ps. outputValue p = v \<and> pending_ok chip types maxP op p"
    if "op \<in> set ops" "v \<in> set (outputs op)" "shard types v \<noteq> 1" for op v
  proof -
    have "(op, v) \<in> set ?prs" using that by auto
    then obtain i where i: "i < length ?prs" "?prs ! i = (op, v)" unfolding in_set_conv_nth by blast
    then have "?ps ! i \<in> set ?ps" using list_all2_lengthD [OF all] by (intro nth_mem) simp
    then show ?thesis using list_all2_nthD [OF all i(1)] i(2) by auto
  qed
  moreover have "\<forall>v\<in>set singles. shard types v = 1" using c by auto
  ultimately show ?thesis by blast
qed

lemma merged_region_ok:
  assumes "\<forall>p\<in>set ps. \<exists>op\<in>set ops. outputValue p \<in> set (outputs op) \<and> pending_ok chip types maxP op p"
    "getLargestCommonNumOuterLoopIters (map p_flips ps) = Inr iters"
  shows "\<exists>r. merged_region iters ps = Inr r \<and> numOuterLoopIters r = iters \<and> 1 \<le> iters \<and>
    (\<forall>v info. perResult r v = Some info \<longrightarrow> packed_ok chip types ops maxP iters v info) \<and>
    (\<forall>p\<in>set ps. \<exists>info. perResult r (outputValue p) = Some info \<and> numTilesPerFlip info \<le> p_tilesPerFlip p)"
proof -
  have f2: "\<forall>f\<in>set (map p_flips ps). 2 \<le> f" using assms(1) by (auto simp: pending_ok_def)
  note it = iters_ok [OF assms(2) f2]
  then obtain m where m: "merge_results iters ps Map.empty = Inr m" using merge_defined [of ps iters Map.empty] by auto
  note mo = merge_ok [OF m]
  have "packed_ok chip types ops maxP iters v info" if mv: "m v = Some info" for v info
  proof -
    obtain p where p: "p \<in> set ps" "outputValue p = v" "info = info_of iters p" using mo mv by auto
    obtain op where op: "op \<in> set ops" "v \<in> set (outputs op)" "pending_ok chip types maxP op p" using assms(1) p by blast
    have "iters * (p_flips p div iters) = p_flips p" using it p(1) by simp
    then have "iters * (p_flips p div iters * p_tilesPerFlip p) = p_flips p * p_tilesPerFlip p" by (metis mult.assoc)
    then show ?thesis using op p it unfolding packed_ok_def info_of_def pending_ok_def by auto
  qed
  then show ?thesis using m mo it by (auto simp: merged_region_def)
qed

text \<open>The three ways a region gets its packing.\<close>

lemma packing_cases:
  assumes "computeDSTPackingForRegion chip types ops maxP = Inr r"
  obtains (single) singles pending where "collect_pending chip types maxP (output_pairs ops) = Inr (singles, pending)"
      "singles \<noteq> []" "normalize_pending pending = []" "r = single_tile_info singles"
    | (shared) "trySharedParallelChunking chip types ops maxP = Inr r"
    | (merged) singles pending iters where "collect_pending chip types maxP (output_pairs ops) = Inr (singles, pending)"
      "getLargestCommonNumOuterLoopIters (map p_flips (normalize_pending pending)) = Inr iters"
      "merged_region iters (normalize_pending pending) = Inr r" "singles = []"
proof -
  obtain singles pending where c: "collect_pending chip types maxP (output_pairs ops) = Inr (singles, pending)"
    using assms by (auto simp: computeDSTPackingForRegion_def split: sum.splits)
  let ?ps = "normalize_pending pending"
  note r = assms [unfolded computeDSTPackingForRegion_def c sum.case prod.case Let_def]
  show thesis
  proof (cases "?ps = []")
    case True
    then show thesis using r c by (intro single) (auto split: if_splits)
  next
    case False
    then have e: "singles = []" using r by (simp split: if_splits)
    obtain iters where i: "getLargestCommonNumOuterLoopIters (map p_flips ?ps) = Inr iters"
      using r False e by (auto split: sum.splits)
    have "trySharedParallelChunking chip types ops maxP = Inr r \<or> merged_region iters ?ps = Inr r"
      using r False e i by (simp split: if_splits sum.splits dst_error.splits)
    then show thesis using shared merged [OF c i _ e] by blast
  qed
qed

lemma single_info:
  "perResult (single_tile_info singles) v = Some info \<Longrightarrow>
   v \<in> set singles \<and> info = \<lparr>numDstFlips = 1, numTilesPerFlip = 1, numTilesPerResult = 1\<rparr>"
proof -
  have step: "fold (\<lambda>v. try_emplace v i) vs m v = Some info \<Longrightarrow> m v = Some info \<or> v \<in> set vs \<and> info = i" for i vs m
  proof (induction vs arbitrary: m)
    case (Cons a vs)
    from Cons.prems have "fold (\<lambda>v. try_emplace v i) vs (try_emplace a i m) v = Some info" by simp
    from Cons.IH [OF this] show ?case by (auto simp: try_emplace_def split: if_splits)
  qed simp
  assume "perResult (single_tile_info singles) v = Some info"
  from step [OF this [unfolded single_tile_info_def region_info.select_convs]] show ?thesis by simp
qed

lemma single_entries:
  assumes "v \<in> set singles"
  shows "perResult (single_tile_info singles) v \<noteq> None"
proof -
  have keep: "m v \<noteq> None \<Longrightarrow> fold (\<lambda>v. try_emplace v i) vs m v \<noteq> None" for i vs m
    by (induction vs arbitrary: m) (simp_all add: try_emplace_def)
  have "v \<in> set vs \<Longrightarrow> fold (\<lambda>v. try_emplace v i) vs m v \<noteq> None" for i vs m
  proof (induction vs arbitrary: m)
    case (Cons a vs)
    have "try_emplace v i m v \<noteq> None" by (auto simp: try_emplace_def)
    then show ?case using Cons keep [of "try_emplace v i m" i vs] by (cases "a = v") simp_all
  qed simp
  then show ?thesis using assms by (simp add: single_tile_info_def)
qed

lemma shared_outputs: "shared_infos chip types maxP c0 ops = Inr (c, infos) \<Longrightarrow> map i_output infos = map (hd \<circ> outputs) ops"
proof (induction ops arbitrary: c0 c infos)
  case (Cons op ops)
  then show ?case by (auto simp: Let_def split: list.splits option.splits sum.splits if_split_asm)
qed simp

lemma shared_entries:
  "shared_results n infos m = Inr (Some m') \<Longrightarrow> v \<in> dom m \<or> v \<in> i_output ` set infos \<Longrightarrow> v \<in> dom m'"
proof (induction n infos m rule: shared_results.induct)
  case (2 n i infos m)
  let ?per = "i_shard i div n"
  obtain k where k: "getLargestLegalChunkSize ?per (i_maxDst i) = Inr k" and b: "\<not> ?per < 2"
    and f: "\<not> ?per div min k (colProduct i) < 2"
    using "2.prems"(1) by (auto simp: Let_def split: if_splits sum.splits)
  let ?m = "try_emplace (i_output i) \<lparr>numDstFlips = ?per div min k (colProduct i), numTilesPerFlip = min k (colProduct i), numTilesPerResult = ?per\<rparr> m"
  have rest: "shared_results n infos ?m = Inr (Some m')" using "2.prems"(1) k b f by (simp add: Let_def)
  have "v \<in> dom ?m \<or> v \<in> i_output ` set infos" using "2.prems"(2) by (auto simp: try_emplace_def)
  then show ?case by (rule "2.IH" [OF refl b k refl refl f rest])
qed auto

lemma shared_first_outputs:
  assumes "trySharedParallelChunking chip types ops maxP = Inr r" "op \<in> set ops"
  shows "perResult r (hd (outputs op)) \<noteq> None"
proof -
  obtain c infos where i: "shared_infos chip types maxP (-1) ops = Inr (c, infos)"
    "shared_candidates c infos (rev (getFactors c)) = Inr r"
    using assms(1) by (auto simp: trySharedParallelChunking_def split: sum.splits if_splits)
  have "hd (outputs op) \<in> set (map (hd \<circ> outputs) ops)" using assms(2) by simp
  then have "hd (outputs op) \<in> i_output ` set infos" using shared_outputs [OF i(1)] by (metis set_map)
  then show ?thesis using shared_candidates_ok [OF i(2)] shared_entries by blast
qed

text \<open>Unless the fallback along the shared rows is taken, a flip fits the capacity of every
  operation that writes the result, not only of one: of several pending results for one buffer the most
  restrictive is kept.\<close>

theorem dst_capacity_of_every_writer:
  assumes "computeDSTPackingForRegion chip types ops maxP = Inr r" "trySharedParallelChunking chip types ops maxP \<noteq> Inr r"
    "perResult r v = Some info" "op \<in> set ops" "v \<in> set (outputs op)" "shard types v \<noteq> 1"
    "getMaxDstTilesForLinalgOp chip types op maxP = Inr d"
  shows "numTilesPerFlip info \<le> d"
  using assms(1)
proof (cases rule: packing_cases)
  case (single singles pending)
  then show ?thesis using single_info [of singles v info] region_pending [OF single(1)] assms(3,6) by auto
next
  case shared
  then show ?thesis using assms(2) by simp
next
  case (merged singles pending iters)
  note rp = region_pending [OF merged(1)]
  obtain p where p: "p \<in> set (normalize_pending pending)" "outputValue p = v" "pending_ok chip types maxP op p"
    using rp assms(4-6) by blast
  have "p_tilesPerFlip p \<le> d" using p(3) assms(7) by (auto simp: pending_ok_def)
  moreover have ok: "\<forall>p\<in>set (normalize_pending pending). \<exists>op\<in>set ops. outputValue p \<in> set (outputs op) \<and> pending_ok chip types maxP op p"
    using rp by blast
  obtain q where q: "merged_region iters (normalize_pending pending) = Inr q"
    "\<forall>p\<in>set (normalize_pending pending). \<exists>info. perResult q (outputValue p) = Some info \<and> numTilesPerFlip info \<le> p_tilesPerFlip p"
    using merged_region_ok [OF ok merged(2)] by blast
  have "q = r" using q(1) merged(3) by simp
  then obtain info' where "perResult r v = Some info'" "numTilesPerFlip info' \<le> p_tilesPerFlip p" using q(2) p(1,2) by blast
  ultimately show ?thesis using assms(3) by simp
qed

text \<open>Which results a packing has. Without the fallback along the shared rows every output of every operation
  has an entry, whose flips fit the capacity of every operation that writes it; the fallback records the first
  output of every operation.\<close>

lemma entry_for_writers:
  assumes "computeDSTPackingForRegion chip types ops maxP = Inr r" "trySharedParallelChunking chip types ops maxP \<noteq> Inr r"
    "op \<in> set ops" "v \<in> set (outputs op)"
  shows "\<exists>info. perResult r v = Some info"
  using assms(1)
proof (cases rule: packing_cases)
  case (single singles pending)
  have "shard types v = 1" using region_pending [OF single(1)] single(3) assms(3,4) by auto
  then have "v \<in> set singles" using collect_ok [OF single(1)] assms(3,4) by force
  then show ?thesis using single_entries single(4) by blast
next
  case (merged singles pending iters)
  note rp = region_pending [OF merged(1)]
  have "(op, v) \<in> set (output_pairs ops)" using assms(3,4) by force
  moreover have "filter (\<lambda>pr. shard types (snd pr) = 1) (output_pairs ops) = []"
    using collect_ok [OF merged(1)] merged(4) by simp
  ultimately have "shard types v \<noteq> 1" unfolding filter_empty_conv by fastforce
  then obtain p where p: "p \<in> set (normalize_pending pending)" "outputValue p = v" using rp assms(3,4) by blast
  have "\<forall>p\<in>set (normalize_pending pending). \<exists>op\<in>set ops. outputValue p \<in> set (outputs op) \<and> pending_ok chip types maxP op p"
    using rp by blast
  then show ?thesis using merged_region_ok [OF _ merged(2)] merged(3) p by fastforce
qed (use assms(2) in simp)

definition packing_complete :: "nat \<Rightarrow> types \<Rightarrow> linalg_op list \<Rightarrow> nat \<Rightarrow> region_info \<Rightarrow> bool" where
  "packing_complete chip types ops maxP r \<longleftrightarrow>
     (\<forall>op\<in>set ops. perResult r (hd (outputs op)) \<noteq> None) \<and>
     (trySharedParallelChunking chip types ops maxP \<noteq> Inr r \<longrightarrow>
        (\<forall>op\<in>set ops. \<forall>v\<in>set (outputs op). \<exists>info. perResult r v = Some info \<and>
          (\<forall>d. getMaxDstTilesForLinalgOp chip types op maxP = Inr d \<longrightarrow> numTilesPerFlip info \<le> d)))"

lemma packing_is_complete:
  assumes "computeDSTPackingForRegion chip types ops maxP = Inr r" "\<forall>op\<in>set ops. outputs op \<noteq> []"
    and single: "\<And>v info. perResult r v = Some info \<Longrightarrow> shard types v = 1 \<Longrightarrow> numTilesPerFlip info \<le> 1"
  shows "packing_complete chip types ops maxP r"
proof (cases "trySharedParallelChunking chip types ops maxP = Inr r")
  case True
  then show ?thesis using shared_first_outputs [OF True] by (simp add: packing_complete_def)
next
  case False
  have "\<exists>info. perResult r v = Some info \<and> (\<forall>d. getMaxDstTilesForLinalgOp chip types op maxP = Inr d \<longrightarrow> numTilesPerFlip info \<le> d)"
    if op: "op \<in> set ops" "v \<in> set (outputs op)" for op v
  proof -
    obtain info where i: "perResult r v = Some info" using entry_for_writers [OF assms(1) False op] by blast
    have "numTilesPerFlip info \<le> d" if d: "getMaxDstTilesForLinalgOp chip types op maxP = Inr d" for d
      using dst_capacity_of_every_writer [OF assms(1) False i op _ d] single [OF i] capacity_pos [OF d]
      by (cases "shard types v = 1") simp_all
    then show ?thesis using i by blast
  qed
  moreover have "hd (outputs op) \<in> set (outputs op)" if "op \<in> set ops" for op using assms(2) that by simp
  ultimately show ?thesis unfolding packing_complete_def by (metis option.discI)
qed

text \<open>Of an entry for one tile there is one flip of one tile.\<close>

lemma single_chunk: "packed_ok chip types ops maxP iters v info \<Longrightarrow> 1 \<le> iters \<Longrightarrow> shard types v = 1 \<Longrightarrow> False"
proof -
  assume a: "packed_ok chip types ops maxP iters v info" "1 \<le> iters" "shard types v = 1"
  then have i: "iters * (numDstFlips info * numTilesPerFlip info) = 1" "2 \<le> numDstFlips info" "1 \<le> numTilesPerFlip info"
    unfolding packed_ok_def by metis+
  have "2 \<le> numDstFlips info * numTilesPerFlip info" using mult_mono [of 2 "numDstFlips info" 1 "numTilesPerFlip info"] i(2,3) by simp
  then show False using mult_mono [of 1 iters 2 "numDstFlips info * numTilesPerFlip info"] a(2) i(1) by simp
qed

lemma packing_entries_ok:
  assumes "static_types types" and r: "computeDSTPackingForRegion chip types ops maxP = Inr r"
  shows "1 \<le> numOuterLoopIters r"
    "perResult r v = Some info \<Longrightarrow> packed_ok chip types ops maxP (numOuterLoopIters r) v info \<or>
       shard types v = 1 \<and> numOuterLoopIters r = 1 \<and> info = \<lparr>numDstFlips = 1, numTilesPerFlip = 1, numTilesPerResult = 1\<rparr>"
proof -
  have "1 \<le> numOuterLoopIters r \<and> (\<forall>v info. perResult r v = Some info \<longrightarrow>
      packed_ok chip types ops maxP (numOuterLoopIters r) v info \<or>
      shard types v = 1 \<and> numOuterLoopIters r = 1 \<and> info = \<lparr>numDstFlips = 1, numTilesPerFlip = 1, numTilesPerResult = 1\<rparr>)"
    using r
  proof (cases rule: packing_cases)
    case (single singles pending)
    then show ?thesis using single_info region_pending [OF single(1)] by (fastforce simp: single_tile_info_def)
  next
    case shared
    then show ?thesis using shared_chunking_ok [OF assms(1) shared] by auto
  next
    case (merged singles pending iters)
    then show ?thesis using merged_region_ok [OF _ merged(2)] region_pending [OF merged(1)] by fastforce
  qed
  then show "1 \<le> numOuterLoopIters r"
    "perResult r v = Some info \<Longrightarrow> packed_ok chip types ops maxP (numOuterLoopIters r) v info \<or>
       shard types v = 1 \<and> numOuterLoopIters r = 1 \<and> info = \<lparr>numDstFlips = 1, numTilesPerFlip = 1, numTilesPerResult = 1\<rparr>"
    by blast+
qed

text \<open>C35: Packing a region never fails an assertion. Each result that a packing records is
  covered exactly: outer iterations times flips times tiles per flip is its shard, each outer iteration has
  at least two flips, and a flip fits the capacity of an operation that writes the result; a region of
  one-tile shards gets one flip of one tile. The first output of every operation is recorded. Unless the
  packing is that of the fallback along the shared rows, every output is recorded and its flips fit the capacity
  of every operation that writes it.\<close>

theorem dst_packing_covers_shards:
  assumes "static_types types" "\<forall>op\<in>set ops. outputs op \<noteq> [] \<and> (\<forall>v\<in>set (outputs op). 0 < shard types v)"
  shows "case computeDSTPackingForRegion chip types ops maxP of
      Inl e \<Rightarrow> e = NoInfo
    | Inr r \<Rightarrow> 1 \<le> numOuterLoopIters r \<and> packing_complete chip types ops maxP r \<and>
        (\<forall>v info. perResult r v = Some info \<longrightarrow>
          packed_ok chip types ops maxP (numOuterLoopIters r) v info \<or>
          shard types v = 1 \<and> numOuterLoopIters r = 1 \<and> info = \<lparr>numDstFlips = 1, numTilesPerFlip = 1, numTilesPerResult = 1\<rparr>)"
proof (cases "computeDSTPackingForRegion chip types ops maxP")
  case (Inl e)
  have c: "collect_pending chip types maxP (output_pairs ops) \<noteq> Inl Asserted"
    by (rule collect_defined) (use assms(2) in force)
  have t: "trySharedParallelChunking chip types ops maxP \<noteq> Inl Asserted"
    using shared_chunking_defined [OF assms(1)] assms(2) by blast
  have "e = NoInfo"
  proof (cases "collect_pending chip types maxP (output_pairs ops)")
    case (Inr p)
    obtain singles pending where p: "collect_pending chip types maxP (output_pairs ops) = Inr (singles, pending)"
      using Inr by (cases p) auto
    let ?ps = "normalize_pending pending"
    have ok: "\<forall>p\<in>set ?ps. \<exists>op\<in>set ops. outputValue p \<in> set (outputs op) \<and> pending_ok chip types maxP op p"
      using region_pending [OF p] by blast
    note r = Inl [unfolded computeDSTPackingForRegion_def p sum.case prod.case Let_def]
    show ?thesis
    proof (cases "?ps = [] \<or> singles \<noteq> []")
      case False
      have "\<forall>f\<in>set (map p_flips ?ps). 2 \<le> f" using ok by (auto simp: pending_ok_def)
      then obtain iters where i: "getLargestCommonNumOuterLoopIters (map p_flips ?ps) = Inr iters"
        using iters_exist [of "map p_flips ?ps"] False by auto
      obtain q where "merged_region iters ?ps = Inr q" using merged_region_ok [OF ok i] by blast
      then show ?thesis using r False i t by (auto split: if_splits sum.splits dst_error.splits)
    qed (use r in \<open>auto split: if_splits\<close>)
  qed (use Inl c in \<open>cases e; auto simp: computeDSTPackingForRegion_def\<close>)
  then show ?thesis using Inl by simp
next
  case (Inr r)
  note ok = packing_entries_ok [OF assms(1) Inr]
  have one: "numTilesPerFlip info \<le> 1" if "perResult r v = Some info" "shard types v = 1" for v info
    using ok(2) [OF that(1)] single_chunk [OF _ ok(1) that(2)] by auto
  have "\<forall>op\<in>set ops. outputs op \<noteq> []" using assms(2) by blast
  then have "packing_complete chip types ops maxP r" by (rule packing_is_complete [OF Inr]) (rule one)
  then show ?thesis using Inr ok by simp
qed

end
