(* ===== verification/DstExamples.thy ===== *)
theory DstExamples
  imports DstPacking
begin

text \<open>
  Regions evaluated: an element-wise chain on one buffer, and a chain fused with a reduction, where
  the fallback along the shared rows overflows the destination register.
\<close>

definition tile_shape :: "shape \<Rightarrow> shaped_type" where
  "tile_shape sh = \<lparr>st_shape = sh, st_static = True, st_elem = TileType BFloat16\<rparr>"

text \<open>Values 0 and 2 are \<open>4 x 8\<close> tiles, value 1 is \<open>4 x 1\<close>.\<close>

definition ex_types :: types where
  "ex_types v = (if v = 0 \<or> v = 2 then Some (tile_shape [4, 8]) else if v = 1 then Some (tile_shape [4, 1]) else None)"

definition fpu_op :: "nat \<Rightarrow> linalg_op" where
  "fpu_op v = \<lparr>outputs = [v], compute_ops = [FpuTileOp]\<rparr>"

definition sfpu_op :: "nat \<Rightarrow> linalg_op" where
  "sfpu_op v = \<lparr>outputs = [v], compute_ops = [OtherTileOp]\<rparr>"

lemma ex_types_static: "static_types ex_types"
  by (simp add: static_types_def ex_types_def tile_shape_def)

lemma ex_shards: "shard ex_types 0 = 32" "shard ex_types 1 = 4" "shard ex_types 2 = 32"
  by (simp_all add: shard_def ex_types_def tile_shape_def volume_def)

text \<open>The capacity is eight tiles on the FPU and four on the SFPU.\<close>

lemma ex_capacities:
  "getMaxDstTilesForLinalgOp 16 ex_types (fpu_op 0) 0 = Inr 8"
  "getMaxDstTilesForLinalgOp 16 ex_types (sfpu_op 0) 0 = Inr 4"
  "getMaxDstTilesForLinalgOp 16 ex_types (fpu_op 1) 0 = Inr 8"
  by (simp_all add: getMaxDstTilesForLinalgOp_def fpu_op_def sfpu_op_def ex_types_def tile_shape_def tile_type_data
      getDstLogicalSizeTiles_def getNumberOfBits_def classifyLinalgExecutionClass_def classifyComputeOp_def)

lemma ex_chunks:
  "getLargestLegalChunkSize 32 8 = Inr 8" "getLargestLegalChunkSize 32 4 = Inr 4" "getLargestLegalChunkSize 4 8 = Inr 2"
  "getLargestLegalChunkSize 16 8 = Inr 8" "getLargestLegalChunkSize 16 4 = Inr 4" "getLargestLegalChunkSize 2 8 = Inr 1"
  by code_simp+

lemma ex_type_simps:
  "ex_types 0 = Some (tile_shape [4, 8])" "ex_types (Suc 0) = Some (tile_shape [4, 1])"
  "outputs (fpu_op v) = [v]" "outputs (sfpu_op v) = [v]" "st_static (tile_shape sh)" "st_shape (tile_shape sh) = sh"
  by (simp_all add: ex_types_def tile_shape_def fpu_op_def sfpu_op_def)

definition chain_ops :: "linalg_op list" where
  "chain_ops = [fpu_op 0, sfpu_op 0]"

definition chain_pending :: "pending_result list" where
  "chain_pending = [\<lparr>outputValue = 0, p_shard = 32, p_tilesPerFlip = 8, p_flips = 4\<rparr>,
     \<lparr>outputValue = 0, p_shard = 32, p_tilesPerFlip = 4, p_flips = 8\<rparr>]"

lemma chain_collected: "collect_pending 16 ex_types 0 (output_pairs chain_ops) = Inr ([], chain_pending)"
  by (simp add: chain_ops_def chain_pending_def ex_type_simps ex_capacities ex_chunks volume_def)

lemma chain_iters: "getLargestCommonNumOuterLoopIters [8, 8] = Inr 4"
  by code_simp

definition chain_region :: region_info where
  "chain_region = \<lparr>perResult = [0 \<mapsto> \<lparr>numDstFlips = 2, numTilesPerFlip = 4, numTilesPerResult = 8\<rparr>],
     regionTilesPerResult = 8, numOuterLoopIters = 4\<rparr>"

lemma chain_packed: "computeDSTPackingForRegion 16 ex_types chain_ops 0 = Inr chain_region"
proof -
  have n: "normalize_pending chain_pending = [\<lparr>outputValue = 0, p_shard = 32, p_tilesPerFlip = 4, p_flips = 8\<rparr>,
      \<lparr>outputValue = 0, p_shard = 32, p_tilesPerFlip = 4, p_flips = 8\<rparr>]"
    by (simp add: normalize_pending_def chain_pending_def)
  show ?thesis unfolding computeDSTPackingForRegion_def chain_collected sum.case prod.case Let_def n
    by (simp add: chain_iters merged_region_def merge_result_def chain_region_def Let_def)
qed

lemma dst_packing_covers_shards_witness:
  "packed_ok 16 ex_types chain_ops 0 4 0 \<lparr>numDstFlips = 2, numTilesPerFlip = 4, numTilesPerResult = 8\<rparr>"
proof -
  have "\<forall>op\<in>set chain_ops. outputs op \<noteq> [] \<and> (\<forall>v\<in>set (outputs op). 0 < shard ex_types v)"
    by (simp add: chain_ops_def ex_type_simps ex_shards)
  from dst_packing_covers_shards [OF ex_types_static this, of 16 0] show ?thesis
    unfolding chain_packed by (simp add: chain_region_def ex_shards)
qed

lemma chain_not_shared: "trySharedParallelChunking 16 ex_types chain_ops 0 \<noteq> Inr chain_region"
proof -
  have "trySharedParallelChunking 16 ex_types chain_ops 0 = shared_candidates 4
      [\<lparr>i_output = 0, rowDim = 4, colProduct = 8, i_shard = 32, i_maxDst = 8\<rparr>, \<lparr>i_output = 0, rowDim = 4, colProduct = 8, i_shard = 32, i_maxDst = 4\<rparr>]
      [4, 2, 2, 1]"
  proof -
    have f: "getFactors 4 = [1, 2, 2, 4]" by (rule getFactors_square)
    show ?thesis by (simp add: trySharedParallelChunking_def chain_ops_def ex_type_simps ex_capacities f)
  qed
  also have "\<dots> \<noteq> Inr chain_region"
    by (simp add: ex_chunks Let_def try_emplace_def chain_region_def)
  finally show ?thesis .
qed

lemma dst_capacity_of_every_writer_witness:
  "numTilesPerFlip (the (perResult chain_region 0)) \<le> 4"
  using dst_capacity_of_every_writer [OF chain_packed chain_not_shared, of 0 _ "sfpu_op 0" 4]
  by (simp add: chain_region_def chain_ops_def ex_type_simps ex_shards ex_capacities)

section \<open>The fallback\<close>

definition fused_ops :: "linalg_op list" where
  "fused_ops = [fpu_op 0, sfpu_op 0, fpu_op 1]"

definition fused_region :: region_info where
  "fused_region = \<lparr>perResult = [0 \<mapsto> \<lparr>numDstFlips = 2, numTilesPerFlip = 8, numTilesPerResult = 16\<rparr>,
       1 \<mapsto> \<lparr>numDstFlips = 2, numTilesPerFlip = 1, numTilesPerResult = 2\<rparr>],
     regionTilesPerResult = 16, numOuterLoopIters = 2\<rparr>"

lemma fused_shared: "trySharedParallelChunking 16 ex_types fused_ops 0 = Inr fused_region"
proof -
  have f: "getFactors 4 = [1, 2, 2, 4]" by (rule getFactors_square)
  have "trySharedParallelChunking 16 ex_types fused_ops 0 = shared_candidates 4
      [\<lparr>i_output = 0, rowDim = 4, colProduct = 8, i_shard = 32, i_maxDst = 8\<rparr>, \<lparr>i_output = 0, rowDim = 4, colProduct = 8, i_shard = 32, i_maxDst = 4\<rparr>,
       \<lparr>i_output = 1, rowDim = 4, colProduct = 1, i_shard = 4, i_maxDst = 8\<rparr>]
      [4, 2, 2, 1]"
    by (simp add: trySharedParallelChunking_def fused_ops_def ex_type_simps ex_capacities [simplified] f)
  also have "\<dots> = Inr fused_region"
    by (simp add: ex_chunks Let_def try_emplace_def fused_region_def)
  finally show ?thesis .
qed

lemma fused_packed: "computeDSTPackingForRegion 16 ex_types fused_ops 0 = Inr fused_region"
proof -
  have c: "collect_pending 16 ex_types 0 (output_pairs fused_ops) = Inr ([], chain_pending @ [\<lparr>outputValue = 1, p_shard = 4, p_tilesPerFlip = 2, p_flips = 2\<rparr>])"
    by (simp add: fused_ops_def chain_pending_def ex_type_simps ex_capacities [simplified] ex_chunks volume_def)
  have n: "normalize_pending (chain_pending @ [\<lparr>outputValue = 1, p_shard = 4, p_tilesPerFlip = 2, p_flips = 2\<rparr>]) =
      [\<lparr>outputValue = 0, p_shard = 32, p_tilesPerFlip = 2, p_flips = 16\<rparr>, \<lparr>outputValue = 0, p_shard = 32, p_tilesPerFlip = 2, p_flips = 16\<rparr>,
       \<lparr>outputValue = 1, p_shard = 4, p_tilesPerFlip = 2, p_flips = 2\<rparr>]"
    by (simp add: normalize_pending_def chain_pending_def)
  have i: "getLargestCommonNumOuterLoopIters [16, 16, 2] = Inr 1" by code_simp
  show ?thesis unfolding computeDSTPackingForRegion_def c sum.case prod.case Let_def n fused_shared
    by (simp add: i heterogeneous_def)
qed

text \<open>the fallback along the shared rows can overflow the destination register: of two operations
  that write one buffer it keeps the entry of the first, here eight tiles per flip, although the second
  has room for four only.\<close>

theorem shared_chunking_overflows:
  "\<exists>r info. computeDSTPackingForRegion 16 ex_types fused_ops 0 = Inr r \<and> perResult r 0 = Some info \<and>
    (\<exists>op\<in>set fused_ops. 0 \<in> set (outputs op) \<and>
      (\<exists>d. getMaxDstTilesForLinalgOp 16 ex_types op 0 = Inr d \<and> d < numTilesPerFlip info))"
proof -
  have "perResult fused_region 0 = Some \<lparr>numDstFlips = 2, numTilesPerFlip = 8, numTilesPerResult = 16\<rparr>"
    by (simp add: fused_region_def)
  moreover have "sfpu_op 0 \<in> set fused_ops" "0 \<in> set (outputs (sfpu_op 0))" by (simp_all add: fused_ops_def ex_type_simps)
  ultimately show ?thesis using fused_packed ex_capacities(2) by force
qed

end
