(* ===== verification/AffineModel.thy ===== *)
theory AffineModel
  imports Tensors
begin

text \<open>
  Affine expressions and maps, and the map constructions of \<open>include/ttmlir/AffineMapUtils.h\<close>.
  \<open>mlir::AffineExpr\<close> is MLIR's type: a datatype with its documented constructors and meaning,
  integers being unbounded. The code builds expressions with MLIR's overloaded operators, which
  simplify as they build; which simplifications they make is not code of the repository, so the
  operators are a record \<open>affine_ops\<close> of functions, of which only the documented meaning is assumed.
\<close>

named_theorems affine_simps "evaluation of built affine expressions"

section \<open>Expressions\<close>

datatype binary_kind = AddK | MulK | ModK | FloorDivK | CeilDivK

datatype affine_expr =
    DimE nat
  | SymE nat
  | ConstE int
  | BinE binary_kind affine_expr affine_expr

fun eval_binary :: "binary_kind \<Rightarrow> int \<Rightarrow> int \<Rightarrow> int" where
  "eval_binary AddK a b = a + b"
| "eval_binary MulK a b = a * b"
| "eval_binary ModK a b = a mod b"
| "eval_binary FloorDivK a b = a div b"
| "eval_binary CeilDivK a b = - ((- a) div b)"

fun eval_expr :: "int list \<Rightarrow> int list \<Rightarrow> affine_expr \<Rightarrow> int" where
  "eval_expr dims syms (DimE i) = dims ! i"
| "eval_expr dims syms (SymE i) = syms ! i"
| "eval_expr dims syms (ConstE k) = k"
| "eval_expr dims syms (BinE kind l r) = eval_binary kind (eval_expr dims syms l) (eval_expr dims syms r)"

text \<open>The dimensions and symbols of an expression, and the divisors it evaluates.\<close>

fun dims_below :: "nat \<Rightarrow> affine_expr \<Rightarrow> bool" where
  "dims_below n (DimE i) \<longleftrightarrow> i < n"
| "dims_below n (SymE i) \<longleftrightarrow> True"
| "dims_below n (ConstE k) \<longleftrightarrow> True"
| "dims_below n (BinE kind l r) \<longleftrightarrow> dims_below n l \<and> dims_below n r"

fun syms_below :: "nat \<Rightarrow> affine_expr \<Rightarrow> bool" where
  "syms_below n (DimE i) \<longleftrightarrow> True"
| "syms_below n (SymE i) \<longleftrightarrow> i < n"
| "syms_below n (ConstE k) \<longleftrightarrow> True"
| "syms_below n (BinE kind l r) \<longleftrightarrow> syms_below n l \<and> syms_below n r"

text \<open>Divisors are positive, as MLIR requires.\<close>

fun divisors_pos :: "int list \<Rightarrow> int list \<Rightarrow> affine_expr \<Rightarrow> bool" where
  "divisors_pos ds ss (BinE kind l r) \<longleftrightarrow>
     divisors_pos ds ss l \<and> divisors_pos ds ss r \<and> (kind \<in> {ModK, FloorDivK, CeilDivK} \<longrightarrow> 0 < eval_expr ds ss r)"
| "divisors_pos ds ss e \<longleftrightarrow> True"

section \<open>MLIR's operators\<close>

record affine_ops =
  plusE :: "affine_expr \<Rightarrow> affine_expr \<Rightarrow> affine_expr"
  timesE :: "affine_expr \<Rightarrow> affine_expr \<Rightarrow> affine_expr"
  modE :: "affine_expr \<Rightarrow> affine_expr \<Rightarrow> affine_expr"
  floorDivE :: "affine_expr \<Rightarrow> affine_expr \<Rightarrow> affine_expr"
  ceilDivE :: "affine_expr \<Rightarrow> affine_expr \<Rightarrow> affine_expr"
  replaceE :: "affine_expr list \<Rightarrow> affine_expr list \<Rightarrow> affine_expr \<Rightarrow> affine_expr"

text \<open>What the operators promise: the value of what they build, for a positive divisor, and that they
  do not introduce other divisors. \<open>replaceE\<close> is
  \<open>AffineExpr::replaceDimsAndSymbols\<close>, which leaves dimensions and symbols without a replacement as
  they are.\<close>

definition replaced :: "int list \<Rightarrow> int list \<Rightarrow> affine_expr list \<Rightarrow> int list \<Rightarrow> int list" where
  "replaced ds ss es xs = map (eval_expr ds ss) es @ drop (length es) xs"

definition replaceable :: "int list \<Rightarrow> int list \<Rightarrow> affine_expr list \<Rightarrow> affine_expr list \<Rightarrow> affine_expr \<Rightarrow> bool" where
  "replaceable ds ss dr sr e \<longleftrightarrow>
     (dims_below (length dr) e \<or> length dr \<le> length ds) \<and> (syms_below (length sr) e \<or> length sr \<le> length ss) \<and>
     divisors_pos (replaced ds ss dr ds) (replaced ds ss sr ss) e"

definition legal_affine :: "affine_ops \<Rightarrow> bool" where
  "legal_affine ops \<longleftrightarrow>
     (\<forall>ds ss l r. eval_expr ds ss (plusE ops l r) = eval_expr ds ss l + eval_expr ds ss r)
     \<and> (\<forall>ds ss l r. eval_expr ds ss (timesE ops l r) = eval_expr ds ss l * eval_expr ds ss r)
     \<and> (\<forall>ds ss l r. 0 < eval_expr ds ss r \<longrightarrow>
          eval_expr ds ss (modE ops l r) = eval_expr ds ss l mod eval_expr ds ss r
          \<and> eval_expr ds ss (floorDivE ops l r) = eval_expr ds ss l div eval_expr ds ss r
          \<and> eval_expr ds ss (ceilDivE ops l r) = - ((- eval_expr ds ss l) div eval_expr ds ss r))
     \<and> (\<forall>ds ss l r. divisors_pos ds ss l \<and> divisors_pos ds ss r \<longrightarrow>
          divisors_pos ds ss (plusE ops l r) \<and> divisors_pos ds ss (timesE ops l r) \<and>
          (0 < eval_expr ds ss r \<longrightarrow> divisors_pos ds ss (modE ops l r) \<and> divisors_pos ds ss (floorDivE ops l r)
             \<and> divisors_pos ds ss (ceilDivE ops l r)))
     \<and> (\<forall>ds ss dr sr e. replaceable ds ss dr sr e \<longrightarrow>
          eval_expr ds ss (replaceE ops dr sr e) = eval_expr (replaced ds ss dr ds) (replaced ds ss sr ss) e)"

text \<open>Operators that fold constants and drop neutral elements.\<close>

fun fold_plus :: "affine_expr \<Rightarrow> affine_expr \<Rightarrow> affine_expr" where
  "fold_plus (ConstE a) (ConstE b) = ConstE (a + b)"
| "fold_plus l (ConstE b) = (if b = 0 then l else BinE AddK l (ConstE b))"
| "fold_plus (ConstE a) r = (if a = 0 then r else BinE AddK r (ConstE a))"
| "fold_plus l r = BinE AddK l r"

fun fold_times :: "affine_expr \<Rightarrow> affine_expr \<Rightarrow> affine_expr" where
  "fold_times (ConstE a) (ConstE b) = ConstE (a * b)"
| "fold_times l (ConstE b) = (if b = 1 then l else if b = 0 then ConstE 0 else BinE MulK l (ConstE b))"
| "fold_times (ConstE a) r = (if a = 1 then r else if a = 0 then ConstE 0 else BinE MulK r (ConstE a))"
| "fold_times l r = BinE MulK l r"

definition fold_mod :: "affine_expr \<Rightarrow> affine_expr \<Rightarrow> affine_expr" where
  "fold_mod l r = (case (l, r) of (ConstE a, ConstE b) \<Rightarrow> if b > 0 then ConstE (a mod b) else BinE ModK l r
     | _ \<Rightarrow> BinE ModK l r)"

definition fold_floordiv :: "affine_expr \<Rightarrow> affine_expr \<Rightarrow> affine_expr" where
  "fold_floordiv l r = (case (l, r) of (ConstE a, ConstE b) \<Rightarrow> if b > 0 then ConstE (a div b) else BinE FloorDivK l r
     | _ \<Rightarrow> if r = ConstE 1 then l else BinE FloorDivK l r)"

fun fold_replace :: "affine_expr list \<Rightarrow> affine_expr list \<Rightarrow> affine_expr \<Rightarrow> affine_expr" where
  "fold_replace dr sr (DimE i) = (if i < length dr then dr ! i else DimE i)"
| "fold_replace dr sr (SymE i) = (if i < length sr then sr ! i else SymE i)"
| "fold_replace dr sr (ConstE k) = ConstE k"
| "fold_replace dr sr (BinE kind l r) =
     (let l' = fold_replace dr sr l; r' = fold_replace dr sr r
      in case kind of AddK \<Rightarrow> fold_plus l' r' | MulK \<Rightarrow> fold_times l' r' | ModK \<Rightarrow> fold_mod l' r'
         | FloorDivK \<Rightarrow> fold_floordiv l' r' | CeilDivK \<Rightarrow> BinE CeilDivK l' r')"

definition folding_ops :: affine_ops where
  "folding_ops = \<lparr>plusE = fold_plus, timesE = fold_times, modE = fold_mod, floorDivE = fold_floordiv,
     ceilDivE = BinE CeilDivK, replaceE = fold_replace\<rparr>"

lemma eval_fold_plus: "eval_expr ds ss (fold_plus l r) = eval_expr ds ss l + eval_expr ds ss r"
  by (cases "(l, r)" rule: fold_plus.cases) auto

lemma eval_fold_times: "eval_expr ds ss (fold_times l r) = eval_expr ds ss l * eval_expr ds ss r"
  by (cases "(l, r)" rule: fold_times.cases) auto

lemma eval_fold_mod: "eval_expr ds ss (fold_mod l r) = eval_expr ds ss l mod eval_expr ds ss r"
  by (auto simp: fold_mod_def split: affine_expr.splits)

lemma eval_fold_floordiv: "eval_expr ds ss (fold_floordiv l r) = eval_expr ds ss l div eval_expr ds ss r"
  by (auto simp: fold_floordiv_def split: affine_expr.splits)

lemma nth_replaced:
  "i < length es \<or> length es \<le> length xs \<Longrightarrow>
     replaced ds ss es xs ! i = (if i < length es then eval_expr ds ss (es ! i) else xs ! i)"
  by (auto simp: replaced_def nth_append)

lemma eval_fold_replace:
  assumes "dims_below (length dr) e \<or> length dr \<le> length ds" "syms_below (length sr) e \<or> length sr \<le> length ss"
  shows "eval_expr ds ss (fold_replace dr sr e) = eval_expr (replaced ds ss dr ds) (replaced ds ss sr ss) e"
  using assms
proof (induction e)
  case (BinE kind l r)
  then have "eval_expr ds ss (fold_replace dr sr l) = eval_expr (replaced ds ss dr ds) (replaced ds ss sr ss) l"
    "eval_expr ds ss (fold_replace dr sr r) = eval_expr (replaced ds ss dr ds) (replaced ds ss sr ss) r" by auto
  then show ?case
    by (cases kind) (simp_all add: Let_def eval_fold_plus eval_fold_times eval_fold_mod eval_fold_floordiv)
qed (auto simp: nth_replaced)

lemma pos_fold_plus: "divisors_pos ds ss l \<Longrightarrow> divisors_pos ds ss r \<Longrightarrow> divisors_pos ds ss (fold_plus l r)"
  by (cases "(l, r)" rule: fold_plus.cases) auto

lemma pos_fold_times: "divisors_pos ds ss l \<Longrightarrow> divisors_pos ds ss r \<Longrightarrow> divisors_pos ds ss (fold_times l r)"
  by (cases "(l, r)" rule: fold_times.cases) auto

lemma pos_fold_div:
  assumes "divisors_pos ds ss l" "divisors_pos ds ss r" "0 < eval_expr ds ss r"
  shows "divisors_pos ds ss (fold_mod l r)" "divisors_pos ds ss (fold_floordiv l r)"
  using assms by (auto simp: fold_mod_def fold_floordiv_def split: affine_expr.splits)

text \<open>What clients of the operators use.\<close>

locale affine_builder =
  fixes ops :: affine_ops
  assumes legal: "legal_affine ops"
begin

lemma eval_plus [affine_simps]: "eval_expr ds ss (plusE ops l r) = eval_expr ds ss l + eval_expr ds ss r"
  using legal by (simp add: legal_affine_def)

lemma eval_times [affine_simps]: "eval_expr ds ss (timesE ops l r) = eval_expr ds ss l * eval_expr ds ss r"
  using legal by (simp add: legal_affine_def)

lemma eval_div [affine_simps]:
  assumes "0 < eval_expr ds ss r"
  shows "eval_expr ds ss (modE ops l r) = eval_expr ds ss l mod eval_expr ds ss r"
    "eval_expr ds ss (floorDivE ops l r) = eval_expr ds ss l div eval_expr ds ss r"
    "eval_expr ds ss (ceilDivE ops l r) = - ((- eval_expr ds ss l) div eval_expr ds ss r)"
  using legal assms by (simp_all add: legal_affine_def)

lemma pos_ops:
  assumes "divisors_pos ds ss l" "divisors_pos ds ss r"
  shows "divisors_pos ds ss (plusE ops l r)" "divisors_pos ds ss (timesE ops l r)"
    "0 < eval_expr ds ss r \<Longrightarrow> divisors_pos ds ss (modE ops l r)"
    "0 < eval_expr ds ss r \<Longrightarrow> divisors_pos ds ss (floorDivE ops l r)"
  using legal assms by (simp_all add: legal_affine_def)

lemma eval_replace:
  "replaceable ds ss dr sr e \<Longrightarrow>
     eval_expr ds ss (replaceE ops dr sr e) = eval_expr (replaced ds ss dr ds) (replaced ds ss sr ss) e"
  using legal by (simp add: legal_affine_def)

end

lemma legal_folding: "legal_affine folding_ops"
  unfolding legal_affine_def folding_ops_def
  by (simp add: eval_fold_plus eval_fold_times eval_fold_mod eval_fold_floordiv eval_fold_replace
      replaceable_def pos_fold_plus pos_fold_times pos_fold_div)

interpretation folding: affine_builder folding_ops
  by unfold_locales (rule legal_folding)

section \<open>Maps\<close>

record affine_map =
  numDims :: nat
  numSymbols :: nat
  results :: "affine_expr list"

definition compose_map :: "affine_map \<Rightarrow> int list \<Rightarrow> int list" where
  "compose_map m point = map (eval_expr point []) (results m)"

end
