(* ===== verification/AffineMaps.thy ===== *)
theory AffineMaps
  imports AffineModel RowWalk
begin

text \<open>
  Maps built by \<open>include/ttmlir/AffineMapUtils.h\<close> and \<open>lib/Dialect/D2M/Utils/VirtualGrid.cpp\<close>:
  reblocking a grid of shards, distributing a physical shape over a grid, and virtual grids. \<open>None\<close>
  is a failed assertion.
\<close>

section \<open>Small constructions\<close>

definition evalShape :: "affine_map \<Rightarrow> shape \<Rightarrow> shape" where
  "evalShape m sh =
     (let mappedEndCoord = compose_map m (map (\<lambda>d. d - 1) sh);
          mappedStartCoord = compose_map m (replicate (length sh) 0)
      in map2 (\<lambda>e s. e - s + 1) mappedEndCoord mappedStartCoord)"

definition replaceAffineMapSymbols :: "affine_ops \<Rightarrow> affine_map \<Rightarrow> int list \<Rightarrow> affine_map option" where
  "replaceAffineMapSymbols ops m symbols =
     (if numSymbols m \<noteq> length symbols then None
      else Some \<lparr>numDims = numDims m, numSymbols = 0,
             results = map (replaceE ops (map DimE [0..<numDims m]) (map ConstE symbols)) (results m)\<rparr>)"

definition applyOffsetsToAffineMapResults :: "affine_ops \<Rightarrow> affine_map \<Rightarrow> int list \<Rightarrow> nat \<Rightarrow> affine_map option" where
  "applyOffsetsToAffineMapResults ops m offsets startIndex =
     (if offsets = [] then Some m
      else if \<not> startIndex + length offsets \<le> length (results m) then None
      else Some \<lparr>numDims = numDims m, numSymbols = numSymbols m,
             results = map (\<lambda>i. if startIndex \<le> i \<and> i < startIndex + length offsets
                                 then plusE ops (results m ! i) (ConstE (offsets ! (i - startIndex)))
                                 else results m ! i) [0..<length (results m)]\<rparr>)"

definition applyOffsetsToAffineMapDims :: "affine_ops \<Rightarrow> affine_map \<Rightarrow> int list \<Rightarrow> nat \<Rightarrow> affine_map option" where
  "applyOffsetsToAffineMapDims ops m offsets startIndex =
     (if offsets = [] then Some m
      else if \<not> startIndex + length offsets \<le> numDims m then None
      else Some \<lparr>numDims = numDims m, numSymbols = numSymbols m,
             results = map (replaceE ops
               (map (\<lambda>i. if startIndex \<le> i \<and> i < startIndex + length offsets
                         then plusE ops (DimE i) (ConstE (offsets ! (i - startIndex)))
                         else DimE i) [0..<numDims m]) []) (results m)\<rparr>)"

definition generateAffineMapFromShardStrides :: "affine_ops \<Rightarrow> int list \<Rightarrow> affine_map" where
  "generateAffineMapFromShardStrides ops strides =
     (let rank = length strides
      in \<lparr>numDims = rank * 2, numSymbols = 0,
          results = map DimE [0..<rank] @
            [foldr (\<lambda>i e. plusE ops (timesE ops (DimE (rank + i)) (ConstE (strides ! i))) e) [0..<rank] (ConstE 0)]\<rparr>)"

definition affineMapDropBackResults :: "affine_map \<Rightarrow> nat \<Rightarrow> affine_map" where
  "affineMapDropBackResults m numResultsToDrop =
     m\<lparr>results := take (length (results m) - numResultsToDrop) (results m)\<rparr>"

definition affineMapTakeFrontResults :: "affine_map \<Rightarrow> nat \<Rightarrow> affine_map option" where
  "affineMapTakeFrontResults m numResultsToTake =
     (if numResultsToTake \<le> length (results m) then Some (m\<lparr>results := take numResultsToTake (results m)\<rparr>) else None)"

definition dropDim :: "affine_ops \<Rightarrow> affine_map \<Rightarrow> nat \<Rightarrow> affine_map option" where
  "dropDim ops m dimToRemove =
     (if \<not> dimToRemove < numDims m then None
      else Some \<lparr>numDims = numDims m - 1, numSymbols = numSymbols m,
             results = map (replaceE ops
               (map (\<lambda>i. if i < dimToRemove then DimE i else if i = dimToRemove then ConstE 0 else DimE (i - 1))
                 [0..<numDims m]) []) (results m)\<rparr>)"

definition affineMapSelectOneOutput :: "affine_map \<Rightarrow> nat \<Rightarrow> affine_map" where
  "affineMapSelectOneOutput m selectedResult =
     m\<lparr>results := map (\<lambda>i. results m ! i) (filter (\<lambda>i. i = selectedResult) [0..<length (results m)])\<rparr>"

text \<open>The grid covered by the images of a grid's points; the bounds start from the largest 64-bit value.\<close>

definition applyMapToGrid :: "shape \<Rightarrow> affine_map \<Rightarrow> bool \<Rightarrow> shape option" where
  "applyMapToGrid gridShape m assertResultStartsAtOrigin =
     (if length gridShape \<noteq> numDims m then None
      else let n = length (results m);
               points = map (compose_map m) (sample gridShape);
               resultGridShape = foldl (\<lambda>acc v. map2 (\<lambda>a x. max a (x + 1)) acc v) (replicate n 0) points;
               lowerBound = foldl (\<lambda>acc v. map2 min acc v) (replicate n (2 ^ 63 - 1)) points
           in if assertResultStartsAtOrigin \<and> \<not> list_all (\<lambda>x. x = 0) lowerBound then None
              else Some resultGridShape)"

definition createIdentityGridInverseMap :: affine_map where
  "createIdentityGridInverseMap = \<lparr>numDims = 2, numSymbols = 0, results = [ConstE 0, DimE 0, DimE 1]\<rparr>"

definition createIdentityGridForwardMap :: affine_map where
  "createIdentityGridForwardMap = \<lparr>numDims = 2, numSymbols = 0, results = [ConstE 0, DimE 0, DimE 1]\<rparr>"

section \<open>Composition\<close>

text \<open>\<open>AffineMap::compose\<close> of two maps without symbols.\<close>

definition composeMaps :: "affine_ops \<Rightarrow> affine_map \<Rightarrow> affine_map \<Rightarrow> affine_map" where
  "composeMaps ops f g =
     \<lparr>numDims = numDims g, numSymbols = 0, results = map (replaceE ops (results g) []) (results f)\<rparr>"

section \<open>Reblocking\<close>

definition strideIterationOrder :: "nat \<Rightarrow> nat list" where
  "strideIterationOrder rank = map (\<lambda>i. i mod 2 * (rank div 2) + i div 2) (rev [0..<rank])"

definition iterateInAscendingStrideOrder :: "int list \<Rightarrow> (nat \<times> int) list" where
  "iterateInAscendingStrideOrder sh = map (\<lambda>i. (i, sh ! i)) (strideIterationOrder (length sh))"

fun flat_loop :: "affine_ops \<Rightarrow> (nat \<times> int) list \<Rightarrow> affine_expr \<Rightarrow> affine_expr \<Rightarrow> affine_expr" where
  "flat_loop ops [] expr overallStride = expr"
| "flat_loop ops ((i, dimStride) # ds) expr overallStride =
     (if dimStride > 1
      then flat_loop ops ds (plusE ops (timesE ops (DimE i) overallStride) expr)
             (timesE ops overallStride (ConstE dimStride))
      else flat_loop ops ds expr overallStride)"

fun to_input_loop :: "affine_ops \<Rightarrow> (nat \<times> int) list \<Rightarrow> affine_expr \<Rightarrow> affine_expr list \<Rightarrow> affine_expr list" where
  "to_input_loop ops [] overallStride toInputExprs = toInputExprs"
| "to_input_loop ops ((i, dimStride) # ds) overallStride toInputExprs =
     (let e = floorDivE ops (DimE 0) overallStride;
          e' = (if \<not> (i = 0 \<and> dimStride \<noteq> 1) then modE ops e (ConstE dimStride) else e)
      in to_input_loop ops ds (timesE ops overallStride (ConstE dimStride)) (toInputExprs[i := e']))"

definition calculateReblockMap :: "affine_ops \<Rightarrow> shape \<Rightarrow> shape \<Rightarrow> affine_map option" where
  "calculateReblockMap ops inputShape outputShape =
     (if volume inputShape 1 \<noteq> volume outputShape 1 \<or> length inputShape mod 2 \<noteq> 0 \<or> length outputShape mod 2 \<noteq> 0
      then None
      else if inputShape = outputShape
      then Some \<lparr>numDims = length inputShape, numSymbols = 0, results = map DimE [0..<length inputShape]\<rparr>
      else let outputToFlat = \<lparr>numDims = length outputShape, numSymbols = 0,
                 results = [flat_loop ops (iterateInAscendingStrideOrder outputShape) (ConstE 0) (ConstE 1)]\<rparr>;
               flatToInput = \<lparr>numDims = 1, numSymbols = 0,
                 results = to_input_loop ops (iterateInAscendingStrideOrder inputShape) (ConstE 1)
                             (replicate (length inputShape) (ConstE 0))\<rparr>
           in Some (composeMaps ops flatToInput outputToFlat))"

definition calculateReblockShapeForGrid :: "shape \<Rightarrow> shape \<Rightarrow> shape option" where
  "calculateReblockShapeForGrid tensorShape newGridShape =
     (let n = length newGridShape
      in if length tensorShape mod 2 \<noteq> 0 \<or> n \<noteq> length tensorShape div 2 then None
         else if \<exists>i\<in>set [0..<n]. (tensorShape ! i * tensorShape ! (i + n)) smod (newGridShape ! i) \<noteq> 0 then None
         else Some (newGridShape @ map (\<lambda>i. (tensorShape ! i * tensorShape ! (i + n)) sdiv (newGridShape ! i)) [0..<n]))"

definition calculateReblockMapForGrid :: "affine_ops \<Rightarrow> shape \<Rightarrow> shape \<Rightarrow> (shape \<times> affine_map) option" where
  "calculateReblockMapForGrid ops tensorShape newGridShape =
     (case calculateReblockShapeForGrid tensorShape newGridShape of
        None \<Rightarrow> None
      | Some newTensorShape \<Rightarrow>
          map_option (Pair newTensorShape) (calculateReblockMap ops tensorShape newTensorShape))"

section \<open>Devices and virtual grids\<close>

definition buildDeviceToPhysicalMap :: "affine_ops \<Rightarrow> shape \<Rightarrow> shape \<Rightarrow> affine_map option" where
  "buildDeviceToPhysicalMap ops physicalShape gridShape =
     (let rank = length physicalShape
      in if rank \<noteq> length gridShape then None
         else Some \<lparr>numDims = rank * 2, numSymbols = 0,
                results = map (\<lambda>i. plusE ops (timesE ops (DimE i) (ConstE (physicalShape ! i sdiv gridShape ! i)))
                                     (DimE (rank + i))) [0..<rank]\<rparr>)"

definition buildPhysicalToDeviceMap :: "affine_ops \<Rightarrow> shape \<Rightarrow> shape \<Rightarrow> affine_map option" where
  "buildPhysicalToDeviceMap ops physicalShape gridShape =
     (let rank = length physicalShape;
          shardSize = (\<lambda>i. ConstE (physicalShape ! i sdiv gridShape ! i))
      in if rank \<noteq> length gridShape then None
         else Some \<lparr>numDims = rank, numSymbols = 0,
                results = map (\<lambda>i. floorDivE ops (DimE i) (shardSize i)) [0..<rank]
                        @ map (\<lambda>i. modE ops (DimE i) (shardSize i)) [0..<rank]\<rparr>)"

fun linear_loop :: "affine_ops \<Rightarrow> shape \<Rightarrow> nat list \<Rightarrow> affine_expr \<Rightarrow> affine_expr \<Rightarrow> affine_expr" where
  "linear_loop ops sh [] linearExpr stride = linearExpr"
| "linear_loop ops sh (i # is) linearExpr stride =
     linear_loop ops sh is (plusE ops linearExpr (timesE ops (DimE i) stride)) (timesE ops stride (ConstE (sh ! i)))"

fun expand_loop :: "affine_ops \<Rightarrow> shape \<Rightarrow> affine_expr \<Rightarrow> nat list \<Rightarrow> affine_expr \<Rightarrow> affine_expr list \<Rightarrow> affine_expr list" where
  "expand_loop ops grid linearIdx [] strideExpr exprs = exprs"
| "expand_loop ops grid linearIdx (dim # dims) strideExpr exprs =
     expand_loop ops grid linearIdx dims (timesE ops strideExpr (ConstE (grid ! dim)))
       (modE ops (floorDivE ops linearIdx strideExpr) (ConstE (grid ! dim)) # exprs)"

definition createNDGridCollapseMap :: "affine_ops \<Rightarrow> shape \<Rightarrow> shape \<Rightarrow> nat \<Rightarrow> affine_map option" where
  "createNDGridCollapseMap ops gridShape physGrid shardRank =
     (if length physGrid \<noteq> 2 then None
      else let gridRank = length gridShape;
               linearExpr = linear_loop ops gridShape (rev [0..<gridRank]) (ConstE 0) (ConstE 1)
           in Some \<lparr>numDims = gridRank + shardRank, numSymbols = 0,
                results = expand_loop ops physGrid linearExpr [1, 0] (ConstE 1) []
                  @ map DimE [gridRank..<gridRank + shardRank]\<rparr>)"

definition createCollapseMap :: "affine_ops \<Rightarrow> shape \<Rightarrow> affine_map" where
  "createCollapseMap ops virtualGrid =
     (let n = length virtualGrid
      in \<lparr>numDims = n, numSymbols = 0,
          results = [linear_loop ops virtualGrid (rev [0..<n - 1]) (DimE (n - 1)) (ConstE (last virtualGrid))]\<rparr>)"

definition create1DtoNDMap :: "affine_ops \<Rightarrow> shape \<Rightarrow> affine_map option" where
  "create1DtoNDMap ops targetGrid =
     (if targetGrid = [] \<or> \<not> list_all (\<lambda>s. s > 0) targetGrid then None
      else Some \<lparr>numDims = 1, numSymbols = 0,
             results = expand_loop ops targetGrid (DimE 0) (rev [0..<length targetGrid]) (ConstE 1) []\<rparr>)"

definition extendWithIdentityDimsAndResults :: "affine_map \<Rightarrow> nat \<Rightarrow> affine_map" where
  "extendWithIdentityDimsAndResults m extraDims =
     \<lparr>numDims = numDims m + extraDims, numSymbols = numSymbols m,
      results = results m @ map DimE [numDims m..<numDims m + extraDims]\<rparr>"

definition prependResult :: "affine_map \<Rightarrow> affine_expr \<Rightarrow> affine_map" where
  "prependResult m result = m\<lparr>results := result # results m\<rparr>"

definition createCoreVirtMaps :: "affine_ops \<Rightarrow> shape \<Rightarrow> shape \<Rightarrow> (affine_map \<times> affine_map) option" where
  "createCoreVirtMaps ops virtualGrid targetGrid =
     (if length targetGrid \<noteq> 2 then None
      else case (create1DtoNDMap ops targetGrid, create1DtoNDMap ops virtualGrid) of
             (Some toTarget, Some toVirtual) \<Rightarrow>
               Some (extendWithIdentityDimsAndResults (composeMaps ops toTarget (createCollapseMap ops virtualGrid))
                       (length virtualGrid),
                     prependResult (composeMaps ops toVirtual (createCollapseMap ops targetGrid)) (ConstE 0))
           | _ \<Rightarrow> None)"

definition requiresVirtualGrid :: "shape \<Rightarrow> shape \<Rightarrow> bool" where
  "requiresVirtualGrid gridShape deviceGridShape \<longleftrightarrow>
     length gridShape \<noteq> 2 \<or> gridShape ! 0 > deviceGridShape ! 0 \<or> gridShape ! 1 > deviceGridShape ! 1"

end
