(* ===== verification/AffineReblock.thy ===== *)
theory AffineReblock
  imports AffineMaps
begin

text \<open>
  What the built maps compute: a reblocking map sends every element of the new blocking to the element
  of the old one at the same physical coordinate, and the maps between virtual and physical grids are
  inverse to each other.
\<close>

section \<open>Mixed radix numbers\<close>

text \<open>The value of a coordinate whose dimensions are listed from the fastest on, and its digits.\<close>

fun asc_value :: "(nat \<times> int) list \<Rightarrow> int list \<Rightarrow> int" where
  "asc_value [] c = 0"
| "asc_value ((i, d) # ids) c = c ! i + d * asc_value ids c"

fun asc_digits :: "(nat \<times> int) list \<Rightarrow> int \<Rightarrow> (nat \<times> int) list" where
  "asc_digits [] f = []"
| "asc_digits ((i, d) # ids) f = (i, f mod d) # asc_digits ids (f div d)"

definition asc_bounded :: "(nat \<times> int) list \<Rightarrow> int list \<Rightarrow> bool" where
  "asc_bounded ids c \<longleftrightarrow> (\<forall>(i, d)\<in>set ids. 0 \<le> c ! i \<and> c ! i < d)"

lemma asc_bounded_simps [simp]:
  "asc_bounded [] c" "asc_bounded ((i, d) # ids) c \<longleftrightarrow> 0 \<le> c ! i \<and> c ! i < d \<and> asc_bounded ids c"
  by (auto simp: asc_bounded_def)

lemma asc_value_bounds:
  "asc_bounded ids c \<Longrightarrow> 0 \<le> asc_value ids c \<and> asc_value ids c < prod_list (map snd ids)"
proof (induction ids c rule: asc_value.induct)
  case (2 i d ids c)
  then have ih: "0 \<le> asc_value ids c" "asc_value ids c + 1 \<le> prod_list (map snd ids)" and c: "0 \<le> c ! i" "c ! i < d" by auto
  have "d * (asc_value ids c + 1) \<le> d * prod_list (map snd ids)" using ih c by (intro mult_left_mono) auto
  then show ?case using ih c by (simp add: algebra_simps)
qed simp

lemma asc_value_digits:
  assumes "\<forall>(i, d)\<in>set ids. 0 < d" "0 \<le> f" "f < prod_list (map snd ids)"
    "\<forall>(i, v)\<in>set (asc_digits ids f). c ! i = v"
  shows "asc_bounded ids c \<and> asc_value ids c = f"
  using assms
proof (induction ids f rule: asc_digits.induct)
  case (2 i d ids f)
  then have d: "0 < d" "c ! i = f mod d" by auto
  have "f div d < prod_list (map snd ids)" using 2(4) d by (intro div_less_of_mult) (auto simp: mult.commute)
  then have "asc_bounded ids c \<and> asc_value ids c = f div d" using 2 d by (auto simp: pos_imp_zdiv_nonneg_iff)
  then show ?case using d by simp
qed auto

section \<open>The order of the dimensions\<close>

lemma interleaved: "map (\<lambda>i. i mod 2 * h + i div 2) (rev [0..<2 * n]) = concat (map (\<lambda>k. [h + k, k]) (rev [0..<n]))"
  by (induction n) simp_all

lemma strideIterationOrder_even: "strideIterationOrder (2 * h) = concat (map (\<lambda>k. [h + k, k]) (rev [0..<h]))"
  using interleaved [of h h] by (simp add: strideIterationOrder_def)

lemma order_facts:
  "set (strideIterationOrder (2 * h)) = {0..<2 * h}" "distinct (strideIterationOrder (2 * h))"
proof -
  have "x \<in> {0..<2 * h} \<longleftrightarrow> (\<exists>k<h. x = h + k \<or> x = k)" for x
    by (auto, metis add.commute le_add_diff_inverse2 less_diff_conv2 mult_2 not_less) 
  then show s: "set (strideIterationOrder (2 * h)) = {0..<2 * h}" by (auto simp: strideIterationOrder_even)
  have "length (strideIterationOrder (2 * h)) = card (set (strideIterationOrder (2 * h)))"
    by (simp only: s) (simp add: strideIterationOrder_def)
  then show "distinct (strideIterationOrder (2 * h))" by (metis card_distinct)
qed

text \<open>The outermost dimension comes last, which is the one that needs no remainder.\<close>

fun zero_last :: "(nat \<times> int) list \<Rightarrow> bool" where
  "zero_last [] \<longleftrightarrow> True"
| "zero_last ((i, d) # ids) \<longleftrightarrow> (i = 0 \<longrightarrow> ids = []) \<and> zero_last ids"

lemma zero_last_append: "zero_last (xs @ ys) \<longleftrightarrow> (ys = [] \<and> zero_last xs) \<or> ((\<forall>(i, d)\<in>set xs. i \<noteq> 0) \<and> zero_last ys)"
  by (induction xs rule: zero_last.induct) auto

lemma zero_last_order: "0 < h \<Longrightarrow> zero_last (concat (map (\<lambda>k. [(h + k, s (h + k)), (k, s k)]) (rev [0..<n])))"
  by (induction n) (auto simp: zero_last_append)

lemma ascending_order:
  assumes "length sh = 2 * h"
  shows "iterateInAscendingStrideOrder sh = concat (map (\<lambda>k. [(h + k, sh ! (h + k)), (k, sh ! k)]) (rev [0..<h]))"
  by (simp add: iterateInAscendingStrideOrder_def assms strideIterationOrder_even map_concat comp_def)

section \<open>Physical coordinates\<close>

text \<open>A shape of a grid and its shards describes a physical shape; a coordinate of the one is a coordinate
  of the other.\<close>

definition phys_shape :: "shape \<Rightarrow> shape" where
  "phys_shape sh = (let h = length sh div 2 in map (\<lambda>k. sh ! k * sh ! (h + k)) [0..<h])"

definition phys_coord :: "shape \<Rightarrow> coord \<Rightarrow> coord" where
  "phys_coord sh c = (let h = length sh div 2 in map (\<lambda>k. c ! k * sh ! (h + k) + c ! (h + k)) [0..<h])"

lemma row_index_snoc:
  "length cs = length ds \<Longrightarrow> row_index (ds @ [d]) (cs @ [c]) = row_index ds cs * d + c"
  by (induction ds cs rule: row_index.induct) (auto simp: algebra_simps)

lemma asc_phys:
  "asc_value (concat (map (\<lambda>k. [(h + k, sh ! (h + k)), (k, sh ! k)]) (rev [0..<n]))) c =
     row_index (map (\<lambda>k. sh ! k * sh ! (h + k)) [0..<n]) (map (\<lambda>k. c ! k * sh ! (h + k) + c ! (h + k)) [0..<n])"
  by (induction n) (simp_all add: row_index_snoc algebra_simps)

lemma asc_value_phys:
  "length sh = 2 * h \<Longrightarrow> asc_value (iterateInAscendingStrideOrder sh) c = row_index (phys_shape sh) (phys_coord sh c)"
  by (simp add: ascending_order asc_phys phys_shape_def phys_coord_def)

lemma phys_in_shape:
  assumes "in_shape c sh" "length sh = 2 * h"
  shows "in_shape (phys_coord sh c) (phys_shape sh)"
proof (intro in_shapeI)
  fix k
  assume "k < length (phys_shape sh)"
  then have k: "k < h" using assms(2) by (simp add: phys_shape_def)
  have c: "0 \<le> c ! k" "c ! k < sh ! k" "0 \<le> c ! (h + k)" "c ! (h + k) < sh ! (h + k)"
    using in_shape_nth [OF assms(1)] k assms(2) by auto
  have "(c ! k + 1) * sh ! (h + k) \<le> sh ! k * sh ! (h + k)" using c by (intro mult_right_mono) auto
  then show "0 \<le> phys_coord sh c ! k \<and> phys_coord sh c ! k < phys_shape sh ! k"
    using c k assms(2) by (simp add: phys_coord_def phys_shape_def algebra_simps)
qed (simp add: phys_coord_def phys_shape_def Let_def)

lemma phys_coord_inj:
  assumes "in_shape c sh" "in_shape c' sh" "length sh = 2 * h" "phys_coord sh c = phys_coord sh c'"
  shows "c = c'"
proof (rule nth_equalityI)
  show "length c = length c'" using assms in_shape_length by metis
  fix i
  assume "i < length c"
  then have i: "i < 2 * h" using assms in_shape_length by metis
  have both: "c ! k = c' ! k \<and> c ! (h + k) = c' ! (h + k)" if "k < h" for k
  proof -
    have b: "0 \<le> c ! (h + k)" "c ! (h + k) < sh ! (h + k)" "0 \<le> c' ! (h + k)" "c' ! (h + k) < sh ! (h + k)"
      using in_shape_nth [OF assms(1)] in_shape_nth [OF assms(2)] that assms(3) by auto
    have e: "c ! k * sh ! (h + k) + c ! (h + k) = c' ! k * sh ! (h + k) + c' ! (h + k)"
      using arg_cong [OF assms(4), of "\<lambda>xs. xs ! k"] that assms(3) by (simp add: phys_coord_def)
    have "(c ! k * sh ! (h + k) + c ! (h + k)) div sh ! (h + k) = c ! k"
      "(c' ! k * sh ! (h + k) + c' ! (h + k)) div sh ! (h + k) = c' ! k" using b by simp_all
    with e show ?thesis by auto
  qed
  show "c ! i = c' ! i"
  proof (cases "i < h")
    case False
    then show ?thesis using both [of "i - h"] i by simp
  qed (use both in simp)
qed

section \<open>Evaluation of the reblocking map\<close>

context affine_builder begin

lemma eval_flat_loop:
  "asc_bounded ids c \<Longrightarrow>
     eval_expr c ss (flat_loop ops ids e st) = eval_expr c ss e + eval_expr c ss st * asc_value ids c"
proof (induction ids arbitrary: e st)
  case (Cons id ids)
  obtain i d where id: "id = (i, d)" by (cases id)
  with Cons.prems have c: "0 \<le> c ! i" "c ! i < d" "asc_bounded ids c" by auto
  show ?case
  proof (cases "d > 1")
    case True
    then show ?thesis using Cons.IH [OF c(3)] by (simp add: id affine_simps algebra_simps)
  next
    case False
    with c have "d = 1" "c ! i = 0" by auto
    then show ?thesis using Cons.IH [OF c(3)] by (simp add: id)
  qed
qed simp

lemma eval_to_input_loop:
  assumes "zero_last ids" "distinct (map fst ids)" "\<forall>(i, d)\<in>set ids. 0 < d \<and> i < length es"
    "0 < eval_expr ds ss st" "0 \<le> ds ! 0" "ds ! 0 < eval_expr ds ss st * prod_list (map snd ids)"
    "divisors_pos ds ss st"
  shows "length (to_input_loop ops ids st es) = length es \<and>
    (\<forall>(i, v)\<in>set (asc_digits ids (ds ! 0 div eval_expr ds ss st)). eval_expr ds ss (to_input_loop ops ids st es ! i) = v
       \<and> divisors_pos ds ss (to_input_loop ops ids st es ! i)) \<and>
    (\<forall>i. i \<notin> fst ` set ids \<longrightarrow> to_input_loop ops ids st es ! i = es ! i)"
  using assms
proof (induction ids arbitrary: st es)
  case (Cons id ids)
  obtain i d where id: "id = (i, d)" by (cases id)
  let ?s = "eval_expr ds ss st" and ?f = "ds ! 0" and ?q = "floorDivE ops (DimE 0) st"
  define st' where "st' = timesE ops st (ConstE d)"
  define e where "e = (if \<not> (i = 0 \<and> d \<noteq> 1) then modE ops ?q (ConstE d) else ?q)"
  define rest where "rest = to_input_loop ops ids st' (es[i := e])"
  have d: "0 < d" "i < length es" using Cons.prems id by auto
  have q: "eval_expr ds ss ?q = ?f div ?s" "divisors_pos ds ss ?q" using Cons.prems by (simp_all add: eval_div pos_ops)
  have e_pos: "divisors_pos ds ss e" using q d by (simp add: e_def pos_ops)
  have e_val: "eval_expr ds ss e = ?f div ?s mod d"
  proof (cases "\<not> (i = 0 \<and> d \<noteq> 1)")
    case True
    then show ?thesis using q d by (simp add: e_def eval_div)
  next
    case False
    then have "ids = []" using Cons.prems(1) id by simp
    then have "?f < d * ?s" using Cons.prems(6) id by (simp add: mult.commute)
    then have "?f div ?s < d" using Cons.prems(4) by (rule div_less_of_mult)
    moreover have "0 \<le> ?f div ?s" using Cons.prems by (simp add: pos_imp_zdiv_nonneg_iff)
    ultimately show ?thesis using False q by (simp add: e_def)
  qed
  have st: "eval_expr ds ss st' = ?s * d" "divisors_pos ds ss st'"
    using Cons.prems by (simp_all add: st'_def affine_simps pos_ops)
  have step: "to_input_loop ops (id # ids) st es = rest"
    by (simp add: id Let_def rest_def e_def st'_def)
  have dd: "?f div eval_expr ds ss st' = ?f div ?s div d" using Cons.prems d by (simp add: st zdiv_zmult2_eq)
  have i: "i \<notin> fst ` set ids" using Cons.prems(2) id by simp
  have "zero_last ids" "distinct (map fst ids)" "\<forall>(j, d)\<in>set ids. 0 < d \<and> j < length (es[i := e])"
    "0 < eval_expr ds ss st'" "?f < eval_expr ds ss st' * prod_list (map snd ids)"
    using Cons.prems st d id by (auto simp: mult.assoc)
  then have "length rest = length (es[i := e]) \<and>
    (\<forall>(j, v)\<in>set (asc_digits ids (?f div eval_expr ds ss st')). eval_expr ds ss (rest ! j) = v \<and> divisors_pos ds ss (rest ! j)) \<and>
    (\<forall>j. j \<notin> fst ` set ids \<longrightarrow> rest ! j = es[i := e] ! j)"
    unfolding rest_def using Cons.prems(5) st(2) by (intro Cons.IH)
  then have rest: "length rest = length es"
    "\<forall>(j, v)\<in>set (asc_digits ids (?f div ?s div d)). eval_expr ds ss (rest ! j) = v \<and> divisors_pos ds ss (rest ! j)"
    "\<And>j. j \<notin> fst ` set ids \<Longrightarrow> rest ! j = es[i := e] ! j" unfolding dd by auto
  then have "rest ! i = e" using i d by simp
  then show ?case unfolding step using rest e_val e_pos by (auto simp: id)
qed simp

end

lemma prod_ascending:
  assumes "length sh = 2 * h"
  shows "prod_list (map snd (iterateInAscendingStrideOrder sh)) = prod_list sh"
proof -
  have "mset (strideIterationOrder (2 * h)) = mset [0..<2 * h]"
    using mset_set_set [OF order_facts(2) [of h]] order_facts(1) [of h] by simp
  then have "mset (map ((!) sh) (strideIterationOrder (2 * h))) = mset (map ((!) sh) [0..<2 * h])"
    by (simp add: mset_map)
  then have "prod_list (map ((!) sh) (strideIterationOrder (2 * h))) = prod_list (map ((!) sh) [0..<2 * h])"
    by (metis prod_mset_prod_list)
  moreover have "map ((!) sh) [0..<2 * h] = sh" using map_nth [of sh] assms by simp
  ultimately show ?thesis by (simp add: iterateInAscendingStrideOrder_def assms comp_def)
qed

lemma asc_bounded_shape:
  assumes "length sh = 2 * h" "length c = 2 * h"
  shows "asc_bounded (iterateInAscendingStrideOrder sh) c \<longleftrightarrow> in_shape c sh"
proof -
  have "asc_bounded (iterateInAscendingStrideOrder sh) c \<longleftrightarrow> (\<forall>i\<in>set (strideIterationOrder (2 * h)). 0 \<le> c ! i \<and> c ! i < sh ! i)"
    by (auto simp: asc_bounded_def iterateInAscendingStrideOrder_def assms)
  then show ?thesis using assms by (auto simp: order_facts in_shape_def list_all2_conv_all_nth)
qed

lemma asc_digits_fst: "map fst (asc_digits ids f) = map fst ids"
  by (induction ids f rule: asc_digits.induct) auto

context affine_builder begin

lemma eval_flat_to_input:
  assumes sh: "length sh = 2 * h" "static_shape sh" and f: "0 \<le> f" "f < prod_list sh"
    and ds: "ds \<noteq> []" "ds ! 0 = f"
  defines "exprs \<equiv> to_input_loop ops (iterateInAscendingStrideOrder sh) (ConstE 1) (replicate (length sh) (ConstE 0))"
  shows "in_shape (map (eval_expr ds ss) exprs) sh"
    "asc_value (iterateInAscendingStrideOrder sh) (map (eval_expr ds ss) exprs) = f"
    "\<forall>e\<in>set exprs. divisors_pos ds ss e"
proof -
  let ?ids = "iterateInAscendingStrideOrder sh" and ?c = "map (eval_expr ds ss) exprs"
  have zl: "zero_last ?ids"
    by (cases "h = 0") (simp_all add: ascending_order [OF sh(1)] zero_last_order)
  have fsts: "map fst ?ids = strideIterationOrder (2 * h)" by (simp add: iterateInAscendingStrideOrder_def sh comp_def)
  have "0 \<notin> set sh" using f by (metis prod_list_zero_iff less_le_trans less_irrefl)
  then have pos: "0 < sh ! i" if "i < 2 * h" for i
    using sh that unfolding static_shape_def list_all_length by (metis nth_mem order_le_less)
  have ids: "\<forall>(i, d)\<in>set ?ids. 0 < d \<and> i < length (replicate (length sh) (ConstE 0))"
    using pos order_facts [of h] by (auto simp: iterateInAscendingStrideOrder_def sh)
  have loop: "length exprs = length sh \<and>
    (\<forall>(i, v)\<in>set (asc_digits ?ids f). eval_expr ds ss (exprs ! i) = v \<and> divisors_pos ds ss (exprs ! i))"
    using eval_to_input_loop [OF zl _ ids, of ds ss "ConstE 1"] fsts order_facts [of h] f ds prod_ascending [OF sh(1)]
    by (simp add: exprs_def)
  have len: "length exprs = 2 * h" using loop sh by simp
  have fst_digits: "fst ` set (asc_digits ?ids f) = {0..<2 * h}"
    using arg_cong [OF asc_digits_fst [of ?ids f], of set] fsts order_facts(1) [of h] by simp
  then have digit: "\<exists>v. (i, v) \<in> set (asc_digits ?ids f)" if "i < 2 * h" for i
    using that by (metis (no_types, lifting) atLeastLessThan_iff image_iff le0 prod.collapse)
  have "\<forall>(i, v)\<in>set (asc_digits ?ids f). ?c ! i = v"
  proof (clarify)
    fix i v
    assume iv: "(i, v) \<in> set (asc_digits ?ids f)"
    then have "i < 2 * h" using fst_digits by force
    then show "?c ! i = v" using loop iv len by auto
  qed
  then have "asc_bounded ?ids ?c \<and> asc_value ?ids ?c = f"
    using asc_value_digits [of ?ids f ?c] ids f prod_ascending [OF sh(1)] by auto
  then show "in_shape ?c sh" "asc_value ?ids ?c = f" using asc_bounded_shape [OF sh(1), of ?c] len by auto
  show "\<forall>e\<in>set exprs. divisors_pos ds ss e"
  proof
    fix e
    assume "e \<in> set exprs"
    then obtain i where "i < 2 * h" "e = exprs ! i" using len by (metis in_set_conv_nth)
    then show "divisors_pos ds ss e" using digit [of i] loop by auto
  qed
qed

lemma compose_composed:
  assumes "\<forall>e\<in>set (results f). replaceable c [] (results g) [] e"
  shows "compose_map (composeMaps ops f g) c =
    map (eval_expr (compose_map g c @ drop (length (results g)) c) []) (results f)"
  using assms by (simp add: compose_map_def composeMaps_def eval_replace replaced_def)

lemma eval_reblock:
  assumes m: "calculateReblockMap ops ish osh = Some m" and ish: "static_shape ish" and ne: "osh \<noteq> []" and c: "in_shape c osh"
  shows "in_shape (compose_map m c) ish"
    "row_index (phys_shape ish) (phys_coord ish (compose_map m c)) = row_index (phys_shape osh) (phys_coord osh c)"
proof -
  let ?c = "compose_map m c"
  have vol: "prod_list ish = prod_list osh" and even: "even (length ish)" "even (length osh)"
    using m by (auto simp: calculateReblockMap_def volume_prod split: if_splits)
  obtain hi ho where h: "length ish = 2 * hi" "length osh = 2 * ho" using even by (auto elim!: evenE)
  have both: "in_shape ?c ish \<and>
    asc_value (iterateInAscendingStrideOrder ish) ?c = asc_value (iterateInAscendingStrideOrder osh) c"
  proof (cases "ish = osh")
    case True
    then have "compose_map m c = map ((!) c) [0..<length c]"
      using m in_shape_length [OF c] by (auto simp: calculateReblockMap_def compose_map_def comp_def split: if_splits)
    then have "compose_map m c = c" by (simp add: map_nth)
    then show ?thesis using c True by simp
  next
    case False
    let ?flat = "flat_loop ops (iterateInAscendingStrideOrder osh) (ConstE 0) (ConstE 1)"
    let ?in = "to_input_loop ops (iterateInAscendingStrideOrder ish) (ConstE 1) (replicate (length ish) (ConstE 0))"
    have meq: "m = composeMaps ops \<lparr>numDims = 1, numSymbols = 0, results = ?in\<rparr>
        \<lparr>numDims = length osh, numSymbols = 0, results = [?flat]\<rparr>"
      using m False by (simp add: calculateReblockMap_def Let_def split: if_splits)
    have lc: "length c = 2 * ho" using in_shape_length [OF c] h by simp
    have bo: "asc_bounded (iterateInAscendingStrideOrder osh) c" using asc_bounded_shape [OF h(2) lc] c by simp
    let ?f = "asc_value (iterateInAscendingStrideOrder osh) c"
    have f: "eval_expr c [] ?flat = ?f" "0 \<le> ?f" "?f < prod_list ish"
      using eval_flat_loop [OF bo] asc_value_bounds [OF bo] prod_ascending [OF h(2)] vol by auto
    let ?ds = "?f # drop 1 c"
    note ev = eval_flat_to_input [OF h(1) ish f(2,3), of ?ds "[]", simplified]
    show ?thesis
    proof -
      have "0 < ho" using ne h by (cases osh) auto
      then have "replaceable c [] [?flat] [] e" if "e \<in> set ?in" for e
        using that ev(3) f(1) lc by (auto simp: replaceable_def replaced_def)
      then have "?c = map (eval_expr ?ds []) ?in"
        unfolding meq by (subst compose_composed) (simp_all add: compose_map_def f(1))
      then show ?thesis using ev by simp
    qed
  qed
  then show "in_shape ?c ish" by simp
  show "row_index (phys_shape ish) (phys_coord ish ?c) = row_index (phys_shape osh) (phys_coord osh c)"
    using both asc_value_phys [OF h(1)] asc_value_phys [OF h(2)] by metis
qed

end

section \<open>Reblocking to a grid\<close>

lemma prod_phys:
  assumes "length sh = 2 * h"
  shows "prod_list (phys_shape sh) = prod_list sh"
proof -
  have "prod_list (map snd (concat (map (\<lambda>k. [(h + k, sh ! (h + k)), (k, sh ! k)]) (rev [0..<n])))) =
      prod_list (map (\<lambda>k. sh ! k * sh ! (h + k)) [0..<n])" for n
    by (induction n) (simp_all add: algebra_simps)
  then show ?thesis using prod_ascending [OF assms] by (simp add: ascending_order [OF assms] phys_shape_def assms)
qed

lemma reblock_shape_facts:
  assumes "calculateReblockShapeForGrid sh grid = Some new"
  shows "length sh mod 2 = 0" "length grid = length sh div 2"
    "\<forall>i\<in>set [0..<length grid]. (sh ! i * sh ! (i + length grid)) smod (grid ! i) = 0"
    "new = grid @ map (\<lambda>i. (sh ! i * sh ! (i + length grid)) sdiv (grid ! i)) [0..<length grid]"
proof -
  let ?bad = "length sh mod 2 \<noteq> 0 \<or> length grid \<noteq> length sh div 2"
  let ?rest = "\<exists>i\<in>set [0..<length grid]. (sh ! i * sh ! (i + length grid)) smod (grid ! i) \<noteq> 0"
  note r = assms [unfolded calculateReblockShapeForGrid_def Let_def]
  have "\<not> ?bad" by (rule notI) (use r in \<open>simp only: if_True option.distinct\<close>)
  moreover from this have "\<not> ?rest" by (intro notI) (use r in \<open>simp only: if_True if_False option.distinct\<close>)
  ultimately show "length sh mod 2 = 0" "length grid = length sh div 2"
    "\<forall>i\<in>set [0..<length grid]. (sh ! i * sh ! (i + length grid)) smod (grid ! i) = 0"
    "new = grid @ map (\<lambda>i. (sh ! i * sh ! (i + length grid)) sdiv (grid ! i)) [0..<length grid]"
    using r by (blast, blast, blast, simp only: if_False option.inject)
qed

lemma reblock_shape:
  assumes new: "calculateReblockShapeForGrid sh grid = Some new" and pos: "list_all (\<lambda>g. g > 0) grid"
  shows "length sh = 2 * length grid" "length new = 2 * length grid" "take (length grid) new = grid"
    "phys_shape new = phys_shape sh"
proof -
  let ?n = "length grid" and ?p = "\<lambda>i. sh ! i * sh ! (i + length grid)"
  note facts = reblock_shape_facts [OF new]
  have n: "length sh mod 2 = 0" "?n = length sh div 2" and div: "\<forall>i\<in>set [0..<?n]. ?p i smod grid ! i = 0"
    and neweq: "new = grid @ map (\<lambda>i. ?p i sdiv grid ! i) [0..<?n]" using facts by blast+
  show l: "length sh = 2 * ?n" using n by presburger
  show ln: "length new = 2 * ?n" and "take ?n new = grid" by (simp_all add: neweq)
  have "new ! k * new ! (?n + k) = sh ! k * sh ! (?n + k)" if "k < ?n" for k
  proof -
    have "new ! k = grid ! k" "new ! (?n + k) = ?p k sdiv grid ! k" using that by (simp_all add: neweq nth_append)
    moreover have "?p k smod grid ! k = 0" using div that by simp
    then have "grid ! k * (?p k sdiv grid ! k) = ?p k"
      using sdiv_mult_smod_eq [of "?p k" "grid ! k"] by (simp add: mult.commute)
    ultimately show ?thesis by (simp only: add.commute)
  qed
  then show "phys_shape new = phys_shape sh" unfolding phys_shape_def Let_def l ln by simp
qed

lemma reblock_static:
  assumes "calculateReblockShapeForGrid sh grid = Some new" "static_shape sh" "list_all (\<lambda>g. g > 0) grid"
  shows "static_shape new"
proof -
  let ?n = "length grid" and ?p = "\<lambda>i. sh ! i * sh ! (i + length grid)"
  have neweq: "new = grid @ map (\<lambda>i. ?p i sdiv grid ! i) [0..<?n]"
    by (rule reblock_shape_facts(4) [OF assms(1)])
  have "0 \<le> ?p i sdiv grid ! i" if "i < ?n" for i
  proof -
    have "0 \<le> ?p i" using assms(2) reblock_shape(1) [OF assms(1,3)] that by (simp add: static_shape_def list_all_length)
    moreover have "0 < grid ! i" using assms(3) that by (simp add: list_all_length)
    ultimately show ?thesis by (simp add: sdiv_nonneg pos_imp_zdiv_nonneg_iff)
  qed
  then show ?thesis using assms(3) by (auto simp: neweq static_shape_def list_all_iff in_set_conv_nth)
qed

lemma reblock_exists:
  assumes "prod_list ish = prod_list osh" "length ish mod 2 = 0" "length osh mod 2 = 0"
  shows "\<exists>m. calculateReblockMap ops ish osh = Some m"
  using assms by (auto simp: calculateReblockMap_def volume_prod Let_def)

context affine_builder begin

lemma reblock_physical:
  assumes m: "calculateReblockMap ops ish osh = Some m" and ish: "static_shape ish" "osh \<noteq> []" and c: "in_shape c osh"
    and phys: "phys_shape ish = phys_shape osh"
  shows "in_shape (compose_map m c) ish \<and> phys_coord ish (compose_map m c) = phys_coord osh c"
proof -
  obtain hi ho where h: "length ish = 2 * hi" "length osh = 2 * ho"
    using m by (auto simp: calculateReblockMap_def split: if_splits elim!: evenE)
  note ev = eval_reblock [OF m ish c]
  have "phys_coord ish (compose_map m c) = phys_coord osh c"
    using ev(2) phys_in_shape [OF ev(1) h(1)] phys_in_shape [OF c h(2)] unfolding phys by (rule row_index_inj [rotated 2])
  with ev(1) show ?thesis by simp
qed

lemma reblock_bijection:
  assumes new: "calculateReblockShapeForGrid sh grid = Some new" and sh: "static_shape sh" "list_all (\<lambda>g. g > 0) grid" "grid \<noteq> []"
  shows "\<exists>m. calculateReblockMapForGrid ops sh grid = Some (new, m) \<and>
    (\<forall>c. in_shape c new \<longrightarrow> phys_coord sh (compose_map m c) = phys_coord new c) \<and>
    bij_betw (compose_map m) {c. in_shape c new} {c. in_shape c sh}"
proof -
  note r = reblock_shape [OF new sh(2)]
  have ne: "sh \<noteq> []" "new \<noteq> []" using r(1,2) sh(3) by auto
  have vol: "prod_list new = prod_list sh" using prod_phys [OF r(1)] prod_phys [OF r(2)] r(4) by simp
  have ev: "length sh mod 2 = 0" "length new mod 2 = 0" using r(1,2) by simp_all
  obtain m where m: "calculateReblockMap ops sh new = Some m"
    using reblock_exists [OF vol [symmetric] ev] by blast
  obtain m' where m': "calculateReblockMap ops new sh = Some m'"
    using reblock_exists [OF vol ev(2,1)] by blast
  have fwd: "in_shape (compose_map m c) sh \<and> phys_coord sh (compose_map m c) = phys_coord new c" if "in_shape c new" for c
    using reblock_physical [OF m sh(1) ne(2) that r(4) [symmetric]] .
  have bwd: "in_shape (compose_map m' c) new \<and> phys_coord new (compose_map m' c) = phys_coord sh c" if "in_shape c sh" for c
    using reblock_physical [OF m' reblock_static [OF new sh(1,2)] ne(1) that r(4)] .
  have "compose_map m' (compose_map m c) = c" if "in_shape c new" for c
    using fwd [OF that] bwd [of "compose_map m c"] by (intro phys_coord_inj [OF _ that r(2)]) (simp_all only: that simp_thms)
  moreover have "compose_map m (compose_map m' c) = c" if "in_shape c sh" for c
    using bwd [OF that] fwd [of "compose_map m' c"] by (intro phys_coord_inj [OF _ that r(1)]) (simp_all only: that simp_thms)
  ultimately have "bij_betw (compose_map m) {c. in_shape c new} {c. in_shape c sh}"
    using fwd bwd by (intro bij_betw_byWitness [where f' = "compose_map m'"]) auto
  then show ?thesis using fwd m new by (auto simp: calculateReblockMapForGrid_def)
qed

end

section \<open>Virtual grids\<close>

lemma calculateStrides_nth: "i < length sh \<Longrightarrow> calculateStrides sh e ! i = e * prod_list (drop (Suc i) sh)"
proof (induction sh arbitrary: i)
  case (Cons d ds)
  then show ?case by (cases i) auto
qed simp

context affine_builder begin

lemma eval_linear_loop:
  assumes "k \<le> length sh" "length c = length sh"
  shows "eval_expr ds ss (linear_loop ops sh (rev [0..<k]) e st) =
    eval_expr ds ss e + eval_expr ds ss st * row_index (take k sh) (take k (map (\<lambda>i. ds ! i) [0..<length sh]))"
  using assms
proof (induction k arbitrary: e st)
  case (Suc k)
  then have k: "k < length sh" by simp
  then show ?case using Suc
    by (simp add: take_Suc_conv_app_nth row_index_snoc affine_simps algebra_simps)
qed simp

lemma eval_expand_loop:
  assumes "k \<le> length grid" "\<forall>i<k. 0 < grid ! i" "0 < eval_expr ds ss st" "divisors_pos ds ss st" "divisors_pos ds ss lin"
    "\<forall>e\<in>set es. divisors_pos ds ss e"
  shows "map (eval_expr ds ss) (expand_loop ops grid lin (rev [0..<k]) st es) =
      map (\<lambda>i. eval_expr ds ss lin div (eval_expr ds ss st * prod_list (drop (Suc i) (take k grid))) mod grid ! i) [0..<k]
        @ map (eval_expr ds ss) es
    \<and> (\<forall>e\<in>set (expand_loop ops grid lin (rev [0..<k]) st es). divisors_pos ds ss e)"
  using assms
proof (induction k arbitrary: st es)
  case (Suc k)
  define e where "e = modE ops (floorDivE ops lin st) (ConstE (grid ! k))"
  define st' where "st' = timesE ops st (ConstE (grid ! k))"
  have k: "k < length grid" "0 < grid ! k" using Suc.prems by auto
  have e: "eval_expr ds ss e = eval_expr ds ss lin div eval_expr ds ss st mod grid ! k" "divisors_pos ds ss e"
    using k Suc.prems by (simp_all add: e_def eval_div pos_ops)
  have st: "eval_expr ds ss st' = eval_expr ds ss st * grid ! k" "divisors_pos ds ss st'"
    using k Suc.prems by (simp_all add: st'_def affine_simps pos_ops)
  have strides: "eval_expr ds ss st' * prod_list (drop (Suc i) (take k grid)) =
      eval_expr ds ss st * prod_list (drop (Suc i) (take (Suc k) grid))" if "i < k" for i
    using that k by (simp add: st take_Suc_conv_app_nth)
  have "expand_loop ops grid lin (rev [0..<Suc k]) st es = expand_loop ops grid lin (rev [0..<k]) st' (e # es)"
    by (simp add: e_def st'_def)
  moreover have "map (eval_expr ds ss) (expand_loop ops grid lin (rev [0..<k]) st' (e # es)) =
      map (\<lambda>i. eval_expr ds ss lin div (eval_expr ds ss st' * prod_list (drop (Suc i) (take k grid))) mod grid ! i) [0..<k]
        @ map (eval_expr ds ss) (e # es)
    \<and> (\<forall>e\<in>set (expand_loop ops grid lin (rev [0..<k]) st' (e # es)). divisors_pos ds ss e)"
    using Suc.prems k st e by (intro Suc.IH) auto
  ultimately show ?case using e strides k by simp
qed simp_all

lemma eval_collapse:
  assumes "length c = length v" "v \<noteq> []"
  shows "compose_map (createCollapseMap ops v) (c @ s) = [row_index v c]"
proof -
  let ?n = "length v - 1"
  have n: "?n < length v" "Suc ?n = length v" using assms(2) by (cases v; simp)+
  have nc: "?n < length c" using n assms(1) by simp
  have nths: "map (\<lambda>i. (c @ s) ! i) [0..<length v] = c"
    using assms(1) by (intro nth_equalityI) (simp_all add: nth_append)
  have "row_index v c = row_index (take (Suc ?n) v) (take (Suc ?n) c)" using assms(1) n by simp
  also have "\<dots> = row_index (take ?n v) (take ?n c) * v ! ?n + c ! ?n"
    unfolding take_Suc_conv_app_nth [OF n(1)] take_Suc_conv_app_nth [OF nc]
    using assms(1) by (intro row_index_snoc) simp
  finally have r: "row_index v c = c ! ?n + v ! ?n * row_index (take ?n v) (take ?n c)" by (simp add: algebra_simps)
  have last: "last v = v ! ?n" "(c @ s) ! ?n = c ! ?n" using assms n by (simp_all add: last_conv_nth nth_append)
  show ?thesis
    unfolding compose_map_def createCollapseMap_def Let_def
    by (simp only: affine_map.simps list.map) (use eval_linear_loop [of ?n v "c" "c @ s" "[]" "DimE ?n" "ConstE (last v)"] assms r last nths n
      in \<open>simp add: take_map [symmetric]\<close>)
qed

lemma eval_1d_to_nd:
  assumes m: "create1DtoNDMap ops t = Some m" and f: "ds ! 0 = f" "0 \<le> f" "f < prod_list t"
  shows "map (eval_expr ds []) (results m) = linearIdToCoord f t \<and> (\<forall>e\<in>set (results m). divisors_pos ds [] e)"
proof -
  let ?n = "length t"
  have pos: "\<forall>i<?n. 0 < t ! i" and res: "results m = expand_loop ops t (DimE 0) (rev [0..<?n]) (ConstE 1) []"
    using m by (auto simp: create1DtoNDMap_def list_all_length split: if_splits)
  have st: "static_shape t" using pos by (simp add: static_shape_def list_all_length less_imp_le)
  have "map (\<lambda>i. f div (1 * prod_list (drop (Suc i) (take ?n t))) mod t ! i) [0..<?n] = sample_index t (calculateStrides t 1) f"
    by (intro nth_equalityI) (simp_all add: sample_index_def calculateStrides_nth)
  then show ?thesis
    using eval_expand_loop [of ?n t ds "[]" "ConstE 1" "DimE 0" "[]"] pos res f sample_index_coord [OF st f(2,3)] by simp
qed

lemma eval_virt_map:
  assumes m: "create1DtoNDMap ops t = Some m" and c: "in_shape c v" "v \<noteq> []" "row_index v c < prod_list t"
  shows "map (eval_expr (c @ s) []) (results (composeMaps ops m (createCollapseMap ops v))) = linearIdToCoord (row_index v c) t"
proof -
  have f: "0 \<le> row_index v c" "row_index v c < prod_list t" using row_index_bounds [OF c(1)] c(3) by auto
  have col: "compose_map (createCollapseMap ops v) (c @ s) = [row_index v c]"
    using in_shape_length [OF c(1)] c(2) by (intro eval_collapse)
  have len: "length (results (createCollapseMap ops v)) = 1" by (simp add: createCollapseMap_def Let_def)
  have lc: "1 \<le> length (c @ s)" using c(2) in_shape_length [OF c(1)] by (cases v) auto
  let ?ds = "row_index v c # drop 1 (c @ s)"
  note ev = eval_1d_to_nd [OF m _ f, of ?ds, simplified]
  have "replaceable (c @ s) [] (results (createCollapseMap ops v)) [] e" if "e \<in> set (results m)" for e
    using that ev lc len col by (auto simp: replaceable_def replaced_def compose_map_def)
  then have "compose_map (composeMaps ops m (createCollapseMap ops v)) (c @ s) = map (eval_expr ?ds []) (results m)"
    by (subst compose_composed) (simp_all add: col len)
  then show ?thesis using ev by (simp add: compose_map_def)
qed

lemma core_virt_inverse:
  assumes m: "createCoreVirtMaps ops v t = Some (fwd, bwd)" and c: "in_shape c v" "length s = length v" "prod_list v \<le> prod_list t"
  shows "\<exists>core. in_shape core t \<and> compose_map fwd (c @ s) = core @ s \<and> compose_map bwd core = 0 # c"
proof -
  obtain mt mv where mm: "create1DtoNDMap ops t = Some mt" "create1DtoNDMap ops v = Some mv" "length t = 2"
      "fwd = extendWithIdentityDimsAndResults (composeMaps ops mt (createCollapseMap ops v)) (length v)"
      "bwd = prependResult (composeMaps ops mv (createCollapseMap ops t)) (ConstE 0)"
    using m by (auto simp: createCoreVirtMaps_def split: if_splits option.splits)
  have pos: "v \<noteq> []" "list_all (\<lambda>s. 0 < s) t" "t \<noteq> []"
    using mm by (auto simp: create1DtoNDMap_def split: if_splits)
  then have st: "static_shape t" by (auto simp: static_shape_def list_all_iff less_imp_le)
  let ?f = "row_index v c" and ?core = "linearIdToCoord (row_index v c) t"
  have f: "0 \<le> ?f" "?f < prod_list v" "?f < prod_list t" using row_index_bounds [OF c(1)] c(3) by auto
  have core: "in_shape ?core t" "row_index t ?core = ?f" using linearIdToCoord_inverse [OF st f(1,3)] by auto
  have lc: "length c = length v" using in_shape_length [OF c(1)] .
  have nd: "numDims (composeMaps ops mt (createCollapseMap ops v)) = length v"
    by (simp add: composeMaps_def createCollapseMap_def Let_def)
  have ids: "map (\<lambda>i. (c @ s) ! i) [length v..<length v + length v] = s"
    using lc c(2) by (intro nth_equalityI) (simp_all add: nth_append)
  have "compose_map fwd (c @ s) = ?core @ s"
    unfolding compose_map_def mm(4) extendWithIdentityDimsAndResults_def
    using eval_virt_map [OF mm(1) c(1) pos(1) f(3), of s] ids nd by (simp add: comp_def)
  moreover have "map (eval_expr (?core @ []) []) (results (composeMaps ops mv (createCollapseMap ops t))) = linearIdToCoord ?f v"
    using eval_virt_map [OF mm(2) core(1) pos(3), of "[]"] core(2) f(2) by simp
  then have "compose_map bwd ?core = 0 # c"
    using linearIdToCoord_row_index [OF c(1)] by (simp add: compose_map_def mm(5) prependResult_def)
  ultimately show ?thesis using core by blast
qed

end

end
