(* ===== verification/AffineRange.thy ===== *)
theory AffineRange
  imports AffineModel RowWalk
begin

text \<open>
  The simplifications of \<open>lib/Dialect/D2M/Utils/AffineMapAnalysis.cpp\<close>: a mod or a floor division
  is dropped when the range of its operand makes it redundant. MLIR's operators are the parameter
  \<open>ops\<close>.
\<close>

section \<open>Upper bounds\<close>

text \<open>The upper bound of an expression when dimension \<open>i\<close> ranges over \<open>0 .. dimBounds ! i - 1\<close>; C++
  division rounds towards zero.\<close>

fun getExprUpperBound :: "affine_expr \<Rightarrow> int list \<Rightarrow> int option" where
  "getExprUpperBound (DimE i) dimBounds = (if i < length dimBounds then Some (dimBounds ! i - 1) else None)"
| "getExprUpperBound (SymE i) dimBounds = None"
| "getExprUpperBound (ConstE k) dimBounds = (if k < 0 then None else Some k)"
| "getExprUpperBound (BinE kind l r) dimBounds =
     (let lhs = getExprUpperBound l dimBounds
      in case kind of
           ModK \<Rightarrow> (case r of
               ConstE rhsVal \<Rightarrow>
                 if rhsVal \<le> 0 then None
                 else (case lhs of Some u \<Rightarrow> Some (min u (rhsVal - 1)) | None \<Rightarrow> Some (rhsVal - 1))
             | _ \<Rightarrow> None)
         | FloorDivK \<Rightarrow> (case r of
               ConstE rhsVal \<Rightarrow>
                 if rhsVal \<le> 0 then None
                 else (case lhs of Some u \<Rightarrow> Some (u sdiv rhsVal) | None \<Rightarrow> None)
             | _ \<Rightarrow> None)
         | _ \<Rightarrow> (case (lhs, getExprUpperBound r dimBounds) of
               (Some u, Some v) \<Rightarrow> (case kind of AddK \<Rightarrow> Some (u + v) | MulK \<Rightarrow> Some (u * v) | _ \<Rightarrow> None)
             | _ \<Rightarrow> None))"

section \<open>Simplification by ranges\<close>

fun simplifyAffineExprWithRangeAnalysis :: "affine_ops \<Rightarrow> affine_expr \<Rightarrow> int list \<Rightarrow> affine_expr" where
  "simplifyAffineExprWithRangeAnalysis ops (BinE kind l r) dimBounds =
     (let lhs = simplifyAffineExprWithRangeAnalysis ops l dimBounds;
          rhs = simplifyAffineExprWithRangeAnalysis ops r dimBounds;
          below = (case (rhs, getExprUpperBound lhs dimBounds) of (ConstE k, Some u) \<Rightarrow> u < k | _ \<Rightarrow> False)
      in case kind of
           ModK \<Rightarrow> if below then lhs else modE ops lhs rhs
         | FloorDivK \<Rightarrow> if below then ConstE 0 else floorDivE ops lhs rhs
         | AddK \<Rightarrow> plusE ops lhs rhs
         | MulK \<Rightarrow> timesE ops lhs rhs
         | CeilDivK \<Rightarrow> ceilDivE ops lhs rhs)"
| "simplifyAffineExprWithRangeAnalysis ops e dimBounds = e"

definition simplifyAffineMapWithRangeAnalysis ::
  "affine_ops \<Rightarrow> affine_map \<Rightarrow> int list \<Rightarrow> bool \<Rightarrow> affine_map option" where
  "simplifyAffineMapWithRangeAnalysis ops m dimBounds performEquivalenceCheck =
     (if numDims m \<noteq> length dimBounds then None
      else let simplifiedMap = m\<lparr>results := map (\<lambda>e. simplifyAffineExprWithRangeAnalysis ops e dimBounds) (results m)\<rparr>
           in if performEquivalenceCheck \<and>
                 \<not> list_all (\<lambda>point. compose_map m point = compose_map simplifiedMap point) (sample dimBounds)
              then Some m else Some simplifiedMap)"

section \<open>Zero divisions\<close>

fun getSumOfModuli :: "affine_expr \<Rightarrow> int option" where
  "getSumOfModuli (BinE AddK l r) =
     (case (getSumOfModuli l, getSumOfModuli r) of (Some a, Some b) \<Rightarrow> Some (a + b) | _ \<Rightarrow> None)"
| "getSumOfModuli (BinE ModK l (ConstE k)) = Some (k - 1)"
| "getSumOfModuli (BinE MulK l r) =
     (case (r, getSumOfModuli l) of
        (ConstE k, Some a) \<Rightarrow> Some (a * k)
      | _ \<Rightarrow> (case (l, getSumOfModuli r) of (ConstE k, Some b) \<Rightarrow> Some (b * k) | _ \<Rightarrow> None))"
| "getSumOfModuli e = None"

fun simplifyZeroFloorDivExpr :: "affine_ops \<Rightarrow> affine_expr \<Rightarrow> affine_expr" where
  "simplifyZeroFloorDivExpr ops (BinE kind l r) =
     (let lhs = simplifyZeroFloorDivExpr ops l;
          rhs = simplifyZeroFloorDivExpr ops r;
          zero = (kind = FloorDivK \<and>
                  (case (rhs, getSumOfModuli lhs) of (ConstE divisor, Some modSum) \<Rightarrow> modSum < divisor | _ \<Rightarrow> False))
      in if zero then ConstE 0
         else case kind of
                AddK \<Rightarrow> plusE ops lhs rhs
              | MulK \<Rightarrow> timesE ops lhs rhs
              | ModK \<Rightarrow> modE ops lhs rhs
              | FloorDivK \<Rightarrow> floorDivE ops lhs rhs
              | CeilDivK \<Rightarrow> ceilDivE ops lhs rhs)"
| "simplifyZeroFloorDivExpr ops e = e"

definition simplifyZeroFloorDiv :: "affine_ops \<Rightarrow> affine_map \<Rightarrow> affine_map" where
  "simplifyZeroFloorDiv ops m = m\<lparr>results := map (simplifyZeroFloorDivExpr ops) (results m)\<rparr>"

section \<open>Soundness\<close>

lemma upper_bound_sound:
  assumes "getExprUpperBound e bounds = Some u" "in_shape ds bounds"
  shows "0 \<le> eval_expr ds ss e \<and> eval_expr ds ss e \<le> u"
  using assms
proof (induction e arbitrary: u)
  case (DimE i)
  then show ?case using in_shape_nth [of ds bounds i] by (auto split: if_splits)
next
  case (BinE kind l r)
  show ?case
  proof (cases "kind = AddK \<or> kind = MulK")
    case True
    then obtain a b where ab: "getExprUpperBound l bounds = Some a" "getExprUpperBound r bounds = Some b"
      using BinE.prems(1) by (auto simp: Let_def split: option.splits)
    then have "0 \<le> eval_expr ds ss l" "eval_expr ds ss l \<le> a" "0 \<le> eval_expr ds ss r" "eval_expr ds ss r \<le> b"
      using BinE by auto
    moreover from this have "eval_expr ds ss l * eval_expr ds ss r \<le> a * b" by (intro mult_mono) auto
    ultimately show ?thesis using True ab BinE.prems(1) by (auto simp: Let_def)
  next
    case False
    show ?thesis
    proof (cases "kind = CeilDivK")
      case True
      then show ?thesis using BinE.prems(1) by (auto simp: Let_def split: option.splits)
    next
      case ceil: False
      with False obtain k where k: "r = ConstE k" "0 < k" "kind = ModK \<or> kind = FloorDivK"
        using BinE.prems(1) by (cases kind; cases r) (auto simp: Let_def split: if_splits)
      have mod: "0 \<le> eval_expr ds ss l mod k" "eval_expr ds ss l mod k < k" using k by auto
      show ?thesis
      proof (cases "getExprUpperBound l bounds")
        case None
        then show ?thesis using k BinE.prems(1) mod by (auto simp: Let_def)
      next
        case (Some a)
        then have l: "0 \<le> eval_expr ds ss l" "eval_expr ds ss l \<le> a" using BinE by auto
        then have "eval_expr ds ss l mod k \<le> a" "eval_expr ds ss l div k \<le> a div k" "0 \<le> eval_expr ds ss l div k" "0 \<le> a"
          using k by (auto intro: zdiv_mono1 order_trans [OF zmod_le_nonneg_dividend] simp: pos_imp_zdiv_nonneg_iff)
        then show ?thesis using k Some BinE.prems(1) mod by (auto simp: Let_def sdiv_nonneg)
      qed
    qed
  qed
qed (auto split: if_splits)

context affine_builder begin

lemma simplify_range_sound:
  assumes "in_shape ds bounds" "divisors_pos ds ss e"
  shows "eval_expr ds ss (simplifyAffineExprWithRangeAnalysis ops e bounds) = eval_expr ds ss e"
  using assms(2)
proof (induction e)
  case (BinE kind l r)
  define lhs where "lhs = simplifyAffineExprWithRangeAnalysis ops l bounds"
  define rhs where "rhs = simplifyAffineExprWithRangeAnalysis ops r bounds"
  have ev: "eval_expr ds ss lhs = eval_expr ds ss l" "eval_expr ds ss rhs = eval_expr ds ss r"
    using BinE by (simp_all add: lhs_def rhs_def)
  show ?case
  proof (cases "\<exists>k u. rhs = ConstE k \<and> getExprUpperBound lhs bounds = Some u \<and> u < k \<and> (kind = ModK \<or> kind = FloorDivK)")
    case True
    then obtain k u where k: "rhs = ConstE k" "getExprUpperBound lhs bounds = Some u" "u < k" "kind = ModK \<or> kind = FloorDivK"
      by blast
    have "0 \<le> eval_expr ds ss l" "eval_expr ds ss l < k"
      using upper_bound_sound [OF k(2) assms(1), of ss] k(3) ev(1) by auto
    moreover have "eval_expr ds ss r = k" using ev(2) k(1) by simp
    ultimately show ?thesis using k ev
      by (auto simp: Let_def simp flip: lhs_def rhs_def)
  next
    case False
    then have "simplifyAffineExprWithRangeAnalysis ops (BinE kind l r) bounds =
        (case kind of ModK \<Rightarrow> modE ops lhs rhs | FloorDivK \<Rightarrow> floorDivE ops lhs rhs | AddK \<Rightarrow> plusE ops lhs rhs
          | MulK \<Rightarrow> timesE ops lhs rhs | CeilDivK \<Rightarrow> ceilDivE ops lhs rhs)"
      by (cases kind) (auto simp: Let_def simp flip: lhs_def rhs_def split: affine_expr.splits option.splits)
    then show ?thesis using ev BinE.prems by (cases kind) (auto simp: affine_simps eval_div)
  qed
qed simp_all

end

lemma simplify_map_checked:
  assumes "legal_affine ops" "numDims m = length bounds" "static_shape bounds"
    "\<And>c e. in_shape c bounds \<Longrightarrow> e \<in> set (results m) \<Longrightarrow> divisors_pos c [] e"
  shows "\<exists>m'. simplifyAffineMapWithRangeAnalysis ops m bounds check = Some m' \<and> numDims m' = numDims m \<and>
    length (results m') = length (results m) \<and>
    (\<forall>c. in_shape c bounds \<longrightarrow> compose_map m' c = compose_map m c) \<and>
    simplifyAffineMapWithRangeAnalysis ops m bounds (\<not> check) = Some m'"
proof -
  let ?m = "m\<lparr>results := map (\<lambda>e. simplifyAffineExprWithRangeAnalysis ops e bounds) (results m)\<rparr>"
  have eq: "compose_map ?m c = compose_map m c" if "in_shape c bounds" for c
    using that assms(4) by (simp add: compose_map_def affine_builder.simplify_range_sound [OF affine_builder.intro [OF assms(1)]])
  have "list_all (\<lambda>point. compose_map m point = compose_map ?m point) (sample bounds)"
    using eq set_sample [OF assms(3)] by (cases "bounds = []") (auto simp: list_all_iff sample_def)
  then have "simplifyAffineMapWithRangeAnalysis ops m bounds b = Some ?m" for b
    using assms(2) by (simp add: simplifyAffineMapWithRangeAnalysis_def Let_def)
  then show ?thesis using eq by (intro exI [of _ ?m]) simp
qed

text \<open>The sum of moduli bounds an expression whose constants are not negative.\<close>

fun nonneg_constants :: "affine_expr \<Rightarrow> bool" where
  "nonneg_constants (ConstE k) \<longleftrightarrow> 0 \<le> k"
| "nonneg_constants (BinE kind l r) \<longleftrightarrow> nonneg_constants l \<and> nonneg_constants r"
| "nonneg_constants e \<longleftrightarrow> True"

lemma sum_of_moduli_sound:
  assumes "getSumOfModuli e = Some u" "nonneg_constants e" "divisors_pos ds ss e"
  shows "0 \<le> eval_expr ds ss e \<and> eval_expr ds ss e \<le> u"
  using assms
proof (induction e arbitrary: u)
  case (BinE kind l r)
  have ih: "getSumOfModuli l = Some a \<Longrightarrow> 0 \<le> eval_expr ds ss l \<and> eval_expr ds ss l \<le> a"
    "getSumOfModuli r = Some b \<Longrightarrow> 0 \<le> eval_expr ds ss r \<and> eval_expr ds ss r \<le> b" for a b
    using BinE by simp_all
  show ?case
  proof (cases kind)
    case AddK
    then show ?thesis using BinE.prems(1) ih by (fastforce split: option.splits)
  next
    case MulK
    consider k a where "r = ConstE k" "getSumOfModuli l = Some a" "u = a * k"
      | k b where "l = ConstE k" "getSumOfModuli r = Some b" "u = b * k"
      using BinE.prems(1) MulK by (cases r; cases "getSumOfModuli l"; cases l) (auto split: option.splits)
    then show ?thesis
    proof cases
      case 1
      then show ?thesis using MulK BinE.prems(2) ih(1) [of a] by (auto intro: mult_right_mono)
    next
      case 2
      then show ?thesis using MulK BinE.prems(2) ih(2) [of b] by (auto simp: mult.commute [of b] intro: mult_left_mono)
    qed
  next
    case ModK
    then show ?thesis using BinE.prems by (cases r) (auto simp: zle_diff1_eq)
  qed (use BinE.prems(1) in auto)
qed auto

text \<open>A negative factor turns the bound of its operand into a bound of the wrong side.\<close>

definition negative_division :: affine_expr where
  "negative_division = BinE FloorDivK (BinE MulK (BinE ModK (DimE 0) (ConstE 4)) (ConstE (- 1))) (ConstE 2)"

lemma zero_division_unsound:
  "simplifyZeroFloorDivExpr folding_ops negative_division = ConstE 0"
  "eval_expr [1] [] negative_division = - 1"
  by (simp_all add: negative_division_def folding_ops_def fold_mod_def Let_def)

end
