(* ===== verification/AffineCompile.thy ===== *)
theory AffineCompile
  imports AffineModel
begin

unbundle bit_operations_syntax

text \<open>
  \<open>CompiledAffineMap\<close> of \<open>include/ttmlir/AffineMapUtils.h\<close>: a compiler of affine maps to a
  register machine, with shared subexpressions compiled once and divisions by powers of two turned
  into shifts and masks, and the interpreter of the code. Registers hold unbounded integers.
\<close>

section \<open>The machine\<close>

datatype vm_op = LoadDim | LoadConst | AddOp | MulOp | FloorDivOp | ModOp | CeilDivOp | ShrImm | AndImm

record instruction =
  op :: vm_op
  dst :: nat
  src1 :: nat
  src2 :: nat
  imm :: int

definition kMaxRegs :: nat where
  "kMaxRegs = 512"

text \<open>One instruction; \<open>/\<close> and \<open>%\<close> of C++ round towards zero, and a division by zero stops the
  machine.\<close>

definition vm_div :: "int \<Rightarrow> int \<Rightarrow> int option" where
  "vm_div a b =
     (if b = 0 then None
      else let q = a sdiv b; rm = a smod b in Some (if rm \<noteq> 0 \<and> (rm XOR b) < 0 then q - 1 else q))"

definition vm_mod :: "int \<Rightarrow> int \<Rightarrow> int option" where
  "vm_mod a b =
     (if b = 0 then None
      else let rm = a smod b in Some (if rm \<noteq> 0 \<and> (rm XOR b) < 0 then rm + b else rm))"

definition vm_ceildiv :: "int \<Rightarrow> int \<Rightarrow> int option" where
  "vm_ceildiv a b =
     (if b = 0 then None
      else let q = a sdiv b; rm = a smod b in Some (if rm \<noteq> 0 \<and> (rm XOR b) > 0 then q + 1 else q))"

definition vm_value :: "int list \<Rightarrow> (nat \<Rightarrow> int) \<Rightarrow> instruction \<Rightarrow> int option" where
  "vm_value inputs regs i =
     (case op i of
        LoadDim \<Rightarrow> Some (inputs ! nat (imm i))
      | LoadConst \<Rightarrow> Some (imm i)
      | AddOp \<Rightarrow> Some (regs (src1 i) + regs (src2 i))
      | MulOp \<Rightarrow> Some (regs (src1 i) * regs (src2 i))
      | FloorDivOp \<Rightarrow> vm_div (regs (src1 i)) (regs (src2 i))
      | ModOp \<Rightarrow> vm_mod (regs (src1 i)) (regs (src2 i))
      | CeilDivOp \<Rightarrow> vm_ceildiv (regs (src1 i)) (regs (src2 i))
      | ShrImm \<Rightarrow> Some (drop_bit (nat (imm i)) (regs (src1 i)))
      | AndImm \<Rightarrow> Some (regs (src1 i) AND imm i))"

fun vm_run :: "int list \<Rightarrow> instruction list \<Rightarrow> (nat \<Rightarrow> int) \<Rightarrow> (nat \<Rightarrow> int) option" where
  "vm_run inputs [] regs = Some regs"
| "vm_run inputs (i # code) regs =
     (case vm_value inputs regs i of None \<Rightarrow> None | Some v \<Rightarrow> vm_run inputs code (regs(dst i := v)))"

section \<open>The compiler\<close>

datatype compile_error = TooManyRegs | UnexpectedSymbol

record compile_state =
  code :: "instruction list"
  exprToReg :: "affine_expr \<Rightarrow> nat option"

definition isPowerOf2 :: "int \<Rightarrow> bool" where
  "isPowerOf2 v \<longleftrightarrow> v > 0 \<and> (v AND (v - 1)) = 0"

text \<open>\<open>llvm::countr_zero\<close> of a positive 64-bit value, the number of trailing zero bits.\<close>

fun countr_loop :: "nat \<Rightarrow> int \<Rightarrow> nat" where
  "countr_loop 0 v = 0"
| "countr_loop (Suc n) v = (if even v then Suc (countr_loop n (v div 2)) else 0)"

definition countr_zero :: "int \<Rightarrow> nat" where
  "countr_zero v = countr_loop 64 v"

definition emitInstruction ::
  "affine_expr \<Rightarrow> instruction \<Rightarrow> compile_state \<Rightarrow> (compile_error, nat \<times> compile_state) result" where
  "emitInstruction expr inst st =
     (let reg = length (code st)
      in if \<not> reg < kMaxRegs then Inl TooManyRegs
         else Inr (reg, st\<lparr>code := code st @ [inst\<lparr>dst := reg\<rparr>], exprToReg := (exprToReg st)(expr \<mapsto> reg)\<rparr>))"

definition binary_op :: "binary_kind \<Rightarrow> vm_op" where
  "binary_op kind =
     (case kind of AddK \<Rightarrow> AddOp | MulK \<Rightarrow> MulOp | ModK \<Rightarrow> ModOp | FloorDivK \<Rightarrow> FloorDivOp | CeilDivK \<Rightarrow> CeilDivOp)"

fun power_of_2_rhs :: "binary_kind \<Rightarrow> affine_expr \<Rightarrow> int option" where
  "power_of_2_rhs FloorDivK (ConstE v) = (if isPowerOf2 v then Some v else None)"
| "power_of_2_rhs ModK (ConstE v) = (if isPowerOf2 v then Some v else None)"
| "power_of_2_rhs _ _ = None"

fun compileExpr :: "affine_expr \<Rightarrow> compile_state \<Rightarrow> (compile_error, nat \<times> compile_state) result" where
  "compileExpr (DimE i) st =
     (case exprToReg st (DimE i) of Some r \<Rightarrow> Inr (r, st)
      | None \<Rightarrow> emitInstruction (DimE i) \<lparr>op = LoadDim, dst = 0, src1 = 0, src2 = 0, imm = int i\<rparr> st)"
| "compileExpr (SymE i) st =
     (case exprToReg st (SymE i) of Some r \<Rightarrow> Inr (r, st) | None \<Rightarrow> Inl UnexpectedSymbol)"
| "compileExpr (ConstE k) st =
     (case exprToReg st (ConstE k) of Some r \<Rightarrow> Inr (r, st)
      | None \<Rightarrow> emitInstruction (ConstE k) \<lparr>op = LoadConst, dst = 0, src1 = 0, src2 = 0, imm = k\<rparr> st)"
| "compileExpr (BinE kind l r) st =
     (case exprToReg st (BinE kind l r) of Some reg \<Rightarrow> Inr (reg, st)
      | None \<Rightarrow>
          (case compileExpr l st of
             Inl e \<Rightarrow> Inl e
           | Inr (lhs, st1) \<Rightarrow>
               (case power_of_2_rhs kind r of
                  Some v \<Rightarrow>
                    emitInstruction (BinE kind l r)
                      (if kind = FloorDivK
                       then \<lparr>op = ShrImm, dst = 0, src1 = lhs, src2 = 0, imm = int (countr_zero v)\<rparr>
                       else \<lparr>op = AndImm, dst = 0, src1 = lhs, src2 = 0, imm = v - 1\<rparr>) st1
                | None \<Rightarrow>
                    (case compileExpr r st1 of
                       Inl e \<Rightarrow> Inl e
                     | Inr (rhs, st2) \<Rightarrow>
                         emitInstruction (BinE kind l r)
                           \<lparr>op = binary_op kind, dst = 0, src1 = lhs, src2 = rhs, imm = 0\<rparr> st2))))"

fun compile_results ::
  "affine_expr list \<Rightarrow> compile_state \<Rightarrow> (compile_error, nat list \<times> compile_state) result" where
  "compile_results [] st = Inr ([], st)"
| "compile_results (e # es) st =
     (case compileExpr e st of
        Inl err \<Rightarrow> Inl err
      | Inr (r, st1) \<Rightarrow>
          (case compile_results es st1 of Inl err \<Rightarrow> Inl err | Inr (rs, st2) \<Rightarrow> Inr (r # rs, st2)))"

record compiled_map =
  cm_code :: "instruction list"
  cm_resultRegs :: "nat list"

definition compile_map :: "affine_map \<Rightarrow> (compile_error, compiled_map) result" where
  "compile_map m =
     (case compile_results (results m) \<lparr>code = [], exprToReg = Map.empty\<rparr> of
        Inl e \<Rightarrow> Inl e
      | Inr (regs, st) \<Rightarrow> Inr \<lparr>cm_code = code st, cm_resultRegs = regs\<rparr>)"

text \<open>The registers are not initialised: \<open>regs0\<close> is what they hold at the start.\<close>

definition evaluate :: "(nat \<Rightarrow> int) \<Rightarrow> compiled_map \<Rightarrow> int list \<Rightarrow> int list option" where
  "evaluate regs0 cm inputs = map_option (\<lambda>regs. map regs (cm_resultRegs cm)) (vm_run inputs (cm_code cm) regs0)"

section \<open>Arithmetic of the machine\<close>

lemma trunc_div_mod:
  fixes a b q r :: int
  assumes a: "a = q * b + r" and r: "\<bar>r\<bar> < \<bar>b\<bar>"
  shows "a div b = (if r \<noteq> 0 \<and> (r < 0) \<noteq> (b < 0) then q - 1 else q)"
    "a mod b = (if r \<noteq> 0 \<and> (r < 0) \<noteq> (b < 0) then r + b else r)"
proof -
  have b: "b \<noteq> 0" using r by auto
  have split: "a div b = q + r div b" "a mod b = r mod b" using b by (simp_all add: a)
  have opp: "r div b = - 1 \<and> r mod b = r + b" if "r \<noteq> 0" "(r < 0) \<noteq> (b < 0)"
  proof (cases "0 < b")
    case True
    then have "r div b = - 1" "r mod b = r + b"
      using that r by (auto intro!: int_div_pos_eq [where r = "r + b"] int_mod_pos_eq [where q = "- 1"])
    then show ?thesis by simp
  next
    case False
    then have "r div b = - 1" "r mod b = r + b"
      using that r b by (auto intro!: int_div_neg_eq [where r = "r + b"] int_mod_neg_eq [where q = "- 1"])
    then show ?thesis by simp
  qed
  have same: "r div b = 0 \<and> r mod b = r" if "\<not> (r \<noteq> 0 \<and> (r < 0) \<noteq> (b < 0))"
    using that r b by (cases "0 < b") (auto simp: div_pos_pos_trivial div_neg_neg_trivial mod_pos_pos_trivial mod_neg_neg_trivial)
  show "a div b = (if r \<noteq> 0 \<and> (r < 0) \<noteq> (b < 0) then q - 1 else q)"
    "a mod b = (if r \<noteq> 0 \<and> (r < 0) \<noteq> (b < 0) then r + b else r)"
    using opp same split by (auto split: if_splits)
qed

lemma signed_split:
  fixes a b :: int
  assumes "b \<noteq> 0"
  shows "a = (a sdiv b) * b + a smod b" "\<bar>a smod b\<bar> < \<bar>b\<bar>"
  using smod_int_range [OF assms, of a] by (auto simp: sdiv_mult_smod_eq abs_less_iff)

lemma vm_div_floor: "b \<noteq> 0 \<Longrightarrow> vm_div a b = Some (a div b)"
  using trunc_div_mod(1) [OF signed_split [of b a]] by (auto simp: vm_div_def Let_def)

lemma vm_mod_mod: "b \<noteq> 0 \<Longrightarrow> vm_mod a b = Some (a mod b)"
  using trunc_div_mod(2) [OF signed_split [of b a]] by (auto simp: vm_mod_def Let_def)

lemma xor_pos_iff: "0 < (r XOR b) \<longleftrightarrow> (r < 0) = (b < 0) \<and> r \<noteq> b" for r b :: int
proof -
  have "r XOR b = 0 \<longleftrightarrow> r = b" by (metis xor.right_neutral xor.assoc xor.left_neutral xor_self_eq)
  then show ?thesis using xor_negative_int_iff [of r b] by linarith
qed

lemma vm_ceildiv_ceil:
  assumes "b \<noteq> 0"
  shows "vm_ceildiv a b = Some (- ((- a) div b))"
proof -
  let ?q = "a sdiv b" and ?r = "a smod b"
  note s = signed_split [OF assms, of a]
  have "- a = (- ?q) * b + - ?r" "\<bar>- ?r\<bar> < \<bar>b\<bar>" using s by (simp_all add: algebra_simps)
  from trunc_div_mod(1) [OF this] have "- ((- a) div b) = (if ?r \<noteq> 0 \<and> (?r < 0) = (b < 0) then ?q + 1 else ?q)"
    using assms by (auto split: if_splits)
  moreover have "?r \<noteq> b" using s(2) by auto
  ultimately show ?thesis using assms by (simp add: vm_ceildiv_def Let_def xor_pos_iff)
qed

lemma countr_loop_power:
  assumes "0 < v" "v < 2 ^ n" "v AND (v - 1) = 0"
  shows "v = 2 ^ countr_loop n v"
  using assms
proof (induction n arbitrary: v)
  case 0
  then show ?case by simp
next
  case (Suc n)
  show ?case
  proof (cases "even v")
    case True
    then obtain w where w: "v = 2 * w" by blast
    have half: "(2 * w - 1) div 2 = w - 1" by simp
    have "v AND (v - 1) = 2 * (w AND (w - 1))"
      by (subst and_int_rec) (simp add: w half)
    then have "w AND (w - 1) = 0" using Suc.prems(3) by simp
    then have "w = 2 ^ countr_loop n w" using Suc.prems w by (intro Suc.IH) auto
    then show ?thesis using w by simp
  next
    case False
    then obtain w where w: "v = 2 * w + 1" by (blast elim: oddE)
    have "v AND (v - 1) = 2 * w" by (subst and_int_rec) (simp add: w)
    then show ?thesis using Suc.prems(3) w by simp
  qed
qed

lemma power_of_2_shift:
  assumes "isPowerOf2 v" "v < 2 ^ 63"
  shows "v = 2 ^ countr_zero v"
  unfolding countr_zero_def using assms by (intro countr_loop_power) (auto simp: isPowerOf2_def)

lemma and_low_bits: "a AND (2 ^ n - 1) = a mod 2 ^ n" for a :: int
  by (simp add: take_bit_eq_mod flip: take_bit_eq_mask mask_eq_exp_minus_1)

section \<open>Correctness\<close>

text \<open>The divisors an expression evaluates are not zero; those turned into shifts are 64-bit values.\<close>

fun divisors_ok :: "int list \<Rightarrow> affine_expr \<Rightarrow> bool" where
  "divisors_ok ds (BinE kind l r) \<longleftrightarrow>
     divisors_ok ds l \<and> divisors_ok ds r \<and>
     (kind \<in> {ModK, FloorDivK, CeilDivK} \<longrightarrow> eval_expr ds [] r \<noteq> 0 \<and> eval_expr ds [] r < 2 ^ 63)"
| "divisors_ok ds e \<longleftrightarrow> True"

text \<open>A compiler state and the registers after its code: every expression of the memo is held by the
  register the memo names.\<close>

definition holds :: "int list \<Rightarrow> (nat \<Rightarrow> int) \<Rightarrow> compile_state \<Rightarrow> (nat \<Rightarrow> int) \<Rightarrow> bool" where
  "holds inputs regs0 st regs \<longleftrightarrow>
     vm_run inputs (code st) regs0 = Some regs \<and>
     (\<forall>e r. exprToReg st e = Some r \<longrightarrow> r < length (code st) \<and> regs r = eval_expr inputs [] e)"

definition extends :: "compile_state \<Rightarrow> (nat \<Rightarrow> int) \<Rightarrow> compile_state \<Rightarrow> (nat \<Rightarrow> int) \<Rightarrow> bool" where
  "extends st regs st' regs' \<longleftrightarrow>
     length (code st) \<le> length (code st') \<and> (\<forall>i<length (code st). regs' i = regs i)"

lemma extends_refl: "extends st regs st regs"
  by (simp add: extends_def)

lemma extends_trans: "extends st regs st1 regs1 \<Longrightarrow> extends st1 regs1 st2 regs2 \<Longrightarrow> extends st regs st2 regs2"
  by (auto simp: extends_def)

lemma vm_run_append:
  "vm_run inputs (xs @ ys) regs = Option.bind (vm_run inputs xs regs) (vm_run inputs ys)"
  by (induction xs arbitrary: regs) (auto split: option.splits)

lemma emit_holds:
  assumes st: "holds inputs regs0 st regs"
    and em: "emitInstruction e inst st = Inr (r, st')"
    and v: "vm_value inputs regs (inst\<lparr>dst := length (code st)\<rparr>) = Some (eval_expr inputs [] e)"
  shows "\<exists>regs'. holds inputs regs0 st' regs' \<and> extends st regs st' regs' \<and> r < length (code st')
    \<and> regs' r = eval_expr inputs [] e"
proof -
  let ?n = "length (code st)" and ?v = "eval_expr inputs [] e"
  have eqs: "r = ?n" "code st' = code st @ [inst\<lparr>dst := ?n\<rparr>]" "exprToReg st' = (exprToReg st)(e \<mapsto> ?n)"
    using em by (auto simp: emitInstruction_def Let_def split: if_splits)
  have run: "vm_run inputs (code st) regs0 = Some regs"
    and memo: "\<And>e r. exprToReg st e = Some r \<Longrightarrow> r < ?n \<and> regs r = eval_expr inputs [] e"
    using st by (auto simp: holds_def)
  have "vm_run inputs (code st') regs0 = Some (regs(?n := ?v))"
    using run v by (simp add: eqs vm_run_append)
  moreover have "i < length (code st') \<and> (regs(?n := ?v)) i = eval_expr inputs [] e'"
    if "exprToReg st' e' = Some i" for e' i
    using that memo [of e' i] by (auto simp: eqs split: if_splits)
  ultimately have "holds inputs regs0 st' (regs(?n := ?v))" by (simp add: holds_def)
  then show ?thesis by (intro exI [of _ "regs(?n := ?v)"]) (auto simp: extends_def eqs)
qed

lemma power_of_2_rhsD:
  assumes "power_of_2_rhs kind r = Some v"
  shows "r = ConstE v \<and> isPowerOf2 v \<and> (kind = FloorDivK \<or> kind = ModK)"
  using assms by (cases "(kind, r)" rule: power_of_2_rhs.cases) (auto split: if_splits)

lemma memo_holds:
  "holds inputs regs0 st regs \<Longrightarrow> exprToReg st e = Some r \<Longrightarrow>
     \<exists>regs'. holds inputs regs0 st regs' \<and> extends st regs st regs' \<and> r < length (code st)
       \<and> regs' r = eval_expr inputs [] e"
  using extends_refl by (fastforce simp: holds_def)

lemma binary_value:
  assumes "regs lhs = eval_expr inputs [] l" "regs rhs = eval_expr inputs [] r" "divisors_ok inputs (BinE kind l r)"
  shows "vm_value inputs regs \<lparr>op = binary_op kind, dst = d, src1 = lhs, src2 = rhs, imm = 0\<rparr>
    = Some (eval_expr inputs [] (BinE kind l r))"
  using assms by (cases kind) (auto simp: vm_value_def binary_op_def vm_div_floor vm_mod_mod vm_ceildiv_ceil)

lemma power_value:
  assumes "power_of_2_rhs kind r = Some v" "regs lhs = eval_expr inputs [] l" "divisors_ok inputs (BinE kind l r)"
  shows "vm_value inputs regs
    (if kind = FloorDivK then \<lparr>op = ShrImm, dst = d, src1 = lhs, src2 = 0, imm = int (countr_zero v)\<rparr>
     else \<lparr>op = AndImm, dst = d, src1 = lhs, src2 = 0, imm = v - 1\<rparr>)
    = Some (eval_expr inputs [] (BinE kind l r))"
proof -
  note k = power_of_2_rhsD [OF assms(1)]
  with assms(3) have "v < 2 ^ 63" by auto
  with k have v: "v = 2 ^ countr_zero v" by (intro power_of_2_shift) auto
  have "drop_bit (countr_zero v) a = a div v" "a AND (v - 1) = a mod v" for a :: int
    using v by (metis drop_bit_eq_div, metis and_low_bits)
  then show ?thesis using k assms(2) by (auto simp: vm_value_def)
qed

lemma compileExpr_sound:
  assumes "holds inputs regs0 st regs" "compileExpr e st = Inr (r, st')" "divisors_ok inputs e"
  shows "\<exists>regs'. holds inputs regs0 st' regs' \<and> extends st regs st' regs' \<and> r < length (code st')
    \<and> regs' r = eval_expr inputs [] e"
  using assms
proof (induction e st arbitrary: r st' regs rule: compileExpr.induct)
  case (1 i st)
  show ?case
  proof (cases "exprToReg st (DimE i)")
    case None
    with 1 show ?thesis by (intro emit_holds [where e = "DimE i"]) (auto simp: vm_value_def)
  qed (use 1 memo_holds [of inputs regs0 st regs "DimE i"] in auto)
next
  case (2 i st)
  then show ?case using memo_holds [of inputs regs0 st regs "SymE i"] by (auto split: option.splits)
next
  case (3 k st)
  show ?case
  proof (cases "exprToReg st (ConstE k)")
    case None
    with 3 show ?thesis by (intro emit_holds [where e = "ConstE k"]) (auto simp: vm_value_def)
  qed (use 3 memo_holds [of inputs regs0 st regs "ConstE k"] in auto)
next
  case (4 kind l rexp st)
  show ?case
  proof (cases "exprToReg st (BinE kind l rexp)")
    case (Some reg)
    with 4 memo_holds [of inputs regs0 st regs "BinE kind l rexp"] show ?thesis by auto
  next
    case None
    with 4 obtain lhs st1 where l: "compileExpr l st = Inr (lhs, st1)" by (auto split: sum.splits)
    from 4 None l obtain regs1 where r1: "holds inputs regs0 st1 regs1" "extends st regs st1 regs1"
        "lhs < length (code st1)" "regs1 lhs = eval_expr inputs [] l" by fastforce
    show ?thesis
    proof (cases "power_of_2_rhs kind rexp")
      case (Some v)
      obtain inst where inst: "emitInstruction (BinE kind l rexp) inst st1 = Inr (r, st')"
          "vm_value inputs regs1 (inst\<lparr>dst := length (code st1)\<rparr>) = Some (eval_expr inputs [] (BinE kind l rexp))"
        using 4(4) None l Some power_value [where regs = regs1 and lhs = lhs, OF Some r1(4) 4(5)] by (cases "kind = FloorDivK") auto
      then show ?thesis using emit_holds [OF r1(1) inst] extends_trans [OF r1(2)] by blast
    next
      case False: None
      with 4 None l obtain rhs st2 where r: "compileExpr rexp st1 = Inr (rhs, st2)"
        by (auto split: sum.splits)
      from 4 None False l r r1(1) obtain regs2 where r2: "holds inputs regs0 st2 regs2"
          "extends st1 regs1 st2 regs2" "rhs < length (code st2)" "regs2 rhs = eval_expr inputs [] rexp" by fastforce
      then have "regs2 lhs = eval_expr inputs [] l" using r1(3,4) by (simp add: extends_def)
      then have "\<exists>regs'. holds inputs regs0 st' regs' \<and> extends st2 regs2 st' regs' \<and> r < length (code st')
          \<and> regs' r = eval_expr inputs [] (BinE kind l rexp)"
        using 4(4,5) None False l r r2 binary_value [of regs2 lhs inputs l rhs rexp kind]
        by (intro emit_holds [where inst = "\<lparr>op = binary_op kind, dst = 0, src1 = lhs, src2 = rhs, imm = 0\<rparr>"]) auto
      then show ?thesis using extends_trans [OF extends_trans [OF r1(2) r2(2)]] by blast
    qed
  qed
qed

lemma compile_results_sound:
  assumes "holds inputs regs0 st regs" "compile_results es st = Inr (rs, st')" "\<forall>e\<in>set es. divisors_ok inputs e"
  shows "\<exists>regs'. holds inputs regs0 st' regs' \<and> extends st regs st' regs' \<and> (\<forall>r\<in>set rs. r < length (code st'))
    \<and> map regs' rs = map (eval_expr inputs []) es"
  using assms
proof (induction es arbitrary: st regs rs)
  case Nil
  then show ?case using extends_refl by auto
next
  case (Cons e es)
  then obtain r st1 rs' where c: "compileExpr e st = Inr (r, st1)" "compile_results es st1 = Inr (rs', st')" "rs = r # rs'"
    by (auto split: sum.splits)
  obtain regs1 where r1: "holds inputs regs0 st1 regs1" "extends st regs st1 regs1" "r < length (code st1)"
      "regs1 r = eval_expr inputs [] e"
    using compileExpr_sound [OF Cons.prems(1) c(1)] Cons.prems(3) by auto
  obtain regs2 where r2: "holds inputs regs0 st' regs2" "extends st1 regs1 st' regs2" "\<forall>r\<in>set rs'. r < length (code st')"
      "map regs2 rs' = map (eval_expr inputs []) es"
    using Cons.IH [OF r1(1) c(2)] Cons.prems(3) by auto
  have "regs2 r = eval_expr inputs [] e" "r < length (code st')" using r1(3,4) r2(2) by (auto simp: extends_def)
  then show ?case using r2 extends_trans [OF r1(2) r2(2)] c(3) by (intro exI [of _ regs2]) auto
qed

lemma compile_map_sound:
  assumes "compile_map m = Inr cm" "\<forall>e\<in>set (results m). divisors_ok inputs e"
  shows "evaluate regs0 cm inputs = Some (compose_map m inputs)"
proof -
  let ?st = "\<lparr>code = [], exprToReg = Map.empty\<rparr>"
  obtain rs st where c: "compile_results (results m) ?st = Inr (rs, st)" "cm = \<lparr>cm_code = code st, cm_resultRegs = rs\<rparr>"
    using assms(1) by (auto simp: compile_map_def split: sum.splits)
  have "holds inputs regs0 ?st regs0" by (simp add: holds_def)
  from compile_results_sound [OF this c(1) assms(2)] obtain regs where
    "holds inputs regs0 st regs" "map regs rs = map (eval_expr inputs []) (results m)" by blast
  then show ?thesis by (simp add: evaluate_def c(2) compose_map_def holds_def)
qed

text \<open>The compiler fits its registers as long as the expressions have no more than \<open>kMaxRegs\<close> nodes.\<close>

fun nodes :: "affine_expr \<Rightarrow> nat" where
  "nodes (BinE kind l r) = nodes l + nodes r + 1"
| "nodes e = 1"

lemma compileExpr_total:
  assumes "syms_below 0 e" "length (code st) + nodes e \<le> kMaxRegs"
  shows "\<exists>r st'. compileExpr e st = Inr (r, st') \<and> length (code st') \<le> length (code st) + nodes e"
  using assms
proof (induction e st rule: compileExpr.induct)
  case (4 kind l rexp st)
  show ?case
  proof (cases "exprToReg st (BinE kind l rexp)")
    case None
    obtain lhs st1 where l: "compileExpr l st = Inr (lhs, st1)" "length (code st1) \<le> length (code st) + nodes l"
      using 4 None by auto
    show ?thesis
    proof (cases "power_of_2_rhs kind rexp")
      case (Some v)
      then show ?thesis using None l 4(4) by (auto simp: emitInstruction_def Let_def)
    next
      case False: None
      obtain rhs st2 where "compileExpr rexp st1 = Inr (rhs, st2)" "length (code st2) \<le> length (code st1) + nodes rexp"
        using 4 None False l by fastforce
      then show ?thesis using None False l 4(4) by (auto simp: emitInstruction_def Let_def)
    qed
  qed simp
qed (auto simp: emitInstruction_def Let_def split: option.splits)

lemma compile_results_total:
  assumes "\<forall>e\<in>set es. syms_below 0 e" "length (code st) + sum_list (map nodes es) \<le> kMaxRegs"
  shows "\<exists>rs st'. compile_results es st = Inr (rs, st')"
  using assms
proof (induction es arbitrary: st)
  case (Cons e es)
  obtain r st1 where e: "compileExpr e st = Inr (r, st1)" "length (code st1) \<le> length (code st) + nodes e"
    using compileExpr_total [of e st] Cons.prems by auto
  with Cons.prems obtain rs st' where "compile_results es st1 = Inr (rs, st')" using Cons.IH [of st1] by auto
  with e show ?case by auto
qed simp

lemma compile_map_total:
  assumes "\<forall>e\<in>set (results m). syms_below 0 e" "sum_list (map nodes (results m)) \<le> kMaxRegs"
  shows "\<exists>cm. compile_map m = Inr cm"
  using compile_results_total [OF assms(1), of "\<lparr>code = [], exprToReg = Map.empty\<rparr>"] assms(2)
  by (auto simp: compile_map_def)

end
