(* ===== verification/Coalesce.thy ===== *)
theory Coalesce
  imports AffineCompile RowWalk
begin

text \<open>
  \<open>calculateCoalescingFactor\<close> of \<open>include/ttmlir/AffineMapUtils.h\<close>: the number of elements a DMA
  transfer may move at once, found by running the compiled map over every element of every shard. The
  result is shown to be the largest number that divides the shard and every position where the
  addresses jump.
\<close>

section \<open>The sampling algorithm\<close>

datatype coalesce_error = CoalesceAssert | CompileFailed compile_error | DivisionByZero

text \<open>The address expected next: \<open>nextAddress[numResults - 1] += stride\<close>.\<close>

definition bump :: "int \<Rightarrow> int list \<Rightarrow> int list" where
  "bump stride address = address[length address - 1 := last address + stride]"

definition next_shard_coord :: "shape \<Rightarrow> coord \<Rightarrow> coord" where
  "next_shard_coord shardShape c = advance_loop shardShape (length shardShape) c"

text \<open>The loop over one shard: what is left to visit, whether this is the first element, its coordinate,
  the address expected, the length of the current run and the factor so far.\<close>

fun shard_loop ::
  "(coord \<Rightarrow> int list option) \<Rightarrow> shape \<Rightarrow> int \<Rightarrow> nat \<Rightarrow> bool \<Rightarrow> coord \<Rightarrow> int list \<Rightarrow> int \<Rightarrow> int \<Rightarrow> int option" where
  "shard_loop addr shardShape stride 0 first c nextAddress current factor = Some (gcd factor current)"
| "shard_loop addr shardShape stride (Suc n) first c nextAddress current factor =
     (case addr c of
        None \<Rightarrow> None
      | Some address \<Rightarrow>
          if first \<or> address = nextAddress
          then shard_loop addr shardShape stride n False (next_shard_coord shardShape c) (bump stride address)
                 (current + 1) factor
          else let factor' = gcd factor current
               in if factor' = 1 then Some (gcd factor' current)
                  else shard_loop addr shardShape stride n False (next_shard_coord shardShape c)
                         (bump stride address) 1 factor')"

fun grid_loop ::
  "(coord \<Rightarrow> int list option) \<Rightarrow> shape \<Rightarrow> int \<Rightarrow> coord list \<Rightarrow> int \<Rightarrow> int option" where
  "grid_loop addr shardShape stride [] factor = Some factor"
| "grid_loop addr shardShape stride (g # gs) factor =
     (if factor = 1 then grid_loop addr shardShape stride gs factor
      else case shard_loop (\<lambda>c. addr (g @ c)) shardShape stride (nat (volume shardShape 1)) True
                  (replicate (length shardShape) 0) [] 0 factor of
             None \<Rightarrow> None
           | Some factor' \<Rightarrow> grid_loop addr shardShape stride gs factor')"

definition calculateCoalescingFactor ::
  "(nat \<Rightarrow> int) \<Rightarrow> affine_map \<Rightarrow> shape \<Rightarrow> int \<Rightarrow> nat \<Rightarrow> (coalesce_error, int) result" where
  "calculateCoalescingFactor regs0 m sh stride numGridDims =
     (if numDims m \<noteq> length sh \<or> \<not> numGridDims \<le> length sh \<or> numSymbols m \<noteq> 0 then Inl CoalesceAssert
      else let gridShape = take numGridDims sh; shardShape = drop numGridDims sh
           in if shardShape = [] then Inr 1
              else case compile_map m of
                     Inl e \<Rightarrow> Inl (CompileFailed e)
                   | Inr compiled \<Rightarrow>
                       if \<not> length (cm_resultRegs compiled) \<le> 16 \<or> \<not> numDims m \<le> 16 then Inl CoalesceAssert
                       else case grid_loop (evaluate regs0 compiled) shardShape stride (sample gridShape)
                                   (volume shardShape 1) of
                              None \<Rightarrow> Inl DivisionByZero
                            | Some f \<Rightarrow> Inr f)"

section \<open>What the loops compute\<close>

text \<open>A jump: the address of an element is not the one that follows its predecessor's.\<close>

definition jump :: "(coord \<Rightarrow> int list) \<Rightarrow> shape \<Rightarrow> int \<Rightarrow> int \<Rightarrow> bool" where
  "jump A shardShape stride i \<longleftrightarrow>
     A (linearIdToCoord i shardShape) \<noteq> bump stride (A (linearIdToCoord (i - 1) shardShape))"

lemma gcd_one_dvd: "gcd f c = (1::int) \<Longrightarrow> d dvd f \<Longrightarrow> d dvd c \<Longrightarrow> d dvd 1"
  by (metis gcd_greatest)

lemma dvd_diff_run:
  fixes d f p c :: int
  assumes "f dvd p - c" "d dvd f"
  shows "d dvd c \<longleftrightarrow> d dvd p"
  using dvd_trans [OF assms(2,1)] by (metis diff_add_cancel dvd_add_right_iff)

lemma shard_loop_dvd:
  assumes addr: "\<And>c. in_shape c sh \<Longrightarrow> addr c = Some (A c)"
    and sh: "static_shape sh" "p + int n = prod_list sh" "0 \<le> p" "f dvd p - cur"
    and start: "first \<longleftrightarrow> p = 0" "first \<Longrightarrow> cur = 0"
    and nx: "\<not> first \<Longrightarrow> nxt = bump stride (A (linearIdToCoord (p - 1) sh))"
    and c: "0 < n \<Longrightarrow> c = linearIdToCoord p sh"
  shows "\<exists>r. shard_loop addr sh stride n first c nxt cur f = Some r \<and>
    (\<forall>d. d dvd r \<longleftrightarrow> d dvd f \<and> d dvd prod_list sh \<and>
      (\<forall>i. p \<le> i \<and> 0 < i \<and> i < prod_list sh \<and> jump A sh stride i \<longrightarrow> d dvd i))"
  using sh start nx c
proof (induction n arbitrary: p first c nxt cur f)
  case 0
  have "d dvd gcd f cur \<longleftrightarrow> d dvd f \<and> d dvd prod_list sh" for d
    using dvd_diff_run [of f p cur d] 0 by auto
  then show ?case using 0 by auto
next
  case (Suc n)
  note cc = linearIdToCoord_inverse [OF Suc.prems(1), of p]
  have p: "p < prod_list sh" using Suc.prems(2) by simp
  with cc Suc.prems have ins: "in_shape c sh" and ri: "row_index sh c = p" by auto
  have nextc: "next_shard_coord sh c = linearIdToCoord (p + 1) sh" if "0 < n"
    using advance_next [OF ins] ri that Suc.prems(2) by (simp add: next_shard_coord_def)
  have c: "c = linearIdToCoord p sh" using Suc.prems by simp
  note ih = Suc.IH [of "p + 1", OF Suc.prems(1)]
  show ?case
  proof (cases "first \<or> A c = nxt")
    case True
    have "\<exists>r. shard_loop addr sh stride n False (next_shard_coord sh c) (bump stride (A c)) (cur + 1) f = Some r \<and>
      (\<forall>d. d dvd r \<longleftrightarrow> d dvd f \<and> d dvd prod_list sh \<and>
        (\<forall>i. p + 1 \<le> i \<and> 0 < i \<and> i < prod_list sh \<and> jump A sh stride i \<longrightarrow> d dvd i))"
      using Suc.prems nextc c by (intro ih) auto
    moreover have "\<not> (0 < p \<and> jump A sh stride p)" using True Suc.prems c by (auto simp: jump_def)
    then have "(p \<le> i \<and> 0 < i \<and> i < prod_list sh \<and> jump A sh stride i) =
        (p + 1 \<le> i \<and> 0 < i \<and> i < prod_list sh \<and> jump A sh stride i)" for i
      by (cases "i = p") auto
    ultimately show ?thesis using True addr [OF ins] by simp
  next
    case False
    have jp: "jump A sh stride p" "0 < p" using False Suc.prems c by (auto simp: jump_def)
    have run: "shard_loop addr sh stride (Suc n) first c nxt cur f = (if gcd f cur = 1 then Some (gcd (gcd f cur) cur)
        else shard_loop addr sh stride n False (next_shard_coord sh c) (bump stride (A c)) 1 (gcd f cur))"
      using False addr [OF ins] by (simp add: Let_def)
    have cut: "d dvd gcd f cur \<longleftrightarrow> d dvd f \<and> d dvd p" for d
      using dvd_diff_run [of f p cur d] Suc.prems by auto
    show ?thesis
    proof (cases "gcd f cur = 1")
      case True
      have "d dvd 1 \<longleftrightarrow> d dvd f \<and> d dvd prod_list sh \<and>
          (\<forall>i. p \<le> i \<and> 0 < i \<and> i < prod_list sh \<and> jump A sh stride i \<longrightarrow> d dvd i)" for d
      proof
        assume "d dvd 1"
        then have "d dvd x" for x by (rule dvd_trans) simp
        then show "d dvd f \<and> d dvd prod_list sh \<and>
          (\<forall>i. p \<le> i \<and> 0 < i \<and> i < prod_list sh \<and> jump A sh stride i \<longrightarrow> d dvd i)" by simp
      next
        assume a: "d dvd f \<and> d dvd prod_list sh \<and>
          (\<forall>i. p \<le> i \<and> 0 < i \<and> i < prod_list sh \<and> jump A sh stride i \<longrightarrow> d dvd i)"
        then have "d dvd p" using jp p by simp
        with a cut [of d] True show "d dvd 1" by simp
      qed
      then show ?thesis using run True by simp
    next
      case False
      have "gcd f cur dvd p" by (rule conjunct2 [OF cut [THEN iffD1]]) (rule dvd_refl)
      then have "\<exists>r. shard_loop addr sh stride n False (next_shard_coord sh c) (bump stride (A c)) 1 (gcd f cur) = Some r \<and>
        (\<forall>d. d dvd r \<longleftrightarrow> d dvd gcd f cur \<and> d dvd prod_list sh \<and>
          (\<forall>i. p + 1 \<le> i \<and> 0 < i \<and> i < prod_list sh \<and> jump A sh stride i \<longrightarrow> d dvd i))"
        using Suc.prems nextc c by (intro ih) auto
      then obtain r where r: "shard_loop addr sh stride n False (next_shard_coord sh c) (bump stride (A c)) 1 (gcd f cur) = Some r"
        "\<And>d. d dvd r \<longleftrightarrow> d dvd gcd f cur \<and> d dvd prod_list sh \<and>
          (\<forall>i. p + 1 \<le> i \<and> 0 < i \<and> i < prod_list sh \<and> jump A sh stride i \<longrightarrow> d dvd i)" by blast
      have "p \<le> i \<longleftrightarrow> i = p \<or> p + 1 \<le> i" for i by auto
      then have "d dvd r \<longleftrightarrow> d dvd f \<and> d dvd prod_list sh \<and>
          (\<forall>i. p \<le> i \<and> 0 < i \<and> i < prod_list sh \<and> jump A sh stride i \<longrightarrow> d dvd i)" for d
        unfolding r(2) cut using jp p by auto
      then show ?thesis using run False r(1) by (simp del: shard_loop.simps)
    qed
  qed
qed

lemma grid_loop_dvd:
  assumes addr: "\<And>g c. g \<in> set gs \<Longrightarrow> in_shape c sh \<Longrightarrow> addr (g @ c) = Some (A (g @ c))"
    and sh: "static_shape sh" "0 < prod_list sh" "f dvd prod_list sh"
  shows "\<exists>r. grid_loop addr sh stride gs f = Some r \<and>
    (\<forall>d. d dvd r \<longleftrightarrow> d dvd f \<and>
      (\<forall>g\<in>set gs. \<forall>i. 0 < i \<and> i < prod_list sh \<and> jump (\<lambda>c. A (g @ c)) sh stride i \<longrightarrow> d dvd i))"
  using addr sh(3)
proof (induction gs arbitrary: f)
  case Nil
  then show ?case by simp
next
  case (Cons g gs)
  let ?J = "\<lambda>g i. 0 < i \<and> i < prod_list sh \<and> jump (\<lambda>c. A (g @ c)) sh stride i"
  have vol: "nat (volume sh 1) = nat (prod_list sh)" by (simp add: volume_prod)
  show ?case
  proof (cases "f = 1")
    case True
    obtain r where r: "grid_loop addr sh stride gs f = Some r"
        "\<And>d. d dvd r \<longleftrightarrow> d dvd f \<and> (\<forall>g\<in>set gs. \<forall>i. ?J g i \<longrightarrow> d dvd i)"
      using Cons.IH [of f] Cons.prems by auto
    have "d dvd x" if "d dvd f" for d x :: int using that True by (metis dvd_trans one_dvd)
    then show ?thesis using r True by auto
  next
    case False
    obtain f' where f': "shard_loop (\<lambda>c. addr (g @ c)) sh stride (nat (volume sh 1)) True (replicate (length sh) 0) [] 0 f = Some f'"
        "\<And>d. d dvd f' \<longleftrightarrow> d dvd f \<and> d dvd prod_list sh \<and> (\<forall>i. 0 \<le> i \<and> ?J g i \<longrightarrow> d dvd i)"
      using shard_loop_dvd [of sh "\<lambda>c. addr (g @ c)" "\<lambda>c. A (g @ c)" 0 "nat (volume sh 1)" f 0 True "[]" stride "replicate (length sh) 0"]
        Cons.prems sh(1,2) linearIdToCoord_zero [OF sh(1,2)] vol by auto
    have "f' dvd prod_list sh" using f'(2) [of f'] by simp
    then obtain r where r: "grid_loop addr sh stride gs f' = Some r"
        "\<And>d. d dvd r \<longleftrightarrow> d dvd f' \<and> (\<forall>g\<in>set gs. \<forall>i. ?J g i \<longrightarrow> d dvd i)"
      using Cons.IH [of f'] Cons.prems by auto
    have "d dvd f' \<longleftrightarrow> d dvd f \<and> (\<forall>i. ?J g i \<longrightarrow> d dvd i)" for d
      unfolding f'(2) using Cons.prems(2) dvd_trans by fastforce
    then show ?thesis using r f'(1) False by auto
  qed
qed

section \<open>The factor\<close>

text \<open>Transfers of \<open>d\<close> elements are contiguous: they tile every shard, and addresses advance by the
  stride except where a new transfer starts.\<close>

definition chunks_contiguous :: "affine_map \<Rightarrow> shape \<Rightarrow> int \<Rightarrow> nat \<Rightarrow> int \<Rightarrow> bool" where
  "chunks_contiguous m sh stride n d \<longleftrightarrow>
     d dvd prod_list (drop n sh) \<and>
     (\<forall>g i. in_shape g (take n sh) \<and> 0 < i \<and> i < prod_list (drop n sh) \<and> \<not> d dvd i \<longrightarrow>
        compose_map m (g @ linearIdToCoord i (drop n sh))
          = bump stride (compose_map m (g @ linearIdToCoord (i - 1) (drop n sh))))"

definition sampled_map :: "affine_map \<Rightarrow> shape \<Rightarrow> nat \<Rightarrow> bool" where
  "sampled_map m sh n \<longleftrightarrow>
     numDims m = length sh \<and> numSymbols m = 0 \<and> length sh \<le> 16 \<and> n < length sh \<and>
     static_shape sh \<and> 0 < prod_list (drop n sh) \<and>
     length (results m) \<le> 16 \<and> sum_list (map nodes (results m)) \<le> kMaxRegs \<and>
     (\<forall>e\<in>set (results m). syms_below 0 e \<and> (\<forall>c. in_shape c sh \<longrightarrow> divisors_ok c e))"

lemma compile_results_length: "compile_results es st = Inr (rs, st') \<Longrightarrow> length rs = length es"
  by (induction es arbitrary: st rs) (auto split: sum.splits)

lemma sampled_map_compiled:
  assumes "sampled_map m sh n"
  obtains cm where "compile_map m = Inr cm" "length (cm_resultRegs cm) \<le> 16"
    "\<And>c regs0. in_shape c sh \<Longrightarrow> evaluate regs0 cm c = Some (compose_map m c)"
proof -
  from assms obtain cm where cm: "compile_map m = Inr cm" using compile_map_total [of m] by (auto simp: sampled_map_def)
  have "length (cm_resultRegs cm) = length (results m)"
    using cm compile_results_length by (auto simp: compile_map_def split: sum.splits)
  with cm compile_map_sound [OF cm] assms that show thesis by (auto simp: sampled_map_def)
qed

lemma coalescing_factor_dvd:
  assumes ok: "sampled_map m sh n" "0 < n"
  shows "\<exists>f. calculateCoalescingFactor regs0 m sh stride n = Inr f \<and> (\<forall>d. d dvd f \<longleftrightarrow> chunks_contiguous m sh stride n d)"
proof -
  let ?grid = "take n sh" and ?shard = "drop n sh"
  obtain cm where cm: "compile_map m = Inr cm" "length (cm_resultRegs cm) \<le> 16"
    "\<And>c regs0. in_shape c sh \<Longrightarrow> evaluate regs0 cm c = Some (compose_map m c)"
    using sampled_map_compiled [OF ok(1)] by metis
  have sh: "static_shape ?grid" "static_shape ?shard" "?grid \<noteq> []" "?shard \<noteq> []" "0 < prod_list ?shard"
    using ok by (auto simp: sampled_map_def static_shape_def list_all_iff dest: in_set_takeD in_set_dropD)
  note grids = set_sample [OF sh(1,3)]
  have "evaluate regs0 cm (g @ c) = Some (compose_map m (g @ c))" if "g \<in> set (sample ?grid)" "in_shape c ?shard" for g c
    using that cm(3) [of "g @ c"] in_shape_append_iff [of g ?grid c ?shard] grids in_shape_length by auto
  then obtain f where f: "grid_loop (evaluate regs0 cm) ?shard stride (sample ?grid) (prod_list ?shard) = Some f"
      "\<And>d. d dvd f \<longleftrightarrow> d dvd prod_list ?shard \<and> (\<forall>g\<in>set (sample ?grid). \<forall>i. 0 < i \<and> i < prod_list ?shard \<and>
         jump (\<lambda>c. compose_map m (g @ c)) ?shard stride i \<longrightarrow> d dvd i)"
    using grid_loop_dvd [of "sample ?grid" ?shard "evaluate regs0 cm" "compose_map m" "prod_list ?shard" stride] sh by auto
  have "calculateCoalescingFactor regs0 m sh stride n = Inr f"
    using ok cm(1,2) f(1) sh(4) by (simp add: calculateCoalescingFactor_def sampled_map_def Let_def volume_prod)
  moreover have "d dvd f \<longleftrightarrow> chunks_contiguous m sh stride n d" for d
    unfolding f(2) chunks_contiguous_def grids jump_def by blast
  ultimately show ?thesis by blast
qed

end
