(* ===== verification/GapModel.thy ===== *)
theory GapModel
  imports Tensors
begin

text \<open>
  \<open>minimizeGap\<close> of \<open>lib/Dialect/D2M/Utils/AffineMapAnalysis.cpp\<close>: how few steps a sum of bounded
  multiples can be away from the next multiple of a target, by dynamic programming over remainders. The
  hash sets are lists without duplicates; the result does not depend on their order.
\<close>

definition insert_new :: "int \<Rightarrow> int list \<Rightarrow> int list" where
  "insert_new x xs = (if x \<in> set xs then xs else x # xs)"

text \<open>The loop over the multiples \<open>n, n + 1, ...\<close> of one multiplier, with its early exit.\<close>

fun gap_multiples :: "int \<Rightarrow> int \<Rightarrow> int \<Rightarrow> nat \<Rightarrow> int \<Rightarrow> int list \<Rightarrow> int list" where
  "gap_multiples targetSum multiplierMod rm 0 n newRemainders = newRemainders"
| "gap_multiples targetSum multiplierMod rm (Suc k) n newRemainders =
     (let new' = insert_new ((rm + multiplierMod * n) smod targetSum) newRemainders
      in if int (length new') = targetSum then new'
         else gap_multiples targetSum multiplierMod rm k (n + 1) new')"

fun gap_remainders :: "int \<Rightarrow> int \<Rightarrow> int \<Rightarrow> int list \<Rightarrow> int list \<Rightarrow> int list" where
  "gap_remainders targetSum multiplierMod bound [] newRemainders = newRemainders"
| "gap_remainders targetSum multiplierMod bound (rm # rms) newRemainders =
     (let new' = gap_multiples targetSum multiplierMod rm (nat (bound + 1)) 0 newRemainders
      in if int (length new') = targetSum then new'
         else gap_remainders targetSum multiplierMod bound rms new')"

text \<open>The outer loop; \<open>None\<close> is the early return of 1.\<close>

fun gap_dims :: "int \<Rightarrow> (int \<times> int) list \<Rightarrow> int list \<Rightarrow> int list option" where
  "gap_dims targetSum [] possible = Some possible"
| "gap_dims targetSum ((m, b) # mbs) possible =
     (let multiplierMod = ((m smod targetSum) + targetSum) smod targetSum;
          new = gap_remainders targetSum multiplierMod b possible []
      in if int (length new) = targetSum then None else gap_dims targetSum mbs new)"

fun best_gap :: "int \<Rightarrow> int list \<Rightarrow> int \<Rightarrow> int" where
  "best_gap targetSum [] bestGap = bestGap"
| "best_gap targetSum (rm # rms) bestGap =
     (let gap = (if rm = 0 then targetSum else targetSum - rm);
          best' = (if gap < bestGap then gap else bestGap)
      in if best' = 1 then best' else best_gap targetSum rms best')"

definition minimizeGap :: "int \<Rightarrow> int list \<Rightarrow> int list \<Rightarrow> int \<Rightarrow> int option" where
  "minimizeGap targetSum multipliers bounds constOffset =
     (if length multipliers \<noteq> length bounds then None
      else case gap_dims targetSum (zip multipliers bounds) [((constOffset smod targetSum) + targetSum) smod targetSum] of
             None \<Rightarrow> Some 1
           | Some possible \<Rightarrow> Some (best_gap targetSum possible targetSum))"

section \<open>Remainders\<close>

lemma smod_wrap: "0 < t \<Longrightarrow> ((x smod t) + t) smod t = x mod t" for x t :: int
proof -
  assume t: "0 < t"
  then have "0 \<le> (x smod t) + t" using smod_int_range [of t x] by auto
  then have "((x smod t) + t) smod t = ((x smod t) + t) mod t" using t by (simp add: smod_mod_positive)
  also have "\<dots> = (x - (x sdiv t) * t) mod t" by (simp add: minus_sdiv_mult_eq_smod)
  also have "\<dots> = x mod t" by (metis minus_mult_div_eq_mod mod_mult_self1 diff_add_cancel mult.commute mod_mult_self4 mod_diff_left_eq add.commute)
  finally show ?thesis .
qed

text \<open>A set of residues, kept without duplicates.\<close>

definition residues :: "int \<Rightarrow> int list \<Rightarrow> int set \<Rightarrow> bool" where
  "residues t xs R \<longleftrightarrow> distinct xs \<and> set xs = R \<and> R \<subseteq> {0..<t}"

lemma residues_full:
  assumes "residues t xs R" "0 < t"
  shows "int (length xs) = t \<longleftrightarrow> R = {0..<t}"
proof -
  have "int (length xs) = int (card R)" using assms by (metis distinct_card residues_def)
  moreover have "card {0..<t} = nat t" by simp
  moreover have "card R = card {0..<t} \<longleftrightarrow> R = {0..<t}"
    using assms by (metis card_subset_eq finite_atLeastLessThan_int residues_def)
  ultimately show ?thesis using assms(2) by auto
qed

lemma residues_insert: "residues t xs R \<Longrightarrow> 0 \<le> x \<Longrightarrow> x < t \<Longrightarrow> residues t (insert_new x xs) (insert x R)"
  by (auto simp: residues_def insert_new_def)

lemma gap_multiples_residues:
  assumes "0 < t" "0 \<le> rm" "0 \<le> m" "0 \<le> n" "residues t new R"
  shows "residues t (gap_multiples t m rm k n new) (R \<union> {(rm + m * j) mod t |j. n \<le> j \<and> j < n + int k})"
  using assms
proof (induction k arbitrary: n new R)
  case 0
  have "R \<union> {(rm + m * j) mod t |j. n \<le> j \<and> j < n + int 0} = R" by auto
  then show ?case using 0 by (simp only: gap_multiples.simps)
next
  case (Suc k)
  let ?x = "(rm + m * n) mod t"
  have x: "(rm + m * n) smod t = ?x" "0 \<le> ?x" "?x < t" using Suc.prems by (simp_all add: smod_mod_positive)
  let ?S = "{(rm + m * j) mod t |j. n + 1 \<le> j \<and> j < n + 1 + int k}"
  have split: "R \<union> {(rm + m * j) mod t |j. n \<le> j \<and> j < n + int (Suc k)} = insert ?x R \<union> ?S"
  proof -
    have "n \<le> j \<and> j < n + int (Suc k) \<longleftrightarrow> j = n \<or> n + 1 \<le> j \<and> j < n + 1 + int k" for j by auto
    then show ?thesis by auto
  qed
  have ins: "residues t (insert_new ?x new) (insert ?x R)" using Suc.prems x by (intro residues_insert)
  show ?case
  proof (cases "int (length (insert_new ?x new)) = t")
    case True
    with residues_full [OF ins Suc.prems(1)] have "insert ?x R = {0..<t}" by simp
    moreover have "?S \<subseteq> {0..<t}" using Suc.prems(1) by auto
    ultimately have "insert ?x R \<union> ?S = insert ?x R" by blast
    then show ?thesis using ins True x split by (simp add: Let_def)
  next
    case False
    then show ?thesis using Suc.IH [OF Suc.prems(1-3) _ ins, of "n + 1"] Suc.prems(4) x split by (simp add: Let_def)
  qed
qed

lemma gap_remainders_residues:
  assumes "0 < t" "0 \<le> m" "0 \<le> b" "\<forall>r\<in>set rms. 0 \<le> r" "residues t new R"
  shows "residues t (gap_remainders t m b rms new) (R \<union> {(r + m * j) mod t |r j. r \<in> set rms \<and> 0 \<le> j \<and> j \<le> b})"
  using assms(4,5)
proof (induction rms arbitrary: new R)
  case (Cons r rms)
  let ?N = "R \<union> {(r + m * j) mod t |j. 0 \<le> j \<and> j < 0 + int (nat (b + 1))}"
  let ?S = "{(r + m * j) mod t |r j. r \<in> set rms \<and> 0 \<le> j \<and> j \<le> b}"
  have new': "residues t (gap_multiples t m r (nat (b + 1)) 0 new) ?N"
    using Cons.prems assms(1,2) by (intro gap_multiples_residues) auto
  have split: "R \<union> {(r' + m * j) mod t |r' j. r' \<in> set (r # rms) \<and> 0 \<le> j \<and> j \<le> b} = ?N \<union> ?S"
    using assms(3) by (auto simp: zle_add1_eq_le)
  show ?case
  proof (cases "int (length (gap_multiples t m r (nat (b + 1)) 0 new)) = t")
    case True
    with residues_full [OF new' assms(1)] have "?N = {0..<t}" by simp
    moreover have "?S \<subseteq> {0..<t}" using assms(1) by auto
    ultimately have "?N \<union> ?S = ?N" by blast
    then show ?thesis unfolding split using new' True by (simp add: Let_def)
  next
    case False
    then show ?thesis unfolding split using Cons.IH [OF _ new'] Cons.prems by (simp add: Let_def)
  qed
qed simp

section \<open>The gap\<close>

text \<open>The sums that the dimensions can reach.\<close>

fun sums :: "(int \<times> int) list \<Rightarrow> int set \<Rightarrow> int set" where
  "sums [] C = C"
| "sums ((m, b) # mbs) C = sums mbs {c + m * j |c j. c \<in> C \<and> 0 \<le> j \<and> j \<le> b}"

lemma sums_mod: "(\<lambda>s. s mod t) ` sums mbs ((\<lambda>s. s mod t) ` C) = (\<lambda>s. s mod t) ` sums mbs C"
proof (induction mbs arbitrary: C)
  case (Cons mb mbs)
  obtain m b where mb: "mb = (m, b)" by (cases mb)
  let ?A = "{c + m * j |c j. c \<in> (\<lambda>s. s mod t) ` C \<and> 0 \<le> j \<and> j \<le> b}"
  let ?B = "{c + m * j |c j. c \<in> C \<and> 0 \<le> j \<and> j \<le> b}"
  have AB: "(\<lambda>s. s mod t) ` ?A = (\<lambda>s. s mod t) ` ?B"
  proof -
    have "(\<lambda>s. s mod t) ` {c + m * j |c j. c \<in> (\<lambda>s. s mod t) ` C \<and> 0 \<le> j \<and> j \<le> b} =
        {(c mod t + m * j) mod t |c j. c \<in> C \<and> 0 \<le> j \<and> j \<le> b}" by blast
    also have "\<dots> = (\<lambda>s. s mod t) ` {c + m * j |c j. c \<in> C \<and> 0 \<le> j \<and> j \<le> b}"
      unfolding mod_add_left_eq by blast
    finally show ?thesis .
  qed
  have "(\<lambda>s. s mod t) ` sums mbs ?A = (\<lambda>s. s mod t) ` sums mbs ((\<lambda>s. s mod t) ` ?A)" by (rule Cons.IH [symmetric])
  also have "\<dots> = (\<lambda>s. s mod t) ` sums mbs ?B" unfolding AB by (rule Cons.IH)
  finally show ?case by (simp only: mb sums.simps)
qed (auto simp: image_image)

lemma sums_iff:
  "s \<in> sums mbs C \<longleftrightarrow> (\<exists>c\<in>C. \<exists>js. length js = length mbs \<and> (\<forall>i<length mbs. 0 \<le> js ! i \<and> js ! i \<le> snd (mbs ! i))
     \<and> s = c + dot (map fst mbs) js)"
proof (induction mbs arbitrary: C)
  case Nil
  then show ?case by (auto simp: dot_def)
next
  case (Cons mb mbs)
  obtain m b where mb: "mb = (m, b)" by (cases mb)
  have "s \<in> sums (mb # mbs) C \<longleftrightarrow> (\<exists>c\<in>C. \<exists>j js. 0 \<le> j \<and> j \<le> b \<and> length js = length mbs \<and>
      (\<forall>i<length mbs. 0 \<le> js ! i \<and> js ! i \<le> snd (mbs ! i)) \<and> s = c + m * j + dot (map fst mbs) js)"
    unfolding mb sums.simps Cons.IH by blast
  also have "\<dots> \<longleftrightarrow> (\<exists>c\<in>C. \<exists>js. length js = length (mb # mbs) \<and>
      (\<forall>i<length (mb # mbs). 0 \<le> js ! i \<and> js ! i \<le> snd ((mb # mbs) ! i)) \<and> s = c + dot (map fst (mb # mbs)) js)"
    (is "?L \<longleftrightarrow> ?R")
  proof
    assume ?L
    then obtain c j js where "c \<in> C" "0 \<le> j" "j \<le> b" "length js = length mbs"
      "\<forall>i<length mbs. 0 \<le> js ! i \<and> js ! i \<le> snd (mbs ! i)" "s = c + m * j + dot (map fst mbs) js" by blast
    then show ?R
      by (intro bexI [of _ c] exI [of _ "j # js"]) (auto simp: mb dot_def nth_Cons split: nat.splits)
  next
    assume ?R
    then obtain c js' where c: "c \<in> C" "length js' = Suc (length mbs)"
      "\<forall>i<Suc (length mbs). 0 \<le> js' ! i \<and> js' ! i \<le> snd ((mb # mbs) ! i)" "s = c + dot (map fst (mb # mbs)) js'" by auto
    then obtain j js where js: "js' = j # js" by (cases js') auto
    have "0 \<le> js ! i \<and> js ! i \<le> snd (mbs ! i)" if "i < length mbs" for i
      using c(3) [rule_format, of "Suc i"] that by (simp add: js)
    moreover have "0 \<le> j \<and> j \<le> b" using c(3) [rule_format, of 0] by (simp add: js mb)
    ultimately show ?L using c js by (intro bexI [of _ c] exI [of _ j] exI [of _ js]) (auto simp: mb dot_def)
  qed
  finally show ?case .
qed

lemma gap_dims_residues:
  assumes "0 < t" "\<forall>(m, b)\<in>set mbs. 0 \<le> b" "residues t possible R"
  shows "(case gap_dims t mbs possible of
      None \<Rightarrow> \<exists>mbs1 mbs2. mbs = mbs1 @ mbs2 \<and> (\<lambda>s. s mod t) ` sums mbs1 R = {0..<t}
    | Some possible' \<Rightarrow> residues t possible' ((\<lambda>s. s mod t) ` sums mbs R))"
  using assms(2,3)
proof (induction mbs arbitrary: possible R)
  case Nil
  have "(\<lambda>s. s mod t) ` R = R" using Nil(2) by (force simp: residues_def)
  then show ?case using Nil by simp
next
  case (Cons mb mbs)
  obtain m b where mb: "mb = (m, b)" "0 \<le> b" using Cons.prems(1) by (cases mb) auto
  let ?new = "gap_remainders t (m mod t) b possible []"
  let ?R = "{(r + m mod t * j) mod t |r j. r \<in> R \<and> 0 \<le> j \<and> j \<le> b}"
  have R: "\<forall>r\<in>set possible. 0 \<le> r" "set possible = R" using Cons.prems(2) by (auto simp: residues_def)
  have new: "residues t ?new ?R"
    using gap_remainders_residues [OF assms(1), of "m mod t" b possible "[]" "{}"] mb R assms(1)
    by (simp add: residues_def)
  have Req: "?R = (\<lambda>s. s mod t) ` {c + m * j |c j. c \<in> R \<and> 0 \<le> j \<and> j \<le> b}"
  proof -
    have "(r + m mod t * j) mod t = (r + m * j) mod t" for r j by (metis mod_add_right_eq mod_mult_left_eq)
    then show ?thesis by (auto simp: image_iff)
  qed
  have unfold: "gap_dims t (mb # mbs) possible = (if int (length ?new) = t then None else gap_dims t mbs ?new)"
    using assms(1) by (simp add: mb smod_wrap Let_def)
  show ?case
  proof (cases "int (length ?new) = t")
    case True
    then have "(\<lambda>s. s mod t) ` sums [mb] R = {0..<t}" using residues_full [OF new assms(1)] Req by (simp add: mb)
    then have "mb # mbs = [mb] @ mbs \<and> (\<lambda>s. s mod t) ` sums [mb] R = {0..<t}" by simp
    then have "\<exists>mbs1 mbs2. mb # mbs = mbs1 @ mbs2 \<and> (\<lambda>s. s mod t) ` sums mbs1 R = {0..<t}" by blast
    then show ?thesis unfolding unfold using True by simp
  next
    case False
    note ih = Cons.IH [OF _ new]
    have eq: "(\<lambda>s. s mod t) ` sums mbs ?R = (\<lambda>s. s mod t) ` sums (mb # mbs) R"
      unfolding Req sums_mod mb by simp
    show ?thesis
    proof (cases "gap_dims t mbs ?new")
      case None
      then obtain mbs1 mbs2 where "mbs = mbs1 @ mbs2" "(\<lambda>s. s mod t) ` sums mbs1 ?R = {0..<t}"
        using ih Cons.prems by auto
      moreover have "(\<lambda>s. s mod t) ` sums mbs1 ?R = (\<lambda>s. s mod t) ` sums (mb # mbs1) R"
        unfolding Req sums_mod mb by simp
      ultimately have "mb # mbs = (mb # mbs1) @ mbs2 \<and> (\<lambda>s. s mod t) ` sums (mb # mbs1) R = {0..<t}" by simp
      then have "\<exists>mbs1 mbs2. mb # mbs = mbs1 @ mbs2 \<and> (\<lambda>s. s mod t) ` sums mbs1 R = {0..<t}" by blast
      then show ?thesis unfolding unfold using None False by simp
    next
      case (Some possible')
      then show ?thesis unfolding unfold using False ih Cons.prems eq by auto
    qed
  qed
qed

lemma best_gap_le: "best_gap t rms g \<le> g"
proof (induction rms arbitrary: g)
  case (Cons r rms)
  show ?case using Cons [of "if r = 0 then t else t - r"] Cons [of g] by (auto simp: Let_def split: if_splits)
qed simp

text \<open>The distance from a sum to the multiple of the target that follows it.\<close>

definition gap_to :: "int \<Rightarrow> int \<Rightarrow> int" where
  "gap_to t s = t - s mod t"

lemma best_gap_min:
  assumes "0 < t" "\<forall>r\<in>set rms. 0 \<le> r \<and> r < t" "0 < g"
  shows "best_gap t rms g = Min (insert g (gap_to t ` set rms))"
  using assms(2,3)
proof (induction rms arbitrary: g)
  case (Cons r rms)
  let ?g = "if r = 0 then t else t - r" and ?G = "gap_to t ` set rms"
  have g: "?g = gap_to t r" "0 < ?g" using Cons.prems assms(1) by (auto simp: gap_to_def)
  let ?b = "if ?g < g then ?g else g"
  have b: "?b = min g ?g" by auto
  have pos: "\<forall>x\<in>?G. 1 \<le> x" using assms(1) by (auto simp: gap_to_def int_one_le_iff_zero_less)
  have "best_gap t (r # rms) g = Min (insert ?b ?G)"
  proof (cases "?b = 1")
    case True
    then have "Min (insert ?b ?G) = 1" using pos by (intro Min_eqI) auto
    then show ?thesis using True by (simp add: Let_def)
  next
    case False
    then have "best_gap t (r # rms) g = best_gap t rms ?b" by (simp add: Let_def)
    then show ?thesis using Cons.IH [of ?b] Cons.prems g by auto
  qed
  also have "\<dots> = Min (insert g (insert ?g ?G))" unfolding b
    by (cases "set rms = {}") (simp_all add: min.assoc)
  finally show ?case using g by simp
qed simp

lemma sums_nonempty: "C \<noteq> {} \<Longrightarrow> \<forall>(m, b)\<in>set mbs. 0 \<le> b \<Longrightarrow> sums mbs C \<noteq> {}"
proof (induction mbs arbitrary: C)
  case (Cons mb mbs)
  obtain m b where mb: "mb = (m, b)" "0 \<le> b" using Cons.prems(2) by (cases mb) auto
  obtain c where "c \<in> C" using Cons.prems(1) by blast
  then have "c + m * 0 \<in> {c + m * j |c j. c \<in> C \<and> 0 \<le> j \<and> j \<le> b}" using mb(2) by blast
  then show ?case unfolding mb sums.simps using Cons.prems(2) by (intro Cons.IH) auto
qed simp

lemma sums_append: "sums (xs @ ys) C = sums ys (sums xs C)"
  by (induction xs arbitrary: C) auto

lemma sums_full:
  assumes "0 < t" "(\<lambda>s. s mod t) ` C = {0..<t}" "\<forall>(m, b)\<in>set mbs. 0 \<le> b"
  shows "(\<lambda>s. s mod t) ` sums mbs C = {0..<t}"
  using assms(2,3)
proof (induction mbs arbitrary: C)
  case (Cons mb mbs)
  obtain m b where mb: "mb = (m, b)" "0 \<le> b" using Cons.prems(2) by (cases mb) auto
  let ?D = "{c + m * j |c j. c \<in> C \<and> 0 \<le> j \<and> j \<le> b}"
  have "C \<subseteq> ?D"
  proof
    fix c
    assume "c \<in> C"
    then have "c + m * 0 \<in> ?D" using mb(2) by blast
    then show "c \<in> ?D" by (simp only: mult_zero_right add_0_right)
  qed
  then have "(\<lambda>s. s mod t) ` C \<subseteq> (\<lambda>s. s mod t) ` ?D" by (rule image_mono)
  then have "{0..<t} \<subseteq> (\<lambda>s. s mod t) ` ?D" unfolding Cons.prems(1) .
  moreover have "(\<lambda>s. s mod t) ` ?D \<subseteq> {0..<t}" using assms(1) by (simp add: image_subset_iff)
  ultimately have "(\<lambda>s. s mod t) ` ?D = {0..<t}" by (rule subset_antisym [rotated])
  then show ?case unfolding mb sums.simps using Cons.prems(2) by (intro Cons.IH) auto
qed simp

lemma minimizeGap_min:
  assumes "0 < t" "length ms = length bs" "\<forall>b\<in>set bs. 0 \<le> b"
  shows "minimizeGap t ms bs c = Some (Min (gap_to t ` sums (zip ms bs) {c}))"
proof -
  let ?mbs = "zip ms bs" and ?S = "sums (zip ms bs) {c}" and ?mod = "\<lambda>s. s mod t"
  have nb: "\<forall>(m, b)\<in>set ?mbs. 0 \<le> b" using assms(3) by (auto dest: set_zip_rightD)
  have "residues t [c mod t] {c mod t}" using assms(1) by (simp add: residues_def)
  note res = gap_dims_residues [OF assms(1) nb this]
  have modS: "?mod ` sums ?mbs {c mod t} = ?mod ` ?S" using sums_mod [of t ?mbs "{c}"] by simp
  have gaps: "gap_to t ` ?S = (\<lambda>r. t - r) ` (?mod ` ?S)" by (simp add: gap_to_def image_image)
  have sub: "?mod ` ?S \<subseteq> {0..<t}" using assms(1) by (simp add: image_subset_iff)
  then have fin: "finite (?mod ` ?S)" "?mod ` ?S \<noteq> {}" "?mod ` ?S \<subseteq> {0..<t}"
    using sums_nonempty [OF _ nb, of "{c}"] finite_subset [OF sub] by auto
  show ?thesis
  proof (cases "gap_dims t ?mbs [c mod t]")
    case None
    then obtain mbs1 mbs2 where split: "?mbs = mbs1 @ mbs2" "?mod ` sums mbs1 {c mod t} = {0..<t}" using res by auto
    have "?mod ` sums ?mbs {c mod t} = {0..<t}"
      unfolding split(1) sums_append using nb split by (intro sums_full [OF assms(1) split(2)]) auto
    then have "gap_to t ` ?S = (\<lambda>r. t - r) ` {0..<t}" using gaps modS by simp
    moreover have "Min ((\<lambda>r. t - r) ` {0..<t}) = 1" using assms(1) by (intro Min_eqI) (auto intro!: image_eqI [of _ _ "t - 1"])
    ultimately show ?thesis using None assms by (simp add: minimizeGap_def smod_wrap)
  next
    case (Some possible)
    then have p: "set possible = ?mod ` ?S" using res modS by (auto simp: residues_def)
    have "best_gap t possible t = Min (insert t (gap_to t ` (?mod ` ?S)))"
      using best_gap_min [OF assms(1), of possible t] p fin(3) assms(1) by auto
    also have "gap_to t ` (?mod ` ?S) = gap_to t ` ?S" by (simp add: gap_to_def image_image)
    also have "Min (insert t (gap_to t ` ?S)) = Min (gap_to t ` ?S)"
    proof -
      obtain x where "x \<in> gap_to t ` ?S" using fin(2) by auto
      moreover have "finite (gap_to t ` ?S)" using fin(1) gaps by simp
      moreover have "x \<le> t" if "x \<in> gap_to t ` ?S" for x using that assms(1) by (auto simp: gap_to_def)
      ultimately have "Min (gap_to t ` ?S) \<le> t" by (metis Min_le order_trans)
      then show ?thesis using \<open>x \<in> gap_to t ` ?S\<close> \<open>finite (gap_to t ` ?S)\<close> by (subst Min_insert) auto
    qed
    finally show ?thesis using Some assms by (simp add: minimizeGap_def smod_wrap)
  qed
qed

end
