(* ===== verification/AffineProps.thy ===== *)
theory AffineProps
  imports AffineReblock AffineRange Coalesce GapModel
begin

text \<open>
  The properties of affine maps: the compiled evaluator, the coalescing factor, the range
  simplifications, the gap search, reblocking and virtual grids. MLIR's operators are any record of
  functions with the documented meaning (\<open>legal_affine\<close>).
\<close>

section \<open>Compiled maps and coalescing\<close>

text \<open>C9: \<open>CompiledAffineMap\<close> compiles every map without symbols that has at most \<open>kMaxRegs\<close> nodes,
  and running the code gives the value of the map: truncating 64-bit division with its fix-ups is floor
  division and mod, shifts and masks stand for powers of two, and shared expressions are computed once.
  The initial content of the registers does not matter.\<close>

theorem compiled_map_correct:
  assumes "list_all (syms_below 0) (results m)" "sum_list (map nodes (results m)) \<le> kMaxRegs"
    "list_all (divisors_ok inputs) (results m)"
  shows "\<exists>cm. compile_map m = Inr cm \<and> evaluate regs0 cm inputs = Some (compose_map m inputs)"
  using compile_map_total [of m] compile_map_sound [of m _ inputs regs0] assms by (auto simp: list_all_iff)

text \<open>A map with a floor division, a ceiling division by 3 and a remainder of a negative number.\<close>

definition tiled_row :: affine_map where
  "tiled_row = \<lparr>numDims = 2, numSymbols = 0, results =
     [DimE 0, BinE AddK (BinE MulK (BinE FloorDivK (DimE 1) (ConstE 2)) (ConstE 8)) (BinE ModK (DimE 1) (ConstE 2))]\<rparr>"

definition signed_map :: affine_map where
  "signed_map = \<lparr>numDims = 2, numSymbols = 0, results =
     [BinE ModK (BinE MulK (DimE 0) (ConstE (- 1))) (ConstE 4), BinE CeilDivK (DimE 1) (ConstE 3),
      BinE FloorDivK (BinE MulK (DimE 0) (ConstE (- 1))) (ConstE 3)]\<rparr>"

theorem compiled_map_correct_witness:
  "\<exists>cm. compile_map signed_map = Inr cm \<and> evaluate (\<lambda>_. 0) cm [5, 7] = Some [3, 3, - 2]"
  using compiled_map_correct [of signed_map "[5, 7]" "\<lambda>_. 0"]
  by (simp add: signed_map_def compose_map_def kMaxRegs_def)

text \<open>C10: With at least one grid dimension, the coalescing factor is the largest transfer size: the
  numbers of elements that tile every shard with contiguous transfers are exactly its divisors.\<close>

theorem coalescing_factor_greatest:
  assumes "sampled_map m sh numGridDims" "0 < numGridDims"
  shows "\<exists>f. calculateCoalescingFactor regs0 m sh stride numGridDims = Inr f \<and>
    (\<forall>d. chunks_contiguous m sh stride numGridDims d \<longleftrightarrow> d dvd f)"
  using coalescing_factor_dvd [OF assms, of regs0 stride] by fastforce

theorem coalescing_factor_greatest_witness:
  "chunks_contiguous tiled_row [2, 4] 1 1 2 \<and> \<not> chunks_contiguous tiled_row [2, 4] 1 1 4"
proof -
  have "sampled_map tiled_row [2, 4] 1"
    by (simp add: sampled_map_def tiled_row_def static_shape_def kMaxRegs_def)
  moreover have "calculateCoalescingFactor (\<lambda>_. 0) tiled_row [2, 4] 1 1 = Inr 2" by code_simp
  ultimately show ?thesis using coalescing_factor_greatest [of tiled_row "[2, 4]" 1 "\<lambda>_. 0" 1] by auto
qed

text \<open>Without grid dimensions, which is the default argument, the sampling loop is not entered:
  whatever the map, the result is the volume of the shape, although the comment promises 1 for a
  column-major layout.\<close>

theorem coalescing_without_grid_dims:
  assumes "sampled_map m sh 0"
  shows "calculateCoalescingFactor regs0 m sh stride 0 = Inr (prod_list sh)"
proof -
  obtain cm where "compile_map m = Inr cm" "length (cm_resultRegs cm) \<le> 16"
    using sampled_map_compiled [OF assms] by metis
  then show ?thesis using assms
    by (auto simp: calculateCoalescingFactor_def sampled_map_def volume_prod sample_def)
qed

definition column_major :: affine_map where
  "column_major = \<lparr>numDims = 2, numSymbols = 0, results = [BinE AddK (BinE MulK (DimE 1) (ConstE 2)) (DimE 0)]\<rparr>"

theorem coalescing_without_grid_dims_witness:
  "calculateCoalescingFactor (\<lambda>_. 0) column_major [2, 4] 1 0 = Inr 8 \<and> \<not> chunks_contiguous column_major [2, 4] 1 0 8"
proof -
  have "sampled_map column_major [2, 4] 0"
    by (simp add: sampled_map_def column_major_def static_shape_def kMaxRegs_def)
  from coalescing_without_grid_dims [OF this, of "\<lambda>_. 0" 1]
  have "calculateCoalescingFactor (\<lambda>_. 0) column_major [2, 4] 1 0 = Inr 8" by simp
  moreover have "compose_map column_major (linearIdToCoord 1 [2, 4])
      \<noteq> bump 1 (compose_map column_major (linearIdToCoord 0 [2, 4]))" by code_simp
  then have "\<not> chunks_contiguous column_major [2, 4] 1 0 8"
    unfolding chunks_contiguous_def by (auto simp: in_shape_def intro!: exI [of _ "[]"] exI [of _ 1])
  ultimately show ?thesis ..
qed

section \<open>Simplification\<close>

text \<open>C11: Simplifying a map by the ranges of its dimensions keeps its value at every point of the ranges,
  so the exhaustive equivalence check never fires: the result is the same with the check and without.\<close>

theorem range_simplification_sound:
  assumes "legal_affine ops" "numDims m = length bounds" "static_shape bounds"
    "\<And>c e. in_shape c bounds \<Longrightarrow> e \<in> set (results m) \<Longrightarrow> divisors_pos c [] e"
  shows "\<exists>m'. simplifyAffineMapWithRangeAnalysis ops m bounds True = Some m' \<and>
    simplifyAffineMapWithRangeAnalysis ops m bounds False = Some m' \<and>
    (\<forall>c. in_shape c bounds \<longrightarrow> compose_map m' c = compose_map m c)"
  using simplify_map_checked [OF assms(1,2,3), of True] assms(4) by fastforce

definition redundant_mod :: affine_map where
  "redundant_mod = \<lparr>numDims = 2, numSymbols = 0, results =
     [BinE FloorDivK (BinE AddK (DimE 0) (DimE 1)) (ConstE 8), BinE ModK (DimE 1) (ConstE 4), BinE ModK (DimE 0) (ConstE 2)]\<rparr>"

theorem range_simplification_sound_witness:
  "\<exists>m'. simplifyAffineMapWithRangeAnalysis folding_ops redundant_mod [3, 4] True = Some m' \<and>
     compose_map m' [2, 3] = compose_map redundant_mod [2, 3] \<and>
     results m' = [ConstE 0, DimE 1, BinE ModK (DimE 0) (ConstE 2)]"
proof -
  have "\<exists>m'. simplifyAffineMapWithRangeAnalysis folding_ops redundant_mod [3, 4] True = Some m' \<and>
    simplifyAffineMapWithRangeAnalysis folding_ops redundant_mod [3, 4] False = Some m' \<and>
    (\<forall>c. in_shape c [3, 4] \<longrightarrow> compose_map m' c = compose_map redundant_mod c)"
    by (rule range_simplification_sound [OF legal_folding]) (auto simp: redundant_mod_def static_shape_def)
  moreover have "in_shape [2, 3] [3, 4]" by (simp add: in_shape_def)
  moreover have "map_option results (simplifyAffineMapWithRangeAnalysis folding_ops redundant_mod [3, 4] False)
      = Some [ConstE 0, DimE 1, BinE ModK (DimE 0) (ConstE 2)]" by code_simp
  ultimately show ?thesis by auto
qed

text \<open>Dropping floor divisions by the sum of moduli is wrong for a negative factor: the bound is then
  the least value and not the greatest, and \<open>((d0 mod 4) * -1) floordiv 2\<close> becomes 0.\<close>

theorem zero_floordiv_negative_wrong:
  "simplifyZeroFloorDivExpr folding_ops negative_division = ConstE 0 \<and>
   eval_expr [1] [] (simplifyZeroFloorDivExpr folding_ops negative_division) = 0 \<and>
   eval_expr [1] [] negative_division = - 1"
  by (simp add: zero_division_unsound)

section \<open>Gaps\<close>

text \<open>\<open>minimizeGap\<close> returns the least distance to the next multiple of the target over all sums of
  the offset and a multiple of each multiplier within its bound; skipping residues that are already
  reached loses nothing.\<close>

theorem minimizeGap_exact:
  assumes "0 < targetSum" "length multipliers = length bounds" "list_all (\<lambda>b. 0 \<le> b) bounds"
  shows "\<exists>gap. minimizeGap targetSum multipliers bounds constOffset = Some gap \<and>
    (\<exists>s\<in>sums (zip multipliers bounds) {constOffset}. gap = targetSum - s mod targetSum) \<and>
    \<not> (\<exists>s\<in>sums (zip multipliers bounds) {constOffset}. targetSum - s mod targetSum < gap)"
proof -
  let ?G = "gap_to targetSum ` sums (zip multipliers bounds) {constOffset}"
  have b: "\<forall>b\<in>set bounds. 0 \<le> b" using assms(3) by (simp add: list_all_iff)
  have "1 \<le> gap_to targetSum s \<and> gap_to targetSum s \<le> targetSum" for s
    using pos_mod_bound [OF assms(1), of s] pos_mod_sign [OF assms(1), of s] by (simp add: gap_to_def)
  then have "?G \<subseteq> {1..targetSum}" by auto
  then have "finite ?G" by (rule finite_subset) simp
  moreover have "?G \<noteq> {}" using sums_nonempty [of "{constOffset}" "zip multipliers bounds"] b by (auto dest: set_zip_rightD)
  ultimately have "Min ?G \<in> ?G" "\<not> (\<exists>g\<in>?G. g < Min ?G)" by (auto simp: not_less)
  then show ?thesis using minimizeGap_min [OF assms(1,2) b] by (auto simp: gap_to_def)
qed

theorem minimizeGap_exact_witness:
  "\<exists>s\<in>sums [(4, 2), (6, 1)] {1}. 1 = 16 - s mod (16 :: int)"
proof -
  have "minimizeGap 16 [4, 6] [2, 1] 1 = Some 1" by code_simp
  then show ?thesis using minimizeGap_exact [of 16 "[4, 6]" "[2, 1]" 1] by auto
qed

section \<open>Reblocking and virtual grids\<close>

text \<open>C23: Moving a tensor to another grid of shards is a bijection between the coordinates of the two
  layouts, and an element keeps its physical coordinate, grid index times shard size plus shard index
  in every dimension.\<close>

theorem reblock_keeps_physical:
  assumes "legal_affine ops" "calculateReblockShapeForGrid sh grid = Some new"
    "static_shape sh" "list_all (\<lambda>g. g > 0) grid" "grid \<noteq> []"
  shows "\<exists>m. calculateReblockMapForGrid ops sh grid = Some (new, m) \<and>
    (\<forall>c. in_shape c new \<longrightarrow> phys_coord sh (compose_map m c) = phys_coord new c) \<and>
    bij_betw (compose_map m) {c. in_shape c new} {c. in_shape c sh}"
  using affine_builder.reblock_bijection [OF affine_builder.intro [OF assms(1)] assms(2-)] .

theorem reblock_keeps_physical_witness:
  "\<exists>m. calculateReblockMapForGrid folding_ops [2, 1, 2, 3] [4, 3] = Some ([4, 3, 1, 1], m) \<and>
     bij_betw (compose_map m) {c. in_shape c [4, 3, 1, 1]} {c. in_shape c [2, 1, 2, 3]}"
proof -
  have "calculateReblockShapeForGrid [2, 1, 2, 3] [4, 3] = Some [4, 3, 1, 1]" by code_simp
  from reblock_keeps_physical [OF legal_folding this] show ?thesis by (auto simp: static_shape_def)
qed

text \<open>C37: On the cores of a virtual grid that fits the device, the forward map of \<open>createCoreVirtMaps\<close>
  names a core of the target grid and keeps the shard coordinate, and the inverse map leads back to the
  virtual core, on device 0.\<close>

theorem core_virt_roundtrip:
  assumes "legal_affine ops" "createCoreVirtMaps ops virtualGrid targetGrid = Some (fwd, bwd)"
    "prod_list virtualGrid \<le> prod_list targetGrid" "in_shape c virtualGrid" "length s = length virtualGrid"
  shows "\<exists>core. in_shape core targetGrid \<and> compose_map fwd (c @ s) = core @ s \<and> compose_map bwd core = 0 # c"
  using affine_builder.core_virt_inverse [OF affine_builder.intro [OF assms(1)] assms(2,4,5,3)] .

theorem core_virt_roundtrip_witness:
  "\<exists>fwd bwd core. createCoreVirtMaps folding_ops [1, 6] [2, 3] = Some (fwd, bwd) \<and>
     compose_map fwd [0, 4, 7, 9] = core @ [7, 9] \<and> compose_map bwd core = [0, 0, 4]"
proof -
  obtain fwd bwd where m: "createCoreVirtMaps folding_ops [1, 6] [2, 3] = Some (fwd, bwd)"
    by (auto simp: createCoreVirtMaps_def create1DtoNDMap_def)
  have "in_shape [0, 4] [1, 6]" by (simp add: in_shape_def)
  from core_virt_roundtrip [OF legal_folding m _ this, of "[7, 9]"] m show ?thesis by auto
qed

end
