(* ===== verification/Contiguity.thy ===== *)
theory Contiguity
  imports AffineRange GapModel Coalesce
begin

text \<open>
  The analytic coalescing factor of \<open>lib/Dialect/D2M/Utils/AffineMapAnalysis.cpp\<close>: how long a
  dimension can advance before a result of the map jumps, by recursion over expressions, instead of
  sampling every element. \<open>None\<close> is a failed assertion, a division by zero, or fuel that ran out: the
  analyses of expressions recurse on expressions that MLIR's operators, the parameter \<open>ops\<close>, have
  built.
\<close>

section \<open>Bounds\<close>

datatype contiguity_bound = UnconstrainedBound | ConstrainedBound int | UnanalyzableBound

definition getBoundValue :: "contiguity_bound \<Rightarrow> int option" where
  "getBoundValue b = (case b of UnconstrainedBound \<Rightarrow> None | UnanalyzableBound \<Rightarrow> Some 1 | ConstrainedBound k \<Rightarrow> Some k)"

fun exprContainsDim :: "affine_expr \<Rightarrow> nat \<Rightarrow> bool" where
  "exprContainsDim (DimE i) d \<longleftrightarrow> i = d"
| "exprContainsDim (BinE kind l r) d \<longleftrightarrow> exprContainsDim l d \<or> exprContainsDim r d"
| "exprContainsDim e d \<longleftrightarrow> False"

fun collectSumOperands :: "affine_expr \<Rightarrow> affine_expr list" where
  "collectSumOperands (BinE AddK l r) = collectSumOperands l @ collectSumOperands r"
| "collectSumOperands e = [e]"

text \<open>\<open>DenseMap::lookup\<close> gives 0 for a missing key.\<close>

definition dim_bound :: "int list \<Rightarrow> nat \<Rightarrow> int" where
  "dim_bound dimBounds i = (if i < length dimBounds then dimBounds ! i else 0)"

definition checkBoundsAndReturn :: "int list \<Rightarrow> nat \<Rightarrow> int \<Rightarrow> contiguity_bound" where
  "checkBoundsAndReturn dimBounds dimPos stepsNeeded =
     (if stepsNeeded \<ge> dim_bound dimBounds dimPos then UnconstrainedBound else ConstrainedBound stepsNeeded)"

text \<open>The bound of a sum: the gcd of what constrains its operands.\<close>

definition combine_sum :: "contiguity_bound \<Rightarrow> contiguity_bound \<Rightarrow> contiguity_bound" where
  "combine_sum lhsBound rhsBound =
     (case (getBoundValue lhsBound, getBoundValue rhsBound) of
        (None, _) \<Rightarrow> rhsBound
      | (Some a, None) \<Rightarrow> lhsBound
      | (Some a, Some b) \<Rightarrow> ConstrainedBound (gcd a b))"

section \<open>Strides\<close>

fun analyzeExprForDimStride :: "affine_expr \<Rightarrow> nat \<Rightarrow> int option" where
  "analyzeExprForDimStride (ConstE k) dimPos = Some 0"
| "analyzeExprForDimStride (DimE i) dimPos = Some (if i = dimPos then 1 else 0)"
| "analyzeExprForDimStride (SymE i) dimPos = Some (- 1)"
| "analyzeExprForDimStride (BinE kind l r) dimPos =
     (case kind of
        AddK \<Rightarrow> (case (analyzeExprForDimStride l dimPos, analyzeExprForDimStride r dimPos) of
            (Some a, Some b) \<Rightarrow> Some (if a < 0 \<or> b < 0 then - 1 else a + b)
          | _ \<Rightarrow> None)
      | MulK \<Rightarrow> (case r of
            ConstE k \<Rightarrow> map_option (\<lambda>a. if a < 0 then - 1 else a * k) (analyzeExprForDimStride l dimPos)
          | _ \<Rightarrow> None)
      | ModK \<Rightarrow> analyzeExprForDimStride l dimPos
      | _ \<Rightarrow> (case r of
            ConstE k \<Rightarrow>
              if k \<le> 0 then Some (- 1)
              else map_option (\<lambda>a. if a < 0 then - 1 else if a < k then 0 else a sdiv k) (analyzeExprForDimStride l dimPos)
          | _ \<Rightarrow> Some (- 1)))"

section \<open>Sums\<close>

text \<open>The operands of a sum under a mod or a floor division: the multiplier of the target dimension, the
  other dimensions with theirs, and the constants.\<close>

record sum_state =
  targetMultiplier :: int
  foundTargetDim :: bool
  otherDimInfo :: "(nat \<times> int) list"
  constSum :: int

definition add_dim :: "nat \<Rightarrow> nat \<Rightarrow> int \<Rightarrow> sum_state \<Rightarrow> sum_state" where
  "add_dim dimPos i mulValue st =
     (if i = dimPos then st\<lparr>foundTargetDim := True, targetMultiplier := mulValue\<rparr>
      else st\<lparr>otherDimInfo := otherDimInfo st @ [(i, mulValue)]\<rparr>)"

text \<open>The steps until the sum reaches the next multiple of \<open>modulus\<close>.\<close>

definition sum_steps :: "int list \<Rightarrow> int \<Rightarrow> sum_state \<Rightarrow> int option" where
  "sum_steps dimBounds modulus st =
     (let gap = (if otherDimInfo st = []
                 then Some (if constSum st smod modulus = 0 then modulus else modulus - constSum st smod modulus)
                 else minimizeGap modulus (map snd (otherDimInfo st))
                        (map (\<lambda>(i, _). dim_bound dimBounds i - 1) (otherDimInfo st)) (constSum st))
      in map_option (\<lambda>g. (g + targetMultiplier st - 1) sdiv targetMultiplier st) gap)"

text \<open>One operand under a mod; \<open>None\<close> is the early return of an unanalyzable bound.\<close>

definition shard_sum_operand :: "int list \<Rightarrow> nat \<Rightarrow> affine_expr \<Rightarrow> sum_state \<Rightarrow> sum_state option" where
  "shard_sum_operand dimBounds dimPos e st =
     (let skip = (if exprContainsDim e dimPos then None else Some st);
          dim = (\<lambda>i k. if i = dimPos \<and> foundTargetDim st then None else Some (add_dim dimPos i k st))
      in case e of
           ConstE k \<Rightarrow> Some (st\<lparr>constSum := constSum st + k\<rparr>)
         | DimE i \<Rightarrow> dim i 1
         | BinE MulK (DimE i) (ConstE k) \<Rightarrow> dim i k
         | BinE FloorDivK (DimE i) (ConstE k) \<Rightarrow> if dim_bound dimBounds i \<le> k then Some st else skip
         | _ \<Rightarrow> skip)"

fun shard_sum :: "int list \<Rightarrow> nat \<Rightarrow> affine_expr list \<Rightarrow> sum_state \<Rightarrow> sum_state option" where
  "shard_sum dimBounds dimPos [] st = Some st"
| "shard_sum dimBounds dimPos (e # es) st =
     (case shard_sum_operand dimBounds dimPos e st of None \<Rightarrow> None | Some st' \<Rightarrow> shard_sum dimBounds dimPos es st')"

definition empty_sum :: sum_state where
  "empty_sum = \<lparr>targetMultiplier = 0, foundTargetDim = False, otherDimInfo = [], constSum = 0\<rparr>"

definition shard_sum_bound :: "int list \<Rightarrow> nat \<Rightarrow> affine_expr \<Rightarrow> int \<Rightarrow> contiguity_bound option" where
  "shard_sum_bound dimBounds dimPos lhs modulus =
     (case shard_sum dimBounds dimPos (collectSumOperands lhs) empty_sum of
        None \<Rightarrow> Some UnanalyzableBound
      | Some st \<Rightarrow>
          if foundTargetDim st \<and> targetMultiplier st > 0
          then if constSum st < 0 then Some UnanalyzableBound
               else map_option (checkBoundsAndReturn dimBounds dimPos) (sum_steps dimBounds modulus st)
          else Some UnconstrainedBound)"

section \<open>Shard results\<close>

text \<open>A mod or division of a mod or floor division; \<open>analyze\<close> is the recursive call.\<close>

definition nested_shard ::
  "affine_ops \<Rightarrow> (affine_expr \<Rightarrow> int option \<Rightarrow> contiguity_bound option) \<Rightarrow> nat \<Rightarrow> binary_kind \<Rightarrow>
     binary_kind \<Rightarrow> affine_expr \<Rightarrow> affine_expr \<Rightarrow> int \<Rightarrow> contiguity_bound option" where
  "nested_shard ops analyze dimPos kind lhsKind x y modulus =
     (if \<not> exprContainsDim x dimPos then Some UnconstrainedBound
      else case y of
             ConstE inner \<Rightarrow>
               (case (lhsKind, kind) of
                  (FloorDivK, FloorDivK) \<Rightarrow> analyze (floorDivE ops x (ConstE (inner * modulus))) (Some (inner * modulus))
                | (ModK, ModK) \<Rightarrow> analyze (modE ops x (ConstE (min inner modulus))) (Some (min inner modulus))
                | (ModK, FloorDivK) \<Rightarrow> if inner \<le> modulus then Some UnconstrainedBound else analyze (BinE lhsKind x y) None
                | (FloorDivK, ModK) \<Rightarrow> analyze (BinE lhsKind x y) (Some modulus)
                | _ \<Rightarrow> Some UnconstrainedBound)
           | _ \<Rightarrow> None)"

definition mul_constant :: "affine_expr \<Rightarrow> affine_expr \<Rightarrow> int option" where
  "mul_constant l r =
     (case r of ConstE k \<Rightarrow> Some k | _ \<Rightarrow> (case l of ConstE k \<Rightarrow> Some k | _ \<Rightarrow> None))"

definition mul_bound :: "contiguity_bound \<Rightarrow> int option \<Rightarrow> int \<Rightarrow> contiguity_bound option" where
  "mul_bound lhsBound parentModulus constVal =
     (case lhsBound of
        ConstrainedBound k \<Rightarrow> Some lhsBound
      | UnanalyzableBound \<Rightarrow> Some UnanalyzableBound
      | UnconstrainedBound \<Rightarrow>
          (case parentModulus of
             None \<Rightarrow> Some UnconstrainedBound
           | Some p \<Rightarrow> if constVal = 0 then None
                       else if p smod constVal = 0 then Some (ConstrainedBound (p sdiv constVal))
                       else Some UnanalyzableBound))"

fun analyzeShardResultExprForContiguity ::
  "affine_ops \<Rightarrow> int list \<Rightarrow> nat \<Rightarrow> nat \<Rightarrow> affine_expr \<Rightarrow> int option \<Rightarrow> contiguity_bound option" where
  "analyzeShardResultExprForContiguity ops dimBounds dimPos 0 e parentModulus = None"
| "analyzeShardResultExprForContiguity ops dimBounds dimPos (Suc n) e parentModulus =
     (let analyze = analyzeShardResultExprForContiguity ops dimBounds dimPos n
      in case e of
           ConstE k \<Rightarrow> Some (if k < 0 then UnanalyzableBound else UnconstrainedBound)
         | DimE i \<Rightarrow> Some UnconstrainedBound
         | SymE i \<Rightarrow> Some UnanalyzableBound
         | BinE AddK l r \<Rightarrow>
             (case (analyze l parentModulus, analyze r parentModulus) of
                (Some lb, Some rb) \<Rightarrow> Some (combine_sum lb rb)
              | _ \<Rightarrow> None)
         | BinE MulK l r \<Rightarrow>
             (case mul_constant l r of
                None \<Rightarrow> Some UnanalyzableBound
              | Some constVal \<Rightarrow>
                  if constVal < 0 then Some UnanalyzableBound
                  else case analyze l parentModulus of
                         None \<Rightarrow> None
                       | Some lhsBound \<Rightarrow> mul_bound lhsBound parentModulus constVal)
         | BinE kind l (ConstE modulus) \<Rightarrow>
             if modulus \<le> 0 then Some UnanalyzableBound
             else (case l of
                     BinE ModK x y \<Rightarrow> nested_shard ops analyze dimPos kind ModK x y modulus
                   | BinE FloorDivK x y \<Rightarrow> nested_shard ops analyze dimPos kind FloorDivK x y modulus
                   | DimE i \<Rightarrow> Some (if i = dimPos then checkBoundsAndReturn dimBounds dimPos modulus else UnconstrainedBound)
                   | BinE AddK x y \<Rightarrow> shard_sum_bound dimBounds dimPos l modulus
                   | _ \<Rightarrow> analyze l (Some modulus))
         | _ \<Rightarrow> None)"

section \<open>Grid results\<close>

text \<open>One operand of a sum under a division: the state, or the bound to return at once.\<close>

definition grid_sum_operand ::
  "(affine_expr \<Rightarrow> contiguity_bound option) \<Rightarrow> nat \<Rightarrow> affine_expr \<Rightarrow> sum_state \<Rightarrow>
     (contiguity_bound option, sum_state) result" where
  "grid_sum_operand analyze dimPos e st =
     (case e of
        ConstE k \<Rightarrow> Inr (st\<lparr>constSum := constSum st + k\<rparr>)
      | DimE i \<Rightarrow> if i = dimPos \<and> foundTargetDim st then Inl (Some UnanalyzableBound) else Inr (add_dim dimPos i 1 st)
      | BinE MulK (DimE i) (ConstE k) \<Rightarrow> Inr (add_dim dimPos i k st)
      | BinE MulK l r \<Rightarrow> Inl (if exprContainsDim e dimPos then analyze e else Some UnanalyzableBound)
      | _ \<Rightarrow> Inl (Some UnanalyzableBound))"

fun grid_sum ::
  "(affine_expr \<Rightarrow> contiguity_bound option) \<Rightarrow> nat \<Rightarrow> affine_expr list \<Rightarrow> sum_state \<Rightarrow>
     (contiguity_bound option, sum_state) result" where
  "grid_sum analyze dimPos [] st = Inr st"
| "grid_sum analyze dimPos (e # es) st =
     (case grid_sum_operand analyze dimPos e st of Inl b \<Rightarrow> Inl b | Inr st' \<Rightarrow> grid_sum analyze dimPos es st')"

text \<open>The pass over the operands that are floor divisions of the target dimension: whether there is one,
  whether the dimension is also somewhere else, and the bound of the last fused division.\<close>

fun fused_divisions ::
  "affine_ops \<Rightarrow> (affine_expr \<Rightarrow> contiguity_bound option) \<Rightarrow> nat \<Rightarrow> int \<Rightarrow> affine_expr list \<Rightarrow>
     bool \<Rightarrow> bool \<Rightarrow> contiguity_bound \<Rightarrow> (bool \<times> bool \<times> contiguity_bound) option" where
  "fused_divisions ops analyze dimPos divisor [] nested other fused = Some (nested, other, fused)"
| "fused_divisions ops analyze dimPos divisor (e # es) nested other fused =
     (case e of
        BinE FloorDivK l r \<Rightarrow>
          if \<not> exprContainsDim l dimPos then fused_divisions ops analyze dimPos divisor es nested other fused
          else (case r of
                  ConstE inner \<Rightarrow>
                    (case analyze (floorDivE ops l (ConstE (divisor * inner))) of
                       None \<Rightarrow> None
                     | Some fused' \<Rightarrow> fused_divisions ops analyze dimPos divisor es True other fused')
                | _ \<Rightarrow> fused_divisions ops analyze dimPos divisor es True other fused)
      | _ \<Rightarrow> fused_divisions ops analyze dimPos divisor es nested (other \<or> exprContainsDim e dimPos) fused)"

definition grid_sum_bound ::
  "affine_ops \<Rightarrow> (affine_expr \<Rightarrow> contiguity_bound option) \<Rightarrow> int list \<Rightarrow> nat \<Rightarrow> affine_expr \<Rightarrow> int \<Rightarrow>
     contiguity_bound option" where
  "grid_sum_bound ops analyze dimBounds dimPos lhs divisor =
     (let operands = collectSumOperands lhs
      in if \<not> exprContainsDim lhs dimPos then Some UnconstrainedBound
         else case fused_divisions ops analyze dimPos divisor operands False False UnanalyzableBound of
                None \<Rightarrow> None
              | Some (nested, other, fused) \<Rightarrow>
                  if nested \<and> \<not> other then Some fused
                  else if length (filter (\<lambda>e. e = DimE dimPos) operands) > 1 then Some UnanalyzableBound
                  else case grid_sum analyze dimPos operands empty_sum of
                         Inl b \<Rightarrow> b
                       | Inr st \<Rightarrow>
                           if foundTargetDim st \<and> targetMultiplier st > 0
                           then if constSum st < 0 then Some UnanalyzableBound
                                else map_option (checkBoundsAndReturn dimBounds dimPos) (sum_steps dimBounds divisor st)
                           else Some UnanalyzableBound)"

definition grid_mul_bound :: "int list \<Rightarrow> nat \<Rightarrow> affine_expr \<Rightarrow> affine_expr \<Rightarrow> int \<Rightarrow> contiguity_bound option" where
  "grid_mul_bound dimBounds dimPos x y divisor =
     (case y of
        ConstE mulValue \<Rightarrow>
          if x \<noteq> DimE dimPos then Some UnconstrainedBound
          else if mulValue = 0 then None
          else Some (checkBoundsAndReturn dimBounds dimPos ((divisor + mulValue - 1) sdiv mulValue))
      | _ \<Rightarrow> Some UnanalyzableBound)"

fun analyzeGridResultExprForDiscontinuity ::
  "affine_ops \<Rightarrow> int list \<Rightarrow> nat \<Rightarrow> nat \<Rightarrow> affine_expr \<Rightarrow> contiguity_bound option" where
  "analyzeGridResultExprForDiscontinuity ops dimBounds dimPos 0 e = None"
| "analyzeGridResultExprForDiscontinuity ops dimBounds dimPos (Suc n) e =
     (let analyze = analyzeGridResultExprForDiscontinuity ops dimBounds dimPos n
      in case e of
           ConstE k \<Rightarrow> Some UnconstrainedBound
         | DimE i \<Rightarrow> Some (if i = dimPos then ConstrainedBound 1 else UnconstrainedBound)
         | SymE i \<Rightarrow> Some UnanalyzableBound
         | BinE AddK l r \<Rightarrow>
             (case (analyze l, analyze r) of
                (Some lb, Some rb) \<Rightarrow> Some (combine_sum lb rb)
              | _ \<Rightarrow> None)
         | BinE MulK l r \<Rightarrow> if exprContainsDim l dimPos then analyze l else Some UnconstrainedBound
         | BinE ModK l r \<Rightarrow> if exprContainsDim l dimPos then analyze l else Some UnconstrainedBound
         | BinE kind l (ConstE divisor) \<Rightarrow>
             if divisor \<le> 0 then Some UnanalyzableBound
             else (case l of
                     DimE i \<Rightarrow> Some (if i = dimPos then checkBoundsAndReturn dimBounds dimPos divisor else UnconstrainedBound)
                   | BinE ModK x y \<Rightarrow>
                       analyze ((if kind = FloorDivK then floorDivE ops else ceilDivE ops) x (ConstE divisor))
                   | BinE FloorDivK x (ConstE inner) \<Rightarrow> analyze (floorDivE ops x (ConstE (inner * divisor)))
                   | BinE FloorDivK x y \<Rightarrow> None
                   | BinE MulK x y \<Rightarrow> grid_mul_bound dimBounds dimPos x y divisor
                   | BinE AddK x y \<Rightarrow> grid_sum_bound ops analyze dimBounds dimPos l divisor
                   | _ \<Rightarrow> Some UnanalyzableBound)
         | _ \<Rightarrow> Some UnanalyzableBound)"

end
