(* ===== verification/AnalyticFactor.thy ===== *)
theory AnalyticFactor
  imports Contiguity
begin

text \<open>
  The second half of the analytic coalescing factor: bounds of a shard dimension over all results of a
  map, the strides of its last result, and \<open>computeCoalescingFactorAnalytically\<close>, which falls back
  on sampling when an expression cannot be analyzed. The fuel of the analyses is the number of nodes of
  the expression.
\<close>

section \<open>Dimensions\<close>

definition combineBounds :: "contiguity_bound \<Rightarrow> contiguity_bound \<Rightarrow> contiguity_bound" where
  "combineBounds accumulated b =
     (case getBoundValue b of
        None \<Rightarrow> accumulated
      | Some k \<Rightarrow> (case accumulated of ConstrainedBound a \<Rightarrow> ConstrainedBound (gcd a k) | _ \<Rightarrow> ConstrainedBound k))"

text \<open>The results from the one with number \<open>idx\<close> on; an unanalyzable one ends the loop.\<close>

fun result_bounds ::
  "affine_ops \<Rightarrow> shape \<Rightarrow> nat \<Rightarrow> nat \<Rightarrow> nat \<Rightarrow> affine_expr list \<Rightarrow> contiguity_bound \<Rightarrow> contiguity_bound option" where
  "result_bounds ops sh dimPos numGridResults idx [] accumulated = Some accumulated"
| "result_bounds ops sh dimPos numGridResults idx (e # es) accumulated =
     (case (if idx < numGridResults then analyzeGridResultExprForDiscontinuity ops sh dimPos (nodes e) e
            else analyzeShardResultExprForContiguity ops sh dimPos (nodes e) e None) of
        None \<Rightarrow> None
      | Some UnanalyzableBound \<Rightarrow> Some UnanalyzableBound
      | Some b \<Rightarrow> result_bounds ops sh dimPos numGridResults (Suc idx) es (combineBounds accumulated b))"

definition partial_cycles :: "int \<Rightarrow> int \<Rightarrow> int" where
  "partial_cycles dimExtent finalContiguity =
     (if 0 < finalContiguity \<and> finalContiguity < dimExtent \<and> dimExtent smod finalContiguity \<noteq> 0
      then gcd finalContiguity (dimExtent smod finalContiguity) else finalContiguity)"

definition computeCoalescingFactorForShardDim ::
  "affine_ops \<Rightarrow> affine_map \<Rightarrow> shape \<Rightarrow> nat \<Rightarrow> nat \<Rightarrow> int option option" where
  "computeCoalescingFactorForShardDim ops m sh numGridDims shardDimIdx =
     (let dimPos = numGridDims + shardDimIdx
      in case result_bounds ops sh dimPos (length (results m) - 1) 0 (results m) UnconstrainedBound of
           None \<Rightarrow> None
         | Some UnanalyzableBound \<Rightarrow> Some None
         | Some UnconstrainedBound \<Rightarrow> Some (Some (partial_cycles (sh ! dimPos) (sh ! dimPos)))
         | Some (ConstrainedBound k) \<Rightarrow> Some (Some (partial_cycles (sh ! dimPos) k)))"

text \<open>All shard dimensions; \<open>Some None\<close> asks for the fallback.\<close>

fun shard_dim_bounds :: "affine_ops \<Rightarrow> affine_map \<Rightarrow> shape \<Rightarrow> nat \<Rightarrow> nat list \<Rightarrow> int list option option" where
  "shard_dim_bounds ops m sh numGridDims [] = Some (Some [])"
| "shard_dim_bounds ops m sh numGridDims (d # ds) =
     (case computeCoalescingFactorForShardDim ops m sh numGridDims d of
        None \<Rightarrow> None
      | Some None \<Rightarrow> Some None
      | Some (Some k) \<Rightarrow> map_option (map_option (Cons k)) (shard_dim_bounds ops m sh numGridDims ds))"

section \<open>Strides\<close>

text \<open>The shard dimensions behind the innermost one, from the inside.\<close>

fun accumulate_strides :: "affine_expr \<Rightarrow> shape \<Rightarrow> nat list \<Rightarrow> int \<Rightarrow> int option option" where
  "accumulate_strides shardResult sh [] accumulatedStride = Some (Some accumulatedStride)"
| "accumulate_strides shardResult sh (i # is) accumulatedStride =
     (if sh ! i = 1 then accumulate_strides shardResult sh is accumulatedStride
      else case analyzeExprForDimStride shardResult i of
             None \<Rightarrow> None
           | Some stride \<Rightarrow>
               if stride < 0 then Some None
               else if stride = 0 \<or> stride \<noteq> accumulatedStride then Some (Some accumulatedStride)
               else accumulate_strides shardResult sh is (stride * sh ! i))"

definition analyzeShardDimStrides :: "affine_map \<Rightarrow> shape \<Rightarrow> nat \<Rightarrow> int \<Rightarrow> int option option" where
  "analyzeShardDimStrides m sh numGridDims elemSizeBytes =
     (if length sh \<le> numGridDims \<or> results m = [] then None
      else let shardResult = last (results m); inner = numDims m - 1
           in case analyzeExprForDimStride shardResult inner of
                None \<Rightarrow> None
              | Some innermostStride \<Rightarrow>
                  if innermostStride < 0 then Some None
                  else if innermostStride > 0 \<and> innermostStride \<noteq> elemSizeBytes \<and> sh ! inner \<noteq> 1 then Some (Some elemSizeBytes)
                  else if innermostStride = 0 \<and> sh ! inner \<noteq> 1 then Some (Some elemSizeBytes)
                  else case accumulate_strides shardResult sh (rev [numGridDims..<numDims m - 1])
                              (if sh ! inner = 1 then elemSizeBytes else innermostStride * sh ! inner) of
                         Some (Some s) \<Rightarrow> if s \<ge> 0 then Some (Some s) else None
                       | r \<Rightarrow> r)"

section \<open>The factor\<close>

text \<open>The product over fully contiguous dimensions, from the inside, each with its extent.\<close>

fun accumulate_contiguity :: "(int \<times> int) list \<Rightarrow> int \<Rightarrow> int option" where
  "accumulate_contiguity [] coalescingFactor = Some coalescingFactor"
| "accumulate_contiguity ((dimContiguity, dimExtent) # ds) coalescingFactor =
     (if dimContiguity < 0 then None
      else if dimContiguity < dimExtent then Some (coalescingFactor * dimContiguity)
      else accumulate_contiguity ds (coalescingFactor * dimContiguity))"

definition computeCoalescingFactorAnalytically ::
  "affine_ops \<Rightarrow> (nat \<Rightarrow> int) \<Rightarrow> affine_map \<Rightarrow> shape \<Rightarrow> nat \<Rightarrow> int \<Rightarrow> (coalesce_error, int) result" where
  "computeCoalescingFactorAnalytically ops regs0 m sh numGridDims elemSizeBytes =
     (if \<not> elemSizeBytes > 0 \<or> length sh \<noteq> numDims m \<or> length sh mod 2 \<noteq> 0 \<or> length sh < numGridDims then Inl CoalesceAssert
      else if length sh = numGridDims then Inr 1
      else case simplifyAffineMapWithRangeAnalysis ops (simplifyZeroFloorDiv ops m) sh False of
             None \<Rightarrow> Inl CoalesceAssert
           | Some simplifiedMap \<Rightarrow>
               (case shard_dim_bounds ops simplifiedMap sh numGridDims [0..<length sh - numGridDims] of
                  None \<Rightarrow> Inl CoalesceAssert
                | Some None \<Rightarrow> calculateCoalescingFactor regs0 m sh elemSizeBytes numGridDims
                | Some (Some bounds) \<Rightarrow>
                    (case accumulate_contiguity (rev (zip bounds (drop numGridDims sh))) 1 of
                       None \<Rightarrow> Inl CoalesceAssert
                     | Some factor \<Rightarrow>
                         (case analyzeShardDimStrides simplifiedMap sh numGridDims elemSizeBytes of
                            None \<Rightarrow> Inl CoalesceAssert
                          | Some None \<Rightarrow> calculateCoalescingFactor regs0 m sh elemSizeBytes numGridDims
                          | Some (Some limit) \<Rightarrow>
                              if limit smod elemSizeBytes \<noteq> 0 then Inl CoalesceAssert
                              else if limit sdiv elemSizeBytes < factor then Inr (gcd factor (limit sdiv elemSizeBytes))
                              else Inr factor))))"

end
