(* ===== verification/AnalyticProps.thy ===== *)
theory AnalyticProps
  imports AnalyticFactor
begin

text \<open>
  The analytic coalescing factor against the sampled one: for strided maps, whose results are sums of
  multiples of dimensions, it is a contiguous transfer size; with remainders and divisions it is not
  always one.
\<close>

section \<open>Strided expressions\<close>

fun strided_expr :: "nat \<Rightarrow> affine_expr \<Rightarrow> bool" where
  "strided_expr n (ConstE k) \<longleftrightarrow> 0 \<le> k"
| "strided_expr n (DimE i) \<longleftrightarrow> i < n"
| "strided_expr n (BinE AddK l r) \<longleftrightarrow> strided_expr n l \<and> strided_expr n r"
| "strided_expr n (BinE MulK l (ConstE k)) \<longleftrightarrow> strided_expr n l \<and> 0 \<le> k"
| "strided_expr n e \<longleftrightarrow> False"

text \<open>MLIR's sums and products of strided expressions are strided.\<close>

definition keeps_strided :: "affine_ops \<Rightarrow> bool" where
  "keeps_strided ops \<longleftrightarrow> (\<forall>n l r k. strided_expr n l \<and> strided_expr n r \<and> 0 \<le> k \<longrightarrow>
     strided_expr n (plusE ops l r) \<and> strided_expr n (timesE ops l (ConstE k)))"

lemma keeps_strided_folding: "keeps_strided folding_ops"
proof -
  have "strided_expr n (fold_plus l r)" if "strided_expr n l" "strided_expr n r" for n l r
    using that by (cases "(l, r)" rule: fold_plus.cases) auto
  moreover have "strided_expr n (fold_times l (ConstE k))" if "strided_expr n l" "0 \<le> k" for n l k
    using that by (cases "(l, ConstE k)" rule: fold_times.cases) auto
  ultimately show ?thesis by (simp add: keeps_strided_def folding_ops_def)
qed

definition coefficient :: "affine_expr \<Rightarrow> nat \<Rightarrow> int" where
  "coefficient e d = the (analyzeExprForDimStride e d)"

lemma stride_exists: "strided_expr n e \<Longrightarrow> \<exists>a\<ge>0. analyzeExprForDimStride e d = Some a"
proof (induction n e rule: strided_expr.induct)
  case (4 n l k)
  then obtain a where "0 \<le> a" "analyzeExprForDimStride l d = Some a" by auto
  then show ?case using 4(2) by auto
qed auto

lemma stride_analysis:
  "strided_expr n e \<Longrightarrow> analyzeExprForDimStride e d = Some (coefficient e d) \<and> 0 \<le> coefficient e d"
  using stride_exists [of n e d] by (auto simp: coefficient_def)

lemma coefficient_simps [simp]:
  "coefficient (ConstE k) d = 0" "coefficient (DimE i) d = (if i = d then 1 else 0)"
  "strided_expr n l \<Longrightarrow> strided_expr n r \<Longrightarrow> coefficient (BinE AddK l r) d = coefficient l d + coefficient r d"
  "strided_expr n l \<Longrightarrow> coefficient (BinE MulK l (ConstE k)) d = coefficient l d * k"
  using stride_exists [of n l d] stride_exists [of n r d] by (auto simp: coefficient_def)

lemma coefficient_absent: "strided_expr n e \<Longrightarrow> \<not> exprContainsDim e d \<Longrightarrow> coefficient e d = 0"
  by (induction n e rule: strided_expr.induct) auto

text \<open>The value of a strided expression.\<close>

lemma eval_strided:
  "strided_expr n e \<Longrightarrow> eval_expr ds [] e = eval_expr (replicate n 0) [] e + (\<Sum>i<n. coefficient e i * ds ! i)"
proof (induction n e rule: strided_expr.induct)
  case (2 n i)
  then have "(\<Sum>j<n. coefficient (DimE i) j * ds ! j) = ds ! i"
    by (simp add: if_distrib [of "\<lambda>x. x * _"] cong: if_cong)
  then show ?case using 2 by simp
qed (auto simp: algebra_simps sum.distrib sum_distrib_left)

section \<open>The analyses on strided expressions\<close>

lemma grid_strided:
  "strided_expr n e \<Longrightarrow> nodes e \<le> fuel \<Longrightarrow> analyzeGridResultExprForDiscontinuity ops bounds d fuel e =
     Some (if exprContainsDim e d then ConstrainedBound 1 else UnconstrainedBound)"
proof (induction n e arbitrary: fuel rule: strided_expr.induct)
  case (3 n l r)
  then obtain m where "fuel = Suc m" by (cases fuel) auto
  then show ?case using 3 by (auto simp: combine_sum_def getBoundValue_def)
next
  case (4 n l k)
  then obtain m where "fuel = Suc m" by (cases fuel) auto
  then show ?case using 4 by auto
qed (auto simp: gr0_conv_Suc Suc_le_eq)

lemma shard_strided:
  "strided_expr n e \<Longrightarrow> nodes e \<le> fuel \<Longrightarrow>
     analyzeShardResultExprForContiguity ops bounds d fuel e None = Some UnconstrainedBound"
proof (induction n e arbitrary: fuel rule: strided_expr.induct)
  case (3 n l r)
  then obtain m where "fuel = Suc m" by (cases fuel) auto
  then show ?case using 3 by (auto simp: combine_sum_def getBoundValue_def)
next
  case (4 n l k)
  then obtain m where "fuel = Suc m" by (cases fuel) auto
  then show ?case using 4 by (auto simp: mul_bound_def mul_constant_def)
qed (auto simp: gr0_conv_Suc Suc_le_eq)

context affine_builder begin

lemma strided_ops:
  assumes "keeps_strided ops" "strided_expr n l"
  shows "strided_expr n r \<Longrightarrow> strided_expr n (plusE ops l r)" "0 \<le> k \<Longrightarrow> strided_expr n (timesE ops l (ConstE k))"
  using assms unfolding keeps_strided_def by (metis order_refl)+

lemma simplify_zero_strided:
  assumes "keeps_strided ops"
  shows "strided_expr n e \<Longrightarrow> strided_expr n (simplifyZeroFloorDivExpr ops e) \<and>
    eval_expr ds [] (simplifyZeroFloorDivExpr ops e) = eval_expr ds [] e"
  by (induction n e rule: strided_expr.induct) (auto simp: strided_ops [OF assms] affine_simps)

lemma simplify_range_strided:
  assumes "keeps_strided ops"
  shows "strided_expr n e \<Longrightarrow> strided_expr n (simplifyAffineExprWithRangeAnalysis ops e bounds) \<and>
    eval_expr ds [] (simplifyAffineExprWithRangeAnalysis ops e bounds) = eval_expr ds [] e"
  by (induction n e rule: strided_expr.induct) (auto simp: strided_ops [OF assms] affine_simps)

end

section \<open>Bounds of dimensions\<close>

text \<open>The dimensions that a result before the last one depends on.\<close>

definition grid_dim :: "affine_map \<Rightarrow> nat \<Rightarrow> bool" where
  "grid_dim m d \<longleftrightarrow> (\<exists>e\<in>set (butlast (results m)). exprContainsDim e d)"

lemma result_bounds_strided:
  assumes "\<forall>e\<in>set es. strided_expr n e"
  shows "result_bounds ops sh d g idx es acc =
    Some (if \<exists>e\<in>set (take (g - idx) es). exprContainsDim e d
          then (case acc of ConstrainedBound a \<Rightarrow> ConstrainedBound 1 | _ \<Rightarrow> ConstrainedBound 1) else acc)"
  using assms
proof (induction es arbitrary: idx acc)
  case (Cons e es)
  have IH: "result_bounds ops sh d g (Suc idx) es acc =
    Some (if \<exists>e\<in>set (take (g - Suc idx) es). exprContainsDim e d
          then (case acc of ConstrainedBound a \<Rightarrow> ConstrainedBound 1 | _ \<Rightarrow> ConstrainedBound 1) else acc)" for acc
    using Cons by simp
  show ?case
  proof (cases "idx < g")
    case True
    then have "take (g - idx) (e # es) = e # take (g - Suc idx) es" by (simp add: Suc_diff_Suc [symmetric])
    then show ?thesis using True Cons.prems
      by (auto simp: grid_strided [where n = n] IH combineBounds_def getBoundValue_def split: contiguity_bound.splits)
  next
    case False
    then show ?thesis using Cons.prems by (simp add: shard_strided [where n = n] IH combineBounds_def getBoundValue_def)
  qed
qed simp

lemma dim_bound_strided:
  assumes "\<forall>e\<in>set (results m). strided_expr n e" "0 < sh ! (g + d)"
  shows "computeCoalescingFactorForShardDim ops m sh g d = Some (Some (if grid_dim m (g + d) then 1 else sh ! (g + d)))"
proof -
  have "partial_cycles x 1 = 1" "partial_cycles x x = x" for x by (simp_all add: partial_cycles_def)
  then show ?thesis using result_bounds_strided [OF assms(1), of ops sh "g + d" "length (results m) - 1" 0 UnconstrainedBound]
    by (auto simp: computeCoalescingFactorForShardDim_def grid_dim_def butlast_conv_take)
qed

lemma shard_bounds_strided:
  assumes "\<forall>e\<in>set (results m). strided_expr n e" "\<forall>d\<in>set ds. 0 < sh ! (g + d)"
  shows "shard_dim_bounds ops m sh g ds = Some (Some (map (\<lambda>d. if grid_dim m (g + d) then 1 else sh ! (g + d)) ds))"
  using assms(2) by (induction ds) (simp_all add: dim_bound_strided [OF assms(1)])

lemma accumulate_suffix:
  assumes "\<forall>(c, x)\<in>set zs. c = x \<and> 0 < x \<or> c = 1 \<and> 1 < x"
  shows "\<exists>k\<le>length zs. accumulate_contiguity (rev zs) a = Some (a * prod_list (map snd (drop k zs))) \<and>
    (\<forall>j. k \<le> j \<and> j < length zs \<longrightarrow> fst (zs ! j) = snd (zs ! j))"
  using assms
proof (induction zs arbitrary: a rule: rev_induct)
  case (snoc z zs)
  obtain c x where z: "z = (c, x)" by (cases z)
  show ?case
  proof (cases "c < x")
    case True
    then have "c = 1" using snoc.prems z by auto
    then show ?thesis using True z by (intro exI [of _ "Suc (length zs)"]) auto
  next
    case False
    then have c: "c = x" "0 < x" using snoc.prems z by auto
    have "\<forall>(c, x)\<in>set zs. c = x \<and> 0 < x \<or> c = 1 \<and> 1 < x" using snoc.prems by simp
    from snoc.IH [OF this, of "a * x"] obtain k where
      k: "k \<le> length zs" "accumulate_contiguity (rev zs) (a * x) = Some (a * x * prod_list (map snd (drop k zs)))"
        "\<forall>j. k \<le> j \<and> j < length zs \<longrightarrow> fst (zs ! j) = snd (zs ! j)" by blast
    have "\<forall>j. k \<le> j \<and> j < length (zs @ [z]) \<longrightarrow> fst ((zs @ [z]) ! j) = snd ((zs @ [z]) ! j)"
      using k(3) z c by (auto simp: nth_append less_Suc_eq)
    then show ?thesis using k(1,2) z c False by (intro exI [of _ k]) (simp add: ac_simps)
  qed
qed simp

section \<open>Strides\<close>

text \<open>From dimension \<open>p\<close> on, the expression is a multiple of the row-major position.\<close>

definition row_major_from :: "affine_expr \<Rightarrow> shape \<Rightarrow> int \<Rightarrow> nat \<Rightarrow> bool" where
  "row_major_from e sh elem p \<longleftrightarrow>
     (\<forall>c. in_shape c sh \<longrightarrow> (\<Sum>i = p..<length sh. coefficient e i * c ! i) = elem * row_index (drop p sh) (drop p c))"

lemma row_major_from_step:
  assumes "row_major_from e sh elem (Suc p)" "p < length sh"
    "sh ! p = 1 \<or> coefficient e p = elem * prod_list (drop (Suc p) sh)"
  shows "row_major_from e sh elem p"
  unfolding row_major_from_def
proof (intro allI impI)
  fix c assume c: "in_shape c sh"
  have len: "length c = length sh" using in_shape_length [OF c] .
  have "0 \<le> c ! p" "c ! p < sh ! p" using in_shape_nth [OF c assms(2)] by auto
  then have "coefficient e p * c ! p = elem * (c ! p * prod_list (drop (Suc p) sh))" using assms(3) by auto
  moreover have "(\<Sum>i = Suc p..<length sh. coefficient e i * c ! i) = elem * row_index (drop (Suc p) sh) (drop (Suc p) c)"
    using assms(1) c by (simp add: row_major_from_def)
  moreover have "drop p sh = sh ! p # drop (Suc p) sh" "drop p c = c ! p # drop (Suc p) c"
    using assms(2) len by (simp_all add: Cons_nth_drop_Suc)
  ultimately show "(\<Sum>i = p..<length sh. coefficient e i * c ! i) = elem * row_index (drop p sh) (drop p c)"
    using assms(2) by (simp add: sum.atLeast_Suc_lessThan algebra_simps)
qed

lemma accumulate_strides_ok:
  assumes "strided_expr n e" "row_major_from e sh elem q" "g \<le> q" "q \<le> length sh"
  shows "\<exists>p. g \<le> p \<and> p \<le> q \<and> row_major_from e sh elem p \<and>
    accumulate_strides e sh (rev [g..<q]) (elem * prod_list (drop q sh)) = Some (Some (elem * prod_list (drop p sh)))"
  using assms(2-)
proof (induction q)
  case (Suc q)
  show ?case
  proof (cases "g = Suc q")
    case False
    then have g: "g \<le> q" and rev: "rev [g..<Suc q] = q # rev [g..<q]" using Suc.prems by auto
    note st = stride_analysis [OF assms(1), of q]
    have drop: "prod_list (drop q sh) = sh ! q * prod_list (drop (Suc q) sh)"
      using Suc.prems(3) by (simp add: Cons_nth_drop_Suc [symmetric])
    show ?thesis
    proof (cases "sh ! q = 1 \<or> (coefficient e q \<noteq> 0 \<and> coefficient e q = elem * prod_list (drop (Suc q) sh))")
      case True
      then have "row_major_from e sh elem q" using row_major_from_step [OF Suc.prems(1)] Suc.prems(3) by auto
      from Suc.IH [OF this g] Suc.prems(3) obtain p where p: "g \<le> p" "p \<le> q" "row_major_from e sh elem p"
        "accumulate_strides e sh (rev [g..<q]) (elem * prod_list (drop q sh)) = Some (Some (elem * prod_list (drop p sh)))" by auto
      have "accumulate_strides e sh (rev [g..<Suc q]) (elem * prod_list (drop (Suc q) sh))
          = accumulate_strides e sh (rev [g..<q]) (elem * prod_list (drop q sh))"
        using True st unfolding rev drop by (auto simp: ac_simps)
      then show ?thesis using p by (intro exI [of _ p]) simp
    next
      case stop: False
      then show ?thesis using st Suc.prems unfolding rev by (intro exI [of _ "Suc q"]) auto
    qed
  qed (use Suc.prems in auto)
qed (auto intro!: exI [of _ 0])

lemma row_major_from_end: "row_major_from e sh elem (length sh)"
  by (simp add: row_major_from_def)

lemma shard_strides:
  assumes "strided_expr n e" "results m \<noteq> []" "e = last (results m)" "numDims m = length sh" "g < length sh"
    "\<forall>x\<in>set sh. 0 < x" "0 < elem"
  shows "\<exists>p. g \<le> p \<and> p \<le> length sh \<and> row_major_from e sh elem p \<and>
    analyzeShardDimStrides m sh g elem = Some (Some (elem * prod_list (drop p sh)))"
proof -
  let ?i = "length sh - 1"
  note st = stride_analysis [OF assms(1), of ?i]
  have i: "?i < length sh" "Suc ?i = length sh" using assms(5) by auto
  show ?thesis
  proof (cases "sh ! ?i = 1 \<or> coefficient e ?i = elem")
    case False
    then have "analyzeShardDimStrides m sh g elem = Some (Some elem)"
      using st assms by (auto simp: analyzeShardDimStrides_def Let_def)
    then show ?thesis using row_major_from_end [of e sh elem] assms(5) by (intro exI [of _ "length sh"]) simp
  next
    case True
    have "row_major_from e sh elem (Suc ?i)" using row_major_from_end i(2) by simp
    then have rm: "row_major_from e sh elem ?i" by (rule row_major_from_step) (use True i in auto)
    have d: "drop ?i sh = [sh ! ?i]" using i by (metis Cons_nth_drop_Suc drop_all order_refl)
    have pos: "0 \<le> prod_list (drop p sh)" for p
      using assms(6) by (intro prod_list_nonneg) (auto simp: static_shape_def list_all_iff less_imp_le dest: in_set_dropD)
    from accumulate_strides_ok [OF assms(1) rm, of g] i assms(5) obtain p where
      p: "g \<le> p" "p \<le> ?i" "row_major_from e sh elem p"
        "accumulate_strides e sh (rev [g..<?i]) (elem * sh ! ?i) = Some (Some (elem * prod_list (drop p sh)))"
      unfolding d by auto
    have "0 \<le> elem * prod_list (drop p sh)"
      using pos assms(7) by simp
    then have "analyzeShardDimStrides m sh g elem = Some (Some (elem * prod_list (drop p sh)))"
      using True st p(4) assms by (auto simp: analyzeShardDimStrides_def Let_def)
    then show ?thesis using p by (intro exI [of _ p]) auto
  qed
qed

section \<open>Positions\<close>

lemma row_index_take_drop:
  "length c = length sh \<Longrightarrow> row_index sh c = row_index (take k sh) (take k c) * prod_list (drop k sh) + row_index (drop k sh) (drop k c)"
proof (induction sh c arbitrary: k rule: list_induct2 [OF sym, consumes 1])
  case (2 d sh x c)
  show ?case
  proof (cases k)
    case (Suc j)
    have "prod_list sh = prod_list (take j sh) * prod_list (drop j sh)" by (metis append_take_drop_id prod_list.append)
    then show ?thesis using 2(2) [of j] Suc by (simp add: algebra_simps)
  qed simp
qed simp

lemma in_shape_part: "in_shape c sh \<Longrightarrow> in_shape (take k c) (take k sh) \<and> in_shape (drop k c) (drop k sh)"
  by (simp add: in_shape_def list_all2_takeI list_all2_dropI)

text \<open>Between multiples of a suffix's volume, only the suffix advances.\<close>

lemma next_position:
  assumes "in_shape x sh" "in_shape y sh" "row_index sh x = row_index sh y + 1"
    "\<not> prod_list (drop k sh) dvd row_index sh x"
  shows "take k x = take k y" "row_index (drop k sh) (drop k x) = row_index (drop k sh) (drop k y) + 1"
proof -
  let ?Q = "prod_list (drop k sh)"
  let ?a = "\<lambda>c. row_index (take k sh) (take k c)" and ?b = "\<lambda>c. row_index (drop k sh) (drop k c)"
  have d: "row_index sh c = ?a c * ?Q + ?b c" "0 \<le> ?b c" "?b c < ?Q" if "in_shape c sh" for c
    using row_index_take_drop [of c sh k] in_shape_length [OF that] row_index_bounds in_shape_part [OF that, of k] by auto
  note x = d [OF assms(1)] and y = d [OF assms(2)]
  have "?b y + 1 < ?Q"
  proof (rule ccontr)
    assume "\<not> ?b y + 1 < ?Q"
    then have "row_index sh x = (?a y + 1) * ?Q" using y assms(3) by (simp add: algebra_simps)
    then show False using assms(4) by simp
  qed
  then have "(?a y * ?Q + (?b y + 1)) div ?Q = ?a y" using y(2) by simp
  moreover have "(?a x * ?Q + ?b x) div ?Q = ?a x" using x(2,3) by simp
  moreover have e: "?a x * ?Q + ?b x = ?a y * ?Q + (?b y + 1)" using x(1) y(1) assms(3) by simp
  ultimately have "?a x = ?a y" by simp
  then have "?a x = ?a y \<and> ?b x = ?b y + 1" using e by simp
  then show "take k x = take k y" "?b x = ?b y + 1"
    using row_index_inj in_shape_part assms(1,2) by metis+
qed

section \<open>Strided maps\<close>

definition strided_map :: "affine_map \<Rightarrow> shape \<Rightarrow> bool" where
  "strided_map m sh \<longleftrightarrow> numDims m = length sh \<and> results m \<noteq> [] \<and> (\<forall>e\<in>set (results m). strided_expr (length sh) e)"

lemma simplified_map:
  assumes "legal_affine ops" "keeps_strided ops" "strided_map m sh"
  shows "\<exists>m'. simplifyAffineMapWithRangeAnalysis ops (simplifyZeroFloorDiv ops m) sh False = Some m' \<and>
    strided_map m' sh \<and> (\<forall>c. compose_map m' c = compose_map m c)"
proof -
  let ?f = "\<lambda>e. simplifyAffineExprWithRangeAnalysis ops (simplifyZeroFloorDivExpr ops e) sh"
  note b = affine_builder.intro [OF assms(1)]
  have f: "strided_expr (length sh) (?f e) \<and> eval_expr c [] (?f e) = eval_expr c [] e" if "strided_expr (length sh) e" for e c
    using affine_builder.simplify_zero_strided [OF b assms(2) that]
      affine_builder.simplify_range_strided [OF b assms(2), of "length sh" "simplifyZeroFloorDivExpr ops e"] by simp
  show ?thesis using assms(3) f
    by (simp add: simplifyAffineMapWithRangeAnalysis_def simplifyZeroFloorDiv_def strided_map_def compose_map_def)
qed

text \<open>The factor before and after the strides are taken into account.\<close>

lemma analytic_parts:
  assumes m: "strided_map m sh" and sh: "\<forall>x\<in>set sh. 0 < x" "g < length sh" and elem: "0 < elem"
  shows "\<exists>k p. g \<le> k \<and> k \<le> length sh \<and> g \<le> p \<and> p \<le> length sh \<and>
    (\<exists>bounds. shard_dim_bounds ops m sh g [0..<length sh - g] = Some (Some bounds) \<and>
       accumulate_contiguity (rev (zip bounds (drop g sh))) 1 = Some (prod_list (drop k sh))) \<and>
    analyzeShardDimStrides m sh g elem = Some (Some (elem * prod_list (drop p sh))) \<and>
    (\<forall>j. k \<le> j \<and> j < length sh \<longrightarrow> \<not> grid_dim m j \<or> sh ! j = 1) \<and>
    row_major_from (last (results m)) sh elem p"
proof -
  let ?n = "length sh - g"
  let ?b = "\<lambda>d. if grid_dim m (g + d) then 1 else sh ! (g + d)"
  let ?zs = "zip (map ?b [0..<?n]) (drop g sh)"
  have r: "\<forall>e\<in>set (results m). strided_expr (length sh) e" "numDims m = length sh" "results m \<noteq> []"
    using m by (auto simp: strided_map_def)
  have pos: "0 < sh ! (g + d)" if "d < ?n" for d using sh that by auto
  have b: "shard_dim_bounds ops m sh g [0..<?n] = Some (Some (map ?b [0..<?n]))"
    by (rule shard_bounds_strided [OF r(1)]) (use pos in auto)
  have nth: "?zs ! d = (?b d, sh ! (g + d))" "d < length ?zs \<longleftrightarrow> d < ?n" if "d < ?n" for d using that by auto
  have "c = x \<and> 0 < x \<or> c = 1 \<and> 1 < x" if cx: "(c, x) \<in> set ?zs" for c x
  proof -
    obtain d where "d < ?n" "c = ?b d" "x = sh ! (g + d)" using cx by (auto simp: in_set_conv_nth)
    then show ?thesis using pos [of d] by auto
  qed
  then have "\<forall>(c, x)\<in>set ?zs. c = x \<and> 0 < x \<or> c = 1 \<and> 1 < x" by blast
  from accumulate_suffix [OF this, of 1] obtain k where kk: "k \<le> length ?zs"
      "accumulate_contiguity (rev ?zs) 1 = Some (1 * prod_list (map snd (drop k ?zs)))"
      "\<forall>j. k \<le> j \<and> j < length ?zs \<longrightarrow> fst (?zs ! j) = snd (?zs ! j)" by blast
  have k: "k \<le> ?n" "accumulate_contiguity (rev ?zs) 1 = Some (prod_list (map snd (drop k ?zs)))"
    using kk(1,2) by simp_all
  have kb: "?b j = sh ! (g + j)" if "k \<le> j" "j < ?n" for j
  proof -
    have "fst (?zs ! j) = snd (?zs ! j)" using kk(3) that nth(2) by blast
    then show "?b j = sh ! (g + j)" unfolding nth(1) [OF that(2)] by simp
  qed
  have "map snd (drop k ?zs) = drop (g + k) sh" by (simp add: drop_map [symmetric] add.commute)
  moreover have "\<not> grid_dim m j \<or> sh ! j = 1" if "g + k \<le> j" "j < length sh" for j
    using kb [of "j - g"] that by (auto split: if_splits)
  moreover obtain p where "g \<le> p" "p \<le> length sh" "row_major_from (last (results m)) sh elem p"
      "analyzeShardDimStrides m sh g elem = Some (Some (elem * prod_list (drop p sh)))"
    using shard_strides [of "length sh" "last (results m)" m sh g elem] r sh elem by auto
  ultimately show ?thesis using k(1,2) b sh(2) by (intro exI [of _ "g + k"] exI [of _ p]) auto
qed

lemma prod_list_positive: "\<forall>x\<in>set xs. 0 < x \<Longrightarrow> 0 < prod_list xs" for xs :: "int list"
  by (induction xs) auto

lemma suffix_dvd:
  assumes "\<forall>x\<in>set sh. 0 < x" "prod_list (drop k sh) \<le> prod_list (drop p sh)"
  shows "prod_list (drop k sh) dvd (prod_list (drop p sh) :: int)"
proof -
  have d: "prod_list (drop (i + j) sh) dvd prod_list (drop i sh)" for i j :: nat
    by (metis add.commute append_take_drop_id drop_drop dvd_triv_right prod_list.append)
  have pos: "0 < prod_list (drop i sh)" for i using assms(1) by (intro prod_list_positive) (auto dest: in_set_dropD)
  show ?thesis
  proof (cases "p \<le> k")
    case True
    then show ?thesis using d [of p "k - p"] by simp
  next
    case False
    then have "prod_list (drop p sh) dvd prod_list (drop k sh)" using d [of k "p - k"] by simp
    then show ?thesis using assms(2) pos zdvd_imp_le by (metis order_antisym dvd_refl)
  qed
qed

lemma chunks_of_parts:
  assumes m: "strided_map m sh" and sh: "\<forall>x\<in>set sh. 0 < x" "g < length sh"
    and kp: "g \<le> k" "k \<le> length sh" "g \<le> p" "p \<le> length sh"
    and grid: "\<forall>j. k \<le> j \<and> j < length sh \<longrightarrow> \<not> grid_dim m j \<or> sh ! j = 1"
    and strides: "row_major_from (last (results m)) sh elem p"
    and d: "d dvd prod_list (drop k sh)" "d dvd prod_list (drop p sh)"
  shows "chunks_contiguous m sh elem g d"
  unfolding chunks_contiguous_def
proof (intro conjI allI impI)
  have st: "static_shape (drop g sh)" using sh(1) by (auto simp: static_shape_def list_all_iff less_imp_le dest: in_set_dropD)
  have split: "prod_list (drop g sh) = prod_list (take (j - g) (drop g sh)) * prod_list (drop j sh)" if "g \<le> j" for j
    using that by (metis append_take_drop_id drop_drop le_add_diff_inverse2 prod_list.append)
  show "d dvd prod_list (drop g sh)" using d(1) split [OF kp(1)] by (simp add: dvd_mult)
  fix a i assume a: "in_shape a (take g sh) \<and> 0 < i \<and> i < prod_list (drop g sh) \<and> \<not> d dvd i"
  let ?x = "linearIdToCoord i (drop g sh)" and ?y = "linearIdToCoord (i - 1) (drop g sh)"
  have x: "in_shape ?x (drop g sh)" "row_index (drop g sh) ?x = i" using linearIdToCoord_inverse [OF st, of i] a by auto
  have y: "in_shape ?y (drop g sh)" "row_index (drop g sh) ?y = i - 1" using linearIdToCoord_inverse [OF st, of "i - 1"] a by auto
  have la: "length a = g" using a in_shape_length sh(2) by fastforce
  have whole: "in_shape (a @ ?x) sh" "in_shape (a @ ?y) sh"
    using a x(1) y(1) la sh(2) in_shape_append_iff [of a "take g sh" _ "drop g sh"] by simp_all
  have advance: "take j (a @ ?x) = take j (a @ ?y)"
      "row_index (drop j sh) (drop j (a @ ?x)) = row_index (drop j sh) (drop j (a @ ?y)) + 1"
    if j: "g \<le> j" "d dvd prod_list (drop j sh)" for j
  proof -
    have dd: "drop (j - g) (drop g sh) = drop j sh" using j(1) by simp
    have "\<not> prod_list (drop (j - g) (drop g sh)) dvd row_index (drop g sh) ?x"
      unfolding dd x(2) using j(2) a dvd_trans by blast
    from next_position [OF x(1) y(1) _ this] x(2) y(2) dd la j(1)
    show "take j (a @ ?x) = take j (a @ ?y)"
      "row_index (drop j sh) (drop j (a @ ?x)) = row_index (drop j sh) (drop j (a @ ?y)) + 1" by simp_all
  qed
  have nth: "(a @ ?x) ! i' = (a @ ?y) ! i'" if "take j (a @ ?x) = take j (a @ ?y)" "i' < j" for i' j
    using that by (metis nth_take)
  have r: "\<forall>e\<in>set (results m). strided_expr (length sh) e" "results m \<noteq> []" using m by (auto simp: strided_map_def)
  have same: "eval_expr (a @ ?x) [] e = eval_expr (a @ ?y) [] e" if e: "e \<in> set (butlast (results m))" for e
  proof -
    have se: "strided_expr (length sh) e" using e r(1) in_set_butlastD by fastforce
    have "coefficient e j * (a @ ?x) ! j = coefficient e j * (a @ ?y) ! j" if j: "j < length sh" for j
    proof (cases "j < k")
      case True
      then show ?thesis using nth [OF advance(1) [OF kp(1) d(1)]] by simp
    next
      case False
      then consider "\<not> grid_dim m j" | "sh ! j = 1" using grid j by (meson leI)
      then show ?thesis
      proof cases
        case 1
        then show ?thesis using e coefficient_absent [OF se] by (auto simp: grid_dim_def)
      next
        case 2
        then show ?thesis using in_shape_nth [OF whole(1) j] in_shape_nth [OF whole(2) j] by simp
      qed
    qed
    then have "(\<Sum>j<length sh. coefficient e j * (a @ ?x) ! j) = (\<Sum>j<length sh. coefficient e j * (a @ ?y) ! j)"
      by (intro sum.cong) auto
    then show ?thesis using eval_strided [OF se, of "a @ ?x"] eval_strided [OF se, of "a @ ?y"] by simp
  qed
  let ?e = "last (results m)"
  have se: "strided_expr (length sh) ?e" using r by simp
  have ev: "eval_expr c [] ?e = eval_expr (replicate (length sh) 0) [] ?e + (\<Sum>j<p. coefficient ?e j * c ! j)
      + elem * row_index (drop p sh) (drop p c)" if c: "in_shape c sh" for c
  proof -
    have "(\<Sum>j<length sh. coefficient ?e j * c ! j) = (\<Sum>j<p. coefficient ?e j * c ! j) + (\<Sum>j = p..<length sh. coefficient ?e j * c ! j)"
      using kp(4) by (metis atLeast0LessThan le0 sum.atLeastLessThan_concat)
    then show ?thesis using eval_strided [OF se, of c] strides c by (simp add: row_major_from_def)
  qed
  note adv = advance [OF kp(3) d(2)]
  have "(\<Sum>j<p. coefficient ?e j * (a @ ?x) ! j) = (\<Sum>j<p. coefficient ?e j * (a @ ?y) ! j)"
    using nth [OF adv(1)] by (intro sum.cong) auto
  then have last: "eval_expr (a @ ?x) [] ?e = eval_expr (a @ ?y) [] ?e + elem"
    using ev [OF whole(1)] ev [OF whole(2)] adv(2) by (simp add: algebra_simps)
  have c: "compose_map m z = map (eval_expr z []) (butlast (results m)) @ [eval_expr z [] ?e]" for z
    unfolding compose_map_def using r(2) by (metis append_butlast_last_id list.simps(8,9) map_append)
  show "compose_map m (a @ ?x) = bump elem (compose_map m (a @ ?y))"
    unfolding c bump_def using same last by (simp add: list_update_append)
qed

section \<open>Properties\<close>

text \<open>C12: For a strided map the analytic factor is a size at which every transfer is contiguous: no
  element is moved to a wrong address when transfers of that size replace single elements. MLIR's
  operators are any that keep sums and multiples of dimensions in that form.\<close>

theorem analytic_factor_strided:
  assumes "legal_affine ops" "keeps_strided ops" "strided_map m sh" "\<forall>x\<in>set sh. 0 < x" "even (length sh)"
    "numGridDims < length sh" "0 < elem"
  shows "\<exists>f. computeCoalescingFactorAnalytically ops regs0 m sh numGridDims elem = Inr f \<and> 0 < f \<and>
    chunks_contiguous m sh elem numGridDims f"
proof -
  from simplified_map [OF assms(1-3)] obtain m' where m': "simplifyAffineMapWithRangeAnalysis ops (simplifyZeroFloorDiv ops m) sh False = Some m'"
      "strided_map m' sh" "\<And>c. compose_map m' c = compose_map m c" by blast
  from analytic_parts [OF m'(2) assms(4,6,7), of ops] obtain k p bounds where
    kp: "numGridDims \<le> k" "k \<le> length sh" "numGridDims \<le> p" "p \<le> length sh"
    and run: "shard_dim_bounds ops m' sh numGridDims [0..<length sh - numGridDims] = Some (Some bounds)"
      "accumulate_contiguity (rev (zip bounds (drop numGridDims sh))) 1 = Some (prod_list (drop k sh))"
      "analyzeShardDimStrides m' sh numGridDims elem = Some (Some (elem * prod_list (drop p sh)))"
    and parts: "\<forall>j. k \<le> j \<and> j < length sh \<longrightarrow> \<not> grid_dim m' j \<or> sh ! j = 1" "row_major_from (last (results m')) sh elem p"
    by blast
  have pos: "0 < prod_list (drop i sh)" for i using prod_list_positive assms(4) in_set_dropD by metis
  let ?F = "prod_list (drop k sh)" and ?Q = "prod_list (drop p sh)"
  let ?f = "if ?Q < ?F then gcd ?F ?Q else ?F"
  have limit: "(elem * ?Q) smod elem = 0" "(elem * ?Q) sdiv elem = ?Q"
    using assms(7) pos [of p] by (simp_all add: smod_mod_positive sdiv_nonneg)
  have "numDims m = length sh" using assms(3) by (simp add: strided_map_def)
  then have "computeCoalescingFactorAnalytically ops regs0 m sh numGridDims elem = Inr ?f"
    using assms(5-7) m'(1) run limit
    by (simp add: computeCoalescingFactorAnalytically_def even_iff_mod_2_eq_zero)
  moreover have "0 < ?f" using pos by (simp add: gcd_pos_int)
  moreover have "?f dvd ?F" "?f dvd ?Q" using suffix_dvd [OF assms(4), of k p] by auto
  from chunks_of_parts [OF m'(2) assms(4,6) kp parts this] have "chunks_contiguous m sh elem numGridDims ?f"
    by (simp add: chunks_contiguous_def m'(3))
  ultimately show ?thesis by blast
qed

text \<open>A grid of 2 by 2 shards of 4 rows of 8 elements; rows are contiguous and 16 elements apart.\<close>

definition padded_rows :: affine_map where
  "padded_rows = \<lparr>numDims = 4, numSymbols = 0, results =
     [DimE 0, DimE 1, BinE AddK (BinE MulK (DimE 2) (ConstE 32)) (BinE MulK (DimE 3) (ConstE 2))]\<rparr>"

theorem analytic_factor_strided_witness:
  "computeCoalescingFactorAnalytically folding_ops (\<lambda>_. 0) padded_rows [2, 2, 4, 8] 2 2 = Inr 8 \<and>
   chunks_contiguous padded_rows [2, 2, 4, 8] 2 2 8"
proof -
  have "strided_map padded_rows [2, 2, 4, 8]" by (simp add: strided_map_def padded_rows_def)
  from analytic_factor_strided [OF legal_folding keeps_strided_folding this, of 2 2 "\<lambda>_. 0"]
  obtain f where f: "computeCoalescingFactorAnalytically folding_ops (\<lambda>_. 0) padded_rows [2, 2, 4, 8] 2 2 = Inr f"
    "chunks_contiguous padded_rows [2, 2, 4, 8] 2 2 f" by auto
  have "computeCoalescingFactorAnalytically folding_ops (\<lambda>_. 0) padded_rows [2, 2, 4, 8] 2 2 = Inr 8" by code_simp
  then show ?thesis using f by simp
qed

text \<open>Maps with a remainder of a shifted dimension, with nested remainders, and with a scaled sum under a
  floor division.\<close>

definition off_by_one_row :: affine_map where
  "off_by_one_row = \<lparr>numDims = 2, numSymbols = 0, results =
     [DimE 0, BinE ModK (BinE AddK (DimE 1) (ConstE 1)) (ConstE 4)]\<rparr>"

definition nested_mod_row :: affine_map where
  "nested_mod_row = \<lparr>numDims = 2, numSymbols = 0, results =
     [DimE 0, BinE ModK (BinE ModK (DimE 1) (ConstE 6)) (ConstE 4)]\<rparr>"

definition scaled_core :: affine_map where
  "scaled_core = \<lparr>numDims = 2, numSymbols = 0, results =
     [BinE FloorDivK (BinE MulK (BinE AddK (DimE 0) (DimE 1)) (ConstE 2)) (ConstE 4), DimE 1]\<rparr>"

text \<open>With remainders and divisions the analysis can promise transfers that are not contiguous, where
  sampling finds the right size: only the first jump of \<open>(d1 + 1) mod 4\<close> counts, nested remainders are
  replaced by the smaller modulus, and a multiple of a sum is taken not to depend on the dimension.\<close>

theorem analytic_factor_overstated:
  "computeCoalescingFactorAnalytically folding_ops (\<lambda>_. 0) off_by_one_row [1, 9] 1 1 = Inr 3 \<and>
   calculateCoalescingFactor (\<lambda>_. 0) off_by_one_row [1, 9] 1 1 = Inr 1 \<and>
   computeCoalescingFactorAnalytically folding_ops (\<lambda>_. 0) nested_mod_row [1, 12] 1 1 = Inr 4 \<and>
   calculateCoalescingFactor (\<lambda>_. 0) nested_mod_row [1, 12] 1 1 = Inr 2 \<and>
   computeCoalescingFactorAnalytically folding_ops (\<lambda>_. 0) scaled_core [1, 4] 1 1 = Inr 4 \<and>
   calculateCoalescingFactor (\<lambda>_. 0) scaled_core [1, 4] 1 1 = Inr 2"
  by (intro conjI) code_simp+

end
