(* ===== verification/Layouts.thy ===== *)
theory Layouts
  imports Tensors
begin

text \<open>
  \<open>MetalLayoutAttr\<close> of \<open>lib/Dialect/TTCore/IR/TTCoreOpsTypes.cpp\<close>: how a logical tensor becomes a
  physical one by collapsing intervals of dimensions and aligning every collapse stage. The vector of
  flattened intervals is a list of pairs. \<open>None\<close> is a failed assertion; that sizes are not negative and
  alignments positive, which \<open>alignUp\<close> asserts, follows from the verifier and is a hypothesis of
  the properties. \<open>llvm::sort\<close> among equal starts is taken to be stable.
\<close>

named_theorems layout_simps "unfolding rules of the layout model"

section \<open>Layouts\<close>

datatype memory_layout = Interleaved | Sharded

record metal_layout =
  logicalShape :: shape
  dimAlignments :: "int list"
  collapsedIntervals :: "(int \<times> int) list"
  memoryLayout :: memory_layout

definition default_tile :: "int list" where
  "default_tile = [32, 32]"

definition alignUp :: "int \<Rightarrow> int \<Rightarrow> int" where
  "alignUp val alignment = ((val + alignment - 1) sdiv alignment) * alignment"

section \<open>Intervals\<close>

definition wrap_index :: "nat \<Rightarrow> int \<Rightarrow> int" where
  "wrap_index rank i = (if i < 0 then i + int rank else i)"

definition normalizeAndFlattenIntervals :: "(int \<times> int) list \<Rightarrow> nat \<Rightarrow> (int \<times> int) list" where
  "normalizeAndFlattenIntervals inputIntervals inputRank =
     (let intervals = sort_key fst (map (\<lambda>(s, e). (wrap_index inputRank s, wrap_index inputRank e)) inputIntervals);
          coveredUpTo = foldl (\<lambda>c (s, e). max c e) 0 intervals;
          normalized = intervals @ map (\<lambda>c. (c, c + 1)) [coveredUpTo..int inputRank - 1]
      in if inputRank = 1 \<and> length normalized = 1 then (0, 0) # normalized else normalized)"

definition getNormalizedIntervals :: "metal_layout \<Rightarrow> (int \<times> int) list" where
  "getNormalizedIntervals layout = normalizeAndFlattenIntervals (collapsedIntervals layout) (length (logicalShape layout))"

text \<open>The loop looks at every second interval only.\<close>

definition hasNonTrivialCollapsedDims :: "metal_layout \<Rightarrow> shape \<Rightarrow> bool" where
  "hasNonTrivialCollapsedDims layout deviceShape =
     (let normalizedIntervals = getNormalizedIntervals layout; n = length deviceShape
      in list_ex (\<lambda>i. let (s, e) = normalizedIntervals ! i in wrap_index n e - wrap_index n s > 1)
           (filter (\<lambda>i. i mod 2 = 0) [0..<length normalizedIntervals]))"

definition computeDefaultFlattenedIntervals :: "nat \<Rightarrow> (int \<times> int) list" where
  "computeDefaultFlattenedIntervals rank =
     (if rank = 0 then []
      else let numDimsToCollapse = int rank - 1
           in [(0, numDimsToCollapse), (numDimsToCollapse, numDimsToCollapse + 1)])"

section \<open>Alignments\<close>

definition computeTileAlignments :: "shape \<Rightarrow> (int \<times> int) list \<Rightarrow> int list option" where
  "computeTileAlignments sh ivs =
     (let rank = length sh; collapsedRank = length ivs; alignments = replicate rank 1
      in if rank = 0 then Some alignments
         else if rank = 1 then Some (alignments[0 := default_tile ! 1])
         else if collapsedRank < 2 then None
         else let last1 = snd (ivs ! (collapsedRank - 1)) - 1; last2 = snd (ivs ! (collapsedRank - 2)) - 1
              in if last1 < 0 \<or> int rank \<le> last1 \<or> last2 < 0 \<or> int rank \<le> last2 then None
                 else let al = alignments[nat last1 := default_tile ! 1, nat last2 := default_tile ! 0]
                      in if al ! (rank - 1) mod default_tile ! 1 = 0 \<and> al ! (rank - 2) mod default_tile ! 0 = 0
                         then Some al else None)"

text \<open>One of the last two intervals in \<open>computeGridAwareDimAlignments\<close>, counted by \<open>back\<close> from the
  end: 1 is the last.\<close>

definition grid_aware_interval ::
  "shape \<Rightarrow> (int \<times> int) list \<Rightarrow> nat \<Rightarrow> int \<Rightarrow> int \<Rightarrow> int list \<Rightarrow> int list option" where
  "grid_aware_interval sh ivs back tileDim gridDim alignments =
     (let rank = length sh; (s, e) = ivs ! (length ivs - back); intervalEnd = e - 1;
          gridAlignmentThreshold = gridDim * tileDim;
          collapsedSize = foldl (\<lambda>size i. size * (if i \<ge> int rank - 2 then alignUp (sh ! nat i) tileDim else sh ! nat i))
                            1 (rev [s..intervalEnd]);
          alignToGrid = collapsedSize > gridAlignmentThreshold;
          alignment = (if alignToGrid then gridAlignmentThreshold else tileDim)
      in if s < 0 \<or> intervalEnd < 0 \<or> int rank \<le> intervalEnd then None
         else if s = intervalEnd then Some (alignments[nat intervalEnd := alignment])
         else if back \<noteq> 2 \<or> intervalEnd \<noteq> int rank - 2 \<or> int rank \<le> s then None
         else Some (let al = alignments[nat intervalEnd := tileDim] in if alignToGrid then al[nat s := alignment] else al))"

definition computeGridAwareDimAlignments :: "shape \<Rightarrow> int list \<Rightarrow> (int \<times> int) list \<Rightarrow> int list option" where
  "computeGridAwareDimAlignments sh deviceGridShape ivs =
     (let rank = length sh; alignments = replicate rank 1
      in if length deviceGridShape \<noteq> 2 then None
         else if rank = 0 then Some alignments
         else if length ivs < 2 then None
         else if rank = 1
         then let tileDim = default_tile ! 1; threshold = deviceGridShape ! 1 * tileDim
              in Some (alignments[0 := (if alignUp (sh ! 0) tileDim > threshold then threshold else tileDim)])
         else case grid_aware_interval sh ivs 1 (default_tile ! 1) (deviceGridShape ! 1) alignments of
                None \<Rightarrow> None
              | Some al1 \<Rightarrow>
                  (case grid_aware_interval sh ivs 2 (default_tile ! 0) (deviceGridShape ! 0) al1 of
                     None \<Rightarrow> None
                   | Some al \<Rightarrow>
                       if al ! (rank - 1) mod default_tile ! 1 = 0 \<and> al ! (rank - 2) mod default_tile ! 0 = 0
                       then Some al else None))"

text \<open>\<open>MetalLayoutAttr::get\<close> without intervals, and with intervals but without alignments.\<close>

definition get_default :: "shape \<Rightarrow> memory_layout \<Rightarrow> metal_layout option" where
  "get_default sh ml =
     (let ivs = computeDefaultFlattenedIntervals (length sh)
      in map_option (\<lambda>al. \<lparr>logicalShape = sh, dimAlignments = al, collapsedIntervals = ivs, memoryLayout = ml\<rparr>)
           (computeTileAlignments sh ivs))"

definition get_collapsed :: "shape \<Rightarrow> memory_layout \<Rightarrow> (int \<times> int) list \<Rightarrow> metal_layout option" where
  "get_collapsed sh ml ivs =
     map_option (\<lambda>al. \<lparr>logicalShape = sh, dimAlignments = al, collapsedIntervals = ivs, memoryLayout = ml\<rparr>)
       (computeTileAlignments sh (normalizeAndFlattenIntervals ivs (length sh)))"

section \<open>Physical and device shapes\<close>

text \<open>\<open>utils::computeCollapsedIntervalSize\<close>, and the same loop inside the layout.\<close>

definition computeCollapsedIntervalSize :: "shape \<Rightarrow> int list \<Rightarrow> nat \<Rightarrow> nat \<Rightarrow> int" where
  "computeCollapsedIntervalSize sh alignments intervalStart intervalEnd =
     foldl (\<lambda>collapsedSize dim. alignUp (sh ! dim * collapsedSize) (alignments ! dim))
       (alignUp (sh ! (intervalEnd - 1)) (alignments ! (intervalEnd - 1))) (rev [intervalStart..<intervalEnd - 1])"

fun apply_intervals ::
  "shape \<Rightarrow> int list \<Rightarrow> (int \<times> int) list \<Rightarrow> int \<Rightarrow> int list \<Rightarrow> (int \<times> int list) option" where
  "apply_intervals sh al [] currentIdx resultShape = Some (currentIdx, resultShape)"
| "apply_intervals sh al ((s, e) # ivs) currentIdx resultShape =
     (let start = wrap_index (length sh) s; stop = wrap_index (length sh) e
      in if \<not> (0 \<le> start \<and> start < int (length sh)) \<or> \<not> (start \<le> stop \<and> stop \<le> int (length sh)) then None
         else apply_intervals sh al ivs stop
                (if stop - start = 1 then resultShape @ [alignUp (sh ! nat start) (al ! nat start)]
                 else if stop > start
                 then resultShape @ [computeCollapsedIntervalSize sh al (nat start) (nat stop)]
                 else resultShape))"

definition applyCollapsedIntervalsAndAlignments :: "shape \<Rightarrow> (int \<times> int) list \<Rightarrow> int list \<Rightarrow> shape option" where
  "applyCollapsedIntervalsAndAlignments sh ivs al =
     (if length sh \<noteq> length al then None
      else case apply_intervals sh al ivs 0 [] of
             None \<Rightarrow> None
           | Some (currentIdx, resultShape) \<Rightarrow>
               Some (resultShape @ map (\<lambda>i. alignUp (sh ! i) (al ! i)) (rev [nat currentIdx..<length sh])))"

definition getPhysicalShape :: "metal_layout \<Rightarrow> int list \<Rightarrow> shape option" where
  "getPhysicalShape layout tileShape =
     (case applyCollapsedIntervalsAndAlignments (logicalShape layout) (getNormalizedIntervals layout) (dimAlignments layout) of
        None \<Rightarrow> None
      | Some phys0 \<Rightarrow>
          let rank = length (logicalShape layout);
              phys1 = (if rank = 0 \<and> phys0 = [] then default_tile else phys0);
              phys = (if rank = 1 \<and> length phys1 = 1 then default_tile ! 0 # phys1 else phys1);
              n = length phys
          in if tileShape = [] then Some phys
             else if \<not> 2 \<le> n \<or> length tileShape \<noteq> 2 then None
             else if phys ! (n - 2) smod tileShape ! 0 \<noteq> 0 \<or> phys ! (n - 1) smod tileShape ! 1 \<noteq> 0 then None
             else Some (phys[n - 2 := phys ! (n - 2) sdiv tileShape ! 0, n - 1 := phys ! (n - 1) sdiv tileShape ! 1]))"

definition getDeviceShape :: "metal_layout \<Rightarrow> shape \<Rightarrow> int list \<Rightarrow> shape option" where
  "getDeviceShape layout gridShape tileShape =
     (case getPhysicalShape layout tileShape of
        None \<Rightarrow> None
      | Some phys \<Rightarrow>
          if length gridShape < length phys then None
          else if \<exists>i\<in>set [0..<length phys]. gridShape ! i = 0 \<or> phys ! i smod gridShape ! i \<noteq> 0 then None
          else Some (gridShape @ map (\<lambda>i. phys ! i sdiv gridShape ! i) [0..<length phys]))"

section \<open>The verifier\<close>

datatype layout_error =
    AlignmentRank | AlignmentNotPositive | StartOutOfBounds | EndOutOfBounds | StartExceedsEnd

definition check_interval :: "nat \<Rightarrow> int \<times> int \<Rightarrow> layout_error verdict" where
  "check_interval rank iv =
     (let normalizedStart = wrap_index rank (fst iv); normalizedEnd = wrap_index rank (snd iv)
      in if normalizedStart < 0 \<or> int rank \<le> normalizedStart then Inl StartOutOfBounds
         else if normalizedEnd < 0 \<or> int rank < normalizedEnd then Inl EndOutOfBounds
         else if normalizedEnd < normalizedStart then Inl StartExceedsEnd
         else success)"

definition verifyLayout :: "metal_layout \<Rightarrow> layout_error verdict" where
  "verifyLayout layout =
     (let rank = length (logicalShape layout)
      in if length (dimAlignments layout) \<noteq> rank then Inl AlignmentRank
         else if \<not> list_all (\<lambda>a. 0 < a) (dimAlignments layout) then Inl AlignmentNotPositive
         else check_all (check_interval rank) (collapsedIntervals layout))"

section \<open>Host strides\<close>

text \<open>The dimensions of an interval from the innermost one; the state is the strides, the current stride
  and the collapsed size.\<close>

fun host_dims :: "shape \<Rightarrow> int list \<Rightarrow> nat list \<Rightarrow> int list \<times> int \<times> int \<Rightarrow> int list \<times> int \<times> int" where
  "host_dims sh al [] st = st"
| "host_dims sh al (j # js) (strides, currentStride, collapsedSize) =
     (let strides' = strides[j := currentStride];
          collapsedSize' = alignUp (collapsedSize * sh ! j) (al ! j)
      in host_dims sh al js (strides', (currentStride sdiv collapsedSize) * collapsedSize', collapsedSize'))"

fun host_intervals :: "shape \<Rightarrow> int list \<Rightarrow> (int \<times> int) list \<Rightarrow> int list \<times> int \<Rightarrow> int list \<times> int" where
  "host_intervals sh al [] st = st"
| "host_intervals sh al ((s, e) # ivs) (strides, currentStride) =
     (let (strides', currentStride', _) = host_dims sh al (rev [nat s..<nat e]) (strides, currentStride, 1)
      in host_intervals sh al ivs (strides', currentStride'))"

definition getHostStrideAndVolume :: "metal_layout \<Rightarrow> (int list \<times> int) option" where
  "getHostStrideAndVolume layout =
     (let sh = logicalShape layout;
          (strides, stride) = host_intervals sh (dimAlignments layout) (rev (getNormalizedIntervals layout))
                                (replicate (length sh) 0, 1);
          total = (if length sh = 1 then stride * default_tile ! 0 else stride)
      in if total \<ge> volume sh 1 then Some (strides, total) else None)"

end
