(* ===== verification/GridSelect.thy ===== *)
theory GridSelect
  imports Layouts Factors Complex_Main
begin

text \<open>
  Grid selection: \<open>lib/Dialect/D2M/Utils/GridSelectionUtils.cpp\<close>, the legal physical grids of
  \<open>lib/Dialect/D2M/Utils/Utils.cpp\<close> and the helpers of \<open>lib/Dialect/D2M/Analysis/GridAnalysis.cpp\<close>.
  \<open>None\<close> is a failed assertion. Ratios of sizes, which the code computes as doubles, are rationals:
  sizes and products below \<open>2 ^ 53\<close> are exact there, and of the two ratios of a 2D shape at most one
  is above 1.
\<close>

section \<open>Physical grids\<close>

text \<open>The candidates \<open>i, i - 1, ..., 1\<close>; an empty list is "no legal grid".\<close>

fun legal_loop :: "int \<Rightarrow> int list \<Rightarrow> int list \<Rightarrow> int list" where
  "legal_loop gridVolume target [] = []"
| "legal_loop gridVolume target (i # is) =
     (let fits = (\<lambda>y x. y \<le> target ! 0 \<and> x \<le> target ! 1); other = gridVolume div i
      in if gridVolume mod i = 0 \<and> fits i other then [i, other]
         else if gridVolume mod i = 0 \<and> fits other i then [other, i]
         else legal_loop gridVolume target is)"

definition findLegalPhysicalGridForVolume :: "int \<Rightarrow> int list \<Rightarrow> int list option" where
  "findLegalPhysicalGridForVolume gridVolume target =
     (if \<not> 0 < gridVolume \<or> \<not> 2 \<le> length target \<or> \<not> (0 < target ! 0 \<and> 0 < target ! 1) then None
      else Some (legal_loop gridVolume target (rev [1..int (isqrt (nat gridVolume))])))"

definition collapseToPhysicalGrid2D :: "shape \<Rightarrow> shape \<Rightarrow> int list option" where
  "collapseToPhysicalGrid2D gridShape deviceGridShape =
     (case findLegalPhysicalGridForVolume (prod_list gridShape) deviceGridShape of
        Some [] \<Rightarrow> None
      | r \<Rightarrow> r)"

definition getPhysicalGridExtent :: "shape \<Rightarrow> int list \<Rightarrow> int list option" where
  "getPhysicalGridExtent virtualGrid targetGrid =
     (if length targetGrid \<noteq> 2 then None
      else case findLegalPhysicalGridForVolume (prod_list virtualGrid) targetGrid of
             Some [] \<Rightarrow> None
           | r \<Rightarrow> r)"

section \<open>Block sharding\<close>

definition largest_divisor :: "int \<Rightarrow> int \<Rightarrow> int" where
  "largest_divisor extent target = (case find (\<lambda>g. extent mod g = 0) (rev [1..target]) of Some g \<Rightarrow> g | None \<Rightarrow> 1)"

definition computeOptimalBlockShardedGrid :: "shape \<Rightarrow> int list \<Rightarrow> int list option" where
  "computeOptimalBlockShardedGrid physicalShape targetGrid =
     (let n = length physicalShape; dimOffset = n - 2
      in if length targetGrid \<noteq> 2 \<or> n < 2 then None
         else if \<not> (\<forall>i\<in>set [0..<2]. 0 < physicalShape ! (dimOffset + i)) then None
         else Some (replicate dimOffset 1 @
                map (\<lambda>i. largest_divisor (physicalShape ! (dimOffset + i)) (targetGrid ! i)) [0..<2]))"

section \<open>Virtual grids\<close>

definition dim_ratio :: "shape \<Rightarrow> nat \<Rightarrow> rat" where
  "dim_ratio sh i = foldl (\<lambda>ratio j. if i = j then ratio else ratio / of_int (sh ! j)) (of_int (sh ! i)) [0..<length sh]"

definition findShardedDimIndex :: "shape \<Rightarrow> nat" where
  "findShardedDimIndex sh =
     snd (foldl (\<lambda>(bestRatio, bestIndex) i. if dim_ratio sh i > bestRatio then (dim_ratio sh i, i) else (bestRatio, bestIndex))
           (1, 0) [0..<length sh])"

definition isLegalVolume :: "int list \<Rightarrow> int \<Rightarrow> bool" where
  "isLegalVolume targetGrid v \<longleftrightarrow>
     (case findLegalPhysicalGridForVolume v targetGrid of Some g \<Rightarrow> g \<noteq> [] | None \<Rightarrow> False)"

text \<open>The recursive enumeration over the factors of the dimensions left; the candidate holds the
  dimensions already chosen. The cache of legal volumes only saves work.\<close>

fun enumerateGrids ::
  "int list \<Rightarrow> int \<Rightarrow> int list list \<Rightarrow> int list \<Rightarrow> int \<Rightarrow> int list \<times> int \<Rightarrow> int list \<times> int" where
  "enumerateGrids targetGrid targetVolume [] candidate currentVolume best =
     (if currentVolume > targetVolume then best
      else if currentVolume > snd best \<and> isLegalVolume targetGrid currentVolume then (candidate, currentVolume)
      else best)"
| "enumerateGrids targetGrid targetVolume (fs # factors) candidate currentVolume best =
     (if currentVolume > targetVolume then best
      else foldl (\<lambda>b f. enumerateGrids targetGrid targetVolume factors (candidate @ [f]) (currentVolume * f) b) best fs)"

text \<open>An empty grid tells the caller to shard blocks. A quarter of a volume is rounded down by the
  cast.\<close>

definition computeOptimalVirtualGrid :: "shape \<Rightarrow> int list \<Rightarrow> int list" where
  "computeOptimalVirtualGrid physicalShape targetGrid =
     (let targetGridVolume = volume targetGrid 1
      in if length physicalShape \<noteq> 2
         then fst (enumerateGrids targetGrid targetGridVolume (map getFactors physicalShape) [] 1 ([0], 0))
         else let shardedDimIndex = findShardedDimIndex physicalShape;
                  factors = getFactors (physicalShape ! shardedDimIndex);
                  bestFactor = (case find (\<lambda>f. f \<le> targetGridVolume \<and> isLegalVolume targetGrid f) (rev factors) of
                                  Some f \<Rightarrow> f | None \<Rightarrow> 0)
              in if bestFactor = 0 \<or> bestFactor \<le> targetGridVolume div 4 then []
                 else (replicate 2 1)[shardedDimIndex := bestFactor])"

definition shouldImplementAsVirtualGrid :: "memory_layout \<Rightarrow> shape \<Rightarrow> int list \<Rightarrow> bool option" where
  "shouldImplementAsVirtualGrid ml physicalShape targetGrid =
     (if ml = Interleaved then Some False
      else if length physicalShape \<noteq> 2 then Some True
      else map_option (\<lambda>g. 2 * volume g 1 < volume targetGrid 1)
             (computeOptimalBlockShardedGrid physicalShape targetGrid))"

definition computeOptimalGrid :: "memory_layout \<Rightarrow> shape \<Rightarrow> int list \<Rightarrow> int list option" where
  "computeOptimalGrid ml physicalShape targetGrid =
     (case shouldImplementAsVirtualGrid ml physicalShape targetGrid of
        None \<Rightarrow> None
      | Some asVirtual \<Rightarrow>
          if asVirtual \<and> computeOptimalVirtualGrid physicalShape targetGrid \<noteq> []
          then Some (computeOptimalVirtualGrid physicalShape targetGrid)
          else computeOptimalBlockShardedGrid physicalShape targetGrid)"

section \<open>Alignments for a selected grid\<close>

definition computePhysicalShape :: "metal_layout \<Rightarrow> int list \<Rightarrow> int list option \<Rightarrow> bool \<Rightarrow> shape option" where
  "computePhysicalShape layout targetGrid tile ttnnMode =
     (if ttnnMode then getPhysicalShape layout default_tile
      else case computeGridAwareDimAlignments (logicalShape layout) targetGrid (getNormalizedIntervals layout) of
             None \<Rightarrow> None
           | Some al \<Rightarrow> getPhysicalShape (layout\<lparr>dimAlignments := al\<rparr>)
                 (case tile of Some t \<Rightarrow> t | None \<Rightarrow> default_tile))"

text \<open>The step for one interval, given by its number; the first candidate that makes the interval
  divisible is taken.\<close>

definition select_interval ::
  "shape \<Rightarrow> (int \<times> int) list \<Rightarrow> int list \<Rightarrow> int list \<Rightarrow> nat \<Rightarrow> int list \<Rightarrow> int list option" where
  "select_interval sh ivs selectedGrid tileShape idx alignments =
     (let gridDim = selectedGrid ! idx; rank = length ivs;
          isTile = idx + 2 \<ge> rank; tileIdx = idx + 2 - rank;
          threshold = gridDim * (if isTile then default_tile ! tileIdx else 1);
          s = nat (fst (ivs ! idx)); e = nat (snd (ivs ! idx));
          alignmentDim = (if s + 1 = e then e - 1 else s);
          sizeOf = (\<lambda>al. computeCollapsedIntervalSize sh al s e);
          al1 = (if sizeOf alignments > threshold then alignments[alignmentDim := lcm (alignments ! alignmentDim) threshold] else alignments);
          divisor = gridDim * (if tileShape \<noteq> [] \<and> isTile then tileShape ! tileIdx else 1)
      in if gridDim \<le> 1 then Some alignments
         else if \<not> s < e then None
         else if sizeOf al1 smod divisor = 0 then Some al1
         else let baseAlignment = al1 ! alignmentDim; maxAlignment = lcm baseAlignment divisor
              in map_option (\<lambda>k. al1[alignmentDim := baseAlignment * k])
                   (find (\<lambda>k. sizeOf (al1[alignmentDim := baseAlignment * k]) smod divisor = 0) [1..maxAlignment div baseAlignment]))"

fun select_intervals ::
  "shape \<Rightarrow> (int \<times> int) list \<Rightarrow> int list \<Rightarrow> int list \<Rightarrow> nat list \<Rightarrow> int list \<Rightarrow> int list option" where
  "select_intervals sh ivs selectedGrid tileShape [] alignments = Some alignments"
| "select_intervals sh ivs selectedGrid tileShape (i # is) alignments =
     (case select_interval sh ivs selectedGrid tileShape i alignments of
        None \<Rightarrow> None
      | Some al \<Rightarrow> select_intervals sh ivs selectedGrid tileShape is al)"

definition computeSelectedGridDimAlignments :: "metal_layout \<Rightarrow> int list \<Rightarrow> int list \<Rightarrow> int list option" where
  "computeSelectedGridDimAlignments layout selectedGrid tileShape =
     (let ivs = getNormalizedIntervals layout
      in if length selectedGrid \<noteq> length ivs then None
         else case computeTileAlignments (logicalShape layout) ivs of
                None \<Rightarrow> None
              | Some al \<Rightarrow> select_intervals (logicalShape layout) ivs selectedGrid tileShape [0..<length ivs] al)"

definition layoutWithOptimalGrid :: "metal_layout \<Rightarrow> int list \<Rightarrow> bool \<Rightarrow> int list \<Rightarrow> metal_layout option" where
  "layoutWithOptimalGrid oldLayout selectedGrid ttnnMode tileShape =
     (let n = length (logicalShape oldLayout);
          newDimAlignments =
            (if ttnnMode
             then (if n = 0 then None
                   else if n = 1 then Some [default_tile ! 1]
                   else Some ((replicate n 1)[n - 1 := default_tile ! 1, n - 2 := default_tile ! 0]))
             else computeSelectedGridDimAlignments oldLayout selectedGrid tileShape)
      in map_option (\<lambda>al. oldLayout\<lparr>dimAlignments := al\<rparr>) newDimAlignments)"

text \<open>The shape and layout of \<open>tensorWithOptimalGrid\<close>; \<open>tile\<close> is the tile type of the elements.\<close>

definition tensorWithOptimalGrid ::
  "metal_layout \<Rightarrow> int list option \<Rightarrow> bool \<Rightarrow> int list \<Rightarrow> int list \<Rightarrow> (shape \<times> metal_layout) option" where
  "tensorWithOptimalGrid oldLayout tile ttnnMode optimalGrid paddingTileShape =
     (let tileShape = (case tile of Some t \<Rightarrow> t | None \<Rightarrow> []);
          layoutTileShape = (if paddingTileShape = [] then tileShape else paddingTileShape)
      in case layoutWithOptimalGrid oldLayout optimalGrid ttnnMode layoutTileShape of
           None \<Rightarrow> None
         | Some newLayout \<Rightarrow> map_option (\<lambda>sh. (sh, newLayout)) (getDeviceShape newLayout optimalGrid tileShape))"

section \<open>Operands of a generic operation\<close>

definition findLargestCommonFactor :: "int \<Rightarrow> int list \<Rightarrow> int" where
  "findLargestCommonFactor maxFactor physicalDims =
     (case find (\<lambda>f. list_all (\<lambda>d. d smod f = 0) physicalDims) (rev [2..maxFactor]) of Some f \<Rightarrow> f | None \<Rightarrow> 1)"

definition findIntervalIdxForDim :: "metal_layout \<Rightarrow> int \<Rightarrow> int" where
  "findIntervalIdxForDim layout d =
     (let ivs = getNormalizedIntervals layout
      in case find (\<lambda>i. fst (ivs ! i) \<le> d \<and> d < snd (ivs ! i)) [0..<length ivs] of Some i \<Rightarrow> int i | None \<Rightarrow> - 1)"

definition computeScalarConcatGridDim ::
  "int \<Rightarrow> int \<Rightarrow> int \<Rightarrow> int list \<Rightarrow> nat \<Rightarrow> int list \<Rightarrow> int" where
  "computeScalarConcatGridDim compositeConcatGridDim inputTileCount intervalSize candidateGrid concatIntervalIdx targetGrid =
     (case find (\<lambda>v. intervalSize smod v = 0 \<and> isLegalVolume targetGrid (volume (candidateGrid[concatIntervalIdx := v]) 1))
             (rev [1..min compositeConcatGridDim inputTileCount]) of
        Some v \<Rightarrow> v | None \<Rightarrow> 1)"

definition getTileSizeForLogicalDim :: "int \<Rightarrow> int \<Rightarrow> int list \<Rightarrow> int" where
  "getTileSizeForLogicalDim logicalRank d tileShape =
     (let tileIdx = d - (logicalRank - 2)
      in if tileIdx < 0 \<or> int (length tileShape) \<le> tileIdx then 1 else tileShape ! nat tileIdx)"

definition deriveCompositeInputAlignments :: "metal_layout \<Rightarrow> metal_layout \<Rightarrow> nat \<Rightarrow> int list \<Rightarrow> int list" where
  "deriveCompositeInputAlignments inputLayout materializedOutLayout concatDim paddingShape =
     (dimAlignments materializedOutLayout)[concatDim :=
        getTileSizeForLogicalDim (int (length (logicalShape inputLayout))) (int concatDim) paddingShape]"

definition computeScalarCompositeInputGrid ::
  "metal_layout \<Rightarrow> nat \<Rightarrow> int list \<Rightarrow> int list \<Rightarrow> int list \<Rightarrow> int list" where
  "computeScalarCompositeInputGrid layout concatDim selectedGrid paddingShape targetGrid =
     (let idx = findIntervalIdxForDim layout (int concatDim); sh = logicalShape layout;
          tileSize = getTileSizeForLogicalDim (int (length sh)) (int concatDim) paddingShape;
          inputTileCount = alignUp (sh ! concatDim) tileSize sdiv tileSize;
          (s, e) = getNormalizedIntervals layout ! nat idx;
          intervalSize = computeCollapsedIntervalSize sh (dimAlignments layout) (nat s) (nat e)
      in if idx < 0 then selectedGrid
         else selectedGrid[nat idx := computeScalarConcatGridDim (selectedGrid ! nat idx) inputTileCount intervalSize
                             selectedGrid (nat idx) targetGrid])"

end
