(* ===== verification/LayoutFacts.thy ===== *)
theory LayoutFacts
  imports Layouts
begin

text \<open>
  Facts about layouts: the stages of a collapsed interval, physical shapes, and host strides as a mixed
  radix system.
\<close>

section \<open>Aligning\<close>

lemma alignUp_div:
  assumes "0 \<le> v" "0 < a"
  shows "alignUp v a = ((v + a - 1) div a) * a"
  using assms by (simp add: alignUp_def sdiv_nonneg)

lemma alignUp_ge:
  assumes "0 \<le> v" "0 < a"
  shows "v \<le> alignUp v a"
proof -
  have "(v + a - 1) - (v + a - 1) mod a = ((v + a - 1) div a) * a" by (simp add: minus_mod_eq_div_mult)
  moreover have "(v + a - 1) mod a < a" using assms by simp
  ultimately show ?thesis unfolding alignUp_div [OF assms] by linarith
qed

lemma alignUp_dvd: "a dvd alignUp v a"
  by (simp add: alignUp_def)

lemma alignUp_one: "0 \<le> v \<Longrightarrow> alignUp v 1 = v"
  by (simp add: alignUp_div)

section \<open>Collapse stages\<close>

text \<open>The size of dimensions \<open>j\<close> to \<open>e - 1\<close> when they are collapsed from the innermost one.\<close>

definition stage :: "shape \<Rightarrow> int list \<Rightarrow> nat \<Rightarrow> nat \<Rightarrow> int" where
  "stage sh al j e = foldl (\<lambda>c i. alignUp (sh ! i * c) (al ! i)) 1 (rev [j..<e])"

lemma stage_self [simp]: "stage sh al e e = 1"
  by (simp add: stage_def)

lemma stage_step: "j < e \<Longrightarrow> stage sh al j e = alignUp (sh ! j * stage sh al (Suc j) e) (al ! j)"
  by (simp add: stage_def upt_rec [of j e])

lemma collapsed_stage: "s < e \<Longrightarrow> computeCollapsedIntervalSize sh al s e = stage sh al s e"
proof -
  assume "s < e"
  then have "[s..<e] = [s..<e - 1] @ [e - 1]" by (metis Suc_diff_1 less_imp_Suc_add upt_Suc_append le_add1 add_Suc_right zero_less_Suc less_Suc_eq_le diff_Suc_1)
  then show ?thesis by (simp add: stage_def computeCollapsedIntervalSize_def)
qed

lemma stage_cong:
  assumes "\<And>i. j \<le> i \<Longrightarrow> i < e \<Longrightarrow> al ! i = al' ! i"
  shows "stage sh al j e = stage sh al' j e"
  unfolding stage_def using assms by (intro foldl_cong) auto

lemma stage_pos:
  assumes "\<And>i. j \<le> i \<Longrightarrow> i < e \<Longrightarrow> 0 < sh ! i \<and> 0 < al ! i"
  shows "0 < stage sh al j e"
proof (cases "j < e")
  case True
  then show ?thesis using assms
  proof (induction "e - j" arbitrary: j)
    case (Suc n)
    have "0 < stage sh al (Suc j) e" using Suc by (cases "Suc j < e") (auto simp: not_less le_Suc_eq stage_def)
    then have "0 < sh ! j * stage sh al (Suc j) e" using Suc by simp
    then show ?case using stage_step [OF Suc.prems(1), of sh al] alignUp_ge [of "sh ! j * stage sh al (Suc j) e" "al ! j"] Suc.prems
      by (metis less_imp_le less_le_trans order_refl)
  qed simp
qed (simp add: stage_def)

lemma stage_dvd: "j < e \<Longrightarrow> al ! j dvd stage sh al j e"
  by (simp add: stage_step alignUp_dvd)

text \<open>A number that divides the innermost alignment divides every stage, when the others are 1 or
  multiples of it.\<close>

lemma stage_inner_dvd:
  assumes "j < e" "d dvd al ! (e - 1)" "\<And>i. j \<le> i \<Longrightarrow> i < e - 1 \<Longrightarrow> al ! i = 1 \<or> d dvd al ! i"
    and pos: "\<And>i. j \<le> i \<Longrightarrow> i < e \<Longrightarrow> 0 < sh ! i \<and> 0 < al ! i"
  shows "d dvd stage sh al j e"
  using assms
proof (induction "e - j" arbitrary: j)
  case (Suc n)
  show ?case
  proof (cases "d dvd al ! j")
    case True
    then show ?thesis using stage_dvd [OF Suc.prems(1), of al sh] dvd_trans by blast
  next
    case False
    then have j: "Suc j < e" "al ! j = 1" using Suc.prems by (cases "j = e - 1"; force)+
    then have ih: "d dvd stage sh al (Suc j) e" using Suc by simp
    have "0 < stage sh al (Suc j) e" using Suc.prems(4) by (intro stage_pos) auto
    then have "stage sh al j e = sh ! j * stage sh al (Suc j) e"
      using j Suc.prems by (simp add: stage_step [OF Suc.prems(1)] alignUp_one less_imp_le)
    then show ?thesis using ih by simp
  qed
qed simp

section \<open>Partitions of the dimensions\<close>

fun covers :: "int \<Rightarrow> (int \<times> int) list \<Rightarrow> int \<Rightarrow> bool" where
  "covers s [] n \<longleftrightarrow> s = n"
| "covers s ((a, b) # ivs) n \<longleftrightarrow> a = s \<and> a \<le> b \<and> a < n \<and> b \<le> n \<and> covers b ivs n"

definition collapsed_sizes :: "shape \<Rightarrow> int list \<Rightarrow> (int \<times> int) list \<Rightarrow> int list" where
  "collapsed_sizes sh al ivs = map (\<lambda>(a, b). stage sh al (nat a) (nat b)) (filter (\<lambda>(a, b). a < b) ivs)"

lemma apply_covers:
  assumes "covers s ivs (int (length sh))" "0 \<le> s"
  shows "apply_intervals sh al ivs s acc = Some (int (length sh), acc @ collapsed_sizes sh al ivs)"
  using assms
proof (induction ivs arbitrary: s acc)
  case (Cons iv ivs)
  obtain a b where iv: "iv = (a, b)" by (cases iv)
  have ab: "a = s" "a \<le> b" "a < int (length sh)" "b \<le> int (length sh)" "covers b ivs (int (length sh))" "0 \<le> b"
    using Cons.prems by (auto simp: iv)
  have one: "alignUp (sh ! nat a) (al ! nat a) = stage sh al (nat a) (nat b)" if "b - a = 1"
  proof -
    have "nat b = Suc (nat a)" using that ab Cons.prems(2) by simp
    then show ?thesis by (simp add: stage_step)
  qed
  note ih = Cons.IH [OF ab(5,6)]
  show ?case
  proof (cases "s = b")
    case True
    then show ?thesis using ab Cons.prems(2) ih by (simp add: iv wrap_index_def collapsed_sizes_def)
  next
    case False
    then show ?thesis using ab Cons.prems(2) ih one by (auto simp: iv wrap_index_def collapsed_sizes_def Let_def collapsed_stage)
  qed
qed (simp add: collapsed_sizes_def)

lemma applyCollapsed_covers:
  assumes "covers 0 ivs (int (length sh))" "length al = length sh"
  shows "applyCollapsedIntervalsAndAlignments sh ivs al = Some (collapsed_sizes sh al ivs)"
  using apply_covers [OF assms(1)] assms(2) by (simp add: applyCollapsedIntervalsAndAlignments_def)

lemma covers_sizes:
  "covers a ivs n \<Longrightarrow> a < n \<Longrightarrow>
     collapsed_sizes sh al ivs \<noteq> [] \<and> (n = a + 1 \<longrightarrow> length (collapsed_sizes sh al ivs) = 1)"
proof (induction ivs arbitrary: a)
  case (Cons iv ivs)
  obtain x y where iv: "iv = (x, y)" by (cases iv)
  have "covers n ivs n \<Longrightarrow> ivs = []" by (cases ivs) auto
  then show ?case using Cons iv by (cases "x = y"; cases "y = n") (auto simp: collapsed_sizes_def)
qed simp

section \<open>Mixed radix\<close>

fun dominating :: "shape \<Rightarrow> int list \<Rightarrow> int \<Rightarrow> bool" where
  "dominating [] [] v \<longleftrightarrow> 1 \<le> v"
| "dominating (d # ds) (t # ts) v \<longleftrightarrow> d * t \<le> v \<and> dominating ds ts t"
| "dominating _ _ v \<longleftrightarrow> False"

lemma dominating_bounds:
  "dominating sh ts v \<Longrightarrow> in_shape c sh \<Longrightarrow> 0 \<le> dot ts c \<and> dot ts c < v"
proof (induction sh ts v arbitrary: c rule: dominating.induct)
  case (1 v)
  then show ?case by (cases c) (auto simp: dot_def)
next
  case (2 d ds t ts v)
  then obtain i cs where c: "c = i # cs" "0 \<le> i" "i < d" "in_shape cs ds" by (cases c) auto
  with 2 have r: "0 \<le> dot ts cs" "dot ts cs < t" by auto
  have "i * t + dot ts cs < (i + 1) * t" using r by (simp add: distrib_right)
  also have "\<dots> \<le> d * t" using c r by (intro mult_right_mono) auto
  finally show ?case using 2(2) c r by (auto simp: dot_def mult.commute)
qed auto

lemma dominating_inj:
  "dominating sh ts v \<Longrightarrow> in_shape c sh \<Longrightarrow> in_shape c' sh \<Longrightarrow> dot ts c = dot ts c' \<Longrightarrow> c = c'"
proof (induction sh ts v arbitrary: c c' rule: dominating.induct)
  case (1 v)
  then show ?case by (cases c; cases c') auto
next
  case (2 d ds t ts v)
  then obtain i cs where c: "c = i # cs" "in_shape cs ds" by (cases c) auto
  obtain i' cs' where c': "c' = i' # cs'" "in_shape cs' ds" using 2 by (cases c') auto
  have r: "0 \<le> dot ts cs" "dot ts cs < t" "0 \<le> dot ts cs'" "dot ts cs' < t"
    using 2 c c' dominating_bounds [of ds ts t] by auto
  have e: "dot ts cs + t * i = dot ts cs' + t * i'" using 2(5) c c' by (simp add: dot_def)
  have "i = (dot ts cs + t * i) div t" "i' = (dot ts cs' + t * i') div t" using r by simp_all
  then have "i = i'" using e by simp
  with e 2 c c' show ?case by simp
qed auto

lemma dominating_volume: "dominating sh ts v \<Longrightarrow> list_all (\<lambda>d. 0 < d) sh \<Longrightarrow> prod_list sh \<le> v"
proof (induction sh ts v rule: dominating.induct)
  case (2 d ds t ts v)
  then have "d * prod_list ds \<le> d * t" by (intro mult_left_mono) auto
  also have "\<dots> \<le> v" using 2(2) by simp
  finally show ?case by simp
qed auto

section \<open>Host strides\<close>

lemma host_dims_spec:
  assumes "k \<le> e" "e \<le> length sh" "length strides = length sh" "0 < S"
    and pos: "\<And>i. s \<le> i \<Longrightarrow> i < e \<Longrightarrow> 0 < sh ! i \<and> 0 < al ! i"
    and dom: "dominating (drop k sh) (drop k strides) (S * stage sh al k e)" and s: "s \<le> k"
  shows "\<exists>strides'. host_dims sh al (rev [s..<k]) (strides, S * stage sh al k e, stage sh al k e)
      = (strides', S * stage sh al s e, stage sh al s e) \<and>
    length strides' = length sh \<and> dominating (drop s sh) (drop s strides') (S * stage sh al s e)"
  using s assms(1,3) dom
proof (induction k arbitrary: strides)
  case (Suc k)
  show ?case
  proof (cases "s = Suc k")
    case False
    then have k: "s \<le> k" "k < e" "k < length sh" using Suc.prems assms(2) by auto
    let ?c = "stage sh al (Suc k) e" and ?strides = "strides[k := S * stage sh al (Suc k) e]"
    have pos': "\<And>i. Suc k \<le> i \<Longrightarrow> i < e \<Longrightarrow> 0 < sh ! i \<and> 0 < al ! i" using pos k by simp
    have c: "0 < ?c" using stage_pos [OF pos'] by simp
    have step: "stage sh al k e = alignUp (?c * sh ! k) (al ! k)" using stage_step [OF k(2)] by (simp add: mult.commute)
    have ge: "sh ! k * ?c \<le> stage sh al k e"
      using alignUp_ge [of "?c * sh ! k" "al ! k"] pos [OF k(1,2)] c unfolding step by (simp add: mult.commute)
    have "sh ! k * (S * ?c) \<le> S * stage sh al k e" using mult_left_mono [OF ge, of S] assms(4) by (simp add: ac_simps)
    then have dom': "dominating (drop k sh) (drop k ?strides) (S * stage sh al k e)"
      using Suc.prems k by (simp add: Cons_nth_drop_Suc [symmetric])
    have div: "S * ?c sdiv ?c = S" using c assms(4) by (simp add: sdiv_nonneg)
    have "host_dims sh al (rev [s..<Suc k]) (strides, S * ?c, ?c)
        = host_dims sh al (rev [s..<k]) (?strides, S * stage sh al k e, stage sh al k e)"
      using k(1) div by (simp add: step [symmetric] Let_def)
    then show ?thesis using Suc.IH [of ?strides] k Suc.prems dom' by simp
  qed (use Suc.prems in auto)
qed (use dom in auto)

lemma host_intervals_append: "host_intervals sh al (xs @ ys) st = host_intervals sh al ys (host_intervals sh al xs st)"
proof (induction xs arbitrary: st)
  case (Cons x xs)
  then show ?case by (cases x; cases st) (simp split: prod.splits)
qed simp

lemma host_intervals_spec:
  assumes "covers s ivs (int (length sh))" "0 \<le> s"
    and pos: "\<And>i. i < length sh \<Longrightarrow> 0 < sh ! i \<and> 0 < al ! i"
  shows "\<exists>strides. host_intervals sh al (rev ivs) (replicate (length sh) 0, 1) = (strides, prod_list (collapsed_sizes sh al ivs)) \<and>
    length strides = length sh \<and> 0 < prod_list (collapsed_sizes sh al ivs) \<and>
    dominating (drop (nat s) sh) (drop (nat s) strides) (prod_list (collapsed_sizes sh al ivs))"
  using assms(1,2)
proof (induction ivs arbitrary: s)
  case Nil
  then show ?case by (simp add: collapsed_sizes_def)
next
  case (Cons iv ivs)
  obtain a b where iv: "iv = (a, b)" by (cases iv)
  have ab: "a = s" "a \<le> b" "b \<le> int (length sh)" "covers b ivs (int (length sh))" "0 \<le> b" using Cons.prems by (auto simp: iv)
  from Cons.IH [OF ab(4,5)] obtain strides where
    ih: "host_intervals sh al (rev ivs) (replicate (length sh) 0, 1) = (strides, prod_list (collapsed_sizes sh al ivs))"
      "length strides = length sh" "0 < prod_list (collapsed_sizes sh al ivs)"
      "dominating (drop (nat b) sh) (drop (nat b) strides) (prod_list (collapsed_sizes sh al ivs))" by blast
  let ?S = "prod_list (collapsed_sizes sh al ivs)"
  have ne: "nat a \<le> nat b" "nat b \<le> length sh" using ab by auto
  have pos': "0 < sh ! i \<and> 0 < al ! i" if "nat a \<le> i" "i < nat b" for i using that ne pos by simp
  obtain strides' where s: "host_dims sh al (rev [nat a..<nat b]) (strides, ?S, 1) = (strides', ?S * stage sh al (nat a) (nat b), stage sh al (nat a) (nat b))"
      "length strides' = length sh" "dominating (drop (nat a) sh) (drop (nat a) strides') (?S * stage sh al (nat a) (nat b))"
    using host_dims_spec [of "nat b" "nat b" sh strides ?S "nat a" al] ih ne pos' by auto
  have "prod_list (collapsed_sizes sh al (iv # ivs)) = ?S * stage sh al (nat a) (nat b)"
    using ab(2) by (cases "a = b") (auto simp: iv collapsed_sizes_def)
  moreover have "0 < stage sh al (nat a) (nat b)" using stage_pos [OF pos'] by blast
  ultimately show ?case using s ih(1,3) ab(1) by (simp add: iv host_intervals_append)
qed

end
