(* ===== verification/GridFacts.thy ===== *)
theory GridFacts
  imports GridSelect LayoutFacts
begin

text \<open>
  Facts about grid selection: legal physical grids, the search for a virtual grid, and the alignments
  of a selected grid.
\<close>

section \<open>Alignments\<close>

lemma smod_zero_iff: "0 \<le> a \<Longrightarrow> 0 < b \<Longrightarrow> a smod b = 0 \<longleftrightarrow> b dvd a" for a b :: int
  by (simp add: smod_mod_positive dvd_eq_mod_eq_0)

lemma covers_bounds:
  "covers s ivs n \<Longrightarrow> i < length ivs \<Longrightarrow> s \<le> fst (ivs ! i) \<and> fst (ivs ! i) \<le> snd (ivs ! i) \<and> snd (ivs ! i) \<le> n"
proof (induction ivs arbitrary: s i)
  case (Cons iv ivs)
  obtain a b where iv: "iv = (a, b)" by (cases iv)
  then have ab: "a = s" "a \<le> b" "b \<le> n" "covers b ivs n" using Cons.prems by auto
  show ?case using Cons.IH [OF ab(4)] Cons.prems(2) ab by (cases i) (auto simp: iv intro: order_trans)
qed simp

lemma covers_disjoint: "covers s ivs n \<Longrightarrow> i < j \<Longrightarrow> j < length ivs \<Longrightarrow> snd (ivs ! i) \<le> fst (ivs ! j)"
proof (induction ivs arbitrary: s i j)
  case (Cons iv ivs)
  obtain a b where iv: "iv = (a, b)" by (cases iv)
  then have cov: "covers b ivs n" using Cons.prems by simp
  obtain j' where j: "j = Suc j'" "j' < length ivs" using Cons.prems by (cases j) auto
  show ?case using Cons.IH [OF cov] covers_bounds [OF cov j(2)] Cons.prems(2) j by (cases i) (auto simp: iv)
qed simp

text \<open>The part of a physical dimension that the grid and the tile divide.\<close>

definition tile_part :: "int list \<Rightarrow> nat \<Rightarrow> nat \<Rightarrow> int" where
  "tile_part tileShape rank idx = (if tileShape \<noteq> [] \<and> idx + 2 \<ge> rank then tileShape ! (idx + 2 - rank) else 1)"

lemma select_interval_spec:
  assumes idx: "idx < length ivs" and cov: "covers 0 ivs (int (length sh))" and ne: "fst (ivs ! idx) < snd (ivs ! idx)"
    and pos: "list_all (\<lambda>d. 0 < d) sh" "list_all (\<lambda>a. 0 < a) al" "length al = length sh"
    and tile: "0 < tile_part tileShape (length ivs) idx"
  shows "\<exists>al'. select_interval sh ivs grid tileShape idx al = Some al' \<and> list_all (\<lambda>a. 0 < a) al' \<and>
    length al' = length sh \<and> (grid ! idx \<le> 1 \<longrightarrow> al' = al) \<and>
    (\<forall>i. i < nat (fst (ivs ! idx)) \<or> nat (snd (ivs ! idx)) \<le> i \<longrightarrow> al' ! i = al ! i) \<and>
    (1 < grid ! idx \<longrightarrow> grid ! idx * tile_part tileShape (length ivs) idx
       dvd stage sh al' (nat (fst (ivs ! idx))) (nat (snd (ivs ! idx))))"
proof (cases "grid ! idx \<le> 1")
  case True
  then show ?thesis using pos by (simp add: select_interval_def Let_def)
next
  case False
  let ?s = "nat (fst (ivs ! idx))" and ?e = "nat (snd (ivs ! idx))"
  let ?size = "\<lambda>al. computeCollapsedIntervalSize sh al ?s ?e"
  let ?d = "grid ! idx * tile_part tileShape (length ivs) idx"
  let ?t = "grid ! idx * (if idx + 2 \<ge> length ivs then default_tile ! (idx + 2 - length ivs) else 1)"
  have se: "?s < ?e" "?e \<le> length sh" using covers_bounds [OF cov idx] ne by auto
  have dim: "(if ?s + 1 = ?e then ?e - 1 else ?s) = ?s" by auto
  have d: "0 < ?d" using False tile by simp
  have "(if length ivs \<le> idx + 2 then default_tile ! (idx + 2 - length ivs) else 1) > 0"
    using idx by (auto simp: default_tile_def nth_Cons split: nat.splits)
  then have t: "0 < ?t" using False by (intro mult_pos_pos) auto
  have size: "?size a = stage sh a ?s ?e" for a using collapsed_stage [OF se(1)] .
  have lpos: "list_all (\<lambda>a. 0 < a) a \<Longrightarrow> 0 < x \<Longrightarrow> list_all (\<lambda>a. 0 < a) (a[?s := x])" for a and x :: int
    by (auto simp: list_all_iff dest: set_update_subset_insert [THEN subsetD])
  have spos: "0 < stage sh a ?s ?e" if "list_all (\<lambda>a. 0 < a) a" "length a = length sh" for a
    using that pos(1) se by (intro stage_pos) (auto simp: list_all_length)
  define al1 where "al1 = (if ?size al > ?t then al[?s := lcm (al ! ?s) ?t] else al)"
  have "0 < al ! ?s" using pos se by (auto simp: list_all_length)
  then have al1: "list_all (\<lambda>a. 0 < a) al1" "length al1 = length sh" "\<And>i. i \<noteq> ?s \<Longrightarrow> al1 ! i = al ! i"
    unfolding al1_def using pos lpos [OF pos(2), of "lcm (al ! ?s) ?t"] lcm_pos_int [of "al ! ?s" ?t] t
    by (simp_all only: length_list_update if_split nth_list_update_neq) simp_all
  have b: "0 < al1 ! ?s" using al1(1,2) se by (auto simp: list_all_length)
  let ?max = "lcm (al1 ! ?s) ?d"
  have sel: "select_interval sh ivs grid tileShape idx al =
      (if ?size al1 smod ?d = 0 then Some al1
       else map_option (\<lambda>k. al1[?s := al1 ! ?s * k])
         (find (\<lambda>k. ?size (al1[?s := al1 ! ?s * k]) smod ?d = 0) [1..?max div (al1 ! ?s)]))"
    using False se(1) unfolding select_interval_def Let_def dim tile_part_def al1_def by simp
  have outside: "i < ?s \<or> ?e \<le> i \<Longrightarrow> al1[?s := x] ! i = al ! i" for i x using al1(3) [of i] se by auto
  show ?thesis
  proof (cases "?size al1 smod ?d = 0")
    case True
    then have "?d dvd stage sh al1 ?s ?e" using smod_zero_iff [of "?size al1" ?d] spos [OF al1(1,2)] d size by simp
    then show ?thesis using True sel al1 False se by auto
  next
    case neq: False
    let ?k = "?max div (al1 ! ?s)"
    have k: "al1 ! ?s * ?k = ?max" by simp
    have "0 < ?max" using lcm_pos_int [of "al1 ! ?s" ?d] b d by linarith
    then have "0 < ?k" using k b by (metis zero_less_mult_pos)
    let ?P = "\<lambda>k. ?size (al1[?s := al1 ! ?s * k]) smod ?d = 0"
    have P: "?P k \<longleftrightarrow> ?d dvd stage sh (al1[?s := al1 ! ?s * k]) ?s ?e" if "0 < k" for k
      using spos [OF lpos [OF al1(1)], of "al1 ! ?s * k"] that b d al1(2) size smod_zero_iff by simp
    have "?max dvd stage sh (al1[?s := ?max]) ?s ?e" using stage_dvd [OF se(1), of "al1[?s := ?max]" sh] al1(2) se by simp
    then have "?d dvd stage sh (al1[?s := al1 ! ?s * ?k]) ?s ?e" unfolding k by (meson dvd_lcm2 dvd_trans)
    then have "?P ?k" using P [OF \<open>0 < ?k\<close>] by blast
    then have "find ?P [1..?k] \<noteq> None" using \<open>0 < ?k\<close> unfolding find_None_iff by auto
    then obtain q where q: "find ?P [1..?k] = Some q" by blast
    then have q': "?P q" "0 < q" unfolding find_Some_iff by (auto dest!: nth_mem [where xs = "[1..?k]"])
    have "select_interval sh ivs grid tileShape idx al = Some (al1[?s := al1 ! ?s * q])" using sel neq q by simp
    then show ?thesis using q' P [OF q'(2)] lpos [OF al1(1), of "al1 ! ?s * q"] b al1(2,3) outside False by auto
  qed
qed

lemma select_intervals_spec:
  assumes cov: "covers 0 ivs (int (length sh))" and ne: "\<forall>(a, b)\<in>set ivs. a < b"
    and sh: "list_all (\<lambda>d. 0 < d) sh" and tile: "\<forall>i<length ivs. 0 < tile_part tileShape (length ivs) i"
    and al: "list_all (\<lambda>a. 0 < a) al" "length al = length sh"
    and i: "i \<le> length ivs"
  shows "\<exists>al'. select_intervals sh ivs grid tileShape [i..<length ivs] al = Some al' \<and> list_all (\<lambda>a. 0 < a) al' \<and>
    length al' = length sh \<and>
    (\<forall>j<length ivs. (j < i \<or> grid ! j \<le> 1) \<longrightarrow>
       stage sh al' (nat (fst (ivs ! j))) (nat (snd (ivs ! j))) = stage sh al (nat (fst (ivs ! j))) (nat (snd (ivs ! j)))) \<and>
    (\<forall>j<length ivs. i \<le> j \<and> 1 < grid ! j \<longrightarrow>
       grid ! j * tile_part tileShape (length ivs) j dvd stage sh al' (nat (fst (ivs ! j))) (nat (snd (ivs ! j))))"
  using i al
proof (induction "length ivs - i" arbitrary: i al)
  case (Suc n)
  then have i: "i < length ivs" "i + 1 \<le> length ivs" by simp_all
  obtain al1 where al1: "select_interval sh ivs grid tileShape i al = Some al1" "list_all (\<lambda>a. 0 < a) al1"
      "length al1 = length sh" "grid ! i \<le> 1 \<longrightarrow> al1 = al"
      "\<And>k. k < nat (fst (ivs ! i)) \<or> nat (snd (ivs ! i)) \<le> k \<Longrightarrow> al1 ! k = al ! k"
      "1 < grid ! i \<longrightarrow> grid ! i * tile_part tileShape (length ivs) i
       dvd stage sh al1 (nat (fst (ivs ! i))) (nat (snd (ivs ! i)))"
    using select_interval_spec [OF i(1) cov _ sh Suc.prems(2,3) tile [rule_format, OF i(1)], of grid] ne i(1)
    by (smt (verit) case_prodD nth_mem prod.collapse)
  obtain al' where al': "select_intervals sh ivs grid tileShape [i + 1..<length ivs] al1 = Some al'" "list_all (\<lambda>a. 0 < a) al'"
      "length al' = length sh"
      "\<And>j. j < length ivs \<Longrightarrow> j < i + 1 \<or> grid ! j \<le> 1 \<Longrightarrow>
         stage sh al' (nat (fst (ivs ! j))) (nat (snd (ivs ! j))) = stage sh al1 (nat (fst (ivs ! j))) (nat (snd (ivs ! j)))"
      "\<And>j. j < length ivs \<Longrightarrow> i + 1 \<le> j \<and> 1 < grid ! j \<Longrightarrow>
         grid ! j * tile_part tileShape (length ivs) j dvd stage sh al' (nat (fst (ivs ! j))) (nat (snd (ivs ! j)))"
    using Suc.hyps(1) [OF _ i(2) al1(2,3)] Suc.hyps(2) by (metis add_Suc_right add.right_neutral Suc_eq_plus1 diff_Suc_1 diff_diff_left)
  have same: "stage sh al1 (nat (fst (ivs ! j))) (nat (snd (ivs ! j))) = stage sh al (nat (fst (ivs ! j))) (nat (snd (ivs ! j)))"
    if j: "j < length ivs" "j \<noteq> i \<or> grid ! i \<le> 1" for j
  proof (cases "j = i")
    case True
    then show ?thesis using j al1(4) by auto
  next
    case False
    then have "snd (ivs ! j) \<le> fst (ivs ! i) \<or> snd (ivs ! i) \<le> fst (ivs ! j)"
      using covers_disjoint [OF cov, of j i] covers_disjoint [OF cov, of i j] i(1) j(1) by linarith
    then have "k < nat (fst (ivs ! i)) \<or> nat (snd (ivs ! i)) \<le> k"
      if "nat (fst (ivs ! j)) \<le> k" "k < nat (snd (ivs ! j))" for k using that by linarith
    then show ?thesis using al1(5) by (intro stage_cong) blast
  qed
  have "select_intervals sh ivs grid tileShape [i..<length ivs] al = Some al'"
    using i(1) al1(1) al'(1) by (simp add: upt_rec [of i "length ivs"])
  moreover have "stage sh al' (nat (fst (ivs ! j))) (nat (snd (ivs ! j))) = stage sh al (nat (fst (ivs ! j))) (nat (snd (ivs ! j)))"
    if "j < length ivs" "j < i \<or> grid ! j \<le> 1" for j
    using al'(4) [of j] same [of j] that by (cases "j = i") auto
  moreover have "grid ! j * tile_part tileShape (length ivs) j dvd stage sh al' (nat (fst (ivs ! j))) (nat (snd (ivs ! j)))"
    if "j < length ivs" "i \<le> j" "1 < grid ! j" for j
    using al'(5) [of j] al'(4) [of j] al1(6) that by (cases "j = i") auto
  ultimately show ?case using al'(2,3) by blast
qed (use i al in simp)

text \<open>A layout whose normalized intervals partition its dimensions and keep the last one for itself,
  like the default ones.\<close>

definition collapse_ok :: "metal_layout \<Rightarrow> bool" where
  "collapse_ok layout \<longleftrightarrow>
     (let sh = logicalShape layout; ivs = getNormalizedIntervals layout; n = length sh
      in 2 \<le> n \<and> 2 \<le> length ivs \<and> covers 0 ivs (int n) \<and> list_all (\<lambda>(a, b). a < b) ivs \<and>
         ivs ! (length ivs - 1) = (int n - 1, int n) \<and> list_all (\<lambda>d. 0 < d) sh)"

lemma covers_next: "covers s ivs n \<Longrightarrow> Suc i < length ivs \<Longrightarrow> fst (ivs ! Suc i) = snd (ivs ! i)"
proof (induction ivs arbitrary: s i)
  case (Cons iv ivs)
  obtain a b where iv: "iv = (a, b)" by (cases iv)
  show ?case
  proof (cases i)
    case 0
    then show ?thesis using Cons.prems by (cases ivs) (auto simp: iv)
  next
    case (Suc k)
    then show ?thesis using Cons by (auto simp: iv)
  qed
qed simp

lemma tile_alignments_ok:
  assumes "collapse_ok layout"
  shows "computeTileAlignments (logicalShape layout) (getNormalizedIntervals layout)
    = Some (replicate (length (logicalShape layout) - 2) 1 @ [32, 32])"
proof -
  let ?sh = "logicalShape layout" and ?ivs = "getNormalizedIntervals layout"
  let ?n = "length ?sh" and ?m = "length ?ivs"
  have ok: "2 \<le> ?n" "2 \<le> ?m" "covers 0 ?ivs (int ?n)" "?ivs ! (?m - 1) = (int ?n - 1, int ?n)"
    using assms by (auto simp: collapse_ok_def Let_def)
  have "snd (?ivs ! (?m - 2)) = fst (?ivs ! Suc (?m - 2))" using covers_next [OF ok(3), of "?m - 2"] ok(2) by simp
  moreover have "Suc (?m - 2) = ?m - 1" using ok(2) by simp
  ultimately have prev: "snd (?ivs ! (?m - 2)) = int ?n - 1" using ok(4) by simp
  obtain k where k: "?n = Suc (Suc k)" using ok(1) by (metis add_2_eq_Suc le_Suc_ex)
  have al: "(replicate ?n 1)[nat (int ?n - 1) := 32, nat (int ?n - 1 - 1) := 32] = replicate (?n - 2) 1 @ [32, 32 :: int]"
    by (intro nth_equalityI) (auto simp: k nth_append nth_list_update nth_Cons split: nat.splits)
  show ?thesis using ok prev al
    by (simp add: computeTileAlignments_def Let_def default_tile_def nth_append k)
qed

lemma device_shape_of_parts:
  assumes ivs: "covers 0 ivs (int (length sh))" "list_all (\<lambda>(a, b). a < b) ivs" "2 \<le> length ivs" "2 \<le> length sh"
    and layout: "getNormalizedIntervals layout = ivs" "logicalShape layout = sh" "dimAlignments layout = al" "length al = length sh"
    and grid: "length grid = length ivs" "list_all (\<lambda>g. 0 < g) grid"
    and tile: "length tileShape \<in> {0, 2}" "list_all (\<lambda>t. 0 < t) tileShape"
    and pos: "\<And>i. i < length sh \<Longrightarrow> 0 < sh ! i \<and> 0 < al ! i"
    and dvd: "\<And>j. j < length ivs \<Longrightarrow> grid ! j * tile_part tileShape (length ivs) j
      dvd stage sh al (nat (fst (ivs ! j))) (nat (snd (ivs ! j)))"
  shows "\<exists>phys shard tiled. getPhysicalShape layout [] = Some phys \<and> getDeviceShape layout grid tileShape = Some (grid @ shard) \<and>
    getPhysicalShape layout tileShape = Some tiled \<and> length tiled = length ivs \<and> list_all (\<lambda>d. 0 < d) tiled \<and>
    tiled = map2 (*) grid shard \<and>
    length shard = length ivs \<and> length phys = length ivs \<and>
    (\<forall>j<length ivs. phys ! j = grid ! j * shard ! j * tile_part tileShape (length ivs) j \<and> 0 < phys ! j)"
proof -
  let ?m = "length ivs" and ?t = "tile_part tileShape (length ivs)"
  let ?phys = "collapsed_sizes sh al ivs"
  have phys: "?phys = map (\<lambda>j. stage sh al (nat (fst (ivs ! j))) (nat (snd (ivs ! j)))) [0..<?m]"
    using ivs(2) by (intro nth_equalityI) (auto simp: collapsed_sizes_def list_all_iff filter_True case_prod_beta)
  have ppos: "0 < ?phys ! j" if "j < ?m" for j
  proof -
    have "0 < stage sh al (nat (fst (ivs ! j))) (nat (snd (ivs ! j)))"
      using covers_bounds [OF ivs(1) that] pos by (intro stage_pos) auto
    then show ?thesis using phys that by simp
  qed
  have tpos: "0 < ?t j" if "j < ?m" for j
  proof (cases "tileShape \<noteq> [] \<and> ?m \<le> j + 2")
    case True
    then have "length tileShape = 2" "j + 2 - ?m < 2" using tile(1) that by auto
    then show ?thesis using True tile(2) by (auto simp: tile_part_def list_all_length)
  qed (auto simp: tile_part_def)
  have gpos: "0 < grid ! j" if "j < ?m" for j using grid that by (auto simp: list_all_length)
  define tiled where "tiled = map (\<lambda>j. ?phys ! j div ?t j) [0..<?m]"
  have tdvd: "?t j dvd ?phys ! j" and gdvd: "grid ! j dvd tiled ! j" and tnonneg: "0 \<le> tiled ! j" if "j < ?m" for j
  proof -
    have d: "grid ! j * ?t j dvd ?phys ! j" using dvd [OF that] phys that by simp
    then show "?t j dvd ?phys ! j" using dvd_mult_right by blast
    then show "grid ! j dvd tiled ! j" using d tpos [OF that] that by (auto simp: tiled_def elim!: dvdE)
    show "0 \<le> tiled ! j" using ppos [OF that] tpos [OF that] that by (simp add: tiled_def pos_imp_zdiv_nonneg_iff)
  qed
  have applied: "applyCollapsedIntervalsAndAlignments sh ivs al = Some ?phys" using applyCollapsed_covers [OF ivs(1) layout(4)] .
  have lp: "length ?phys = ?m" using phys by simp
  have P0: "getPhysicalShape layout [] = Some ?phys"
    using applied layout ivs(4) by (auto simp: getPhysicalShape_def Let_def)
  have P: "getPhysicalShape layout tileShape = Some tiled"
  proof (cases "tileShape = []")
    case True
    then have "tiled = ?phys" using lp by (intro nth_equalityI) (auto simp: tiled_def tile_part_def)
    then show ?thesis using P0 True by simp
  next
    case False
    then have l: "length tileShape = 2" using tile(1) by auto
    have t: "?t (?m - 2) = tileShape ! 0" "?t (?m - 1) = tileShape ! 1"
      using False ivs(3) by (auto simp: tile_part_def Suc_diff_le numeral_2_eq_2)
    have b: "?m - 2 < ?m" "?m - 1 < ?m" using ivs(3) by auto
    have rem: "?phys ! (?m - 2) smod tileShape ! 0 = 0" "?phys ! (?m - 1) smod tileShape ! 1 = 0"
      using smod_zero_iff [of "?phys ! (?m - 2)" "tileShape ! 0"] smod_zero_iff [of "?phys ! (?m - 1)" "tileShape ! 1"]
        ppos [OF b(1)] ppos [OF b(2)] tpos [OF b(1)] tpos [OF b(2)] tdvd [OF b(1)] tdvd [OF b(2)] unfolding t by auto
    have "tiled = ?phys[?m - 2 := ?phys ! (?m - 2) sdiv tileShape ! 0, ?m - 1 := ?phys ! (?m - 1) sdiv tileShape ! 1]"
    proof (intro nth_equalityI)
      fix j assume "j < length tiled"
      then have j: "j < ?m" by (simp add: tiled_def)
      have q: "?phys ! j div ?t j = ?phys ! j sdiv ?t j" using ppos [OF j] tpos [OF j] by (simp add: sdiv_nonneg)
      have one: "?t j = 1" if "j < ?m - 2" using that by (auto simp: tile_part_def)
      show "tiled ! j = ?phys[?m - 2 := ?phys ! (?m - 2) sdiv tileShape ! 0, ?m - 1 := ?phys ! (?m - 1) sdiv tileShape ! 1] ! j"
        using j q t one lp ivs(3) by (cases "j < ?m - 2"; cases "j = ?m - 2") (auto simp: tiled_def nth_list_update less_Suc_eq)
    qed (simp add: tiled_def lp)
    then show ?thesis using applied layout ivs(3,4) False l lp rem by (auto simp: getPhysicalShape_def Let_def)
  qed
  let ?shard = "map (\<lambda>i. tiled ! i sdiv grid ! i) [0..<?m]"
  have "getDeviceShape layout grid tileShape = Some (grid @ ?shard)"
  proof -
    have "grid ! i \<noteq> 0 \<and> tiled ! i smod grid ! i = 0" if "i < ?m" for i
      using gpos [OF that] smod_zero_iff [OF tnonneg [OF that] gpos [OF that]] gdvd [OF that] by simp
    then have "\<not> (\<exists>i\<in>set [0..<?m]. grid ! i = 0 \<or> tiled ! i smod grid ! i \<noteq> 0)" by auto
    then show ?thesis using P grid(1) by (simp add: getDeviceShape_def tiled_def)
  qed
  moreover have "?phys ! j = grid ! j * ?shard ! j * ?t j" if "j < ?m" for j
  proof -
    have "tiled ! j sdiv grid ! j = tiled ! j div grid ! j" using tnonneg [OF that] gpos [OF that] by (simp add: sdiv_nonneg)
    then show ?thesis using gdvd [OF that] tdvd [OF that] that by (simp add: tiled_def)
  qed
  moreover have "0 < tiled ! j" if "j < ?m" for j
    using tdvd [OF that] ppos [OF that] tpos [OF that] that by (auto simp: tiled_def zero_less_mult_iff elim!: dvdE)
  then have "list_all (\<lambda>d. 0 < d) tiled" "length tiled = ?m" by (auto simp: list_all_length tiled_def)
  moreover have "tiled = map2 (*) grid ?shard"
  proof (intro nth_equalityI)
    fix j assume "j < length tiled"
    then have j: "j < ?m" by (simp add: tiled_def)
    have "tiled ! j sdiv grid ! j = tiled ! j div grid ! j" using tnonneg [OF j] gpos [OF j] by (simp add: sdiv_nonneg)
    then show "tiled ! j = map2 (*) grid ?shard ! j" using gdvd [OF j] j grid(1) by simp
  qed (simp add: tiled_def grid(1))
  ultimately show ?thesis using P P0 lp ppos by (intro exI [of _ ?phys] exI [of _ ?shard] exI [of _ tiled]) simp
qed

lemma selected_grid_device_shape:
  assumes ok: "collapse_ok layout" and grid: "length grid = length (getNormalizedIntervals layout)" "list_all (\<lambda>g. 0 < g) grid"
    and tile: "length tileShape \<in> {0, 2}" "list_all (\<lambda>t. 0 < t \<and> t dvd 32) tileShape"
  shows "\<exists>new phys shard. layoutWithOptimalGrid layout grid False tileShape = Some new \<and>
    getPhysicalShape new [] = Some phys \<and> getDeviceShape new grid tileShape = Some (grid @ shard) \<and>
    getPhysicalShape new tileShape = Some (map2 (*) grid shard) \<and>
    length shard = length grid \<and> length phys = length grid \<and>
    (\<forall>j<length grid. phys ! j = grid ! j * shard ! j * tile_part tileShape (length grid) j \<and> 0 < phys ! j)"
proof -
  let ?sh = "logicalShape layout" and ?ivs = "getNormalizedIntervals layout"
  let ?n = "length ?sh" and ?m = "length ?ivs" and ?al0 = "replicate (length (logicalShape layout) - 2) (1 :: int) @ [32, 32]"
  have k: "2 \<le> ?n" "2 \<le> ?m" "covers 0 ?ivs (int ?n)" "\<forall>(a, b)\<in>set ?ivs. a < b"
      "?ivs ! (?m - 1) = (int ?n - 1, int ?n)" "list_all (\<lambda>d. 0 < d) ?sh" "list_all (\<lambda>(a, b). a < b) ?ivs"
    using ok by (auto simp: collapse_ok_def Let_def list_all_iff)
  have tpos: "0 < tile_part tileShape ?m j \<and> tile_part tileShape ?m j dvd 32" if "j < ?m" for j
  proof (cases "tileShape \<noteq> [] \<and> ?m \<le> j + 2")
    case True
    then have "length tileShape = 2" "j + 2 - ?m < 2" using tile(1) that by auto
    then show ?thesis using True tile(2) by (auto simp: tile_part_def list_all_length)
  qed (auto simp: tile_part_def)
  have tp0: "\<forall>i<?m. 0 < tile_part tileShape ?m i" using tpos by blast
  have al0: "list_all (\<lambda>a. 0 < a) ?al0" "length ?al0 = ?n" using k(1) by (auto simp: list_all_iff)
  obtain al where al: "select_intervals ?sh ?ivs grid tileShape [0..<?m] ?al0 = Some al" "list_all (\<lambda>a. 0 < a) al" "length al = ?n"
      "\<And>j. j < ?m \<Longrightarrow> grid ! j \<le> 1 \<Longrightarrow>
         stage ?sh al (nat (fst (?ivs ! j))) (nat (snd (?ivs ! j))) = stage ?sh ?al0 (nat (fst (?ivs ! j))) (nat (snd (?ivs ! j)))"
      "\<And>j. j < ?m \<Longrightarrow> 1 < grid ! j \<Longrightarrow>
         grid ! j * tile_part tileShape ?m j dvd stage ?sh al (nat (fst (?ivs ! j))) (nat (snd (?ivs ! j)))"
  proof -
    from select_intervals_spec [OF k(3,4,6) tp0 al0 le0, of grid] show thesis
      by (elim exE conjE, intro that) (assumption | simp)+
  qed
  let ?new = "layout\<lparr>dimAlignments := al\<rparr>"
  have new: "layoutWithOptimalGrid layout grid False tileShape = Some ?new"
    using al(1) tile_alignments_ok [OF ok] grid(1)
    by (simp add: layoutWithOptimalGrid_def computeSelectedGridDimAlignments_def Let_def)
  have dvd: "grid ! j * tile_part tileShape ?m j dvd stage ?sh al (nat (fst (?ivs ! j))) (nat (snd (?ivs ! j)))" if j: "j < ?m" for j
  proof (cases "1 < grid ! j")
    case False
    then have g: "grid ! j = 1" using grid j by (auto simp: list_all_length intro: antisym)
    have se: "nat (fst (?ivs ! j)) < nat (snd (?ivs ! j))" "nat (snd (?ivs ! j)) \<le> ?n"
      using covers_bounds [OF k(3) j] k(4) nth_mem [OF j] by auto
    have "tile_part tileShape ?m j dvd stage ?sh ?al0 (nat (fst (?ivs ! j))) (nat (snd (?ivs ! j)))"
    proof (cases "?m \<le> j + 2")
      case True
      have fin: "nat (snd (?ivs ! j)) = ?n \<or> nat (snd (?ivs ! j)) = ?n - 1"
      proof (cases "j = ?m - 1")
        case False
        then have "Suc j = ?m - 1" using True j by simp
        then have "snd (?ivs ! j) = int ?n - 1" using covers_next [OF k(3), of j] k(5) j by simp
        then show ?thesis by linarith
      qed (use k(5) in simp)
      have last: "nat (fst (?ivs ! j)) = ?n - 1" if e: "nat (snd (?ivs ! j)) = ?n"
      proof (cases "j = ?m - 1")
        case True
        then show ?thesis using k(1,5) by (simp add: nat_diff_distrib)
      next
        case False
        then have "j < ?m - 1" "?m - 1 < ?m" using j by auto
        then have "snd (?ivs ! j) \<le> int ?n - 1" using covers_disjoint [OF k(3)] k(5) by fastforce
        then show ?thesis using e k(1) by linarith
      qed
      have "32 dvd stage ?sh ?al0 (nat (fst (?ivs ! j))) (nat (snd (?ivs ! j)))"
        using se k(1,6) fin last
        by (intro stage_inner_dvd) (auto simp: nth_append list_all_length nth_Cons split: nat.splits)
      then show ?thesis using tpos [OF j] dvd_trans by blast
    qed (simp add: tile_part_def)
    then show ?thesis using al(4) [OF j] g by simp
  qed (use al(5) j in blast)
  have pos: "0 < ?sh ! i \<and> 0 < al ! i" if "i < ?n" for i using k(6) al(2,3) that by (simp add: list_all_length)
  have nivs: "getNormalizedIntervals ?new = ?ivs" by (simp add: getNormalizedIntervals_def)
  have tp: "list_all (\<lambda>t. 0 < t) tileShape" using tile(2) by (auto simp: list_all_iff)
  show ?thesis
    using device_shape_of_parts [OF k(3,7,2,1) nivs _ _ al(3) grid tile(1) tp pos dvd] new grid(1) by auto
qed

section \<open>Default layouts\<close>

lemma default_collapse_ok:
  assumes "getNormalizedIntervals layout = computeDefaultFlattenedIntervals (length (logicalShape layout))"
    "2 \<le> length (logicalShape layout)" "list_all (\<lambda>d. 0 < d) (logicalShape layout)"
  shows "collapse_ok layout"
  using assms by (auto simp: collapse_ok_def Let_def computeDefaultFlattenedIntervals_def)

lemma default_grid_aware:
  assumes n: "2 \<le> length sh" and g: "list_all (\<lambda>d. 0 < d) target" "length target = 2"
  shows "\<exists>al. computeGridAwareDimAlignments sh target (computeDefaultFlattenedIntervals (length sh)) = Some al \<and>
    length al = length sh \<and> list_all (\<lambda>a. 0 < a) al \<and> (\<forall>i<length sh. al ! i = 1 \<or> 32 dvd al ! i) \<and>
    32 dvd al ! (length sh - 1) \<and> 32 dvd al ! (length sh - 2)"
proof -
  let ?n = "length sh"
  have n1: "int ?n - 1 < int ?n" "nat (int ?n - 1) = ?n - 1" "nat (int ?n - 2) = ?n - 2" and ne: "sh \<noteq> []"
    using n by auto
  obtain g0 g1 where tg: "target = [g0, g1]" "0 < g0" "0 < g1" using g by (auto simp: length_Suc_conv numeral_2_eq_2)
  have "\<exists>x. (x = 32 \<or> x = g1 * 32) \<and>
      grid_aware_interval sh [(0, int ?n - 1), (int ?n - 1, int ?n)] 1 32 g1 (replicate ?n 1) = Some ((replicate ?n 1)[?n - 1 := x])"
    using n n1 ne by (simp add: grid_aware_interval_def Let_def) blast
  then obtain x where x: "x = 32 \<or> x = g1 * 32"
      "grid_aware_interval sh [(0, int ?n - 1), (int ?n - 1, int ?n)] 1 32 g1 (replicate ?n 1) = Some ((replicate ?n 1)[?n - 1 := x])"
    by blast
  let ?al1 = "(replicate ?n 1)[?n - 1 := x]"
  have "\<exists>al. grid_aware_interval sh [(0, int ?n - 1), (int ?n - 1, int ?n)] 2 32 g0 ?al1 = Some al \<and> length al = ?n \<and>
      (\<forall>i<?n. (al ! i = 1 \<and> i \<noteq> ?n - 2 \<or> al ! i = 32 \<or> al ! i = g0 * 32 \<or> al ! i = x) \<and> (i = ?n - 1 \<longrightarrow> al ! i = x))"
  proof (cases "?n = 2")
    case True
    then show ?thesis using n1 by (simp add: grid_aware_interval_def Let_def nth_list_update less_2_cases_iff)
  next
    case False
    then have "int ?n - 2 \<noteq> 0" "0 < ?n" using n by auto
    then have "\<exists>c. grid_aware_interval sh [(0, int ?n - 1), (int ?n - 1, int ?n)] 2 32 g0 ?al1
        = Some (if c then ?al1[?n - 2 := 32, 0 := g0 * 32] else ?al1[?n - 2 := 32])"
      using n n1 ne by (simp add: grid_aware_interval_def Let_def) blast
    then obtain c where c: "grid_aware_interval sh [(0, int ?n - 1), (int ?n - 1, int ?n)] 2 32 g0 ?al1
        = Some (if c then ?al1[?n - 2 := 32, 0 := g0 * 32] else ?al1[?n - 2 := 32])" by blast
    have "0 < ?n - 2" using n False by simp
    moreover have "?n - 2 < ?n" "?n - Suc 0 < ?n" "0 < ?n" using n by auto
    ultimately show ?thesis unfolding c using ne by (cases c) (auto simp: nth_list_update)
  qed
  then obtain al where al: "grid_aware_interval sh [(0, int ?n - 1), (int ?n - 1, int ?n)] 2 32 g0 ?al1 = Some al" "length al = ?n"
      "\<forall>i<?n. (al ! i = 1 \<and> i \<noteq> ?n - 2 \<or> al ! i = 32 \<or> al ! i = g0 * 32 \<or> al ! i = x) \<and> (i = ?n - 1 \<longrightarrow> al ! i = x)"
    by blast
  have last: "al ! (?n - 1) = x" using al(3) [rule_format, of "?n - 1"] n by simp
  note al(3) [rule_format, THEN conjunct1]
  note vals = this
  have x32: "32 dvd x" using x(1) by auto
  have m: "32 dvd al ! i" if "al ! i = 32 \<or> al ! i = g0 * 32 \<or> al ! i = x" for i using that x32 by auto
  have b: "?n - 1 < ?n" "?n - 2 < ?n" using n by auto
  have d: "32 dvd al ! (?n - 1)" "32 dvd al ! (?n - 2)" "\<And>i. i < ?n \<Longrightarrow> al ! i = 1 \<or> 32 dvd al ! i"
    using last x32 vals [OF b(2)] m vals by blast+
  have "computeGridAwareDimAlignments sh target (computeDefaultFlattenedIntervals ?n) = Some al"
    using n tg(1) x(2) al(1) d(1,2)
    by (auto simp: computeGridAwareDimAlignments_def computeDefaultFlattenedIntervals_def Let_def default_tile_def
        dvd_eq_mod_eq_0)
  moreover have "list_all (\<lambda>a. 0 < a) al" unfolding list_all_length using al(2) vals x(1) tg by fastforce
  ultimately show ?thesis using d al(2) by blast
qed

lemma default_physical_shape:
  assumes default: "getNormalizedIntervals layout = computeDefaultFlattenedIntervals (length (logicalShape layout))"
    and sh: "2 \<le> length (logicalShape layout)" "list_all (\<lambda>d. 0 < d) (logicalShape layout)"
    and t: "length target = 2" "list_all (\<lambda>d. 0 < d) target"
    and tile: "\<forall>t\<in>set_option tile. length t = 2 \<and> list_all (\<lambda>x. 0 < x \<and> x dvd 32) t"
  shows "\<exists>phys. computePhysicalShape layout target tile False = Some phys \<and> length phys = 2 \<and> list_all (\<lambda>d. 0 < d) phys"
proof -
  let ?sh = "logicalShape layout" and ?ivs = "getNormalizedIntervals layout"
  let ?n = "length ?sh" and ?t = "case tile of Some t \<Rightarrow> t | None \<Rightarrow> default_tile"
  have tt: "length ?t = 2" "list_all (\<lambda>x. 0 < x \<and> x dvd 32) ?t" using tile by (auto simp: default_tile_def split: option.splits)
  obtain al where al: "computeGridAwareDimAlignments ?sh target ?ivs = Some al" "length al = ?n" "list_all (\<lambda>a. 0 < a) al"
      "\<forall>i<?n. al ! i = 1 \<or> 32 dvd al ! i" "32 dvd al ! (?n - 1)" "32 dvd al ! (?n - 2)"
    using default_grid_aware [OF sh(1) t(2,1)] unfolding default by blast
  have ivs: "?ivs = [(0, int ?n - 1), (int ?n - 1, int ?n)]" using default sh by (auto simp: computeDefaultFlattenedIntervals_def Let_def)
  have pos: "0 < ?sh ! i \<and> 0 < al ! i" if "i < ?n" for i using that al(2,3) sh(2) by (simp add: list_all_length)
  have n1: "nat (int ?n - 1) = ?n - 1" by simp
  have d0: "32 dvd stage ?sh al 0 (?n - 1)"
  proof (rule stage_inner_dvd)
    show "32 dvd al ! (?n - 1 - 1)" using al(6) by (simp add: numeral_2_eq_2)
  qed (use sh(1) al(4) pos in auto)
  have d1: "32 dvd stage ?sh al (?n - 1) ?n"
    using al(5) sh(1) pos by (intro stage_inner_dvd) auto
  have tpd: "tile_part ?t 2 j dvd 32" if "j < 2" for j
    using tt that by (auto simp: tile_part_def list_all_length)
  have dvd: "1 * tile_part ?t 2 j dvd stage ?sh al (nat (fst (?ivs ! j))) (nat (snd (?ivs ! j)))" if "j < 2" for j
  proof (cases "j = 0")
    case True
    then show ?thesis using dvd_trans [OF tpd [of 0] d0] n1 by (simp add: ivs)
  next
    case False
    then have "j = 1" using that by simp
    then show ?thesis using dvd_trans [OF tpd [of 1] d1] n1 by (simp add: ivs)
  qed
  have tp: "list_all (\<lambda>x. 0 < x) ?t" using tt(2) by (simp add: list_all_iff)
  let ?l = "layout\<lparr>dimAlignments := al\<rparr>"
  have cov: "covers 0 ?ivs (int ?n)" "list_all (\<lambda>(a, b). a < b) ?ivs" "length ?ivs = 2" using sh(1) by (auto simp: ivs)
  have nl: "getNormalizedIntervals ?l = ?ivs" by (simp add: getNormalizedIntervals_def)
  have dvd': "[1, 1] ! j * tile_part ?t (length ?ivs) j dvd stage ?sh al (nat (fst (?ivs ! j))) (nat (snd (?ivs ! j)))"
    if "j < length ?ivs" for j
    using dvd [of j] that unfolding cov(3) by (auto simp: less_2_cases_iff)
  have side: "2 \<le> length ?ivs" "logicalShape ?l = ?sh" "dimAlignments ?l = al" "length [1, 1] = length ?ivs"
    "list_all (\<lambda>g. 0 < g) [1, 1 :: int]" "length ?t \<in> {0, 2}" using cov(3) tt(1) by simp_all
  obtain tiled where "getPhysicalShape ?l ?t = Some tiled" "length tiled = 2" "list_all (\<lambda>d. 0 < d) tiled"
    using device_shape_of_parts [OF cov(1,2) side(1) sh(1) nl side(2,3) al(2) side(4,5,6) tp pos dvd'] cov(3) by auto
  then show ?thesis using al(1) by (simp add: computePhysicalShape_def)
qed

end
