(* ===== verification/GridSearch.thy ===== *)
theory GridSearch
  imports GridSelect
begin

text \<open>
  The searches for grids: a legal physical grid is found whenever there is one, the enumeration of
  virtual grids finds the largest legal volume, and every selected grid divides the physical shape.
\<close>

section \<open>Legal physical grids\<close>

definition fits_target :: "int list \<Rightarrow> int \<Rightarrow> int \<Rightarrow> bool" where
  "fits_target target y x \<longleftrightarrow> y \<le> target ! 0 \<and> x \<le> target ! 1"

definition good_factor :: "int \<Rightarrow> int list \<Rightarrow> int \<Rightarrow> bool" where
  "good_factor v target i \<longleftrightarrow> i dvd v \<and> (fits_target target i (v div i) \<or> fits_target target (v div i) i)"

lemma legal_loop_first:
  "if \<exists>i\<in>{1..int m}. good_factor v target i
   then \<exists>i\<in>{1..int m}. good_factor v target i \<and> (\<forall>j\<in>{1..int m}. good_factor v target j \<longrightarrow> j \<le> i) \<and>
     legal_loop v target (rev [1..int m]) = (if fits_target target i (v div i) then [i, v div i] else [v div i, i])
   else legal_loop v target (rev [1..int m]) = []"
proof (induction m)
  case (Suc m)
  let ?i = "int (Suc m)"
  have list: "rev [1..?i] = ?i # rev [1..int m]" by (simp add: upto_rec2)
  have dom: "j \<in> {1..?i} \<longleftrightarrow> j = ?i \<or> j \<in> {1..int m}" for j by auto
  show ?case
  proof (cases "good_factor v target ?i")
    case True
    then have "legal_loop v target (rev [1..?i]) = (if fits_target target ?i (v div ?i) then [?i, v div ?i] else [v div ?i, ?i])"
      unfolding list by (auto simp: good_factor_def fits_target_def Let_def dvd_eq_mod_eq_0)
    moreover have "?i \<in> {1..?i}" "\<forall>j\<in>{1..?i}. j \<le> ?i" by auto
    ultimately show ?thesis using True by (smt (verit))
  next
    case False
    then have "legal_loop v target (rev [1..?i]) = legal_loop v target (rev [1..int m])"
      unfolding list by (auto simp: good_factor_def fits_target_def Let_def dvd_eq_mod_eq_0)
    then show ?thesis using Suc False unfolding Bex_def Ball_def dom by (smt (verit))
  qed
qed simp

lemma small_factor:
  fixes v y x :: int
  assumes "0 < v" "y * x = v" "0 < y" "0 < x"
  shows "min y x \<in> {1..int (isqrt (nat v))}"
proof -
  let ?r = "isqrt (nat v)"
  have "\<not> int ?r + 1 \<le> min y x"
  proof
    assume "int ?r + 1 \<le> min y x"
    then have "(int ?r + 1) * (int ?r + 1) \<le> y * x" by (intro mult_mono) auto
    moreover have "v < (int ?r + 1) * (int ?r + 1)"
    proof -
      have "int (nat v) < int ((?r + 1) * (?r + 1))" using isqrt_bounds [of "nat v"] by (simp only: of_nat_less_iff)
      then show ?thesis using assms(1) by (simp add: algebra_simps)
    qed
    ultimately show False using assms by simp
  qed
  then show ?thesis using assms by auto
qed

lemma good_small:
  assumes "0 < v" "y * x = v" "0 < y" "0 < x" "fits_target target y x"
  shows "good_factor v target (min y x)"
proof (cases "y \<le> x")
  case True
  then have "min y x = y" "v div y = x" "y dvd v" using assms(2-4) by auto
  then show ?thesis using assms(5) by (simp add: good_factor_def)
next
  case False
  then have "min y x = x" "v div x = y" "x dvd v" using assms(2-4) by auto
  then show ?thesis using assms(5) by (simp add: good_factor_def)
qed

lemma legal_grid:
  assumes v: "0 < v" and t: "2 \<le> length target" "0 < target ! 0" "0 < target ! 1"
  shows "\<exists>g. findLegalPhysicalGridForVolume v target = Some g \<and>
    (g = [] \<longleftrightarrow> \<not> (\<exists>y x. 0 < y \<and> 0 < x \<and> y * x = v \<and> fits_target target y x)) \<and>
    (g \<noteq> [] \<longrightarrow> (\<exists>y x. g = [y, x] \<and> 0 < y \<and> 0 < x \<and> y * x = v \<and> fits_target target y x \<and>
       (\<forall>y' x'. 0 < y' \<and> 0 < x' \<and> y' * x' = v \<and> fits_target target y' x' \<longrightarrow> min y' x' \<le> min y x)))"
proof -
  let ?m = "isqrt (nat v)" and ?g = "legal_loop v target (rev [1..int (isqrt (nat v))])"
  have find: "findLegalPhysicalGridForVolume v target = Some ?g" using v t by (simp add: findLegalPhysicalGridForVolume_def)
  have all: "min y x \<in> {1..int ?m} \<and> good_factor v target (min y x)"
    if "0 < y" "0 < x" "y * x = v" "fits_target target y x" for y x
    using small_factor [OF v that(3,1,2)] good_small [OF v that(3,1,2,4)] by blast
  show ?thesis
  proof (cases "\<exists>i\<in>{1..int ?m}. good_factor v target i")
    case True
    with legal_loop_first [of ?m v target] obtain i where i: "i \<in> {1..int ?m}" "good_factor v target i"
        "\<And>j. j \<in> {1..int ?m} \<Longrightarrow> good_factor v target j \<Longrightarrow> j \<le> i"
        "?g = (if fits_target target i (v div i) then [i, v div i] else [v div i, i])" by (auto split: if_splits)
    have pos: "0 < i" "i dvd v" using i(1,2) by (auto simp: good_factor_def)
    then have mul: "i * (v div i) = v" by simp
    with pos(1) v have q: "0 < v div i" by (metis zero_less_mult_pos)
    have "isqrt (nat v) * isqrt (nat v) \<le> nat v" using isqrt_bounds [of "nat v"] by blast
    then have "int ?m * int ?m \<le> v" using v by (metis int_nat_eq less_imp_le nat_le_iff of_nat_mult order_refl zle_int)
    moreover have "i * i \<le> int ?m * int ?m" using i(1) by (intro mult_mono) auto
    ultimately have "i * i \<le> i * (v div i)" using mul by linarith
    then have le: "i \<le> v div i" using pos(1) by simp
    obtain y x where g: "?g = [y, x]" "0 < y" "0 < x" "y * x = v" "fits_target target y x" "min y x = i"
      using i(2,4) pos q mul le by (auto simp: good_factor_def mult.commute split: if_splits)
    then show ?thesis unfolding find using i(3) all by (intro exI [of _ ?g]) fastforce
  next
    case False
    then have "?g = []" using legal_loop_first [of ?m v target] by auto
    then show ?thesis unfolding find using False all by blast
  qed
qed

lemma isLegalVolume_iff:
  assumes "2 \<le> length target" "0 < target ! 0" "0 < target ! 1"
  shows "isLegalVolume target v \<longleftrightarrow> 0 < v \<and> (\<exists>y x. 0 < y \<and> 0 < x \<and> y * x = v \<and> fits_target target y x)"
proof (cases "0 < v")
  case True
  then show ?thesis using legal_grid [OF True assms] by (auto simp: isLegalVolume_def)
qed (simp add: isLegalVolume_def findLegalPhysicalGridForVolume_def)

section \<open>The enumeration\<close>

definition choice :: "int list list \<Rightarrow> int list \<Rightarrow> bool" where
  "choice factors fs \<longleftrightarrow> list_all2 (\<lambda>f fl. f \<in> set fl) fs factors"

definition improves ::
  "int list \<Rightarrow> int \<Rightarrow> int list set \<Rightarrow> int list \<Rightarrow> int \<Rightarrow> int list \<times> int \<Rightarrow> int list \<times> int \<Rightarrow> bool" where
  "improves target tv C cand cv best r \<longleftrightarrow>
     snd best \<le> snd r \<and>
     (r = best \<or> (\<exists>fs\<in>C. r = (cand @ fs, cv * prod_list fs) \<and> cv * prod_list fs \<le> tv \<and> isLegalVolume target (cv * prod_list fs))) \<and>
     (\<forall>fs\<in>C. cv * prod_list fs \<le> tv \<and> isLegalVolume target (cv * prod_list fs) \<longrightarrow> cv * prod_list fs \<le> snd r)"

lemma choice_prod_pos: "choice factors fs \<Longrightarrow> \<forall>fl\<in>set factors. \<forall>f\<in>set fl. 0 < f \<Longrightarrow> 0 < prod_list fs"
  unfolding choice_def by (induction fs factors rule: list_all2_induct) auto

lemma choice_Cons: "choice (fl # factors) fs \<longleftrightarrow> (\<exists>f gs. fs = f # gs \<and> f \<in> set fl \<and> choice factors gs)"
  by (auto simp: choice_def list_all2_Cons2)

lemma improves_trans:
  assumes a: "improves target tv A cand cv best r" and b: "improves target tv B cand cv r r'"
  shows "improves target tv (A \<union> B) cand cv best r'"
proof -
  have "cv * prod_list fs \<le> snd r'"
    if "fs \<in> A \<union> B" "cv * prod_list fs \<le> tv" "isLegalVolume target (cv * prod_list fs)" for fs
    using a b that unfolding improves_def by (meson UnE order_trans)
  moreover have "r' = best \<or> (\<exists>fs\<in>A \<union> B. r' = (cand @ fs, cv * prod_list fs) \<and> cv * prod_list fs \<le> tv
      \<and> isLegalVolume target (cv * prod_list fs))"
    using a b unfolding improves_def by blast
  ultimately show ?thesis using a b unfolding improves_def by (meson order_trans)
qed

lemma improves_shift:
  assumes "improves target tv C (cand @ [f]) (cv * f) best r"
  shows "improves target tv ((#) f ` C) cand cv best r"
  using assms unfolding improves_def by (auto simp: mult.assoc)

lemma enumerateGrids_improves:
  assumes "\<forall>fl\<in>set factors. \<forall>f\<in>set fl. 0 < f" "0 < cv"
  shows "improves target tv {fs. choice factors fs} cand cv best (enumerateGrids target tv factors cand cv best)"
  using assms
proof (induction factors arbitrary: cand cv best)
  case Nil
  have "choice [] fs \<longleftrightarrow> fs = []" for fs by (auto simp: choice_def)
  then show ?case by (auto simp: improves_def)
next
  case (Cons fl factors)
  show ?case
  proof (cases "cv > tv")
    case True
    have "\<not> cv * prod_list fs \<le> tv" if "choice (fl # factors) fs" for fs
    proof -
      have "1 \<le> prod_list fs" using choice_prod_pos [OF that Cons.prems(1)] by simp
      then have "cv * 1 \<le> cv * prod_list fs" using Cons.prems(2) by (intro mult_left_mono) auto
      then show ?thesis using True by simp
    qed
    then show ?thesis using True by (auto simp: improves_def)
  next
    case False
    note IH = Cons.IH and pos = Cons.prems(1) and cv = Cons.prems(2)
    let ?run = "\<lambda>b f. enumerateGrids target tv factors (cand @ [f]) (cv * f) b"
    have "improves target tv {f # gs |f gs. f \<in> set fs \<and> choice factors gs} cand cv b (foldl ?run b fs)"
      if "set fs \<subseteq> set fl" for b fs
      using that
    proof (induction fs arbitrary: b)
      case Nil
      then show ?case by (simp add: improves_def)
    next
      case (Cons f fs)
      have f: "0 < f" using Cons.prems pos by auto
      have "improves target tv {gs. choice factors gs} (cand @ [f]) (cv * f) b (?run b f)"
        by (rule IH) (use pos cv f in auto)
      from improves_trans [OF improves_shift [OF this] Cons.IH] Cons.prems
      have "improves target tv ((#) f ` {gs. choice factors gs} \<union> {f # gs |f gs. f \<in> set fs \<and> choice factors gs}) cand cv b
        (foldl ?run b (f # fs))" by simp
      moreover have "(#) f ` {gs. choice factors gs} \<union> {f # gs |f gs. f \<in> set fs \<and> choice factors gs}
          = {g # gs |g gs. g \<in> set (f # fs) \<and> choice factors gs}" by auto
      ultimately show ?case by simp
    qed
    from this [of fl best] have "improves target tv {f # gs |f gs. f \<in> set fl \<and> choice factors gs} cand cv best (foldl ?run best fl)"
      by simp
    moreover have "{fs. choice (fl # factors) fs} = {f # gs |f gs. f \<in> set fl \<and> choice factors gs}"
      by (auto simp: choice_Cons)
    ultimately show ?thesis using False by simp
  qed
qed

section \<open>Selected grids\<close>

lemma find_descending:
  fixes t :: int
  assumes "find P (rev [1..t]) = Some g"
  shows "1 \<le> g \<and> g \<le> t \<and> P g \<and> (\<forall>h. P h \<and> 1 \<le> h \<and> h \<le> t \<longrightarrow> h \<le> g)"
proof -
  obtain i where i: "i < length (rev [1..t])" "P (rev [1..t] ! i)" "g = rev [1..t] ! i" "\<And>j. j < i \<Longrightarrow> \<not> P (rev [1..t] ! j)"
    using assms unfolding find_Some_iff by blast
  have nth: "rev [1..t] ! j = t - int j" if "j < length [1..t]" for j
  proof -
    have "1 + int (nat t - Suc j) = t - int j" using that by simp
    then show ?thesis using that nth_upto [of 1 "nat t - Suc j" t] by (simp add: rev_nth)
  qed
  have g: "g = t - int i" "int i < t" using i(1,3) nth [of i] by auto
  have "h \<le> g" if "P h" "1 \<le> h" "h \<le> t" for h
  proof (rule ccontr)
    assume "\<not> h \<le> g"
    then have "nat (t - h) < i" "nat (t - h) < length [1..t]" "t - int (nat (t - h)) = h" using g that by auto
    then show False using i(4) nth that(1) by metis
  qed
  then show ?thesis using g i(2,3) by simp
qed

lemma largest_divisor_greatest:
  assumes "1 \<le> t"
  shows "1 \<le> largest_divisor d t \<and> largest_divisor d t \<le> t \<and> largest_divisor d t dvd d \<and>
    (\<forall>g. g dvd d \<and> 1 \<le> g \<and> g \<le> t \<longrightarrow> g \<le> largest_divisor d t)"
proof -
  have "find (\<lambda>g. d mod g = 0) (rev [1..t]) \<noteq> None" using assms by (auto simp: find_None_iff intro: bexI [of _ 1])
  then obtain g where g: "find (\<lambda>g. d mod g = 0) (rev [1..t]) = Some g" by blast
  from find_descending [OF this] show ?thesis unfolding largest_divisor_def g by (simp add: dvd_eq_mod_eq_0)
qed

lemma prod_two: "list_all (\<lambda>x. x = 1) (xs :: int list) \<Longrightarrow> prod_list (xs @ [a, b]) = a * b"
  by (induction xs) auto

lemma block_grid:
  assumes phys: "list_all (\<lambda>d. 0 < d) phys" "2 \<le> length phys"
    and t: "length target = 2" "list_all (\<lambda>d. 0 < d) target"
  shows "\<exists>g. computeOptimalBlockShardedGrid phys target = Some g \<and> list_all2 (\<lambda>g p. 0 < g \<and> g dvd p) g phys \<and>
    isLegalVolume target (prod_list g)"
proof -
  let ?n = "length phys"
  let ?a = "largest_divisor (phys ! (?n - 2)) (target ! 0)" and ?b = "largest_divisor (phys ! (?n - 1)) (target ! 1)"
  have tt: "1 \<le> target ! 0" "1 \<le> target ! 1" using t by (auto simp: list_all_length int_one_le_iff_zero_less)
  have two: "[0..<2] = [0, 1 :: nat]" by (simp add: numeral_2_eq_2)
  have n1: "Suc (?n - 2) = ?n - 1" "?n - 2 < ?n" "?n - 1 < ?n" using phys(2) by auto
  have g: "computeOptimalBlockShardedGrid phys target = Some (replicate (?n - 2) 1 @ [?a, ?b])"
    using phys t n1 by (simp add: computeOptimalBlockShardedGrid_def Let_def two list_all_length)
  note la = largest_divisor_greatest [OF tt(1), of "phys ! (?n - 2)"]
  note lb = largest_divisor_greatest [OF tt(2), of "phys ! (?n - 1)"]
  have "list_all2 (\<lambda>g p. 0 < g \<and> g dvd p) (replicate (?n - 2) 1 @ [?a, ?b]) phys"
    unfolding list_all2_conv_all_nth
  proof (intro conjI allI impI)
    fix i assume "i < length (replicate (?n - 2) 1 @ [?a, ?b])"
    then consider "i < ?n - 2" | "i = ?n - 2" | "i = ?n - 1" using n1 by fastforce
    then show "0 < (replicate (?n - 2) 1 @ [?a, ?b]) ! i" "(replicate (?n - 2) 1 @ [?a, ?b]) ! i dvd phys ! i"
      using la lb n1 by (cases; auto simp: nth_append)+
  qed (use phys in simp)
  moreover have "prod_list (replicate (?n - 2) 1 @ [?a, ?b]) = ?a * ?b" by (intro prod_two) (simp add: list_all_iff)
  moreover have "isLegalVolume target (?a * ?b)"
    using la lb t tt isLegalVolume_iff [of target "?a * ?b"] by (auto simp: fits_target_def zero_less_mult_iff)
  ultimately show ?thesis using g by simp
qed

lemma divisor_choice:
  assumes "list_all (\<lambda>d. 0 < d) phys"
  shows "choice (map getFactors phys) fs \<longleftrightarrow> list_all2 (\<lambda>g p. 0 < g \<and> g dvd p) fs phys"
  using assms unfolding choice_def list_all2_conv_all_nth
  by (auto simp: list_all_length getFactors_set int_one_le_iff_zero_less)

lemma legal_volume_le:
  assumes "length target = 2" "isLegalVolume target v" "list_all (\<lambda>d. 0 < d) target"
  shows "v \<le> volume target 1"
proof -
  obtain t0 t1 where t: "target = [t0, t1]" using assms(1) by (auto simp: length_Suc_conv numeral_2_eq_2)
  then obtain y x where "0 < y" "0 < x" "y * x = v" "y \<le> t0" "x \<le> t1"
    using assms isLegalVolume_iff [of target v] by (auto simp: fits_target_def)
  then show ?thesis using t by (auto simp: volume_def intro: mult_mono)
qed

lemma virtual_grid:
  assumes phys: "list_all (\<lambda>d. 0 < d) phys" "length phys \<noteq> 2"
    and t: "length target = 2" "list_all (\<lambda>d. 0 < d) target"
  shows "list_all2 (\<lambda>g p. 0 < g \<and> g dvd p) (computeOptimalVirtualGrid phys target) phys \<and>
    isLegalVolume target (prod_list (computeOptimalVirtualGrid phys target)) \<and>
    (\<forall>g. list_all2 (\<lambda>g p. 0 < g \<and> g dvd p) g phys \<and> isLegalVolume target (prod_list g) \<longrightarrow>
       prod_list g \<le> prod_list (computeOptimalVirtualGrid phys target))"
proof -
  let ?C = "choice (map getFactors phys)" and ?tv = "volume target 1"
  define r where "r = enumerateGrids target ?tv (map getFactors phys) [] 1 ([0], 0)"
  have grid: "computeOptimalVirtualGrid phys target = fst r" using phys(2) by (simp add: computeOptimalVirtualGrid_def r_def)
  have "\<forall>fl\<in>set (map getFactors phys). \<forall>f\<in>set fl. 0 < f"
    using phys(1) by (auto simp: list_all_iff getFactors_set int_one_le_iff_zero_less)
  from enumerateGrids_improves [OF this, of 1] have imp: "improves target ?tv {fs. ?C fs} [] 1 ([0], 0) r"
    by (simp add: r_def)
  let ?ones = "replicate (length phys) (1 :: int)"
  have ones: "?C ?ones" unfolding divisor_choice [OF phys(1)] by (auto simp: list_all2_conv_all_nth)
  have legal1: "isLegalVolume target (prod_list ?ones)"
    using t isLegalVolume_iff [of target 1] by (auto simp: fits_target_def list_all_length int_one_le_iff_zero_less intro!: exI [of _ 1])
  have max: "prod_list fs \<le> snd r" if "?C fs" "isLegalVolume target (prod_list fs)" for fs
    using imp that legal_volume_le [OF t(1) that(2) t(2)] unfolding improves_def by auto
  have "snd r \<noteq> 0" using max [OF ones legal1] by simp
  then obtain fs where fs: "?C fs" "r = (fs, prod_list fs)" "isLegalVolume target (prod_list fs)"
    using imp unfolding improves_def by auto
  then show ?thesis using max unfolding grid divisor_choice [OF phys(1)] by simp
qed

lemma find_last_greatest:
  assumes "sorted xs" "find P (rev xs) = Some x"
  shows "x \<in> set xs \<and> P x \<and> (\<forall>y\<in>set xs. P y \<longrightarrow> y \<le> x)"
  using assms
proof (induction xs rule: rev_induct)
  case (snoc y ys)
  then show ?case by (auto simp: sorted_append split: if_splits)
qed simp

lemma virtual_grid_2d:
  assumes phys: "list_all (\<lambda>d. 0 < d) phys" "length phys = 2"
    and g: "computeOptimalVirtualGrid phys target = g" "g \<noteq> []" and idx: "findShardedDimIndex phys < 2"
  shows "list_all2 (\<lambda>g p. 0 < g \<and> g dvd p) g phys \<and> isLegalVolume target (prod_list g)"
proof -
  let ?i = "findShardedDimIndex phys"
  let ?P = "\<lambda>f. f \<le> volume target 1 \<and> isLegalVolume target f"
  have p: "0 < phys ! ?i" using phys idx by (simp add: list_all_length)
  from g phys obtain f where f: "find ?P (rev (getFactors (phys ! ?i))) = Some f" "g = (replicate 2 1)[?i := f]"
    by (auto simp: computeOptimalVirtualGrid_def Let_def split: option.splits if_splits)
  from find_last_greatest [OF getFactors_sorted f(1)] p
  have f': "1 \<le> f" "f dvd phys ! ?i" "isLegalVolume target f" by (auto simp: getFactors_set int_one_le_iff_zero_less)
  have two: "?i = 0 \<or> ?i = 1" using idx by auto
  have "prod_list g = f" using two f(2) by (auto simp: numeral_2_eq_2)
  moreover have "list_all2 (\<lambda>g p. 0 < g \<and> g dvd p) g phys"
    using two f' phys(2) unfolding f(2) list_all2_conv_all_nth by (auto simp: nth_list_update less_2_cases_iff)
  ultimately show ?thesis using f' by simp
qed

lemma findShardedDimIndex_bound: "sh \<noteq> [] \<Longrightarrow> findShardedDimIndex sh < length sh"
proof -
  assume sh: "sh \<noteq> []"
  have "snd (foldl (\<lambda>(bestRatio, bestIndex) i. if dim_ratio sh i > bestRatio then (dim_ratio sh i, i) else (bestRatio, bestIndex)) b is)
      < length sh" if "snd b < length sh" "\<forall>i\<in>set is. i < length sh" for b "is"
    using that by (induction "is" arbitrary: b) (auto split: prod.splits)
  from this [of "(1, 0)" "[0..<length sh]"] sh show ?thesis by (simp add: findShardedDimIndex_def)
qed

lemma optimal_grid:
  assumes phys: "list_all (\<lambda>d. 0 < d) phys" "2 \<le> length phys"
    and t: "length target = 2" "list_all (\<lambda>d. 0 < d) target"
  shows "\<exists>g. computeOptimalGrid ml phys target = Some g \<and> list_all2 (\<lambda>g p. 0 < g \<and> g dvd p) g phys \<and>
    isLegalVolume target (prod_list g)"
proof -
  obtain b where b: "computeOptimalBlockShardedGrid phys target = Some b" "list_all2 (\<lambda>g p. 0 < g \<and> g dvd p) b phys"
      "isLegalVolume target (prod_list b)" using block_grid [OF phys t] by blast
  let ?v = "computeOptimalVirtualGrid phys target"
  have v: "list_all2 (\<lambda>g p. 0 < g \<and> g dvd p) ?v phys \<and> isLegalVolume target (prod_list ?v)" if "?v \<noteq> []"
  proof (cases "length phys = 2")
    case True
    then show ?thesis using virtual_grid_2d [OF phys(1) True refl that] findShardedDimIndex_bound [of phys] by fastforce
  qed (use virtual_grid [OF phys(1) _ t] in blast)
  then show ?thesis using b by (auto simp: computeOptimalGrid_def shouldImplementAsVirtualGrid_def)
qed

end
