(* ===== verification/GridProps.thy ===== *)
theory GridProps
  imports GridFacts GridSearch AffineMaps
begin

text \<open>
  The properties of layouts and of grid selection.
\<close>

section \<open>Host layouts\<close>

text \<open>C30: The host strides of a layout whose intervals partition its dimensions address every element of
  the logical tensor at a place of its own, below the host volume; and the host volume is the volume of
  the physical shape, padding included, so that the host buffer holds exactly what the device reads.
  (A layout without dimensions has host volume 1 and a physical tile of 32x32.)\<close>

theorem host_layout_injective:
  assumes "verifyLayout layout = success" "covers 0 (getNormalizedIntervals layout) (int (length (logicalShape layout)))"
    "list_all (\<lambda>d. 0 < d) (logicalShape layout)" "logicalShape layout \<noteq> []"
  shows "\<exists>strides vol phys. getHostStrideAndVolume layout = Some (strides, vol) \<and>
    getPhysicalShape layout [] = Some phys \<and> vol = prod_list phys \<and>
    (\<forall>c. in_shape c (logicalShape layout) \<longrightarrow> 0 \<le> dot strides c \<and> dot strides c < vol) \<and>
    inj_on (dot strides) {c. in_shape c (logicalShape layout)}"
proof -
  let ?sh = "logicalShape layout" and ?al = "dimAlignments layout" and ?ivs = "getNormalizedIntervals layout"
  have al: "length ?al = length ?sh" "list_all (\<lambda>a. 0 < a) ?al"
    using assms(1) by (auto simp: verifyLayout_def Let_def split: if_splits)
  have pos: "0 < ?sh ! i \<and> 0 < ?al ! i" if "i < length ?sh" for i using that al assms(3) by (simp add: list_all_length)
  let ?sizes = "collapsed_sizes ?sh ?al ?ivs" and ?one = "length ?sh = 1"
  obtain strides where s: "host_intervals ?sh ?al (rev ?ivs) (replicate (length ?sh) 0, 1) = (strides, prod_list ?sizes)"
      "length strides = length ?sh" "0 < prod_list ?sizes" "dominating ?sh strides (prod_list ?sizes)"
    using host_intervals_spec [OF assms(2) _ pos] by auto
  let ?vol = "if ?one then prod_list ?sizes * 32 else prod_list ?sizes"
  have ge: "prod_list ?sizes \<le> ?vol" using s(3) by simp
  have vol: "prod_list ?sh \<le> prod_list ?sizes" using dominating_volume [OF s(4) assms(3)] .
  have host: "getHostStrideAndVolume layout = Some (strides, ?vol)"
    using s(1) order_trans [OF vol ge] by (auto simp: getHostStrideAndVolume_def Let_def volume_prod default_tile_def)
  have ne: "?sizes \<noteq> [] \<and> (?one \<longrightarrow> length ?sizes = 1)" using covers_sizes [OF assms(2)] assms(4) by auto
  have phys: "getPhysicalShape layout [] = Some (if ?one then 32 # ?sizes else ?sizes)"
    using applyCollapsed_covers [OF assms(2) al(1)] assms(4) ne by (auto simp: getPhysicalShape_def Let_def default_tile_def)
  have "?vol = prod_list (if ?one then 32 # ?sizes else ?sizes)" by simp
  moreover have "0 \<le> dot strides c \<and> dot strides c < ?vol" if "in_shape c ?sh" for c
    using dominating_bounds [OF s(4) that] ge by linarith
  moreover have "inj_on (dot strides) {c. in_shape c ?sh}" using dominating_inj [OF s(4)] by (auto intro!: inj_onI)
  ultimately show ?thesis using host phys by blast
qed

definition padded_layout :: metal_layout where
  "padded_layout = \<lparr>logicalShape = [4, 43, 7], dimAlignments = [1, 32, 32], collapsedIntervals = [(0, - 1)], memoryLayout = Sharded\<rparr>"

theorem host_layout_injective_witness:
  "\<exists>strides. getHostStrideAndVolume padded_layout = Some (strides, 8192) \<and> dot strides [3, 42, 6] < 8192 \<and>
     dot strides [0, 1, 0] \<noteq> dot strides [0, 0, 6]"
proof -
  have n: "getNormalizedIntervals padded_layout = [(0, 2), (2, 3)]" by code_simp
  have v: "verifyLayout padded_layout = success" by code_simp
  have "\<exists>strides vol phys. getHostStrideAndVolume padded_layout = Some (strides, vol) \<and>
    getPhysicalShape padded_layout [] = Some phys \<and> vol = prod_list phys \<and>
    (\<forall>c. in_shape c (logicalShape padded_layout) \<longrightarrow> 0 \<le> dot strides c \<and> dot strides c < vol) \<and>
    inj_on (dot strides) {c. in_shape c (logicalShape padded_layout)}"
    by (rule host_layout_injective [OF v]) (simp_all add: n, simp_all add: padded_layout_def)
  moreover have "getPhysicalShape padded_layout [] = Some [256, 32]" by code_simp
  moreover have "in_shape [3, 42, 6] (logicalShape padded_layout)" "in_shape [0, 1, 0] (logicalShape padded_layout)"
    "in_shape [0, 0, 6] (logicalShape padded_layout)" by (simp_all add: padded_layout_def)
  ultimately show ?thesis by (fastforce simp: inj_on_def)
qed

section \<open>Grid selection\<close>

text \<open>\<open>findLegalPhysicalGridForVolume\<close> finds a grid of the given volume inside the target grid
  exactly when there is one, and among those the most balanced.\<close>

theorem legal_grid_complete:
  assumes "0 < gridVolume" "2 \<le> length target" "0 < target ! 0" "0 < target ! 1"
  shows "\<exists>g. findLegalPhysicalGridForVolume gridVolume target = Some g \<and>
    (g = [] \<longleftrightarrow> \<not> (\<exists>y x. 0 < y \<and> 0 < x \<and> y * x = gridVolume \<and> y \<le> target ! 0 \<and> x \<le> target ! 1)) \<and>
    (g \<noteq> [] \<longrightarrow> (\<exists>y x. g = [y, x] \<and> 0 < y \<and> 0 < x \<and> y * x = gridVolume \<and> y \<le> target ! 0 \<and> x \<le> target ! 1 \<and>
       (\<forall>y' x'. 0 < y' \<and> 0 < x' \<and> y' * x' = gridVolume \<and> y' \<le> target ! 0 \<and> x' \<le> target ! 1 \<longrightarrow> min y' x' \<le> min y x)))"
  using legal_grid [OF assms] unfolding fits_target_def by simp

theorem legal_grid_complete_witness:
  "findLegalPhysicalGridForVolume 44 [8, 8] = Some [] \<and> \<not> (\<exists>y x. 0 < y \<and> 0 < x \<and> y * x = 44 \<and> y \<le> 8 \<and> x \<le> (8 :: int))"
proof -
  have "findLegalPhysicalGridForVolume 44 [8, 8] = Some []" by code_simp
  then show ?thesis using legal_grid_complete [of 44 "[8, 8]"] by simp
qed

text \<open>C31: The virtual grid of a tensor whose physical shape is not 2D divides the shape, can be laid out
  on the device, and uses as many cores as any such grid.\<close>

theorem virtual_grid_optimal:
  assumes "list_all (\<lambda>d. 0 < d) phys" "length phys \<noteq> 2" "length target = 2" "list_all (\<lambda>d. 0 < d) target"
  shows "list_all2 (\<lambda>g p. 0 < g \<and> g dvd p) (computeOptimalVirtualGrid phys target) phys \<and>
    isLegalVolume target (prod_list (computeOptimalVirtualGrid phys target)) \<and>
    \<not> (\<exists>g. list_all2 (\<lambda>g p. 0 < g \<and> g dvd p) g phys \<and> isLegalVolume target (prod_list g) \<and>
       prod_list (computeOptimalVirtualGrid phys target) < prod_list g)"
  using virtual_grid [OF assms] by (auto simp: not_less)

theorem virtual_grid_optimal_witness:
  "computeOptimalVirtualGrid [3, 5, 2] [2, 3] = [3, 1, 2] \<and>
   \<not> (\<exists>g. list_all2 (\<lambda>g p. 0 < g \<and> g dvd p) g [3, 5, 2] \<and> isLegalVolume [2, 3] (prod_list g) \<and> 6 < prod_list g)"
proof -
  have "computeOptimalVirtualGrid [3, 5, 2] [2, 3] = [3, 1, 2]" by code_simp
  then show ?thesis using virtual_grid_optimal [of "[3, 5, 2]" "[2, 3]"] by simp
qed

text \<open>C32: For a tensor of rank at least 2 and positive sizes with the default collapse, tile sizes that divide 32
  and a 2-dimensional device grid, outside of the TTNN mode, grid selection goes through from end to end: the
  grid-aware physical shape exists, the optimal grid divides it and can be laid out on the device, and
  the assertion that every collapsed interval can be aligned to the selected grid and to the tile
  never fails, so that the tensor type with the grid is built: grid and shard multiply to the aligned
  physical shape.\<close>

theorem grid_selection_total:
  assumes "getNormalizedIntervals layout = computeDefaultFlattenedIntervals (length (logicalShape layout))"
    "2 \<le> length (logicalShape layout)" "list_all (\<lambda>d. 0 < d) (logicalShape layout)"
    "length target = 2" "list_all (\<lambda>d. 0 < d) target"
    "pred_option (\<lambda>t. length t = 2 \<and> list_all (\<lambda>x. 0 < x \<and> x dvd 32) t) tile"
  shows "\<exists>phys grid shard new. computePhysicalShape layout target tile False = Some phys \<and>
    computeOptimalGrid (memoryLayout layout) phys target = Some grid \<and> isLegalVolume target (prod_list grid) \<and>
    tensorWithOptimalGrid layout tile False grid [] = Some (grid @ shard, new) \<and>
    getPhysicalShape new (case tile of None \<Rightarrow> [] | Some t \<Rightarrow> t) = Some (map2 (*) grid shard) \<and>
    logicalShape new = logicalShape layout"
proof -
  let ?t = "case tile of None \<Rightarrow> [] | Some t \<Rightarrow> t"
  have tile: "\<forall>t\<in>set_option tile. length t = 2 \<and> list_all (\<lambda>x. 0 < x \<and> x dvd 32) t"
    using assms(6) by (cases tile) auto
  obtain phys where phys: "computePhysicalShape layout target tile False = Some phys" "length phys = 2" "list_all (\<lambda>d. 0 < d) phys"
    using default_physical_shape [OF assms(1-5) tile] by blast
  obtain grid where grid: "computeOptimalGrid (memoryLayout layout) phys target = Some grid"
      "list_all2 (\<lambda>g p. 0 < g \<and> g dvd p) grid phys" "isLegalVolume target (prod_list grid)"
    using optimal_grid [OF phys(3) _ assms(4,5)] phys(2) by auto
  have g: "length grid = 2" "list_all (\<lambda>g. 0 < g) grid"
    using grid(2) phys(2) by (auto simp: list_all2_conv_all_nth list_all_length)
  have ivs: "length (getNormalizedIntervals layout) = 2"
    using assms(1,2) by (auto simp: computeDefaultFlattenedIntervals_def Let_def)
  have ok: "collapse_ok layout" using default_collapse_ok [OF assms(1-3)] .
  have tt: "length ?t \<in> {0, 2}" "list_all (\<lambda>t. 0 < t \<and> t dvd 32) ?t" using tile by (auto split: option.splits)
  obtain new shard tiled where new: "layoutWithOptimalGrid layout grid False ?t = Some new"
      "getDeviceShape new grid ?t = Some (grid @ shard)" "getPhysicalShape new ?t = Some tiled"
      "tiled = map2 (*) grid shard"
    using selected_grid_device_shape [OF ok _ g(2) tt] g(1) ivs by metis
  have "logicalShape new = logicalShape layout" using new(1) by (auto simp: layoutWithOptimalGrid_def)
  then show ?thesis using phys(1) grid(1,3) new
    by (intro exI [of _ phys] exI [of _ grid] exI [of _ shard] exI [of _ new]) (cases tile; simp add: tensorWithOptimalGrid_def)
qed

definition default_layout :: metal_layout where
  "default_layout = \<lparr>logicalShape = [9, 43, 7], dimAlignments = [1, 32, 32], collapsedIntervals = [(0, 2), (2, 3)],
     memoryLayout = Sharded\<rparr>"

theorem grid_selection_total_witness:
  "\<exists>grid shard new. computeOptimalGrid Sharded [24, 1] [8, 8] = Some grid \<and> isLegalVolume [8, 8] (prod_list grid) \<and>
     tensorWithOptimalGrid default_layout (Some [32, 32]) False grid [] = Some (grid @ shard, new)"
proof -
  have iv: "getNormalizedIntervals default_layout = computeDefaultFlattenedIntervals (length (logicalShape default_layout))"
    by code_simp
  have phys: "computePhysicalShape default_layout [8, 8] (Some [32, 32]) False = Some [24, 1]" by code_simp
  have ml: "memoryLayout default_layout = Sharded" by (simp add: default_layout_def)
  have "\<exists>phys grid shard new. computePhysicalShape default_layout [8, 8] (Some [32, 32]) False = Some phys \<and>
    computeOptimalGrid (memoryLayout default_layout) phys [8, 8] = Some grid \<and> isLegalVolume [8, 8] (prod_list grid) \<and>
    tensorWithOptimalGrid default_layout (Some [32, 32]) False grid [] = Some (grid @ shard, new) \<and>
    getPhysicalShape new (case Some [32, 32] of None \<Rightarrow> [] | Some t \<Rightarrow> t) = Some (map2 (*) grid shard) \<and>
    logicalShape new = logicalShape default_layout"
    by (rule grid_selection_total [OF iv]) (simp_all add: default_layout_def)
  then show ?thesis unfolding phys ml by auto
qed

section \<open>Uncovered dimensions\<close>

text \<open>A dimension that no interval covers should become its own interval, but only the dimensions
  after the last covered one do: a leading dimension outside the intervals is dropped. With the
  collapse \<open>(1, -1)\<close> of the documentation, a 4D tensor has a 2D physical shape in which the first
  dimension has no part, and whose volume does not depend on it.\<close>

theorem uncovered_dim_lost:
  assumes "collapsedIntervals layout = [(1, - 1)]" "length (logicalShape layout) = 4" "length (dimAlignments layout) = 4"
  shows "getNormalizedIntervals layout = [(1, 3), (3, 4)] \<and>
    getPhysicalShape (layout\<lparr>logicalShape := (logicalShape layout)[0 := d]\<rparr>) [] = getPhysicalShape layout []"
proof -
  let ?al = "dimAlignments layout"
  have ivs: "getNormalizedIntervals (layout\<lparr>logicalShape := sh\<rparr>) = [(1, 3), (3, 4)]" if "length sh = 4" for sh
    using that assms(1) by (simp add: getNormalizedIntervals_def normalizeAndFlattenIntervals_def wrap_index_def Let_def)
  have phys: "getPhysicalShape (layout\<lparr>logicalShape := sh\<rparr>) [] = Some [stage sh ?al 1 3, stage sh ?al 3 4]" if "length sh = 4" for sh
    using that assms(3)
    by (auto simp: getPhysicalShape_def ivs applyCollapsedIntervalsAndAlignments_def wrap_index_def Let_def
        collapsed_stage stage_step numeral_eq_Suc)
  have st: "stage ((logicalShape layout)[0 := d]) ?al j e = stage (logicalShape layout) ?al j e" if "0 < j" for j e
    unfolding stage_def using that by (intro foldl_cong) auto
  have "getPhysicalShape layout [] = Some [stage (logicalShape layout) ?al 1 3, stage (logicalShape layout) ?al 3 4]"
    using phys [OF assms(2)] by simp
  then show ?thesis using phys [of "(logicalShape layout)[0 := d]"] ivs [OF assms(2)] assms(2) st by simp
qed

definition uncovered_layout :: metal_layout where
  "uncovered_layout = \<lparr>logicalShape = [5, 2, 32, 64], dimAlignments = [1, 1, 32, 32], collapsedIntervals = [(1, - 1)],
     memoryLayout = Sharded\<rparr>"

theorem uncovered_dim_lost_witness:
  "getPhysicalShape uncovered_layout [] = Some [64, 64] \<and> getHostStrideAndVolume uncovered_layout = None \<and>
   getPhysicalShape (uncovered_layout\<lparr>logicalShape := [100, 2, 32, 64]\<rparr>) [] = Some [64, 64]"
proof -
  have p: "getPhysicalShape uncovered_layout [] = Some [64, 64]" "getHostStrideAndVolume uncovered_layout = None" by code_simp+
  have "getPhysicalShape (uncovered_layout\<lparr>logicalShape := (logicalShape uncovered_layout)[0 := 100]\<rparr>) [] = getPhysicalShape uncovered_layout []"
    using uncovered_dim_lost [of uncovered_layout 100] by (simp add: uncovered_layout_def)
  moreover have "(logicalShape uncovered_layout)[0 := 100] = [100, 2, 32, 64]" by (simp add: uncovered_layout_def)
  ultimately show ?thesis using p by simp
qed

text \<open>The query for collapsed dimensions inspects only every second interval.\<close>

lemma collapsed_dims_missed:
  assumes "getNormalizedIntervals layout = [(0, 1), (1, n)]"
  shows "\<not> hasNonTrivialCollapsedDims layout deviceShape"
  using assms by (simp add: hasNonTrivialCollapsedDims_def wrap_index_def numeral_2_eq_2)

text \<open>The physical extent of a virtual grid is a factorization of its volume, not the part of the target grid
  that the maps of \<open>createCoreVirtMaps\<close> fill.\<close>

lemma physical_extent_not_row_major:
  "getPhysicalGridExtent [6] [8, 8] = Some [2, 3]"
  "map_option (\<lambda>(fwd, inverse). map (\<lambda>i. take 2 (compose_map fwd [i, 0])) [0..5]) (createCoreVirtMaps folding_ops [6] [8, 8])
     = Some [[0, 0], [0, 1], [0, 2], [0, 3], [0, 4], [0, 5]]"
  by code_simp+

end
