(* ===== verification/DeviceMaps.thy ===== *)
theory DeviceMaps
  imports AffineModel DataTypes Layouts
begin

text \<open>
  Devices of \<open>lib/Dialect/TTCore/IR/TTCoreOpsTypes.cpp\<close>: the worker grid, the maps from shards to L1
  and DRAM addresses, \<open>DeviceAttr::verify\<close>, tiles and buffer sizes. MLIR's operators are the
  parameter \<open>ops\<close>.
\<close>

section \<open>Memory maps\<close>

record grid_attr =
  gridShape :: shape
  virtToPhysicalMap :: affine_map
  physicalToVirtMap :: affine_map

definition createL1Map :: "affine_ops \<Rightarrow> grid_attr \<Rightarrow> affine_map" where
  "createL1Map ops workerGrid =
     (let workerMap = virtToPhysicalMap workerGrid; n = numDims workerMap
      in \<lparr>numDims = n + 1, numSymbols = 1, results = results workerMap @ [plusE ops (SymE 0) (DimE n)]\<rparr>)"

text \<open>The device index of the outer mesh dimensions, from the innermost one.\<close>

fun mesh_loop :: "affine_ops \<Rightarrow> int list \<Rightarrow> nat list \<Rightarrow> affine_expr \<Rightarrow> int \<Rightarrow> affine_expr" where
  "mesh_loop ops meshShape [] deviceIdx meshStride = deviceIdx"
| "mesh_loop ops meshShape (i # is) deviceIdx meshStride =
     mesh_loop ops meshShape is (plusE ops (timesE ops (DimE i) (ConstE meshStride)) deviceIdx) (meshStride * meshShape ! i)"

definition createWorkerGrid :: "affine_ops \<Rightarrow> int list \<Rightarrow> int list \<Rightarrow> grid_attr option" where
  "createWorkerGrid ops chipGrid meshShapeRef =
     (if length chipGrid \<noteq> 2 then None
      else let meshShape = meshShapeRef @ replicate (2 - length meshShapeRef) 1;
               n = length meshShape;
               virtualGrid = map2 (*) (replicate (n - 2) 1 @ chipGrid) meshShape;
               coreY = DimE (n - 2); coreX = DimE (n - 1); mx = meshShape ! (n - 1); my = meshShape ! (n - 2);
               (dev1, x1) = (if mx > 1
                             then (plusE ops (floorDivE ops coreX (ConstE (chipGrid ! 1))) (ConstE 0), modE ops coreX (ConstE mx))
                             else (ConstE 0, coreX));
               (dev2, y1) = (if my > 1
                             then (plusE ops (timesE ops (floorDivE ops coreY (ConstE (chipGrid ! 0))) (ConstE mx)) dev1,
                                   modE ops coreY (ConstE my))
                             else (dev1, coreY));
               dev3 = mesh_loop ops meshShape (rev [0..<n - 2]) dev2 (mx * my)
           in Some \<lparr>gridShape = virtualGrid,
                    virtToPhysicalMap = \<lparr>numDims = n, numSymbols = 0, results = [dev3, y1, x1]\<rparr>,
                    physicalToVirtMap = \<lparr>numDims = n + 1, numSymbols = 0, results = map (\<lambda>i. DimE (i + 1)) [0..<n]\<rparr>\<rparr>)"

fun shard_volume_loop :: "affine_ops \<Rightarrow> nat \<Rightarrow> nat list \<Rightarrow> affine_expr \<Rightarrow> affine_expr" where
  "shard_volume_loop ops n [] shardVolume = shardVolume"
| "shard_volume_loop ops n (i # is) shardVolume = shard_volume_loop ops n is (timesE ops (SymE (n + i)) shardVolume)"

fun flat_addr_loop :: "affine_ops \<Rightarrow> affine_expr \<Rightarrow> nat list \<Rightarrow> affine_expr \<Rightarrow> affine_expr \<Rightarrow> affine_expr" where
  "flat_addr_loop ops shardVolume [] flatAddr gridVolume = flatAddr"
| "flat_addr_loop ops shardVolume (i # is) flatAddr gridVolume =
     flat_addr_loop ops shardVolume is
       (plusE ops (timesE ops (timesE ops (DimE i) gridVolume) shardVolume) flatAddr) (timesE ops gridVolume (SymE i))"

definition createDramMap :: "affine_ops \<Rightarrow> grid_attr \<Rightarrow> int \<Rightarrow> affine_map option" where
  "createDramMap ops workerGrid numDramCores =
     (let workerMap = virtToPhysicalMap workerGrid; n = numDims workerMap
      in if length (results workerMap) \<noteq> 3 then None
         else let shardVolume = shard_volume_loop ops n (rev [0..<n]) (SymE (n * 2 + 2));
                  flatAddr = flat_addr_loop ops shardVolume (rev [0..<n]) (DimE n) (ConstE 1);
                  baseAddress = SymE (n * 2 + 1); numDramBanks = ConstE numDramCores; dramPageSize = SymE (n * 2);
                  pageIndex = floorDivE ops flatAddr dramPageSize;
                  channelPageIndex = floorDivE ops pageIndex numDramBanks
              in Some \<lparr>numDims = n + 1, numSymbols = n * 2 + 3,
                   results = [ConstE 0, ConstE 0, modE ops pageIndex numDramBanks,
                     plusE ops (plusE ops (timesE ops channelPageIndex dramPageSize) (modE ops flatAddr dramPageSize))
                       baseAddress]\<rparr>)"

section \<open>Devices\<close>

record device_attr =
  workerGrid :: grid_attr
  dramGrid :: shape
  l1Map :: affine_map
  dramMap :: affine_map
  meshShape :: "int list"
  chipIds :: "nat list"
  meshTopology :: "nat list"

datatype device_error =
    NoChip | ChipCount | WorkerGridDims | DramGridRank | DramGridDims | PhysicalMapping | L1MapResults
  | DramMapResults | TopologyRank

definition verifyDevice :: "device_attr \<Rightarrow> device_error verdict" where
  "verifyDevice d =
     (if chipIds d = [] then Inl NoChip
      else if int (length (chipIds d)) \<noteq> volume (meshShape d) 1 then Inl ChipCount
      else if \<not> list_all (\<lambda>x. 0 < x) (gridShape (workerGrid d)) then Inl WorkerGridDims
      else if length (dramGrid d) \<noteq> 2 then Inl DramGridRank
      else if \<not> list_all (\<lambda>x. 0 < x) (dramGrid d) then Inl DramGridDims
      else if length (results (virtToPhysicalMap (workerGrid d))) \<noteq> 3 then Inl PhysicalMapping
      else if length (results (l1Map d)) \<noteq> 4 then Inl L1MapResults
      else if length (results (dramMap d)) \<noteq> 4 then Inl DramMapResults
      else if meshTopology d \<noteq> [] \<and> length (meshTopology d) \<noteq> length (meshShape d) then Inl TopologyRank
      else success)"

text \<open>\<open>DeviceAttr::get\<close>: the grid that every chip has, a single-device worker grid, and the maps.\<close>

definition min_chip_grid :: "int list \<Rightarrow> int list list \<Rightarrow> int list" where
  "min_chip_grid first chips = foldl (\<lambda>g c. [min (g ! 0) (c ! 0), min (g ! 1) (c ! 1)]) first chips"

definition get_device ::
  "affine_ops \<Rightarrow> int list list \<Rightarrow> shape \<Rightarrow> int \<Rightarrow> int list \<Rightarrow> nat list \<Rightarrow> nat list \<Rightarrow> device_attr option" where
  "get_device ops chipGrids dram numDramChannels mesh chips topology =
     (if chips = [] \<or> \<not> list_all (\<lambda>c. c < length chipGrids \<and> length (chipGrids ! c) = 2) chips then None
      else case createWorkerGrid ops (min_chip_grid (chipGrids ! hd chips) (map (\<lambda>c. chipGrids ! c) chips)) [1, 1] of
             None \<Rightarrow> None
           | Some wg \<Rightarrow>
               map_option (\<lambda>dm. \<lparr>workerGrid = wg, dramGrid = dram, l1Map = createL1Map ops wg, dramMap = dm,
                   meshShape = mesh, chipIds = chips, meshTopology = topology\<rparr>)
                 (createDramMap ops wg numDramChannels))"

section \<open>Tiles and sizes\<close>

definition getScalarShape :: "int \<Rightarrow> int \<Rightarrow> shape \<Rightarrow> shape option" where
  "getScalarShape height width tiledShape =
     (let n = length tiledShape
      in if n < 2 then None
         else Some (tiledShape[n - 2 := tiledShape ! (n - 2) * height, n - 1 := tiledShape ! (n - 1) * width]))"

definition getTiledShape :: "int \<Rightarrow> int \<Rightarrow> shape \<Rightarrow> shape option" where
  "getTiledShape height width scalarShape =
     (let n = length scalarShape
      in if n < 2 then None
         else Some (scalarShape[n - 2 := (scalarShape ! (n - 2) + height - 1) sdiv height,
                                n - 1 := (scalarShape ! (n - 1) + width - 1) sdiv width]))"

definition getTileSizeBytes :: "data_type \<Rightarrow> int list \<Rightarrow> nat option" where
  "getTileSizeBytes dataType tileShape =
     (if length tileShape \<noteq> 2 then None
      else let height = nat (tileShape ! 0); width = nat (tileShape ! 1); full = (height = 32 \<and> width = 32)
           in case dataType of
                Float32 \<Rightarrow> Some (height * width * 4)
              | Float16 \<Rightarrow> Some (height * width * 2)
              | BFloat16 \<Rightarrow> Some (height * width * 2)
              | BFP_Float8 \<Rightarrow> if full then Some 1088 else None
              | BFP_BFloat8 \<Rightarrow> if full then Some 1088 else None
              | BFP_Float4 \<Rightarrow> if full then Some 576 else None
              | BFP_BFloat4 \<Rightarrow> if full then Some 576 else None
              | BFP_Float2 \<Rightarrow> if full then Some 320 else None
              | BFP_BFloat2 \<Rightarrow> if full then Some 320 else None
              | UInt32 \<Rightarrow> Some (height * width * 4)
              | Int32 \<Rightarrow> Some (height * width * 4)
              | UInt16 \<Rightarrow> Some (height * width * 2)
              | UInt8 \<Rightarrow> Some (height * width)
              | Bool \<Rightarrow> Some (height * width))"

text \<open>The layout of a memref: a device layout (with the number of buffers when it is a shard layout), a
  circular buffer, or none.\<close>

datatype memref_layout = DeviceLayout "nat option" | CircularBuffer nat | LocalLayout

definition getShardSizeInBytes :: "shape \<Rightarrow> memref_layout \<Rightarrow> int \<Rightarrow> int \<Rightarrow> bool \<Rightarrow> int option" where
  "getShardSizeInBytes sh layout elementSizeBytes alignSize includeBuffers =
     (let numBuffers = (case layout of
            DeviceLayout (Some b) \<Rightarrow> if includeBuffers then int b else 1
          | CircularBuffer b \<Rightarrow> if includeBuffers then int b else 1
          | _ \<Rightarrow> 1);
          shardShape = (case layout of DeviceLayout _ \<Rightarrow> drop (length sh div 2) sh | _ \<Rightarrow> sh)
      in if (case layout of DeviceLayout _ \<Rightarrow> length sh mod 2 \<noteq> 0 | _ \<Rightarrow> False) then None
         else Some (alignUp (volume shardShape (elementSizeBytes * numBuffers)) alignSize))"

end
