(* ===== verification/DeviceProps.thy ===== *)
theory DeviceProps
  imports DeviceMaps
begin

text \<open>
  The properties of device maps: DRAM addresses are distinct, and the worker grid of a mesh of several
  devices is not.
\<close>

section \<open>DRAM\<close>

context affine_builder begin

lemma eval_shard_volume:
  "eval_expr ds (ss @ sh @ rest) (shard_volume_loop ops (length ss) (rev [0..<k]) e)
     = prod_list (take k sh) * eval_expr ds (ss @ sh @ rest) e"
  if "k \<le> length sh" for sh :: "int list"
  using that
proof (induction k arbitrary: e)
  case (Suc k)
  then have "(ss @ sh @ rest) ! (length ss + k) = sh ! k" by (simp add: nth_append)
  then show ?case using Suc by (simp add: take_Suc_conv_app_nth affine_simps)
qed simp

lemma eval_flat_addr:
  assumes "k \<le> length g" "length g = length grid" "eval_expr (g @ [off]) (grid @ rest) gv = prod_list (drop k grid)"
  shows "eval_expr (g @ [off]) (grid @ rest) (flat_addr_loop ops sv (rev [0..<k]) e gv)
    = (row_index grid g - row_index (drop k grid) (drop k g)) * eval_expr (g @ [off]) (grid @ rest) sv
      + eval_expr (g @ [off]) (grid @ rest) e"
  using assms
proof (induction k arbitrary: e gv)
  case (Suc k)
  let ?ev = "eval_expr (g @ [off]) (grid @ rest)"
  have k: "k < length g" "k < length grid" using Suc.prems by auto
  have row: "row_index (drop k grid) (drop k g) = g ! k * prod_list (drop (Suc k) grid) + row_index (drop (Suc k) grid) (drop (Suc k) g)"
    and prod: "prod_list (drop k grid) = grid ! k * prod_list (drop (Suc k) grid)"
    using k by (simp_all flip: Cons_nth_drop_Suc)
  have "?ev (timesE ops gv (SymE k)) = prod_list (drop k grid)"
    using Suc.prems k by (simp add: affine_simps prod nth_append)
  note ih = Suc.IH [OF _ Suc.prems(2) this, of "plusE ops (timesE ops (timesE ops (DimE k) gv) sv) e"]
  have "?ev (plusE ops (timesE ops (timesE ops (DimE k) gv) sv) e) = g ! k * prod_list (drop (Suc k) grid) * ?ev sv + ?ev e"
    using Suc.prems k by (simp add: affine_simps nth_append)
  then show ?case using ih k by (simp add: row algebra_simps)
qed simp

lemma eval_dram_map:
  assumes m: "createDramMap ops wg banks = Some m" "numDims (virtToPhysicalMap wg) = length grid"
    and s: "length shard = length grid" "length g = length grid" "0 < page" "0 < banks"
  shows "map (eval_expr (g @ [off]) (grid @ shard @ [page, base, elem])) (results m)
    = (let flat = row_index grid g * (prod_list shard * elem) + off
       in [0, 0, flat div page mod banks, flat div page div banks * page + flat mod page + base])"
proof -
  let ?ev = "eval_expr (g @ [off]) (grid @ shard @ [page, base, elem])" and ?n = "length grid"
  let ?sv = "shard_volume_loop ops ?n (rev [0..<?n]) (SymE (?n * 2 + 2))"
  let ?flat = "flat_addr_loop ops ?sv (rev [0..<?n]) (DimE ?n) (ConstE 1)"
  have sym: "(grid @ shard @ [page, base, elem]) ! (?n * 2) = page" "(grid @ shard @ [page, base, elem]) ! (?n * 2 + 1) = base"
    "(grid @ shard @ [page, base, elem]) ! (?n * 2 + 2) = elem"
    using s(1) by (auto simp: nth_append numeral_2_eq_2 mult_2_right)
  have sv: "?ev ?sv = prod_list shard * elem" using eval_shard_volume [of ?n shard] s(1) sym(3) by simp
  have flat: "?ev ?flat = row_index grid g * (prod_list shard * elem) + off"
    using eval_flat_addr [of ?n g grid off "shard @ [page, base, elem]" "ConstE 1" ?sv "DimE ?n"] s(2) sv
    by (simp add: nth_append)
  have "results m = [ConstE 0, ConstE 0, modE ops (floorDivE ops ?flat (SymE (?n * 2))) (ConstE banks),
      plusE ops (plusE ops (timesE ops (floorDivE ops (floorDivE ops ?flat (SymE (?n * 2))) (ConstE banks)) (SymE (?n * 2)))
        (modE ops ?flat (SymE (?n * 2)))) (SymE (?n * 2 + 1))]"
    using m by (auto simp: createDramMap_def Let_def split: if_splits)
  then show ?thesis using sym s(3,4) flat by (simp add: affine_simps eval_div Let_def)
qed

end

lemma bank_address_inj:
  fixes p k F F' base :: int
  assumes "0 < p" "0 < k" "F div p mod k = F' div p mod k"
    "F div p div k * p + F mod p + base = F' div p div k * p + F' mod p + base"
  shows "F = F'"
proof -
  have e: "F div p div k * p + F mod p = F' div p div k * p + F' mod p" using assms(4) by simp
  have "(F div p div k * p + F mod p) div p = F div p div k" "(F' div p div k * p + F' mod p) div p = F' div p div k"
    using assms(1) by simp_all
  then have q: "F div p div k = F' div p div k" using e by simp
  then have "F mod p = F' mod p" using e by simp
  moreover have "F div p = F' div p" using q assms(3) by (metis div_mult_mod_eq)
  ultimately show ?thesis by (metis div_mult_mod_eq)
qed

lemma radix_split: "0 \<le> (off :: int) \<Longrightarrow> off < V \<Longrightarrow> (r * V + off) div V = r \<and> (r * V + off) mod V = off"
  by simp

text \<open>C36: The DRAM map sends the bytes of all shards of a tensor to different places: a bank below the
  number of banks and an offset at or after the base address, round robin by pages.\<close>

theorem dram_map_injective:
  assumes "legal_affine ops" "createDramMap ops wg banks = Some m" "numDims (virtToPhysicalMap wg) = length grid"
    "length shard = length grid" "0 < page" "0 < banks"
  shows "inj_on (\<lambda>(g, off). map (eval_expr (g @ [off]) (grid @ shard @ [page, base, elem])) (results m))
      {(g, off). in_shape g grid \<and> 0 \<le> off \<and> off < prod_list shard * elem} \<and>
    (\<forall>g off. in_shape g grid \<and> 0 \<le> off \<and> off < prod_list shard * elem \<longrightarrow>
      (\<exists>bank a. map (eval_expr (g @ [off]) (grid @ shard @ [page, base, elem])) (results m) = [0, 0, bank, a] \<and>
         0 \<le> bank \<and> bank < banks \<and> base \<le> a))"
proof -
  let ?V = "prod_list shard * elem" and ?ev = "\<lambda>g off. map (eval_expr (g @ [off]) (grid @ shard @ [page, base, elem])) (results m)"
  note ev = affine_builder.eval_dram_map [OF affine_builder.intro [OF assms(1)] assms(2,3,4) _ assms(5,6), of _ _ base elem]
  have inj: "(g, off) = (g', off')"
    if i: "in_shape g grid" "0 \<le> off" "off < ?V" "in_shape g' grid" "0 \<le> off'" "off' < ?V" "?ev g off = ?ev g' off'"
    for g off g' off'
  proof -
    let ?F = "row_index grid g * ?V + off" and ?F' = "row_index grid g' * ?V + off'"
    have "[0, 0, ?F div page mod banks, ?F div page div banks * page + ?F mod page + base]
        = [0, 0, ?F' div page mod banks, ?F' div page div banks * page + ?F' mod page + base]"
      using i(7) unfolding ev [OF in_shape_length [OF i(1)]] ev [OF in_shape_length [OF i(4)]] Let_def .
    then have "?F = ?F'" unfolding list.inject by (elim conjE) (rule bank_address_inj [OF assms(5,6)])
    then have "row_index grid g = row_index grid g'" "off = off'"
      using radix_split [OF i(2,3)] radix_split [OF i(5,6)] by metis+
    then show ?thesis using row_index_inj [OF i(1,4)] by simp
  qed
  have "\<exists>bank a. ?ev g off = [0, 0, bank, a] \<and> 0 \<le> bank \<and> bank < banks \<and> base \<le> a"
    if i: "in_shape g grid" "0 \<le> off" "off < ?V" for g off
  proof -
    let ?F = "row_index grid g * ?V + off"
    have "0 \<le> ?F" using row_index_bounds [OF i(1)] i by simp
    then have "0 \<le> ?F div page div banks * page" using assms(5,6) by (simp add: pos_imp_zdiv_nonneg_iff)
    moreover have "0 \<le> ?F mod page" using assms(5) by simp
    ultimately show ?thesis using ev [OF in_shape_length [OF i(1)], of off] assms(6) by (simp add: Let_def)
  qed
  then show ?thesis using inj by (auto intro!: inj_onI)
qed

theorem dram_map_injective_witness:
  "\<exists>wg m. createWorkerGrid folding_ops [8, 8] [1, 1] = Some wg \<and> createDramMap folding_ops wg 12 = Some m \<and>
     map (eval_expr ([0, 1] @ [5]) ([2, 2] @ [4, 4] @ [32, 1000, 4])) (results m)
       \<noteq> map (eval_expr ([1, 0] @ [5]) ([2, 2] @ [4, 4] @ [32, 1000, 4])) (results m)"
proof -
  obtain wg where wg: "createWorkerGrid folding_ops [8, 8] [1, 1] = Some wg" "numDims (virtToPhysicalMap wg) = 2"
      "length (results (virtToPhysicalMap wg)) = 3"
    by (auto simp: createWorkerGrid_def numeral_2_eq_2)
  then obtain m where m: "createDramMap folding_ops wg 12 = Some m" by (auto simp: createDramMap_def Let_def)
  have "inj_on (\<lambda>(g, off). map (eval_expr (g @ [off]) ([2, 2] @ [4, 4] @ [32, 1000, 4])) (results m))
      {(g, off). in_shape g [2, 2] \<and> 0 \<le> off \<and> off < prod_list [4, 4] * 4}"
    using dram_map_injective [OF legal_folding m, of "[2, 2]" "[4, 4]" 32 1000 4] wg(2) by simp
  from inj_onD [OF this, of "([0, 1], 5)" "([1, 0], 5)"] show ?thesis using wg(1) m by auto
qed

section \<open>Worker grids\<close>

text \<open>For a mesh of several devices the worker grid takes the core coordinate modulo the number of
  devices instead of the width of the chip, so that cores of one device collide: with \<open>mx\<close> devices side
  by side, the virtual cores \<open>x\<close> and \<open>x + mx\<close> are the same physical core. (\<open>DeviceAttr::get\<close> only
  asks for a mesh of one device, for which the map is the identity.)\<close>

theorem worker_grid_collision:
  assumes "legal_affine ops" "createWorkerGrid ops [gy, gx] [1, mx] = Some wg"
    "1 < mx" "0 \<le> x" "x + mx < gx"
  shows "compose_map (virtToPhysicalMap wg) [y, x] = compose_map (virtToPhysicalMap wg) [y, x + mx] \<and>
    compose_map (virtToPhysicalMap wg) [y, x] = [0, y, x mod mx]"
proof -
  note eval = affine_builder.eval_plus [OF affine_builder.intro [OF assms(1)]]
    affine_builder.eval_div [OF affine_builder.intro [OF assms(1)]]
  have "results (virtToPhysicalMap wg)
      = [plusE ops (floorDivE ops (DimE 1) (ConstE gx)) (ConstE 0), DimE 0, modE ops (DimE 1) (ConstE mx)]"
    using assms(2,3) by (auto simp: createWorkerGrid_def Let_def numeral_2_eq_2 split: prod.splits)
  then show ?thesis using assms(3-5) by (simp add: compose_map_def eval)
qed

theorem worker_grid_collision_witness:
  "\<exists>wg. createWorkerGrid folding_ops [8, 8] [1, 2] = Some wg \<and> gridShape wg = [8, 16] \<and>
     compose_map (virtToPhysicalMap wg) [3, 1] = compose_map (virtToPhysicalMap wg) [3, 3]"
proof -
  obtain wg where wg: "createWorkerGrid folding_ops [8, 8] [1, 2] = Some wg" "gridShape wg = [8, 16]"
    by (auto simp: createWorkerGrid_def Let_def numeral_2_eq_2 split: prod.splits)
  from worker_grid_collision [OF legal_folding this(1), of 1 3] wg show ?thesis by simp
qed

end
