(* ===== verification/GraphSched.thy ===== *)
theory GraphSched
  imports Prelude
begin

text \<open>
  The graph scheduler, \<open>lib/Scheduler/Scheduler.cpp\<close>: it keeps the operations of a function that
  nobody has scheduled yet and offers those whose dependencies are done. Operations are numbers; the
  kind of an operation and the users of its results come from the IR.
\<close>

section \<open>The scheduler\<close>

datatype op_kind = TTNN_EmptyOp | TTNN_GetDeviceOp | TTNN_OtherOp | TTIR_EmptyOp | TTIR_OtherOp | OtherDialectOp

record func_op =
  fo_op :: nat
  fo_users :: "nat list list"

definition isTTNNSchedulableOp :: "op_kind \<Rightarrow> bool" where
  "isTTNNSchedulableOp k \<longleftrightarrow> k = TTNN_OtherOp"

definition isTTIRSchedulableOp :: "op_kind \<Rightarrow> bool" where
  "isTTIRSchedulableOp k \<longleftrightarrow> k = TTIR_OtherOp"

definition isTTSchedulableOp :: "(nat \<Rightarrow> op_kind) \<Rightarrow> nat \<Rightarrow> bool" where
  "isTTSchedulableOp kind op \<longleftrightarrow> isTTNNSchedulableOp (kind op) \<or> isTTIRSchedulableOp (kind op)"

record scheduler =
  scheduledOps :: "nat set"
  op_schedule :: "nat list"
  opsWithinFuncOp :: "nat list"
  dependencies :: "nat \<Rightarrow> nat list"

text \<open>The users of one result; an operation that defines the result itself is not a dependent.\<close>

fun add_users :: "(nat \<Rightarrow> op_kind) \<Rightarrow> nat \<Rightarrow> nat list \<Rightarrow> (nat \<Rightarrow> nat list) \<Rightarrow> nat \<Rightarrow> nat list" where
  "add_users kind op [] deps = deps"
| "add_users kind op (u # us) deps =
     add_users kind op us (if isTTSchedulableOp kind u \<and> u \<noteq> op then deps(u := deps u @ [op]) else deps)"

fun add_dependencies :: "(nat \<Rightarrow> op_kind) \<Rightarrow> func_op list \<Rightarrow> (nat \<Rightarrow> nat list) \<Rightarrow> nat \<Rightarrow> nat list" where
  "add_dependencies kind [] deps = deps"
| "add_dependencies kind (o1 # os) deps =
     add_dependencies kind os
       (if isTTSchedulableOp kind (fo_op o1) then fold (add_users kind (fo_op o1)) (fo_users o1) deps else deps)"

definition scheduler_init :: "(nat \<Rightarrow> op_kind) \<Rightarrow> func_op list \<Rightarrow> scheduler" where
  "scheduler_init kind ops =
     \<lparr>scheduledOps = {}, op_schedule = [], opsWithinFuncOp = filter (isTTSchedulableOp kind) (map fo_op ops),
      dependencies = add_dependencies kind ops (\<lambda>_. [])\<rparr>"

definition canSchedule :: "scheduler \<Rightarrow> nat \<Rightarrow> bool" where
  "canSchedule s op \<longleftrightarrow> list_all (\<lambda>d. d \<in> scheduledOps s) (dependencies s op)"

definition hasBlockedSuccessor :: "scheduler \<Rightarrow> nat \<Rightarrow> bool" where
  "hasBlockedSuccessor s op \<longleftrightarrow>
     list_ex (\<lambda>succ. succ \<noteq> op \<and> op \<in> set (dependencies s succ) \<and>
       list_ex (\<lambda>d. d \<noteq> op \<and> d \<notin> scheduledOps s) (dependencies s succ)) (opsWithinFuncOp s)"

definition getSchedulableOps :: "scheduler \<Rightarrow> nat list" where
  "getSchedulableOps s =
     (let schedulableOps = filter (\<lambda>op. op \<notin> scheduledOps s \<and> canSchedule s op) (opsWithinFuncOp s)
      in if length schedulableOps \<le> 1 then schedulableOps
         else sort_key (\<lambda>op. if hasBlockedSuccessor s op then 0 else 1 :: nat) schedulableOps)"

definition scheduleOp :: "scheduler \<Rightarrow> nat \<Rightarrow> scheduler option" where
  "scheduleOp s op =
     (if op \<in> scheduledOps s then None
      else Some (s\<lparr>scheduledOps := insert op (scheduledOps s), op_schedule := op_schedule s @ [op]\<rparr>))"

definition hasUnscheduledOps :: "scheduler \<Rightarrow> bool" where
  "hasUnscheduledOps s \<longleftrightarrow> card (scheduledOps s) < length (opsWithinFuncOp s)"

text \<open>A client: while there are unscheduled operations it schedules one that is offered. \<open>None\<close> when
  the scheduler offers nothing, asserts, or the fuel is out.\<close>

fun drive :: "(nat list \<Rightarrow> nat) \<Rightarrow> nat \<Rightarrow> scheduler \<Rightarrow> scheduler option" where
  "drive pick fuel s =
     (if \<not> hasUnscheduledOps s then Some s
      else if getSchedulableOps s = [] then None
      else case fuel of
             0 \<Rightarrow> None
           | Suc n \<Rightarrow>
               (case scheduleOp s (pick (getSchedulableOps s)) of None \<Rightarrow> None | Some s' \<Rightarrow> drive pick n s'))"

declare drive.simps [simp del]

section \<open>Dependencies\<close>

text \<open>A function body in SSA form: operations are different, and an operation that uses a result does not
  stand before the definition; \<open>before\<close> holds the operations already passed.\<close>

fun ssa_order :: "nat list \<Rightarrow> func_op list \<Rightarrow> bool" where
  "ssa_order before [] \<longleftrightarrow> True"
| "ssa_order before (o1 # os) \<longleftrightarrow>
     fo_op o1 \<notin> set before \<and> list_all (list_all (\<lambda>u. u \<notin> set before)) (fo_users o1) \<and> ssa_order (fo_op o1 # before) os"

lemma ssa_order_distinct: "ssa_order before ops \<Longrightarrow> distinct (map fo_op ops) \<and> set before \<inter> set (map fo_op ops) = {}"
  by (induction before ops rule: ssa_order.induct) auto

lemma add_users_set: "d \<in> set (add_users kind op us deps x) \<longleftrightarrow>
    d \<in> set (deps x) \<or> (d = op \<and> x \<in> set us \<and> isTTSchedulableOp kind x \<and> x \<noteq> op)"
  by (induction us arbitrary: deps) auto

lemma fold_users_set: "d \<in> set (fold (add_users kind op) uss deps x) \<longleftrightarrow>
    d \<in> set (deps x) \<or> (d = op \<and> (\<exists>us\<in>set uss. x \<in> set us) \<and> isTTSchedulableOp kind x \<and> x \<noteq> op)"
  by (induction uss arbitrary: deps) (auto simp: add_users_set)

lemma add_dependencies_before:
  assumes "ssa_order before ops" "d \<in> set (add_dependencies kind ops deps x)" "d \<notin> set (deps x)"
  shows "isTTSchedulableOp kind d \<and> (\<exists>ys zs. map fo_op ops = ys @ d # zs \<and> x \<notin> set ys \<and> x \<noteq> d \<and> x \<notin> set before)"
  using assms
proof (induction before ops arbitrary: deps rule: ssa_order.induct)
  case (2 before o1 os)
  let ?deps = "if isTTSchedulableOp kind (fo_op o1) then fold (add_users kind (fo_op o1)) (fo_users o1) deps else deps"
  show ?case
  proof (cases "d \<in> set (?deps x)")
    case True
    then have d: "d = fo_op o1" "isTTSchedulableOp kind d" "x \<noteq> d" "\<exists>us\<in>set (fo_users o1). x \<in> set us"
      using 2(4) by (auto simp: fold_users_set split: if_splits)
    then have "x \<notin> set before" using 2(2) by (auto simp: list_all_iff)
    then show ?thesis using d by (intro conjI exI [of _ "[]"] exI [of _ "map fo_op os"]) auto
  next
    case False
    have "isTTSchedulableOp kind d \<and> (\<exists>ys zs. map fo_op os = ys @ d # zs \<and> x \<notin> set ys \<and> x \<noteq> d \<and> x \<notin> set (fo_op o1 # before))"
      using 2(1) [of ?deps] 2(2,3) False by simp
    then obtain ys zs where "isTTSchedulableOp kind d" "map fo_op os = ys @ d # zs" "x \<notin> set (fo_op o1 # ys)" "x \<noteq> d" "x \<notin> set before"
      by auto
    then show ?thesis by (intro conjI exI [of _ "fo_op o1 # ys"] exI [of _ zs]) auto
  qed
qed simp

lemma filter_split: "filter P l = xs @ y # ys \<Longrightarrow> \<exists>a b. l = a @ y # b \<and> filter P a = xs"
proof (induction l arbitrary: xs)
  case (Cons z l)
  show ?case
  proof (cases "P z \<and> xs = []")
    case True
    then show ?thesis using Cons.prems by (intro exI [of _ "[]"] exI [of _ l]) auto
  next
    case False
    then obtain xs' where "filter P l = xs' @ y # ys" "xs = (if P z then z # xs' else xs')"
      using Cons.prems by (cases xs) (auto split: if_splits)
    then obtain a b where "l = a @ y # b" "filter P a = xs'" using Cons.IH by blast
    then show ?thesis using \<open>xs = _\<close> by (intro exI [of _ "z # a"] exI [of _ b]) auto
  qed
qed simp

lemma dependencies_before:
  assumes "ssa_order [] ops" "opsWithinFuncOp (scheduler_init kind ops) = xs @ x # ys"
  shows "set (dependencies (scheduler_init kind ops) x) \<subseteq> set xs"
proof
  fix d assume d: "d \<in> set (dependencies (scheduler_init kind ops) x)"
  obtain a b where ab: "map fo_op ops = a @ x # b" "filter (isTTSchedulableOp kind) a = xs"
    using filter_split [of "isTTSchedulableOp kind" "map fo_op ops" xs x ys] assms(2)
    by (auto simp: scheduler_init_def)
  obtain us vs where uv: "isTTSchedulableOp kind d" "map fo_op ops = us @ d # vs" "x \<notin> set us" "x \<noteq> d"
    using add_dependencies_before [OF assms(1), of d kind "\<lambda>_. []" x] d by (auto simp: scheduler_init_def)
  have "distinct (map fo_op ops)" using ssa_order_distinct [OF assms(1)] by blast
  moreover have "x \<in> set (map fo_op ops)" using ab(1) by simp
  then have "x \<in> set vs" unfolding uv(2) using uv(3,4) by simp
  then obtain v1 v2 where v: "vs = v1 @ x # v2" by (meson split_list)
  ultimately have "a = us @ d # v1"
    using ab(1) uv(2) append_Cons_eq_iff [of x a b "us @ d # v1" v2] by auto
  then have "d \<in> set a" by simp
  then show "d \<in> set xs" using ab(2) uv(1) by auto
qed

section \<open>Progress\<close>

definition sched_ok :: "(nat \<Rightarrow> op_kind) \<Rightarrow> func_op list \<Rightarrow> scheduler \<Rightarrow> bool" where
  "sched_ok kind ops s \<longleftrightarrow>
     opsWithinFuncOp s = opsWithinFuncOp (scheduler_init kind ops) \<and> dependencies s = dependencies (scheduler_init kind ops) \<and>
     scheduledOps s = set (op_schedule s) \<and> distinct (op_schedule s) \<and> set (op_schedule s) \<subseteq> set (opsWithinFuncOp s) \<and>
     (\<forall>xs x ys. op_schedule s = xs @ x # ys \<longrightarrow> set (dependencies s x) \<subseteq> set xs)"

lemma set_getSchedulableOps:
  "set (getSchedulableOps s) = {op \<in> set (opsWithinFuncOp s). op \<notin> scheduledOps s \<and> canSchedule s op}"
  by (auto simp: getSchedulableOps_def Let_def)

lemma sched_ok_step:
  assumes "sched_ok kind ops s" "op \<in> set (getSchedulableOps s)"
  shows "\<exists>s'. scheduleOp s op = Some s' \<and> sched_ok kind ops s' \<and> length (op_schedule s') = Suc (length (op_schedule s))"
proof -
  let ?s = "s\<lparr>scheduledOps := insert op (scheduledOps s), op_schedule := op_schedule s @ [op]\<rparr>"
  from assms(2) have op: "op \<in> set (opsWithinFuncOp s)" "op \<notin> scheduledOps s" "set (dependencies s op) \<subseteq> scheduledOps s"
    by (auto simp: set_getSchedulableOps canSchedule_def list_all_iff)
  have "set (dependencies s x) \<subseteq> set xs" if "op_schedule s @ [op] = xs @ x # ys" for xs x ys
  proof (cases ys rule: rev_cases)
    case Nil
    then show ?thesis using that op(3) assms(1) by (auto simp: sched_ok_def)
  next
    case (snoc zs z)
    then have "op_schedule s = xs @ x # zs" using that by simp
    then show ?thesis using assms(1) unfolding sched_ok_def by blast
  qed
  then have "sched_ok kind ops ?s" using assms(1) op by (auto simp: sched_ok_def)
  then show ?thesis using op(2) by (simp add: scheduleOp_def)
qed

lemma distinct_ops: "ssa_order [] ops \<Longrightarrow> distinct (opsWithinFuncOp (scheduler_init kind ops))"
  using ssa_order_distinct [of "[]" ops] by (simp add: scheduler_init_def)

lemma sched_progress:
  assumes "ssa_order [] ops" "sched_ok kind ops s" "hasUnscheduledOps s"
  shows "getSchedulableOps s \<noteq> []"
proof -
  let ?ops = "opsWithinFuncOp s"
  have "\<exists>x\<in>set ?ops. x \<notin> scheduledOps s"
  proof (rule ccontr)
    assume "\<not> ?thesis"
    then have "set ?ops = scheduledOps s" using assms(2) by (auto simp: sched_ok_def)
    moreover have "card (set ?ops) = length ?ops"
      using distinct_ops [OF assms(1)] assms(2) by (simp add: sched_ok_def distinct_card)
    ultimately show False using assms(3) by (simp add: hasUnscheduledOps_def)
  qed
  then obtain xs x ys where x: "?ops = xs @ x # ys" "x \<notin> scheduledOps s" "\<forall>y\<in>set xs. \<not> y \<notin> scheduledOps s"
    using split_list_first_prop [of ?ops "\<lambda>x. x \<notin> scheduledOps s"] by metis
  then have "set (dependencies s x) \<subseteq> set xs"
    using dependencies_before [OF assms(1), of kind xs x ys] assms(2) by (simp add: sched_ok_def)
  then have "x \<in> set (getSchedulableOps s)" using x by (auto simp: set_getSchedulableOps canSchedule_def list_all_iff)
  then show ?thesis by auto
qed

lemma drive_finishes:
  assumes "ssa_order [] ops" "sched_ok kind ops s" "length (opsWithinFuncOp s) \<le> length (op_schedule s) + fuel"
    and pick: "\<And>xs. xs \<noteq> [] \<Longrightarrow> pick xs \<in> set xs"
  shows "\<exists>s'. drive pick fuel s = Some s' \<and> sched_ok kind ops s' \<and> \<not> hasUnscheduledOps s'"
  using assms(2,3)
proof (induction fuel arbitrary: s)
  case 0
  have "card (scheduledOps s) = length (op_schedule s)" using 0 by (simp add: sched_ok_def distinct_card)
  then have "\<not> hasUnscheduledOps s" using 0 by (simp add: hasUnscheduledOps_def)
  then show ?case using 0 by (simp add: drive.simps [of pick 0])
next
  case (Suc n)
  show ?case
  proof (cases "hasUnscheduledOps s")
    case False
    then show ?thesis using Suc.prems by (simp add: drive.simps [of pick "Suc n"])
  next
    case True
    note ne = sched_progress [OF assms(1) Suc.prems(1) True]
    obtain s' where s': "scheduleOp s (pick (getSchedulableOps s)) = Some s'" "sched_ok kind ops s'"
        "length (op_schedule s') = Suc (length (op_schedule s))"
      using sched_ok_step [OF Suc.prems(1) pick [OF ne]] by blast
    have "opsWithinFuncOp s' = opsWithinFuncOp s" using s'(2) Suc.prems(1) by (simp add: sched_ok_def)
    then show ?thesis using Suc.IH [OF s'(2)] Suc.prems(2) s' True ne by (simp add: drive.simps [of pick "Suc n"])
  qed
qed

lemma sched_ok_init: "sched_ok kind ops (scheduler_init kind ops)"
  by (simp add: sched_ok_def scheduler_init_def)

section \<open>Properties\<close>

text \<open>C34: A client that schedules any offered operation as long as there are unscheduled ones never gets
  stuck on a function in SSA form: after as many steps as there are operations every TTIR and TTNN
  operation has been scheduled exactly once, after all the operations whose results it uses.\<close>

theorem scheduler_completes:
  assumes "ssa_order [] ops" "\<And>xs. xs \<noteq> [] \<Longrightarrow> pick xs \<in> set xs"
  shows "\<exists>s. drive pick (length ops) (scheduler_init kind ops) = Some s \<and> \<not> hasUnscheduledOps s \<and>
    mset (op_schedule s) = mset (filter (isTTSchedulableOp kind) (map fo_op ops)) \<and>
    (\<forall>xs x ys. op_schedule s = xs @ x # ys \<longrightarrow> set (dependencies (scheduler_init kind ops) x) \<subseteq> set xs)"
proof -
  let ?i = "scheduler_init kind ops"
  have "length (opsWithinFuncOp ?i) \<le> length (op_schedule ?i) + length ops"
    using length_filter_le [of "isTTSchedulableOp kind" "map fo_op ops"] by (simp add: scheduler_init_def)
  from drive_finishes [OF assms(1) sched_ok_init this assms(2)] obtain s where
    s: "drive pick (length ops) ?i = Some s" "sched_ok kind ops s" "\<not> hasUnscheduledOps s" by blast
  have d: "distinct (opsWithinFuncOp s)" using distinct_ops [OF assms(1)] s(2) by (simp add: sched_ok_def)
  have sub: "set (op_schedule s) \<subseteq> set (opsWithinFuncOp s)" "distinct (op_schedule s)" "scheduledOps s = set (op_schedule s)"
    using s(2) by (auto simp: sched_ok_def)
  have "length (opsWithinFuncOp s) \<le> card (set (op_schedule s))" using s(3) sub(3) by (simp add: hasUnscheduledOps_def)
  then have "set (op_schedule s) = set (opsWithinFuncOp s)"
    using sub(1) d by (intro card_seteq) (simp_all add: distinct_card)
  then have "mset (op_schedule s) = mset (opsWithinFuncOp s)" using d sub(2) by (simp add: set_eq_iff_mset_eq_distinct)
  moreover have "opsWithinFuncOp s = filter (isTTSchedulableOp kind) (map fo_op ops)"
    using s(2) by (simp add: sched_ok_def scheduler_init_def)
  moreover have "\<forall>xs x ys. op_schedule s = xs @ x # ys \<longrightarrow> set (dependencies ?i x) \<subseteq> set xs"
    using s(2) unfolding sched_ok_def by metis
  ultimately show ?thesis using s(1,3) by metis
qed

definition fork_kind :: "nat \<Rightarrow> op_kind" where
  "fork_kind op = (if op = 9 then OtherDialectOp else TTIR_OtherOp)"

definition fork_join :: "func_op list" where
  "fork_join = [\<lparr>fo_op = 0, fo_users = [[1, 2]]\<rparr>, \<lparr>fo_op = 1, fo_users = [[3, 9]]\<rparr>, \<lparr>fo_op = 2, fo_users = [[3]]\<rparr>,
     \<lparr>fo_op = 3, fo_users = []\<rparr>, \<lparr>fo_op = 9, fo_users = []\<rparr>]"

theorem scheduler_completes_witness:
  "\<exists>s. drive last 5 (scheduler_init fork_kind fork_join) = Some s \<and> \<not> hasUnscheduledOps s \<and>
     mset (op_schedule s) = mset [0, 1, 2, 3]"
proof -
  have "ssa_order [] fork_join" by (simp add: fork_join_def)
  from scheduler_completes [OF this, of last fork_kind] obtain s where
    "drive last (length fork_join) (scheduler_init fork_kind fork_join) = Some s" "\<not> hasUnscheduledOps s"
    "mset (op_schedule s) = mset (filter (isTTSchedulableOp fork_kind) (map fo_op fork_join))" by auto
  moreover have "length fork_join = 5" "filter (isTTSchedulableOp fork_kind) (map fo_op fork_join) = [0, 1, 2, 3]"
    by code_simp+
  ultimately show ?thesis by auto
qed

text \<open>The operations offered are those that are ready, the ones with a successor that stays blocked
  first.\<close>

lemma schedulable_blocked_first:
  "mset (getSchedulableOps s) = mset (filter (\<lambda>op. op \<notin> scheduledOps s \<and> canSchedule s op) (opsWithinFuncOp s)) \<and>
   sorted_wrt (\<lambda>a b. hasBlockedSuccessor s b \<longrightarrow> hasBlockedSuccessor s a) (getSchedulableOps s)"
proof (cases "length (filter (\<lambda>op. op \<notin> scheduledOps s \<and> canSchedule s op) (opsWithinFuncOp s)) \<le> 1")
  case True
  then have "sorted_wrt R (filter (\<lambda>op. op \<notin> scheduledOps s \<and> canSchedule s op) (opsWithinFuncOp s))" for R
    by (cases "filter (\<lambda>op. op \<notin> scheduledOps s \<and> canSchedule s op) (opsWithinFuncOp s)") auto
  then show ?thesis using True by (simp add: getSchedulableOps_def)
next
  case False
  let ?key = "\<lambda>op. if hasBlockedSuccessor s op then 0 else 1 :: nat"
  have "sorted (map ?key (sort_key ?key xs))" for xs by simp
  then have "sorted_wrt (\<lambda>a b. hasBlockedSuccessor s b \<longrightarrow> hasBlockedSuccessor s a) (sort_key ?key xs)" for xs
    unfolding sorted_map by (rule sorted_wrt_mono_rel [rotated]) (auto split: if_splits)
  then show ?thesis using False by (simp add: getSchedulableOps_def)
qed

end
