(* ===== verification/UnionFind.thy ===== *)
theory UnionFind
  imports Prelude
begin

text \<open>
  The disjoint sets of \<open>lib/Transforms/ConstEvalHoist.cpp\<close>: parents with path compression and no
  ranks. What clients rely on is the locale \<open>disjoint_sets\<close>; \<open>None\<close> is the failed assertion
  that a value is in the structure.
\<close>

section \<open>The structure\<close>

type_synonym 'v parents = "'v \<rightharpoonup> 'v"

definition dsu_init :: "'v \<Rightarrow> 'v parents \<Rightarrow> 'v parents" where
  "dsu_init v parent = parent(v \<mapsto> v)"

definition valueExists :: "'v parents \<Rightarrow> 'v \<Rightarrow> bool" where
  "valueExists parent v = (case parent v of None \<Rightarrow> False | Some w \<Rightarrow> True)"

lemma valueExists_iff: "valueExists parent v \<longleftrightarrow> v \<in> dom parent"
  by (auto simp: valueExists_def split: option.splits)

partial_function (option) findRoot :: "'v parents \<Rightarrow> 'v \<Rightarrow> ('v \<times> 'v parents) option" where
  "findRoot parent v =
     (case parent v of
        None \<Rightarrow> None
      | Some w \<Rightarrow>
          if v = w then Some (v, parent)
          else Option.bind (findRoot parent w) (\<lambda>(r, parent'). Some (r, parent'(v \<mapsto> r))))"

declare findRoot.simps [code]

definition unionSets :: "'v parents \<Rightarrow> 'v \<Rightarrow> 'v \<Rightarrow> 'v parents option" where
  "unionSets parent x y =
     (case findRoot parent x of
        None \<Rightarrow> None
      | Some (rootX, p1) \<Rightarrow>
          (case findRoot p1 y of None \<Rightarrow> None | Some (rootY, p2) \<Rightarrow> Some (p2(rootX \<mapsto> rootY))))"

section \<open>Roots\<close>

text \<open>The chain of parents from a value ends in a root.\<close>

inductive rooted :: "'v parents \<Rightarrow> 'v \<Rightarrow> 'v \<Rightarrow> bool" for p where
  rooted_root: "p v = Some v \<Longrightarrow> rooted p v v"
| rooted_step: "p v = Some w \<Longrightarrow> w \<noteq> v \<Longrightarrow> rooted p w r \<Longrightarrow> rooted p v r"

inductive_cases rootedE: "rooted p v r"

lemma rooted_unique: "rooted p v r \<Longrightarrow> rooted p v s \<Longrightarrow> r = s"
proof (induction arbitrary: s rule: rooted.induct)
  case (rooted_root v)
  show ?case by (rule rootedE [OF rooted_root(2)]) (use rooted_root(1) in auto)
next
  case (rooted_step v w r)
  show ?case by (rule rootedE [OF rooted_step(5)]) (use rooted_step(1,2,4) in auto)
qed

lemma rooted_is_root: "rooted p v r \<Longrightarrow> p r = Some r"
  by (induction rule: rooted.induct) auto

lemma rooted_dom: "rooted p v r \<Longrightarrow> v \<in> dom p"
  by (induction rule: rooted.induct) auto

definition dsu_ok :: "'v parents \<Rightarrow> bool" where
  "dsu_ok p \<longleftrightarrow> (\<forall>v\<in>dom p. \<exists>r. rooted p v r)"

definition root_of :: "'v parents \<Rightarrow> 'v \<Rightarrow> 'v" where
  "root_of p v = (THE r. rooted p v r)"

lemma root_of_eq: "rooted p v r \<Longrightarrow> root_of p v = r"
  unfolding root_of_def by (rule the_equality) (auto intro: rooted_unique)

lemma dsu_ok_root:
  assumes "dsu_ok p" "v \<in> dom p"
  shows "rooted p v (root_of p v)"
proof -
  obtain r where "rooted p v r" using assms by (auto simp: dsu_ok_def)
  then show ?thesis using root_of_eq [of p v r] by simp
qed

text \<open>Changing parents without changing what values are rooted in.\<close>

definition same_roots :: "'v parents \<Rightarrow> 'v parents \<Rightarrow> bool" where
  "same_roots p q \<longleftrightarrow> dom p = dom q \<and> (\<forall>v r. rooted p v r \<longrightarrow> rooted q v r)"

lemma same_roots_ok:
  assumes "same_roots p q" "dsu_ok p"
  shows "dsu_ok q \<and> (\<forall>v\<in>dom p. root_of q v = root_of p v)"
proof -
  have r: "rooted q v (root_of p v)" if "v \<in> dom p" for v
    using dsu_ok_root [OF assms(2) that] assms(1) by (simp add: same_roots_def)
  then show ?thesis using assms(1) root_of_eq [OF r] unfolding dsu_ok_def same_roots_def by blast
qed

lemma compress:
  assumes "rooted p v r"
  shows "same_roots p (p(v \<mapsto> r))"
proof -
  define q where "q = p(v \<mapsto> r)"
  have q: "q v = Some r" "\<And>u. u \<noteq> v \<Longrightarrow> q u = p u" by (simp_all add: q_def)
  have root: "q r = Some r" using rooted_is_root [OF assms] q by (cases "r = v") auto
  have vr: "rooted q v r"
    using root rooted.rooted_root [of q r] rooted.rooted_step [of q v r r] q(1) by (cases "r = v") auto
  have "rooted q u s" if "rooted p u s" for u s
    using that
  proof (induction rule: rooted.induct)
    case (rooted_root u)
    have "v = u \<Longrightarrow> r = u" using rooted_unique [OF assms] rooted.rooted_root [of p u] rooted_root by blast
    then show ?case using rooted_root q vr by (cases "u = v") (auto intro: rooted.rooted_root)
  next
    case (rooted_step u w s)
    show ?case
    proof (cases "u = v")
      case True
      then have "s = r" using rooted_unique [OF assms] rooted.rooted_step [OF rooted_step(1-3)] by blast
      then show ?thesis using True vr by simp
    next
      case False
      then show ?thesis using rooted_step q(2) by (auto intro: rooted.rooted_step)
    qed
  qed
  moreover have "dom p = dom q" using rooted_dom [OF assms] by (auto simp: q_def)
  ultimately show ?thesis unfolding same_roots_def q_def by blast
qed

lemma findRoot_ok: "rooted p v r \<Longrightarrow> \<exists>q. findRoot p v = Some (r, q) \<and> same_roots p q"
proof (induction rule: rooted.induct)
  case (rooted_root v)
  then show ?case by (simp add: findRoot.simps same_roots_def)
next
  case (rooted_step v w r)
  then obtain q where q: "findRoot p w = Some (r, q)" "same_roots p q" by blast
  have "rooted q v r" using q(2) rooted.rooted_step [OF rooted_step(1-3)] by (simp add: same_roots_def)
  then have "same_roots p (q(v \<mapsto> r))" using q(2) compress [of q v r] by (auto simp: same_roots_def)
  then show ?case using rooted_step q(1) by (simp add: findRoot.simps [of p v])
qed

lemma link_roots:
  assumes "dsu_ok p" "p x = Some x" "p y = Some y" "q = p(x \<mapsto> y)"
  shows "dsu_ok q \<and> dom q = dom p \<and> (\<forall>v\<in>dom p. root_of q v = (if root_of p v = x then y else root_of p v))"
proof -
  have q: "q x = Some y" "\<And>u. u \<noteq> x \<Longrightarrow> q u = p u" and domq: "dom q = dom p" using assms(2,4) by auto
  have y: "rooted q y y" using assms(3) q by (cases "x = y") (auto intro: rooted.rooted_root)
  have x: "rooted q x y" using y rooted.rooted_step [of q x y y] q(1) by (cases "x = y") auto
  have r: "rooted q v (if r = x then y else r)" if "rooted p v r" for v r
    using that
  proof (induction rule: rooted.induct)
    case (rooted_root v)
    then show ?case using x q(2) by (cases "v = x") (auto intro: rooted.rooted_root)
  next
    case (rooted_step v w r)
    then have "v \<noteq> x" using assms(2) by auto
    then show ?case using rooted.rooted_step [of q v w] rooted_step q(2) by simp
  qed
  have "root_of q v = (if root_of p v = x then y else root_of p v)" if "v \<in> dom p" for v
    using root_of_eq [OF r [OF dsu_ok_root [OF assms(1) that]]] .
  moreover have "dsu_ok q" unfolding dsu_ok_def domq using r dsu_ok_root [OF assms(1)] by blast
  ultimately show ?thesis using domq by blast
qed

section \<open>The contract\<close>

text \<open>Joining every value of a list with the first one.\<close>

fun join_all :: "('d \<Rightarrow> 'v \<Rightarrow> 'v \<Rightarrow> 'd option) \<Rightarrow> 'v \<Rightarrow> 'v list \<Rightarrow> 'd \<Rightarrow> 'd option" where
  "join_all join first [] d = Some d"
| "join_all join first (x # xs) d = (case join d first x of None \<Rightarrow> None | Some d' \<Rightarrow> join_all join first xs d')"

text \<open>Disjoint sets with representatives: \<open>rep d v\<close> names the set of \<open>v\<close>.\<close>

locale disjoint_sets =
  fixes ok :: "'d \<Rightarrow> bool" and elems :: "'d \<Rightarrow> 'v set" and rep :: "'d \<Rightarrow> 'v \<Rightarrow> 'v"
    and add :: "'v \<Rightarrow> 'd \<Rightarrow> 'd" and locate :: "'d \<Rightarrow> 'v \<Rightarrow> ('v \<times> 'd) option" and join :: "'d \<Rightarrow> 'v \<Rightarrow> 'v \<Rightarrow> 'd option"
  assumes rep_elem: "ok d \<Longrightarrow> v \<in> elems d \<Longrightarrow> rep d v \<in> elems d"
    and add_law: "ok d \<Longrightarrow> v \<notin> elems d \<Longrightarrow>
      ok (add v d) \<and> elems (add v d) = insert v (elems d) \<and> rep (add v d) v = v \<and> (\<forall>u\<in>elems d. rep (add v d) u = rep d u)"
    and locate_law: "ok d \<Longrightarrow> v \<in> elems d \<Longrightarrow>
      \<exists>d'. locate d v = Some (rep d v, d') \<and> ok d' \<and> elems d' = elems d \<and> (\<forall>u\<in>elems d. rep d' u = rep d u)"
    and join_law: "ok d \<Longrightarrow> x \<in> elems d \<Longrightarrow> y \<in> elems d \<Longrightarrow>
      \<exists>d'. join d x y = Some d' \<and> ok d' \<and> elems d' = elems d \<and>
        (\<forall>u\<in>elems d. rep d' u = (if rep d u = rep d x then rep d y else rep d u))"
begin

text \<open>Two elements in the same set.\<close>

definition same :: "'d \<Rightarrow> 'v \<Rightarrow> 'v \<Rightarrow> bool" where
  "same d u v \<longleftrightarrow> u \<in> elems d \<and> v \<in> elems d \<and> rep d u = rep d v"

lemma join_same:
  assumes "ok d" "x \<in> elems d" "y \<in> elems d" "join d x y = Some d'"
  shows "ok d' \<and> elems d' = elems d \<and>
    (same d' u v \<longleftrightarrow> same d u v \<or> (same d u x \<and> same d y v) \<or> (same d u y \<and> same d x v))"
proof -
  from join_law [OF assms(1-3)] assms(4) have "ok d'" "elems d' = elems d"
    and r: "\<And>u. u \<in> elems d \<Longrightarrow> rep d' u = (if rep d u = rep d x then rep d y else rep d u)" by auto
  then show ?thesis using assms(2,3) r [of u] r [of v]
    by (cases "rep d u = rep d x"; cases "rep d v = rep d x") (auto simp: same_def simp del: if_split)
qed

lemma same_elems: "same d u v \<Longrightarrow> u \<in> elems d \<and> v \<in> elems d"
  by (simp add: same_def)

lemma same_refl: "u \<in> elems d \<Longrightarrow> same d u u"
  by (simp add: same_def)

lemma same_sym: "same d u v \<Longrightarrow> same d v u"
  by (simp add: same_def)

lemma same_trans: "same d u v \<Longrightarrow> same d v w \<Longrightarrow> same d u w"
  by (simp add: same_def)

lemma join_all_same:
  assumes "ok d" "first \<in> elems d" "set xs \<subseteq> elems d"
  shows "\<exists>d'. join_all join first xs d = Some d' \<and> ok d' \<and> elems d' = elems d \<and>
    (\<forall>u v. same d' u v \<longleftrightarrow> same d u v \<or> (\<exists>x\<in>insert first (set xs). \<exists>y\<in>insert first (set xs). same d u x \<and> same d y v))"
  using assms
proof (induction xs arbitrary: d)
  case Nil
  have "same d u v \<longleftrightarrow> same d u v \<or> (same d u first \<and> same d first v)" for u v by (auto intro: same_trans)
  then show ?case using Nil by auto
next
  case (Cons x xs)
  obtain d1 where d1: "join d first x = Some d1" using join_law [of d first x] Cons.prems by auto
  then have s1: "ok d1" "elems d1 = elems d"
    "\<And>u v. same d1 u v \<longleftrightarrow> same d u v \<or> (same d u first \<and> same d x v) \<or> (same d u x \<and> same d first v)"
    using join_same [of d first x d1] Cons.prems by auto
  obtain d' where d': "join_all join first xs d1 = Some d'" "ok d'" "elems d' = elems d1"
    "\<And>u v. same d' u v \<longleftrightarrow> same d1 u v \<or> (\<exists>x\<in>insert first (set xs). \<exists>y\<in>insert first (set xs). same d1 u x \<and> same d1 y v)"
    using Cons.IH [OF s1(1)] Cons.prems s1(2) by auto
  have el: "first \<in> elems d" "x \<in> elems d" "set xs \<subseteq> elems d" using Cons.prems by auto
  let ?J = "insert first (set (x # xs))"
  have "same d' u v \<longleftrightarrow> same d u v \<or> (\<exists>a\<in>?J. \<exists>b\<in>?J. same d u a \<and> same d b v)" for u v
  proof
    assume "same d' u v"
    then consider "same d1 u v" | a b where "a \<in> insert first (set xs)" "b \<in> insert first (set xs)" "same d1 u a" "same d1 b v"
      unfolding d'(4) by blast
    then show "same d u v \<or> (\<exists>a\<in>?J. \<exists>b\<in>?J. same d u a \<and> same d b v)"
    proof cases
      case 1
      then show ?thesis unfolding s1(3) by auto
    next
      case 2
      have "\<exists>a'\<in>?J. same d u a'" using 2(1,3) unfolding s1(3) by auto
      moreover have "\<exists>b'\<in>?J. same d b' v" using 2(2,4) unfolding s1(3) by (auto intro: same_sym)
      ultimately show ?thesis by blast
    qed
  next
    have up: "same d1 u v" if "same d u v" for u v using that s1(3) by blast
    have fx: "same d1 first x" "same d1 x first" using s1(3) same_refl [OF el(1)] same_refl [OF el(2)] by blast+
    assume "same d u v \<or> (\<exists>a\<in>?J. \<exists>b\<in>?J. same d u a \<and> same d b v)"
    then show "same d' u v"
    proof
      assume "same d u v"
      then show ?thesis using up d'(4) by blast
    next
      assume "\<exists>a\<in>?J. \<exists>b\<in>?J. same d u a \<and> same d b v"
      then obtain a b where ab: "a \<in> ?J" "b \<in> ?J" "same d u a" "same d b v" by blast
      have "\<exists>a'\<in>insert first (set xs). same d1 u a'"
        using ab(1) up [OF ab(3)] same_trans [OF up [OF ab(3)]] fx(2) by (cases "a = x") auto
      moreover have "\<exists>b'\<in>insert first (set xs). same d1 b' v"
        using ab(2) up [OF ab(4)] same_trans [OF _ up [OF ab(4)]] fx(1) by (cases "b = x") auto
      ultimately show ?thesis unfolding d'(4) by blast
    qed
  qed
  then show ?case using d1 d' s1 by auto
qed

end

interpretation parents: disjoint_sets dsu_ok dom root_of dsu_init findRoot unionSets
proof
  fix d :: "'v parents" and v :: 'v
  assume "dsu_ok d" "v \<in> dom d"
  then have "rooted d v (root_of d v)" by (rule dsu_ok_root)
  then show "root_of d v \<in> dom d" using rooted_is_root by fast
next
  fix d :: "'v parents" and v :: 'v
  assume ok: "dsu_ok d" and v: "v \<notin> dom d"
  define q where "q = dsu_init v d"
  have q: "q v = Some v" "\<And>u. u \<noteq> v \<Longrightarrow> q u = d u" by (simp_all add: q_def dsu_init_def)
  have domq: "dom q = insert v (dom d)" by (auto simp: q_def dsu_init_def)
  have old: "rooted q u r" if "rooted d u r" for u r
    using that
  proof (induction rule: rooted.induct)
    case (rooted_root u)
    then have "u \<noteq> v" using v by auto
    then show ?case using rooted_root q(2) by (auto intro: rooted.rooted_root)
  next
    case (rooted_step u w r)
    then have "u \<noteq> v" using v by auto
    then show ?case using rooted.rooted_step [of q u w] rooted_step q(2) by simp
  qed
  have new: "rooted q v v" using q(1) by (rule rooted.rooted_root)
  have "dsu_ok q" unfolding dsu_ok_def domq using new old dsu_ok_root [OF ok] by blast
  moreover have "root_of q u = root_of d u" if "u \<in> dom d" for u
    using root_of_eq [OF old [OF dsu_ok_root [OF ok that]]] .
  ultimately show "dsu_ok (dsu_init v d) \<and> dom (dsu_init v d) = insert v (dom d) \<and> root_of (dsu_init v d) v = v \<and>
      (\<forall>u\<in>dom d. root_of (dsu_init v d) u = root_of d u)"
    using domq root_of_eq [OF new] unfolding q_def [symmetric] by blast
next
  fix d :: "'v parents" and v :: 'v
  assume ok: "dsu_ok d" and v: "v \<in> dom d"
  from findRoot_ok [OF dsu_ok_root [OF ok v]] obtain q where q: "findRoot d v = Some (root_of d v, q)" "same_roots d q" by blast
  then show "\<exists>d'. findRoot d v = Some (root_of d v, d') \<and> dsu_ok d' \<and> dom d' = dom d \<and> (\<forall>u\<in>dom d. root_of d' u = root_of d u)"
    using same_roots_ok [OF q(2) ok] by (auto simp: same_roots_def)
next
  fix d :: "'v parents" and x y :: 'v
  assume ok: "dsu_ok d" and xy: "x \<in> dom d" "y \<in> dom d"
  from findRoot_ok [OF dsu_ok_root [OF ok xy(1)]] obtain q1 where
    q1: "findRoot d x = Some (root_of d x, q1)" "same_roots d q1" by blast
  then have ok1: "dsu_ok q1" "dom q1 = dom d" "\<And>u. u \<in> dom d \<Longrightarrow> root_of q1 u = root_of d u"
    using same_roots_ok [OF q1(2) ok] by (auto simp: same_roots_def)
  from findRoot_ok [OF dsu_ok_root [OF ok1(1)], of y] xy ok1 obtain q2 where
    q2: "findRoot q1 y = Some (root_of d y, q2)" "same_roots q1 q2" by auto
  then have ok2: "dsu_ok q2" "dom q2 = dom d" "\<And>u. u \<in> dom d \<Longrightarrow> root_of q2 u = root_of d u"
    using same_roots_ok [OF q2(2) ok1(1)] ok1 by (auto simp: same_roots_def)
  have roots: "q2 (root_of d x) = Some (root_of d x)" "q2 (root_of d y) = Some (root_of d y)"
    using rooted_is_root [OF dsu_ok_root [OF ok2(1), of x]] rooted_is_root [OF dsu_ok_root [OF ok2(1), of y]] ok2 xy by auto
  from link_roots [OF ok2(1) roots refl] ok2
  have "dsu_ok (q2(root_of d x \<mapsto> root_of d y)) \<and> dom (q2(root_of d x \<mapsto> root_of d y)) = dom d \<and>
    (\<forall>u\<in>dom d. root_of (q2(root_of d x \<mapsto> root_of d y)) u = (if root_of d u = root_of d x then root_of d y else root_of d u))"
    by simp
  moreover have "unionSets d x y = Some (q2(root_of d x \<mapsto> root_of d y))" using q1(1) q2(1) by (simp add: unionSets_def)
  ultimately show "\<exists>d'. unionSets d x y = Some d' \<and> dsu_ok d' \<and> dom d' = dom d \<and>
      (\<forall>u\<in>dom d. root_of d' u = (if root_of d u = root_of d x then root_of d y else root_of d u))" by blast
qed

end
