(* ===== verification/ConstEval.thy ===== *)
theory ConstEval
  imports UnionFind
begin

text \<open>
  The analysis of \<open>lib/Transforms/ConstEvalHoist.cpp\<close>: which operations of a function can be evaluated
  once, from constants and parameters alone, and into which independent subgraphs they fall. A value is
  an argument of the function or a result of an operation; which operations are shared (duplicated into
  every subgraph) is a function \<open>shared\<close> of the operation, and the effects and memory spaces that
  MLIR reports are flags of an operation. \<open>None\<close> is a failed assertion.
\<close>

section \<open>Functions\<close>

datatype ir_value = BlockArgument nat | OpResult nat nat

record ir_op =
  ir_id :: nat
  ir_operands :: "ir_value list"
  ir_results :: nat
  ir_terminator :: bool
  ir_noncacheable :: bool
  ir_in_place :: bool
  ir_load_cached :: bool
  ir_l1 :: bool
  ir_allowed :: bool

definition results_of :: "ir_op \<Rightarrow> ir_value list" where
  "results_of op = map (OpResult (ir_id op)) [0..<ir_results op]"

section \<open>The analysis\<close>

record const_eval =
  dsu :: "ir_value parents"
  sharedOps :: "nat list"
  analysisFailed :: bool

definition operandConstEval :: "nat set \<Rightarrow> (nat \<Rightarrow> bool) \<Rightarrow> ir_value parents \<Rightarrow> ir_value \<Rightarrow> bool" where
  "operandConstEval constParams shared d v =
     (case v of BlockArgument a \<Rightarrow> a \<in> constParams | OpResult op i \<Rightarrow> shared op \<or> valueExists d v)"

definition joinable :: "(nat \<Rightarrow> bool) \<Rightarrow> ir_value \<Rightarrow> bool" where
  "joinable shared v = (case v of BlockArgument a \<Rightarrow> False | OpResult op i \<Rightarrow> \<not> shared op)"

definition graphs_to_join :: "(nat \<Rightarrow> bool) \<Rightarrow> ir_op \<Rightarrow> ir_value list" where
  "graphs_to_join shared op = filter (joinable shared) (ir_operands op) @ results_of op"

definition processOp :: "nat set \<Rightarrow> (nat \<Rightarrow> bool) \<Rightarrow> ir_op \<Rightarrow> const_eval \<Rightarrow> const_eval option" where
  "processOp constParams shared op st =
     (if ir_terminator op then Some st
      else if shared (ir_id op) then Some (st\<lparr>sharedOps := sharedOps st @ [ir_id op]\<rparr>)
      else if ir_noncacheable op then Some st
      else if ir_in_place op then Some st
      else if \<not> ir_load_cached op \<and> \<not> list_all (operandConstEval constParams shared (dsu st)) (ir_operands op) then Some st
      else if ir_l1 op \<and> \<not> ir_allowed op then Some (st\<lparr>analysisFailed := True\<rparr>)
      else let d = fold dsu_init (results_of op) (dsu st)
           in case graphs_to_join shared op of
                [] \<Rightarrow> Some (st\<lparr>dsu := d\<rparr>)
              | first # rest \<Rightarrow> map_option (\<lambda>d'. st\<lparr>dsu := d'\<rparr>) (join_all unionSets first rest d))"

fun buildConstEvalSubgraphs :: "nat set \<Rightarrow> (nat \<Rightarrow> bool) \<Rightarrow> ir_op list \<Rightarrow> const_eval \<Rightarrow> const_eval option" where
  "buildConstEvalSubgraphs constParams shared [] st = Some st"
| "buildConstEvalSubgraphs constParams shared (op # ops) st =
     (case processOp constParams shared op st of
        None \<Rightarrow> None | Some st' \<Rightarrow> buildConstEvalSubgraphs constParams shared ops st')"

section \<open>The subgraphs\<close>

record const_subgraph =
  inputParameters :: "nat list"
  loadCachedOps :: "ir_op list"
  subgraph_ops :: "ir_op list"

definition argument_of :: "ir_value \<Rightarrow> nat list" where
  "argument_of v = (case v of BlockArgument a \<Rightarrow> [a] | OpResult op i \<Rightarrow> [])"

definition arguments_of :: "ir_op \<Rightarrow> nat list" where
  "arguments_of op = concat (map argument_of (ir_operands op))"

definition add_to_subgraph :: "ir_op \<Rightarrow> const_subgraph \<Rightarrow> const_subgraph" where
  "add_to_subgraph op sg =
     (let sg' = sg\<lparr>inputParameters := inputParameters sg @ arguments_of op\<rparr>
      in if ir_load_cached op then sg'\<lparr>loadCachedOps := loadCachedOps sg @ [op]\<rparr>
         else sg'\<lparr>subgraph_ops := subgraph_ops sg @ [op]\<rparr>)"

text \<open>The loop over the operations: the structure, whose parents the lookups compress, the roots by
  number and the subgraphs by number. The sets of inputs and of cached loads keep the order of insertion
  here, and the subgraphs their numbers, where the code has unordered sets and maps.\<close>

fun collect_subgraphs ::
  "nat set \<Rightarrow> ir_op list \<Rightarrow> ir_value parents \<Rightarrow> ir_value list \<Rightarrow> const_subgraph list \<Rightarrow> const_subgraph list option" where
  "collect_subgraphs constParams [] d roots sgs = Some sgs"
| "collect_subgraphs constParams (op # ops) d roots sgs =
     (if ir_results op = 0 \<or> \<not> valueExists d (OpResult (ir_id op) 0)
      then collect_subgraphs constParams ops d roots sgs
      else case findRoot d (OpResult (ir_id op) 0) of
             None \<Rightarrow> None
           | Some (root, d') \<Rightarrow>
               if \<not> list_all (\<lambda>a. a \<in> constParams) (arguments_of op) then None
               else let roots' = (if root \<in> set roots then roots else roots @ [root]);
                        sgs' = (if root \<in> set roots then sgs
                                else sgs @ [\<lparr>inputParameters = [], loadCachedOps = [], subgraph_ops = []\<rparr>]);
                        i = length (takeWhile (\<lambda>r. r \<noteq> root) roots')
                    in collect_subgraphs constParams ops d' roots' (sgs'[i := add_to_subgraph op (sgs' ! i)]))"

definition analyze_function ::
  "nat set \<Rightarrow> (nat \<Rightarrow> bool) \<Rightarrow> ir_op list \<Rightarrow> (const_subgraph list \<times> nat list \<times> bool) option" where
  "analyze_function constParams shared ops =
     (case buildConstEvalSubgraphs constParams shared ops \<lparr>dsu = Map.empty, sharedOps = [], analysisFailed = False\<rparr> of
        None \<Rightarrow> None
      | Some st \<Rightarrow>
          map_option (\<lambda>sgs. (sgs, sharedOps st, analysisFailed st)) (collect_subgraphs constParams ops (dsu st) [] []))"

section \<open>The boundary of a subgraph\<close>

text \<open>The inputs in the order of the arguments, without duplicates; the outputs are the results with a
  user outside the operations of the subgraph.\<close>

definition uses_value :: "ir_value \<Rightarrow> ir_op \<Rightarrow> bool" where
  "uses_value v op \<longleftrightarrow> v \<in> set (ir_operands op)"

definition escaping :: "ir_op list \<Rightarrow> const_subgraph \<Rightarrow> ir_op list \<Rightarrow> ir_value list" where
  "escaping func sg ops =
     filter (\<lambda>v. list_ex (\<lambda>user. uses_value v user \<and> ir_id user \<notin> set (map ir_id (subgraph_ops sg))) func)
       (concat (map results_of ops))"

definition collectSubgraphBoundary :: "ir_op list \<Rightarrow> const_subgraph \<Rightarrow> nat list \<times> ir_value list" where
  "collectSubgraphBoundary func sg =
     (remdups_adj (sort (inputParameters sg)),
      escaping func sg (subgraph_ops sg) @ escaping func sg (loadCachedOps sg))"

section \<open>Names\<close>

text \<open>Decimal digits, most significant first, and the names of hoisted functions. Searching for the
  last occurrence of the infix goes through the suffixes from the shortest one.\<close>

fun to_digits :: "nat \<Rightarrow> string" where
  "to_digits n = (if n < 10 then [char_of (48 + n)] else to_digits (n div 10) @ [char_of (48 + n mod 10)])"

definition name_infix :: string where
  "name_infix = ''_const_eval_''"

definition constructConstEvalFunctionName :: "string \<Rightarrow> nat \<Rightarrow> string" where
  "constructConstEvalFunctionName originalName subgraphIdx = originalName @ name_infix @ to_digits subgraphIdx"

fun rfind_from :: "nat \<Rightarrow> string \<Rightarrow> nat option" where
  "rfind_from 0 name = (if take (length name_infix) name = name_infix then Some 0 else None)"
| "rfind_from (Suc pos) name =
     (if take (length name_infix) (drop (Suc pos) name) = name_infix then Some (Suc pos) else rfind_from pos name)"

text \<open>\<open>StringRef::getAsInteger\<close> with radix 10: digits only, and a value that fits 64 bits.\<close>

fun parse_digits :: "string \<Rightarrow> nat \<Rightarrow> nat option" where
  "parse_digits [] acc = Some acc"
| "parse_digits (c # cs) acc =
     (if of_char c < (48 :: nat) \<or> of_char c > (57 :: nat) then None
      else let acc' = acc * 10 + (of_char c - 48) in if acc' < 2 ^ 64 then parse_digits cs acc' else None)"

definition parseConstEvalFunctionName :: "string \<Rightarrow> (string \<times> nat) option" where
  "parseConstEvalFunctionName name =
     (case rfind_from (length name) name of
        None \<Rightarrow> None
      | Some pos \<Rightarrow>
          let originalName = take pos name; indexStr = drop (pos + length name_infix) name
          in if originalName = [] \<or> indexStr = [] then None
             else map_option (Pair originalName) (parse_digits indexStr 0))"

end
