(* ===== verification/ConstEvalFacts.thy ===== *)
theory ConstEvalFacts
  imports ConstEval
begin

text \<open>
  The reference for the constant evaluation analysis, an inductive definition of the operations that can
  be hoisted and the links between their values, and the proof that the analysis computes it.
\<close>

section \<open>Constant operations\<close>

text \<open>Operations have different numbers and use results of earlier operations; the operands of a cached
  load, which earlier runs of the pass create, are constant arguments.\<close>

fun ssa_function :: "nat set \<Rightarrow> nat list \<Rightarrow> ir_op list \<Rightarrow> bool" where
  "ssa_function params before [] \<longleftrightarrow> True"
| "ssa_function params before (op # ops) \<longleftrightarrow>
     ir_id op \<notin> set before \<and>
     list_all (\<lambda>v. case v of BlockArgument a \<Rightarrow> ir_load_cached op \<longrightarrow> a \<in> params
                 | OpResult o1 i \<Rightarrow> o1 \<in> set before \<and> \<not> ir_load_cached op) (ir_operands op) \<and>
     ssa_function params (ir_id op # before) ops"

definition eligible :: "(nat \<Rightarrow> bool) \<Rightarrow> ir_op \<Rightarrow> bool" where
  "eligible shared op \<longleftrightarrow>
     \<not> ir_terminator op \<and> \<not> shared (ir_id op) \<and> \<not> ir_noncacheable op \<and> \<not> ir_in_place op"

inductive const_op :: "nat set \<Rightarrow> (nat \<Rightarrow> bool) \<Rightarrow> ir_op list \<Rightarrow> ir_op \<Rightarrow> bool" for params shared ops where
  const_opI: "op \<in> set ops \<Longrightarrow> eligible shared op \<Longrightarrow>
    (\<forall>v\<in>set (ir_operands op). (\<exists>a\<in>params. v = BlockArgument a) \<or>
       (\<exists>o1 i. v = OpResult o1 i \<and> (shared o1 \<or> (\<exists>op'. const_op params shared ops op' \<and> ir_id op' = o1 \<and> i < ir_results op'))))
    \<Longrightarrow> const_op params shared ops op"

inductive_simps const_op_iff: "const_op params shared ops op"

definition const_values :: "nat set \<Rightarrow> (nat \<Rightarrow> bool) \<Rightarrow> ir_op list \<Rightarrow> ir_op list \<Rightarrow> ir_value set" where
  "const_values params shared ops done1 = {v. \<exists>op\<in>set done1. const_op params shared ops op \<and> v \<in> set (results_of op)}"

text \<open>Two values are linked when a constant operation has both among its joined operands and results.\<close>

definition links :: "nat set \<Rightarrow> (nat \<Rightarrow> bool) \<Rightarrow> ir_op list \<Rightarrow> ir_op list \<Rightarrow> (ir_value \<times> ir_value) set" where
  "links params shared ops done1 =
     {(u, v). \<exists>op\<in>set done1. const_op params shared ops op \<and> u \<in> set (graphs_to_join shared op) \<and> v \<in> set (graphs_to_join shared op)}"

lemma ssa_ids: "ssa_function params before ops \<Longrightarrow> distinct (map ir_id ops) \<and> set before \<inter> ir_id ` set ops = {}"
  by (induction params before ops rule: ssa_function.induct) auto

lemma ssa_split:
  "ssa_function params before (done1 @ op # rest) \<Longrightarrow>
     list_all (\<lambda>v. case v of BlockArgument a \<Rightarrow> ir_load_cached op \<longrightarrow> a \<in> params
                 | OpResult o1 i \<Rightarrow> o1 \<in> set before \<union> ir_id ` set done1 \<and> \<not> ir_load_cached op) (ir_operands op)"
proof (induction done1 arbitrary: before)
  case (Cons a done1)
  then have "ssa_function params (ir_id a # before) (done1 @ op # rest)" by simp
  from Cons.IH [OF this] show ?case by (rule list.pred_mono_strong) (auto split: ir_value.splits)
qed simp

lemma results_of_iff [simp]: "OpResult o1 i \<in> set (results_of op) \<longleftrightarrow> ir_id op = o1 \<and> i < ir_results op"
  "BlockArgument a \<notin> set (results_of op)"
  by (auto simp: results_of_def)

lemma distinct_results: "distinct (results_of op)"
  by (simp add: results_of_def distinct_map inj_on_def)

lemma arguments_iff: "a \<in> set (arguments_of op) \<longleftrightarrow> BlockArgument a \<in> set (ir_operands op)"
  by (force simp: arguments_of_def argument_of_def split: ir_value.splits)

section \<open>Cliques\<close>

lemma rtrancl_clique:
  "(u, v) \<in> (L \<union> J \<times> J)\<^sup>* \<longleftrightarrow> (u, v) \<in> L\<^sup>* \<or> (\<exists>x\<in>J. \<exists>y\<in>J. (u, x) \<in> L\<^sup>* \<and> (y, v) \<in> L\<^sup>*)"
proof
  assume "(u, v) \<in> (L \<union> J \<times> J)\<^sup>*"
  then show "(u, v) \<in> L\<^sup>* \<or> (\<exists>x\<in>J. \<exists>y\<in>J. (u, x) \<in> L\<^sup>* \<and> (y, v) \<in> L\<^sup>*)"
  proof (induction rule: rtrancl_induct)
    case (step v w)
    show ?case
    proof (cases "(v, w) \<in> L")
      case True
      then show ?thesis using step.IH by (meson rtrancl.rtrancl_into_rtrancl)
    next
      case False
      then have "v \<in> J" "w \<in> J" using step.hyps(2) by auto
      then show ?thesis using step.IH by blast
    qed
  qed simp
next
  have sub: "L\<^sup>* \<subseteq> (L \<union> J \<times> J)\<^sup>*" by (rule rtrancl_mono) simp
  assume "(u, v) \<in> L\<^sup>* \<or> (\<exists>x\<in>J. \<exists>y\<in>J. (u, x) \<in> L\<^sup>* \<and> (y, v) \<in> L\<^sup>*)"
  then show "(u, v) \<in> (L \<union> J \<times> J)\<^sup>*"
  proof
    assume "\<exists>x\<in>J. \<exists>y\<in>J. (u, x) \<in> L\<^sup>* \<and> (y, v) \<in> L\<^sup>*"
    then obtain x y where xy: "x \<in> J" "y \<in> J" "(u, x) \<in> L\<^sup>*" "(y, v) \<in> L\<^sup>*" by blast
    have "(u, x) \<in> (L \<union> J \<times> J)\<^sup>*" "(y, v) \<in> (L \<union> J \<times> J)\<^sup>*" using xy(3,4) sub by blast+
    moreover have "(x, y) \<in> L \<union> J \<times> J" using xy(1,2) by simp
    ultimately show ?thesis by (meson converse_rtrancl_into_rtrancl rtrancl_trans)
  qed (use sub in blast)
qed

lemma rtrancl_isolated: "(u, v) \<in> L\<^sup>* \<Longrightarrow> L \<subseteq> D \<times> D \<Longrightarrow> u = v \<or> (u \<in> D \<and> v \<in> D)"
  by (induction rule: rtrancl_induct) auto

section \<open>Adding results\<close>

lemma fold_init:
  assumes "dsu_ok d" "distinct xs" "set xs \<inter> dom d = {}"
  shows "dsu_ok (fold dsu_init xs d) \<and> dom (fold dsu_init xs d) = set xs \<union> dom d \<and>
    (\<forall>u v. parents.same (fold dsu_init xs d) u v \<longleftrightarrow> parents.same d u v \<or> (u = v \<and> u \<in> set xs))"
  using assms
proof (induction xs arbitrary: d)
  case (Cons x xs)
  let ?d = "dsu_init x d"
  have a: "dsu_ok ?d" "dom ?d = insert x (dom d)" "root_of ?d x = x" "\<And>u. u \<in> dom d \<Longrightarrow> root_of ?d u = root_of d u"
    using parents.add_law [of d x] Cons.prems by auto
  have x: "x \<notin> dom d" using Cons.prems(3) by simp
  have nx: "root_of d u \<noteq> x" if "u \<in> dom d" for u using parents.rep_elem [OF Cons.prems(1) that] x by blast
  have s: "parents.same ?d u v \<longleftrightarrow> parents.same d u v \<or> (u = v \<and> u = x)" for u v
    unfolding parents.same_def a(2) insert_iff
    by (cases "u = x"; cases "v = x") (use x nx a(3,4) in \<open>simp_all cong: conj_cong\<close>, metis nx)
  have "set xs \<inter> dom ?d = {}" using Cons.prems a(2) by auto
  then have ih: "dsu_ok (fold dsu_init xs ?d) \<and> dom (fold dsu_init xs ?d) = set xs \<union> dom ?d \<and>
    (\<forall>u v. parents.same (fold dsu_init xs ?d) u v \<longleftrightarrow> parents.same ?d u v \<or> (u = v \<and> u \<in> set xs))"
    using Cons.IH [OF a(1)] Cons.prems(2) by simp
  have f: "fold dsu_init (x # xs) d = fold dsu_init xs ?d" by simp
  show ?case unfolding f using ih a(2) unfolding s by auto
qed simp

section \<open>The invariant of the analysis\<close>

definition analysed :: "nat set \<Rightarrow> (nat \<Rightarrow> bool) \<Rightarrow> ir_op list \<Rightarrow> ir_op list \<Rightarrow> const_eval \<Rightarrow> bool" where
  "analysed params shared ops done1 st \<longleftrightarrow>
     dsu_ok (dsu st) \<and> (\<forall>v\<in>dom (dsu st). \<exists>op\<in>set done1. v \<in> set (results_of op) \<and> set (arguments_of op) \<subseteq> params) \<and>
     (\<not> analysisFailed st \<longrightarrow>
        dom (dsu st) = const_values params shared ops done1 \<and>
        (\<forall>u v. parents.same (dsu st) u v \<longleftrightarrow>
           u \<in> dom (dsu st) \<and> v \<in> dom (dsu st) \<and> (u, v) \<in> (links params shared ops done1)\<^sup>*) \<and>
        links params shared ops done1 \<subseteq> dom (dsu st) \<times> dom (dsu st))"

lemma const_op_operands:
  assumes wf: "ssa_function params [] ops" "ops = done1 @ op # rest"
    and inv: "dom (dsu st) = const_values params shared ops done1" and el: "eligible shared op"
  shows "list_all (operandConstEval params shared (dsu st)) (ir_operands op) \<longleftrightarrow> const_op params shared ops op"
proof -
  have d: "distinct (map ir_id ops)" using ssa_ids [OF wf(1)] by blast
  have "operandConstEval params shared (dsu st) v \<longleftrightarrow> (\<exists>a\<in>params. v = BlockArgument a) \<or>
       (\<exists>o1 i. v = OpResult o1 i \<and> (shared o1 \<or> (\<exists>op'. const_op params shared ops op' \<and> ir_id op' = o1 \<and> i < ir_results op')))"
    if v: "v \<in> set (ir_operands op)" for v
  proof (cases v)
    case (BlockArgument a)
    then show ?thesis by (simp add: operandConstEval_def)
  next
    case (OpResult o1 i)
    then have o1: "o1 \<in> ir_id ` set done1"
      using ssa_split [of params "[]" done1 op rest] wf v by (auto simp: list_all_iff)
    have "op' \<in> set done1" if "const_op params shared ops op'" "ir_id op' = o1" for op'
    proof -
      have "op' \<in> set ops" using that(1) by (auto elim: const_op.cases)
      moreover obtain op'' where "op'' \<in> set done1" "ir_id op'' = o1" using o1 by auto
      ultimately show ?thesis using d that(2) wf(2) by (metis Un_iff inj_onD distinct_map set_append)
    qed
    then show ?thesis by (auto simp: OpResult operandConstEval_def valueExists_iff inv const_values_def)
  qed
  moreover have "op \<in> set ops" using wf(2) by simp
  ultimately show ?thesis using el unfolding const_op_iff [of params shared ops op] by (auto simp: list_all_iff)
qed

lemma analysed_skip:
  assumes "analysed params shared ops done1 st" "dsu st' = dsu st"
    "\<not> analysisFailed st' \<Longrightarrow> \<not> analysisFailed st \<and> \<not> const_op params shared ops op"
  shows "analysed params shared ops (done1 @ [op]) st'"
proof -
  have "const_values params shared ops (done1 @ [op]) = const_values params shared ops done1"
    "links params shared ops (done1 @ [op]) = links params shared ops done1" if "\<not> const_op params shared ops op"
    using that by (auto simp: const_values_def links_def)
  then show ?thesis using assms by (auto simp: analysed_def)
qed

lemma analysed_join:
  assumes inv: "analysed params shared ops done1 st" and c: "\<not> analysisFailed st \<Longrightarrow> const_op params shared ops op"
    and fresh: "set (results_of op) \<inter> dom (dsu st) = {}"
    and ops: "\<And>v. v \<in> set (ir_operands op) \<Longrightarrow> joinable shared v \<Longrightarrow> v \<in> dom (dsu st)"
    and args: "set (arguments_of op) \<subseteq> params"
  shows "\<exists>d'. (case graphs_to_join shared op of
        [] \<Rightarrow> Some (st\<lparr>dsu := fold dsu_init (results_of op) (dsu st)\<rparr>)
      | first # rest \<Rightarrow> map_option (\<lambda>d'. st\<lparr>dsu := d'\<rparr>)
          (join_all unionSets first rest (fold dsu_init (results_of op) (dsu st)))) = Some (st\<lparr>dsu := d'\<rparr>) \<and>
    analysed params shared ops (done1 @ [op]) (st\<lparr>dsu := d'\<rparr>)"
proof -
  let ?R = "set (results_of op)" and ?J = "set (graphs_to_join shared op)" and ?d = "fold dsu_init (results_of op) (dsu st)"
  let ?L = "links params shared ops done1"
  have ok: "dsu_ok (dsu st)" using inv by (simp add: analysed_def)
  note f = fold_init [OF ok distinct_results fresh]
  have J: "?J \<subseteq> dom ?d" "?R \<subseteq> ?J" using f ops by (auto simp: graphs_to_join_def)
  obtain d' where d': "(case graphs_to_join shared op of
        [] \<Rightarrow> Some (st\<lparr>dsu := ?d\<rparr>)
      | first # rest \<Rightarrow> map_option (\<lambda>d'. st\<lparr>dsu := d'\<rparr>) (join_all unionSets first rest ?d)) = Some (st\<lparr>dsu := d'\<rparr>)"
      "dsu_ok d'" "dom d' = dom ?d"
      "\<And>u v. parents.same d' u v \<longleftrightarrow> parents.same ?d u v \<or> (\<exists>x\<in>?J. \<exists>y\<in>?J. parents.same ?d u x \<and> parents.same ?d y v)"
  proof (cases "graphs_to_join shared op")
    case Nil
    then show ?thesis using that [of ?d] f by simp
  next
    case (Cons first rest)
    then have "first \<in> dom ?d" "set rest \<subseteq> dom ?d" using J(1) by auto
    from parents.join_all_same [OF conjunct1 [OF f] this] Cons that show ?thesis by auto
  qed
  have dom: "dom d' = ?R \<union> dom (dsu st)" using d'(3) f by simp
  have vals: "\<exists>op'\<in>set (done1 @ [op]). v \<in> set (results_of op') \<and> set (arguments_of op') \<subseteq> params" if "v \<in> dom d'" for v
    using that inv args unfolding dom analysed_def by auto
  have exact: "dom d' = const_values params shared ops (done1 @ [op]) \<and>
      (\<forall>u v. parents.same d' u v \<longleftrightarrow> u \<in> dom d' \<and> v \<in> dom d' \<and> (u, v) \<in> (links params shared ops (done1 @ [op]))\<^sup>*) \<and>
      links params shared ops (done1 @ [op]) \<subseteq> dom d' \<times> dom d'" if nf: "\<not> analysisFailed st"
  proof -
    have i: "dom (dsu st) = const_values params shared ops done1" "?L \<subseteq> dom (dsu st) \<times> dom (dsu st)"
      "\<And>u v. parents.same (dsu st) u v \<longleftrightarrow> u \<in> dom (dsu st) \<and> v \<in> dom (dsu st) \<and> (u, v) \<in> ?L\<^sup>*"
      using inv nf by (auto simp: analysed_def)
    have L: "links params shared ops (done1 @ [op]) = ?L \<union> ?J \<times> ?J"
      using c [OF nf] by (auto simp: links_def)
    have V: "const_values params shared ops (done1 @ [op]) = ?R \<union> dom (dsu st)"
      using c [OF nf] i(1) by (auto simp: const_values_def)
    have mid: "parents.same ?d u v \<longleftrightarrow> u \<in> dom d' \<and> v \<in> dom d' \<and> (u, v) \<in> ?L\<^sup>*" for u v
    proof -
      have "parents.same ?d u v \<longleftrightarrow> (u \<in> dom (dsu st) \<and> v \<in> dom (dsu st) \<and> (u, v) \<in> ?L\<^sup>*) \<or> (u = v \<and> u \<in> ?R)"
        using f i(3) by blast
      then show ?thesis using rtrancl_isolated [OF _ i(2), of u v] unfolding dom by (cases "u = v") auto
    qed
    have "parents.same d' u v \<longleftrightarrow> u \<in> dom d' \<and> v \<in> dom d' \<and> (u, v) \<in> (links params shared ops (done1 @ [op]))\<^sup>*" for u v
      unfolding d'(4) mid L rtrancl_clique using J(1) d'(3) by blast
    moreover have "dom (dsu st) \<subseteq> dom d'" "?J \<subseteq> dom d'" using dom J(1) d'(3) by auto
    then have "links params shared ops (done1 @ [op]) \<subseteq> dom d' \<times> dom d'"
      unfolding L by (intro Un_least order_trans [OF i(2)] Sigma_mono)
    moreover have "dom d' = const_values params shared ops (done1 @ [op])" using dom V by simp
    ultimately show ?thesis by simp
  qed
  have sel: "dsu (st\<lparr>dsu := d'\<rparr>) = d'" "analysisFailed (st\<lparr>dsu := d'\<rparr>) = analysisFailed st" by simp_all
  have "analysed params shared ops (done1 @ [op]) (st\<lparr>dsu := d'\<rparr>)"
    unfolding analysed_def sel using d'(2) vals exact by blast
  then show ?thesis using d'(1) by blast
qed

lemma process_step:
  assumes wf: "ssa_function params [] ops" "ops = done1 @ op # rest" and inv: "analysed params shared ops done1 st"
  shows "\<exists>st'. processOp params shared op st = Some st' \<and> analysed params shared ops (done1 @ [op]) st'"
proof (cases "eligible shared op")
  case False
  then have n: "\<not> const_op params shared ops op" by (blast elim: const_op.cases)
  have "\<exists>so. processOp params shared op st = Some (st\<lparr>sharedOps := so\<rparr>)"
    using False unfolding processOp_def eligible_def by (cases st) auto
  then obtain so where so: "processOp params shared op st = Some (st\<lparr>sharedOps := so\<rparr>)" by blast
  have "analysed params shared ops (done1 @ [op]) (st\<lparr>sharedOps := so\<rparr>)"
    by (rule analysed_skip [OF inv]) (use n in simp_all)
  then show ?thesis using so by blast
next
  case el: True
  let ?all = "list_all (operandConstEval params shared (dsu st)) (ir_operands op)"
  have split: "list_all (\<lambda>v. case v of BlockArgument a \<Rightarrow> ir_load_cached op \<longrightarrow> a \<in> params
                 | OpResult o1 i \<Rightarrow> o1 \<in> ir_id ` set done1 \<and> \<not> ir_load_cached op) (ir_operands op)"
    using ssa_split [of params "[]" done1 op rest] wf by simp
  have load: "?all" if "ir_load_cached op"
    using split that by (auto simp: list_all_iff operandConstEval_def split: ir_value.splits)
  have const: "?all \<longleftrightarrow> const_op params shared ops op" if "\<not> analysisFailed st"
  proof -
    have "dom (dsu st) = const_values params shared ops done1" using inv that by (simp add: analysed_def)
    from const_op_operands [OF wf this el] show ?thesis .
  qed
  show ?thesis
  proof (cases "?all \<and> \<not> (ir_l1 op \<and> \<not> ir_allowed op)")
    case False
    have "\<exists>st'. processOp params shared op st = Some st' \<and> dsu st' = dsu st \<and> (\<not> analysisFailed st' \<longrightarrow> \<not> analysisFailed st \<and> \<not> ?all)"
      using False load el by (auto simp: processOp_def eligible_def)
    then obtain st' where st': "processOp params shared op st = Some st'" "dsu st' = dsu st"
        "\<not> analysisFailed st' \<longrightarrow> \<not> analysisFailed st \<and> \<not> ?all" by blast
    have "analysed params shared ops (done1 @ [op]) st'"
      by (rule analysed_skip [OF inv st'(2)]) (use st'(3) const in blast)
    then show ?thesis using st'(1) by blast
  next
    case True
    then have run: "processOp params shared op st =
        (case graphs_to_join shared op of
           [] \<Rightarrow> Some (st\<lparr>dsu := fold dsu_init (results_of op) (dsu st)\<rparr>)
         | first # rest \<Rightarrow> map_option (\<lambda>d'. st\<lparr>dsu := d'\<rparr>)
             (join_all unionSets first rest (fold dsu_init (results_of op) (dsu st))))"
      using el by (auto simp: processOp_def eligible_def Let_def)
    have "distinct (map ir_id ops)" using ssa_ids [OF wf(1)] by blast
    then have new: "ir_id op \<notin> ir_id ` set done1" using wf(2) by auto
    have fresh: "set (results_of op) \<inter> dom (dsu st) = {}"
    proof -
      have "v \<notin> set (results_of op)" if v: "v \<in> dom (dsu st)" for v
      proof -
        have "\<forall>v\<in>dom (dsu st). \<exists>op\<in>set done1. v \<in> set (results_of op)" using inv unfolding analysed_def by blast
        then obtain op' where "op' \<in> set done1" "v \<in> set (results_of op')" using v by blast
        then show ?thesis using new by (cases v) auto
      qed
      then show ?thesis by blast
    qed
    have "v \<in> dom (dsu st)" if "v \<in> set (ir_operands op)" "joinable shared v" for v
      using True that by (auto simp: list_all_iff operandConstEval_def joinable_def valueExists_iff split: ir_value.splits)
    moreover have "set (arguments_of op) \<subseteq> params"
      using True by (auto simp: arguments_iff list_all_iff operandConstEval_def split: ir_value.splits)
    ultimately show ?thesis using analysed_join [OF inv _ fresh] const True run by auto
  qed
qed

lemma build_ok:
  assumes wf: "ssa_function params [] ops" "ops = done1 @ rest" and inv: "analysed params shared ops done1 st"
  shows "\<exists>st'. buildConstEvalSubgraphs params shared rest st = Some st' \<and> analysed params shared ops ops st'"
  using assms(2,3)
proof (induction rest arbitrary: done1 st)
  case (Cons op rest)
  from process_step [OF wf(1) Cons.prems] obtain st' where
    "processOp params shared op st = Some st'" "analysed params shared ops (done1 @ [op]) st'" by blast
  then show ?case using Cons.IH [of "done1 @ [op]" st'] Cons.prems(1) by simp
qed simp

section \<open>Collecting\<close>

definition members :: "const_subgraph \<Rightarrow> ir_op list" where
  "members sg = loadCachedOps sg @ subgraph_ops sg"

lemma members_add: "set (members (add_to_subgraph op sg)) = insert op (set (members sg))"
  by (auto simp: add_to_subgraph_def members_def Let_def)

lemma inputs_add: "set (inputParameters (add_to_subgraph op sg)) = set (inputParameters sg) \<union> set (arguments_of op)"
  by (simp add: add_to_subgraph_def Let_def)

text \<open>The operations that are collected: those with a result in the structure.\<close>

definition collected :: "ir_value set \<Rightarrow> ir_op list \<Rightarrow> ir_op set" where
  "collected D done1 = {op \<in> set done1. 0 < ir_results op \<and> OpResult (ir_id op) 0 \<in> D}"

definition gathered :: "ir_value parents \<Rightarrow> ir_op list \<Rightarrow> ir_value list \<Rightarrow> const_subgraph list \<Rightarrow> bool" where
  "gathered d0 done1 roots sgs \<longleftrightarrow>
     distinct roots \<and> length sgs = length roots \<and>
     (\<forall>i<length roots. set (members (sgs ! i)) =
        {op \<in> collected (dom d0) done1. root_of d0 (OpResult (ir_id op) 0) = roots ! i}) \<and>
     (\<forall>i<length roots. set (inputParameters (sgs ! i)) = (\<Union>op\<in>set (members (sgs ! i)). set (arguments_of op))) \<and>
     (\<forall>op\<in>collected (dom d0) done1. root_of d0 (OpResult (ir_id op) 0) \<in> set roots)"

lemma takeWhile_index: "x \<in> set xs \<Longrightarrow> length (takeWhile (\<lambda>r. r \<noteq> x) xs) < length xs \<and> xs ! length (takeWhile (\<lambda>r. r \<noteq> x) xs) = x"
  by (induction xs) auto

lemma gathered_step:
  assumes g: "gathered d0 done1 roots sgs" and op: "0 < ir_results op" "OpResult (ir_id op) 0 \<in> dom d0"
    and root: "root = root_of d0 (OpResult (ir_id op) 0)"
    and roots': "roots' = (if root \<in> set roots then roots else roots @ [root])"
    and sgs': "sgs' = (if root \<in> set roots then sgs else sgs @ [\<lparr>inputParameters = [], loadCachedOps = [], subgraph_ops = []\<rparr>])"
    and i: "i = length (takeWhile (\<lambda>r. r \<noteq> root) roots')"
  shows "gathered d0 (done1 @ [op]) roots' (sgs'[i := add_to_subgraph op (sgs' ! i)])"
proof -
  let ?M = "\<lambda>done1 r. {op \<in> collected (dom d0) done1. root_of d0 (OpResult (ir_id op) 0) = r}"
  have C: "collected (dom d0) (done1 @ [op]) = insert op (collected (dom d0) done1)" using op by (auto simp: collected_def)
  have ix: "i < length roots'" "roots' ! i = root" using takeWhile_index [of root roots'] roots' i by auto
  have len: "length sgs' = length roots'" using g by (auto simp: gathered_def roots' sgs')
  have dist: "distinct roots'" using g by (auto simp: gathered_def roots')
  have old: "set (members (sgs' ! j)) = ?M done1 (roots' ! j) \<and>
      set (inputParameters (sgs' ! j)) = (\<Union>op\<in>set (members (sgs' ! j)). set (arguments_of op))" if j: "j < length roots'" for j
  proof (cases "j < length roots")
    case True
    then show ?thesis using g by (auto simp: gathered_def roots' sgs' nth_append)
  next
    case False
    then have "root \<notin> set roots" "j = length roots" using j by (auto simp: roots' split: if_splits)
    then have e: "sgs' ! j = \<lparr>inputParameters = [], loadCachedOps = [], subgraph_ops = []\<rparr>" "roots' ! j = root"
      using g by (auto simp: gathered_def roots' sgs' nth_append)
    have "?M done1 root = {}" using g \<open>root \<notin> set roots\<close> by (auto simp: gathered_def)
    then show ?thesis by (simp add: e members_def)
  qed
  let ?new = "sgs'[i := add_to_subgraph op (sgs' ! i)]"
  have "set (members (?new ! j)) = ?M (done1 @ [op]) (roots' ! j) \<and>
      set (inputParameters (?new ! j)) = (\<Union>op\<in>set (members (?new ! j)). set (arguments_of op))" if j: "j < length roots'" for j
  proof (cases "j = i")
    case True
    then show ?thesis using old [OF j] ix len root unfolding C by (auto simp: members_add inputs_add)
  next
    case False
    then have "roots' ! j \<noteq> root" using dist ix j by (metis nth_eq_iff_index_eq)
    then show ?thesis using old [OF j] False root unfolding C by auto
  qed
  moreover have "\<forall>x\<in>collected (dom d0) (done1 @ [op]). root_of d0 (OpResult (ir_id x) 0) \<in> set roots'"
    using g root unfolding C by (auto simp: gathered_def roots')
  ultimately show ?thesis using dist len by (simp add: gathered_def)
qed

lemma gather_ok:
  assumes "gathered d0 done1 roots sgs" "dsu_ok d" "dom d = dom d0" "\<forall>u\<in>dom d0. root_of d u = root_of d0 u"
    and args: "\<forall>op\<in>collected (dom d0) ops. \<forall>a\<in>set (arguments_of op). a \<in> params"
  shows "\<exists>roots' sgs'. collect_subgraphs params ops d roots sgs = Some sgs' \<and> gathered d0 (done1 @ ops) roots' sgs'"
  using assms
proof (induction ops arbitrary: done1 d roots sgs)
  case (Cons op ops)
  have args': "\<forall>op\<in>collected (dom d0) ops. \<forall>a\<in>set (arguments_of op). a \<in> params" using Cons.prems(5) by (auto simp: collected_def)
  show ?case
  proof (cases "0 < ir_results op \<and> OpResult (ir_id op) 0 \<in> dom d0")
    case False
    then have "collected (dom d0) (done1 @ [op]) = collected (dom d0) done1" by (auto simp: collected_def)
    then have "gathered d0 (done1 @ [op]) roots sgs" using Cons.prems(1) by (simp add: gathered_def)
    from Cons.IH [OF this Cons.prems(2,3,4) args'] False Cons.prems(3) show ?thesis by (auto simp: valueExists_iff)
  next
    case True
    let ?v = "OpResult (ir_id op) 0"
    obtain d' where d': "findRoot d ?v = Some (root_of d0 ?v, d')" "dsu_ok d'" "dom d' = dom d0" "\<forall>u\<in>dom d0. root_of d' u = root_of d0 u"
      using parents.locate_law [OF Cons.prems(2), of ?v] True Cons.prems(3,4) by auto
    have a: "list_all (\<lambda>a. a \<in> params) (arguments_of op)"
      using Cons.prems(5) True by (auto simp: collected_def list_all_iff)
    from Cons.IH [OF gathered_step [OF Cons.prems(1) _ _ refl refl refl refl] d'(2,3,4) args', of op] True d'(1) a Cons.prems(3)
    show ?thesis by (auto simp: valueExists_iff Let_def)
  qed
qed auto

end
