(* ===== verification/ConstEvalProps.thy ===== *)
theory ConstEvalProps
  imports ConstEvalFacts
begin

text \<open>
  The properties of the constant evaluation analysis and of the names of hoisted functions.
\<close>

section \<open>Subgraphs\<close>

lemma analysis_result:
  assumes wf: "ssa_function params [] ops"
  shows "\<exists>st roots sgs. analyze_function params shared ops = Some (sgs, sharedOps st, analysisFailed st) \<and>
    analysed params shared ops ops st \<and> gathered (dsu st) ops roots sgs"
proof -
  let ?st = "\<lparr>dsu = Map.empty, sharedOps = [], analysisFailed = False\<rparr>"
  have "analysed params shared ops [] ?st"
    by (auto simp: analysed_def dsu_ok_def const_values_def links_def parents.same_def)
  from build_ok [OF wf _ this, of ops] obtain st where
    st: "buildConstEvalSubgraphs params shared ops ?st = Some st" "analysed params shared ops ops st" by auto
  have ok: "dsu_ok (dsu st)" using st(2) by (simp add: analysed_def)
  have d: "distinct (map ir_id ops)" using ssa_ids [OF wf] by blast
  have "a \<in> params" if op: "op \<in> collected (dom (dsu st)) ops" and a: "a \<in> set (arguments_of op)" for op a
  proof -
    have "OpResult (ir_id op) 0 \<in> dom (dsu st)" "op \<in> set ops" using op by (auto simp: collected_def)
    moreover have "\<forall>v\<in>dom (dsu st). \<exists>op\<in>set ops. v \<in> set (results_of op) \<and> set (arguments_of op) \<subseteq> params"
      using st(2) unfolding analysed_def by blast
    ultimately obtain op' where "op' \<in> set ops" "OpResult (ir_id op) 0 \<in> set (results_of op')" "set (arguments_of op') \<subseteq> params"
      by blast
    then have "op' \<in> set ops" "ir_id op' = ir_id op" "set (arguments_of op') \<subseteq> params" by simp_all
    then have "op' = op" using d \<open>op \<in> set ops\<close> by (metis inj_onD distinct_map)
    then show ?thesis using \<open>set (arguments_of op') \<subseteq> params\<close> a by blast
  qed
  moreover have "gathered (dsu st) [] [] []" by (simp add: gathered_def collected_def)
  ultimately obtain roots sgs where "collect_subgraphs params ops (dsu st) [] [] = Some sgs" "gathered (dsu st) ops roots sgs"
    using gather_ok [of "dsu st" "[]" "[]" "[]" "dsu st" ops params] ok by auto
  then show ?thesis using st by (auto simp: analyze_function_def)
qed

lemma collected_iff:
  assumes "analysed params shared ops ops st" "\<not> analysisFailed st" "distinct (map ir_id ops)"
  shows "op \<in> collected (dom (dsu st)) ops \<longleftrightarrow> const_op params shared ops op \<and> 0 < ir_results op"
proof -
  have dom: "dom (dsu st) = const_values params shared ops ops" using assms(1,2) by (simp add: analysed_def)
  show ?thesis
  proof
    assume c: "op \<in> collected (dom (dsu st)) ops"
    then obtain op' where "op' \<in> set ops" "const_op params shared ops op'" "ir_id op' = ir_id op"
      by (auto simp: collected_def dom const_values_def)
    moreover have "op \<in> set ops" using c by (simp add: collected_def)
    ultimately have "op' = op" using assms(3) by (metis inj_onD distinct_map)
    then show "const_op params shared ops op \<and> 0 < ir_results op" using \<open>const_op params shared ops op'\<close> c by (auto simp: collected_def)
  next
    assume a: "const_op params shared ops op \<and> 0 < ir_results op"
    then have "op \<in> set ops" by (auto elim: const_op.cases)
    then show "op \<in> collected (dom (dsu st)) ops" using a by (auto simp: collected_def dom const_values_def)
  qed
qed

lemma linked_same_root:
  assumes "analysed params shared ops ops st" "\<not> analysisFailed st" "u \<in> dom (dsu st)" "v \<in> dom (dsu st)"
  shows "root_of (dsu st) u = root_of (dsu st) v \<longleftrightarrow> (u, v) \<in> (links params shared ops ops)\<^sup>*"
  using assms unfolding analysed_def parents.same_def by blast

text \<open>C33: The analysis of a function in SSA form raises no assertion. When it succeeds, the operations it
  hoists are exactly those with results that can be evaluated from constants and parameters alone, and
  two of them are in the same subgraph exactly when a chain of constant operations links their
  results: the disjoint sets, with path compression, compute the connected components.\<close>

theorem const_eval_components:
  assumes "ssa_function params [] ops"
  shows "\<exists>sgs so failed. analyze_function params shared ops = Some (sgs, so, failed) \<and> (\<not> failed \<longrightarrow>
    (\<forall>op. (\<exists>sg\<in>set sgs. op \<in> set (members sg)) \<longleftrightarrow> const_op params shared ops op \<and> 0 < ir_results op) \<and>
    (\<forall>i<length sgs. \<forall>j<length sgs. \<forall>op1\<in>set (members (sgs ! i)). \<forall>op2\<in>set (members (sgs ! j)).
       i = j \<longleftrightarrow> (OpResult (ir_id op1) 0, OpResult (ir_id op2) 0) \<in> (links params shared ops ops)\<^sup>*))"
proof -
  from analysis_result [OF assms, of shared] obtain st roots sgs where
    r: "analyze_function params shared ops = Some (sgs, sharedOps st, analysisFailed st)"
      "analysed params shared ops ops st" "gathered (dsu st) ops roots sgs" by blast
  have d: "distinct (map ir_id ops)" using ssa_ids [OF assms] by blast
  note g = r(3) [unfolded gathered_def]
  have mem: "set (members (sgs ! i)) = {op \<in> collected (dom (dsu st)) ops. root_of (dsu st) (OpResult (ir_id op) 0) = roots ! i}"
    if "i < length sgs" for i using g that by auto
  have one: "(\<exists>sg\<in>set sgs. op \<in> set (members sg)) \<longleftrightarrow> op \<in> collected (dom (dsu st)) ops" for op
  proof
    assume "\<exists>sg\<in>set sgs. op \<in> set (members sg)"
    then obtain sg where sg: "sg \<in> set sgs" "op \<in> set (members sg)" by blast
    obtain i where "i < length sgs" "sg = sgs ! i" using sg(1) by (auto simp: in_set_conv_nth)
    then show "op \<in> collected (dom (dsu st)) ops" using mem sg(2) by auto
  next
    assume c: "op \<in> collected (dom (dsu st)) ops"
    then have "root_of (dsu st) (OpResult (ir_id op) 0) \<in> set roots" using g by blast
    then obtain i where "i < length sgs" "root_of (dsu st) (OpResult (ir_id op) 0) = roots ! i" using g by (auto simp: in_set_conv_nth)
    then have "op \<in> set (members (sgs ! i))" "sgs ! i \<in> set sgs" using mem c by auto
    then show "\<exists>sg\<in>set sgs. op \<in> set (members sg)" by blast
  qed
  have two: "i = j \<longleftrightarrow> (OpResult (ir_id op1) 0, OpResult (ir_id op2) 0) \<in> (links params shared ops ops)\<^sup>*"
    if nf: "\<not> analysisFailed st" and ij: "i < length sgs" "j < length sgs" "op1 \<in> set (members (sgs ! i))" "op2 \<in> set (members (sgs ! j))"
    for i j op1 op2
  proof -
    have o: "root_of (dsu st) (OpResult (ir_id op1) 0) = roots ! i" "root_of (dsu st) (OpResult (ir_id op2) 0) = roots ! j"
      "OpResult (ir_id op1) 0 \<in> dom (dsu st)" "OpResult (ir_id op2) 0 \<in> dom (dsu st)"
      using ij(3,4) unfolding mem [OF ij(1)] mem [OF ij(2)] by (auto simp: collected_def)
    have "i = j \<longleftrightarrow> roots ! i = roots ! j" using g ij by (auto simp: nth_eq_iff_index_eq)
    then show ?thesis using linked_same_root [OF r(2) nf o(3,4)] o(1,2) by simp
  qed
  show ?thesis
  proof (intro exI conjI impI)
    show "analyze_function params shared ops = Some (sgs, sharedOps st, analysisFailed st)" by (rule r(1))
  qed (use one two collected_iff [OF r(2) _ d] in \<open>simp_all\<close>)
qed

text \<open>Two weights are added and scaled, a third is scaled on its own; a shared constant links nothing.\<close>

definition plain_op :: "nat \<Rightarrow> ir_value list \<Rightarrow> ir_op" where
  "plain_op i vs = \<lparr>ir_id = i, ir_operands = vs, ir_results = 1, ir_terminator = False, ir_noncacheable = False,
     ir_in_place = False, ir_load_cached = False, ir_l1 = False, ir_allowed = False\<rparr>"

definition weights_function :: "ir_op list" where
  "weights_function =
     [plain_op 0 [], plain_op 1 [BlockArgument 1, BlockArgument 2], plain_op 2 [OpResult 1 0, OpResult 0 0],
      plain_op 3 [BlockArgument 3, OpResult 0 0], plain_op 4 [BlockArgument 0, OpResult 2 0]]"

theorem const_eval_components_witness:
  "\<exists>sgs. analyze_function {1, 2, 3} (\<lambda>op. op = 0) weights_function = Some (sgs, [0], False) \<and>
     map (map ir_id \<circ> members) sgs = [[1, 2], [3]] \<and>
     (OpResult 1 0, OpResult 3 0) \<notin> (links {1, 2, 3} (\<lambda>op. op = 0) weights_function weights_function)\<^sup>*"
proof -
  let ?shared = "\<lambda>op. op = (0 :: nat)"
  have wf: "ssa_function {1, 2, 3} [] weights_function" by (simp add: weights_function_def plain_op_def)
  obtain sgs so failed where all: "analyze_function {1, 2, 3} ?shared weights_function = Some (sgs, so, failed)"
      "\<not> failed \<longrightarrow> (\<forall>i<length sgs. \<forall>j<length sgs. \<forall>op1\<in>set (members (sgs ! i)). \<forall>op2\<in>set (members (sgs ! j)).
         i = j \<longleftrightarrow> (OpResult (ir_id op1) 0, OpResult (ir_id op2) 0) \<in> (links {1, 2, 3} ?shared weights_function weights_function)\<^sup>*)"
    using const_eval_components [OF wf, of ?shared] by blast
  have "map_option (\<lambda>(sgs, so, failed). (map (map ir_id \<circ> members) sgs, so, failed))
      (analyze_function {1, 2, 3} ?shared weights_function) = Some ([[1, 2], [3]], [0], False)" by code_simp
  then have run: "map (map ir_id \<circ> members) sgs = [[1, 2], [3]]" "so = [0]" "\<not> failed" unfolding all(1) by simp_all
  then obtain g1 g2 op1 op2 op3 where g: "sgs = [g1, g2]" "members g1 = [op1, op2]" "members g2 = [op3]" "ir_id op1 = 1" "ir_id op3 = 3"
    by (auto simp: map_eq_Cons_conv)
  have "(OpResult 1 0, OpResult 3 0) \<notin> (links {1, 2, 3} ?shared weights_function weights_function)\<^sup>*"
    using mp [OF all(2) run(3), rule_format, of 0 1 op1 op3] g by simp
  then show ?thesis using all(1) run by auto
qed

text \<open>A subgraph can be evaluated on its own: an operand of one of its operations is one of its input
  parameters, a constant of the function, or a result of a shared operation, or a result of an
  operation of the same subgraph.\<close>

theorem const_eval_closed:
  assumes "ssa_function params [] ops" "analyze_function params shared ops = Some (sgs, so, False)"
    "sg \<in> set sgs" "op \<in> set (members sg)" "v \<in> set (ir_operands op)"
  shows "(\<exists>a\<in>set (inputParameters sg). v = BlockArgument a \<and> a \<in> params) \<or>
    (\<exists>o1 i. v = OpResult o1 i \<and> (shared o1 \<or> (\<exists>op'\<in>set (members sg). ir_id op' = o1 \<and> i < ir_results op')))"
proof -
  from analysis_result [OF assms(1), of shared] assms(2) obtain st roots where
    r: "analysed params shared ops ops st" "gathered (dsu st) ops roots sgs" "\<not> analysisFailed st" by auto
  have d: "distinct (map ir_id ops)" using ssa_ids [OF assms(1)] by blast
  note g = r(2) [unfolded gathered_def]
  obtain i where i: "i < length sgs" "sg = sgs ! i" using assms(3) by (auto simp: in_set_conv_nth)
  have mem: "set (members sg) = {op \<in> collected (dom (dsu st)) ops. root_of (dsu st) (OpResult (ir_id op) 0) = roots ! i}"
    and inputs: "set (inputParameters sg) = (\<Union>op\<in>set (members sg). set (arguments_of op))" using g i by auto
  have c: "op \<in> collected (dom (dsu st)) ops" "root_of (dsu st) (OpResult (ir_id op) 0) = roots ! i" using assms(4) mem by auto
  note col = collected_iff [OF r(1,3) d]
  have const: "const_op params shared ops op" "0 < ir_results op" "op \<in> set ops" using c(1) col by (auto simp: collected_def)
  consider a where "a \<in> params" "v = BlockArgument a" | o1 j where "v = OpResult o1 j" "shared o1"
    | o1 j op' where "v = OpResult o1 j" "\<not> shared o1" "const_op params shared ops op'" "ir_id op' = o1" "j < ir_results op'"
  proof -
    have "(\<exists>a\<in>params. v = BlockArgument a) \<or> (\<exists>o1 i. v = OpResult o1 i \<and>
        (shared o1 \<or> (\<exists>op'. const_op params shared ops op' \<and> ir_id op' = o1 \<and> i < ir_results op')))"
      using const(1) assms(5) by (simp add: const_op_iff [of params shared ops op])
    then show thesis using that by blast
  qed
  then show ?thesis
  proof cases
    case 1
    then have "a \<in> set (inputParameters sg)" unfolding inputs using assms(4,5) by (auto simp: arguments_iff)
    then show ?thesis using 1 by blast
  next
    case 3
    have op': "op' \<in> collected (dom (dsu st)) ops" "op' \<in> set ops" using 3(3,5) col [of op'] by (auto simp: collected_def)
    let ?L = "links params shared ops ops"
    have "(OpResult (ir_id op') 0, v) \<in> ?L"
      using 3 op'(2) by (force simp: links_def graphs_to_join_def)
    moreover have "(v, OpResult (ir_id op) 0) \<in> ?L"
      using 3(1,2) const assms(5) by (force simp: links_def graphs_to_join_def joinable_def)
    ultimately have "(OpResult (ir_id op') 0, OpResult (ir_id op) 0) \<in> ?L\<^sup>*" by (meson r_into_rtrancl rtrancl_trans)
    then have "root_of (dsu st) (OpResult (ir_id op') 0) = root_of (dsu st) (OpResult (ir_id op) 0)"
      using linked_same_root [OF r(1,3)] op'(1) c(1) by (auto simp: collected_def)
    then have "op' \<in> set (members sg)" using mem op'(1) c(2) by simp
    then show ?thesis using 3 by blast
  qed blast
qed

theorem const_eval_closed_witness:
  "\<exists>sgs sg. analyze_function {1, 2, 3} (\<lambda>op. op = 0) weights_function = Some (sgs, [0], False) \<and> sg \<in> set sgs \<and>
     map ir_id (members sg) = [1, 2] \<and> (\<exists>op'\<in>set (members sg). ir_id op' = 1 \<and> 0 < ir_results op')"
proof -
  let ?shared = "\<lambda>op. op = (0 :: nat)"
  have wf: "ssa_function {1, 2, 3} [] weights_function" by (simp add: weights_function_def plain_op_def)
  have run: "map_option (\<lambda>(sgs, so, failed). (map (map (\<lambda>op. (ir_id op, ir_operands op)) \<circ> members) sgs, so, failed))
      (analyze_function {1, 2, 3} ?shared weights_function) =
    Some ([[(1, [BlockArgument 1, BlockArgument 2]), (2, [OpResult 1 0, OpResult 0 0])], [(3, [BlockArgument 3, OpResult 0 0])]],
      [0], False)" by code_simp
  then obtain sgs where r: "analyze_function {1, 2, 3} ?shared weights_function = Some (sgs, [0], False)"
      "map (map (\<lambda>op. (ir_id op, ir_operands op)) \<circ> members) sgs =
        [[(1, [BlockArgument 1, BlockArgument 2]), (2, [OpResult 1 0, OpResult 0 0])], [(3, [BlockArgument 3, OpResult 0 0])]]"
    by auto
  from r(2) obtain sg rest where "sgs = sg # rest"
      "map (\<lambda>op. (ir_id op, ir_operands op)) (members sg) =
        [(1, [BlockArgument 1, BlockArgument 2]), (2, [OpResult 1 0, OpResult 0 0])]"
    by (cases sgs) simp_all
  moreover from this(2) obtain op1 op2 where "members sg = [op1, op2]" "ir_id op1 = 1" "ir_id op2 = 2"
      "OpResult 1 0 \<in> set (ir_operands op2)" by (force simp: map_eq_Cons_conv)
  ultimately have g: "sg \<in> set sgs" "members sg = [op1, op2]" "ir_id op1 = 1" "ir_id op2 = 2"
      "OpResult 1 0 \<in> set (ir_operands op2)" by simp_all
  have "\<exists>op'\<in>set (members sg). ir_id op' = 1 \<and> 0 < ir_results op'"
    using const_eval_closed [OF wf r(1) g(1), of op2 "OpResult 1 0"] g by simp
  then show ?thesis using r(1) g by auto
qed

section \<open>Names\<close>

declare to_digits.simps [simp del]

lemma to_digits_range: "c \<in> set (to_digits n) \<Longrightarrow> 48 \<le> (of_char c :: nat) \<and> (of_char c :: nat) \<le> 57"
proof (induction n rule: to_digits.induct)
  case (1 n)
  show ?case
  proof (cases "n < 10")
    case False
    then have "c \<in> set (to_digits (n div 10)) \<or> c = char_of (48 + n mod 10)" using "1.prems" by (subst (asm) to_digits.simps) auto
    moreover have "n mod 10 < 10" by simp
    ultimately show ?thesis using "1.IH" False by (auto simp: less_Suc_eq_le)
  qed (use "1.prems" in \<open>subst (asm) to_digits.simps, simp\<close>)
qed

lemma to_digits_nonempty: "to_digits n \<noteq> []"
  by (subst to_digits.simps) simp

lemma parse_digits_append: "parse_digits (xs @ ys) acc = Option.bind (parse_digits xs acc) (parse_digits ys)"
  by (induction xs acc rule: parse_digits.induct) (auto simp: Let_def)

lemma parse_to_digits: "n < 2 ^ 64 \<Longrightarrow> parse_digits (to_digits n) 0 = Some n"
proof (induction n rule: to_digits.induct)
  case (1 n)
  show ?case
  proof (cases "n < 10")
    case True
    then show ?thesis by (subst to_digits.simps) (simp add: Let_def)
  next
    case False
    have d: "(of_char (char_of (48 + n mod 10)) :: nat) = 48 + n mod 10"
      using pos_mod_bound [of 10 "int n"] by simp
    have "parse_digits (to_digits (n div 10)) 0 = Some (n div 10)" using 1 False by simp
    then show ?thesis using 1(2) False by (subst to_digits.simps) (simp add: parse_digits_append Let_def d)
  qed
qed

lemma rfind_last:
  assumes "p \<le> pos" "take (length name_infix) (drop p name) = name_infix"
    "\<And>q. p < q \<Longrightarrow> q \<le> pos \<Longrightarrow> take (length name_infix) (drop q name) \<noteq> name_infix"
  shows "rfind_from pos name = Some p"
  using assms
proof (induction pos)
  case (Suc pos)
  then show ?case by (cases "p = Suc pos") auto
qed simp

lemma infix_only_at:
  assumes "\<forall>c\<in>set ds. c \<noteq> CHR ''_''" "length xs < q"
  shows "take (length name_infix) (drop q (xs @ name_infix @ ds)) \<noteq> name_infix"
proof
  assume m: "take (length name_infix) (drop q (xs @ name_infix @ ds)) = name_infix"
  have n: "length name_infix = 12" "name_infix ! 11 = CHR ''_''" by (simp_all add: name_infix_def)
  have "min 12 (length (xs @ name_infix @ ds) - q) = 12"
    using arg_cong [OF m, of length] unfolding length_take length_drop n(1) by (simp add: min.commute)
  then have len: "q + 12 \<le> length (xs @ name_infix @ ds)" by (simp only: min_def split: if_splits)
  have "take 12 (drop q ys) ! 11 = ys ! (q + 11)" if "q + 12 \<le> length ys" for ys :: string
    using that by (simp add: add.commute)
  from this [OF len] have "(xs @ name_infix @ ds) ! (q + 11) = CHR ''_''"
    using arg_cong [OF m, of "\<lambda>ys. ys ! 11"] unfolding n by simp
  moreover have "(xs @ name_infix @ ds) ! (q + 11) = ds ! (q - 1 - length xs)" "q - 1 - length xs < length ds"
    using assms(2) len n by (auto simp: nth_append)
  ultimately show False using assms(1) by simp
qed

text \<open>Names round trip: the name constructed for a subgraph parses back to the original function's name
  and the number, also when the original name is itself the name of a hoisted function.\<close>

theorem const_eval_name_roundtrip:
  assumes "originalName \<noteq> []" "idx < 2 ^ 64"
  shows "parseConstEvalFunctionName (constructConstEvalFunctionName originalName idx) = Some (originalName, idx)"
proof -
  let ?name = "originalName @ name_infix @ to_digits idx"
  have no: "\<forall>c\<in>set (to_digits idx). c \<noteq> CHR ''_''" using to_digits_range by fastforce
  have "rfind_from (length ?name) ?name = Some (length originalName)"
    by (rule rfind_last) (use infix_only_at [OF no] in auto)
  then show ?thesis using assms parse_to_digits [of idx] to_digits_nonempty [of idx]
    by (simp add: parseConstEvalFunctionName_def constructConstEvalFunctionName_def Let_def)
qed

theorem const_eval_name_roundtrip_witness:
  "parseConstEvalFunctionName (constructConstEvalFunctionName ''main_const_eval_0'' 12) = Some (''main_const_eval_0'', 12)"
  by (rule const_eval_name_roundtrip) simp_all

end
