(* ===== verification/TripCount.thy ===== *)
theory TripCount
  imports Prelude "HOL-Library.Signed_Division"
begin

text \<open>
  Counted loops: the verifier of \<open>ttir.while\<close> (\<open>lib/Dialect/TTIR/IR/TTIROps.cpp\<close>), the
  pass that annotates a loop with its number of iterations
  (\<open>lib/Dialect/TTIR/Transforms/WhileTripCount.cpp\<close>) and the runtime's loop
  (\<open>runtime/lib/ttnn/operations/control_flow/while_op.cpp\<close>). A value of the program is the tree of
  the operations that define it; an \<open>APInt\<close> is a width and its bits. A comparison of
  \<open>APInt\<close>s of different widths fails an assertion, the error of the result type.
\<close>

section \<open>Integers of a given width\<close>

datatype apint = APInt (ap_width: nat) (ap_bits: int)

definition sval :: "apint \<Rightarrow> int" where
  "sval a = signed_take_bit (ap_width a - 1) (ap_bits a)"

definition uval :: "apint \<Rightarrow> int" where
  "uval a = take_bit (ap_width a) (ap_bits a)"

definition sextOrTrunc :: "nat \<Rightarrow> apint \<Rightarrow> apint" where
  "sextOrTrunc w a = APInt w (take_bit w (sval a))"

definition zextOrTrunc :: "nat \<Rightarrow> apint \<Rightarrow> apint" where
  "zextOrTrunc w a = APInt w (take_bit w (uval a))"

definition isNegative :: "apint \<Rightarrow> bool" where
  "isNegative a = (sval a < 0)"

datatype ap_error = WidthMismatch

definition ap_eq :: "apint \<Rightarrow> apint \<Rightarrow> (ap_error, bool) result" where
  "ap_eq a b = (if ap_width a \<noteq> ap_width b then Inl WidthMismatch else Inr (uval a = uval b))"

section \<open>Values and loops\<close>

datatype signedness = Signless | Signed | Unsigned

datatype elem_type = IntegerType signedness nat | OtherType

datatype ttype = RankedTensor (shape_of: "int list") (elem_of: elem_type)

datatype elements = SplatInt apint | NonSplat | NotInteger

datatype fill_value = IntFill apint | FloatFill

datatype region_block = OuterBlock | CondBlock | BodyBlock

datatype comparison = LessThan | LessEqual | GreaterThan | GreaterEqual

datatype loop_value =
    RegionArg region_block nat ttype
  | Reshape "int list" loop_value
  | Broadcast "int list" loop_value
  | Typecast elem_type loop_value
  | Constant ttype elements
  | Full ttype fill_value
  | Compare comparison region_block ttype loop_value loop_value
  | Add region_block ttype loop_value loop_value
  | OtherOp string region_block ttype "loop_value list"

fun type_of :: "loop_value \<Rightarrow> ttype" where
  "type_of (RegionArg b i t) = t"
| "type_of (Reshape s v) = RankedTensor s (elem_of (type_of v))"
| "type_of (Broadcast s v) = RankedTensor s (elem_of (type_of v))"
| "type_of (Typecast e v) = RankedTensor (shape_of (type_of v)) e"
| "type_of (Constant t c) = t"
| "type_of (Full t c) = t"
| "type_of (Compare c b t x y) = t"
| "type_of (Add b t x y) = t"
| "type_of (OtherOp n b t xs) = t"

record while_op =
  inits :: "loop_value list"
  captures :: "loop_value list"
  tripCount :: "int option"
  result_types :: "ttype list"
  cond_args :: "ttype list"
  body_args :: "ttype list"
  cond_yield :: "loop_value list option"
  body_yield :: "loop_value list option"

section \<open>The verifier\<close>

datatype while_error =
    ResultCount
  | CarriedType nat
  | ArgumentCount region_block nat
  | ArgumentType region_block nat
  | CondYieldCount nat
  | CondYieldElements
  | BodyYieldCount nat
  | YieldedType nat

fun same_types :: "(nat \<Rightarrow> while_error) \<Rightarrow> nat \<Rightarrow> ttype list \<Rightarrow> ttype list \<Rightarrow> while_error verdict" where
  "same_types err i (a # as) (b # bs) = (if a \<noteq> b then Inl (err i) else same_types err (i + 1) as bs)"
| "same_types err i as bs = success"

definition verify_region :: "region_block \<Rightarrow> ttype list \<Rightarrow> ttype list \<Rightarrow> while_error verdict" where
  "verify_region b expected args =
     (if length args \<noteq> length expected then Inl (ArgumentCount b (length args))
      else same_types (ArgumentType b) 0 args expected)"

definition verify_cond_yield :: "loop_value list option \<Rightarrow> while_error verdict" where
  "verify_cond_yield y =
     (case y of
        None \<Rightarrow> success
      | Some vs \<Rightarrow>
          if length vs \<noteq> 1 then Inl (CondYieldCount (length vs))
          else if prod_list (shape_of (type_of (hd vs))) \<noteq> 1 then Inl CondYieldElements
          else success)"

definition verify_body_yield :: "loop_value list \<Rightarrow> loop_value list option \<Rightarrow> while_error verdict" where
  "verify_body_yield is y =
     (case y of
        None \<Rightarrow> success
      | Some vs \<Rightarrow>
          if length vs \<noteq> length is then Inl (BodyYieldCount (length vs))
          else same_types YieldedType 0 (map type_of vs) (map type_of is))"

definition verifyWhile :: "while_op \<Rightarrow> while_error verdict" where
  "verifyWhile w =
     (if length (inits w) \<noteq> length (result_types w) then Inl ResultCount
      else and_then (same_types CarriedType 0 (map type_of (inits w)) (result_types w))
        (let expected = map type_of (inits w) @ map type_of (captures w)
         in and_then (verify_region CondBlock expected (cond_args w))
           (and_then (verify_region BodyBlock expected (body_args w))
             (and_then (verify_cond_yield (cond_yield w))
               (verify_body_yield (inits w) (body_yield w))))))"

section \<open>Recognising constants\<close>

definition isSupportedCastType :: "elem_type \<Rightarrow> bool" where
  "isSupportedCastType t = (case t of IntegerType s w \<Rightarrow> w = 32 \<or> w = 64 | OtherType \<Rightarrow> False)"

fun type_width :: "elem_type \<Rightarrow> nat" where
  "type_width (IntegerType s w) = w"
| "type_width OtherType = 0"

definition isUnsigned :: "elem_type \<Rightarrow> bool" where
  "isUnsigned t = (case t of IntegerType s w \<Rightarrow> s = Unsigned | OtherType \<Rightarrow> False)"

definition matchTypecastIntConstant ::
  "elem_type \<Rightarrow> elem_type \<Rightarrow> (ap_error, apint option) result \<Rightarrow> (ap_error, apint option) result" where
  "matchTypecastIntConstant inputType resultType input =
     (if \<not> isSupportedCastType inputType \<or> \<not> isSupportedCastType resultType then Inr None
      else (case input of
              Inl e \<Rightarrow> Inl e
            | Inr None \<Rightarrow> Inr None
            | Inr (Some c) \<Rightarrow>
                let converted = (if isUnsigned inputType then zextOrTrunc (type_width resultType) c
                                 else sextOrTrunc (type_width resultType) c)
                in if isUnsigned resultType \<and> isNegative converted then Inr None
                   else (case ap_eq (sextOrTrunc (type_width inputType) converted) c of
                           Inl e \<Rightarrow> Inl e
                         | Inr same \<Rightarrow> Inr (if same then Some converted else None))))"

fun matchScalarIntConstant :: "loop_value \<Rightarrow> (ap_error, apint option) result" where
  "matchScalarIntConstant (Reshape s v) = matchScalarIntConstant v"
| "matchScalarIntConstant (Broadcast s v) = matchScalarIntConstant v"
| "matchScalarIntConstant (Typecast e v) =
     matchTypecastIntConstant (elem_of (type_of v)) e (matchScalarIntConstant v)"
| "matchScalarIntConstant (Constant t (SplatInt c)) = Inr (Some c)"
| "matchScalarIntConstant (Full t (IntFill c)) = Inr (Some c)"
| "matchScalarIntConstant v = Inr None"

fun matchLoopInvariantConstant :: "while_op \<Rightarrow> loop_value \<Rightarrow> (ap_error, apint option) result" where
  "matchLoopInvariantConstant w (RegionArg b i t) =
     (if b = OuterBlock then Inr None
      else if i < length (inits w) then Inr None
      else matchScalarIntConstant (captures w ! (i - length (inits w))))"
| "matchLoopInvariantConstant w v = matchScalarIntConstant v"

section \<open>Recognising the loop\<close>

record induction_comparison =
  inductionIndex :: nat
  limit :: apint
  ascending :: bool
  inclusive :: bool

fun ascending_of :: "comparison \<Rightarrow> bool" where
  "ascending_of LessThan = True"
| "ascending_of LessEqual = True"
| "ascending_of GreaterThan = False"
| "ascending_of GreaterEqual = False"

fun inclusive_of :: "comparison \<Rightarrow> bool" where
  "inclusive_of LessThan = False"
| "inclusive_of LessEqual = True"
| "inclusive_of GreaterThan = False"
| "inclusive_of GreaterEqual = True"

fun isInductionArg :: "while_op \<Rightarrow> loop_value \<Rightarrow> nat option" where
  "isInductionArg w (RegionArg b i t) =
     (if b \<noteq> CondBlock \<or> length (inits w) \<le> i then None else Some i)"
| "isInductionArg w v = None"

definition comparison_with ::
  "nat \<Rightarrow> bool \<Rightarrow> bool \<Rightarrow> (ap_error, apint option) result \<Rightarrow> (ap_error, induction_comparison option) result" where
  "comparison_with k asc incl l =
     (case l of
        Inl e \<Rightarrow> Inl e
      | Inr None \<Rightarrow> Inr None
      | Inr (Some c) \<Rightarrow> Inr (Some \<lparr>inductionIndex = k, limit = c, ascending = asc, inclusive = incl\<rparr>))"

definition matchConditionRegion :: "while_op \<Rightarrow> (ap_error, induction_comparison option) result" where
  "matchConditionRegion w =
     (case hd (the (cond_yield w)) of
        Compare c b t x y \<Rightarrow>
          if b \<noteq> CondBlock then Inr None
          else (case isInductionArg w x of
                  Some k \<Rightarrow>
                    comparison_with k (ascending_of c) (inclusive_of c) (matchLoopInvariantConstant w y)
                | None \<Rightarrow>
                    (case isInductionArg w y of
                       Some k \<Rightarrow>
                         comparison_with k (\<not> ascending_of c) (inclusive_of c) (matchLoopInvariantConstant w x)
                     | None \<Rightarrow> Inr None))
      | _ \<Rightarrow> Inr None)"

fun is_body_arg :: "nat \<Rightarrow> loop_value \<Rightarrow> bool" where
  "is_body_arg k (RegionArg b i t) = (b = BodyBlock \<and> i = k)"
| "is_body_arg k v = False"

definition matchInductionStep :: "while_op \<Rightarrow> nat \<Rightarrow> (ap_error, apint option) result" where
  "matchInductionStep w k =
     (case the (body_yield w) ! k of
        Add b t x y \<Rightarrow>
          if b \<noteq> BodyBlock then Inr None
          else if is_body_arg k x then matchLoopInvariantConstant w y
          else if is_body_arg k y then matchLoopInvariantConstant w x
          else Inr None
      | _ \<Rightarrow> Inr None)"

section \<open>The count\<close>

definition sdiv128 :: "128 word \<Rightarrow> 128 word \<Rightarrow> 128 word" where
  "sdiv128 a b = word_of_int (sint a sdiv sint b)"

definition wide :: "apint \<Rightarrow> 128 word" where
  "wide a = word_of_int (sval a)"

definition computeTripCount :: "induction_comparison \<Rightarrow> apint \<Rightarrow> apint \<Rightarrow> int option" where
  "computeTripCount c start step =
     (let begin = wide start; stride = wide step
      in if stride = 0 then None
         else if ascending c \<noteq> (0 < sint stride) then None
         else
           let lim = (if inclusive c then wide (limit c) + (if ascending c then 1 else - 1) else wide (limit c));
               distance = (if ascending c then lim - begin else begin - lim);
               absStride = (if ascending c then stride else - stride)
           in if \<not> 0 < sint distance then Some 0
              else let count = sdiv128 (distance + absStride - 1) absStride
                   in if \<not> (- (2 ^ 62) \<le> sint count \<and> sint count < 2 ^ 62) then None
                      else Some (sint count))"

definition analyzeTripCount :: "while_op \<Rightarrow> (ap_error, int option) result" where
  "analyzeTripCount w =
     (case matchConditionRegion w of
        Inl e \<Rightarrow> Inl e
      | Inr None \<Rightarrow> Inr None
      | Inr (Some c) \<Rightarrow>
          (case matchScalarIntConstant (inits w ! inductionIndex c) of
             Inl e \<Rightarrow> Inl e
           | Inr None \<Rightarrow> Inr None
           | Inr (Some start) \<Rightarrow>
               (case matchInductionStep w (inductionIndex c) of
                  Inl e \<Rightarrow> Inl e
                | Inr None \<Rightarrow> Inr None
                | Inr (Some step) \<Rightarrow> Inr (computeTripCount c start step))))"

definition annotate :: "while_op \<Rightarrow> (ap_error, while_op) result" where
  "annotate w =
     (if tripCount w \<noteq> None then Inr w
      else (case analyzeTripCount w of
              Inl e \<Rightarrow> Inl e
            | Inr None \<Rightarrow> Inr w
            | Inr (Some n) \<Rightarrow> Inr (w\<lparr>tripCount := Some n\<rparr>)))"

section \<open>Running the loop\<close>

text \<open>A tensor is a splat of one integer or data that only the operations look at. What the program
  does with other operations, and with data, is the argument \<open>other\<close>; whether a condition that is
  not a splat holds is \<open>truth\<close>. An integer operation wraps to the width of its result.\<close>

datatype 'd tensor = Uniform int | Data 'd

record 'd device =
  other :: "loop_value \<Rightarrow> 'd tensor list \<Rightarrow> 'd tensor"
  truth :: "'d \<Rightarrow> bool"

fun norm_to :: "elem_type \<Rightarrow> int \<Rightarrow> int" where
  "norm_to (IntegerType s w) x = (if s = Unsigned then take_bit w x else signed_take_bit (w - 1) x)"
| "norm_to OtherType x = x"

fun is_integer :: "elem_type \<Rightarrow> bool" where
  "is_integer (IntegerType s w) = (0 < w)"
| "is_integer OtherType = False"

fun holds_between :: "comparison \<Rightarrow> int \<Rightarrow> int \<Rightarrow> bool" where
  "holds_between LessThan x y = (x < y)"
| "holds_between LessEqual x y = (x \<le> y)"
| "holds_between GreaterThan x y = (y < x)"
| "holds_between GreaterEqual x y = (y \<le> x)"

fun eval_value :: "'d device \<Rightarrow> 'd tensor list \<Rightarrow> loop_value \<Rightarrow> 'd tensor" where
  "eval_value d env (RegionArg b i t) = env ! i"
| "eval_value d env (Reshape s v) =
     (case eval_value d env v of Uniform x \<Rightarrow> Uniform x | Data y \<Rightarrow> other d (Reshape s v) [Data y])"
| "eval_value d env (Broadcast s v) =
     (case eval_value d env v of Uniform x \<Rightarrow> Uniform x | Data y \<Rightarrow> other d (Broadcast s v) [Data y])"
| "eval_value d env (Typecast e v) =
     (case eval_value d env v of
        Uniform x \<Rightarrow> if is_integer (elem_of (type_of v)) \<and> is_integer e then Uniform (norm_to e x)
                   else other d (Typecast e v) [Uniform x]
      | Data y \<Rightarrow> other d (Typecast e v) [Data y])"
| "eval_value d env (Constant t c) =
     (case c of SplatInt a \<Rightarrow> if is_integer (elem_of t) then Uniform (norm_to (elem_of t) (sval a)) else other d (Constant t c) []
      | _ \<Rightarrow> other d (Constant t c) [])"
| "eval_value d env (Full t c) =
     (case c of IntFill a \<Rightarrow> if is_integer (elem_of t) then Uniform (norm_to (elem_of t) (sval a)) else other d (Full t c) []
      | FloatFill \<Rightarrow> other d (Full t c) [])"
| "eval_value d env (Compare c b t x y) =
     (case (eval_value d env x, eval_value d env y) of
        (Uniform i, Uniform j) \<Rightarrow> Uniform (if holds_between c i j then 1 else 0)
      | (u, v) \<Rightarrow> other d (Compare c b t x y) [u, v])"
| "eval_value d env (Add b t x y) =
     (case (eval_value d env x, eval_value d env y) of
        (Uniform i, Uniform j) \<Rightarrow> if is_integer (elem_of t) then Uniform (norm_to (elem_of t) (i + j))
                               else other d (Add b t x y) [Uniform i, Uniform j]
      | (u, v) \<Rightarrow> other d (Add b t x y) [u, v])"
| "eval_value d env (OtherOp n b t xs) = other d (OtherOp n b t xs) (map (eval_value d env) xs)"

datatype loop_error = ConditionCount | ExceededIterations | CarriedCount

definition runSubProgram :: "'d device \<Rightarrow> loop_value list \<Rightarrow> 'd tensor list \<Rightarrow> 'd tensor list \<Rightarrow> 'd tensor list" where
  "runSubProgram d program carried caps = map (eval_value d (carried @ caps)) program"

definition evaluateCondition ::
  "'d device \<Rightarrow> while_op \<Rightarrow> 'd tensor list \<Rightarrow> 'd tensor list \<Rightarrow> (loop_error, bool) result" where
  "evaluateCondition d w carried caps =
     (case runSubProgram d (the (cond_yield w)) carried caps of
        [v] \<Rightarrow> Inr (case v of Uniform x \<Rightarrow> x \<noteq> 0 | Data y \<Rightarrow> truth d y)
      | _ \<Rightarrow> Inl ConditionCount)"

definition run_body ::
  "'d device \<Rightarrow> while_op \<Rightarrow> 'd tensor list \<Rightarrow> 'd tensor list \<Rightarrow> (loop_error, 'd tensor list) result" where
  "run_body d w caps carried =
     (let n = runSubProgram d (the (body_yield w)) carried caps
      in if length n \<noteq> length carried then Inl CarriedCount else Inr n)"

text \<open>Whether the loop goes on before an iteration: a counted loop compares the iteration with the
  count, any other one evaluates its condition, at most \<open>bound\<close> times.\<close>

definition continues ::
  "'d device \<Rightarrow> while_op \<Rightarrow> nat \<Rightarrow> 'd tensor list \<Rightarrow> nat \<Rightarrow> 'd tensor list \<Rightarrow> (loop_error, bool) result" where
  "continues d w bound caps iteration carried =
     (case tripCount w of
        Some n \<Rightarrow> Inr (int iteration < n)
      | None \<Rightarrow> if \<not> iteration < bound then Inl ExceededIterations else evaluateCondition d w carried caps)"

function run_loop ::
  "'d device \<Rightarrow> while_op \<Rightarrow> nat \<Rightarrow> 'd tensor list \<Rightarrow> nat \<Rightarrow> 'd tensor list \<Rightarrow> (loop_error, 'd tensor list) result" where
  "run_loop d w bound caps iteration carried =
     (case continues d w bound caps iteration carried of
        Inl e \<Rightarrow> Inl e
      | Inr False \<Rightarrow> Inr carried
      | Inr True \<Rightarrow>
          (case run_body d w caps carried of
             Inl e \<Rightarrow> Inl e
           | Inr n \<Rightarrow> run_loop d w bound caps (iteration + 1) n))"
  by pat_completeness auto

termination
  by (relation "measure (\<lambda>(d, w, bound, caps, iteration, carried).
        (case tripCount w of Some n \<Rightarrow> nat n | None \<Rightarrow> bound) - iteration)")
    (auto simp: continues_def split: option.splits if_splits)

declare run_loop.simps [simp del]

definition run_while ::
  "'d device \<Rightarrow> nat \<Rightarrow> while_op \<Rightarrow> 'd tensor list \<Rightarrow> (loop_error, 'd tensor list) result" where
  "run_while d bound w env =
     run_loop d w bound (map (eval_value d env) (captures w)) 0 (map (eval_value d env) (inits w))"


text \<open>
  Facts on counted loops: what reading an \<open>APInt\<close> as signed says of the value that the program
  computes, the iterations that \<open>computeTripCount\<close> counts, and what the condition and the body of a
  recognised loop do to the induction variable.
\<close>

section \<open>Reading constants\<close>

definition fits :: "elem_type \<Rightarrow> int \<Rightarrow> bool" where
  "fits e x = (is_integer e \<and> type_width e \<le> 64 \<and> norm_to e x = x)"

lemma norm_to_reads:
  assumes "0 < w"
  shows "norm_to (IntegerType s w) (signed_take_bit (w - 1) (take_bit w y)) = norm_to (IntegerType s w) y"
  using assms by (simp add: signed_take_bit_take_bit take_bit_signed_take_bit)

lemma norm_to_cong:
  assumes "is_integer e"
  shows "norm_to e x = norm_to e y \<longleftrightarrow> take_bit (type_width e) x = take_bit (type_width e) y"
  using assms by (cases e) (auto simp: signed_take_bit_eq_iff_take_bit_eq)

lemma take_bit_norm_to: "is_integer e \<Longrightarrow> take_bit (type_width e) (norm_to e x) = take_bit (type_width e) x"
  by (cases e) (auto simp: take_bit_signed_take_bit)

lemma norm_to_add [simp]:
  assumes "is_integer e"
  shows "norm_to e (norm_to e x + norm_to e y) = norm_to e (x + y)"
    and "norm_to e (x + norm_to e y) = norm_to e (x + y)"
    and "norm_to e (norm_to e x + y) = norm_to e (x + y)"
  using assms unfolding norm_to_cong [OF assms]
  by (metis take_bit_add take_bit_norm_to)+

lemma take_bit_uval: "take_bit (ap_width c) (sval c) = uval c" if "0 < ap_width c"
  using that by (simp add: sval_def uval_def take_bit_signed_take_bit)

lemma norm_to_converted:
  assumes "0 < w" "0 < ap_width c"
  shows "norm_to (IntegerType s w) (sval (zextOrTrunc w c)) = norm_to (IntegerType s w) (uval c)"
    and "norm_to (IntegerType s w) (sval (sextOrTrunc w c)) = norm_to (IntegerType s w) (sval c)"
  using norm_to_reads [OF assms(1)] by (simp_all add: sval_def zextOrTrunc_def sextOrTrunc_def)

lemma matchTypecast_sound:
  assumes m: "matchTypecastIntConstant i r (Inr (Some c)) = Inr (Some a)"
  shows "is_integer i \<and> is_integer r \<and> norm_to r (norm_to i (sval c)) = norm_to r (sval a)"
proof -
  have "isSupportedCastType i" "isSupportedCastType r"
    using m unfolding matchTypecastIntConstant_def by (cases "isSupportedCastType i"; cases "isSupportedCastType r"; simp)+
  then obtain s w s' w' where t: "i = IntegerType s w" "r = IntegerType s' w'" "w = 32 \<or> w = 64" "w' = 32 \<or> w' = 64"
    by (cases i; cases r) (simp_all add: isSupportedCastType_def)
  let ?c = "if s = Unsigned then zextOrTrunc w' c else sextOrTrunc w' c"
  have a: "a = ?c" and wc: "ap_width c = w"
    using m t by (auto simp: matchTypecastIntConstant_def isSupportedCastType_def isUnsigned_def ap_eq_def
        Let_def sextOrTrunc_def split: if_splits)
  have pos: "0 < ap_width c" "0 < w'" using t wc by auto
  have "norm_to i (sval c) = (if s = Unsigned then uval c else sval c)"
    using t wc pos by (auto simp: sval_def uval_def take_bit_signed_take_bit)
  moreover have "norm_to r (sval a) = norm_to r (if s = Unsigned then uval c else sval c)"
    unfolding a t(2) using norm_to_converted [OF pos(2,1)] by (simp del: norm_to.simps)
  ultimately show ?thesis using t(1,2) pos wc by (simp del: norm_to.simps)
qed

lemma matchTypecast_input:
  "matchTypecastIntConstant i r x = Inr (Some a) \<Longrightarrow> \<exists>c. x = Inr (Some c)"
  by (auto simp: matchTypecastIntConstant_def split: if_splits sum.splits option.splits)

lemma matched_value:
  "matchScalarIntConstant v = Inr (Some a) \<Longrightarrow> is_integer (elem_of (type_of v)) \<Longrightarrow>
   eval_value d env v = Uniform (norm_to (elem_of (type_of v)) (sval a))"
proof (induction v arbitrary: a rule: matchScalarIntConstant.induct)
  case (3 e v)
  then obtain c where c: "matchScalarIntConstant v = Inr (Some c)"
    using matchTypecast_input by fastforce
  with matchTypecast_sound 3 have s: "is_integer (elem_of (type_of v))" "is_integer e"
    "norm_to e (norm_to (elem_of (type_of v)) (sval c)) = norm_to e (sval a)" by auto
  with 3(1) [OF c] show ?case by simp
qed auto

section \<open>The number of iterations\<close>

lemma fits_between:
  assumes "fits e a" "fits e b" "a \<le> x" "x \<le> b"
  shows "fits e x"
proof (cases e)
  case (IntegerType s w)
  then show ?thesis
    using assms by (auto simp: fits_def take_bit_int_eq_self_iff signed_take_bit_int_eq_self_iff split: if_splits)
qed (use assms in \<open>simp add: fits_def\<close>)

lemma sint128:
  assumes "- (2 ^ 127) \<le> x" "x < 2 ^ 127"
  shows "sint (word_of_int x :: 128 word) = x"
  using assms by (simp add: int_word_sint)

lemma fits_bounds:
  assumes "fits e x"
  shows "- (2 ^ 63) \<le> x" "x < 2 ^ 64"
proof -
  obtain s w where e: "e = IntegerType s w" "w \<le> 64" "0 < w" using assms by (cases e) (auto simp: fits_def)
  have p: "(2::int) ^ (w - 1) \<le> 2 ^ 63" "(2::int) ^ w \<le> 2 ^ 64"
    using e power_increasing [of "w - 1" 63 "2::int"] power_increasing [of w 64 "2::int"] by simp_all
  have x: "(if s = Unsigned then take_bit w x else signed_take_bit (w - 1) x) = x"
    using assms e by (simp add: fits_def)
  have "- (2 ^ 63) \<le> x \<and> x < 2 ^ 64"
  proof (cases "s = Unsigned")
    case True
    then have "0 \<le> x" "x < 2 ^ w" using x by (simp_all add: take_bit_int_eq_self_iff)
    then show ?thesis using p by simp
  next
    case False
    then have "- (2 ^ (w - 1)) \<le> x" "x < 2 ^ (w - 1)" using x by (simp_all add: signed_take_bit_int_eq_self_iff)
    then show ?thesis using p by simp
  qed
  then show "- (2 ^ 63) \<le> x" "x < 2 ^ 64" by simp_all
qed

definition in_loop :: "induction_comparison \<Rightarrow> int \<Rightarrow> bool" where
  "in_loop c x =
     (if ascending c then if inclusive c then x \<le> sval (limit c) else x < sval (limit c)
      else if inclusive c then sval (limit c) \<le> x else sval (limit c) < x)"

lemma ceiling_count:
  fixes D s n :: int
  assumes "0 < s" and "n = (if 0 < D then (D + s - 1) div s else 0)"
  shows "0 \<le> n" and "D \<le> n * s" and "0 \<le> j \<Longrightarrow> j < n \<Longrightarrow> j * s < D"
proof -
  show "0 \<le> n" using assms by (simp add: pos_imp_zdiv_nonneg_iff)
  have m: "s * ((D + s - 1) div s) + (D + s - 1) mod s = D + s - 1" by (rule mult_div_mod_eq)
  have b: "0 \<le> (D + s - 1) mod s" "(D + s - 1) mod s < s" using assms(1) by simp_all
  have c: "D \<le> (D + s - 1) div s * s" using m b(2) mult.commute [of s "(D + s - 1) div s"] by linarith
  show "D \<le> n * s" using c assms by auto
  assume j: "0 \<le> j" "j < n"
  then have n: "n = (D + s - 1) div s" using assms(2) by (simp split: if_splits)
  have "(j + 1) * s \<le> n * s" using j assms(1) by (simp add: mult_right_mono)
  moreover have "(j + 1) * s = j * s + s" by (simp add: algebra_simps)
  moreover have "n * s = D + s - 1 - (D + s - 1) mod s"
    using m mult.commute [of s "(D + s - 1) div s"] unfolding n by linarith
  ultimately show "j * s < D" using b by linarith
qed

lemma wide_div:
  assumes "0 < a" "a < 2 ^ 127" "0 < b" "b < 2 ^ 127"
  shows "sint (sdiv128 (word_of_int a) (word_of_int b)) = a div b"
proof -
  have "a div b \<le> a" "0 \<le> a div b" using assms zdiv_mono2 [of a 1 b] by (simp_all add: pos_imp_zdiv_nonneg_iff)
  then show ?thesis
    using assms by (simp add: sdiv128_def sint128 signed_divide_int_def)
qed

lemma computeTripCount_count:
  assumes c: "computeTripCount c start step = Some n"
    and lo: "- (2 ^ 64) \<le> sval start" "- (2 ^ 64) \<le> sval step" "- (2 ^ 64) \<le> sval (limit c)"
    and hi: "sval start \<le> 2 ^ 64" "sval step \<le> 2 ^ 64" "sval (limit c) \<le> 2 ^ 64"
  shows "sval step \<noteq> 0 \<and> ascending c = (0 < sval step) \<and>
    n = (let L = sval (limit c) + (if inclusive c then if ascending c then 1 else - 1 else 0);
             D = (if ascending c then L - sval start else sval start - L)
         in if 0 < D then (D + \<bar>sval step\<bar> - 1) div \<bar>sval step\<bar> else 0)"
proof -
  let ?s = "sval step"
  let ?L = "sval (limit c) + (if inclusive c then if ascending c then 1 else - 1 else 0)"
  let ?D = "if ascending c then ?L - sval start else sval start - ?L"
  have s: "sint (wide step) = ?s" and ws: "wide step = 0 \<longleftrightarrow> ?s = 0"
    using lo hi sint128 [of ?s] by (auto simp: wide_def) 
  have asc: "?s \<noteq> 0" "ascending c = (0 < ?s)"
    using c s ws by (auto simp: computeTripCount_def Let_def split: if_splits)
  have L: "(if inclusive c then wide (limit c) + (if ascending c then 1 else - 1) else wide (limit c)) = word_of_int ?L"
    by (simp add: wide_def)
  have D: "(if ascending c then word_of_int ?L - wide start else wide start - word_of_int ?L) = (word_of_int ?D :: 128 word)"
    by (simp add: wide_def)
  have A: "(if ascending c then wide step else - wide step) = (word_of_int \<bar>?s\<bar> :: 128 word)"
    using asc by (simp add: wide_def)
  have sD: "sint (word_of_int ?D :: 128 word) = ?D" using lo hi by (intro sint128) auto
  have n: "n = (if 0 < ?D then sint (sdiv128 (word_of_int (?D + \<bar>?s\<bar> - 1)) (word_of_int \<bar>?s\<bar>)) else 0)"
    using c unfolding computeTripCount_def Let_def L D A sD by (auto split: if_splits)
  have q: "sint (sdiv128 (word_of_int (?D + \<bar>?s\<bar> - 1)) (word_of_int \<bar>?s\<bar>)) = (?D + \<bar>?s\<bar> - 1) div \<bar>?s\<bar>" if "0 < ?D"
    using that lo hi asc(1) by (intro wide_div) auto
  show ?thesis unfolding Let_def n using asc q by simp
qed

lemma count_in_loop:
  assumes c: "computeTripCount c start step = Some n"
    and lo: "- (2 ^ 64) \<le> sval start" "- (2 ^ 64) \<le> sval step" "- (2 ^ 64) \<le> sval (limit c)"
    and hi: "sval start \<le> 2 ^ 64" "sval step \<le> 2 ^ 64" "sval (limit c) \<le> 2 ^ 64"
  shows "0 \<le> n" and "\<not> in_loop c (sval start + n * sval step)"
    and "0 \<le> j \<Longrightarrow> j < n \<Longrightarrow> in_loop c (sval start + j * sval step)"
proof -
  let ?s = "sval step"
  let ?L = "sval (limit c) + (if inclusive c then if ascending c then 1 else - 1 else 0)"
  let ?D = "if ascending c then ?L - sval start else sval start - ?L"
  have s: "?s \<noteq> 0" "ascending c = (0 < ?s)" and n: "n = (if 0 < ?D then (?D + \<bar>?s\<bar> - 1) div \<bar>?s\<bar> else 0)"
    using computeTripCount_count [OF c lo hi] by (simp_all add: Let_def)
  have p: "0 < \<bar>?s\<bar>" using s by simp
  note count = ceiling_count [OF p n]
  show "0 \<le> n" by (rule count(1))
  have conv: "in_loop c (sval start + i * ?s) \<longleftrightarrow> i * \<bar>?s\<bar> < ?D" for i
    using s by (auto simp: in_loop_def abs_if)
  show "\<not> in_loop c (sval start + n * sval step)" unfolding conv using count(2) by simp
  show "in_loop c (sval start + j * sval step)" if "0 \<le> j" "j < n" unfolding conv using count(3) that by simp
qed

section \<open>The regions of a loop\<close>

text \<open>What MLIR itself guarantees of the regions: both end in a yield, a block argument has the type
  that its block lists, and the operands of a comparison and of an addition have one element type.\<close>

fun arg_typed :: "while_op \<Rightarrow> loop_value \<Rightarrow> bool" where
  "arg_typed w (RegionArg b i t) =
     (let args = (if b = CondBlock then cond_args w else body_args w)
      in b \<noteq> OuterBlock \<and> i < length args \<and> args ! i = t)"
| "arg_typed w v = True"

fun operands_typed :: "while_op \<Rightarrow> loop_value \<Rightarrow> bool" where
  "operands_typed w (Compare c b t x y) =
     (elem_of (type_of x) = elem_of (type_of y) \<and> arg_typed w x \<and> arg_typed w y)"
| "operands_typed w (Add b t x y) =
     (elem_of (type_of x) = elem_of t \<and> elem_of (type_of y) = elem_of t \<and> arg_typed w x \<and> arg_typed w y)"
| "operands_typed w v = True"

definition well_formed_regions :: "while_op \<Rightarrow> bool" where
  "well_formed_regions w =
     (case (cond_yield w, body_yield w) of
        (Some cs, Some bs) \<Rightarrow> list_all (operands_typed w) (cs @ bs) | _ \<Rightarrow> False)"

lemma same_types_success:
  "same_types err i as bs = success \<Longrightarrow> length as = length bs \<Longrightarrow> as = bs"
  by (induction err i as bs rule: same_types.induct) (auto split: if_splits)

lemma verified_args:
  assumes "verifyWhile w = success"
  shows "cond_args w = map type_of (inits w) @ map type_of (captures w)"
    and "body_args w = map type_of (inits w) @ map type_of (captures w)"
  using assms by (auto simp: verifyWhile_def verify_region_def Let_def split: if_splits dest!: same_types_success)

lemma verified_body:
  assumes "verifyWhile w = success" "body_yield w = Some bs"
  shows "map type_of bs = map type_of (inits w)" "length bs = length (inits w)"
  using assms by (auto simp: verifyWhile_def verify_body_yield_def Let_def split: if_splits dest!: same_types_success)

lemma verified_cond:
  assumes "verifyWhile w = success" "cond_yield w = Some cs"
  shows "\<exists>v. cs = [v]"
  using assms by (auto simp: verifyWhile_def verify_cond_yield_def Let_def length_Suc_conv split: if_splits)

text \<open>A loop-invariant constant is what the region computes.\<close>

lemma invariant_value:
  assumes m: "matchLoopInvariantConstant w v = Inr (Some a)"
    and v: "verifyWhile w = success" and t: "arg_typed w v" and i: "is_integer (elem_of (type_of v))"
    and carried: "length carried = length (inits w)"
  shows "eval_value d (carried @ map (eval_value d env) (captures w)) v =
    Uniform (norm_to (elem_of (type_of v)) (sval a))"
proof (cases "\<exists>b k t. v = RegionArg b k t")
  case False
  then have "matchScalarIntConstant v = Inr (Some a)" using m by (cases v) auto
  then show ?thesis by (rule matched_value [OF _ i])
next
  case True
  then obtain b k ty where vk: "v = RegionArg b k ty" by blast
  then have k: "length (inits w) \<le> k" "matchScalarIntConstant (captures w ! (k - length (inits w))) = Inr (Some a)"
    using m by (auto split: if_splits)
  have ty: "k - length (inits w) < length (captures w)" "ty = type_of (captures w ! (k - length (inits w)))"
    using t k(1) verified_args [OF v] by (auto simp: vk Let_def nth_append split: if_splits)
  then show ?thesis using matched_value [OF k(2)] i k(1) carried by (simp add: vk nth_append)
qed

definition counted_in_range :: "while_op \<Rightarrow> int \<Rightarrow> bool" where
  "counted_in_range w n =
     (case matchConditionRegion w of
        Inr (Some c) \<Rightarrow>
          (let k = inductionIndex c; e = elem_of (type_of (inits w ! k))
           in case (matchScalarIntConstant (inits w ! k), matchInductionStep w k) of
                (Inr (Some start), Inr (Some step)) \<Rightarrow>
                  fits e (sval start) \<and> fits e (sval (limit c)) \<and> fits e (sval start + n * sval step) \<and> ap_width step \<le> 64
              | _ \<Rightarrow> False)
      | _ \<Rightarrow> False)"

lemma comparison_with_Some:
  "comparison_with k asc incl l = Inr (Some c) \<longleftrightarrow>
     (\<exists>a. l = Inr (Some a) \<and> c = \<lparr>inductionIndex = k, limit = a, ascending = asc, inclusive = incl\<rparr>)"
  by (auto simp: comparison_with_def split: sum.splits option.splits)

lemma isInductionArg_Some:
  "isInductionArg w v = Some k \<longleftrightarrow> (\<exists>t. v = RegionArg CondBlock k t \<and> k < length (inits w))"
  by (cases v) auto

text \<open>The condition region compares the induction variable with the limit, on either side.\<close>

lemma matched_condition:
  assumes m: "matchConditionRegion w = Inr (Some c)"
    and v: "verifyWhile w = success" and wf: "well_formed_regions w"
    and e: "is_integer (elem_of (type_of (inits w ! inductionIndex c)))"
    and f: "norm_to (elem_of (type_of (inits w ! inductionIndex c))) (sval (limit c)) = sval (limit c)"
    and carried: "length carried = length (inits w)" "carried ! inductionIndex c = Uniform x"
  shows "inductionIndex c < length (inits w)"
    and "evaluateCondition d w carried (map (eval_value d env) (captures w)) = Inr (in_loop c x)"
proof -
  obtain cs bs where y: "cond_yield w = Some cs" "list_all (operands_typed w) cs"
    using wf by (auto simp: well_formed_regions_def split: option.splits)
  then obtain r where cs: "cs = [r]" using verified_cond [OF v] by blast
  obtain cmp t a b where r: "r = Compare cmp CondBlock t a b"
    using m y cs by (cases r) (auto simp: matchConditionRegion_def split: if_splits)
  have ty: "elem_of (type_of a) = elem_of (type_of b)" "arg_typed w a" "arg_typed w b" using y cs r by simp_all
  have arg: "type_of (RegionArg CondBlock k t) = type_of (inits w ! k)"
    if "arg_typed w (RegionArg CondBlock k t)" "k < length (inits w)" for k t
    using that verified_args(1) [OF v] by (simp add: Let_def nth_append)
  let ?env = "carried @ map (eval_value d env) (captures w)"
  have "inductionIndex c < length (inits w) \<and>
    evaluateCondition d w carried (map (eval_value d env) (captures w)) = Inr (in_loop c x)"
  proof (cases "isInductionArg w a")
    case (Some k)
    then obtain ta l where k: "a = RegionArg CondBlock k ta" "k < length (inits w)"
      and l: "matchLoopInvariantConstant w b = Inr (Some l)"
      and c: "c = \<lparr>inductionIndex = k, limit = l, ascending = ascending_of cmp, inclusive = inclusive_of cmp\<rparr>"
      using m y cs r by (auto simp: matchConditionRegion_def isInductionArg_Some comparison_with_Some split: if_splits)
    have eb: "elem_of (type_of b) = elem_of (type_of (inits w ! k))"
      using arg [of k ta] ty k by simp
    have "eval_value d ?env b = Uniform (sval l)"
      using invariant_value [OF l v ty(3) _ carried(1)] e f c eb by simp
    moreover have "eval_value d ?env a = Uniform x" using k carried c by (simp add: nth_append)
    ultimately show ?thesis using y cs r k c
      by (cases cmp) (auto simp: evaluateCondition_def runSubProgram_def in_loop_def)
  next
    case None
    then obtain k tb l where k: "b = RegionArg CondBlock k tb" "k < length (inits w)"
      and l: "matchLoopInvariantConstant w a = Inr (Some l)"
      and c: "c = \<lparr>inductionIndex = k, limit = l, ascending = \<not> ascending_of cmp, inclusive = inclusive_of cmp\<rparr>"
      using m y cs r by (auto simp: matchConditionRegion_def isInductionArg_Some comparison_with_Some split: if_splits option.splits)
    have ea: "elem_of (type_of a) = elem_of (type_of (inits w ! k))"
      using arg [of k tb] ty k by simp
    have "eval_value d ?env a = Uniform (sval l)"
      using invariant_value [OF l v ty(2) _ carried(1)] e f c ea by simp
    moreover have "eval_value d ?env b = Uniform x" using k carried c by (simp add: nth_append)
    ultimately show ?thesis using y cs r k c
      by (cases cmp) (auto simp: evaluateCondition_def runSubProgram_def in_loop_def)
  qed
  then show "inductionIndex c < length (inits w)"
    "evaluateCondition d w carried (map (eval_value d env) (captures w)) = Inr (in_loop c x)" by blast+
qed

lemma is_body_arg_iff: "is_body_arg k v \<longleftrightarrow> (\<exists>t. v = RegionArg BodyBlock k t)"
  by (cases v) auto

text \<open>The body adds the step to the induction variable, with the wrap-around of its type.\<close>

lemma matched_step:
  assumes m: "matchInductionStep w k = Inr (Some step)"
    and v: "verifyWhile w = success" and wf: "well_formed_regions w"
    and k: "k < length (inits w)" and e: "is_integer (elem_of (type_of (inits w ! k)))"
    and carried: "length carried = length (inits w)" "carried ! k = Uniform x"
  shows "\<exists>s'. run_body d w (map (eval_value d env) (captures w)) carried = Inr s' \<and> length s' = length (inits w) \<and>
    s' ! k = Uniform (norm_to (elem_of (type_of (inits w ! k))) (x + sval step))"
proof -
  obtain bs where y: "body_yield w = Some bs" "list_all (operands_typed w) bs"
    using wf by (auto simp: well_formed_regions_def split: option.splits)
  note vb = verified_body [OF v y(1)]
  obtain t a b where r: "bs ! k = Add BodyBlock t a b"
    using m y by (cases "bs ! k") (auto simp: matchInductionStep_def split: if_splits)
  have ty: "elem_of (type_of a) = elem_of t" "elem_of (type_of b) = elem_of t" "arg_typed w a" "arg_typed w b"
    using y(2) vb(2) k r by (auto simp: list_all_length dest!: spec [of _ k])
  have t: "t = type_of (inits w ! k)"
    using arg_cong [OF vb(1), of "\<lambda>xs. xs ! k"] vb(2) k r by simp
  let ?env = "carried @ map (eval_value d env) (captures w)"
  let ?n = "norm_to (elem_of t)"
  have "eval_value d ?env (bs ! k) = Uniform (?n (x + sval step))"
  proof (cases "is_body_arg k a")
    case True
    then obtain ta where a: "a = RegionArg BodyBlock k ta" and l: "matchLoopInvariantConstant w b = Inr (Some step)"
      using m y r by (auto simp: matchInductionStep_def is_body_arg_iff split: if_splits)
    have "eval_value d ?env b = Uniform (?n (sval step))"
      using invariant_value [OF l v ty(4) _ carried(1)] e t ty by simp
    then show ?thesis using a carried k e t r by (simp add: nth_append)
  next
    case False
    then obtain tb where b: "b = RegionArg BodyBlock k tb" and l: "matchLoopInvariantConstant w a = Inr (Some step)"
      using m y r by (auto simp: matchInductionStep_def is_body_arg_iff split: if_splits)
    have "eval_value d ?env a = Uniform (?n (sval step))"
      using invariant_value [OF l v ty(3) _ carried(1)] e t ty by simp
    then show ?thesis using b carried k e t r by (simp add: nth_append add.commute)
  qed
  then show ?thesis using y vb(2) carried(1) k t by (simp add: run_body_def runSubProgram_def)
qed

end
