(* ===== verification/TripProps.thy ===== *)
theory TripProps
  imports TripCount
begin







section \<open>Loops of two carried values\<close>

definition counted_loop :: "ttype \<Rightarrow> comparison \<Rightarrow> int \<Rightarrow> int \<Rightarrow> int \<Rightarrow> while_op" where
  "counted_loop t c start lim step =
     \<lparr>inits = [Constant t (SplatInt (APInt 32 start)), OtherOp ''empty'' OuterBlock t []],
      captures = [Constant t (SplatInt (APInt 32 lim)), Constant t (SplatInt (APInt 32 step))],
      tripCount = None, result_types = [t, t], cond_args = [t, t, t, t], body_args = [t, t, t, t],
      cond_yield = Some [Compare c CondBlock (RankedTensor [] (IntegerType Signless 1))
        (RegionArg CondBlock 0 t) (RegionArg CondBlock 2 t)],
      body_yield = Some [Add BodyBlock t (RegionArg BodyBlock 0 t) (RegionArg BodyBlock 3 t),
        OtherOp ''relu'' BodyBlock t [RegionArg BodyBlock 1 t]]\<rparr>"

definition int_scalar :: "signedness \<Rightarrow> ttype" where
  "int_scalar s = RankedTensor [] (IntegerType s 32)"

definition tally :: "nat device" where
  "tally = \<lparr>other = (\<lambda>v xs. case xs of [Data a] \<Rightarrow> Data (a + 1) | _ \<Rightarrow> Data 0), truth = (\<lambda>x. x \<noteq> 0)\<rparr>"


definition last_loop :: while_op where
  "last_loop = counted_loop (int_scalar Signless) LessEqual (2 ^ 31 - 2) (2 ^ 31 - 1) 1"

definition unsigned_loop :: while_op where
  "unsigned_loop = counted_loop (int_scalar Unsigned) LessThan (2 ^ 31 - 1) (2 ^ 31 + 1) 1"

text \<open>The largest limit admits every value, so the condition always holds.\<close>

lemma last_loop_goes_on:
  fixes x :: int
  assumes "x < 2 ^ 31"
  shows "run_loop d last_loop bound [Uniform (2 ^ 31 - 1), Uniform 1] i [Uniform x, u] = Inl ExceededIterations"
  using assms
proof (induction "bound - i" arbitrary: i x u)
  case 0
  then show ?case by (simp add: run_loop.simps continues_def last_loop_def counted_loop_def)
next
  case (Suc m)
  let ?x = "signed_take_bit 31 (x + 1)"
  let ?u = "other d (OtherOp ''relu'' BodyBlock (int_scalar Signless) [RegionArg BodyBlock 1 (int_scalar Signless)]) [u]"
  have "?x < 2 ^ 31" by (rule signed_take_bit_int_less_exp)
  then have "run_loop d last_loop bound [Uniform (2 ^ 31 - 1), Uniform 1] (i + 1) [Uniform ?x, ?u] = Inl ExceededIterations"
    using Suc by simp
  moreover have "continues d last_loop bound [Uniform (2 ^ 31 - 1), Uniform 1] i [Uniform x, u] = Inr True"
    using Suc by (simp add: continues_def last_loop_def counted_loop_def evaluateCondition_def runSubProgram_def)
  moreover have "run_body d last_loop [Uniform (2 ^ 31 - 1), Uniform 1] [Uniform x, u] = Inr [Uniform ?x, ?u]"
    by (simp add: run_body_def last_loop_def counted_loop_def runSubProgram_def int_scalar_def Let_def)
  ultimately show ?case by (subst run_loop.simps) simp
qed

text \<open>The annotated count is not always the number of iterations. A 32-bit loop up to and including
  the largest value gets the count 2 although its condition never fails: the runtime reports that the
  loop exceeds every bound. A loop over unsigned values from \<open>2 ^ 31 - 1\<close> to \<open>2 ^ 31 + 1\<close>
  gets the count 0, because the limit is read as signed, although its body runs twice: the annotated
  loop returns the initial values.\<close>

theorem trip_count_wrong:
  "analyzeTripCount last_loop = Inr (Some 2) \<and>
   run_while d bound last_loop env = Inl ExceededIterations \<and>
   analyzeTripCount unsigned_loop = Inr (Some 0) \<and>
   run_while tally 10 (unsigned_loop\<lparr>tripCount := Some 0\<rparr>) [] = Inr [Uniform (2 ^ 31 - 1), Data 0] \<and>
   run_while tally 10 unsigned_loop [] = Inr [Uniform (2 ^ 31 + 1), Data 2]"
proof (intro conjI)
  show "analyzeTripCount last_loop = Inr (Some 2)" by code_simp
  show "analyzeTripCount unsigned_loop = Inr (Some 0)" by code_simp
  show "run_while tally 10 (unsigned_loop\<lparr>tripCount := Some 0\<rparr>) [] = Inr [Uniform (2 ^ 31 - 1), Data 0]" by code_simp
  show "run_while tally 10 unsigned_loop [] = Inr [Uniform (2 ^ 31 + 1), Data 2]" by code_simp
  have "run_while d bound last_loop env =
    run_loop d last_loop bound [Uniform (2 ^ 31 - 1), Uniform 1] 0
      [Uniform (2 ^ 31 - 2), other d (OtherOp ''empty'' OuterBlock (int_scalar Signless) []) []]"
    by (simp add: run_while_def last_loop_def counted_loop_def int_scalar_def sval_def signed_take_bit_int_eq_self)
  then show "run_while d bound last_loop env = Inl ExceededIterations"
    using last_loop_goes_on [of "2 ^ 31 - 2"] by simp
qed

text \<open>Canonicalization turns a 64-bit splat constant into a \<open>ttir.full\<close> with a 32-bit fill value; a
  cast of it compares values of different widths.\<close>

lemma cast_of_full_asserts:
  "matchScalarIntConstant (Typecast (IntegerType Signless 32)
     (Full (RankedTensor [] (IntegerType Signless 64)) (IntFill (APInt 32 5)))) = Inl WidthMismatch"
  by code_simp

end
