(* ===== verification/MatmulConfig.thy ===== *)
theory MatmulConfig
  imports DeviceMaps LlvmMath
begin

text \<open>
  Program configurations of matmuls: \<open>lib/Dialect/TTNN/Analysis/MatmulProgramConfig.cpp\<close> and the
  rules that use them (\<open>OpRules/MatmulRules.cpp\<close>). Sizes are exact integers; \<open>llvm::divideCeil\<close>
  is the parameter \<open>lm\<close>. An assertion that fails is the error of the result.
\<close>

section \<open>Layouts and operations\<close>

datatype buffer_type = DRAM | L1 | SystemMemory | L1Small | Trace

datatype tensor_memory_layout = Interleaved | HeightSharded | WidthSharded | BlockSharded | NDSharded

record core_range =
  startCoord :: "nat \<times> nat"
  endCoord :: "nat \<times> nat"

record ttnn_layout =
  bufferType :: buffer_type
  memLayout :: "tensor_memory_layout option"
  coreRangeSet :: "core_range list option"
  shardShape :: "int list"
  tiled_type :: "data_type option"
  layoutGrid :: "int list"

datatype config_error =
    NoCoreRangeSet | NotTileAligned | CoresDoNotDivide
  | NoLayout | NotCollapsible | NotTiled | BadShardGrid | BadDeviceGrid | ShardsExceedGrid

definition isL1BufferType :: "buffer_type \<Rightarrow> bool" where
  "isL1BufferType b = (b = L1 \<or> b = L1Small)"

definition hasShardedL1TensorMemoryLayout :: "ttnn_layout \<Rightarrow> bool" where
  "hasShardedL1TensorMemoryLayout l =
     (isL1BufferType (bufferType l) \<and>
      (memLayout l = Some HeightSharded \<or> memLayout l = Some WidthSharded \<or> memLayout l = Some BlockSharded))"

definition getPhysicalGridDimensions :: "ttnn_layout \<Rightarrow> (config_error, int \<times> int) result" where
  "getPhysicalGridDimensions l =
     (case coreRangeSet l of
        None \<Rightarrow> Inl NoCoreRangeSet
      | Some ranges \<Rightarrow> Inr
          (fold (\<lambda>r m. max m (int (fst (endCoord r)) + 1)) ranges 0,
           fold (\<lambda>r m. max m (int (snd (endCoord r)) + 1)) ranges 0))"

record compute_config =
  dstFullSyncEn :: "bool option"
  fp32DestAccEn :: "bool option"

definition getMaxSubblockSize :: "compute_config option \<Rightarrow> int" where
  "getMaxSubblockSize computeConfig =
     (case computeConfig of
        None \<Rightarrow> 8
      | Some c \<Rightarrow>
          let m = (if dstFullSyncEn c = Some True then 8 * 2 else 8)
          in if fp32DestAccEn c = Some True then m sdiv 2 else m)"

text \<open>Whether a matmul, a linear or another operation; the shapes of its ranked operands and result.\<close>

datatype matmul_kind = MatmulOp | LinearOp | OtherKind

record matmul_op =
  mm_kind :: matmul_kind
  mm_result :: "int list option"
  mm_a :: "int list option"
  mm_b :: "int list option"
  mm_activation :: "string option"
  mm_compute :: "compute_config option"

section \<open>Multicast configurations\<close>

record program_config =
  gridSize :: "int \<times> int"
  in0BlockW :: int
  outSubblockH :: int
  outSubblockW :: int
  outBlockH :: int
  outBlockW :: int
  perCoreM :: int
  perCoreN :: int
  fuseBatch :: bool
  fusedActivation :: "nat option"

datatype matmul_config = Multicast1D (config_of: program_config) (mcastIn0: bool) | Multicast2D (config_of: program_config)

function divisor_loop :: "int \<Rightarrow> int \<Rightarrow> int" where
  "divisor_loop value d = (if 1 \<le> d then if value smod d = 0 then d else divisor_loop value (d - 1) else 1)"
  by pat_completeness auto

termination
  by (relation "measure (\<lambda>(value, d). nat d)") auto

declare divisor_loop.simps [simp del]

definition largestDivisorUpTo :: "int \<Rightarrow> int \<Rightarrow> int" where
  "largestDivisorUpTo value maxDivisor = divisor_loop value (min value maxDivisor)"

definition block_width_1d :: "bool \<Rightarrow> int \<Rightarrow> int \<Rightarrow> int" where
  "block_width_1d mcast Nt Kt =
     (if \<not> mcast then Kt
      else if Nt > 128 then (if Kt smod 2 = 0 then 2 else 1)
      else if Kt smod 8 = 0 then 8
      else if Kt smod 4 = 0 then 4
      else if Kt smod 2 = 0 then 2
      else 1)"

definition generateMatmul1DProgramConfig ::
  "llvm_math \<Rightarrow> int \<Rightarrow> int \<Rightarrow> int \<Rightarrow> ttnn_layout \<Rightarrow> tensor_memory_layout \<Rightarrow> nat option \<Rightarrow> int \<Rightarrow> bool \<Rightarrow>
   (config_error, matmul_config) result" where
  "generateMatmul1DProgramConfig lm Mt Nt Kt layout outputMemLayout activation maxSubblockSize fuse =
     (case getPhysicalGridDimensions layout of
        Inl e \<Rightarrow> Inl e
      | Inr (gridX, gridY) \<Rightarrow>
          let numCores = gridX * gridY;
              mcast = (outputMemLayout = WidthSharded);
              m = (if mcast then Mt else divideCeil lm Mt numCores);
              n = (if mcast then divideCeil lm Nt numCores else Nt)
          in Inr (Multicast1D
               \<lparr>gridSize = (gridX, gridY), in0BlockW = block_width_1d mcast Nt Kt, outSubblockH = 1,
                outSubblockW = largestDivisorUpTo n maxSubblockSize, outBlockH = m, outBlockW = n,
                perCoreM = m, perCoreN = n, fuseBatch = fuse, fusedActivation = activation\<rparr> mcast))"

definition generateMatmul2DProgramConfig ::
  "llvm_math \<Rightarrow> int \<Rightarrow> int \<Rightarrow> int \<Rightarrow> ttnn_layout \<Rightarrow> nat option \<Rightarrow> int \<Rightarrow> bool \<Rightarrow> (config_error, matmul_config) result" where
  "generateMatmul2DProgramConfig lm Mt Nt Kt layout activation maxSubblockSize fuse =
     (case getPhysicalGridDimensions layout of
        Inl e \<Rightarrow> Inl e
      | Inr (gridX, gridY) \<Rightarrow>
          let m = divideCeil lm Mt gridY; n = divideCeil lm Nt gridX
          in Inr (Multicast2D
               \<lparr>gridSize = (gridX, gridY), in0BlockW = (if Kt smod 2 = 0 then 2 else 1), outSubblockH = 1,
                outSubblockW = largestDivisorUpTo n maxSubblockSize, outBlockH = m, outBlockW = n,
                perCoreM = m, perCoreN = n, fuseBatch = fuse, fusedActivation = activation\<rparr>))"

text \<open>The name of an activation is looked up in a generated table, the parameter \<open>symbolize\<close>.\<close>

definition getActivationAttr :: "(string \<Rightarrow> nat option) \<Rightarrow> string option \<Rightarrow> nat option" where
  "getActivationAttr symbolize activation =
     (case activation of None \<Rightarrow> None | Some a \<Rightarrow> if a = [] then None else symbolize a)"

definition unit_batch :: "int list \<Rightarrow> bool" where
  "unit_batch sh = list_all (\<lambda>d. d = 1) (take (length sh - 2) sh)"

definition ranked :: "int list option \<Rightarrow> bool" where
  "ranked s = (case s of None \<Rightarrow> False | Some sh \<Rightarrow> 2 \<le> length sh)"

definition from_end :: "nat \<Rightarrow> int list option \<Rightarrow> int" where
  "from_end i s = the s ! (length (the s) - i)"

definition generateMatmulProgramConfig ::
  "llvm_math \<Rightarrow> (string \<Rightarrow> nat option) \<Rightarrow> matmul_op \<Rightarrow> ttnn_layout option \<Rightarrow> (config_error, matmul_config option) result" where
  "generateMatmulProgramConfig lm symbolize op layout =
     (case layout of
        None \<Rightarrow> Inr None
      | Some l \<Rightarrow>
          if \<not> hasShardedL1TensorMemoryLayout l then Inr None
          else if \<not> ranked (mm_result op) then Inr None
          else if mm_kind op = OtherKind then Inr None
          else if \<not> ranked (mm_a op) \<or> \<not> ranked (mm_b op) then Inr None
          else
            let Mt = divideCeil lm (from_end 2 (mm_result op)) 32;
                Nt = divideCeil lm (from_end 1 (mm_result op)) 32;
                Kt = divideCeil lm (from_end 1 (mm_a op)) 32;
                fuse = unit_batch (the (mm_b op));
                activation = getActivationAttr symbolize (mm_activation op);
                registers = getMaxSubblockSize (mm_compute op);
                one_dimensional = (\<lambda>ml. map_sum id Some
                  (generateMatmul1DProgramConfig lm Mt Nt Kt l ml activation registers fuse))
            in if \<not> fuse then Inr None
               else if memLayout l = Some BlockSharded then
                 (case getPhysicalGridDimensions l of
                    Inl e \<Rightarrow> Inl e
                  | Inr (gridX, gridY) \<Rightarrow>
                      if gridX > 1 \<and> gridY > 1
                      then map_sum id Some (generateMatmul2DProgramConfig lm Mt Nt Kt l activation registers fuse)
                      else one_dimensional (if gridY = 1 then WidthSharded else HeightSharded))
               else one_dimensional (the (memLayout l)))"

end
