(* ===== verification/DramShard.thy ===== *)
theory DramShard
  imports MatmulConfig AffineMaps
begin

text \<open>
  Matmuls whose weight is sharded over the DRAM banks: the geometry of the shards
  (\<open>MatmulProgramConfig.cpp\<close>), when a matmul is eligible, the layouts that are built for it
  (\<open>TTNNOpsAttrs.cpp\<close>), and the candidates and checks of its rule book (\<open>OpRules/MatmulRules.cpp\<close>). What the rules ask of the module, its device and the origin of
  the weight are fields of \<open>ds_context\<close>.
\<close>

section \<open>The geometry of the shards\<close>

record dram_shard_params =
  numBanks :: int
  kTiles :: int
  nTiles :: int
  perCoreNCompute :: int
  ds_in0BlockW :: int
  ds_perCoreM :: int
  perCoreNStorage :: int
  weightDataType :: data_type

definition tile_bytes :: "data_type \<Rightarrow> int" where
  "tile_bytes t = (case getTileSizeBytes t [32, 32] of None \<Rightarrow> 0 | Some b \<Rightarrow> int b)"

text \<open>The circular buffers of one block width: both operands are buffered more than once when there is
  more than one block.\<close>

definition block_buffers :: "int \<Rightarrow> int \<Rightarrow> int \<Rightarrow> data_type \<Rightarrow> int \<Rightarrow> int" where
  "block_buffers k m n t w =
     (let pipelined = k sdiv w > 1
      in w * m * tile_bytes BFloat16 * (if pipelined then 2 else 1) +
         w * n * tile_bytes t * (if pipelined then 3 else 1))"

function widest_block :: "(int \<Rightarrow> bool) \<Rightarrow> int \<Rightarrow> int \<Rightarrow> int" where
  "widest_block fitting kPerCore w =
     (if 1 \<le> w then
        if kPerCore smod w \<noteq> 0 then widest_block fitting kPerCore (w - 1)
        else if fitting w then w
        else widest_block fitting kPerCore (w - 1)
      else 0)"
  by pat_completeness auto

termination
  by (relation "measure (\<lambda>(fitting, kPerCore, w). nat w)") auto

declare widest_block.simps [simp del]

definition fixed_cost :: "int \<Rightarrow> int \<Rightarrow> int" where
  "fixed_cost m n = m * n * tile_bytes BFloat16 + m * n * tile_bytes Float32"

definition buffer_budget :: "llvm_math \<Rightarrow> int \<Rightarrow> int \<Rightarrow> int \<Rightarrow> int \<Rightarrow> int \<Rightarrow> int" where
  "buffer_budget lm m n kPerCore numIn0Cores l1Available =
     l1Available - m * kPerCore * tile_bytes BFloat16 - m * divideCeil lm n numIn0Cores * tile_bytes BFloat16"

definition computeShardParams ::
  "llvm_math \<Rightarrow> int \<Rightarrow> int \<Rightarrow> int \<Rightarrow> int \<Rightarrow> int \<Rightarrow> int \<Rightarrow> data_type \<Rightarrow> int \<Rightarrow>
   (config_error, dram_shard_params option) result" where
  "computeShardParams lm M K N banks numIn0Cores numOutCores t l1Available =
     (if \<not> (K smod 32 = 0 \<and> N smod 32 = 0) then Inl NotTileAligned
      else let k = K sdiv 32; n = N sdiv 32
      in if k smod numIn0Cores \<noteq> 0 then Inl CoresDoNotDivide
      else let kPerCore = k sdiv numIn0Cores;
               nCompute = divideCeil lm n banks;
               m = divideCeil lm M 32;
               cbBudget = buffer_budget lm m n kPerCore numIn0Cores l1Available;
               fixedCost = fixed_cost m nCompute
      in if fixedCost > cbBudget then Inr None
      else let w = widest_block (\<lambda>w. fixedCost + block_buffers k m nCompute t w \<le> cbBudget) kPerCore kPerCore
      in if w = 0 then Inr None
      else if w * 2 < kPerCore then Inr None
      else Inr (Some \<lparr>numBanks = banks, kTiles = k, nTiles = n, perCoreNCompute = nCompute, ds_in0BlockW = w,
              ds_perCoreM = m, perCoreNStorage = divideCeil lm n numOutCores, weightDataType = t\<rparr>))"

datatype math_fidelity = LoFi | HiFi2

record kernel_config =
  fidelity :: math_fidelity
  kc_fp32DestAccEn :: bool
  packerL1Acc :: bool

definition buildComputeConfig :: "data_type \<Rightarrow> kernel_config" where
  "buildComputeConfig t =
     \<lparr>fidelity = (if t = BFP_BFloat4 then LoFi else HiFi2), kc_fp32DestAccEn = False, packerL1Acc = True\<rparr>"

record dram_program_config =
  pc_in0BlockW :: int
  pc_perCoreM :: int
  pc_perCoreN :: int

definition buildDRAMShardedProgramConfig :: "dram_shard_params \<Rightarrow> dram_program_config" where
  "buildDRAMShardedProgramConfig p =
     \<lparr>pc_in0BlockW = ds_in0BlockW p, pc_perCoreM = ds_perCoreM p, pc_perCoreN = perCoreNStorage p\<rparr>"

section \<open>Eligibility\<close>

definition kNumIn0Cores :: int where
  "kNumIn0Cores = 8"

record ds_operand =
  op_shape :: "int list"
  op_layout :: "ttnn_layout option"
  constant_origin :: bool

record ds_op =
  ds_kind :: matmul_kind
  transposeA :: bool
  transposeB :: bool
  ds_bias :: bool
  ds_activation :: bool
  ds_a :: ds_operand
  ds_b :: ds_operand
  ds_out :: ds_operand

record ds_context =
  dram_sharding_enabled :: bool
  in_module :: bool
  has_system_desc :: bool
  dram_grid :: "int list option"
  worker_grid :: "int list"
  l1_available :: int

definition isWidthSharded :: "ttnn_layout \<Rightarrow> bool" where
  "isWidthSharded l = (memLayout l = Some WidthSharded)"

definition getNumDRAMBanks :: "int list option \<Rightarrow> int option" where
  "getNumDRAMBanks grid =
     (case grid of
        None \<Rightarrow> None
      | Some g \<Rightarrow> if length g \<noteq> 2 \<or> g ! 0 \<noteq> 1 \<or> g ! 1 < 1 then None else Some (g ! 1))"

definition isBfpDRAMInterleaved :: "ds_operand \<Rightarrow> bool" where
  "isBfpDRAMInterleaved weight =
     (case op_layout weight of
        None \<Rightarrow> False
      | Some l \<Rightarrow>
          (case tiled_type l of
             None \<Rightarrow> False
           | Some dt \<Rightarrow>
               if dt \<noteq> BFP_BFloat8 \<and> dt \<noteq> BFP_BFloat4 then False
               else bufferType l = DRAM \<and> memLayout l = Some Interleaved))"

definition isDSWeightShaped :: "int list \<Rightarrow> bool" where
  "isDSWeightShaped sh = (2 \<le> length sh \<and> list_all (\<lambda>d. d = 1) (take (length sh - 2) sh))"

definition getWeightKN :: "int list \<Rightarrow> int \<times> int" where
  "getWeightKN sh = (sh ! (length sh - 2), sh ! (length sh - 1))"

definition getActivationM :: "int list \<Rightarrow> int" where
  "getActivationM sh = fold (\<lambda>d m. m * d) (butlast sh) 1"

definition getMatmulOperands :: "ds_op \<Rightarrow> (ds_operand \<times> ds_operand) option" where
  "getMatmulOperands op =
     (case ds_kind op of
        MatmulOp \<Rightarrow> if transposeA op \<or> transposeB op then None else Some (ds_a op, ds_b op)
      | LinearOp \<Rightarrow> if ds_bias op \<or> transposeA op \<or> transposeB op then None else Some (ds_a op, ds_b op)
      | OtherKind \<Rightarrow> None)"

definition isDSEligible :: "llvm_math \<Rightarrow> ds_operand \<Rightarrow> ds_operand \<Rightarrow> bool" where
  "isDSEligible lm activation weight =
     (if \<not> isBfpDRAMInterleaved weight then False
      else if \<not> constant_origin weight then False
      else if \<not> isDSWeightShaped (op_shape weight) then False
      else let M = getActivationM (op_shape activation); (K, N) = getWeightKN (op_shape weight)
           in if K smod 32 \<noteq> 0 \<or> N smod 32 \<noteq> 0 then False
              else if (K sdiv 32) smod kNumIn0Cores \<noteq> 0 then False
              else divideCeil lm M 32 = 1)"

record ds_device =
  numDRAMBanks :: int
  numWorkerCores :: int
  l1Available :: int

definition getDSDeviceContext :: "ds_context \<Rightarrow> ds_device option" where
  "getDSDeviceContext ctx =
     (if \<not> in_module ctx then None
      else if \<not> has_system_desc ctx then None
      else (case getNumDRAMBanks (dram_grid ctx) of
              None \<Rightarrow> None
            | Some banks \<Rightarrow>
                Some \<lparr>numDRAMBanks = banks, numWorkerCores = volume (worker_grid ctx) 1, l1Available = l1_available ctx\<rparr>))"

definition buildDSPlan :: "llvm_math \<Rightarrow> ds_context \<Rightarrow> ds_op \<Rightarrow> (config_error, dram_shard_params option) result" where
  "buildDSPlan lm ctx op =
     (if \<not> dram_sharding_enabled ctx then Inr None
      else if ds_kind op \<noteq> OtherKind \<and> ds_activation op then Inr None
      else (case getMatmulOperands op of
              None \<Rightarrow> Inr None
            | Some (activation, weight) \<Rightarrow>
                if \<not> isDSEligible lm activation weight then Inr None
                else (case getDSDeviceContext ctx of
                        None \<Rightarrow> Inr None
                      | Some d \<Rightarrow>
                          let M = getActivationM (op_shape activation); (K, N) = getWeightKN (op_shape weight)
                          in computeShardParams lm M K N (numDRAMBanks d) kNumIn0Cores (numWorkerCores d)
                               (the (tiled_type (the (op_layout weight)))) (l1Available d))))"

section \<open>Building layouts\<close>

text \<open>The map that \<open>collapsedLinearAffineMap\<close> (\<open>TTCoreOpsTypes.cpp\<close>) collapses a shape with: the
  results of the minor identity are replaced interval by interval, dimensions below all intervals are
  kept, and results are added in front up to the rank of the grid. The map is returned before MLIR's
  last simplification, which keeps its values.\<close>

fun uses_dim :: "nat \<Rightarrow> affine_expr \<Rightarrow> bool" where
  "uses_dim d (DimE i) \<longleftrightarrow> i = d"
| "uses_dim d (BinE kind l r) \<longleftrightarrow> uses_dim d l \<or> uses_dim d r"
| "uses_dim d e \<longleftrightarrow> False"

definition collapse_step :: "affine_ops \<Rightarrow> int list \<Rightarrow> nat \<Rightarrow> affine_expr \<times> int \<Rightarrow> affine_expr \<times> int" where
  "collapse_step ops sh d st =
     (let (collapsed, multiplier) = st
      in (plusE ops (timesE ops (DimE d) (ConstE multiplier)) collapsed, multiplier * sh ! d))"

definition collapsed_dims :: "affine_ops \<Rightarrow> int list \<Rightarrow> nat \<Rightarrow> nat \<Rightarrow> affine_expr" where
  "collapsed_dims ops sh b e = fst (fold (collapse_step ops sh) (rev [b..<e]) (ConstE 0, 1))"

fun collapse_intervals ::
  "affine_ops \<Rightarrow> int list \<Rightarrow> (int \<times> int) list \<Rightarrow> int \<Rightarrow> affine_expr list \<Rightarrow> (int \<times> affine_expr list) option" where
  "collapse_intervals ops sh [] minimumDim es = Some (minimumDim, es)"
| "collapse_intervals ops sh ((b, e) # ivs) minimumDim es =
     (let b' = (if b < 0 then b + int (length sh) else b);
          e' = (if e < 0 then e + int (length sh) else e)
      in if b' \<ge> e' then collapse_intervals ops sh ivs minimumDim es
         else if b' < 0 \<or> e' > int (length sh) \<or> nat b' \<ge> length es then None
         else collapse_intervals ops sh ivs (min minimumDim b') (es[nat b' := collapsed_dims ops sh (nat b') (nat e')]))"

definition collapsedLinearAffineMap ::
  "affine_ops \<Rightarrow> int list \<Rightarrow> int list \<Rightarrow> (int \<times> int) list \<Rightarrow> affine_map option" where
  "collapsedLinearAffineMap ops sh grid intervals =
     (let rank = length sh;
          minor = map DimE [rank - min rank (length grid)..<rank];
          with_results = (\<lambda>es. Some \<lparr>numDims = rank, numSymbols = 0,
            results = replicate (length grid - length es) (ConstE 0) @ es\<rparr>)
      in if volume sh 1 = 0 then with_results minor
         else (case collapse_intervals ops sh intervals (int rank) minor of
                 None \<Rightarrow> None
               | Some (minimumDim, es) \<Rightarrow>
                   if nat minimumDim > length es then None
                   else let es' = map DimE [0..<nat minimumDim] @ drop (nat minimumDim) es
                        in if list_all (\<lambda>d. list_ex (uses_dim d) es') [0..<rank] then with_results es' else None))"

definition getTilePaddedShape :: "int list \<Rightarrow> int list" where
  "getTilePaddedShape sh =
     (let rank = length sh;
          padded = (if rank > 0 then sh[rank - 1 := alignUp (sh ! (rank - 1)) 32] else sh)
      in if rank > 1 then padded[rank - 2 := alignUp (sh ! (rank - 2)) 32] else padded)"

definition calculateLogicalShardShapeForSharding :: "int list \<Rightarrow> affine_map \<Rightarrow> int list \<Rightarrow> int list option" where
  "calculateLogicalShardShapeForSharding sh linear grid =
     (if length (results linear) \<noteq> length grid then None
      else Some (map2 (\<lambda>p g. (p + g - 1) sdiv g) (evalShape linear sh) grid))"

definition isShardedMemoryLayout :: "tensor_memory_layout \<Rightarrow> bool" where
  "isShardedMemoryLayout m = (m = HeightSharded \<or> m = WidthSharded \<or> m = BlockSharded)"

text \<open>Where shards are placed: row by row on the workers, or on the first banks.\<close>

definition core_box :: "int \<Rightarrow> int \<Rightarrow> int \<Rightarrow> int \<Rightarrow> core_range" where
  "core_box x y x' y' = \<lparr>startCoord = (nat x, nat y), endCoord = (nat x', nat y')\<rparr>"

definition buildRowMajorCoreRanges :: "int \<Rightarrow> int list \<Rightarrow> core_range list" where
  "buildRowMajorCoreRanges numCores grid =
     (let w = grid ! 1; fullRows = numCores sdiv w; tail = numCores smod w
      in (if fullRows > 0 then [core_box 0 0 (w - 1) (fullRows - 1)] else []) @
         (if tail > 0 then [core_box 0 fullRows (tail - 1) fullRows] else []))"

definition deriveCanonicalL1CoreRangeSet ::
  "tensor_memory_layout \<Rightarrow> int list \<Rightarrow> int list \<Rightarrow> (config_error, core_range list) result" where
  "deriveCanonicalL1CoreRangeSet ml grid workers =
     (if \<not> isShardedMemoryLayout ml \<or> length grid \<noteq> 2 then Inl BadShardGrid
      else if length workers \<noteq> 2 then Inl BadDeviceGrid
      else if ml = BlockSharded then
        (if grid ! 0 \<le> workers ! 0 \<and> grid ! 1 \<le> workers ! 1
         then Inr [core_box 0 0 (grid ! 1 - 1) (grid ! 0 - 1)] else Inl ShardsExceedGrid)
      else let i = (if ml = HeightSharded then 0 else 1)
           in if grid ! (1 - i) \<noteq> 1 then Inl BadShardGrid
              else if grid ! i > volume workers 1 then Inl ShardsExceedGrid
              else Inr (buildRowMajorCoreRanges (grid ! i) workers))"

definition deriveCanonicalDramCoreRangeSet ::
  "tensor_memory_layout \<Rightarrow> int list \<Rightarrow> int list option \<Rightarrow> (config_error, core_range list) result" where
  "deriveCanonicalDramCoreRangeSet ml grid banks =
     (case banks of
        None \<Rightarrow> Inl BadDeviceGrid
      | Some g \<Rightarrow>
          if ml \<noteq> HeightSharded \<and> ml \<noteq> WidthSharded then Inl BadShardGrid
          else if length g \<noteq> 2 \<or> g ! 0 \<noteq> 1 then Inl BadDeviceGrid
          else if volume grid 1 > volume g 1 then Inl ShardsExceedGrid
          else if volume grid 1 < 1 then Inl BadShardGrid
          else Inr [core_box 0 0 (volume grid 1 - 1) 0])"

text \<open>\<open>TTNNLayoutAttr::Builder\<close>: a change of the buffer, the memory layout or the grid drops the core
  ranges taken from the layout that it starts from.\<close>

record layout_builder =
  b_shape :: "int list"
  b_collapse :: "(int \<times> int) list"
  b_tiled :: "data_type option"
  b_buffer :: buffer_type
  b_memory :: "tensor_memory_layout option"
  b_grid :: "int list"
  b_ranges :: "core_range list option"

definition layout_builder_of :: "ttnn_layout \<Rightarrow> int list \<Rightarrow> layout_builder" where
  "layout_builder_of l sh =
     \<lparr>b_shape = sh, b_collapse = [(0, - 1)], b_tiled = tiled_type l, b_buffer = bufferType l, b_memory = memLayout l,
      b_grid = layoutGrid l, b_ranges = coreRangeSet l\<rparr>"

definition setBufferType :: "buffer_type \<Rightarrow> layout_builder \<Rightarrow> layout_builder" where
  "setBufferType t b = (if t = b_buffer b then b else b\<lparr>b_buffer := t, b_ranges := None\<rparr>)"

definition setMemoryLayout :: "tensor_memory_layout \<Rightarrow> layout_builder \<Rightarrow> layout_builder" where
  "setMemoryLayout ml b = (if Some ml = b_memory b then b else b\<lparr>b_memory := Some ml, b_ranges := None\<rparr>)"

definition setGridShape :: "int list \<Rightarrow> layout_builder \<Rightarrow> layout_builder" where
  "setGridShape g b = (if g = b_grid b then b else b\<lparr>b_grid := g, b_ranges := None\<rparr>)"

definition setCoreRangeSet :: "core_range list option \<Rightarrow> layout_builder \<Rightarrow> layout_builder" where
  "setCoreRangeSet rs b = b\<lparr>b_ranges := rs\<rparr>"

text \<open>\<open>build\<close> and \<open>deriveShardShape\<close> on the branches for sharded layouts, the only ones that the rule
  book builds.\<close>

definition build_sharded :: "affine_ops \<Rightarrow> layout_builder \<Rightarrow> (config_error, ttnn_layout) result" where
  "build_sharded ops b =
     (if b_grid b = [] then Inl BadShardGrid
      else if b_ranges b = None then Inl NoCoreRangeSet
      else let physicalShape = (if b_tiled b \<noteq> None then getTilePaddedShape (b_shape b) else b_shape b)
      in (case collapsedLinearAffineMap ops physicalShape (b_grid b) (b_collapse b) of
            None \<Rightarrow> Inl NotCollapsible
          | Some linear \<Rightarrow>
              (case calculateLogicalShardShapeForSharding physicalShape linear (b_grid b) of
                 None \<Rightarrow> Inl BadShardGrid
               | Some shard \<Rightarrow>
                   (case (if b_tiled b \<noteq> None then getTiledShape 32 32 shard else Some shard) of
                      None \<Rightarrow> Inl NotTiled
                    | Some memref \<Rightarrow> Inr \<lparr>bufferType = b_buffer b, memLayout = b_memory b, coreRangeSet = b_ranges b,
                        shardShape = memref, tiled_type = b_tiled b, layoutGrid = b_grid b\<rparr>))))"

definition buildWithCanonicalCorePlacement ::
  "affine_ops \<Rightarrow> ds_context \<Rightarrow> layout_builder \<Rightarrow> (config_error, ttnn_layout) result" where
  "buildWithCanonicalCorePlacement ops ctx b =
     (let ranges =
        (case b_memory b of
           None \<Rightarrow> Inr (b_ranges b)
         | Some ml \<Rightarrow>
             if b_ranges b \<noteq> None \<or> \<not> isShardedMemoryLayout ml then Inr (b_ranges b)
             else if b_buffer b = DRAM then map_sum id Some (deriveCanonicalDramCoreRangeSet ml (b_grid b) (dram_grid ctx))
             else if isL1BufferType (b_buffer b) then map_sum id Some (deriveCanonicalL1CoreRangeSet ml (b_grid b) (worker_grid ctx))
             else Inr None)
      in case ranges of Inl e \<Rightarrow> Inl e | Inr rs \<Rightarrow> build_sharded ops (b\<lparr>b_ranges := rs\<rparr>))"

definition buildWidthShardedLayout ::
  "affine_ops \<Rightarrow> ds_context \<Rightarrow> ttnn_layout \<Rightarrow> int list \<Rightarrow> buffer_type \<Rightarrow> int \<Rightarrow> (config_error, ttnn_layout) result" where
  "buildWidthShardedLayout ops ctx origLayout tensorShape buffer numCores =
     buildWithCanonicalCorePlacement ops ctx
       (setCoreRangeSet None (setGridShape [1, numCores] (setMemoryLayout WidthSharded
         (setBufferType buffer (layout_builder_of origLayout tensorShape)))))"

section \<open>Candidates\<close>

definition numOutputCores :: "llvm_math \<Rightarrow> dram_shard_params \<Rightarrow> int" where
  "numOutputCores lm p = divideCeil lm (nTiles p) (perCoreNStorage p)"

datatype matmul_program_config = MulticastConfig matmul_config | DRAMSharded dram_program_config

text \<open>A candidate: the output layout (one with no layout is left to the backend) and the configurations.\<close>

record op_config =
  outputLayout :: "ttnn_layout option"
  programConfig :: "matmul_program_config option"
  kernelConfig :: "kernel_config option"

text \<open>The hint: the output is width-sharded in L1 over as many cores as its shards need. The builder keeps
  the core ranges of the output's own layout when that is already sharded this way.\<close>

definition hint_of ::
  "llvm_math \<Rightarrow> affine_ops \<Rightarrow> ds_context \<Rightarrow> ds_op \<Rightarrow> dram_shard_params \<Rightarrow> (config_error, op_config) result" where
  "hint_of lm ops ctx op p =
     (case op_layout (ds_out op) of
        None \<Rightarrow> Inl NoLayout
      | Some l \<Rightarrow> map_sum id
          (\<lambda>l1OutLayout. \<lparr>outputLayout = Some l1OutLayout,
             programConfig = Some (DRAMSharded (buildDRAMShardedProgramConfig p)),
             kernelConfig = Some (buildComputeConfig (weightDataType p))\<rparr>)
          (buildWithCanonicalCorePlacement ops ctx
             (setGridShape [1, numOutputCores lm p] (setMemoryLayout WidthSharded
               (setBufferType L1 (layout_builder_of l (op_shape (ds_out op))))))))"

definition buildDRAMShardingHint ::
  "llvm_math \<Rightarrow> affine_ops \<Rightarrow> ds_context \<Rightarrow> ds_op \<Rightarrow> (config_error, op_config option) result" where
  "buildDRAMShardingHint lm ops ctx op =
     (case buildDSPlan lm ctx op of
        Inl e \<Rightarrow> Inl e
      | Inr None \<Rightarrow> Inr None
      | Inr (Some p) \<Rightarrow> map_sum id Some (hint_of lm ops ctx op p))"

text \<open>The layouts to which the optimizer may also reshard an operand: the canonical ones of the plan.\<close>

definition getExtraInputReshardCandidates ::
  "llvm_math \<Rightarrow> affine_ops \<Rightarrow> ds_context \<Rightarrow> ds_op \<Rightarrow> nat \<Rightarrow> (config_error, ttnn_layout list) result" where
  "getExtraInputReshardCandidates lm ops ctx op operandIdx =
     (case buildDSPlan lm ctx op of
        Inl e \<Rightarrow> Inl e
      | Inr None \<Rightarrow> Inr []
      | Inr (Some p) \<Rightarrow>
          let candidate = (\<lambda>operand buffer cores.
            (case op_layout operand of
               None \<Rightarrow> Inl NoLayout
             | Some l \<Rightarrow> map_sum id (\<lambda>c. [c]) (buildWidthShardedLayout ops ctx l (op_shape operand) buffer cores)))
          in if operandIdx = 0 then candidate (ds_a op) L1 kNumIn0Cores
             else if operandIdx = 1 then candidate (ds_b op) DRAM (numBanks p)
             else Inr [])"

definition isL1Interleaved :: "op_config \<Rightarrow> bool" where
  "isL1Interleaved c =
     (case outputLayout c of
        None \<Rightarrow> False | Some l \<Rightarrow> bufferType l = L1 \<and> memLayout l = Some Interleaved)"

definition isSharded :: "op_config \<Rightarrow> bool" where
  "isSharded c =
     (case outputLayout c of
        None \<Rightarrow> False
      | Some l \<Rightarrow> (case memLayout l of None \<Rightarrow> False | Some m \<Rightarrow> isShardedMemoryLayout m))"

definition hasMatmulProgramConfig :: "op_config \<Rightarrow> bool" where
  "hasMatmulProgramConfig c = (programConfig c \<noteq> None)"

definition getOutputHints :: "op_config option \<Rightarrow> op_config list \<Rightarrow> op_config list" where
  "getOutputHints dramHint partialConfigs =
     (let filtered = filter (\<lambda>c. \<not> isL1Interleaved c \<and> \<not> (isSharded c \<and> \<not> hasMatmulProgramConfig c)) partialConfigs
      in case dramHint of None \<Rightarrow> filtered | Some h \<Rightarrow> h # filtered)"

definition acceptWeightLayout :: "ttnn_layout \<Rightarrow> bool" where
  "acceptWeightLayout l =
     (\<not> (case memLayout l of None \<Rightarrow> False | Some m \<Rightarrow> isShardedMemoryLayout m) \<or>
      (\<not> isL1BufferType (bufferType l) \<and> isWidthSharded l))"

definition dsIn0CompatibleWithConfig :: "ttnn_layout \<Rightarrow> ttnn_layout \<Rightarrow> dram_program_config \<Rightarrow> bool" where
  "dsIn0CompatibleWithConfig in0 in1 cfg =
     (if length (shardShape in0) \<noteq> 2 \<or> length (shardShape in1) \<noteq> 2 then False
      else let perCoreK = shardShape in0 ! 1; k = shardShape in1 ! 0; w = pc_in0BlockW cfg
           in perCoreK \<noteq> 0 \<and> w \<noteq> 0 \<and> k smod perCoreK = 0 \<and> perCoreK smod w = 0)"

definition isValidOutputHintForInputs :: "op_config \<Rightarrow> ttnn_layout option list \<Rightarrow> bool" where
  "isValidOutputHintForInputs hint inputLayouts =
     (case programConfig hint of
        Some (DRAMSharded cfg) \<Rightarrow>
          if length inputLayouts < 2 \<or> inputLayouts ! 0 = None \<or> inputLayouts ! 1 = None then False
          else let in0 = the (inputLayouts ! 0); in1 = the (inputLayouts ! 1)
               in if \<not> isL1BufferType (bufferType in0) \<or> \<not> isWidthSharded in0 then False
                  else if isL1BufferType (bufferType in1) \<or> \<not> isWidthSharded in1 then False
                  else dsIn0CompatibleWithConfig in0 in1 cfg
      | _ \<Rightarrow> True)"

end
