(* ===== verification/MatmulProps.thy ===== *)
theory MatmulProps
  imports MatmulConfig
begin

text \<open>
  Multicast configurations of matmuls: every one that is generated meets the constraints of the kernel
  and its cores cover the output.
\<close>

section \<open>Divisors\<close>

lemma divisor_loop_greatest:
  assumes "1 \<le> n" "d \<le> n"
  shows "1 \<le> divisor_loop n d \<and> divisor_loop n d dvd n \<and> divisor_loop n d \<le> max 1 d \<and>
    (\<forall>e. 1 \<le> e \<longrightarrow> e \<le> d \<longrightarrow> e dvd n \<longrightarrow> e \<le> divisor_loop n d)"
  using assms
proof (induction n d rule: divisor_loop.induct)
  case (1 n d)
  show ?case
  proof (cases "1 \<le> d")
    case False
    then show ?thesis by (simp add: divisor_loop.simps)
  next
    case True
    then have m: "n smod d = n mod d" using 1 by (simp add: signed_modulo_int_def)
    show ?thesis
    proof (cases "n mod d = 0")
      case True
      then show ?thesis using m \<open>1 \<le> d\<close> by (simp add: divisor_loop.simps dvd_eq_mod_eq_0)
    next
      case False
      then have eq: "divisor_loop n d = divisor_loop n (d - 1)"
        using m \<open>1 \<le> d\<close> by (simp add: divisor_loop.simps)
      have ih: "1 \<le> divisor_loop n (d - 1) \<and> divisor_loop n (d - 1) dvd n \<and>
          divisor_loop n (d - 1) \<le> max 1 (d - 1) \<and>
          (\<forall>e. 1 \<le> e \<longrightarrow> e \<le> d - 1 \<longrightarrow> e dvd n \<longrightarrow> e \<le> divisor_loop n (d - 1))"
        using 1 m False \<open>1 \<le> d\<close> by auto
      have "e \<noteq> d" if "e dvd n" for e using that False by (auto simp: dvd_eq_mod_eq_0)
      then have "e \<le> d - 1" if "e dvd n" "e \<le> d" for e using that by fastforce
      moreover have "max 1 (d - 1) \<le> max 1 d" by simp
      ultimately show ?thesis unfolding eq using ih by (meson order_trans)
    qed
  qed
qed

lemma largestDivisorUpTo_greatest:
  assumes "1 \<le> n" "1 \<le> bound"
  shows "1 \<le> largestDivisorUpTo n bound" "largestDivisorUpTo n bound dvd n"
    "largestDivisorUpTo n bound \<le> bound"
    "1 \<le> e \<Longrightarrow> e dvd n \<Longrightarrow> e \<le> bound \<Longrightarrow> e \<le> largestDivisorUpTo n bound"
  using divisor_loop_greatest [of "n" "min n bound"] assms zdvd_imp_le [of e "n"]
  by (auto simp: largestDivisorUpTo_def)

lemma registers_positive: "1 \<le> getMaxSubblockSize c" "getMaxSubblockSize c \<le> 16"
  by (auto simp: getMaxSubblockSize_def Let_def signed_divide_int_def split: option.splits)

text \<open>The constraints of the matmul kernel, from the comment above the generators, except those on the size
  of L1, which the comment says can be exceeded: nothing is zero, blocks divide what they split, and a
  subblock fits the destination registers.\<close>

definition config_legal :: "int \<Rightarrow> int \<Rightarrow> program_config \<Rightarrow> bool" where
  "config_legal Kt registers c =
     (in0BlockW c > 0 \<and> outSubblockH c > 0 \<and> outSubblockW c > 0 \<and> outBlockH c > 0 \<and> outBlockW c > 0 \<and>
      perCoreM c > 0 \<and> perCoreN c > 0 \<and>
      Kt mod in0BlockW c = 0 \<and> perCoreM c mod outSubblockH c = 0 \<and> perCoreN c mod outSubblockW c = 0 \<and>
      perCoreM c mod outBlockH c = 0 \<and> perCoreN c mod outBlockW c = 0 \<and>
      outBlockH c mod outSubblockH c = 0 \<and> outBlockW c mod outSubblockW c = 0 \<and>
      outSubblockW c * outSubblockH c \<le> registers)"

text \<open>\<open>parts\<close> cores take \<open>n\<close> tiles in pieces of \<open>piece\<close>: all of them, and no smaller piece would do.\<close>

definition pieces_cover :: "int \<Rightarrow> int \<Rightarrow> int \<Rightarrow> bool" where
  "pieces_cover parts piece n = (n \<le> parts * piece \<and> parts * (piece - 1) < n)"

definition config_covers :: "int \<Rightarrow> int \<Rightarrow> matmul_config \<Rightarrow> bool" where
  "config_covers Mt Nt c =
     (let p = config_of c; (x, y) = gridSize p
      in case c of
           Multicast1D _ mcast \<Rightarrow>
             (if mcast then perCoreM p = Mt \<and> pieces_cover (x * y) (perCoreN p) Nt
              else perCoreN p = Nt \<and> pieces_cover (x * y) (perCoreM p) Mt)
         | Multicast2D _ \<Rightarrow> 1 < x \<and> 1 < y \<and> pieces_cover y (perCoreM p) Mt \<and> pieces_cover x (perCoreN p) Nt)"

lemma pieces_cover_divideCeil:
  "legal_llvm_math lm \<Longrightarrow> 0 < n \<Longrightarrow> 0 < parts \<Longrightarrow> pieces_cover parts (divideCeil lm n parts) n"
  using divideCeil_covers [of lm n parts] by (simp add: pieces_cover_def mult.commute)

lemma block_width_1d_divides:
  assumes "0 < Kt"
  shows "0 < block_width_1d mcast Nt Kt" "Kt mod block_width_1d mcast Nt Kt = 0"
  using assms by (auto simp: block_width_1d_def signed_modulo_int_def)

lemma grid_fold_positive: "rs \<noteq> [] \<Longrightarrow> 0 < fold (\<lambda>r m. max m (int (f r) + 1)) rs (a :: int)"
proof (induction rs arbitrary: a)
  case (Cons r rs)
  have mono: "b \<le> fold (\<lambda>r m. max m (int (f r) + 1)) rs b" for b :: int
    by (induction rs arbitrary: b) (auto intro: order_trans [OF max.cobounded1])
  have "0 < max a (int (f r) + 1)" by simp
  then show ?case using mono [of "max a (int (f r) + 1)"] by simp
qed simp

lemma getPhysicalGridDimensions_positive:
  assumes "getPhysicalGridDimensions l = Inr (x, y)" "coreRangeSet l \<noteq> Some []"
  shows "0 < x" "0 < y"
  using assms grid_fold_positive by (auto simp: getPhysicalGridDimensions_def split: option.splits)

lemma config_1d_legal:
  assumes lm: "legal_llvm_math lm" and pos: "0 < Mt" "0 < Nt" "0 < Kt" "1 \<le> registers"
    and ne: "coreRangeSet l \<noteq> Some []"
    and g: "generateMatmul1DProgramConfig lm Mt Nt Kt l ml act registers fuse = Inr c"
  shows "config_legal Kt registers (config_of c) \<and> config_covers Mt Nt c \<and> fuseBatch (config_of c) = fuse \<and>
    mcastIn0 c = (ml = WidthSharded)"
proof -
  obtain x y where grid: "getPhysicalGridDimensions l = Inr (x, y)"
    using g by (auto simp: generateMatmul1DProgramConfig_def split: sum.splits)
  note p = getPhysicalGridDimensions_positive [OF grid ne]
  then have xy: "0 < x * y" by simp
  let ?m = "ml = WidthSharded"
  let ?M = "if ?m then Mt else divideCeil lm Mt (x * y)" and ?N = "if ?m then divideCeil lm Nt (x * y) else Nt"
  have MN: "0 < ?M" "0 < ?N" using pos divideCeil_covers(3) [OF lm _ xy] by auto
  have cov: "pieces_cover (x * y) (divideCeil lm Mt (x * y)) Mt" "pieces_cover (x * y) (divideCeil lm Nt (x * y)) Nt"
    using pieces_cover_divideCeil [OF lm _ xy] pos by auto
  have d: "1 \<le> largestDivisorUpTo ?N registers" "largestDivisorUpTo ?N registers dvd ?N" "largestDivisorUpTo ?N registers \<le> registers"
    using largestDivisorUpTo_greatest [of ?N registers] MN pos(4) by auto
  have c: "c = Multicast1D \<lparr>gridSize = (x, y), in0BlockW = block_width_1d ?m Nt Kt, outSubblockH = 1,
      outSubblockW = largestDivisorUpTo ?N registers, outBlockH = ?M, outBlockW = ?N, perCoreM = ?M, perCoreN = ?N,
      fuseBatch = fuse, fusedActivation = act\<rparr> ?m"
    using g grid by (simp add: generateMatmul1DProgramConfig_def Let_def)
  have "config_legal Kt registers (config_of c)"
    unfolding c config_legal_def using MN d block_width_1d_divides [OF pos(3)]
    by (simp add: dvd_eq_mod_eq_0 del: if_split)
  moreover have "config_covers Mt Nt c" unfolding c config_covers_def using cov by simp
  ultimately show ?thesis unfolding c by simp
qed

lemma config_2d_legal:
  assumes lm: "legal_llvm_math lm" and pos: "0 < Mt" "0 < Nt" "0 < Kt" "1 \<le> registers"
    and grid: "getPhysicalGridDimensions l = Inr (x, y)" "1 < x" "1 < y"
    and g: "generateMatmul2DProgramConfig lm Mt Nt Kt l act registers fuse = Inr c"
  shows "config_legal Kt registers (config_of c) \<and> config_covers Mt Nt c \<and> fuseBatch (config_of c) = fuse"
proof -
  let ?M = "divideCeil lm Mt y" and ?N = "divideCeil lm Nt x"
  have MN: "0 < ?M" "0 < ?N" using pos grid divideCeil_covers(3) [OF lm] by auto
  have cov: "pieces_cover y ?M Mt" "pieces_cover x ?N Nt" using pieces_cover_divideCeil [OF lm] pos grid by auto
  have d: "1 \<le> largestDivisorUpTo ?N registers" "largestDivisorUpTo ?N registers dvd ?N" "largestDivisorUpTo ?N registers \<le> registers"
    using largestDivisorUpTo_greatest [of ?N registers] MN pos(4) by auto
  have c: "c = Multicast2D \<lparr>gridSize = (x, y), in0BlockW = (if Kt smod 2 = 0 then 2 else 1), outSubblockH = 1,
      outSubblockW = largestDivisorUpTo ?N registers, outBlockH = ?M, outBlockW = ?N, perCoreM = ?M, perCoreN = ?N,
      fuseBatch = fuse, fusedActivation = act\<rparr>"
    using g grid by (simp add: generateMatmul2DProgramConfig_def Let_def)
  have "config_legal Kt registers (config_of c)"
    unfolding c config_legal_def using MN d pos(3) by (auto simp: dvd_eq_mod_eq_0 signed_modulo_int_def)
  moreover have "config_covers Mt Nt c" unfolding c config_covers_def using cov grid by simp
  ultimately show ?thesis unfolding c by simp
qed

section \<open>The generator\<close>

definition configurable :: "matmul_op \<Rightarrow> ttnn_layout \<Rightarrow> bool" where
  "configurable op l \<longleftrightarrow>
     hasShardedL1TensorMemoryLayout l \<and> ranked (mm_result op) \<and> mm_kind op \<noteq> OtherKind \<and>
     ranked (mm_a op) \<and> ranked (mm_b op) \<and> unit_batch (the (mm_b op))"

lemma generators_succeed:
  assumes "getPhysicalGridDimensions l = Inr (x, y)"
  shows "\<exists>c. generateMatmul1DProgramConfig lm Mt Nt Kt l ml act registers fuse = Inr c"
    and "\<exists>c. generateMatmul2DProgramConfig lm Mt Nt Kt l act registers fuse = Inr c"
  using assms by (simp_all add: generateMatmul1DProgramConfig_def generateMatmul2DProgramConfig_def Let_def)

lemma generated_cases:
  assumes grid: "getPhysicalGridDimensions l = Inr (x, y)" and ok: "configurable op l"
    and M: "Mt = divideCeil lm (from_end 2 (mm_result op)) 32" and N: "Nt = divideCeil lm (from_end 1 (mm_result op)) 32"
    and K: "Kt = divideCeil lm (from_end 1 (mm_a op)) 32" and R: "registers = getMaxSubblockSize (mm_compute op)"
  obtains c act where "generateMatmulProgramConfig lm symbolize op (Some l) = Inr (Some c)"
    "(1 < x \<and> 1 < y \<and> generateMatmul2DProgramConfig lm Mt Nt Kt l act registers True = Inr c) \<or>
     (\<exists>ml. generateMatmul1DProgramConfig lm Mt Nt Kt l ml act registers True = Inr c)"
proof -
  let ?act = "getActivationAttr symbolize (mm_activation op)"
  have some: "\<exists>ml. memLayout l = Some ml"
    using ok by (auto simp: configurable_def hasShardedL1TensorMemoryLayout_def)
  have e: "generateMatmulProgramConfig lm symbolize op (Some l) =
    (if memLayout l = Some BlockSharded
     then if x > 1 \<and> y > 1
       then map_sum id Some (generateMatmul2DProgramConfig lm Mt Nt Kt l ?act registers True)
       else map_sum id Some (generateMatmul1DProgramConfig lm Mt Nt Kt l (if y = 1 then WidthSharded else HeightSharded) ?act registers True)
     else map_sum id Some (generateMatmul1DProgramConfig lm Mt Nt Kt l (the (memLayout l)) ?act registers True))"
    using ok grid by (simp add: generateMatmulProgramConfig_def configurable_def Let_def M N K R)
  consider (two) "memLayout l = Some BlockSharded" "x > 1" "y > 1" | (degenerate) "memLayout l = Some BlockSharded" "\<not> (x > 1 \<and> y > 1)"
    | (one) "memLayout l \<noteq> Some BlockSharded" by blast
  then show thesis
  proof cases
    case two
    obtain c where "generateMatmul2DProgramConfig lm Mt Nt Kt l ?act registers True = Inr c"
      using generators_succeed(2) [OF grid] by blast
    then show thesis using that [of c ?act] e two by simp
  next
    case degenerate
    obtain c where "generateMatmul1DProgramConfig lm Mt Nt Kt l (if y = 1 then WidthSharded else HeightSharded) ?act registers True = Inr c"
      using generators_succeed(1) [OF grid] by blast
    then show thesis using that [of c ?act] e degenerate by (auto split: if_splits)
  next
    case one
    obtain c where "generateMatmul1DProgramConfig lm Mt Nt Kt l (the (memLayout l)) ?act registers True = Inr c"
      using generators_succeed(1) [OF grid] by blast
    then show thesis using that [of c ?act] e one by auto
  qed
qed

lemma not_configurable:
  assumes "getPhysicalGridDimensions l = Inr (x, y)" "\<not> configurable op l"
  shows "generateMatmulProgramConfig lm symbolize op (Some l) = Inr None"
  using assms by (auto simp: generateMatmulProgramConfig_def configurable_def Let_def)

text \<open>The tile rows of an output, those of every matrix of its batch.\<close>

definition output_tile_rows :: "llvm_math \<Rightarrow> int list \<Rightarrow> int" where
  "output_tile_rows lm sh = prod_list (take (length sh - 2) sh) * divideCeil lm (sh ! (length sh - 2)) 32"

lemma unbatched_rows: "unit_batch sh \<Longrightarrow> output_tile_rows lm sh = divideCeil lm (sh ! (length sh - 2)) 32"
proof -
  have "list_all (\<lambda>d. d = 1) us \<Longrightarrow> prod_list us = (1 :: int)" for us by (induction us) simp_all
  then show "unit_batch sh \<Longrightarrow> output_tile_rows lm sh = divideCeil lm (sh ! (length sh - 2)) 32"
    by (simp add: unit_batch_def output_tile_rows_def)
qed

definition config_promise :: "llvm_math \<Rightarrow> matmul_op \<Rightarrow> matmul_config \<Rightarrow> bool" where
  "config_promise lm op c =
     (let registers = getMaxSubblockSize (mm_compute op)
      in registers \<le> 16 \<and> fuseBatch (config_of c) \<and>
         config_legal (divideCeil lm (from_end 1 (mm_a op)) 32) registers (config_of c) \<and>
         config_covers (divideCeil lm (from_end 2 (mm_result op)) 32) (divideCeil lm (from_end 1 (mm_result op)) 32) c \<and>
         (unit_batch (the (mm_result op)) \<longrightarrow>
            config_covers (output_tile_rows lm (the (mm_result op))) (divideCeil lm (from_end 1 (mm_result op)) 32) c))"

text \<open>C15: A program configuration is generated exactly for a matmul or a linear of ranked operands whose
  second operand is not batched and whose output is sharded in L1 on a core range; it then meets the constraints that are
  stated for the kernel, those on the size of L1 aside (nothing is zero, blocks divide what they split, the output
  subblock fits the registers that the compute configuration leaves, at most 16 tiles), and the cores of the
  grid cover the tiles of the last two dimensions of the output with the smallest piece per core: the whole
  output, if it is not batched.\<close>

theorem matmul_config_legal:
  assumes lm: "legal_llvm_math lm" and rs: "coreRangeSet l = Some rs" "rs \<noteq> []"
    and pos: "0 < from_end 2 (mm_result op)" "0 < from_end 1 (mm_result op)" "0 < from_end 1 (mm_a op)"
  shows "\<exists>r. generateMatmulProgramConfig lm symbolize op (Some l) = Inr r \<and> (r \<noteq> None \<longleftrightarrow> configurable op l) \<and>
    (\<forall>c. r = Some c \<longrightarrow> config_promise lm op c)"
proof -
  obtain x y where grid: "getPhysicalGridDimensions l = Inr (x, y)" using rs by (simp add: getPhysicalGridDimensions_def)
  have ne: "coreRangeSet l \<noteq> Some []" using rs by simp
  have t: "0 < divideCeil lm (from_end 2 (mm_result op)) 32" "0 < divideCeil lm (from_end 1 (mm_result op)) 32"
    "0 < divideCeil lm (from_end 1 (mm_a op)) 32"
    using pos divideCeil_covers(3) [OF lm] by simp_all
  note r = registers_positive [of "mm_compute op"]
  show ?thesis
  proof (cases "configurable op l")
    case True
    obtain c where c: "generateMatmulProgramConfig lm symbolize op (Some l) = Inr (Some c)" and p: "config_promise lm op c"
      using generated_cases [OF grid True refl refl refl refl] config_2d_legal [OF lm t r(1) grid] config_1d_legal [OF lm t r(1) ne] r(2)
      unfolding config_promise_def Let_def from_end_def by (metis unbatched_rows)
    then show ?thesis using True by auto
  qed (use not_configurable [OF grid] in auto)
qed

section \<open>Witnesses\<close>

definition block_layout :: ttnn_layout where
  "block_layout = \<lparr>bufferType = L1, memLayout = Some BlockSharded,
     coreRangeSet = Some [\<lparr>startCoord = (0, 0), endCoord = (6, 4)\<rparr>], shardShape = [3, 3], tiled_type = Some BFloat16, layoutGrid = [5, 7]\<rparr>"

definition projection :: matmul_op where
  "projection = \<lparr>mm_kind = MatmulOp, mm_result = Some [1, 400, 650], mm_a = Some [1, 400, 96], mm_b = Some [96, 650],
     mm_activation = Some ''relu'', mm_compute = Some \<lparr>dstFullSyncEn = None, fp32DestAccEn = Some True\<rparr>\<rparr>"

theorem matmul_config_legal_witness:
  "\<exists>c. generateMatmulProgramConfig exact_math (\<lambda>s. Some (length s)) projection (Some block_layout) = Inr (Some c) \<and>
    config_promise exact_math projection c"
proof -
  have p: "0 < from_end 2 (mm_result projection)" "0 < from_end 1 (mm_result projection)" "0 < from_end 1 (mm_a projection)"
    and rs: "coreRangeSet block_layout = Some [\<lparr>startCoord = (0, 0), endCoord = (6, 4)\<rparr>]"
    and ok: "configurable projection block_layout"
    by code_simp+
  from matmul_config_legal [OF exact_math_legal rs _ p, of "\<lambda>s. Some (length s)"] ok show ?thesis by auto
qed

text \<open>The batch is fused into the rows, but the rows of a core are counted for one matrix: 5 by 7 cores with
  two tile rows each are not enough for a batch of 4 matrices of 10 tile rows.\<close>

definition batched_projection :: matmul_op where
  "batched_projection = projection\<lparr>mm_result := Some [4, 320, 640], mm_a := Some [4, 320, 768]\<rparr>"

theorem fused_batch_not_covered:
  "\<exists>c. generateMatmulProgramConfig exact_math (\<lambda>s. Some (length s)) batched_projection (Some block_layout) = Inr (Some c) \<and>
    fuseBatch (config_of c) \<and> snd (gridSize (config_of c)) * perCoreM (config_of c) <
      output_tile_rows exact_math (the (mm_result batched_projection))"
proof -
  have "map_sum id (map_option (\<lambda>c. (fuseBatch (config_of c), snd (gridSize (config_of c)) * perCoreM (config_of c))))
      (generateMatmulProgramConfig exact_math (\<lambda>s. Some (length s)) batched_projection (Some block_layout)) = Inr (Some (True, 10))"
    and "output_tile_rows exact_math (the (mm_result batched_projection)) = 40" by code_simp+
  then show ?thesis by (cases "generateMatmulProgramConfig exact_math (\<lambda>s. Some (length s)) batched_projection (Some block_layout)") auto
qed

end
