(* ===== verification/DramProps.thy ===== *)
theory DramProps
  imports DramShard MatmulProps
begin

text \<open>
  Matmuls over DRAM-sharded weights: the block width that the geometry takes is the widest one that
  fits, and a plan satisfies what the kernel and the rule book check.
\<close>

section \<open>The geometry of the shards\<close>

definition widest_of :: "(int \<Rightarrow> bool) \<Rightarrow> int \<Rightarrow> int \<Rightarrow> int \<Rightarrow> bool" where
  "widest_of fitting k w r \<longleftrightarrow>
     (\<forall>e. 1 \<le> e \<longrightarrow> e \<le> w \<longrightarrow> e dvd k \<longrightarrow> fitting e \<longrightarrow> e \<le> r \<and> r \<noteq> 0) \<and>
     (r \<noteq> 0 \<longrightarrow> 1 \<le> r \<and> r \<le> w \<and> r dvd k \<and> fitting r)"

lemma widest_of_skip:
  assumes "widest_of fitting k (w - 1) r" "\<not> (w dvd k \<and> fitting w)"
  shows "widest_of fitting k w r"
proof -
  have "e \<le> w - 1" if "e \<le> w" "e dvd k" "fitting e" for e using that assms(2) by (cases "e = w") auto
  moreover have "r \<le> w" if "r \<le> w - 1" using that by simp
  ultimately show ?thesis using assms(1) unfolding widest_of_def by metis
qed

lemma widest_block_greatest:
  assumes "w \<le> k"
  shows "widest_of fitting k w (widest_block fitting k w)"
  using assms
proof (induction fitting k w rule: widest_block.induct)
  case (1 fitting k w)
  have m: "k smod w = 0 \<longleftrightarrow> w dvd k" if "1 \<le> w" using that 1(3) by (simp add: signed_modulo_int_def dvd_eq_mod_eq_0)
  consider (stop) "\<not> 1 \<le> w" | (found) "1 \<le> w" "w dvd k" "fitting w" | (skip) "1 \<le> w" "\<not> (w dvd k \<and> fitting w)" by blast
  then show ?case
  proof cases
    case stop
    then show ?thesis by (simp add: widest_block.simps [of fitting k w] widest_of_def)
  next
    case found
    then show ?thesis using m by (simp add: widest_block.simps [of fitting k w] widest_of_def)
  next
    case skip
    then have "widest_block fitting k w = widest_block fitting k (w - 1)" using m by (auto simp: widest_block.simps [of fitting k w])
    moreover have "widest_of fitting k (w - 1) (widest_block fitting k (w - 1))"
      using 1(1) 1(2) 1(3) skip m by (cases "k smod w = 0") simp_all
    ultimately show ?thesis using widest_of_skip skip(2) by simp
  qed
qed

lemma tile_bytes_nonneg: "0 \<le> tile_bytes t"
  by (simp add: tile_bytes_def split: option.splits)

lemma block_buffers_nonneg: "0 \<le> m \<Longrightarrow> 0 \<le> n \<Longrightarrow> 0 \<le> w \<Longrightarrow> 0 \<le> block_buffers k m n t w"
  by (simp add: block_buffers_def Let_def tile_bytes_nonneg)

text \<open>The circular buffers of the block width \<open>w\<close> fit next to the operand and the output.\<close>

definition block_fits ::
  "llvm_math \<Rightarrow> int \<Rightarrow> int \<Rightarrow> int \<Rightarrow> int \<Rightarrow> int \<Rightarrow> data_type \<Rightarrow> int \<Rightarrow> int \<Rightarrow> bool" where
  "block_fits lm M K N banks cores t l1 w =
     (let k = K div 32; n = N div 32; m = divideCeil lm M 32; nc = divideCeil lm n banks
      in fixed_cost m nc + block_buffers k m nc t w \<le> buffer_budget lm m n (k div cores) cores l1)"

definition block_choices ::
  "llvm_math \<Rightarrow> int \<Rightarrow> int \<Rightarrow> int \<Rightarrow> int \<Rightarrow> int \<Rightarrow> data_type \<Rightarrow> int \<Rightarrow> int set" where
  "block_choices lm M K N banks cores t l1 =
     {w. 1 \<le> w \<and> w dvd K div 32 div cores \<and> block_fits lm M K N banks cores t l1 w}"

definition geometry_ok :: "llvm_math \<Rightarrow> int \<Rightarrow> int \<Rightarrow> int \<Rightarrow> int \<Rightarrow> int \<Rightarrow> data_type \<Rightarrow> dram_shard_params \<Rightarrow> bool" where
  "geometry_ok lm M K N banks outCores t p \<longleftrightarrow>
     kTiles p = K div 32 \<and> nTiles p = N div 32 \<and> ds_perCoreM p = divideCeil lm M 32 \<and> weightDataType p = t \<and>
     numBanks p = banks \<and> pieces_cover banks (perCoreNCompute p) (nTiles p) \<and> pieces_cover outCores (perCoreNStorage p) (nTiles p) \<and>
     0 < perCoreNStorage p"

lemma exact_part_positive:
  fixes a b :: int
  assumes "0 < a" "a mod b = 0" "0 < b"
  shows "0 < a div b"
  using zdvd_imp_le [of b a] assms pos_imp_zdiv_pos_iff [OF assms(3)] by (simp add: dvd_eq_mod_eq_0)

lemma sdiv_smod_nonneg: "0 \<le> (a::int) \<Longrightarrow> 0 < b \<Longrightarrow> a sdiv b = a div b \<and> a smod b = a mod b"
  by (simp add: signed_divide_int_def signed_modulo_int_def sgn_if)

lemma computeShardParams_spec:
  assumes lm: "legal_llvm_math lm" and pos: "0 \<le> M" "0 < K" "0 < N" "0 < banks" "0 < cores" "0 < outCores"
    and al: "K mod 32 = 0" "N mod 32 = 0" "K div 32 mod cores = 0"
  shows "\<exists>r. computeShardParams lm M K N banks cores outCores t l1 = Inr r \<and>
    (r = None \<longleftrightarrow> (\<forall>w\<in>block_choices lm M K N banks cores t l1. 2 * w < K div 32 div cores)) \<and>
    (\<forall>p. r = Some p \<longrightarrow> geometry_ok lm M K N banks outCores t p \<and>
      ds_in0BlockW p \<in> block_choices lm M K N banks cores t l1 \<and>
      (\<forall>w\<in>block_choices lm M K N banks cores t l1. w \<le> ds_in0BlockW p))"
proof -
  let ?k = "K div 32" and ?n = "N div 32" and ?m = "divideCeil lm M 32"
  let ?kp = "?k div cores" and ?nc = "divideCeil lm (N div 32) banks"
  let ?B = "block_choices lm M K N banks cores t l1"
  let ?budget = "buffer_budget lm ?m ?n ?kp cores l1" and ?fixed = "fixed_cost ?m ?nc"
  let ?w = "widest_block (\<lambda>w. ?fixed + block_buffers ?k ?m ?nc t w \<le> ?budget) ?kp ?kp"
  have k: "0 < ?k" "0 < ?n" by (rule exact_part_positive, fact pos al, fact al, simp only: zero_less_numeral)+
  have d: "K sdiv 32 = ?k \<and> K smod 32 = K mod 32" "N sdiv 32 = ?n \<and> N smod 32 = N mod 32"
    "?k sdiv cores = ?kp \<and> ?k smod cores = ?k mod cores"
    by (rule sdiv_smod_nonneg, rule order_less_imp_le, fact pos k, (fact pos | simp only: zero_less_numeral))+
  have s: "K sdiv 32 = ?k" "K smod 32 = 0" "N sdiv 32 = ?n" "N smod 32 = 0" "?k smod cores = 0" "?k sdiv cores = ?kp"
    unfolding conjunct1 [OF d(1)] conjunct2 [OF d(1)] conjunct1 [OF d(2)] conjunct2 [OF d(2)] conjunct1 [OF d(3)] conjunct2 [OF d(3)]
    by (rule refl al)+
  have kp: "0 < ?kp" by (rule exact_part_positive [OF k(1) al(3) pos(5)])
  have mn: "0 \<le> ?m" "0 < ?nc" using divideCeil_covers [OF lm] pos k by simp_all
  have B: "w \<in> ?B \<longleftrightarrow> 1 \<le> w \<and> w \<le> ?kp \<and> w dvd ?kp \<and> ?fixed + block_buffers ?k ?m ?nc t w \<le> ?budget" for w
    using zdvd_imp_le [OF _ kp] by (auto simp: block_choices_def block_fits_def Let_def)
  note g = widest_block_greatest [of ?kp ?kp "\<lambda>w. ?fixed + block_buffers ?k ?m ?nc t w \<le> ?budget", OF order_refl]
  have over: "?B = {}" if "?fixed > ?budget"
  proof -
    have "w \<notin> ?B" for w
      unfolding B using that block_buffers_nonneg [OF mn(1) order_less_imp_le [OF mn(2)], of w ?k t] by linarith
    then show ?thesis by blast
  qed
  have geo: "geometry_ok lm M K N banks outCores t \<lparr>numBanks = banks, kTiles = ?k, nTiles = ?n, perCoreNCompute = ?nc,
      ds_in0BlockW = ?w, ds_perCoreM = ?m, perCoreNStorage = divideCeil lm ?n outCores, weightDataType = t\<rparr>"
    using pieces_cover_divideCeil [OF lm k(2)] divideCeil_covers(3) [OF lm _ pos(6), of ?n] k pos by (simp add: geometry_ok_def)
  have w0: "?w = 0 \<Longrightarrow> ?B = {}" using g B unfolding widest_of_def by blast
  have w1: "?w \<noteq> 0 \<Longrightarrow> ?w \<in> ?B \<and> (\<forall>w\<in>?B. w \<le> ?w)" using g B unfolding widest_of_def by blast
  have e: "computeShardParams lm M K N banks cores outCores t l1 =
    (if ?fixed > ?budget then Inr None else if ?w = 0 then Inr None else if ?w * 2 < ?kp then Inr None
     else Inr (Some \<lparr>numBanks = banks, kTiles = ?k, nTiles = ?n, perCoreNCompute = ?nc,
      ds_in0BlockW = ?w, ds_perCoreM = ?m, perCoreNStorage = divideCeil lm ?n outCores, weightDataType = t\<rparr>))"
    unfolding computeShardParams_def s Let_def by simp
  let ?p = "\<lparr>numBanks = banks, kTiles = ?k, nTiles = ?n, perCoreNCompute = ?nc, ds_in0BlockW = ?w,
      ds_perCoreM = ?m, perCoreNStorage = divideCeil lm ?n outCores, weightDataType = t\<rparr>"
  show ?thesis
  proof (cases "\<not> ?fixed > ?budget \<and> ?w \<noteq> 0 \<and> \<not> ?w * 2 < ?kp")
    case True
    then have c: "computeShardParams lm M K N banks cores outCores t l1 = Inr (Some ?p)" unfolding e by simp
    have "\<not> ?w * 2 < ?kp" using True by blast
    then have "\<not> 2 * ?w < ?kp" by linarith
    then have "\<not> (\<forall>w\<in>?B. 2 * w < ?kp)" using w1 True by blast
    then show ?thesis unfolding c using geo w1 True by simp
  next
    case False
    then have c: "computeShardParams lm M K N banks cores outCores t l1 = Inr None" unfolding e by argo
    have "2 * w < ?kp" if "w \<in> ?B" for w
    proof -
      have "?w \<noteq> 0" "\<not> ?fixed > ?budget" using that w0 over by blast+
      then have "w \<le> ?w" "?w * 2 < ?kp" using False w1 that by blast+
      then show ?thesis by linarith
    qed
    then show ?thesis unfolding c by simp
  qed
qed

text \<open>C16: For sizes of whole tiles that the cores divide, the geometry of a DRAM-sharded matmul is decided
  exactly: it takes the widest block among the divisors of the inner dimension of a core whose circular buffers
  fit next to the operand and the output, and declines when that block, or every block that fits, is less
  than half of the inner dimension. The shards cover the weight over the banks and the output over the
  cores with the smallest pieces.\<close>

theorem shard_params_widest:
  assumes lm: "legal_llvm_math lm" and pos: "0 \<le> M" "0 < K" "0 < N" "0 < banks" "0 < cores" "0 < outCores"
    and al: "K mod 32 = 0" "N mod 32 = 0" "K div 32 mod cores = 0"
  shows "\<exists>r. computeShardParams lm M K N banks cores outCores t l1 = Inr r \<and>
    (r = None \<longleftrightarrow> (\<forall>w\<in>block_choices lm M K N banks cores t l1. 2 * w < K div 32 div cores)) \<and>
    (\<forall>p. r = Some p \<longrightarrow> geometry_ok lm M K N banks outCores t p \<and>
      ds_in0BlockW p \<in> block_choices lm M K N banks cores t l1 \<and>
      (\<forall>w\<in>block_choices lm M K N banks cores t l1. w \<le> ds_in0BlockW p))"
  by (rule computeShardParams_spec [OF assms])

definition decode_params :: "(config_error, dram_shard_params option) result" where
  "decode_params = computeShardParams exact_math 32 4096 8192 12 8 64 BFP_BFloat8 1424179"

theorem shard_params_widest_witness:
  "\<exists>p. decode_params = Inr (Some p) \<and> ds_in0BlockW p = 8 \<and> geometry_ok exact_math 32 4096 8192 12 64 BFP_BFloat8 p \<and>
    16 \<notin> block_choices exact_math 32 4096 8192 12 8 BFP_BFloat8 1424179"
proof -
  have v: "map_sum id (map_option ds_in0BlockW) decode_params = Inr (Some 8)" by code_simp
  have a: "(0::int) \<le> 32" "(0::int) < 4096" "(0::int) < 8192" "(0::int) < 12" "(0::int) < 8" "(0::int) < 64"
    "(4096::int) mod 32 = 0" "(8192::int) mod 32 = 0" "(4096::int) div 32 mod 8 = 0" by simp_all
  obtain r where r: "decode_params = Inr r"
    and spec: "\<And>p. r = Some p \<Longrightarrow> geometry_ok exact_math 32 4096 8192 12 64 BFP_BFloat8 p \<and>
      (\<forall>w\<in>block_choices exact_math 32 4096 8192 12 8 BFP_BFloat8 1424179. w \<le> ds_in0BlockW p)"
    using shard_params_widest [OF exact_math_legal a, of BFP_BFloat8 1424179, folded decode_params_def] by blast
  have "map_option ds_in0BlockW r = Some 8" using v unfolding r by simp
  then obtain p where p: "r = Some p" "ds_in0BlockW p = 8" by blast
  have "16 \<notin> block_choices exact_math 32 4096 8192 12 8 BFP_BFloat8 1424179"
    using spec [OF p(1)] p(2) by fastforce
  then show ?thesis using r p spec [OF p(1)] by blast
qed

section \<open>Collapsed shapes\<close>

lemma uses_dim_eval: "\<not> uses_dim d e \<Longrightarrow> eval_expr (v[d := x]) ss e = eval_expr v ss e"
  by (induction e) (auto simp: nth_list_update)

text \<open>The position of a coordinate among the leading \<open>n\<close> dimensions, in row-major order.\<close>

fun leading_index :: "int list \<Rightarrow> int list \<Rightarrow> nat \<Rightarrow> int" where
  "leading_index sh v 0 = 0"
| "leading_index sh v (Suc n) = v ! n + sh ! n * leading_index sh v n"

lemma eval_leading:
  assumes "legal_affine ops"
  shows "eval_expr v ss (fst (fold (collapse_step ops sh) (rev [0..<n]) (e, m))) = eval_expr v ss e + m * leading_index sh v n"
proof (induction n arbitrary: e m)
  case (Suc n)
  note b = affine_builder.intro [OF assms]
  have step: "collapse_step ops sh n (e, m) = (plusE ops (timesE ops (DimE n) (ConstE m)) e, m * sh ! n)"
    by (simp add: collapse_step_def)
  show ?case by (simp add: step Suc affine_builder.eval_plus [OF b] affine_builder.eval_times [OF b] algebra_simps)
qed simp

lemma leading_zero: "n \<le> r \<Longrightarrow> leading_index sh (replicate r 0) n = 0"
  by (induction n) simp_all

lemma leading_last: "n \<le> length sh \<Longrightarrow> leading_index sh (map (\<lambda>d. d - 1) sh) n = prod_list (take n sh) - 1"
proof (induction n)
  case (Suc n)
  then show ?case by (simp add: take_Suc_conv_app_nth right_diff_distrib mult.commute)
qed simp

lemma leading_unit:
  assumes "d < n" "n \<le> length sh" "list_all (\<lambda>d. 0 < d) sh"
  shows "0 < leading_index sh ((replicate (length sh) 0)[d := 1]) n"
  using assms(1,2)
proof (induction n)
  case (Suc n)
  have sn: "0 < sh ! n" using Suc.prems assms(3) by (simp add: list_all_length)
  show ?case
  proof (cases "d = n")
    case True
    have "leading_index sh ((replicate (length sh) 0)[d := 1]) k = 0" if "k \<le> d" for k
      using that Suc.prems by (induction k) (auto simp: nth_list_update)
    then show ?thesis using True Suc.prems by simp
  next
    case False
    then have "0 < leading_index sh ((replicate (length sh) 0)[d := 1]) n" using Suc by simp
    then show ?thesis using False Suc.prems sn by (simp add: nth_list_update)
  qed
qed simp

lemma prod_positive: "list_all (\<lambda>d. 0 < d) sh \<Longrightarrow> 0 < prod_list (sh :: int list)"
  by (induction sh) simp_all

text \<open>With the default collapse a shape has two physical dimensions: all leading dimensions, and the last.\<close>

lemma collapsed_shape:
  assumes ops: "legal_affine ops" and ne: "sh \<noteq> []" and pos: "list_all (\<lambda>d. 0 < d) sh"
  shows "\<exists>m. collapsedLinearAffineMap ops sh [a, c] [(0, - 1)] = Some m \<and> length (results m) = 2 \<and>
    evalShape m sh = [prod_list (butlast sh), last sh]"
proof -
  have vol: "volume sh 1 \<noteq> 0" using prod_positive [OF pos] by (simp add: volume_prod)
  obtain r where r: "length sh = Suc r" using ne by (cases sh) auto
  have b: "butlast sh = take r sh" "last sh = sh ! r" using r ne by (simp_all add: butlast_conv_take last_conv_nth)
  show ?thesis
  proof (cases r)
    case 0
    then obtain k where "sh = [k]" using r by (cases sh) auto
    then show ?thesis using vol
      by (simp add: collapsedLinearAffineMap_def evalShape_def compose_map_def Let_def numeral_2_eq_2)
  next
    case (Suc q)
    let ?e = "collapsed_dims ops sh 0 r"
    have ev: "eval_expr v ss ?e = leading_index sh v r" for v ss
      unfolding collapsed_dims_def using eval_leading [OF ops, of v ss sh r "ConstE 0" 1] by simp
    have used: "uses_dim d ?e" if "d < r" for d
    proof (rule ccontr)
      assume "\<not> uses_dim d ?e"
      from uses_dim_eval [OF this, of "replicate (length sh) 0" 1 "[]"] show False
        using leading_unit [OF that _ pos] leading_zero [of r "length sh" sh] r by (simp add: ev)
    qed
    have minor: "[Suc r - min (Suc r) 2..<Suc r] = [q, r]" using Suc by (simp add: upt_rec)
    have [simp]: "nat (1 + int q) = Suc q" by simp
    have "list_all (\<lambda>d. uses_dim d ?e \<or> r = d) [0..<Suc r]" using used by (auto simp: list_all_iff less_Suc_eq)
    then have m: "collapsedLinearAffineMap ops sh [a, c] [(0, - 1)] =
        Some \<lparr>numDims = Suc r, numSymbols = 0, results = [?e, DimE r]\<rparr>"
      using vol r Suc minor by (simp add: collapsedLinearAffineMap_def Let_def)
    have "map (\<lambda>d. d - 1) sh ! r = sh ! r - 1" using r by simp
    then show ?thesis unfolding m using leading_last [of r sh] leading_zero [of r "length sh" sh] r
      by (simp add: evalShape_def compose_map_def ev b del: replicate_Suc)
  qed
qed

section \<open>Width-sharded layouts\<close>

lemma alignUp_tiles: "0 \<le> d \<Longrightarrow> alignUp d 32 = (d + 31) div 32 * 32"
  by (simp add: alignUp_def signed_divide_int_def sgn_if)

lemma padded_matrix: "getTilePaddedShape (us @ [a, b]) = us @ [alignUp a 32, alignUp b 32]"
  by (simp add: getTilePaddedShape_def Let_def nth_append list_update_append)

lemma padded_vector: "getTilePaddedShape [b] = [alignUp b 32]"
  by (simp add: getTilePaddedShape_def)

lemma matrix_cases:
  assumes "sh \<noteq> []"
  obtains (vector) b where "sh = [b]" | (matrix) us a b where "sh = us @ [a, b]"
  using assms by (metis append_butlast_last_id append_Cons append_Nil append_assoc)

lemma padded_shape:
  assumes "sh \<noteq> []" "list_all (\<lambda>d. 0 < d) sh"
  shows "getTilePaddedShape sh \<noteq> []" "list_all (\<lambda>d. 0 < d) (getTilePaddedShape sh)"
    "last (getTilePaddedShape sh) = (last sh + 31) div 32 * 32"
proof -
  have t: "0 < d \<Longrightarrow> 0 < alignUp d 32" for d using alignUp_tiles [of d] by simp
  show "getTilePaddedShape sh \<noteq> []" "list_all (\<lambda>d. 0 < d) (getTilePaddedShape sh)"
    "last (getTilePaddedShape sh) = (last sh + 31) div 32 * 32"
    using assms t by (cases rule: matrix_cases [OF assms(1)]; auto simp: padded_matrix padded_vector alignUp_tiles)+
qed

lemma tiled_shape: "0 \<le> x \<Longrightarrow> 0 \<le> y \<Longrightarrow> getTiledShape 32 32 [x, y] = Some [(x + 31) div 32, (y + 31) div 32]"
  by (simp add: getTiledShape_def signed_divide_int_def sgn_if add.commute)

lemma build_width_sharded:
  assumes ops: "legal_affine ops" and sh: "b_shape b \<noteq> []" "list_all (\<lambda>d. 0 < d) (b_shape b)" and c: "0 < c"
    and b: "b_collapse b = [(0, - 1)]" "b_grid b = [1, c]" "b_ranges b \<noteq> None"
  shows "\<exists>l. build_sharded ops b = Inr l \<and> bufferType l = b_buffer b \<and> memLayout l = b_memory b \<and>
    coreRangeSet l = b_ranges b \<and> layoutGrid l = [1, c] \<and> tiled_type l = b_tiled b \<and>
    (b_tiled b \<noteq> None \<longrightarrow> shardShape l =
       [(prod_list (butlast (getTilePaddedShape (b_shape b))) + 31) div 32,
        ((last (getTilePaddedShape (b_shape b)) + c - 1) div c + 31) div 32])"
proof -
  let ?ph = "if b_tiled b \<noteq> None then getTilePaddedShape (b_shape b) else b_shape b"
  have ph: "?ph \<noteq> []" "list_all (\<lambda>d. 0 < d) ?ph" using padded_shape [OF sh] sh by auto
  obtain m where m: "collapsedLinearAffineMap ops ?ph [1, c] [(0, - 1)] = Some m" "length (results m) = 2"
    "evalShape m ?ph = [prod_list (butlast ?ph), last ?ph]" using collapsed_shape [OF ops ph] by blast
  have "list_all (\<lambda>d. 0 < d) (butlast ?ph)" unfolding list_all_iff
    using ph(2) [unfolded list_all_iff] by (blast dest: in_set_butlastD)
  then have p: "0 < prod_list (butlast ?ph)" "0 < last ?ph"
    using ph prod_positive [of "butlast ?ph"] last_in_set [OF ph(1)] by (simp_all only: list_all_iff)
  have r: "(last ?ph + c - 1) sdiv c = (last ?ph + c - 1) div c" "0 \<le> (last ?ph + c - 1) div c"
    using c p(2) by (simp_all add: signed_divide_int_def sgn_if pos_imp_zdiv_nonneg_iff)
  have one: "x sdiv 1 = x" for x :: int by (simp add: signed_divide_int_def sgn_mult_abs)
  have shard: "calculateLogicalShardShapeForSharding ?ph m [1, c] = Some [prod_list (butlast ?ph), (last ?ph + c - 1) div c]"
    unfolding calculateLogicalShardShapeForSharding_def m(2,3) using r(1) by (simp add: one)
  have tiled: "getTiledShape 32 32 [prod_list (butlast ?ph), (last ?ph + c - 1) div c] =
      Some [(prod_list (butlast ?ph) + 31) div 32, ((last ?ph + c - 1) div c + 31) div 32]"
    by (rule tiled_shape [OF order_less_imp_le [OF p(1)] r(2)])
  show ?thesis using b m(1) shard tiled by (simp add: build_sharded_def Let_def split: if_splits)
qed

text \<open>The cores of a set of ranges.\<close>

definition range_cores :: "core_range \<Rightarrow> nat" where
  "range_cores r = (Suc (fst (endCoord r)) - fst (startCoord r)) * (Suc (snd (endCoord r)) - snd (startCoord r))"

definition placed_on :: "ttnn_layout \<Rightarrow> int \<Rightarrow> bool" where
  "placed_on l n \<longleftrightarrow> (\<exists>rs. coreRangeSet l = Some rs \<and> int (sum_list (map range_cores rs)) = n)"

lemma box_cores: "0 \<le> x \<Longrightarrow> 0 \<le> y \<Longrightarrow> x \<le> x' \<Longrightarrow> y \<le> y' \<Longrightarrow>
    int (range_cores (core_box x y x' y')) = (x' - x + 1) * (y' - y + 1)"
  by (simp only: range_cores_def core_box_def core_range.simps fst_conv snd_conv of_nat_mult) (simp add: of_nat_diff Suc_diff_le add.commute)

lemma row_major_cores:
  assumes "0 \<le> n" "0 < w"
  shows "int (sum_list (map range_cores (buildRowMajorCoreRanges n [h, w]))) = n"
proof -
  have d: "n sdiv w = n div w" "n smod w = n mod w" using sdiv_smod_nonneg [OF assms] by simp_all
  have p: "0 \<le> n div w" "0 \<le> n mod w" using assms by (simp_all add: pos_imp_zdiv_nonneg_iff)
  have full: "0 < n div w \<Longrightarrow> int (range_cores (core_box 0 0 (w - 1) (n div w - 1))) = w * (n div w)"
    and tail: "0 < n mod w \<Longrightarrow> int (range_cores (core_box 0 (n div w) (n mod w - 1) (n div w))) = n mod w"
    using assms(2) p by (simp_all add: box_cores)
  have n: "w * (n div w) + n mod w = n" by simp
  have "int (sum_list (map range_cores (buildRowMajorCoreRanges n [h, w]))) =
      (if 0 < n div w then w * (n div w) else 0) + (if 0 < n mod w then n mod w else 0)"
    unfolding buildRowMajorCoreRanges_def Let_def nth_Cons_Suc One_nat_def nth_Cons_0 d using full tail by auto
  also have "(if 0 < a then w * a else 0) + (if 0 < b then b else 0) = w * a + b" if "0 \<le> a" "0 \<le> b" for a b :: int
    using that by auto
  note this [OF p]
  finally show ?thesis unfolding n .
qed
section \<open>Plans\<close>

definition plan_ok :: "llvm_math \<Rightarrow> ds_context \<Rightarrow> dram_shard_params \<Rightarrow> bool" where
  "plan_ok lm ctx p \<longleftrightarrow>
     ds_perCoreM p = 1 \<and> numOutputCores lm p \<le> volume (worker_grid ctx) 1 \<and>
     pieces_cover (perCoreNStorage p) (numOutputCores lm p) (nTiles p) \<and>
     getNumDRAMBanks (dram_grid ctx) = Some (numBanks p) \<and> pieces_cover (numBanks p) (perCoreNCompute p) (nTiles p)"

lemma fold_mult_positive: "list_all (\<lambda>d. 0 < d) xs \<Longrightarrow> 0 < a \<Longrightarrow> 0 < fold (\<lambda>d m. m * d) xs (a :: int)"
  by (induction xs arbitrary: a) simp_all

lemma getActivationM_positive: "list_all (\<lambda>d. 0 < d) sh \<Longrightarrow> 0 < getActivationM sh"
  unfolding getActivationM_def by (rule fold_mult_positive) (auto simp: list_all_iff dest: in_set_butlastD)

lemma getNumDRAMBanks_positive: "getNumDRAMBanks g = Some b \<Longrightarrow> 0 < b"
  by (auto simp: getNumDRAMBanks_def split: option.splits if_splits)

text \<open>What reaching \<open>computeShardParams\<close> means for its arguments.\<close>

lemma buildDSPlan_cases:
  assumes pos: "list_all (\<lambda>d. 0 < d) (op_shape (ds_a op))" "list_all (\<lambda>d. 0 < d) (op_shape (ds_b op))"
  obtains (declined) "buildDSPlan lm ctx op = Inr None"
  | (planned) M K N banks t where "0 < M" "0 < K" "0 < N" "getNumDRAMBanks (dram_grid ctx) = Some banks"
      "K mod 32 = 0" "N mod 32 = 0" "K div 32 mod 8 = 0" "divideCeil lm M 32 = 1"
      "buildDSPlan lm ctx op = computeShardParams lm M K N banks 8 (volume (worker_grid ctx) 1) t (l1_available ctx)"
      "getWeightKN (op_shape (ds_b op)) = (K, N)" "isDSWeightShaped (op_shape (ds_b op))"
      "M = getActivationM (op_shape (ds_a op))" "\<exists>l. op_layout (ds_b op) = Some l \<and> tiled_type l \<noteq> None"
proof (cases "buildDSPlan lm ctx op = Inr None")
  case False
  obtain a w where ops: "getMatmulOperands op = Some (a, w)" and el: "isDSEligible lm a w"
    using False by (auto simp: buildDSPlan_def split: if_splits option.splits)
  obtain d where d: "getDSDeviceContext ctx = Some d"
    using False ops el by (auto simp: buildDSPlan_def split: if_splits option.splits)
  have aw: "a = ds_a op" "w = ds_b op" using ops by (auto simp: getMatmulOperands_def split: matmul_kind.splits if_splits)
  obtain K N where kn: "getWeightKN (op_shape w) = (K, N)" by fastforce
  have w: "isDSWeightShaped (op_shape w)" "\<exists>l. op_layout w = Some l \<and> tiled_type l \<noteq> None"
    using el by (auto simp: isDSEligible_def isBfpDRAMInterleaved_def split: if_splits option.splits)
  then have len: "2 \<le> length (op_shape w)" by (simp add: isDSWeightShaped_def)
  have KN: "0 < K" "0 < N" using kn pos(2) len aw by (auto simp: getWeightKN_def list_all_length)
  have M: "0 < getActivationM (op_shape a)" using getActivationM_positive pos(1) aw by simp
  have el': "K smod 32 = 0" "N smod 32 = 0" "(K sdiv 32) smod 8 = 0" "divideCeil lm (getActivationM (op_shape a)) 32 = 1"
    using el kn by (auto simp: isDSEligible_def kNumIn0Cores_def Let_def split: if_splits)
  have al: "K mod 32 = 0" "N mod 32 = 0" "K div 32 mod 8 = 0"
  proof -
    have k: "K sdiv 32 = K div 32 \<and> K smod 32 = K mod 32" "N sdiv 32 = N div 32 \<and> N smod 32 = N mod 32"
      by (rule sdiv_smod_nonneg, rule order_less_imp_le, fact KN, simp only: zero_less_numeral)+
    show m: "K mod 32 = 0" "N mod 32 = 0" using el'(1,2) k by argo+
    have "K div 32 sdiv 8 = K div 32 div 8 \<and> K div 32 smod 8 = K div 32 mod 8"
      by (rule sdiv_smod_nonneg, rule order_less_imp_le, rule exact_part_positive [OF KN(1) m(1)]) (simp_all only: zero_less_numeral)
    then show "K div 32 mod 8 = 0" using el'(3) k by argo
  qed
  have banks: "getNumDRAMBanks (dram_grid ctx) = Some (numDRAMBanks d)"
    and d': "numWorkerCores d = volume (worker_grid ctx) 1" "l1Available d = l1_available ctx"
    using d by (auto simp: getDSDeviceContext_def split: if_splits option.splits)
  have "buildDSPlan lm ctx op = computeShardParams lm (getActivationM (op_shape a)) K N (numDRAMBanks d) 8
      (volume (worker_grid ctx) 1) (the (tiled_type (the (op_layout w)))) (l1_available ctx)"
    using False ops el d kn d' by (simp add: buildDSPlan_def kNumIn0Cores_def split: if_splits)
  from planned [OF M KN banks al el'(4) this] show thesis using kn w aw by simp
qed (use declined in blast)

lemma output_cores:
  assumes lm: "legal_llvm_math lm" and n: "0 < n" "0 < cores" and s: "pieces_cover cores s n" "0 < s"
  shows "divideCeil lm n s \<le> cores \<and> pieces_cover s (divideCeil lm n s) n"
proof -
  have c: "pieces_cover s (divideCeil lm n s) n" by (rule pieces_cover_divideCeil [OF lm n(1) s(2)])
  have "s * (divideCeil lm n s - 1) < s * cores" using c s(1) unfolding pieces_cover_def by (simp only: mult.commute [of s cores]) linarith
  then have "divideCeil lm n s - 1 < cores" using s(2) by (simp add: mult_less_cancel_left)
  then show ?thesis using c by simp
qed

section \<open>Injected layouts\<close>

text \<open>What the matmul verifier and the device give: a worker grid of at least 8 cores, an activation of
  the inner dimension of the weight that is tiled, and an output with a layout.\<close>

definition injectable :: "ds_context \<Rightarrow> ds_op \<Rightarrow> bool" where
  "injectable ctx op \<longleftrightarrow>
     (case worker_grid ctx of [h, w] \<Rightarrow> 0 < h \<and> 0 < w \<and> 8 \<le> h * w | _ \<Rightarrow> False) \<and>
     op_shape (ds_a op) \<noteq> [] \<and> last (op_shape (ds_a op)) = fst (getWeightKN (op_shape (ds_b op))) \<and>
     (case op_layout (ds_a op) of None \<Rightarrow> False | Some l \<Rightarrow> tiled_type l \<noteq> None) \<and>
     op_shape (ds_out op) \<noteq> [] \<and> list_all (\<lambda>d. 0 < d) (op_shape (ds_out op)) \<and> op_layout (ds_out op) \<noteq> None"

text \<open>The activation in L1 on 8 cores, each with its part of the inner dimension and, for an activation
  that is not batched, with the one tile row of the plan; the weight on all DRAM banks, each with whole
  columns.\<close>

definition injected_ok :: "dram_shard_params \<Rightarrow> ds_op \<Rightarrow> ttnn_layout \<Rightarrow> ttnn_layout \<Rightarrow> bool" where
  "injected_ok p op in0 in1 \<longleftrightarrow>
     bufferType in0 = L1 \<and> isWidthSharded in0 \<and> placed_on in0 8 \<and>
     length (shardShape in0) = 2 \<and> shardShape in0 ! 1 = kTiles p div 8 \<and>
     (unit_batch (op_shape (ds_a op)) \<longrightarrow> shardShape in0 ! 0 = ds_perCoreM p) \<and>
     bufferType in1 = DRAM \<and> isWidthSharded in1 \<and> placed_on in1 (numBanks p) \<and>
     shardShape in1 = [kTiles p, perCoreNCompute p]"

lemma width_sharded_builder:
  "setCoreRangeSet rs (setGridShape g (setMemoryLayout ml (setBufferType t (layout_builder_of l sh)))) =
     \<lparr>b_shape = sh, b_collapse = [(0, - 1)], b_tiled = tiled_type l, b_buffer = t, b_memory = Some ml, b_grid = g, b_ranges = rs\<rparr>"
  "\<exists>rs. setGridShape g (setMemoryLayout ml (setBufferType t (layout_builder_of l sh))) =
     \<lparr>b_shape = sh, b_collapse = [(0, - 1)], b_tiled = tiled_type l, b_buffer = t, b_memory = Some ml, b_grid = g, b_ranges = rs\<rparr>"
  by (auto simp: setCoreRangeSet_def setGridShape_def setMemoryLayout_def setBufferType_def layout_builder_of_def)

text \<open>A width-sharded builder on a device with enough cores or banks builds its layout.\<close>

definition room_for :: "ds_context \<Rightarrow> buffer_type \<Rightarrow> int \<Rightarrow> bool" where
  "room_for ctx t c \<longleftrightarrow>
     (t = DRAM \<and> dram_grid ctx = Some [1, c]) \<or>
     (t = L1 \<and> (case worker_grid ctx of [h, w] \<Rightarrow> 0 < h \<and> 0 < w \<and> c \<le> h * w | _ \<Rightarrow> False))"

lemma canonical_ranges:
  assumes "room_for ctx t c" "0 < c"
  obtains rs where "int (sum_list (map range_cores rs)) = c"
    "buildWithCanonicalCorePlacement ops ctx
       \<lparr>b_shape = sh, b_collapse = iv, b_tiled = ty, b_buffer = t, b_memory = Some WidthSharded, b_grid = [1, c], b_ranges = None\<rparr> =
     build_sharded ops
       \<lparr>b_shape = sh, b_collapse = iv, b_tiled = ty, b_buffer = t, b_memory = Some WidthSharded, b_grid = [1, c], b_ranges = Some rs\<rparr>"
  using assms(1) unfolding room_for_def
proof (elim disjE conjE)
  assume t: "t = DRAM" "dram_grid ctx = Some [1, c]"
  have "int (sum_list (map range_cores [core_box 0 0 (c - 1) 0])) = c" using assms(2) by (simp add: box_cores)
  from that [OF this] show thesis using t assms(2)
    by (simp add: buildWithCanonicalCorePlacement_def deriveCanonicalDramCoreRangeSet_def isShardedMemoryLayout_def volume_prod Let_def)
next
  assume t: "t = L1" "case worker_grid ctx of [h, w] \<Rightarrow> 0 < h \<and> 0 < w \<and> c \<le> h * w | _ \<Rightarrow> False"
  then obtain h w where w: "worker_grid ctx = [h, w]" "0 < w" "c \<le> h * w" by (auto split: list.splits)
  from that [OF row_major_cores [OF order_less_imp_le [OF assms(2)] w(2), of h]] show thesis using t(1) w
    by (simp add: buildWithCanonicalCorePlacement_def deriveCanonicalL1CoreRangeSet_def isShardedMemoryLayout_def
        isL1BufferType_def volume_prod Let_def)
qed

lemma buildWidthShardedLayout_spec:
  assumes ops: "legal_affine ops" and sh: "sh \<noteq> []" "list_all (\<lambda>d. 0 < d) sh" and room: "room_for ctx t c" "0 < c"
    and ty: "tiled_type l \<noteq> None"
  shows "\<exists>l'. buildWidthShardedLayout ops ctx l sh t c = Inr l' \<and> bufferType l' = t \<and> isWidthSharded l' \<and> placed_on l' c \<and>
    shardShape l' = [(prod_list (butlast (getTilePaddedShape sh)) + 31) div 32,
      ((last (getTilePaddedShape sh) + c - 1) div c + 31) div 32]"
proof -
  obtain rs where rs: "int (sum_list (map range_cores rs)) = c"
    and b: "buildWidthShardedLayout ops ctx l sh t c = build_sharded ops \<lparr>b_shape = sh, b_collapse = [(0, - 1)],
      b_tiled = tiled_type l, b_buffer = t, b_memory = Some WidthSharded, b_grid = [1, c], b_ranges = Some rs\<rparr>"
    unfolding buildWidthShardedLayout_def width_sharded_builder(1) by (rule canonical_ranges [OF room])
  show ?thesis
    using build_width_sharded [OF ops _ _ room(2), of "\<lparr>b_shape = sh, b_collapse = [(0, - 1)],
      b_tiled = tiled_type l, b_buffer = t, b_memory = Some WidthSharded, b_grid = [1, c], b_ranges = Some rs\<rparr>"] sh ty rs b
    by (auto simp: isWidthSharded_def placed_on_def)
qed

text \<open>The output of the hint: the layout of the seed is kept when it is already on such a grid.\<close>

lemma hint_of_spec:
  assumes ops: "legal_affine ops" and sh: "op_shape (ds_out op) \<noteq> []" "list_all (\<lambda>d. 0 < d) (op_shape (ds_out op))"
    and l: "op_layout (ds_out op) \<noteq> None" and room: "room_for ctx L1 (numOutputCores lm p)" "0 < numOutputCores lm p"
  shows "\<exists>h l'. hint_of lm ops ctx op p = Inr h \<and> programConfig h = Some (DRAMSharded (buildDRAMShardedProgramConfig p)) \<and>
    outputLayout h = Some l' \<and> bufferType l' = L1 \<and> isWidthSharded l' \<and> layoutGrid l' = [1, numOutputCores lm p]"
proof -
  let ?c = "numOutputCores lm p" and ?sh = "op_shape (ds_out op)"
  obtain s where s: "op_layout (ds_out op) = Some s" using l by blast
  let ?b = "\<lambda>rs. \<lparr>b_shape = ?sh, b_collapse = [(0, - 1)], b_tiled = tiled_type s, b_buffer = L1,
    b_memory = Some WidthSharded, b_grid = [1, ?c], b_ranges = rs\<rparr>"
  obtain rs where rs: "setGridShape [1, ?c] (setMemoryLayout WidthSharded (setBufferType L1 (layout_builder_of s ?sh))) = ?b rs"
    using width_sharded_builder(2) by blast
  obtain rs' where e: "buildWithCanonicalCorePlacement ops ctx (?b rs) = build_sharded ops (?b (Some rs'))"
  proof (cases rs)
    case None
    obtain r where "buildWithCanonicalCorePlacement ops ctx (?b None) = build_sharded ops (?b (Some r))"
      by (rule canonical_ranges [OF room])
    then show thesis using that None by simp
  next
    case (Some r)
    then show thesis using that [of r] by (simp add: buildWithCanonicalCorePlacement_def Let_def)
  qed
  obtain l' where "build_sharded ops (?b (Some rs')) = Inr l'" "bufferType l' = L1" "memLayout l' = Some WidthSharded"
    "layoutGrid l' = [1, ?c]"
    using build_width_sharded [OF ops _ _ room(2), of "?b (Some rs')"] sh by auto
  then show ?thesis by (simp add: hint_of_def s rs e isWidthSharded_def)
qed

lemma pieces_cover_unique: "pieces_cover parts p n \<Longrightarrow> pieces_cover parts q n \<Longrightarrow> 0 < parts \<Longrightarrow> p = q"
proof -
  have "\<not> p < q" if "pieces_cover parts p n" "pieces_cover parts q n" "0 < parts" for p q
  proof
    assume "p < q"
    then have "parts * p \<le> parts * (q - 1)" using that(3) by simp
    then show False using that unfolding pieces_cover_def by linarith
  qed
  then show "pieces_cover parts p n \<Longrightarrow> pieces_cover parts q n \<Longrightarrow> 0 < parts \<Longrightarrow> p = q" by (meson linorder_neqE)
qed

lemma ceil_bounds: "0 < b \<Longrightarrow> x \<le> b * ((x + b - 1) div b) \<and> b * ((x + b - 1) div b - 1) < (x :: int)"
proof -
  assume b: "0 < b"
  have "b * ((x + b - 1) div b - 1) = b * ((x + b - 1) div b) - b" by (simp add: right_diff_distrib)
  then show ?thesis
    using pos_mod_sign [OF b, of "x + b - 1"] pos_mod_bound [OF b, of "x + b - 1"] mult_div_mod_eq [of b "x + b - 1"] by linarith
qed

lemma columns_of_banks:
  assumes "0 < b" "N mod 32 = 0"
  shows "pieces_cover b (((N + b - 1) div b + 31) div 32) (N div 32)"
proof -
  let ?q = "(N + b - 1) div b"
  let ?t = "(?q + 31) div 32"
  have q: "N \<le> b * ?q" "b * (?q - 1) < N" using ceil_bounds [OF assms(1)] by blast+
  have t: "?q \<le> 32 * ?t" "32 * (?t - 1) \<le> ?q - 1" using ceil_bounds [of 32 ?q] by simp_all
  have N: "32 * (N div 32) = N" using assms(2) by presburger
  have "b * ?q \<le> b * (32 * ?t)" "b * (32 * (?t - 1)) \<le> b * (?q - 1)" using t assms(1) by (auto intro: mult_left_mono)
  then have "32 * (N div 32) \<le> 32 * (b * ?t)" "32 * (b * (?t - 1)) < 32 * (N div 32)" using q unfolding N by (simp_all only: mult.left_commute [of 32 b])
  then show ?thesis unfolding pieces_cover_def by linarith
qed

lemma mod_exact: "(x :: int) mod n = 0 \<Longrightarrow> \<exists>j. x = n * j"
  by (auto simp: mod_eq_0_iff_dvd dvd_def)

lemma weight_shard:
  assumes w: "isDSWeightShaped sh" "getWeightKN sh = (K, N)" and pos: "0 < K" "0 < N" "K mod 32 = 0" "N mod 32 = 0" and b: "0 < b"
  shows "(prod_list (butlast (getTilePaddedShape sh)) + 31) div 32 = K div 32"
    "pieces_cover b (((last (getTilePaddedShape sh) + b - 1) div b + 31) div 32) (N div 32)"
proof -
  have "sh \<noteq> []" using w(1) by (auto simp: isDSWeightShaped_def)
  then obtain us where sh: "sh = us @ [K, N]" and ones: "list_all (\<lambda>d. d = 1) us"
    using w by (cases rule: matrix_cases) (auto simp: isDSWeightShaped_def getWeightKN_def nth_append)
  have p: "prod_list us = 1" using ones by (induction us) simp_all
  have mult: "alignUp x 32 = x" if x: "0 < x" "x mod 32 = 0" for x
    using mod_exact [OF x(2)] x(1) by (auto simp: alignUp_tiles)
  note a = mult [OF pos(1,3)] mult [OF pos(2,4)]
  have "(K + 31) div 32 = K div 32" using mod_exact [OF pos(3)] by auto
  then show "(prod_list (butlast (getTilePaddedShape sh)) + 31) div 32 = K div 32"
    unfolding sh padded_matrix a by (simp add: p butlast_append)
  show "pieces_cover b (((last (getTilePaddedShape sh) + b - 1) div b + 31) div 32) (N div 32)"
    unfolding sh padded_matrix a using columns_of_banks [OF b pos(4)] by simp
qed

lemma activation_shard:
  assumes sh: "sh \<noteq> []" "list_all (\<lambda>d. 0 < d) sh" and K: "last sh mod 32 = 0" "last sh div 32 mod 8 = 0"
  shows "((last (getTilePaddedShape sh) + 8 - 1) div 8 + 31) div 32 = last sh div 32 div 8"
    "unit_batch sh \<Longrightarrow> getActivationM sh \<le> 32 \<Longrightarrow> (prod_list (butlast (getTilePaddedShape sh)) + 31) div 32 = 1"
proof -
  have eighth: "((((k + 31) div 32 * 32) + 8 - 1) div 8 + 31) div 32 = k div 32 div 8" if k: "k mod 32 = 0" "k div 32 mod 8 = 0" for k :: int
  proof -
    obtain i where i: "k = 32 * i" using mod_exact [OF k(1)] by blast
    then have "i mod 8 = 0" using k(2) by simp
    then obtain j where "i = 8 * j" using mod_exact by blast
    then have k: "k = 256 * j" using i by simp
    have e: "(32 * x + 31) div 32 = x" "(8 * x + 7) div 8 = x" for x :: int by simp_all
    have "(k + 31) div 32 = 8 * j" using e(1) [of "8 * j"] by (simp add: k)
    moreover have "(8 * j * 32 + 8 - 1) div 8 = 32 * j" using e(2) [of "32 * j"] by (simp add: algebra_simps)
    moreover have "k div 32 = 8 * j" by (simp add: k)
    ultimately show ?thesis using e(1) [of j] by (simp only:)
  qed
  show "((last (getTilePaddedShape sh) + 8 - 1) div 8 + 31) div 32 = last sh div 32 div 8"
    unfolding padded_shape(3) [OF sh] by (rule eighth [OF K])
  have fm: "fold (\<lambda>d m. m * d) us a = a * prod_list us" for us and a :: int
    by (induction us arbitrary: a) simp_all
  show "(prod_list (butlast (getTilePaddedShape sh)) + 31) div 32 = 1" if "unit_batch sh" "getActivationM sh \<le> 32"
    using sh(1)
  proof (cases rule: matrix_cases)
    case (matrix us m k)
    have p: "prod_list us = 1" using that(1) unfolding matrix unit_batch_def by (induction us) simp_all
    have m: "0 < m" "m \<le> 32" using sh(2) that(2) by (simp_all add: matrix getActivationM_def butlast_append fm p)
    then have "(m + 31) div 32 = 1" by presburger
    then show ?thesis using m(1) by (simp add: matrix padded_matrix butlast_append p alignUp_tiles)
  qed (simp add: padded_vector)
qed

lemma plan_inputs_valid:
  assumes "ds_in0BlockW p dvd kTiles p div 8" "0 < kTiles p div 8" "kTiles p mod 8 = 0" "1 \<le> ds_in0BlockW p"
    and "programConfig h = Some (DRAMSharded (buildDRAMShardedProgramConfig p))" "injected_ok p op in0 in1"
  shows "isValidOutputHintForInputs h [Some in0, Some in1]"
proof -
  let ?k = "kTiles p div 8"
  have k: "kTiles p = 8 * ?k" using assms(3) by (simp add: zmod_eq_0_iff) presburger
  then have "0 \<le> kTiles p" using assms(2) by linarith
  then have "kTiles p smod ?k = 0"
    using sdiv_smod_nonneg [of "kTiles p" ?k] assms(2) k by (metis mod_mult_self2_is_0)
  moreover have "?k smod ds_in0BlockW p = 0"
    using sdiv_smod_nonneg [of ?k "ds_in0BlockW p"] assms(1,2,4) by (simp add: dvd_eq_mod_eq_0)
  ultimately show ?thesis using assms(2,4-6)
    by (simp add: isValidOutputHintForInputs_def buildDRAMShardedProgramConfig_def injected_ok_def
        isL1BufferType_def dsIn0CompatibleWithConfig_def Let_def)
qed

text \<open>What the rule book offers for a plan: the hint and a layout for either operand, which together pass
  its own check.\<close>

definition injection_ok :: "llvm_math \<Rightarrow> affine_ops \<Rightarrow> ds_context \<Rightarrow> ds_op \<Rightarrow> dram_shard_params \<Rightarrow> bool" where
  "injection_ok lm ops ctx op p \<longleftrightarrow>
     (\<exists>h out in0 in1. buildDRAMShardingHint lm ops ctx op = Inr (Some h) \<and>
       getExtraInputReshardCandidates lm ops ctx op 0 = Inr [in0] \<and>
       getExtraInputReshardCandidates lm ops ctx op 1 = Inr [in1] \<and>
       outputLayout h = Some out \<and> bufferType out = L1 \<and> isWidthSharded out \<and> layoutGrid out = [1, numOutputCores lm p] \<and>
       injected_ok p op in0 in1 \<and> isValidOutputHintForInputs h [Some in0, Some in1])"

lemma plan_injection:
  assumes lm: "legal_llvm_math lm" and ops: "legal_affine ops"
    and pos: "list_all (\<lambda>d. 0 < d) (op_shape (ds_a op))" "list_all (\<lambda>d. 0 < d) (op_shape (ds_b op))"
    and s: "0 < K" "0 < N" "K mod 32 = 0" "N mod 32 = 0" "K div 32 mod 8 = 0" "getActivationM (op_shape (ds_a op)) \<le> 32"
    and banks: "getNumDRAMBanks (dram_grid ctx) = Some banks"
    and wt: "getWeightKN (op_shape (ds_b op)) = (K, N)" "isDSWeightShaped (op_shape (ds_b op))"
      "\<exists>l. op_layout (ds_b op) = Some l \<and> tiled_type l \<noteq> None"
    and inj: "injectable ctx op" and r: "buildDSPlan lm ctx op = Inr (Some p)"
    and g: "kTiles p = K div 32" "nTiles p = N div 32" "ds_perCoreM p = 1" "numBanks p = banks" "pieces_cover banks (perCoreNCompute p) (nTiles p)"
    and out: "0 < numOutputCores lm p" "numOutputCores lm p \<le> volume (worker_grid ctx) 1"
    and w: "0 < kTiles p div 8" "1 \<le> ds_in0BlockW p" "ds_in0BlockW p dvd kTiles p div 8"
  shows "injection_ok lm ops ctx op p"
proof -
  let ?a = "op_shape (ds_a op)" and ?b = "op_shape (ds_b op)"
  obtain h w where grid: "worker_grid ctx = [h, w]" "0 < h" "0 < w" "8 \<le> h * w"
    using inj by (auto simp: injectable_def split: list.splits)
  obtain la where la: "op_layout (ds_a op) = Some la" "tiled_type la \<noteq> None"
    using inj by (auto simp: injectable_def split: option.splits)
  have a: "?a \<noteq> []" "last ?a = K" using inj wt(1) by (simp_all add: injectable_def)
  obtain lb where lb: "op_layout (ds_b op) = Some lb" "tiled_type lb \<noteq> None" using wt(3) by blast
  have b0: "0 < banks" "dram_grid ctx = Some [1, banks]" "?b \<noteq> []"
    using getNumDRAMBanks_positive [OF banks] banks wt(2)
    by (auto simp: getNumDRAMBanks_def isDSWeightShaped_def length_Suc_conv numeral_2_eq_2 split: option.splits if_splits)
  have room: "room_for ctx L1 8" "room_for ctx L1 (numOutputCores lm p)" "room_for ctx DRAM banks"
    using grid b0 out by (simp_all add: room_for_def volume_prod)
  obtain in0 where in0: "buildWidthShardedLayout ops ctx la ?a L1 8 = Inr in0" "bufferType in0 = L1" "isWidthSharded in0" "placed_on in0 8"
    "shardShape in0 = [(prod_list (butlast (getTilePaddedShape ?a)) + 31) div 32, K div 32 div 8]"
    using buildWidthShardedLayout_spec [OF ops a(1) pos(1) room(1) _ la(2)]
    unfolding activation_shard(1) [OF a(1) pos(1), unfolded a(2), OF s(3,5)] by auto
  obtain in1 where in1: "buildWidthShardedLayout ops ctx lb ?b DRAM banks = Inr in1" "bufferType in1 = DRAM" "isWidthSharded in1"
    "placed_on in1 banks" "shardShape in1 = [K div 32, ((last (getTilePaddedShape ?b) + banks - 1) div banks + 31) div 32]"
    using buildWidthShardedLayout_spec [OF ops b0(3) pos(2) room(3) b0(1) lb(2)]
    unfolding weight_shard(1) [OF wt(2,1) s(1-4) b0(1)] by blast
  have ok: "injected_ok p op in0 in1"
    unfolding injected_ok_def in0(5) in1(5) g(1,3,4)
      pieces_cover_unique [OF weight_shard(2) [OF wt(2,1) s(1-4) b0(1)] g(5) [unfolded g(2)] b0(1)]
    using in0(2-4) in1(2-4) activation_shard(2) [OF a(1) pos(1) _ _ _ s(6)] s(3,5) a(2) by simp
  obtain hint l' where hint: "hint_of lm ops ctx op p = Inr hint" "programConfig hint = Some (DRAMSharded (buildDRAMShardedProgramConfig p))"
    "outputLayout hint = Some l'" "bufferType l' = L1" "isWidthSharded l'" "layoutGrid l' = [1, numOutputCores lm p]"
    using hint_of_spec [OF ops _ _ _ room(2) out(1)] inj unfolding injectable_def by blast
  have "kTiles p mod 8 = 0" using g(1) s(5) by simp
  then have "isValidOutputHintForInputs hint [Some in0, Some in1]" by (rule plan_inputs_valid [OF w(3,1) _ w(2) hint(2) ok])
  then show ?thesis unfolding injection_ok_def using hint in0(1) in1(1) la lb r g(4) ok
    by (simp add: buildDRAMShardingHint_def getExtraInputReshardCandidates_def kNumIn0Cores_def)
qed

text \<open>C14: Planning a DRAM-sharded matmul never fails an assertion: the eligibility checks establish what
  the geometry requires. A plan has one tile row; its output fills at most the worker cores with no core
  left empty, and the weight's columns are spread over all DRAM banks. On a grid of at least 8 worker
  cores and for a tiled activation, the hint and the operand layouts that the rule book builds from the
  plan exist: the activation lies on 8 cores, each with its eighth of the inner dimension (and with one
  tile row, if the activation is not batched), the weight on every bank with its columns of the plan;
  and they pass the rule book's check of the hint.\<close>

theorem ds_plan_accepted:
  assumes lm: "legal_llvm_math lm" and ops: "legal_affine ops" and cores: "0 < volume (worker_grid ctx) 1"
    and pos: "list_all (\<lambda>d. 0 < d) (op_shape (ds_a op))" "list_all (\<lambda>d. 0 < d) (op_shape (ds_b op))"
  shows "\<exists>r. buildDSPlan lm ctx op = Inr r \<and>
    (\<forall>p. r = Some p \<longrightarrow> plan_ok lm ctx p \<and> (injectable ctx op \<longrightarrow> injection_ok lm ops ctx op p))"
  using pos
proof (cases rule: buildDSPlan_cases [of op lm ctx])
  case (planned M K N banks t)
  obtain r where r: "buildDSPlan lm ctx op = Inr r" and spec: "\<And>p. r = Some p \<Longrightarrow>
      geometry_ok lm M K N banks (volume (worker_grid ctx) 1) t p \<and>
      ds_in0BlockW p \<in> block_choices lm M K N banks 8 t (l1_available ctx)"
    using computeShardParams_spec [OF lm order_less_imp_le [OF planned(1)] planned(2,3) getNumDRAMBanks_positive [OF planned(4)] _ cores
        planned(5-7), of t "l1_available ctx"] planned(9) by auto
  have "plan_ok lm ctx p \<and> (injectable ctx op \<longrightarrow> injection_ok lm ops ctx op p)" if "r = Some p" for p
  proof -
    have k: "0 < K div 32" "0 < N div 32" by (rule exact_part_positive, fact planned, fact planned, simp only: zero_less_numeral)+
    have g: "kTiles p = K div 32" "nTiles p = N div 32" "ds_perCoreM p = 1" "numBanks p = banks"
      "pieces_cover banks (perCoreNCompute p) (nTiles p)" "pieces_cover (volume (worker_grid ctx) 1) (perCoreNStorage p) (nTiles p)"
      "0 < perCoreNStorage p" and w: "1 \<le> ds_in0BlockW p" "ds_in0BlockW p dvd kTiles p div 8"
      using spec [OF that] planned(8) by (auto simp: geometry_ok_def block_choices_def)
    have kp: "0 < kTiles p div 8" unfolding g(1) by (rule exact_part_positive [OF k(1) planned(7)]) simp
    have out: "numOutputCores lm p \<le> volume (worker_grid ctx) 1 \<and> pieces_cover (perCoreNStorage p) (numOutputCores lm p) (nTiles p)"
      using output_cores [OF lm k(2) cores g(6,7) [unfolded g(2)]] by (simp add: numOutputCores_def g(2))
    have M: "getActivationM (op_shape (ds_a op)) \<le> 32"
      using divideCeil_covers(1) [OF lm order_less_imp_le [OF planned(1)], of 32] planned(8,12) by simp
    have oc: "0 < numOutputCores lm p" using divideCeil_covers(3) [OF lm order_less_imp_le [OF k(2)] g(7) k(2)] by (simp add: numOutputCores_def g(2))
    have plan: "plan_ok lm ctx p" using out planned(4) g by (simp add: plan_ok_def)
    have "injection_ok lm ops ctx op p" if "injectable ctx op"
      using plan_injection [OF lm ops pos planned(2,3,5-7) M planned(4,10,11,13) that _ g(1-5) oc(1) _ kp w] r \<open>r = Some p\<close> out by simp
    then show ?thesis using plan by blast
  qed
  then show ?thesis using r by blast
qed simp

definition decode_op :: ds_op where
  "decode_op = \<lparr>ds_kind = LinearOp, transposeA = False, transposeB = False, ds_bias = False, ds_activation = False,
     ds_a = \<lparr>op_shape = [1, 32, 4096], op_layout = Some \<lparr>bufferType = DRAM, memLayout = Some Interleaved, coreRangeSet = None,
       shardShape = [1, 128], tiled_type = Some BFloat16, layoutGrid = [1, 1]\<rparr>, constant_origin = False\<rparr>,
     ds_b = \<lparr>op_shape = [4096, 8192], op_layout = Some \<lparr>bufferType = DRAM, memLayout = Some Interleaved, coreRangeSet = None,
       shardShape = [128, 256], tiled_type = Some BFP_BFloat8, layoutGrid = [1, 1]\<rparr>, constant_origin = True\<rparr>,
     ds_out = \<lparr>op_shape = [1, 32, 8192], op_layout = Some \<lparr>bufferType = DRAM, memLayout = Some Interleaved, coreRangeSet = None,
       shardShape = [1, 256], tiled_type = Some BFloat16, layoutGrid = [1, 1]\<rparr>, constant_origin = False\<rparr>\<rparr>"

definition decode_context :: ds_context where
  "decode_context = \<lparr>dram_sharding_enabled = True, in_module = True, has_system_desc = True, dram_grid = Some [1, 12],
     worker_grid = [8, 8], l1_available = 1424179\<rparr>"

theorem ds_plan_accepted_witness:
  "\<exists>p. buildDSPlan exact_math decode_context decode_op = Inr (Some p) \<and> plan_ok exact_math decode_context p \<and>
    injectable decode_context decode_op \<and> injection_ok exact_math folding_ops decode_context decode_op p"
proof -
  have a: "0 < volume (worker_grid decode_context) 1" "list_all (\<lambda>d. 0 < d) (op_shape (ds_a decode_op))"
    "list_all (\<lambda>d. 0 < d) (op_shape (ds_b decode_op))" and i: "injectable decode_context decode_op"
    and v: "map_sum id (map_option ds_in0BlockW) (buildDSPlan exact_math decode_context decode_op) = Inr (Some 8)"
    by code_simp+
  obtain r where r: "buildDSPlan exact_math decode_context decode_op = Inr r" and spec: "\<And>p. r = Some p \<Longrightarrow>
      plan_ok exact_math decode_context p \<and> injection_ok exact_math folding_ops decode_context decode_op p"
    using ds_plan_accepted [OF exact_math_legal legal_folding a] i by blast
  have "map_option ds_in0BlockW r = Some 8" using v unfolding r by simp
  then obtain p where "r = Some p" by blast
  then show ?thesis using r spec i by blast
qed

text \<open>A batched activation of at most 32 rows is eligible, as one tile row, but its layout pads each
  matrix of the batch to a tile row of its own: the shard that is injected has two tile rows.\<close>

definition batched_op :: ds_op where
  "batched_op = decode_op\<lparr>ds_a := (ds_a decode_op)\<lparr>op_shape := [2, 16, 4096]\<rparr>\<rparr>"

theorem batch_padded_per_matrix:
  "map_sum id (map_option ds_perCoreM) (buildDSPlan exact_math decode_context batched_op) = Inr (Some 1)"
  "map_sum id (map shardShape) (getExtraInputReshardCandidates exact_math folding_ops decode_context batched_op 0) = Inr [[2, 16]]"
  by code_simp+

end
