(* ===== verification/DedupInits.thy ===== *)
theory DedupInits
  imports Prelude
begin

text \<open>
  The removal of redundant init operations from kernels
  (\<open>lib/Dialect/TTKernel/Transforms/DedupInits.cpp\<close>), for one block: the pass treats each block by
  itself, and an operation with regions is one more operation of its block. What the operations do to
  the configuration of the hardware is the record \<open>hw\<close>; the laws that the pass relies on, from its
  comments, are \<open>legal_hw\<close>.
\<close>

section \<open>Operations\<close>

datatype kernel_kind = ReduceInit | ReduceUninit | ReduceTile | InitOp string | ArithOp string | KernelOp string

record kernel_op =
  kop_id :: nat
  kop_kind :: kernel_kind
  kop_operands :: "nat list"
  kop_attrs :: "(string \<times> string) list"

definition hasInitTrait :: "kernel_op \<Rightarrow> bool" where
  "hasInitTrait o1 = (case kop_kind o1 of ReduceInit \<Rightarrow> True | ReduceUninit \<Rightarrow> True | InitOp n \<Rightarrow> True | _ \<Rightarrow> False)"

definition sameInit :: "kernel_op \<Rightarrow> kernel_op \<Rightarrow> bool" where
  "sameInit a b = (kop_kind a = kop_kind b \<and> kop_operands a = kop_operands b \<and> kop_attrs a = kop_attrs b)"

section \<open>The pass\<close>

text \<open>The first walk collects an init operation that repeats the one right before it.\<close>

fun erase_repeated :: "kernel_op option \<Rightarrow> kernel_op list \<Rightarrow> nat list" where
  "erase_repeated prev [] = []"
| "erase_repeated prev (x # xs) =
     (if hasInitTrait x \<and> (case prev of None \<Rightarrow> False | Some p \<Rightarrow> hasInitTrait p \<and> sameInit p x)
      then kop_id x # erase_repeated (Some x) xs
      else erase_repeated (Some x) xs)"

text \<open>The second walk tracks the open reduction and the reset that may turn out to be redundant.\<close>

fun erase_roundtrips :: "kernel_op option \<Rightarrow> kernel_op option \<Rightarrow> kernel_op list \<Rightarrow> nat list" where
  "erase_roundtrips opened pendingUninit [] = []"
| "erase_roundtrips opened pendingUninit (x # xs) =
     (case kop_kind x of
        ReduceInit \<Rightarrow>
          (case (opened, pendingUninit) of
             (Some a, Some u) \<Rightarrow>
               if sameInit a x then kop_id u # kop_id x # erase_roundtrips opened None xs
               else erase_roundtrips (Some x) None xs
           | _ \<Rightarrow> erase_roundtrips (Some x) None xs)
      | ReduceUninit \<Rightarrow> erase_roundtrips opened (Some x) xs
      | ReduceTile \<Rightarrow> erase_roundtrips opened None xs
      | ArithOp n \<Rightarrow> erase_roundtrips opened pendingUninit xs
      | _ \<Rightarrow> erase_roundtrips None None xs)"

definition dedupInits :: "kernel_op list \<Rightarrow> kernel_op list" where
  "dedupInits block =
     (let toErase = erase_repeated None block @ erase_roundtrips None None block
      in filter (\<lambda>x. kop_id x \<notin> set toErase) block)"

section \<open>What a block does\<close>

type_synonym init_key = "kernel_kind \<times> nat list \<times> (string \<times> string) list"

definition key_of :: "kernel_op \<Rightarrow> init_key" where
  "key_of x = (kop_kind x, kop_operands x, kop_attrs x)"

record 'c hw =
  configure :: "init_key \<Rightarrow> 'c \<Rightarrow> 'c"
  effect :: "kernel_op \<Rightarrow> 'c \<Rightarrow> 'c"

definition legal_hw :: "'c hw \<Rightarrow> bool" where
  "legal_hw h \<longleftrightarrow>
     (\<forall>k c. configure h k (configure h k c) = configure h k c) \<and>
     (\<forall>os as us vs c. configure h (ReduceInit, os, as) (configure h (ReduceUninit, us, vs) (configure h (ReduceInit, os, as) c)) =
        configure h (ReduceInit, os, as) c)"

text \<open>Init operations change the configuration, a reduction uses it, index arithmetic neither, and any
  other operation may do both. The result is what each operation saw and the final configuration.\<close>

fun run_block :: "'c hw \<Rightarrow> 'c \<Rightarrow> kernel_op list \<Rightarrow> (kernel_op \<times> 'c option) list \<times> 'c" where
  "run_block h c [] = ([], c)"
| "run_block h c (x # xs) =
     (case kop_kind x of
        ReduceTile \<Rightarrow> (case run_block h c xs of (t, e) \<Rightarrow> ((x, Some c) # t, e))
      | ArithOp n \<Rightarrow> (case run_block h c xs of (t, e) \<Rightarrow> ((x, None) # t, e))
      | KernelOp n \<Rightarrow> (case run_block h (effect h x c) xs of (t, e) \<Rightarrow> ((x, Some c) # t, e))
      | _ \<Rightarrow> run_block h (configure h (key_of x) c) xs)"

text \<open>A reset is followed, after index arithmetic at most, neither by a reduction nor by another reset.\<close>

fun resets_used :: "bool \<Rightarrow> kernel_op list \<Rightarrow> bool" where
  "resets_used pending [] = True"
| "resets_used pending (x # xs) =
     (case kop_kind x of
        ReduceUninit \<Rightarrow> \<not> pending \<and> resets_used True xs
      | ReduceTile \<Rightarrow> \<not> pending \<and> resets_used False xs
      | ArithOp n \<Rightarrow> resets_used pending xs
      | _ \<Rightarrow> resets_used False xs)"


text \<open>
  The kept operations of a block run under the same configurations as in the original block, by a
  simulation of both walks; two blocks where a repeated or used reset is lost.
\<close>

section \<open>The simulation\<close>

lemma erased_ids:
  "set (erase_repeated p xs) \<subseteq> kop_id ` set xs"
  "set (erase_roundtrips a u xs) \<subseteq> kop_id ` set xs \<union> (case u of None \<Rightarrow> {} | Some y \<Rightarrow> {kop_id y})"
proof -
  show "set (erase_repeated p xs) \<subseteq> kop_id ` set xs"
    by (induction p xs rule: erase_repeated.induct) auto
  show "set (erase_roundtrips a u xs) \<subseteq> kop_id ` set xs \<union> (case u of None \<Rightarrow> {} | Some y \<Rightarrow> {kop_id y})"
  proof (induction xs arbitrary: a u)
    case (Cons x xs)
    from Cons [of None None] Cons [of a None] Cons [of "Some x" None] Cons [of a u] Cons [of a "Some x"]
    show ?case by (auto split: kernel_kind.splits option.splits)
  qed simp
qed

text \<open>The state of the two walks before a suffix: without a pending reset the configuration \<open>c\<close> is that of
  the last operation if it is an init operation; the opened reduction is configured in \<open>c\<close>, the
  configuration before the pending reset.\<close>

definition walk_ok ::
  "'c hw \<Rightarrow> kernel_op option \<Rightarrow> kernel_op option \<Rightarrow> kernel_op option \<Rightarrow> 'c \<Rightarrow> kernel_op list \<Rightarrow> bool" where
  "walk_ok h prev opened pending c xs \<longleftrightarrow>
     resets_used (pending \<noteq> None) xs \<and> distinct (map kop_id xs) \<and>
     (\<forall>a. opened = Some a \<longrightarrow> kop_kind a = ReduceInit \<and> configure h (key_of a) c = c) \<and>
     (\<forall>u. pending = Some u \<longrightarrow> kop_kind u = ReduceUninit \<and> kop_id u \<notin> kop_id ` set xs) \<and>
     (\<forall>p. prev = Some p \<longrightarrow> hasInitTrait p \<longrightarrow>
        (if pending = None then kop_kind p \<noteq> ReduceUninit \<and> configure h (key_of p) c = c else kop_kind p = ReduceUninit))"

definition seen :: "'c hw \<Rightarrow> kernel_op option \<Rightarrow> 'c \<Rightarrow> 'c" where
  "seen h pending c = (case pending of None \<Rightarrow> c | Some u \<Rightarrow> configure h (key_of u) c)"

definition seen_kept :: "'c hw \<Rightarrow> nat set \<Rightarrow> kernel_op option \<Rightarrow> 'c \<Rightarrow> 'c" where
  "seen_kept h E pending c = (case pending of None \<Rightarrow> c | Some u \<Rightarrow> if kop_id u \<in> E then c else configure h (key_of u) c)"

definition erased :: "kernel_op option \<Rightarrow> kernel_op option \<Rightarrow> kernel_op option \<Rightarrow> kernel_op list \<Rightarrow> nat set" where
  "erased prev opened pending xs = set (erase_repeated prev xs) \<union> set (erase_roundtrips opened pending xs)"

definition keep :: "nat set \<Rightarrow> kernel_op list \<Rightarrow> kernel_op list" where
  "keep E xs = filter (\<lambda>x. kop_id x \<notin> E) xs"

lemma keep_outside: "A \<inter> kop_id ` set xs = {} \<Longrightarrow> keep (A \<union> E) xs = keep E xs"
  unfolding keep_def by (rule filter_cong) auto

lemma erased_subset:
  "erased prev opened pending xs \<subseteq> kop_id ` set xs \<union> (case pending of None \<Rightarrow> {} | Some u \<Rightarrow> {kop_id u})"
  using erased_ids unfolding erased_def by blast

lemma erased_none: "erased prev opened None xs \<subseteq> kop_id ` set xs"
  using erased_subset [of prev opened None xs] by simp

lemma keep_Cons: "keep E (x # xs) = (if kop_id x \<in> E then keep E xs else x # keep E xs)"
  by (simp add: keep_def)

lemma sameInit_key: "sameInit a b \<Longrightarrow> key_of a = key_of b"
  by (simp add: sameInit_def key_of_def)

abbreviation same_behaviour where
  "same_behaviour h prev opened pending c xs \<equiv>
     run_block h (seen h pending c) xs =
     run_block h (seen_kept h (erased prev opened pending xs) pending c) (keep (erased prev opened pending xs) xs)"

lemma seen_simps [simp]:
  "seen h None c = c" "seen h (Some u) c = configure h (key_of u) c"
  "seen_kept h E None c = c"
  "seen_kept h E (Some u) c = (if kop_id u \<in> E then c else configure h (key_of u) c)"
  by (simp_all add: seen_def seen_kept_def)

text \<open>Without a pending reset.\<close>

lemma step_clear:
  assumes h: "legal_hw h" and ok: "walk_ok h prev opened None c (x # xs)"
    and ih: "\<And>prev opened pending c. walk_ok h prev opened pending c xs \<Longrightarrow> same_behaviour h prev opened pending c xs"
  shows "same_behaviour h prev opened None c (x # xs)"
proof -
  have idem: "configure h k (configure h k d) = configure h k d" for k d using h unfolding legal_hw_def by blast
  have dist: "kop_id x \<notin> kop_id ` set xs" "distinct (map kop_id xs)" using ok by (auto simp: walk_ok_def)
  have out: "kop_id x \<notin> erased p o1 None xs" for p o1 using erased_none [of p o1 xs] dist by blast
  have drop: "keep (insert (kop_id x) E) xs = keep E xs" for E
    using keep_outside [of "{kop_id x}" xs E] dist by simp
  show ?thesis
  proof (cases "hasInitTrait x \<and> (\<exists>p. prev = Some p \<and> hasInitTrait p \<and> sameInit p x)")
    case True
    then obtain p where p: "prev = Some p" "hasInitTrait p" "sameInit p x" "hasInitTrait x" by blast
    have c: "configure h (key_of x) c = c" and k: "kop_kind x \<noteq> ReduceUninit"
      using ok p sameInit_key [OF p(3)] by (auto simp: walk_ok_def sameInit_def)
    show ?thesis
    proof (cases "kop_kind x")
      case ReduceInit
      have "walk_ok h (Some x) (Some x) None c xs"
        using ok c ReduceInit by (auto simp: walk_ok_def)
      from ih [OF this] show ?thesis using p c ReduceInit drop
        by (auto simp: erased_def keep_Cons split: option.splits)
    next
      case (InitOp n)
      have "walk_ok h (Some x) None None c xs" using ok c InitOp by (auto simp: walk_ok_def)
      from ih [OF this] show ?thesis using p c InitOp drop by (auto simp: erased_def keep_Cons)
    qed (use p k in \<open>auto simp: hasInitTrait_def\<close>)
  next
    case False
    then have r1: "erase_repeated prev (x # xs) = erase_repeated (Some x) xs" by (auto split: option.splits)
    show ?thesis
    proof (cases "kop_kind x")
      case ReduceInit
      have e: "erased prev opened None (x # xs) = erased (Some x) (Some x) None xs"
        using r1 ReduceInit by (simp add: erased_def split: option.splits)
      have "walk_ok h (Some x) (Some x) None (configure h (key_of x) c) xs"
        using ok ReduceInit idem by (auto simp: walk_ok_def)
      from ih [OF this] show ?thesis unfolding e using ReduceInit out by (simp add: keep_Cons)
    next
      case ReduceUninit
      have e: "erased prev opened None (x # xs) = erased (Some x) opened (Some x) xs"
        using r1 ReduceUninit by (simp add: erased_def)
      have "walk_ok h (Some x) opened (Some x) c xs"
        using ok ReduceUninit dist by (auto simp: walk_ok_def)
      from ih [OF this] show ?thesis unfolding e using ReduceUninit by (simp add: keep_Cons)
    next
      case ReduceTile
      have e: "erased prev opened None (x # xs) = erased (Some x) opened None xs"
        using r1 ReduceTile by (simp add: erased_def)
      have "walk_ok h (Some x) opened None c xs"
        using ok ReduceTile by (auto simp: walk_ok_def hasInitTrait_def)
      from ih [OF this] show ?thesis unfolding e using ReduceTile out by (simp add: keep_Cons)
    next
      case (InitOp n)
      have e: "erased prev opened None (x # xs) = erased (Some x) None None xs"
        using r1 InitOp by (simp add: erased_def)
      have "walk_ok h (Some x) None None (configure h (key_of x) c) xs"
        using ok InitOp idem by (auto simp: walk_ok_def)
      from ih [OF this] show ?thesis unfolding e using InitOp out by (simp add: keep_Cons)
    next
      case (ArithOp n)
      have e: "erased prev opened None (x # xs) = erased (Some x) opened None xs"
        using r1 ArithOp by (simp add: erased_def)
      have "walk_ok h (Some x) opened None c xs"
        using ok ArithOp by (auto simp: walk_ok_def hasInitTrait_def)
      from ih [OF this] show ?thesis unfolding e using ArithOp out by (simp add: keep_Cons)
    next
      case (KernelOp n)
      have e: "erased prev opened None (x # xs) = erased (Some x) None None xs"
        using r1 KernelOp by (simp add: erased_def)
      have "walk_ok h (Some x) None None (effect h x c) xs"
        using ok KernelOp by (auto simp: walk_ok_def hasInitTrait_def)
      from ih [OF this] show ?thesis unfolding e using KernelOp out by (simp add: keep_Cons)
    qed
  qed
qed

text \<open>With a pending reset.\<close>

lemma step_pending:
  assumes h: "legal_hw h" and ok: "walk_ok h prev opened (Some u) c (x # xs)"
    and ih: "\<And>prev opened pending c. walk_ok h prev opened pending c xs \<Longrightarrow> same_behaviour h prev opened pending c xs"
  shows "same_behaviour h prev opened (Some u) c (x # xs)"
proof -
  have idem: "configure h k (configure h k d) = configure h k d" for k d using h unfolding legal_hw_def by blast
  have dist: "kop_id x \<notin> kop_id ` set xs" "distinct (map kop_id xs)" "kop_id u \<notin> kop_id ` set xs" "kop_id u \<noteq> kop_id x"
    and u: "kop_kind u = ReduceUninit" using ok by (auto simp: walk_ok_def)
  have out: "kop_id x \<notin> erased p o1 None xs" "kop_id u \<notin> erased p o1 None xs" for p o1
    using erased_none [of p o1 xs] dist by blast+
  have outp: "kop_id x \<notin> erased p o1 (Some u) xs" for p o1
    using erased_subset [of p o1 "Some u" xs] dist by auto
  have r1: "erase_repeated prev (x # xs) = erase_repeated (Some x) xs" if "kop_kind x \<noteq> ReduceUninit"
    using that ok by (auto simp: walk_ok_def sameInit_def split: option.splits)
  show ?thesis
  proof (cases "kop_kind x")
    case ReduceInit
    show ?thesis
    proof (cases "\<exists>a. opened = Some a \<and> sameInit a x")
      case True
      then obtain a where a: "opened = Some a" "sameInit a x" by blast
      have c: "configure h (key_of x) c = c" using ok a sameInit_key by (fastforce simp: walk_ok_def)
      have r: "configure h (key_of x) (configure h (key_of u) c) = c"
        using h c ReduceInit u unfolding legal_hw_def key_of_def by metis
      have e: "erased prev opened (Some u) (x # xs) = {kop_id u, kop_id x} \<union> erased (Some x) opened None xs"
        using r1 ReduceInit a by (auto simp: erased_def)
      have "walk_ok h (Some x) opened None c xs" using ok c ReduceInit a by (auto simp: walk_ok_def)
      note same = ih [OF this]
      have "keep ({kop_id u, kop_id x} \<union> erased (Some x) opened None xs) xs = keep (erased (Some x) opened None xs) xs"
        using dist by (intro keep_outside) auto
      then show ?thesis unfolding e using same r ReduceInit by (simp add: keep_Cons)
    next
      case False
      have e: "erased prev opened (Some u) (x # xs) = erased (Some x) (Some x) None xs"
        using r1 ReduceInit False by (auto simp: erased_def split: option.splits)
      have "walk_ok h (Some x) (Some x) None (configure h (key_of x) (configure h (key_of u) c)) xs"
        using ok ReduceInit idem by (auto simp: walk_ok_def)
      from ih [OF this] show ?thesis unfolding e using ReduceInit out by (simp add: keep_Cons)
    qed
  next
    case (InitOp n)
    have e: "erased prev opened (Some u) (x # xs) = erased (Some x) None None xs"
      using r1 InitOp by (simp add: erased_def)
    have "walk_ok h (Some x) None None (configure h (key_of x) (configure h (key_of u) c)) xs"
      using ok InitOp idem by (auto simp: walk_ok_def)
    from ih [OF this] show ?thesis unfolding e using InitOp out by (simp add: keep_Cons)
  next
    case (ArithOp n)
    have e: "erased prev opened (Some u) (x # xs) = erased (Some x) opened (Some u) xs"
      using r1 ArithOp by (simp add: erased_def)
    have "walk_ok h (Some x) opened (Some u) c xs"
      using ok ArithOp dist by (auto simp: walk_ok_def hasInitTrait_def)
    from ih [OF this] show ?thesis unfolding e using ArithOp outp by (simp add: keep_Cons)
  next
    case (KernelOp n)
    have e: "erased prev opened (Some u) (x # xs) = erased (Some x) None None xs"
      using r1 KernelOp by (simp add: erased_def)
    have "walk_ok h (Some x) None None (effect h x (configure h (key_of u) c)) xs"
      using ok KernelOp by (auto simp: walk_ok_def hasInitTrait_def)
    from ih [OF this] show ?thesis unfolding e using KernelOp out by (simp add: keep_Cons)
  qed (use ok in \<open>auto simp: walk_ok_def\<close>)
qed

lemma suffix_keeps:
  assumes "legal_hw h" "walk_ok h prev opened pending c xs"
  shows "same_behaviour h prev opened pending c xs"
  using assms(2)
proof (induction xs arbitrary: prev opened pending c)
  case Nil
  then show ?case by (cases pending) (simp_all add: erased_def keep_def)
next
  case (Cons x xs)
  show ?case
  proof (cases pending)
    case None
    from step_clear [OF assms(1) Cons.prems [unfolded None] Cons.IH] show ?thesis unfolding None .
  next
    case (Some u)
    from step_pending [OF assms(1) Cons.prems [unfolded Some] Cons.IH] show ?thesis unfolding Some .
  qed
qed

text \<open>C17: Removing redundant init operations changes neither the configuration under which any reduction
  or other operation of the block runs nor the one that it leaves, for every hardware where repeating an
  init changes nothing and reopening a reduction undoes its reset, provided that no reset is followed
  directly by a reduction or by another reset.\<close>

theorem dedup_keeps_configurations:
  assumes "legal_hw h" "distinct (map kop_id block)" "resets_used False block"
  shows "run_block h c (dedupInits block) = run_block h c block"
proof -
  have "walk_ok h None None None c block" using assms(2,3) by (simp add: walk_ok_def)
  from suffix_keeps [OF assms(1) this] show ?thesis
    by (simp add: dedupInits_def keep_def erased_def)
qed

section \<open>Concrete blocks\<close>

text \<open>The configuration is the reduction that is set up, if any.\<close>

definition reduce_hw :: "init_key option hw" where
  "reduce_hw = \<lparr>configure = (\<lambda>k c. if fst k = ReduceUninit then None else Some k), effect = (\<lambda>x c. c)\<rparr>"

lemma reduce_hw_legal: "legal_hw reduce_hw"
  by (simp add: legal_hw_def reduce_hw_def)

definition kop :: "nat \<Rightarrow> kernel_kind \<Rightarrow> nat list \<Rightarrow> kernel_op" where
  "kop i k xs = \<lparr>kop_id = i, kop_kind = k, kop_operands = xs, kop_attrs = []\<rparr>"

definition two_reductions :: "kernel_op list" where
  "two_reductions =
     [kop 0 ReduceInit [7, 8], kop 1 ReduceTile [7, 8], kop 2 ReduceUninit [], kop 3 (ArithOp ''addi'') [],
      kop 4 ReduceInit [7, 8], kop 5 ReduceInit [7, 8], kop 6 ReduceTile [7, 8], kop 7 ReduceUninit [],
      kop 8 (KernelOp ''pack_tile'') []]"

theorem dedup_keeps_configurations_witness:
  "map kop_id (dedupInits two_reductions) = [0, 1, 3, 6, 7, 8] \<and>
   run_block reduce_hw None (dedupInits two_reductions) = run_block reduce_hw None two_reductions"
proof -
  have "distinct (map kop_id two_reductions)" "resets_used False two_reductions"
    "map kop_id (dedupInits two_reductions) = [0, 1, 3, 6, 7, 8]" by code_simp+
  then show ?thesis using dedup_keeps_configurations [OF reduce_hw_legal] by blast
qed

definition reset_twice :: "kernel_op list" where
  "reset_twice =
     [kop 0 ReduceInit [7, 8], kop 1 ReduceTile [7, 8], kop 2 ReduceUninit [], kop 3 ReduceUninit [],
      kop 4 ReduceInit [7, 8], kop 5 ReduceTile [7, 8]]"

definition reduce_after_reset :: "kernel_op list" where
  "reduce_after_reset =
     [kop 0 ReduceInit [7, 8], kop 1 ReduceUninit [], kop 2 ReduceTile [7, 8], kop 3 ReduceUninit [],
      kop 4 ReduceInit [7, 8], kop 5 ReduceTile [7, 8]]"

text \<open>Two blocks show that the condition on resets is needed. After a reset that is repeated, and after
  a reduction that runs with a reset pending, the next round trip is erased although the reduction
  is not open: the last reduction then runs in the reset configuration instead of its own.\<close>

theorem dedup_loses_reinit:
  "map kop_id (dedupInits reset_twice) = [0, 1, 2, 5] \<and>
   map snd (fst (run_block reduce_hw None reset_twice)) =
     [Some (Some (ReduceInit, [7, 8], [])), Some (Some (ReduceInit, [7, 8], []))] \<and>
   map snd (fst (run_block reduce_hw None (dedupInits reset_twice))) =
     [Some (Some (ReduceInit, [7, 8], [])), Some None] \<and>
   map kop_id (dedupInits reduce_after_reset) = [0, 1, 2, 5] \<and>
   map snd (fst (run_block reduce_hw None reduce_after_reset)) = [Some None, Some (Some (ReduceInit, [7, 8], []))] \<and>
   map snd (fst (run_block reduce_hw None (dedupInits reduce_after_reset))) = [Some None, Some None]"
  by (intro conjI; code_simp)

end
