(* ===== verification/TopKSplit.thy ===== *)
theory TopKSplit
  imports GridSearch LlvmMath
begin

text \<open>
  How a top-k is split over the worker grid
  (\<open>lib/Dialect/D2M/Analysis/TopKShardingStrategy.cpp\<close>): bands of the reduced dimension, whose partial
  results are merged in rounds, and slices of the other one. Which counts are tried first is the
  parameter \<open>powerOfTwo\<close>; tiles are 32 wide.
\<close>

section \<open>Budget\<close>

record topk_budget =
  usableBytes :: int
  bytesPerLeafTile :: int
  bytesPerMergeTile :: int
  fixedBytes :: int

text \<open>An operand of the leaf: the size of an element, its device shape and whether its indexing map is
  constant.\<close>

record leaf_operand =
  elementBytes :: int
  device_shape :: "int list"
  constant_map :: bool

definition shardTileCount :: "int list \<Rightarrow> int" where
  "shardTileCount sh = volume (drop (length sh - length sh div 2) sh) 1"

fun budget_operand :: "int \<Rightarrow> topk_budget \<Rightarrow> leaf_operand \<Rightarrow> topk_budget" where
  "budget_operand numBuffers b x =
     (let bufferBytes = elementBytes x * numBuffers
      in if constant_map x
         then b\<lparr>fixedBytes := fixedBytes b + 2 * bufferBytes * shardTileCount (device_shape x)\<rparr>
         else b\<lparr>bytesPerLeafTile := bytesPerLeafTile b + bufferBytes\<rparr>)"

definition topKL1Budget :: "leaf_operand list \<Rightarrow> leaf_operand list \<Rightarrow> int \<Rightarrow> int \<Rightarrow> int \<Rightarrow> topk_budget option" where
  "topKL1Budget inputs outputs l1Size l1UnreservedBase numBuffers =
     (let b0 = \<lparr>usableBytes = l1Size - l1UnreservedBase, bytesPerLeafTile = 0, bytesPerMergeTile = 0, fixedBytes = 0\<rparr>;
          b1 = foldl (budget_operand numBuffers) b0 (inputs @ outputs);
          b2 = foldl (\<lambda>b x. b\<lparr>bytesPerMergeTile := bytesPerMergeTile b + elementBytes x * numBuffers\<rparr>) b1 outputs
      in if bytesPerLeafTile b2 > 0 \<and> bytesPerMergeTile b2 > 0 then Some b2 else None)"

section \<open>Merge rounds\<close>

definition pickMergeGroupCount :: "int \<Rightarrow> int \<Rightarrow> int list \<Rightarrow> int" where
  "pickMergeGroupCount bands mergeCap grid =
     (case find (\<lambda>groups. \<not> (bands smod groups \<noteq> 0 \<or> bands sdiv groups > mergeCap) \<and> isLegalVolume grid groups) [1..bands - 1] of
        Some groups \<Rightarrow> groups | None \<Rightarrow> 0)"

lemma pickMergeGroupCount_cases:
  "pickMergeGroupCount bands mergeCap grid = 0 \<or>
   (1 \<le> pickMergeGroupCount bands mergeCap grid \<and> pickMergeGroupCount bands mergeCap grid < bands)"
  by (auto simp: pickMergeGroupCount_def find_Some_iff split: option.splits dest!: nth_mem)

function buildMergeSchedule :: "int \<Rightarrow> int \<Rightarrow> int list \<Rightarrow> int list option" where
  "buildMergeSchedule bands mergeCap grid =
     (if 1 < bands then
        let groups = pickMergeGroupCount bands mergeCap grid
        in if groups = 0 then None else map_option ((#) groups) (buildMergeSchedule groups mergeCap grid)
      else Some [])"
  by pat_completeness auto

termination
proof (relation "measure (\<lambda>(bands, mergeCap, grid). nat bands)")
  fix bands mergeCap :: int and grid groups
  assume "1 < bands" "groups = pickMergeGroupCount bands mergeCap grid" "groups \<noteq> 0"
  then show "((groups, mergeCap, grid), bands, mergeCap, grid) \<in> measure (\<lambda>(bands, mergeCap, grid). nat bands)"
    using pickMergeGroupCount_cases [of bands mergeCap grid] by auto
qed simp

declare buildMergeSchedule.simps [simp del]

section \<open>Splits\<close>

record topk_case =
  tk_k :: int
  tk_dim :: nat
  tk_shape :: "int list"
  tk_grid :: "int list"
  tk_budget :: topk_budget

record topk_strategy =
  outputReductionTiles :: int
  dataParallel :: bool
  multiCore :: bool
  numShards :: int
  paddedReductionTiles :: int
  ntShards :: int
  paddedNonTargetTiles :: int
  mergeSchedule :: "int list"

definition maxTilesPerCore :: "topk_case \<Rightarrow> int" where
  "maxTilesPerCore c =
     max ((usableBytes (tk_budget c) - fixedBytes (tk_budget c)) sdiv bytesPerLeafTile (tk_budget c)) 1"

definition nonTargetTiles :: "llvm_math \<Rightarrow> topk_case \<Rightarrow> int" where
  "nonTargetTiles lm c = divideCeil lm (tk_shape c ! (1 - tk_dim c)) 32"

definition fullReductionTiles :: "llvm_math \<Rightarrow> topk_case \<Rightarrow> int" where
  "fullReductionTiles lm c = divideCeil lm (tk_shape c ! tk_dim c) 32"

definition bandGridLimit :: "topk_case \<Rightarrow> int" where
  "bandGridLimit c = (if tk_dim c = 1 then tk_grid c ! 1 else min (tk_grid c ! 0) (tk_grid c ! 1))"

definition ntGridLimit :: "topk_case \<Rightarrow> int" where
  "ntGridLimit c = (if tk_dim c = 1 then tk_grid c ! 0 else tk_grid c ! 1)"

definition mergeCapFor :: "llvm_math \<Rightarrow> topk_case \<Rightarrow> int \<Rightarrow> int \<Rightarrow> int" where
  "mergeCapFor lm c leafTilesPerCore ntTiles =
     (let b = tk_budget c; remaining = usableBytes b - fixedBytes b - leafTilesPerCore * bytesPerLeafTile b
      in remaining sdiv (bytesPerMergeTile b * divideCeil lm (tk_k c) 32 * ntTiles))"

definition placeable :: "topk_case \<Rightarrow> int \<Rightarrow> int \<Rightarrow> bool" where
  "placeable c bands nt =
     (if bands > 1 \<and> nt > 1 then bands \<le> bandGridLimit c \<and> nt \<le> ntGridLimit c
      else isLegalVolume (tk_grid c) (bands * nt))"

definition band_tiles :: "llvm_math \<Rightarrow> topk_case \<Rightarrow> int \<Rightarrow> int" where
  "band_tiles lm c bands =
     (if bands = 1 then max (fullReductionTiles lm c) 2 else divideCeil lm (fullReductionTiles lm c) bands)"

definition accept :: "llvm_math \<Rightarrow> topk_case \<Rightarrow> int \<Rightarrow> int \<Rightarrow> topk_strategy option" where
  "accept lm c bands nt =
     (let bandTiles = band_tiles lm c bands; ntTiles = divideCeil lm (nonTargetTiles lm c) nt
      in if bands > 1 \<and> bandTiles < 2 then None
         else if bandTiles * ntTiles > maxTilesPerCore c then None
         else if \<not> placeable c bands nt then None
         else map_option (\<lambda>schedule.
               \<lparr>outputReductionTiles = divideCeil lm (tk_k c) 32, dataParallel = (nt > 1), multiCore = (bands > 1),
                numShards = bands, paddedReductionTiles = bands * bandTiles,
                ntShards = nt, paddedNonTargetTiles = nt * ntTiles, mergeSchedule = schedule\<rparr>)
             (if bands > 1 then buildMergeSchedule bands (mergeCapFor lm c (bandTiles * ntTiles) ntTiles) (tk_grid c)
              else Some []))"

fun first_accepted :: "('a \<Rightarrow> 'b option) \<Rightarrow> 'a list \<Rightarrow> 'b option" where
  "first_accepted f [] = None"
| "first_accepted f (x # xs) = (case f x of None \<Rightarrow> first_accepted f xs | Some y \<Rightarrow> Some y)"

definition scanPowerOfTwoFirst :: "(int \<Rightarrow> bool) \<Rightarrow> int \<Rightarrow> int \<Rightarrow> (int \<Rightarrow> 'b option) \<Rightarrow> 'b option" where
  "scanPowerOfTwoFirst powerOfTwo lo hi f =
     (case first_accepted f (filter powerOfTwo [lo..hi]) of
        Some s \<Rightarrow> Some s
      | None \<Rightarrow> first_accepted f [lo..hi])"

definition selectTopKShardingStrategy ::
  "llvm_math \<Rightarrow> (int \<Rightarrow> bool) \<Rightarrow> topk_case \<Rightarrow> topk_strategy option" where
  "selectTopKShardingStrategy lm powerOfTwo c =
     (let maxGridCores = tk_grid c ! 0 * tk_grid c ! 1
      in case accept lm c 1 1 of
           Some s \<Rightarrow> Some s
         | None \<Rightarrow>
             (case scanPowerOfTwoFirst powerOfTwo 2 maxGridCores (\<lambda>bands. accept lm c bands 1) of
                Some s \<Rightarrow> Some s
              | None \<Rightarrow>
                  (case first_accepted (\<lambda>nt. accept lm c 1 nt) (rev [2..min (nonTargetTiles lm c) maxGridCores]) of
                     Some s \<Rightarrow> Some s
                   | None \<Rightarrow>
                       scanPowerOfTwoFirst powerOfTwo 2 (bandGridLimit c)
                         (\<lambda>bands. first_accepted (\<lambda>nt. accept lm c bands nt) [2..ntGridLimit c]))))"


text \<open>
  Splits of a top-k: the greedy merge schedule exists whenever any does, because divisors of a legal number
  of cores are legal; with this the selection is exact on the counts that it searches.
\<close>

section \<open>Volumes\<close>

text \<open>A volume is legal when it is the product of sides that fit the grid.\<close>

lemma tk_legal_volume_iff:
  assumes "length grid = 2" "0 < grid ! 0" "0 < grid ! 1" "0 < v"
  shows "isLegalVolume grid v \<longleftrightarrow> (\<exists>y x. 0 < y \<and> 0 < x \<and> y * x = v \<and> y \<le> grid ! 0 \<and> x \<le> grid ! 1)"
  using legal_grid [of v grid] assms unfolding isLegalVolume_def fits_target_def by auto

lemma isLegalVolume_divisor:
  assumes g: "length grid = 2" "0 < grid ! 0" "0 < grid ! 1" and v: "isLegalVolume grid v" "0 < v" and d: "d dvd v" "0 < d"
  shows "isLegalVolume grid d"
proof -
  obtain y x where yx: "0 < y" "0 < x" "y * x = v" "y \<le> grid ! 0" "x \<le> grid ! 1"
    using tk_legal_volume_iff [OF g v(2)] v(1) by blast
  obtain a b where ab: "d = a * b" "a dvd y" "b dvd x" using division_decomp [of d y x] d(1) yx(3) by blast
  have "\<bar>a\<bar> \<le> y" "\<bar>b\<bar> \<le> x" using zdvd_imp_le [of "\<bar>a\<bar>" y] zdvd_imp_le [of "\<bar>b\<bar>" x] ab yx by simp_all
  moreover have "\<bar>a\<bar> * \<bar>b\<bar> = d" "0 < \<bar>a\<bar>" "0 < \<bar>b\<bar>" using ab(1) d(2) by (auto simp: abs_mult [symmetric])
  ultimately show ?thesis unfolding tk_legal_volume_iff [OF g d(2)] using yx
    by (intro exI [of _ "\<bar>a\<bar>"] exI [of _ "\<bar>b\<bar>"]) auto
qed

section \<open>Merge rounds\<close>

text \<open>A chain of rounds from a number of bands to one: every round divides the bands into equal groups of
  a size that \<open>fits\<close>, on a number of cores that the grid can hold.\<close>

fun merge_rounds :: "int list \<Rightarrow> (int \<Rightarrow> bool) \<Rightarrow> int \<Rightarrow> int list \<Rightarrow> bool" where
  "merge_rounds grid fits bands [] = (bands = 1)"
| "merge_rounds grid fits bands (g # gs) =
     (0 < g \<and> g < bands \<and> g dvd bands \<and> fits (bands div g) \<and> isLegalVolume grid g \<and> merge_rounds grid fits g gs)"

abbreviation merge_chain :: "int list \<Rightarrow> int \<Rightarrow> int \<Rightarrow> int list \<Rightarrow> bool" where
  "merge_chain grid cap \<equiv> merge_rounds grid (\<lambda>q. q \<le> cap)"

lemma merge_rounds_cong:
  "(\<And>q. 0 < q \<Longrightarrow> f q = g q) \<Longrightarrow> 0 < bands \<Longrightarrow> merge_rounds grid f bands s = merge_rounds grid g bands s"
proof (induction s arbitrary: bands)
  case (Cons b s)
  have "0 < bands div b" if "0 < b" "b < bands" using that by (simp add: pos_imp_zdiv_pos_iff)
  then show ?case using Cons by auto
qed simp

lemma pick_Some:
  assumes "1 < bands"
  shows "pickMergeGroupCount bands cap grid \<noteq> 0 \<longleftrightarrow>
    (\<exists>g. 0 < g \<and> g < bands \<and> g dvd bands \<and> bands div g \<le> cap \<and> isLegalVolume grid g)"
    and "pickMergeGroupCount bands cap grid = g \<Longrightarrow> g \<noteq> 0 \<Longrightarrow>
      0 < g \<and> g < bands \<and> g dvd bands \<and> bands div g \<le> cap \<and> isLegalVolume grid g"
proof -
  have cond: "\<not> (bands smod g \<noteq> 0 \<or> bands sdiv g > cap) \<longleftrightarrow> g dvd bands \<and> bands div g \<le> cap" if "0 < g" for g
    using that assms by (auto simp: signed_modulo_int_def signed_divide_int_def dvd_eq_mod_eq_0)
  let ?P = "\<lambda>g. \<not> (bands smod g \<noteq> 0 \<or> bands sdiv g > cap) \<and> isLegalVolume grid g"
  show "pickMergeGroupCount bands cap grid \<noteq> 0 \<longleftrightarrow>
    (\<exists>g. 0 < g \<and> g < bands \<and> g dvd bands \<and> bands div g \<le> cap \<and> isLegalVolume grid g)"
  proof (cases "find ?P [1..bands - 1]")
    case None
    then have "\<not> ?P g" if "0 < g" "g < bands" for g using that by (auto simp: find_None_iff)
    then show ?thesis using None cond unfolding pickMergeGroupCount_def by auto
  next
    case (Some g)
    then have "g \<in> set [1..bands - 1]" "?P g" by (auto simp: find_Some_iff dest!: nth_mem)
    then have "0 < g" "g < bands" "?P g" by simp_all
    then show ?thesis using Some cond [of g] unfolding pickMergeGroupCount_def by auto
  qed
  assume g: "pickMergeGroupCount bands cap grid = g" "g \<noteq> 0"
  then have "find ?P [1..bands - 1] = Some g" by (auto simp: pickMergeGroupCount_def split: option.splits)
  then have "g \<in> set [1..bands - 1]" "?P g" by (auto simp: find_Some_iff dest!: nth_mem)
  then show "0 < g \<and> g < bands \<and> g dvd bands \<and> bands div g \<le> cap \<and> isLegalVolume grid g" using cond [of g] by auto
qed

lemma buildMergeSchedule_chain:
  "1 \<le> bands \<Longrightarrow> buildMergeSchedule bands cap grid = Some s \<Longrightarrow> merge_chain grid cap bands s"
proof (induction bands cap grid arbitrary: s rule: buildMergeSchedule.induct)
  case (1 bands cap grid)
  show ?case
  proof (cases "1 < bands")
    case True
    let ?g = "pickMergeGroupCount bands cap grid"
    have g: "?g \<noteq> 0" using 1(3) True by (auto simp: buildMergeSchedule.simps [of bands] Let_def)
    then obtain s' where s': "s = ?g # s'" "buildMergeSchedule ?g cap grid = Some s'"
      using 1(3) True by (auto simp: buildMergeSchedule.simps [of bands] Let_def)
    have "merge_chain grid cap ?g s'" using 1(1) [OF True refl g _ s'(2)] pick_Some(2) [OF True refl g] by simp
    then show ?thesis using pick_Some(2) [OF True refl g] s'(1) by simp
  next
    case False
    then show ?thesis using 1(2,3) by (auto simp: buildMergeSchedule.simps [of 1])
  qed
qed

text \<open>A divisor of a number of bands has a chain when the bands have one.\<close>

lemma merge_chain_divisor:
  assumes g: "length grid = 2" "0 < grid ! 0" "0 < grid ! 1"
  shows "merge_chain grid cap bands s \<Longrightarrow> d dvd bands \<Longrightarrow> 0 < d \<Longrightarrow> \<exists>s'. merge_chain grid cap d s'"
proof (induction s arbitrary: bands d)
  case Nil
  then have "d = 1" by simp
  then show ?case by (intro exI [of _ "[]"]) simp
next
  case (Cons b s)
  then have b: "0 < b" "b < bands" "b dvd bands" "bands div b \<le> cap" "isLegalVolume grid b" "merge_chain grid cap b s"
    by simp_all
  let ?e = "gcd d b"
  have e: "0 < ?e" "?e dvd b" "?e dvd d" using Cons.prems(3) by simp_all
  then obtain s' where s': "merge_chain grid cap ?e s'" using Cons.IH [OF b(6)] by blast
  show ?case
  proof (cases "?e = d")
    case True
    then show ?thesis using s' by auto
  next
    case False
    have "?e < d" using False e zdvd_imp_le [OF e(3) Cons.prems(3)] by simp
    have "coprime (d div ?e) (b div ?e)" using e(1) by (intro div_gcd_coprime) auto
    moreover have "d div ?e dvd (b div ?e) * (bands div b)"
    proof -
      have "bands = ?e * ((b div ?e) * (bands div b))" using e(2) b(3) by (simp add: mult.assoc [symmetric])
      moreover have "d = ?e * (d div ?e)" using e(3) by simp
      ultimately have "?e * (d div ?e) dvd ?e * ((b div ?e) * (bands div b))" using Cons.prems(2) by metis
      then show ?thesis using Cons.prems(3) unfolding dvd_mult_cancel_left by simp
    qed
    ultimately have "d div ?e dvd bands div b" by (metis coprime_dvd_mult_right_iff)
    moreover have "0 < bands div b" using b(1,2) by (simp add: pos_imp_zdiv_pos_iff)
    ultimately have "d div ?e \<le> cap" using zdvd_imp_le b(4) by (meson order_trans)
    moreover have "isLegalVolume grid ?e" by (rule isLegalVolume_divisor [OF g b(5,1) e(2,1)])
    ultimately show ?thesis using s' e \<open>?e < d\<close> by (intro exI [of _ "?e # s'"]) simp
  qed
qed

lemma buildMergeSchedule_complete:
  "length grid = 2 \<Longrightarrow> 0 < grid ! 0 \<Longrightarrow> 0 < grid ! 1 \<Longrightarrow> merge_chain grid cap bands s \<Longrightarrow>
   \<exists>s'. buildMergeSchedule bands cap grid = Some s'"
proof (induction bands cap grid arbitrary: s rule: buildMergeSchedule.induct)
  case (1 bands cap grid)
  show ?case
  proof (cases "1 < bands")
    case True
    then obtain b t where s: "s = b # t" using 1(5) by (cases s) auto
    let ?g = "pickMergeGroupCount bands cap grid"
    have ex: "?g \<noteq> 0" using 1(5) unfolding pick_Some(1) [OF True] s by auto
    note p = pick_Some(2) [OF True refl ex]
    obtain u where "merge_chain grid cap ?g u" using merge_chain_divisor [OF 1(2-5)] p by blast
    then obtain s' where "buildMergeSchedule ?g cap grid = Some s'" using 1(1) [OF True refl ex 1(2-4)] by blast
    then show ?thesis using True ex by (simp add: buildMergeSchedule.simps [of bands])
  next
    case False
    then show ?thesis by (simp add: buildMergeSchedule.simps [of bands])
  qed
qed

section \<open>Splits\<close>

lemma first_accepted_iff:
  "(first_accepted f xs = None \<longleftrightarrow> (\<forall>x\<in>set xs. f x = None)) \<and>
   (first_accepted f xs = Some y \<longrightarrow> (\<exists>x\<in>set xs. f x = Some y))"
  by (induction xs) (auto split: option.splits)

lemma scanPowerOfTwoFirst_iff:
  "(scanPowerOfTwoFirst p lo hi f = None \<longleftrightarrow> (\<forall>x\<in>{lo..hi}. f x = None)) \<and>
   (scanPowerOfTwoFirst p lo hi f = Some y \<longrightarrow> (\<exists>x\<in>{lo..hi}. f x = Some y))"
  using first_accepted_iff [of f "filter p [lo..hi]" y] first_accepted_iff [of f "[lo..hi]" y]
  unfolding scanPowerOfTwoFirst_def by (auto split: option.splits)

text \<open>The counts that the search goes through.\<close>

definition searched :: "llvm_math \<Rightarrow> topk_case \<Rightarrow> int \<Rightarrow> int \<Rightarrow> bool" where
  "searched lm c bands nt \<longleftrightarrow>
     (let cores = tk_grid c ! 0 * tk_grid c ! 1
      in bands = 1 \<and> nt = 1 \<or> 2 \<le> bands \<and> bands \<le> cores \<and> nt = 1 \<or>
         bands = 1 \<and> 2 \<le> nt \<and> nt \<le> min (nonTargetTiles lm c) cores \<or>
         2 \<le> bands \<and> bands \<le> bandGridLimit c \<and> 2 \<le> nt \<and> nt \<le> ntGridLimit c)"

lemma four_ranges:
  "(P e e \<and> (\<forall>x\<in>A. P x e) \<and> (\<forall>y\<in>B. P e y) \<and> (\<forall>x\<in>C. \<forall>y\<in>D. P x y)) =
   (\<forall>x y. x = e \<and> y = e \<or> x \<in> A \<and> y = e \<or> x = e \<and> y \<in> B \<or> x \<in> C \<and> y \<in> D \<longrightarrow> P x y)"
  by blast

lemma select_searched:
  "(selectTopKShardingStrategy lm p c = None \<longleftrightarrow> (\<forall>bands nt. searched lm c bands nt \<longrightarrow> accept lm c bands nt = None)) \<and>
   (selectTopKShardingStrategy lm p c = Some s \<longrightarrow> (\<exists>bands nt. searched lm c bands nt \<and> accept lm c bands nt = Some s))"
proof -
  let ?cores = "tk_grid c ! 0 * tk_grid c ! 1" and ?f = "\<lambda>bands. first_accepted (accept lm c bands) [2..ntGridLimit c]"
  let ?b = "scanPowerOfTwoFirst p 2 ?cores (\<lambda>bands. accept lm c bands 1)"
  let ?n = "first_accepted (accept lm c 1) (rev [2..min (nonTargetTiles lm c) ?cores])"
  let ?t = "scanPowerOfTwoFirst p 2 (bandGridLimit c) ?f"
  have sel: "selectTopKShardingStrategy lm p c =
    (case accept lm c 1 1 of Some s \<Rightarrow> Some s | None \<Rightarrow>
     (case ?b of Some s \<Rightarrow> Some s | None \<Rightarrow> (case ?n of Some s \<Rightarrow> Some s | None \<Rightarrow> ?t)))"
    unfolding selectTopKShardingStrategy_def Let_def ..
  have b: "(?b = None \<longleftrightarrow> (\<forall>x\<in>{2..?cores}. accept lm c x 1 = None))" "(?b = Some s \<longrightarrow> (\<exists>x\<in>{2..?cores}. accept lm c x 1 = Some s))"
    using scanPowerOfTwoFirst_iff [of p 2 ?cores "\<lambda>bands. accept lm c bands 1" s] by blast+
  have n: "(?n = None \<longleftrightarrow> (\<forall>x\<in>{2..min (nonTargetTiles lm c) ?cores}. accept lm c 1 x = None))"
    "(?n = Some s \<longrightarrow> (\<exists>x\<in>{2..min (nonTargetTiles lm c) ?cores}. accept lm c 1 x = Some s))"
    using first_accepted_iff [of "accept lm c 1" "rev [2..min (nonTargetTiles lm c) ?cores]" s] by auto
  have f: "?f x = None \<longleftrightarrow> (\<forall>y\<in>{2..ntGridLimit c}. accept lm c x y = None)"
    "?f x = Some s \<Longrightarrow> \<exists>y\<in>{2..ntGridLimit c}. accept lm c x y = Some s" for x
    using first_accepted_iff [of "accept lm c x" "[2..ntGridLimit c]" s] by auto
  have t: "(?t = None \<longleftrightarrow> (\<forall>x\<in>{2..bandGridLimit c}. \<forall>y\<in>{2..ntGridLimit c}. accept lm c x y = None))"
    "(?t = Some s \<longrightarrow> (\<exists>x\<in>{2..bandGridLimit c}. \<exists>y\<in>{2..ntGridLimit c}. accept lm c x y = Some s))"
    using scanPowerOfTwoFirst_iff [of p 2 "bandGridLimit c" ?f s] f by blast+
  have none: "selectTopKShardingStrategy lm p c = None \<longleftrightarrow> accept lm c 1 1 = None \<and> ?b = None \<and> ?n = None \<and> ?t = None"
    unfolding sel by (auto split: option.splits)
  have some: "selectTopKShardingStrategy lm p c = Some s \<Longrightarrow> accept lm c 1 1 = Some s \<or> ?b = Some s \<or> ?n = Some s \<or> ?t = Some s"
    unfolding sel by (auto split: option.splits)
  have ranges: "searched lm c x y \<longleftrightarrow> (x = 1 \<and> y = 1) \<or> (x \<in> {2..?cores} \<and> y = 1) \<or>
      (x = 1 \<and> y \<in> {2..min (nonTargetTiles lm c) ?cores}) \<or> (x \<in> {2..bandGridLimit c} \<and> y \<in> {2..ntGridLimit c})" for x y
    unfolding searched_def Let_def atLeastAtMost_iff by blast
  have "selectTopKShardingStrategy lm p c = None \<longleftrightarrow> (\<forall>bands nt. searched lm c bands nt \<longrightarrow> accept lm c bands nt = None)"
    unfolding none b(1) n(1) t(1) ranges by (rule four_ranges)
  moreover have "\<exists>bands nt. searched lm c bands nt \<and> accept lm c bands nt = Some s"
    if "selectTopKShardingStrategy lm p c = Some s"
    using some [OF that] b(2) n(2) t(2) unfolding ranges by blast
  ultimately show ?thesis by blast
qed

definition round_bytes :: "llvm_math \<Rightarrow> topk_case \<Rightarrow> int \<Rightarrow> int" where
  "round_bytes lm c ntTiles = bytesPerMergeTile (tk_budget c) * divideCeil lm (tk_k c) 32 * ntTiles"

text \<open>The contract of a split: the shard of a core and the widest round fit the memory together, the cores
  fit the grid, and the rounds merge all bands.\<close>

definition split_fits :: "llvm_math \<Rightarrow> topk_case \<Rightarrow> int \<Rightarrow> int \<Rightarrow> int list \<Rightarrow> bool" where
  "split_fits lm c bands nt schedule \<longleftrightarrow>
     (let b = tk_budget c; bandTiles = band_tiles lm c bands; ntTiles = divideCeil lm (nonTargetTiles lm c) nt;
          leaf = fixedBytes b + bandTiles * ntTiles * bytesPerLeafTile b
      in 2 \<le> bandTiles \<and> leaf \<le> usableBytes b \<and> placeable c bands nt \<and>
         merge_rounds (tk_grid c) (\<lambda>group. leaf + group * round_bytes lm c ntTiles \<le> usableBytes b) bands schedule)"

definition topk_ok :: "topk_case \<Rightarrow> bool" where
  "topk_ok c \<longleftrightarrow>
     tk_dim c \<le> 1 \<and> length (tk_shape c) = 2 \<and> list_all (\<lambda>d. 0 < d) (tk_shape c) \<and> 0 < tk_k c \<and>
     length (tk_grid c) = 2 \<and> 0 < tk_grid c ! 0 \<and> 0 < tk_grid c ! 1 \<and>
     0 < bytesPerLeafTile (tk_budget c) \<and> 0 < bytesPerMergeTile (tk_budget c)"

lemma tiles_positive:
  assumes "legal_llvm_math lm" "topk_ok c"
  shows "0 < nonTargetTiles lm c" "0 < fullReductionTiles lm c"
proof -
  have "0 < tk_shape c ! (1 - tk_dim c)" "0 < tk_shape c ! tk_dim c"
    using assms(2) by (auto simp: topk_ok_def list_all_length)
  then show "0 < nonTargetTiles lm c" "0 < fullReductionTiles lm c"
    using divideCeil_covers(3) [OF assms(1)] by (simp_all add: nonTargetTiles_def fullReductionTiles_def)
qed

lemma le_sdiv_iff:
  fixes a l t :: int
  assumes "0 < l" "0 \<le> a"
  shows "t \<le> a sdiv l \<longleftrightarrow> t * l \<le> a"
proof -
  have e: "a sdiv l = a div l" using assms by (simp add: signed_divide_int_def sgn_if)
  have m: "a div l * l \<le> a" using assms pos_mod_sign [of l a] div_mult_mod_eq [of a l] by linarith
  show ?thesis unfolding e
  proof
    assume "t \<le> a div l"
    then have "t * l \<le> a div l * l" using assms by (simp add: mult_right_mono)
    then show "t * l \<le> a" using m by linarith
  next
    assume "t * l \<le> a"
    then have "t * l div l \<le> a div l" by (rule zdiv_mono1 [OF _ assms(1)])
    moreover have "t * l div l = t" using assms(1) by simp
    ultimately show "t \<le> a div l" by metis
  qed
qed

lemma leaf_bound:
  fixes t l u f :: int
  assumes "2 \<le> t" "0 < l"
  shows "t \<le> max ((u - f) sdiv l) 1 \<longleftrightarrow> f + t * l \<le> u"
proof (cases "0 \<le> u - f")
  case True
  then show ?thesis using le_sdiv_iff [OF assms(2) True, of t] assms(1) by (auto simp: algebra_simps)
next
  case False
  then have "(u - f) sdiv l = - (\<bar>u - f\<bar> div l)" using assms by (simp add: signed_divide_int_def sgn_if)
  moreover have "0 \<le> \<bar>u - f\<bar> div l" using assms by (simp add: pos_imp_zdiv_nonneg_iff)
  moreover have "0 < t * l" using assms by simp
  ultimately show ?thesis using False assms(1) by linarith
qed

lemma accept_cases:
  assumes lm: "legal_llvm_math lm" and ok: "topk_ok c" and b: "1 \<le> bands" "1 \<le> nt"
  defines "bt \<equiv> band_tiles lm c bands" and "nn \<equiv> divideCeil lm (nonTargetTiles lm c) nt"
  shows "accept lm c bands nt =
    (if 2 \<le> bt \<and> fixedBytes (tk_budget c) + bt * nn * bytesPerLeafTile (tk_budget c) \<le> usableBytes (tk_budget c) \<and> placeable c bands nt
     then map_option (\<lambda>schedule.
        \<lparr>outputReductionTiles = divideCeil lm (tk_k c) 32, dataParallel = (nt > 1), multiCore = (bands > 1),
         numShards = bands, paddedReductionTiles = bands * bt, ntShards = nt, paddedNonTargetTiles = nt * nn,
         mergeSchedule = schedule\<rparr>)
       (buildMergeSchedule bands (mergeCapFor lm c (bt * nn) nn) (tk_grid c))
     else None)"
proof -
  have nn: "1 \<le> nn" using divideCeil_covers(3) [OF lm] tiles_positive(1) [OF lm ok] b(2) unfolding nn_def by (smt (verit))
  have two: "2 \<le> bt" if "bands = 1" using that by (simp add: bt_def band_tiles_def)
  have "2 \<le> bt * nn" if "2 \<le> bt" using mult_mono [of 2 bt 1 nn] that nn by simp
  then have leaf: "bt * nn > maxTilesPerCore c \<longleftrightarrow>
      \<not> fixedBytes (tk_budget c) + bt * nn * bytesPerLeafTile (tk_budget c) \<le> usableBytes (tk_budget c)" if "2 \<le> bt"
    using leaf_bound [of "bt * nn" "bytesPerLeafTile (tk_budget c)" "usableBytes (tk_budget c)" "fixedBytes (tk_budget c)"] that ok
    unfolding maxTilesPerCore_def topk_ok_def by linarith
  have one: "buildMergeSchedule 1 cap grid = Some []" for cap grid by (simp add: buildMergeSchedule.simps [of 1])
  show ?thesis
  proof (cases "2 \<le> bt")
    case True
    then show ?thesis using leaf [OF True] b one unfolding accept_def Let_def bt_def [symmetric] nn_def [symmetric]
      by (cases "bands = 1") simp_all
  next
    case False
    then show ?thesis using two b unfolding accept_def Let_def bt_def [symmetric] nn_def [symmetric] by auto
  qed
qed

lemma mergeCap_iff:
  assumes lm: "legal_llvm_math lm" and ok: "topk_ok c" and n: "1 \<le> n"
    and leaf: "fixedBytes (tk_budget c) + t * n * bytesPerLeafTile (tk_budget c) \<le> usableBytes (tk_budget c)"
  shows "q \<le> mergeCapFor lm c (t * n) n \<longleftrightarrow>
    fixedBytes (tk_budget c) + t * n * bytesPerLeafTile (tk_budget c) + q * round_bytes lm c n \<le> usableBytes (tk_budget c)"
proof -
  have "0 < divideCeil lm (tk_k c) 32" using divideCeil_covers(3) [OF lm] ok by (simp add: topk_ok_def)
  then have r: "0 < round_bytes lm c n" using ok n by (simp add: round_bytes_def topk_ok_def)
  show ?thesis
    unfolding mergeCapFor_def Let_def round_bytes_def [symmetric]
    using le_sdiv_iff [OF r, of "usableBytes (tk_budget c) - fixedBytes (tk_budget c) - t * n * bytesPerLeafTile (tk_budget c)" q] leaf
    by linarith
qed

lemma accept_iff:
  assumes lm: "legal_llvm_math lm" and ok: "topk_ok c" and b: "1 \<le> bands" "1 \<le> nt"
  shows "accept lm c bands nt = None \<longleftrightarrow> \<not> (\<exists>s. split_fits lm c bands nt s)"
    and "accept lm c bands nt = Some st \<Longrightarrow> split_fits lm c bands nt (mergeSchedule st) \<and>
      numShards st = bands \<and> ntShards st = nt \<and> multiCore st = (1 < bands) \<and> dataParallel st = (1 < nt) \<and>
      outputReductionTiles st = divideCeil lm (tk_k c) 32 \<and>
      paddedReductionTiles st = bands * band_tiles lm c bands \<and>
      paddedNonTargetTiles st = nt * divideCeil lm (nonTargetTiles lm c) nt"
proof -
  let ?t = "band_tiles lm c bands" and ?n = "divideCeil lm (nonTargetTiles lm c) nt"
  let ?leaf = "fixedBytes (tk_budget c) + ?t * ?n * bytesPerLeafTile (tk_budget c)" and ?u = "usableBytes (tk_budget c)"
  let ?cap = "mergeCapFor lm c (?t * ?n) ?n"
  have n: "1 \<le> ?n" using divideCeil_covers(3) [OF lm, of "nonTargetTiles lm c" nt] tiles_positive(1) [OF lm ok] b(2) by linarith
  have g: "length (tk_grid c) = 2" "0 < tk_grid c ! 0" "0 < tk_grid c ! 1" using ok by (simp_all add: topk_ok_def)
  have chain: "merge_rounds (tk_grid c) (\<lambda>group. ?leaf + group * round_bytes lm c ?n \<le> ?u) bands s \<longleftrightarrow>
      merge_chain (tk_grid c) ?cap bands s" if "?leaf \<le> ?u" for s
    using mergeCap_iff [OF lm ok n that] b(1) by (intro merge_rounds_cong) simp_all
  have fits: "split_fits lm c bands nt s \<longleftrightarrow> 2 \<le> ?t \<and> ?leaf \<le> ?u \<and> placeable c bands nt \<and> merge_chain (tk_grid c) ?cap bands s" for s
    unfolding split_fits_def Let_def using chain by blast
  have sched: "(\<exists>s. merge_chain (tk_grid c) ?cap bands s) \<longleftrightarrow> buildMergeSchedule bands ?cap (tk_grid c) \<noteq> None"
    using buildMergeSchedule_chain [OF b(1)] buildMergeSchedule_complete [OF g] by (metis option.distinct(1) option.exhaust)
  note a = accept_cases [OF lm ok b]
  show "accept lm c bands nt = None \<longleftrightarrow> \<not> (\<exists>s. split_fits lm c bands nt s)"
    unfolding a fits using sched by auto
  assume st: "accept lm c bands nt = Some st"
  then obtain s where s: "buildMergeSchedule bands ?cap (tk_grid c) = Some s" "2 \<le> ?t" "?leaf \<le> ?u" "placeable c bands nt"
    and e: "st = \<lparr>outputReductionTiles = divideCeil lm (tk_k c) 32, dataParallel = (nt > 1), multiCore = (bands > 1),
         numShards = bands, paddedReductionTiles = bands * ?t, ntShards = nt, paddedNonTargetTiles = nt * ?n, mergeSchedule = s\<rparr>"
    unfolding a by (auto split: if_splits)
  show "split_fits lm c bands nt (mergeSchedule st) \<and>
      numShards st = bands \<and> ntShards st = nt \<and> multiCore st = (1 < bands) \<and> dataParallel st = (1 < nt) \<and>
      outputReductionTiles st = divideCeil lm (tk_k c) 32 \<and>
      paddedReductionTiles st = bands * band_tiles lm c bands \<and>
      paddedNonTargetTiles st = nt * divideCeil lm (nonTargetTiles lm c) nt"
    unfolding fits e using s buildMergeSchedule_chain [OF b(1) s(1)] by simp
qed

text \<open>What a strategy promises: the padded shards cover both dimensions and the split fits.\<close>

definition strategy_ok :: "llvm_math \<Rightarrow> topk_case \<Rightarrow> topk_strategy \<Rightarrow> bool" where
  "strategy_ok lm c s \<longleftrightarrow>
     1 \<le> numShards s \<and> 1 \<le> ntShards s \<and> multiCore s = (1 < numShards s) \<and> dataParallel s = (1 < ntShards s) \<and>
     fullReductionTiles lm c \<le> paddedReductionTiles s \<and> nonTargetTiles lm c \<le> paddedNonTargetTiles s \<and>
     numShards s dvd paddedReductionTiles s \<and> ntShards s dvd paddedNonTargetTiles s \<and>
     tk_k c \<le> 32 * outputReductionTiles s \<and>
     split_fits lm c (numShards s) (ntShards s) (mergeSchedule s)"

text \<open>C18: The split of a top-k is decided exactly. A strategy that is selected covers both dimensions, its
  cores fit the grid, and the shard of a core fits the memory together with every round of a merge
  that ends with one band; and when none is selected, no split among the counts that are searched has a
  merge schedule, however chosen, that fits. Which counts are powers of two only affects the choice.\<close>

theorem topk_split_decided:
  assumes lm: "legal_llvm_math lm" and ok: "topk_ok c"
  shows "(\<forall>s. selectTopKShardingStrategy lm p c = Some s \<longrightarrow> strategy_ok lm c s) \<and>
    (selectTopKShardingStrategy lm p c = None \<longleftrightarrow>
      \<not> (\<exists>bands nt schedule. searched lm c bands nt \<and> split_fits lm c bands nt schedule))"
proof -
  have pos: "1 \<le> bands" "1 \<le> nt" if "searched lm c bands nt" for bands nt
    using that by (auto simp: searched_def Let_def)
  have "strategy_ok lm c s" if sel: "selectTopKShardingStrategy lm p c = Some s" for s
  proof -
    obtain bands nt where a: "searched lm c bands nt" "accept lm c bands nt = Some s"
      using select_searched [of lm p c s] sel by blast
    note b = pos [OF a(1)]
    note acc = accept_iff(2) [OF lm ok b a(2)]
    have "fullReductionTiles lm c \<le> bands * band_tiles lm c bands"
      using divideCeil_covers(1) [OF lm, of "fullReductionTiles lm c" bands] tiles_positive(2) [OF lm ok] b
      by (auto simp: band_tiles_def mult.commute)
    moreover have "nonTargetTiles lm c \<le> nt * divideCeil lm (nonTargetTiles lm c) nt"
      using divideCeil_covers(1) [OF lm, of "nonTargetTiles lm c" nt] tiles_positive(1) [OF lm ok] b by (simp add: mult.commute)
    moreover have "tk_k c \<le> 32 * divideCeil lm (tk_k c) 32"
      using divideCeil_covers(1) [OF lm, of "tk_k c" 32] ok by (simp add: topk_ok_def)
    ultimately show ?thesis using acc b unfolding strategy_ok_def by simp
  qed
  moreover have "selectTopKShardingStrategy lm p c = None \<longleftrightarrow>
      \<not> (\<exists>bands nt schedule. searched lm c bands nt \<and> split_fits lm c bands nt schedule)"
    using select_searched [of lm p c] accept_iff(1) [OF lm ok] pos by blast
  ultimately show ?thesis by blast
qed

definition banded_case :: topk_case where
  "banded_case = \<lparr>tk_k = 40, tk_dim = 1, tk_shape = [32, 4096], tk_grid = [8, 8],
     tk_budget = \<lparr>usableBytes = 300000, bytesPerLeafTile = 8192, bytesPerMergeTile = 12288, fixedBytes = 8192\<rparr>\<rparr>"

theorem topk_split_decided_witness:
  "map_option (\<lambda>s. (numShards s, ntShards s, mergeSchedule s))
     (selectTopKShardingStrategy exact_math (\<lambda>n. n \<in> {2, 4, 8, 16, 32, 64}) banded_case) = Some (8, 1, [2, 1]) \<and>
   (\<exists>s. selectTopKShardingStrategy exact_math (\<lambda>n. n \<in> {2, 4, 8, 16, 32, 64}) banded_case = Some s \<and>
     strategy_ok exact_math banded_case s)"
proof -
  have ok: "topk_ok banded_case" by code_simp
  have v: "map_option (\<lambda>s. (numShards s, ntShards s, mergeSchedule s))
     (selectTopKShardingStrategy exact_math (\<lambda>n. n \<in> {2, 4, 8, 16, 32, 64}) banded_case) = Some (8, 1, [2, 1])" by code_simp
  then show ?thesis using topk_split_decided [OF exact_math_legal ok, of "\<lambda>n. n \<in> {2, 4, 8, 16, 32, 64}"] by auto
qed

end
