(* ===== verification/LayoutMaps.thy ===== *)
theory LayoutMaps
  imports AffineReblock LayoutFacts
begin

text \<open>
  The maps between the coordinates of a logical tensor, of its physical shape and of the device, and the
  map from one layout to another: \<open>lib/Dialect/TTCore/Utils/AffineMapUtils.cpp\<close>. \<open>None\<close> is a failed
  assertion, here also that of \<open>AffineMap::compose\<close> on the number of results, or an expression that
  was never set. \<open>simplifyAffineMap\<close> of MLIR is a parameter with its documented meaning.
\<close>

section \<open>Tensors with a layout\<close>

text \<open>A type by its shape, the shape of its tiles, empty for scalars, and its layout.\<close>

record device_tensor =
  deviceShapeOf :: shape
  tileShapeOf :: "int list"
  layoutOf :: metal_layout

definition getGridShape :: "shape \<Rightarrow> shape option" where
  "getGridShape sh = (if length sh mod 2 \<noteq> 0 then None else Some (take (length sh div 2) sh))"

section \<open>Strides of a collapsed interval\<close>

fun aligned_strides_loop :: "shape \<Rightarrow> int list \<Rightarrow> nat \<Rightarrow> nat list \<Rightarrow> int \<Rightarrow> int list \<Rightarrow> int list" where
  "aligned_strides_loop sh al start [] cumulative strides = strides"
| "aligned_strides_loop sh al start (d # ds) cumulative strides =
     aligned_strides_loop sh al start ds (alignUp (sh ! d * cumulative) (al ! d)) (strides[d - start := cumulative])"

definition computeAlignedStrides :: "shape \<Rightarrow> int list \<Rightarrow> nat \<Rightarrow> nat \<Rightarrow> int list" where
  "computeAlignedStrides sh al start stop =
     aligned_strides_loop sh al start (rev [start..<stop]) 1 (replicate (stop - start) 0)"

section \<open>Logical and physical coordinates\<close>

definition collapse_expr :: "affine_ops \<Rightarrow> shape \<Rightarrow> int list \<Rightarrow> nat \<Rightarrow> nat \<Rightarrow> affine_expr" where
  "collapse_expr ops sh al start stop =
     (if stop - start = 1 then DimE start
      else let strides = computeAlignedStrides sh al start stop
           in foldl (\<lambda>collapsed d. plusE ops (timesE ops (DimE d) (ConstE (strides ! (d - start)))) collapsed)
                (ConstE 0) (rev [start..<stop]))"

definition buildLogicalToPhysicalMap :: "affine_ops \<Rightarrow> shape \<Rightarrow> int list \<Rightarrow> (int \<times> int) list \<Rightarrow> affine_map" where
  "buildLogicalToPhysicalMap ops sh al ivs =
     \<lparr>numDims = length sh, numSymbols = 0,
      results = map (\<lambda>(s, e). collapse_expr ops sh al (nat s) (nat e)) (normalizeAndFlattenIntervals ivs (length sh))\<rparr>"

text \<open>The expression of dimension \<open>d\<close> of a collapsed interval, from the physical dimension \<open>i\<close>.\<close>

definition expand_expr :: "affine_ops \<Rightarrow> shape \<Rightarrow> int list \<Rightarrow> nat \<Rightarrow> nat \<Rightarrow> nat \<Rightarrow> nat \<Rightarrow> affine_expr" where
  "expand_expr ops sh al start stop i d =
     (let strides = computeAlignedStrides sh al start stop; physDim = DimE i; stride = strides ! (d - start)
      in if d = stop - 1 then modE ops physDim (ConstE (alignUp (sh ! d) (al ! d)))
         else if d = start then floorDivE ops physDim (ConstE stride)
         else let outerStride = strides ! (d - start - 1); range = outerStride sdiv stride
              in modE ops (floorDivE ops physDim (ConstE stride)) (ConstE range))"

fun expand_intervals ::
  "affine_ops \<Rightarrow> shape \<Rightarrow> int list \<Rightarrow> nat \<Rightarrow> (int \<times> int) list \<Rightarrow> affine_expr option list \<Rightarrow> affine_expr option list" where
  "expand_intervals ops sh al i [] exprs = exprs"
| "expand_intervals ops sh al i ((s, e) # ivs) exprs =
     expand_intervals ops sh al (Suc i) ivs
       (if nat e - nat s = 1 then exprs[nat s := Some (DimE i)]
        else foldl (\<lambda>es d. es[d := Some (expand_expr ops sh al (nat s) (nat e) i d)]) exprs (rev [nat s..<nat e]))"

definition buildPhysicalToLogicalMap ::
  "affine_ops \<Rightarrow> shape \<Rightarrow> nat \<Rightarrow> int list \<Rightarrow> (int \<times> int) list \<Rightarrow> affine_map option" where
  "buildPhysicalToLogicalMap ops sh physRank al ivs =
     (let exprs = expand_intervals ops sh al 0 (normalizeAndFlattenIntervals ivs (length sh)) (replicate (length sh) None)
      in if None \<in> set exprs then None
         else Some \<lparr>numDims = physRank, numSymbols = 0, results = map the exprs\<rparr>)"

section \<open>From the device to the logical tensor, and between layouts\<close>

definition compose_checked :: "affine_ops \<Rightarrow> affine_map \<Rightarrow> affine_map \<Rightarrow> affine_map option" where
  "compose_checked ops f g = (if numDims f \<noteq> length (results g) then None else Some (composeMaps ops f g))"

text \<open>\<open>buildDeviceToLogicalMap\<close>: sizes of a tiled tensor are in tiles, alignments stay in elements.\<close>

definition logical_units :: "shape \<Rightarrow> int list \<Rightarrow> shape option" where
  "logical_units sh tile =
     (if tile = [] then Some sh
      else let tileSize = (\<lambda>i. if length sh = 1 then tile ! 1 else tile ! i)
           in if (length sh \<noteq> 1 \<and> length tile < length sh) \<or> \<not> list_all (\<lambda>i. sh ! i smod tileSize i = 0) [0..<length sh]
              then None
              else Some (map (\<lambda>i. sh ! i sdiv tileSize i) [0..<length sh]))"

definition buildDeviceToLogicalMap :: "affine_ops \<Rightarrow> device_tensor \<Rightarrow> affine_map option" where
  "buildDeviceToLogicalMap ops t =
     (let layout = layoutOf t
      in case (getPhysicalShape layout (tileShapeOf t), getGridShape (deviceShapeOf t), logical_units (logicalShape layout) (tileShapeOf t)) of
           (Some phys, Some grid, Some units) \<Rightarrow>
             (case (buildDeviceToPhysicalMap ops phys grid,
                    buildPhysicalToLogicalMap ops units (length phys) (dimAlignments layout) (collapsedIntervals layout)) of
                (Some deviceToPhysical, Some physicalToLogical) \<Rightarrow> compose_checked ops physicalToLogical deviceToPhysical
              | _ \<Rightarrow> None)
         | _ \<Rightarrow> None)"

text \<open>What composition and simplification promise: they use no other dimensions, keep the values, and divide
  by positive numbers only, where the given expressions do.\<close>

definition scoped_map :: "affine_map \<Rightarrow> bool" where
  "scoped_map m \<longleftrightarrow> list_all (dims_below (numDims m)) (results m) \<and> list_all (syms_below 0) (results m)"

definition pos_at :: "affine_map \<Rightarrow> int list \<Rightarrow> bool" where
  "pos_at m p \<longleftrightarrow> list_all (divisors_pos p []) (results m)"

definition in_scope :: "nat \<Rightarrow> affine_expr \<Rightarrow> bool" where
  "in_scope n e \<longleftrightarrow> dims_below n e \<and> syms_below 0 e"

definition legal_compose :: "affine_ops \<Rightarrow> bool" where
  "legal_compose ops \<longleftrightarrow>
     (\<forall>n l r. in_scope n l \<and> in_scope n r \<longrightarrow> in_scope n (plusE ops l r) \<and> in_scope n (timesE ops l r)
        \<and> in_scope n (modE ops l r) \<and> in_scope n (floorDivE ops l r))
     \<and> (\<forall>n dr e. list_all (in_scope n) dr \<and> in_scope (length dr) e \<longrightarrow> in_scope n (replaceE ops dr [] e))
     \<and> (\<forall>p dr e. list_all (divisors_pos p []) dr \<and> in_scope (length dr) e \<and> divisors_pos (map (eval_expr p []) dr) [] e \<longrightarrow>
          divisors_pos p [] (replaceE ops dr [] e))"

definition legal_simplify :: "(affine_map \<Rightarrow> affine_map) \<Rightarrow> bool" where
  "legal_simplify simplify \<longleftrightarrow>
     (\<forall>m. numDims (simplify m) = numDims m \<and> numSymbols (simplify m) = numSymbols m \<and>
        length (results (simplify m)) = length (results m) \<and> (scoped_map m \<longrightarrow> scoped_map (simplify m)) \<and>
        (\<forall>p. pos_at m p \<longrightarrow> compose_map (simplify m) p = compose_map m p \<and> pos_at (simplify m) p))"

text \<open>A simplifier that rebuilds every expression with the folding operators.\<close>

definition folding_simplify :: "affine_map \<Rightarrow> affine_map" where
  "folding_simplify m = m\<lparr>results := map (fold_replace [] []) (results m)\<rparr>"

definition device_to_logical :: "affine_ops \<Rightarrow> metal_layout \<Rightarrow> shape \<Rightarrow> shape \<Rightarrow> affine_map option" where
  "device_to_logical ops layout phys grid =
     (case (buildDeviceToPhysicalMap ops phys grid,
            buildPhysicalToLogicalMap ops (logicalShape layout) (length phys) (dimAlignments layout) (collapsedIntervals layout)) of
        (Some deviceToPhysical, Some physicalToLogical) \<Rightarrow> compose_checked ops physicalToLogical deviceToPhysical
      | _ \<Rightarrow> None)"

definition logical_to_device :: "affine_ops \<Rightarrow> metal_layout \<Rightarrow> shape \<Rightarrow> shape \<Rightarrow> affine_map option" where
  "logical_to_device ops layout phys grid =
     (case buildPhysicalToDeviceMap ops phys grid of
        None \<Rightarrow> None
      | Some physicalToDevice \<Rightarrow>
          compose_checked ops physicalToDevice
            (buildLogicalToPhysicalMap ops (logicalShape layout) (dimAlignments layout) (collapsedIntervals layout)))"

definition buildLayoutTransformMap ::
  "affine_ops \<Rightarrow> (affine_map \<Rightarrow> affine_map) \<Rightarrow> device_tensor \<Rightarrow> device_tensor \<Rightarrow> affine_map option" where
  "buildLayoutTransformMap ops simplify from to =
     (let fromTile = tileShapeOf from; toTile = tileShapeOf to
      in if logicalShape (layoutOf from) \<noteq> logicalShape (layoutOf to)
            \<or> (fromTile = []) \<noteq> (toTile = []) \<or> (fromTile \<noteq> [] \<and> fromTile \<noteq> toTile) then None
         else case (getPhysicalShape (layoutOf from) [], getPhysicalShape (layoutOf to) [],
                    getGridShape (deviceShapeOf from), getGridShape (deviceShapeOf to)) of
                (Some fromPhys, Some toPhys, Some fromGrid, Some toGrid) \<Rightarrow>
                  (case (device_to_logical ops (layoutOf to) toPhys toGrid, logical_to_device ops (layoutOf from) fromPhys fromGrid) of
                     (Some toDeviceToLogical, Some logicalToFromDevice) \<Rightarrow>
                       map_option simplify (compose_checked ops (simplify logicalToFromDevice) toDeviceToLogical)
                   | _ \<Rightarrow> None)
              | _ \<Rightarrow> None)"

end
