(* ===== verification/LayoutMapProps.thy ===== *)
theory LayoutMapProps
  imports LayoutMaps GridFacts
begin

text \<open>
  What the maps between layouts compute. An element of a logical tensor sits in its physical shape at the
  position given by the stages of its collapsed intervals; when every stage divides the next one, the
  code's inverse finds the element again, and the map between two layouts fetches every element from where
  the other layout keeps it.
\<close>

section \<open>Strides\<close>

lemma aligned_strides_spec:
  assumes "s \<le> k" "k \<le> e" "length strides = e - s"
  shows "length (aligned_strides_loop sh al s (rev [s..<k]) (stage sh al k e) strides) = e - s \<and>
    (\<forall>d. s \<le> d \<and> d < e \<longrightarrow> aligned_strides_loop sh al s (rev [s..<k]) (stage sh al k e) strides ! (d - s) =
       (if d < k then stage sh al (Suc d) e else strides ! (d - s)))"
  using assms
proof (induction k arbitrary: strides)
  case (Suc k)
  show ?case
  proof (cases "s = Suc k")
    case False
    then have k: "s \<le> k" "k \<le> e" using Suc.prems by auto
    have "stage sh al k e = alignUp (sh ! k * stage sh al (Suc k) e) (al ! k)" using Suc.prems by (simp add: stage_step)
    then have step: "aligned_strides_loop sh al s (rev [s..<Suc k]) (stage sh al (Suc k) e) strides =
        aligned_strides_loop sh al s (rev [s..<k]) (stage sh al k e) (strides[k - s := stage sh al (Suc k) e])"
      using k by simp
    show ?thesis using Suc.IH [of "strides[k - s := stage sh al (Suc k) e]"] k Suc.prems unfolding step
      by (auto simp: nth_list_update less_Suc_eq)
  qed (use Suc.prems in auto)
qed simp

lemma nth_aligned_strides:
  "s \<le> d \<Longrightarrow> d < e \<Longrightarrow> computeAlignedStrides sh al s e ! (d - s) = stage sh al (Suc d) e"
  using aligned_strides_spec [of s e e "replicate (e - s) 0" sh al] by (simp add: computeAlignedStrides_def)

section \<open>Positions in a collapsed interval\<close>

definition interval_pos :: "shape \<Rightarrow> int list \<Rightarrow> nat \<Rightarrow> nat \<Rightarrow> coord \<Rightarrow> int" where
  "interval_pos sh al s e c = sum_list (map (\<lambda>d. c ! d * stage sh al (Suc d) e) [s..<e])"

lemma interval_pos_self [simp]: "interval_pos sh al e e c = 0"
  by (simp add: interval_pos_def)

lemma interval_pos_step:
  "s < e \<Longrightarrow> interval_pos sh al s e c = c ! s * stage sh al (Suc s) e + interval_pos sh al (Suc s) e c"
  by (simp add: interval_pos_def upt_rec [of s e])

lemma interval_pos_split:
  "s \<le> d \<Longrightarrow> d \<le> e \<Longrightarrow> interval_pos sh al s e c =
     sum_list (map (\<lambda>j. c ! j * stage sh al (Suc j) e) [s..<d]) + interval_pos sh al d e c"
  using upt_add_eq_append [of s d "e - d"] by (simp add: interval_pos_def)

definition sized :: "shape \<Rightarrow> int list \<Rightarrow> bool" where
  "sized sh al \<longleftrightarrow> length al = length sh \<and> list_all (\<lambda>d. 0 < d) sh \<and> list_all (\<lambda>a. 0 < a) al"

lemma sized_pos: "sized sh al \<Longrightarrow> i < length sh \<Longrightarrow> 0 < sh ! i \<and> 0 < al ! i"
  by (simp add: sized_def list_all_length)

lemma stage_sized: "sized sh al \<Longrightarrow> e \<le> length sh \<Longrightarrow> 0 < stage sh al j e"
  by (intro stage_pos) (auto simp: sized_pos)

lemma stage_ge:
  assumes "sized sh al" "j < e" "e \<le> length sh"
  shows "sh ! j * stage sh al (Suc j) e \<le> stage sh al j e"
proof -
  have "0 < stage sh al (Suc j) e" "0 < sh ! j" "0 < al ! j" using assms stage_sized sized_pos [of sh al j] by auto
  then show ?thesis unfolding stage_step [OF assms(2)] by (intro alignUp_ge) auto
qed

lemma interval_pos_bounds:
  assumes "sized sh al" "in_shape c sh" "e \<le> length sh" "s \<le> e"
  shows "0 \<le> interval_pos sh al s e c \<and> interval_pos sh al s e c < stage sh al s e"
  using assms(4)
proof (induction "e - s" arbitrary: s)
  case (Suc n)
  then have se: "s < e" by simp
  have ih: "0 \<le> interval_pos sh al (Suc s) e c" "interval_pos sh al (Suc s) e c < stage sh al (Suc s) e"
    using Suc.hyps(1) [of "Suc s"] Suc.hyps(2) se by auto
  have c: "0 \<le> c ! s" "c ! s < sh ! s" using in_shape_nth [OF assms(2)] se assms(3) by auto
  have "(c ! s + 1) * stage sh al (Suc s) e \<le> sh ! s * stage sh al (Suc s) e" using c ih by (intro mult_right_mono) auto
  also have "\<dots> \<le> stage sh al s e" using stage_ge [OF assms(1) se assms(3)] .
  finally show ?case using ih c by (simp add: interval_pos_step [OF se] distrib_right)
qed simp

text \<open>Every stage that is used as a stride divides the stride of the next outer dimension.\<close>

definition nested_strides :: "shape \<Rightarrow> int list \<Rightarrow> nat \<Rightarrow> nat \<Rightarrow> bool" where
  "nested_strides sh al s e \<longleftrightarrow> list_all (\<lambda>k. stage sh al (Suc k) e dvd stage sh al k e) [Suc s..<e]"

lemma nested_chain:
  assumes "nested_strides sh al s e" "s < j" "j \<le> k" "k \<le> e"
  shows "stage sh al k e dvd stage sh al j e"
  using assms(3,4)
proof (induction k rule: dec_induct)
  case (step k)
  then have "stage sh al (Suc k) e dvd stage sh al k e" using assms(1,2) by (auto simp: nested_strides_def list_all_iff)
  then show ?case using step dvd_trans by auto
qed simp

lemma dvd_sum_list_all: "(\<And>x. x \<in> set xs \<Longrightarrow> d dvd x) \<Longrightarrow> d dvd sum_list (xs :: int list)"
  by (induction xs) auto

lemma interval_digit:
  assumes "sized sh al" "in_shape c sh" "e \<le> length sh" "s < d" "d < e" "nested_strides sh al s e"
  shows "interval_pos sh al s e c div stage sh al (Suc d) e mod (stage sh al d e div stage sh al (Suc d) e) = c ! d"
proof -
  let ?t = "stage sh al (Suc d) e" and ?u = "stage sh al d e"
  define a where "a = sum_list (map (\<lambda>j. c ! j * stage sh al (Suc j) e) [s..<d])"
  have t: "0 < ?t" using stage_sized assms by blast
  obtain r where r: "?u = ?t * r" using nested_chain [OF assms(6), of d "Suc d"] assms by (auto elim: dvdE)
  have "?u dvd a" unfolding a_def using nested_chain [OF assms(6), of _ d] assms by (intro dvd_sum_list_all) auto
  then obtain q where "a = ?u * q" by (rule dvdE)
  then have q: "a = ?t * (r * q)" by (simp only: r mult.assoc)
  have low: "0 \<le> interval_pos sh al (Suc d) e c" "interval_pos sh al (Suc d) e c < ?t"
    using interval_pos_bounds [OF assms(1-3), of "Suc d"] assms by auto
  have c: "0 \<le> c ! d" "c ! d < sh ! d" using in_shape_nth [OF assms(2)] assms by auto
  have "?t * sh ! d \<le> ?t * r" using stage_ge [OF assms(1,5,3)] r by (simp add: mult.commute)
  then have "sh ! d \<le> r" using t by simp
  then have cr: "c ! d < r" using c by simp
  have "interval_pos sh al s e c = interval_pos sh al (Suc d) e c + ?t * (r * q + c ! d)"
    using interval_pos_split [of s d e sh al c] interval_pos_step [OF assms(5), of sh al c] assms
    by (simp add: a_def [symmetric] q algebra_simps)
  then have "interval_pos sh al s e c div ?t = r * q + c ! d" using low t by simp
  then show ?thesis using t c cr by (simp add: r)
qed

lemma interval_outer:
  assumes "sized sh al" "in_shape c sh" "e \<le> length sh" "s < e"
  shows "interval_pos sh al s e c div stage sh al (Suc s) e = c ! s"
proof -
  have "0 < stage sh al (Suc s) e" using stage_sized assms by blast
  then show ?thesis using interval_pos_bounds [OF assms(1-3), of "Suc s"] interval_pos_step [OF assms(4), of sh al c] assms(4) by simp
qed

section \<open>Positions in the physical shape\<close>

definition phys_pos :: "shape \<Rightarrow> int list \<Rightarrow> (int \<times> int) list \<Rightarrow> coord \<Rightarrow> coord" where
  "phys_pos sh al ivs c = map (\<lambda>(s, e). interval_pos sh al (nat s) (nat e) c) ivs"

definition phys_sizes :: "shape \<Rightarrow> int list \<Rightarrow> (int \<times> int) list \<Rightarrow> shape" where
  "phys_sizes sh al ivs = map (\<lambda>(s, e). if s < e then stage sh al (nat s) (nat e) else default_tile ! 0) ivs"

text \<open>The intervals partition the dimensions, and only a vector has an empty one, the tile row in front.\<close>

definition regular :: "nat \<Rightarrow> (int \<times> int) list \<Rightarrow> bool" where
  "regular n ivs \<longleftrightarrow> 0 < n \<and> covers 0 ivs (int n) \<and> (if n = 1 then ivs = [(0, 0), (0, 1)] else list_all (\<lambda>(s, e). s < e) ivs)"

lemma covers_within:
  "covers a ivs n \<Longrightarrow> 0 \<le> a \<Longrightarrow> (s, e) \<in> set ivs \<Longrightarrow> a \<le> s \<and> s \<le> e \<and> e \<le> n"
  by (induction a ivs n rule: covers.induct) force+

lemma regular_bounds: "regular n ivs \<Longrightarrow> (s, e) \<in> set ivs \<Longrightarrow> 0 \<le> s \<and> s \<le> e \<and> e \<le> int n"
  using covers_within [of 0 ivs "int n" s e] by (simp add: regular_def)

lemma regular_start: "regular n ivs \<Longrightarrow> (s, e) \<in> set ivs \<Longrightarrow> s < int n"
proof -
  have "covers a ivs m \<Longrightarrow> (s, e) \<in> set ivs \<Longrightarrow> s < m" for a m
    by (induction a ivs m rule: covers.induct) auto
  then show "regular n ivs \<Longrightarrow> (s, e) \<in> set ivs \<Longrightarrow> s < int n" by (auto simp: regular_def)
qed

lemma phys_shape_regular:
  assumes "regular (length (logicalShape layout)) (getNormalizedIntervals layout)" "sized (logicalShape layout) (dimAlignments layout)"
  shows "getPhysicalShape layout [] = Some (phys_sizes (logicalShape layout) (dimAlignments layout) (getNormalizedIntervals layout))"
proof -
  let ?sh = "logicalShape layout" and ?al = "dimAlignments layout" and ?ivs = "getNormalizedIntervals layout"
  have c: "applyCollapsedIntervalsAndAlignments ?sh ?ivs ?al = Some (collapsed_sizes ?sh ?al ?ivs)"
    using assms by (intro applyCollapsed_covers) (auto simp: regular_def sized_def)
  show ?thesis
  proof (cases "length ?sh = 1")
    case True
    then show ?thesis using assms(1) c by (simp add: getPhysicalShape_def regular_def collapsed_sizes_def phys_sizes_def)
  next
    case False
    then have "collapsed_sizes ?sh ?al ?ivs = phys_sizes ?sh ?al ?ivs"
      using assms(1) by (auto simp: regular_def collapsed_sizes_def phys_sizes_def list_all_iff filter_True)
    then show ?thesis using assms(1) c False by (simp add: getPhysicalShape_def regular_def)
  qed
qed

lemma phys_pos_in_shape:
  assumes "regular (length sh) ivs" "sized sh al" "in_shape c sh"
  shows "in_shape (phys_pos sh al ivs c) (phys_sizes sh al ivs)"
proof -
  have "0 \<le> interval_pos sh al (nat s) (nat e) c \<and>
      interval_pos sh al (nat s) (nat e) c < (if s < e then stage sh al (nat s) (nat e) else default_tile ! 0)"
    if "(s, e) \<in> set ivs" for s e
  proof (cases "s < e")
    case True
    have "s \<le> e" "e \<le> int (length sh)" using regular_bounds [OF assms(1) that] by auto
    then have "nat e \<le> length sh" "nat s \<le> nat e" by auto
    then show ?thesis using interval_pos_bounds [OF assms(2,3)] True by simp
  next
    case False
    then have "s = e" using regular_bounds [OF assms(1) that] by auto
    then show ?thesis by (simp add: default_tile_def)
  qed
  then show ?thesis unfolding phys_pos_def phys_sizes_def in_shape_def list.rel_map
    by (intro list.rel_refl_strong) (simp add: split_beta)
qed

section \<open>The maps of the code\<close>

context affine_builder begin

lemma eval_collapse:
  assumes "s \<le> e" "sized sh al"
  shows "eval_expr c ss (collapse_expr ops sh al s e) = interval_pos sh al s e c"
proof (cases "e - s = 1")
  case True
  then have "e = Suc s" by simp
  then show ?thesis by (simp add: collapse_expr_def interval_pos_def)
next
  case False
  have "eval_expr c ss (foldl (\<lambda>x d. plusE ops (timesE ops (DimE d) (ConstE (computeAlignedStrides sh al s e ! (d - s)))) x)
      (ConstE 0) (rev [k..<e])) = interval_pos sh al k e c" if "s \<le> k" "k \<le> e" for k
    using that(2,1)
  proof (induction k rule: inc_induct)
    case (step k)
    then have "rev [k..<e] = rev [Suc k..<e] @ [k]" by (simp add: upt_rec [of k e])
    then show ?case using step by (simp add: affine_simps nth_aligned_strides interval_pos_step)
  qed simp
  from this [of s] show ?thesis using False assms(1) by (simp add: collapse_expr_def Let_def)
qed

lemma eval_logical_to_physical:
  assumes "regular (length sh) (normalizeAndFlattenIntervals ivs (length sh))" "sized sh al"
  shows "compose_map (buildLogicalToPhysicalMap ops sh al ivs) c = phys_pos sh al (normalizeAndFlattenIntervals ivs (length sh)) c"
proof -
  have "nat s \<le> nat e" if "(s, e) \<in> set (normalizeAndFlattenIntervals ivs (length sh))" for s e
    using regular_bounds [OF assms(1) that] by (simp add: nat_mono)
  then show ?thesis using assms(2)
    by (auto simp: compose_map_def buildLogicalToPhysicalMap_def phys_pos_def eval_collapse)
qed

lemma stage_range:
  assumes "sized sh al" "s < d" "d < e" "e \<le> length sh"
  shows "stage sh al d e sdiv stage sh al (Suc d) e = stage sh al d e div stage sh al (Suc d) e"
    "0 < stage sh al d e div stage sh al (Suc d) e"
proof -
  have p: "0 < stage sh al (Suc d) e" "0 < stage sh al d e" "0 < sh ! d"
    using stage_sized [OF assms(1,4)] sized_pos [OF assms(1), of d] assms by auto
  then have "stage sh al (Suc d) e \<le> sh ! d * stage sh al (Suc d) e" by simp
  then have "stage sh al (Suc d) e \<le> stage sh al d e" using stage_ge [OF assms(1,3,4)] by simp
  then show "stage sh al d e sdiv stage sh al (Suc d) e = stage sh al d e div stage sh al (Suc d) e"
    "0 < stage sh al d e div stage sh al (Suc d) e" using p by (simp_all add: sdiv_nonneg pos_imp_zdiv_pos_iff)
qed

text \<open>Every dimension of an interval is expanded to its coordinate, and divides by positive numbers.\<close>

lemma expand_divisors:
  assumes "sized sh al" "s \<le> d" "d < e" "e \<le> length sh"
  shows "divisors_pos ds ss (expand_expr ops sh al s e i d)"
proof -
  have p: "0 < stage sh al (Suc d) e" "0 < stage sh al d e" using stage_sized [OF assms(1,4)] by auto
  have last: "alignUp (sh ! d) (al ! d) = stage sh al d e" if "d = e - 1"
    using stage_step [OF assms(3), of sh al] that assms(3) by simp
  have outer: "computeAlignedStrides sh al s e ! (d - s - 1) = stage sh al d e" if "d \<noteq> s"
    using nth_aligned_strides [of s "d - 1" e sh al] that assms by simp
  show ?thesis using p last outer nth_aligned_strides [of s s e sh al] stage_range [OF assms(1) _ assms(3,4), of s] assms
    by (auto simp: expand_expr_def Let_def nth_aligned_strides pos_ops affine_simps)
qed

lemma eval_expand:
  assumes "sized sh al" "in_shape c sh" "s \<le> d" "d < e" "e \<le> length sh" "Suc s < e" "nested_strides sh al s e"
    "p ! i = interval_pos sh al s e c"
  shows "eval_expr p ss (expand_expr ops sh al s e i d) = c ! d"
proof -
  have p: "0 < stage sh al (Suc d) e" "0 < stage sh al d e" using stage_sized [OF assms(1,5)] by auto
  consider (inner) "d = e - 1" | (outer) "d = s" "d \<noteq> e - 1" | (middle) "d \<noteq> s" "d \<noteq> e - 1" by blast
  then show ?thesis
  proof cases
    case inner
    then have "alignUp (sh ! d) (al ! d) = stage sh al d e" "Suc d = e" "s < d" using stage_step [OF assms(4), of sh al] assms by auto
    then show ?thesis using inner p interval_digit [OF assms(1,2,5) _ assms(4,7)] assms
      by (simp add: expand_expr_def Let_def affine_simps)
  next
    case outer
    then show ?thesis using p interval_outer [OF assms(1,2,5)] assms nth_aligned_strides [of s s e sh al]
      by (simp add: expand_expr_def Let_def affine_simps)
  next
    case middle
    then have o: "computeAlignedStrides sh al s e ! (d - s - 1) = stage sh al d e" "s < d"
      using nth_aligned_strides [of s "d - 1" e sh al] assms by auto
    then show ?thesis using middle p interval_digit [OF assms(1,2,5) o(2) assms(4,7)] stage_range [OF assms(1) o(2) assms(4,5)] assms
      by (simp add: expand_expr_def Let_def affine_simps nth_aligned_strides)
  qed
qed

end

lemma foldl_update:
  "distinct ds \<Longrightarrow> \<forall>d\<in>set ds. d < length xs \<Longrightarrow>
     length (foldl (\<lambda>es d. es[d := f d]) xs ds) = length xs \<and>
     (\<forall>j<length xs. foldl (\<lambda>es d. es[d := f d]) xs ds ! j = (if j \<in> set ds then f j else xs ! j))"
proof (induction ds arbitrary: xs)
  case (Cons d ds)
  then show ?case using Cons.IH [of "xs[d := f d]"] by auto
qed simp

lemma covers_range: "covers a ivs n \<Longrightarrow> 0 \<le> a \<Longrightarrow> a \<le> n \<Longrightarrow> a \<le> d \<Longrightarrow> d < n \<Longrightarrow> \<exists>k<length ivs. fst (ivs ! k) \<le> d \<and> d < snd (ivs ! k)"
proof (induction a ivs n rule: covers.induct)
  case (2 s a b ivs n)
  show ?case
  proof (cases "d < b")
    case True
    then show ?thesis using 2 by (intro exI [of _ 0]) auto
  next
    case False
    then obtain k where "k < length ivs" "fst (ivs ! k) \<le> d" "d < snd (ivs ! k)" using 2 by auto
    then show ?thesis by (intro exI [of _ "Suc k"]) simp
  qed
qed simp

context affine_builder begin

lemma expand_intervals_spec:
  assumes "covers a ivs (int n)" "0 \<le> a" "length es = n"
  shows "length (expand_intervals ops sh al i ivs es) = n \<and>
    (\<forall>d<n. int d < a \<longrightarrow> expand_intervals ops sh al i ivs es ! d = es ! d) \<and>
    (\<forall>k<length ivs. \<forall>d. fst (ivs ! k) \<le> int d \<and> int d < snd (ivs ! k) \<longrightarrow>
       expand_intervals ops sh al i ivs es ! d =
         Some (if nat (snd (ivs ! k)) - nat (fst (ivs ! k)) = 1 then DimE (i + k)
               else expand_expr ops sh al (nat (fst (ivs ! k))) (nat (snd (ivs ! k))) (i + k) d))"
  using assms
proof (induction ivs arbitrary: a i es)
  case (Cons iv ivs)
  obtain x y where iv: "iv = (x, y)" by (cases iv)
  have xy: "x = a" "x \<le> y" "x < int n" "y \<le> int n" "covers y ivs (int n)" "0 \<le> y" using Cons.prems by (auto simp: iv)
  define es' where "es' = (if nat y - nat x = 1 then es[nat x := Some (DimE i)]
     else foldl (\<lambda>es d. es[d := Some (expand_expr ops sh al (nat x) (nat y) i d)]) es (rev [nat x..<nat y]))"
  have "length es' = n \<and> (\<forall>d<n. es' ! d = (if d \<in> {nat x..<nat y}
      then Some (if nat y - nat x = 1 then DimE i else expand_expr ops sh al (nat x) (nat y) i d) else es ! d))"
  proof (cases "nat y - nat x = 1")
    case True
    then have "{nat x..<nat y} = {nat x}" by (simp add: le_antisym set_eq_iff) linarith
    then show ?thesis using True Cons.prems xy by (auto simp: es'_def nth_list_update)
  next
    case False
    have "\<forall>d\<in>set (rev [nat x..<nat y]). d < length es" using xy Cons.prems(3) by auto
    from foldl_update [OF _ this, of "\<lambda>d. Some (expand_expr ops sh al (nat x) (nat y) i d)"]
    show ?thesis using False Cons.prems(3) by (simp add: es'_def)
  qed
  then have es': "length es' = n" "\<And>d. d < n \<Longrightarrow> es' ! d = (if d \<in> {nat x..<nat y}
      then Some (if nat y - nat x = 1 then DimE i else expand_expr ops sh al (nat x) (nat y) i d) else es ! d)" by auto
  note ih = Cons.IH [OF xy(5,6) es'(1), of "Suc i"]
  have step: "expand_intervals ops sh al i (iv # ivs) es = expand_intervals ops sh al (Suc i) ivs es'"
    by (simp add: iv es'_def)
  show ?case unfolding step
  proof (intro conjI allI impI)
    fix d
    assume "d < n" "int d < a"
    then show "expand_intervals ops sh al (Suc i) ivs es' ! d = es ! d" using ih es'(2) [of d] xy by auto
  next
    fix k d
    assume "k < length (iv # ivs)" and d: "fst ((iv # ivs) ! k) \<le> int d \<and> int d < snd ((iv # ivs) ! k)"
    then show "expand_intervals ops sh al (Suc i) ivs es' ! d =
         Some (if nat (snd ((iv # ivs) ! k)) - nat (fst ((iv # ivs) ! k)) = 1 then DimE (i + k)
               else expand_expr ops sh al (nat (fst ((iv # ivs) ! k))) (nat (snd ((iv # ivs) ! k))) (i + k) d)"
    proof (cases k)
      case 0
      then have "x \<le> int d" "int d < y" "d < n" using d xy by (auto simp: iv)
      then show ?thesis using ih es'(2) [of d] 0 Cons.prems(2) xy(1) by (auto simp: iv)
    next
      case (Suc j)
      then show ?thesis using ih d \<open>k < length (iv # ivs)\<close> by simp
    qed
  qed (use ih in simp)
qed simp

end

section \<open>Composing maps\<close>

lemma eval_below: "dims_below (length xs) e \<Longrightarrow> eval_expr (xs @ ys) ss e = eval_expr xs ss e"
  by (induction e) (auto simp: nth_append)

lemma divisors_below: "dims_below (length xs) e \<Longrightarrow> divisors_pos (xs @ ys) ss e \<longleftrightarrow> divisors_pos xs ss e"
  by (induction e) (auto simp: eval_below)

lemma in_scope_simps [simp]:
  "in_scope n (DimE i) \<longleftrightarrow> i < n" "in_scope n (ConstE k)" "in_scope n (BinE kind l r) \<longleftrightarrow> in_scope n l \<and> in_scope n r"
  by (auto simp: in_scope_def)

lemma scoped_map_iff: "scoped_map m \<longleftrightarrow> list_all (in_scope (numDims m)) (results m)"
  by (auto simp: scoped_map_def in_scope_def list_all_iff)

locale affine_composer = affine_builder +
  fixes simplify :: "affine_map \<Rightarrow> affine_map"
  assumes composes: "legal_compose ops" and simplifies: "legal_simplify simplify"
begin

lemma scope_ops:
  assumes "in_scope n l" "in_scope n r"
  shows "in_scope n (plusE ops l r)" "in_scope n (timesE ops l r)" "in_scope n (modE ops l r)" "in_scope n (floorDivE ops l r)"
  using composes assms by (simp_all add: legal_compose_def)

lemma scope_collapse: "s \<le> e \<Longrightarrow> e \<le> n \<Longrightarrow> s < n \<Longrightarrow> in_scope n (collapse_expr ops sh al s e)"
proof -
  assume b: "s \<le> e" "e \<le> n" "s < n"
  have "in_scope n x \<Longrightarrow> \<forall>d\<in>set ds. d < n \<Longrightarrow>
      in_scope n (foldl (\<lambda>x d. plusE ops (timesE ops (DimE d) (ConstE (f d))) x) x ds)" for x ds f
    by (induction ds arbitrary: x) (simp_all add: scope_ops)
  then show ?thesis using b by (simp add: collapse_expr_def Let_def)
qed

lemma scope_expand: "i < n \<Longrightarrow> in_scope n (expand_expr ops sh al s e i d)"
  by (simp add: expand_expr_def Let_def scope_ops)

lemma composed:
  assumes "numDims f = length (results g)" "scoped_map f" "scoped_map g" "pos_at g p" "pos_at f (compose_map g p)"
  shows "compose_checked ops f g = Some (composeMaps ops f g)" "scoped_map (composeMaps ops f g)"
    "compose_map (composeMaps ops f g) p = compose_map f (compose_map g p)" "pos_at (composeMaps ops f g) p"
proof -
  let ?q = "map (eval_expr p []) (results g)"
  have q: "compose_map g p = ?q" by (simp add: compose_map_def)
  have e: "in_scope (length (results g)) e \<and> divisors_pos ?q [] e" if "e \<in> set (results f)" for e
    using that assms by (auto simp: scoped_map_iff pos_at_def list_all_iff q)
  show "compose_checked ops f g = Some (composeMaps ops f g)" using assms(1) by (simp add: compose_checked_def)
  show "scoped_map (composeMaps ops f g)" using assms(3) e composes
    by (auto simp: scoped_map_iff composeMaps_def list_all_iff legal_compose_def)
  show "pos_at (composeMaps ops f g) p" using assms(4) e composes
    by (auto simp: pos_at_def composeMaps_def list_all_iff legal_compose_def)
  have "eval_expr p [] (replaceE ops (results g) [] e) = eval_expr ?q [] e" if "e \<in> set (results f)" for e
  proof -
    have d: "dims_below (length ?q) e" "syms_below 0 e" "divisors_pos ?q [] e" using e [OF that] by (auto simp: in_scope_def)
    then have "replaceable p [] (results g) [] e" by (simp add: replaceable_def replaced_def divisors_below)
    then show ?thesis using d by (simp add: eval_replace replaced_def eval_below)
  qed
  then show "compose_map (composeMaps ops f g) p = compose_map f (compose_map g p)"
    by (simp add: compose_map_def composeMaps_def)
qed

lemma simplified:
  "numDims (simplify m) = numDims m" "length (results (simplify m)) = length (results m)"
  "scoped_map m \<Longrightarrow> scoped_map (simplify m)" "pos_at m p \<Longrightarrow> compose_map (simplify m) p = compose_map m p"
  "pos_at m p \<Longrightarrow> pos_at (simplify m) p"
  using simplifies by (auto simp: legal_simplify_def)

end

lemma scope_folding:
  assumes "in_scope n l" "in_scope n r"
  shows "in_scope n (fold_plus l r)" "in_scope n (fold_times l r)" "in_scope n (fold_mod l r)" "in_scope n (fold_floordiv l r)"
proof -
  show "in_scope n (fold_plus l r)" using assms by (cases "(l, r)" rule: fold_plus.cases) simp_all
  show "in_scope n (fold_times l r)" using assms by (cases "(l, r)" rule: fold_times.cases) simp_all
  show "in_scope n (fold_mod l r)" "in_scope n (fold_floordiv l r)"
    using assms by (auto simp: fold_mod_def fold_floordiv_def split: affine_expr.splits)
qed

lemma scope_fold_replace:
  "list_all (in_scope n) dr \<Longrightarrow> in_scope (length dr) e \<Longrightarrow> in_scope n (fold_replace dr [] e)"
proof (induction e)
  case (BinE kind l r)
  then show ?case by (cases kind) (simp_all add: Let_def scope_folding)
qed (auto simp: list_all_length in_scope_def)

lemma pos_fold_replace:
  "list_all (divisors_pos p []) dr \<Longrightarrow> in_scope (length dr) e \<Longrightarrow> divisors_pos (map (eval_expr p []) dr) [] e \<Longrightarrow>
     divisors_pos p [] (fold_replace dr [] e) \<and> eval_expr p [] (fold_replace dr [] e) = eval_expr (map (eval_expr p []) dr) [] e"
proof (induction e)
  case (BinE kind l r)
  then show ?case
    by (cases kind) (simp_all add: Let_def pos_fold_plus pos_fold_times pos_fold_div eval_fold_plus eval_fold_times eval_fold_mod
        eval_fold_floordiv)
qed (auto simp: list_all_length in_scope_def)

lemma legal_compose_folding: "legal_compose folding_ops"
  by (simp add: legal_compose_def folding_ops_def scope_folding scope_fold_replace pos_fold_replace)

lemma fold_replace_none:
  "eval_expr p [] (fold_replace [] [] e) = eval_expr p [] e \<and> (divisors_pos p [] e \<longrightarrow> divisors_pos p [] (fold_replace [] [] e))
     \<and> (in_scope n e \<longrightarrow> in_scope n (fold_replace [] [] e))"
proof (induction e)
  case (BinE kind l r)
  then show ?case
    by (cases kind) (simp_all add: Let_def pos_fold_plus pos_fold_times pos_fold_div eval_fold_plus eval_fold_times eval_fold_mod
        eval_fold_floordiv scope_folding)
qed auto

lemma legal_folding_simplify: "legal_simplify folding_simplify"
  using fold_replace_none by (auto simp: legal_simplify_def folding_simplify_def scoped_map_iff pos_at_def compose_map_def list_all_iff)

interpretation folding_composer: affine_composer folding_ops folding_simplify
  by unfold_locales (simp_all add: legal_compose_folding legal_folding_simplify)

section \<open>Tensors on the device\<close>

text \<open>A tensor whose shape is that of its layout on a grid.\<close>

definition placed :: "device_tensor \<Rightarrow> bool" where
  "placed t \<longleftrightarrow> regular (length (logicalShape (layoutOf t))) (getNormalizedIntervals (layoutOf t))
     \<and> sized (logicalShape (layoutOf t)) (dimAlignments (layoutOf t)) \<and> list_all (\<lambda>d. 0 < d) (tileShapeOf t)
     \<and> (case getGridShape (deviceShapeOf t) of None \<Rightarrow> False
        | Some grid \<Rightarrow> list_all (\<lambda>g. 0 < g) grid \<and> length grid = length (getNormalizedIntervals (layoutOf t))
            \<and> getDeviceShape (layoutOf t) grid (tileShapeOf t) = Some (deviceShapeOf t))"

definition nested_layout :: "metal_layout \<Rightarrow> bool" where
  "nested_layout layout \<longleftrightarrow>
     list_all (\<lambda>(s, e). nested_strides (logicalShape layout) (dimAlignments layout) (nat s) (nat e)) (getNormalizedIntervals layout)"

text \<open>Where an element sits: the grid coordinate and the coordinate in the shard of its physical position.\<close>

definition split_pos :: "shape \<Rightarrow> shape \<Rightarrow> coord \<Rightarrow> coord" where
  "split_pos phys grid p =
     map2 (\<lambda>x (d, g). x div (d div g)) p (zip phys grid) @ map2 (\<lambda>x (d, g). x mod (d div g)) p (zip phys grid)"

definition layout_pos :: "metal_layout \<Rightarrow> coord \<Rightarrow> coord" where
  "layout_pos layout = phys_pos (logicalShape layout) (dimAlignments layout) (getNormalizedIntervals layout)"

definition layout_phys :: "metal_layout \<Rightarrow> shape" where
  "layout_phys layout = phys_sizes (logicalShape layout) (dimAlignments layout) (getNormalizedIntervals layout)"

definition element_at :: "device_tensor \<Rightarrow> coord \<Rightarrow> coord" where
  "element_at t c = split_pos (layout_phys (layoutOf t)) (the (getGridShape (deviceShapeOf t))) (layout_pos (layoutOf t) c)"

lemma length_phys [simp]: "length (layout_phys l) = length (getNormalizedIntervals l)" "length (layout_pos l c) = length (getNormalizedIntervals l)"
  by (simp_all add: layout_phys_def phys_sizes_def layout_pos_def phys_pos_def)

lemma phys_sizes_pos:
  assumes "regular (length sh) ivs" "sized sh al" "i < length ivs"
  shows "0 < phys_sizes sh al ivs ! i"
proof -
  obtain s e where iv: "ivs ! i = (s, e)" by (cases "ivs ! i")
  then have "e \<le> int (length sh)" using regular_bounds [OF assms(1), of s e] assms(3) by (metis nth_mem)
  then have "nat e \<le> length sh" by simp
  then show ?thesis using stage_sized [OF assms(2)] assms(3) iv by (simp add: phys_sizes_def default_tile_def)
qed

text \<open>A grid whose number of shards divides every physical size.\<close>

definition gridded :: "metal_layout \<Rightarrow> shape \<Rightarrow> bool" where
  "gridded layout grid \<longleftrightarrow> regular (length (logicalShape layout)) (getNormalizedIntervals layout)
     \<and> sized (logicalShape layout) (dimAlignments layout) \<and> length grid = length (getNormalizedIntervals layout)
     \<and> list_all2 (\<lambda>d g. 0 < g \<and> g dvd d) (layout_phys layout) grid"

lemma gridded_phys: "gridded layout grid \<Longrightarrow> getPhysicalShape layout [] = Some (layout_phys layout)"
  by (simp add: gridded_def layout_phys_def phys_shape_regular)

lemma gridded_shard:
  assumes "gridded layout grid" "i < length grid"
  shows "0 < layout_phys layout ! i" "0 < grid ! i" "0 < layout_phys layout ! i div grid ! i"
    "layout_phys layout ! i sdiv grid ! i = layout_phys layout ! i div grid ! i"
proof -
  have d: "0 < grid ! i \<and> grid ! i dvd layout_phys layout ! i"
    using assms list_all2_nthD [of "\<lambda>d g. 0 < g \<and> g dvd d" "layout_phys layout" grid i] by (simp add: gridded_def)
  have "0 < layout_phys layout ! i" unfolding layout_phys_def using assms by (intro phys_sizes_pos) (simp_all add: gridded_def)
  then show p: "0 < layout_phys layout ! i" "0 < grid ! i" using d by simp_all
  have "grid ! i dvd layout_phys layout ! i" using d by simp
  then show "0 < layout_phys layout ! i div grid ! i" using p by (simp add: zdvd_imp_le pos_imp_zdiv_pos_iff)
  show "layout_phys layout ! i sdiv grid ! i = layout_phys layout ! i div grid ! i" using p by (simp add: sdiv_nonneg)
qed

lemma exact_sdiv: "0 < a \<Longrightarrow> 0 < b \<Longrightarrow> a smod b = 0 \<Longrightarrow> 0 < a sdiv b \<and> a sdiv b dvd a" for a b :: int
  using zdvd_imp_le [of b a] by (auto simp: smod_zero_iff sdiv_nonneg pos_imp_zdiv_pos_iff)

lemma tiled_phys:
  assumes "getPhysicalShape layout [] = Some phys" "getPhysicalShape layout tile = Some phys'"
    "list_all (\<lambda>d. 0 < d) phys" "list_all (\<lambda>d. 0 < d) tile"
  shows "length phys' = length phys \<and> (\<forall>i<length phys. 0 < phys' ! i \<and> phys' ! i dvd phys ! i)"
proof (cases "tile = []")
  case True
  then show ?thesis using assms by (simp add: list_all_length)
next
  case False
  let ?n = "length phys"
  have p: "2 \<le> ?n" "length tile = 2" "phys ! (?n - 2) smod tile ! 0 = 0" "phys ! (?n - 1) smod tile ! 1 = 0"
    "phys' = phys[?n - 2 := phys ! (?n - 2) sdiv tile ! 0, ?n - 1 := phys ! (?n - 1) sdiv tile ! 1]"
    using assms(1,2) False by (auto simp: getPhysicalShape_def Let_def split: option.splits if_splits)
  have "0 < phys ! (?n - 2)" "0 < phys ! (?n - 1)" "0 < tile ! 0" "0 < tile ! 1"
    using assms(3,4) p(1,2) by (simp_all add: list_all_length)
  then have "0 < phys ! (?n - 2) sdiv tile ! 0 \<and> phys ! (?n - 2) sdiv tile ! 0 dvd phys ! (?n - 2)"
    "0 < phys ! (?n - 1) sdiv tile ! 1 \<and> phys ! (?n - 1) sdiv tile ! 1 dvd phys ! (?n - 1)"
    using p(3,4) exact_sdiv by blast+
  then show ?thesis using assms(3) p(1) by (auto simp: p(5) nth_list_update list_all_length)
qed

lemma placed_gridded:
  assumes "placed t"
  obtains grid where "getGridShape (deviceShapeOf t) = Some grid" "gridded (layoutOf t) grid"
    "getDeviceShape (layoutOf t) grid (tileShapeOf t) = Some (deviceShapeOf t)"
proof -
  let ?l = "layoutOf t"
  obtain grid where g: "getGridShape (deviceShapeOf t) = Some grid" "list_all (\<lambda>g. 0 < g) grid"
      "length grid = length (getNormalizedIntervals ?l)" "getDeviceShape ?l grid (tileShapeOf t) = Some (deviceShapeOf t)"
    and l: "regular (length (logicalShape ?l)) (getNormalizedIntervals ?l)" "sized (logicalShape ?l) (dimAlignments ?l)"
      "list_all (\<lambda>d. 0 < d) (tileShapeOf t)"
    using assms by (auto simp: placed_def split: option.splits)
  obtain phys' where p: "getPhysicalShape ?l (tileShapeOf t) = Some phys'"
      "\<And>i. i < length phys' \<Longrightarrow> grid ! i \<noteq> 0 \<and> phys' ! i smod grid ! i = 0"
    using g(4) by (force simp: getDeviceShape_def split: option.splits if_splits)
  have phys: "getPhysicalShape ?l [] = Some (layout_phys ?l)" using l by (simp add: layout_phys_def phys_shape_regular)
  have pos: "list_all (\<lambda>d. 0 < d) (layout_phys ?l)"
    using phys_sizes_pos [OF l(1,2)] length_phys(1) [of ?l] by (simp add: list_all_length layout_phys_def)
  note tp = tiled_phys [OF phys p(1) pos l(3)]
  have "0 < grid ! i \<and> grid ! i dvd layout_phys ?l ! i" if i: "i < length grid" for i
  proof -
    have i': "i < length phys'" "i < length (layout_phys ?l)" using i tp g(3) by simp_all
    have d: "0 < grid ! i" using g(2) i by (simp add: list_all_length)
    then have "grid ! i dvd phys' ! i" using p(2) [OF i'(1)] tp i' smod_zero_iff by (metis less_imp_le)
    then show ?thesis using d tp i' dvd_trans by blast
  qed
  then have "gridded ?l grid" using l g(3) by (simp add: gridded_def list_all2_conv_all_nth)
  with g show thesis using that by blast
qed

context affine_composer begin

lemma device_to_physical:
  assumes "gridded layout grid"
  shows "\<exists>m. buildDeviceToPhysicalMap ops (layout_phys layout) grid = Some m \<and> numDims m = 2 * length grid
    \<and> length (results m) = length grid \<and> scoped_map m \<and> (\<forall>p. pos_at m p)
    \<and> (\<forall>p. length p = length grid \<longrightarrow> compose_map m (split_pos (layout_phys layout) grid p) = p)"
proof -
  have len: "length (layout_phys layout) = length grid" using assms by (simp add: gridded_def)
  let ?m = "\<lparr>numDims = 2 * length grid, numSymbols = 0, results = map (\<lambda>i. plusE ops (timesE ops (DimE i)
      (ConstE (layout_phys layout ! i sdiv grid ! i))) (DimE (length grid + i))) [0..<length grid]\<rparr>"
  have "buildDeviceToPhysicalMap ops (layout_phys layout) grid = Some ?m" using len
    by (simp add: buildDeviceToPhysicalMap_def Let_def mult.commute)
  moreover have "scoped_map ?m" by (auto simp: scoped_map_iff list_all_iff scope_ops)
  moreover have "pos_at ?m p" for p by (auto simp: pos_at_def list_all_iff pos_ops)
  moreover have "compose_map ?m (split_pos (layout_phys layout) grid p) = p" if "length p = length grid" for p
  proof (rule nth_equalityI)
    fix i
    assume "i < length (compose_map ?m (split_pos (layout_phys layout) grid p))"
    then have i: "i < length grid" by (simp add: compose_map_def)
    then show "compose_map ?m (split_pos (layout_phys layout) grid p) ! i = p ! i"
      using len that gridded_shard(4) [OF assms i] by (simp add: compose_map_def affine_simps split_pos_def nth_append div_mult_mod_eq)
  qed (simp add: compose_map_def that)
  ultimately show ?thesis by (intro exI [of _ ?m]) simp
qed

lemma physical_to_device:
  assumes "gridded layout grid"
  shows "\<exists>m. buildPhysicalToDeviceMap ops (layout_phys layout) grid = Some m \<and> numDims m = length grid
    \<and> scoped_map m \<and> (\<forall>p. pos_at m p)
    \<and> (\<forall>p. length p = length grid \<longrightarrow> compose_map m p = split_pos (layout_phys layout) grid p)"
proof -
  have len: "length (layout_phys layout) = length grid" using assms by (simp add: gridded_def)
  let ?shard = "\<lambda>i. ConstE (layout_phys layout ! i sdiv grid ! i)"
  let ?m = "\<lparr>numDims = length grid, numSymbols = 0, results = map (\<lambda>i. floorDivE ops (DimE i) (?shard i)) [0..<length grid]
      @ map (\<lambda>i. modE ops (DimE i) (?shard i)) [0..<length grid]\<rparr>"
  have "buildPhysicalToDeviceMap ops (layout_phys layout) grid = Some ?m" using len
    by (simp add: buildPhysicalToDeviceMap_def Let_def)
  moreover have "scoped_map ?m" by (auto simp: scoped_map_iff list_all_iff scope_ops)
  moreover have "pos_at ?m p" for p
    using gridded_shard [OF assms] by (auto simp: pos_at_def list_all_iff pos_ops)
  moreover have "compose_map ?m p = split_pos (layout_phys layout) grid p" if "length p = length grid" for p
  proof -
    have d: "map (eval_expr p [] \<circ> (\<lambda>i. floorDivE ops (DimE i) (?shard i))) [0..<length grid]
        = map2 (\<lambda>x (d, g). x div (d div g)) p (zip (layout_phys layout) grid)"
      by (rule nth_equalityI) (use len that gridded_shard [OF assms] in \<open>simp_all add: affine_simps\<close>)
    have m: "map (eval_expr p [] \<circ> (\<lambda>i. modE ops (DimE i) (?shard i))) [0..<length grid]
        = map2 (\<lambda>x (d, g). x mod (d div g)) p (zip (layout_phys layout) grid)"
      by (rule nth_equalityI) (use len that gridded_shard [OF assms] in \<open>simp_all add: affine_simps\<close>)
    show ?thesis by (simp add: compose_map_def split_pos_def d m)
  qed
  ultimately show ?thesis by (intro exI [of _ ?m]) simp
qed

lemma logical_to_physical:
  assumes "regular (length (logicalShape layout)) (getNormalizedIntervals layout)" "sized (logicalShape layout) (dimAlignments layout)"
  defines "m \<equiv> buildLogicalToPhysicalMap ops (logicalShape layout) (dimAlignments layout) (collapsedIntervals layout)"
  shows "numDims m = length (logicalShape layout)" "length (results m) = length (getNormalizedIntervals layout)"
    "scoped_map m" "pos_at m c" "compose_map m c = layout_pos layout c"
proof -
  show "numDims m = length (logicalShape layout)" "length (results m) = length (getNormalizedIntervals layout)"
    by (simp_all add: m_def buildLogicalToPhysicalMap_def getNormalizedIntervals_def)
  show "compose_map m c = layout_pos layout c"
    using eval_logical_to_physical [OF assms(1) [unfolded getNormalizedIntervals_def] assms(2)]
    by (simp add: m_def layout_pos_def getNormalizedIntervals_def)
  have "in_scope (length (logicalShape layout)) (collapse_expr ops (logicalShape layout) (dimAlignments layout) (nat s) (nat e))"
    if "(s, e) \<in> set (getNormalizedIntervals layout)" for s e
  proof -
    have "0 \<le> s" "s \<le> e" "e \<le> int (length (logicalShape layout))" "s < int (length (logicalShape layout))"
      using regular_bounds [OF assms(1) that] regular_start [OF assms(1) that] by auto
    then show ?thesis by (intro scope_collapse) auto
  qed
  then show "scoped_map m" by (auto simp: m_def scoped_map_iff buildLogicalToPhysicalMap_def list_all_iff getNormalizedIntervals_def)
  have "divisors_pos c [] (foldl (\<lambda>x d. plusE ops (timesE ops (DimE d) (ConstE (f d))) x) x ds)" if "divisors_pos c [] x" for f x ds
    using that by (induction ds arbitrary: x) (simp_all add: pos_ops)
  then show "pos_at m c" by (auto simp: m_def pos_at_def buildLogicalToPhysicalMap_def list_all_iff collapse_expr_def Let_def)
qed

lemma physical_to_logical:
  assumes "regular (length sh) (normalizeAndFlattenIntervals ivs (length sh))" "sized sh al"
    "r = length (normalizeAndFlattenIntervals ivs (length sh))"
  shows "\<exists>m. buildPhysicalToLogicalMap ops sh r al ivs = Some m \<and> numDims m = r \<and> length (results m) = length sh
    \<and> scoped_map m \<and> (\<forall>p. pos_at m p)
    \<and> (\<forall>c. list_all (\<lambda>(s, e). nested_strides sh al (nat s) (nat e)) (normalizeAndFlattenIntervals ivs (length sh)) \<and> in_shape c sh
         \<longrightarrow> compose_map m (phys_pos sh al (normalizeAndFlattenIntervals ivs (length sh)) c) = c)"
proof -
  let ?N = "normalizeAndFlattenIntervals ivs (length sh)"
  define es where "es = expand_intervals ops sh al 0 ?N (replicate (length sh) None)"
  have cov: "covers 0 ?N (int (length sh))" using assms(1) by (simp add: regular_def)
  have es: "length es = length sh"
    "\<And>k d. k < length ?N \<Longrightarrow> fst (?N ! k) \<le> int d \<Longrightarrow> int d < snd (?N ! k) \<Longrightarrow> es ! d =
       Some (if nat (snd (?N ! k)) - nat (fst (?N ! k)) = 1 then DimE k
             else expand_expr ops sh al (nat (fst (?N ! k))) (nat (snd (?N ! k))) k d)"
    using expand_intervals_spec [OF cov, where es = "replicate (length sh) None" and i = 0 and sh = sh and al = al] by (auto simp: es_def)
  have entry: "\<exists>k s e. k < length ?N \<and> ?N ! k = (int s, int e) \<and> s \<le> d \<and> d < e \<and> e \<le> length sh \<and>
      es ! d = Some (if e - s = 1 then DimE k else expand_expr ops sh al s e k d)" if "d < length sh" for d
  proof -
    obtain k where k: "k < length ?N" "fst (?N ! k) \<le> int d" "int d < snd (?N ! k)"
      using covers_range [OF cov, of "int d"] \<open>d < length sh\<close> by auto
    have b: "0 \<le> fst (?N ! k)" "snd (?N ! k) \<le> int (length sh)"
      using regular_bounds [OF assms(1), of "fst (?N ! k)" "snd (?N ! k)"] k(1) nth_mem [OF k(1)] by auto
    have n: "?N ! k = (int (nat (fst (?N ! k))), int (nat (snd (?N ! k))))" using b k(2,3) by (simp add: prod_eq_iff)
    have "nat (fst (?N ! k)) \<le> d" "d < nat (snd (?N ! k))" "nat (snd (?N ! k)) \<le> length sh" using b k(2,3) by linarith+
    then show ?thesis using es(2) [OF k] k(1) n by blast
  qed
  have some: "es ! d \<noteq> None" if "d < length sh" for d using entry [OF that] by auto
  then have none: "None \<notin> set es" using es(1) by (metis in_set_conv_nth)
  let ?m = "\<lparr>numDims = r, numSymbols = 0, results = map the es\<rparr>"
  have "buildPhysicalToLogicalMap ops sh r al ivs = Some ?m" using none by (simp add: buildPhysicalToLogicalMap_def es_def)
  moreover have "scoped_map ?m"
  proof -
    have "in_scope r (the (es ! d))" if d: "d < length sh" for d
      using entry [OF d] assms(3) scope_expand by auto
    then show ?thesis by (simp add: scoped_map_iff list_all_length es(1))
  qed
  moreover have "pos_at ?m p" for p
  proof -
    have "divisors_pos p [] (the (es ! d))" if d: "d < length sh" for d
      using entry [OF d] expand_divisors [OF assms(2)] by auto
    then show ?thesis by (simp add: pos_at_def list_all_length es(1))
  qed
  moreover have "compose_map ?m (phys_pos sh al ?N c) = c"
    if c: "list_all (\<lambda>(s, e). nested_strides sh al (nat s) (nat e)) ?N" "in_shape c sh" for c
  proof (rule nth_equalityI)
    show len: "length (compose_map ?m (phys_pos sh al ?N c)) = length c" using in_shape_length [OF c(2)] es(1) by (simp add: compose_map_def)
    fix d
    assume "d < length (compose_map ?m (phys_pos sh al ?N c))"
    then have d: "d < length sh" by (simp add: compose_map_def es(1))
    obtain k s e where k: "k < length ?N" "?N ! k = (int s, int e)" "s \<le> d" "d < e" "e \<le> length sh"
      "es ! d = Some (if e - s = 1 then DimE k else expand_expr ops sh al s e k d)" using entry [OF d] by blast
    have p: "phys_pos sh al ?N c ! k = interval_pos sh al s e c" using k by (simp add: phys_pos_def)
    have n: "nested_strides sh al s e" using c(1) k(1,2) nth_mem [OF k(1)] by (auto simp: list_all_iff)
    have "eval_expr (phys_pos sh al ?N c) [] (the (es ! d)) = c ! d"
    proof (cases "e - s = 1")
      case True
      then have "e = Suc d" "s = d" using k by auto
      then show ?thesis using k(6) p by (simp add: interval_pos_step)
    next
      case False
      then show ?thesis using k eval_expand [OF assms(2) c(2) k(3-5) _ n p] by simp
    qed
    then show "compose_map ?m (phys_pos sh al ?N c) ! d = c ! d" using d es(1) by (simp add: compose_map_def)
  qed
  ultimately show ?thesis using es(1) by (intro exI [of _ ?m]) auto
qed

lemma device_to_logical_total:
  assumes "gridded layout grid"
  obtains m where "device_to_logical ops layout (layout_phys layout) grid = Some m" "numDims m = 2 * length grid"
    "length (results m) = length (logicalShape layout)" "scoped_map m" "\<And>p. pos_at m p"
    "\<And>c. nested_layout layout \<Longrightarrow> in_shape c (logicalShape layout) \<Longrightarrow>
       compose_map m (split_pos (layout_phys layout) grid (layout_pos layout c)) = c"
proof -
  have l: "regular (length (logicalShape layout)) (getNormalizedIntervals layout)" "sized (logicalShape layout) (dimAlignments layout)"
    "length grid = length (getNormalizedIntervals layout)" using assms by (simp_all add: gridded_def)
  obtain g where g: "buildDeviceToPhysicalMap ops (layout_phys layout) grid = Some g" "numDims g = 2 * length grid"
    "length (results g) = length grid" "scoped_map g" "\<And>p. pos_at g p"
    "\<And>p. length p = length grid \<Longrightarrow> compose_map g (split_pos (layout_phys layout) grid p) = p"
    using device_to_physical [OF assms] by blast
  obtain f where f: "buildPhysicalToLogicalMap ops (logicalShape layout) (length (layout_phys layout)) (dimAlignments layout)
      (collapsedIntervals layout) = Some f" "numDims f = length grid" "length (results f) = length (logicalShape layout)"
    "scoped_map f" "\<And>p. pos_at f p"
    "\<And>c. nested_layout layout \<Longrightarrow> in_shape c (logicalShape layout) \<Longrightarrow> compose_map f (layout_pos layout c) = c"
    using physical_to_logical [OF l(1) [unfolded getNormalizedIntervals_def] l(2) refl] l(3)
    unfolding nested_layout_def layout_pos_def length_phys getNormalizedIntervals_def by auto
  have fg: "numDims f = length (results g)" using f(2) g(3) by simp
  note c = composed [OF fg f(4) g(4) g(5) f(5)]
  show thesis
  proof (rule that [of "composeMaps ops f g"])
    show "device_to_logical ops layout (layout_phys layout) grid = Some (composeMaps ops f g)"
      using c(1) by (simp add: device_to_logical_def g(1) f(1) del: length_phys)
    show "compose_map (composeMaps ops f g) (split_pos (layout_phys layout) grid (layout_pos layout c)) = c"
      if "nested_layout layout" "in_shape c (logicalShape layout)" for c
      using composed(3) [OF fg f(4) g(4) g(5) f(5)] g(6) [of "layout_pos layout c"] f(6) [OF that] l(3) by simp
  qed (use c f g in \<open>simp_all add: composeMaps_def\<close>)
qed

lemma logical_to_device_total:
  assumes "gridded layout grid"
  obtains m where "logical_to_device ops layout (layout_phys layout) grid = Some m" "numDims m = length (logicalShape layout)"
    "scoped_map m" "\<And>c. pos_at m c" "\<And>c. compose_map m c = split_pos (layout_phys layout) grid (layout_pos layout c)"
proof -
  have l: "regular (length (logicalShape layout)) (getNormalizedIntervals layout)" "sized (logicalShape layout) (dimAlignments layout)"
    "length grid = length (getNormalizedIntervals layout)" using assms by (simp_all add: gridded_def)
  obtain f where f: "buildPhysicalToDeviceMap ops (layout_phys layout) grid = Some f" "numDims f = length grid"
    "scoped_map f" "\<And>p. pos_at f p" "\<And>p. length p = length grid \<Longrightarrow> compose_map f p = split_pos (layout_phys layout) grid p"
    using physical_to_device [OF assms] by blast
  let ?g = "buildLogicalToPhysicalMap ops (logicalShape layout) (dimAlignments layout) (collapsedIntervals layout)"
  note g = logical_to_physical [OF l(1,2)]
  have fg: "numDims f = length (results ?g)" using f(2) g(2) l(3) by simp
  show thesis
  proof (rule that [of "composeMaps ops f ?g"])
    show "logical_to_device ops layout (layout_phys layout) grid = Some (composeMaps ops f ?g)"
      using composed(1) [OF fg f(3) g(3) g(4) f(4)] by (simp add: logical_to_device_def f(1))
    show "compose_map (composeMaps ops f ?g) c = split_pos (layout_phys layout) grid (layout_pos layout c)" for c
      using composed(3) [OF fg f(3) g(3) g(4) f(4)] f(5) [of "layout_pos layout c"] l(3) by (simp add: g(5))
    show "pos_at (composeMaps ops f ?g) c" for c using composed(4) [OF fg f(3) g(3) g(4) f(4)] .
    show "scoped_map (composeMaps ops f ?g)" using composed(2) [OF fg f(3) g(3) g(4) f(4)] .
  qed (use g(1) in \<open>simp add: composeMaps_def\<close>)
qed

lemma transform_total:
  assumes "placed from" "placed to" "tileShapeOf from = tileShapeOf to" "logicalShape (layoutOf from) = logicalShape (layoutOf to)"
  shows "\<exists>m. buildLayoutTransformMap ops simplify from to = Some m \<and>
    (nested_layout (layoutOf to) \<longrightarrow>
      (\<forall>c. in_shape c (logicalShape (layoutOf to)) \<longrightarrow> compose_map m (element_at to c) = element_at from c))"
proof -
  obtain gf where gf: "getGridShape (deviceShapeOf from) = Some gf" "gridded (layoutOf from) gf" using placed_gridded [OF assms(1)] .
  obtain gt where gt: "getGridShape (deviceShapeOf to) = Some gt" "gridded (layoutOf to) gt" using placed_gridded [OF assms(2)] .
  obtain d where d: "device_to_logical ops (layoutOf to) (layout_phys (layoutOf to)) gt = Some d" "numDims d = 2 * length gt"
    "length (results d) = length (logicalShape (layoutOf to))" "scoped_map d" "\<And>p. pos_at d p"
    "\<And>c. nested_layout (layoutOf to) \<Longrightarrow> in_shape c (logicalShape (layoutOf to)) \<Longrightarrow>
       compose_map d (split_pos (layout_phys (layoutOf to)) gt (layout_pos (layoutOf to) c)) = c"
    using device_to_logical_total [OF gt(2)] by blast
  obtain l where l: "logical_to_device ops (layoutOf from) (layout_phys (layoutOf from)) gf = Some l"
    "numDims l = length (logicalShape (layoutOf from))" "scoped_map l" "\<And>c. pos_at l c"
    "\<And>c. compose_map l c = split_pos (layout_phys (layoutOf from)) gf (layout_pos (layoutOf from) c)"
    using logical_to_device_total [OF gf(2)] by blast
  have ld: "numDims (simplify l) = length (results d)" using l(2) d(3) assms(4) by (simp add: simplified)
  note s = simplified(3) [OF l(3)] and sp = simplified(5) [OF l(4)]
  show ?thesis
  proof (intro exI [of _ "simplify (composeMaps ops (simplify l) d)"] conjI impI allI)
    show "buildLayoutTransformMap ops simplify from to = Some (simplify (composeMaps ops (simplify l) d))"
      using composed(1) [OF ld s d(4) d(5) sp] assms(3,4)
      by (simp add: buildLayoutTransformMap_def gridded_phys [OF gf(2)] gridded_phys [OF gt(2)] gf(1) gt(1) d(1) l(1))
    fix c
    assume "nested_layout (layoutOf to)" "in_shape c (logicalShape (layoutOf to))"
    note e = d(6) [OF this]
    have "compose_map (simplify (composeMaps ops (simplify l) d)) (element_at to c)
        = compose_map (simplify l) (compose_map d (element_at to c))"
      using composed(3,4) [OF ld s d(4) d(5) sp] by (simp add: simplified)
    also have "\<dots> = element_at from c" using e simplified(4) [OF l(4)] by (simp add: element_at_def gt(1) gf(1) l(5))
    finally show "compose_map (simplify (composeMaps ops (simplify l) d)) (element_at to c) = element_at from c" .
  qed
qed

end

section \<open>Alignments with nested stages\<close>

lemma unaligned_nested:
  assumes "sized sh al" "e \<le> length sh" "\<And>k. s < k \<Longrightarrow> Suc k < e \<Longrightarrow> al ! k = 1"
  shows "nested_strides sh al s e"
proof -
  have "stage sh al (Suc k) e dvd stage sh al k e" if k: "s < k" "k < e" for k
  proof (cases "Suc k = e")
    case False
    then have "al ! k = 1" "0 < stage sh al (Suc k) e" "0 < sh ! k"
      using assms k stage_sized [OF assms(1,2)] sized_pos [OF assms(1), of k] by auto
    then show ?thesis using stage_step [OF k(2), of sh al] by (simp add: alignUp_one)
  qed simp
  then show ?thesis by (auto simp: nested_strides_def list_all_iff)
qed

lemma covers_lower: "covers a ivs n \<Longrightarrow> (x, y) \<in> set ivs \<Longrightarrow> a \<le> x \<and> a \<le> y"
  by (induction a ivs n rule: covers.induct) force+

lemma covers_ends:
  "covers a ivs n \<Longrightarrow> (s, e) \<in> set ivs \<Longrightarrow> (s', e') \<in> set ivs \<Longrightarrow> e' \<le> s \<or> e \<le> e'"
proof (induction a ivs n rule: covers.induct)
  case (2 s0 a b ivs n)
  have "b \<le> x \<and> b \<le> y" if "(x, y) \<in> set ivs" for x y
    using that 2(2) by (auto dest: covers_lower)
  then show ?case using 2 by auto
qed simp

lemma covers_starts:
  "covers a ivs n \<Longrightarrow> (s, e) \<in> set ivs \<Longrightarrow> (s', e') \<in> set ivs \<Longrightarrow> s' \<le> s \<or> e \<le> s'"
proof (induction a ivs n rule: covers.induct)
  case (2 s0 a b ivs n)
  have "a \<le> x \<and> b \<le> x" if "(x, y) \<in> set ivs" for x y
    using that 2(2) by (auto dest: covers_lower)
  then show ?case using 2 by (cases "(s, e) \<in> set ivs"; cases "(s', e') \<in> set ivs") auto
qed simp

text \<open>Alignments other than one only at the ends of intervals, or at their starts.\<close>

definition edge_aligned :: "nat \<Rightarrow> int list \<Rightarrow> (int \<times> int) list \<Rightarrow> bool" where
  "edge_aligned n al ivs \<longleftrightarrow> (\<forall>k<n. al ! k \<noteq> 1 \<longrightarrow> (\<exists>(s, e)\<in>set ivs. int k = e - 1 \<or> int k = s))"

lemma edge_aligned_nested:
  assumes "regular (length sh) ivs" "sized sh al" "edge_aligned (length sh) al ivs"
  shows "list_all (\<lambda>(s, e). nested_strides sh al (nat s) (nat e)) ivs"
proof -
  have "nested_strides sh al (nat s) (nat e)" if se: "(s, e) \<in> set ivs" for s e
  proof (rule unaligned_nested [OF assms(2)])
    have b: "0 \<le> s" "s \<le> e" "e \<le> int (length sh)" using regular_bounds [OF assms(1) se] by auto
    then show "nat e \<le> length sh" by simp
    fix k
    assume k: "nat s < k" "Suc k < nat e"
    have cov: "covers 0 ivs (int (length sh))" using assms(1) by (simp add: regular_def)
    show "al ! k = 1"
    proof (rule ccontr)
      assume a: "al ! k \<noteq> 1"
      have "k < length sh" using k b by linarith
      then have "\<exists>(s', e')\<in>set ivs. int k = e' - 1 \<or> int k = s'" using a assms(3) by (simp add: edge_aligned_def)
      then obtain s' e' where o: "(s', e') \<in> set ivs" "int k = e' - 1 \<or> int k = s'" by blast
      have kb: "s < int k" "int k + 1 < e" using k b by auto
      have "int k \<noteq> e' - 1" using covers_ends [OF cov se o(1)] kb by auto
      moreover have "int k \<noteq> s'" using covers_starts [OF cov se o(1)] kb by auto
      ultimately show False using o(2) by blast
    qed
  qed
  then show ?thesis by (auto simp: list_all_iff)
qed

lemma edge_update:
  assumes "edge_aligned n al ivs" "(s, e) \<in> set ivs" "int i = e - 1 \<or> int i = s"
  shows "edge_aligned n (al[i := v]) ivs"
  unfolding edge_aligned_def
proof (intro allI impI)
  fix k
  assume "k < n" "al[i := v] ! k \<noteq> 1"
  then show "\<exists>(s, e)\<in>set ivs. int k = e - 1 \<or> int k = s"
    using assms by (cases "k = i") (auto simp: edge_aligned_def)
qed

lemma edge_ones: "edge_aligned n (replicate n 1) ivs"
  by (simp add: edge_aligned_def)

lemma tile_alignments_update:
  assumes "computeTileAlignments sh ivs = Some al" "length sh \<noteq> 0" "length sh \<noteq> 1"
  shows "2 \<le> length ivs" "0 \<le> snd (ivs ! (length ivs - 1)) - 1" "0 \<le> snd (ivs ! (length ivs - 2)) - 1"
      "al = (replicate (length sh) 1)[nat (snd (ivs ! (length ivs - 1)) - 1) := default_tile ! 1, nat (snd (ivs ! (length ivs - 2)) - 1) := default_tile ! 0]"
proof -
  have four: "\<not> b \<and> \<not> c \<and> x = al" if "(if b then None else if c then None else if d then Some x else None) = Some al" for b c d and x :: "int list"
    using that by (simp split: if_split_asm)
  note u = four [OF assms(1) [unfolded computeTileAlignments_def Let_def if_not_P [OF assms(2)] if_not_P [OF assms(3)]]]
  show "2 \<le> length ivs" using u by linarith
  show "0 \<le> snd (ivs ! (length ivs - 1)) - 1" "0 \<le> snd (ivs ! (length ivs - 2)) - 1" using u by linarith+
  show "al = (replicate (length sh) 1)[nat (snd (ivs ! (length ivs - 1)) - 1) := default_tile ! 1, nat (snd (ivs ! (length ivs - 2)) - 1) := default_tile ! 0]"
    using u by (elim conjE) (rule sym)
qed

lemma tile_alignments_edges:
  assumes "regular (length sh) ivs" "computeTileAlignments sh ivs = Some al"
  shows "edge_aligned (length sh) al ivs"
proof (cases "length sh = 1")
  case True
  then show ?thesis using assms by (auto simp: computeTileAlignments_def regular_def edge_aligned_def)
next
  case False
  let ?r = "length ivs"
  define x y where "x = snd (ivs ! (?r - 1)) - 1" and "y = snd (ivs ! (?r - 2)) - 1"
  have ne: "length sh \<noteq> 0" using assms(1) by (simp add: regular_def)
  note al = tile_alignments_update [OF assms(2) ne False, folded x_def y_def]
  have "ivs ! (?r - 1) \<in> set ivs" "ivs ! (?r - 2) \<in> set ivs" using al(1) by auto
  then show ?thesis unfolding al(4)
    by (intro edge_update [where s = "fst (ivs ! (?r - 2))" and e = "snd (ivs ! (?r - 2))"]
        edge_update [where s = "fst (ivs ! (?r - 1))" and e = "snd (ivs ! (?r - 1))"] edge_ones)
      (use al in \<open>auto simp: x_def y_def\<close>)
qed

lemma grid_interval_edges:
  assumes "grid_aware_interval sh ivs back tileDim gridDim al = Some al'" "edge_aligned n al ivs" "0 < back" "back \<le> length ivs"
  shows "edge_aligned n al' ivs"
proof -
  obtain s e where se: "ivs ! (length ivs - back) = (s, e)" by (cases "ivs ! (length ivs - back)")
  have m: "(s, e) \<in> set ivs" using nth_mem [of "length ivs - back" ivs] se assms(3,4) by simp
  have "al' = al \<or> (\<exists>v. 0 \<le> e - 1 \<and> al' = al[nat (e - 1) := v]) \<or>
      (\<exists>v w. 0 \<le> s \<and> 0 \<le> e - 1 \<and> al' = al[nat (e - 1) := v, nat s := w])"
    using assms(1) by (auto simp: grid_aware_interval_def se Let_def split: if_splits)
  then show ?thesis using assms(2) edge_update [OF _ m] by (elim disjE exE conjE) simp_all
qed

lemma grid_alignments_edges:
  assumes "regular (length sh) ivs" "computeGridAwareDimAlignments sh dev ivs = Some al"
  shows "edge_aligned (length sh) al ivs"
proof (cases "length sh = 1")
  case True
  then show ?thesis using assms by (auto simp: computeGridAwareDimAlignments_def regular_def edge_aligned_def split: if_splits)
next
  case False
  obtain al1 where al: "2 \<le> length ivs"
      "grid_aware_interval sh ivs 1 (default_tile ! 1) (dev ! 1) (replicate (length sh) 1) = Some al1"
      "grid_aware_interval sh ivs 2 (default_tile ! 0) (dev ! 0) al1 = Some al"
    using assms False by (auto simp: computeGridAwareDimAlignments_def regular_def Let_def split: if_splits option.splits)
  show ?thesis using grid_interval_edges [OF al(3) grid_interval_edges [OF al(2) edge_ones]] al(1) by simp
qed

lemma one_update:
  assumes "(if a then Some al else if b then None else if c then Some al1 else map_option (\<lambda>x. al1[k := f x]) found) = Some al'"
    "al1 = al \<or> (\<exists>v. al1 = al[k := v])"
  shows "al' = al \<or> (\<exists>v. al' = al[k := v])"
  using assms by (cases a; cases b; cases c; cases found) auto

lemma select_interval_update:
  assumes "select_interval sh ivs grid tile i al = Some al'" "ivs ! i = (s, e)"
  defines "k \<equiv> (if nat s + 1 = nat e then nat e - 1 else nat s)"
  shows "al' = al \<or> (\<exists>v. al' = al[k := v])"
proof -
  note u = assms(1) [unfolded select_interval_def assms(2) prod.sel Let_def, folded k_def]
  show ?thesis by (rule one_update [OF u]) (cases "computeCollapsedIntervalSize sh al (nat s) (nat e) > grid ! i * (if i + 2 \<ge> length ivs then default_tile ! (i + 2 - length ivs) else 1)", auto simp only: if_True if_False)
qed

lemma select_interval_edges:
  assumes "select_interval sh ivs grid tile i al = Some al'" "edge_aligned n al ivs" "i < length ivs" "regular (length sh) ivs"
  shows "edge_aligned n al' ivs"
proof -
  obtain s e where se: "ivs ! i = (s, e)" by (cases "ivs ! i")
  then have m: "(s, e) \<in> set ivs" using nth_mem [OF assms(3)] by simp
  have b: "0 \<le> s" "s \<le> e" using regular_bounds [OF assms(4) m] by auto
  define k where "k = (if nat s + 1 = nat e then nat e - 1 else nat s)"
  have k: "int k = e - 1 \<or> int k = s" using b by (auto simp: k_def)
  have "al' = al \<or> (\<exists>v. al' = al[k := v])" using select_interval_update [OF assms(1) se] by (simp only: k_def)
  then show ?thesis using assms(2) edge_update [OF _ m k] by auto
qed

lemma select_intervals_edges:
  "select_intervals sh ivs grid tile is al = Some al' \<Longrightarrow> edge_aligned n al ivs \<Longrightarrow> \<forall>i\<in>set is. i < length ivs \<Longrightarrow>
     regular (length sh) ivs \<Longrightarrow> edge_aligned n al' ivs"
  by (induction "is" arbitrary: al) (auto split: option.splits dest: select_interval_edges)

lemma selected_alignments_edges:
  assumes "computeSelectedGridDimAlignments layout grid tile = Some al" "getNormalizedIntervals layout = ivs" "logicalShape layout = sh"
    "regular (length sh) ivs"
  shows "edge_aligned (length sh) al ivs"
proof -
  obtain al0 where a: "computeTileAlignments sh ivs = Some al0" "select_intervals sh ivs grid tile [0..<length ivs] al0 = Some al"
  proof (cases "computeTileAlignments sh ivs")
    case (Some al0)
    then show thesis using that assms(1) unfolding computeSelectedGridDimAlignments_def assms(2,3) Let_def
      by (simp split: if_split_asm)
  qed (use assms(1) in \<open>simp add: computeSelectedGridDimAlignments_def assms(2,3) Let_def split: if_split_asm\<close>)
  show ?thesis by (rule select_intervals_edges [OF a(2) tile_alignments_edges [OF assms(4) a(1)] _ assms(4)]) simp
qed

section \<open>Properties\<close>

text \<open>C19: The map between two layouts of a logical tensor, evaluated at the coordinate where the new layout
  keeps an element, is the coordinate where the old layout keeps it: grid coordinate, then coordinate in
  the shard, in elements. The old layout may be any; the alignments of the new one must be nested, which is
  what expanding a collapsed dimension by divisions and remainders needs.\<close>

theorem layout_transform_fetches_elements:
  assumes "legal_affine ops" "legal_compose ops" "legal_simplify simplify" "placed from" "placed to"
    "tileShapeOf from = tileShapeOf to" "logicalShape (layoutOf from) = logicalShape (layoutOf to)" "nested_layout (layoutOf to)"
  shows "\<exists>m. buildLayoutTransformMap ops simplify from to = Some m \<and>
    (\<forall>c. in_shape c (logicalShape (layoutOf to)) \<longrightarrow> compose_map m (element_at to c) = element_at from c)"
proof -
  have "affine_composer ops simplify" using assms(1-3) by unfold_locales
  from affine_composer.transform_total [OF this assms(4-7)] show ?thesis by (simp only: assms(8) simp_thms)
qed

text \<open>A tensor in two collapsed dimensions, and the same tensor collapsed into one over four cores.\<close>

definition two_dims :: device_tensor where
  "two_dims = \<lparr>deviceShapeOf = [1, 1, 192, 64], tileShapeOf = [], layoutOf = \<lparr>logicalShape = [3, 40, 50],
     dimAlignments = [1, 32, 32], collapsedIntervals = [(0, 2), (2, 3)], memoryLayout = Sharded\<rparr>\<rparr>"

definition one_dim :: device_tensor where
  "one_dim = \<lparr>deviceShapeOf = [4, 1920], tileShapeOf = [], layoutOf = \<lparr>logicalShape = [3, 40, 50],
     dimAlignments = [1, 32, 64], collapsedIntervals = [(0, 3)], memoryLayout = Sharded\<rparr>\<rparr>"

theorem layout_transform_fetches_elements_witness:
  "\<exists>m. buildLayoutTransformMap folding_ops folding_simplify two_dims one_dim = Some m \<and>
    compose_map m [2, 1607] = [0, 0, 133, 7]"
proof -
  have p: "placed two_dims" "placed one_dim" "nested_layout (layoutOf one_dim)" "in_shape [2, 5, 7] (logicalShape (layoutOf one_dim))"
    by code_simp+
  have e: "element_at one_dim [2, 5, 7] = [2, 1607]" "element_at two_dims [2, 5, 7] = [0, 0, 133, 7]" by code_simp+
  have s: "tileShapeOf two_dims = tileShapeOf one_dim" "logicalShape (layoutOf two_dims) = logicalShape (layoutOf one_dim)"
    by (simp_all add: two_dims_def one_dim_def)
  show ?thesis using layout_transform_fetches_elements [OF legal_folding legal_compose_folding legal_folding_simplify p(1,2) s p(3)] p(4) e
    by metis
qed

text \<open>C20: The alignments of tiles (\<open>computeTileAlignments\<close>), of a device grid
  (\<open>computeGridAwareDimAlignments\<close>) and of a selected grid (\<open>computeSelectedGridDimAlignments\<close>) are
  nested, when the intervals partition the dimensions and the computed alignments are positive.\<close>

theorem compiler_alignments_nested:
  assumes "regular (length sh) (normalizeAndFlattenIntervals ivs (length sh))" "sized sh al"
    "computeTileAlignments sh (normalizeAndFlattenIntervals ivs (length sh)) = Some al \<or>
     computeGridAwareDimAlignments sh dev (normalizeAndFlattenIntervals ivs (length sh)) = Some al \<or>
     computeSelectedGridDimAlignments \<lparr>logicalShape = sh, dimAlignments = old, collapsedIntervals = ivs, memoryLayout = ml\<rparr> grid tile = Some al"
  shows "nested_layout \<lparr>logicalShape = sh, dimAlignments = al, collapsedIntervals = ivs, memoryLayout = ml\<rparr>"
proof -
  let ?N = "normalizeAndFlattenIntervals ivs (length sh)"
  have "edge_aligned (length sh) al ?N" using assms(3)
  proof (elim disjE)
    assume "computeTileAlignments sh ?N = Some al"
    then show ?thesis by (rule tile_alignments_edges [OF assms(1)])
  next
    assume "computeGridAwareDimAlignments sh dev ?N = Some al"
    then show ?thesis by (rule grid_alignments_edges [OF assms(1)])
  next
    assume a: "computeSelectedGridDimAlignments \<lparr>logicalShape = sh, dimAlignments = old, collapsedIntervals = ivs, memoryLayout = ml\<rparr> grid tile = Some al"
    show ?thesis by (rule selected_alignments_edges [OF a]) (simp_all add: getNormalizedIntervals_def assms(1))
  qed
  then show ?thesis using edge_aligned_nested [OF assms(1,2)] by (simp add: nested_layout_def getNormalizedIntervals_def)
qed

theorem compiler_alignments_nested_witness:
  "nested_layout \<lparr>logicalShape = [2, 3, 300, 50], dimAlignments = [256, 1, 32, 32], collapsedIntervals = [(0, 3)], memoryLayout = Sharded\<rparr>"
proof -
  have r: "regular (length [2, 3, 300, 50 :: int]) (normalizeAndFlattenIntervals [(0, 3)] (length [2, 3, 300, 50 :: int]))"
    "sized [2, 3, 300, 50] [256, 1, 32, 32]" by code_simp+
  have "computeGridAwareDimAlignments [2, 3, 300, 50] [8, 8] (normalizeAndFlattenIntervals [(0, 3)] (length [2, 3, 300, 50 :: int])) = Some [256, 1, 32, 32]"
    by code_simp
  then show ?thesis using compiler_alignments_nested [OF r] by blast
qed

text \<open>Where the code does not fetch the right element. The verifier accepts alignments that are not nested:
  with dimensions 2, 3, 5 aligned to 1, 32, 1, the map of a layout to itself reads physical position 34 for the
  element at 32. And the map works in elements: for tiles, of which the source has 3 by 3, the third tile row
  of the new layout is fetched from tile row 64.\<close>

definition unnested :: device_tensor where
  "unnested = \<lparr>deviceShapeOf = [1, 64], tileShapeOf = [], layoutOf = \<lparr>logicalShape = [2, 3, 5],
     dimAlignments = [1, 32, 1], collapsedIntervals = [(0, 3)], memoryLayout = Sharded\<rparr>\<rparr>"

definition tiled_source :: device_tensor where
  "tiled_source = \<lparr>deviceShapeOf = [1, 1, 3, 3], tileShapeOf = [32, 32], layoutOf = \<lparr>logicalShape = [96, 96],
     dimAlignments = [32, 32], collapsedIntervals = [], memoryLayout = Interleaved\<rparr>\<rparr>"

definition tiled_target :: device_tensor where
  "tiled_target = \<lparr>deviceShapeOf = [2, 2, 2, 2], tileShapeOf = [32, 32], layoutOf = \<lparr>logicalShape = [96, 96],
     dimAlignments = [64, 64], collapsedIntervals = [], memoryLayout = Sharded\<rparr>\<rparr>"

theorem transform_misses_elements:
  "verifyLayout (layoutOf unnested) = success \<and> placed unnested \<and> element_at unnested [1, 0, 0] = [0, 32] \<and>
     map_option (\<lambda>m. compose_map m [0, 32]) (buildLayoutTransformMap folding_ops folding_simplify unnested unnested) = Some [0, 34] \<and>
   placed tiled_source \<and> placed tiled_target \<and>
     map_option (\<lambda>m. compose_map m [1, 0, 0, 0]) (buildLayoutTransformMap folding_ops folding_simplify tiled_source tiled_target) = Some [0, 0, 64, 0]"
  by (intro conjI; code_simp)

end
