(* ===== verification/LowerPlan.thy ===== *)
theory LowerPlan
  imports LayoutMaps GridSelect DataTypes
begin

text \<open>
  The planner that lowers a change of layout to a sequence of steps
  (\<open>lib/Dialect/D2M/Transforms/LowerToLayout/Plan.cpp\<close>) and the checks under which
  \<open>LowerToLayout.cpp\<close> emits the steps. \<open>None\<close> is a failed assertion, an affine map that is not set is
  \<open>None\<close> inside a state. A type with a layout has even rank, which the interface of layouts asserts; the
  shape of its grid is the first half of its shape. Emitting is followed by the types of the values, the
  operations that are built are not modelled, and neither is the reuse of the given output as a buffer, which
  does not change a type. The view map that steps between DRAM and L1 carry is never set and left out.
\<close>

section \<open>Types and states\<close>

datatype memory_space = System | SystemMMIO | DeviceDRAM | DeviceL1 | RegisterDst

datatype element = ScalarElem elem_type | TileElem "int list" data_type

record ranked_type =
  typeShape :: shape
  elementType :: element
  encoding :: "(metal_layout \<times> memory_space) option"

definition tileOf :: "element \<Rightarrow> int list" where
  "tileOf e = (case e of TileElem sh d \<Rightarrow> sh | ScalarElem t \<Rightarrow> [])"

definition isTiled :: "ranked_type \<Rightarrow> bool" where
  "isTiled t = (case elementType t of TileElem sh d \<Rightarrow> True | ScalarElem e \<Rightarrow> False)"

definition gridOf :: "ranked_type \<Rightarrow> shape" where
  "gridOf t = take (length (typeShape t) div 2) (typeShape t)"

record plan_state =
  stateType :: ranked_type
  remapping :: "affine_map option"
  vgmForward :: "affine_map option"
  vgmInverse :: "affine_map option"

definition hasLayout :: "ranked_type \<Rightarrow> bool" where
  "hasLayout t \<longleftrightarrow> encoding t \<noteq> None"

definition isSystem :: "ranked_type \<Rightarrow> bool" where
  "isSystem t = (case encoding t of None \<Rightarrow> True | Some (layout, ms) \<Rightarrow> ms = System)"

definition isL1 :: "ranked_type \<Rightarrow> bool" where
  "isL1 t = (case encoding t of None \<Rightarrow> False | Some (layout, ms) \<Rightarrow> ms = DeviceL1)"

definition isDRAM :: "ranked_type \<Rightarrow> bool" where
  "isDRAM t = (case encoding t of None \<Rightarrow> False | Some (layout, ms) \<Rightarrow> ms = DeviceDRAM)"

section \<open>Steps\<close>

record output_spec =
  specType :: ranked_type
  specForward :: "affine_map option"
  specInverse :: "affine_map option"

datatype step =
    HostToDeviceStep output_spec
  | DeviceToHostStep ranked_type
  | L1ToDRAMStep output_spec
  | DRAMToL1Step output_spec
  | TilizeStep "int list" ranked_type output_spec
  | UntilizeStep ranked_type output_spec
  | RebufferStep output_spec
  | ReshardStep shape "int list" "(int \<times> int) list" output_spec
  | RemapStep ranked_type affine_map

definition makeOutputSpec :: "ranked_type \<Rightarrow> affine_map option \<Rightarrow> affine_map option \<Rightarrow> output_spec" where
  "makeOutputSpec t fwd bwd = \<lparr>specType = t, specForward = fwd, specInverse = bwd\<rparr>"

definition updateStateFromOutput :: "plan_state \<Rightarrow> output_spec \<Rightarrow> affine_map option \<Rightarrow> plan_state" where
  "updateStateFromOutput st out remap =
     st\<lparr>stateType := specType out, remapping := remap, vgmForward := specForward out, vgmInverse := specInverse out\<rparr>"

section \<open>Helpers of the planner\<close>

definition getScalarType :: "element \<Rightarrow> element" where
  "getScalarType e =
     (case e of
        ScalarElem t \<Rightarrow> ScalarElem t
      | TileElem sh d \<Rightarrow>
          if d \<in> {BFP_Float8, BFP_Float4, BFP_Float2} then ScalarElem (FloatType 32)
          else if d \<in> {BFP_BFloat8, BFP_BFloat4, BFP_BFloat2} then ScalarElem BFloat16Type
          else ScalarElem (dataTypeToElementType d))"

definition canUseReinterpretLayoutView :: "ranked_type \<Rightarrow> ranked_type \<Rightarrow> bool" where
  "canUseReinterpretLayoutView current target =
     (case (encoding current, encoding target) of
        (Some (lc, mc), Some (lt, mt)) \<Rightarrow>
          typeShape current = typeShape target \<and> elementType current = elementType target \<and> gridOf current = gridOf target
          \<and> logicalShape lc = logicalShape lt \<and> dimAlignments lc = dimAlignments lt \<and> mc = mt
          \<and> memoryLayout lc = memoryLayout lt
      | _ \<Rightarrow> False)"

definition map_is_empty :: "affine_map \<Rightarrow> bool" where
  "map_is_empty m \<longleftrightarrow> numDims m = 0 \<and> numSymbols m = 0 \<and> results m = []"

definition map_is_identity :: "affine_map \<Rightarrow> bool" where
  "map_is_identity m \<longleftrightarrow> results m = map DimE [0..<numDims m]"

definition has_remapping :: "affine_map option \<Rightarrow> bool" where
  "has_remapping r = (case r of None \<Rightarrow> False | Some m \<Rightarrow> \<not> map_is_empty m)"

definition needsDramBounce :: "plan_state \<Rightarrow> plan_state \<Rightarrow> bool" where
  "needsDramBounce current target =
     (let ct = stateType current; tt = stateType target
      in case (encoding ct, encoding tt) of
           (Some (lc, mc), Some (lt, mt)) \<Rightarrow>
             if mc \<noteq> DeviceDRAM \<or> mt \<noteq> DeviceDRAM then False
             else let sameVgm = (vgmForward current = vgmForward target \<and> vgmInverse current = vgmInverse target);
                      sameRemapping = (remapping current = remapping target);
                      sameOrReinterpretableType = (ct = tt \<or> canUseReinterpretLayoutView ct tt)
                  in if sameVgm \<and> sameRemapping \<and> sameOrReinterpretableType then False
                     else let samePlacement = (gridOf ct = gridOf tt \<and> logicalShape lc = logicalShape lt
                                \<and> collapsedIntervals lc = collapsedIntervals lt \<and> dimAlignments lc = dimAlignments lt
                                \<and> memoryLayout lc = memoryLayout lt);
                              onlyFormatConversion = (sameVgm \<and> sameRemapping \<and> samePlacement \<and> isTiled ct \<noteq> isTiled tt)
                          in if onlyFormatConversion then False
                             else \<not> (sameVgm \<and> \<not> has_remapping (remapping current) \<and> has_remapping (remapping target)
                                     \<and> sameOrReinterpretableType)
         | _ \<Rightarrow> False)"

definition computeVirtualGridBounceShape :: "shape \<Rightarrow> shape \<Rightarrow> shape option" where
  "computeVirtualGridBounceShape virtualGridShape deviceGridShape =
     (let n = length virtualGridShape;
          collapsed = [prod_list (take (n - 1) virtualGridShape), last virtualGridShape]
      in if n < 2 then None
         else Some (map (\<lambda>i. if collapsed ! i > deviceGridShape ! i then gcd (collapsed ! i) (deviceGridShape ! i) else collapsed ! i) [0, 1]))"

definition computeGridAwareCollapsedIntervalsAndDimAlignments ::
  "metal_layout \<Rightarrow> shape \<Rightarrow> ((int \<times> int) list \<times> int list) option" where
  "computeGridAwareCollapsedIntervalsAndDimAlignments referenceLayout gridShape =
     (let sh = logicalShape referenceLayout; ivs = computeDefaultFlattenedIntervals (length sh)
      in map_option (Pair ivs) (computeGridAwareDimAlignments sh gridShape (normalizeAndFlattenIntervals ivs (length sh))))"

definition createDeviceType :: "ranked_type \<Rightarrow> metal_layout \<times> memory_space \<Rightarrow> ranked_type \<Rightarrow> ranked_type option" where
  "createDeviceType systemType referenceLayout referenceType =
     map_option (\<lambda>sh. \<lparr>typeShape = sh, elementType = elementType systemType, encoding = Some referenceLayout\<rparr>)
       (getDeviceShape (fst referenceLayout) (gridOf referenceType) (tileOf (elementType systemType)))"

definition modifyDeviceType ::
  "ranked_type \<Rightarrow> metal_layout \<times> memory_space \<Rightarrow> shape \<Rightarrow> affine_map option \<Rightarrow> memory_space option \<Rightarrow> shape option
     \<Rightarrow> element option \<Rightarrow> int list option \<Rightarrow> bool \<Rightarrow> ranked_type option" where
  "modifyDeviceType baseType baseLayout targetGridShape existingRemapping newMemSpace newTensorGrid newElementType newTileShape reblock =
     (let ms = (case newMemSpace of Some m \<Rightarrow> m | None \<Rightarrow> snd baseLayout);
          el = (case newElementType of Some e \<Rightarrow> e | None \<Rightarrow> elementType baseType);
          hasVirtualGrid = (case existingRemapping of None \<Rightarrow> False | Some m \<Rightarrow> \<not> map_is_empty m \<and> \<not> map_is_identity m);
          baseGrid = gridOf baseType;
          needsReblock = (newTensorGrid = None \<and> requiresVirtualGrid baseGrid targetGridShape) \<or> hasVirtualGrid;
          tensorGrid = (case newTensorGrid of Some g \<Rightarrow> Some g
                        | None \<Rightarrow> if needsReblock \<and> reblock then computeVirtualGridBounceShape baseGrid targetGridShape else Some baseGrid);
          tileShape = (case el of ScalarElem t \<Rightarrow> []
                       | TileElem sh d \<Rightarrow> (case newTileShape of Some t \<Rightarrow> t
                                         | None \<Rightarrow> if isTiled baseType then tileOf (elementType baseType) else sh))
      in case tensorGrid of
           None \<Rightarrow> None
         | Some grid \<Rightarrow>
             (case (if needsReblock \<and> reblock
                    then map_option (\<lambda>(ivs, al). (fst baseLayout)\<lparr>dimAlignments := al, collapsedIntervals := ivs\<rparr>)
                           (computeGridAwareCollapsedIntervalsAndDimAlignments (fst baseLayout) grid)
                    else Some (fst baseLayout)) of
                None \<Rightarrow> None
              | Some layout \<Rightarrow>
                  map_option (\<lambda>sh. \<lparr>typeShape = sh, elementType = el, encoding = Some (layout, ms)\<rparr>)
                    (getDeviceShape layout grid tileShape)))"

definition untilized_shape :: "shape \<Rightarrow> int list \<Rightarrow> shape" where
  "untilized_shape sh tile =
     (let k = length sh - length tile in take k sh @ map2 (*) (drop k sh) tile)"

definition emitTilizedReshardDecomposition ::
  "plan_state \<Rightarrow> metal_layout \<times> memory_space \<Rightarrow> plan_state \<Rightarrow> metal_layout \<times> memory_space \<Rightarrow> step list option" where
  "emitTilizedReshardDecomposition current currentLayout target targetLayout =
     (let currentType = stateType current; targetType = stateType target;
          scalarType = getScalarType (elementType currentType);
          sourceTileShape = tileOf (elementType currentType);
          untilizedType = \<lparr>typeShape = untilized_shape (typeShape currentType) sourceTileShape, elementType = scalarType,
                           encoding = Some currentLayout\<rparr>;
          scalarTargetLayout = fst targetLayout; grid = gridOf targetType;
          tileShape = tileOf (elementType targetType)
      in if length (typeShape currentType) < length sourceTileShape then None
         else case (getDeviceShape scalarTargetLayout grid [], getDeviceShape scalarTargetLayout grid tileShape) of
                (Some scalarShape, Some tiledShape) \<Rightarrow>
                  let scalarTargetType = \<lparr>typeShape = scalarShape, elementType = scalarType,
                                          encoding = Some (scalarTargetLayout, DeviceL1)\<rparr>;
                      tiledType = \<lparr>typeShape = tiledShape, elementType = elementType targetType,
                                   encoding = Some (scalarTargetLayout, DeviceL1)\<rparr>
                  in Some [UntilizeStep currentType (makeOutputSpec untilizedType (vgmForward current) (vgmInverse current)),
                           ReshardStep grid (dimAlignments scalarTargetLayout) (collapsedIntervals scalarTargetLayout)
                             (makeOutputSpec scalarTargetType (vgmForward target) (vgmInverse target)),
                           TilizeStep tileShape scalarTargetType (makeOutputSpec tiledType (vgmForward target) (vgmInverse target))]
              | _ \<Rightarrow> None)"

section \<open>The plan\<close>

type_synonym phase = "plan_state \<Rightarrow> (plan_state \<times> step list) option"

definition then_phase :: "phase \<Rightarrow> phase \<Rightarrow> phase" where
  "then_phase f g st =
     (case f st of None \<Rightarrow> None
      | Some (st1, p1) \<Rightarrow> (case g st1 of None \<Rightarrow> None | Some (st2, p2) \<Rightarrow> Some (st2, p1 @ p2)))"

definition host_to_device :: "plan_state \<Rightarrow> phase" where
  "host_to_device tgt current =
     (case (encoding (stateType current), encoding (stateType tgt)) of
        (None, Some layout) \<Rightarrow>
          (case createDeviceType (stateType current) layout (stateType tgt) of
             None \<Rightarrow> None
           | Some baseType \<Rightarrow>
               let scalarType = baseType\<lparr>elementType := getScalarType (elementType (stateType current))\<rparr>;
                   output = makeOutputSpec scalarType (vgmForward tgt) (vgmInverse tgt)
               in Some (updateStateFromOutput current output None, [HostToDeviceStep output]))
      | _ \<Rightarrow> Some (current, []))"

definition dram_bounce :: "shape \<Rightarrow> plan_state \<Rightarrow> phase" where
  "dram_bounce targetGridShape tgt current =
     (if \<not> needsDramBounce current tgt then Some (current, [])
      else let ct = stateType current
           in case encoding ct of
                None \<Rightarrow> None
              | Some layout \<Rightarrow>
                  (case modifyDeviceType ct layout targetGridShape (remapping current) (Some DeviceL1) (Some (gridOf ct))
                          (Some (elementType ct)) None False of
                     None \<Rightarrow> None
                   | Some l1Type \<Rightarrow>
                       let output = makeOutputSpec l1Type (vgmForward current) (vgmInverse current)
                       in Some (updateStateFromOutput current output (remapping current), [DRAMToL1Step output])))"

definition dram_to_l1 :: "shape \<Rightarrow> plan_state \<Rightarrow> phase" where
  "dram_to_l1 targetGridShape tgt current =
     (let ct = stateType current; tt = stateType tgt
      in case (encoding ct, encoding tt) of
           (Some (lc, mc), Some (lt, mt)) \<Rightarrow>
             if mc \<noteq> DeviceDRAM \<or> mt = DeviceDRAM then Some (current, [])
             else let bounceGrid = (if memoryLayout lc = Interleaved then gridOf tt else gridOf ct)
                  in (case modifyDeviceType tt (lt, mt) targetGridShape None (Some DeviceL1) (Some bounceGrid)
                            (Some (elementType ct)) None False of
                        None \<Rightarrow> None
                      | Some l1Type \<Rightarrow>
                          let output = makeOutputSpec l1Type (vgmForward tgt) (vgmInverse tgt)
                          in Some (updateStateFromOutput current output None, [DRAMToL1Step output]))
         | _ \<Rightarrow> Some (current, []))"

definition tilize :: "plan_state \<Rightarrow> phase" where
  "tilize tgt current =
     (let ct = stateType current; tt = stateType tgt
      in case encoding ct of
           None \<Rightarrow> Some (current, [])
         | Some (lc, mc) \<Rightarrow>
             if isTiled ct \<or> \<not> isTiled tt then Some (current, [])
             else let tileShape = tileOf (elementType tt)
                  in (case getDeviceShape lc (gridOf ct) tileShape of
                        None \<Rightarrow> None
                      | Some sh \<Rightarrow>
                          let tiledType = \<lparr>typeShape = sh, elementType = elementType tt, encoding = Some (lc, mc)\<rparr>;
                              output = makeOutputSpec tiledType (vgmForward current) (vgmInverse current)
                          in Some (updateStateFromOutput current output (remapping current), [TilizeStep tileShape ct output])))"

definition untilize :: "shape \<Rightarrow> plan_state \<Rightarrow> phase" where
  "untilize targetGridShape tgt current =
     (let ct = stateType current; tt = stateType tgt
      in case encoding ct of
           None \<Rightarrow> Some (current, [])
         | Some layout \<Rightarrow>
             if \<not> isTiled ct \<or> isTiled tt then Some (current, [])
             else (case modifyDeviceType ct layout targetGridShape (remapping current) None None (Some (elementType tt)) None False of
                     None \<Rightarrow> None
                   | Some scalarType \<Rightarrow>
                       let output = makeOutputSpec scalarType (vgmForward current) (vgmInverse current)
                       in Some (updateStateFromOutput current output (remapping current), [UntilizeStep ct output])))"

definition l1_to_dram :: "bool \<Rightarrow> plan_state \<Rightarrow> phase" where
  "l1_to_dram onlySameVolume tgt current =
     (let ct = stateType current; tt = stateType tgt
      in if hasLayout ct \<and> \<not> isDRAM ct \<and> hasLayout tt \<and> isDRAM tt
            \<and> (onlySameVolume \<longrightarrow> volume (typeShape ct) 1 = volume (typeShape tt) 1)
         then let output = makeOutputSpec tt (vgmForward tgt) (vgmInverse tgt)
              in Some (updateStateFromOutput current output None, [L1ToDRAMStep output])
         else Some (current, []))"

definition reinterpret :: "plan_state \<Rightarrow> phase" where
  "reinterpret tgt current =
     (if canUseReinterpretLayoutView (stateType current) (stateType tgt)
      then Some (current\<lparr>stateType := stateType tgt\<rparr>, []) else Some (current, []))"

definition isSimpleReblocking :: "ranked_type \<Rightarrow> metal_layout \<Rightarrow> ranked_type \<Rightarrow> metal_layout \<Rightarrow> bool" where
  "isSimpleReblocking a la b lb \<longleftrightarrow> logicalShape la = logicalShape lb \<and> dimAlignments la = dimAlignments lb
     \<and> collapsedIntervals la = collapsedIntervals lb \<and> volume (typeShape a) 1 = volume (typeShape b) 1"

definition mapping_change :: "plan_state \<Rightarrow> phase" where
  "mapping_change tgt current =
     (let ct = stateType current; tt = stateType tgt
      in case (encoding ct, encoding tt) of
           (Some (lc, mc), Some (lt, mt)) \<Rightarrow>
             if mc \<noteq> DeviceL1 \<or> isTiled ct \<noteq> isTiled tt then Some (current, [])
             else if gridOf ct = gridOf tt \<and> logicalShape lc = logicalShape lt \<and> collapsedIntervals lc = collapsedIntervals lt
                     \<and> dimAlignments lc = dimAlignments lt then Some (current, [])
             else if isTiled ct \<and> isTiled tt \<and> \<not> isSimpleReblocking ct lc tt lt
             then (case emitTilizedReshardDecomposition current (lc, mc) tgt (lt, mt) of
                     None \<Rightarrow> None
                   | Some p \<Rightarrow> (case last p of
                                  TilizeStep tile inp output \<Rightarrow> Some (updateStateFromOutput current output None, p)
                                | _ \<Rightarrow> None))
             else let intermediateType = \<lparr>typeShape = typeShape tt, elementType = elementType ct, encoding = Some (lt, DeviceL1)\<rparr>;
                      output = makeOutputSpec intermediateType (vgmForward tgt) (vgmInverse tgt)
                  in Some (updateStateFromOutput current output None,
                           [ReshardStep (gridOf tt) (dimAlignments lt) (collapsedIntervals lt) output])
         | _ \<Rightarrow> Some (current, []))"

definition rebuffer :: "plan_state \<Rightarrow> phase" where
  "rebuffer tgt current =
     (let canMaterializeMetadataChange = (\<not> isSystem (stateType tgt));
          needsVgmChange = (canMaterializeMetadataChange \<and>
            (vgmForward current \<noteq> vgmForward tgt \<or> vgmInverse current \<noteq> vgmInverse tgt));
          needsRemapMaterialization = (canMaterializeMetadataChange \<and> has_remapping (remapping current)
            \<and> remapping current \<noteq> remapping tgt)
      in if needsVgmChange \<or> needsRemapMaterialization
         then let output = makeOutputSpec (stateType current) (vgmForward tgt) (vgmInverse tgt)
              in Some (updateStateFromOutput current output None, [RebufferStep output])
         else Some (current, []))"

definition apply_remapping :: "plan_state \<Rightarrow> phase" where
  "apply_remapping tgt current =
     (case remapping tgt of
        None \<Rightarrow> Some (current, [])
      | Some m \<Rightarrow> if remapping current \<noteq> Some m \<and> \<not> map_is_empty m
                  then Some (current\<lparr>remapping := Some m\<rparr>, [RemapStep (stateType current) m]) else Some (current, []))"

definition device_to_host :: "plan_state \<Rightarrow> phase" where
  "device_to_host tgt current =
     (if hasLayout (stateType current) \<and> \<not> hasLayout (stateType tgt)
      then Some (current, [DeviceToHostStep (stateType tgt)]) else Some (current, []))"

definition phases :: "shape \<Rightarrow> plan_state \<Rightarrow> phase" where
  "phases targetGridShape tgt =
     foldr then_phase [host_to_device tgt, dram_bounce targetGridShape tgt, dram_to_l1 targetGridShape tgt, tilize tgt,
       untilize targetGridShape tgt, l1_to_dram True tgt, reinterpret tgt, mapping_change tgt, l1_to_dram False tgt,
       rebuffer tgt, apply_remapping tgt, device_to_host tgt] (\<lambda>st. Some (st, []))"

definition canonicalize :: "plan_state \<Rightarrow> plan_state \<Rightarrow> shape \<Rightarrow> step list option" where
  "canonicalize src tgt targetGridShape = map_option snd (phases targetGridShape tgt src)"

section \<open>Minimising a plan\<close>

definition cancels :: "step \<Rightarrow> step \<Rightarrow> bool" where
  "cancels a b =
     (case (a, b) of
        (TilizeStep tile inp out, UntilizeStep inp' out') \<Rightarrow> inp = specType out'
      | (UntilizeStep inp out, TilizeStep tile inp' out') \<Rightarrow> inp = specType out'
      | _ \<Rightarrow> False)"

definition tryFuse :: "step \<Rightarrow> step \<Rightarrow> step option" where
  "tryFuse a b =
     (case (a, b) of (ReshardStep g al ivs out, ReshardStep g' al' ivs' out') \<Rightarrow> Some b | _ \<Rightarrow> None)"

text \<open>The plan as the steps before the index, in reverse, and the others.\<close>

function (sequential) cancellation_loop :: "step list \<Rightarrow> step list \<Rightarrow> bool \<Rightarrow> bool \<times> step list" where
  "cancellation_loop before (a # b # rest) changed =
     (if cancels a b
      then (case before of [] \<Rightarrow> cancellation_loop [] rest True | x # xs \<Rightarrow> cancellation_loop xs (x # rest) True)
      else cancellation_loop (a # before) (b # rest) changed)"
| "cancellation_loop before rest changed = (changed, rev before @ rest)"
  by pat_completeness auto

termination
  by (relation "measure (\<lambda>(before, rest, changed). length before + 2 * length rest)") auto

definition applyCancellationPass :: "step list \<Rightarrow> bool \<times> step list" where
  "applyCancellationPass plan = cancellation_loop [] plan False"

function (sequential) fusion_loop :: "step list \<Rightarrow> step list \<Rightarrow> bool \<Rightarrow> bool \<times> step list" where
  "fusion_loop before (a # b # rest) changed =
     (case tryFuse a b of
        Some fused \<Rightarrow> fusion_loop before (fused # rest) True
      | None \<Rightarrow> fusion_loop (a # before) (b # rest) changed)"
| "fusion_loop before rest changed = (changed, rev before @ rest)"
  by pat_completeness auto

termination
  by (relation "measure (\<lambda>(before, rest, changed). length before + 2 * length rest)") auto

definition applyFusionPass :: "step list \<Rightarrow> bool \<times> step list" where
  "applyFusionPass plan = fusion_loop [] plan False"

definition shrinks :: "nat \<Rightarrow> bool \<Rightarrow> bool \<times> step list \<Rightarrow> bool" where
  "shrinks n changed r \<longleftrightarrow> length (snd r) \<le> n \<and> (fst r \<longrightarrow> changed \<or> length (snd r) < n)"

lemma shrinks_less: "shrinks m True r \<Longrightarrow> m < n \<Longrightarrow> shrinks n changed r"
  by (auto simp: shrinks_def)

lemma cancellation_shrinks: "shrinks (length before + length rest) changed (cancellation_loop before rest changed)"
proof (induction before rest changed rule: cancellation_loop.induct)
  case (1 before a b rest changed)
  show ?case
  proof (cases "cancels a b")
    case True
    then show ?thesis using 1(1) [OF True] 1(2) [OF True] by (cases before) (auto elim!: shrinks_less)
  next
    case False
    then show ?thesis using 1(3) [OF False] by simp
  qed
qed (simp_all add: shrinks_def)

lemma fusion_shrinks: "shrinks (length before + length rest) changed (fusion_loop before rest changed)"
proof (induction before rest changed rule: fusion_loop.induct)
  case (1 before a b rest changed)
  show ?case
  proof (cases "tryFuse a b")
    case None
    then show ?thesis using 1(1) [OF None] by simp
  next
    case (Some c)
    then show ?thesis using 1(2) [OF Some] by (auto elim!: shrinks_less)
  qed
qed (simp_all add: shrinks_def)

function minimize :: "step list \<Rightarrow> step list" where
  "minimize plan =
     (let (c1, p1) = applyCancellationPass plan; (c2, p2) = applyFusionPass p1
      in if c1 \<or> c2 then minimize p2 else p2)"
  by pat_completeness auto

termination
proof (relation "measure length")
  fix plan :: "step list" and x c1 p1 y c2 p2
  assume "x = applyCancellationPass plan" "(c1, p1) = x" "y = applyFusionPass p1" "(c2, p2) = y" "c1 \<or> c2"
  then have "applyCancellationPass plan = (c1, p1)" "applyFusionPass p1 = (c2, p2)" "c1 \<or> c2" by simp_all
  then show "(p2, plan) \<in> measure length"
    using cancellation_shrinks [of "[]" plan False] fusion_shrinks [of "[]" p1 False]
    by (auto simp: applyCancellationPass_def applyFusionPass_def shrinks_def)
qed simp

section \<open>Emitting a plan\<close>

text \<open>The type of the buffer that is created for an output; an output that needs a virtual grid and has none
  gets the maps of its grid.\<close>

definition createEmpty :: "affine_ops \<Rightarrow> shape \<Rightarrow> output_spec \<Rightarrow> ranked_type option" where
  "createEmpty ops targetGridShape spec =
     (let t = specType spec
      in if (specForward spec = None) \<noteq> (specInverse spec = None) then None
         else if specForward spec \<noteq> None \<or> \<not> hasLayout t \<or> \<not> requiresVirtualGrid (gridOf t) targetGridShape then Some t
         else case getPhysicalGridExtent (gridOf t) targetGridShape of
                None \<Rightarrow> None
              | Some extent \<Rightarrow> if createCoreVirtMaps ops (gridOf t) extent = None then None else Some t)"

definition lowerSystemLayoutChange :: "ranked_type \<Rightarrow> ranked_type \<Rightarrow> ranked_type option" where
  "lowerSystemLayoutChange input output =
     (if isSystem input = isSystem output then None else Some output)"

definition as_tensor :: "ranked_type \<Rightarrow> metal_layout \<Rightarrow> device_tensor" where
  "as_tensor t layout = \<lparr>deviceShapeOf = typeShape t, tileShapeOf = tileOf (elementType t), layoutOf = layout\<rparr>"

definition lowerMappingChange ::
  "affine_ops \<Rightarrow> (affine_map \<Rightarrow> affine_map) \<Rightarrow> ranked_type \<Rightarrow> ranked_type \<Rightarrow> ranked_type option" where
  "lowerMappingChange ops simplify input output =
     (case (encoding input, encoding output) of
        (Some (il, im), Some (ol, om)) \<Rightarrow>
          if im \<noteq> om \<or> elementType input \<noteq> elementType output then None
          else map_option (\<lambda>viewMap. output)
                 (if isSimpleReblocking input il output ol \<and> isTiled input \<and> isTiled output
                  then calculateReblockMap ops (typeShape input) (typeShape output)
                  else buildLayoutTransformMap ops simplify (as_tensor input il) (as_tensor output ol))
      | _ \<Rightarrow> None)"

text \<open>\<open>buildConcreteView\<close>: the view of a value of one type in the shape of another, and its map.\<close>

definition concrete_view ::
  "affine_ops \<Rightarrow> (affine_map \<Rightarrow> affine_map) \<Rightarrow> ranked_type \<Rightarrow> ranked_type \<Rightarrow> (ranked_type \<times> affine_map) option" where
  "concrete_view ops simplify fromTy toTy =
     (case (encoding fromTy, encoding toTy) of
        (Some (fl, fm), Some (lt, mt)) \<Rightarrow>
          map_option (Pair \<lparr>typeShape = typeShape toTy, elementType = elementType toTy, encoding = Some (fl, fm)\<rparr>)
            (if volume (typeShape fromTy) 1 = volume (typeShape toTy) 1
             then calculateReblockMap ops (typeShape fromTy) (typeShape toTy)
             else buildLayoutTransformMap ops simplify (as_tensor fromTy fl) (as_tensor toTy lt))
      | _ \<Rightarrow> None)"

definition lowerDatamovement ::
  "affine_ops \<Rightarrow> (affine_map \<Rightarrow> affine_map) \<Rightarrow> ranked_type \<Rightarrow> ranked_type \<Rightarrow> ranked_type option" where
  "lowerDatamovement ops simplify input output =
     (if isSystem input \<or> isSystem output then lowerSystemLayoutChange input output
      else let isSrcDramOrReblock = (isDRAM input \<or> (\<not> isDRAM output \<and> gridOf input \<noteq> gridOf output))
           in if isSrcDramOrReblock \<and> isDRAM output then None
              else if isSrcDramOrReblock \<and> concrete_view ops simplify input output = None then None
              else if \<not> isDRAM output then Some output
              else (case concrete_view ops simplify output input of
                      None \<Rightarrow> None
                    | Some (viewOutput, viewMap) \<Rightarrow>
                        if viewOutput = output then Some output
                        else map_option fst (concrete_view ops simplify viewOutput output)))"

definition lowerFormatConversion :: "ranked_type \<Rightarrow> ranked_type \<Rightarrow> ranked_type option" where
  "lowerFormatConversion input output =
     (if isTiled input = isTiled output \<or> \<not> hasLayout input \<or> \<not> hasLayout output \<or> gridOf input \<noteq> gridOf output then None
      else Some output)"

fun emit_step ::
  "affine_ops \<Rightarrow> (affine_map \<Rightarrow> affine_map) \<Rightarrow> shape \<Rightarrow> ranked_type \<Rightarrow> step \<Rightarrow> ranked_type option" where
  "emit_step ops simplify grid t (HostToDeviceStep out) = Option.bind (createEmpty ops grid out) (lowerSystemLayoutChange t)"
| "emit_step ops simplify grid t (DeviceToHostStep ty) =
     Option.bind (createEmpty ops grid (makeOutputSpec ty None None)) (lowerSystemLayoutChange t)"
| "emit_step ops simplify grid t (L1ToDRAMStep out) = Option.bind (createEmpty ops grid out) (lowerDatamovement ops simplify t)"
| "emit_step ops simplify grid t (DRAMToL1Step out) = Option.bind (createEmpty ops grid out) (lowerDatamovement ops simplify t)"
| "emit_step ops simplify grid t (TilizeStep tile inp out) = Option.bind (createEmpty ops grid out) (lowerFormatConversion t)"
| "emit_step ops simplify grid t (UntilizeStep inp out) = Option.bind (createEmpty ops grid out) (lowerFormatConversion t)"
| "emit_step ops simplify grid t (RebufferStep out) = Option.bind (createEmpty ops grid out) (lowerDatamovement ops simplify t)"
| "emit_step ops simplify grid t (ReshardStep g al ivs out) = Option.bind (createEmpty ops grid out) (lowerMappingChange ops simplify t)"
| "emit_step ops simplify grid t (RemapStep ty m) = Some ty"

fun emit_plan :: "affine_ops \<Rightarrow> (affine_map \<Rightarrow> affine_map) \<Rightarrow> shape \<Rightarrow> ranked_type \<Rightarrow> step list \<Rightarrow> ranked_type option" where
  "emit_plan ops simplify grid t [] = Some t"
| "emit_plan ops simplify grid t (s # p) = Option.bind (emit_step ops simplify grid t s) (\<lambda>t'. emit_plan ops simplify grid t' p)"

end
