(* ===== verification/LowerPlanProps.thy ===== *)
theory LowerPlanProps
  imports LowerPlan LayoutMapProps
begin

text \<open>
  What the layout-lowering planner promises. Minimising is a sequence of cancellations and fusions that ends in
  a plan where none is left (\<open>reduces\<close>, \<open>irreducible\<close>) and keeps the type a plan ends in. Each phase of the
  planner is followed with the judgement \<open>leads\<close>: it fails no assertion, its steps can be emitted, and it ends
  in a state of the given kind. The phases compose to the theorem that a supported change of layout reaches
  the type of its target. Views rest on \<open>affine_composer\<close>, the locale of the layout maps.
\<close>

section \<open>Minimising\<close>

declare minimize.simps [simp del]

fun irreducible :: "step list \<Rightarrow> bool" where
  "irreducible (a # b # rest) \<longleftrightarrow> \<not> cancels a b \<and> tryFuse a b = None \<and> irreducible (b # rest)"
| "irreducible p \<longleftrightarrow> True"

inductive reduces :: "step list \<Rightarrow> step list \<Rightarrow> bool" where
  cancel: "cancels a b \<Longrightarrow> reduces (xs @ a # b # ys) (xs @ ys)"
| fuse: "tryFuse a b = Some c \<Longrightarrow> reduces (xs @ a # b # ys) (xs @ c # ys)"

lemma cancellation_reduces: "reduces\<^sup>*\<^sup>* (rev before @ rest) (snd (cancellation_loop before rest changed))"
proof (induction before rest changed rule: cancellation_loop.induct)
  case (1 before a b rest changed)
  show ?case
  proof (cases "cancels a b")
    case True
    note r = reduces.cancel [OF True, of "rev before" rest]
    show ?thesis
    proof (cases before)
      case Nil
      then show ?thesis using converse_rtranclp_into_rtranclp [of reduces, OF r] 1(1) [OF True Nil] True by simp
    next
      case (Cons x xs)
      then show ?thesis using converse_rtranclp_into_rtranclp [of reduces, OF r] 1(2) [OF True Cons] True by simp
    qed
  next
    case False
    then show ?thesis using 1(3) [OF False] by simp
  qed
qed simp_all

lemma fusion_reduces: "reduces\<^sup>*\<^sup>* (rev before @ rest) (snd (fusion_loop before rest changed))"
proof (induction before rest changed rule: fusion_loop.induct)
  case (1 before a b rest changed)
  show ?case
  proof (cases "tryFuse a b")
    case None
    then show ?thesis using 1(1) [OF None] by simp
  next
    case (Some c)
    note r = reduces.fuse [OF Some, of "rev before" rest]
    show ?thesis using converse_rtranclp_into_rtranclp [of reduces, OF r] 1(2) [OF Some] Some by simp
  qed
qed simp_all

lemma cancellation_changed: "fst (cancellation_loop before rest True)"
proof (induction before rest True rule: cancellation_loop.induct)
  case (1 before a b rest)
  then show ?case by (cases "cancels a b"; cases before) simp_all
qed simp_all

lemma cancellation_unchanged:
  "\<not> fst (cancellation_loop before rest changed) \<Longrightarrow>
     snd (cancellation_loop before rest changed) = rev before @ rest \<and> successively (\<lambda>a b. \<not> cancels a b) rest"
proof (induction before rest changed rule: cancellation_loop.induct)
  case (1 before a b rest changed)
  have "\<not> cancels a b" using 1(4) cancellation_changed by (cases before) (auto split: if_split_asm)
  then show ?case using 1 by simp
qed simp_all

lemma fusion_changed: "fst (fusion_loop before rest True)"
proof (induction before rest True rule: fusion_loop.induct)
  case (1 before a b rest)
  then show ?case by (cases "tryFuse a b") simp_all
qed simp_all

lemma fusion_unchanged:
  "\<not> fst (fusion_loop before rest changed) \<Longrightarrow>
     snd (fusion_loop before rest changed) = rev before @ rest \<and> successively (\<lambda>a b. tryFuse a b = None) rest"
proof (induction before rest changed rule: fusion_loop.induct)
  case (1 before a b rest changed)
  have "tryFuse a b = None"
  proof (cases "tryFuse a b")
    case (Some c)
    then show ?thesis using 1(3) fusion_changed [of before "c # rest"] by simp
  qed
  then show ?case using 1 by simp
qed simp_all

lemma irreducible_iff:
  "irreducible p \<longleftrightarrow> successively (\<lambda>a b. \<not> cancels a b) p \<and> successively (\<lambda>a b. tryFuse a b = None) p"
  by (induction p rule: irreducible.induct) auto

lemma minimize_normal: "reduces\<^sup>*\<^sup>* p (minimize p) \<and> irreducible (minimize p)"
proof (induction p rule: minimize.induct)
  case (1 p)
  obtain c1 p1 where c: "applyCancellationPass p = (c1, p1)" by fastforce
  obtain c2 p2 where f: "applyFusionPass p1 = (c2, p2)" by fastforce
  have r: "reduces\<^sup>*\<^sup>* p p1" "reduces\<^sup>*\<^sup>* p1 p2"
    using cancellation_reduces [of "[]" p False] fusion_reduces [of "[]" p1 False] c f
    by (simp_all add: applyCancellationPass_def applyFusionPass_def)
  show ?case
  proof (cases "c1 \<or> c2")
    case True
    have "minimize p = minimize p2" by (subst minimize.simps) (simp add: c f True)
    moreover have "reduces\<^sup>*\<^sup>* p2 (minimize p2) \<and> irreducible (minimize p2)"
      by (rule 1 [OF c [symmetric] refl f [symmetric] refl True])
    ultimately show ?thesis using r by (metis rtranclp_trans)
  next
    case False
    have m: "minimize p = p2" by (subst minimize.simps) (use c f False in simp)
    have "p1 = p" "p2 = p1" "successively (\<lambda>a b. \<not> cancels a b) p" "successively (\<lambda>a b. tryFuse a b = None) p1"
      using cancellation_unchanged [of "[]" p False] fusion_unchanged [of "[]" p1 False] c f False
      by (simp_all add: applyCancellationPass_def applyFusionPass_def)
    then show ?thesis using r by (simp add: m irreducible_iff)
  qed
qed

section \<open>Emitting\<close>

definition step_out :: "step \<Rightarrow> ranked_type" where
  "step_out s = (case s of HostToDeviceStep out \<Rightarrow> specType out | DeviceToHostStep t \<Rightarrow> t | L1ToDRAMStep out \<Rightarrow> specType out
     | DRAMToL1Step out \<Rightarrow> specType out | TilizeStep tile inp out \<Rightarrow> specType out | UntilizeStep inp out \<Rightarrow> specType out
     | RebufferStep out \<Rightarrow> specType out | ReshardStep g al ivs out \<Rightarrow> specType out | RemapStep t m \<Rightarrow> t)"

definition placed_type :: "ranked_type \<Rightarrow> bool" where
  "placed_type t = (case encoding t of None \<Rightarrow> False | Some (layout, ms) \<Rightarrow> placed (as_tensor t layout))"

text \<open>A step that is chained to the type before it: format conversions name it as their input, and reshards
  stand between tensors with a place.\<close>

definition step_chained :: "ranked_type \<Rightarrow> step \<Rightarrow> bool" where
  "step_chained t s = (case s of TilizeStep tile inp out \<Rightarrow> inp = t | UntilizeStep inp out \<Rightarrow> inp = t
     | ReshardStep g al ivs out \<Rightarrow> placed_type t \<and> placed_type (specType out) | _ \<Rightarrow> True)"

fun chained :: "ranked_type \<Rightarrow> step list \<Rightarrow> bool" where
  "chained t [] \<longleftrightarrow> True"
| "chained t (s # p) \<longleftrightarrow> step_chained t s \<and> chained (step_out s) p"

definition plan_out :: "ranked_type \<Rightarrow> step list \<Rightarrow> ranked_type" where
  "plan_out t p = foldl (\<lambda>_ s. step_out s) t p"

lemma plan_out_simps [simp]: "plan_out t [] = t" "plan_out t (s # p) = plan_out (step_out s) p" "plan_out t (p @ q) = plan_out (plan_out t p) q"
  by (simp_all add: plan_out_def)

lemma chained_append: "chained t (p @ q) \<longleftrightarrow> chained t p \<and> chained (plan_out t p) q"
  by (induction p arbitrary: t) simp_all

lemma createEmpty_type: "createEmpty ops grid out = Some t \<Longrightarrow> t = specType out"
  by (auto simp: createEmpty_def Let_def split: if_splits option.splits)

lemma concrete_view_type:
  "concrete_view ops simplify a b = Some (t, m) \<Longrightarrow>
     t = \<lparr>typeShape = typeShape b, elementType = elementType b, encoding = encoding a\<rparr>"
  by (auto simp: concrete_view_def split: option.splits prod.splits)

lemma datamovement_type: "lowerDatamovement ops simplify i out = Some t \<Longrightarrow> t = out"
proof -
  assume a: "lowerDatamovement ops simplify i out = Some t"
  have "fst v = out" if "concrete_view ops simplify w out = Some v" "concrete_view ops simplify out i = Some (w, m)" for v w m
    using concrete_view_type [of ops simplify w out "fst v" "snd v"] concrete_view_type [OF that(2)] that(1) by simp
  then show "t = out" using a
    by (auto simp: lowerDatamovement_def lowerSystemLayoutChange_def Let_def split: if_split_asm option.splits)
qed

lemma emit_step_out: "emit_step ops simplify grid t s = Some t' \<Longrightarrow> t' = step_out s"
proof (cases s)
  case (L1ToDRAMStep out)
  then show "emit_step ops simplify grid t s = Some t' \<Longrightarrow> t' = step_out s"
    by (auto simp: step_out_def bind_eq_Some_conv dest!: createEmpty_type datamovement_type)
next
  case (DRAMToL1Step out)
  then show "emit_step ops simplify grid t s = Some t' \<Longrightarrow> t' = step_out s"
    by (auto simp: step_out_def bind_eq_Some_conv dest!: createEmpty_type datamovement_type)
next
  case (RebufferStep out)
  then show "emit_step ops simplify grid t s = Some t' \<Longrightarrow> t' = step_out s"
    by (auto simp: step_out_def bind_eq_Some_conv dest!: createEmpty_type datamovement_type)
next
  case (ReshardStep g al ivs out)
  then show "emit_step ops simplify grid t s = Some t' \<Longrightarrow> t' = step_out s"
    by (auto simp: step_out_def bind_eq_Some_conv lowerMappingChange_def split: option.splits if_split_asm dest!: createEmpty_type)
qed (auto simp: step_out_def bind_eq_Some_conv lowerSystemLayoutChange_def lowerFormatConversion_def makeOutputSpec_def
    split: if_split_asm dest!: createEmpty_type)

lemma mapping_type: "lowerMappingChange ops simplify i out = Some t \<Longrightarrow> t = out"
  by (auto simp: lowerMappingChange_def split: option.splits if_split_asm)

lemma reshard_emitted:
  assumes "emit_step ops simplify grid t (ReshardStep g al ivs out) = Some t'"
  shows "createEmpty ops grid out = Some (specType out)" "lowerMappingChange ops simplify t (specType out) = Some (specType out)"
    "t' = specType out"
proof -
  obtain b where b: "createEmpty ops grid out = Some b" "lowerMappingChange ops simplify t b = Some t'"
    using assms by (auto simp: bind_eq_Some_conv)
  then show "createEmpty ops grid out = Some (specType out)" "lowerMappingChange ops simplify t (specType out) = Some (specType out)"
    "t' = specType out" using createEmpty_type [OF b(1)] mapping_type [OF b(2)] by simp_all
qed

lemma emit_append: "emit_plan ops simplify grid t (p @ q) = Option.bind (emit_plan ops simplify grid t p) (\<lambda>t'. emit_plan ops simplify grid t' q)"
  by (induction p arbitrary: t) (simp_all add: bind_assoc)

lemma emit_out: "emit_plan ops simplify grid t p = Some v \<Longrightarrow> v = plan_out t p"
  by (induction p arbitrary: t) (auto simp: bind_eq_Some_conv dest: emit_step_out)

lemma emit_split:
  assumes "emit_plan ops simplify grid t (p @ q) = Some v"
  shows "emit_plan ops simplify grid t p = Some (plan_out t p)" "emit_plan ops simplify grid (plan_out t p) q = Some v"
  using assms emit_out [of ops simplify grid t p] by (auto simp: emit_append bind_eq_Some_conv)

lemma emit_join:
  assumes "emit_plan ops simplify grid t p = Some t'" "emit_plan ops simplify grid t' q = Some v"
  shows "emit_plan ops simplify grid t (p @ q) = Some v"
  using assms by (simp add: emit_append)

section \<open>Changes of the mapping\<close>

lemma placed_even: "placed t \<Longrightarrow> even (length (deviceShapeOf t))"
  by (auto simp: placed_def getGridShape_def split: if_splits)

lemma reblock_total:
  assumes "volume a 1 = volume b 1" "even (length a)" "even (length b)"
  shows "\<exists>m. calculateReblockMap ops a b = Some m"
  using assms by (simp add: calculateReblockMap_def Let_def)

context affine_composer begin

lemma mapping_emitted:
  assumes "encoding a = Some (la, ms)" "encoding b = Some (lb, ms)" "placed_type a" "placed_type b"
    "elementType a = elementType b" "logicalShape la = logicalShape lb"
  shows "lowerMappingChange ops simplify a b = Some b"
proof -
  have p: "placed (as_tensor a la)" "placed (as_tensor b lb)" using assms(1-4) by (simp_all add: placed_type_def)
  have "\<exists>m. calculateReblockMap ops (typeShape a) (typeShape b) = Some m" if "isSimpleReblocking a la b lb"
    using that placed_even [OF p(1)] placed_even [OF p(2)] by (intro reblock_total) (simp_all add: isSimpleReblocking_def as_tensor_def)
  moreover have "\<exists>m. buildLayoutTransformMap ops simplify (as_tensor a la) (as_tensor b lb) = Some m"
    using transform_total [OF p] assms(5,6) by (auto simp: as_tensor_def)
  ultimately show ?thesis using assms(1,2,5) by (auto simp: lowerMappingChange_def)
qed

lemma view_emitted:
  assumes "encoding a = Some (la, ma)" "encoding b = Some (lb, mb)" "placed_type a" "placed_type b"
    "tileOf (elementType a) = tileOf (elementType b)" "logicalShape la = logicalShape lb"
  shows "\<exists>m. concrete_view ops simplify a b = Some (\<lparr>typeShape = typeShape b, elementType = elementType b, encoding = Some (la, ma)\<rparr>, m)"
proof -
  have p: "placed (as_tensor a la)" "placed (as_tensor b lb)" using assms(1-4) by (simp_all add: placed_type_def)
  have "\<exists>m. calculateReblockMap ops (typeShape a) (typeShape b) = Some m" if "volume (typeShape a) 1 = volume (typeShape b) 1"
    using that placed_even [OF p(1)] placed_even [OF p(2)] by (intro reblock_total) (simp_all add: as_tensor_def)
  moreover have "\<exists>m. buildLayoutTransformMap ops simplify (as_tensor a la) (as_tensor b lb) = Some m"
    using transform_total [OF p] assms(5,6) by (auto simp: as_tensor_def)
  ultimately show ?thesis using assms(1,2) by (auto simp: concrete_view_def)
qed

lemma mapping_logical:
  assumes "lowerMappingChange ops simplify a b = Some c"
  shows "\<exists>la lb ms. encoding a = Some (la, ms) \<and> encoding b = Some (lb, ms) \<and> elementType a = elementType b
    \<and> logicalShape la = logicalShape lb"
  using assms
  by (auto simp: lowerMappingChange_def isSimpleReblocking_def buildLayoutTransformMap_def as_tensor_def Let_def
      split: option.splits if_split_asm)

text \<open>Reductions keep the type a plan ends in, and that it can be emitted.\<close>

lemma reduces_emits:
  assumes "reduces p q" "chained t p" "emit_plan ops simplify grid t p = Some v"
  shows "chained t q \<and> emit_plan ops simplify grid t q = Some v"
  using assms
proof (induction rule: reduces.induct)
  case (cancel a b xs ys)
  let ?t = "plan_out t xs"
  have c: "chained t xs" "step_chained ?t a" "step_chained (step_out a) b" "chained (step_out b) ys"
    using cancel.prems(1) by (simp_all add: chained_append)
  have e: "emit_plan ops simplify grid t xs = Some ?t" "emit_plan ops simplify grid ?t (a # b # ys) = Some v"
    using emit_split [OF cancel.prems(2)] by auto
  have "step_out b = ?t" using cancel.hyps c(2,3) by (cases a; cases b) (auto simp: cancels_def step_chained_def step_out_def)
  moreover have "emit_plan ops simplify grid (step_out b) ys = Some v"
    using e(2) by (auto simp: bind_eq_Some_conv dest: emit_step_out)
  ultimately show ?case using c e(1) emit_join by (auto simp: chained_append)
next
  case (fuse a b d xs ys)
  let ?t = "plan_out t xs"
  have c: "chained t xs" "step_chained ?t a" "step_chained (step_out a) b" "chained (step_out b) ys"
    using fuse.prems(1) by (simp_all add: chained_append)
  have e: "emit_plan ops simplify grid t xs = Some ?t" "emit_plan ops simplify grid ?t (a # b # ys) = Some v"
    using emit_split [OF fuse.prems(2)] by auto
  obtain g al ivs out g' al' ivs' out' where ab: "a = ReshardStep g al ivs out" "b = ReshardStep g' al' ivs' out'" "d = b"
    using fuse.hyps by (auto simp: tryFuse_def split: step.splits)
  have s: "createEmpty ops grid out = Some (specType out)" "lowerMappingChange ops simplify ?t (specType out) = Some (specType out)"
    "createEmpty ops grid out' = Some (specType out')" "lowerMappingChange ops simplify (specType out) (specType out') = Some (specType out')"
    "emit_plan ops simplify grid (specType out') ys = Some v"
    using e(2) reshard_emitted [of ops simplify grid ?t g al ivs out] reshard_emitted [of ops simplify grid "specType out" g' al' ivs' out']
    by (auto simp: ab bind_eq_Some_conv simp del: emit_step.simps)
  have "lowerMappingChange ops simplify ?t (specType out') = Some (specType out')"
    using mapping_logical [OF s(2)] mapping_logical [OF s(4)] c(2,3) mapping_emitted [of ?t _ _ "specType out'"]
    by (auto simp: ab step_chained_def step_out_def)
  then have "emit_plan ops simplify grid ?t (b # ys) = Some v" using s(3,5) by (simp add: ab)
  moreover have "step_chained ?t b" using c(2,3) by (auto simp: ab step_chained_def)
  ultimately show ?case using c e(1) emit_join ab(3) by (auto simp: chained_append)
qed

lemma minimize_emits:
  assumes "chained t p" "emit_plan ops simplify grid t p = Some v"
  shows "chained t (minimize p) \<and> emit_plan ops simplify grid t (minimize p) = Some v"
proof -
  have "reduces\<^sup>*\<^sup>* p q \<Longrightarrow> chained t q \<and> emit_plan ops simplify grid t q = Some v" for q
    by (induction rule: rtranclp_induct) (use assms reduces_emits in blast)+
  then show ?thesis using minimize_normal by blast
qed

end

section \<open>Types on the device\<close>

definition tiled_elem :: "element \<Rightarrow> bool" where
  "tiled_elem e = (case e of TileElem sh d \<Rightarrow> True | ScalarElem t \<Rightarrow> False)"

definition mk_type :: "metal_layout \<Rightarrow> memory_space \<Rightarrow> shape \<Rightarrow> element \<Rightarrow> ranked_type" where
  "mk_type layout ms grid e =
     \<lparr>typeShape = the (getDeviceShape layout grid (tileOf e)), elementType = e, encoding = Some (layout, ms)\<rparr>"

text \<open>A layout can be cut into the shards of a grid, in units of a tile.\<close>

definition fits_grid :: "metal_layout \<Rightarrow> shape \<Rightarrow> int list \<Rightarrow> bool" where
  "fits_grid layout grid tile =
     (case getDeviceShape layout grid tile of
        None \<Rightarrow> False
      | Some sh \<Rightarrow> length grid = length sh div 2 \<and> placed \<lparr>deviceShapeOf = sh, tileShapeOf = tile, layoutOf = layout\<rparr>)"

definition device_type :: "ranked_type \<Rightarrow> bool" where
  "device_type t =
     (case encoding t of
        None \<Rightarrow> False
      | Some (layout, ms) \<Rightarrow> (ms = DeviceL1 \<or> ms = DeviceDRAM) \<and> fits_grid layout (gridOf t) (tileOf (elementType t))
          \<and> t = mk_type layout ms (gridOf t) (elementType t))"

lemma mk_type_simps [simp]:
  "elementType (mk_type l ms g e) = e" "encoding (mk_type l ms g e) = Some (l, ms)"
  "isTiled (mk_type l ms g e) = tiled_elem e" "hasLayout (mk_type l ms g e)"
  "isSystem (mk_type l ms g e) \<longleftrightarrow> ms = System" "isL1 (mk_type l ms g e) \<longleftrightarrow> ms = DeviceL1"
  "isDRAM (mk_type l ms g e) \<longleftrightarrow> ms = DeviceDRAM"
  by (simp_all add: mk_type_def isTiled_def tiled_elem_def hasLayout_def isSystem_def isL1_def isDRAM_def)

lemma fits_shape: "fits_grid l g tile \<Longrightarrow> \<exists>sh. getDeviceShape l g tile = Some sh"
  by (auto simp: fits_grid_def split: option.splits)

lemma fits_mk:
  assumes "fits_grid l g (tileOf e)"
  shows "getDeviceShape l g (tileOf e) = Some (typeShape (mk_type l ms g e))" "gridOf (mk_type l ms g e) = g"
    "placed_type (mk_type l ms g e)" "placed (as_tensor (mk_type l ms g e) l)"
proof -
  obtain sh where sh: "getDeviceShape l g (tileOf e) = Some sh" "length g = length sh div 2"
    "placed \<lparr>deviceShapeOf = sh, tileShapeOf = tileOf e, layoutOf = l\<rparr>" using assms by (auto simp: fits_grid_def split: option.splits)
  show "getDeviceShape l g (tileOf e) = Some (typeShape (mk_type l ms g e))" using sh by (simp add: mk_type_def)
  have "\<exists>xs. sh = g @ xs" using sh(1) by (auto simp: getDeviceShape_def split: option.splits if_split_asm)
  then show "gridOf (mk_type l ms g e) = g" using sh by (auto simp: gridOf_def mk_type_def)
  show "placed_type (mk_type l ms g e)" "placed (as_tensor (mk_type l ms g e) l)"
    using sh by (simp_all add: placed_type_def as_tensor_def mk_type_def)
qed

lemma placed_type_iff: "encoding t = Some (l, ms) \<Longrightarrow> placed_type t \<longleftrightarrow> placed (as_tensor t l)"
  by (simp add: placed_type_def)

lemma getScalarType_scalar [simp]: "\<not> tiled_elem (getScalarType e)" "tileOf (getScalarType e) = []"
  by (auto simp: getScalarType_def tiled_elem_def tileOf_def split: element.splits)

lemma untiled_tile: "\<not> tiled_elem e \<Longrightarrow> tileOf e = []"
  by (auto simp: tiled_elem_def tileOf_def split: element.splits)

lemma modify_fits:
  assumes "fits_grid l g (tileOf e)" "tiled_elem e \<Longrightarrow> isTiled base \<Longrightarrow> tileOf (elementType base) = tileOf e"
  shows "modifyDeviceType base (l, ms0) target remap (Some ms) (Some g) (Some e) None False = Some (mk_type l ms g e)"
  using fits_mk(1) [OF assms(1), of ms] assms(2)
  by (cases e) (auto simp: modifyDeviceType_def Let_def mk_type_def tileOf_def tiled_elem_def)

lemma modify_element:
  assumes "fits_grid l (gridOf base) []" "\<not> tiled_elem e"
  shows "modifyDeviceType base (l, ms) target remap None None (Some e) None False = Some (mk_type l ms (gridOf base) e)"
proof -
  have "tileOf e = []" using assms(2) by (rule untiled_tile)
  then show ?thesis using fits_mk(1) [of l "gridOf base" e ms] assms
    by (cases e) (auto simp: modifyDeviceType_def Let_def mk_type_def tileOf_def tiled_elem_def)
qed

section \<open>Buffers\<close>

definition mappable :: "shape \<Rightarrow> shape \<Rightarrow> bool" where
  "mappable target grid \<longleftrightarrow>
     (requiresVirtualGrid grid target \<longrightarrow>
        (case getPhysicalGridExtent grid target of
           None \<Rightarrow> False
         | Some extent \<Rightarrow> length extent = 2 \<and> list_all (\<lambda>d. 0 < d) extent \<and> grid \<noteq> [] \<and> list_all (\<lambda>d. 0 < d) grid))"

lemma createEmpty_mapped:
  assumes "(specForward out = None) = (specInverse out = None)" "hasLayout (specType out) \<Longrightarrow> mappable target (gridOf (specType out))"
  shows "createEmpty ops target out = Some (specType out)"
  using assms
  by (auto simp: createEmpty_def Let_def mappable_def createCoreVirtMaps_def create1DtoNDMap_def split: option.splits)

section \<open>Running phases\<close>

text \<open>A phase from a state whose value has type \<open>v\<close>: it does not fail, its steps can be emitted, and the
  type they end in and the new state are related.\<close>

context affine_composer begin

definition leads :: "shape \<Rightarrow> phase \<Rightarrow> ranked_type \<Rightarrow> plan_state \<Rightarrow> (ranked_type \<Rightarrow> plan_state \<Rightarrow> bool) \<Rightarrow> bool" where
  "leads target f v st Q \<longleftrightarrow> (\<exists>st' p v'. f st = Some (st', p) \<and> chained v p \<and> emit_plan ops simplify target v p = Some v' \<and> Q v' st')"

lemma leads_then:
  assumes "leads target f v st Q" "\<And>v' st'. Q v' st' \<Longrightarrow> leads target g v' st' R"
  shows "leads target (then_phase f g) v st R"
proof -
  obtain st' p v' where f: "f st = Some (st', p)" "chained v p" "emit_plan ops simplify target v p = Some v'" "Q v' st'"
    using assms(1) by (auto simp: leads_def)
  obtain st'' q v'' where g: "g st' = Some (st'', q)" "chained v' q" "emit_plan ops simplify target v' q = Some v''" "R v'' st''"
    using assms(2) [OF f(4)] by (auto simp: leads_def)
  have "then_phase f g st = Some (st'', p @ q)" by (simp add: then_phase_def f(1) g(1))
  moreover have "chained v (p @ q)" using f(2) g(2) emit_out [OF f(3)] by (simp add: chained_append)
  moreover have "emit_plan ops simplify target v (p @ q) = Some v''" by (rule emit_join [OF f(3) g(3)])
  ultimately show ?thesis unfolding leads_def using g(4) by blast
qed

lemma leads_none: "f st = Some (st', []) \<Longrightarrow> Q v st' \<Longrightarrow> leads target f v st Q"
  by (auto simp: leads_def)

lemma leads_one:
  "f st = Some (st', [s]) \<Longrightarrow> step_chained v s \<Longrightarrow> emit_step ops simplify target v s = Some v' \<Longrightarrow> Q v' st' \<Longrightarrow> leads target f v st Q"
  by (auto simp: leads_def)

lemma leads_step:
  "f st = Some (st', [s]) \<Longrightarrow> step_chained v s \<Longrightarrow> emit_step ops simplify target v s = Some (stateType st') \<Longrightarrow> Q (stateType st') st' \<Longrightarrow>
     leads target f v st Q"
  by (auto simp: leads_def)

lemma leads_skip: "f st = Some (st, []) \<Longrightarrow> leads target g v st R \<Longrightarrow> leads target (then_phase f g) v st R"
  by (auto simp: leads_def then_phase_def)

lemma leads_weaken: "leads target f v st Q \<Longrightarrow> (\<And>v' st'. Q v' st' \<Longrightarrow> R v' st') \<Longrightarrow> leads target f v st R"
  by (auto simp: leads_def)

section \<open>Data movement\<close>

lemma from_dram:
  assumes "encoding a = Some (la, DeviceDRAM)" "encoding b = Some (lb, DeviceL1)" "placed_type a" "placed_type b"
    "tileOf (elementType a) = tileOf (elementType b)" "logicalShape la = logicalShape lb"
  shows "lowerDatamovement ops simplify a b = Some b"
  using view_emitted [OF assms] assms(1,2)
  by (auto simp: lowerDatamovement_def isSystem_def isDRAM_def)

lemma to_dram:
  assumes "encoding a = Some (la, DeviceL1)" "encoding b = Some (lb, DeviceDRAM)" "placed_type a" "placed_type b"
    "volume (typeShape a) 1 = volume (typeShape b) 1"
  shows "lowerDatamovement ops simplify a b = Some b"
proof -
  have e: "even (length (typeShape a))" "even (length (typeShape b))"
    using placed_even [of "as_tensor a la"] placed_even [of "as_tensor b lb"] assms(1-4) by (simp_all add: placed_type_def as_tensor_def)
  let ?w = "\<lparr>typeShape = typeShape a, elementType = elementType a, encoding = Some (lb, DeviceDRAM)\<rparr>"
  obtain m where m: "concrete_view ops simplify b a = Some (?w, m)"
    using reblock_total [of "typeShape b" "typeShape a" ops] e assms(1,2,5) by (auto simp: concrete_view_def)
  obtain m' where "concrete_view ops simplify ?w b = Some (b, m')"
    using reblock_total [of "typeShape a" "typeShape b" ops] e assms(2,5) by (cases b) (auto simp: concrete_view_def)
  then show ?thesis using m assms(1,2) by (auto simp: lowerDatamovement_def isSystem_def isDRAM_def)
qed

lemma in_l1:
  assumes "encoding a = Some (la, DeviceL1)" "encoding b = Some (lb, DeviceL1)" "gridOf a = gridOf b"
  shows "lowerDatamovement ops simplify a b = Some b"
  using assms by (auto simp: lowerDatamovement_def isSystem_def isDRAM_def)

end

section \<open>The phases\<close>

text \<open>A state whose type is that of a layout on a grid, cut in units of each of the given tiles, with maps of
  a virtual grid where they are needed.\<close>

definition ready :: "shape \<Rightarrow> int list list \<Rightarrow> metal_layout \<Rightarrow> memory_space \<Rightarrow> shape \<Rightarrow> element \<Rightarrow> plan_state \<Rightarrow> bool" where
  "ready target tiles l ms g e st \<longleftrightarrow> stateType st = mk_type l ms g e \<and> (\<forall>tile\<in>set tiles. fits_grid l g tile)
     \<and> [] \<in> set tiles \<and> tileOf e \<in> set tiles \<and> mappable target g \<and> (vgmForward st = None) = (vgmInverse st = None)"

lemma mk_type_fold: "\<lparr>typeShape = typeShape (mk_type l ms g e), elementType = e, encoding = Some (l, ms)\<rparr> = mk_type l ms g e"
  by (simp add: mk_type_def)

lemma ready_fits:
  assumes "ready target tiles l ms g e st"
  shows "fits_grid l g (tileOf e)" "fits_grid l g []" "gridOf (stateType st) = g" "placed_type (stateType st)"
  using assms fits_mk [of l g e ms] by (auto simp: ready_def)

lemma ready_output:
  assumes "ready target tiles l ms g e st" "tileOf e' \<in> set tiles" "(fwd = None) = (bwd = None)" "\<forall>tile\<in>set tiles. fits_grid l' g' tile"
    "mappable target g'"
  shows "ready target tiles l' ms' g' e' (updateStateFromOutput st0 (makeOutputSpec (mk_type l' ms' g' e') fwd bwd) r)"
  using assms by (simp add: ready_def updateStateFromOutput_def makeOutputSpec_def)

lemma createEmpty_ready:
  assumes "\<forall>tile\<in>set tiles. fits_grid l g tile" "tileOf e \<in> set tiles" "mappable target g" "(fwd = None) = (bwd = None)"
  shows "createEmpty ops target (makeOutputSpec (mk_type l ms g e) fwd bwd) = Some (mk_type l ms g e)"
  using assms fits_mk(2) [of l g e ms] by (subst createEmpty_mapped) (auto simp: makeOutputSpec_def)

context affine_composer begin

lemma leads_bounce:
  assumes r: "ready target tiles l ms g e st" and ms: "ms = DeviceL1 \<or> ms = DeviceDRAM"
  shows "leads target (dram_bounce target tgt) (stateType st) st (\<lambda>v st'. v = stateType st' \<and>
    (if needsDramBounce st tgt then ready target tiles l DeviceL1 g e st' else st' = st))"
proof (cases "needsDramBounce st tgt")
  case False
  then show ?thesis by (intro leads_none [of _ _ st]) (simp_all add: dram_bounce_def)
next
  case True
  have st: "stateType st = mk_type l ms g e" using r by (simp add: ready_def)
  have d: "ms = DeviceDRAM" using True ms st by (auto simp: needsDramBounce_def Let_def split: option.splits if_split_asm)
  let ?out = "makeOutputSpec (mk_type l DeviceL1 g e) (vgmForward st) (vgmInverse st)"
  have m: "modifyDeviceType (mk_type l ms g e) (l, ms) target (remapping st) (Some DeviceL1) (Some g) (Some e) None False
      = Some (mk_type l DeviceL1 g e)"
    by (intro modify_fits ready_fits(1) [OF r]) simp
  have ph: "dram_bounce target tgt st = Some (updateStateFromOutput st ?out (remapping st), [DRAMToL1Step ?out])"
    using True m ready_fits(3) [OF r] by (simp add: dram_bounce_def st Let_def)
  have ce: "createEmpty ops target ?out = Some (mk_type l DeviceL1 g e)" using r by (intro createEmpty_ready) (auto simp: ready_def)
  have lo: "lowerDatamovement ops simplify (mk_type l ms g e) (mk_type l DeviceL1 g e) = Some (mk_type l DeviceL1 g e)"
    using fits_mk(3) [OF ready_fits(1) [OF r]] d by (intro from_dram [of _ l _ l]) simp_all
  have re: "ready target tiles l DeviceL1 g e (updateStateFromOutput st ?out (remapping st))"
    using r by (intro ready_output [OF r]) (auto simp: ready_def)
  show ?thesis using True ce lo re unfolding st
    by (intro leads_step [where f = "dram_bounce target tgt", OF ph]) (simp_all add: step_chained_def updateStateFromOutput_def makeOutputSpec_def)
qed

lemma leads_dram_to_l1:
  assumes r: "ready target tiles l ms g e st" and ms: "ms = DeviceL1 \<or> ms = DeviceDRAM"
    and t: "ready target tiles lT msT gT eT tgt" and log: "logicalShape l = logicalShape lT"
    and el: "tiled_elem e \<Longrightarrow> tiled_elem eT \<Longrightarrow> tileOf e = tileOf eT"
    and sharded: "ms = DeviceDRAM \<Longrightarrow> memoryLayout l \<noteq> Interleaved \<Longrightarrow> \<forall>tile\<in>set tiles. fits_grid lT g tile"
  shows "leads target (dram_to_l1 target tgt) (stateType st) st (\<lambda>v st'. v = stateType st' \<and>
    (if ms = DeviceDRAM \<and> msT \<noteq> DeviceDRAM then \<exists>g'. ready target tiles lT DeviceL1 g' e st' else st' = st))"
proof -
  have st: "stateType st = mk_type l ms g e" "stateType tgt = mk_type lT msT gT eT" using r t by (simp_all add: ready_def)
  show ?thesis
  proof (cases "ms = DeviceDRAM \<and> msT \<noteq> DeviceDRAM")
    case False
    then show ?thesis by (intro leads_none [of _ _ st]) (auto simp: dram_to_l1_def Let_def st)
  next
    case True
    define g' where "g' = (if memoryLayout l = Interleaved then gT else g)"
    have f: "\<forall>tile\<in>set tiles. fits_grid lT g' tile" "mappable target g'"
      using sharded True t r by (auto simp: g'_def ready_def)
    have te: "tileOf e \<in> set tiles" "fits_grid lT g' (tileOf e)" using r f by (auto simp: ready_def)
    have pair: "(vgmForward tgt = None) = (vgmInverse tgt = None)" using t by (simp add: ready_def)
    let ?out = "makeOutputSpec (mk_type lT DeviceL1 g' e) (vgmForward tgt) (vgmInverse tgt)"
    have m: "modifyDeviceType (mk_type lT msT gT eT) (lT, msT) target None (Some DeviceL1) (Some g') (Some e) None False
        = Some (mk_type lT DeviceL1 g' e)"
      by (intro modify_fits te) (use el in \<open>simp add: tiled_elem_def\<close>)
    have gg: "gridOf (mk_type lT msT gT eT) = gT" "gridOf (mk_type l ms g e) = g"
      using ready_fits(3) [OF r] ready_fits(3) [OF t] by (simp_all add: st)
    have ph: "dram_to_l1 target tgt st = Some (updateStateFromOutput st ?out None, [DRAMToL1Step ?out])"
      using True m gg by (cases "memoryLayout l = Interleaved") (simp_all add: dram_to_l1_def Let_def st g'_def)
    have ce: "createEmpty ops target ?out = Some (mk_type lT DeviceL1 g' e)" by (rule createEmpty_ready [OF f(1) te(1) f(2) pair])
    have lo: "lowerDatamovement ops simplify (mk_type l ms g e) (mk_type lT DeviceL1 g' e) = Some (mk_type lT DeviceL1 g' e)"
      using fits_mk(3) [OF ready_fits(1) [OF r]] fits_mk(3) [OF te(2)] True log by (intro from_dram [of _ l _ lT]) simp_all
    have re: "ready target tiles lT DeviceL1 g' e (updateStateFromOutput st ?out None)"
      by (rule ready_output [OF r te(1) pair f])
    show ?thesis using True ce lo re unfolding st
      by (intro leads_step [where f = "dram_to_l1 target tgt", OF ph]) (auto simp: step_chained_def updateStateFromOutput_def makeOutputSpec_def)
  qed
qed

lemma leads_tilize:
  assumes r: "ready target tiles l ms g e st" and t: "elementType (stateType tgt) = eT" "tileOf eT \<in> set tiles"
  shows "leads target (tilize tgt) (stateType st) st (\<lambda>v st'. v = stateType st' \<and>
    (if \<not> tiled_elem e \<and> tiled_elem eT then ready target tiles l ms g eT st' \<and> vgmForward st' = vgmForward st
       \<and> vgmInverse st' = vgmInverse st \<and> remapping st' = remapping st else st' = st))"
proof -
  have st: "stateType st = mk_type l ms g e" using r by (simp add: ready_def)
  have tt: "isTiled (stateType tgt) \<longleftrightarrow> tiled_elem eT" using t by (simp add: isTiled_def tiled_elem_def)
  show ?thesis
  proof (cases "\<not> tiled_elem e \<and> tiled_elem eT")
    case False
    then show ?thesis by (intro leads_none [of _ _ st]) (auto simp: tilize_def Let_def st tt)
  next
    case True
    have f: "\<forall>tile\<in>set tiles. fits_grid l g tile" "mappable target g" "(vgmForward st = None) = (vgmInverse st = None)"
      "fits_grid l g (tileOf eT)" using r t(2) by (auto simp: ready_def)
    let ?out = "makeOutputSpec (mk_type l ms g eT) (vgmForward st) (vgmInverse st)"
    have ph: "tilize tgt st = Some (updateStateFromOutput st ?out (remapping st), [TilizeStep (tileOf eT) (mk_type l ms g e) ?out])"
      using True fits_mk(1) [OF f(4), of ms] ready_fits(3) [OF r] by (simp add: tilize_def Let_def st tt t(1) mk_type_fold)
    have ce: "createEmpty ops target ?out = Some (mk_type l ms g eT)" by (rule createEmpty_ready [OF f(1) t(2) f(2,3)])
    have lo: "lowerFormatConversion (mk_type l ms g e) (mk_type l ms g eT) = Some (mk_type l ms g eT)"
      using True ready_fits(3) [OF r] fits_mk(2) [OF f(4), of ms] by (simp add: lowerFormatConversion_def st)
    have re: "ready target tiles l ms g eT (updateStateFromOutput st ?out (remapping st))"
      by (rule ready_output [OF r t(2) f(3,1,2)])
    show ?thesis using True ce lo re unfolding st
      by (intro leads_step [where f = "tilize tgt", OF ph]) (simp_all add: step_chained_def updateStateFromOutput_def makeOutputSpec_def)
  qed
qed

lemma leads_untilize:
  assumes r: "ready target tiles l ms g e st" and t: "elementType (stateType tgt) = eT"
  shows "leads target (untilize target tgt) (stateType st) st (\<lambda>v st'. v = stateType st' \<and>
    (if tiled_elem e \<and> \<not> tiled_elem eT then ready target tiles l ms g eT st' \<and> vgmForward st' = vgmForward st
       \<and> vgmInverse st' = vgmInverse st \<and> remapping st' = remapping st else st' = st))"
proof -
  have st: "stateType st = mk_type l ms g e" using r by (simp add: ready_def)
  have tt: "isTiled (stateType tgt) \<longleftrightarrow> tiled_elem eT" using t by (simp add: isTiled_def tiled_elem_def)
  show ?thesis
  proof (cases "tiled_elem e \<and> \<not> tiled_elem eT")
    case False
    then show ?thesis by (intro leads_none [of _ _ st]) (auto simp: untilize_def Let_def st tt)
  next
    case True
    then have te: "tileOf eT = []" by (simp add: untiled_tile)
    have f: "\<forall>tile\<in>set tiles. fits_grid l g tile" "mappable target g" "(vgmForward st = None) = (vgmInverse st = None)"
      "fits_grid l g (tileOf eT)" "tileOf eT \<in> set tiles" using r te by (auto simp: ready_def)
    let ?out = "makeOutputSpec (mk_type l ms g eT) (vgmForward st) (vgmInverse st)"
    have g: "gridOf (mk_type l ms g e) = g" using ready_fits(3) [OF r] st by simp
    have "modifyDeviceType (mk_type l ms g e) (l, ms) target (remapping st) None None (Some eT) None False = Some (mk_type l ms g eT)"
      using modify_element [of l "mk_type l ms g e" eT ms target "remapping st"] True f(4) by (simp add: g te)
    then have ph: "untilize target tgt st = Some (updateStateFromOutput st ?out (remapping st), [UntilizeStep (mk_type l ms g e) ?out])"
      using True by (simp add: untilize_def Let_def st tt t)
    have ce: "createEmpty ops target ?out = Some (mk_type l ms g eT)" by (rule createEmpty_ready [OF f(1,5,2,3)])
    have lo: "lowerFormatConversion (mk_type l ms g e) (mk_type l ms g eT) = Some (mk_type l ms g eT)"
      using True g fits_mk(2) [OF f(4), of ms] by (simp add: lowerFormatConversion_def)
    have re: "ready target tiles l ms g eT (updateStateFromOutput st ?out (remapping st))"
      by (rule ready_output [OF r f(5,3,1,2)])
    show ?thesis using True ce lo re unfolding st
      by (intro leads_step [where f = "untilize target tgt", OF ph]) (simp_all add: step_chained_def updateStateFromOutput_def makeOutputSpec_def)
  qed
qed

end

section \<open>Changing the mapping\<close>

lemma exact_parts:
  fixes p t g :: int
  assumes "0 < p" "0 < t" "0 < g" "p smod t = 0" "p sdiv t smod g = 0"
  shows "p sdiv t sdiv g * t = p sdiv g"
proof -
  have t: "t dvd p" using assms smod_zero_iff [of p t] by simp
  then obtain q where q: "p = t * q" by (rule dvdE)
  then have pos: "0 < q" using assms(1,2) by (simp add: zero_less_mult_iff)
  have s: "p sdiv t = q" using assms(1,2) by (simp add: sdiv_nonneg q)
  then have "g dvd q" using assms(3,5) pos smod_zero_iff [of q g] by simp
  then obtain r where r: "q = g * r" by (rule dvdE)
  then have "0 < r" using pos assms(3) by (simp add: zero_less_mult_iff)
  have "q sdiv g = r" using pos assms(3) by (simp add: sdiv_nonneg r)
  moreover have "p sdiv g = t * r" using assms(1,3) by (simp add: sdiv_nonneg q r mult.left_commute [of t g])
  ultimately show ?thesis by (simp add: s mult.commute)
qed

lemma physical_tiles:
  assumes "getPhysicalShape layout [] = Some phys" "getPhysicalShape layout tile = Some phys'" "tile \<noteq> []"
  shows "2 \<le> length phys" "length tile = 2" "phys ! (length phys - 2) smod tile ! 0 = 0" "phys ! (length phys - 1) smod tile ! 1 = 0"
    "phys' = phys[length phys - 2 := phys ! (length phys - 2) sdiv tile ! 0, length phys - 1 := phys ! (length phys - 1) sdiv tile ! 1]"
  using assms by (auto simp: getPhysicalShape_def Let_def split: option.splits if_splits)

lemma fits_facts:
  assumes "fits_grid l g tile"
  shows "gridded l g" "list_all (\<lambda>d. 0 < d) tile" "length g = length (layout_phys l)"
proof -
  obtain sh where sh: "getDeviceShape l g tile = Some sh" "length g = length sh div 2"
    "placed \<lparr>deviceShapeOf = sh, tileShapeOf = tile, layoutOf = l\<rparr>" using assms by (auto simp: fits_grid_def split: option.splits)
  obtain xs where xs: "sh = g @ xs" using sh(1) by (auto simp: getDeviceShape_def split: option.splits if_split_asm)
  obtain grid where g: "getGridShape sh = Some grid" "gridded l grid" using placed_gridded [OF sh(3)] by auto
  have "grid = take (length g) sh" using g(1) sh(2) by (auto simp: getGridShape_def split: if_split_asm)
  then have e: "grid = g" by (simp add: xs)
  show "gridded l g" using g(2) e by simp
  show "list_all (\<lambda>d. 0 < d) tile" using sh(3) by (simp add: placed_def)
  show "length g = length (layout_phys l)" using g(2) e by (simp add: gridded_def)
qed

lemma untilized_untiled: "untilized_shape sh [] = sh"
  by (simp add: untilized_shape_def)

lemma untilized:
  assumes "fits_grid l g tile" "fits_grid l g []"
  shows "untilized_shape (the (getDeviceShape l g tile)) tile = the (getDeviceShape l g [])" "length tile \<le> length (the (getDeviceShape l g tile))"
proof -
  define n p where "n = length g" and "p = layout_phys l"
  note f = fits_facts [OF assms(1)]
  have ph: "getPhysicalShape l [] = Some p" "length p = n" using gridded_phys [OF f(1)] f(3) by (simp_all add: p_def n_def)
  obtain s0 where s0: "getDeviceShape l g [] = Some s0" using fits_shape [OF assms(2)] by blast
  have s0': "s0 = g @ map (\<lambda>i. p ! i sdiv g ! i) [0..<n]" using s0 ph by (simp add: getDeviceShape_def split: if_split_asm)
  obtain s1 where s1: "getDeviceShape l g tile = Some s1" using fits_shape [OF assms(1)] by blast
  have "untilized_shape s1 tile = s0 \<and> length tile \<le> length s1"
  proof (cases "tile = []")
    case True
    then show ?thesis using s0 s1 by (simp add: untilized_untiled)
  next
    case False
    obtain q where q: "getPhysicalShape l tile = Some q" using s1 by (auto simp: getDeviceShape_def split: option.splits)
    have t: "2 \<le> n" "length tile = 2" "p ! (n - 2) smod tile ! 0 = 0" "p ! (n - 1) smod tile ! 1 = 0"
      "q = p[n - 2 := p ! (n - 2) sdiv tile ! 0, n - 1 := p ! (n - 1) sdiv tile ! 1]"
      using physical_tiles [OF ph(1) q False] ph(2) by simp_all
    have lq: "length q = n" using t ph by simp
    have s1': "s1 = g @ map (\<lambda>i. q ! i sdiv g ! i) [0..<n]" "\<And>i. i < n \<Longrightarrow> q ! i smod g ! i = 0"
      using s1 q lq by (auto simp: getDeviceShape_def split: if_split_asm)
    obtain a b where tile: "tile = [a, b]" using t(2) by (auto simp: numeral_2_eq_2 length_Suc_conv)
    have pos: "0 < a" "0 < b" "0 < p ! (n - 2)" "0 < p ! (n - 1)" "0 < g ! (n - 2)" "0 < g ! (n - 1)"
      using f(2) gridded_shard [OF f(1)] t(1) by (auto simp: tile p_def n_def)
    define m where "m = n - 2"
    have m: "n = Suc (Suc m)" using t(1) by (simp add: m_def)
    have last: "p ! m sdiv a sdiv g ! m * a = p ! m sdiv g ! m" "p ! Suc m sdiv b sdiv g ! Suc m * b = p ! Suc m sdiv g ! Suc m"
      using exact_parts [of "p ! m" a "g ! m"] exact_parts [of "p ! Suc m" b "g ! Suc m"] pos t(3,4) s1'(2) [of m] s1'(2) [of "Suc m"] ph(2)
      by (simp_all add: m tile t(5))
    have u: "[0..<n] = [0..<m] @ [m, Suc m]" by (simp add: m)
    have "s1 = g @ map (\<lambda>i. q ! i sdiv g ! i) [0..<m] @ [q ! m sdiv g ! m, q ! Suc m sdiv g ! Suc m]" using s1' u by simp
    moreover have "length g = n" by (simp add: n_def)
    ultimately have "untilized_shape s1 tile = g @ map (\<lambda>i. q ! i sdiv g ! i) [0..<m] @ [q ! m sdiv g ! m * a, q ! Suc m sdiv g ! Suc m * b]"
      by (simp add: untilized_shape_def tile m)
    also have "map (\<lambda>i. q ! i sdiv g ! i) [0..<m] = map (\<lambda>i. p ! i sdiv g ! i) [0..<m]" by (simp add: t(5) m)
    also have "[q ! m sdiv g ! m * a, q ! Suc m sdiv g ! Suc m * b] = [p ! m sdiv g ! m, p ! Suc m sdiv g ! Suc m]"
      using last ph(2) by (simp add: t(5) m tile)
    finally show ?thesis using s0' s1' t(1,2) by (simp add: u)
  qed
  then show "untilized_shape (the (getDeviceShape l g tile)) tile = the (getDeviceShape l g [])" "length tile \<le> length (the (getDeviceShape l g tile))"
    using s0 s1 by simp_all
qed

lemma mk_type_moved: "\<lparr>typeShape = typeShape (mk_type l ms' g e), elementType = e, encoding = Some (l, ms)\<rparr> = mk_type l ms g e"
  by (simp add: mk_type_def)

lemma untilized_type:
  fixes ms ms' :: memory_space
  assumes "fits_grid l g (tileOf e)" "fits_grid l g []" "\<not> tiled_elem e'"
  shows "\<lparr>typeShape = untilized_shape (typeShape (mk_type l ms g e)) (tileOf e), elementType = e', encoding = Some (l, ms')\<rparr> = mk_type l ms' g e'"
    "length (tileOf e) \<le> length (typeShape (mk_type l ms g e))"
  using untilized [OF assms(1,2)] untiled_tile [OF assms(3)] by (simp_all add: mk_type_def)


context affine_composer begin

lemma leads_mapping:
  assumes r: "ready target tiles l DeviceL1 g e st" and t: "ready target tiles lT msT gT e tgt" and log: "logicalShape l = logicalShape lT"
  shows "leads target (mapping_change tgt) (stateType st) st (\<lambda>v st'. v = stateType st' \<and>
    (if g = gT \<and> collapsedIntervals l = collapsedIntervals lT \<and> dimAlignments l = dimAlignments lT
     then st' = st else ready target tiles lT DeviceL1 gT e st'))"
proof -
  have st: "stateType st = mk_type l DeviceL1 g e" "stateType tgt = mk_type lT msT gT e" using r t by (simp_all add: ready_def)
  have gg: "gridOf (mk_type l DeviceL1 g e) = g" "gridOf (mk_type lT msT gT e) = gT"
    using ready_fits(3) [OF r] ready_fits(3) [OF t] by (simp_all add: st)
  have f: "\<forall>tile\<in>set tiles. fits_grid lT gT tile" "mappable target gT" "(vgmForward tgt = None) = (vgmInverse tgt = None)"
    "tileOf e \<in> set tiles" "[] \<in> set tiles" "\<forall>tile\<in>set tiles. fits_grid l g tile" "mappable target g" "(vgmForward st = None) = (vgmInverse st = None)"
    using r t by (auto simp: ready_def)
  let ?T = "mk_type lT DeviceL1 gT e"
  let ?out = "makeOutputSpec ?T (vgmForward tgt) (vgmInverse tgt)"
  have re: "ready target tiles lT DeviceL1 gT e (updateStateFromOutput st ?out None)" by (rule ready_output [OF r f(4,3,1,2)])
  have ce: "createEmpty ops target ?out = Some ?T" by (rule createEmpty_ready [OF f(1,4,2,3)])
  consider (same) "g = gT \<and> collapsedIntervals l = collapsedIntervals lT \<and> dimAlignments l = dimAlignments lT"
    | (tiles) "\<not> (g = gT \<and> collapsedIntervals l = collapsedIntervals lT \<and> dimAlignments l = dimAlignments lT)"
        "tiled_elem e" "\<not> isSimpleReblocking (mk_type l DeviceL1 g e) l (mk_type lT msT gT e) lT"
    | (direct) "\<not> (g = gT \<and> collapsedIntervals l = collapsedIntervals lT \<and> dimAlignments l = dimAlignments lT)"
        "\<not> (tiled_elem e \<and> \<not> isSimpleReblocking (mk_type l DeviceL1 g e) l (mk_type lT msT gT e) lT)" by blast
  then show ?thesis
  proof cases
    case same
    then show ?thesis using gg by (intro leads_none [of _ _ st]) (auto simp: mapping_change_def Let_def st log)
  next
    case direct
    have ph: "mapping_change tgt st = Some (updateStateFromOutput st ?out None,
        [ReshardStep gT (dimAlignments lT) (collapsedIntervals lT) ?out])"
      using direct log by (auto simp: mapping_change_def Let_def st gg mk_type_moved)
    have lo: "lowerMappingChange ops simplify (mk_type l DeviceL1 g e) ?T = Some ?T"
      using fits_mk(3) [OF ready_fits(1) [OF r]] fits_mk(3) [OF ready_fits(1) [OF t]] log
      by (intro mapping_emitted [of _ l _ _ lT]) simp_all
    have sc: "step_chained (mk_type l DeviceL1 g e) (ReshardStep gT (dimAlignments lT) (collapsedIntervals lT) ?out)"
      using fits_mk(3) [OF ready_fits(1) [OF r]] fits_mk(3) [OF ready_fits(1) [OF t]] by (simp add: step_chained_def makeOutputSpec_def)
    show ?thesis using direct(1) ce lo re sc unfolding st
      by (intro leads_step [where f = "mapping_change tgt", OF ph]) (auto simp: updateStateFromOutput_def makeOutputSpec_def)
  next
    case tiles
    let ?s = "getScalarType e"
    let ?U = "mk_type l DeviceL1 g ?s" and ?R = "mk_type lT DeviceL1 gT ?s"
    let ?uo = "makeOutputSpec ?U (vgmForward st) (vgmInverse st)" and ?ro = "makeOutputSpec ?R (vgmForward tgt) (vgmInverse tgt)"
    let ?steps = "[UntilizeStep (mk_type l DeviceL1 g e) ?uo, ReshardStep gT (dimAlignments lT) (collapsedIntervals lT) ?ro,
      TilizeStep (tileOf e) ?R ?out]"
    have fl: "fits_grid l g (tileOf e)" "fits_grid l g []" "fits_grid l g (tileOf ?s)" "fits_grid lT gT (tileOf e)" "fits_grid lT gT []" "fits_grid lT gT (tileOf ?s)"
      "tileOf ?s \<in> set tiles" using f by auto
    note u = untilized_type(1) [OF fl(1,2) getScalarType_scalar(1) [of e], where ms = DeviceL1 and ms' = DeviceL1]
      untilized_type(2) [OF fl(1,2) getScalarType_scalar(1) [of e], where ms = DeviceL1]
    have sh: "getDeviceShape lT gT [] = Some (typeShape ?R)" "getDeviceShape lT gT (tileOf e) = Some (typeShape ?T)"
      using fits_mk(1) [of lT gT ?s DeviceL1] fits_mk(1) [of lT gT e DeviceL1] fl by simp_all
    have "emitTilizedReshardDecomposition st (l, DeviceL1) tgt (lT, msT) = Some ?steps"
      using u sh by (simp add: emitTilizedReshardDecomposition_def Let_def st gg mk_type_fold)
    then have ph: "mapping_change tgt st = Some (updateStateFromOutput st ?out None, ?steps)"
      using tiles log by (auto simp: mapping_change_def Let_def st gg)
    have c: "createEmpty ops target ?uo = Some ?U" "createEmpty ops target ?ro = Some ?R"
      by (rule createEmpty_ready [OF f(6) fl(7) f(7,8)], rule createEmpty_ready [OF f(1) fl(7) f(2,3)])
    have g: "gridOf ?U = g" "gridOf ?R = gT" "gridOf ?T = gT" using fits_mk(2) fl by blast+
    have lo: "lowerFormatConversion (mk_type l DeviceL1 g e) ?U = Some ?U" "lowerFormatConversion ?R ?T = Some ?T"
      using tiles(2) g gg by (simp_all add: lowerFormatConversion_def)
    have pl: "placed_type ?U" "placed_type ?R" using fits_mk(3) fl by blast+
    then have lm: "lowerMappingChange ops simplify ?U ?R = Some ?R" using log by (intro mapping_emitted [of _ l _ _ lT]) simp_all
    have "chained (mk_type l DeviceL1 g e) ?steps" using pl by (simp add: step_chained_def step_out_def makeOutputSpec_def)
    moreover have "emit_plan ops simplify target (mk_type l DeviceL1 g e) ?steps = Some ?T" using c ce lo lm by simp
    ultimately show ?thesis using ph re tiles(1) unfolding leads_def st
      by (intro exI [of _ "updateStateFromOutput st ?out None"] exI [of _ ?steps] exI [of _ ?T])
        (auto simp: updateStateFromOutput_def makeOutputSpec_def)
  qed
qed

end

section \<open>The end of a plan\<close>

lemma canUse_iff:
  assumes "encoding t = Some (lT, msT)"
  shows "canUseReinterpretLayoutView v t \<longleftrightarrow> (\<exists>l. encoding v = Some (l, msT) \<and> typeShape v = typeShape t \<and> elementType v = elementType t
    \<and> gridOf v = gridOf t \<and> logicalShape l = logicalShape lT \<and> dimAlignments l = dimAlignments lT \<and> memoryLayout l = memoryLayout lT)"
  using assms by (auto simp: canUseReinterpretLayoutView_def split: option.splits prod.splits)

text \<open>Layouts that a reinterpretation does not tell apart collapse the same dimensions.\<close>

definition agrees :: "metal_layout \<Rightarrow> metal_layout \<Rightarrow> bool" where
  "agrees l l' \<longleftrightarrow>
     (logicalShape l = logicalShape l' \<and> dimAlignments l = dimAlignments l' \<and> memoryLayout l = memoryLayout l' \<longrightarrow>
        getNormalizedIntervals l = getNormalizedIntervals l')"

lemma agrees_refl [simp]: "agrees l l"
  by (simp add: agrees_def)

text \<open>The type of the target, or one whose buffer is taken for it: from a layout that collapses the same
  dimensions.\<close>

definition taken_for :: "plan_state \<Rightarrow> ranked_type \<Rightarrow> bool" where
  "taken_for tgt v \<longleftrightarrow> v = stateType tgt \<or>
     (canUseReinterpretLayoutView v (stateType tgt) \<and>
      (\<forall>l lT ms msT. encoding v = Some (l, ms) \<longrightarrow> encoding (stateType tgt) = Some (lT, msT) \<longrightarrow> agrees l lT))"

lemma taken_for_mk:
  assumes "stateType tgt = mk_type lT msT gT eT" "agrees l lT"
  shows "taken_for tgt (mk_type l ms g e) \<longleftrightarrow>
    mk_type l ms g e = stateType tgt \<or> canUseReinterpretLayoutView (mk_type l ms g e) (stateType tgt)"
  using assms by (simp add: taken_for_def)

definition quiet :: "plan_state \<Rightarrow> plan_state \<Rightarrow> bool" where
  "quiet tgt st \<longleftrightarrow> vgmForward st = vgmForward tgt \<and> vgmInverse st = vgmInverse tgt
     \<and> (has_remapping (remapping st) \<longrightarrow> remapping st = remapping tgt)"

definition settled :: "plan_state \<Rightarrow> ranked_type \<Rightarrow> plan_state \<Rightarrow> bool" where
  "settled tgt v st \<longleftrightarrow> stateType st = stateType tgt \<and> taken_for tgt v \<and> (isDRAM (stateType tgt) \<longrightarrow> quiet tgt st)"

lemma reaches_encoding:
  assumes "taken_for tgt v" "encoding (stateType tgt) = Some (lT, msT)"
  shows "\<exists>l. encoding v = Some (l, msT)" "gridOf v = gridOf (stateType tgt)"
  using assms by (auto simp: taken_for_def canUse_iff)

definition end_phases :: "plan_state \<Rightarrow> phase" where
  "end_phases tgt = then_phase (rebuffer tgt) (then_phase (apply_remapping tgt) (then_phase (device_to_host tgt) (\<lambda>st. Some (st, []))))"

definition late_phases :: "plan_state \<Rightarrow> phase" where
  "late_phases tgt = then_phase (reinterpret tgt) (then_phase (mapping_change tgt) (then_phase (l1_to_dram False tgt) (end_phases tgt)))"

lemma phases_split:
  "phases target tgt = then_phase (host_to_device tgt) (then_phase (dram_bounce target tgt) (then_phase (dram_to_l1 target tgt)
     (then_phase (tilize tgt) (then_phase (untilize target tgt) (then_phase (l1_to_dram True tgt) (late_phases tgt))))))"
  by (simp add: phases_def end_phases_def late_phases_def)

context affine_composer begin

lemma leads_rebuffer:
  assumes t: "ready target tiles lT msT gT eT tgt" and ms: "msT = DeviceL1 \<or> msT = DeviceDRAM" and s: "settled tgt v st"
  shows "leads target (rebuffer tgt) v st (\<lambda>v' st'. taken_for tgt v' \<and> stateType st' = stateType tgt)"
proof -
  let ?T = "mk_type lT msT gT eT" and ?out = "makeOutputSpec (mk_type lT msT gT eT) (vgmForward tgt) (vgmInverse tgt)"
  have tt: "stateType tgt = ?T" using t by (simp add: ready_def)
  have st: "stateType st = ?T" "taken_for tgt v" "msT = DeviceDRAM \<Longrightarrow> quiet tgt st" using s by (simp_all add: settled_def tt)
  obtain l where l: "encoding v = Some (l, msT)" using reaches_encoding(1) [OF st(2)] by (auto simp: tt)
  have g: "gridOf v = gridOf ?T" using reaches_encoding(2) [OF st(2)] by (simp add: tt)
  show ?thesis
  proof (cases "rebuffer tgt st = Some (st, [])")
    case True
    then show ?thesis using st(1,2) by (intro leads_none [where f = "rebuffer tgt", OF True]) (simp add: tt)
  next
    case False
    then have ph: "rebuffer tgt st = Some (updateStateFromOutput st ?out None, [RebufferStep ?out])"
      by (auto simp: rebuffer_def Let_def st(1) split: if_split_asm)
    have "msT \<noteq> DeviceDRAM"
    proof
      assume "msT = DeviceDRAM"
      then show False using False st(3) by (auto simp: rebuffer_def Let_def quiet_def)
    qed
    then have "lowerDatamovement ops simplify v ?T = Some ?T" using ms l g by (intro in_l1 [of _ l _ lT]) simp_all
    moreover have "createEmpty ops target ?out = Some ?T" using t by (intro createEmpty_ready) (auto simp: ready_def)
    ultimately show ?thesis
      by (intro leads_step [where f = "rebuffer tgt", OF ph]) (simp_all add: step_chained_def updateStateFromOutput_def makeOutputSpec_def tt taken_for_def)
  qed
qed

lemma leads_remapping:
  assumes "stateType st = stateType tgt" "taken_for tgt v"
  shows "leads target (apply_remapping tgt) v st (\<lambda>v' st'. taken_for tgt v' \<and> stateType st' = stateType tgt)"
proof (cases "apply_remapping tgt st = Some (st, [])")
  case True
  then show ?thesis using assms by (intro leads_none [where f = "apply_remapping tgt", OF True]) simp
next
  case False
  then obtain m where m: "apply_remapping tgt st = Some (st\<lparr>remapping := Some m\<rparr>, [RemapStep (stateType st) m])"
    by (auto simp: apply_remapping_def split: option.splits if_split_asm)
  show ?thesis using assms
    by (intro leads_step [where f = "apply_remapping tgt", OF m]) (simp_all add: step_chained_def taken_for_def)
qed

lemma leads_end:
  assumes t: "ready target tiles lT msT gT eT tgt" and ms: "msT = DeviceL1 \<or> msT = DeviceDRAM" and s: "settled tgt v st"
  shows "leads target (end_phases tgt) v st (\<lambda>v' st'. taken_for tgt v')"
  unfolding end_phases_def
proof (rule leads_then [OF leads_rebuffer [OF assms]], elim conjE)
  fix v1 and st1 :: plan_state
  assume a: "taken_for tgt v1" "stateType st1 = stateType tgt"
  have d: "hasLayout (stateType tgt)" using t by (simp add: ready_def)
  show "leads target (then_phase (apply_remapping tgt) (then_phase (device_to_host tgt) (\<lambda>st. Some (st, [])))) v1 st1
      (\<lambda>v' st'. taken_for tgt v')"
  proof (rule leads_then [OF leads_remapping [OF a(2,1)]], elim conjE)
    fix v2 and st2 :: plan_state
    assume "taken_for tgt v2"
    then show "leads target (then_phase (device_to_host tgt) (\<lambda>st. Some (st, []))) v2 st2 (\<lambda>v' st'. taken_for tgt v')"
      using d by (intro leads_none [of _ _ st2]) (simp_all add: then_phase_def device_to_host_def)
  qed
qed

text \<open>Once the planner's type is the target's, only metadata follows.\<close>

lemma leads_settled:
  assumes t: "ready target tiles lT msT gT eT tgt" and ms: "msT = DeviceL1 \<or> msT = DeviceDRAM" and s: "settled tgt v st"
  shows "leads target (then_phase (mapping_change tgt) (then_phase (l1_to_dram False tgt) (end_phases tgt))) v st (\<lambda>v' st'. taken_for tgt v')"
proof -
  have st: "stateType st = stateType tgt" using s by (simp add: settled_def)
  have tt: "stateType tgt = mk_type lT msT gT eT" using t by (simp add: ready_def)
  have m: "mapping_change tgt st = Some (st, [])" by (simp add: mapping_change_def Let_def st tt)
  have d: "l1_to_dram False tgt st = Some (st, [])" by (simp add: l1_to_dram_def Let_def st)
  show ?thesis by (intro leads_skip m d leads_end [OF t ms s])
qed

end

section \<open>The middle of a plan\<close>

text \<open>A type in L1 on its way: it has the target's elements, tensor and, for a target in L1, memory layout.\<close>

definition moving :: "shape \<Rightarrow> int list list \<Rightarrow> metal_layout \<Rightarrow> memory_space \<Rightarrow> element \<Rightarrow> plan_state \<Rightarrow> bool" where
  "moving target tiles lT msT eT st \<longleftrightarrow>
     (\<exists>l g. ready target tiles l DeviceL1 g eT st \<and> logicalShape l = logicalShape lT \<and> agrees l lT \<and> (msT = DeviceL1 \<longrightarrow> memoryLayout l = memoryLayout lT))"

lemma shape_cong:
  assumes "logicalShape l = logicalShape l'" "collapsedIntervals l = collapsedIntervals l'" "dimAlignments l = dimAlignments l'"
  shows "getDeviceShape l g tile = getDeviceShape l' g tile"
  unfolding getDeviceShape_def getPhysicalShape_def getNormalizedIntervals_def assms ..

lemma volume_cong: "typeShape a = typeShape b \<Longrightarrow> volume (typeShape a) 1 = volume (typeShape b) 1"
  by simp

context affine_composer begin

lemma leads_to_dram:
  assumes a: "encoding (stateType st) = Some (l, DeviceL1)" "placed_type (stateType st)" and t: "ready target tiles lT DeviceDRAM gT eT tgt"
    and v: "volume (typeShape (stateType st)) 1 = volume (typeShape (stateType tgt)) 1"
  shows "leads target (l1_to_dram b tgt) (stateType st) st (settled tgt)"
proof -
  let ?T = "mk_type lT DeviceDRAM gT eT" and ?out = "makeOutputSpec (stateType tgt) (vgmForward tgt) (vgmInverse tgt)"
  have tt: "stateType tgt = ?T" using t by (simp add: ready_def)
  have ph: "l1_to_dram b tgt st = Some (updateStateFromOutput st ?out None, [L1ToDRAMStep ?out])"
    using a v by (simp add: l1_to_dram_def Let_def tt hasLayout_def isDRAM_def)
  have lo: "lowerDatamovement ops simplify (stateType st) ?T = Some ?T"
    using a v fits_mk(3) [OF ready_fits(1) [OF t]] by (intro to_dram [of _ l _ lT]) (simp_all add: tt)
  have ce: "createEmpty ops target ?out = Some ?T" unfolding tt using t by (intro createEmpty_ready) (auto simp: ready_def)
  show ?thesis using lo ce
    by (intro leads_step [where f = "l1_to_dram b tgt", OF ph])
      (simp_all add: step_chained_def updateStateFromOutput_def makeOutputSpec_def tt settled_def taken_for_def quiet_def has_remapping_def)
qed

lemma leads_moved:
  assumes t: "ready target tiles lT msT gT eT tgt" and ms: "msT = DeviceL1 \<or> msT = DeviceDRAM" and m: "moving target tiles lT msT eT st"
  shows "leads target (then_phase (mapping_change tgt) (then_phase (l1_to_dram False tgt) (end_phases tgt))) (stateType st) st
    (\<lambda>v' st'. taken_for tgt v')"
proof -
  obtain l g where r: "ready target tiles l DeviceL1 g eT st" and log: "logicalShape l = logicalShape lT"
    and ml: "msT = DeviceL1 \<longrightarrow> memoryLayout l = memoryLayout lT" using m by (auto simp: moving_def)
  have tt: "stateType tgt = mk_type lT msT gT eT" using t by (simp add: ready_def)
  show ?thesis
  proof (rule leads_then [OF leads_mapping [OF r t log]], elim conjE)
    fix v and st1 :: plan_state
    assume v: "v = stateType st1" and s: "if g = gT \<and> collapsedIntervals l = collapsedIntervals lT \<and> dimAlignments l = dimAlignments lT
      then st1 = st else ready target tiles lT DeviceL1 gT eT st1"
    obtain l' where l': "stateType st1 = mk_type l' DeviceL1 gT eT" "fits_grid l' gT (tileOf eT)" "logicalShape l' = logicalShape lT"
      "collapsedIntervals l' = collapsedIntervals lT" "dimAlignments l' = dimAlignments lT" "msT = DeviceL1 \<longrightarrow> memoryLayout l' = memoryLayout lT"
    proof (cases "g = gT \<and> collapsedIntervals l = collapsedIntervals lT \<and> dimAlignments l = dimAlignments lT")
      case True
      then show thesis using that [of l] s r log ml ready_fits(1) [OF r] by (simp add: ready_def)
    next
      case False
      have s': "ready target tiles lT DeviceL1 gT eT st1" using s unfolding if_not_P [OF False] .
      have "stateType st1 = mk_type lT DeviceL1 gT eT" using s' by (simp add: ready_def)
      then show thesis using that [of lT] ready_fits(1) [OF s'] by simp
    qed
    show "leads target (then_phase (l1_to_dram False tgt) (end_phases tgt)) v st1 (\<lambda>v' st'. taken_for tgt v')"
    proof (cases "msT = DeviceDRAM")
      case True
      have "typeShape (stateType st1) = typeShape (stateType tgt)"
        using l' shape_cong [of l' lT gT "tileOf eT"] by (simp add: tt mk_type_def)
      then have vol: "volume (typeShape (stateType st1)) 1 = volume (typeShape (stateType tgt)) 1" by simp
      have e: "encoding (stateType st1) = Some (l', DeviceL1)" "placed_type (stateType st1)" using l'(1) fits_mk(3) [OF l'(2)] by simp_all
      have t': "ready target tiles lT DeviceDRAM gT eT tgt" using t True by simp
      show ?thesis unfolding v by (rule leads_then [OF leads_to_dram [OF e t' vol]]) (rule leads_end [OF t ms])
    next
      case False
      then have "l' = lT" using l' ms by (cases l'; cases lT) simp
      then have "stateType st1 = stateType tgt" using l'(1) False ms by (simp add: tt)
      then show ?thesis unfolding v using False
        by (intro leads_skip leads_end [OF t ms]) (auto simp: l1_to_dram_def Let_def tt settled_def taken_for_def)
    qed
  qed
qed

lemma leads_late_settled:
  assumes t: "ready target tiles lT msT gT eT tgt" and ms: "msT = DeviceL1 \<or> msT = DeviceDRAM"
    and r: "taken_for tgt (stateType st)" "msT = DeviceDRAM \<Longrightarrow> quiet tgt st"
  shows "leads target (late_phases tgt) (stateType st) st (\<lambda>v' st'. taken_for tgt v')"
proof -
  have tt: "stateType tgt = mk_type lT msT gT eT" using t by (simp add: ready_def)
  let ?st = "st\<lparr>stateType := stateType tgt\<rparr>"
  have "canUseReinterpretLayoutView (stateType tgt) (stateType tgt)" by (simp add: canUse_iff [of _ lT msT] tt)
  then have ph: "reinterpret tgt st = Some (?st, [])" using r(1) by (auto simp: reinterpret_def taken_for_def)
  have s: "settled tgt (stateType st) ?st" using r by (simp add: settled_def quiet_def tt)
  show ?thesis unfolding late_phases_def
    by (rule leads_then [OF leads_none [where f = "reinterpret tgt" and Q = "settled tgt", OF ph s]]) (rule leads_settled [OF t ms])
qed

lemma leads_late_moving:
  assumes t: "ready target tiles lT msT gT eT tgt" and ms: "msT = DeviceL1 \<or> msT = DeviceDRAM" and m: "moving target tiles lT msT eT st"
  shows "leads target (then_phase (l1_to_dram True tgt) (late_phases tgt)) (stateType st) st (\<lambda>v' st'. taken_for tgt v')"
proof -
  have tt: "stateType tgt = mk_type lT msT gT eT" using t by (simp add: ready_def)
  obtain l g where r: "ready target tiles l DeviceL1 g eT st" and ag: "agrees l lT" using m by (auto simp: moving_def)
  have st: "stateType st = mk_type l DeviceL1 g eT" using r by (simp add: ready_def)
  show ?thesis
  proof (cases "msT = DeviceDRAM \<and> volume (typeShape (stateType st)) 1 = volume (typeShape (stateType tgt)) 1")
    case True
    then show ?thesis
    proof (intro leads_then [OF leads_to_dram [of st l target tiles lT gT eT tgt True]])
      fix v' and st' :: plan_state
      assume s: "settled tgt v' st'"
      have "reinterpret tgt st' = Some (st', [])" using s by (auto simp: reinterpret_def settled_def)
      then show "leads target (late_phases tgt) v' st' (\<lambda>v' st'. taken_for tgt v')"
        unfolding late_phases_def by (intro leads_skip leads_settled [OF t ms s])
    qed (use st t ready_fits(4) [OF r] in simp_all)
  next
    case False
    then have d: "l1_to_dram True tgt st = Some (st, [])" using ms by (auto simp: l1_to_dram_def Let_def tt)
    show ?thesis
    proof (cases "taken_for tgt (stateType st)")
      case True
      then have "msT \<noteq> DeviceDRAM" using reaches_encoding(1) [OF True, of lT msT] by (auto simp: tt st)
      then show ?thesis by (intro leads_skip [where f = "l1_to_dram True tgt", OF d] leads_late_settled [OF t ms True]) simp
    next
      case f: False
      then have "reinterpret tgt st = Some (st, [])" unfolding st taken_for_mk [OF tt ag] by (simp add: reinterpret_def st)
      then show ?thesis unfolding late_phases_def by (intro leads_skip [where f = "l1_to_dram True tgt", OF d] leads_skip leads_moved [OF t ms m])
    qed
  qed
qed

text \<open>Format conversions give the target's elements.\<close>

lemma leads_formats:
  assumes r: "ready target tiles l ms g e st" and t: "elementType (stateType tgt) = eT" "tileOf eT \<in> set tiles"
    and el: "tiled_elem e = tiled_elem eT \<longrightarrow> e = eT"
    and k: "\<And>st'. ready target tiles l ms g eT st' \<Longrightarrow> vgmForward st' = vgmForward st \<Longrightarrow> vgmInverse st' = vgmInverse st \<Longrightarrow>
      remapping st' = remapping st \<Longrightarrow> leads target f (stateType st') st' R"
  shows "leads target (then_phase (tilize tgt) (then_phase (untilize target tgt) f)) (stateType st) st R"
proof (rule leads_then [OF leads_tilize [OF r t]], elim conjE)
  fix v and st1 :: plan_state
  assume v: "v = stateType st1" and s: "if \<not> tiled_elem e \<and> tiled_elem eT then ready target tiles l ms g eT st1 \<and> vgmForward st1 = vgmForward st
       \<and> vgmInverse st1 = vgmInverse st \<and> remapping st1 = remapping st else st1 = st"
  define e1 where "e1 = (if \<not> tiled_elem e \<and> tiled_elem eT then eT else e)"
  have r1: "ready target tiles l ms g e1 st1" and q1: "vgmForward st1 = vgmForward st" "vgmInverse st1 = vgmInverse st" "remapping st1 = remapping st"
    using s r by (simp_all add: e1_def split: if_split_asm)
  show "leads target (then_phase (untilize target tgt) f) v st1 R" unfolding v
  proof (rule leads_then [OF leads_untilize [OF r1 t(1)]], elim conjE)
    fix v2 and st2 :: plan_state
    assume v2: "v2 = stateType st2" and s2: "if tiled_elem e1 \<and> \<not> tiled_elem eT then ready target tiles l ms g eT st2
       \<and> vgmForward st2 = vgmForward st1 \<and> vgmInverse st2 = vgmInverse st1 \<and> remapping st2 = remapping st1 else st2 = st1"
    have "e1 = eT" if "\<not> (tiled_elem e1 \<and> \<not> tiled_elem eT)" using that el by (auto simp: e1_def split: if_split_asm)
    then show "leads target f v2 st2 R" unfolding v2 using s2 r1 q1 by (intro k) (simp_all split: if_split_asm)
  qed
qed

end

section \<open>Whole plans\<close>

context affine_composer begin

lemma leads_quiet:
  assumes t: "ready target tiles lT DeviceDRAM gT eT tgt" and s: "encoding (stateType st) = Some (l, DeviceDRAM)"
    and r: "taken_for tgt (stateType st)" "quiet tgt st"
  shows "leads target (then_phase (l1_to_dram True tgt) (late_phases tgt)) (stateType st) st (\<lambda>v' st'. taken_for tgt v')"
proof -
  have "l1_to_dram True tgt st = Some (st, [])" using s by (simp add: l1_to_dram_def Let_def isDRAM_def)
  then show ?thesis using r by (intro leads_skip [where f = "l1_to_dram True tgt"] leads_late_settled [OF t]) simp_all
qed

lemma no_bounce:
  assumes n: "\<not> needsDramBounce st tgt" and st: "stateType st = mk_type l DeviceDRAM g e" "gridOf (stateType st) = g"
    and tt: "stateType tgt = mk_type lT DeviceDRAM gT eT" "gridOf (stateType tgt) = gT" and ag: "agrees l lT"
  shows "quiet tgt st \<and> (taken_for tgt (stateType st) \<or> l = lT \<and> g = gT)"
proof -
  have "taken_for tgt (stateType st) \<longleftrightarrow> stateType st = stateType tgt \<or> canUseReinterpretLayoutView (stateType st) (stateType tgt)"
    unfolding st(1) by (rule taken_for_mk [OF tt(1) ag])
  then show ?thesis using n st tt
    by (auto simp: needsDramBounce_def Let_def quiet_def split: if_split_asm intro: metal_layout.equality)
qed

lemma leads_device:
  assumes r: "ready target tiles l ms g e st" and ms: "ms = DeviceL1 \<or> ms = DeviceDRAM"
    and t: "ready target tiles lT msT gT eT tgt" and msT: "msT = DeviceL1 \<or> msT = DeviceDRAM"
    and log: "logicalShape l = logicalShape lT" and ag: "agrees l lT" and el: "tiled_elem e = tiled_elem eT \<longrightarrow> e = eT"
    and ml: "ms = DeviceL1 \<Longrightarrow> msT = DeviceL1 \<Longrightarrow> memoryLayout l = memoryLayout lT"
    and sharded: "ms = DeviceDRAM \<Longrightarrow> msT = DeviceL1 \<Longrightarrow> memoryLayout l \<noteq> Interleaved \<Longrightarrow> \<forall>tile\<in>set tiles. fits_grid lT g tile"
  shows "leads target (then_phase (dram_bounce target tgt) (then_phase (dram_to_l1 target tgt)
     (then_phase (tilize tgt) (then_phase (untilize target tgt) (then_phase (l1_to_dram True tgt) (late_phases tgt))))))
     (stateType st) st (\<lambda>v' st'. taken_for tgt v')"
proof -
  have st: "stateType st = mk_type l ms g e" "stateType tgt = mk_type lT msT gT eT" using r t by (simp_all add: ready_def)
  have gg: "gridOf (stateType st) = g" "gridOf (stateType tgt) = gT" using ready_fits(3) [OF r] ready_fits(3) [OF t] by simp_all
  have eT: "elementType (stateType tgt) = eT" "tileOf eT \<in> set tiles" using t by (simp_all add: ready_def)
  let ?rest = "then_phase (tilize tgt) (then_phase (untilize target tgt) (then_phase (l1_to_dram True tgt) (late_phases tgt)))"
  have L1: "leads target ?rest (stateType st1) st1 (\<lambda>v' st'. taken_for tgt v')"
    if a: "ready target tiles l1 DeviceL1 g1 e st1" "logicalShape l1 = logicalShape lT" "agrees l1 lT"
      "msT = DeviceL1 \<longrightarrow> memoryLayout l1 = memoryLayout lT"
    for l1 g1 st1
    by (rule leads_formats [OF a(1) eT el]) (rule leads_late_moving [OF t msT], use a in \<open>auto simp: moving_def\<close>)
  have skip: "dram_to_l1 target tgt st1 = Some (st1, [])" if "stateType st1 = mk_type l1 m1 g1 e" "m1 \<noteq> DeviceDRAM \<or> msT = DeviceDRAM"
    for st1 l1 m1 g1 using that by (auto simp: dram_to_l1_def Let_def st)
  consider (one) "ms = DeviceL1" | (move) "ms = DeviceDRAM" "msT = DeviceL1"
    | (bounce) "ms = DeviceDRAM" "msT = DeviceDRAM" "needsDramBounce st tgt"
    | (stay) "ms = DeviceDRAM" "msT = DeviceDRAM" "\<not> needsDramBounce st tgt" using ms msT by blast
  then show ?thesis
  proof cases
    case one
    then have "\<not> needsDramBounce st tgt" by (simp add: needsDramBounce_def Let_def st)
    then have b: "dram_bounce target tgt st = Some (st, [])" by (simp add: dram_bounce_def)
    have r1: "ready target tiles l DeviceL1 g e st" using r one by simp
    show ?thesis using log ag ml one
      by (intro leads_skip [where f = "dram_bounce target tgt", OF b] leads_skip [where f = "dram_to_l1 target tgt"] skip [OF st(1)] L1 [OF r1]) auto
  next
    case move
    then have "\<not> needsDramBounce st tgt" by (simp add: needsDramBounce_def Let_def st)
    then have b: "dram_bounce target tgt st = Some (st, [])" by (simp add: dram_bounce_def)
    have d: "leads target (dram_to_l1 target tgt) (stateType st) st (\<lambda>v st'. v = stateType st' \<and>
        (if ms = DeviceDRAM \<and> msT \<noteq> DeviceDRAM then \<exists>g'. ready target tiles lT DeviceL1 g' e st' else st' = st))"
      by (rule leads_dram_to_l1 [OF r ms t log]) (use el sharded move in auto)
    show ?thesis
    proof (rule leads_skip [where f = "dram_bounce target tgt", OF b], rule leads_then [OF d], elim conjE)
      fix v1 and st1 :: plan_state
      assume v: "v1 = stateType st1" and a: "if ms = DeviceDRAM \<and> msT \<noteq> DeviceDRAM then \<exists>g'. ready target tiles lT DeviceL1 g' e st1 else st1 = st"
      obtain g' where "ready target tiles lT DeviceL1 g' e st1" using a move by auto
      then show "leads target ?rest v1 st1 (\<lambda>v' st'. taken_for tgt v')" unfolding v by (rule L1) simp_all
    qed
  next
    case bounce
    show ?thesis
    proof (rule leads_then [OF leads_bounce [OF r ms]], elim conjE)
      fix v1 and st1 :: plan_state
      assume v: "v1 = stateType st1" and a: "if needsDramBounce st tgt then ready target tiles l DeviceL1 g e st1 else st1 = st"
      have r1: "ready target tiles l DeviceL1 g e st1" using a bounce by simp
      then have "stateType st1 = mk_type l DeviceL1 g e" by (simp add: ready_def)
      then show "leads target (then_phase (dram_to_l1 target tgt) ?rest) v1 st1 (\<lambda>v' st'. taken_for tgt v')" unfolding v
        by (intro leads_skip [where f = "dram_to_l1 target tgt"] skip L1 [OF r1 log ag]) (use bounce in auto)
    qed
  next
    case stay
    then have b: "dram_bounce target tgt st = Some (st, [])" by (simp add: dram_bounce_def)
    have q: "quiet tgt st" "taken_for tgt (stateType st) \<or> l = lT \<and> g = gT"
      using no_bounce [OF stay(3), of l g e lT gT eT] st gg stay ag by simp_all
    have t': "ready target tiles lT DeviceDRAM gT eT tgt" using t stay by simp
    have "leads target ?rest (stateType st) st (\<lambda>v' st'. taken_for tgt v')"
    proof (rule leads_formats [OF r eT el])
      fix st' :: plan_state
      assume a: "ready target tiles l ms g eT st'" "vgmForward st' = vgmForward st" "vgmInverse st' = vgmInverse st" "remapping st' = remapping st"
      have st': "stateType st' = mk_type l ms g eT" using a(1) by (simp add: ready_def)
      have "taken_for tgt (stateType st')"
      proof (cases "taken_for tgt (stateType st)")
        case True
        then have "elementType (stateType st) = elementType (stateType tgt)"
          by (auto simp: taken_for_def canUseReinterpretLayoutView_def split: option.splits prod.splits)
        then have "e = eT" by (simp add: st)
        then show ?thesis using True st st' by simp
      next
        case False
        then have "l = lT" "g = gT" using q(2) by simp_all
        then show ?thesis using stay by (simp add: taken_for_def st st')
      qed
      then show "leads target (then_phase (l1_to_dram True tgt) (late_phases tgt)) (stateType st') st' (\<lambda>v' st'. taken_for tgt v')"
        using q(1) a(2-4) stay by (intro leads_quiet [OF t']) (simp_all add: st' quiet_def)
    qed
    then show ?thesis using stay
      by (intro leads_skip [where f = "dram_bounce target tgt", OF b] leads_skip [where f = "dram_to_l1 target tgt"] skip [OF st(1)]) simp_all
  qed
qed

end

section \<open>Reaching a type\<close>

definition place_of :: "ranked_type \<Rightarrow> coord \<Rightarrow> coord" where
  "place_of t c = (case encoding t of None \<Rightarrow> c | Some (l, ms) \<Rightarrow> element_at (as_tensor t l) c)"

text \<open>Buffers of the two types hold the same data at the same places.\<close>

definition same_places :: "ranked_type \<Rightarrow> ranked_type \<Rightarrow> bool" where
  "same_places a b \<longleftrightarrow>
     typeShape a = typeShape b \<and> elementType a = elementType b \<and>
     (case (encoding a, encoding b) of
        (Some (la, ma), Some (lb, mb)) \<Rightarrow> ma = mb \<and> logicalShape la = logicalShape lb \<and> (\<forall>c. place_of a c = place_of b c)
      | _ \<Rightarrow> False)"

definition reaches_type :: "plan_state \<Rightarrow> ranked_type \<Rightarrow> bool" where
  "reaches_type tgt v \<longleftrightarrow> v = stateType tgt \<or> same_places v (stateType tgt)"

lemma taken_for_reaches: "taken_for tgt v \<Longrightarrow> reaches_type tgt v"
proof -
  assume a: "taken_for tgt v"
  show "reaches_type tgt v"
  proof (cases "v = stateType tgt")
    case False
    then have c: "canUseReinterpretLayoutView v (stateType tgt)" using a by (simp add: taken_for_def)
    then obtain l ms lT msT where e: "encoding v = Some (l, ms)" "encoding (stateType tgt) = Some (lT, msT)"
      by (auto simp: canUseReinterpretLayoutView_def split: option.splits)
    have n: "getNormalizedIntervals l = getNormalizedIntervals lT"
      using a False c e by (auto simp: taken_for_def canUseReinterpretLayoutView_def agrees_def)
    have "element_at (as_tensor v l) c = element_at (as_tensor (stateType tgt) lT) c" for c
      using c e n by (simp add: canUseReinterpretLayoutView_def element_at_def layout_phys_def layout_pos_def as_tensor_def)
    then show ?thesis using c e by (simp add: reaches_type_def same_places_def place_of_def canUseReinterpretLayoutView_def)
  qed (simp add: reaches_type_def)
qed

section \<open>Plans that can be lowered\<close>

text \<open>A state on the device: its type is that of its layout on its grid, the layout can be cut in units of each
  of the tiles, and maps of a virtual grid come in pairs.\<close>

definition on_device :: "shape \<Rightarrow> int list list \<Rightarrow> plan_state \<Rightarrow> bool" where
  "on_device target tiles st =
     (let t = stateType st
      in case encoding t of
           None \<Rightarrow> False
         | Some (l, ms) \<Rightarrow> (ms = DeviceL1 \<or> ms = DeviceDRAM) \<and> t = mk_type l ms (gridOf t) (elementType t)
             \<and> list_all (fits_grid l (gridOf t)) tiles \<and> mappable target (gridOf t) \<and> (vgmForward st = None) = (vgmInverse st = None))"

definition lowerable :: "shape \<Rightarrow> plan_state \<Rightarrow> plan_state \<Rightarrow> bool" where
  "lowerable target src tgt =
     (let e = elementType (stateType src); eT = elementType (stateType tgt); tiles = [[], tileOf e, tileOf eT]
      in case (encoding (stateType src), encoding (stateType tgt)) of
           (None, None) \<Rightarrow> False
         | (None, Some (lT, msT)) \<Rightarrow> \<not> tiled_elem e \<and> (tiled_elem eT \<or> e = eT) \<and> on_device target tiles tgt
         | (Some (l, ms), None) \<Rightarrow> \<not> tiled_elem eT \<and> (tiled_elem e \<or> e = eT) \<and> on_device target tiles src
         | (Some (l, ms), Some (lT, msT)) \<Rightarrow>
             on_device target tiles src \<and> on_device target tiles tgt \<and> (tiled_elem e = tiled_elem eT \<longrightarrow> e = eT)
             \<and> logicalShape l = logicalShape lT \<and> agrees l lT
             \<and> (ms = DeviceL1 \<and> msT = DeviceL1 \<longrightarrow> memoryLayout l = memoryLayout lT)
             \<and> (ms = DeviceDRAM \<and> msT = DeviceL1 \<and> memoryLayout l \<noteq> Interleaved \<longrightarrow> list_all (fits_grid lT (gridOf (stateType src))) tiles))"

lemma on_device_ready:
  assumes "on_device target tiles st" "[] \<in> set tiles" "tileOf (elementType (stateType st)) \<in> set tiles"
  obtains l ms where "encoding (stateType st) = Some (l, ms)" "ms = DeviceL1 \<or> ms = DeviceDRAM"
    "ready target tiles l ms (gridOf (stateType st)) (elementType (stateType st)) st"
  using assms by (cases "encoding (stateType st)") (auto simp: on_device_def Let_def ready_def list_all_iff)

context affine_composer begin

lemma leads_host:
  assumes t: "ready target tiles lT msT gT eT tgt" and msT: "msT = DeviceL1 \<or> msT = DeviceDRAM"
    and s: "encoding (stateType st) = None" "elementType (stateType st) = e" "\<not> tiled_elem e"
  shows "leads target (host_to_device tgt) (stateType st) st (\<lambda>v st'. v = stateType st' \<and> ready target tiles lT msT gT e st')"
proof -
  have tt: "stateType tgt = mk_type lT msT gT eT" "gridOf (mk_type lT msT gT eT) = gT" using t ready_fits(3) [OF t] by (simp_all add: ready_def)
  have f: "\<forall>tile\<in>set tiles. fits_grid lT gT tile" "mappable target gT" "(vgmForward tgt = None) = (vgmInverse tgt = None)" "tileOf e \<in> set tiles"
    "fits_grid lT gT []" using t untiled_tile [OF s(3)] by (auto simp: ready_def)
  let ?T = "mk_type lT msT gT e" and ?out = "makeOutputSpec (mk_type lT msT gT e) (vgmForward tgt) (vgmInverse tgt)"
  have sc: "getScalarType e = e" using s(3) by (auto simp: getScalarType_def tiled_elem_def split: element.splits)
  have sh: "getDeviceShape lT gT (tileOf e) = Some (typeShape ?T)" using f(5) untiled_tile [OF s(3)] by (intro fits_mk) simp
  have "createDeviceType (stateType st) (lT, msT) (stateType tgt) = Some ?T"
    using sh by (simp add: createDeviceType_def tt s(2) mk_type_fold)
  moreover have "?T\<lparr>elementType := getScalarType e\<rparr> = ?T" by (simp add: sc mk_type_def)
  ultimately have ph: "host_to_device tgt st = Some (updateStateFromOutput st ?out None, [HostToDeviceStep ?out])"
    using s(1,2) by (simp add: host_to_device_def tt Let_def)
  have ce: "createEmpty ops target ?out = Some ?T" by (rule createEmpty_ready [OF f(1,4,2,3)])
  have lo: "lowerSystemLayoutChange (stateType st) ?T = Some ?T" using s(1) msT by (auto simp: lowerSystemLayoutChange_def isSystem_def [of "stateType st"])
  have re: "ready target tiles lT msT gT e (updateStateFromOutput st ?out None)" by (rule ready_output [OF t f(4,3,1,2)])
  show ?thesis using ce lo re
    by (intro leads_step [where f = "host_to_device tgt", OF ph]) (simp_all add: step_chained_def updateStateFromOutput_def makeOutputSpec_def)
qed

lemma leads_to_host:
  assumes r: "ready target tiles l ms g e st" and ms: "ms = DeviceL1 \<or> ms = DeviceDRAM"
    and t: "encoding (stateType tgt) = None" "elementType (stateType tgt) = eT" "\<not> tiled_elem eT" "tiled_elem e \<or> e = eT"
  shows "leads target (phases target tgt) (stateType st) st (\<lambda>v' st'. v' = stateType tgt)"
proof -
  have st: "stateType st = mk_type l ms g e" using r by (simp add: ready_def)
  have te: "tileOf eT \<in> set tiles" using r untiled_tile [OF t(3)] by (simp add: ready_def)
  have h: "host_to_device tgt st = Some (st, [])" "dram_bounce target tgt st = Some (st, [])" "dram_to_l1 target tgt st = Some (st, [])"
    using t by (simp_all add: host_to_device_def dram_bounce_def needsDramBounce_def dram_to_l1_def Let_def st)
  show ?thesis unfolding phases_split
  proof (intro leads_skip [where f = "host_to_device tgt", OF h(1)] leads_skip [where f = "dram_bounce target tgt", OF h(2)]
      leads_skip [where f = "dram_to_l1 target tgt", OF h(3)], rule leads_formats [OF r t(2) te])
    show "tiled_elem e = tiled_elem eT \<longrightarrow> e = eT" using t by blast
    fix st' :: plan_state
    assume a: "ready target tiles l ms g eT st'"
    have st': "stateType st' = mk_type l ms g eT" using a by (simp add: ready_def)
    have s: "l1_to_dram True tgt st' = Some (st', [])" "reinterpret tgt st' = Some (st', [])" "mapping_change tgt st' = Some (st', [])"
      "l1_to_dram False tgt st' = Some (st', [])" "rebuffer tgt st' = Some (st', [])"
      using t(1) by (simp_all add: l1_to_dram_def reinterpret_def canUseReinterpretLayoutView_def mapping_change_def rebuffer_def Let_def hasLayout_def isSystem_def st')
    have m: "leads target (apply_remapping tgt) (stateType st') st' (\<lambda>v' st''. v' = mk_type l ms g eT \<and> stateType st'' = mk_type l ms g eT)"
    proof (cases "apply_remapping tgt st' = Some (st', [])")
      case True
      then show ?thesis using st' by (intro leads_none [where f = "apply_remapping tgt", OF True]) simp
    next
      case False
      then obtain m where m: "apply_remapping tgt st' = Some (st'\<lparr>remapping := Some m\<rparr>, [RemapStep (stateType st') m])"
        by (auto simp: apply_remapping_def split: option.splits if_split_asm)
      show ?thesis by (intro leads_step [where f = "apply_remapping tgt", OF m]) (simp_all add: step_chained_def st')
    qed
    have d: "leads target (then_phase (device_to_host tgt) (\<lambda>st. Some (st, []))) (mk_type l ms g eT) st'' (\<lambda>v' st'. v' = stateType tgt)"
      if q: "stateType st'' = mk_type l ms g eT" for st''
    proof -
      have ph: "then_phase (device_to_host tgt) (\<lambda>st. Some (st, [])) st'' = Some (st'', [DeviceToHostStep (stateType tgt)])"
        using t(1) by (simp add: then_phase_def device_to_host_def q hasLayout_def [of "stateType tgt"])
      have ce: "createEmpty ops target (makeOutputSpec (stateType tgt) None None) = Some (stateType tgt)"
        using t(1) by (simp add: createEmpty_def makeOutputSpec_def Let_def hasLayout_def)
      have "lowerSystemLayoutChange (mk_type l ms g eT) (stateType tgt) = Some (stateType tgt)"
        using ms t(1) by (auto simp: lowerSystemLayoutChange_def isSystem_def [of "stateType tgt"])
      then show ?thesis using ce by (intro leads_one [where f = "then_phase (device_to_host tgt) (\<lambda>st. Some (st, []))", OF ph]) (simp_all add: step_chained_def)
    qed
    show "leads target (then_phase (l1_to_dram True tgt) (late_phases tgt)) (stateType st') st' (\<lambda>v' st'. v' = stateType tgt)"
      unfolding late_phases_def end_phases_def
      by (intro leads_skip [where f = "l1_to_dram True tgt", OF s(1)] leads_skip [where f = "reinterpret tgt", OF s(2)]
          leads_skip [where f = "mapping_change tgt", OF s(3)] leads_skip [where f = "l1_to_dram False tgt", OF s(4)]
          leads_skip [where f = "rebuffer tgt", OF s(5)], rule leads_then [OF m], elim conjE) (simp add: d)
  qed
qed

lemma leads_plan:
  assumes "leads target (phases target tgt) (stateType src) src (\<lambda>v st. taken_for tgt v)"
  shows "\<exists>p v. canonicalize src tgt target = Some p \<and> emit_plan ops simplify target (stateType src) (minimize p) = Some v
    \<and> reaches_type tgt v"
proof -
  obtain st p v where p: "phases target tgt src = Some (st, p)" "chained (stateType src) p"
    "emit_plan ops simplify target (stateType src) p = Some v" "reaches_type tgt v" using assms by (auto simp: leads_def dest: taken_for_reaches)
  have "emit_plan ops simplify target (stateType src) (minimize p) = Some v" using minimize_emits [OF p(2,3)] by simp
  then show ?thesis using p by (simp add: canonicalize_def)
qed

lemma lowerable_leads:
  assumes "lowerable target src tgt"
  shows "leads target (phases target tgt) (stateType src) src (\<lambda>v st. taken_for tgt v)"
proof -
  define tiles where "tiles = [[], tileOf (elementType (stateType src)), tileOf (elementType (stateType tgt))]"
  have tl: "[] \<in> set tiles" "tileOf (elementType (stateType src)) \<in> set tiles" "tileOf (elementType (stateType tgt)) \<in> set tiles"
    by (simp_all add: tiles_def)
  note low = assms [unfolded lowerable_def Let_def, folded tiles_def]
  show ?thesis
  proof (cases "encoding (stateType tgt)")
    case None
    then obtain l ms where e: "encoding (stateType src) = Some (l, ms)" using low by (cases "encoding (stateType src)") auto
    then have o: "on_device target tiles src" "\<not> tiled_elem (elementType (stateType tgt))"
      "tiled_elem (elementType (stateType src)) \<or> elementType (stateType src) = elementType (stateType tgt)" using low None by simp_all
    obtain l' ms' where r: "ms' = DeviceL1 \<or> ms' = DeviceDRAM"
      "ready target tiles l' ms' (gridOf (stateType src)) (elementType (stateType src)) src" by (rule on_device_ready [OF o(1) tl(1,2)])
    show ?thesis by (rule leads_weaken [OF leads_to_host [OF r(2,1) None refl o(2,3)]]) (simp add: taken_for_def)
  next
    case (Some p)
    then have o: "on_device target tiles tgt" using low by (cases "encoding (stateType src)") (auto split: prod.splits)
    obtain lT msT where t: "encoding (stateType tgt) = Some (lT, msT)" "msT = DeviceL1 \<or> msT = DeviceDRAM"
      "ready target tiles lT msT (gridOf (stateType tgt)) (elementType (stateType tgt)) tgt" by (rule on_device_ready [OF o tl(1,3)])
    show ?thesis
    proof (cases "encoding (stateType src)")
      case None
      then have h: "\<not> tiled_elem (elementType (stateType src))"
        "tiled_elem (elementType (stateType tgt)) \<or> elementType (stateType src) = elementType (stateType tgt)" using low t(1) by simp_all
      show ?thesis unfolding phases_split
      proof (rule leads_then [OF leads_host [OF t(3,2) None refl h(1)]], elim conjE)
        fix v and st' :: plan_state
        assume v: "v = stateType st'" and r: "ready target tiles lT msT (gridOf (stateType tgt)) (elementType (stateType src)) st'"
        have f: "\<forall>tile\<in>set tiles. fits_grid lT (gridOf (stateType tgt)) tile" using r by (simp add: ready_def)
        show "leads target (then_phase (dram_bounce target tgt) (then_phase (dram_to_l1 target tgt) (then_phase (tilize tgt)
          (then_phase (untilize target tgt) (then_phase (l1_to_dram True tgt) (late_phases tgt)))))) v st' (\<lambda>v' st'. taken_for tgt v')"
          unfolding v by (rule leads_device [OF r t(2,3,2)]) (use h f in auto)
      qed
    next
      case (Some q)
      obtain l ms where q: "q = (l, ms)" by fastforce
      have s: "on_device target tiles src" "tiled_elem (elementType (stateType src)) = tiled_elem (elementType (stateType tgt))
          \<longrightarrow> elementType (stateType src) = elementType (stateType tgt)" "logicalShape l = logicalShape lT" "agrees l lT"
        "ms = DeviceL1 \<Longrightarrow> msT = DeviceL1 \<Longrightarrow> memoryLayout l = memoryLayout lT"
        "ms = DeviceDRAM \<Longrightarrow> msT = DeviceL1 \<Longrightarrow> memoryLayout l \<noteq> Interleaved \<Longrightarrow> \<forall>tile\<in>set tiles. fits_grid lT (gridOf (stateType src)) tile"
        using low t(1) Some by (simp_all add: q list_all_iff)
      obtain l' ms' where r': "encoding (stateType src) = Some (l', ms')" "ms' = DeviceL1 \<or> ms' = DeviceDRAM"
        "ready target tiles l' ms' (gridOf (stateType src)) (elementType (stateType src)) src" by (rule on_device_ready [OF s(1) tl(1,2)])
      have r: "ms = DeviceL1 \<or> ms = DeviceDRAM" "ready target tiles l ms (gridOf (stateType src)) (elementType (stateType src)) src"
        using r' Some q by simp_all
      have h: "host_to_device tgt src = Some (src, [])" using Some by (simp add: host_to_device_def)
      show ?thesis unfolding phases_split
        by (rule leads_skip [where f = "host_to_device tgt", OF h], rule leads_device [OF r(2,1) t(3,2) s(3,4,2,5,6)])
    qed
  qed
qed

end

section \<open>Properties\<close>

text \<open>C21: From any supported source to any supported target the planner fails none of its assertions, its plan
  can be emitted once it is minimised, and the value that comes out has the type of the target, or one of the
  same shape, elements and memory in which every element of the tensor has the same place. Supported are scalars
  of the host and tensors on the device whose layouts can be cut into the shards of their grids, in units of the
  tiles of both sides: of the same logical shape and element type or between tiles and scalars, with the same
  memory layout if both are in L1, with a target that can also be cut for the grid of a source sharded in DRAM
  if it is moved to L1, and with the same collapsed dimensions where nothing else tells the layouts
  apart.\<close>

theorem lowering_reaches_target:
  assumes "legal_affine ops" "legal_compose ops" "legal_simplify simplify" "lowerable target src tgt"
  shows "\<exists>p v. canonicalize src tgt target = Some p \<and> emit_plan ops simplify target (stateType src) (minimize p) = Some v
    \<and> reaches_type tgt v"
proof -
  have a: "affine_composer ops simplify" using assms(1-3) by unfold_locales
  show ?thesis by (rule affine_composer.leads_plan [OF a affine_composer.lowerable_leads [OF a assms(4)]])
qed

text \<open>Tiles in L1 on one core, and the same tensor padded further over two rows and two columns of cores
  in DRAM.\<close>

definition bf16_tile :: element where
  "bf16_tile = TileElem [32, 32] BFloat16"

definition narrow_layout :: metal_layout where
  "narrow_layout = \<lparr>logicalShape = [60, 60], dimAlignments = [32, 32], collapsedIntervals = [(0, 1), (1, 2)], memoryLayout = Sharded\<rparr>"

definition wide_layout :: metal_layout where
  "wide_layout = \<lparr>logicalShape = [60, 60], dimAlignments = [64, 128], collapsedIntervals = [(0, 1), (1, 2)], memoryLayout = Interleaved\<rparr>"

definition plain_state :: "ranked_type \<Rightarrow> plan_state" where
  "plain_state t = \<lparr>stateType = t, remapping = None, vgmForward = None, vgmInverse = None\<rparr>"

definition narrow_tiles :: plan_state where
  "narrow_tiles = plain_state \<lparr>typeShape = [1, 1, 2, 2], elementType = bf16_tile, encoding = Some (narrow_layout, DeviceL1)\<rparr>"

definition wide_tiles :: plan_state where
  "wide_tiles = plain_state \<lparr>typeShape = [2, 2, 1, 2], elementType = bf16_tile, encoding = Some (wide_layout, DeviceDRAM)\<rparr>"

theorem lowering_reaches_target_witness:
  "\<exists>p v. canonicalize narrow_tiles wide_tiles [8, 8] = Some p \<and>
     emit_plan folding_ops folding_simplify [8, 8] (stateType narrow_tiles) (minimize p) = Some v \<and> reaches_type wide_tiles v"
proof -
  have "lowerable [8, 8] narrow_tiles wide_tiles" by code_simp
  then show ?thesis by (rule lowering_reaches_target [OF legal_folding legal_compose_folding legal_folding_simplify])
qed

text \<open>C22: Minimising a plan is a sequence of cancellations and fusions that ends where none is left, and a plan
  whose format conversions name the types before them, and whose reshards stand between tensors that have a
  place, yields a value of the same type afterwards.\<close>

theorem minimize_keeps_result:
  assumes "legal_affine ops" "legal_compose ops" "legal_simplify simplify"
    "chained t p" "emit_plan ops simplify target t p = Some v"
  shows "reduces\<^sup>*\<^sup>* p (minimize p) \<and> irreducible (minimize p) \<and> emit_plan ops simplify target t (minimize p) = Some v"
proof -
  have a: "affine_composer ops simplify" using assms(1-3) by unfold_locales
  show ?thesis using minimize_normal affine_composer.minimize_emits [OF a assms(4,5)] by blast
qed

definition scalar_narrow :: ranked_type where
  "scalar_narrow = \<lparr>typeShape = [1, 1, 64, 64], elementType = ScalarElem BFloat16Type, encoding = Some (narrow_layout, DeviceL1)\<rparr>"

definition there_and_back :: "step list" where
  "there_and_back =
     (let tiles = makeOutputSpec (stateType narrow_tiles) None None; scalars = makeOutputSpec scalar_narrow None None
      in [TilizeStep [32, 32] scalar_narrow tiles, UntilizeStep (stateType narrow_tiles) scalars,
          TilizeStep [32, 32] scalar_narrow tiles])"

theorem minimize_keeps_result_witness:
  "irreducible (minimize there_and_back) \<and>
     emit_plan folding_ops folding_simplify [8, 8] scalar_narrow (minimize there_and_back) = Some (stateType narrow_tiles)"
proof -
  have "chained scalar_narrow there_and_back"
    "emit_plan folding_ops folding_simplify [8, 8] scalar_narrow there_and_back = Some (stateType narrow_tiles)" by code_simp+
  from minimize_keeps_result [OF legal_folding legal_compose_folding legal_folding_simplify this] show ?thesis by blast
qed

section \<open>Where data is lost\<close>

text \<open>Buffers of equal volume are reblocked by their linear order even where their padding differs: the second
  row of the tensor is then read from the padding of the first.\<close>

definition rows_padded :: ranked_type where
  "rows_padded = \<lparr>typeShape = [1, 1, 32, 128], elementType = ScalarElem BFloat16Type, encoding = Some (\<lparr>logicalShape = [30, 60],
     dimAlignments = [32, 128], collapsedIntervals = [(0, 1), (1, 2)], memoryLayout = Sharded\<rparr>, DeviceL1)\<rparr>"

definition padded_both :: ranked_type where
  "padded_both = \<lparr>typeShape = [1, 1, 64, 64], elementType = ScalarElem BFloat16Type, encoding = Some (\<lparr>logicalShape = [30, 60],
     dimAlignments = [64, 64], collapsedIntervals = [(0, 1), (1, 2)], memoryLayout = Sharded\<rparr>, DeviceDRAM)\<rparr>"

theorem equal_volume_misreads:
  "lowerable [8, 8] (plain_state rows_padded) (plain_state padded_both) \<and>
   canonicalize (plain_state rows_padded) (plain_state padded_both) [8, 8] = Some [L1ToDRAMStep (makeOutputSpec padded_both None None)] \<and>
   place_of rows_padded [1, 0] = [0, 0, 1, 0] \<and> place_of padded_both [1, 0] = [0, 0, 1, 0] \<and>
   map_option (\<lambda>(w, m). compose_map m [0, 0, 1, 0]) (concrete_view folding_ops folding_simplify padded_both rows_padded) = Some [0, 0, 2, 0]"
  by (intro conjI; code_simp)

text \<open>The planner does not compare collapsed dimensions: a buffer is taken for one whose layout collapses
  others.\<close>

definition collapsed_as :: "(int \<times> int) list \<Rightarrow> ranked_type" where
  "collapsed_as ivs = \<lparr>typeShape = [1, 1, 64, 32], elementType = ScalarElem BFloat16Type, encoding = Some (\<lparr>logicalShape = [1, 2, 1, 32],
     dimAlignments = [64, 1, 32, 32], collapsedIntervals = ivs, memoryLayout = Sharded\<rparr>, DeviceL1)\<rparr>"

theorem reinterpret_ignores_collapse:
  "canonicalize (plain_state (collapsed_as [(0, 2), (2, 4)])) (plain_state (collapsed_as [(0, 3), (3, 4)])) [8, 8] = Some [] \<and>
   place_of (collapsed_as [(0, 2), (2, 4)]) [0, 1, 0, 0] \<noteq> place_of (collapsed_as [(0, 3), (3, 4)]) [0, 1, 0, 0]"
  by (intro conjI; code_simp)

end
