(* ===== verification/Spec2Isabelle.thy ===== *)
theory Spec2Isabelle
  imports PlannerProps TrackerProps MockTracker SpillProps TirProps TirVerify PoolProps SchedDriver NarrowProps DstExamples
    AffineProps AnalyticProps GridProps DeviceProps GraphSched ConstEvalProps TripProps DramProps DedupInits TopKSplit LayoutMapProps LowerPlanProps
begin

text \<open>
  tt-mlir compiles programs of the StableHLO, TOSA and PyTorch front ends to Tenstorrent devices. A
  program is first expressed in the TTIR dialect, whose operations are hardware independent. It then
  takes one of two paths: TTNN, where each operation is a call of the TTNN library and an optimizer
  places tensors in DRAM or in the L1 memory of the cores, or D2M, where operations become generic
  regions over tiles that are fused, scheduled, given memory by a planner and lowered to kernels. This
  development models the parts of the compiler that decide something by themselves: which operations
  are legal, which rewrites keep their meaning, where buffers are placed, in which order operations are
  executed, how results share the destination register, how tensors are laid out over a grid of cores
  and which parts of a program are evaluated once.

  \<^bold>\<open>The shared library.\<close> \<open>Prelude\<close> has the hint collections, the result type of code that
  fails and facts on sorted lists, intervals and words. \<open>Queues\<close> states the contracts of
  \<open>std::priority_queue\<close> (locale \<open>pop_queue\<close>) and \<open>llvm::IntervalTree\<close> (locale
  \<open>interval_index\<close>) with executable instances. \<open>Tensors\<close> models the shape arithmetic of
  \<open>include/ttmlir/Utils.h\<close>: \<open>volume\<close>, \<open>calculateStrides\<close>, \<open>inversePermutation\<close>,
  \<open>applyPermutation\<close>, and the walk through coordinates in row-major order; the locale
  \<open>row_major\<close> is the addressing contract that the walk and the strides share.

  \<^bold>\<open>D2M memory planner\<close> (\<open>lib/Dialect/D2M/Analysis/Allocation/Planner.cpp\<close>).
  \<open>PlannerModel\<close> has the problem (requests, variables with their domains, the builder);
  \<open>PlannerAlloc\<close> the bumper and the greedy allocator; \<open>PlannerVerify\<close> \<open>analyze\<close> and
  \<open>verify\<close>; \<open>PlannerSpill\<close> \<open>spillAllocate\<close>, which ranks variables and bisects the number
  of spilled ones; \<open>PlannerPlans\<close> the invariants of the allocation loops. \<open>PlannerProps\<close> shows that
  every plan is free of conflicts, that \<open>verify\<close> decides this, that variables are ranked by their pressure and
  that the spilled prefix of the ranking is locally minimal. The order in which equal elements leave the queue, the order of intervals in a
  query and the result of \<open>std::sort\<close> among equals are arguments: the properties hold for every
  legal choice.

  \<^bold>\<open>TTNN L1 spill management\<close> (\<open>lib/Dialect/TTNN/Analysis/L1SpillManagement.cpp\<close>).
  \<open>TrackerModel\<close> is \<open>SumL1MemoryTracker\<close> (free list, occupied slots, aliases),
  \<open>TrackerInv\<close> its invariant, \<open>TrackerProps\<close> the state machine of its calls; \<open>MockTracker\<close> is
  \<open>MockAllocatorL1Tracker\<close>, the second implementation of the interface, with reference counts as
  32-bit words. \<open>SpillLog\<close> is the event log with its snapshots and the replay after an
  eviction, and \<open>SpillProps\<close> shows that the incremental rebuild is the run of the remaining log, also when
  evictions rewire views and after a flush of the whole memory. What a step reads of the IR is an argument of it.

  \<^bold>\<open>TTIR tensor manipulation\<close> (\<open>lib/Dialect/TTIR/IR/TTIROps.cpp\<close>). \<open>TirModel\<close> has the
  operations and one verifier for each; \<open>TirSem\<close> the meaning of a value as the element of an
  argument at each coordinate; \<open>TirFold\<close> the folders, \<open>TirConst\<close> the constant folders and
  \<open>TirCanon\<close> the canonicalization patterns. \<open>TirFoldSound\<close> and \<open>TirConcatSound\<close> have a
  soundness lemma for each folder. \<open>TirProps\<close> combines them: operations that are verified and have the
  documented shapes, which the verifiers of concat and transpose do not check, read within bounds, and folds and
  patterns keep their shapes and elements; two theorems show where the code does not (a
  slice with bounds counted from the end, a negative dimension of repeat_interleave).
  \<open>TirVerify\<close> says what the verifiers of matmul and of reductions accept.

  \<^bold>\<open>TTIR convolution and pooling\<close> (\<open>lib/Dialect/TTIR/Utils/VerificationUtils.cpp\<close>).
  \<open>ConvModel\<close> and \<open>PoolModel\<close> model the verifiers with the attribute readers, at the widths of the
  code: strides, dilations, paddings and groups are 32-bit words, sizes are 64-bit integers.
  \<open>ConvProps\<close> and \<open>PoolProps\<close> show that in range the accepted sizes are those of exact arithmetic, with an
  example each of what is accepted out of range.

  \<^bold>\<open>D2M operation scheduler\<close> (\<open>lib/Dialect/D2M/Transforms/OpScheduler.cpp\<close>).
  \<open>SchedModel\<close> builds the operation tree of a loop body, weighs it (Sethi and Ullman) and moves the
  operations. \<open>SchedTree\<close> and \<open>SchedProps\<close> show that a body without shared operations stays valid,
  \<open>SchedRegs\<close> and \<open>SchedOptimal\<close> that no evaluation order needs fewer registers, and \<open>SchedDriver\<close>
  that the builder and the rewriter return, with the body that a shared load breaks.

  \<^bold>\<open>Data types and the destination register\<close> (\<open>include/ttmlir/Dialect/TTCore/IR/TTCoreOpsTypes.h\<close>,
  \<open>lib/Dialect/D2M/Utils/DstRegisterAnalysis.cpp\<close>). \<open>DataTypes\<close> has the element types, the narrowing
  test and the capacity of the register; \<open>NarrowProps\<close> shows that a conversion that is not narrowing
  loses no value, block formats aside. \<open>DstModel\<close> chooses chunks and merges the results of a region,
  \<open>DstProps\<close> and \<open>DstPacking\<close> show that the recorded chunks cover their shards within the capacity, and which
  results are recorded;
  \<open>DstExamples\<close> has the region where the fallback along the shared rows exceeds it.

  \<^bold>\<open>Affine maps\<close> (\<open>include/ttmlir/AffineMapUtils.h\<close>,
  \<open>lib/Dialect/D2M/Utils/AffineMapAnalysis.cpp\<close>, \<open>lib/Dialect/D2M/Utils/VirtualGrid.cpp\<close>).
  \<open>AffineModel\<close> has expressions, maps and the record \<open>affine_ops\<close> of MLIR's simplifying operators,
  whose documented meaning is \<open>legal_affine\<close>; the locale \<open>affine_builder\<close> proves what expressions
  built with them evaluate to, and is interpreted for an executable folding instance. \<open>AffineCompile\<close> is
  the compiler of maps to a register machine and its interpreter, \<open>Coalesce\<close> the sampling of the
  compiled map for the longest contiguous transfers, over the row-major walk of \<open>RowWalk\<close>.
  \<open>AffineRange\<close> drops divisions that ranges make redundant, \<open>GapModel\<close> is the dynamic program over
  remainders, \<open>AffineMaps\<close> builds the maps between grids of shards, physical shapes and virtual
  grids, and \<open>AffineReblock\<close> says what they compute. \<open>AffineProps\<close> has the properties, with two theorems
  where the code goes wrong (a coalescing factor without grid dimensions, a negative factor of a mod).
  \<open>Contiguity\<close> and \<open>AnalyticFactor\<close> are the analysis that avoids the sampling; \<open>AnalyticProps\<close>
  shows that it is right for strided maps and overstates the factor for some remainders and divisions.

  \<^bold>\<open>Layouts, grids and devices\<close> (\<open>lib/Dialect/TTCore/IR/TTCoreOpsTypes.cpp\<close>,
  \<open>lib/Dialect/D2M/Utils/GridSelectionUtils.cpp\<close>, \<open>lib/Dialect/D2M/Analysis/GridAnalysis.cpp\<close>).
  \<open>Layouts\<close> is \<open>MetalLayoutAttr\<close>, \<open>LayoutFacts\<close> the collapse stages behind its shapes and strides;
  \<open>GridSelect\<close> chooses grids and the alignments that make a layout divisible by them, with the facts in
  \<open>GridFacts\<close> and \<open>GridSearch\<close>. \<open>GridProps\<close> shows that host strides never alias, that the
  searches find a legal grid when there is one and the best virtual grid, and that selection for the default
  collapse fails none of its assertions. \<open>DeviceMaps\<close> has the maps from shards to DRAM and L1, \<open>DeviceProps\<close> their
  injectivity. \<open>LayoutMaps\<close> has the maps between logical, physical and device coordinates of
  \<open>lib/Dialect/TTCore/Utils/AffineMapUtils.cpp\<close> and the map from one layout to another, with the
  locale \<open>affine_composer\<close> for composed and simplified maps; \<open>LayoutMapProps\<close> shows that it fetches
  every element from its place, for the alignments of tiles, device grids and selected grids, and two layouts for which
  it does not. \<open>Factors\<close> is the enumeration of the factors of an integer.
  \<open>LowerPlan\<close> is the planner of \<open>lib/Dialect/D2M/Transforms/LowerToLayout\<close>, one function for each
  phase of \<open>canonicalize\<close>, the minimiser, and the types and checks of the emitted steps;
  \<open>LowerPlanProps\<close> follows the phases with the judgement \<open>leads\<close> and shows that supported changes of
  layout reach the type of their target, or one that places every element alike, that minimising does not change where a plan ends, and two changes that misplace
  elements. Where elements go is proved for the layout maps, not for whole plans.

  \<^bold>\<open>Graph scheduler and constant hoisting\<close> (\<open>lib/Scheduler/Scheduler.cpp\<close>,
  \<open>lib/Transforms/ConstEvalHoist.cpp\<close>). \<open>GraphSched\<close> models the scheduler and a client that drives
  it with any choice among the offered operations; it ends with everything scheduled. \<open>UnionFind\<close> has
  the disjoint sets with path compression and their contract, the locale \<open>disjoint_sets\<close>;
  \<open>ConstEval\<close> the analysis that uses them, \<open>ConstEvalFacts\<close> the inductive reference of constant
  operations and \<open>ConstEvalProps\<close> the proof that subgraphs are its connected components.

  \<^bold>\<open>Counted loops\<close> (\<open>lib/Dialect/TTIR/Transforms/WhileTripCount.cpp\<close>,
  \<open>runtime/lib/ttnn/operations/control_flow/while_op.cpp\<close>). \<open>TripCount\<close> has the verifier of
  \<open>ttir.while\<close>, the recognition of constants and of the counted form, the count on 128-bit words, and
  the loop of the runtime over values that are one integer or opaque data. Its lemmas relate what is
  recognised to what the regions compute; \<open>TripProps\<close> shows that the annotation keeps the result, and two
  loops for which it does not.

  \<^bold>\<open>Matmul configurations\<close> (\<open>lib/Dialect/TTNN/Analysis/MatmulProgramConfig.cpp\<close>,
  \<open>lib/Dialect/TTNN/Analysis/OpRules/MatmulRules.cpp\<close>). \<open>MatmulConfig\<close> generates the multicast
  configurations and \<open>MatmulProps\<close> shows that they meet the constraints of the kernel. \<open>DramShard\<close> has
  the eligibility, geometry and plans of matmuls over DRAM-sharded weights, the builder of TTNN layouts
  (\<open>lib/Dialect/TTNN/IR/TTNNOpsAttrs.cpp\<close>) on sharded layouts, and the hints and operand layouts of the rule
  book; \<open>DramProps\<close> shows that planning does not fail, that the block is the widest that fits, and that the
  layouts that are built pass the check of the hint. Both have an example of a batch that is not covered. \<open>LlvmMath\<close> is the contract of LLVM's
  rounding divisions, which poolings use as well.

  \<^bold>\<open>Top-k and kernels\<close> (\<open>lib/Dialect/D2M/Analysis/TopKShardingStrategy.cpp\<close>,
  \<open>lib/Dialect/TTKernel/Transforms/DedupInits.cpp\<close>). \<open>TopKSplit\<close> chooses how a top-k is cut into bands,
  slices and merge rounds, and shows that the choice is exact on the splits it searches.
  \<open>DedupInits\<close> removes init operations of a kernel over an abstract hardware, with the
  simulation that shows every operation to run under the same configuration.

  \<^bold>\<open>How the parts interact.\<close> The verifiers of TTIR are the precondition of its folders and
  patterns, which is the form the theorems of \<open>TirProps\<close> take. The spill log drives the tracker; it is
  proved for the model of the tracker, on whose invariant it rests. In D2M the scheduler orders the
  operations of a region, the packing assigns their results to the destination register, and the
  planner places the buffers that the region reads and writes. Grid selection takes a layout's physical
  shape and gives the layout new alignments; the device shape that results is the shape of the grid of
  shards that reblocking maps, device maps and the coalescing of transfers work on.

  \<^bold>\<open>Arithmetic.\<close> 64-bit sizes are \<open>int\<close> where the code has \<open>int64_t\<close> and no operation of the
  model reaches the bounds for shapes that fit in memory, and the ratios of sizes that grid selection
  computes as doubles are rationals; where the code wraps on purpose or can wrap
  (reference counts, addresses of the tracker, convolution attributes) the width is kept, with
  words or with the modulus written out. Division by zero and failed assertions are values.

  \<^bold>\<open>Recursion.\<close> Loops over lists are structural. The bisection recurses on the width of the
  interval, the count of its steps is bounded by \<open>PlannerProps.spill_allocate_steps\<close>. The operation tree is built
  with fuel, the length of the body: \<open>SchedDriver.op_tree_built\<close> shows that this is
  enough whenever operands precede their users. The client of the graph scheduler is driven for as many
  rounds as there are operations, which \<open>GraphSched.scheduler_completes\<close> shows to be what it takes.
  The analyses of expressions take the number of nodes of the expression as fuel, enough for every
  call on a part of it and for the divisions they fuse. Finding the root of a value follows parents as far as they go (\<open>partial_function\<close>); it returns
  whenever the parents are rooted, which every operation keeps.

  The runtime's loop is total because a counted loop is bounded by its count and any other by the
  bound on iterations.

  \<^bold>\<open>Parameters.\<close> Code outside the repository is an argument of the definitions: the priority
  queue, the interval tree, the order of \<open>std::sort\<close>, MLIR's broadcasting of batch dimensions, the
  walk over the IR that finds the operations of a region, MLIR's operators on affine expressions,
  which operations are shared by hoisting, and the op model's answers to the spill pass. Hash maps and
  sets whose order the code does not rely on are lists in order of insertion, and \<open>llvm::sort\<close> among
  intervals with one start is stable. Each has a legality hypothesis with an instance, used by the witnesses.

  \<^bold>\<open>Not modelled.\<close> The op model and the runtime only call the TTNN and tt-metal libraries. The
  conversions between dialects are several hundred patterns that rename attributes, and the
  serialisation goes through generated builders. The other D2M transforms rewrite nested regions of
  foreign dialects; the search for block factors ranks candidates by
  the sizes of buffers that other analyses answer, and the walk of grid analysis over a generic operation
  chooses among IR values of many dialects, so that both would be models of their parameters. The rewriting half of constant hoisting clones operations between
  functions. The verifiers of the TTNN dialect repeat those of TTIR. Printing, parsing, diagnostics'
  texts and pass registration are left out everywhere; each error that a verifier reports is a
  constructor of its own.
\<close>

end
